(* ===== verification/Nlm_Prelude.thy ===== *)
theory Nlm_Prelude
  imports Main "HOL-Library.Word" "HOL-Library.Monad_Syntax"
begin

unbundle bit_operations_syntax

text \<open>
  Shared vocabulary of the development: the C integer types of include/nlm_stdint.h,
  the status codes of include/nlm_error_tbl.def, the register traffic between the data
  plane and the device, and the generic lemmas on words, lists and packed bit fields
  that the component theories rest on.
\<close>

section \<open>Types\<close>

text \<open>
  The binaries the repository ships (pkg/, lib/libpacket_api_fms.a) are 64-bit big-endian
  MIPS objects, so \<^verbatim>\<open>int\<close> is 32 bits, pointers are 64 bits and bit fields are laid out
  from the most significant bit. Addresses are mathematical integers: the code only
  computes addresses inside one allocation, where C gives pointer arithmetic a meaning.
\<close>

type_synonym u8 = "8 word"
type_synonym u16 = "16 word"
type_synonym u32 = "32 word"
type_synonym u64 = "64 word"
type_synonym addr = int

abbreviation NULL :: addr where
  "NULL \<equiv> 0"

section \<open>Status codes\<close>

text \<open>
  The status codes of nlm_error_tbl.def, in the order of the table: the C enum of
  include/nlm_common_api.h numbers them from 0.
\<close>

datatype (plugins only: size) nlm_status =
    NLM_OK
  | NLM_END_OF_JOB
  | NLM_END_ANCHORED
  | NLM_BUSY
  | NLM_UNSUPPORTED
  | NLM_OUT_OF_MEMORY
  | NLM_OUT_OF_DEVICE_MEMORY
  | NLM_OUT_OF_PACKET_MEMORY
  | NLM_OUT_OF_DDR_MEMORY
  | NLM_INPUT_FIFO_FULL
  | NLM_INVALID_ARGUMENT
  | NLM_INVALID_DEVICE_CONFIG
  | NLM_INVALID_FLOW
  | NLM_INVALID_DATABASE
  | NLM_INVALID_DATABASE_ID
  | NLM_INVALID_DATABASE_CHECKSUM
  | NLM_INVALID_DATABASE_FILE_MAGIC
  | NLM_INVALID_DATABASE_VERSION
  | NLM_INVALID_DATABASE_ADDRESS
  | NLM_INVALID_DATABASE_SIZE
  | NLM_INVALID_GROUPID
  | NLM_INVALID_PACKET_SIZE
  | NLM_INVALID_JOB
  | NLM_INVALID_RING_ID
  | NLM_INCORRECT_ACCESS
  | NLM_DRIVER_FAILURE
  | NLM_DEVICE_FAILURE
  | NLM_DEVICE_PARITY_ERROR
  | NLM_DEVICE_ILLEGAL_INSTRUCTION
  | NLM_DEVICE_SRAM_ADDR
  | NLM_DEVICE_CONTEXT_FAIL
  | NLM_DEVICE_DMA_FAILURE
  | NLM_DEVICE_NFA_TIMEOUT
  | NLM_DEVICE_DFA_TIMEOUT
  | NLM_DEVICE_BUSY_POLL_TIMEOUT
  | NLM_DEVICE_NFA_STATE_LIMIT
  | NLM_DEVICE_RESULT_CLAMP
  | NLM_DEVICE_CONTEXT_CLAMP
  | NLM_DEVICE_CONTEXT_RING_EMPTY
  | NLM_INVALID_RULE_ID
  | NLM_INVALID_REGEX
  | NLM_INVALID_EMPTY_RULE_GROUP
  | NLM_PLACER_FATAL
  | NLM_PLACER_NO_GRAPH
  | NLM_LOADER_IN_PROGRESS
  | NLM_LOADER_COMMAND_FIFO_FULL
  | NLM_LOADER_BLOCK_PAUSE_TIMEOUT
  | NLM_DATABASE_UNLOADED
  | NLM_TOO_BIG
  | NLM_PARTIAL_COMPILE
  | NLM_FILE_IO_ERROR
  | NLM_MAX_ACCEPT_STATES_CLAMP
  | NLM_DDR3_UNSUPPORTED_FREQUENCY
  | NLM_DDR3_CONTROLLER_TIMEOUT
  | NLM_DDR3_DELAY_CHANGE_FAIL
  | NLM_DDR3_TUNING_MAX_DELAY_REACHED
  | NLM_DDR3_LEVELING_MAX_DELAY_REACHED
  | NLM_DEVICE_UNINITIALIZED
  | NLM_INVALID_THREAD_ID
  | NLM_EXCESS_DEVICE_ATTACH
  | NLM_DEVICE_XAUI_BUFFER_INCONSISTENT
  | NLM_DEVICE_INFINITE_LOOP
  | NLM_DEVICE_INVALID_SYSMEM
  | NLM_DEVICE_FEOF_DETECTED
  | NLM_DEVICE_TS_OVERFLOW
  | NLM_XAUI_INTERFACE_ERROR

fun nlm_status_code :: "nlm_status \<Rightarrow> nat" where
  "nlm_status_code NLM_OK = 0"
| "nlm_status_code NLM_END_OF_JOB = 1"
| "nlm_status_code NLM_END_ANCHORED = 2"
| "nlm_status_code NLM_BUSY = 3"
| "nlm_status_code NLM_UNSUPPORTED = 4"
| "nlm_status_code NLM_OUT_OF_MEMORY = 5"
| "nlm_status_code NLM_OUT_OF_DEVICE_MEMORY = 6"
| "nlm_status_code NLM_OUT_OF_PACKET_MEMORY = 7"
| "nlm_status_code NLM_OUT_OF_DDR_MEMORY = 8"
| "nlm_status_code NLM_INPUT_FIFO_FULL = 9"
| "nlm_status_code NLM_INVALID_ARGUMENT = 10"
| "nlm_status_code NLM_INVALID_DEVICE_CONFIG = 11"
| "nlm_status_code NLM_INVALID_FLOW = 12"
| "nlm_status_code NLM_INVALID_DATABASE = 13"
| "nlm_status_code NLM_INVALID_DATABASE_ID = 14"
| "nlm_status_code NLM_INVALID_DATABASE_CHECKSUM = 15"
| "nlm_status_code NLM_INVALID_DATABASE_FILE_MAGIC = 16"
| "nlm_status_code NLM_INVALID_DATABASE_VERSION = 17"
| "nlm_status_code NLM_INVALID_DATABASE_ADDRESS = 18"
| "nlm_status_code NLM_INVALID_DATABASE_SIZE = 19"
| "nlm_status_code NLM_INVALID_GROUPID = 20"
| "nlm_status_code NLM_INVALID_PACKET_SIZE = 21"
| "nlm_status_code NLM_INVALID_JOB = 22"
| "nlm_status_code NLM_INVALID_RING_ID = 23"
| "nlm_status_code NLM_INCORRECT_ACCESS = 24"
| "nlm_status_code NLM_DRIVER_FAILURE = 25"
| "nlm_status_code NLM_DEVICE_FAILURE = 26"
| "nlm_status_code NLM_DEVICE_PARITY_ERROR = 27"
| "nlm_status_code NLM_DEVICE_ILLEGAL_INSTRUCTION = 28"
| "nlm_status_code NLM_DEVICE_SRAM_ADDR = 29"
| "nlm_status_code NLM_DEVICE_CONTEXT_FAIL = 30"
| "nlm_status_code NLM_DEVICE_DMA_FAILURE = 31"
| "nlm_status_code NLM_DEVICE_NFA_TIMEOUT = 32"
| "nlm_status_code NLM_DEVICE_DFA_TIMEOUT = 33"
| "nlm_status_code NLM_DEVICE_BUSY_POLL_TIMEOUT = 34"
| "nlm_status_code NLM_DEVICE_NFA_STATE_LIMIT = 35"
| "nlm_status_code NLM_DEVICE_RESULT_CLAMP = 36"
| "nlm_status_code NLM_DEVICE_CONTEXT_CLAMP = 37"
| "nlm_status_code NLM_DEVICE_CONTEXT_RING_EMPTY = 38"
| "nlm_status_code NLM_INVALID_RULE_ID = 39"
| "nlm_status_code NLM_INVALID_REGEX = 40"
| "nlm_status_code NLM_INVALID_EMPTY_RULE_GROUP = 41"
| "nlm_status_code NLM_PLACER_FATAL = 42"
| "nlm_status_code NLM_PLACER_NO_GRAPH = 43"
| "nlm_status_code NLM_LOADER_IN_PROGRESS = 44"
| "nlm_status_code NLM_LOADER_COMMAND_FIFO_FULL = 45"
| "nlm_status_code NLM_LOADER_BLOCK_PAUSE_TIMEOUT = 46"
| "nlm_status_code NLM_DATABASE_UNLOADED = 47"
| "nlm_status_code NLM_TOO_BIG = 48"
| "nlm_status_code NLM_PARTIAL_COMPILE = 49"
| "nlm_status_code NLM_FILE_IO_ERROR = 50"
| "nlm_status_code NLM_MAX_ACCEPT_STATES_CLAMP = 51"
| "nlm_status_code NLM_DDR3_UNSUPPORTED_FREQUENCY = 52"
| "nlm_status_code NLM_DDR3_CONTROLLER_TIMEOUT = 53"
| "nlm_status_code NLM_DDR3_DELAY_CHANGE_FAIL = 54"
| "nlm_status_code NLM_DDR3_TUNING_MAX_DELAY_REACHED = 55"
| "nlm_status_code NLM_DDR3_LEVELING_MAX_DELAY_REACHED = 56"
| "nlm_status_code NLM_DEVICE_UNINITIALIZED = 57"
| "nlm_status_code NLM_INVALID_THREAD_ID = 58"
| "nlm_status_code NLM_EXCESS_DEVICE_ATTACH = 59"
| "nlm_status_code NLM_DEVICE_XAUI_BUFFER_INCONSISTENT = 60"
| "nlm_status_code NLM_DEVICE_INFINITE_LOOP = 61"
| "nlm_status_code NLM_DEVICE_INVALID_SYSMEM = 62"
| "nlm_status_code NLM_DEVICE_FEOF_DETECTED = 63"
| "nlm_status_code NLM_DEVICE_TS_OVERFLOW = 64"
| "nlm_status_code NLM_XAUI_INTERFACE_ERROR = 65"

definition nlm_status_table :: "nlm_status list" where
  "nlm_status_table =
  [NLM_OK,
   NLM_END_OF_JOB,
   NLM_END_ANCHORED,
   NLM_BUSY,
   NLM_UNSUPPORTED,
   NLM_OUT_OF_MEMORY,
   NLM_OUT_OF_DEVICE_MEMORY,
   NLM_OUT_OF_PACKET_MEMORY,
   NLM_OUT_OF_DDR_MEMORY,
   NLM_INPUT_FIFO_FULL,
   NLM_INVALID_ARGUMENT,
   NLM_INVALID_DEVICE_CONFIG,
   NLM_INVALID_FLOW,
   NLM_INVALID_DATABASE,
   NLM_INVALID_DATABASE_ID,
   NLM_INVALID_DATABASE_CHECKSUM,
   NLM_INVALID_DATABASE_FILE_MAGIC,
   NLM_INVALID_DATABASE_VERSION,
   NLM_INVALID_DATABASE_ADDRESS,
   NLM_INVALID_DATABASE_SIZE,
   NLM_INVALID_GROUPID,
   NLM_INVALID_PACKET_SIZE,
   NLM_INVALID_JOB,
   NLM_INVALID_RING_ID,
   NLM_INCORRECT_ACCESS,
   NLM_DRIVER_FAILURE,
   NLM_DEVICE_FAILURE,
   NLM_DEVICE_PARITY_ERROR,
   NLM_DEVICE_ILLEGAL_INSTRUCTION,
   NLM_DEVICE_SRAM_ADDR,
   NLM_DEVICE_CONTEXT_FAIL,
   NLM_DEVICE_DMA_FAILURE,
   NLM_DEVICE_NFA_TIMEOUT,
   NLM_DEVICE_DFA_TIMEOUT,
   NLM_DEVICE_BUSY_POLL_TIMEOUT,
   NLM_DEVICE_NFA_STATE_LIMIT,
   NLM_DEVICE_RESULT_CLAMP,
   NLM_DEVICE_CONTEXT_CLAMP,
   NLM_DEVICE_CONTEXT_RING_EMPTY,
   NLM_INVALID_RULE_ID,
   NLM_INVALID_REGEX,
   NLM_INVALID_EMPTY_RULE_GROUP,
   NLM_PLACER_FATAL,
   NLM_PLACER_NO_GRAPH,
   NLM_LOADER_IN_PROGRESS,
   NLM_LOADER_COMMAND_FIFO_FULL,
   NLM_LOADER_BLOCK_PAUSE_TIMEOUT,
   NLM_DATABASE_UNLOADED,
   NLM_TOO_BIG,
   NLM_PARTIAL_COMPILE,
   NLM_FILE_IO_ERROR,
   NLM_MAX_ACCEPT_STATES_CLAMP,
   NLM_DDR3_UNSUPPORTED_FREQUENCY,
   NLM_DDR3_CONTROLLER_TIMEOUT,
   NLM_DDR3_DELAY_CHANGE_FAIL,
   NLM_DDR3_TUNING_MAX_DELAY_REACHED,
   NLM_DDR3_LEVELING_MAX_DELAY_REACHED,
   NLM_DEVICE_UNINITIALIZED,
   NLM_INVALID_THREAD_ID,
   NLM_EXCESS_DEVICE_ATTACH,
   NLM_DEVICE_XAUI_BUFFER_INCONSISTENT,
   NLM_DEVICE_INFINITE_LOOP,
   NLM_DEVICE_INVALID_SYSMEM,
   NLM_DEVICE_FEOF_DETECTED,
   NLM_DEVICE_TS_OVERFLOW,
   NLM_XAUI_INTERFACE_ERROR]"

lemma nlm_status_table_code: "nlm_status_table ! nlm_status_code s = s"
  by (cases s) (simp_all add: nlm_status_table_def)

lemma nlm_status_code_inject [simp]: "nlm_status_code s = nlm_status_code t \<longleftrightarrow> s = t"
  by (metis nlm_status_table_code)

instantiation nlm_status :: equal
begin

definition equal_nlm_status :: "nlm_status \<Rightarrow> nlm_status \<Rightarrow> bool" where
  "equal_nlm_status s t \<longleftrightarrow> nlm_status_code s = nlm_status_code t"

instance
  by standard (simp add: equal_nlm_status_def)

end

text \<open>
  The macro TRY of nlm_system.h returns the first status that is not NLM_OK.
  An assertion that fails calls pretty_abort, which ends the process: operations that
  carry assertions return \<^typ>\<open>'a option\<close>, with \<^term>\<open>None\<close> for the abort.
\<close>

definition assert_then :: "bool \<Rightarrow> 'a option \<Rightarrow> 'a option" where
  "assert_then b k = (if b then k else None)"

lemma assert_then_True [simp]: "assert_then True k = k"
  by (simp add: assert_then_def)

lemma assert_then_eq_Some [simp]: "assert_then b k = Some x \<longleftrightarrow> b \<and> k = Some x"
  by (simp add: assert_then_def)

section \<open>Words\<close>

lemma unat_and_mask: "unat (x AND mask n :: 'a::len word) = unat x mod 2 ^ n"
proof -
  have "unat (take_bit n x) = take_bit n (unat x)"
    by (rule unsigned_take_bit_eq)
  then show ?thesis
    by (simp add: take_bit_eq_mask flip: take_bit_eq_mod)
qed

lemma unat_and_exp_minus_1:
  "unat (x AND (2 ^ n - 1) :: 'a::len word) = unat x mod 2 ^ n"
  using unat_and_mask [of x n] by (simp add: mask_eq_exp_minus_1)

text \<open>Two words are equal when they agree byte by byte.\<close>

lemma word32_bytes_eqI:
  fixes v w :: u32
  assumes "\<And>r. r < 8 \<Longrightarrow> bit v r = bit w r"
    and "\<And>r. r < 8 \<Longrightarrow> bit v (8 + r) = bit w (8 + r)"
    and "\<And>r. r < 8 \<Longrightarrow> bit v (16 + r) = bit w (16 + r)"
    and "\<And>r. r < 8 \<Longrightarrow> bit v (24 + r) = bit w (24 + r)"
  shows "v = w"
proof (rule bit_word_eqI)
  fix n assume "n < LENGTH(32)"
  then obtain q r where n: "n = 8 * q + r" and "r < 8" and "q < 4"
    using that [of "n div 8" "n mod 8"] by auto
  from \<open>q < 4\<close> have "q = 0 \<or> q = 1 \<or> q = 2 \<or> q = 3"
    by arith
  then show "bit v n = bit w n"
    unfolding n using assms \<open>r < 8\<close> by (elim disjE) simp_all
qed

lemma word64_bytes_eqI:
  fixes v w :: u64
  assumes "\<And>r. r < 8 \<Longrightarrow> bit v r = bit w r"
    and "\<And>r. r < 8 \<Longrightarrow> bit v (8 + r) = bit w (8 + r)"
    and "\<And>r. r < 8 \<Longrightarrow> bit v (16 + r) = bit w (16 + r)"
    and "\<And>r. r < 8 \<Longrightarrow> bit v (24 + r) = bit w (24 + r)"
    and "\<And>r. r < 8 \<Longrightarrow> bit v (32 + r) = bit w (32 + r)"
    and "\<And>r. r < 8 \<Longrightarrow> bit v (40 + r) = bit w (40 + r)"
    and "\<And>r. r < 8 \<Longrightarrow> bit v (48 + r) = bit w (48 + r)"
    and "\<And>r. r < 8 \<Longrightarrow> bit v (56 + r) = bit w (56 + r)"
  shows "v = w"
proof (rule bit_word_eqI)
  fix n assume "n < LENGTH(64)"
  then obtain q r where n: "n = 8 * q + r" and "r < 8" and "q < 8"
    using that [of "n div 8" "n mod 8"] by auto
  from \<open>q < 8\<close> have "q = 0 \<or> q = 1 \<or> q = 2 \<or> q = 3 \<or> q = 4 \<or> q = 5 \<or> q = 6 \<or> q = 7"
    by arith
  then show "bit v n = bit w n"
    unfolding n using assms \<open>r < 8\<close> by (elim disjE) simp_all
qed

section \<open>Lists\<close>

lemma distinct_remove_nth:
  assumes "distinct xs" and "k < length xs"
  shows "distinct (take k xs @ drop (Suc k) xs) \<and> set (take k xs @ drop (Suc k) xs) = set xs - {xs ! k}"
proof -
  have xs: "xs = take k xs @ xs ! k # drop (Suc k) xs"
    using assms(2) by (rule id_take_nth_drop)
  then have "distinct (take k xs @ xs ! k # drop (Suc k) xs)"
    using assms(1) by simp
  moreover have "set xs = set (take k xs) \<union> {xs ! k} \<union> set (drop (Suc k) xs)"
    using arg_cong [OF xs, of set] by simp
  ultimately show ?thesis by auto
qed

lemma sum_list_update_nat:
  "i < length xs \<Longrightarrow> sum_list (xs[i := y]) + xs ! i = sum_list xs + (y :: nat)"
proof (induction xs arbitrary: i)
  case (Cons x xs)
  then show ?case by (cases i) (auto simp: add.assoc add.left_commute)
qed simp

section \<open>Ring buffers\<close>

text \<open>The \<open>cnt\<close> entries of a ring of \<open>sz\<close> slots from slot \<open>start\<close> on, in order.\<close>

definition ring_list :: "nat \<Rightarrow> nat \<Rightarrow> nat \<Rightarrow> 'a list \<Rightarrow> 'a list" where
  "ring_list sz start cnt buf = map (\<lambda>k. buf ! ((start + k) mod sz)) [0..<cnt]"

lemma length_ring_list [simp]: "length (ring_list sz start cnt buf) = cnt"
  by (simp add: ring_list_def)

lemma ring_list_0 [simp]: "ring_list sz start 0 buf = []"
  by (simp add: ring_list_def)

lemma ring_list_start_mod [simp]: "ring_list sz (start mod sz) cnt buf = ring_list sz start cnt buf"
  by (simp add: ring_list_def mod_add_left_eq)

lemma ring_slots_distinct:
  assumes "k < cnt" and "cnt < sz"
  shows "(start + k) mod sz \<noteq> (start + cnt) mod (sz :: nat)"
proof
  assume "(start + k) mod sz = (start + cnt) mod sz"
  then have "sz dvd (start + cnt) - (start + k)"
    using assms by (metis add_le_cancel_left less_imp_le mod_eq_dvd_iff_nat)
  with assms show False by (auto dest: dvd_imp_le)
qed

lemma ring_list_update_outside:
  assumes "cnt < sz" and "i = (start + cnt) mod sz"
  shows "ring_list sz start cnt (buf[i := x]) = ring_list sz start cnt buf"
proof -
  have "i \<noteq> (start + k) mod sz" if "k < cnt" for k
    using ring_slots_distinct [OF that assms(1), of start] assms(2) by simp
  then show ?thesis by (simp add: ring_list_def)
qed

lemma ring_list_put:
  assumes "cnt < sz" and "length buf = sz" and "i = (start + cnt) mod sz"
  shows "ring_list sz start (Suc cnt) (buf[i := x]) = ring_list sz start cnt buf @ [x]"
  using ring_list_update_outside [OF assms(1,3), of buf x] assms
  by (simp add: ring_list_def)

lemma ring_list_get:
  "0 < cnt \<Longrightarrow> ring_list sz start cnt buf = buf ! (start mod sz) # ring_list sz (Suc start) (cnt - 1) buf"
  by (cases cnt) (simp_all add: ring_list_def map_upt_Suc del: upt_Suc)

section \<open>Linked lists\<close>

text \<open>The objects \<open>qs\<close> form a null-terminated list that starts at \<open>p\<close>.\<close>

fun chain :: "(addr \<Rightarrow> addr) \<Rightarrow> addr \<Rightarrow> addr list \<Rightarrow> bool" where
  "chain nxt p [] \<longleftrightarrow> p = NULL"
| "chain nxt p (q # qs) \<longleftrightarrow> p = q \<and> p \<noteq> NULL \<and> chain nxt (nxt p) qs"

lemma chain_cong: "(\<And>a. a \<in> set ps \<Longrightarrow> f a = g a) \<Longrightarrow> chain f p ps = chain g p ps"
  by (induction ps arbitrary: p) auto

lemma chain_not_NULL: "chain f p ps \<Longrightarrow> NULL \<notin> set ps"
  by (induction ps arbitrary: p) auto

lemma chain_head: "chain f p ps \<Longrightarrow> p \<noteq> NULL \<Longrightarrow> \<exists>qs. ps = p # qs \<and> chain f (f p) qs"
  by (cases ps) auto

lemma chain_unique: "chain f p ps \<Longrightarrow> chain f p qs \<Longrightarrow> qs = ps"
  by (induction ps arbitrary: p qs) (auto elim: chain.elims)

lemma chain_NULL [simp]: "chain f NULL ps \<longleftrightarrow> ps = []"
  by (cases ps) auto

end
