(* ===== verification/Sha2.thy ===== *)
theory Sha2
  imports Nlm_Prelude
begin

unbundle bit_operations_syntax

text \<open>
  The database checksum of lib/dataplane/sha2.c. The static variables of the file are the
  record \<open>sha_state\<close>; the functions that update them are state transformers. The section
  on correctness relates the byte-at-a-time implementation to a reference digest that
  splits the padded message into blocks of 64 bytes, says for which lengths the two agree,
  and what happens for the others.
\<close>

section \<open>Model\<close>

record sha_state =
  cnt :: u32
  total_size :: u32
  ha :: "u32 list"
  pad :: "u8 list"

definition ror :: "u32 \<Rightarrow> nat \<Rightarrow> u32" where
  "ror a n = drop_bit n a OR push_bit (32 - n) a"

definition sha_E0 :: "u32 \<Rightarrow> u32" where
  "sha_E0 a = ror a 2 XOR ror a 13 XOR ror a 22"

definition sha_E1 :: "u32 \<Rightarrow> u32" where
  "sha_E1 a = ror a 6 XOR ror a 11 XOR ror a 25"

definition sha_e0 :: "u32 \<Rightarrow> u32" where
  "sha_e0 a = ror a 7 XOR ror a 18 XOR drop_bit 3 a"

definition sha_e1 :: "u32 \<Rightarrow> u32" where
  "sha_e1 a = ror a 17 XOR ror a 19 XOR drop_bit 10 a"

definition sha_c :: "u32 \<Rightarrow> u32 \<Rightarrow> u32 \<Rightarrow> u32" where
  "sha_c x y z = z XOR (x AND (y XOR z))"

definition sha_m :: "u32 \<Rightarrow> u32 \<Rightarrow> u32 \<Rightarrow> u32" where
  "sha_m x y z = (x AND y) XOR (z AND (x XOR y))"

definition hac :: "u32 list" where
  "hac = [0x6a09e667, 0xbb67ae85, 0x3c6ef372, 0xa54ff53a,
          0x510e527f, 0x9b05688c, 0x1f83d9ab, 0x5be0cd19]"

text \<open>The table has one list per row of eight constants in the source.\<close>

definition sha256_seed :: "u32 list" where
  "sha256_seed = concat
   [[0x428a2f98, 0x71374491, 0xb5c0fbcf, 0xe9b5dba5, 0x3956c25b, 0x59f111f1, 0x923f82a4, 0xab1c5ed5],
    [0xd807aa98, 0x12835b01, 0x243185be, 0x550c7dc3, 0x72be5d74, 0x80deb1fe, 0x9bdc06a7, 0xc19bf174],
    [0xe49b69c1, 0xefbe4786, 0x0fc19dc6, 0x240ca1cc, 0x2de92c6f, 0x4a7484aa, 0x5cb0a9dc, 0x76f988da],
    [0x983e5152, 0xa831c66d, 0xb00327c8, 0xbf597fc7, 0xc6e00bf3, 0xd5a79147, 0x06ca6351, 0x14292967],
    [0x27b70a85, 0x2e1b2138, 0x4d2c6dfc, 0x53380d13, 0x650a7354, 0x766a0abb, 0x81c2c92e, 0x92722c85],
    [0xa2bfe8a1, 0xa81a664b, 0xc24b8b70, 0xc76c51a3, 0xd192e819, 0xd6990624, 0xf40e3585, 0x106aa070],
    [0x19a4c116, 0x1e376c08, 0x2748774c, 0x34b0bcb5, 0x391c0cb3, 0x4ed8aa4a, 0x5b9cca4f, 0x682e6ff3],
    [0x748f82ee, 0x78a5636f, 0x84c87814, 0x8cc70208, 0x90befffa, 0xa4506ceb, 0xbef9a3f7, 0xc67178f2]]"

text \<open>The message schedule: the first 16 words are read big-endian from the block, the
  other 48 are appended one at a time by the loop over \<^verbatim>\<open>w[i]\<close>.\<close>

definition be32 :: "u8 \<Rightarrow> u8 \<Rightarrow> u8 \<Rightarrow> u8 \<Rightarrow> u32" where
  "be32 b0 b1 b2 b3 =
     push_bit 24 (ucast b0) OR push_bit 16 (ucast b1) OR push_bit 8 (ucast b2) OR ucast b3"

definition sha_load :: "u8 list \<Rightarrow> u32 list" where
  "sha_load buf = map (\<lambda>i. be32 (buf ! (4 * i)) (buf ! (4 * i + 1)) (buf ! (4 * i + 2)) (buf ! (4 * i + 3))) [0..<16]"

definition sha_extend :: "u32 list \<Rightarrow> u32 list" where
  "sha_extend w = (let i = length w in
     w @ [sha_e1 (w ! (i - 2)) + w ! (i - 7) + sha_e0 (w ! (i - 15)) + w ! (i - 16)])"

text \<open>One iteration of the loop over \<^verbatim>\<open>tar\<close>: \<open>ks\<close> is \<^verbatim>\<open>sha256_seed[i]\<close>, \<open>wi\<close> is \<^verbatim>\<open>w[i]\<close>.\<close>

fun sha_round :: "u32 \<times> u32 \<Rightarrow> u32 list \<Rightarrow> u32 list" where
  "sha_round (ks, wi) [t0, t1, t2, t3, t4, t5, t6, t7] =
     (let a = t7 + sha_E1 t4 + sha_c t4 t5 t6 + ks + wi;
          b = sha_E0 t0 + sha_m t0 t1 t2
      in [a + b, t0, t1, t2, t3 + a, t4, t5, t6])"
| "sha_round _ tar = tar"

definition sha_compress :: "u32 list \<Rightarrow> u8 list \<Rightarrow> u32 list" where
  "sha_compress h buf =
     (let w = (sha_extend ^^ 48) (sha_load buf);
          tar = fold sha_round (zip sha256_seed w) h
      in map2 (+) h tar)"

definition nlm_sha256_xform :: "sha_state \<Rightarrow> sha_state" where
  "nlm_sha256_xform s = s\<lparr>ha := sha_compress (ha s) (pad s)\<rparr>"

definition nlm_chksum_sha256_reset :: "sha_state \<Rightarrow> sha_state" where
  "nlm_chksum_sha256_reset s = s\<lparr>cnt := 0, total_size := 0, ha := hac\<rparr>"

text \<open>\<^verbatim>\<open>nlm_chksum_sha256_add_byte\<close> returns the new \<^verbatim>\<open>cnt\<close>, which the state keeps.\<close>

definition nlm_chksum_sha256_add_byte :: "u8 \<Rightarrow> sha_state \<Rightarrow> sha_state" where
  "nlm_chksum_sha256_add_byte byte s =
     (let c = cnt s AND 0x3f
      in s\<lparr>cnt := c + 1, pad := (pad s)[unat c := byte], total_size := total_size s + 1\<rparr>)"

text \<open>The loop \<^verbatim>\<open>for (...; (0x40 - sizeof (uint32_t)) > nlm_chksum_sha256_add_byte (0););\<close>.\<close>

lemma unat_and_63: "unat (c AND 0x3f :: u32) = unat c mod 64"
  using unat_and_exp_minus_1 [of c 6] by simp

lemma unat_add_byte_cnt:
  "unat (cnt (nlm_chksum_sha256_add_byte b s)) = unat (cnt s) mod 64 + 1"
  by (simp add: nlm_chksum_sha256_add_byte_def Let_def unat_word_ariths unat_and_63)

function sha_zero_fill :: "sha_state \<Rightarrow> sha_state" where
  "sha_zero_fill s =
     (let s' = nlm_chksum_sha256_add_byte 0 s
      in if cnt s' < 60 then sha_zero_fill s' else s')"
  by pat_completeness auto
termination
proof (relation "measure (\<lambda>s. 64 - unat (cnt s) mod 64)")
  fix s s'
  assume s': "s' = nlm_chksum_sha256_add_byte 0 s" and lt: "cnt s' < 60"
  have "unat (cnt s') < 60"
    using lt by (simp add: word_less_nat_alt)
  with s' show "(s', s) \<in> measure (\<lambda>s. 64 - unat (cnt s) mod 64)"
    by (simp add: unat_add_byte_cnt)
qed simp

declare sha_zero_fill.simps [simp del]

text \<open>The \<^verbatim>\<open>do ... while\<close> loop writes four bytes; \<^verbatim>\<open>total_size\<close> is read afresh, and was
  advanced by the padding itself, in every iteration.\<close>

definition sha_len_byte :: "nat \<Rightarrow> sha_state \<Rightarrow> sha_state" where
  "sha_len_byte i s =
     nlm_chksum_sha256_add_byte (ucast (drop_bit i (push_bit 3 (total_size s)))) s"

definition nlm_chksum_sha256_post :: "sha_state \<Rightarrow> u32 list \<times> sha_state" where
  "nlm_chksum_sha256_post s =
     (let s1 = sha_zero_fill (nlm_chksum_sha256_add_byte 0x80 s);
          s2 = fold sha_len_byte [24, 16, 8, 0] s1;
          s3 = nlm_sha256_xform s2
      in (ha s3, s3))"

definition sha_absorb :: "u8 \<Rightarrow> sha_state \<Rightarrow> sha_state" where
  "sha_absorb b s =
     (let s' = nlm_chksum_sha256_add_byte b s
      in if cnt s' = 0x40 then nlm_sha256_xform s' else s')"

text \<open>A null \<open>buffer\<close> or \<open>chksum\<close> pointer is \<^term>\<open>None\<close>; \<open>chksum\<close> is the structure
  the caller passes. The result is the return code, the structure as it is left and the
  new state. The first \<open>sz\<close> bytes of the buffer are read.\<close>

definition nlm_chksum_sha256 ::
  "u8 list option \<Rightarrow> u32 \<Rightarrow> u32 list option \<Rightarrow> sha_state \<Rightarrow> u32 \<times> u32 list option \<times> sha_state" where
  "nlm_chksum_sha256 buffer sz chksum s =
     (case buffer of
        None \<Rightarrow> (6, chksum, s)
      | Some buf \<Rightarrow>
          if chksum = None \<or> sz = 0 then (6, chksum, s)
          else
            let s1 = fold sha_absorb (take (unat sz) buf) (nlm_chksum_sha256_reset s);
                (h, s2) = nlm_chksum_sha256_post s1
            in (0, Some h, s2))"

section \<open>Reference digest\<close>

text \<open>Chaining the compression function over the whole 64-byte blocks of a message.\<close>

function sha_blocks :: "u32 list \<Rightarrow> u8 list \<Rightarrow> u32 list" where
  "sha_blocks h m = (if length m < 64 then h else sha_blocks (sha_compress h (take 64 m)) (drop 64 m))"
  by pat_completeness auto
termination
  by (relation "measure (\<lambda>(h, m). length m)") auto

declare sha_blocks.simps [simp del]

text \<open>The four length bytes the code appends to a message whose whole blocks hold
  \<open>n\<close> bytes: each one is taken from the running byte count at the moment it is added.\<close>

definition sha_len_field :: "nat \<Rightarrow> u8 list" where
  "sha_len_field n =
     map (\<lambda>k. ucast (drop_bit (24 - 8 * k) (push_bit 3 (word_of_nat (n + 60 + k) :: u32)))) [0..<4]"

definition sha_padding :: "nat \<Rightarrow> u8 list" where
  "sha_padding n = 0x80 # replicate (59 - n mod 64) 0 @ sha_len_field (n - n mod 64)"

definition sha_digest :: "u8 list \<Rightarrow> u32 list" where
  "sha_digest m = sha_blocks hac (m @ sha_padding (length m))"

section \<open>Correctness\<close>

lemma sha_blocks_short: "length m < 64 \<Longrightarrow> sha_blocks h m = h"
  by (subst sha_blocks.simps) simp

lemma sha_blocks_append:
  "64 dvd length m \<Longrightarrow> sha_blocks h (m @ m') = sha_blocks (sha_blocks h m) m'"
proof (induction h m rule: sha_blocks.induct)
  case (1 h m)
  show ?case
  proof (cases "length m < 64")
    case True
    with "1.prems" have "m = []"
      by (auto dest: dvd_imp_le)
    then show ?thesis by (simp add: sha_blocks_short)
  next
    case False
    with "1.prems" have "64 dvd length (drop 64 m)"
      by simp
    with False "1.IH" have
      "sha_blocks (sha_compress h (take 64 m)) (drop 64 m @ m') =
       sha_blocks (sha_blocks (sha_compress h (take 64 m)) (drop 64 m)) m'"
      by simp
    with False show ?thesis
      by (simp add: sha_blocks.simps [of h] sha_blocks.simps [of h "m @ m'"])
  qed
qed

lemma sha_blocks_one: "length m = 64 \<Longrightarrow> sha_blocks h m = sha_compress h m"
  by (subst sha_blocks.simps) (simp add: sha_blocks_short)

lemma length_sha_round: "length t = 8 \<Longrightarrow> length (sha_round kw t) = 8"
  by (cases "(kw, t)" rule: sha_round.cases) (auto simp: Let_def)

lemma length_sha_rounds: "length t = 8 \<Longrightarrow> length (fold sha_round kws t) = 8"
  by (induction kws arbitrary: t) (simp_all add: length_sha_round)

lemma length_sha_compress: "length h = 8 \<Longrightarrow> length (sha_compress h buf) = 8"
  by (simp add: sha_compress_def Let_def length_sha_rounds)

lemma length_sha_blocks: "length h = 8 \<Longrightarrow> length (sha_blocks h m) = 8"
  by (induction h m rule: sha_blocks.induct)
     (subst sha_blocks.simps, simp add: length_sha_compress)

lemma length_sha_digest [simp]: "length (sha_digest m) = 8"
  by (simp add: sha_digest_def length_sha_blocks hac_def)

text \<open>What the state holds after the bytes \<open>m\<close>: the whole blocks are compressed, the
  rest lies at the front of \<open>pad\<close>.\<close>

definition sha_inv :: "u8 list \<Rightarrow> sha_state \<Rightarrow> bool" where
  "sha_inv m s \<longleftrightarrow>
     length (pad s) = 64 \<and>
     total_size s = word_of_nat (length m) \<and>
     unat (cnt s) mod 64 = length m mod 64 \<and>
     take (length m mod 64) (pad s) = drop (length m - length m mod 64) m \<and>
     ha s = sha_blocks hac (take (length m - length m mod 64) m)"

lemma add_byte_simps [simp]:
  "length (pad (nlm_chksum_sha256_add_byte b s)) = length (pad s)"
  "total_size (nlm_chksum_sha256_add_byte b s) = total_size s + 1"
  "ha (nlm_chksum_sha256_add_byte b s) = ha s"
  by (simp_all add: nlm_chksum_sha256_add_byte_def Let_def)

lemma pad_add_byte:
  "pad (nlm_chksum_sha256_add_byte b s) = (pad s)[unat (cnt s) mod 64 := b]"
  by (simp add: nlm_chksum_sha256_add_byte_def Let_def unat_and_63)

lemma take_list_update_snoc:
  "i < length xs \<Longrightarrow> take (Suc i) (xs[i := x]) = take i xs @ [x]"
  by (simp add: take_Suc_conv_app_nth)

lemma sha_inv_add_byte:
  assumes "sha_inv m s" and "length m mod 64 \<noteq> 63"
  shows "sha_inv (m @ [b]) (nlm_chksum_sha256_add_byte b s)"
proof -
  let ?r = "length m mod 64"
  have r: "?r < 63" using assms(2) by (simp add: less_le)
  then have S: "Suc (length m) mod 64 = Suc ?r"
    by (simp add: mod_Suc)
  have L: "length m + 1 - Suc ?r = length m - ?r" by simp
  have c: "unat (cnt (nlm_chksum_sha256_add_byte b s)) mod 64 = Suc ?r"
    using assms(1) r by (simp add: unat_add_byte_cnt sha_inv_def)
  have p: "take (Suc ?r) (pad (nlm_chksum_sha256_add_byte b s)) = drop (length m - ?r) m @ [b]"
    using assms(1) r by (simp add: pad_add_byte sha_inv_def take_list_update_snoc)
  show ?thesis
    using assms(1) c p S L by (simp add: sha_inv_def)
qed

lemma sha_inv_absorb:
  assumes "sha_inv m s"
  shows "sha_inv (m @ [b]) (sha_absorb b s)"
proof (cases "length m mod 64 = 63")
  case False
  with assms have "sha_inv (m @ [b]) (nlm_chksum_sha256_add_byte b s)"
    by (rule sha_inv_add_byte)
  moreover have "cnt (nlm_chksum_sha256_add_byte b s) \<noteq> 0x40"
  proof
    assume "cnt (nlm_chksum_sha256_add_byte b s) = 0x40"
    then have "unat (cnt s) mod 64 + 1 = unat (0x40 :: u32)"
      by (metis unat_add_byte_cnt)
    with assms False show False by (simp add: sha_inv_def)
  qed
  ultimately show ?thesis by (simp add: sha_absorb_def)
next
  case True
  let ?s = "nlm_chksum_sha256_add_byte b s"
  let ?k = "length m - 63"
  have le: "63 \<le> length m"
    using mod_less_eq_dividend [of "length m" 64] True by simp
  have dv: "64 dvd ?k"
    using True dvd_minus_mod [of 64 "length m"] by simp
  have c: "unat (cnt ?s) = 64"
    using assms True by (simp add: unat_add_byte_cnt sha_inv_def)
  then have c64: "cnt ?s = 0x40"
    by (simp add: word_unat_eq_iff)
  have m0: "Suc (length m) mod 64 = 0"
    using True by (simp add: mod_Suc)
  have p: "pad ?s = drop ?k m @ [b]"
  proof -
    have len: "length (pad ?s) = 64" and t: "take 63 (pad s) = drop ?k m"
      using assms True by (simp_all add: sha_inv_def)
    have "pad ?s = (pad s)[63 := b]"
      using assms True by (simp add: pad_add_byte sha_inv_def)
    then have "take (Suc 63) (pad ?s) = drop ?k m @ [b]"
      using take_list_update_snoc [of 63 "pad s" b] len t by simp
    then show ?thesis using len by simp
  qed
  have "sha_blocks hac (take ?k m @ drop ?k m @ [b]) = sha_compress (ha s) (pad ?s)"
    using assms True le dv p
    by (subst sha_blocks_append) (simp_all add: sha_inv_def sha_blocks_one)
  then have "sha_blocks hac (m @ [b]) = sha_compress (ha s) (pad ?s)"
    by (simp flip: append_assoc)
  with assms c64 c m0 show ?thesis
    by (simp add: sha_absorb_def nlm_sha256_xform_def sha_inv_def Let_def)
qed

lemma sha_inv_reset:
  "length (pad s) = 64 \<Longrightarrow> sha_inv [] (nlm_chksum_sha256_reset s)"
  by (simp add: sha_inv_def nlm_chksum_sha256_reset_def sha_blocks_short)

lemma sha_inv_absorb_list:
  "sha_inv m s \<Longrightarrow> sha_inv (m @ bs) (fold sha_absorb bs s)"
  by (induction bs arbitrary: m s) (simp, metis append_assoc append_Cons append_Nil fold_simps(2) sha_inv_absorb)

lemma sha_inv_add_bytes:
  "sha_inv m s \<Longrightarrow> length m mod 64 + length bs \<le> 63 \<Longrightarrow>
   sha_inv (m @ bs) (fold nlm_chksum_sha256_add_byte bs s)"
proof (induction bs arbitrary: m s)
  case (Cons b bs)
  have "sha_inv (m @ [b]) (nlm_chksum_sha256_add_byte b s)"
    using Cons.prems by (intro sha_inv_add_byte) auto
  moreover have "length (m @ [b]) mod 64 + length bs \<le> 63"
    using Cons.prems(2) by (simp add: mod_Suc)
  ultimately show ?case
    using Cons.IH [of "m @ [b]"] by simp
qed simp

text \<open>The zero-filling loop adds the zeros up to byte 60 of the block.\<close>

lemma sha_zero_fill_eq:
  "unat (cnt s) mod 64 \<le> 59 \<Longrightarrow>
   sha_zero_fill s = fold nlm_chksum_sha256_add_byte (replicate (60 - unat (cnt s) mod 64) 0) s"
proof (induction s rule: sha_zero_fill.induct)
  case (1 s)
  let ?s = "nlm_chksum_sha256_add_byte 0 s"
  have c: "unat (cnt ?s) = Suc (unat (cnt s) mod 64)"
    by (simp add: unat_add_byte_cnt)
  show ?case
  proof (cases "unat (cnt s) mod 64 = 59")
    case True
    with c have "\<not> cnt ?s < 60" by (simp add: word_less_nat_alt)
    with True show ?thesis by (simp add: sha_zero_fill.simps [of s] Let_def)
  next
    case False
    with c "1.prems" have lt: "cnt ?s < 60" by (simp add: word_less_nat_alt)
    with 1 False c have
      "sha_zero_fill ?s = fold nlm_chksum_sha256_add_byte (replicate (59 - unat (cnt s) mod 64) 0) ?s"
      by simp
    moreover have "60 - unat (cnt s) mod 64 = Suc (59 - unat (cnt s) mod 64)"
      using "1.prems" by simp
    ultimately show ?thesis
      using lt by (simp add: sha_zero_fill.simps [of s] Let_def)
  qed
qed

lemma total_size_add_bytes:
  "total_size (fold nlm_chksum_sha256_add_byte bs s) = total_size s + word_of_nat (length bs)"
  by (induction bs arbitrary: s) simp_all

lemma sha_len_bytes_eq:
  assumes "total_size s = word_of_nat (n + 60)"
  shows "fold sha_len_byte [24, 16, 8, 0] s = fold nlm_chksum_sha256_add_byte (sha_len_field n) s"
  using assms by (simp add: sha_len_byte_def sha_len_field_def upt_rec numeral_eq_Suc add.assoc)

lemma length_sha_len_field [simp]: "length (sha_len_field n) = 4"
  by (simp add: sha_len_field_def)

text \<open>Bytes that complete the current block, followed by the compression.\<close>

lemma sha_complete_block:
  assumes inv: "sha_inv m s" and len: "length m mod 64 + length bs = 63"
  shows "ha (nlm_sha256_xform (fold nlm_chksum_sha256_add_byte (bs @ [b]) s)) =
         sha_blocks hac (m @ bs @ [b])"
proof -
  let ?s = "fold nlm_chksum_sha256_add_byte bs s"
  have inv1: "sha_inv (m @ bs) ?s"
    using inv len by (intro sha_inv_add_bytes) simp_all
  have r: "length (m @ bs) mod 64 = 63"
    using len mod_add_left_eq [of "length m" 64 "length bs"] by simp
  have "unat (cnt (nlm_chksum_sha256_add_byte b ?s)) = 64"
    using inv1 r by (simp add: unat_add_byte_cnt sha_inv_def)
  then have "cnt (nlm_chksum_sha256_add_byte b ?s) = 0x40"
    by (simp add: word_unat_eq_iff)
  then have "nlm_sha256_xform (fold nlm_chksum_sha256_add_byte (bs @ [b]) s) = sha_absorb b ?s"
    by (simp add: sha_absorb_def)
  moreover have "sha_inv ((m @ bs) @ [b]) (sha_absorb b ?s)"
    using inv1 by (rule sha_inv_absorb)
  moreover have "length ((m @ bs) @ [b]) mod 64 = 0"
    using r by (simp add: mod_Suc)
  ultimately show ?thesis
    by (simp add: sha_inv_def)
qed

lemma sha_post_eq:
  assumes inv: "sha_inv m s" and r: "length m mod 64 \<le> 58"
  shows "fst (nlm_chksum_sha256_post s) = sha_blocks hac (m @ sha_padding (length m))"
proof -
  let ?r = "length m mod 64"
  let ?fill = "0x80 # replicate (59 - ?r) 0 :: u8 list"
  let ?len = "sha_len_field (length m - ?r)"
  let ?s1 = "sha_zero_fill (nlm_chksum_sha256_add_byte 0x80 s)"
  have "unat (cnt (nlm_chksum_sha256_add_byte 0x80 s)) mod 64 = Suc ?r"
    using inv r by (simp add: unat_add_byte_cnt sha_inv_def)
  then have s1: "?s1 = fold nlm_chksum_sha256_add_byte ?fill s"
    using r by (subst sha_zero_fill_eq) simp_all
  have "total_size ?s1 = word_of_nat (length m + (60 - ?r))"
    unfolding s1 total_size_add_bytes using inv r by (simp add: sha_inv_def Suc_diff_le)
  moreover have "length m + (60 - ?r) = length m - ?r + 60"
    using r by simp
  ultimately have s2: "fold sha_len_byte [24, 16, 8, 0] ?s1 = fold nlm_chksum_sha256_add_byte ?len ?s1"
    by (intro sha_len_bytes_eq) (simp only:)
  obtain l b where l: "?len = l @ [b]" and "length l = 3"
    using length_sha_len_field [of "length m - ?r"]
    by (cases ?len rule: rev_cases) auto
  then have "?r + length (?fill @ l) = 63"
    using r by simp
  note block = sha_complete_block [OF inv this, of b]
  have "fold sha_len_byte [24, 16, 8, 0] ?s1 = fold nlm_chksum_sha256_add_byte ((?fill @ l) @ [b]) s"
    by (subst s2) (simp only: l s1 fold_append comp_apply)
  with block show ?thesis
    unfolding nlm_chksum_sha256_post_def Let_def fst_conv
    by (simp only: sha_padding_def l append_Cons append_assoc)
qed

lemma cnt_add_bytes:
  "unat (cnt (fold nlm_chksum_sha256_add_byte bs s)) mod 64 = (unat (cnt s) + length bs) mod 64"
proof (induction bs arbitrary: s)
  case (Cons b bs)
  show ?case
    using Cons [of "nlm_chksum_sha256_add_byte b s"]
      mod_Suc_eq [of "unat (cnt s) mod 64 + length bs" 64]
      mod_add_left_eq [of "unat (cnt s)" 64 "Suc (length bs)"]
    by (simp add: unat_add_byte_cnt)
qed simp

lemma pad_add_bytes:
  "unat (cnt s) mod 64 + length bs \<le> 64 \<Longrightarrow> length (pad s) = 64 \<Longrightarrow> bs \<noteq> [] \<Longrightarrow>
   take (unat (cnt s) mod 64 + length bs) (pad (fold nlm_chksum_sha256_add_byte bs s)) =
   take (unat (cnt s) mod 64) (pad s) @ bs"
proof (induction bs rule: rev_induct)
  case (snoc b bs)
  let ?s = "fold nlm_chksum_sha256_add_byte bs s"
  let ?c = "unat (cnt s) mod 64"
  have len: "length (pad (fold nlm_chksum_sha256_add_byte xs t)) = length (pad t)" for xs t
    by (induction xs arbitrary: t) simp_all
  have "unat (cnt ?s) mod 64 = ?c + length bs"
    using snoc.prems(1) mod_add_left_eq [of "unat (cnt s)" 64 "length bs"]
    by (simp add: cnt_add_bytes)
  moreover have "take (?c + length bs) (pad ?s) = take ?c (pad s) @ bs"
    using snoc by (cases "bs = []") simp_all
  ultimately show ?case
    using snoc.prems(1,2) len
    by (simp add: pad_add_byte take_list_update_snoc)
qed simp

text \<open>When the message ends one byte short of a block, the marker byte fills the block but
  no compression runs; the zeros then overwrite what is left of the message.\<close>

lemma sha_post_63:
  assumes "unat (cnt s) mod 64 = 63" and "length (pad s) = 64"
  shows "fst (nlm_chksum_sha256_post s) =
         sha_compress (ha s) (replicate 60 0 @ sha_len_field (unat (total_size s) + 1))"
proof -
  let ?s0 = "nlm_chksum_sha256_add_byte 0x80 s"
  let ?len = "sha_len_field (unat (total_size s) + 1)"
  have c: "unat (cnt ?s0) mod 64 = 0"
    using assms by (simp add: unat_add_byte_cnt)
  then have s1: "sha_zero_fill ?s0 = fold nlm_chksum_sha256_add_byte (replicate 60 0) ?s0"
    by (subst sha_zero_fill_eq) simp_all
  have t: "total_size (sha_zero_fill ?s0) = word_of_nat (unat (total_size s) + 1 + 60)"
    unfolding s1 total_size_add_bytes by simp
  have s2: "fold sha_len_byte [24, 16, 8, 0] (sha_zero_fill ?s0) =
      fold nlm_chksum_sha256_add_byte (replicate 60 0 @ ?len) ?s0"
    by (subst sha_len_bytes_eq [OF t]) (simp only: s1 fold_append comp_apply)
  have len: "length (pad (fold nlm_chksum_sha256_add_byte xs t)) = length (pad t)" 
    and h: "ha (fold nlm_chksum_sha256_add_byte xs t) = ha t" for xs t
    by (induction xs arbitrary: t) simp_all
  have "pad (fold nlm_chksum_sha256_add_byte (replicate 60 0 @ ?len) ?s0) = replicate 60 0 @ ?len"
    using pad_add_bytes [of ?s0 "replicate 60 0 @ ?len"] c assms(2) len
    by (simp del: fold_append fold_replicate)
  then show ?thesis
    unfolding nlm_chksum_sha256_post_def Let_def fst_conv s2
    by (simp add: nlm_sha256_xform_def h del: fold_append fold_replicate)
qed

lemma sha_inv_message:
  "length (pad s) = 64 \<Longrightarrow> sha_inv m (fold sha_absorb m (nlm_chksum_sha256_reset s))"
  using sha_inv_absorb_list [OF sha_inv_reset, of s m] by simp

lemma nlm_chksum_digest_eq:
  assumes "length (pad s) = 64" and "0 < sz" and "unat sz \<le> length buf"
    and "unat sz mod 64 \<le> 58"
  shows "fst (snd (nlm_chksum_sha256 (Some buf) sz (Some out) s)) =
         Some (sha_digest (take (unat sz) buf))"
proof -
  let ?m = "take (unat sz) buf"
  have "length ?m mod 64 \<le> 58" using assms(3,4) by (simp add: min_def)
  from sha_post_eq [OF sha_inv_message [OF assms(1)] this] assms(2) show ?thesis
    by (auto simp: nlm_chksum_sha256_def sha_digest_def Let_def split: prod.split)
qed

text \<open>C39. For every non-empty message whose last block leaves room for the padding (its
  length is at most 58 modulo 64), whatever the static variables hold from earlier calls,
  the byte-at-a-time implementation stores the digest of the block-wise definition: the
  compression function chained over the 64-byte blocks of the padded message.\<close>

theorem nlm_chksum_sha256_digest:
  assumes "length (pad s) = 64" and "0 < sz" and "unat sz \<le> length buf"
    and "unat sz mod 64 \<le> 58"
  shows "fst (snd (nlm_chksum_sha256 (Some buf) sz (Some out) s)) =
         Some (sha_digest (take (unat sz) buf))"
  using assms by (rule nlm_chksum_digest_eq)

definition sha_state0 :: sha_state where
  "sha_state0 = \<lparr>cnt = 17, total_size = 5, ha = replicate 8 0, pad = replicate 64 0xff\<rparr>"

theorem nlm_chksum_sha256_digest_witness:
  "fst (snd (nlm_chksum_sha256 (Some [0x61, 0x62, 0x63]) 3 (Some []) sha_state0)) =
   Some (sha_digest [0x61, 0x62, 0x63])"
  using nlm_chksum_sha256_digest [of sha_state0 3 "[0x61, 0x62, 0x63]" "[]"]
  by (simp add: sha_state0_def)

text \<open>A message whose length is 63 modulo 64 is digested without its last 63 bytes: two
  messages of that length that agree on their whole blocks get the same checksum.\<close>

theorem nlm_chksum_sha256_tail_ignored:
  assumes "length (pad s) = 64" and "length (pad t) = 64"
    and "unat sz mod 64 = 63" and "unat sz = length a" and "length b = length a"
    and "take (length a - 63) a = take (length a - 63) b"
  shows "fst (snd (nlm_chksum_sha256 (Some a) sz (Some oa) s)) =
         fst (snd (nlm_chksum_sha256 (Some b) sz (Some ob) t))"
proof -
  have sz: "sz \<noteq> 0" using assms(3) by auto
  have "fst (nlm_chksum_sha256_post u) =
      sha_compress (sha_blocks hac (take (length a - 63) a)) (replicate 60 0 @ sha_len_field (unat (word_of_nat (length a) :: u32) + 1))"
    if "sha_inv m u" and "length m = length a" and "take (length a - 63) m = take (length a - 63) a" for m u
    using that assms(3,4) by (subst sha_post_63) (simp_all add: sha_inv_def)
  note post = this [OF sha_inv_message [OF assms(1), of a]] this [OF sha_inv_message [OF assms(2), of b]]
  show ?thesis
    using post assms(4-6) sz
    by (auto simp: nlm_chksum_sha256_def Let_def split: prod.split)
qed

theorem nlm_chksum_sha256_tail_ignored_witness:
  "fst (snd (nlm_chksum_sha256 (Some (replicate 63 1)) 63 (Some []) sha_state0)) =
   fst (snd (nlm_chksum_sha256 (Some (replicate 63 2)) 63 (Some []) sha_state0))"
  using nlm_chksum_sha256_tail_ignored
    [of sha_state0 sha_state0 63 "replicate 63 1" "replicate 63 2" "[]" "[]"]
  by (simp add: sha_state0_def)

end
