(* ===== verification/Loader_Common.thy ===== *)
theory Loader_Common
  imports Sha2
begin

unbundle bit_operations_syntax

text \<open>
  The database image helpers of lib/dataplane/loader_common.c: reading big-endian words from
  the image, decoding the header of an image record, and the two integrity checks that
  precede the loading of a database (checksum and preamble).
\<close>

section \<open>Reading the image\<close>

text \<open>A pointer into the image is the image with an offset; only offsets inside the image
  have a meaning.\<close>

definition nlm_read_misaligned_uint32 :: "u8 list \<Rightarrow> nat \<Rightarrow> u32" where
  "nlm_read_misaligned_uint32 buf off =
     be32 (buf ! off) (buf ! (off + 1)) (buf ! (off + 2)) (buf ! (off + 3))"

text \<open>Only the first four bytes are cast to 64 bits before the shift. The other shifts are
  computed in \<^verbatim>\<open>int\<close>, which is sign-extended when it is combined with the 64-bit value.\<close>

definition int_shift :: "u8 \<Rightarrow> nat \<Rightarrow> u64" where
  "int_shift b n = scast (push_bit n (ucast b :: u32))"

definition nlm_read_misaligned_uint64 :: "u8 list \<Rightarrow> nat \<Rightarrow> u64" where
  "nlm_read_misaligned_uint64 buf off =
     push_bit 56 (ucast (buf ! off)) OR push_bit 48 (ucast (buf ! (off + 1))) OR
     push_bit 40 (ucast (buf ! (off + 2))) OR push_bit 32 (ucast (buf ! (off + 3))) OR
     int_shift (buf ! (off + 4)) 24 OR int_shift (buf ! (off + 5)) 16 OR
     int_shift (buf ! (off + 6)) 8 OR int_shift (buf ! (off + 7)) 0"

text \<open>The out-parameters of \<^verbatim>\<open>nlm_get_entry_header\<close>.\<close>

record entry_header =
  eh_addr :: u64
  eh_num_entry :: u32
  eh_entry_size :: u32
  eh_addr_inc :: u32

definition nlm_get_entry_header :: "u8 list \<Rightarrow> nat \<Rightarrow> entry_header \<Rightarrow> int \<times> entry_header" where
  "nlm_get_entry_header buf off h =
     (let t = ucast (buf ! off) :: u32 in
      if t = 0xff then (0xff, h)
      else
        let h1 = h\<lparr>eh_entry_size := ucast (buf ! (off + 1)), eh_addr_inc := ucast (buf ! (off + 2))\<rparr>
        in if (ucast (buf ! (off + 3)) :: u32) \<noteq> (NOT t AND 0xff) then (-1, h1)
           else (uint t, h1\<lparr>eh_addr := nlm_read_misaligned_uint64 buf (off + 4),
                            eh_num_entry := nlm_read_misaligned_uint32 buf (off + 12)\<rparr>))"

section \<open>Integrity checks\<close>

definition BIO_MAJOR :: u8 where "BIO_MAJOR = 1"
definition BIO_MAGIC :: u8 where "BIO_MAGIC = 0x5d"
definition BIO_MAGIC_C :: u8 where "BIO_MAGIC_C = 0xa2"

record nlm_db_file_preamble =
  magic :: u8
  major_rev :: u8
  minor_rev :: u8
  magic_c :: u8

definition preamble_of :: "u8 list \<Rightarrow> nlm_db_file_preamble" where
  "preamble_of buf = \<lparr>magic = buf ! 0, major_rev = buf ! 1, minor_rev = buf ! 2, magic_c = buf ! 3\<rparr>"

definition nlm_check_preamble :: "u8 list \<Rightarrow> nlm_status" where
  "nlm_check_preamble buf =
     (let preamble = preamble_of buf in
      if BIO_MAGIC \<noteq> magic preamble \<or> BIO_MAGIC_C \<noteq> magic_c preamble
      then NLM_INVALID_DATABASE_FILE_MAGIC
      else if BIO_MAJOR \<noteq> major_rev preamble then NLM_INVALID_DATABASE_VERSION
      else NLM_OK)"

text \<open>The value is \<^term>\<open>None\<close> when the code reads outside of the image. \<open>chksum0\<close> is what
  the uninitialised local \<^verbatim>\<open>chksum\<close> holds.\<close>

definition nlm_check_database ::
  "u8 list \<Rightarrow> u32 \<Rightarrow> u32 list \<Rightarrow> sha_state \<Rightarrow> (nlm_status \<times> sha_state) option" where
  "nlm_check_database buf db_size chksum0 s =
     (let chksum_start = db_size - 32 in
      if length buf < unat chksum_start + 32 then None
      else
        let (_, out, s') = nlm_chksum_sha256 (Some buf) chksum_start (Some chksum0) s;
            chksum = the out
        in if \<exists>i \<in> set [0..<8]. chksum ! i \<noteq> nlm_read_misaligned_uint32 buf (unat chksum_start + i * 4)
           then Some (NLM_INVALID_DATABASE_CHECKSUM, s')
           else Some (nlm_check_preamble buf, s'))"

section \<open>Big-endian encodings\<close>

definition be_bytes32 :: "u32 \<Rightarrow> u8 list" where
  "be_bytes32 w = map (\<lambda>n. ucast (drop_bit n w)) [24, 16, 8, 0]"

definition be_bytes64 :: "u64 \<Rightarrow> u8 list" where
  "be_bytes64 w = map (\<lambda>n. ucast (drop_bit n w)) [56, 48, 40, 32, 24, 16, 8, 0]"

lemma length_be_bytes [simp]: "length (be_bytes32 w) = 4" "length (be_bytes64 v) = 8"
  by (simp_all add: be_bytes32_def be_bytes64_def)

lemma nth_append_at: "off = length pre \<Longrightarrow> (pre @ xs) ! (off + i) = xs ! i"
  by (simp add: nth_append)

lemma be32_be_bytes32:
  "be32 (ucast (drop_bit 24 w)) (ucast (drop_bit 16 w)) (ucast (drop_bit 8 w)) (ucast w) = w"
  unfolding be32_def by (rule word32_bytes_eqI) (simp_all add: bit_simps)

lemma read_be_bytes32:
  "nlm_read_misaligned_uint32 (pre @ be_bytes32 w @ post) (length pre) = w"
  by (simp add: nlm_read_misaligned_uint32_def nth_append be_bytes32_def be32_be_bytes32)

lemma read_be_bytes64_eq:
  "nlm_read_misaligned_uint64 (pre @ be_bytes64 w @ post) (length pre) =
   (if bit w 31 then w OR 0xffffffff00000000 else w)"
proof -
  have *: "(0xffffffff00000000 :: u64) = push_bit 32 (mask 32)" by (simp add: mask_eq_exp_minus_1)
  let ?b = "\<lambda>n. ucast (drop_bit n w) :: u8"
  have "nlm_read_misaligned_uint64 (pre @ be_bytes64 w @ post) (length pre) =
     push_bit 56 (ucast (?b 56)) OR push_bit 48 (ucast (?b 48)) OR
     push_bit 40 (ucast (?b 40)) OR push_bit 32 (ucast (?b 32)) OR
     int_shift (?b 24) 24 OR int_shift (?b 16) 16 OR int_shift (?b 8) 8 OR int_shift (?b 0) 0"
    by (simp add: nlm_read_misaligned_uint64_def be_bytes64_def nth_append)
  also have "\<dots> = (if bit w 31 then w OR 0xffffffff00000000 else w)"
    unfolding * int_shift_def by (rule word64_bytes_eqI) (simp_all add: bit_simps)
  finally show ?thesis .
qed

text \<open>Reading back a big-endian 64-bit word at any offset of the image gives the word when
  bit 31 is clear; when it is set, the sign extension of byte 4 sets every bit of the upper
  half.\<close>

theorem read_be_bytes64:
  "nlm_read_misaligned_uint64 (pre @ be_bytes64 w @ post) (length pre) =
   (if bit w 31 then w OR 0xffffffff00000000 else w)"
  by (rule read_be_bytes64_eq)

lemma be_bytes32_be32: "be_bytes32 (be32 a b c d) = [a, b, c, d]"
  unfolding be_bytes32_def be32_def
  by (simp, intro conjI; rule bit_word_eqI; auto simp: bit_simps dest: bit_imp_le_length)

lemma be_bytes32_read:
  "off + 4 \<le> length buf \<Longrightarrow> be_bytes32 (nlm_read_misaligned_uint32 buf off) = take 4 (drop off buf)"
  by (rule nth_equalityI)
     (auto simp: nlm_read_misaligned_uint32_def be_bytes32_be32 less_Suc_eq numeral_eq_Suc)

text \<open>The trailer of an image: the eight words of a digest, big-endian.\<close>

lemma read_trailer:
  "i < length ws \<Longrightarrow>
   nlm_read_misaligned_uint32 (pre @ concat (map be_bytes32 ws)) (length pre + i * 4) = ws ! i"
proof (induction ws arbitrary: pre i)
  case (Cons w ws)
  show ?case
  proof (cases i)
    case 0
    then show ?thesis using read_be_bytes32 [of pre w] by simp
  next
    case (Suc j)
    then show ?thesis
      using Cons.IH [of j "pre @ be_bytes32 w"] Cons.prems by (simp add: add.assoc)
  qed
qed simp

lemma trailer_read:
  "length buf = n + 4 * k \<Longrightarrow>
   concat (map (\<lambda>i. be_bytes32 (nlm_read_misaligned_uint32 buf (n + i * 4))) [0..<k]) = drop n buf"
proof (induction k arbitrary: buf)
  case (Suc k)
  have "concat (map (\<lambda>i. be_bytes32 (nlm_read_misaligned_uint32 buf (n + i * 4))) [0..<k]) =
      concat (map (\<lambda>i. be_bytes32 (nlm_read_misaligned_uint32 (take (n + 4 * k) buf) (n + i * 4))) [0..<k])"
    by (intro arg_cong [where f = concat] map_cong) (auto simp: nlm_read_misaligned_uint32_def)
  also have "\<dots> = drop n (take (n + 4 * k) buf)"
    using Suc.prems by (intro Suc.IH) simp
  finally have IH: "concat (map (\<lambda>i. be_bytes32 (nlm_read_misaligned_uint32 buf (n + i * 4))) [0..<k]) =
      take (4 * k) (drop n buf)"
    by (simp add: drop_take)
  have "be_bytes32 (nlm_read_misaligned_uint32 buf (n + k * 4)) = drop (4 * k) (drop n buf)"
    using Suc.prems by (subst be_bytes32_read) (simp_all add: add.commute mult.commute)
  with IH show ?case by (simp del: drop_drop)
qed simp

lemma check_database_sum:
  assumes "length (pad s) = 64" and "length img = unat db_size" and "32 < unat db_size"
    and "(unat db_size - 32) mod 64 \<le> 58"
  shows "map_option fst (nlm_check_database img db_size chksum0 s) =
    Some (let n = length img - 32 in
      if sha_digest (take n img) = map (\<lambda>i. nlm_read_misaligned_uint32 img (n + i * 4)) [0..<8]
      then nlm_check_preamble img else NLM_INVALID_DATABASE_CHECKSUM)"
proof -
  have n: "unat (db_size - 32) = length img - 32"
    using assms(2,3) by (simp add: unat_sub word_le_nat_alt)
  have "fst (snd (nlm_chksum_sha256 (Some img) (db_size - 32) (Some chksum0) s)) =
      Some (sha_digest (take (length img - 32) img))"
    using nlm_chksum_digest_eq [of s "db_size - 32" img chksum0] assms
    by (simp add: n word_less_nat_alt)
  moreover have "(\<exists>i \<in> set [0..<8]. sha_digest m ! i \<noteq> f i) \<longleftrightarrow> sha_digest m \<noteq> map f [0..<8]"
    for m and f
    by (auto simp: list_eq_iff_nth_eq)
  ultimately show ?thesis
    using assms(2,3)
    by (cases "nlm_chksum_sha256 (Some img) (db_size - 32) (Some chksum0) s")
       (simp add: nlm_check_database_def n Let_def del: set_upt bex_simps ball_simps)
qed

lemma first_four_bytes:
  "4 \<le> length xs \<Longrightarrow> xs = [xs ! 0, xs ! 1, xs ! 2, xs ! 3] @ drop 4 xs"
  by (auto simp: numeral_eq_Suc Suc_le_length_iff)

text \<open>C40. For an image of at least 36 bytes whose payload - all but its last 32 bytes - has a length of at most 58
  modulo 64, which the checksum handles, the integrity check accepts exactly the images a database writer
  produces: a payload that starts with the magic bytes and the supported major revision, followed by the eight
  words of its digest in big-endian order. Of a payload of length 63 modulo 64 the last 63 bytes are not checked.\<close>

theorem nlm_check_database_accepts:
  assumes "length (pad s) = 64" and "length img = unat db_size" and "36 \<le> unat db_size"
    and "(unat db_size - 32) mod 64 \<le> 58"
  shows "map_option fst (nlm_check_database img db_size chksum0 s) = Some NLM_OK \<longleftrightarrow>
    (\<exists>m minor rest. m = [BIO_MAGIC, BIO_MAJOR, minor, BIO_MAGIC_C] @ rest \<and>
       img = m @ concat (map be_bytes32 (sha_digest m)))"
    (is "_ \<longleftrightarrow> (\<exists>m minor rest. ?ok m minor rest)")
proof -
  let ?n = "length img - 32"
  let ?read = "map (\<lambda>i. nlm_read_misaligned_uint32 img (?n + i * 4)) [0..<8]"
  have trailer: "concat (map be_bytes32 ?read) = drop ?n img"
    using trailer_read [of img ?n 8] assms(2,3) by (simp add: comp_def)
  have pre: "nlm_check_preamble img = NLM_OK \<longleftrightarrow>
      img ! 0 = BIO_MAGIC \<and> img ! 1 = BIO_MAJOR \<and> img ! 3 = BIO_MAGIC_C"
    by (auto simp: nlm_check_preamble_def preamble_of_def Let_def)
  have "map_option fst (nlm_check_database img db_size chksum0 s) = Some NLM_OK \<longleftrightarrow>
      sha_digest (take ?n img) = ?read \<and> nlm_check_preamble img = NLM_OK"
    using assms by (subst check_database_sum) (auto simp: Let_def split: if_splits)
  also have "\<dots> \<longleftrightarrow> (\<exists>m minor rest. ?ok m minor rest)"
  proof
    assume a: "sha_digest (take ?n img) = ?read \<and> nlm_check_preamble img = NLM_OK"
    have "take ?n img = [BIO_MAGIC, BIO_MAJOR, img ! 2, BIO_MAGIC_C] @ drop 4 (take ?n img)"
      using a pre assms(2,3) first_four_bytes [of "take ?n img"] by simp
    moreover have "img = take ?n img @ concat (map be_bytes32 (sha_digest (take ?n img)))"
      using a trailer by simp
    ultimately show "\<exists>m minor rest. ?ok m minor rest" by blast
  next
    assume "\<exists>m minor rest. ?ok m minor rest"
    then obtain m minor rest where m: "m = [BIO_MAGIC, BIO_MAJOR, minor, BIO_MAGIC_C] @ rest"
      and img: "img = m @ concat (map be_bytes32 (sha_digest m))"
      by blast
    have "length (concat (map be_bytes32 ws)) = 4 * length ws" for ws
      by (induction ws) simp_all
    then have n: "?n = length m" using img by simp
    have "?read = sha_digest m"
      unfolding n using read_trailer [of _ "sha_digest m" m] img by (intro nth_equalityI) auto
    with n img m pre show "sha_digest (take ?n img) = ?read \<and> nlm_check_preamble img = NLM_OK"
      by simp
  qed
  finally show ?thesis .
qed

lemma length_concat_be_bytes32: "length (concat (map be_bytes32 ws)) = 4 * length ws"
  by (induction ws) simp_all

theorem nlm_check_database_accepts_witness:
  "map_option fst (nlm_check_database
     ([0x5d, 1, 7, 0xa2] @ concat (map be_bytes32 (sha_digest [0x5d, 1, 7, 0xa2]))) 36 [] sha_state0) =
   Some NLM_OK"
  by (rule nlm_check_database_accepts [THEN iffD2])
     (auto simp: sha_state0_def length_concat_be_bytes32 BIO_MAGIC_def BIO_MAJOR_def BIO_MAGIC_C_def
       intro!: exI [of _ "[0x5d, 1, 7, 0xa2]"])

text \<open>A database size below 32 makes the start of the checksum wrap around: the check reads
  past the end of every image of less than 4 GB instead of returning a status.\<close>

theorem nlm_check_database_short:
  assumes "unat db_size < 32" and "length buf < 2 ^ 32"
  shows "nlm_check_database buf db_size chksum0 s = None"
proof -
  have "unat (db_size - 32) = 2 ^ 32 + unat db_size - 32"
    using assms(1) by (simp add: unat_sub_if_size word_size)
  with assms show ?thesis
    by (simp add: nlm_check_database_def Let_def)
qed

theorem nlm_check_database_short_witness:
  "nlm_check_database (replicate 31 0) 31 [] sha_state0 = None"
  using nlm_check_database_short [of 31 "replicate 31 0" "[]" sha_state0] by simp

lemma ucast_u8_u32_inverse: "ucast (ucast b :: u32) = (b :: u8)"
  by (rule bit_word_eqI) (simp add: bit_simps)

text \<open>The record header a database writer emits: the record type, the entry size, the
  address increment, the complemented type as a check byte, the address and the count.\<close>

definition entry_header_bytes :: "u8 \<Rightarrow> u8 \<Rightarrow> u8 \<Rightarrow> u64 \<Rightarrow> u32 \<Rightarrow> u8 list" where
  "entry_header_bytes t entry_size addr_inc addr num_entry =
     [t, entry_size, addr_inc, NOT t] @ be_bytes64 addr @ be_bytes32 num_entry"

text \<open>Decoding a record header inverts its encoding for every record type but the end
  marker 0xff, when bit 31 of the address is clear; the end marker is recognised without
  touching the out-parameters; and a wrong check byte is refused with -1.\<close>

theorem nlm_get_entry_header_roundtrip:
  assumes "t \<noteq> 0xff" and "\<not> bit addr 31" and "chk \<noteq> NOT t"
  shows "nlm_get_entry_header (pre @ entry_header_bytes t es inc addr num @ post) (length pre) h =
      (uint t, h\<lparr>eh_addr := addr, eh_num_entry := num, eh_entry_size := ucast es, eh_addr_inc := ucast inc\<rparr>) \<and>
    nlm_get_entry_header (pre @ 0xff # post) (length pre) h = (0xff, h) \<and>
    fst (nlm_get_entry_header (pre @ [t, es, inc, chk] @ post) (length pre) h) = -1"
proof -
  have chk: "(ucast c :: u32) = (NOT (ucast t) AND 0xff) \<longleftrightarrow> c = NOT t" for c
  proof -
    have "(NOT (ucast t) AND 0xff :: u32) = ucast (NOT t)"
    proof -
      have "(NOT (ucast t) AND mask 8 :: u32) = ucast (NOT t)"
        by (rule bit_word_eqI) (auto simp: bit_simps)
      then show ?thesis by (simp add: mask_eq_exp_minus_1)
    qed
    then show ?thesis by (metis ucast_u8_u32_inverse)
  qed
  have tag: "(ucast t :: u32) \<noteq> 0xff"
  proof
    assume "(ucast t :: u32) = 0xff"
    then have "t = ucast (0xff :: u32)" by (metis ucast_u8_u32_inverse)
    with assms(1) show False by simp
  qed
  have 1: "nlm_get_entry_header (pre @ entry_header_bytes t es inc addr num @ post) (length pre) h =
    (uint t, h\<lparr>eh_addr := addr, eh_num_entry := num, eh_entry_size := ucast es, eh_addr_inc := ucast inc\<rparr>)"
  proof -
    let ?buf = "pre @ entry_header_bytes t es inc addr num @ post"
    have "nlm_read_misaligned_uint64 ?buf (length pre + 4) = addr"
      using read_be_bytes64_eq [of "pre @ [t, es, inc, NOT t]" addr "be_bytes32 num @ post"] assms(2)
      by (simp add: entry_header_bytes_def numeral_eq_Suc)
    moreover have "nlm_read_misaligned_uint32 ?buf (length pre + 12) = num"
      using read_be_bytes32 [of "pre @ [t, es, inc, NOT t] @ be_bytes64 addr" num post]
      by (simp add: entry_header_bytes_def numeral_eq_Suc)
    moreover have b: "?buf ! (length pre + k) = [t, es, inc, NOT t] ! k" if "k < 4" for k
      using that by (auto simp: entry_header_bytes_def numeral_eq_Suc less_Suc_eq)
    ultimately show ?thesis
      using tag b [of 0] b [of 1] b [of 2] b [of 3]
      by (simp add: nlm_get_entry_header_def Let_def chk uint_up_ucast is_up)
  qed
  have 2: "nlm_get_entry_header (pre @ 0xff # post) (length pre) h = (0xff, h)"
    by (simp add: nlm_get_entry_header_def)
  have 3: "fst (nlm_get_entry_header (pre @ [t, es, inc, chk] @ post) (length pre) h) = -1"
    using assms(3) tag by (simp add: nlm_get_entry_header_def Let_def nth_append chk)
  from 1 2 3 show ?thesis by simp
qed

theorem nlm_get_entry_header_roundtrip_witness:
  "nlm_get_entry_header ([0, 0] @ entry_header_bytes 0x11 8 4 0x40 3 @ []) (length [0 :: u8, 0])
     \<lparr>eh_addr = 0, eh_num_entry = 0, eh_entry_size = 0, eh_addr_inc = 0\<rparr> =
     (17, \<lparr>eh_addr = 0x40, eh_num_entry = 3, eh_entry_size = 8, eh_addr_inc = 4\<rparr>) \<and>
   fst (nlm_get_entry_header ([0x11, 8, 4, 0x11] @ []) 0
     \<lparr>eh_addr = 0, eh_num_entry = 0, eh_entry_size = 0, eh_addr_inc = 0\<rparr>) = -1"
  using nlm_get_entry_header_roundtrip [of "0x11" "0x40" 0 "[0, 0]" 8 4 3 "[]"]
    nlm_get_entry_header_roundtrip [of "0x11" "0x40" "0x11" "[]" 8 4 3 "[]"]
  by simp

end
