(* ===== verification/Formats.thy ===== *)
theory Formats
  imports Nlm_Prelude
begin

unbundle bit_operations_syntax

text \<open>
  The data the data plane shares with the device (lib/dataplane/nlm_fms_formats.h,
  nlm_byteswap.h, the cookie macros of nlm_packet_api_impl.h and the register access
  macros of nlm_fms_registers.h). Descriptors are records of words of the exact widths of
  the C bit fields, so that an assignment that does not fit truncates as in C; the layout
  of a descriptor in memory is given by conversions to and from 32-bit words, proved to be
  inverse to each other.
\<close>

section \<open>Register access\<close>

text \<open>
  The register map is volatile: the model keeps the sequence of accesses, and the device
  is a function that answers a read of a register after a given sequence. Values are in
  the byte order of the device (SWAP32 converts them on a big-endian host).
\<close>

datatype access = Rd u32 u32 | Wr u32 u32

record hw =
  trace :: "access list"
  answer :: "access list \<Rightarrow> u32 \<Rightarrow> u32"

definition SET_HW_REGISTER :: "u32 \<Rightarrow> u32 \<Rightarrow> hw \<Rightarrow> hw" where
  "SET_HW_REGISTER reg val h = h\<lparr>trace := trace h @ [Wr reg val]\<rparr>"

definition HW_REGISTER :: "u32 \<Rightarrow> hw \<Rightarrow> u32 \<times> hw" where
  "HW_REGISTER reg h =
     (let v = answer h (trace h) reg in (v, h\<lparr>trace := trace h @ [Rd reg v]\<rparr>))"

text \<open>A device whose registers keep what was written to them.\<close>

definition register_file :: "(access list \<Rightarrow> u32 \<Rightarrow> u32) \<Rightarrow> bool" where
  "register_file ans \<longleftrightarrow> (\<forall>tr reg r v. ans (tr @ [Rd r v]) reg = ans tr reg \<and> ans (tr @ [Wr r v]) reg = (if r = reg then v else ans tr reg))"

definition register :: "u32 \<Rightarrow> hw \<Rightarrow> u32" where "register reg h = answer h (trace h) reg"

lemma register_simps:
  "fst (HW_REGISTER reg h) = register reg h" "answer (snd (HW_REGISTER reg h)) = answer h" "answer (SET_HW_REGISTER reg v h) = answer h"
  by (simp_all add: HW_REGISTER_def SET_HW_REGISTER_def register_def Let_def)

lemma register_file_simps:
  assumes "register_file (answer h)"
  shows "register reg (snd (HW_REGISTER r h)) = register reg h"
    and "register reg (SET_HW_REGISTER r v h) = (if r = reg then v else register reg h)"
  using assms by (simp_all add: register_file_def register_def HW_REGISTER_def SET_HW_REGISTER_def Let_def)

text \<open>Registers that start with zero and keep what is written.\<close>

definition file_device :: "access list \<Rightarrow> u32 \<Rightarrow> u32" where
  "file_device tr reg = foldl (\<lambda>x a. case a of Wr r v \<Rightarrow> if r = reg then v else x | Rd r v \<Rightarrow> x) 0 tr"

lemma file_device_ok: "register_file file_device"
  by (simp add: register_file_def file_device_def)

text \<open>Ring registers are replicated per ring at a fixed distance.\<close>

definition FDF_FIFO_WRT_PTR :: "u8 \<Rightarrow> u32" where
  "FDF_FIFO_WRT_PTR ring = 0x1020 + ucast ring * 0x40"

definition RDF_RD_PTR :: "u8 \<Rightarrow> u32" where
  "RDF_RD_PTR ring = 0x6014 + ucast ring * 0x80"

definition PQ_BASE_LOW_0 :: "u8 \<Rightarrow> u32" where
  "PQ_BASE_LOW_0 ring = 0x2040 + ucast ring * 0x100"

definition PQ_BASE_HI_0 :: "u8 \<Rightarrow> u32" where
  "PQ_BASE_HI_0 ring = 0x2044 + ucast ring * 0x100"

section \<open>Byte order\<close>

definition byteswap_constant_32 :: "u32 \<Rightarrow> u32" where
  "byteswap_constant_32 x =
     drop_bit 24 (x AND 0xff000000) OR drop_bit 8 (x AND 0x00ff0000) OR
     push_bit 8 (x AND 0x0000ff00) OR push_bit 24 (x AND 0x000000ff)"

definition byteswap_constant_64 :: "u64 \<Rightarrow> u64" where
  "byteswap_constant_64 x =
     drop_bit 56 (x AND 0xff00000000000000) OR drop_bit 40 (x AND 0x00ff000000000000) OR
     drop_bit 24 (x AND 0x0000ff0000000000) OR drop_bit 8 (x AND 0x000000ff00000000) OR
     push_bit 8 (x AND 0x00000000ff000000) OR push_bit 24 (x AND 0x0000000000ff0000) OR
     push_bit 40 (x AND 0x000000000000ff00) OR push_bit 56 (x AND 0x00000000000000ff)"

section \<open>Job cookies\<close>

text \<open>The thread in the upper 8 bits, the job index in the lower 24.\<close>

definition NLM_THREAD_ID_MASK :: u32 where "NLM_THREAD_ID_MASK = 0xFF000000"
definition NLM_JOB_INDEX_MASK :: u32 where "NLM_JOB_INDEX_MASK = 0x00FFFFFF"

definition NLM_ENCODE_COOKIE :: "u32 \<Rightarrow> u32 \<Rightarrow> u32" where
  "NLM_ENCODE_COOKIE thread_id jobidx =
     (push_bit 24 thread_id AND NLM_THREAD_ID_MASK) OR (jobidx AND NLM_JOB_INDEX_MASK)"

definition NLM_GET_THREAD_ID :: "u32 \<Rightarrow> u32" where
  "NLM_GET_THREAD_ID cookie = drop_bit 24 (cookie AND NLM_THREAD_ID_MASK)"

definition NLM_GET_JOB_INDEX :: "u32 \<Rightarrow> u32" where
  "NLM_GET_JOB_INDEX cookie = cookie AND NLM_JOB_INDEX_MASK"

section \<open>Flow descriptors and packet descriptors\<close>

definition FMS_FLOW_STATELESS :: "3 word" where "FMS_FLOW_STATELESS = 0"
definition FMS_FLOW_STATEFUL :: "3 word" where "FMS_FLOW_STATEFUL = 2"
definition FMS_FLOW_REINIT :: "3 word" where "FMS_FLOW_REINIT = 5"

definition FMS_MATCH_RESULT :: "3 word" where "FMS_MATCH_RESULT = 0"
definition FMS_FRD_RESULT :: "3 word" where "FMS_FRD_RESULT = 1"
definition FMS_PRD_RESULT :: "3 word" where "FMS_PRD_RESULT = 2"
definition FMS_ERD_RESULT :: "3 word" where "FMS_ERD_RESULT = 4"

record hw_pd_nla =
  rsv_cookie :: "8 word"
  pd_nla_index :: "24 word"

record hw_pd_descriptor =
  pd_packet_base :: "4 word"
  pd_rsv01 :: "9 word"
  pd_sw_disconnect :: "1 word"
  pd_packet_prd :: "1 word"
  pd_flow_term :: "1 word"
  pd_packet_byte_count :: "16 word"
  pd_packet_addr :: u32
  pd_cookie :: u32
  pd_nla :: hw_pd_nla

record hw_fd_descriptor =
  fd_flow_type :: "3 word"
  fd_end_anchor :: "1 word"
  fd_start_anchor :: "1 word"
  fd_gid_cnt :: "3 word"
  fd_pdf_index :: "24 word"
  fd_rsv11 :: "4 word"
  fd_gid1 :: "12 word"
  fd_rsv12 :: "4 word"
  fd_gid0 :: "12 word"
  fd_rsv21 :: "4 word"
  fd_gid3 :: "12 word"
  fd_rsv22 :: "4 word"
  fd_gid2 :: "12 word"
  fd_error :: "1 word"
  fd_rsv31 :: "3 word"
  fd_gid5 :: "12 word"
  fd_rsv32 :: "4 word"
  fd_gid4 :: "12 word"
  fd_packet_base :: "4 word"
  fd_rsv05 :: "9 word"
  fd_sw_disconnect :: "1 word"
  fd_packet_prd :: "1 word"
  fd_flow_term :: "1 word"
  fd_packet_byte_count :: "16 word"
  fd_packet_addr :: u32
  fd_cookie :: u32
  fd_nla :: hw_pd_nla

text \<open>The state of a descriptor after \<^verbatim>\<open>memset (fd, 0, sizeof (struct hw_fd_descriptor))\<close>.\<close>

definition fd_zero :: hw_fd_descriptor where
  "fd_zero = \<lparr>fd_flow_type = 0, fd_end_anchor = 0, fd_start_anchor = 0, fd_gid_cnt = 0,
     fd_pdf_index = 0, fd_rsv11 = 0, fd_gid1 = 0, fd_rsv12 = 0, fd_gid0 = 0, fd_rsv21 = 0,
     fd_gid3 = 0, fd_rsv22 = 0, fd_gid2 = 0, fd_error = 0, fd_rsv31 = 0, fd_gid5 = 0,
     fd_rsv32 = 0, fd_gid4 = 0, fd_packet_base = 0, fd_rsv05 = 0, fd_sw_disconnect = 0,
     fd_packet_prd = 0, fd_flow_term = 0, fd_packet_byte_count = 0, fd_packet_addr = 0,
     fd_cookie = 0, fd_nla = \<lparr>rsv_cookie = 0, pd_nla_index = 0\<rparr>\<rparr>"

definition HW_COPY_PD_INTO_FD :: "hw_pd_descriptor \<Rightarrow> hw_fd_descriptor \<Rightarrow> hw_fd_descriptor" where
  "HW_COPY_PD_INTO_FD pd fd =
     fd\<lparr>fd_packet_byte_count := pd_packet_byte_count pd, fd_packet_base := pd_packet_base pd,
        fd_packet_addr := pd_packet_addr pd, fd_packet_prd := pd_packet_prd pd,
        fd_flow_term := pd_flow_term pd, fd_sw_disconnect := pd_sw_disconnect pd\<rparr>"

section \<open>Result descriptors\<close>

text \<open>The first, third and fourth word are unions, so the descriptor is kept as its four
  words and the members of the unions are read off them.\<close>

record hw_result_descriptor =
  rd_u1 :: u32
  rd_cookie :: u32
  rd_u3 :: u32
  rd_u4 :: u32

definition rd_result_type :: "hw_result_descriptor \<Rightarrow> 3 word" where
  "rd_result_type rd = ucast (drop_bit 29 (rd_u1 rd))"
definition rd_byte_offset_lo :: "hw_result_descriptor \<Rightarrow> 24 word" where
  "rd_byte_offset_lo rd = ucast (rd_u1 rd)"
definition rd_error_code :: "hw_result_descriptor \<Rightarrow> 5 word" where
  "rd_error_code rd = ucast (drop_bit 24 (rd_u1 rd))"
definition rd_timestamp_lo :: "hw_result_descriptor \<Rightarrow> 24 word" where
  "rd_timestamp_lo rd = ucast (rd_u1 rd)"
definition rd_match_length :: "hw_result_descriptor \<Rightarrow> u16" where
  "rd_match_length rd = ucast (drop_bit 16 (rd_u3 rd))"
definition rd_rule_id :: "hw_result_descriptor \<Rightarrow> u16" where
  "rd_rule_id rd = ucast (rd_u3 rd)"
definition rd_valid :: "hw_result_descriptor \<Rightarrow> 1 word" where
  "rd_valid rd = ucast (drop_bit 31 (rd_u4 rd))"
definition rd_end_anchor :: "hw_result_descriptor \<Rightarrow> 1 word" where
  "rd_end_anchor rd = ucast (drop_bit 30 (rd_u4 rd))"
definition rd_gid :: "hw_result_descriptor \<Rightarrow> 12 word" where
  "rd_gid rd = ucast (drop_bit 16 (rd_u4 rd))"
definition rd_byte_offset_hi :: "hw_result_descriptor \<Rightarrow> u16" where
  "rd_byte_offset_hi rd = ucast (rd_u4 rd)"
definition rd_timestamp_hi :: "hw_result_descriptor \<Rightarrow> u16" where
  "rd_timestamp_hi rd = ucast (rd_u4 rd)"

section \<open>Layout in memory\<close>

text \<open>Bit fields fill a 32-bit word from the most significant bit.\<close>

definition pd_word0 :: "hw_pd_descriptor \<Rightarrow> u32" where
  "pd_word0 pd =
     push_bit 28 (ucast (pd_packet_base pd)) OR push_bit 19 (ucast (pd_rsv01 pd)) OR
     push_bit 18 (ucast (pd_sw_disconnect pd)) OR push_bit 17 (ucast (pd_packet_prd pd)) OR
     push_bit 16 (ucast (pd_flow_term pd)) OR ucast (pd_packet_byte_count pd)"

definition set_pd_word0 :: "u32 \<Rightarrow> hw_pd_descriptor \<Rightarrow> hw_pd_descriptor" where
  "set_pd_word0 w pd =
     pd\<lparr>pd_packet_base := ucast (drop_bit 28 w), pd_rsv01 := ucast (drop_bit 19 w),
        pd_sw_disconnect := ucast (drop_bit 18 w), pd_packet_prd := ucast (drop_bit 17 w),
        pd_flow_term := ucast (drop_bit 16 w), pd_packet_byte_count := ucast w\<rparr>"

definition nla_word :: "hw_pd_nla \<Rightarrow> u32" where
  "nla_word n = push_bit 24 (ucast (rsv_cookie n)) OR ucast (pd_nla_index n)"

definition nla_of_word :: "u32 \<Rightarrow> hw_pd_nla" where
  "nla_of_word w = \<lparr>rsv_cookie = ucast (drop_bit 24 w), pd_nla_index = ucast w\<rparr>"

definition pd_to_words :: "hw_pd_descriptor \<Rightarrow> u32 list" where
  "pd_to_words pd = [pd_word0 pd, pd_packet_addr pd, pd_cookie pd, nla_word (pd_nla pd)]"

definition pd_of_words :: "u32 list \<Rightarrow> hw_pd_descriptor" where
  "pd_of_words ws =
     set_pd_word0 (ws ! 0)
       \<lparr>pd_packet_base = 0, pd_rsv01 = 0, pd_sw_disconnect = 0, pd_packet_prd = 0, pd_flow_term = 0,
        pd_packet_byte_count = 0, pd_packet_addr = ws ! 1, pd_cookie = ws ! 2,
        pd_nla = nla_of_word (ws ! 3)\<rparr>"

definition fd_to_words :: "hw_fd_descriptor \<Rightarrow> u32 list" where
  "fd_to_words fd =
    [push_bit 29 (ucast (fd_flow_type fd)) OR push_bit 28 (ucast (fd_end_anchor fd)) OR
       push_bit 27 (ucast (fd_start_anchor fd)) OR push_bit 24 (ucast (fd_gid_cnt fd)) OR
       ucast (fd_pdf_index fd),
     push_bit 28 (ucast (fd_rsv11 fd)) OR push_bit 16 (ucast (fd_gid1 fd)) OR
       push_bit 12 (ucast (fd_rsv12 fd)) OR ucast (fd_gid0 fd),
     push_bit 28 (ucast (fd_rsv21 fd)) OR push_bit 16 (ucast (fd_gid3 fd)) OR
       push_bit 12 (ucast (fd_rsv22 fd)) OR ucast (fd_gid2 fd),
     push_bit 31 (ucast (fd_error fd)) OR push_bit 28 (ucast (fd_rsv31 fd)) OR
       push_bit 16 (ucast (fd_gid5 fd)) OR push_bit 12 (ucast (fd_rsv32 fd)) OR ucast (fd_gid4 fd),
     push_bit 28 (ucast (fd_packet_base fd)) OR push_bit 19 (ucast (fd_rsv05 fd)) OR
       push_bit 18 (ucast (fd_sw_disconnect fd)) OR push_bit 17 (ucast (fd_packet_prd fd)) OR
       push_bit 16 (ucast (fd_flow_term fd)) OR ucast (fd_packet_byte_count fd),
     fd_packet_addr fd, fd_cookie fd, nla_word (fd_nla fd)]"

definition fd_of_words :: "u32 list \<Rightarrow> hw_fd_descriptor" where
  "fd_of_words ws =
    \<lparr>fd_flow_type = ucast (drop_bit 29 (ws ! 0)), fd_end_anchor = ucast (drop_bit 28 (ws ! 0)),
     fd_start_anchor = ucast (drop_bit 27 (ws ! 0)), fd_gid_cnt = ucast (drop_bit 24 (ws ! 0)),
     fd_pdf_index = ucast (ws ! 0),
     fd_rsv11 = ucast (drop_bit 28 (ws ! 1)), fd_gid1 = ucast (drop_bit 16 (ws ! 1)),
     fd_rsv12 = ucast (drop_bit 12 (ws ! 1)), fd_gid0 = ucast (ws ! 1),
     fd_rsv21 = ucast (drop_bit 28 (ws ! 2)), fd_gid3 = ucast (drop_bit 16 (ws ! 2)),
     fd_rsv22 = ucast (drop_bit 12 (ws ! 2)), fd_gid2 = ucast (ws ! 2),
     fd_error = ucast (drop_bit 31 (ws ! 3)), fd_rsv31 = ucast (drop_bit 28 (ws ! 3)),
     fd_gid5 = ucast (drop_bit 16 (ws ! 3)), fd_rsv32 = ucast (drop_bit 12 (ws ! 3)),
     fd_gid4 = ucast (ws ! 3),
     fd_packet_base = ucast (drop_bit 28 (ws ! 4)), fd_rsv05 = ucast (drop_bit 19 (ws ! 4)),
     fd_sw_disconnect = ucast (drop_bit 18 (ws ! 4)), fd_packet_prd = ucast (drop_bit 17 (ws ! 4)),
     fd_flow_term = ucast (drop_bit 16 (ws ! 4)), fd_packet_byte_count = ucast (ws ! 4),
     fd_packet_addr = ws ! 5, fd_cookie = ws ! 6, fd_nla = nla_of_word (ws ! 7)\<rparr>"

section \<open>Round trips\<close>

text \<open>Writing a field of a word back beside the bits below it.\<close>

lemma join_field [simp]:
  "push_bit k (take_bit m (drop_bit k w)) OR take_bit k w = take_bit (k + m) (w :: u32)"
  by (rule bit_word_eqI) (auto simp: bit_simps)

lemma join_field_1 [simp]:
  "push_bit k (drop_bit k w mod 2) OR take_bit k w = take_bit (k + 1) (w :: u32)"
  using join_field [of k 1 w] by (simp add: take_bit_eq_mod)

lemma low_field [simp]: "ucast (ucast w :: 'a::len word) = take_bit (LENGTH('a)) (w :: u32)"
  by (rule bit_word_eqI) (auto simp: bit_simps)

lemma take_bit_32 [simp]: "take_bit 32 (w :: u32) = w"
  by (rule bit_word_eqI) (simp add: bit_simps)

lemma pd_word0_set [simp]: "pd_word0 (set_pd_word0 w pd) = w"
  by (simp add: pd_word0_def set_pd_word0_def)

lemma nla_word_of_word [simp]: "nla_word (nla_of_word w) = w"
  by (simp add: nla_word_def nla_of_word_def)

lemma nla_of_word_word [simp]: "nla_of_word (nla_word n) = n"
  unfolding nla_word_def nla_of_word_def
  by (rule hw_pd_nla.equality; simp; rule bit_word_eqI; auto simp: bit_simps dest: bit_imp_le_length)

lemma set_pd_word0_pd_word0: "set_pd_word0 (pd_word0 pd) pd' =
    pd'\<lparr>pd_packet_base := pd_packet_base pd, pd_rsv01 := pd_rsv01 pd,
        pd_sw_disconnect := pd_sw_disconnect pd, pd_packet_prd := pd_packet_prd pd,
        pd_flow_term := pd_flow_term pd, pd_packet_byte_count := pd_packet_byte_count pd\<rparr>"
  unfolding pd_word0_def set_pd_word0_def
  by (rule hw_pd_descriptor.equality; simp; rule bit_word_eqI; auto simp: bit_simps dest: bit_imp_le_length)

text \<open>The layouts of packet and flow descriptors are bijections between the records and
  the words of memory: no field overlaps another and no bit of a word is lost.\<close>

theorem descriptor_layout:
  "pd_of_words (pd_to_words pd) = pd \<and> pd_to_words (pd_of_words [p0, p1, p2, p3]) = [p0, p1, p2, p3] \<and>
   fd_of_words (fd_to_words fd) = fd \<and>
   fd_to_words (fd_of_words [w0, w1, w2, w3, w4, w5, w6, w7]) = [w0, w1, w2, w3, w4, w5, w6, w7]"
proof (intro conjI)
  show "pd_of_words (pd_to_words pd) = pd"
    by (simp add: pd_of_words_def pd_to_words_def set_pd_word0_pd_word0)
  show "pd_to_words (pd_of_words [p0, p1, p2, p3]) = [p0, p1, p2, p3]"
    by (simp add: pd_of_words_def pd_to_words_def, simp add: set_pd_word0_def)
  show "fd_of_words (fd_to_words fd) = fd"
    unfolding fd_of_words_def fd_to_words_def
    by (rule hw_fd_descriptor.equality; simp; rule bit_word_eqI;
        auto simp: bit_simps dest: bit_imp_le_length)
  show "fd_to_words (fd_of_words [w0, w1, w2, w3, w4, w5, w6, w7]) = [w0, w1, w2, w3, w4, w5, w6, w7]"
    by (simp add: fd_of_words_def fd_to_words_def)
qed

lemma NLM_GET_JOB_INDEX_ENCODE:
  "NLM_GET_JOB_INDEX (NLM_ENCODE_COOKIE t j) = take_bit 24 j"
proof -
  have m: "(0xFF000000 :: u32) = push_bit 24 (mask 8)" "(0x00FFFFFF :: u32) = mask 24"
    by (simp_all add: mask_eq_exp_minus_1)
  show ?thesis
    unfolding NLM_GET_JOB_INDEX_def NLM_ENCODE_COOKIE_def NLM_THREAD_ID_MASK_def NLM_JOB_INDEX_MASK_def m
    by (rule bit_word_eqI) (auto simp: bit_simps)
qed

lemma NLM_GET_THREAD_ID_ENCODE:
  "NLM_GET_THREAD_ID (NLM_ENCODE_COOKIE t j) = take_bit 8 t"
proof -
  have m: "(0xFF000000 :: u32) = push_bit 24 (mask 8)" "(0x00FFFFFF :: u32) = mask 24"
    by (simp_all add: mask_eq_exp_minus_1)
  show ?thesis
    unfolding NLM_GET_THREAD_ID_def NLM_ENCODE_COOKIE_def NLM_THREAD_ID_MASK_def NLM_JOB_INDEX_MASK_def m
    by (rule bit_word_eqI) (auto simp: bit_simps)
qed

lemma take_bit_eq_self_unat: "unat x < 2 ^ n \<Longrightarrow> take_bit n x = (x :: u32)"
  by (simp add: word_unat_eq_iff unsigned_take_bit_eq take_bit_nat_eq_self)

text \<open>A cookie gives back the thread and the job index it was built from, for thread
  numbers below 256 and job indexes below 2^24; cookies of valid jobs are never zero.\<close>

theorem cookie_roundtrip:
  assumes "t < 256" and "j < 2 ^ 24" and "0 < j"
  shows "NLM_GET_THREAD_ID (NLM_ENCODE_COOKIE t j) = t \<and>
    NLM_GET_JOB_INDEX (NLM_ENCODE_COOKIE t j) = j \<and> NLM_ENCODE_COOKIE t j \<noteq> 0"
proof -
  have t: "take_bit 8 t = t" and j: "take_bit 24 j = j"
    using assms by (simp_all add: take_bit_eq_self_unat word_less_nat_alt)
  moreover have "NLM_ENCODE_COOKIE t j \<noteq> 0"
  proof
    assume "NLM_ENCODE_COOKIE t j = 0"
    then have "NLM_GET_JOB_INDEX 0 = j"
      using NLM_GET_JOB_INDEX_ENCODE [of t j] j by simp
    with assms(3) show False by (simp add: NLM_GET_JOB_INDEX_def)
  qed
  ultimately show ?thesis
    by (simp add: NLM_GET_JOB_INDEX_ENCODE NLM_GET_THREAD_ID_ENCODE)
qed

theorem cookie_roundtrip_witness:
  "NLM_GET_THREAD_ID (NLM_ENCODE_COOKIE 7 4660) = 7 \<and> NLM_GET_JOB_INDEX (NLM_ENCODE_COOKIE 7 4660) = 4660"
  using cookie_roundtrip [of 7 4660] by simp

lemma byteswap_constant_32_involution: "byteswap_constant_32 (byteswap_constant_32 x) = x"
proof -
  have m: "(0xff000000 :: u32) = push_bit 24 (mask 8)" "(0x00ff0000 :: u32) = push_bit 16 (mask 8)"
    "(0x0000ff00 :: u32) = push_bit 8 (mask 8)" "(0x000000ff :: u32) = mask 8"
    by (simp_all add: mask_eq_exp_minus_1)
  show ?thesis
    unfolding byteswap_constant_32_def m by (rule word32_bytes_eqI) (simp_all add: bit_simps)
qed

end
