(* ===== verification/Dp_Fifo.thy ===== *)
theory Dp_Fifo
  imports Formats
begin

unbundle bit_operations_syntax

text \<open>
  The software FIFOs of lib/dataplane/nlm_dp_fifo.h that connect the data-plane threads with
  the manager thread. The interface of a bounded FIFO is the locale \<open>bounded_fifo\<close>; the job
  and result FIFOs interpret it, with free-running 32-bit counters that wrap around. The
  last section is the lock-free use by one writer and one reader: their
  peek/access/advance steps interleave arbitrarily.
\<close>

section \<open>Job FIFO\<close>

record nlm_job_fifo =
  jf_size :: u32
  jf_in :: u32
  jf_out :: u32
  jf_buf :: "hw_fd_descriptor list"

definition job_fifo_init :: "u32 \<Rightarrow> hw_fd_descriptor list \<Rightarrow> nlm_job_fifo" where
  "job_fifo_init sz buf = \<lparr>jf_size = sz, jf_in = 0, jf_out = 0, jf_buf = buf\<rparr>"

definition job_fifo_free :: "nlm_job_fifo \<Rightarrow> u32" where
  "job_fifo_free f = jf_size f - jf_in f + jf_out f"

text \<open>The peek operations return the slot the C functions return a pointer to.\<close>

definition peek_job_fifo_input :: "nlm_job_fifo \<Rightarrow> nat option" where
  "peek_job_fifo_input f =
     (if jf_size f - jf_in f + jf_out f = 0 then None
      else Some (unat (jf_in f AND (jf_size f - 1))))"

definition push_job_fifo :: "nlm_job_fifo \<Rightarrow> nlm_job_fifo" where
  "push_job_fifo f = f\<lparr>jf_in := jf_in f + 1\<rparr>"

definition peek_job_fifo_output :: "nlm_job_fifo \<Rightarrow> nat option" where
  "peek_job_fifo_output f =
     (if jf_in f = jf_out f then None else Some (unat (jf_out f AND (jf_size f - 1))))"

definition pop_job_fifo :: "nlm_job_fifo \<Rightarrow> nlm_job_fifo" where
  "pop_job_fifo f = f\<lparr>jf_out := jf_out f + 1\<rparr>"

definition job_fifo_empty :: "nlm_job_fifo \<Rightarrow> bool" where
  "job_fifo_empty f \<longleftrightarrow> jf_in f = jf_out f"

text \<open>Peek, fill the slot, push; and peek, read the slot, pop, as the callers do.\<close>

definition job_fifo_put :: "hw_fd_descriptor \<Rightarrow> nlm_job_fifo \<Rightarrow> nlm_job_fifo option" where
  "job_fifo_put fd f =
     map_option (\<lambda>i. push_job_fifo (f\<lparr>jf_buf := (jf_buf f)[i := fd]\<rparr>)) (peek_job_fifo_input f)"

definition job_fifo_get :: "nlm_job_fifo \<Rightarrow> (hw_fd_descriptor \<times> nlm_job_fifo) option" where
  "job_fifo_get f = map_option (\<lambda>i. (jf_buf f ! i, pop_job_fifo f)) (peek_job_fifo_output f)"

section \<open>Result FIFO\<close>

record nlm_result_fifo =
  rf_size :: u32
  rf_skip :: u32
  rf_in :: u32
  rf_out :: u32
  rf_buf :: "hw_result_descriptor list"

text \<open>\<^verbatim>\<open>result_fifo_init\<close> leaves \<open>skip\<close> as it is.\<close>

definition result_fifo_init ::
  "nlm_result_fifo \<Rightarrow> u32 \<Rightarrow> hw_result_descriptor list \<Rightarrow> nlm_result_fifo" where
  "result_fifo_init f sz buf = f\<lparr>rf_size := sz, rf_in := 0, rf_out := 0, rf_buf := buf\<rparr>"

definition peek_result_fifo_input :: "nlm_result_fifo \<Rightarrow> nat option" where
  "peek_result_fifo_input f =
     (if rf_size f - rf_in f + rf_out f = 0 then None
      else Some (unat (rf_in f AND (rf_size f - 1))))"

definition push_result_fifo :: "nlm_result_fifo \<Rightarrow> nlm_result_fifo" where
  "push_result_fifo f = f\<lparr>rf_in := rf_in f + 1\<rparr>"

definition peek_result_fifo_output :: "nlm_result_fifo \<Rightarrow> nat option" where
  "peek_result_fifo_output f =
     (if rf_in f = rf_out f then None else Some (unat (rf_out f AND (rf_size f - 1))))"

definition pop_result_fifo :: "nlm_result_fifo \<Rightarrow> nlm_result_fifo" where
  "pop_result_fifo f = f\<lparr>rf_out := rf_out f + 1\<rparr>"

definition result_fifo_put :: "hw_result_descriptor \<Rightarrow> nlm_result_fifo \<Rightarrow> nlm_result_fifo option" where
  "result_fifo_put rd f =
     map_option (\<lambda>i. push_result_fifo (f\<lparr>rf_buf := (rf_buf f)[i := rd]\<rparr>)) (peek_result_fifo_input f)"

definition result_fifo_get :: "nlm_result_fifo \<Rightarrow> (hw_result_descriptor \<times> nlm_result_fifo) option" where
  "result_fifo_get f = map_option (\<lambda>i. (rf_buf f ! i, pop_result_fifo f)) (peek_result_fifo_output f)"

section \<open>The interface of a bounded FIFO\<close>

datatype 'a fifo_op = Put 'a | Get

text \<open>Runs a sequence of operations; the result is what was accepted, what was taken out and
  the final state. A put into a full FIFO is refused, a get from an empty one gives nothing.\<close>

fun fifo_run ::
  "('a \<Rightarrow> 's \<Rightarrow> 's option) \<Rightarrow> ('s \<Rightarrow> ('a \<times> 's) option) \<Rightarrow> 'a fifo_op list \<Rightarrow> 's \<Rightarrow> 'a list \<times> 'a list \<times> 's" where
  "fifo_run put get [] s = ([], [], s)"
| "fifo_run put get (Put x # ops) s =
     (case put x s of
        None \<Rightarrow> fifo_run put get ops s
      | Some s' \<Rightarrow> (case fifo_run put get ops s' of (ins, outs, t) \<Rightarrow> (x # ins, outs, t)))"
| "fifo_run put get (Get # ops) s =
     (case get s of
        None \<Rightarrow> fifo_run put get ops s
      | Some (x, s') \<Rightarrow> (case fifo_run put get ops s' of (ins, outs, t) \<Rightarrow> (ins, x # outs, t)))"

locale bounded_fifo =
  fixes ok :: "'s \<Rightarrow> bool"
    and items :: "'s \<Rightarrow> 'a list"
    and cap :: "'s \<Rightarrow> nat"
    and put :: "'a \<Rightarrow> 's \<Rightarrow> 's option"
    and get :: "'s \<Rightarrow> ('a \<times> 's) option"
  assumes put_full: "ok s \<Longrightarrow> put x s = None \<longleftrightarrow> cap s \<le> length (items s)"
    and put_Some: "ok s \<Longrightarrow> put x s = Some s' \<Longrightarrow> ok s' \<and> items s' = items s @ [x] \<and> cap s' = cap s"
    and get_empty: "ok s \<Longrightarrow> get s = None \<longleftrightarrow> items s = []"
    and get_Some: "ok s \<Longrightarrow> get s = Some (x, s') \<Longrightarrow> ok s' \<and> items s = x # items s' \<and> cap s' = cap s"
begin

lemma put_succeeds: "ok s \<Longrightarrow> length (items s) < cap s \<Longrightarrow> \<exists>s'. put x s = Some s'"
  using put_full [of s x] by (cases "put x s") auto

lemma get_succeeds: "ok s \<Longrightarrow> items s \<noteq> [] \<Longrightarrow> \<exists>x s'. get s = Some (x, s')"
  using get_empty [of s] by (cases "get s") auto

lemma run_order:
  "ok s \<Longrightarrow> fifo_run put get ops s = (ins, outs, t) \<Longrightarrow>
   ok t \<and> items s @ ins = outs @ items t \<and> cap t = cap s"
proof (induction ops arbitrary: s ins outs)
  case (Cons op ops)
  show ?case
  proof (cases op)
    case (Put x)
    with Cons show ?thesis
      by (cases "put x s") (fastforce dest: put_Some split: prod.splits)+
  next
    case Get
    with Cons show ?thesis
      by (cases "get s") (fastforce dest: get_Some split: prod.splits)+
  qed
qed simp

end

section \<open>Counters that wrap around\<close>

text \<open>The entries between two free-running counters of a ring of \<open>2 ^ n\<close> slots.\<close>

definition counter_ok :: "u32 \<Rightarrow> u32 \<Rightarrow> u32 \<Rightarrow> 'a list \<Rightarrow> bool" where
  "counter_ok sz inc outc buf \<longleftrightarrow>
     (\<exists>n\<le>31. unat sz = 2 ^ n) \<and> length buf = unat sz \<and> unat (inc - outc) \<le> unat sz"

definition counter_items :: "u32 \<Rightarrow> u32 \<Rightarrow> u32 \<Rightarrow> 'a list \<Rightarrow> 'a list" where
  "counter_items sz inc outc buf = ring_list (unat sz) (unat outc) (unat (inc - outc)) buf"

lemma counter_slot:
  assumes "counter_ok sz inc outc buf"
  shows "unat (c AND (sz - 1)) = unat c mod unat sz" and "unat sz dvd 2 ^ 32" and "0 < unat sz"
proof -
  from assms obtain n where n: "n \<le> 31" "unat sz = 2 ^ n" by (auto simp: counter_ok_def)
  then have "sz = 2 ^ n"
    by (metis of_nat_numeral of_nat_power of_nat_unat ucast_id)
  with n show "unat (c AND (sz - 1)) = unat c mod unat sz"
    by (simp add: unat_and_exp_minus_1)
  show "unat sz dvd 2 ^ 32" unfolding n(2) using n(1) by (intro le_imp_power_dvd) simp
  show "0 < unat sz" using n by simp
qed

lemma counter_in_slot:
  assumes "counter_ok sz inc outc buf"
  shows "unat inc mod unat sz = (unat outc + unat (inc - outc)) mod unat sz"
proof -
  have "unat inc = (unat outc + unat (inc - outc)) mod 2 ^ 32"
    using unat_word_ariths(1) [of outc "inc - outc"] by simp
  then show ?thesis
    using counter_slot(2) [OF assms] by (simp add: mod_mod_cancel)
qed

lemma counter_full:
  assumes "counter_ok sz inc outc buf"
  shows "sz - inc + outc = 0 \<longleftrightarrow> unat sz \<le> unat (inc - outc)"
proof -
  have "sz - inc + outc = 0 \<longleftrightarrow> inc - outc = sz"
    by (auto simp: algebra_simps)
  also have "\<dots> \<longleftrightarrow> unat (inc - outc) = unat sz"
    by (simp add: word_unat_eq_iff)
  finally show ?thesis
    using assms by (auto simp: counter_ok_def)
qed

lemma counter_free:
  assumes "counter_ok sz inc outc buf"
  shows "unat (sz - inc + outc) = unat sz - unat (inc - outc)"
proof -
  have "sz - inc + outc = sz - (inc - outc)" by (simp add: algebra_simps)
  moreover have "unat (sz - (inc - outc)) = unat sz - unat (inc - outc)"
    using assms by (intro unat_sub) (simp add: counter_ok_def word_le_nat_alt)
  ultimately show ?thesis by metis
qed

lemma counter_put:
  assumes "counter_ok sz inc outc buf" and "unat (inc - outc) < unat sz"
  shows "counter_ok sz (inc + 1) outc (buf[unat (inc AND (sz - 1)) := x])"
    and "counter_items sz (inc + 1) outc (buf[unat (inc AND (sz - 1)) := x]) =
         counter_items sz inc outc buf @ [x]"
proof -
  have d: "inc + 1 - outc = (inc - outc) + 1" by (simp add: algebra_simps)
  have lt: "unat (inc - outc) + 1 < 2 ^ 32"
    using assms(2) unsigned_less [of sz, where 'a = nat] by simp
  then have n: "unat (inc + 1 - outc) = Suc (unat (inc - outc))"
    unfolding d by (simp add: unat_word_ariths)
  show "counter_ok sz (inc + 1) outc (buf[unat (inc AND (sz - 1)) := x])"
    using assms n by (auto simp: counter_ok_def)
  show "counter_items sz (inc + 1) outc (buf[unat (inc AND (sz - 1)) := x]) =
         counter_items sz inc outc buf @ [x]"
    unfolding counter_items_def n counter_slot(1) [OF assms(1)]
    by (rule ring_list_put) (use assms counter_in_slot [OF assms(1)] in \<open>auto simp: counter_ok_def\<close>)
qed

lemma counter_get:
  assumes "counter_ok sz inc outc buf" and "inc \<noteq> outc"
  shows "counter_ok sz inc (outc + 1) buf"
    and "counter_items sz inc outc buf =
         buf ! unat (outc AND (sz - 1)) # counter_items sz inc (outc + 1) buf"
    and "Suc (unat (inc - (outc + 1))) = unat (inc - outc)"
proof -
  have "inc - outc \<noteq> 0" using assms(2) by simp
  then have pos: "0 < unat (inc - outc)" by (simp add: unat_gt_0)
  have d: "inc - (outc + 1) = inc - outc - 1" by (simp add: algebra_simps)
  have n: "unat (inc - (outc + 1)) = unat (inc - outc) - 1"
    unfolding d using pos by (simp add: unat_sub word_le_nat_alt)
  show "counter_ok sz inc (outc + 1) buf"
    using assms n by (auto simp: counter_ok_def)
  show "Suc (unat (inc - (outc + 1))) = unat (inc - outc)"
    using n pos by simp
  have "unat (outc + 1) mod unat sz = Suc (unat outc) mod unat sz"
    using counter_slot(2) [OF assms(1)] by (simp add: unat_word_ariths mod_mod_cancel)
  then have "ring_list (unat sz) (unat (outc + 1)) k buf = ring_list (unat sz) (Suc (unat outc)) k buf" for k
    by (metis ring_list_start_mod)
  then show "counter_items sz inc outc buf =
         buf ! unat (outc AND (sz - 1)) # counter_items sz inc (outc + 1) buf"
    unfolding counter_items_def n counter_slot(1) [OF assms(1)]
    using ring_list_get [OF pos, of "unat sz" "unat outc" buf] by simp
qed

lemma counter_items_Nil:
  "counter_ok sz inc outc buf \<Longrightarrow> counter_items sz inc outc buf = [] \<longleftrightarrow> inc = outc"
  by (auto simp: counter_items_def ring_list_def unat_eq_0)

lemma length_counter_items [simp]:
  "length (counter_items sz inc outc buf) = unat (inc - outc)"
  by (simp add: counter_items_def)

section \<open>The FIFOs implement the interface\<close>

definition job_fifo_ok :: "nlm_job_fifo \<Rightarrow> bool" where
  "job_fifo_ok f \<longleftrightarrow> counter_ok (jf_size f) (jf_in f) (jf_out f) (jf_buf f)"

definition job_fifo_items :: "nlm_job_fifo \<Rightarrow> hw_fd_descriptor list" where
  "job_fifo_items f = counter_items (jf_size f) (jf_in f) (jf_out f) (jf_buf f)"

definition job_fifo_cap :: "nlm_job_fifo \<Rightarrow> nat" where
  "job_fifo_cap f = unat (jf_size f)"

definition result_fifo_ok :: "nlm_result_fifo \<Rightarrow> bool" where
  "result_fifo_ok f \<longleftrightarrow> counter_ok (rf_size f) (rf_in f) (rf_out f) (rf_buf f)"

definition result_fifo_items :: "nlm_result_fifo \<Rightarrow> hw_result_descriptor list" where
  "result_fifo_items f = counter_items (rf_size f) (rf_in f) (rf_out f) (rf_buf f)"

definition result_fifo_cap :: "nlm_result_fifo \<Rightarrow> nat" where
  "result_fifo_cap f = unat (rf_size f)"

lemmas job_fifo_defs = job_fifo_ok_def job_fifo_items_def job_fifo_cap_def job_fifo_put_def
  job_fifo_get_def peek_job_fifo_input_def peek_job_fifo_output_def push_job_fifo_def pop_job_fifo_def

lemmas result_fifo_defs = result_fifo_ok_def result_fifo_items_def result_fifo_cap_def result_fifo_put_def
  result_fifo_get_def peek_result_fifo_input_def peek_result_fifo_output_def push_result_fifo_def
  pop_result_fifo_def

interpretation jf: bounded_fifo job_fifo_ok job_fifo_items job_fifo_cap job_fifo_put job_fifo_get
proof
  fix s s' :: nlm_job_fifo and x
  assume ok: "job_fifo_ok s"
  note c = ok [unfolded job_fifo_ok_def]
  show "job_fifo_put x s = None \<longleftrightarrow> job_fifo_cap s \<le> length (job_fifo_items s)"
    using counter_full [OF c] by (simp add: job_fifo_defs)
  show "job_fifo_get s = None \<longleftrightarrow> job_fifo_items s = []"
    using counter_items_Nil [OF c] by (simp add: job_fifo_defs)
  show "job_fifo_ok s' \<and> job_fifo_items s' = job_fifo_items s @ [x] \<and> job_fifo_cap s' = job_fifo_cap s"
    if "job_fifo_put x s = Some s'"
    using that counter_full [OF c] counter_put [OF c, of x]
    by (auto simp: job_fifo_defs split: if_splits)
  show "job_fifo_ok s' \<and> job_fifo_items s = x # job_fifo_items s' \<and> job_fifo_cap s' = job_fifo_cap s"
    if "job_fifo_get s = Some (x, s')"
    using that counter_get [OF c] by (auto simp: job_fifo_defs split: if_splits)
qed

interpretation rf: bounded_fifo result_fifo_ok result_fifo_items result_fifo_cap result_fifo_put result_fifo_get
proof
  fix s s' :: nlm_result_fifo and x
  assume ok: "result_fifo_ok s"
  note c = ok [unfolded result_fifo_ok_def]
  show "result_fifo_put x s = None \<longleftrightarrow> result_fifo_cap s \<le> length (result_fifo_items s)"
    using counter_full [OF c] by (simp add: result_fifo_defs)
  show "result_fifo_get s = None \<longleftrightarrow> result_fifo_items s = []"
    using counter_items_Nil [OF c] by (simp add: result_fifo_defs)
  show "result_fifo_ok s' \<and> result_fifo_items s' = result_fifo_items s @ [x] \<and> result_fifo_cap s' = result_fifo_cap s"
    if "result_fifo_put x s = Some s'"
    using that counter_full [OF c] counter_put [OF c, of x]
    by (auto simp: result_fifo_defs split: if_splits)
  show "result_fifo_ok s' \<and> result_fifo_items s = x # result_fifo_items s' \<and> result_fifo_cap s' = result_fifo_cap s"
    if "result_fifo_get s = Some (x, s')"
    using that counter_get [OF c] by (auto simp: result_fifo_defs split: if_splits)
qed

lemma job_fifo_init_ok:
  assumes "n \<le> 31" and "unat sz = 2 ^ n" and "length buf = 2 ^ n"
  shows "job_fifo_ok (job_fifo_init sz buf)" and "job_fifo_items (job_fifo_init sz buf) = []"
  using assms by (auto simp: job_fifo_defs job_fifo_init_def counter_ok_def counter_items_def)

lemma job_fifo_free_eq:
  "job_fifo_ok f \<Longrightarrow> unat (job_fifo_free f) = job_fifo_cap f - length (job_fifo_items f)"
  using counter_free [of "jf_size f" "jf_in f" "jf_out f" "jf_buf f"]
  by (simp add: job_fifo_defs job_fifo_free_def)

text \<open>Whatever sequence of puts and gets is run on a freshly initialised job FIFO of
  \<open>2 ^ n\<close> slots, the descriptors come out in the order they were accepted, none is lost or
  duplicated, and never more than the FIFO's size wait inside, although the 32-bit counters
  wrap around.\<close>

theorem job_fifo_order:
  assumes "n \<le> 31" and "unat sz = 2 ^ n" and "length buf = 2 ^ n"
    and "fifo_run job_fifo_put job_fifo_get ops (job_fifo_init sz buf) = (ins, outs, f)"
  shows "ins = outs @ job_fifo_items f \<and> length (job_fifo_items f) \<le> 2 ^ n"
proof -
  have "job_fifo_ok f \<and> [] @ ins = outs @ job_fifo_items f \<and> job_fifo_cap f = 2 ^ n"
    using jf.run_order [OF job_fifo_init_ok(1) [OF assms(1-3)] assms(4)]
      job_fifo_init_ok(2) [OF assms(1-3)] assms(2) by (simp add: job_fifo_cap_def job_fifo_init_def)
  then show ?thesis
    by (auto simp: job_fifo_defs counter_ok_def)
qed

theorem job_fifo_order_witness:
  "fst (fifo_run job_fifo_put job_fifo_get [Put fd_zero, Put fd_zero, Put fd_zero, Get]
     (job_fifo_init 2 [fd_zero, fd_zero])) = [fd_zero, fd_zero] \<and>
   (\<exists>outs f. [fd_zero, fd_zero] = outs @ job_fifo_items f \<and> length (job_fifo_items f) \<le> 2)"
proof -
  let ?run = "fifo_run job_fifo_put job_fifo_get [Put fd_zero, Put fd_zero, Put fd_zero, Get]
     (job_fifo_init 2 [fd_zero, fd_zero])"
  obtain ins outs f where r: "?run = (ins, outs, f)" by (cases ?run)
  have i: "fst ?run = [fd_zero, fd_zero]"
    by (simp add: job_fifo_defs job_fifo_init_def)
  then have "ins = [fd_zero, fd_zero]" using r by simp
  then have "[fd_zero, fd_zero] = outs @ job_fifo_items f \<and> length (job_fifo_items f) \<le> 2"
    using job_fifo_order [of 1 2 "[fd_zero, fd_zero]", OF _ _ _ r] by simp
  with i show ?thesis by blast
qed

section \<open>One writer, one reader, no lock\<close>

text \<open>
  The writer peeks at the input side, fills the slot and pushes; the reader peeks at the
  output side, reads the slot and pops. Each of the six actions is one step, and the steps
  of the two threads interleave in any order. \<open>sent\<close> and \<open>received\<close> record what was pushed
  and what the reader took.
\<close>

datatype writer = W_idle | W_peeked nat hw_fd_descriptor | W_filled hw_fd_descriptor
datatype reader = R_idle | R_peeked nat | R_read hw_fd_descriptor

record spsc =
  fifo :: nlm_job_fifo
  writer :: writer
  reader :: reader
  sent :: "hw_fd_descriptor list"
  received :: "hw_fd_descriptor list"

inductive spsc_step :: "spsc \<Rightarrow> spsc \<Rightarrow> bool" where
  w_peek: "writer s = W_idle \<Longrightarrow> peek_job_fifo_input (fifo s) = Some i \<Longrightarrow>
    spsc_step s (s\<lparr>writer := W_peeked i fd\<rparr>)"
| w_fill: "writer s = W_peeked i fd \<Longrightarrow>
    spsc_step s (s\<lparr>fifo := (fifo s)\<lparr>jf_buf := (jf_buf (fifo s))[i := fd]\<rparr>, writer := W_filled fd\<rparr>)"
| w_push: "writer s = W_filled fd \<Longrightarrow>
    spsc_step s (s\<lparr>fifo := push_job_fifo (fifo s), writer := W_idle, sent := sent s @ [fd]\<rparr>)"
| r_peek: "reader s = R_idle \<Longrightarrow> peek_job_fifo_output (fifo s) = Some i \<Longrightarrow>
    spsc_step s (s\<lparr>reader := R_peeked i\<rparr>)"
| r_read: "reader s = R_peeked i \<Longrightarrow>
    spsc_step s (s\<lparr>reader := R_read (jf_buf (fifo s) ! i)\<rparr>)"
| r_pop: "reader s = R_read fd \<Longrightarrow>
    spsc_step s (s\<lparr>fifo := pop_job_fifo (fifo s), reader := R_idle, received := received s @ [fd]\<rparr>)"

definition spsc_init :: "u32 \<Rightarrow> hw_fd_descriptor list \<Rightarrow> spsc" where
  "spsc_init sz buf = \<lparr>fifo = job_fifo_init sz buf, writer = W_idle, reader = R_idle, sent = [], received = []\<rparr>"

text \<open>The writer's slot lies outside of the occupied part of the ring as long as the writer
  has not pushed, because the reader only makes the occupied part smaller.\<close>

definition spsc_inv :: "spsc \<Rightarrow> bool" where
  "spsc_inv s \<longleftrightarrow>
     job_fifo_ok (fifo s) \<and>
     sent s = received s @ job_fifo_items (fifo s) \<and>
     (case writer s of
        W_idle \<Rightarrow> True
      | W_peeked i fd \<Rightarrow> peek_job_fifo_input (fifo s) = Some i
      | W_filled fd \<Rightarrow> (\<exists>i. peek_job_fifo_input (fifo s) = Some i \<and> jf_buf (fifo s) ! i = fd)) \<and>
     (case reader s of
        R_idle \<Rightarrow> True
      | R_peeked i \<Rightarrow> peek_job_fifo_output (fifo s) = Some i
      | R_read fd \<Rightarrow> (\<exists>fds. job_fifo_items (fifo s) = fd # fds))"

lemma spsc_inv_init:
  "n \<le> 31 \<Longrightarrow> unat sz = 2 ^ n \<Longrightarrow> length buf = 2 ^ n \<Longrightarrow> spsc_inv (spsc_init sz buf)"
  by (simp add: spsc_inv_def spsc_init_def job_fifo_init_ok)

lemma peek_output_items:
  assumes "job_fifo_ok f" and "peek_job_fifo_output f = Some i"
  shows "\<exists>fds. job_fifo_items f = jf_buf f ! i # fds"
  using assms counter_get(2) [of "jf_size f" "jf_in f" "jf_out f" "jf_buf f"]
  by (auto simp: job_fifo_defs split: if_splits)

lemma fill_items:
  assumes "job_fifo_ok f" and "peek_job_fifo_input f = Some i"
  shows "job_fifo_ok (f\<lparr>jf_buf := (jf_buf f)[i := fd]\<rparr>)"
    and "job_fifo_items (f\<lparr>jf_buf := (jf_buf f)[i := fd]\<rparr>) = job_fifo_items f"
    and "i < length (jf_buf f)"
proof -
  note c = assms(1) [unfolded job_fifo_ok_def]
  have lt: "unat (jf_in f - jf_out f) < unat (jf_size f)" and i: "i = unat (jf_in f AND (jf_size f - 1))"
    using assms(2) counter_full [OF c] by (auto simp: job_fifo_defs split: if_splits)
  then show "job_fifo_items (f\<lparr>jf_buf := (jf_buf f)[i := fd]\<rparr>) = job_fifo_items f"
    using counter_slot(1) [OF c] counter_in_slot [OF c]
    by (auto simp: job_fifo_items_def counter_items_def intro!: ring_list_update_outside)
  show "job_fifo_ok (f\<lparr>jf_buf := (jf_buf f)[i := fd]\<rparr>)"
    using c by (simp add: job_fifo_ok_def counter_ok_def)
  show "i < length (jf_buf f)"
    using i counter_slot(1,3) [OF c] c by (simp add: counter_ok_def)
qed

lemma push_items:
  assumes "job_fifo_ok f" and "peek_job_fifo_input f = Some i"
  shows "job_fifo_ok (push_job_fifo f)"
    and "job_fifo_items (push_job_fifo f) = job_fifo_items f @ [jf_buf f ! i]"
proof -
  have "job_fifo_put (jf_buf f ! i) f = Some (push_job_fifo f)"
    using assms(2) by (simp add: job_fifo_put_def)
  from jf.put_Some [OF assms(1) this] show "job_fifo_ok (push_job_fifo f)"
    and "job_fifo_items (push_job_fifo f) = job_fifo_items f @ [jf_buf f ! i]" by auto
qed

lemma job_fifo_bound: "job_fifo_ok f \<Longrightarrow> length (job_fifo_items f) \<le> job_fifo_cap f"
  by (auto simp: job_fifo_defs counter_ok_def)

lemma pop_items:
  assumes "job_fifo_ok f" and "job_fifo_items f = fd # fds"
  shows "job_fifo_ok (pop_job_fifo f)" and "job_fifo_items (pop_job_fifo f) = fds"
    and "peek_job_fifo_input f = Some i \<Longrightarrow> peek_job_fifo_input (pop_job_fifo f) = Some i"
proof -
  obtain x f' where g: "job_fifo_get f = Some (x, f')"
    using jf.get_succeeds [OF assms(1)] assms(2) by auto
  then have f': "f' = pop_job_fifo f" by (auto simp: job_fifo_get_def)
  from jf.get_Some [OF assms(1) g] assms(2)
  show ok': "job_fifo_ok (pop_job_fifo f)" and it: "job_fifo_items (pop_job_fifo f) = fds"
    by (auto simp: f')
  have "job_fifo_cap (pop_job_fifo f) = job_fifo_cap f"
    using jf.get_Some [OF assms(1) g] by (simp add: f')
  then have "job_fifo_put fd (pop_job_fifo f) \<noteq> None"
    using jf.put_full [OF ok', of fd] it assms(2) job_fifo_bound [OF assms(1)] by simp
  then show "peek_job_fifo_input (pop_job_fifo f) = Some i" if "peek_job_fifo_input f = Some i"
    using that by (auto simp: job_fifo_defs split: if_splits)
qed

lemma spsc_inv_step:
  assumes "spsc_inv s" and "spsc_step s t"
  shows "spsc_inv t"
  using assms(2,1)
proof cases
  case (w_peek i fd)
  with assms(1) show ?thesis by (auto simp: spsc_inv_def split: reader.splits)
next
  case (w_fill i fd)
  then have "job_fifo_ok (fifo s)" and "peek_job_fifo_input (fifo s) = Some i"
    using assms(1) by (auto simp: spsc_inv_def)
  with w_fill assms(1) fill_items(1,2) [OF this, of fd] fill_items(3) [OF this] show ?thesis
    by (auto simp: spsc_inv_def peek_job_fifo_input_def peek_job_fifo_output_def split: reader.splits)
next
  case (w_push fd)
  then obtain i where "job_fifo_ok (fifo s)" and "peek_job_fifo_input (fifo s) = Some i"
    and fd: "jf_buf (fifo s) ! i = fd"
    using assms(1) by (auto simp: spsc_inv_def)
  note p = push_items [OF this(1,2)]
  have "peek_job_fifo_output (fifo s) = Some k \<Longrightarrow> peek_job_fifo_output (push_job_fifo (fifo s)) = Some k" for k
    using p(2) counter_items_Nil [of "jf_size (fifo s)" "jf_in (fifo s) + 1" "jf_out (fifo s)" "jf_buf (fifo s)"] p(1)
    by (auto simp: job_fifo_defs split: if_splits)
  with w_push assms(1) p fd show ?thesis
    by (auto simp: spsc_inv_def split: reader.splits)
next
  case (r_peek i)
  with assms(1) show ?thesis by (auto simp: spsc_inv_def split: writer.splits)
next
  case (r_read i)
  then have "job_fifo_ok (fifo s)" and "peek_job_fifo_output (fifo s) = Some i"
    using assms(1) by (auto simp: spsc_inv_def)
  with r_read assms(1) peek_output_items [OF this] show ?thesis
    by (auto simp: spsc_inv_def split: writer.splits)
next
  case (r_pop fd)
  then obtain fds where "job_fifo_ok (fifo s)" and it: "job_fifo_items (fifo s) = fd # fds"
    using assms(1) by (auto simp: spsc_inv_def)
  note p = pop_items [OF this]
  moreover have "jf_buf (pop_job_fifo (fifo s)) = jf_buf (fifo s)"
    by (simp add: pop_job_fifo_def)
  ultimately show ?thesis
    using r_pop assms(1) it by (auto simp: spsc_inv_def split: writer.splits)
qed

text \<open>C16. A job FIFO used by one writer thread and one reader thread needs no lock: in every
  state that any interleaving of their steps reaches, what the reader has taken is a prefix of
  what the writer has pushed, in the same order, and the rest is exactly the content of the
  FIFO.\<close>

theorem spsc_in_order:
  assumes "n \<le> 31" and "unat sz = 2 ^ n" and "length buf = 2 ^ n"
    and "spsc_step\<^sup>*\<^sup>* (spsc_init sz buf) s"
  shows "sent s = received s @ job_fifo_items (fifo s)"
proof -
  from assms(4) have "spsc_inv s"
  proof induction
    case base
    show ?case using assms(1-3) by (rule spsc_inv_init)
  next
    case (step y z)
    then show ?case by (blast intro: spsc_inv_step)
  qed
  then show ?thesis by (simp add: spsc_inv_def)
qed

theorem spsc_in_order_witness:
  "\<exists>s. spsc_step\<^sup>*\<^sup>* (spsc_init 1 [fd_zero]) s \<and> sent s = [fd_zero] \<and>
       sent s = received s @ job_fifo_items (fifo s)"
proof -
  let ?s0 = "spsc_init 1 [fd_zero]"
  let ?s1 = "?s0\<lparr>writer := W_peeked 0 fd_zero\<rparr>"
  let ?s2 = "?s1\<lparr>fifo := (fifo ?s1)\<lparr>jf_buf := (jf_buf (fifo ?s1))[0 := fd_zero]\<rparr>, writer := W_filled fd_zero\<rparr>"
  let ?s3 = "?s2\<lparr>fifo := push_job_fifo (fifo ?s2), writer := W_idle, sent := sent ?s2 @ [fd_zero]\<rparr>"
  have "spsc_step ?s0 ?s1"
    by (rule spsc_step.w_peek) (simp_all add: spsc_init_def job_fifo_init_def peek_job_fifo_input_def)
  moreover have "spsc_step ?s1 ?s2" by (rule spsc_step.w_fill) simp
  moreover have "spsc_step ?s2 ?s3" by (rule spsc_step.w_push) simp
  ultimately have r: "spsc_step\<^sup>*\<^sup>* ?s0 ?s3" by (meson rtranclp.rtrancl_into_rtrancl rtranclp.rtrancl_refl)
  then show ?thesis
    using spsc_in_order [of 0 1 "[fd_zero]", OF _ _ _ r]
    by (intro exI [of _ ?s3]) (auto simp: spsc_init_def)
qed

end
