(* ===== verification/Dp_State.thy ===== *)
theory Dp_State
  imports Dp_Fifo
begin

unbundle bit_operations_syntax

text \<open>
  The state of the packet API (lib/dataplane/nlm_packet_api_impl.h): the physical device,
  the handle of one data-plane thread, flows and jobs in the thread's memory pool, packet
  descriptors in system memory. Pointers are addresses; each kind of object lives in a heap
  of its own, because the allocators never place objects of two kinds at the same place.
  A free object is linked into its free list through its first eight bytes: the views
  \<open>flow_link\<close>, \<open>pd_link\<close> and \<open>job_link\<close> read and write those bytes through the fields that
  occupy them.
\<close>

section \<open>Constants\<close>

definition NLM_FLOW_TYPE_INVALID :: u32 where "NLM_FLOW_TYPE_INVALID = 2300"
definition NLM_FLOW_TYPE_STATEFUL :: u32 where "NLM_FLOW_TYPE_STATEFUL = 2301"
definition NLM_FLOW_TYPE_STATELESS :: u32 where "NLM_FLOW_TYPE_STATELESS = 2302"

definition NLM_MAX_DATABASE_ID :: u32 where "NLM_MAX_DATABASE_ID = 3"
definition NLM_MAX_GROUP_ID :: u32 where "NLM_MAX_GROUP_ID = 1023"
definition NLM_FMS_GROUPS_PER_PACKET :: nat where "NLM_FMS_GROUPS_PER_PACKET = 6"
definition NLM_MAX_PACKET_SIZE :: int where "NLM_MAX_PACKET_SIZE = 64 * 1024"
definition NLM_MANAGER_THREAD_ID :: u32 where "NLM_MANAGER_THREAD_ID = -1"

definition RD_WAS_PROCESSED :: u32 where "RD_WAS_PROCESSED = 0x7eedbee0"
definition PD_CREATED_BUT_NOT_STARTED :: "9 word" where "PD_CREATED_BUT_NOT_STARTED = 0x1e"
definition PD_VALID_AND_STARTED :: "9 word" where "PD_VALID_AND_STARTED = 0x1f"
definition FREE_PACKET_BASE :: u64 where "FREE_PACKET_BASE = 0xf0000000f1eeba3e"
definition HW_PACKET_BASES :: nat where "HW_PACKET_BASES = 16"
definition PQ_ADDR_LOW_BITS :: nat where "PQ_ADDR_LOW_BITS = 32"

text \<open>Sizes of the structures on the 64-bit target.\<close>

definition sizeof_flow :: int where "sizeof_flow = 72"
definition sizeof_job :: int where "sizeof_job = 88"
definition sizeof_pd :: int where "sizeof_pd = 16"
definition sizeof_pdf :: int where "sizeof_pdf = 128"

lemmas flow_type_defs = NLM_FLOW_TYPE_INVALID_def NLM_FLOW_TYPE_STATEFUL_def NLM_FLOW_TYPE_STATELESS_def
lemmas sizeof_defs = sizeof_flow_def sizeof_job_def sizeof_pd_def sizeof_pdf_def

section \<open>Objects\<close>

text \<open>The union \<^verbatim>\<open>u\<close> of a flow overlays \<^verbatim>\<open>stateful.pdf_index\<close> and \<^verbatim>\<open>stateless.job_seq_id\<close>
  in one word, \<open>fl_u0\<close>.\<close>

record nlm_flow =
  fl_type :: u32
  fl_db_group_id :: "u16 list"
  fl_db_group_cnt :: u8
  fl_errored :: u8
  fl_db_group_combination :: u32
  fl_last_db_group_combination :: u32
  fl_is_stateless :: "1 word"
  fl_last_pd :: addr
  fl_pending_pd_head :: addr
  fl_next :: addr
  fl_u0 :: u32
  fl_flow_offset :: u64

abbreviation fl_pdf_index :: "nlm_flow \<Rightarrow> u32" where "fl_pdf_index \<equiv> fl_u0"
abbreviation fl_job_seq_id :: "nlm_flow \<Rightarrow> u32" where "fl_job_seq_id \<equiv> fl_u0"

definition flow_zero :: nlm_flow where
  "flow_zero = \<lparr>fl_type = 0, fl_db_group_id = replicate 6 0, fl_db_group_cnt = 0, fl_errored = 0,
     fl_db_group_combination = 0, fl_last_db_group_combination = 0, fl_is_stateless = 0,
     fl_last_pd = NULL, fl_pending_pd_head = NULL, fl_next = NULL, fl_u0 = 0, fl_flow_offset = 0\<rparr>"

text \<open>The fields \<^verbatim>\<open>hw_db_group_id\<close> and \<^verbatim>\<open>hw_db_group_cnt\<close> of a job are not used by the code.\<close>

record nlm_job =
  jb_flow_offset :: u64
  jb_flow :: addr
  jb_user_cookie :: addr
  jb_pd :: addr
  jb_db_group_combination :: u32
  jb_fd :: hw_fd_descriptor

section \<open>Links of free objects\<close>

definition ptr_of_addr :: "addr \<Rightarrow> u64" where "ptr_of_addr a = word_of_int a"
definition addr_of_ptr :: "u64 \<Rightarrow> addr" where "addr_of_ptr p = uint p"

definition flow_link :: "nlm_flow \<Rightarrow> addr" where
  "flow_link f = addr_of_ptr (push_bit 32 (ucast (fl_type f)) OR
     push_bit 16 (ucast (fl_db_group_id f ! 0)) OR ucast (fl_db_group_id f ! 1))"

definition set_flow_link :: "addr \<Rightarrow> nlm_flow \<Rightarrow> nlm_flow" where
  "set_flow_link a f = (let p = ptr_of_addr a in
     f\<lparr>fl_type := ucast (drop_bit 32 p),
       fl_db_group_id := (fl_db_group_id f)[0 := ucast (drop_bit 16 p), 1 := ucast p]\<rparr>)"

definition pd_link :: "hw_pd_descriptor \<Rightarrow> addr" where
  "pd_link pd = addr_of_ptr (push_bit 32 (ucast (pd_word0 pd)) OR ucast (pd_packet_addr pd))"

definition set_pd_link :: "addr \<Rightarrow> hw_pd_descriptor \<Rightarrow> hw_pd_descriptor" where
  "set_pd_link a pd = (let p = ptr_of_addr a in
     (set_pd_word0 (ucast (drop_bit 32 p)) pd)\<lparr>pd_packet_addr := ucast p\<rparr>)"

definition job_link :: "nlm_job \<Rightarrow> addr" where
  "job_link j = addr_of_ptr (jb_flow_offset j)"

definition set_job_link :: "addr \<Rightarrow> nlm_job \<Rightarrow> nlm_job" where
  "set_job_link a j = j\<lparr>jb_flow_offset := ptr_of_addr a\<rparr>"

definition addr_ok :: "addr \<Rightarrow> bool" where
  "addr_ok a \<longleftrightarrow> 0 \<le> a \<and> a < 2 ^ 64"

lemma addr_of_ptr_of_addr [simp]: "addr_ok a \<Longrightarrow> addr_of_ptr (ptr_of_addr a) = a"
  by (simp add: addr_ok_def addr_of_ptr_def ptr_of_addr_def unsigned_of_int take_bit_int_eq_self)

lemma join_64: "push_bit 32 (ucast (ucast (drop_bit 32 p) :: u32)) OR (ucast (ucast p :: u32) :: u64) = p"
  by (rule bit_word_eqI) (auto simp: bit_simps)

lemma join_32: "push_bit 16 (ucast (ucast (drop_bit 16 p) :: u16)) OR (ucast (ucast p :: u16) :: u64) = ucast (ucast p :: u32)"
  for p :: u64
  by (rule bit_word_eqI) (auto simp: bit_simps)

lemma flow_link_set [simp]:
  "addr_ok a \<Longrightarrow> length (fl_db_group_id f) = 6 \<Longrightarrow> flow_link (set_flow_link a f) = a"
  by (simp add: flow_link_def set_flow_link_def Let_def join_32 join_64)

lemma pd_link_set [simp]: "addr_ok a \<Longrightarrow> pd_link (set_pd_link a pd) = a"
proof -
  assume "addr_ok a"
  have "pd_word0 ((set_pd_word0 w pd)\<lparr>pd_packet_addr := v\<rparr>) = pd_word0 (set_pd_word0 w pd)" for v w
    by (simp add: pd_word0_def)
  with \<open>addr_ok a\<close> show ?thesis
    by (simp add: pd_link_def set_pd_link_def Let_def join_64)
qed

lemma job_link_set [simp]: "addr_ok a \<Longrightarrow> job_link (set_job_link a j) = a"
  by (simp add: job_link_def set_job_link_def)

section \<open>The physical device\<close>

text \<open>The fields of the configuration the operations read, the rings (the fifo base pointers
  are the ring contents), the read and write pointer mirrors the device updates in system
  memory, and the registers.\<close>

record nlm_phy_device =
  input_fifo_size :: u32
  output_fifo_size :: u32
  packet_base_phys :: u64
  packet_base_virt :: addr
  virt_to_phys :: "(addr \<Rightarrow> u64) option"
  max_threads :: u32
  using_manager_thread :: u32
  sw_job_fifo :: "nlm_job_fifo list"
  sw_result_fifo :: "nlm_result_fifo list"
  input_rd_ptr :: u32
  input_wrt_ptr :: u32
  output_wrt_ptr :: u32
  output_rd_ptr :: u32
  input_fifo :: "hw_fd_descriptor list"
  output_fifo :: "hw_result_descriptor list"
  packet_base :: "u64 list"
  pdf_base :: addr
  pdf_base_in_ddr :: u64
  pd_base :: addr
  fms_ring_id :: u8
  use_ddr_memory :: u8
  packet_enqueue_policy :: u8
  input_wrt_ptr_dirty :: "1 word"
  ddr_dma_area :: "u32 list"
  phy_hw :: hw

definition phy_set_register :: "u32 \<Rightarrow> u32 \<Rightarrow> nlm_phy_device \<Rightarrow> nlm_phy_device" where
  "phy_set_register reg val p = p\<lparr>phy_hw := SET_HW_REGISTER reg val (phy_hw p)\<rparr>"

section \<open>The handle of a thread\<close>

text \<open>\<open>sw_fifos\<close> tells whether \<^verbatim>\<open>sw_job_fifo\<close> and \<^verbatim>\<open>sw_result_fifo\<close> point to the thread's
  FIFOs in the physical device or are null.\<close>

record nlm_device =
  thread_id :: u32
  first_free_flow :: addr
  stateful_flow_list_head :: addr
  stateless_flow_list_head :: addr
  pending_flow_list_head :: addr
  pending_flow_list_tail :: addr
  first_free_job :: addr
  job_list_head :: addr
  job_base :: addr
  first_free_pdf :: addr
  pd_list_head :: addr
  first_free_pd :: addr
  max_pdf_index :: u32
  current_pdf_index :: u32
  sw_fifos :: bool
  memory_pool :: addr

record dp =
  phy :: nlm_phy_device
  dev :: nlm_device
  flows :: "addr \<Rightarrow> nlm_flow"
  jobs :: "addr \<Rightarrow> nlm_job"
  pds :: "addr \<Rightarrow> hw_pd_descriptor"
  pdfs :: "addr \<Rightarrow> u32 list"

definition upd_flow :: "addr \<Rightarrow> (nlm_flow \<Rightarrow> nlm_flow) \<Rightarrow> dp \<Rightarrow> dp" where
  "upd_flow a g s = s\<lparr>flows := (flows s)(a := g (flows s a))\<rparr>"
definition upd_job :: "addr \<Rightarrow> (nlm_job \<Rightarrow> nlm_job) \<Rightarrow> dp \<Rightarrow> dp" where
  "upd_job a g s = s\<lparr>jobs := (jobs s)(a := g (jobs s a))\<rparr>"
definition upd_pd :: "addr \<Rightarrow> (hw_pd_descriptor \<Rightarrow> hw_pd_descriptor) \<Rightarrow> dp \<Rightarrow> dp" where
  "upd_pd a g s = s\<lparr>pds := (pds s)(a := g (pds s a))\<rparr>"
definition upd_dev :: "(nlm_device \<Rightarrow> nlm_device) \<Rightarrow> dp \<Rightarrow> dp" where
  "upd_dev g s = s\<lparr>dev := g (dev s)\<rparr>"
definition upd_phy :: "(nlm_phy_device \<Rightarrow> nlm_phy_device) \<Rightarrow> dp \<Rightarrow> dp" where
  "upd_phy g s = s\<lparr>phy := g (phy s)\<rparr>"

lemma upd_simps [simp]:
  "phy (upd_flow a g s) = phy s" "dev (upd_flow a g s) = dev s" "jobs (upd_flow a g s) = jobs s"
  "pds (upd_flow a g s) = pds s" "pdfs (upd_flow a g s) = pdfs s"
  "flows (upd_flow a g s) = (flows s)(a := g (flows s a))"
  "phy (upd_job a h s) = phy s" "dev (upd_job a h s) = dev s" "flows (upd_job a h s) = flows s"
  "pds (upd_job a h s) = pds s" "pdfs (upd_job a h s) = pdfs s"
  "jobs (upd_job a h s) = (jobs s)(a := h (jobs s a))"
  "phy (upd_pd a k s) = phy s" "dev (upd_pd a k s) = dev s" "flows (upd_pd a k s) = flows s"
  "jobs (upd_pd a k s) = jobs s" "pdfs (upd_pd a k s) = pdfs s"
  "pds (upd_pd a k s) = (pds s)(a := k (pds s a))"
  "phy (upd_dev d s) = phy s" "dev (upd_dev d s) = d (dev s)" "flows (upd_dev d s) = flows s"
  "jobs (upd_dev d s) = jobs s" "pds (upd_dev d s) = pds s" "pdfs (upd_dev d s) = pdfs s"
  "phy (upd_phy e s) = e (phy s)" "dev (upd_phy e s) = dev s" "flows (upd_phy e s) = flows s"
  "jobs (upd_phy e s) = jobs s" "pds (upd_phy e s) = pds s" "pdfs (upd_phy e s) = pdfs s"
  by (simp_all add: upd_flow_def upd_job_def upd_pd_def upd_dev_def upd_phy_def)

section \<open>Copying into DDR memory\<close>

definition IND_ADDR_LSB :: u32 where "IND_ADDR_LSB = 0x8140"
definition IND_ADDR_MSB :: u32 where "IND_ADDR_MSB = 0x8144"
definition IND_CTRL :: u32 where "IND_CTRL = 0x8148"
definition IND_STATUS :: u32 where "IND_STATUS = 0x814C"
definition IND_DATA0 :: u32 where "IND_DATA0 = 0x8150"
definition DDR3_OP_TIMEOUT :: nat where "DDR3_OP_TIMEOUT = 0xFFFF"

fun ddr_poll_status :: "nat \<Rightarrow> hw \<Rightarrow> nlm_status \<times> hw" where
  "ddr_poll_status 0 h = (NLM_DDR3_CONTROLLER_TIMEOUT, h)"
| "ddr_poll_status (Suc n) h =
     (let (v, h1) = HW_REGISTER IND_STATUS h
      in if v AND 1 = 0 then (NLM_OK, h1) else ddr_poll_status n h1)"

definition nlm_device_ddr_write_ind_32 :: "u64 \<Rightarrow> u32 \<Rightarrow> hw \<Rightarrow> nlm_status \<times> hw" where
  "nlm_device_ddr_write_ind_32 addr data h =
     (let addr_lsb = ucast (addr AND 0xFFFFFFFF);
          addr_msb = ucast (0x20000000 OR (drop_bit 32 addr AND 0xF));
          h1 = SET_HW_REGISTER IND_ADDR_LSB addr_lsb h;
          h2 = SET_HW_REGISTER IND_ADDR_MSB addr_msb h1;
          h3 = SET_HW_REGISTER IND_DATA0 data h2;
          h4 = SET_HW_REGISTER IND_CTRL (push_bit 12 1 OR 4) h3
      in ddr_poll_status DDR3_OP_TIMEOUT h4)"

text \<open>The indirect-access variant, which \<^verbatim>\<open>NO_DMA_FOR_DDR\<close> selects: the loop runs from the
  address with bit 61 cleared up to \<open>4 * byte_cnt\<close> bytes further, ignoring the status.\<close>

definition nlm_device_copy_into_ddr :: "u64 \<Rightarrow> u32 \<Rightarrow> nlm_phy_device \<Rightarrow> nlm_phy_device" where
  "nlm_device_copy_into_ddr ddr_addr byte_cnt p =
     (let base = ddr_addr AND NOT (push_bit 61 1);
          limit = base + ucast byte_cnt * 4;
          n = (if base < limit then (unat (limit - base) + 3) div 4 else 0)
      in p\<lparr>phy_hw := fold (\<lambda>i h. snd (nlm_device_ddr_write_ind_32 (base + 4 * word_of_nat i) (ddr_dma_area p ! i) h))
             [0..<n] (phy_hw p)\<rparr>)"

section \<open>A small device\<close>

text \<open>A freshly attached device with rings of four entries, one thread, and room for a few
  flows, jobs and packet descriptors, for concrete examples.\<close>

definition rd_zero :: hw_result_descriptor where
  "rd_zero = \<lparr>rd_u1 = 0, rd_cookie = 0, rd_u3 = 0, rd_u4 = 0\<rparr>"

definition pd_zero :: hw_pd_descriptor where
  "pd_zero = pd_of_words [0, 0, 0, 0]"

definition job_zero :: nlm_job where
  "job_zero = \<lparr>jb_flow_offset = 0, jb_flow = NULL, jb_user_cookie = NULL, jb_pd = NULL,
     jb_db_group_combination = 0, jb_fd = fd_zero\<rparr>"

definition phy0 :: nlm_phy_device where
  "phy0 = \<lparr>input_fifo_size = 4, output_fifo_size = 4, packet_base_phys = 0x100000000,
     packet_base_virt = 0x5000, virt_to_phys = None, max_threads = 1, using_manager_thread = 1,
     sw_job_fifo = [job_fifo_init 4 (replicate 4 fd_zero)],
     sw_result_fifo = [\<lparr>rf_size = 4, rf_skip = 0, rf_in = 0, rf_out = 0, rf_buf = replicate 4 rd_zero\<rparr>],
     input_rd_ptr = 0, input_wrt_ptr = 0, output_wrt_ptr = 0, output_rd_ptr = 0,
     input_fifo = replicate 4 fd_zero, output_fifo = replicate 4 rd_zero,
     packet_base = replicate 16 FREE_PACKET_BASE, pdf_base = 0x10000, pdf_base_in_ddr = 0,
     pd_base = 0x10000, fms_ring_id = 0, use_ddr_memory = 0, packet_enqueue_policy = 0,
     input_wrt_ptr_dirty = 0, ddr_dma_area = [], phy_hw = \<lparr>trace = [], answer = \<lambda>_ _. 0\<rparr>\<rparr>"

definition dev0 :: nlm_device where
  "dev0 = \<lparr>thread_id = 0, first_free_flow = 0x1100, stateful_flow_list_head = NULL,
     stateless_flow_list_head = NULL, pending_flow_list_head = NULL, pending_flow_list_tail = NULL,
     first_free_job = 0x2000 - 88, job_list_head = NULL, job_base = 0x2000, first_free_pdf = 0x10400,
     pd_list_head = NULL, first_free_pd = 0x10010, max_pdf_index = 0, current_pdf_index = 0,
     sw_fifos = False, memory_pool = 0x1000\<rparr>"

definition dp0 :: dp where
  "dp0 = \<lparr>phy = phy0, dev = dev0, flows = \<lambda>_. flow_zero, jobs = \<lambda>_. job_zero, pds = \<lambda>_. pd_zero, pdfs = \<lambda>_. []\<rparr>"

lemma dp0_sel [simp]:
  "phy dp0 = phy0" "dev dp0 = dev0" "flows dp0 = (\<lambda>_. flow_zero)" "jobs dp0 = (\<lambda>_. job_zero)"
  "pds dp0 = (\<lambda>_. pd_zero)"
  by (simp_all add: dp0_def)

end
