(* ===== verification/Pool.thy ===== *)
theory Pool
  imports Dp_State
begin

unbundle bit_operations_syntax

text \<open>
  The allocators of lib/dataplane/fms_packet_api.c: flows and jobs in the memory pool of a
  thread (flows grow upwards, jobs downwards, freed objects are kept in free lists), packet
  descriptors and flow contexts (PDFs) in system memory. The interface \<open>object_pool\<close> says what
  the rest of the packet API relies on: an allocator never hands out an object that is in use.
\<close>

section \<open>Contexts and packet descriptors in system memory\<close>

definition sysmem_alloc_pdf :: "addr \<Rightarrow> dp \<Rightarrow> dp" where
  "sysmem_alloc_pdf flow s =
     (if use_ddr_memory (phy s) \<noteq> 0 then
        if current_pdf_index (dev s) < max_pdf_index (dev s) then
          let idx = current_pdf_index (dev s);
              s1 = upd_flow flow (\<lambda>f. f\<lparr>fl_u0 := idx\<rparr>) s;
              s2 = upd_dev (\<lambda>d. d\<lparr>current_pdf_index := current_pdf_index d + 1\<rparr>) s1;
              s3 = upd_phy (\<lambda>p. p\<lparr>ddr_dma_area := (ddr_dma_area p)[0 := 0, 1 := 0, 2 := 0, 3 := 0]\<rparr>) s2
          in upd_phy (nlm_device_copy_into_ddr (pdf_base_in_ddr (phy s) + ucast idx * 128) 16) s3
        else upd_flow flow (\<lambda>f. f\<lparr>fl_u0 := 0\<rparr>) s
      else
        let pdf = first_free_pdf (dev s) in
        if pdf - sizeof_pdf \<le> first_free_pd (dev s) then upd_flow flow (\<lambda>f. f\<lparr>fl_u0 := 0\<rparr>) s
        else
          let s1 = s\<lparr>pdfs := (pdfs s)(pdf := replicate 32 0)\<rparr>;
              s2 = upd_flow flow (\<lambda>f. f\<lparr>fl_u0 := word_of_int ((pdf - pdf_base (phy s)) div sizeof_pdf)\<rparr>) s1
          in upd_dev (\<lambda>d. d\<lparr>first_free_pdf := first_free_pdf d - sizeof_pdf\<rparr>) s2)"

definition sysmem_alloc_pd :: "dp \<Rightarrow> addr \<times> dp" where
  "sysmem_alloc_pd s =
     (if pd_list_head (dev s) \<noteq> NULL then
        let pd = pd_list_head (dev s)
        in (pd, upd_dev (\<lambda>d. d\<lparr>pd_list_head := pd_link (pds s pd)\<rparr>) s)
      else
        let pd = first_free_pd (dev s) in
        if pd + sizeof_pd > first_free_pdf (dev s) then (NULL, s)
        else
          let s1 = upd_dev (\<lambda>d. d\<lparr>first_free_pd := first_free_pd d + sizeof_pd\<rparr>) s
          in if (pd - pd_base (phy s)) div sizeof_pd div 2 ^ 24 \<noteq> 0 then (NULL, s1) else (pd, s1))"

definition sysmem_free_pd :: "addr \<Rightarrow> dp \<Rightarrow> dp" where
  "sysmem_free_pd pd s =
     (let s1 = upd_pd pd (set_pd_link (pd_list_head (dev s))) s;
          s2 = upd_dev (\<lambda>d. d\<lparr>pd_list_head := pd\<rparr>) s1
      in upd_pd pd (\<lambda>p. p\<lparr>pd_cookie := 0\<rparr>) s2)"

section \<open>Flows and jobs in the memory pool\<close>

text \<open>\<^term>\<open>None\<close> is the failed assertion \<^verbatim>\<open>pdf_index != 0\<close>.\<close>

definition memory_pool_alloc_flow :: "u32 \<Rightarrow> dp \<Rightarrow> (addr \<times> dp) option" where
  "memory_pool_alloc_flow flow_type s =
     (if flow_type = NLM_FLOW_TYPE_STATELESS then
        if stateless_flow_list_head (dev s) \<noteq> NULL then
          let flow = stateless_flow_list_head (dev s);
              s1 = upd_dev (\<lambda>d. d\<lparr>stateless_flow_list_head := flow_link (flows s flow)\<rparr>) s
          in Some (flow, upd_flow flow (\<lambda>_. flow_zero) s1)
        else
          let flow = first_free_flow (dev s) in
          if flow + sizeof_flow \<ge> first_free_job (dev s) then Some (NULL, s)
          else
            let s1 = upd_dev (\<lambda>d. d\<lparr>first_free_flow := flow + sizeof_flow\<rparr>) s
            in Some (flow, upd_flow flow (\<lambda>_. flow_zero) s1)
      else
        if stateful_flow_list_head (dev s) \<noteq> NULL then
          let flow = stateful_flow_list_head (dev s);
              s1 = upd_dev (\<lambda>d. d\<lparr>stateful_flow_list_head := flow_link (flows s flow)\<rparr>) s;
              pdf_index = fl_pdf_index (flows s1 flow)
          in assert_then (pdf_index \<noteq> 0)
               (Some (flow, upd_flow flow (\<lambda>_. flow_zero\<lparr>fl_u0 := pdf_index\<rparr>) s1))
        else
          let flow = first_free_flow (dev s) in
          if flow + sizeof_flow \<ge> first_free_job (dev s) then Some (NULL, s)
          else
            let s1 = upd_dev (\<lambda>d. d\<lparr>first_free_flow := flow + sizeof_flow\<rparr>) s;
                s2 = upd_flow flow (\<lambda>_. flow_zero) s1
            in Some (flow, sysmem_alloc_pdf flow s2))"

definition memory_pool_free_flow :: "addr \<Rightarrow> dp \<Rightarrow> dp" where
  "memory_pool_free_flow flow s =
     (if fl_is_stateless (flows s flow) \<noteq> 0 then
        upd_dev (\<lambda>d. d\<lparr>stateless_flow_list_head := flow\<rparr>)
          (upd_flow flow (set_flow_link (stateless_flow_list_head (dev s))) s)
      else
        upd_dev (\<lambda>d. d\<lparr>stateful_flow_list_head := flow\<rparr>)
          (upd_flow flow (set_flow_link (stateful_flow_list_head (dev s))) s))"

definition memory_pool_alloc_job :: "dp \<Rightarrow> addr \<times> dp" where
  "memory_pool_alloc_job s =
     (if job_list_head (dev s) \<noteq> NULL then
        let job = job_list_head (dev s)
        in (job, upd_dev (\<lambda>d. d\<lparr>job_list_head := job_link (jobs s job)\<rparr>) s)
      else
        let job = first_free_job (dev s) in
        if job - sizeof_job \<le> first_free_flow (dev s) then (NULL, s)
        else (job, upd_dev (\<lambda>d. d\<lparr>first_free_job := job - sizeof_job\<rparr>) s))"

definition memory_pool_free_job :: "addr \<Rightarrow> dp \<Rightarrow> dp" where
  "memory_pool_free_job job s =
     upd_dev (\<lambda>d. d\<lparr>job_list_head := job\<rparr>) (upd_job job (set_job_link (job_list_head (dev s))) s)"

section \<open>Free lists\<close>

text \<open>An object of a heap with a view of its first bytes as a link.\<close>

locale linked_object =
  fixes link :: "'a \<Rightarrow> addr" and set_link :: "addr \<Rightarrow> 'a \<Rightarrow> 'a" and wf :: "'a \<Rightarrow> bool"
  assumes link_set: "addr_ok a \<Longrightarrow> wf x \<Longrightarrow> link (set_link a x) = a"
    and wf_set: "wf x \<Longrightarrow> wf (set_link a x)"
begin

lemma chain_push:
  assumes "chain (\<lambda>a. link (h a)) p ps" and "a \<notin> set ps" and "a \<noteq> NULL" and "addr_ok p" and "wf (h a)"
  shows "chain (\<lambda>b. link ((h(a := set_link p (h a))) b)) a (a # ps)"
proof -
  have "chain (\<lambda>b. link ((h(a := set_link p (h a))) b)) p ps = chain (\<lambda>a. link (h a)) p ps"
    using assms(2) by (intro chain_cong) auto
  with assms show ?thesis by (simp add: link_set)
qed

lemma chain_write:
  assumes "chain (\<lambda>a. link (h a)) p ps" and "a \<notin> set ps"
  shows "chain (\<lambda>b. link ((h(a := x)) b)) p ps"
proof -
  have "chain (\<lambda>b. link ((h(a := x)) b)) p ps = chain (\<lambda>a. link (h a)) p ps"
    using assms(2) by (intro chain_cong) auto
  with assms(1) show ?thesis by simp
qed

end

interpretation flow_obj: linked_object flow_link set_flow_link "\<lambda>f. length (fl_db_group_id f) = 6"
  by unfold_locales (simp, simp add: set_flow_link_def Let_def)

interpretation pd_obj: linked_object pd_link set_pd_link "\<lambda>_. True"
  by unfold_locales simp_all

interpretation job_obj: linked_object job_link set_job_link "\<lambda>_. True"
  by unfold_locales simp_all

section \<open>Creating flows\<close>

text \<open>Only whether \<open>device\<close> and \<open>p_flow\<close> are null matters. The result is the status, what
  \<^verbatim>\<open>*p_flow\<close> is set to (\<^term>\<open>None\<close> if it is not written) and the new state.\<close>

definition nlm_create_flow ::
  "addr \<Rightarrow> u32 \<Rightarrow> addr \<Rightarrow> dp \<Rightarrow> (nlm_status \<times> addr option \<times> dp) option" where
  "nlm_create_flow device flow_type p_flow s =
     (if device = NULL \<or> p_flow = NULL then Some (NLM_INVALID_ARGUMENT, None, s)
      else assert_then (memory_pool (dev s) \<noteq> NULL)
        (if flow_type \<noteq> NLM_FLOW_TYPE_STATEFUL \<and> flow_type \<noteq> NLM_FLOW_TYPE_STATELESS
         then Some (NLM_INVALID_FLOW, Some NULL, s)
         else
           case memory_pool_alloc_flow flow_type s of
             None \<Rightarrow> None
           | Some (flow, s1) \<Rightarrow>
               if flow = NULL then Some (NLM_OUT_OF_MEMORY, Some NULL, s1)
               else
                 let s2 = upd_flow flow (\<lambda>f. f\<lparr>fl_type := flow_type\<rparr>) s1 in
                 if flow_type = NLM_FLOW_TYPE_STATEFUL then
                   if fl_pdf_index (flows s2 flow) = 0 then
                     if use_ddr_memory (phy s2) \<noteq> 0 then Some (NLM_OUT_OF_DDR_MEMORY, Some NULL, s2)
                     else Some (NLM_OUT_OF_DEVICE_MEMORY, Some NULL, s2)
                   else Some (NLM_OK, Some flow, upd_flow flow (\<lambda>f. f\<lparr>fl_flow_offset := 0\<rparr>) s2)
                 else Some (NLM_OK, Some flow, upd_flow flow (\<lambda>f. f\<lparr>fl_is_stateless := 1\<rparr>) s2)))"

section \<open>Invariants of the pools\<close>

definition flow_slots :: "dp \<Rightarrow> addr set" where
  "flow_slots s = {a. memory_pool (dev s) < a \<and> a + sizeof_flow \<le> first_free_flow (dev s) \<and>
     sizeof_flow dvd first_free_flow (dev s) - a}"

definition job_slots :: "dp \<Rightarrow> addr set" where
  "job_slots s = {a. first_free_job (dev s) + sizeof_job \<le> a \<and> a + sizeof_job \<le> job_base (dev s) \<and>
     sizeof_job dvd job_base (dev s) - a}"

definition pd_slots :: "dp \<Rightarrow> addr set" where
  "pd_slots s = {a. pd_base (phy s) < a \<and> a + sizeof_pd \<le> first_free_pd (dev s) \<and>
     sizeof_pd dvd a - pd_base (phy s) \<and> (a - pd_base (phy s)) div sizeof_pd < 2 ^ 24}"

text \<open>The geometry of the memory pool: flows below, jobs above, the two never meet.\<close>

definition pool_geometry :: "dp \<Rightarrow> bool" where
  "pool_geometry s \<longleftrightarrow>
     0 < memory_pool (dev s) \<and> memory_pool (dev s) < first_free_flow (dev s) \<and>
     first_free_flow (dev s) \<le> first_free_job (dev s) \<and>
     first_free_job (dev s) + sizeof_job \<le> job_base (dev s) \<and>
     sizeof_job dvd job_base (dev s) - first_free_job (dev s) \<and> job_base (dev s) < 2 ^ 64"

text \<open>\<open>U\<close> are the jobs in use.\<close>

definition job_pool_ok :: "dp \<Rightarrow> addr set \<Rightarrow> bool" where
  "job_pool_ok s U \<longleftrightarrow> pool_geometry s \<and>
     (\<exists>free. chain (\<lambda>a. job_link (jobs s a)) (job_list_head (dev s)) free \<and> distinct free \<and>
        U \<inter> set free = {} \<and> U \<union> set free \<subseteq> job_slots s)"

text \<open>\<open>U\<close> are the flows the user holds. Every flow of the stateful free list keeps a context.\<close>

definition flow_lists_ok :: "dp \<Rightarrow> addr set \<Rightarrow> addr list \<Rightarrow> addr list \<Rightarrow> bool" where
  "flow_lists_ok s U sf sl \<longleftrightarrow> pool_geometry s \<and>
     (\<forall>a. length (fl_db_group_id (flows s a)) = 6) \<and>
     chain (\<lambda>a. flow_link (flows s a)) (stateful_flow_list_head (dev s)) sf \<and>
     chain (\<lambda>a. flow_link (flows s a)) (stateless_flow_list_head (dev s)) sl \<and>
     distinct (sf @ sl) \<and> U \<inter> set (sf @ sl) = {} \<and> U \<union> set (sf @ sl) \<subseteq> flow_slots s \<and>
     (\<forall>a \<in> set sf. fl_pdf_index (flows s a) \<noteq> 0) \<and>
     (\<forall>a \<in> U. fl_is_stateless (flows s a) = 0 \<longrightarrow> fl_pdf_index (flows s a) \<noteq> 0)"

definition flow_pool_ok :: "dp \<Rightarrow> addr set \<Rightarrow> bool" where
  "flow_pool_ok s U \<longleftrightarrow> (\<exists>sf sl. flow_lists_ok s U sf sl)"

definition pd_pool_ok :: "dp \<Rightarrow> addr set \<Rightarrow> bool" where
  "pd_pool_ok s U \<longleftrightarrow>
     0 < pd_base (phy s) \<and> pd_base (phy s) < first_free_pd (dev s) \<and>
     first_free_pd (dev s) \<le> first_free_pdf (dev s) \<and> first_free_pdf (dev s) < 2 ^ 64 \<and>
     sizeof_pd dvd first_free_pd (dev s) - pd_base (phy s) \<and>
     (\<exists>free. chain (\<lambda>a. pd_link (pds s a)) (pd_list_head (dev s)) free \<and> distinct free \<and>
        U \<inter> set free = {} \<and> U \<union> set free \<subseteq> pd_slots s)"

text \<open>The exact free lists. A pool invariant says which objects are in use; these say where the
  others are, so that a release shows as a longer list.\<close>

definition free_jobs :: "dp \<Rightarrow> addr list \<Rightarrow> bool" where
  "free_jobs s fs \<longleftrightarrow> chain (\<lambda>a. job_link (jobs s a)) (job_list_head (dev s)) fs"

definition free_pds :: "dp \<Rightarrow> addr list \<Rightarrow> bool" where
  "free_pds s ps \<longleftrightarrow> chain (\<lambda>a. pd_link (pds s a)) (pd_list_head (dev s)) ps"

section \<open>The interface of an allocator\<close>

datatype pool_op = Alloc | Free nat

text \<open>Runs allocations and releases; \<open>live\<close> lists the objects in use, \<open>Free k\<close> releases the
  one at position \<open>k\<close>.\<close>

fun pool_run ::
  "('s \<Rightarrow> addr \<times> 's) \<Rightarrow> (addr \<Rightarrow> 's \<Rightarrow> 's) \<Rightarrow> pool_op list \<Rightarrow> 's \<Rightarrow> addr list \<Rightarrow> 's \<times> addr list" where
  "pool_run alloc free [] s live = (s, live)"
| "pool_run alloc free (Alloc # ops) s live =
     (case alloc s of (a, s') \<Rightarrow>
        pool_run alloc free ops s' (if a = NULL then live else live @ [a]))"
| "pool_run alloc free (Free k # ops) s live =
     (if k < length live
      then pool_run alloc free ops (free (live ! k) s) (take k live @ drop (Suc k) live)
      else pool_run alloc free ops s live)"

locale object_pool =
  fixes ok :: "'s \<Rightarrow> addr set \<Rightarrow> bool"
    and alloc :: "'s \<Rightarrow> addr \<times> 's"
    and free :: "addr \<Rightarrow> 's \<Rightarrow> 's"
  assumes alloc_fresh: "ok s U \<Longrightarrow> alloc s = (a, s') \<Longrightarrow> a \<noteq> NULL \<Longrightarrow> a \<notin> U \<and> ok s' (insert a U)"
    and alloc_NULL: "ok s U \<Longrightarrow> alloc s = (NULL, s') \<Longrightarrow> ok s' U"
    and free_ok: "ok s U \<Longrightarrow> a \<in> U \<Longrightarrow> ok (free a s) (U - {a})"
begin

lemma run_distinct:
  "ok s (set live) \<Longrightarrow> distinct live \<Longrightarrow> pool_run alloc free ops s live = (t, live') \<Longrightarrow>
   ok t (set live') \<and> distinct live'"
proof (induction ops arbitrary: s live)
  case (Cons op ops)
  show ?case
  proof (cases op)
    case Alloc
    obtain a s' where a: "alloc s = (a, s')" by (cases "alloc s")
    show ?thesis
    proof (cases "a = NULL")
      case True
      then show ?thesis
        using Cons.IH [of s' live] Cons.prems Alloc a alloc_NULL [of s "set live" s'] by simp
    next
      case False
      with Cons.prems(1) a have "a \<notin> set live" and "ok s' (set (live @ [a]))"
        using alloc_fresh [of s "set live" a s'] by auto
      with False show ?thesis
        using Cons.IH [of s' "live @ [a]"] Cons.prems Alloc a by simp
    qed
  next
    case (Free k)
    show ?thesis
    proof (cases "k < length live")
      case True
      note d = distinct_remove_nth [OF Cons.prems(2) True]
      have "ok (free (live ! k) s) (set (take k live @ drop (Suc k) live))"
        using free_ok [OF Cons.prems(1), of "live ! k"] True d by simp
      with Free True d show ?thesis
        using Cons.IH [of "free (live ! k) s" "take k live @ drop (Suc k) live"] Cons.prems by simp
    qed (use Cons.IH [of s live] Cons.prems Free in simp)
  qed
qed simp

end

text \<open>An allocator that gives back the object released last.\<close>

locale lifo_pool = object_pool +
  assumes alloc_free: "ok s U \<Longrightarrow> a \<in> U \<Longrightarrow> a \<noteq> NULL \<and> fst (alloc (free a s)) = a"
begin

lemma reuse:
  assumes "ok s U" and "a \<in> U"
  shows "\<exists>t. alloc (free a s) = (a, t) \<and> ok t U"
proof -
  obtain t where t: "alloc (free a s) = (a, t)"
    using alloc_free [OF assms] by (cases "alloc (free a s)") auto
  then have "ok t (insert a (U - {a}))"
    using alloc_fresh [OF free_ok [OF assms] t] alloc_free [OF assms] by blast
  with t assms(2) show ?thesis by (auto simp: insert_absorb)
qed

end

section \<open>Jobs\<close>

lemma job_slots_upd_job [simp]: "job_slots (upd_job a g s) = job_slots s"
  by (simp add: job_slots_def)

lemma pool_geometry_upd [simp]:
  "pool_geometry (upd_job a g s) = pool_geometry s" "pool_geometry (upd_flow a h s) = pool_geometry s"
  "pool_geometry (upd_pd a k s) = pool_geometry s" "pool_geometry (upd_phy e s) = pool_geometry s"
  by (simp_all add: pool_geometry_def)

lemma job_slots_addr:
  "pool_geometry s \<Longrightarrow> a \<in> job_slots s \<Longrightarrow> a \<noteq> NULL \<and> addr_ok a"
  by (auto simp: job_slots_def pool_geometry_def addr_ok_def sizeof_defs)

lemma head_addr_ok:
  "chain f p ps \<Longrightarrow> (\<And>a. a \<in> set ps \<Longrightarrow> addr_ok a) \<Longrightarrow> addr_ok p"
  by (cases ps) (auto simp: addr_ok_def)

lemma alloc_job_list:
  assumes ok: "job_pool_ok s U" and hd: "job_list_head (dev s) \<noteq> NULL" and al: "memory_pool_alloc_job s = (a, s')"
  shows "a \<notin> U \<and> job_pool_ok s' (insert a U)"
proof -
  from ok obtain free where f: "chain (\<lambda>a. job_link (jobs s a)) (job_list_head (dev s)) free" "distinct free"
    "U \<inter> set free = {}" "U \<union> set free \<subseteq> job_slots s" and g: "pool_geometry s"
    by (auto simp: job_pool_ok_def)
  obtain rest where r: "free = job_list_head (dev s) # rest"
    "chain (\<lambda>a. job_link (jobs s a)) (job_link (jobs s (job_list_head (dev s)))) rest"
    using chain_head [OF f(1) hd] by blast
  have a: "a = job_list_head (dev s)"
    and s': "s' = upd_dev (\<lambda>d. d\<lparr>job_list_head := job_link (jobs s (job_list_head (dev s)))\<rparr>) s"
    using al hd by (auto simp: memory_pool_alloc_job_def Let_def)
  have "job_slots s' = job_slots s" "pool_geometry s'"
    using g by (simp_all add: s' job_slots_def pool_geometry_def)
  with f r a s' show ?thesis
    unfolding job_pool_ok_def by (auto intro!: exI [of _ rest])
qed

lemma alloc_job_fresh:
  assumes ok: "job_pool_ok s U" and hd: "job_list_head (dev s) = NULL"
    and al: "memory_pool_alloc_job s = (a, s')" and a0: "a \<noteq> NULL"
  shows "a \<notin> U \<and> job_pool_ok s' (insert a U)"
proof -
  from ok hd have U: "U \<subseteq> job_slots s" and g: "pool_geometry s"
    by (auto simp: job_pool_ok_def)
  have a: "a = first_free_job (dev s)" and gap: "first_free_flow (dev s) < a - sizeof_job"
    and s': "s' = upd_dev (\<lambda>d. d\<lparr>first_free_job := a - sizeof_job\<rparr>) s"
    using al hd a0 by (auto simp: memory_pool_alloc_job_def Let_def split: if_splits)
  have d: "sizeof_job dvd x \<Longrightarrow> sizeof_job dvd x + sizeof_job" for x
    by simp
  have "pool_geometry s'"
    using g gap a d [of "job_base (dev s) - a"] by (auto simp: pool_geometry_def s' algebra_simps sizeof_defs)
  moreover have "insert a U \<subseteq> job_slots s'"
    using U g a by (auto simp: job_slots_def pool_geometry_def s' sizeof_defs)
  moreover have "a \<notin> U"
    using U a by (auto simp: job_slots_def sizeof_defs)
  ultimately show ?thesis
    using hd by (auto simp: job_pool_ok_def s')
qed

interpretation job_pool: lifo_pool job_pool_ok memory_pool_alloc_job memory_pool_free_job
proof
  fix s s' :: dp and U a
  assume ok: "job_pool_ok s U"
  show "a \<notin> U \<and> job_pool_ok s' (insert a U)" if "memory_pool_alloc_job s = (a, s')" and "a \<noteq> NULL"
    using alloc_job_list [OF ok _ that(1)] alloc_job_fresh [OF ok _ that] by blast
  show "job_pool_ok s' U" if "memory_pool_alloc_job s = (NULL, s')"
    using that ok
    by (auto simp: memory_pool_alloc_job_def job_pool_ok_def pool_geometry_def Let_def split: if_splits)
  assume a: "a \<in> U"
  from ok obtain free where f: "chain (\<lambda>a. job_link (jobs s a)) (job_list_head (dev s)) free" "distinct free"
    "U \<inter> set free = {}" "U \<union> set free \<subseteq> job_slots s" and g: "pool_geometry s"
    by (auto simp: job_pool_ok_def)
  have ha: "addr_ok (job_list_head (dev s))"
    using head_addr_ok [OF f(1)] job_slots_addr [OF g] f(4) by blast
  have a0: "a \<noteq> NULL" using job_slots_addr [OF g] f(4) a by blast
  have "chain (\<lambda>b. job_link (((jobs s)(a := set_job_link (job_list_head (dev s)) (jobs s a))) b)) a (a # free)"
    using f(1,3) a a0 ha by (intro job_obj.chain_push) auto
  moreover have "job_slots (memory_pool_free_job a s) = job_slots s" "pool_geometry (memory_pool_free_job a s)"
    using g by (simp_all add: memory_pool_free_job_def job_slots_def pool_geometry_def)
  ultimately show "job_pool_ok (memory_pool_free_job a s) (U - {a})"
    unfolding job_pool_ok_def using f a
    by (intro conjI exI [of _ "a # free"]) (auto simp: memory_pool_free_job_def)
  show "a \<noteq> NULL \<and> fst (memory_pool_alloc_job (memory_pool_free_job a s)) = a"
    using a0 by (simp add: memory_pool_alloc_job_def memory_pool_free_job_def Let_def)
qed

section \<open>Packet descriptors\<close>

lemma pd_slots_addr:
  "pd_pool_ok s U \<Longrightarrow> a \<in> pd_slots s \<Longrightarrow> a \<noteq> NULL \<and> addr_ok a"
  by (auto simp: pd_slots_def pd_pool_ok_def addr_ok_def sizeof_defs)

lemma alloc_pd_list:
  assumes ok: "pd_pool_ok s U" and hd: "pd_list_head (dev s) \<noteq> NULL" and al: "sysmem_alloc_pd s = (a, s')"
  shows "a \<notin> U \<and> pd_pool_ok s' (insert a U)"
proof -
  from ok obtain free where f: "chain (\<lambda>a. pd_link (pds s a)) (pd_list_head (dev s)) free" "distinct free"
    "U \<inter> set free = {}" "U \<union> set free \<subseteq> pd_slots s"
    by (auto simp: pd_pool_ok_def)
  obtain rest where r: "free = pd_list_head (dev s) # rest"
    "chain (\<lambda>a. pd_link (pds s a)) (pd_link (pds s (pd_list_head (dev s)))) rest"
    using chain_head [OF f(1) hd] by blast
  have a: "a = pd_list_head (dev s)"
    and s': "s' = upd_dev (\<lambda>d. d\<lparr>pd_list_head := pd_link (pds s (pd_list_head (dev s)))\<rparr>) s"
    using al hd by (auto simp: sysmem_alloc_pd_def Let_def)
  have "pd_slots s' = pd_slots s"
    by (simp add: s' pd_slots_def)
  with ok f r a s' show ?thesis
    unfolding pd_pool_ok_def by (auto intro!: exI [of _ rest])
qed

lemma alloc_pd_fresh:
  assumes ok: "pd_pool_ok s U" and hd: "pd_list_head (dev s) = NULL" and al: "sysmem_alloc_pd s = (a, s')"
  shows "pd_pool_ok s' U \<and> (a \<noteq> NULL \<longrightarrow> a \<notin> U \<and> pd_pool_ok s' (insert a U))"
proof (cases "first_free_pdf (dev s) < first_free_pd (dev s) + sizeof_pd")
  case True
  with al hd ok show ?thesis by (auto simp: sysmem_alloc_pd_def Let_def)
next
  case False
  let ?f = "first_free_pd (dev s)"
  let ?b = "pd_base (phy s)"
  from ok hd have U: "U \<subseteq> pd_slots s"
    and g: "0 < ?b" "?b < ?f" "first_free_pdf (dev s) < 2 ^ 64" "sizeof_pd dvd ?f - ?b"
    by (auto simp: pd_pool_ok_def)
  have s': "s' = upd_dev (\<lambda>d. d\<lparr>first_free_pd := ?f + sizeof_pd\<rparr>) s"
    and a: "a \<noteq> NULL \<Longrightarrow> a = ?f \<and> (?f - ?b) div sizeof_pd div 2 ^ 24 = 0"
    using al hd False by (auto simp: sysmem_alloc_pd_def Let_def split: if_splits)
  have "sizeof_pd dvd (?f - ?b) + sizeof_pd" using g(4) by simp
  then have dv: "sizeof_pd dvd ?f + sizeof_pd - ?b" by (simp add: algebra_simps)
  have sub: "U \<subseteq> pd_slots s'"
    using U by (auto simp: pd_slots_def s' sizeof_defs)
  have new: "?f \<in> pd_slots s'" if "(?f - ?b) div sizeof_pd div 2 ^ 24 = 0"
  proof -
    have "0 \<le> (?f - ?b) div sizeof_pd" using g(2) by (simp add: sizeof_defs pos_imp_zdiv_nonneg_iff)
    with that have "(?f - ?b) div sizeof_pd < 2 ^ 24"
      by (metis div_pos_pos_trivial int_div_less_self linorder_not_le pos_imp_zdiv_pos_iff zero_less_numeral zero_less_power order_less_irrefl)
    with g show ?thesis by (auto simp: pd_slots_def s' sizeof_defs)
  qed
  have fresh: "?f \<notin> U"
    using U by (auto simp: pd_slots_def sizeof_defs)
  show ?thesis
    using ok hd False sub new a dv fresh by (auto simp: pd_pool_ok_def s' sizeof_defs)
qed

interpretation pd_pool: lifo_pool pd_pool_ok sysmem_alloc_pd sysmem_free_pd
proof
  fix s s' :: dp and U a
  assume ok: "pd_pool_ok s U"
  show "a \<notin> U \<and> pd_pool_ok s' (insert a U)" if "sysmem_alloc_pd s = (a, s')" and "a \<noteq> NULL"
    using alloc_pd_list [OF ok _ that(1)] alloc_pd_fresh [OF ok _ that(1)] that(2) by blast
  show "pd_pool_ok s' U" if "sysmem_alloc_pd s = (NULL, s')"
    using that alloc_pd_fresh [OF ok _ that] by (auto simp: sysmem_alloc_pd_def Let_def split: if_splits)
  assume a: "a \<in> U"
  from ok obtain free where f: "chain (\<lambda>a. pd_link (pds s a)) (pd_list_head (dev s)) free" "distinct free"
    "U \<inter> set free = {}" "U \<union> set free \<subseteq> pd_slots s"
    by (auto simp: pd_pool_ok_def)
  have ha: "addr_ok (pd_list_head (dev s))"
    using head_addr_ok [OF f(1)] pd_slots_addr [OF ok] f(4) by blast
  have a0: "a \<noteq> NULL" using pd_slots_addr [OF ok] f(4) a by blast
  have link: "pd_link (p\<lparr>pd_cookie := 0\<rparr>) = pd_link p" for p
    by (simp add: pd_link_def pd_word0_def)
  have "chain (\<lambda>b. pd_link (((pds s)(a := set_pd_link (pd_list_head (dev s)) (pds s a))) b)) a (a # free)"
    using f(1,3) a a0 ha by (intro pd_obj.chain_push) auto
  also have "(\<lambda>b. pd_link (((pds s)(a := set_pd_link (pd_list_head (dev s)) (pds s a))) b)) =
      (\<lambda>b. pd_link (pds (sysmem_free_pd a s) b))"
    by (auto simp: sysmem_free_pd_def Let_def link)
  finally have "chain (\<lambda>b. pd_link (pds (sysmem_free_pd a s) b)) a (a # free)" .
  moreover have "pd_slots (sysmem_free_pd a s) = pd_slots s"
    by (simp add: sysmem_free_pd_def Let_def pd_slots_def)
  ultimately show "pd_pool_ok (sysmem_free_pd a s) (U - {a})"
    using f a ok unfolding pd_pool_ok_def
    by (intro conjI exI [of _ "a # free"]) (auto simp: sysmem_free_pd_def Let_def)
  show "a \<noteq> NULL \<and> fst (sysmem_alloc_pd (sysmem_free_pd a s)) = a"
    using a0 by (simp add: sysmem_alloc_pd_def sysmem_free_pd_def Let_def)
qed

section \<open>Flows\<close>

lemma flow_slots_addr:
  "pool_geometry s \<Longrightarrow> a \<in> flow_slots s \<Longrightarrow> a \<noteq> NULL \<and> addr_ok a"
  by (auto simp: flow_slots_def pool_geometry_def addr_ok_def sizeof_defs)

lemma flow_lists_frame:
  assumes ok: "flow_lists_ok s U sf sl" and "pool_geometry s'" and "flow_slots s \<subseteq> flow_slots s'"
    and "stateful_flow_list_head (dev s') = stateful_flow_list_head (dev s)"
    and "stateless_flow_list_head (dev s') = stateless_flow_list_head (dev s)"
    and same: "\<And>x. x \<noteq> a \<Longrightarrow> flows s' x = flows s x"
    and "length (fl_db_group_id (flows s' a)) = 6" and a: "a \<notin> U \<union> set (sf @ sl)"
  shows "flow_lists_ok s' U sf sl"
proof -
  have "chain (\<lambda>a. flow_link (flows s' a)) p ps = chain (\<lambda>a. flow_link (flows s a)) p ps"
    if "set ps \<subseteq> set (sf @ sl)" for p ps
    by (intro chain_cong arg_cong [where f = flow_link] same) (use that a in auto)
  moreover have "length (fl_db_group_id (flows s' x)) = 6" for x
    using assms(7) same [of x] ok by (cases "x = a") (auto simp: flow_lists_ok_def)
  moreover have "\<forall>x \<in> set sf. flows s' x = flows s x" "\<forall>x \<in> U. flows s' x = flows s x"
    using same a by (metis UnCI set_append)+
  ultimately show ?thesis
    using assms(2-5) ok by (auto simp: flow_lists_ok_def)
qed

lemma flow_lists_insert:
  assumes "flow_lists_ok s U sf sl" and "a \<in> flow_slots s" and "a \<notin> set (sf @ sl)"
    and "fl_is_stateless (flows s a) = 0 \<Longrightarrow> fl_pdf_index (flows s a) \<noteq> 0"
  shows "flow_lists_ok s (insert a U) sf sl"
  using assms by (auto simp: flow_lists_ok_def)

text \<open>Writing through the pool pointers when a flow is carved out of the free space.\<close>

lemma first_free_flow_fresh:
  assumes "flow_lists_ok s U sf sl"
    and "first_free_flow (dev s) + sizeof_flow < first_free_job (dev s)"
    and "dev s' = (dev s)\<lparr>first_free_flow := first_free_flow (dev s) + sizeof_flow, first_free_pdf := p, current_pdf_index := i\<rparr>"
    and "\<And>x. x \<noteq> first_free_flow (dev s) \<Longrightarrow> flows s' x = flows s x"
    and "length (fl_db_group_id (flows s' (first_free_flow (dev s)))) = 6"
  shows "flow_lists_ok s' U sf sl" and "first_free_flow (dev s) \<in> flow_slots s'"
    and "first_free_flow (dev s) \<notin> U \<union> set (sf @ sl)"
proof -
  let ?a = "first_free_flow (dev s)"
  show a: "?a \<notin> U \<union> set (sf @ sl)"
    using assms(1) by (fastforce simp: flow_lists_ok_def flow_slots_def sizeof_defs)
  have g: "pool_geometry s'"
    using assms(1-3) by (simp add: flow_lists_ok_def pool_geometry_def sizeof_defs)
  have d: "sizeof_flow dvd x \<Longrightarrow> sizeof_flow dvd sizeof_flow + x" for x by simp
  have sl: "flow_slots s \<subseteq> flow_slots s'"
  proof
    fix x assume "x \<in> flow_slots s"
    then show "x \<in> flow_slots s'"
      using assms(3) d [of "?a - x"] by (auto simp: flow_slots_def sizeof_defs algebra_simps)
  qed
  show "?a \<in> flow_slots s'"
    using assms(1,3) by (simp add: flow_slots_def flow_lists_ok_def pool_geometry_def)
  show "flow_lists_ok s' U sf sl"
    using assms(3) by (intro flow_lists_frame [OF assms(1) g sl _ _ assms(4,5) a]) simp_all
qed

lemma alloc_pdf_effect:
  "\<exists>p i x. dev (sysmem_alloc_pdf a s) = (dev s)\<lparr>first_free_pdf := p, current_pdf_index := i\<rparr> \<and>
     flows (sysmem_alloc_pdf a s) = (flows s)(a := (flows s a)\<lparr>fl_u0 := x\<rparr>)"
proof -
  have d: "\<exists>p i. d = d\<lparr>first_free_pdf := p, current_pdf_index := i\<rparr>"
    "\<exists>p i. d\<lparr>current_pdf_index := j\<rparr> = d\<lparr>first_free_pdf := p, current_pdf_index := i\<rparr>"
    "\<exists>p i. d\<lparr>first_free_pdf := q\<rparr> = d\<lparr>first_free_pdf := p, current_pdf_index := i\<rparr>" for d :: nlm_device and j q
    by (cases d; auto)+
  show ?thesis
    unfolding sysmem_alloc_pdf_def Let_def using d by auto
qed

lemma alloc_flow_list_stateless:
  assumes ok: "flow_lists_ok s U sf sl" and hd: "stateless_flow_list_head (dev s) = a" "a \<noteq> NULL"
  shows "\<exists>s'. memory_pool_alloc_flow NLM_FLOW_TYPE_STATELESS s = Some (a, s') \<and> a \<notin> U \<and> a \<in> flow_slots s' \<and>
    flow_lists_ok s' U sf (tl sl) \<and> a \<notin> set (sf @ tl sl) \<and> flows s' a = flow_zero"
proof -
  let ?s' = "upd_flow a (\<lambda>_. flow_zero) (upd_dev (\<lambda>d. d\<lparr>stateless_flow_list_head := flow_link (flows s a)\<rparr>) s)"
  obtain rest where r: "sl = a # rest" "chain (\<lambda>a. flow_link (flows s a)) (flow_link (flows s a)) rest"
    using chain_head [of "\<lambda>a. flow_link (flows s a)" "stateless_flow_list_head (dev s)" sl] ok hd by (auto simp: flow_lists_ok_def)
  have l1: "flow_lists_ok (upd_dev (\<lambda>d. d\<lparr>stateless_flow_list_head := flow_link (flows s a)\<rparr>) s) U sf rest"
    using ok r hd by (auto simp: flow_lists_ok_def pool_geometry_def flow_slots_def)
  have "a \<notin> U \<union> set (sf @ rest)" "a \<in> flow_slots s"
    using ok r by (auto simp: flow_lists_ok_def)
  have "flow_lists_ok ?s' U sf rest"
    using l1 \<open>a \<notin> U \<union> set (sf @ rest)\<close>
    by (intro flow_lists_frame [OF l1, where a = a])
       (simp_all add: flow_zero_def flow_lists_ok_def pool_geometry_def flow_slots_def)
  with r hd \<open>a \<notin> U \<union> set (sf @ rest)\<close> \<open>a \<in> flow_slots s\<close> show ?thesis
    by (intro exI [of _ ?s']) (auto simp: memory_pool_alloc_flow_def Let_def flow_slots_def)
qed

lemma alloc_flow_list_stateful:
  assumes ok: "flow_lists_ok s U sf sl" and hd: "stateful_flow_list_head (dev s) = a" "a \<noteq> NULL"
  shows "\<exists>s' i. memory_pool_alloc_flow NLM_FLOW_TYPE_STATEFUL s = Some (a, s') \<and> a \<notin> U \<and> a \<in> flow_slots s' \<and>
    flow_lists_ok s' U (tl sf) sl \<and> a \<notin> set (tl sf @ sl) \<and> flows s' a = flow_zero\<lparr>fl_u0 := i\<rparr> \<and> i \<noteq> 0"
proof -
  let ?z = "flow_zero\<lparr>fl_u0 := fl_u0 (flows s a)\<rparr>"
  let ?s' = "upd_flow a (\<lambda>_. ?z) (upd_dev (\<lambda>d. d\<lparr>stateful_flow_list_head := flow_link (flows s a)\<rparr>) s)"
  obtain rest where r: "sf = a # rest" "chain (\<lambda>a. flow_link (flows s a)) (flow_link (flows s a)) rest"
    using chain_head [of "\<lambda>a. flow_link (flows s a)" "stateful_flow_list_head (dev s)" sf] ok hd by (auto simp: flow_lists_ok_def)
  have l1: "flow_lists_ok (upd_dev (\<lambda>d. d\<lparr>stateful_flow_list_head := flow_link (flows s a)\<rparr>) s) U rest sl"
    using ok r hd by (auto simp: flow_lists_ok_def pool_geometry_def flow_slots_def)
  have "a \<notin> U \<union> set (rest @ sl)" "a \<in> flow_slots s" and u0: "fl_u0 (flows s a) \<noteq> 0"
    using ok r by (auto simp: flow_lists_ok_def)
  have "flow_lists_ok ?s' U rest sl"
    using l1 \<open>a \<notin> U \<union> set (rest @ sl)\<close>
    by (intro flow_lists_frame [OF l1, where a = a])
       (simp_all add: flow_zero_def flow_lists_ok_def pool_geometry_def flow_slots_def)
  with r hd u0 \<open>a \<notin> U \<union> set (rest @ sl)\<close> \<open>a \<in> flow_slots s\<close> show ?thesis
    by (intro exI [of _ ?s'] exI [of _ "fl_u0 (flows s a)"])
       (auto simp: memory_pool_alloc_flow_def Let_def flow_slots_def flow_type_defs)
qed

text \<open>The outcome of an allocation: nothing, or a zeroed flow outside of the lists and of \<open>U\<close>.\<close>

lemma alloc_flow_ok:
  assumes ok: "flow_pool_ok s U" and t: "t = NLM_FLOW_TYPE_STATELESS \<or> t = NLM_FLOW_TYPE_STATEFUL"
  shows "memory_pool_alloc_flow t s = Some (NULL, s) \<or>
    (\<exists>a s' sf sl i. memory_pool_alloc_flow t s = Some (a, s') \<and> a \<noteq> NULL \<and> a \<notin> U \<and> a \<in> flow_slots s' \<and>
       flow_lists_ok s' U sf sl \<and> a \<notin> set (sf @ sl) \<and> flows s' a = flow_zero\<lparr>fl_u0 := i\<rparr>)"
proof -
  from ok obtain sf sl where l: "flow_lists_ok s U sf sl" by (auto simp: flow_pool_ok_def)
  let ?a = "first_free_flow (dev s)"
  have a0: "?a \<noteq> NULL" using l by (auto simp: flow_lists_ok_def pool_geometry_def)
  have z: "flow_zero = flow_zero\<lparr>fl_u0 := 0\<rparr>" by (simp add: flow_zero_def)
  show ?thesis
  proof (cases "t = NLM_FLOW_TYPE_STATELESS")
    case True
    show ?thesis
    proof (cases "stateless_flow_list_head (dev s) = NULL")
      case False
      with True z alloc_flow_list_stateless [OF l refl False] show ?thesis by metis
    next
      case hd: True
      let ?s' = "upd_flow ?a (\<lambda>_. flow_zero) (upd_dev (\<lambda>d. d\<lparr>first_free_flow := ?a + sizeof_flow\<rparr>) s)"
      show ?thesis
      proof (cases "?a + sizeof_flow < first_free_job (dev s)")
        case room: True
        have "memory_pool_alloc_flow t s = Some (?a, ?s')"
          using True hd room by (simp add: memory_pool_alloc_flow_def Let_def)
        moreover note first_free_flow_fresh [OF l room, of ?s' "current_pdf_index (dev s)" "first_free_pdf (dev s)"]
        ultimately show ?thesis
          using a0 z by (auto simp: flow_zero_def intro!: exI)
      qed (use True hd in \<open>auto simp: memory_pool_alloc_flow_def Let_def\<close>)
    qed
  next
    case False
    with t have ts: "t = NLM_FLOW_TYPE_STATEFUL" by blast
    show ?thesis
    proof (cases "stateful_flow_list_head (dev s) = NULL")
      case False
      with ts alloc_flow_list_stateful [OF l refl False] show ?thesis by metis
    next
      case hd: True
      let ?s1 = "upd_flow ?a (\<lambda>_. flow_zero) (upd_dev (\<lambda>d. d\<lparr>first_free_flow := ?a + sizeof_flow\<rparr>) s)"
      let ?s' = "sysmem_alloc_pdf ?a ?s1"
      obtain p i x where e: "dev ?s' = (dev ?s1)\<lparr>first_free_pdf := p, current_pdf_index := i\<rparr>"
        "flows ?s' = (flows ?s1)(?a := (flows ?s1 ?a)\<lparr>fl_u0 := x\<rparr>)"
        using alloc_pdf_effect by blast
      show ?thesis
      proof (cases "?a + sizeof_flow < first_free_job (dev s)")
        case room: True
        have "memory_pool_alloc_flow t s = Some (?a, ?s')"
          using ts hd room by (simp add: memory_pool_alloc_flow_def Let_def flow_type_defs)
        moreover note first_free_flow_fresh [OF l room, of ?s' i p]
        ultimately show ?thesis
          using a0 e by (auto simp: flow_zero_def intro!: exI)
      qed (use ts hd in \<open>auto simp: memory_pool_alloc_flow_def Let_def flow_type_defs\<close>)
    qed
  qed
qed

lemma free_flow_lists:
  assumes l: "flow_lists_ok s U sf sl" and a: "a \<in> U"
  shows "fl_is_stateless (flows s a) \<noteq> 0 \<Longrightarrow> flow_lists_ok (memory_pool_free_flow a s) (U - {a}) sf (a # sl)"
    and "fl_is_stateless (flows s a) = 0 \<Longrightarrow> flow_lists_ok (memory_pool_free_flow a s) (U - {a}) (a # sf) sl"
proof -
  note L = l [unfolded flow_lists_ok_def]
  have aN: "a \<noteq> NULL" and an: "a \<notin> set (sf @ sl)"
    using L a flow_slots_addr by blast+
  have c: "chain (\<lambda>a. flow_link (flows s a)) (stateful_flow_list_head (dev s)) sf"
    "chain (\<lambda>a. flow_link (flows s a)) (stateless_flow_list_head (dev s)) sl"
    and aok: "\<And>x. x \<in> set (sf @ sl) \<Longrightarrow> addr_ok x"
    using L flow_slots_addr by blast+
  have hsf: "addr_ok (stateful_flow_list_head (dev s))" using head_addr_ok [OF c(1)] aok by simp
  have hsl: "addr_ok (stateless_flow_list_head (dev s))" using head_addr_ok [OF c(2)] aok by simp
  let ?h = "\<lambda>p. (flows s)(a := set_flow_link p (flows s a))"
  have keep: "chain (\<lambda>b. flow_link (?h p b)) q ps" if "chain (\<lambda>b. flow_link (flows s b)) q ps" "set ps \<subseteq> set (sf @ sl)" for p q ps
    using flow_obj.chain_write [OF that(1)] that(2) an by blast
  have push: "chain (\<lambda>b. flow_link (?h q b)) a (a # ps)"
    if "chain (\<lambda>b. flow_link (flows s b)) q ps" "set ps \<subseteq> set (sf @ sl)" "addr_ok q" for q ps
    using flow_obj.chain_push [OF that(1)] that an aN L by auto
  have six: "length (fl_db_group_id (set_flow_link p f)) = length (fl_db_group_id f)"
    and u0: "fl_u0 (set_flow_link p f) = fl_u0 f" for p f
    by (simp_all add: set_flow_link_def Let_def)
  show "flow_lists_ok (memory_pool_free_flow a s) (U - {a}) sf (a # sl)" if "fl_is_stateless (flows s a) \<noteq> 0"
    using that L a an keep [of _ sf] push [of _ sl] hsl six
    by (auto simp: flow_lists_ok_def memory_pool_free_flow_def pool_geometry_def flow_slots_def)
  show "flow_lists_ok (memory_pool_free_flow a s) (U - {a}) (a # sf) sl" if "fl_is_stateless (flows s a) = 0"
    using that L a an keep [of _ sl] push [of _ sf] hsf six u0
    by (auto simp: flow_lists_ok_def memory_pool_free_flow_def pool_geometry_def flow_slots_def)
qed

lemma free_flow_ok:
  assumes "flow_pool_ok s U" and a: "a \<in> U"
  shows "flow_pool_ok (memory_pool_free_flow a s) (U - {a})"
proof -
  from assms(1) obtain sf sl where "flow_lists_ok s U sf sl" by (auto simp: flow_pool_ok_def)
  from free_flow_lists [OF this a] show ?thesis by (auto simp: flow_pool_ok_def)
qed

text \<open>What a created flow looks like.\<close>

definition fresh_flow :: "u32 \<Rightarrow> nlm_flow \<Rightarrow> bool" where
  "fresh_flow t f \<longleftrightarrow>
     f = (if t = NLM_FLOW_TYPE_STATEFUL then flow_zero\<lparr>fl_type := t, fl_u0 := fl_u0 f\<rparr>
          else flow_zero\<lparr>fl_type := t, fl_is_stateless := 1, fl_u0 := fl_u0 f\<rparr>) \<and>
     (t = NLM_FLOW_TYPE_STATEFUL \<longrightarrow> fl_pdf_index f \<noteq> 0)"

lemma flow_lists_upd:
  assumes "flow_lists_ok s U sf sl" and "a \<notin> U \<union> set (sf @ sl)" and "length (fl_db_group_id (g (flows s a))) = 6"
  shows "flow_lists_ok (upd_flow a g s) U sf sl"
  using assms
  by (intro flow_lists_frame [OF assms(1), where a = a]) (auto simp: flow_lists_ok_def flow_slots_def)

lemma create_flow_cases:
  assumes ok: "flow_pool_ok s U" and t: "t = NLM_FLOW_TYPE_STATELESS \<or> t = NLM_FLOW_TYPE_STATEFUL"
    and args: "device \<noteq> NULL" "p_flow \<noteq> NULL"
  obtains (no_memory) s' st where "nlm_create_flow device t p_flow s = Some (st, Some NULL, s')"
      "st \<in> {NLM_OUT_OF_MEMORY, NLM_OUT_OF_DDR_MEMORY, NLM_OUT_OF_DEVICE_MEMORY}" "flow_pool_ok s' U"
  | (created) a s' where "nlm_create_flow device t p_flow s = Some (NLM_OK, Some a, s')"
      "a \<noteq> NULL" "a \<notin> U" "flow_pool_ok s' (insert a U)" "fresh_flow t (flows s' a)"
proof -
  have mp: "memory_pool (dev s) \<noteq> NULL"
    using ok by (auto simp: flow_pool_ok_def flow_lists_ok_def pool_geometry_def)
  from alloc_flow_ok [OF ok t] show thesis
  proof (elim disjE exE conjE)
    assume "memory_pool_alloc_flow t s = Some (NULL, s)"
    with mp args t ok show thesis
      by (intro no_memory [of NLM_OUT_OF_MEMORY s]) (auto simp: nlm_create_flow_def)
  next
    fix a s1 sf sl i
    assume al: "memory_pool_alloc_flow t s = Some (a, s1)" and a: "a \<noteq> NULL" "a \<notin> U" "a \<in> flow_slots s1"
      and l: "flow_lists_ok s1 U sf sl" "a \<notin> set (sf @ sl)" and f: "flows s1 a = flow_zero\<lparr>fl_u0 := i\<rparr>"
    have keep: "flow_lists_ok (upd_flow a g s1) U sf sl" if "length (fl_db_group_id (g (flows s1 a))) = 6" for g
      using flow_lists_upd [OF l(1)] that a l(2) by simp
    have ins: "flow_pool_ok (upd_flow a g s1) (insert a U)"
      if "length (fl_db_group_id (g (flows s1 a))) = 6"
        and "fl_is_stateless (g (flows s1 a)) = 0 \<Longrightarrow> fl_u0 (g (flows s1 a)) \<noteq> 0" for g
    proof -
      have "flow_lists_ok (upd_flow a g s1) U sf sl" using that(1) by (rule keep)
      from flow_lists_insert [OF this, of a] that a l(2) show ?thesis
        by (auto simp: flow_pool_ok_def flow_slots_def)
    qed
    have comp: "upd_flow a g (upd_flow a h s1) = upd_flow a (g \<circ> h) s1" for g h
      by (simp add: upd_flow_def)
    show thesis
    proof (cases "t = NLM_FLOW_TYPE_STATEFUL \<and> i = 0")
      case True
      with mp args al a f have "\<exists>st. nlm_create_flow device t p_flow s =
          Some (st, Some NULL, upd_flow a (\<lambda>f. f\<lparr>fl_type := t\<rparr>) s1) \<and>
          st \<in> {NLM_OUT_OF_MEMORY, NLM_OUT_OF_DDR_MEMORY, NLM_OUT_OF_DEVICE_MEMORY}"
        by (auto simp: nlm_create_flow_def Let_def)
      moreover have "flow_pool_ok (upd_flow a (\<lambda>f. f\<lparr>fl_type := t\<rparr>) s1) U"
        using keep [of "\<lambda>f. f\<lparr>fl_type := t\<rparr>"] f by (auto simp: flow_pool_ok_def flow_zero_def)
      ultimately show thesis using no_memory by blast
    next
      case ok2: False
      define g :: "nlm_flow \<Rightarrow> nlm_flow" where "g = (if t = NLM_FLOW_TYPE_STATEFUL then (\<lambda>f. f\<lparr>fl_flow_offset := 0\<rparr>) \<circ> (\<lambda>f. f\<lparr>fl_type := t\<rparr>)
        else (\<lambda>f. f\<lparr>fl_is_stateless := 1\<rparr>) \<circ> (\<lambda>f. f\<lparr>fl_type := t\<rparr>))"
      have "nlm_create_flow device t p_flow s = Some (NLM_OK, Some a, upd_flow a g s1)"
        using mp args al a f t ok2 unfolding g_def
        by (auto simp: nlm_create_flow_def Let_def comp simp del: comp_apply)
      moreover have "fresh_flow t (flows (upd_flow a g s1) a)"
        using f t ok2 by (auto simp: fresh_flow_def g_def flow_zero_def flow_type_defs)
      moreover have "flow_pool_ok (upd_flow a g s1) (insert a U)"
        using ok2 t f by (intro ins) (auto simp: g_def flow_zero_def flow_type_defs split: if_splits)
      ultimately show thesis using a created by blast
    qed
  qed
qed

definition create_flow_handle :: "u32 \<Rightarrow> dp \<Rightarrow> addr \<times> dp" where
  "create_flow_handle t s = (case nlm_create_flow 1 t 1 s of Some (_, Some a, s') \<Rightarrow> (a, s') | _ \<Rightarrow> (NULL, s))"

lemma create_flow_handle_ok:
  assumes "flow_pool_ok s U" and "t = NLM_FLOW_TYPE_STATELESS \<or> t = NLM_FLOW_TYPE_STATEFUL"
    and "create_flow_handle t s = (a, s')"
  shows "a \<noteq> NULL \<longrightarrow> a \<notin> U \<and> flow_pool_ok s' (insert a U)" and "a = NULL \<longrightarrow> flow_pool_ok s' U"
  using assms by (auto simp: create_flow_handle_def elim!: create_flow_cases [of s U t 1 1])

interpretation stateless_pool: object_pool flow_pool_ok "create_flow_handle NLM_FLOW_TYPE_STATELESS" memory_pool_free_flow
proof
  fix s s' :: dp and U a
  assume ok: "flow_pool_ok s U"
  note c = create_flow_handle_ok [OF ok, of NLM_FLOW_TYPE_STATELESS]
  show "a \<notin> U \<and> flow_pool_ok s' (insert a U)" if "create_flow_handle NLM_FLOW_TYPE_STATELESS s = (a, s')" "a \<noteq> NULL"
    using c(1) [of a s'] that by simp
  show "flow_pool_ok s' U" if "create_flow_handle NLM_FLOW_TYPE_STATELESS s = (NULL, s')"
    using c(2) [of NULL s'] that by simp
  show "flow_pool_ok (memory_pool_free_flow a s) (U - {a})" if "a \<in> U"
    using ok that by (rule free_flow_ok)
qed

interpretation stateful_pool: object_pool flow_pool_ok "create_flow_handle NLM_FLOW_TYPE_STATEFUL" memory_pool_free_flow
proof
  fix s s' :: dp and U a
  assume ok: "flow_pool_ok s U"
  note c = create_flow_handle_ok [OF ok, of NLM_FLOW_TYPE_STATEFUL]
  show "a \<notin> U \<and> flow_pool_ok s' (insert a U)" if "create_flow_handle NLM_FLOW_TYPE_STATEFUL s = (a, s')" "a \<noteq> NULL"
    using c(1) [of a s'] that by simp
  show "flow_pool_ok s' U" if "create_flow_handle NLM_FLOW_TYPE_STATEFUL s = (NULL, s')"
    using c(2) [of NULL s'] that by simp
  show "flow_pool_ok (memory_pool_free_flow a s) (U - {a})" if "a \<in> U"
    using ok that by (rule free_flow_ok)
qed

section \<open>Taking from and giving to the free lists\<close>

lemma free_jobs_unique: "free_jobs s fs \<Longrightarrow> free_jobs s gs \<Longrightarrow> gs = fs"
  unfolding free_jobs_def by (rule chain_unique)

lemma free_pds_unique: "free_pds s ps \<Longrightarrow> free_pds s qs \<Longrightarrow> qs = ps"
  unfolding free_pds_def by (rule chain_unique)

lemma free_jobs_pool:
  assumes "job_pool_ok s U" and "free_jobs s fs"
  shows "distinct fs" and "U \<inter> set fs = {}" and "set fs \<subseteq> job_slots s"
proof -
  obtain gs where g: "free_jobs s gs" "distinct gs" "U \<inter> set gs = {}" "U \<union> set gs \<subseteq> job_slots s"
    using assms(1) by (auto simp: job_pool_ok_def free_jobs_def)
  have "gs = fs" by (rule free_jobs_unique [OF assms(2) g(1)])
  with g show "distinct fs" "U \<inter> set fs = {}" "set fs \<subseteq> job_slots s" by auto
qed

lemma free_pds_pool:
  assumes "pd_pool_ok s V" and "free_pds s ps"
  shows "distinct ps" and "V \<inter> set ps = {}" and "set ps \<subseteq> pd_slots s"
proof -
  obtain gs where g: "free_pds s gs" "distinct gs" "V \<inter> set gs = {}" "V \<union> set gs \<subseteq> pd_slots s"
    using assms(1) by (auto simp: pd_pool_ok_def free_pds_def)
  have "gs = ps" by (rule free_pds_unique [OF assms(2) g(1)])
  with g show "distinct ps" "V \<inter> set ps = {}" "set ps \<subseteq> pd_slots s" by auto
qed

lemma free_jobs_cong:
  assumes "job_list_head (dev s') = job_list_head (dev s)" and "\<And>a. a \<in> set fs \<Longrightarrow> jobs s' a = jobs s a"
  shows "free_jobs s' fs = free_jobs s fs"
  unfolding free_jobs_def assms(1) using assms(2) by (intro chain_cong) simp

lemma free_pds_cong:
  assumes "pd_list_head (dev s') = pd_list_head (dev s)" and "\<And>a. a \<in> set ps \<Longrightarrow> pds s' a = pds s a"
  shows "free_pds s' ps = free_pds s ps"
  unfolding free_pds_def assms(1) using assms(2) by (intro chain_cong) simp

text \<open>Objects in use may be written.\<close>

lemma free_jobs_frame:
  assumes "job_pool_ok s U" and "free_jobs s fs" and "job_list_head (dev s') = job_list_head (dev s)"
    and "\<And>a. a \<notin> U \<Longrightarrow> jobs s' a = jobs s a"
  shows "free_jobs s' fs"
  using free_jobs_cong [OF assms(3), of fs] free_jobs_pool(2) [OF assms(1,2)] assms(2,4) by blast

lemma free_pds_frame:
  assumes "pd_pool_ok s V" and "free_pds s ps" and "pd_list_head (dev s') = pd_list_head (dev s)"
    and "\<And>a. a \<notin> V \<Longrightarrow> pds s' a = pds s a"
  shows "free_pds s' ps"
  using free_pds_cong [OF assms(3), of ps] free_pds_pool(2) [OF assms(1,2)] assms(2,4) by blast

lemma free_job_push:
  assumes ok: "job_pool_ok s U" and "a \<in> U" and f: "free_jobs s fs"
  shows "free_jobs (memory_pool_free_job a s) (a # fs)"
proof -
  note p = free_jobs_pool [OF ok f]
  have g: "pool_geometry s" and "a \<in> job_slots s" using ok \<open>a \<in> U\<close> by (auto simp: job_pool_ok_def)
  then have a: "a \<noteq> NULL" "a \<notin> set fs" using job_slots_addr [OF g] p(2) \<open>a \<in> U\<close> by auto
  have h: "addr_ok (job_list_head (dev s))"
    using head_addr_ok [OF f [unfolded free_jobs_def]] job_slots_addr [OF g] p(3) by blast
  show ?thesis
    using job_obj.chain_push [OF f [unfolded free_jobs_def] a(2,1) h]
    by (simp add: free_jobs_def memory_pool_free_job_def)
qed

lemma free_pd_push:
  assumes ok: "pd_pool_ok s V" and "a \<in> V" and f: "free_pds s ps"
  shows "free_pds (sysmem_free_pd a s) (a # ps)"
proof -
  note p = free_pds_pool [OF ok f]
  have "a \<in> pd_slots s" using ok \<open>a \<in> V\<close> by (auto simp: pd_pool_ok_def)
  then have a: "a \<noteq> NULL" "a \<notin> set ps" using pd_slots_addr [OF ok] p(2) \<open>a \<in> V\<close> by auto
  have h: "addr_ok (pd_list_head (dev s))"
    using head_addr_ok [OF f [unfolded free_pds_def]] pd_slots_addr [OF ok] p(3) by blast
  have link: "pd_link (q\<lparr>pd_cookie := 0\<rparr>) = pd_link q" for q
    by (simp add: pd_link_def pd_word0_def)
  have e: "pd_link (pds (sysmem_free_pd a s) b) =
      pd_link (((pds s)(a := set_pd_link (pd_list_head (dev s)) (pds s a))) b)" for b
    by (simp add: sysmem_free_pd_def Let_def link)
  have "chain (\<lambda>b. pd_link (pds (sysmem_free_pd a s) b)) a (a # ps)"
    unfolding e using f a h by (intro pd_obj.chain_push) (auto simp: free_pds_def)
  then show ?thesis by (simp add: free_pds_def sysmem_free_pd_def Let_def)
qed

text \<open>An allocation takes the head of the list, or leaves the list empty.\<close>

lemma alloc_job_pop:
  assumes "free_jobs s fs" and "memory_pool_alloc_job s = (a, s')"
  shows "free_jobs s' (tl fs)" and "fs \<noteq> [] \<Longrightarrow> a = hd fs"
proof -
  have "free_jobs s' (tl fs) \<and> (fs \<noteq> [] \<longrightarrow> a = hd fs)"
    using assms by (cases fs) (auto simp: free_jobs_def memory_pool_alloc_job_def Let_def split: if_splits)
  then show "free_jobs s' (tl fs)" "fs \<noteq> [] \<Longrightarrow> a = hd fs" by auto
qed

lemma alloc_pd_pop:
  assumes "free_pds s ps" and "sysmem_alloc_pd s = (a, s')"
  shows "free_pds s' (tl ps)" and "ps \<noteq> [] \<Longrightarrow> a = hd ps"
proof -
  have "free_pds s' (tl ps) \<and> (ps \<noteq> [] \<longrightarrow> a = hd ps)"
    using assms by (cases ps) (auto simp: free_pds_def sysmem_alloc_pd_def Let_def split: if_splits)
  then show "free_pds s' (tl ps)" "ps \<noteq> [] \<Longrightarrow> a = hd ps" by auto
qed

section \<open>Properties\<close>

lemma dvd_diff_apart: "0 < n \<Longrightarrow> n dvd c - a \<Longrightarrow> n dvd c - b \<Longrightarrow> a \<noteq> b \<Longrightarrow> n \<le> \<bar>a - b\<bar>" for a b c n :: int
proof -
  assume "0 < n" "n dvd c - a" "n dvd c - b" "a \<noteq> b"
  then have "n dvd (c - b) - (c - a)" by (metis dvd_diff)
  then have "n dvd a - b" by simp
  with \<open>a \<noteq> b\<close> \<open>0 < n\<close> show ?thesis using dvd_imp_le_int [of "a - b" n] by simp
qed

text \<open>C34. Whatever jobs are allocated and released, the jobs in use are pairwise disjoint
  blocks of the memory pool, all above the flows and below the job base, so that no two jobs
  and no flow and job share memory.\<close>

theorem job_pool_run:
  assumes "job_pool_ok s {}"
    and "pool_run memory_pool_alloc_job memory_pool_free_job ops s [] = (t, live)"
  shows "distinct live \<and>
    (\<forall>a \<in> set live. first_free_flow (dev t) \<le> a \<and> a + sizeof_job \<le> job_base (dev t)) \<and>
    (\<forall>a \<in> set live. \<forall>b \<in> set live. a \<noteq> b \<longrightarrow> sizeof_job \<le> \<bar>a - b\<bar>)"
proof -
  have ok: "job_pool_ok t (set live)" and "distinct live"
    using job_pool.run_distinct [of s "[]" ops t live] assms by simp_all
  then have g: "pool_geometry t" and sub: "set live \<subseteq> job_slots t"
    by (auto simp: job_pool_ok_def)
  show ?thesis
  proof (intro conjI ballI impI)
    fix a assume "a \<in> set live"
    with sub g show "first_free_flow (dev t) \<le> a" and "a + sizeof_job \<le> job_base (dev t)"
      by (auto simp: job_slots_def pool_geometry_def sizeof_defs)
  next
    fix a b assume "a \<in> set live" "b \<in> set live" "a \<noteq> b"
    with sub show "sizeof_job \<le> \<bar>a - b\<bar>"
      by (intro dvd_diff_apart [of _ "job_base (dev t)"]) (auto simp: job_slots_def sizeof_defs)
  qed (rule \<open>distinct live\<close>)
qed

lemma job_pool_dp0: "job_pool_ok dp0 {}"
  by (simp add: job_pool_ok_def pool_geometry_def dev0_def sizeof_defs)

theorem job_pool_run_witness:
  "snd (pool_run memory_pool_alloc_job memory_pool_free_job [Alloc, Alloc, Free 0, Alloc, Alloc] dp0 []) =
     [0x2000 - 176, 0x2000 - 88, 0x2000 - 264] \<and> distinct [0x2000 - 176, 0x2000 - 88, 0x2000 - 264 :: int]"
proof -
  let ?r = "pool_run memory_pool_alloc_job memory_pool_free_job [Alloc, Alloc, Free 0, Alloc, Alloc] dp0 []"
  have e: "snd ?r = [0x2000 - 176, 0x2000 - 88, 0x2000 - 264]"
    by (simp add: memory_pool_alloc_job_def memory_pool_free_job_def Let_def dev0_def sizeof_defs addr_ok_def)
  have "distinct (snd ?r)"
    using job_pool_run [OF job_pool_dp0, of _ "fst ?r" "snd ?r"] by (metis prod.collapse)
  with e show ?thesis by simp
qed

text \<open>The same for packet descriptors: those in use are pairwise disjoint, below the flow
  contexts, and their index relative to the base is positive and fits the 24 bits of a
  descriptor link, so that an index of zero can mark the end of a chain.\<close>

theorem pd_pool_run:
  assumes "pd_pool_ok s {}"
    and "pool_run sysmem_alloc_pd sysmem_free_pd ops s [] = (t, live)"
  shows "distinct live \<and>
    (\<forall>a \<in> set live. a + sizeof_pd \<le> first_free_pdf (dev t) \<and>
       0 < (a - pd_base (phy t)) div sizeof_pd \<and> (a - pd_base (phy t)) div sizeof_pd < 2 ^ 24) \<and>
    (\<forall>a \<in> set live. \<forall>b \<in> set live. a \<noteq> b \<longrightarrow> sizeof_pd \<le> \<bar>a - b\<bar>)"
proof -
  have ok: "pd_pool_ok t (set live)" and "distinct live"
    using pd_pool.run_distinct [of s "[]" ops t live] assms by simp_all
  then have g: "first_free_pd (dev t) \<le> first_free_pdf (dev t)" and sub: "set live \<subseteq> pd_slots t"
    by (auto simp: pd_pool_ok_def)
  show ?thesis
  proof (intro conjI ballI impI)
    fix a assume a: "a \<in> set live"
    with sub g show "a + sizeof_pd \<le> first_free_pdf (dev t)" "(a - pd_base (phy t)) div sizeof_pd < 2 ^ 24"
      by (auto simp: pd_slots_def)
    have "sizeof_pd dvd a - pd_base (phy t)" and "0 < a - pd_base (phy t)"
      using a sub by (auto simp: pd_slots_def)
    then have "sizeof_pd \<le> a - pd_base (phy t)" by (rule zdvd_imp_le)
    then show "0 < (a - pd_base (phy t)) div sizeof_pd"
      by (simp add: pos_imp_zdiv_pos_iff sizeof_defs)
  next
    fix a b assume "a \<in> set live" "b \<in> set live" "a \<noteq> b"
    with sub have "sizeof_pd dvd a - pd_base (phy t)" "sizeof_pd dvd b - pd_base (phy t)"
      by (auto simp: pd_slots_def)
    then have "sizeof_pd dvd pd_base (phy t) - a" "sizeof_pd dvd pd_base (phy t) - b"
      by (simp_all add: dvd_diff_commute)
    with \<open>a \<noteq> b\<close> show "sizeof_pd \<le> \<bar>a - b\<bar>"
      by (intro dvd_diff_apart [of _ "pd_base (phy t)"]) (auto simp: sizeof_defs)
  qed (rule \<open>distinct live\<close>)
qed

lemma pd_pool_dp0: "pd_pool_ok dp0 {}"
  by (simp add: pd_pool_ok_def phy0_def dev0_def sizeof_defs)

theorem pd_pool_run_witness:
  "snd (pool_run sysmem_alloc_pd sysmem_free_pd [Alloc, Alloc, Free 0, Alloc] dp0 []) =
     [0x10020, 0x10010] \<and> distinct [0x10020, 0x10010 :: int]"
proof -
  let ?r = "pool_run sysmem_alloc_pd sysmem_free_pd [Alloc, Alloc, Free 0, Alloc] dp0 []"
  have e: "snd ?r = [0x10020, 0x10010]"
    by (simp add: sysmem_alloc_pd_def sysmem_free_pd_def Let_def dev0_def phy0_def sizeof_defs)
  have "distinct (snd ?r)"
    using pd_pool_run [OF pd_pool_dp0, of _ "fst ?r" "snd ?r"] by (metis prod.collapse)
  with e show ?thesis by simp
qed

text \<open>The flows a creation looks at first, whether a new flow fits between flows and jobs, and whether
  a flow context is left; a context index of zero is never handed out while \<open>context_indices_ok\<close>.\<close>

definition free_flow_head :: "u32 \<Rightarrow> dp \<Rightarrow> addr" where
  "free_flow_head t s =
     (if t = NLM_FLOW_TYPE_STATELESS then stateless_flow_list_head (dev s) else stateful_flow_list_head (dev s))"

definition flow_fits :: "dp \<Rightarrow> bool" where
  "flow_fits s \<longleftrightarrow> first_free_flow (dev s) + sizeof_flow < first_free_job (dev s)"

definition context_left :: "dp \<Rightarrow> bool" where
  "context_left s \<longleftrightarrow>
     (if use_ddr_memory (phy s) \<noteq> 0 then current_pdf_index (dev s) < max_pdf_index (dev s)
      else first_free_pd (dev s) + sizeof_pdf < first_free_pdf (dev s))"

definition context_indices_ok :: "dp \<Rightarrow> bool" where
  "context_indices_ok s \<longleftrightarrow>
     (if use_ddr_memory (phy s) \<noteq> 0 then current_pdf_index (dev s) \<noteq> 0
      else pdf_base (phy s) + sizeof_pdf \<le> first_free_pdf (dev s) \<and>
        (first_free_pdf (dev s) - pdf_base (phy s)) div sizeof_pdf < 2 ^ 32)"

lemma alloc_pdf_index:
  assumes "context_indices_ok s"
  shows "fl_pdf_index (flows (sysmem_alloc_pdf a s) a) \<noteq> 0 \<longleftrightarrow> context_left s"
    and "use_ddr_memory (phy (sysmem_alloc_pdf a s)) = use_ddr_memory (phy s)"
    and "x \<noteq> a \<Longrightarrow> flows (sysmem_alloc_pdf a s) x = flows s x"
proof -
  let ?i = "(first_free_pdf (dev s) - pdf_base (phy s)) div sizeof_pdf"
  have "(word_of_int ?i :: u32) \<noteq> 0" if "use_ddr_memory (phy s) = 0"
  proof -
    have "0 < ?i" "?i < 2 ^ 32"
      using assms that by (simp_all add: context_indices_ok_def sizeof_defs pos_imp_zdiv_pos_iff)
    then show ?thesis by (simp add: word_of_int_eq_0_iff zdvd_not_zless)
  qed
  with assms show "fl_pdf_index (flows (sysmem_alloc_pdf a s) a) \<noteq> 0 \<longleftrightarrow> context_left s"
    by (auto simp: sysmem_alloc_pdf_def Let_def context_left_def context_indices_ok_def)
  show "use_ddr_memory (phy (sysmem_alloc_pdf a s)) = use_ddr_memory (phy s)"
    by (simp add: sysmem_alloc_pdf_def nlm_device_copy_into_ddr_def Let_def)
  show "x \<noteq> a \<Longrightarrow> flows (sysmem_alloc_pdf a s) x = flows s x"
    by (simp add: sysmem_alloc_pdf_def Let_def)
qed

lemma head_index:
  assumes "flow_pool_ok s U" and "stateful_flow_list_head (dev s) \<noteq> NULL"
  shows "fl_pdf_index (flows s (stateful_flow_list_head (dev s))) \<noteq> 0"
proof -
  obtain sf sl where l: "flow_lists_ok s U sf sl" using assms(1) by (auto simp: flow_pool_ok_def)
  then have "chain (\<lambda>a. flow_link (flows s a)) (stateful_flow_list_head (dev s)) sf" by (simp add: flow_lists_ok_def)
  from chain_head [OF this assms(2)] have "stateful_flow_list_head (dev s) \<in> set sf" by auto
  with l show ?thesis by (simp add: flow_lists_ok_def)
qed

lemma heads_unused:
  assumes "flow_pool_ok s U" and "x \<in> U"
  shows "x \<noteq> first_free_flow (dev s)"
    and "stateful_flow_list_head (dev s) \<noteq> NULL \<Longrightarrow> x \<noteq> stateful_flow_list_head (dev s)"
    and "stateless_flow_list_head (dev s) \<noteq> NULL \<Longrightarrow> x \<noteq> stateless_flow_list_head (dev s)"
proof -
  obtain sf sl where l: "flow_lists_ok s U sf sl" using assms(1) by (auto simp: flow_pool_ok_def)
  then have c: "chain (\<lambda>a. flow_link (flows s a)) (stateful_flow_list_head (dev s)) sf"
    "chain (\<lambda>a. flow_link (flows s a)) (stateless_flow_list_head (dev s)) sl" by (simp_all add: flow_lists_ok_def)
  show "x \<noteq> first_free_flow (dev s)"
    using l assms(2) by (auto simp: flow_lists_ok_def flow_slots_def sizeof_defs)
  show "x \<noteq> stateful_flow_list_head (dev s)" if "stateful_flow_list_head (dev s) \<noteq> NULL"
    using chain_head [OF c(1) that] l assms(2) by (auto simp: flow_lists_ok_def)
  show "x \<noteq> stateless_flow_list_head (dev s)" if "stateless_flow_list_head (dev s) \<noteq> NULL"
    using chain_head [OF c(2) that] l assms(2) by (auto simp: flow_lists_ok_def)
qed

text \<open>The allocation by cases of the free list and the free space.\<close>

lemma alloc_flow_cases:
  assumes t: "t = NLM_FLOW_TYPE_STATELESS \<or> t = NLM_FLOW_TYPE_STATEFUL" and pool: "flow_pool_ok s U"
    and ix: "context_indices_ok s"
  obtains (full) "free_flow_head t s = NULL" "\<not> flow_fits s" "memory_pool_alloc_flow t s = Some (NULL, s)"
  | (reused) s' where "free_flow_head t s \<noteq> NULL" "memory_pool_alloc_flow t s = Some (free_flow_head t s, s')"
      "t = NLM_FLOW_TYPE_STATEFUL \<Longrightarrow> fl_pdf_index (flows s' (free_flow_head t s)) \<noteq> 0"
      "\<And>x. x \<noteq> free_flow_head t s \<Longrightarrow> flows s' x = flows s x"
  | (carved) s' where "free_flow_head t s = NULL" "flow_fits s" "memory_pool_alloc_flow t s = Some (first_free_flow (dev s), s')"
      "t = NLM_FLOW_TYPE_STATEFUL \<Longrightarrow> fl_pdf_index (flows s' (first_free_flow (dev s))) \<noteq> 0 \<longleftrightarrow> context_left s"
      "use_ddr_memory (phy s') = use_ddr_memory (phy s)" "\<And>x. x \<noteq> first_free_flow (dev s) \<Longrightarrow> flows s' x = flows s x"
proof -
  let ?a = "first_free_flow (dev s)" and ?h = "free_flow_head t s"
  show thesis
  proof (cases "?h = NULL")
    case False
    show thesis
    proof (cases "t = NLM_FLOW_TYPE_STATELESS")
      case True
      with False show thesis
        by (intro reused [of "upd_flow ?h (\<lambda>_. flow_zero) (upd_dev (\<lambda>d. d\<lparr>stateless_flow_list_head := flow_link (flows s ?h)\<rparr>) s)"])
           (simp_all add: memory_pool_alloc_flow_def free_flow_head_def Let_def flow_type_defs)
    next
      case stateful: False
      with False head_index [OF pool] show thesis
        by (intro reused [of "upd_flow ?h (\<lambda>_. flow_zero\<lparr>fl_u0 := fl_u0 (flows s ?h)\<rparr>)
              (upd_dev (\<lambda>d. d\<lparr>stateful_flow_list_head := flow_link (flows s ?h)\<rparr>) s)"])
           (simp_all add: memory_pool_alloc_flow_def free_flow_head_def Let_def)
    qed
  next
    case True
    let ?s1 = "upd_flow ?a (\<lambda>_. flow_zero) (upd_dev (\<lambda>d. d\<lparr>first_free_flow := ?a + sizeof_flow\<rparr>) s)"
    have ix1: "context_indices_ok ?s1" "context_left ?s1 = context_left s"
      using ix by (auto simp: context_indices_ok_def context_left_def)
    consider (full) "\<not> flow_fits s" | (stateless) "flow_fits s" "t = NLM_FLOW_TYPE_STATELESS"
      | (stateful) "flow_fits s" "t = NLM_FLOW_TYPE_STATEFUL" using t by blast
    then show thesis
    proof cases
      case full
      with True that(1) show thesis by (auto simp: memory_pool_alloc_flow_def free_flow_head_def Let_def flow_fits_def split: if_splits)
    next
      case stateless
      with True show thesis
        by (intro carved [of ?s1]) (simp_all add: memory_pool_alloc_flow_def free_flow_head_def Let_def flow_fits_def flow_type_defs)
    next
      case stateful
      have others: "flows (sysmem_alloc_pdf ?a ?s1) x = flows s x" if "x \<noteq> ?a" for x
        using alloc_pdf_index(3) [OF ix1(1), of x ?a] that by simp
      from stateful True alloc_pdf_index(1,2) [OF ix1(1), of ?a] ix1(2) show thesis
        by (intro carved [OF _ _ _ _ _ others])
           (simp_all add: memory_pool_alloc_flow_def free_flow_head_def Let_def flow_fits_def flow_type_defs)
    qed
  qed
qed

text \<open>C36. Creating a flow in a consistent pool never aborts. It reports \<^verbatim>\<open>NLM_OUT_OF_MEMORY\<close>, and
  changes nothing, exactly if no flow of the kind is free and none fits below the jobs; for a
  stateful flow that needs a new context it reports exhausted DDR or device memory, by where
  the contexts are kept, exactly if no context is left; otherwise it succeeds, with the flow released
  last or the first one never used. The new flow is initialised, carries a context when it is stateful and
  is none of the flows in use; these are untouched, and the pool stays consistent either way.\<close>

theorem nlm_create_flow_correct:
  assumes "flow_pool_ok s U" and "t = NLM_FLOW_TYPE_STATELESS \<or> t = NLM_FLOW_TYPE_STATEFUL"
    and "device \<noteq> NULL" and "p_flow \<noteq> NULL" and "context_indices_ok s"
  shows "\<exists>st a s'. nlm_create_flow device t p_flow s = Some (st, Some a, s') \<and>
    (st = NLM_OUT_OF_MEMORY \<longleftrightarrow> free_flow_head t s = NULL \<and> \<not> flow_fits s) \<and>
    (st = NLM_OUT_OF_DDR_MEMORY \<longleftrightarrow> t = NLM_FLOW_TYPE_STATEFUL \<and> free_flow_head t s = NULL \<and> flow_fits s \<and>
       \<not> context_left s \<and> use_ddr_memory (phy s) \<noteq> 0) \<and>
    (st = NLM_OUT_OF_DEVICE_MEMORY \<longleftrightarrow> t = NLM_FLOW_TYPE_STATEFUL \<and> free_flow_head t s = NULL \<and> flow_fits s \<and>
       \<not> context_left s \<and> use_ddr_memory (phy s) = 0) \<and>
    (st = NLM_OUT_OF_MEMORY \<longrightarrow> s' = s) \<and> (\<forall>x \<in> U. flows s' x = flows s x) \<and>
    (if st \<in> {NLM_OUT_OF_MEMORY, NLM_OUT_OF_DDR_MEMORY, NLM_OUT_OF_DEVICE_MEMORY} then a = NULL \<and> flow_pool_ok s' U
     else st = NLM_OK \<and> a = (if free_flow_head t s = NULL then first_free_flow (dev s) else free_flow_head t s) \<and>
       a \<noteq> NULL \<and> a \<notin> U \<and> flow_pool_ok s' (insert a U) \<and> fresh_flow t (flows s' a))"
proof -
  have mp: "memory_pool (dev s) \<noteq> NULL"
    using assms(1) by (auto simp: flow_pool_ok_def flow_lists_ok_def pool_geometry_def)
  have t: "t = NLM_FLOW_TYPE_STATEFUL \<or> t = NLM_FLOW_TYPE_STATELESS" using assms(2) by blast
  note unused = heads_unused [OF assms(1)]
  note run = nlm_create_flow_def Let_def
  have h0: "free_flow_head t s \<noteq> NULL \<Longrightarrow> x \<in> U \<Longrightarrow> x \<noteq> free_flow_head t s" for x
    using unused(2,3) [of x] by (auto simp: free_flow_head_def split: if_splits)
  have f0: "first_free_flow (dev s) \<noteq> NULL"
    using assms(1) by (auto simp: flow_pool_ok_def flow_lists_ok_def pool_geometry_def)
  define e where "e = (if free_flow_head t s = NULL \<and> \<not> flow_fits s then NLM_OUT_OF_MEMORY
    else if t = NLM_FLOW_TYPE_STATEFUL \<and> free_flow_head t s = NULL \<and> \<not> context_left s then
      (if use_ddr_memory (phy s) \<noteq> 0 then NLM_OUT_OF_DDR_MEMORY else NLM_OUT_OF_DEVICE_MEMORY) else NLM_OK)"
  have "\<exists>s'. nlm_create_flow device t p_flow s = Some (e, Some (if e \<noteq> NLM_OK then NULL
      else if free_flow_head t s = NULL then first_free_flow (dev s) else free_flow_head t s), s') \<and>
    (e = NLM_OUT_OF_MEMORY \<longrightarrow> s' = s) \<and> (\<forall>x \<in> U. flows s' x = flows s x)"
  proof (rule alloc_flow_cases [OF assms(2,1,5)], goal_cases)
    case 1
    then show ?case using assms(3,4) t mp by (simp add: run e_def)
  next
    case (2 s')
    then show ?case using assms(3,4) t mp h0 by (auto simp: run e_def flow_type_defs)
  next
    case (3 s')
    then show ?case using assms(3,4) t mp unused(1) f0 by (auto simp: run e_def flow_type_defs)
  qed
  then obtain s' a where s': "nlm_create_flow device t p_flow s = Some (e, Some a, s')"
    "e = NLM_OUT_OF_MEMORY \<longrightarrow> s' = s" "\<forall>x \<in> U. flows s' x = flows s x"
    and a: "a = (if e \<noteq> NLM_OK then NULL else if free_flow_head t s = NULL then first_free_flow (dev s) else free_flow_head t s)"
    by blast
  let ?bad = "{NLM_OUT_OF_MEMORY, NLM_OUT_OF_DDR_MEMORY, NLM_OUT_OF_DEVICE_MEMORY}"
  have e: "e \<in> ?bad \<longleftrightarrow> e \<noteq> NLM_OK" by (simp add: e_def)
  have "if e \<noteq> NLM_OK then flow_pool_ok s' U else a \<noteq> NULL \<and> a \<notin> U \<and> flow_pool_ok s' (insert a U) \<and> fresh_flow t (flows s' a)"
  proof (rule create_flow_cases [OF assms(1-4)], goal_cases)
    case (1 s'' st)
    then have "e \<noteq> NLM_OK" using s'(1) e by auto
    with 1 s'(1) show ?case by simp
  next
    case (2 a' s'')
    with s'(1) show ?case by simp
  qed
  then have *: "if e \<in> ?bad then a = NULL \<and> flow_pool_ok s' U
     else e = NLM_OK \<and> a = (if free_flow_head t s = NULL then first_free_flow (dev s) else free_flow_head t s) \<and>
       a \<noteq> NULL \<and> a \<notin> U \<and> flow_pool_ok s' (insert a U) \<and> fresh_flow t (flows s' a)"
    unfolding e using a by (simp split: if_splits)
  have why: "e = NLM_OUT_OF_MEMORY \<longleftrightarrow> free_flow_head t s = NULL \<and> \<not> flow_fits s"
    "e = NLM_OUT_OF_DDR_MEMORY \<longleftrightarrow> t = NLM_FLOW_TYPE_STATEFUL \<and> free_flow_head t s = NULL \<and> flow_fits s \<and>
       \<not> context_left s \<and> use_ddr_memory (phy s) \<noteq> 0"
    "e = NLM_OUT_OF_DEVICE_MEMORY \<longleftrightarrow> t = NLM_FLOW_TYPE_STATEFUL \<and> free_flow_head t s = NULL \<and> flow_fits s \<and>
       \<not> context_left s \<and> use_ddr_memory (phy s) = 0"
    by (auto simp: e_def)
  show ?thesis
    by (intro exI conjI) (rule s'(1) why s'(2,3) *)+
qed

lemma flow_pool_dp0: "flow_pool_ok dp0 {}"
  by (auto simp: flow_pool_ok_def flow_lists_ok_def pool_geometry_def dev0_def sizeof_defs flow_zero_def)

theorem nlm_create_flow_correct_witness:
  "\<exists>s'. nlm_create_flow 1 NLM_FLOW_TYPE_STATEFUL 1 dp0 = Some (NLM_OK, Some 0x1100, s') \<and>
     flow_pool_ok s' {0x1100} \<and> fl_pdf_index (flows s' 0x1100) = 8"
proof -
  have e: "map_option (\<lambda>(st, a, s'). (st, a, fl_pdf_index (flows s' 0x1100))) (nlm_create_flow 1 NLM_FLOW_TYPE_STATEFUL 1 dp0) =
      Some (NLM_OK, Some 0x1100, 8)"
    by (simp add: nlm_create_flow_def memory_pool_alloc_flow_def sysmem_alloc_pdf_def Let_def dev0_def phy0_def
        sizeof_defs flow_type_defs)
  have ix: "context_indices_ok dp0"
    by (simp add: context_indices_ok_def dev0_def phy0_def sizeof_defs)
  have one: "(1 :: addr) \<noteq> NULL" by simp
  note c = nlm_create_flow_correct [OF flow_pool_dp0 disjI2 [OF refl] one one ix]
  then obtain st a s' where r: "nlm_create_flow 1 NLM_FLOW_TYPE_STATEFUL 1 dp0 = Some (st, Some a, s')"
    and k: "if st \<in> {NLM_OUT_OF_MEMORY, NLM_OUT_OF_DDR_MEMORY, NLM_OUT_OF_DEVICE_MEMORY} then a = NULL \<and> flow_pool_ok s' {}
      else flow_pool_ok s' (insert a {})"
    by (smt (verit))
  from e r have "st = NLM_OK" "a = 0x1100" "fl_pdf_index (flows s' 0x1100) = 8" by simp_all
  with r k show ?thesis by simp
qed

end
