(* ===== verification/Flow.thy ===== *)
theory Flow
  imports Pool
begin

unbundle bit_operations_syntax

text \<open>
  The set of (database, rule group) pairs of a flow: nlm_flow_add_database_and_group and
  nlm_flow_remove_database_and_group of lib/dataplane/fms_packet_api.c. The array of six
  group identifiers with its counter is shown to implement a set of at most six pairs.
\<close>

section \<open>Model\<close>

definition MUX_DB_GID :: "u32 \<Rightarrow> u32 \<Rightarrow> u32" where
  "MUX_DB_GID database_id group_id =
     push_bit 10 (database_id AND NLM_MAX_DATABASE_ID) OR (group_id AND NLM_MAX_GROUP_ID)"

text \<open>The search loop over the first \<^verbatim>\<open>db_group_cnt\<close> entries: the first position that holds
  the pair.\<close>

fun find_group :: "u32 \<Rightarrow> u16 list \<Rightarrow> nat \<Rightarrow> nat option" where
  "find_group g [] i = None"
| "find_group g (x # xs) i = (if ucast x = g then Some i else find_group g xs (Suc i))"

definition nlm_flow_add_database_and_group ::
  "addr \<Rightarrow> addr \<Rightarrow> u32 \<Rightarrow> u32 \<Rightarrow> dp \<Rightarrow> (nlm_status \<times> dp) option" where
  "nlm_flow_add_database_and_group device flow database_id group_id s =
     (if device = NULL \<or> flow = NULL then Some (NLM_INVALID_ARGUMENT, s)
      else if NLM_MAX_DATABASE_ID < database_id then Some (NLM_INVALID_DATABASE_ID, s)
      else if NLM_MAX_GROUP_ID < group_id \<or> group_id = 0 then Some (NLM_INVALID_GROUPID, s)
      else
        let db_group = MUX_DB_GID database_id group_id;
            f = flows s flow;
            cnt = unat (fl_db_group_cnt f)
        in assert_then (db_group \<noteq> 0)
          (if cnt \<ge> NLM_FMS_GROUPS_PER_PACKET then Some (NLM_INCORRECT_ACCESS, s)
           else if find_group db_group (take cnt (fl_db_group_id f)) 0 \<noteq> None
           then Some (NLM_INCORRECT_ACCESS, s)
           else Some (NLM_OK,
             upd_flow flow (\<lambda>f. f\<lparr>fl_db_group_id := (fl_db_group_id f)[cnt := ucast db_group],
               fl_db_group_cnt := fl_db_group_cnt f + 1,
               fl_db_group_combination := fl_db_group_combination f + 1\<rparr>) s)))"

text \<open>Shifting the entries above position \<open>i\<close> down by one and clearing the last one.\<close>

definition shift_groups :: "nat \<Rightarrow> u16 list \<Rightarrow> u16 list" where
  "shift_groups i ids =
     (fold (\<lambda>j xs. xs[j := xs ! (j + 1)]) [i..<NLM_FMS_GROUPS_PER_PACKET - 1] ids)
       [NLM_FMS_GROUPS_PER_PACKET - 1 := 0]"

definition nlm_flow_remove_database_and_group ::
  "addr \<Rightarrow> addr \<Rightarrow> u32 \<Rightarrow> u32 \<Rightarrow> dp \<Rightarrow> (nlm_status \<times> dp) option" where
  "nlm_flow_remove_database_and_group device flow database_id group_id s =
     (if device = NULL \<or> flow = NULL then Some (NLM_INVALID_ARGUMENT, s)
      else if NLM_MAX_DATABASE_ID < database_id then Some (NLM_INVALID_DATABASE_ID, s)
      else if NLM_MAX_GROUP_ID < group_id \<or> group_id = 0 then Some (NLM_INVALID_GROUPID, s)
      else
        let db_group = MUX_DB_GID database_id group_id;
            f = flows s flow;
            cnt = unat (fl_db_group_cnt f)
        in assert_then (db_group \<noteq> 0)
          (case find_group db_group (take cnt (fl_db_group_id f)) 0 of
             None \<Rightarrow> Some (NLM_INCORRECT_ACCESS, s)
           | Some i \<Rightarrow> Some (NLM_OK,
               upd_flow flow (\<lambda>f. f\<lparr>fl_db_group_id := shift_groups i (fl_db_group_id f),
                 fl_db_group_cnt := fl_db_group_cnt f - 1,
                 fl_db_group_combination := fl_db_group_combination f + 1\<rparr>) s)))"

section \<open>The set of pairs\<close>

definition valid_pair :: "u32 \<Rightarrow> u32 \<Rightarrow> bool" where
  "valid_pair d g \<longleftrightarrow> d \<le> NLM_MAX_DATABASE_ID \<and> g \<le> NLM_MAX_GROUP_ID \<and> g \<noteq> 0"

definition group_ids :: "nlm_flow \<Rightarrow> u16 list" where
  "group_ids f = take (unat (fl_db_group_cnt f)) (fl_db_group_id f)"

definition group_pairs :: "nlm_flow \<Rightarrow> (u32 \<times> u32) set" where
  "group_pairs f = {(d, g). valid_pair d g \<and> ucast (MUX_DB_GID d g) \<in> set (group_ids f)}"

definition groups_ok :: "nlm_flow \<Rightarrow> bool" where
  "groups_ok f \<longleftrightarrow>
     unat (fl_db_group_cnt f) \<le> 6 \<and> length (fl_db_group_id f) = 6 \<and>
     fl_db_group_id f = group_ids f @ replicate (6 - unat (fl_db_group_cnt f)) 0 \<and>
     distinct (group_ids f) \<and>
     (\<forall>x \<in> set (group_ids f). \<exists>d g. valid_pair d g \<and> x = ucast (MUX_DB_GID d g))"

lemma mux_parts:
  assumes "valid_pair d g"
  shows "take_bit 10 (MUX_DB_GID d g) = g" and "drop_bit 10 (MUX_DB_GID d g) = d"
    and "ucast (ucast (MUX_DB_GID d g) :: u16) = MUX_DB_GID d g" and "MUX_DB_GID d g \<noteq> 0"
proof -
  have m: "(3 :: u32) = mask 2" "(1023 :: u32) = mask 10"
    by (simp_all add: mask_eq_exp_minus_1)
  have d: "take_bit 2 d = d" and g: "take_bit 10 g = g"
    using assms by (auto simp: valid_pair_def NLM_MAX_DATABASE_ID_def NLM_MAX_GROUP_ID_def
        word_le_nat_alt intro!: take_bit_eq_self_unat)
  have mux: "MUX_DB_GID d g = push_bit 10 (take_bit 2 d) OR take_bit 10 g"
    by (simp add: MUX_DB_GID_def NLM_MAX_DATABASE_ID_def NLM_MAX_GROUP_ID_def m take_bit_eq_mask)
  have "take_bit 10 (push_bit 10 (take_bit 2 d) OR take_bit 10 g) = take_bit 10 g"
    by (rule bit_word_eqI) (auto simp: bit_simps)
  then show t: "take_bit 10 (MUX_DB_GID d g) = g" by (simp add: mux g)
  have "drop_bit 10 (push_bit 10 (take_bit 2 d) OR take_bit 10 g) = take_bit 2 d"
    by (rule bit_word_eqI) (auto simp: bit_simps)
  then show "drop_bit 10 (MUX_DB_GID d g) = d" by (simp add: mux d)
  show "ucast (ucast (MUX_DB_GID d g) :: u16) = MUX_DB_GID d g"
    unfolding mux by (rule bit_word_eqI) (auto simp: bit_simps)
  show "MUX_DB_GID d g \<noteq> 0"
    using t assms by (auto simp: valid_pair_def)
qed

lemma mux_inject:
  "valid_pair d g \<Longrightarrow> valid_pair d' g' \<Longrightarrow>
   (ucast (MUX_DB_GID d g) :: u16) = ucast (MUX_DB_GID d' g') \<longleftrightarrow> d = d' \<and> g = g'"
  by (metis mux_parts(1-3))

lemma find_group_None: "find_group g xs i = None \<longleftrightarrow> (\<forall>x \<in> set xs. ucast x \<noteq> g)"
  by (induction xs arbitrary: i) auto

lemma find_group_Some:
  "find_group g xs i = Some j \<Longrightarrow> i \<le> j \<and> j < i + length xs \<and> ucast (xs ! (j - i)) = g"
proof (induction xs arbitrary: i)
  case (Cons x xs)
  then show ?case
    by (cases "ucast x = g") (fastforce simp: nth_Cons' dest: Cons.IH)+
qed simp

lemma find_group_mux:
  assumes "valid_pair d g"
  shows "find_group (MUX_DB_GID d g) xs 0 = None \<longleftrightarrow> ucast (MUX_DB_GID d g) \<notin> set xs"
    and "find_group (MUX_DB_GID d g) xs 0 = Some j \<Longrightarrow> j < length xs \<and> xs ! j = ucast (MUX_DB_GID d g)"
proof -
  have e: "ucast x = MUX_DB_GID d g \<longleftrightarrow> x = ucast (MUX_DB_GID d g)" for x :: u16
  proof
    assume "ucast x = MUX_DB_GID d g"
    then have "ucast (MUX_DB_GID d g) = (ucast (ucast x :: u32) :: u16)" by simp
    also have "\<dots> = x" by (rule bit_word_eqI) (simp add: bit_simps)
    finally show "x = ucast (MUX_DB_GID d g)" by simp
  qed (use mux_parts(3) [OF assms] in simp)
  show "find_group (MUX_DB_GID d g) xs 0 = None \<longleftrightarrow> ucast (MUX_DB_GID d g) \<notin> set xs"
    by (auto simp: find_group_None e)
  show "j < length xs \<and> xs ! j = ucast (MUX_DB_GID d g)" if "find_group (MUX_DB_GID d g) xs 0 = Some j"
    using find_group_Some [OF that] by (simp add: e)
qed

lemma shift_groups_eq:
  assumes "length ids = 6" and "i < 6"
  shows "shift_groups i ids = take i ids @ drop (Suc i) ids @ [0]"
proof -
  obtain a b c d e f where "ids = [a, b, c, d, e, f]"
    using assms(1) by (auto simp: numeral_eq_Suc length_Suc_conv)
  moreover have "i = 0 \<or> i = 1 \<or> i = 2 \<or> i = 3 \<or> i = 4 \<or> i = 5"
    using assms(2) by arith
  ultimately show ?thesis
    by (elim disjE) (simp_all add: shift_groups_def NLM_FMS_GROUPS_PER_PACKET_def upt_rec)
qed

text \<open>Appending to the pairs of a flow and removing one of them.\<close>

lemma groups_ok_length: "groups_ok f \<Longrightarrow> length (group_ids f) = unat (fl_db_group_cnt f)"
  by (auto simp: groups_ok_def group_ids_def)

lemma add_group:
  assumes ok: "groups_ok f" and v: "valid_pair d g" and room: "unat (fl_db_group_cnt f) < 6"
    and new: "(d, g) \<notin> group_pairs f"
    and f': "f' = f\<lparr>fl_db_group_id := (fl_db_group_id f)[unat (fl_db_group_cnt f) := ucast (MUX_DB_GID d g)],
               fl_db_group_cnt := fl_db_group_cnt f + 1,
               fl_db_group_combination := fl_db_group_combination f + 1\<rparr>"
  shows "groups_ok f' \<and> group_pairs f' = insert (d, g) (group_pairs f)"
proof -
  let ?n = "unat (fl_db_group_cnt f)" and ?x = "ucast (MUX_DB_GID d g) :: u16"
  have len: "length (group_ids f) = ?n" using ok by (rule groups_ok_length)
  have cnt: "unat (fl_db_group_cnt f') = Suc ?n"
    using room by (simp add: f' unat_word_ariths)
  have "6 - ?n = Suc (6 - Suc ?n)" using room by simp
  then have ids: "fl_db_group_id f = group_ids f @ 0 # replicate (6 - Suc ?n) 0"
    using ok by (simp add: groups_ok_def)
  have ids': "fl_db_group_id f' = (group_ids f @ [?x]) @ replicate (6 - Suc ?n) 0"
    unfolding f' using len by (simp add: ids list_update_append)
  have "group_ids f' = take (Suc ?n) (fl_db_group_id f')"
    by (simp only: group_ids_def cnt)
  then have gids: "group_ids f' = group_ids f @ [?x]"
    unfolding ids' by (simp add: len)
  have nin: "?x \<notin> set (group_ids f)" using new v by (auto simp: group_pairs_def)
  have "groups_ok f'"
    using ok nin v room len unfolding groups_ok_def cnt gids ids' by auto
  moreover have "group_pairs f' = insert (d, g) (group_pairs f)"
    using v mux_inject [of _ _ d g] by (auto simp: group_pairs_def gids)
  ultimately show ?thesis by simp
qed

lemma remove_group:
  assumes ok: "groups_ok f" and v: "valid_pair d g"
    and j: "j < unat (fl_db_group_cnt f)" "group_ids f ! j = ucast (MUX_DB_GID d g)"
    and f': "f' = f\<lparr>fl_db_group_id := shift_groups j (fl_db_group_id f),
               fl_db_group_cnt := fl_db_group_cnt f - 1,
               fl_db_group_combination := fl_db_group_combination f + 1\<rparr>"
  shows "groups_ok f' \<and> group_pairs f' = group_pairs f - {(d, g)}"
proof -
  let ?n = "unat (fl_db_group_cnt f)" and ?x = "ucast (MUX_DB_GID d g) :: u16"
  let ?r = "take j (group_ids f) @ drop (Suc j) (group_ids f)"
  have len: "length (group_ids f) = ?n" using ok by (rule groups_ok_length)
  have n6: "?n \<le> 6" using ok by (simp add: groups_ok_def)
  have cnt: "unat (fl_db_group_cnt f') = ?n - 1"
    using j(1) by (simp add: f' unat_sub word_le_nat_alt)
  have ids: "fl_db_group_id f = group_ids f @ replicate (6 - ?n) 0"
    using ok by (simp add: groups_ok_def)
  have l6: "length (fl_db_group_id f) = 6" using ok unfolding groups_ok_def by blast
  have "fl_db_group_id f' = take j (fl_db_group_id f) @ drop (Suc j) (fl_db_group_id f) @ [0]"
    unfolding f' using shift_groups_eq [OF l6] j(1) n6 by simp
  also have "\<dots> = ?r @ replicate (6 - ?n) 0 @ [0]"
    unfolding ids using j(1) len by simp
  also have "replicate (6 - ?n) 0 @ [0] = replicate (6 - (?n - 1)) (0 :: u16)"
    using j(1) n6 by (simp add: replicate_append_same Suc_diff_le flip: replicate_Suc)
  finally have ids': "fl_db_group_id f' = ?r @ replicate (6 - (?n - 1)) 0" .
  have lr: "length ?r = ?n - 1" using j(1) len by simp
  have "group_ids f' = take (?n - 1) (fl_db_group_id f')"
    by (simp only: group_ids_def cnt)
  then have gids: "group_ids f' = ?r"
    unfolding ids' by (metis lr append_eq_conv_conj)
  have dist: "distinct (group_ids f)" using ok by (simp add: groups_ok_def)
  have r: "distinct ?r" "set ?r = set (group_ids f) - {?x}"
    using distinct_remove_nth [OF dist, of j] j len by auto
  have "groups_ok f'"
    using ok n6 r lr unfolding groups_ok_def cnt gids ids' by auto
  moreover have "group_pairs f' = group_pairs f - {(d, g)}"
    unfolding group_pairs_def gids r(2) using v mux_inject [of _ _ d g] by auto
  ultimately show ?thesis by simp
qed

lemma card_group_pairs:
  assumes "groups_ok f"
  shows "card (group_pairs f) = unat (fl_db_group_cnt f)"
proof -
  have "bij_betw (\<lambda>(d, g). ucast (MUX_DB_GID d g) :: u16) (group_pairs f) (set (group_ids f))"
    unfolding bij_betw_def
  proof
    show "inj_on (\<lambda>(d, g). ucast (MUX_DB_GID d g) :: u16) (group_pairs f)"
      by (rule inj_onI) (auto simp: group_pairs_def mux_inject)
    show "(\<lambda>(d, g). ucast (MUX_DB_GID d g) :: u16) ` group_pairs f = set (group_ids f)"
      using assms by (force simp: group_pairs_def groups_ok_def)
  qed
  then have "card (group_pairs f) = card (set (group_ids f))" by (rule bij_betw_same_card)
  also have "\<dots> = length (group_ids f)"
    using assms by (simp add: groups_ok_def distinct_card)
  finally show ?thesis using groups_ok_length [OF assms] by simp
qed

lemma groups_ok_fresh: "fresh_flow t f \<Longrightarrow> groups_ok f \<and> group_pairs f = {}"
proof -
  assume "fresh_flow t f"
  then have E: "f = (if t = NLM_FLOW_TYPE_STATEFUL then flow_zero\<lparr>fl_type := t, fl_u0 := fl_u0 f\<rparr>
      else flow_zero\<lparr>fl_type := t, fl_is_stateless := 1, fl_u0 := fl_u0 f\<rparr>)"
    by (simp add: fresh_flow_def)
  have "fl_db_group_cnt f = 0" "fl_db_group_id f = replicate 6 0"
    by (subst E; simp add: flow_zero_def)+
  then show ?thesis by (simp add: groups_ok_def group_ids_def group_pairs_def)
qed

text \<open>Valid arguments.\<close>

lemma flow_add_valid:
  assumes "device \<noteq> NULL" and "flow \<noteq> NULL" and "groups_ok (flows s flow)" and "valid_pair d g"
  shows "if (d, g) \<in> group_pairs (flows s flow) \<or> card (group_pairs (flows s flow)) = 6
    then nlm_flow_add_database_and_group device flow d g s = Some (NLM_INCORRECT_ACCESS, s)
    else \<exists>f'. nlm_flow_add_database_and_group device flow d g s = Some (NLM_OK, upd_flow flow (\<lambda>_. f') s) \<and>
      groups_ok f' \<and> group_pairs f' = insert (d, g) (group_pairs (flows s flow)) \<and>
      f' = (flows s flow)\<lparr>fl_db_group_id := fl_db_group_id f', fl_db_group_cnt := fl_db_group_cnt f',
        fl_db_group_combination := fl_db_group_combination (flows s flow) + 1\<rparr>"
proof -
  let ?f = "flows s flow" and ?m = "MUX_DB_GID d g"
  have args: "\<not> NLM_MAX_DATABASE_ID < d" "\<not> (NLM_MAX_GROUP_ID < g \<or> g = 0)"
    using assms(4) by (auto simp: valid_pair_def)
  have cnt: "card (group_pairs ?f) = unat (fl_db_group_cnt ?f)" using assms(3) by (rule card_group_pairs)
  have mem: "(d, g) \<in> group_pairs ?f \<longleftrightarrow> find_group ?m (take (unat (fl_db_group_cnt ?f)) (fl_db_group_id ?f)) 0 \<noteq> None"
    using assms(4) find_group_mux(1) [OF assms(4)] by (simp add: group_pairs_def group_ids_def)
  have le: "unat (fl_db_group_cnt ?f) \<le> 6" using assms(3) by (simp add: groups_ok_def)
  show ?thesis
  proof (cases "(d, g) \<in> group_pairs ?f \<or> card (group_pairs ?f) = 6")
    case True
    then show ?thesis
      using assms(1,2) args cnt mem le mux_parts(4) [OF assms(4)]
      by (auto simp: nlm_flow_add_database_and_group_def Let_def NLM_FMS_GROUPS_PER_PACKET_def)
  next
    case False
    define f' where "f' = ?f\<lparr>fl_db_group_id := (fl_db_group_id ?f)[unat (fl_db_group_cnt ?f) := ucast ?m],
      fl_db_group_cnt := fl_db_group_cnt ?f + 1, fl_db_group_combination := fl_db_group_combination ?f + 1\<rparr>"
    have room: "unat (fl_db_group_cnt ?f) < 6" using False cnt le by linarith
    have "groups_ok f' \<and> group_pairs f' = insert (d, g) (group_pairs ?f)"
      using False by (intro add_group [OF assms(3,4) room _ f'_def]) simp
    moreover have "nlm_flow_add_database_and_group device flow d g s = Some (NLM_OK, upd_flow flow (\<lambda>_. f') s)"
      using assms(1,2) args room mem False mux_parts(4) [OF assms(4)]
      by (simp add: nlm_flow_add_database_and_group_def Let_def NLM_FMS_GROUPS_PER_PACKET_def f'_def upd_flow_def)
    ultimately show ?thesis using False by (auto simp: f'_def)
  qed
qed

text \<open>C37. Adding a pair implements insertion into a set of at most six pairs, for any arguments.
  Null pointers, a database id above 3 and a group id that is 0 or above 1023 are each
  refused with their own status, in this order; a valid pair is refused with
  NLM_INCORRECT_ACCESS exactly when it is present or the set is full. A refusal has no effect.
  Otherwise the pair is added and every other flow, and the rest of this one but the
  combination counter, stays as it was.\<close>

theorem nlm_flow_add_correct:
  assumes "groups_ok (flows s flow)"
  shows "if device = NULL \<or> flow = NULL
    then nlm_flow_add_database_and_group device flow d g s = Some (NLM_INVALID_ARGUMENT, s)
    else if 3 < d then nlm_flow_add_database_and_group device flow d g s = Some (NLM_INVALID_DATABASE_ID, s)
    else if g = 0 \<or> 1023 < g then nlm_flow_add_database_and_group device flow d g s = Some (NLM_INVALID_GROUPID, s)
    else if (d, g) \<in> group_pairs (flows s flow) \<or> card (group_pairs (flows s flow)) = 6
    then nlm_flow_add_database_and_group device flow d g s = Some (NLM_INCORRECT_ACCESS, s)
    else \<exists>f'. nlm_flow_add_database_and_group device flow d g s = Some (NLM_OK, upd_flow flow (\<lambda>_. f') s) \<and>
      groups_ok f' \<and> group_pairs f' = insert (d, g) (group_pairs (flows s flow)) \<and>
      f' = (flows s flow)\<lparr>fl_db_group_id := fl_db_group_id f', fl_db_group_cnt := fl_db_group_cnt f',
        fl_db_group_combination := fl_db_group_combination (flows s flow) + 1\<rparr>"
proof -
  have v: "valid_pair d g \<longleftrightarrow> \<not> 3 < d \<and> \<not> (g = 0 \<or> 1023 < g)"
    by (auto simp: valid_pair_def NLM_MAX_DATABASE_ID_def NLM_MAX_GROUP_ID_def not_less)
  consider (null) "device = NULL \<or> flow = NULL" | (db) "\<not> (device = NULL \<or> flow = NULL)" "3 < d"
    | (group) "\<not> (device = NULL \<or> flow = NULL)" "\<not> 3 < d" "g = 0 \<or> 1023 < g"
    | (valid) "device \<noteq> NULL" "flow \<noteq> NULL" "valid_pair d g" using v by blast
  then show ?thesis
  proof cases
    case valid
    with v have e: "\<not> 3 < d" "\<not> (g = 0 \<or> 1023 < g)" "\<not> (device = NULL \<or> flow = NULL)" by blast+
    show ?thesis
      unfolding if_not_P [OF e(3)] if_not_P [OF e(1)] if_not_P [OF e(2)] by (rule flow_add_valid [OF valid(1,2) assms valid(3)])
  qed (auto simp: nlm_flow_add_database_and_group_def NLM_MAX_DATABASE_ID_def NLM_MAX_GROUP_ID_def)
qed

text \<open>Removing a pair implements deletion from the set: it is refused with
  NLM_INCORRECT_ACCESS and no effect exactly when the pair is absent.\<close>

theorem nlm_flow_remove_correct:
  assumes "device \<noteq> NULL" and "flow \<noteq> NULL" and "groups_ok (flows s flow)" and "valid_pair d g"
  shows "if (d, g) \<notin> group_pairs (flows s flow)
    then nlm_flow_remove_database_and_group device flow d g s = Some (NLM_INCORRECT_ACCESS, s)
    else \<exists>f'. nlm_flow_remove_database_and_group device flow d g s = Some (NLM_OK, upd_flow flow (\<lambda>_. f') s) \<and>
      groups_ok f' \<and> group_pairs f' = group_pairs (flows s flow) - {(d, g)} \<and>
      fl_db_group_combination f' = fl_db_group_combination (flows s flow) + 1 \<and>
      fl_type f' = fl_type (flows s flow) \<and> fl_u0 f' = fl_u0 (flows s flow) \<and> fl_next f' = fl_next (flows s flow)"
proof -
  let ?f = "flows s flow" and ?m = "MUX_DB_GID d g"
  let ?ids = "take (unat (fl_db_group_cnt ?f)) (fl_db_group_id ?f)"
  have args: "\<not> NLM_MAX_DATABASE_ID < d" "\<not> (NLM_MAX_GROUP_ID < g \<or> g = 0)"
    using assms(4) by (auto simp: valid_pair_def)
  have mem: "(d, g) \<notin> group_pairs ?f \<longleftrightarrow> find_group ?m ?ids 0 = None"
    using assms(4) find_group_mux(1) [OF assms(4)] by (simp add: group_pairs_def group_ids_def)
  show ?thesis
  proof (cases "find_group ?m ?ids 0")
    case None
    then show ?thesis
      using assms(1,2) args mem mux_parts(4) [OF assms(4)]
      by (simp add: nlm_flow_remove_database_and_group_def Let_def)
  next
    case (Some j)
    define f' where "f' = ?f\<lparr>fl_db_group_id := shift_groups j (fl_db_group_id ?f),
      fl_db_group_cnt := fl_db_group_cnt ?f - 1, fl_db_group_combination := fl_db_group_combination ?f + 1\<rparr>"
    have j: "j < unat (fl_db_group_cnt ?f)" "group_ids ?f ! j = ucast ?m"
      using find_group_mux(2) [OF assms(4) Some] groups_ok_length [OF assms(3)] by (simp_all add: group_ids_def)
    have "groups_ok f' \<and> group_pairs f' = group_pairs ?f - {(d, g)}"
      by (rule remove_group [OF assms(3,4) j f'_def])
    moreover have "nlm_flow_remove_database_and_group device flow d g s = Some (NLM_OK, upd_flow flow (\<lambda>_. f') s)"
      using assms(1,2) args Some mux_parts(4) [OF assms(4)]
      by (simp add: nlm_flow_remove_database_and_group_def Let_def f'_def upd_flow_def)
    ultimately show ?thesis using mem Some by (auto simp: f'_def)
  qed
qed

definition flow_example :: dp where
  "flow_example = dp0\<lparr>flows := \<lambda>_. flow_zero\<lparr>fl_type := NLM_FLOW_TYPE_STATELESS, fl_is_stateless := 1,
     fl_db_group_id := [1025, 0, 0, 0, 0, 0], fl_db_group_cnt := 1\<rparr>\<rparr>"

lemma flow_example_ok: "groups_ok (flows flow_example 0x1100)" "group_pairs (flows flow_example 0x1100) = {(1, 1)}"
proof -
  have v: "valid_pair 1 1" by (simp add: valid_pair_def NLM_MAX_DATABASE_ID_def NLM_MAX_GROUP_ID_def)
  have m: "(1025 :: u16) = ucast (MUX_DB_GID 1 1)"
    by (simp add: MUX_DB_GID_def NLM_MAX_DATABASE_ID_def NLM_MAX_GROUP_ID_def)
  have i: "group_ids (flows flow_example 0x1100) = [ucast (MUX_DB_GID 1 1)]"
    unfolding m [symmetric] by (simp add: group_ids_def flow_example_def flow_zero_def)
  show "groups_ok (flows flow_example 0x1100)"
    using v unfolding groups_ok_def i m [symmetric] by (auto simp: flow_example_def flow_zero_def numeral_eq_Suc m)
  show "group_pairs (flows flow_example 0x1100) = {(1, 1)}"
    using v mux_inject [of _ _ 1 1] by (auto simp: group_pairs_def i)
qed

theorem nlm_flow_add_correct_witness:
  "nlm_flow_add_database_and_group 1 0x1100 1 1 flow_example = Some (NLM_INCORRECT_ACCESS, flow_example)"
  using nlm_flow_add_correct [of flow_example "0x1100" 1 1 1] flow_example_ok by simp

theorem nlm_flow_remove_correct_witness:
  "nlm_flow_remove_database_and_group 1 0x1100 1 2 flow_example = Some (NLM_INCORRECT_ACCESS, flow_example) \<and>
   (\<exists>s'. nlm_flow_remove_database_and_group 1 0x1100 1 1 flow_example = Some (NLM_OK, s'))"
  using nlm_flow_remove_correct [of 1 "0x1100" flow_example 1 2]
    nlm_flow_remove_correct [of 1 "0x1100" flow_example 1 1] flow_example_ok
  by (auto simp: valid_pair_def NLM_MAX_DATABASE_ID_def NLM_MAX_GROUP_ID_def)

end
