(* ===== verification/Hw_Ring.thy ===== *)
theory Hw_Ring
  imports Dp_State
begin

unbundle bit_operations_syntax

text \<open>
  The input ring of the device: sysmem_alloc_fd and nlm_device_update_input_wrt_ptr of
  lib/dataplane/fms_packet_api.c. The data plane owns the write index, the device advances
  the read index in system memory; one slot stays free. The ring implements the interface
  \<open>bounded_fifo\<close> with the device as the reader.
\<close>

section \<open>Model\<close>

text \<open>The result is the slot of the new descriptor, or nothing when the ring is full.\<close>

definition sysmem_alloc_fd :: "nlm_phy_device \<Rightarrow> nat option \<times> nlm_phy_device" where
  "sysmem_alloc_fd p =
     (let wrt = input_wrt_ptr p;
          nxt = (wrt + 1) AND (input_fifo_size p - 1)
      in if nxt = input_rd_ptr p then (None, p)
         else (Some (unat wrt),
               p\<lparr>input_wrt_ptr := nxt, input_wrt_ptr_dirty := 1,
                 input_fifo := (input_fifo p)[unat wrt := fd_zero]\<rparr>))"

definition nlm_device_update_input_wrt_ptr :: "nlm_phy_device \<Rightarrow> nlm_phy_device" where
  "nlm_device_update_input_wrt_ptr p =
     (phy_set_register (FDF_FIFO_WRT_PTR (fms_ring_id p)) (input_wrt_ptr p) p)\<lparr>input_wrt_ptr_dirty := 0\<rparr>"

text \<open>Writing a descriptor through the pointer \<^verbatim>\<open>fd\<close> into the input ring.\<close>

definition write_fd :: "nat \<Rightarrow> hw_fd_descriptor \<Rightarrow> nlm_phy_device \<Rightarrow> nlm_phy_device" where
  "write_fd i fd p = p\<lparr>input_fifo := (input_fifo p)[i := fd]\<rparr>"

section \<open>The ring as a bounded FIFO\<close>

definition input_ring_ok :: "nlm_phy_device \<Rightarrow> bool" where
  "input_ring_ok p \<longleftrightarrow> (\<exists>n\<le>31. input_fifo_size p = 2 ^ n) \<and>
     length (input_fifo p) = unat (input_fifo_size p) \<and>
     input_rd_ptr p < input_fifo_size p \<and> input_wrt_ptr p < input_fifo_size p"

definition ring_count :: "nlm_phy_device \<Rightarrow> nat" where
  "ring_count p =
     (if input_rd_ptr p \<le> input_wrt_ptr p then unat (input_wrt_ptr p) - unat (input_rd_ptr p)
      else unat (input_wrt_ptr p) + unat (input_fifo_size p) - unat (input_rd_ptr p))"

definition ring_items :: "nlm_phy_device \<Rightarrow> hw_fd_descriptor list" where
  "ring_items p = ring_list (unat (input_fifo_size p)) (unat (input_rd_ptr p)) (ring_count p) (input_fifo p)"

definition ring_cap :: "nlm_phy_device \<Rightarrow> nat" where
  "ring_cap p = unat (input_fifo_size p) - 1"

definition ring_put :: "hw_fd_descriptor \<Rightarrow> nlm_phy_device \<Rightarrow> nlm_phy_device option" where
  "ring_put fd p = (case sysmem_alloc_fd p of (None, _) \<Rightarrow> None | (Some i, p') \<Rightarrow> Some (write_fd i fd p'))"

text \<open>What the device does when it takes a descriptor: it advances the read index.\<close>

definition ring_get :: "nlm_phy_device \<Rightarrow> (hw_fd_descriptor \<times> nlm_phy_device) option" where
  "ring_get p =
     (if input_rd_ptr p = input_wrt_ptr p then None
      else Some (input_fifo p ! unat (input_rd_ptr p),
                 p\<lparr>input_rd_ptr := (input_rd_ptr p + 1) AND (input_fifo_size p - 1)\<rparr>))"

text \<open>Indexes modulo a power of two.\<close>

lemma unat_exp: "n \<le> 31 \<Longrightarrow> unat (2 ^ n :: u32) = 2 ^ n"
proof -
  assume "n \<le> 31"
  then have "(2 :: nat) ^ n < 2 ^ 32" by (intro power_strict_increasing) auto
  moreover have "unat (word_of_nat k :: u32) = k" if "k < 2 ^ 32" for k :: nat
    using that by (simp add: unsigned_of_nat take_bit_nat_eq_self)
  from this [of "2 ^ n"] calculation show ?thesis by simp
qed

lemma ring_next:
  assumes "\<exists>n\<le>31. sz = 2 ^ n" and "i < sz"
  shows "unat ((i + 1) AND (sz - 1) :: u32) = Suc (unat i) mod unat sz" and "(i + 1) AND (sz - 1) < sz"
proof -
  from assms(1) obtain n where n: "n \<le> 31" "sz = 2 ^ n" by auto
  have lt: "unat i < 2 ^ n" using assms(2) n by (simp add: word_less_nat_alt unat_exp)
  have "(2 :: nat) ^ n \<le> 2 ^ 31" using n by (intro power_increasing) auto
  with lt have "unat (i + 1) = Suc (unat i)" by (simp add: unat_word_ariths)
  then show e: "unat ((i + 1) AND (sz - 1)) = Suc (unat i) mod unat sz"
    using n by (simp add: unat_and_exp_minus_1 unat_exp)
  show "(i + 1) AND (sz - 1) < sz"
    using n unfolding word_less_nat_alt e by (simp add: unat_exp)
qed

lemma ring_count_facts:
  assumes "input_ring_ok p"
  shows "ring_count p < unat (input_fifo_size p)"
    and "(unat (input_rd_ptr p) + ring_count p) mod unat (input_fifo_size p) = unat (input_wrt_ptr p)"
    and "Suc (unat (input_wrt_ptr p)) mod unat (input_fifo_size p) = unat (input_rd_ptr p) \<longleftrightarrow> ring_cap p \<le> ring_count p"
    and "input_rd_ptr p = input_wrt_ptr p \<longleftrightarrow> ring_count p = 0"
  using assms
  by (auto simp: input_ring_ok_def ring_count_def ring_cap_def word_less_nat_alt word_le_nat_alt
      word_unat_eq_iff mod_Suc mod_if)

lemma ring_put_Some:
  assumes ok: "input_ring_ok p" and put: "ring_put fd p = Some q"
  shows "input_ring_ok q \<and> ring_items q = ring_items p @ [fd] \<and> ring_cap q = ring_cap p \<and>
    q = p\<lparr>input_wrt_ptr := input_wrt_ptr q, input_wrt_ptr_dirty := 1, input_fifo := input_fifo q\<rparr>"
proof -
  let ?N = "unat (input_fifo_size p)" and ?w = "input_wrt_ptr p" and ?r = "input_rd_ptr p"
  let ?nxt = "(?w + 1) AND (input_fifo_size p - 1)"
  have sz: "\<exists>n\<le>31. input_fifo_size p = 2 ^ n" and lt: "?w < input_fifo_size p" "?r < input_fifo_size p"
    and len: "length (input_fifo p) = ?N"
    using ok by (auto simp: input_ring_ok_def)
  have nf: "?nxt \<noteq> ?r" and q: "q = p\<lparr>input_wrt_ptr := ?nxt, input_wrt_ptr_dirty := 1,
      input_fifo := (input_fifo p)[unat ?w := fd]\<rparr>"
    using put by (auto simp: ring_put_def sysmem_alloc_fd_def write_fd_def Let_def split: if_splits)
  have n: "unat ?nxt = Suc (unat ?w) mod ?N" using ring_next [OF sz lt(1)] by simp
  have ok': "input_ring_ok q"
    using ok ring_next(2) [OF sz lt(1)] by (auto simp: q input_ring_ok_def)
  have room: "ring_count p < ?N - 1"
    using nf ring_count_facts(3) [OF ok] n by (auto simp: ring_cap_def word_unat_eq_iff)
  have cnt: "ring_count q = Suc (ring_count p)"
    using lt room n by (auto simp: q ring_count_def word_le_nat_alt word_less_nat_alt mod_Suc split: if_splits)
  have "ring_items q = ring_items p @ [fd]"
    unfolding ring_items_def cnt
    using room len ring_count_facts(2) [OF ok]
    by (simp add: q) (rule ring_list_put, simp_all)
  with ok' show ?thesis by (simp add: q ring_cap_def)
qed

lemma ring_get_Some:
  assumes ok: "input_ring_ok p" and get: "ring_get p = Some (fd, q)"
  shows "input_ring_ok q \<and> ring_items p = fd # ring_items q \<and> ring_cap q = ring_cap p"
proof -
  let ?N = "unat (input_fifo_size p)" and ?w = "input_wrt_ptr p" and ?r = "input_rd_ptr p"
  let ?nxt = "(?r + 1) AND (input_fifo_size p - 1)"
  have sz: "\<exists>n\<le>31. input_fifo_size p = 2 ^ n" and lt: "?w < input_fifo_size p" "?r < input_fifo_size p"
    using ok by (auto simp: input_ring_ok_def)
  have ne: "?r \<noteq> ?w" and q: "q = p\<lparr>input_rd_ptr := ?nxt\<rparr>" and fd: "fd = input_fifo p ! unat ?r"
    using get by (auto simp: ring_get_def split: if_splits)
  have n: "unat ?nxt = Suc (unat ?r) mod ?N" using ring_next [OF sz lt(2)] by simp
  have ok': "input_ring_ok q"
    using ok ring_next(2) [OF sz lt(2)] by (auto simp: q input_ring_ok_def)
  have pos: "0 < ring_count p" using ne ring_count_facts(4) [OF ok] by simp
  have cnt: "ring_count q = ring_count p - 1"
    using lt ne n by (auto simp: q ring_count_def word_le_nat_alt word_less_nat_alt word_unat_eq_iff mod_Suc split: if_splits)
  have "ring_items p = input_fifo p ! (unat ?r mod ?N) # ring_list ?N (Suc (unat ?r)) (ring_count p - 1) (input_fifo p)"
    unfolding ring_items_def using pos by (rule ring_list_get)
  also have "unat ?r mod ?N = unat ?r" using lt by (simp add: word_less_nat_alt)
  also have "ring_list ?N (Suc (unat ?r)) (ring_count p - 1) (input_fifo p) = ring_items q"
    unfolding ring_items_def cnt by (simp add: q n)
  finally show ?thesis using ok' fd by (simp add: q ring_cap_def)
qed

interpretation input_ring: bounded_fifo input_ring_ok ring_items ring_cap ring_put ring_get
proof
  fix p q :: nlm_phy_device and fd
  assume ok: "input_ring_ok p"
  have sz: "\<exists>n\<le>31. input_fifo_size p = 2 ^ n" and lt: "input_wrt_ptr p < input_fifo_size p"
    using ok by (auto simp: input_ring_ok_def)
  show "ring_put fd p = None \<longleftrightarrow> ring_cap p \<le> length (ring_items p)"
    using ring_count_facts(3) [OF ok] ring_next(1) [OF sz lt]
    by (auto simp: ring_put_def sysmem_alloc_fd_def Let_def ring_items_def word_unat_eq_iff)
  show "ring_get p = None \<longleftrightarrow> ring_items p = []"
    using ring_count_facts(4) [OF ok] by (auto simp: ring_get_def ring_items_def ring_list_def)
  show "input_ring_ok q \<and> ring_items q = ring_items p @ [fd] \<and> ring_cap q = ring_cap p" if "ring_put fd p = Some q"
    using ring_put_Some [OF ok that] by blast
  show "input_ring_ok q \<and> ring_items p = fd # ring_items q \<and> ring_cap q = ring_cap p" if "ring_get p = Some (fd, q)"
    using ring_get_Some [OF ok that] .
qed

text \<open>C35. The device receives flow descriptors in the order the data plane puts them into the
  ring, whatever the interleaving of the two and however often the indexes wrap around, and
  the ring never holds more than its size minus one.\<close>

theorem input_ring_order:
  assumes "input_ring_ok p" and "fifo_run ring_put ring_get ops p = (ins, outs, q)"
  shows "ring_items p @ ins = outs @ ring_items q \<and> length (ring_items q) \<le> unat (input_fifo_size p) - 1"
proof -
  from input_ring.run_order [OF assms]
  have r: "input_ring_ok q" "ring_items p @ ins = outs @ ring_items q" "ring_cap q = ring_cap p" by auto
  moreover have "length (ring_items q) \<le> ring_cap q"
    using ring_count_facts(1) [OF r(1)] by (simp add: ring_items_def ring_cap_def)
  ultimately show ?thesis by (simp add: ring_cap_def)
qed

lemma input_ring_phy0: "input_ring_ok phy0"
  by (auto simp: input_ring_ok_def phy0_def intro!: exI [of _ 2])

theorem input_ring_order_witness:
  "fst (fifo_run ring_put ring_get [Put fd_zero, Put fd_zero, Put fd_zero, Put fd_zero, Get] phy0) = [fd_zero, fd_zero, fd_zero] \<and>
   (\<exists>outs q. [fd_zero, fd_zero, fd_zero] = outs @ ring_items q \<and> length (ring_items q) \<le> 3)"
proof -
  let ?run = "fifo_run ring_put ring_get [Put fd_zero, Put fd_zero, Put fd_zero, Put fd_zero, Get] phy0"
  obtain ins outs q where r: "?run = (ins, outs, q)" by (cases ?run)
  have i: "fst ?run = [fd_zero, fd_zero, fd_zero]"
    by (simp add: ring_put_def ring_get_def sysmem_alloc_fd_def write_fd_def phy0_def Let_def)
  then have "ins = [fd_zero, fd_zero, fd_zero]" using r by simp
  moreover have "ring_items phy0 = []" by (simp add: ring_items_def ring_count_def phy0_def)
  ultimately have "[fd_zero, fd_zero, fd_zero] = outs @ ring_items q \<and> length (ring_items q) \<le> 3"
    using input_ring_order [OF input_ring_phy0 r] by (simp add: phy0_def)
  with i show ?thesis by blast
qed

end
