(* ===== verification/Manager.thy ===== *)
theory Manager
  imports Hw_Ring
begin

unbundle bit_operations_syntax

text \<open>
  The manager thread (nlm_manage_input, consume_rd and nlm_manage_output of
  lib/dataplane/fms_packet_api.c): it moves flow descriptors from the job FIFOs of the threads
  to the input ring of the device, round robin, and result descriptors from the output ring
  to the result FIFOs of the threads. Every descriptor of a thread is shown to keep its
  place among the descriptors of that thread.
\<close>

section \<open>Input\<close>

text \<open>\<^verbatim>\<open>*fd = *peek_job_fifo_output (fifo); pop_job_fifo (fifo)\<close> for the FIFO of thread \<open>i\<close> and
  the slot \<open>k\<close> of the ring.\<close>

definition move_job :: "nat \<Rightarrow> nat \<Rightarrow> nlm_phy_device \<Rightarrow> nlm_phy_device" where
  "move_job k i p =
     (let fifo = sw_job_fifo p ! i;
          p1 = write_fd k (jf_buf fifo ! the (peek_job_fifo_output fifo)) p
      in p1\<lparr>sw_job_fifo := (sw_job_fifo p1)[i := pop_job_fifo fifo]\<rparr>)"

text \<open>One pass of the \<^verbatim>\<open>for\<close> loop over the threads \<open>is\<close>; \<open>njobs\<close> counts the jobs moved and
  \<open>idle\<close> the threads without jobs. \<^term>\<open>None\<close> is an access beyond the array of FIFOs.\<close>

fun manage_input_pass ::
  "nat list \<Rightarrow> nlm_phy_device \<Rightarrow> nat \<Rightarrow> nat \<Rightarrow> (nlm_phy_device \<times> nat \<times> nat) option" where
  "manage_input_pass [] p njobs idle = Some (p, njobs, idle)"
| "manage_input_pass (i # is) p njobs idle =
     (if length (sw_job_fifo p) \<le> i then None
      else if job_fifo_empty (sw_job_fifo p ! i) then manage_input_pass is p njobs (idle + 1)
      else
        case sysmem_alloc_fd p of
          (None, _) \<Rightarrow> Some (p, njobs, unat (max_threads p))
        | (Some k, p1) \<Rightarrow> manage_input_pass is (move_job k i p1) (njobs + 1) idle)"

text \<open>The jobs waiting in the FIFOs: they bound the number of passes.\<close>

definition waiting :: "nlm_phy_device \<Rightarrow> nat" where
  "waiting p = sum_list (map (\<lambda>f. unat (jf_in f - jf_out f)) (sw_job_fifo p))"

lemma waiting_pop:
  assumes "i < length (sw_job_fifo p)" and "\<not> job_fifo_empty (sw_job_fifo p ! i)"
    and "sw_job_fifo q = (sw_job_fifo p)[i := pop_job_fifo (sw_job_fifo p ! i)]"
  shows "waiting p = Suc (waiting q)"
proof -
  let ?f = "sw_job_fifo p ! i" and ?g = "\<lambda>f. unat (jf_in f - jf_out f)"
  have ne: "jf_in ?f - jf_out ?f \<noteq> 0" using assms(2) by (simp add: job_fifo_empty_def)
  have "jf_in ?f - (jf_out ?f + 1) = jf_in ?f - jf_out ?f - 1" by (simp add: algebra_simps)
  moreover have "unat (w - 1) = unat w - 1" if "w \<noteq> 0" for w :: u32
    using that by (intro unat_minus_one)
  ultimately have "unat (jf_in ?f - (jf_out ?f + 1)) = ?g ?f - 1"
    using ne by (metis (no_types, lifting))
  then have "?g (pop_job_fifo ?f) = ?g ?f - 1"
    by (simp add: pop_job_fifo_def)
  moreover have "0 < ?g ?f" using ne by (simp add: unat_gt_0)
  ultimately have "?g ?f = Suc (?g (pop_job_fifo ?f))" by simp
  moreover have "sum_list ((map ?g (sw_job_fifo p))[i := ?g (pop_job_fifo ?f)]) + map ?g (sw_job_fifo p) ! i =
      sum_list (map ?g (sw_job_fifo p)) + ?g (pop_job_fifo ?f)"
    using assms(1) by (intro sum_list_update_nat) simp
  ultimately show ?thesis
    unfolding waiting_def assms(3) map_update using assms(1) by simp
qed

lemma alloc_fd_frame:
  "sysmem_alloc_fd p = (r, q) \<Longrightarrow> sw_job_fifo q = sw_job_fifo p \<and> max_threads q = max_threads p"
  by (auto simp: sysmem_alloc_fd_def Let_def split: if_splits)

lemma move_job_frame [simp]:
  "max_threads (move_job k i p) = max_threads p"
  "sw_job_fifo (move_job k i p) = (sw_job_fifo p)[i := pop_job_fifo (sw_job_fifo p ! i)]"
  by (simp_all add: move_job_def Let_def write_fd_def)

lemma pass_waiting:
  "manage_input_pass is p n idle = Some (q, n', idle') \<Longrightarrow>
   max_threads q = max_threads p \<and> n \<le> n' \<and> waiting q + n' = waiting p + n \<and>
   (idle' = unat (max_threads p) \<or> idle' + n' = idle + n + length is)"
proof (induction "is" arbitrary: p n idle)
  case (Cons i "is")
  show ?case
  proof (cases "job_fifo_empty (sw_job_fifo p ! i)")
    case True
    with Cons.prems Cons.IH [of p n "idle + 1"] show ?thesis by (auto split: if_splits)
  next
    case False
    obtain r p1 where a: "sysmem_alloc_fd p = (r, p1)" by (cases "sysmem_alloc_fd p")
    note f = alloc_fd_frame [OF a]
    show ?thesis
    proof (cases r)
      case None
      with Cons.prems False a show ?thesis by (auto split: if_splits)
    next
      case (Some k)
      with Cons.prems False a have i: "i < length (sw_job_fifo p)"
        and m: "manage_input_pass is (move_job k i p1) (n + 1) idle = Some (q, n', idle')"
        by (auto split: if_splits)
      have "waiting p = Suc (waiting (move_job k i p1))"
        using i False f by (intro waiting_pop) simp_all
      with Cons.IH [OF m] f show ?thesis by auto
    qed
  qed
qed simp

text \<open>The \<^verbatim>\<open>while\<close> loop. Every pass that does not end it moves a job.\<close>

function manage_input_loop ::
  "nlm_phy_device \<Rightarrow> nat \<Rightarrow> nat \<Rightarrow> (nlm_phy_device \<times> nat) option" where
  "manage_input_loop p njobs idle =
     (if idle = unat (max_threads p) then Some (p, njobs)
      else
        case manage_input_pass [0..<unat (max_threads p)] p njobs 0 of
          None \<Rightarrow> None
        | Some (p', njobs', idle') \<Rightarrow> manage_input_loop p' njobs' idle')"
  by pat_completeness auto
termination
proof (relation "measure (\<lambda>(p, n, idle). if idle = unat (max_threads p) then 0 else Suc (waiting p))", goal_cases)
  case (2 p n idle y p' z n' idle')
  then have "manage_input_pass [0..<unat (max_threads p)] p n 0 = Some (p', n', idle')" by simp
  from pass_waiting [OF this] 2(1) show ?case by auto
qed simp

declare manage_input_loop.simps [simp del]

definition nlm_manage_input :: "addr \<Rightarrow> u32 \<Rightarrow> nlm_phy_device \<Rightarrow> (nlm_status \<times> nlm_phy_device) option" where
  "nlm_manage_input device tid p =
     (if device = NULL then Some (NLM_INVALID_ARGUMENT, p)
      else if tid \<noteq> NLM_MANAGER_THREAD_ID then Some (NLM_INVALID_THREAD_ID, p)
      else if using_manager_thread p = 0 then Some (NLM_INVALID_ARGUMENT, p)
      else
        case manage_input_loop p 0 0 of
          None \<Rightarrow> None
        | Some (p', njobs) \<Rightarrow>
            if njobs = 0 then Some (NLM_OK, p')
            else Some (NLM_OK, nlm_device_update_input_wrt_ptr p'))"

section \<open>Correctness of the input side\<close>

definition job_fifos_ok :: "nlm_phy_device \<Rightarrow> bool" where
  "job_fifos_ok p \<longleftrightarrow> length (sw_job_fifo p) = unat (max_threads p) \<and> (\<forall>f \<in> set (sw_job_fifo p). job_fifo_ok f)"

definition thread_part :: "nat \<Rightarrow> (nat \<times> 'a) list \<Rightarrow> 'a list" where
  "thread_part i tr = map snd (filter (\<lambda>x. fst x = i) tr)"

lemma thread_part_append [simp]: "thread_part i (tr @ tr') = thread_part i tr @ thread_part i tr'"
  by (simp add: thread_part_def)

text \<open>\<open>moved p tr q\<close>: between \<open>p\<close> and \<open>q\<close> the jobs \<open>tr\<close>, tagged with their threads, went from
  the front of the FIFOs to the end of the ring, and nothing else changed.\<close>

definition moved :: "nlm_phy_device \<Rightarrow> (nat \<times> hw_fd_descriptor) list \<Rightarrow> nlm_phy_device \<Rightarrow> bool" where
  "moved p tr q \<longleftrightarrow> input_ring_ok q \<and> job_fifos_ok q \<and> ring_items q = ring_items p @ map snd tr \<and>
     fst ` set tr \<subseteq> {..<unat (max_threads p)} \<and>
     (\<forall>i < unat (max_threads p). thread_part i tr @ job_fifo_items (sw_job_fifo q ! i) = job_fifo_items (sw_job_fifo p ! i)) \<and>
     q = p\<lparr>sw_job_fifo := sw_job_fifo q, input_wrt_ptr := input_wrt_ptr q,
           input_wrt_ptr_dirty := input_wrt_ptr_dirty q, input_fifo := input_fifo q\<rparr>"

lemma moved_same:
  assumes "moved p tr q"
  shows "max_threads q = max_threads p" "phy_hw q = phy_hw p" "input_fifo_size q = input_fifo_size p"
proof -
  have q: "q = p\<lparr>sw_job_fifo := sw_job_fifo q, input_wrt_ptr := input_wrt_ptr q,
           input_wrt_ptr_dirty := input_wrt_ptr_dirty q, input_fifo := input_fifo q\<rparr>"
    using assms by (simp add: moved_def)
  show "max_threads q = max_threads p" "phy_hw q = phy_hw p" "input_fifo_size q = input_fifo_size p"
    by (subst q; simp)+
qed

lemma moved_ok:
  "moved p tr q \<Longrightarrow> input_ring_ok q" "moved p tr q \<Longrightarrow> job_fifos_ok q"
  "moved p tr q \<Longrightarrow> ring_items q = ring_items p @ map snd tr"
  "moved p tr q \<Longrightarrow> i < unat (max_threads p) \<Longrightarrow>
     thread_part i tr @ job_fifo_items (sw_job_fifo q ! i) = job_fifo_items (sw_job_fifo p ! i)"
  "moved p tr q \<Longrightarrow> fst ` set tr \<subseteq> {..<unat (max_threads p)}"
  unfolding moved_def by blast+

lemma moved_refl: "input_ring_ok p \<Longrightarrow> job_fifos_ok p \<Longrightarrow> moved p [] p"
  by (simp add: moved_def thread_part_def)

lemma moved_trans:
  assumes "moved p tr q" and "moved q tr' r"
  shows "moved p (tr @ tr') r"
proof -
  have p: "q = p\<lparr>sw_job_fifo := sw_job_fifo q, input_wrt_ptr := input_wrt_ptr q,
           input_wrt_ptr_dirty := input_wrt_ptr_dirty q, input_fifo := input_fifo q\<rparr>"
    and q: "r = q\<lparr>sw_job_fifo := sw_job_fifo r, input_wrt_ptr := input_wrt_ptr r,
           input_wrt_ptr_dirty := input_wrt_ptr_dirty r, input_fifo := input_fifo r\<rparr>"
    using assms by (simp_all add: moved_def)
  have "r = p\<lparr>sw_job_fifo := sw_job_fifo r, input_wrt_ptr := input_wrt_ptr r,
           input_wrt_ptr_dirty := input_wrt_ptr_dirty r, input_fifo := input_fifo r\<rparr>"
    by (subst q, subst p) simp
  moreover have "\<forall>i < unat (max_threads p). thread_part i (tr @ tr') @ job_fifo_items (sw_job_fifo r ! i) = job_fifo_items (sw_job_fifo p ! i)"
    using assms moved_same(1) [OF assms(1)] by (simp add: moved_def)
  moreover have "fst ` set (tr @ tr') \<subseteq> {..<unat (max_threads p)}"
    using moved_ok(5) [OF assms(1)] moved_ok(5) [OF assms(2)] moved_same(1) [OF assms(1)] by auto
  ultimately show ?thesis
    using assms unfolding moved_def by simp
qed

lemma moved_one:
  assumes ring: "input_ring_ok p" and fifos: "job_fifos_ok p" and i: "i < unat (max_threads p)"
    and ne: "\<not> job_fifo_empty (sw_job_fifo p ! i)" and al: "sysmem_alloc_fd p = (Some k, p1)"
  shows "\<exists>fd. moved p [(i, fd)] (move_job k i p1)"
proof -
  let ?f = "sw_job_fifo p ! i"
  have il: "i < length (sw_job_fifo p)" and fok: "job_fifo_ok ?f"
    using fifos i by (auto simp: job_fifos_ok_def)
  obtain j where j: "peek_job_fifo_output ?f = Some j"
    using ne by (auto simp: peek_job_fifo_output_def job_fifo_empty_def)
  let ?fd = "jf_buf ?f ! j"
  have get: "job_fifo_get ?f = Some (?fd, pop_job_fifo ?f)" using j by (simp add: job_fifo_get_def)
  note g = jf.get_Some [OF fok get]
  have put: "ring_put ?fd p = Some (write_fd k ?fd p1)" using al by (simp add: ring_put_def)
  note r = ring_put_Some [OF ring put]
  let ?q1 = "write_fd k ?fd p1"
  have f1: "sw_job_fifo p1 = sw_job_fifo p"
    using alloc_fd_frame [OF al] by simp
  have q: "move_job k i p1 = ?q1\<lparr>sw_job_fifo := (sw_job_fifo p)[i := pop_job_fifo ?f]\<rparr>"
    using j f1 by (simp add: move_job_def Let_def write_fd_def)
  have ring_frame: "input_ring_ok (x\<lparr>sw_job_fifo := fs\<rparr>) = input_ring_ok x"
    "ring_items (x\<lparr>sw_job_fifo := fs\<rparr>) = ring_items x" for x fs
    by (simp_all add: input_ring_ok_def ring_items_def ring_count_def)
  have "job_fifos_ok (move_job k i p1)"
    using fifos g alloc_fd_frame [OF al]
    by (auto simp: job_fifos_ok_def dest: set_update_subset_insert [THEN subsetD])
  moreover have "\<forall>t < unat (max_threads p). thread_part t [(i, ?fd)] @ job_fifo_items (sw_job_fifo (move_job k i p1) ! t) =
      job_fifo_items (sw_job_fifo p ! t)"
    using g il f1 by (auto simp: thread_part_def nth_list_update)
  moreover have "move_job k i p1 = p\<lparr>sw_job_fifo := sw_job_fifo (move_job k i p1), input_wrt_ptr := input_wrt_ptr (move_job k i p1),
      input_wrt_ptr_dirty := input_wrt_ptr_dirty (move_job k i p1), input_fifo := input_fifo (move_job k i p1)\<rparr>"
    using al by (auto simp: sysmem_alloc_fd_def move_job_def write_fd_def Let_def split: if_splits)
  moreover have "input_ring_ok (move_job k i p1)" "ring_items (move_job k i p1) = ring_items p @ map snd [(i, ?fd)]"
    unfolding q ring_frame using r by simp_all
  moreover have "fst ` set [(i, ?fd)] \<subseteq> {..<unat (max_threads p)}" using i by simp
  ultimately have "moved p [(i, ?fd)] (move_job k i p1)"
    unfolding moved_def by blast
  then show ?thesis ..
qed

definition ring_full :: "nlm_phy_device \<Rightarrow> bool" where
  "ring_full p \<longleftrightarrow> ring_cap p \<le> length (ring_items p)"

definition all_idle :: "nlm_phy_device \<Rightarrow> bool" where
  "all_idle p \<longleftrightarrow> (\<forall>i < unat (max_threads p). job_fifo_items (sw_job_fifo p ! i) = [])"

lemma job_fifo_empty_items: "job_fifo_ok f \<Longrightarrow> job_fifo_empty f \<longleftrightarrow> job_fifo_items f = []"
  using counter_items_Nil [of "jf_size f" "jf_in f" "jf_out f" "jf_buf f"] by (simp add: job_fifo_defs job_fifo_empty_def)

lemma pass_correct:
  assumes "input_ring_ok p" and "job_fifos_ok p" and "set is \<subseteq> {..<unat (max_threads p)}"
  shows "\<exists>q idle' tr. manage_input_pass is p n idle = Some (q, n + length tr, idle') \<and> moved p tr q \<and>
    (ring_full q \<or> idle' + length tr = idle + length is \<and>
       (tr = [] \<longrightarrow> (\<forall>i \<in> set is. job_fifo_items (sw_job_fifo q ! i) = [])))"
  using assms
proof (induction "is" arbitrary: p n idle)
  case Nil
  then show ?case using moved_refl by (auto intro!: exI [of _ "[]"])
next
  case (Cons i "is")
  then have i: "i < unat (max_threads p)" and il: "i < length (sw_job_fifo p)" and fok: "job_fifo_ok (sw_job_fifo p ! i)"
    by (auto simp: job_fifos_ok_def)
  show ?case
  proof (cases "job_fifo_empty (sw_job_fifo p ! i)")
    case True
    obtain q idle' tr where IH: "manage_input_pass is p n (idle + 1) = Some (q, n + length tr, idle')" "moved p tr q"
      "ring_full q \<or> idle' + length tr = idle + 1 + length is \<and> (tr = [] \<longrightarrow> (\<forall>i \<in> set is. job_fifo_items (sw_job_fifo q ! i) = []))"
      using Cons.IH [of p n "idle + 1"] Cons.prems by auto
    have "job_fifo_items (sw_job_fifo q ! i) = []"
      using moved_ok(4) [OF IH(2) i] True job_fifo_empty_items [OF fok] by simp
    with IH il True show ?thesis by (intro exI [of _ q] exI [of _ idle'] exI [of _ tr]) auto
  next
    case False
    obtain r p1 where a: "sysmem_alloc_fd p = (r, p1)" by (cases "sysmem_alloc_fd p")
    show ?thesis
    proof (cases r)
      case None
      then have "ring_put fd_zero p = None" using a by (simp add: ring_put_def)
      then have "ring_full p" using input_ring.put_full [OF Cons.prems(1)] by (simp add: ring_full_def)
      then show ?thesis
        using None a il False moved_refl [OF Cons.prems(1,2)]
        by (intro exI [of _ p] exI [of _ "unat (max_threads p)"] exI [of _ "[]"]) simp
    next
      case (Some k)
      obtain fd where m: "moved p [(i, fd)] (move_job k i p1)"
        using moved_one [OF Cons.prems(1,2) i False] a Some by auto
      then have ok': "input_ring_ok (move_job k i p1)" "job_fifos_ok (move_job k i p1)"
        and mt: "max_threads (move_job k i p1) = max_threads p"
        using moved_ok(1,2) moved_same(1) by blast+
      obtain q idle' tr where IH: "manage_input_pass is (move_job k i p1) (n + 1) idle = Some (q, n + 1 + length tr, idle')"
        "moved (move_job k i p1) tr q" "ring_full q \<or> idle' + length tr = idle + length is"
        using Cons.IH [OF ok', of "n + 1" idle] Cons.prems(3) mt by auto
      have "moved p ((i, fd) # tr) q" using moved_trans [OF m IH(2)] by simp
      moreover have "manage_input_pass (i # is) p n idle = Some (q, n + length ((i, fd) # tr), idle')"
        using IH(1) il False a Some by simp
      moreover have "ring_full q \<or> idle' + length ((i, fd) # tr) = idle + length (i # is)"
        using IH(3) by auto
      ultimately show ?thesis by blast
    qed
  qed
qed

lemma loop_correct:
  assumes "input_ring_ok p" and "job_fifos_ok p"
    and "idle = unat (max_threads p) \<Longrightarrow> ring_full p \<or> all_idle p"
  shows "\<exists>q tr. manage_input_loop p n idle = Some (q, n + length tr) \<and> moved p tr q \<and> (ring_full q \<or> all_idle q)"
  using assms
proof (induction p n idle rule: manage_input_loop.induct)
  case (1 p n idle)
  show ?case
  proof (cases "idle = unat (max_threads p)")
    case True
    with 1 moved_refl show ?thesis
      by (intro exI [of _ p] exI [of _ "[]"]) (simp add: manage_input_loop.simps [of p n])
  next
    case False
    have sub: "set [0..<unat (max_threads p)] \<subseteq> {..<unat (max_threads p)}" by auto
    obtain q idle' tr where pass: "manage_input_pass [0..<unat (max_threads p)] p n 0 = Some (q, n + length tr, idle')"
      and m: "moved p tr q"
      and f: "ring_full q \<or> idle' + length tr = unat (max_threads p) \<and>
        (tr = [] \<longrightarrow> (\<forall>i \<in> set [0..<unat (max_threads p)]. job_fifo_items (sw_job_fifo q ! i) = []))"
      using pass_correct [OF "1.prems"(1,2) sub, of n 0] by (simp del: set_upt) blast
    note same = moved_same(1) [OF m]
    have ok: "input_ring_ok q" "job_fifos_ok q" using m moved_ok(1,2) by blast+
    have fin: "ring_full q \<or> all_idle q" if "idle' = unat (max_threads q)"
      using f that same by (auto simp: all_idle_def)
    from "1.IH" [OF False pass refl refl ok fin] obtain r tr' where
      l: "manage_input_loop q (n + length tr) idle' = Some (r, n + length tr + length tr')" and m': "moved q tr' r"
      and e: "ring_full r \<or> all_idle r"
      by auto
    have "manage_input_loop p n idle = Some (r, n + length (tr @ tr'))"
      using False pass l by (simp add: manage_input_loop.simps [of p n] add.assoc)
    with moved_trans [OF m m'] e show ?thesis by blast
  qed
qed

text \<open>C12. The manager's input side returns, whatever waits in the job FIFOs. The descriptors \<open>tr\<close>
  it adds at the end of the device's ring, each tagged with an existing thread, are for every thread
  exactly those taken from the front of that thread's FIFO, each once and in the order of the FIFO;
  nothing else is put on the ring and none is lost. It stops only when the ring is full or
  every FIFO is empty; and the device is told the new write index exactly when something was
  moved.\<close>

theorem nlm_manage_input_correct:
  assumes "input_ring_ok p" and "job_fifos_ok p" and "device \<noteq> NULL" and "using_manager_thread p \<noteq> 0"
  shows "\<exists>q tr. nlm_manage_input device NLM_MANAGER_THREAD_ID p = Some (NLM_OK, q) \<and>
    ring_items q = ring_items p @ map snd tr \<and> fst ` set tr \<subseteq> {..<unat (max_threads p)} \<and>
    (\<forall>i < unat (max_threads p). thread_part i tr @ job_fifo_items (sw_job_fifo q ! i) = job_fifo_items (sw_job_fifo p ! i)) \<and>
    (ring_full q \<or> all_idle q) \<and>
    trace (phy_hw q) = trace (phy_hw p) @ (if tr = [] then [] else [Wr (FDF_FIFO_WRT_PTR (fms_ring_id q)) (input_wrt_ptr q)])"
proof -
  obtain q tr where l: "manage_input_loop p 0 0 = Some (q, length tr)" and m: "moved p tr q" and e: "ring_full q \<or> all_idle q"
    using loop_correct [OF assms(1,2), of 0 0] by (auto simp: all_idle_def)
  let ?q = "if tr = [] then q else nlm_device_update_input_wrt_ptr q"
  have "nlm_manage_input device NLM_MANAGER_THREAD_ID p = Some (NLM_OK, ?q)"
    using assms(3,4) l by (simp add: nlm_manage_input_def)
  moreover have "ring_items ?q = ring_items q" "sw_job_fifo ?q = sw_job_fifo q" "ring_full ?q = ring_full q" "all_idle ?q = all_idle q"
    by (simp_all add: nlm_device_update_input_wrt_ptr_def phy_set_register_def ring_items_def ring_count_def
        ring_full_def ring_cap_def all_idle_def)
  moreover have "trace (phy_hw ?q) = trace (phy_hw p) @ (if tr = [] then [] else [Wr (FDF_FIFO_WRT_PTR (fms_ring_id ?q)) (input_wrt_ptr ?q)])"
    using moved_same(2) [OF m] by (simp add: nlm_device_update_input_wrt_ptr_def phy_set_register_def SET_HW_REGISTER_def)
  ultimately show ?thesis
    using moved_ok(3-5) [OF m] e by (intro exI [of _ ?q] exI [of _ tr]) simp
qed

definition manager_example :: nlm_phy_device where
  "manager_example = phy0\<lparr>sw_job_fifo := [\<lparr>jf_size = 2, jf_in = 0, jf_out = -1,
     jf_buf = [fd_zero, fd_zero\<lparr>fd_cookie := 1\<rparr>]\<rparr>]\<rparr>"

lemma manager_example_ok: "input_ring_ok manager_example" "job_fifos_ok manager_example"
proof -
  show "input_ring_ok manager_example"
    by (auto simp: manager_example_def phy0_def input_ring_ok_def intro!: exI [of _ 2])
  show "job_fifos_ok manager_example"
    by (auto simp: manager_example_def phy0_def job_fifos_ok_def job_fifo_ok_def counter_ok_def intro!: exI [of _ 1])
qed

theorem nlm_manage_input_correct_witness:
  "\<exists>q. nlm_manage_input 1 NLM_MANAGER_THREAD_ID manager_example = Some (NLM_OK, q) \<and>
     ring_items q = [fd_zero\<lparr>fd_cookie := 1\<rparr>] \<and> trace (phy_hw q) = [Wr 0x1020 1]"
proof -
  obtain q tr where q: "nlm_manage_input 1 NLM_MANAGER_THREAD_ID manager_example = Some (NLM_OK, q)"
    and r: "ring_items q = ring_items manager_example @ map snd tr"
    and t: "\<forall>i < unat (max_threads manager_example). thread_part i tr @ job_fifo_items (sw_job_fifo q ! i) =
      job_fifo_items (sw_job_fifo manager_example ! i)"
    and d: "trace (phy_hw q) = trace (phy_hw manager_example) @
      (if tr = [] then [] else [Wr (FDF_FIFO_WRT_PTR (fms_ring_id q)) (input_wrt_ptr q)])"
    using nlm_manage_input_correct [OF manager_example_ok, of 1] by (auto simp: manager_example_def phy0_def)
  have "map_option (\<lambda>(st, q). (st, ring_items q, trace (phy_hw q))) (nlm_manage_input 1 NLM_MANAGER_THREAD_ID manager_example) =
      Some (NLM_OK, [fd_zero\<lparr>fd_cookie := 1\<rparr>], [Wr 0x1020 1])"
    by (simp add: nlm_manage_input_def manage_input_loop.simps manager_example_def phy0_def job_fifo_empty_def
        sysmem_alloc_fd_def move_job_def write_fd_def peek_job_fifo_output_def pop_job_fifo_def
        nlm_device_update_input_wrt_ptr_def phy_set_register_def SET_HW_REGISTER_def FDF_FIFO_WRT_PTR_def Let_def
        ring_items_def ring_count_def ring_list_def upt_rec)
  with q show ?thesis by simp
qed

section \<open>Output\<close>

text \<open>The result is \<^verbatim>\<open>true\<close> when the descriptor stays in the output ring. \<^term>\<open>None\<close> is a failed
  assertion or an access beyond the array of FIFOs.\<close>

definition consume_rd :: "nat \<Rightarrow> nlm_phy_device \<Rightarrow> (bool \<times> nlm_phy_device) option" where
  "consume_rd k p =
     (let rd = output_fifo p ! k in
      if rd_u4 rd = RD_WAS_PROCESSED then Some (False, p)
      else
        let tid = NLM_GET_THREAD_ID (rd_cookie rd) in
        assert_then (rd_cookie rd \<noteq> 0 \<and> tid < max_threads p \<and> unat tid < length (sw_result_fifo p))
          (let t = unat tid; fifo = sw_result_fifo p ! t in
           if rf_skip fifo \<noteq> 0 then Some (True, p)
           else
             case peek_result_fifo_input fifo of
               None \<Rightarrow> Some (True, p\<lparr>sw_result_fifo := (sw_result_fifo p)[t := fifo\<lparr>rf_skip := 1\<rparr>]\<rparr>)
             | Some i \<Rightarrow>
                 Some (False,
                   p\<lparr>sw_result_fifo := (sw_result_fifo p)[t := push_result_fifo (fifo\<lparr>rf_buf := (rf_buf fifo)[i := rd]\<rparr>)],
                     output_fifo := (output_fifo p)[k := rd\<lparr>rd_u4 := RD_WAS_PROCESSED\<rparr>]\<rparr>)))"

fun consume_rds :: "nat list \<Rightarrow> nlm_phy_device \<Rightarrow> bool \<Rightarrow> (bool \<times> nlm_phy_device) option" where
  "consume_rds [] p no_update = Some (no_update, p)"
| "consume_rds (k # ks) p no_update =
     (case consume_rd k p of None \<Rightarrow> None | Some (b, p') \<Rightarrow> consume_rds ks p' (no_update \<or> b))"

text \<open>The slots the two loops visit, from the read index to the write index.\<close>

definition output_window :: "nlm_phy_device \<Rightarrow> nat list" where
  "output_window p =
     (if output_rd_ptr p < output_wrt_ptr p then [unat (output_rd_ptr p)..<unat (output_wrt_ptr p)]
      else [unat (output_rd_ptr p)..<unat (output_fifo_size p)] @ [0..<unat (output_wrt_ptr p)])"

definition nlm_manage_output :: "addr \<Rightarrow> u32 \<Rightarrow> nlm_phy_device \<Rightarrow> (nlm_status \<times> nlm_phy_device) option" where
  "nlm_manage_output device tid p =
     (if device = NULL then Some (NLM_INVALID_ARGUMENT, p)
      else if tid \<noteq> NLM_MANAGER_THREAD_ID then Some (NLM_INVALID_THREAD_ID, p)
      else
        assert_then (output_rd_ptr p < output_fifo_size p \<and> output_wrt_ptr p < output_fifo_size p)
          (if output_rd_ptr p = output_wrt_ptr p then Some (NLM_OK, p)
           else
             let n = unat (max_threads p);
                 p1 = p\<lparr>sw_result_fifo := map (\<lambda>f. f\<lparr>rf_skip := 0\<rparr>) (take n (sw_result_fifo p)) @ drop n (sw_result_fifo p)\<rparr> in
             case consume_rds (output_window p1) p1 False of
               None \<Rightarrow> None
             | Some (no_update, p2) \<Rightarrow>
                 let rd_ptr = output_wrt_ptr p AND (output_fifo_size p - 1) in
                 if \<not> no_update \<and> rd_ptr \<noteq> output_rd_ptr p2
                 then Some (NLM_OK, phy_set_register (RDF_RD_PTR (fms_ring_id p2)) rd_ptr (p2\<lparr>output_rd_ptr := rd_ptr\<rparr>))
                 else Some (NLM_OK, p2)))"

section \<open>Correctness of the output side\<close>

definition rd_thread :: "hw_result_descriptor \<Rightarrow> nat" where
  "rd_thread rd = unat (NLM_GET_THREAD_ID (rd_cookie rd))"

text \<open>The results of thread \<open>t\<close> that are still to be delivered, in the order of the slots \<open>ks\<close>.\<close>

definition pending_rds :: "nat \<Rightarrow> hw_result_descriptor list \<Rightarrow> nat list \<Rightarrow> hw_result_descriptor list" where
  "pending_rds t ring ks = filter (\<lambda>rd. rd_u4 rd \<noteq> RD_WAS_PROCESSED \<and> rd_thread rd = t) (map ((!) ring) ks)"

lemma pending_rds_simps [simp]:
  "pending_rds t ring [] = []"
  "pending_rds t ring (k # ks) =
     (if rd_u4 (ring ! k) \<noteq> RD_WAS_PROCESSED \<and> rd_thread (ring ! k) = t then ring ! k # pending_rds t ring ks
      else pending_rds t ring ks)"
  by (simp_all add: pending_rds_def)

lemma pending_rds_cong:
  "(\<And>k. k \<in> set ks \<Longrightarrow> ring ! k = ring' ! k) \<Longrightarrow> pending_rds t ring ks = pending_rds t ring' ks"
  unfolding pending_rds_def by (intro arg_cong [where f = "filter _"] map_cong) auto

definition result_fifos_ok :: "nlm_phy_device \<Rightarrow> bool" where
  "result_fifos_ok p \<longleftrightarrow> length (sw_result_fifo p) = unat (max_threads p) \<and> (\<forall>f \<in> set (sw_result_fifo p). result_fifo_ok f)"

definition rds_ok :: "nlm_phy_device \<Rightarrow> nat list \<Rightarrow> bool" where
  "rds_ok p ks \<longleftrightarrow> (\<forall>k \<in> set ks. k < length (output_fifo p) \<and>
     (rd_u4 (output_fifo p ! k) \<noteq> RD_WAS_PROCESSED \<longrightarrow>
        rd_cookie (output_fifo p ! k) \<noteq> 0 \<and> rd_thread (output_fifo p ! k) < unat (max_threads p)))"

text \<open>The free entries of a thread's result FIFO, and how many results a scan may still deliver there.\<close>

definition fifo_room :: "nlm_result_fifo \<Rightarrow> nat" where
  "fifo_room f = result_fifo_cap f - length (result_fifo_items f)"

definition scan_room :: "nlm_result_fifo \<Rightarrow> nat" where
  "scan_room f = (if rf_skip f \<noteq> 0 then 0 else fifo_room f)"

text \<open>What one descriptor does: nothing, a refusal that leaves the FIFO of its thread in skip
  mode, or a delivery.\<close>

lemma consume_rd_cases:
  assumes fok: "result_fifos_ok p" and rok: "rds_ok p (k # ks)" and dist: "k \<notin> set ks"
  obtains (processed) "rd_u4 (output_fifo p ! k) = RD_WAS_PROCESSED" "consume_rd k p = Some (False, p)"
  | (refused) t fs where "rd_u4 (output_fifo p ! k) \<noteq> RD_WAS_PROCESSED" "t = rd_thread (output_fifo p ! k)" "t < unat (max_threads p)"
      "consume_rd k p = Some (True, p\<lparr>sw_result_fifo := fs\<rparr>)" "length fs = unat (max_threads p)"
      "scan_room (sw_result_fifo p ! t) = 0" "scan_room (fs ! t) = 0"
      "\<forall>u < unat (max_threads p). result_fifo_ok (fs ! u) \<and> result_fifo_items (fs ! u) = result_fifo_items (sw_result_fifo p ! u) \<and>
         (u \<noteq> t \<longrightarrow> scan_room (fs ! u) = scan_room (sw_result_fifo p ! u))"
  | (delivered) t fs where "rd_u4 (output_fifo p ! k) \<noteq> RD_WAS_PROCESSED" "t = rd_thread (output_fifo p ! k)" "t < unat (max_threads p)"
      "consume_rd k p = Some (False, p\<lparr>sw_result_fifo := fs, output_fifo := (output_fifo p)[k := (output_fifo p ! k)\<lparr>rd_u4 := RD_WAS_PROCESSED\<rparr>]\<rparr>)"
      "length fs = unat (max_threads p)"
      "scan_room (sw_result_fifo p ! t) = Suc (scan_room (fs ! t))"
      "\<forall>u < unat (max_threads p). result_fifo_ok (fs ! u) \<and>
         result_fifo_items (fs ! u) = result_fifo_items (sw_result_fifo p ! u) @ (if u = t then [output_fifo p ! k] else []) \<and>
         (u \<noteq> t \<longrightarrow> scan_room (fs ! u) = scan_room (sw_result_fifo p ! u))"
proof -
  let ?rd = "output_fifo p ! k" and ?t = "rd_thread (output_fifo p ! k)"
  let ?f = "sw_result_fifo p ! ?t"
  have len: "length (sw_result_fifo p) = unat (max_threads p)"
    and oks: "\<And>u. u < unat (max_threads p) \<Longrightarrow> result_fifo_ok (sw_result_fifo p ! u)"
    using fok by (auto simp: result_fifos_ok_def)
  show thesis
  proof (cases "rd_u4 ?rd = RD_WAS_PROCESSED")
    case True
    then show thesis by (intro processed) (simp_all add: consume_rd_def Let_def)
  next
    case False
    then have t: "?t < unat (max_threads p)" and c: "rd_cookie ?rd \<noteq> 0"
      using rok by (auto simp: rds_ok_def)
    have as: "NLM_GET_THREAD_ID (rd_cookie ?rd) < max_threads p" using t by (simp add: word_less_nat_alt rd_thread_def)
    show thesis
    proof (cases "rf_skip ?f = 0")
      case False
      then show thesis
        using \<open>rd_u4 ?rd \<noteq> RD_WAS_PROCESSED\<close> t c as len oks
        by (intro refused [of ?t "sw_result_fifo p"]) (auto simp: consume_rd_def Let_def rd_thread_def scan_room_def)
    next
      case ns: True
      show thesis
      proof (cases "peek_result_fifo_input ?f")
        case None
        let ?fs = "(sw_result_fifo p)[?t := ?f\<lparr>rf_skip := 1\<rparr>]"
        have "consume_rd k p = Some (True, p\<lparr>sw_result_fifo := ?fs\<rparr>)"
          using None ns False c as t len by (simp add: consume_rd_def Let_def rd_thread_def)
        moreover have "result_fifo_ok (?f\<lparr>rf_skip := 1\<rparr>)" "result_fifo_items (?f\<lparr>rf_skip := 1\<rparr>) = result_fifo_items ?f"
          using oks [OF t] by (simp_all add: result_fifo_defs)
        moreover have "result_fifo_put ?rd ?f = None" using None by (simp add: result_fifo_put_def)
        then have "scan_room ?f = 0" using rf.put_full [OF oks [OF t]] by (simp add: scan_room_def fifo_room_def)
        moreover have "scan_room (?f\<lparr>rf_skip := 1\<rparr>) = 0" by (simp add: scan_room_def)
        ultimately show thesis
          using False t len oks by (intro refused [of ?t ?fs]) (auto simp: nth_list_update)
      next
        case (Some i)
        let ?g = "push_result_fifo (?f\<lparr>rf_buf := (rf_buf ?f)[i := ?rd]\<rparr>)"
        let ?fs = "(sw_result_fifo p)[?t := ?g]"
        have put: "result_fifo_put ?rd ?f = Some ?g" using Some by (simp add: result_fifo_put_def)
        note g = rf.put_Some [OF oks [OF t] put]
        have "consume_rd k p = Some (False, p\<lparr>sw_result_fifo := ?fs, output_fifo := (output_fifo p)[k := ?rd\<lparr>rd_u4 := RD_WAS_PROCESSED\<rparr>]\<rparr>)"
          using Some ns False c as t len by (simp add: consume_rd_def Let_def rd_thread_def)
        moreover have "rf_skip ?g = rf_skip ?f" by (simp add: push_result_fifo_def)
        moreover have "length (result_fifo_items ?f) < result_fifo_cap ?f"
          using rf.put_full [OF oks [OF t], of ?rd] put by simp
        then have "scan_room ?f = Suc (scan_room ?g)"
          using g ns \<open>rf_skip ?g = rf_skip ?f\<close> by (simp add: scan_room_def fifo_room_def)
        ultimately show thesis
          using False t len oks g ns by (intro delivered [of ?t ?fs]) (auto simp: nth_list_update)
      qed
    qed
  qed
qed

text \<open>The effect of a scan of the slots \<open>ks\<close> on the results of thread \<open>t\<close>: as many of the pending
  results as there is room for are appended to the thread's FIFO, the rest stays pending.\<close>

definition scan_thread :: "nat \<Rightarrow> nat list \<Rightarrow> nlm_phy_device \<Rightarrow> nlm_phy_device \<Rightarrow> bool" where
  "scan_thread t ks p q \<longleftrightarrow>
     (let P = pending_rds t (output_fifo p) ks; r = scan_room (sw_result_fifo p ! t) in
      pending_rds t (output_fifo q) ks = drop r P \<and>
      result_fifo_items (sw_result_fifo q ! t) = result_fifo_items (sw_result_fifo p ! t) @ take r P)"

definition scan_frame :: "nat list \<Rightarrow> nlm_phy_device \<Rightarrow> nlm_phy_device \<Rightarrow> bool" where
  "scan_frame ks p q \<longleftrightarrow> result_fifos_ok q \<and> length (output_fifo q) = length (output_fifo p) \<and>
     (\<forall>k. k \<notin> set ks \<longrightarrow> output_fifo q ! k = output_fifo p ! k) \<and>
     (\<exists>fs ring. q = p\<lparr>sw_result_fifo := fs, output_fifo := ring\<rparr>)"

definition all_delivered :: "nat list \<Rightarrow> nlm_phy_device \<Rightarrow> bool" where
  "all_delivered ks q \<longleftrightarrow> (\<forall>t < unat (max_threads q). pending_rds t (output_fifo q) ks = [])"

lemma scan_frame_max: "scan_frame ks p q \<Longrightarrow> max_threads q = max_threads p"
  by (auto simp: scan_frame_def)

lemma consume_rds_correct:
  assumes "result_fifos_ok p" and "rds_ok p ks" and "distinct ks"
  shows "\<exists>q nu'. consume_rds ks p nu = Some (nu', q) \<and> scan_frame ks p q \<and>
    (\<forall>t < unat (max_threads p). scan_thread t ks p q) \<and> (nu' \<longleftrightarrow> nu \<or> \<not> all_delivered ks q)"
  using assms
proof (induction ks arbitrary: p nu)
  case Nil
  have "p = p\<lparr>sw_result_fifo := sw_result_fifo p, output_fifo := output_fifo p\<rparr>" by simp
  then have "scan_frame [] p p" unfolding scan_frame_def using Nil by blast
  then show ?case
    by (auto simp: scan_thread_def all_delivered_def)
next
  case (Cons k ks)
  then have k: "k \<notin> set ks" and d: "distinct ks" and kl: "k < length (output_fifo p)" by (auto simp: rds_ok_def)
  let ?rd = "output_fifo p ! k"
  from Cons.prems(1,2) k show ?case
  proof (cases rule: consume_rd_cases)
    case processed
    have "rds_ok p ks" using Cons.prems(2) by (simp add: rds_ok_def)
    from Cons.IH [OF Cons.prems(1) this d, of nu] obtain q nu' where
      q: "consume_rds ks p nu = Some (nu', q)" and fr: "scan_frame ks p q"
      and th: "\<forall>t < unat (max_threads p). scan_thread t ks p q" and nu': "nu' \<longleftrightarrow> nu \<or> \<not> all_delivered ks q"
      by blast
    have same: "output_fifo q ! k = ?rd" using fr k by (simp add: scan_frame_def)
    have "scan_thread t (k # ks) p q = scan_thread t ks p q" for t
      using same processed(1) by (simp add: scan_thread_def)
    moreover have "all_delivered (k # ks) q = all_delivered ks q"
      using same processed(1) by (simp add: all_delivered_def)
    moreover have "scan_frame (k # ks) p q" using fr by (auto simp: scan_frame_def)
    ultimately show ?thesis using q th nu' processed(2) by auto
  next
    case (refused t fs)
    let ?p = "p\<lparr>sw_result_fifo := fs\<rparr>"
    have "result_fifos_ok ?p" using refused by (auto simp: result_fifos_ok_def in_set_conv_nth)
    moreover have "rds_ok ?p ks" using Cons.prems(2) by (simp add: rds_ok_def)
    ultimately obtain q nu' where
      q: "consume_rds ks ?p (nu \<or> True) = Some (nu', q)" and fr: "scan_frame ks ?p q"
      and th: "\<forall>t < unat (max_threads p). scan_thread t ks ?p q" and nu': "nu' \<longleftrightarrow> True"
      using Cons.IH [of ?p "nu \<or> True"] d by auto
    have same: "output_fifo q ! k = ?rd" using fr k by (simp add: scan_frame_def)
    have mt: "max_threads q = max_threads p" using scan_frame_max [OF fr] by simp
    have "\<not> all_delivered (k # ks) q"
      unfolding all_delivered_def mt using same refused(1-3) by auto
    moreover have "scan_thread u (k # ks) p q" if u: "u < unat (max_threads p)" for u
    proof (cases "u = t")
      case True
      with th u have "scan_thread t ks ?p q" by blast
      then have "pending_rds t (output_fifo p) ks = pending_rds t (output_fifo q) ks"
        "result_fifo_items (sw_result_fifo q ! t) = result_fifo_items (fs ! t)"
        using refused(7) by (auto simp: scan_thread_def)
      then show ?thesis using True same refused(1,2,6,8) u by (simp add: scan_thread_def)
    next
      case False
      with th u refused(2,8) same show ?thesis by (auto simp: scan_thread_def)
    qed
    moreover have "scan_frame (k # ks) p q" using fr by (auto simp: scan_frame_def)
    ultimately show ?thesis using q nu' refused(4) by auto
  next
    case (delivered t fs)
    let ?ring = "(output_fifo p)[k := ?rd\<lparr>rd_u4 := RD_WAS_PROCESSED\<rparr>]"
    let ?p = "p\<lparr>sw_result_fifo := fs, output_fifo := ?ring\<rparr>"
    have others: "\<And>j. j \<in> set ks \<Longrightarrow> ?ring ! j = output_fifo p ! j" using k by (metis nth_list_update_neq)
    have "result_fifos_ok ?p" using delivered by (auto simp: result_fifos_ok_def in_set_conv_nth)
    moreover have "rds_ok ?p ks" using Cons.prems(2) others by (auto simp: rds_ok_def)
    ultimately obtain q nu' where
      q: "consume_rds ks ?p nu = Some (nu', q)" and fr: "scan_frame ks ?p q"
      and th: "\<forall>t < unat (max_threads p). scan_thread t ks ?p q" and nu': "nu' \<longleftrightarrow> nu \<or> \<not> all_delivered ks q"
      using Cons.IH [of ?p nu] d by auto
    have pr: "rd_u4 (output_fifo q ! k) = RD_WAS_PROCESSED" using fr k kl by (simp add: scan_frame_def)
    have pend: "pending_rds u ?ring ks = pending_rds u (output_fifo p) ks" for u
      using others by (rule pending_rds_cong)
    have "scan_thread u (k # ks) p q" if u: "u < unat (max_threads p)" for u
    proof -
      have "scan_thread u ks ?p q" using th u by simp
      moreover have "result_fifo_items (fs ! u) = result_fifo_items (sw_result_fifo p ! u) @ (if u = t then [?rd] else [])"
        "u \<noteq> t \<Longrightarrow> scan_room (fs ! u) = scan_room (sw_result_fifo p ! u)"
        using delivered(7) u by auto
      ultimately show ?thesis
        using delivered(1,2,6) pr pend [of u] by (cases "u = t") (simp_all add: scan_thread_def Let_def)
    qed
    moreover have "all_delivered (k # ks) q = all_delivered ks q"
      using pr by (simp add: all_delivered_def)
    moreover have "scan_frame (k # ks) p q" using fr by (auto simp: scan_frame_def)
    ultimately show ?thesis using q nu' delivered(4) by auto
  qed
qed

text \<open>The unread slots: none when the indexes agree.\<close>

definition unread_slots :: "nlm_phy_device \<Rightarrow> nat list" where
  "unread_slots p = (if output_rd_ptr p = output_wrt_ptr p then [] else output_window p)"

definition output_ring_ok :: "nlm_phy_device \<Rightarrow> bool" where
  "output_ring_ok p \<longleftrightarrow> (\<exists>n\<le>31. output_fifo_size p = 2 ^ n) \<and> length (output_fifo p) = unat (output_fifo_size p) \<and>
     output_rd_ptr p < output_fifo_size p \<and> output_wrt_ptr p < output_fifo_size p"

lemma output_window_frame [simp]: "output_window (p\<lparr>sw_result_fifo := fs\<rparr>) = output_window p"
  by (simp add: output_window_def)

lemma distinct_output_window: "output_rd_ptr p \<noteq> output_wrt_ptr p \<Longrightarrow> distinct (output_window p)"
  by (auto simp: output_window_def word_less_nat_alt word_unat_eq_iff)

lemma output_ring_index:
  "output_ring_ok p \<Longrightarrow> output_wrt_ptr p AND (output_fifo_size p - 1) = output_wrt_ptr p"
proof -
  assume "output_ring_ok p"
  then obtain n where n: "n \<le> 31" "output_fifo_size p = 2 ^ n" and lt: "output_wrt_ptr p < output_fifo_size p"
    by (auto simp: output_ring_ok_def)
  then have "unat (output_wrt_ptr p) < 2 ^ n" by (simp add: word_less_nat_alt unat_exp)
  then show ?thesis
    by (simp add: n word_unat_eq_iff unat_and_exp_minus_1)
qed

text \<open>C9. The manager's output side delivers every result there is room for, in order: each
  thread's FIFO gets exactly the first undelivered results of that thread, in ring order, up to
  the number of its free entries, whatever skip flags an earlier call left behind; the others stay
  pending for the next call, and no result is delivered twice, out of order or to another thread.
  The device's read index advances, and the device is told, exactly when every unread result has been
  delivered.\<close>

theorem nlm_manage_output_in_order:
  assumes "output_ring_ok p" and "result_fifos_ok p" and "rds_ok p (unread_slots p)" and "device \<noteq> NULL"
  shows "\<exists>q. nlm_manage_output device NLM_MANAGER_THREAD_ID p = Some (NLM_OK, q) \<and>
    (\<forall>t < unat (max_threads p).
       let new = pending_rds t (output_fifo p) (unread_slots p); room = fifo_room (sw_result_fifo p ! t) in
       result_fifo_items (sw_result_fifo q ! t) = result_fifo_items (sw_result_fifo p ! t) @ take room new \<and>
       pending_rds t (output_fifo q) (unread_slots p) = drop room new) \<and>
    output_rd_ptr q = (if all_delivered (unread_slots p) q then output_wrt_ptr p else output_rd_ptr p) \<and>
    trace (phy_hw q) = trace (phy_hw p) @
      (if all_delivered (unread_slots p) q \<and> output_rd_ptr p \<noteq> output_wrt_ptr p
       then [Wr (RDF_RD_PTR (fms_ring_id p)) (output_wrt_ptr p)] else [])"
proof (cases "output_rd_ptr p = output_wrt_ptr p")
  case True
  with assms show ?thesis
    by (intro exI [of _ p]) (auto simp: nlm_manage_output_def output_ring_ok_def unread_slots_def all_delivered_def)
next
  case False
  let ?n = "unat (max_threads p)"
  define fs where "fs = map (\<lambda>f. f\<lparr>rf_skip := 0\<rparr>) (take ?n (sw_result_fifo p)) @ drop ?n (sw_result_fifo p)"
  let ?p = "p\<lparr>sw_result_fifo := fs\<rparr>"
  have len: "length (sw_result_fifo p) = ?n" using assms(2) by (simp add: result_fifos_ok_def)
  then have fs: "fs = map (\<lambda>f. f\<lparr>rf_skip := 0\<rparr>) (sw_result_fifo p)" by (simp add: fs_def)
  have it: "result_fifo_items (fs ! t) = result_fifo_items (sw_result_fifo p ! t)"
      "scan_room (fs ! t) = fifo_room (sw_result_fifo p ! t)" if "t < ?n" for t
    using that len by (simp_all add: fs result_fifo_items_def result_fifo_cap_def scan_room_def fifo_room_def)
  have ok: "result_fifos_ok ?p"
    using assms(2) by (auto simp: fs result_fifos_ok_def result_fifo_ok_def)
  have W: "unread_slots p = output_window p" "output_window ?p = output_window p"
    using False by (simp_all add: unread_slots_def output_window_def)
  have rok: "rds_ok ?p (output_window p)" using assms(3) by (simp add: W rds_ok_def)
  from consume_rds_correct [OF ok rok distinct_output_window [OF False], of False] obtain q nu where
    q: "consume_rds (output_window p) ?p False = Some (nu, q)" and fr: "scan_frame (output_window p) ?p q"
    and th: "\<forall>t < ?n. scan_thread t (output_window p) ?p q" and nu: "nu \<longleftrightarrow> \<not> all_delivered (output_window p) q"
    by auto
  from fr obtain gs ring where qe: "q = p\<lparr>sw_result_fifo := gs, output_fifo := ring\<rparr>"
    by (auto simp: scan_frame_def)
  let ?r = "if nu then q else phy_set_register (RDF_RD_PTR (fms_ring_id q)) (output_wrt_ptr p) (q\<lparr>output_rd_ptr := output_wrt_ptr p\<rparr>)"
  have "nlm_manage_output device NLM_MANAGER_THREAD_ID p = Some (NLM_OK, ?r)"
    using False assms(1,4) q output_ring_index [OF assms(1)] qe
    by (simp add: nlm_manage_output_def Let_def output_ring_ok_def W fs_def)
  moreover have "all_delivered (output_window p) ?r = all_delivered (output_window p) q"
    by (simp add: all_delivered_def phy_set_register_def)
  moreover have "\<forall>t < ?n. let new = pending_rds t (output_fifo p) (output_window p); room = fifo_room (sw_result_fifo p ! t) in
       result_fifo_items (sw_result_fifo ?r ! t) = result_fifo_items (sw_result_fifo p ! t) @ take room new \<and>
       pending_rds t (output_fifo ?r) (output_window p) = drop room new"
    using th it by (auto simp: scan_thread_def phy_set_register_def Let_def)
  ultimately show ?thesis
    using nu False by (intro exI [of _ ?r]) (auto simp: W qe phy_set_register_def SET_HW_REGISTER_def)
qed

text \<open>Two results for thread 0 that straddle the end of the ring, and room for one of them.\<close>

definition output_example :: nlm_phy_device where
  "output_example = phy0\<lparr>output_rd_ptr := 3, output_wrt_ptr := 1,
     output_fifo := [rd_zero\<lparr>rd_cookie := 2, rd_u4 := 0x80000000\<rparr>, rd_zero, rd_zero, rd_zero\<lparr>rd_cookie := 1, rd_u4 := 0x80000000\<rparr>],
     sw_result_fifo := [\<lparr>rf_size = 1, rf_skip = 1, rf_in = 7, rf_out = 7, rf_buf = [rd_zero]\<rparr>]\<rparr>"

lemma output_example_ok:
  "output_ring_ok output_example" "result_fifos_ok output_example" "rds_ok output_example (unread_slots output_example)"
proof -
  show "output_ring_ok output_example"
    by (auto simp: output_example_def phy0_def output_ring_ok_def intro!: exI [of _ 2])
  show "result_fifos_ok output_example"
    by (auto simp: output_example_def phy0_def result_fifos_ok_def result_fifo_ok_def counter_ok_def intro!: exI [of _ 0])
  show "rds_ok output_example (unread_slots output_example)"
    by (simp add: output_example_def phy0_def rds_ok_def unread_slots_def output_window_def rd_thread_def
        NLM_GET_THREAD_ID_def NLM_THREAD_ID_MASK_def upt_rec)
qed

theorem nlm_manage_output_in_order_witness:
  "\<exists>q. nlm_manage_output 1 NLM_MANAGER_THREAD_ID output_example = Some (NLM_OK, q) \<and>
     map rd_cookie (result_fifo_items (sw_result_fifo q ! 0)) = [1] \<and>
     map rd_cookie (pending_rds 0 (output_fifo q) (unread_slots output_example)) = [2]"
proof -
  have one: "(1 :: addr) \<noteq> NULL" by simp
  have mt: "unat (max_threads output_example) = 1" by (simp add: output_example_def phy0_def)
  have new: "map rd_cookie (pending_rds 0 (output_fifo output_example) (unread_slots output_example)) = [1, 2]"
    and room: "fifo_room (sw_result_fifo output_example ! 0) = 1" "result_fifo_items (sw_result_fifo output_example ! 0) = []"
    by (simp_all add: output_example_def phy0_def unread_slots_def output_window_def NLM_GET_THREAD_ID_def NLM_THREAD_ID_MASK_def
        RD_WAS_PROCESSED_def fifo_room_def result_fifo_cap_def result_fifo_items_def counter_items_def ring_list_def rd_thread_def
        rd_zero_def upt_rec)
  obtain q where q: "nlm_manage_output 1 NLM_MANAGER_THREAD_ID output_example = Some (NLM_OK, q)"
    and t: "\<forall>t < unat (max_threads output_example).
       let new = pending_rds t (output_fifo output_example) (unread_slots output_example);
           room = fifo_room (sw_result_fifo output_example ! t) in
       result_fifo_items (sw_result_fifo q ! t) = result_fifo_items (sw_result_fifo output_example ! t) @ take room new \<and>
       pending_rds t (output_fifo q) (unread_slots output_example) = drop room new"
    using nlm_manage_output_in_order [OF output_example_ok one] by blast
  from t have "result_fifo_items (sw_result_fifo q ! 0) = take 1 (pending_rds 0 (output_fifo output_example) (unread_slots output_example))"
    "pending_rds 0 (output_fifo q) (unread_slots output_example) =
       drop 1 (pending_rds 0 (output_fifo output_example) (unread_slots output_example))"
    unfolding mt room Let_def by (simp_all add: room)
  then have "map rd_cookie (result_fifo_items (sw_result_fifo q ! 0)) = take 1 [1, 2]"
    "map rd_cookie (pending_rds 0 (output_fifo q) (unread_slots output_example)) = drop 1 [1, 2]"
    unfolding new [symmetric] by (simp_all add: take_map drop_map)
  with q show ?thesis by auto
qed

end
