(* ===== verification/Enqueue.thy ===== *)
theory Enqueue
  imports Flow Hw_Ring
begin

unbundle bit_operations_syntax

text \<open>
  Enqueueing and cancelling searches: store_phys_addr_into_fd, store_phys_addr_into_pd,
  nlm_flow_enqueue_search and nlm_cancel_job of lib/dataplane/fms_packet_api.c. The physical
  address of a packet is split between a descriptor and one of the 16 packet base registers;
  it is shown that the device can put it together again.
\<close>

section \<open>Packet bases\<close>

definition base_of :: "u64 \<Rightarrow> u64" where
  "base_of phys_addr = phys_addr AND push_bit PQ_ADDR_LOW_BITS (NOT 0)"

datatype base_slot = Base_used nat | Base_free nat | Base_none

text \<open>The loop over the packet bases stops at the first base that matches or is free.\<close>

fun find_packet_base :: "u64 list \<Rightarrow> u64 \<Rightarrow> nat \<Rightarrow> base_slot" where
  "find_packet_base [] b i = Base_none"
| "find_packet_base (x # xs) b i =
     (if x = b then Base_used i
      else if x = FREE_PACKET_BASE then Base_free i
      else find_packet_base xs b (Suc i))"

text \<open>The part that \<^verbatim>\<open>store_phys_addr_into_fd\<close> and \<^verbatim>\<open>store_phys_addr_into_pd\<close> share: the value
  for the \<^verbatim>\<open>packet_base\<close> field, or \<^verbatim>\<open>NLM_OUT_OF_PACKET_MEMORY\<close>.\<close>

definition choose_packet_base :: "u64 \<Rightarrow> nlm_phy_device \<Rightarrow> (4 word) option \<times> nlm_phy_device" where
  "choose_packet_base phys_addr p =
     (let b = base_of phys_addr; high = push_bit (PQ_ADDR_LOW_BITS + 4) (NOT 0) in
      if virt_to_phys p = None then
        if packet_base_phys p AND high \<noteq> b AND high then (None, p)
        else (Some (ucast (drop_bit PQ_ADDR_LOW_BITS b AND 0xf)), p)
      else
        case find_packet_base (take HW_PACKET_BASES (packet_base p)) b 0 of
          Base_used i \<Rightarrow> (Some (word_of_nat i), p)
        | Base_none \<Rightarrow> (None, p)
        | Base_free i \<Rightarrow>
            let p1 = p\<lparr>packet_base := (packet_base p)[i := b]\<rparr>;
                p2 = phy_set_register (PQ_BASE_LOW_0 (fms_ring_id p) + word_of_nat i * 8) (ucast b) p1;
                p3 = phy_set_register (PQ_BASE_HI_0 (fms_ring_id p) + word_of_nat i * 8) (ucast (drop_bit 32 b)) p2
            in (Some (word_of_nat i), p3))"

definition low_addr :: "u64 \<Rightarrow> u32" where
  "low_addr phys_addr = ucast (phys_addr AND (push_bit PQ_ADDR_LOW_BITS 1 - 1))"

definition store_phys_addr_into_fd ::
  "u64 \<Rightarrow> hw_fd_descriptor \<Rightarrow> nlm_phy_device \<Rightarrow> nlm_status \<times> hw_fd_descriptor \<times> nlm_phy_device" where
  "store_phys_addr_into_fd phys_addr fd p =
     (let fd1 = fd\<lparr>fd_packet_addr := low_addr phys_addr\<rparr> in
      case choose_packet_base phys_addr p of
        (None, p') \<Rightarrow> (NLM_OUT_OF_PACKET_MEMORY, fd1, p')
      | (Some b, p') \<Rightarrow> (NLM_OK, fd1\<lparr>fd_packet_base := b\<rparr>, p'))"

definition store_phys_addr_into_pd ::
  "u64 \<Rightarrow> hw_pd_descriptor \<Rightarrow> nlm_phy_device \<Rightarrow> nlm_status \<times> hw_pd_descriptor \<times> nlm_phy_device" where
  "store_phys_addr_into_pd phys_addr pd p =
     (let pd1 = pd\<lparr>pd_packet_addr := low_addr phys_addr\<rparr> in
      case choose_packet_base phys_addr p of
        (None, p') \<Rightarrow> (NLM_OUT_OF_PACKET_MEMORY, pd1, p')
      | (Some b, p') \<Rightarrow> (NLM_OK, pd1\<lparr>pd_packet_base := b\<rparr>, p'))"

section \<open>Enqueueing\<close>

text \<open>The index of a job counts down from the job base.\<close>

definition job_index :: "addr \<Rightarrow> dp \<Rightarrow> u32" where
  "job_index job s = word_of_int ((job_base (dev s) - job) div sizeof_job)"

definition job_at :: "u32 \<Rightarrow> dp \<Rightarrow> addr" where
  "job_at cookie s = job_base (dev s) - uint (NLM_GET_JOB_INDEX cookie) * sizeof_job"

definition fill_job :: "addr \<Rightarrow> addr \<Rightarrow> addr \<Rightarrow> dp \<Rightarrow> nlm_job \<Rightarrow> nlm_job" where
  "fill_job flow cookie job s j =
     (let f = flows s flow; g = (\<lambda>i. ucast (fl_db_group_id f ! i)) in
      j\<lparr>jb_flow := flow, jb_user_cookie := cookie, jb_db_group_combination := fl_db_group_combination f,
        jb_fd := (jb_fd j)\<lparr>fd_cookie := NLM_ENCODE_COOKIE (thread_id (dev s)) (job_index job s),
          fd_gid0 := g 0, fd_gid1 := g 1, fd_gid2 := g 2, fd_gid3 := g 3, fd_gid4 := g 4, fd_gid5 := g 5,
          fd_gid_cnt := ucast (fl_db_group_cnt f)\<rparr>\<rparr>)"

text \<open>The byte count is an unsigned 64-bit difference of pointers.\<close>

definition packet_bytes :: "addr \<Rightarrow> addr \<Rightarrow> int" where
  "packet_bytes start end = (end - start) mod 2 ^ 64"

definition packet_phys :: "addr \<Rightarrow> nlm_phy_device \<Rightarrow> u64" where
  "packet_phys start p =
     (case virt_to_phys p of
        Some f \<Rightarrow> f start
      | None \<Rightarrow> packet_base_phys p + word_of_int (start - packet_base_virt p))"

text \<open>The second component of the result is what \<^verbatim>\<open>*p_job\<close> is set to, if it is.\<close>

definition nlm_flow_enqueue_search_1 ::
  "addr \<Rightarrow> addr \<Rightarrow> addr \<Rightarrow> addr \<Rightarrow> dp \<Rightarrow> nlm_status \<times> addr option \<times> dp" where
  "nlm_flow_enqueue_search_1 flow start end cookie s =
     (case memory_pool_alloc_job s of (job, s1) \<Rightarrow>
      if job = NULL then (NLM_OUT_OF_MEMORY, None, s1)
      else
        let s2 = upd_job job (fill_job flow cookie job s1) s1;
            zero_len = (start = NULL \<and> end = NULL);
            n = (if zero_len then 0 else packet_bytes start end)
        in
        if \<not> zero_len \<and> (NLM_MAX_PACKET_SIZE \<le> n \<or> n = 0) then (NLM_INVALID_PACKET_SIZE, None, s2)
        else
          let phys_addr = (if zero_len then packet_base_phys (phy s2) else packet_phys start (phy s2)) in
          if fl_type (flows s2 flow) = NLM_FLOW_TYPE_STATELESS then
            let s3 = upd_job job (\<lambda>j. j\<lparr>jb_pd := NULL\<rparr>) s2 in
            case store_phys_addr_into_fd phys_addr (jb_fd (jobs s3 job)) (phy s3) of (st, fd, p) \<Rightarrow>
            let s4 = upd_job job (\<lambda>j. j\<lparr>jb_fd := fd\<rparr>) (upd_phy (\<lambda>_. p) s3) in
            if st \<noteq> NLM_OK then (NLM_OUT_OF_PACKET_MEMORY, None, s4)
            else (NLM_OK, Some job,
              upd_job job (\<lambda>j. j\<lparr>jb_fd := (jb_fd j)\<lparr>fd_flow_type := FMS_FLOW_STATELESS, fd_end_anchor := 1,
                fd_start_anchor := 1, fd_pdf_index := 0, fd_sw_disconnect := 0, fd_packet_prd := 1, fd_flow_term := 0,
                fd_packet_byte_count := word_of_int n, fd_nla := \<lparr>rsv_cookie = 0, pd_nla_index = 0\<rparr>\<rparr>\<rparr>) s4)
          else
            case sysmem_alloc_pd s2 of (pd, s3) \<Rightarrow>
            if pd = NULL then (NLM_OUT_OF_DEVICE_MEMORY, None, memory_pool_free_job job s3)
            else
              case store_phys_addr_into_pd phys_addr (pds s3 pd) (phy s3) of (st, d, p) \<Rightarrow>
              let s4 = upd_pd pd (\<lambda>_. d) (upd_phy (\<lambda>_. p) s3) in
              if st \<noteq> NLM_OK then (NLM_OUT_OF_PACKET_MEMORY, None, sysmem_free_pd pd s4)
              else
                let s5 = upd_pd pd (\<lambda>d. d\<lparr>pd_cookie := fd_cookie (jb_fd (jobs s4 job)), pd_packet_byte_count := word_of_int n,
                      pd_rsv01 := PD_CREATED_BUT_NOT_STARTED, pd_packet_prd := 1, pd_flow_term := 0,
                      pd_sw_disconnect := 0, pd_nla := \<lparr>rsv_cookie = 0, pd_nla_index = 0\<rparr>\<rparr>) s4
                in (NLM_OK, Some job, upd_job job (\<lambda>j. j\<lparr>jb_pd := pd\<rparr>) s5))"

definition nlm_flow_enqueue_search ::
  "addr \<Rightarrow> addr \<Rightarrow> addr \<Rightarrow> addr \<Rightarrow> addr \<Rightarrow> addr \<Rightarrow> dp \<Rightarrow> nlm_status \<times> addr option \<times> dp" where
  "nlm_flow_enqueue_search device flow start end cookie p_job s =
     (if device = NULL \<or> flow = NULL \<or> p_job = NULL then (NLM_INVALID_ARGUMENT, None, s)
      else if (start = NULL \<or> end = NULL) \<and>
        \<not> (start = NULL \<and> end = NULL \<and> packet_enqueue_policy (phy s) AND 1 \<noteq> 0)
      then (NLM_INVALID_ARGUMENT, Some NULL, s)
      else if fl_type (flows s flow) \<noteq> NLM_FLOW_TYPE_STATEFUL \<and> fl_type (flows s flow) \<noteq> NLM_FLOW_TYPE_STATELESS
      then (NLM_INVALID_FLOW, Some NULL, s)
      else if fl_db_group_cnt (flows s flow) = 0 then (NLM_INCORRECT_ACCESS, Some NULL, s)
      else
        let s1 = (if packet_enqueue_policy (phy s) AND 2 \<noteq> 0
                  then upd_flow flow (\<lambda>f. f\<lparr>fl_db_group_combination := fl_db_group_combination f + 1\<rparr>) s else s)
        in case nlm_flow_enqueue_search_1 flow start end cookie s1 of
             (st, None, s2) \<Rightarrow> (st, Some NULL, s2)
           | (st, Some job, s2) \<Rightarrow> (st, Some job, s2))"

text \<open>\<^term>\<open>None\<close> is the failed assertion on the cookie of the packet descriptor.\<close>

definition nlm_cancel_job :: "addr \<Rightarrow> addr \<Rightarrow> dp \<Rightarrow> (nlm_status \<times> dp) option" where
  "nlm_cancel_job device job s =
     (if device = NULL \<or> job = NULL then Some (NLM_INVALID_ARGUMENT, s)
      else
        let pd = jb_pd (jobs s job) in
        if pd = NULL \<or> pd_rsv01 (pds s pd) \<noteq> PD_CREATED_BUT_NOT_STARTED then Some (NLM_INVALID_JOB, s)
        else
          let flow = jb_flow (jobs s job) in
          if flow = NULL then Some (NLM_INVALID_FLOW, s)
          else if fl_type (flows s flow) = NLM_FLOW_TYPE_STATEFUL \<or> fl_type (flows s flow) = NLM_FLOW_TYPE_STATELESS
          then assert_then (pd_cookie (pds s pd) \<noteq> 0)
            (Some (NLM_OK, memory_pool_free_job job (sysmem_free_pd pd s)))
          else Some (NLM_INVALID_FLOW, s))"

section \<open>Packet addresses\<close>

text \<open>The address the device forms from a descriptor: the packet base register the descriptor
  names, completed with the low bits. Without a translation callback the registers are set at
  initialisation to the sixteen bases around \<^verbatim>\<open>packet_base_phys\<close>.\<close>

definition device_addr :: "nlm_phy_device \<Rightarrow> 4 word \<Rightarrow> u32 \<Rightarrow> u64" where
  "device_addr p b lo =
     (if virt_to_phys p = None
      then (packet_base_phys p AND push_bit (PQ_ADDR_LOW_BITS + 4) (NOT 0)) OR push_bit PQ_ADDR_LOW_BITS (ucast b)
      else packet_base p ! unat b) OR ucast lo"

lemma base_and_low: "base_of a OR ucast (low_addr a) = a"
proof -
  have m: "push_bit 32 1 - 1 = (mask 32 :: u64)" by (simp add: mask_eq_exp_minus_1)
  show ?thesis
    unfolding base_of_def low_addr_def PQ_ADDR_LOW_BITS_def m
    by (rule bit_word_eqI) (auto simp: bit_simps)
qed

lemma find_packet_base_spec:
  "find_packet_base xs b i = Base_used j \<Longrightarrow> i \<le> j \<and> j < i + length xs \<and> xs ! (j - i) = b"
  "find_packet_base xs b i = Base_free j \<Longrightarrow> i \<le> j \<and> j < i + length xs \<and> xs ! (j - i) = FREE_PACKET_BASE"
proof (induction xs arbitrary: i)
  case (Cons x xs)
  { case 1
    show ?case
    proof (cases "x = b")
      case False
      with 1 have "find_packet_base xs b (Suc i) = Base_used j" by (auto split: if_splits)
      from Cons.IH(1) [OF this] show ?thesis by (auto simp: nth_Cons')
    qed (use 1 in simp)
  next
    case 2
    show ?case
    proof (cases "x = FREE_PACKET_BASE \<and> x \<noteq> b")
      case False
      with 2 have "find_packet_base xs b (Suc i) = Base_free j" by (auto split: if_splits)
      from Cons.IH(2) [OF this] show ?thesis by (auto simp: nth_Cons')
    qed (use 2 in auto) }
qed simp_all

lemma choose_packet_base_frame:
  "\<exists>bs h. snd (choose_packet_base a p) = p\<lparr>packet_base := bs, phy_hw := h\<rparr>"
proof -
  have same: "\<exists>bs h. p = p\<lparr>packet_base := bs, phy_hw := h\<rparr>"
    by (intro exI [of _ "packet_base p"] exI [of _ "phy_hw p"]) simp
  then show ?thesis
    by (auto simp: choose_packet_base_def Let_def phy_set_register_def split: base_slot.split)
qed

lemma choose_packet_base_addr:
  assumes "length (packet_base p) = 16" and "choose_packet_base a p = (Some b, q)"
  shows "device_addr q b (low_addr a) = a"
    and "\<forall>i < 16. packet_base p ! i \<noteq> FREE_PACKET_BASE \<longrightarrow> packet_base q ! i = packet_base p ! i"
proof -
  have wi: "unat (word_of_nat i :: 4 word) = i" if "i < 16" for i
    using that by (simp add: unsigned_of_nat take_bit_nat_eq_self)
  have "device_addr q b (low_addr a) = a \<and>
    (\<forall>i < 16. packet_base p ! i \<noteq> FREE_PACKET_BASE \<longrightarrow> packet_base q ! i = packet_base p ! i)"
  proof (cases "virt_to_phys p")
    case None
    let ?high = "push_bit 36 (NOT 0) :: u64"
    have c: "packet_base_phys p AND ?high = base_of a AND ?high" "q = p"
      "b = ucast (drop_bit 32 (base_of a) AND 0xf)"
      using assms(2) None by (auto simp: choose_packet_base_def Let_def PQ_ADDR_LOW_BITS_def split: if_splits)
    have m: "(0xf :: u64) = mask 4" by (simp add: mask_eq_exp_minus_1)
    have "(base_of a AND ?high) OR push_bit 32 (ucast (ucast (drop_bit 32 (base_of a) AND mask 4 :: u64) :: 4 word)) = base_of a"
      unfolding base_of_def PQ_ADDR_LOW_BITS_def by (rule bit_word_eqI) (auto simp: bit_simps)
    then have "device_addr q b (low_addr a) = base_of a OR ucast (low_addr a)"
      using None c by (simp add: device_addr_def PQ_ADDR_LOW_BITS_def m)
    with c base_and_low show ?thesis by simp
  next
    case (Some f)
    show ?thesis
    proof (cases "find_packet_base (take HW_PACKET_BASES (packet_base p)) (base_of a) 0")
      case (Base_used i)
      with find_packet_base_spec(1) [OF this] assms Some wi [of i] base_and_low [of a] show ?thesis
        by (auto simp: choose_packet_base_def Let_def device_addr_def HW_PACKET_BASES_def)
    next
      case (Base_free i)
      have "i < 16" "packet_base p ! i = FREE_PACKET_BASE"
        using find_packet_base_spec(2) [OF Base_free] assms(1) by (simp_all add: HW_PACKET_BASES_def)
      with Base_free assms Some wi [of i] base_and_low [of a] show ?thesis
        by (auto simp: choose_packet_base_def Let_def device_addr_def phy_set_register_def nth_list_update)
    next
      case Base_none
      with assms(2) Some show ?thesis by (simp add: choose_packet_base_def Let_def)
    qed
  qed
  then show "device_addr q b (low_addr a) = a"
    and "\<forall>i < 16. packet_base p ! i \<noteq> FREE_PACKET_BASE \<longrightarrow> packet_base q ! i = packet_base p ! i" by auto
qed

text \<open>The packet address survives the split between descriptor and base register: when
  storing an address into a flow descriptor succeeds, the device puts exactly that address
  together again from the two fields and its base registers; and no base register that earlier
  descriptors rely on is changed.\<close>

theorem store_phys_addr_into_fd_correct:
  assumes "length (packet_base p) = 16" and "store_phys_addr_into_fd a fd p = (NLM_OK, fd', q)"
  shows "device_addr q (fd_packet_base fd') (fd_packet_addr fd') = a \<and>
    (\<forall>i < 16. packet_base p ! i \<noteq> FREE_PACKET_BASE \<longrightarrow> packet_base q ! i = packet_base p ! i)"
  using assms choose_packet_base_addr [OF assms(1), of a]
  by (auto simp: store_phys_addr_into_fd_def Let_def split: prod.splits option.splits)

theorem store_phys_addr_into_fd_correct_witness:
  "\<exists>fd' q. store_phys_addr_into_fd 0x73456789a fd_zero (phy0\<lparr>packet_base_phys := 0x200000000\<rparr>) = (NLM_OK, fd', q) \<and>
     fd_packet_addr fd' = 0x3456789a \<and> fd_packet_base fd' = 7 \<and>
     device_addr q (fd_packet_base fd') (fd_packet_addr fd') = 0x73456789a"
proof -
  let ?p = "phy0\<lparr>packet_base_phys := 0x200000000\<rparr>"
  obtain st fd' q where r: "store_phys_addr_into_fd 0x73456789a fd_zero ?p = (st, fd', q)"
    by (cases "store_phys_addr_into_fd 0x73456789a fd_zero ?p") auto
  have "base_of 0x73456789a = 0x700000000" and "low_addr 0x73456789a = 0x3456789a"
    and "(0x200000000 :: u64) AND push_bit 36 (NOT 0) = 0x700000000 AND push_bit 36 (NOT 0)"
    by (simp_all add: base_of_def low_addr_def PQ_ADDR_LOW_BITS_def mask_eq_exp_minus_1)
  moreover have "virt_to_phys ?p = None" "packet_base_phys ?p = 0x200000000" by (simp_all add: phy0_def)
  ultimately have "st = NLM_OK \<and> fd_packet_addr fd' = 0x3456789a \<and> fd_packet_base fd' = 7"
    using r by (auto simp: store_phys_addr_into_fd_def choose_packet_base_def PQ_ADDR_LOW_BITS_def Let_def)
  with r show ?thesis
    using store_phys_addr_into_fd_correct [of ?p "0x73456789a" fd_zero fd' q] by (simp add: phy0_def)
qed

section \<open>What the allocators leave alone\<close>

definition job_dev :: "nlm_device \<Rightarrow> addr \<times> addr \<times> addr \<times> addr \<times> addr" where
  "job_dev d = (memory_pool d, first_free_flow d, first_free_job d, job_base d, job_list_head d)"

definition pd_dev :: "dp \<Rightarrow> addr \<times> addr \<times> addr \<times> addr" where
  "pd_dev s = (pd_base (phy s), first_free_pd (dev s), first_free_pdf (dev s), pd_list_head (dev s))"

lemma job_pool_frame:
  assumes "job_pool_ok s U" and "job_dev (dev s') = job_dev (dev s)" and "\<And>a. a \<notin> U \<Longrightarrow> jobs s' a = jobs s a"
  shows "job_pool_ok s' U"
proof -
  obtain free where f: "chain (\<lambda>a. job_link (jobs s a)) (job_list_head (dev s)) free" "distinct free"
    "U \<inter> set free = {}" "U \<union> set free \<subseteq> job_slots s" and g: "pool_geometry s"
    using assms(1) by (auto simp: job_pool_ok_def)
  have "jobs s' a = jobs s a" if "a \<in> set free" for a
    using f(3) assms(3) [of a] that by blast
  then have "chain (\<lambda>a. job_link (jobs s' a)) (job_list_head (dev s)) free = chain (\<lambda>a. job_link (jobs s a)) (job_list_head (dev s)) free"
    by (intro chain_cong) simp
  moreover have "job_slots s' = job_slots s" "pool_geometry s'" "job_list_head (dev s') = job_list_head (dev s)"
    using assms(2) g by (simp_all add: job_dev_def job_slots_def pool_geometry_def)
  ultimately show ?thesis using f by (auto simp: job_pool_ok_def)
qed

lemma pd_pool_frame:
  assumes "pd_pool_ok s V" and "pd_dev s' = pd_dev s" and "\<And>a. a \<notin> V \<Longrightarrow> pds s' a = pds s a"
  shows "pd_pool_ok s' V"
proof -
  obtain free where f: "chain (\<lambda>a. pd_link (pds s a)) (pd_list_head (dev s)) free" "distinct free"
    "V \<inter> set free = {}" "V \<union> set free \<subseteq> pd_slots s"
    using assms(1) by (auto simp: pd_pool_ok_def)
  have "pds s' a = pds s a" if "a \<in> set free" for a
    using f(3) assms(3) [of a] that by blast
  then have "chain (\<lambda>a. pd_link (pds s' a)) (pd_list_head (dev s)) free = chain (\<lambda>a. pd_link (pds s a)) (pd_list_head (dev s)) free"
    by (intro chain_cong) simp
  moreover have "pd_slots s' = pd_slots s"
    using assms(2) by (simp add: pd_dev_def pd_slots_def)
  ultimately show ?thesis using f assms(1,2) by (auto simp: pd_pool_ok_def pd_dev_def)
qed

lemma job_pool_mono: "job_pool_ok s U \<Longrightarrow> W \<subseteq> U \<Longrightarrow> job_pool_ok s W"
  by (auto simp: job_pool_ok_def)

lemma pd_pool_mono: "pd_pool_ok s U \<Longrightarrow> W \<subseteq> U \<Longrightarrow> pd_pool_ok s W"
  by (auto simp: pd_pool_ok_def)

lemma alloc_job_effect:
  assumes "memory_pool_alloc_job s = (a, s')"
  shows "phy s' = phy s" "flows s' = flows s" "jobs s' = jobs s" "pds s' = pds s" "pdfs s' = pdfs s"
    "pd_dev s' = pd_dev s" "job_base (dev s') = job_base (dev s)" "thread_id (dev s') = thread_id (dev s)"
    "sw_fifos (dev s') = sw_fifos (dev s)"
  using assms by (auto simp: memory_pool_alloc_job_def pd_dev_def Let_def split: if_splits)

lemma alloc_pd_effect:
  assumes "sysmem_alloc_pd s = (a, s')"
  shows "phy s' = phy s" "flows s' = flows s" "jobs s' = jobs s" "pds s' = pds s" "pdfs s' = pdfs s"
    "job_dev (dev s') = job_dev (dev s)" "job_base (dev s') = job_base (dev s)" "thread_id (dev s') = thread_id (dev s)"
    "sw_fifos (dev s') = sw_fifos (dev s)"
  using assms by (auto simp: sysmem_alloc_pd_def job_dev_def Let_def split: if_splits)

lemma job_dev_same [simp]:
  "job_dev (dev (upd_job a g s)) = job_dev (dev s)" "job_dev (dev (upd_phy e s)) = job_dev (dev s)"
  "job_dev (dev (upd_pd a h s)) = job_dev (dev s)" "job_dev (dev (upd_flow a k s)) = job_dev (dev s)"
  "job_dev (dev (sysmem_free_pd a s)) = job_dev (dev s)"
  by (simp_all add: sysmem_free_pd_def job_dev_def)

lemma pd_dev_same [simp]:
  "pd_dev (upd_job a g s) = pd_dev s" "pd_dev (upd_pd a h s) = pd_dev s" "pd_dev (upd_flow a k s) = pd_dev s"
  "pd_dev (memory_pool_free_job a s) = pd_dev s" "pd_base (e (phy s)) = pd_base (phy s) \<Longrightarrow> pd_dev (upd_phy e s) = pd_dev s"
  by (simp_all add: pd_dev_def memory_pool_free_job_def)

lemma free_job_same [simp]:
  "pds (memory_pool_free_job a s) = pds s" "flows (memory_pool_free_job a s) = flows s" "phy (memory_pool_free_job a s) = phy s"
  by (simp_all add: memory_pool_free_job_def)

lemma free_pd_same [simp]:
  "jobs (sysmem_free_pd a s) = jobs s" "flows (sysmem_free_pd a s) = flows s" "phy (sysmem_free_pd a s) = phy s"
  by (simp_all add: sysmem_free_pd_def Let_def)

lemma free_lists_other [simp]:
  "free_pds (memory_pool_free_job a s) ps = free_pds s ps" "free_jobs (sysmem_free_pd a s) fs = free_jobs s fs"
  by (rule free_pds_cong free_jobs_cong; simp add: memory_pool_free_job_def sysmem_free_pd_def Let_def)+

section \<open>Jobs and their cookies\<close>

text \<open>A job that carries a search: it belongs to the flow, carries the user's cookie and the
  flow's groups, and its descriptor cookie leads back to the thread and to the job.\<close>

definition carries :: "addr \<Rightarrow> addr \<Rightarrow> addr \<Rightarrow> dp \<Rightarrow> bool" where
  "carries flow cookie job s \<longleftrightarrow>
     (let j = jobs s job; f = flows s flow; c = fd_cookie (jb_fd j) in
      jb_flow j = flow \<and> jb_user_cookie j = cookie \<and> jb_db_group_combination j = fl_db_group_combination f \<and>
      job_at c s = job \<and> NLM_GET_THREAD_ID c = thread_id (dev s) \<and>
      map (\<lambda>g. g (jb_fd j)) [fd_gid0, fd_gid1, fd_gid2, fd_gid3, fd_gid4, fd_gid5] =
        map (\<lambda>i. ucast (fl_db_group_id f ! i)) [0..<6] \<and>
      fd_gid_cnt (jb_fd j) = ucast (fl_db_group_cnt f))"

text \<open>What the job cookie can express: 24 bits of index and 8 bits of thread.\<close>

definition cookie_room :: "dp \<Rightarrow> bool" where
  "cookie_room s \<longleftrightarrow> thread_id (dev s) < 256 \<and> job_base (dev s) - memory_pool (dev s) \<le> 2 ^ 24 * sizeof_job"

lemma job_at_encode:
  assumes "job_pool_ok s U" and "job \<in> U" and "cookie_room s"
  shows "job_at (NLM_ENCODE_COOKIE t (job_index job s)) s = job" and "NLM_ENCODE_COOKIE t (job_index job s) \<noteq> 0"
proof -
  have g: "pool_geometry s" and sl: "job \<in> job_slots s"
    using assms(1,2) by (auto simp: job_pool_ok_def)
  let ?d = "job_base (dev s) - job"
  have dv: "sizeof_job dvd ?d" and pos: "sizeof_job \<le> ?d" and lt: "?d < 2 ^ 24 * sizeof_job"
    using g sl assms(3) by (auto simp: job_slots_def pool_geometry_def cookie_room_def sizeof_defs)
  let ?i = "?d div sizeof_job"
  have i: "0 < ?i" "?i < 2 ^ 24" "?i * sizeof_job = ?d"
    using dv pos lt by (auto simp: sizeof_defs)
  then have "uint (take_bit 24 (job_index job s)) = ?i"
    by (simp add: job_index_def unsigned_take_bit_eq unsigned_of_int take_bit_int_eq_self)
  with i show "job_at (NLM_ENCODE_COOKIE t (job_index job s)) s = job"
    by (simp add: job_at_def NLM_GET_JOB_INDEX_ENCODE)
  from \<open>uint (take_bit 24 (job_index job s)) = ?i\<close> i(1) show "NLM_ENCODE_COOKIE t (job_index job s) \<noteq> 0"
    using NLM_GET_JOB_INDEX_ENCODE [of t "job_index job s"] by (auto simp: NLM_GET_JOB_INDEX_def)
qed

lemma carries_filled:
  assumes "job_pool_ok s U" and "job \<in> U" and "cookie_room s"
    and "jb_flow (jobs s' job) = flow" "jb_user_cookie (jobs s' job) = cookie"
      "jb_db_group_combination (jobs s' job) = fl_db_group_combination (flows s flow)"
      "\<forall>g \<in> {fd_gid0, fd_gid1, fd_gid2, fd_gid3, fd_gid4, fd_gid5}. g (jb_fd (jobs s' job)) = g (jb_fd (fill_job flow cookie job s j))"
      "fd_gid_cnt (jb_fd (jobs s' job)) = fd_gid_cnt (jb_fd (fill_job flow cookie job s j))"
      "fd_cookie (jb_fd (jobs s' job)) = fd_cookie (jb_fd (fill_job flow cookie job s j))"
    and "flows s' flow = flows s flow" "job_base (dev s') = job_base (dev s)" "thread_id (dev s') = thread_id (dev s)"
  shows "carries flow cookie job s'"
proof -
  have "take_bit 8 (thread_id (dev s)) = thread_id (dev s)"
    using assms(3) by (simp add: cookie_room_def take_bit_eq_self_unat word_less_nat_alt)
  moreover have "job_at c s' = job_at c s" for c
    using assms(11) by (simp add: job_at_def)
  moreover have "[0..<6] = [0, 1, 2, 3, 4, 5]" by (simp add: upt_rec)
  ultimately show ?thesis
    using job_at_encode [OF assms(1-3)] assms(4-)
    by (simp add: carries_def Let_def fill_job_def NLM_GET_THREAD_ID_ENCODE)
qed

section \<open>Enqueueing into a stateless flow\<close>

text \<open>The number of bytes and the physical address a search is about.\<close>

definition search_bytes :: "addr \<Rightarrow> addr \<Rightarrow> int" where
  "search_bytes start end = (if start = NULL \<and> end = NULL then 0 else packet_bytes start end)"

definition search_phys :: "addr \<Rightarrow> addr \<Rightarrow> nlm_phy_device \<Rightarrow> u64" where
  "search_phys start end p = (if start = NULL \<and> end = NULL then packet_base_phys p else packet_phys start p)"

lemma choose_packet_base_pd_base [simp]: "choose_packet_base a p = (r, q) \<Longrightarrow> pd_base q = pd_base p"
  using choose_packet_base_frame [of a p] by auto

lemma search_bytes_16:
  assumes "\<not> (\<not> (start = NULL \<and> end = NULL) \<and> (NLM_MAX_PACKET_SIZE \<le> packet_bytes start end \<or> packet_bytes start end = 0))"
  shows "uint (word_of_int (search_bytes start end) :: u16) = search_bytes start end"
proof -
  have "0 \<le> search_bytes start end" "search_bytes start end < 2 ^ 16"
    using assms by (auto simp: search_bytes_def packet_bytes_def NLM_MAX_PACKET_SIZE_def)
  then show ?thesis by (simp add: unsigned_of_int take_bit_int_eq_self)
qed

lemma enqueue_1_stateless:
  assumes ok: "job_pool_ok s U" "pd_pool_ok s V" "cookie_room s" "length (packet_base (phy s)) = 16"
    and t: "fl_type (flows s flow) = NLM_FLOW_TYPE_STATELESS"
    and r: "nlm_flow_enqueue_search_1 flow start end cookie s = (NLM_OK, r, s')"
  shows "\<exists>job. r = Some job \<and> job \<noteq> NULL \<and> job \<notin> U \<and> job_pool_ok s' (insert job U) \<and> pd_pool_ok s' V \<and>
    carries flow cookie job s' \<and> jb_pd (jobs s' job) = NULL \<and>
    uint (fd_packet_byte_count (jb_fd (jobs s' job))) = search_bytes start end \<and>
    device_addr (phy s') (fd_packet_base (jb_fd (jobs s' job))) (fd_packet_addr (jb_fd (jobs s' job))) =
      search_phys start end (phy s) \<and> flows s' = flows s"
proof -
  obtain job s1 where al: "memory_pool_alloc_job s = (job, s1)" by (cases "memory_pool_alloc_job s")
  note e = alloc_job_effect [OF al]
  have nn: "job \<noteq> NULL" using r al by (auto simp: nlm_flow_enqueue_search_1_def)
  have size: "\<not> (\<not> (start = NULL \<and> end = NULL) \<and> (NLM_MAX_PACKET_SIZE \<le> packet_bytes start end \<or> packet_bytes start end = 0))"
    using r al nn by (auto simp: nlm_flow_enqueue_search_1_def Let_def split: if_splits)
  obtain b q where cb: "choose_packet_base (search_phys start end (phy s)) (phy s) = (b, q)"
    by (cases "choose_packet_base (search_phys start end (phy s)) (phy s)")
  obtain b' where b: "b = Some b'"
    using r al nn size t e cb
    by (cases b) (auto simp: nlm_flow_enqueue_search_1_def Let_def store_phys_addr_into_fd_def search_phys_def split: if_splits)
  have j: "job \<notin> U" "job_pool_ok s1 (insert job U)"
    using job_pool.alloc_fresh [OF ok(1) al nn] by auto
  let ?a = "search_phys start end (phy s)"
  let ?j = "(fill_job flow cookie job s1 (jobs s job))\<lparr>jb_pd := NULL\<rparr>"
  let ?fd = "(jb_fd ?j)\<lparr>fd_packet_addr := low_addr ?a, fd_packet_base := b', fd_flow_type := FMS_FLOW_STATELESS, fd_end_anchor := 1,
     fd_start_anchor := 1, fd_pdf_index := 0, fd_sw_disconnect := 0, fd_packet_prd := 1, fd_flow_term := 0,
     fd_packet_byte_count := word_of_int (search_bytes start end), fd_nla := \<lparr>rsv_cookie = 0, pd_nla_index = 0\<rparr>\<rparr>"
  have s': "r = Some job" "phy s' = q" "flows s' = flows s" "dev s' = dev s1" "pds s' = pds s"
    "jobs s' = (jobs s)(job := ?j\<lparr>jb_fd := ?fd\<rparr>)"
    using r al nn size t e cb b
    by (auto simp: nlm_flow_enqueue_search_1_def Let_def store_phys_addr_into_fd_def search_phys_def search_bytes_def split: if_splits)
  have "job_pool_ok s' (insert job U)"
    using s' e by (intro job_pool_frame [OF j(2)]) auto
  moreover have "pd_pool_ok s' V"
    using s' e cb by (intro pd_pool_frame [OF ok(2)]) (auto simp: pd_dev_def)
  moreover have "cookie_room s1"
    using ok(3) al by (auto simp: cookie_room_def memory_pool_alloc_job_def Let_def split: if_splits)
  then have "carries flow cookie job s'"
    using s' e by (intro carries_filled [OF j(2), where j = "jobs s job"]) (simp_all add: fill_job_def Let_def)
  moreover have "device_addr q b' (low_addr ?a) = ?a"
    using choose_packet_base_addr(1) [OF ok(4)] cb b by simp
  ultimately show ?thesis
    using s' nn j(1) search_bytes_16 [OF size] by auto
qed

section \<open>Enqueueing into a stateful flow\<close>

lemma enqueue_1_stateful:
  assumes ok: "job_pool_ok s U" "pd_pool_ok s V" "cookie_room s" "length (packet_base (phy s)) = 16"
    and t: "fl_type (flows s flow) = NLM_FLOW_TYPE_STATEFUL"
    and r: "nlm_flow_enqueue_search_1 flow start end cookie s = (NLM_OK, r, s')"
  shows "\<exists>job pd. r = Some job \<and> job \<noteq> NULL \<and> job \<notin> U \<and> job_pool_ok s' (insert job U) \<and>
    jb_pd (jobs s' job) = pd \<and> pd \<noteq> NULL \<and> pd \<notin> V \<and> pd_pool_ok s' (insert pd V) \<and>
    carries flow cookie job s' \<and> pd_cookie (pds s' pd) = fd_cookie (jb_fd (jobs s' job)) \<and> pd_cookie (pds s' pd) \<noteq> 0 \<and>
    uint (pd_packet_byte_count (pds s' pd)) = search_bytes start end \<and>
    device_addr (phy s') (pd_packet_base (pds s' pd)) (pd_packet_addr (pds s' pd)) = search_phys start end (phy s) \<and>
    pd_rsv01 (pds s' pd) = PD_CREATED_BUT_NOT_STARTED \<and> flows s' = flows s"
proof -
  have ns: "fl_type (flows s flow) \<noteq> NLM_FLOW_TYPE_STATELESS" using t by (simp add: flow_type_defs)
  obtain job s1 where al: "memory_pool_alloc_job s = (job, s1)" by (cases "memory_pool_alloc_job s")
  note e = alloc_job_effect [OF al]
  have nn: "job \<noteq> NULL" using r al by (auto simp: nlm_flow_enqueue_search_1_def)
  have size: "\<not> (\<not> (start = NULL \<and> end = NULL) \<and> (NLM_MAX_PACKET_SIZE \<le> packet_bytes start end \<or> packet_bytes start end = 0))"
    using r al nn by (auto simp: nlm_flow_enqueue_search_1_def Let_def split: if_splits)
  let ?s2 = "upd_job job (fill_job flow cookie job s1) s1"
  obtain pd s3 where alp: "sysmem_alloc_pd ?s2 = (pd, s3)" by (cases "sysmem_alloc_pd ?s2")
  note e2 = alloc_pd_effect [OF alp]
  have pn: "pd \<noteq> NULL"
    using r al nn size ns e alp by (auto simp: nlm_flow_enqueue_search_1_def Let_def split: if_splits)
  obtain b q where cb: "choose_packet_base (search_phys start end (phy s)) (phy s) = (b, q)"
    by (cases "choose_packet_base (search_phys start end (phy s)) (phy s)")
  obtain b' where b: "b = Some b'"
    using r al nn size ns e alp e2 pn cb
    by (cases b) (auto simp: nlm_flow_enqueue_search_1_def Let_def store_phys_addr_into_pd_def search_phys_def split: if_splits)
  have j: "job \<notin> U" "job_pool_ok s1 (insert job U)"
    using job_pool.alloc_fresh [OF ok(1) al nn] by auto
  have "pd_pool_ok ?s2 V" using e by (intro pd_pool_frame [OF ok(2)]) auto
  from pd_pool.alloc_fresh [OF this alp pn] have k: "pd \<notin> V" "pd_pool_ok s3 (insert pd V)" by auto
  let ?a = "search_phys start end (phy s)"
  let ?j = "(fill_job flow cookie job s1 (jobs s job))\<lparr>jb_pd := pd\<rparr>"
  let ?d = "(pds s pd)\<lparr>pd_packet_addr := low_addr ?a, pd_packet_base := b', pd_cookie := fd_cookie (jb_fd ?j),
     pd_packet_byte_count := word_of_int (search_bytes start end), pd_rsv01 := PD_CREATED_BUT_NOT_STARTED, pd_packet_prd := 1,
     pd_flow_term := 0, pd_sw_disconnect := 0, pd_nla := \<lparr>rsv_cookie = 0, pd_nla_index = 0\<rparr>\<rparr>"
  have s': "r = Some job" "phy s' = q" "flows s' = flows s" "dev s' = dev s3" "pds s' = (pds s)(pd := ?d)"
    "jobs s' = (jobs s)(job := ?j)"
    using r al nn size ns e alp e2 pn cb b
    by (auto simp: nlm_flow_enqueue_search_1_def Let_def store_phys_addr_into_pd_def search_phys_def search_bytes_def split: if_splits)
  have "job_pool_ok s' (insert job U)"
    using s' e e2 by (intro job_pool_frame [OF j(2)]) (auto simp: job_dev_def)
  moreover have "pd_pool_ok s' (insert pd V)"
    using s' e e2 cb by (intro pd_pool_frame [OF k(2)]) (auto simp: pd_dev_def)
  moreover have cr: "cookie_room s1"
    using ok(3) al by (auto simp: cookie_room_def memory_pool_alloc_job_def Let_def split: if_splits)
  then have "carries flow cookie job s'"
    using s' e e2 by (intro carries_filled [OF j(2), where j = "jobs s job"]) (simp_all add: fill_job_def Let_def)
  moreover have "device_addr q b' (low_addr ?a) = ?a"
    using choose_packet_base_addr(1) [OF ok(4)] cb b by simp
  moreover have "fd_cookie (jb_fd ?j) \<noteq> 0"
    using job_at_encode(2) [OF j(2) _ cr] by (simp add: fill_job_def Let_def)
  ultimately show ?thesis
    using s' nn j(1) pn k(1) search_bytes_16 [OF size] by auto
qed

section \<open>Failures\<close>

lemma enqueue_1_failed:
  assumes ok: "job_pool_ok s U" "pd_pool_ok s V"
    and r: "nlm_flow_enqueue_search_1 flow start end cookie s = (st, r, s')" and st: "st \<noteq> NLM_OK"
  shows "r = None \<and> job_pool_ok s' U \<and> pd_pool_ok s' V"
proof -
  obtain job s1 where al: "memory_pool_alloc_job s = (job, s1)" by (cases "memory_pool_alloc_job s")
  note e = alloc_job_effect [OF al]
  show ?thesis
  proof (cases "job = NULL")
    case True
    with r al job_pool.alloc_NULL [OF ok(1), of s1] pd_pool_frame [OF ok(2), of s1] e show ?thesis
      by (auto simp: nlm_flow_enqueue_search_1_def)
  next
    case nn: False
    have j: "job_pool_ok s1 (insert job U)" "job \<notin> U"
      using job_pool.alloc_fresh [OF ok(1) al nn] by auto
    have jp: "job_pool_ok x U" if "job_dev (dev x) = job_dev (dev s1)" "\<And>a. a \<noteq> job \<Longrightarrow> jobs x a = jobs s a" for x
      using job_pool_frame [OF j(1), of x] job_pool_mono [of x "insert job U" U] that e by auto
    let ?s2 = "upd_job job (fill_job flow cookie job s1) s1"
    obtain pd s3 where alp: "sysmem_alloc_pd ?s2 = (pd, s3)" by (cases "sysmem_alloc_pd ?s2")
    note e2 = alloc_pd_effect [OF alp]
    have p2: "pd_pool_ok ?s2 V" using e by (intro pd_pool_frame [OF ok(2)]) auto
    consider (size) "s' = ?s2" "r = None"
      | (stateless) b q fd where "choose_packet_base (search_phys start end (phy s)) (phy s) = (b, q)" "r = None"
          "s' = upd_job job (\<lambda>j. j\<lparr>jb_fd := fd\<rparr>) (upd_phy (\<lambda>_. q) (upd_job job (\<lambda>j. j\<lparr>jb_pd := NULL\<rparr>) ?s2))"
      | (no_pd) "pd = NULL" "s' = memory_pool_free_job job s3" "r = None"
      | (no_base) b q d where "pd \<noteq> NULL" "choose_packet_base (search_phys start end (phy s)) (phy s) = (b, q)" "r = None"
          "s' = sysmem_free_pd pd (upd_pd pd (\<lambda>_. d) (upd_phy (\<lambda>_. q) s3))"
    proof -
      obtain b q where cb: "choose_packet_base (search_phys start end (phy s)) (phy s) = (b, q)"
        by (cases "choose_packet_base (search_phys start end (phy s)) (phy s)")
      show thesis
        using r al nn st e alp e2 cb stateless [OF cb] no_base [OF _ cb] no_pd size
        by (cases b) (auto simp: nlm_flow_enqueue_search_1_def Let_def store_phys_addr_into_fd_def store_phys_addr_into_pd_def
            search_phys_def split: if_splits)
    qed
    then show ?thesis
    proof cases
      case size
      then show ?thesis using jp [of s'] p2 e by auto
    next
      case (stateless b q fd)
      then have "pd_pool_ok s' V" using e by (intro pd_pool_frame [OF ok(2)]) (auto simp: pd_dev_def)
      with stateless jp [of s'] e show ?thesis by auto
    next
      case no_pd
      have "pd_pool_ok s3 V" using pd_pool.alloc_NULL [OF p2] alp no_pd by simp
      then have "pd_pool_ok s' V"
        unfolding no_pd(2) by (rule pd_pool_frame) simp_all
      moreover have "job_pool_ok s3 (insert job U)"
        using e e2 by (intro job_pool_frame [OF j(1)]) auto
      from job_pool.free_ok [OF this, of job] j(2) no_pd have "job_pool_ok s' U" by simp
      ultimately show ?thesis using no_pd by simp
    next
      case (no_base b q d)
      have k: "pd_pool_ok s3 (insert pd V)" "pd \<notin> V" using pd_pool.alloc_fresh [OF p2 alp no_base(1)] by auto
      have "pd_pool_ok (upd_pd pd (\<lambda>_. d) (upd_phy (\<lambda>_. q) s3)) (insert pd V)"
        using no_base(2) e e2 by (intro pd_pool_frame [OF k(1)]) (auto simp: pd_dev_def)
      from pd_pool.free_ok [OF this, of pd] k(2) no_base have "pd_pool_ok s' V" by simp
      with no_base jp [of s'] e e2 show ?thesis by auto
    qed
  qed
qed

text \<open>The public function checks its arguments and counts the groups up, then does the above.\<close>

lemma enqueue_search_cases:
  assumes "nlm_flow_enqueue_search device flow start end cookie p_job s = (st, r, s')"
  obtains (early) "st \<in> {NLM_INVALID_ARGUMENT, NLM_INVALID_FLOW, NLM_INCORRECT_ACCESS}" "r = None \<or> r = Some NULL" "s' = s"
  | (late) s1 r1 where "s1 = s \<or> (\<exists>g. s1 = upd_flow flow g s \<and> fl_type (g (flows s flow)) = fl_type (flows s flow))"
      "nlm_flow_enqueue_search_1 flow start end cookie s1 = (st, r1, s')"
      "r = (case r1 of None \<Rightarrow> Some NULL | Some job \<Rightarrow> Some job)" "device \<noteq> NULL" "flow \<noteq> NULL"
proof (cases "device = NULL \<or> flow = NULL \<or> p_job = NULL \<or> (start = NULL \<or> end = NULL) \<and>
    \<not> (start = NULL \<and> end = NULL \<and> packet_enqueue_policy (phy s) AND 1 \<noteq> 0) \<or>
    (fl_type (flows s flow) \<noteq> NLM_FLOW_TYPE_STATEFUL \<and> fl_type (flows s flow) \<noteq> NLM_FLOW_TYPE_STATELESS) \<or>
    fl_db_group_cnt (flows s flow) = 0")
  case True
  with assms show thesis
    by (intro early) (auto simp: nlm_flow_enqueue_search_def split: if_splits)
next
  case False
  let ?s1 = "if packet_enqueue_policy (phy s) AND 2 \<noteq> 0
    then upd_flow flow (\<lambda>f. f\<lparr>fl_db_group_combination := fl_db_group_combination f + 1\<rparr>) s else s"
  obtain st1 r1 s2 where e: "nlm_flow_enqueue_search_1 flow start end cookie ?s1 = (st1, r1, s2)"
    by (rule prod_cases3)
  have *: "nlm_flow_enqueue_search device flow start end cookie p_job s =
      (case nlm_flow_enqueue_search_1 flow start end cookie ?s1 of
         (st, None, s2) \<Rightarrow> (st, Some NULL, s2) | (st, Some job, s2) \<Rightarrow> (st, Some job, s2))"
    using False unfolding nlm_flow_enqueue_search_def Let_def by (simp only: if_False not_False_eq_True de_Morgan_disj simp_thms)
  show thesis
  proof (rule late [of ?s1 r1])
    show "?s1 = s \<or> (\<exists>g. ?s1 = upd_flow flow g s \<and> fl_type (g (flows s flow)) = fl_type (flows s flow))"
      by auto
    show "nlm_flow_enqueue_search_1 flow start end cookie ?s1 = (st, r1, s')"
      and "r = (case r1 of None \<Rightarrow> Some NULL | Some job \<Rightarrow> Some job)"
      using assms unfolding * e by (auto split: option.splits)
  qed (use False in auto)
qed

lemma pools_upd_flow [simp]:
  "job_pool_ok (upd_flow a g s) U = job_pool_ok s U" "pd_pool_ok (upd_flow a g s) V = pd_pool_ok s V"
  "cookie_room (upd_flow a g s) = cookie_room s"
  by (simp_all add: job_pool_ok_def pd_pool_ok_def cookie_room_def job_slots_def pd_slots_def)

lemma enqueue_search_stateful:
  assumes "job_pool_ok s U" "pd_pool_ok s V" "cookie_room s" "length (packet_base (phy s)) = 16"
    and t: "fl_type (flows s flow) = NLM_FLOW_TYPE_STATEFUL"
    and r: "nlm_flow_enqueue_search device flow start end cookie p_job s = (NLM_OK, r, s')"
  obtains job pd where "r = Some job" "job \<noteq> NULL" "job \<notin> U" "job_pool_ok s' (insert job U)"
    "jb_pd (jobs s' job) = pd" "pd \<noteq> NULL" "pd \<notin> V" "pd_pool_ok s' (insert pd V)" "carries flow cookie job s'"
    "pd_cookie (pds s' pd) = fd_cookie (jb_fd (jobs s' job))" "pd_cookie (pds s' pd) \<noteq> 0"
    "uint (pd_packet_byte_count (pds s' pd)) = search_bytes start end"
    "device_addr (phy s') (pd_packet_base (pds s' pd)) (pd_packet_addr (pds s' pd)) = search_phys start end (phy s)"
    "pd_rsv01 (pds s' pd) = PD_CREATED_BUT_NOT_STARTED" "device \<noteq> NULL" "flow \<noteq> NULL"
    "fl_type (flows s' flow) = NLM_FLOW_TYPE_STATEFUL"
  using r
proof (cases rule: enqueue_search_cases)
  case early
  then show thesis by simp
next
  case (late s1 r1)
  have k: "job_pool_ok s1 U" "pd_pool_ok s1 V" "cookie_room s1" "length (packet_base (phy s1)) = 16"
    "fl_type (flows s1 flow) = NLM_FLOW_TYPE_STATEFUL" and p: "phy s1 = phy s"
    using late(1) assms by auto
  from enqueue_1_stateful [OF k late(2)] late(3-) p k(5) that show thesis by auto
qed

lemma enqueue_search_failed:
  assumes "job_pool_ok s U" "pd_pool_ok s V" and "st \<noteq> NLM_OK"
    and r: "nlm_flow_enqueue_search device flow start end cookie p_job s = (st, r, s')"
  shows "(r = None \<or> r = Some NULL) \<and> job_pool_ok s' U \<and> pd_pool_ok s' V"
  using r
proof (cases rule: enqueue_search_cases)
  case early
  with assms show ?thesis by simp
next
  case (late s1 r1)
  have "job_pool_ok s1 U" "pd_pool_ok s1 V" using late(1) assms by auto
  from enqueue_1_failed [OF this late(2) assms(3)] late(3) show ?thesis by simp
qed

section \<open>When an enqueue succeeds, and what it leaves alone\<close>

text \<open>What a search needs: a free job or room for one, a packet size the device takes, a packet descriptor,
  and a packet base that is set already or can be set.\<close>

definition job_left :: "dp \<Rightarrow> bool" where
  "job_left s \<longleftrightarrow> job_list_head (dev s) \<noteq> NULL \<or> first_free_flow (dev s) + sizeof_job < first_free_job (dev s)"

definition packet_size_ok :: "addr \<Rightarrow> addr \<Rightarrow> bool" where
  "packet_size_ok start end \<longleftrightarrow> start = NULL \<and> end = NULL \<or> 0 < packet_bytes start end \<and> packet_bytes start end < NLM_MAX_PACKET_SIZE"

definition pd_left :: "dp \<Rightarrow> bool" where
  "pd_left s \<longleftrightarrow> pd_list_head (dev s) \<noteq> NULL \<or>
     first_free_pd (dev s) + sizeof_pd \<le> first_free_pdf (dev s) \<and>
     (first_free_pd (dev s) - pd_base (phy s)) div sizeof_pd < 2 ^ 24"

definition packet_base_left :: "u64 \<Rightarrow> nlm_phy_device \<Rightarrow> bool" where
  "packet_base_left a p \<longleftrightarrow>
     (if virt_to_phys p = None then drop_bit 36 (packet_base_phys p) = drop_bit 36 a
      else base_of a \<in> set (take HW_PACKET_BASES (packet_base p)) \<or>
        FREE_PACKET_BASE \<in> set (take HW_PACKET_BASES (packet_base p)))"

lemma find_packet_base_none: "find_packet_base xs b i = Base_none \<longleftrightarrow> b \<notin> set xs \<and> FREE_PACKET_BASE \<notin> set xs"
  by (induction xs arbitrary: i) auto

lemma high_bits: "x AND NOT (mask 36) = y AND NOT (mask 36) \<longleftrightarrow> drop_bit 36 x = drop_bit 36 y" for x y :: u64
proof -
  have up: "push_bit 36 (drop_bit 36 z) = z AND NOT (mask 36)" and down: "drop_bit 36 (z AND NOT (mask 36)) = drop_bit 36 z" for z :: u64
    by (rule bit_word_eqI; auto simp: bit_simps dest: bit_imp_le_length)+
  show ?thesis by (metis up down)
qed

lemma base_of_high: "drop_bit 36 (base_of a) = drop_bit 36 a"
  unfolding base_of_def PQ_ADDR_LOW_BITS_def by (rule bit_word_eqI) (auto simp: bit_simps dest: bit_imp_le_length)

lemma choose_packet_base_left: "fst (choose_packet_base a p) \<noteq> None \<longleftrightarrow> packet_base_left a p"
proof (cases "virt_to_phys p")
  case None
  then show ?thesis
    by (auto simp: choose_packet_base_def Let_def packet_base_left_def PQ_ADDR_LOW_BITS_def high_bits base_of_high)
next
  case (Some f)
  then show ?thesis
    using find_packet_base_none [of "take HW_PACKET_BASES (packet_base p)" "base_of a" 0]
    by (auto simp: choose_packet_base_def Let_def packet_base_left_def split: base_slot.splits)
qed

lemma alloc_job_left:
  assumes "job_pool_ok s U"
  shows "fst (memory_pool_alloc_job s) \<noteq> NULL \<longleftrightarrow> job_left s"
  using assms
  by (auto simp: memory_pool_alloc_job_def Let_def job_left_def job_pool_ok_def pool_geometry_def sizeof_defs)

lemma alloc_pd_left:
  assumes "pd_pool_ok s V"
  shows "fst (sysmem_alloc_pd s) \<noteq> NULL \<longleftrightarrow> pd_left s"
proof -
  have b: "0 < pd_base (phy s)" "pd_base (phy s) < first_free_pd (dev s)" using assms by (auto simp: pd_pool_ok_def)
  let ?i = "(first_free_pd (dev s) - pd_base (phy s)) div sizeof_pd"
  have "0 \<le> ?i" using b by (simp add: sizeof_defs pos_imp_zdiv_nonneg_iff)
  then have "?i div 2 ^ 24 = 0 \<longleftrightarrow> ?i < 2 ^ 24" by (auto simp: zdiv_eq_0_iff)
  with b show ?thesis
    by (auto simp: sysmem_alloc_pd_def Let_def pd_left_def)
qed

text \<open>Only the job and the packet descriptor that are allocated are written.\<close>

lemma enqueue_1_writes:
  assumes "memory_pool_alloc_job s = (job, s1)" and "sysmem_alloc_pd (upd_job job (fill_job flow cookie job s1) s1) = (pd, s3)"
    and "nlm_flow_enqueue_search_1 flow start end cookie s = (st, r, s')"
  shows "a \<noteq> job \<Longrightarrow> jobs s' a = jobs s a" and "a \<noteq> pd \<Longrightarrow> pds s' a = pds s a" and "flows s' = flows s"
proof -
  note e = alloc_job_effect [OF assms(1)] and e2 = alloc_pd_effect [OF assms(2)]
  have "(\<forall>a. a \<noteq> job \<longrightarrow> jobs s' a = jobs s a) \<and> (\<forall>a. a \<noteq> pd \<longrightarrow> pds s' a = pds s a) \<and> flows s' = flows s"
    using assms(3) e e2
    by (auto simp: nlm_flow_enqueue_search_1_def assms(1,2) Let_def memory_pool_free_job_def sysmem_free_pd_def
        split: if_splits prod.splits)
  then show "a \<noteq> job \<Longrightarrow> jobs s' a = jobs s a" "a \<noteq> pd \<Longrightarrow> pds s' a = pds s a" "flows s' = flows s" by auto
qed

lemma enqueue_1_frame:
  assumes ok: "job_pool_ok s U" "pd_pool_ok s V"
    and r: "nlm_flow_enqueue_search_1 flow start end cookie s = (st, r, s')"
  shows "\<forall>a \<in> U. jobs s' a = jobs s a" and "\<forall>a \<in> V. pds s' a = pds s a" and "flows s' = flows s"
proof -
  obtain job s1 where al: "memory_pool_alloc_job s = (job, s1)" by (cases "memory_pool_alloc_job s")
  let ?s2 = "upd_job job (fill_job flow cookie job s1) s1"
  obtain pd s3 where alp: "sysmem_alloc_pd ?s2 = (pd, s3)" by (cases "sysmem_alloc_pd ?s2")
  note e = alloc_job_effect [OF al]
  have N: "NULL \<notin> U" "NULL \<notin> V"
    using ok job_slots_addr [of s NULL] pd_slots_addr [OF ok(2), of NULL] by (auto simp: job_pool_ok_def pd_pool_ok_def)
  have "job \<notin> U" using job_pool.alloc_fresh [OF ok(1) al] N by blast
  moreover have p2: "pd_pool_ok ?s2 V" using e by (intro pd_pool_frame [OF ok(2)]) auto
  have "pd \<notin> V" using pd_pool.alloc_fresh [OF p2 alp] N by blast
  ultimately show "\<forall>a \<in> U. jobs s' a = jobs s a" "\<forall>a \<in> V. pds s' a = pds s a" "flows s' = flows s"
    using enqueue_1_writes [OF al alp r] by fast+
qed

text \<open>The status of a search of a stateful flow, condition by condition.\<close>

lemma enqueue_1_status:
  assumes ok: "job_pool_ok s U" "pd_pool_ok s V" and t: "fl_type (flows s flow) = NLM_FLOW_TYPE_STATEFUL"
  shows "fst (nlm_flow_enqueue_search_1 flow start end cookie s) =
    (if \<not> job_left s then NLM_OUT_OF_MEMORY
     else if \<not> packet_size_ok start end then NLM_INVALID_PACKET_SIZE
     else if \<not> pd_left s then NLM_OUT_OF_DEVICE_MEMORY
     else if \<not> packet_base_left (search_phys start end (phy s)) (phy s) then NLM_OUT_OF_PACKET_MEMORY else NLM_OK)"
proof -
  have ns: "fl_type (flows s flow) \<noteq> NLM_FLOW_TYPE_STATELESS" using t by (simp add: flow_type_defs)
  obtain job s1 where al: "memory_pool_alloc_job s = (job, s1)" by (cases "memory_pool_alloc_job s")
  note e = alloc_job_effect [OF al]
  let ?s2 = "upd_job job (fill_job flow cookie job s1) s1"
  obtain pd s3 where alp: "sysmem_alloc_pd ?s2 = (pd, s3)" by (cases "sysmem_alloc_pd ?s2")
  note e2 = alloc_pd_effect [OF alp]
  have j: "job \<noteq> NULL \<longleftrightarrow> job_left s" using alloc_job_left [OF ok(1)] al by simp
  have "pd_pool_ok ?s2 V" using e by (intro pd_pool_frame [OF ok(2)]) auto
  from alloc_pd_left [OF this] alp have "pd \<noteq> NULL \<longleftrightarrow> pd_left ?s2" by simp
  moreover have "pd_left ?s2 = pd_left s" using e(1,6) by (simp add: pd_left_def pd_dev_def)
  ultimately have p: "pd \<noteq> NULL \<longleftrightarrow> pd_left s" by simp
  have pos: "0 \<le> packet_bytes start end" by (simp add: packet_bytes_def)
  obtain b q where cb: "choose_packet_base (search_phys start end (phy s)) (phy s) = (b, q)"
    by (cases "choose_packet_base (search_phys start end (phy s)) (phy s)")
  have b: "b \<noteq> None \<longleftrightarrow> packet_base_left (search_phys start end (phy s)) (phy s)"
    using choose_packet_base_left [of "search_phys start end (phy s)" "phy s"] cb by simp
  have size: "(\<not> (start = NULL \<and> end = NULL) \<and> (NLM_MAX_PACKET_SIZE \<le> packet_bytes start end \<or> packet_bytes start end = 0)) \<longleftrightarrow>
      \<not> packet_size_ok start end"
    using pos by (auto simp: packet_size_ok_def)
  consider (job) "job = NULL" | (size) "job \<noteq> NULL" "\<not> packet_size_ok start end"
    | (pd) "job \<noteq> NULL" "packet_size_ok start end" "pd = NULL"
    | (rest) "job \<noteq> NULL" "packet_size_ok start end" "pd \<noteq> NULL" by blast
  then show ?thesis
  proof cases
    case job
    with j al show ?thesis by (simp add: nlm_flow_enqueue_search_1_def)
  next
    case wrong: size
    have "nlm_flow_enqueue_search_1 flow start end cookie s = (NLM_INVALID_PACKET_SIZE, None, ?s2)"
      unfolding nlm_flow_enqueue_search_1_def al Let_def prod.case if_not_P [OF wrong(1)] using wrong(2) size by auto
    with wrong j show ?thesis by simp
  next
    case pd
    have "nlm_flow_enqueue_search_1 flow start end cookie s = (NLM_OUT_OF_DEVICE_MEMORY, None, memory_pool_free_job job s3)"
      unfolding nlm_flow_enqueue_search_1_def al Let_def prod.case if_not_P [OF pd(1)]
      using pd(2,3) size ns e(2) alp by auto
    with pd j p show ?thesis by simp
  next
    case rest
    have "fst (nlm_flow_enqueue_search_1 flow start end cookie s) = (if b = None then NLM_OUT_OF_PACKET_MEMORY else NLM_OK)"
      unfolding nlm_flow_enqueue_search_1_def al Let_def prod.case if_not_P [OF rest(1)]
      using rest(2,3) size ns e(1,2) e2(1) alp cb
      by (cases b) (auto simp: store_phys_addr_into_pd_def search_phys_def)
    with rest j p b show ?thesis by (auto split: if_splits)
  qed
qed

text \<open>The free lists when it succeeds.\<close>

lemma enqueue_1_free:
  assumes ok: "job_pool_ok s U" "pd_pool_ok s V" and f: "free_jobs s fs" "free_pds s ps"
    and t: "fl_type (flows s flow) = NLM_FLOW_TYPE_STATEFUL"
    and r: "nlm_flow_enqueue_search_1 flow start end cookie s = (NLM_OK, r, s')"
  shows "free_jobs s' (tl fs)" and "free_pds s' (tl ps)"
proof -
  have ns: "fl_type (flows s flow) \<noteq> NLM_FLOW_TYPE_STATELESS" using t by (simp add: flow_type_defs)
  obtain job s1 where al: "memory_pool_alloc_job s = (job, s1)" by (cases "memory_pool_alloc_job s")
  note e = alloc_job_effect [OF al]
  let ?s2 = "upd_job job (fill_job flow cookie job s1) s1"
  obtain pd s3 where alp: "sysmem_alloc_pd ?s2 = (pd, s3)" by (cases "sysmem_alloc_pd ?s2")
  note e2 = alloc_pd_effect [OF alp] and w = enqueue_1_writes [OF al alp r]
  have nn: "job \<noteq> NULL" "pd \<noteq> NULL" and d: "dev s' = dev s3"
    using r al alp ns e e2 by (auto simp: nlm_flow_enqueue_search_1_def Let_def split: if_splits prod.splits)
  have j: "job_pool_ok s1 (insert job U)" "free_jobs s1 (tl fs)"
    using job_pool.alloc_fresh [OF ok(1) al nn(1)] alloc_job_pop(1) [OF f(1) al] by auto
  have "pd_pool_ok ?s2 V" using e by (intro pd_pool_frame [OF ok(2)]) auto
  moreover have "pd_list_head (dev ?s2) = pd_list_head (dev s)" using e(6) by (simp add: pd_dev_def)
  then have "free_pds ?s2 ps" using free_pds_cong [of ?s2 s ps] f(2) e(4) by simp
  ultimately have k: "pd_pool_ok s3 (insert pd V)" "free_pds s3 (tl ps)"
    using pd_pool.alloc_fresh [OF _ alp nn(2)] alloc_pd_pop(1) [OF _ alp] by blast+
  have h: "job_list_head (dev s3) = job_list_head (dev s1)" using e2(6) by (simp add: job_dev_def)
  show "free_jobs s' (tl fs)"
    using h d w(1) e(3) by (intro free_jobs_frame [OF j]) auto
  show "free_pds s' (tl ps)"
    using d w(2) e(4) e2(4) by (intro free_pds_frame [OF k]) auto
qed

section \<open>Properties\<close>

text \<open>Enqueueing a packet into a stateless flow with consistent pools: on success there is a
  new job, none of those in use, whose descriptor carries the groups of the flow, the length
  and the exact physical address of the packet, and a cookie that leads back to the thread and
  to the job; on failure no job is handed out and the objects in use are untouched.\<close>

theorem nlm_flow_enqueue_search_stateless:
  assumes "job_pool_ok s U" "pd_pool_ok s V" "cookie_room s" "length (packet_base (phy s)) = 16"
    and "fl_type (flows s flow) = NLM_FLOW_TYPE_STATELESS"
    and r: "nlm_flow_enqueue_search device flow start end cookie p_job s = (st, r, s')"
  shows "if st = NLM_OK then \<exists>job. r = Some job \<and> job \<noteq> NULL \<and> job \<notin> U \<and>
       job_pool_ok s' (insert job U) \<and> pd_pool_ok s' V \<and> carries flow cookie job s' \<and> jb_pd (jobs s' job) = NULL \<and>
       (let fd = jb_fd (jobs s' job) in uint (fd_packet_byte_count fd) = search_bytes start end \<and>
          device_addr (phy s') (fd_packet_base fd) (fd_packet_addr fd) = search_phys start end (phy s))
     else (r = None \<or> r = Some NULL) \<and> job_pool_ok s' U \<and> pd_pool_ok s' V"
  using r
proof (cases rule: enqueue_search_cases)
  case early
  with assms show ?thesis by auto
next
  case (late s1 r1)
  have k: "job_pool_ok s1 U" "pd_pool_ok s1 V" "cookie_room s1" "length (packet_base (phy s1)) = 16"
    "fl_type (flows s1 flow) = NLM_FLOW_TYPE_STATELESS" and p: "phy s1 = phy s"
    using late(1) assms by auto
  show ?thesis
  proof (cases "st = NLM_OK")
    case True
    with enqueue_1_stateless [OF k, of start "end" cookie r1 s'] late p show ?thesis by auto
  next
    case False
    with enqueue_1_failed [OF k(1,2) late(2)] late(3) show ?thesis by simp
  qed
qed

lemma needs_upd_flow [simp]:
  "job_left (upd_flow a g s) = job_left s" "pd_left (upd_flow a g s) = pd_left s"
  "free_jobs (upd_flow a g s) fs = free_jobs s fs" "free_pds (upd_flow a g s) ps = free_pds s ps"
  by (simp_all add: job_left_def pd_left_def free_jobs_def free_pds_def)

text \<open>The outcome for a stateful flow: the status, in the order in which the conditions are examined.\<close>

definition enqueue_status :: "addr \<Rightarrow> addr \<Rightarrow> addr \<Rightarrow> addr \<Rightarrow> addr \<Rightarrow> dp \<Rightarrow> nlm_status" where
  "enqueue_status device flow start end p_job s =
     (if device = NULL \<or> flow = NULL \<or> p_job = NULL then NLM_INVALID_ARGUMENT
      else if start = NULL \<and> end = NULL \<and> packet_enqueue_policy (phy s) AND 1 = 0 then NLM_INVALID_ARGUMENT
      else if (start = NULL) \<noteq> (end = NULL) then NLM_INVALID_ARGUMENT
      else if fl_db_group_cnt (flows s flow) = 0 then NLM_INCORRECT_ACCESS
      else if \<not> job_left s then NLM_OUT_OF_MEMORY
      else if \<not> packet_size_ok start end then NLM_INVALID_PACKET_SIZE
      else if \<not> pd_left s then NLM_OUT_OF_DEVICE_MEMORY
      else if \<not> packet_base_left (search_phys start end (phy s)) (phy s) then NLM_OUT_OF_PACKET_MEMORY
      else NLM_OK)"

lemma enqueue_search_frame:
  assumes ok: "job_pool_ok s U" "pd_pool_ok s V" and f: "free_jobs s fs" "free_pds s ps"
    and t: "fl_type (flows s flow) = NLM_FLOW_TYPE_STATEFUL"
    and r: "nlm_flow_enqueue_search device flow start end cookie p_job s = (st, r, s')"
  shows "st = enqueue_status device flow start end p_job s"
    and "\<forall>a \<in> U. jobs s' a = jobs s a" and "\<forall>a \<in> V. pds s' a = pds s a"
    and "\<exists>c. flows s' = (flows s)(flow := (flows s flow)\<lparr>fl_db_group_combination := c\<rparr>)"
    and "st = NLM_OK \<Longrightarrow> free_jobs s' (tl fs) \<and> free_pds s' (tl ps)"
proof -
  let ?early = "device = NULL \<or> flow = NULL \<or> p_job = NULL \<or> (start = NULL \<or> end = NULL) \<and>
    \<not> (start = NULL \<and> end = NULL \<and> packet_enqueue_policy (phy s) AND 1 \<noteq> 0) \<or> fl_db_group_cnt (flows s flow) = 0"
  let ?s1 = "if packet_enqueue_policy (phy s) AND 2 \<noteq> 0
    then upd_flow flow (\<lambda>f. f\<lparr>fl_db_group_combination := fl_db_group_combination f + 1\<rparr>) s else s"
  have id: "flows s = (flows s)(flow := (flows s flow)\<lparr>fl_db_group_combination := fl_db_group_combination (flows s flow)\<rparr>)" by simp
  have "st = enqueue_status device flow start end p_job s \<and> (\<forall>a \<in> U. jobs s' a = jobs s a) \<and> (\<forall>a \<in> V. pds s' a = pds s a) \<and>
    (\<exists>c. flows s' = (flows s)(flow := (flows s flow)\<lparr>fl_db_group_combination := c\<rparr>)) \<and>
    (st = NLM_OK \<longrightarrow> free_jobs s' (tl fs) \<and> free_pds s' (tl ps))"
  proof (cases ?early)
    case True
    then have "s' = s" "st = enqueue_status device flow start end p_job s" "st \<noteq> NLM_OK"
      using r t by (auto simp: nlm_flow_enqueue_search_def enqueue_status_def split: if_splits)
    with id show ?thesis by metis
  next
    case False
    have t1: "fl_type (flows ?s1 flow) = NLM_FLOW_TYPE_STATEFUL" and ok1: "job_pool_ok ?s1 U" "pd_pool_ok ?s1 V"
      and f1: "free_jobs ?s1 fs" "free_pds ?s1 ps" and p1: "phy ?s1 = phy s" "jobs ?s1 = jobs s" "pds ?s1 = pds s"
      "job_left ?s1 = job_left s" "pd_left ?s1 = pd_left s"
      using t ok f by auto
    obtain r1 where e: "nlm_flow_enqueue_search_1 flow start end cookie ?s1 = (st, r1, s')"
      using r False t unfolding nlm_flow_enqueue_search_def Let_def
      by (cases "nlm_flow_enqueue_search_1 flow start end cookie ?s1") (auto split: option.splits if_splits)
    have "st = enqueue_status device flow start end p_job s"
      using enqueue_1_status [OF ok1 t1, of start "end" cookie] False
      unfolding e p1 enqueue_status_def by auto
    moreover have "\<exists>c. flows s' = (flows s)(flow := (flows s flow)\<lparr>fl_db_group_combination := c\<rparr>)"
    proof (cases "packet_enqueue_policy (phy s) AND 2 \<noteq> 0")
      case True
      then have "flows s' = (flows s)(flow := (flows s flow)\<lparr>fl_db_group_combination := fl_db_group_combination (flows s flow) + 1\<rparr>)"
        unfolding enqueue_1_frame(3) [OF ok1 e] by simp
      then show ?thesis ..
    next
      case False
      then have "flows s' = flows s" unfolding enqueue_1_frame(3) [OF ok1 e] by simp
      with id show ?thesis by metis
    qed
    moreover have "st = NLM_OK \<longrightarrow> free_jobs s' (tl fs) \<and> free_pds s' (tl ps)"
      using enqueue_1_free [OF ok1 f1 t1] e by blast
    moreover have "\<forall>a \<in> U. jobs s' a = jobs s a" "\<forall>a \<in> V. pds s' a = pds s a"
      using enqueue_1_frame(1,2) [OF ok1 e] unfolding p1 by blast+
    ultimately show ?thesis by blast
  qed
  then show "st = enqueue_status device flow start end p_job s" "\<forall>a \<in> U. jobs s' a = jobs s a" "\<forall>a \<in> V. pds s' a = pds s a"
    "\<exists>c. flows s' = (flows s)(flow := (flows s flow)\<lparr>fl_db_group_combination := c\<rparr>)"
    "st = NLM_OK \<Longrightarrow> free_jobs s' (tl fs) \<and> free_pds s' (tl ps)" by blast+
qed

text \<open>C15. Enqueueing a packet into a stateful flow, with consistent pools: each failure status has
  exactly its cause, and the search is accepted exactly if the arguments are valid, the flow has
  a group, and a job, a packet descriptor and a packet base are left for a packet of a valid size. Then a
  new job and a new packet descriptor, the first of the free lists if these are not empty, carry the search:
  the groups of the flow, the length and the exact physical address of the packet, the job's cookie, which
  is not zero and leads back to the thread and the job, and the mark \<^verbatim>\<open>created but not started\<close>. In every
  case the jobs and descriptors in use and all flows are untouched, but for a counter of the flow.\<close>

theorem nlm_flow_enqueue_search_stateful:
  assumes "job_pool_ok s U" "pd_pool_ok s V" "cookie_room s" "length (packet_base (phy s)) = 16"
    and "fl_type (flows s flow) = NLM_FLOW_TYPE_STATEFUL" and "free_jobs s fs" "free_pds s ps"
  shows "\<exists>st r s'. nlm_flow_enqueue_search device flow start end cookie p_job s = (st, r, s') \<and>
    st = enqueue_status device flow start end p_job s \<and>
    (\<forall>a \<in> U. jobs s' a = jobs s a) \<and> (\<forall>a \<in> V. pds s' a = pds s a) \<and>
    (\<exists>c. flows s' = (flows s)(flow := (flows s flow)\<lparr>fl_db_group_combination := c\<rparr>)) \<and>
    (if st = NLM_OK then \<exists>job pd. r = Some job \<and> job \<noteq> NULL \<and> job \<notin> U \<and> job_pool_ok s' (insert job U) \<and>
       jb_pd (jobs s' job) = pd \<and> pd \<noteq> NULL \<and> pd \<notin> V \<and> pd_pool_ok s' (insert pd V) \<and>
       free_jobs s' (tl fs) \<and> free_pds s' (tl ps) \<and> carries flow cookie job s' \<and>
       (let d = pds s' pd in pd_cookie d = fd_cookie (jb_fd (jobs s' job)) \<and> pd_cookie d \<noteq> 0 \<and>
          uint (pd_packet_byte_count d) = search_bytes start end \<and>
          device_addr (phy s') (pd_packet_base d) (pd_packet_addr d) = search_phys start end (phy s) \<and>
          pd_rsv01 d = PD_CREATED_BUT_NOT_STARTED)
     else (r = None \<or> r = Some NULL) \<and> job_pool_ok s' U \<and> pd_pool_ok s' V)"
proof -
  obtain st r s' where r: "nlm_flow_enqueue_search device flow start end cookie p_job s = (st, r, s')"
    by (rule prod_cases3)
  note f = enqueue_search_frame [OF assms(1,2,6,7,5) r]
  have "if st = NLM_OK then \<exists>job pd. r = Some job \<and> job \<noteq> NULL \<and> job \<notin> U \<and> job_pool_ok s' (insert job U) \<and>
       jb_pd (jobs s' job) = pd \<and> pd \<noteq> NULL \<and> pd \<notin> V \<and> pd_pool_ok s' (insert pd V) \<and>
       free_jobs s' (tl fs) \<and> free_pds s' (tl ps) \<and> carries flow cookie job s' \<and>
       (let d = pds s' pd in pd_cookie d = fd_cookie (jb_fd (jobs s' job)) \<and> pd_cookie d \<noteq> 0 \<and>
          uint (pd_packet_byte_count d) = search_bytes start end \<and>
          device_addr (phy s') (pd_packet_base d) (pd_packet_addr d) = search_phys start end (phy s) \<and>
          pd_rsv01 d = PD_CREATED_BUT_NOT_STARTED)
     else (r = None \<or> r = Some NULL) \<and> job_pool_ok s' U \<and> pd_pool_ok s' V"
  proof (cases "st = NLM_OK")
    case True
    show ?thesis
      by (rule enqueue_search_stateful [OF assms(1-5) r [unfolded True]]) (use f(5) True in \<open>auto simp: Let_def\<close>)
  qed (use enqueue_search_failed [OF assms(1,2) _ r] in simp)
  note out = this
  show ?thesis
    by (rule exI [of _ st], rule exI [of _ r], rule exI [of _ s'], intro conjI) (fact r f out)+
qed

text \<open>A packet whose size is refused costs a job: the call reports
  \<^verbatim>\<open>NLM_INVALID_PACKET_SIZE\<close> and hands out no job, yet one more job is in use than before, and
  the caller has no way to give it back.\<close>

theorem nlm_flow_enqueue_search_leak:
  assumes "job_pool_ok s U"
    and r: "nlm_flow_enqueue_search device flow start end cookie p_job s = (NLM_INVALID_PACKET_SIZE, r, s')"
  shows "r = Some NULL \<and> (\<exists>a. a \<noteq> NULL \<and> a \<notin> U \<and> job_pool_ok s' (insert a U))"
  using r
proof (cases rule: enqueue_search_cases)
  case early
  then show ?thesis by simp
next
  case (late s1 r1)
  obtain job s2 where al: "memory_pool_alloc_job s1 = (job, s2)" by (cases "memory_pool_alloc_job s1")
  have ok: "job_pool_ok s1 U" using late(1) assms(1) by auto
  have nn: "job \<noteq> NULL" using late(2) al by (auto simp: nlm_flow_enqueue_search_1_def)
  have "\<not> (start = NULL \<and> end = NULL) \<and> (NLM_MAX_PACKET_SIZE \<le> packet_bytes start end \<or> packet_bytes start end = 0)"
  proof (rule ccontr)
    assume n: "\<not> ?thesis"
    have "fst (nlm_flow_enqueue_search_1 flow start end cookie s1) \<noteq> NLM_INVALID_PACKET_SIZE"
      using n nn al by (auto simp: nlm_flow_enqueue_search_1_def Let_def split: prod.splits)
    with late(2) show False by simp
  qed
  then have "nlm_flow_enqueue_search_1 flow start end cookie s1 =
      (NLM_INVALID_PACKET_SIZE, None, upd_job job (fill_job flow cookie job s2) s2)"
    using al nn by (auto simp: nlm_flow_enqueue_search_1_def Let_def)
  with late(2) have s': "r1 = None" "s' = upd_job job (fill_job flow cookie job s2) s2" by simp_all
  have j: "job \<notin> U" "job_pool_ok s2 (insert job U)" using job_pool.alloc_fresh [OF ok al nn] by auto
  then have "job_pool_ok s' (insert job U)"
    unfolding s'(2) by (intro job_pool_frame [OF j(2)]) simp_all
  with j nn late(3) s'(1) show ?thesis by auto
qed

definition dp_flow :: "u32 \<Rightarrow> dp" where
  "dp_flow t = upd_flow 0x1100 (\<lambda>f. f\<lparr>fl_type := t, fl_db_group_cnt := 1, fl_u0 := 8\<rparr>) dp0"

lemma dp_flow_ok:
  "job_pool_ok (dp_flow t) {}" "pd_pool_ok (dp_flow t) {}" "cookie_room (dp_flow t)" "length (packet_base (phy (dp_flow t))) = 16"
  "fl_type (flows (dp_flow t) 0x1100) = t"
  using job_pool_dp0 pd_pool_dp0
  by (simp_all add: dp_flow_def cookie_room_def dev0_def phy0_def sizeof_defs)

lemma search_phys_phy0: "search_phys 0x5010 0x5040 phy0 = 0x100000010"
  by (simp add: search_phys_def packet_phys_def phy0_def)

lemma choose_packet_base_phy0: "choose_packet_base 0x100000010 phy0 = (Some 1, phy0)"
proof -
  have "base_of 0x100000010 = 0x100000000"
    by (simp add: base_of_def PQ_ADDR_LOW_BITS_def mask_eq_exp_minus_1)
  moreover have "virt_to_phys phy0 = None" "packet_base_phys phy0 = 0x100000000" by (simp_all add: phy0_def)
  ultimately show ?thesis by (simp add: choose_packet_base_def PQ_ADDR_LOW_BITS_def Let_def)
qed

lemmas enqueue_defs = nlm_flow_enqueue_search_def nlm_flow_enqueue_search_1_def Let_def memory_pool_alloc_job_def sysmem_alloc_pd_def
  dev0_def sizeof_defs packet_bytes_def NLM_MAX_PACKET_SIZE_def packet_phys_def store_phys_addr_into_fd_def
  store_phys_addr_into_pd_def choose_packet_base_phy0

lemma phy0_enqueue [simp]:
  "virt_to_phys phy0 = None" "packet_base_phys phy0 = 0x100000000" "packet_base_virt phy0 = 0x5000" "packet_enqueue_policy phy0 = 0"
  "pd_base phy0 = 0x10000"
  by (simp_all add: phy0_def)

lemma enqueue_dp_flow:
  "fst (nlm_flow_enqueue_search 1 0x1100 0x5010 0x5040 77 1 (dp_flow NLM_FLOW_TYPE_STATELESS)) = NLM_OK"
  "fst (nlm_flow_enqueue_search 1 0x1100 0x5010 0x5040 77 1 (dp_flow NLM_FLOW_TYPE_STATEFUL)) = NLM_OK"
  "fst (nlm_flow_enqueue_search 1 0x1100 0x5010 0x5010 77 1 (dp_flow NLM_FLOW_TYPE_STATELESS)) = NLM_INVALID_PACKET_SIZE"
  by (simp_all add: enqueue_defs dp_flow_def flow_type_defs)

text \<open>C38. Cancelling a search that was enqueued into a stateful flow and not started succeeds and
  gives both the job and the packet descriptor back: they are the first entries of the free lists, which are
  otherwise what the enqueue left of them; no other job or descriptor is in use than before the search
  was enqueued, and those in use are untouched.\<close>

theorem nlm_cancel_job_stateful:
  assumes "job_pool_ok s U" "pd_pool_ok s V" "cookie_room s" "length (packet_base (phy s)) = 16"
    and "fl_type (flows s flow) = NLM_FLOW_TYPE_STATEFUL" and "free_jobs s fs" "free_pds s ps"
    and "nlm_flow_enqueue_search device flow start end cookie p_job s = (NLM_OK, Some job, s')"
  shows "\<exists>s''. nlm_cancel_job device job s' = Some (NLM_OK, s'') \<and> job_pool_ok s'' U \<and> pd_pool_ok s'' V \<and>
    free_jobs s'' (job # tl fs) \<and> free_pds s'' (jb_pd (jobs s' job) # tl ps) \<and>
    (\<forall>a \<in> U. jobs s'' a = jobs s a) \<and> (\<forall>a \<in> V. pds s'' a = pds s a) \<and> flows s'' = flows s'"
  using assms(1-5,8)
proof (rule enqueue_search_stateful)
  fix j pd
  assume "Some job = Some j" and j: "j \<noteq> NULL" "j \<notin> U" "job_pool_ok s' (insert j U)" "jb_pd (jobs s' j) = pd"
    and pd: "pd \<noteq> NULL" "pd \<notin> V" "pd_pool_ok s' (insert pd V)" "pd_cookie (pds s' pd) \<noteq> 0"
      "pd_rsv01 (pds s' pd) = PD_CREATED_BUT_NOT_STARTED" and c: "carries flow cookie j s'"
    and d: "device \<noteq> NULL" "flow \<noteq> NULL" "fl_type (flows s' flow) = NLM_FLOW_TYPE_STATEFUL"
  then have e: "job = j" by simp
  note f = enqueue_search_frame [OF assms(1,2,6,7,5,8)]
  let ?t = "sysmem_free_pd pd s'" and ?s = "memory_pool_free_job j (sysmem_free_pd pd s')"
  have "nlm_cancel_job device job s' = Some (NLM_OK, ?s)"
    using j pd c d e by (simp add: nlm_cancel_job_def Let_def carries_def)
  moreover have "pd_pool_ok ?t V"
    using pd_pool.free_ok [OF pd(3), of pd] pd(2) by simp
  then have "pd_pool_ok ?s V" by (rule pd_pool_frame) simp_all
  moreover have jt: "job_pool_ok ?t (insert j U)"
    using j(3) by (rule job_pool_frame) simp_all
  from job_pool.free_ok [OF this, of j] j(2) have "job_pool_ok ?s U" by simp
  moreover have "free_jobs ?t (tl fs)"
    using f(5) by (simp only: free_lists_other)
  then have "free_jobs ?s (j # tl fs)" by (intro free_job_push [OF jt]) simp_all
  moreover have "free_pds ?t (pd # tl ps)" by (rule free_pd_push [OF pd(3)]) (simp_all add: f(5))
  then have "free_pds ?s (pd # tl ps)" by (simp only: free_lists_other)
  moreover have "\<forall>a \<in> U. jobs ?s a = jobs s a" using f(2) j(2) by (auto simp: memory_pool_free_job_def)
  moreover have "\<forall>a \<in> V. pds ?s a = pds s a" using f(3) pd(2) by (auto simp: sysmem_free_pd_def Let_def)
  moreover have "flows ?s = flows s'" by simp
  ultimately show ?thesis unfolding e j(4) by (intro exI [of _ ?s]) blast
qed

text \<open>A search of a stateless flow cannot be cancelled, not even right after it was enqueued:
  such a job has no packet descriptor, which the function takes for a job already sent.\<close>

theorem nlm_cancel_job_stateless:
  assumes "job_pool_ok s U" "pd_pool_ok s V" "cookie_room s" "length (packet_base (phy s)) = 16"
    and "fl_type (flows s flow) = NLM_FLOW_TYPE_STATELESS" and "device \<noteq> NULL"
    and r: "nlm_flow_enqueue_search device flow start end cookie p_job s = (NLM_OK, Some job, s')"
  shows "nlm_cancel_job device job s' = Some (NLM_INVALID_JOB, s')"
  using r
proof (cases rule: enqueue_search_cases)
  case (late s1 r1)
  have k: "job_pool_ok s1 U" "pd_pool_ok s1 V" "cookie_room s1" "length (packet_base (phy s1)) = 16"
    "fl_type (flows s1 flow) = NLM_FLOW_TYPE_STATELESS"
    using late(1) assms by auto
  from enqueue_1_stateless [OF k late(2)] late(3) assms(6) show ?thesis
    by (auto simp: nlm_cancel_job_def)
qed simp

section \<open>Examples\<close>

theorem nlm_flow_enqueue_search_stateless_witness:
  "\<exists>job s'. nlm_flow_enqueue_search 1 0x1100 0x5010 0x5040 77 1 (dp_flow NLM_FLOW_TYPE_STATELESS) = (NLM_OK, Some job, s') \<and>
     carries 0x1100 77 job s' \<and> uint (fd_packet_byte_count (jb_fd (jobs s' job))) = search_bytes 0x5010 0x5040"
proof -
  let ?r = "nlm_flow_enqueue_search 1 0x1100 0x5010 0x5040 77 1 (dp_flow NLM_FLOW_TYPE_STATELESS)"
  obtain r s' where e: "?r = (NLM_OK, r, s')" using enqueue_dp_flow(1) by (metis prod.collapse)
  show ?thesis
    using nlm_flow_enqueue_search_stateless [OF dp_flow_ok e] e by (auto simp: Let_def)
qed

lemma dp_flow_free: "free_jobs (dp_flow t) []" "free_pds (dp_flow t) []"
  by (simp_all add: free_jobs_def free_pds_def dp_flow_def dev0_def)

theorem nlm_flow_enqueue_search_stateful_witness:
  "\<exists>job s'. nlm_flow_enqueue_search 1 0x1100 0x5010 0x5040 77 1 (dp_flow NLM_FLOW_TYPE_STATEFUL) = (NLM_OK, Some job, s') \<and>
     carries 0x1100 77 job s' \<and> pd_rsv01 (pds s' (jb_pd (jobs s' job))) = PD_CREATED_BUT_NOT_STARTED"
proof -
  let ?r = "nlm_flow_enqueue_search 1 0x1100 0x5010 0x5040 77 1 (dp_flow NLM_FLOW_TYPE_STATEFUL)"
  obtain r s' where e: "?r = (NLM_OK, r, s')" using enqueue_dp_flow(2) by (metis prod.collapse)
  show ?thesis
    using nlm_flow_enqueue_search_stateful [OF dp_flow_ok dp_flow_free, of 1 "0x5010" "0x5040" 77 1] e by (auto simp: Let_def)
qed

theorem nlm_flow_enqueue_search_leak_witness:
  "\<exists>a s'. nlm_flow_enqueue_search 1 0x1100 0x5010 0x5010 77 1 (dp_flow NLM_FLOW_TYPE_STATELESS) =
     (NLM_INVALID_PACKET_SIZE, Some NULL, s') \<and> job_pool_ok s' {a}"
proof -
  let ?r = "nlm_flow_enqueue_search 1 0x1100 0x5010 0x5010 77 1 (dp_flow NLM_FLOW_TYPE_STATELESS)"
  obtain r s' where e: "?r = (NLM_INVALID_PACKET_SIZE, r, s')" using enqueue_dp_flow(3) by (metis prod.collapse)
  show ?thesis
    using nlm_flow_enqueue_search_leak [OF dp_flow_ok(1) e] e by auto
qed

theorem nlm_cancel_job_stateful_witness:
  "\<exists>job s' s''. nlm_flow_enqueue_search 1 0x1100 0x5010 0x5040 77 1 (dp_flow NLM_FLOW_TYPE_STATEFUL) = (NLM_OK, Some job, s') \<and>
     nlm_cancel_job 1 job s' = Some (NLM_OK, s'') \<and> job_pool_ok s'' {} \<and> pd_pool_ok s'' {}"
proof -
  let ?r = "nlm_flow_enqueue_search 1 0x1100 0x5010 0x5040 77 1 (dp_flow NLM_FLOW_TYPE_STATEFUL)"
  obtain r s' where e: "?r = (NLM_OK, r, s')" using enqueue_dp_flow(2) by (metis prod.collapse)
  then obtain job where "r = Some job" by (rule enqueue_search_stateful [OF dp_flow_ok])
  with e nlm_cancel_job_stateful [OF dp_flow_ok dp_flow_free, of 1 "0x5010" "0x5040" 77 1 job s'] show ?thesis by auto
qed

theorem nlm_cancel_job_stateless_witness:
  "\<exists>s'. nlm_flow_enqueue_search 1 0x1100 0x5010 0x5040 77 1 (dp_flow NLM_FLOW_TYPE_STATELESS) =
       (NLM_OK, Some (0x2000 - 88), s') \<and> nlm_cancel_job 1 (0x2000 - 88) s' = Some (NLM_INVALID_JOB, s')"
proof -
  let ?r = "nlm_flow_enqueue_search 1 0x1100 0x5010 0x5040 77 1 (dp_flow NLM_FLOW_TYPE_STATELESS)"
  have "fst ?r = NLM_OK" "fst (snd ?r) = Some (0x2000 - 88)"
    by (simp_all add: enqueue_defs dp_flow_def flow_type_defs)
  then have e: "?r = (NLM_OK, Some (0x2000 - 88), snd (snd ?r))" by (metis prod.collapse)
  from nlm_cancel_job_stateless [OF dp_flow_ok _ e] have "nlm_cancel_job 1 (0x2000 - 88) (snd (snd ?r)) = Some (NLM_INVALID_JOB, snd (snd ?r))"
    by simp
  with e show ?thesis by blast
qed

end
