(* ===== verification/Jobs.thy ===== *)
theory Jobs
  imports Enqueue
begin

unbundle bit_operations_syntax

text \<open>
  Starting jobs and destroying flows: nlm_start_jobs, nlm_destroy_stateful_flow,
  nlm_destroy_stateless_flow and the list of pending flows in lib/dataplane/fms_packet_api.c.
  The packet descriptors of a stateful flow form a chain in system memory; a flow whose chain
  waits for a flow descriptor is in the pending list of the thread. \<^term>\<open>None\<close> is a failed
  assertion or a null pointer that is dereferenced.
\<close>

section \<open>The list of pending flows\<close>

definition nlm_device_add_flow_to_pending :: "addr \<Rightarrow> dp \<Rightarrow> dp option" where
  "nlm_device_add_flow_to_pending flow s =
     (if pending_flow_list_head (dev s) = NULL then
        assert_then (pending_flow_list_tail (dev s) = NULL)
          (Some (upd_dev (\<lambda>d. d\<lparr>pending_flow_list_head := flow, pending_flow_list_tail := flow\<rparr>) s))
      else
        let tail = pending_flow_list_tail (dev s) in
        assert_then (tail \<noteq> NULL)
          (let s1 = upd_flow tail (\<lambda>f. f\<lparr>fl_next := flow\<rparr>) s;
               s2 = upd_dev (\<lambda>d. d\<lparr>pending_flow_list_tail := flow\<rparr>) s1
           in assert_then (fl_next (flows s2 flow) = NULL) (Some s2)))"

definition nlm_device_remove_flow_from_pending :: "addr \<Rightarrow> dp \<Rightarrow> dp option" where
  "nlm_device_remove_flow_from_pending flow s =
     assert_then (flow = pending_flow_list_head (dev s))
       (let s1 = upd_dev (\<lambda>d. d\<lparr>pending_flow_list_head := fl_next (flows s flow)\<rparr>) s;
            s2 = upd_flow flow (\<lambda>f. f\<lparr>fl_next := NULL, fl_pending_pd_head := NULL\<rparr>) s1
        in if pending_flow_list_head (dev s2) = NULL then
             assert_then (flow = pending_flow_list_tail (dev s2))
               (Some (upd_dev (\<lambda>d. d\<lparr>pending_flow_list_tail := NULL\<rparr>) s2))
           else Some s2)"

section \<open>Chains of packet descriptors\<close>

definition pd_index :: "addr \<Rightarrow> dp \<Rightarrow> 24 word" where
  "pd_index pd s = word_of_int ((pd - pd_base (phy s)) div sizeof_pd)"

definition pd_at :: "24 word \<Rightarrow> dp \<Rightarrow> addr" where
  "pd_at i s = pd_base (phy s) + uint i * sizeof_pd"

definition set_pd_nla_index :: "24 word \<Rightarrow> hw_pd_descriptor \<Rightarrow> hw_pd_descriptor" where
  "set_pd_nla_index i pd = pd\<lparr>pd_nla := (pd_nla pd)\<lparr>pd_nla_index := i\<rparr>\<rparr>"

definition nlm_flow_add_job_to_list :: "addr \<Rightarrow> addr \<Rightarrow> addr \<Rightarrow> dp \<Rightarrow> dp option" where
  "nlm_flow_add_job_to_list flow job pd s =
     (let f = flows s flow; j = jobs s job;
          finish = upd_flow flow (\<lambda>f. f\<lparr>fl_last_pd := pd, fl_last_db_group_combination := jb_db_group_combination j\<rparr>)
      in if fl_last_pd f \<noteq> NULL then
           let s1 = (if jb_db_group_combination j \<noteq> fl_last_db_group_combination f
                     then upd_pd (fl_last_pd f) (\<lambda>d. d\<lparr>pd_sw_disconnect := 1\<rparr>) s else s);
               s2 = upd_pd (fl_last_pd f) (set_pd_nla_index (pd_index pd s)) s1
           in Some (finish s2)
         else if fl_pending_pd_head f = NULL then
           map_option finish
             (nlm_device_add_flow_to_pending flow (upd_flow flow (\<lambda>f. f\<lparr>fl_pending_pd_head := pd\<rparr>) s))
         else Some (finish s))"

section \<open>Starting a chain\<close>

text \<open>What is stored through \<^verbatim>\<open>fd\<close>, whose old contents is zero in the input ring of the device and
  whatever was there before in a software FIFO.\<close>

definition fill_fd :: "nlm_flow \<Rightarrow> nlm_job \<Rightarrow> hw_pd_descriptor \<Rightarrow> 24 word \<Rightarrow> hw_fd_descriptor \<Rightarrow> hw_fd_descriptor option" where
  "fill_fd f j pd idx fd =
     (let body =
        (if fd_gid_cnt (jb_fd j) = 0 \<and> pd_flow_term pd \<noteq> 0 then Some (fd\<lparr>fd_flow_type := FMS_FLOW_REINIT\<rparr>)
         else if pd_flow_term pd \<noteq> 0 then
           let fd1 = HW_COPY_PD_INTO_FD pd (fd\<lparr>fd_flow_type := FMS_FLOW_STATEFUL\<rparr>)
           in assert_then (fd_packet_byte_count fd1 = 0)
             (Some (fd1\<lparr>fd_flow_term := 0, fd_packet_prd := 0, fd_end_anchor := 1, fd_start_anchor := 0,
                fd_nla := \<lparr>rsv_cookie = 0, pd_nla_index = idx\<rparr>\<rparr>))
         else
           let fd1 = HW_COPY_PD_INTO_FD pd (fd\<lparr>fd_flow_type := FMS_FLOW_STATEFUL\<rparr>)
           in Some (fd1\<lparr>fd_end_anchor := 0,
                fd_nla := \<lparr>rsv_cookie = 0, pd_nla_index = pd_nla_index (pd_nla pd)\<rparr>,
                fd_start_anchor := (if jb_flow_offset j = 0 then 1 else 0)\<rparr>))
      in case body of
           None \<Rightarrow> None
         | Some fd1 \<Rightarrow>
             let g = jb_fd j;
                 fd2 = fd1\<lparr>fd_cookie := pd_cookie pd, fd_gid_cnt := fd_gid_cnt g, fd_gid0 := fd_gid0 g, fd_gid1 := fd_gid1 g,
                   fd_gid2 := fd_gid2 g, fd_gid3 := fd_gid3 g, fd_gid4 := fd_gid4 g, fd_gid5 := fd_gid5 g,
                   fd_pdf_index := ucast (fl_pdf_index f)\<rparr>
             in assert_then (drop_bit 24 (fl_pdf_index f) = 0) (Some fd2))"

definition job_fifo_of :: "dp \<Rightarrow> nlm_job_fifo" where
  "job_fifo_of s = sw_job_fifo (phy s) ! unat (thread_id (dev s))"

definition upd_job_fifo :: "(nlm_job_fifo \<Rightarrow> nlm_job_fifo) \<Rightarrow> dp \<Rightarrow> dp" where
  "upd_job_fifo g s = upd_phy (\<lambda>p. p\<lparr>sw_job_fifo := (sw_job_fifo p)[unat (thread_id (dev s)) := g (job_fifo_of s)]\<rparr>) s"

definition nlm_flow_start_pending_pd_chain :: "addr \<Rightarrow> dp \<Rightarrow> (nlm_status \<times> dp) option" where
  "nlm_flow_start_pending_pd_chain flow s =
     (let pd = fl_pending_pd_head (flows s flow);
          job = job_at (pd_cookie (pds s pd)) s;
          fill = (\<lambda>fd s. fill_fd (flows s flow) (jobs s job) (pds s pd) (pd_index pd s) fd)
      in if sw_fifos (dev s) then
           case peek_job_fifo_input (job_fifo_of s) of
             None \<Rightarrow> None
           | Some i \<Rightarrow>
               Option.bind (nlm_device_remove_flow_from_pending flow s) (\<lambda>s1.
               Option.bind (fill (jf_buf (job_fifo_of s) ! i) s1) (\<lambda>fd.
               Some (NLM_OK, upd_job_fifo (\<lambda>q. push_job_fifo (q\<lparr>jf_buf := (jf_buf q)[i := fd]\<rparr>)) s1)))
         else
           case sysmem_alloc_fd (phy s) of
             (None, p) \<Rightarrow> Some (NLM_INPUT_FIFO_FULL, upd_phy (\<lambda>_. p) s)
           | (Some i, p) \<Rightarrow>
               Option.bind (nlm_device_remove_flow_from_pending flow (upd_phy (\<lambda>_. p) s)) (\<lambda>s1.
               Option.bind (fill (input_fifo p ! i) s1) (\<lambda>fd.
               Some (NLM_OK, upd_phy (write_fd i fd) s1))))"

partial_function (option) start_pending_flows :: "dp \<Rightarrow> dp option" where
  [code]: "start_pending_flows s =
     (if pending_flow_list_head (dev s) = NULL then Some s
      else
        Option.bind (nlm_flow_start_pending_pd_chain (pending_flow_list_head (dev s)) s) (\<lambda>(st, s1).
        if st \<noteq> NLM_OK then Some s1 else start_pending_flows s1))"

definition nlm_try_start_stateful_flows :: "dp \<Rightarrow> dp option" where
  "nlm_try_start_stateful_flows s =
     map_option (\<lambda>s1. if \<not> sw_fifos (dev s1) \<and> input_wrt_ptr_dirty (phy s1) \<noteq> 0
       then upd_phy nlm_device_update_input_wrt_ptr s1 else s1) (start_pending_flows s)"

definition nlm_flow_notice_job_completion :: "addr \<Rightarrow> addr \<Rightarrow> dp \<Rightarrow> dp option" where
  "nlm_flow_notice_job_completion flow pd s =
     (let link = pd_nla_index (pd_nla (pds s pd)) in
      if fl_last_pd (flows s flow) = pd then
        assert_then (link = 0) (Some (upd_flow flow (\<lambda>f. f\<lparr>fl_last_pd := NULL\<rparr>) s))
      else if link = 0 then Some s
      else
        assert_then (fl_pending_pd_head (flows s flow) = NULL)
          (nlm_device_add_flow_to_pending flow (upd_flow flow (\<lambda>f. f\<lparr>fl_pending_pd_head := pd_at link s\<rparr>) s)))"

section \<open>Starting jobs\<close>

text \<open>The check of all jobs before any is started gives the numbers of stateless and stateful jobs.\<close>

fun check_jobs :: "addr list \<Rightarrow> dp \<Rightarrow> nat \<Rightarrow> nat \<Rightarrow> nlm_status + nat \<times> nat" where
  "check_jobs [] s n_stateless n_stateful = Inr (n_stateless, n_stateful)"
| "check_jobs (job # js) s n_stateless n_stateful =
     (if job = NULL then Inl NLM_INVALID_JOB
      else
        let flow = jb_flow (jobs s job) in
        if flow = NULL then Inl NLM_INVALID_JOB
        else if fl_type (flows s flow) = NLM_FLOW_TYPE_STATELESS then check_jobs js s (Suc n_stateless) n_stateful
        else if fl_type (flows s flow) = NLM_FLOW_TYPE_STATEFUL then check_jobs js s n_stateless (Suc n_stateful)
        else Inl NLM_INVALID_FLOW)"

definition is_stateless_job :: "dp \<Rightarrow> addr \<Rightarrow> bool" where
  "is_stateless_job s job \<longleftrightarrow> fl_type (flows s (jb_flow (jobs s job))) = NLM_FLOW_TYPE_STATELESS"

definition is_stateful_job :: "dp \<Rightarrow> addr \<Rightarrow> bool" where
  "is_stateful_job s job \<longleftrightarrow> fl_type (flows s (jb_flow (jobs s job))) = NLM_FLOW_TYPE_STATEFUL"

fun push_stateless_jobs :: "addr list \<Rightarrow> dp \<Rightarrow> dp option" where
  "push_stateless_jobs [] s = Some s"
| "push_stateless_jobs (job # js) s =
     (if is_stateless_job s job then
        case peek_job_fifo_input (job_fifo_of s) of
          None \<Rightarrow> None
        | Some i \<Rightarrow> push_stateless_jobs js
            (upd_job_fifo (\<lambda>q. push_job_fifo (q\<lparr>jf_buf := (jf_buf q)[i := jb_fd (jobs s job)]\<rparr>)) s)
      else push_stateless_jobs js s)"

text \<open>The loop over the input ring; false when the ring is full.\<close>

fun send_stateless_jobs :: "addr list \<Rightarrow> dp \<Rightarrow> bool \<times> dp" where
  "send_stateless_jobs [] s = (True, s)"
| "send_stateless_jobs (job # js) s =
     (if is_stateless_job s job then
        case sysmem_alloc_fd (phy s) of
          (None, p) \<Rightarrow> (False, upd_phy (\<lambda>_. p) s)
        | (Some i, p) \<Rightarrow>
            let s1 = upd_phy (\<lambda>_. write_fd i (jb_fd (jobs s job)) p) s;
                s2 = upd_flow (jb_flow (jobs s1 job)) (\<lambda>f. f\<lparr>fl_u0 := fl_u0 f + 1\<rparr>) s1
            in send_stateless_jobs js (upd_job job (\<lambda>j. j\<lparr>jb_flow_offset := 0\<rparr>) s2)
      else send_stateless_jobs js s)"

definition start_stateless_jobs :: "addr list \<Rightarrow> nat \<Rightarrow> nat \<Rightarrow> dp \<Rightarrow> (nlm_status \<times> dp) option" where
  "start_stateless_jobs js n_stateless n_stateful s =
     (if sw_fifos (dev s) then
        if job_fifo_free (job_fifo_of s) < word_of_nat n_stateless then Some (NLM_INPUT_FIFO_FULL, s)
        else map_option (\<lambda>s1. (NLM_OK, s1)) (push_stateless_jobs js s)
      else
        case send_stateless_jobs js s of
          (False, s1) \<Rightarrow> Some (NLM_INPUT_FIFO_FULL, upd_phy (\<lambda>p. p\<lparr>input_wrt_ptr := input_wrt_ptr (phy s)\<rparr>) s1)
        | (True, s1) \<Rightarrow> Some (NLM_OK, if n_stateful = 0 then upd_phy nlm_device_update_input_wrt_ptr s1 else s1))"

definition start_stateful_job :: "addr \<Rightarrow> dp \<Rightarrow> dp option" where
  "start_stateful_job job s =
     (let flow = jb_flow (jobs s job); pd = jb_pd (jobs s job) in
      assert_then (fl_pdf_index (flows s flow) \<noteq> 0)
        (let s1 = upd_job job (\<lambda>j. j\<lparr>jb_flow_offset := fl_flow_offset (flows s flow)\<rparr>) s;
             s2 = upd_flow flow (\<lambda>f. f\<lparr>fl_flow_offset := fl_flow_offset f + ucast (pd_packet_byte_count (pds s1 pd))\<rparr>) s1
         in assert_then (pd_rsv01 (pds s2 pd) = PD_CREATED_BUT_NOT_STARTED)
              (map_option (upd_pd pd (\<lambda>d. d\<lparr>pd_rsv01 := PD_VALID_AND_STARTED\<rparr>))
                (nlm_flow_add_job_to_list flow job pd s2))))"

fun start_stateful_jobs :: "addr list \<Rightarrow> dp \<Rightarrow> dp option" where
  "start_stateful_jobs [] s = Some s"
| "start_stateful_jobs (job # js) s =
     (if is_stateful_job s job then Option.bind (start_stateful_job job s) (start_stateful_jobs js)
      else start_stateful_jobs js s)"

text \<open>The array of jobs is null when \<open>jobs_ptr\<close> is.\<close>

definition nlm_start_jobs :: "addr \<Rightarrow> addr \<Rightarrow> addr list \<Rightarrow> dp \<Rightarrow> (nlm_status \<times> dp) option" where
  "nlm_start_jobs device jobs_ptr js s =
     (if device = NULL \<or> js = [] \<or> jobs_ptr = NULL then Some (NLM_INVALID_ARGUMENT, s)
      else
        case check_jobs js s 0 0 of
          Inl st \<Rightarrow> Some (st, s)
        | Inr (n_stateless, n_stateful) \<Rightarrow>
            Option.bind (if n_stateless \<noteq> 0 then start_stateless_jobs js n_stateless n_stateful s else Some (NLM_OK, s))
              (\<lambda>(st, s1).
                if st \<noteq> NLM_OK \<or> n_stateful = 0 then Some (st, s1)
                else map_option (\<lambda>s2. (NLM_OK, s2)) (Option.bind (start_stateful_jobs js s1) nlm_try_start_stateful_flows)))"

section \<open>Destroying flows\<close>

definition nlm_destroy_stateful_flow :: "addr \<Rightarrow> addr \<Rightarrow> addr \<Rightarrow> dp \<Rightarrow> (nlm_status \<times> dp) option" where
  "nlm_destroy_stateful_flow device flow cookie s =
     (if device = NULL \<or> flow = NULL then Some (NLM_INVALID_ARGUMENT, s)
      else assert_then (memory_pool (dev s) \<noteq> NULL)
        (if fl_type (flows s flow) = NLM_FLOW_TYPE_STATEFUL then
           let s1 = upd_flow flow (\<lambda>f. f\<lparr>fl_type := NLM_FLOW_TYPE_INVALID\<rparr>) s in
           if fl_flow_offset (flows s1 flow) = 0 \<or> fl_db_group_combination (flows s1 flow) = 0
           then Some (NLM_END_OF_JOB, memory_pool_free_flow flow s1)
           else
             let s2 = upd_flow flow (\<lambda>f. f\<lparr>fl_db_group_combination := fl_db_group_combination f + 1\<rparr>) s1 in
             case nlm_flow_enqueue_search_1 flow NULL NULL cookie s2 of
               (st, None, s3) \<Rightarrow> Some (st, s3)
             | (st, Some job, s3) \<Rightarrow>
                 if st \<noteq> NLM_OK then Some (st, s3)
                 else
                   let pd = jb_pd (jobs s3 job);
                       s4 = upd_pd pd (\<lambda>d. d\<lparr>pd_flow_term := 1\<rparr>) s3
                   in assert_then (pd_rsv01 (pds s4 pd) = PD_CREATED_BUT_NOT_STARTED)
                     (Option.bind (nlm_flow_add_job_to_list flow job pd
                        (upd_pd pd (\<lambda>d. d\<lparr>pd_rsv01 := PD_VALID_AND_STARTED\<rparr>) s4)) (\<lambda>s5.
                      let s6 = upd_job job (\<lambda>j. j\<lparr>jb_flow_offset := fl_flow_offset (flows s5 flow)\<rparr>) s5
                      in map_option (\<lambda>s7. (NLM_OK, s7)) (nlm_try_start_stateful_flows s6)))
         else if fl_type (flows s flow) = NLM_FLOW_TYPE_STATELESS then Some (NLM_INVALID_ARGUMENT, s)
         else Some (NLM_INVALID_FLOW, s)))"

definition nlm_destroy_stateless_flow :: "addr \<Rightarrow> addr \<Rightarrow> dp \<Rightarrow> (nlm_status \<times> dp) option" where
  "nlm_destroy_stateless_flow device flow s =
     (if device = NULL \<or> flow = NULL then Some (NLM_INVALID_ARGUMENT, s)
      else assert_then (memory_pool (dev s) \<noteq> NULL)
        (if fl_type (flows s flow) = NLM_FLOW_TYPE_STATEFUL then Some (NLM_INVALID_ARGUMENT, s)
         else if fl_type (flows s flow) = NLM_FLOW_TYPE_STATELESS then
           let s1 = upd_flow flow (\<lambda>f. f\<lparr>fl_type := NLM_FLOW_TYPE_INVALID\<rparr>) s
           in Some (NLM_OK, if fl_job_seq_id (flows s1 flow) = 0 then memory_pool_free_flow flow s1 else s1)
         else Some (NLM_INVALID_FLOW, s)))"

section \<open>The pending list\<close>

definition pending_ok :: "dp \<Rightarrow> addr list \<Rightarrow> bool" where
  "pending_ok s fs \<longleftrightarrow> chain (\<lambda>a. fl_next (flows s a)) (pending_flow_list_head (dev s)) fs \<and> distinct fs \<and>
     pending_flow_list_tail (dev s) = (if fs = [] then NULL else last fs)"

lemma pending_ok_same [simp]:
  "pending_ok (upd_phy e s) fs = pending_ok s fs" "pending_ok (upd_job a g s) fs = pending_ok s fs"
  "pending_ok (upd_pd a h s) fs = pending_ok s fs"
  by (simp_all only: pending_ok_def upd_simps)

lemma chain_last: "chain f p (qs @ [q]) \<Longrightarrow> f q = NULL"
  by (induction qs arbitrary: p) auto

lemma chain_snoc:
  assumes "chain f p (qs @ [q])" and "r \<noteq> NULL" and "f r = NULL" and "r \<notin> set (qs @ [q])" and "distinct (qs @ [q])"
  shows "chain (f(q := r)) p (qs @ [q, r])"
  using assms
proof (induction qs arbitrary: p)
  case (Cons a qs)
  then show ?case by (cases "a = q") auto
qed auto

lemma add_pending:
  assumes ok: "pending_ok s fs" and new: "flow \<notin> set fs" "flow \<noteq> NULL" "fl_next (flows s flow) = NULL"
  obtains s' where "nlm_device_add_flow_to_pending flow s = Some s'" "pending_ok s' (fs @ [flow])"
    "\<And>a. \<exists>n. flows s' a = (flows s a)\<lparr>fl_next := n\<rparr>" "flows s' flow = flows s flow"
    "\<And>a. a \<notin> set fs \<Longrightarrow> flows s' a = flows s a"
    "phy s' = phy s" "jobs s' = jobs s" "pds s' = pds s"
    "\<exists>h t. dev s' = (dev s)\<lparr>pending_flow_list_head := h, pending_flow_list_tail := t\<rparr>"
proof (cases fs rule: rev_cases)
  case Nil
  let ?s = "upd_dev (\<lambda>d. d\<lparr>pending_flow_list_head := flow, pending_flow_list_tail := flow\<rparr>) s"
  show thesis
  proof (rule that [of ?s])
    show "\<exists>n. flows ?s a = (flows s a)\<lparr>fl_next := n\<rparr>" for a by (intro exI [of _ "fl_next (flows s a)"]) simp
  qed (use ok new Nil in \<open>auto simp: pending_ok_def nlm_device_add_flow_to_pending_def\<close>)
next
  case (snoc qs q)
  let ?s = "upd_dev (\<lambda>d. d\<lparr>pending_flow_list_tail := flow\<rparr>) (upd_flow q (\<lambda>f. f\<lparr>fl_next := flow\<rparr>) s)"
  have c: "chain (\<lambda>a. fl_next (flows s a)) (pending_flow_list_head (dev s)) (qs @ [q])" and t: "pending_flow_list_tail (dev s) = q"
    and d: "distinct (qs @ [q])"
    using ok snoc by (auto simp: pending_ok_def)
  have qn: "q \<noteq> NULL" using chain_not_NULL [OF c] by simp
  have hn: "pending_flow_list_head (dev s) \<noteq> NULL" using c by (cases qs) auto
  have "chain ((\<lambda>a. fl_next (flows s a))(q := flow)) (pending_flow_list_head (dev s)) (qs @ [q, flow])"
    using chain_snoc [OF c] new d snoc by simp
  moreover have "((\<lambda>a. fl_next (flows s a))(q := flow)) = (\<lambda>a. fl_next (flows ?s a))" by (auto simp: fun_eq_iff)
  ultimately have "pending_ok ?s (fs @ [flow])"
    using snoc d new by (auto simp: pending_ok_def)
  moreover have "nlm_device_add_flow_to_pending flow s = Some ?s"
    using qn hn t new snoc by (auto simp: nlm_device_add_flow_to_pending_def Let_def)
  moreover have "\<exists>n. flows ?s a = (flows s a)\<lparr>fl_next := n\<rparr>" for a
    by (cases "a = q") (auto intro: exI [of _ "fl_next (flows s a)"])
  moreover have "\<exists>h t. dev ?s = (dev s)\<lparr>pending_flow_list_head := h, pending_flow_list_tail := t\<rparr>"
    by (intro exI [of _ "pending_flow_list_head (dev s)"] exI [of _ flow]) simp
  ultimately show thesis
    using snoc new by (intro that [of ?s]) auto
qed

lemma remove_pending:
  assumes ok: "pending_ok s (f # fs)"
  obtains s' where "nlm_device_remove_flow_from_pending f s = Some s'" "pending_ok s' fs"
    "flows s' = (flows s)(f := (flows s f)\<lparr>fl_next := NULL, fl_pending_pd_head := NULL\<rparr>)"
    "phy s' = phy s" "jobs s' = jobs s" "pds s' = pds s"
    "\<exists>h t. dev s' = (dev s)\<lparr>pending_flow_list_head := h, pending_flow_list_tail := t\<rparr>"
proof -
  let ?n = "fl_next (flows s f)"
  let ?s = "upd_flow f (\<lambda>f. f\<lparr>fl_next := NULL, fl_pending_pd_head := NULL\<rparr>) (upd_dev (\<lambda>d. d\<lparr>pending_flow_list_head := ?n\<rparr>) s)"
  have c: "pending_flow_list_head (dev s) = f" "chain (\<lambda>a. fl_next (flows s a)) ?n fs" "distinct fs" "f \<notin> set fs"
    "pending_flow_list_tail (dev s) = (if fs = [] then f else last fs)"
    using ok by (auto simp: pending_ok_def)
  have "chain (\<lambda>a. fl_next (flows ?s a)) ?n fs = chain (\<lambda>a. fl_next (flows s a)) ?n fs"
    using c(4) by (intro chain_cong) auto
  with c have ch: "chain (\<lambda>a. fl_next (flows ?s a)) ?n fs" by simp
  show thesis
  proof (cases fs)
    case Nil
    with c(2) have "?n = NULL" by simp
    let ?t = "upd_dev (\<lambda>d. d\<lparr>pending_flow_list_tail := NULL\<rparr>) ?s"
    show thesis
      using c Nil \<open>?n = NULL\<close>
      by (intro that [of ?t]) (auto simp: nlm_device_remove_flow_from_pending_def Let_def pending_ok_def)
  next
    case (Cons g gs)
    with c(2) have n: "?n \<noteq> NULL" by auto
    have "\<exists>h t. dev ?s = (dev s)\<lparr>pending_flow_list_head := h, pending_flow_list_tail := t\<rparr>"
      by (intro exI [of _ ?n] exI [of _ "pending_flow_list_tail (dev s)"]) simp
    then show thesis
      using c n ch Cons
      by (intro that [of ?s]) (auto simp: nlm_device_remove_flow_from_pending_def Let_def pending_ok_def)
  qed
qed

section \<open>Starting pending chains on the ring\<close>

lemma alloc_fd_put:
  assumes "input_ring_ok p" and "sysmem_alloc_fd p = (Some i, q)"
  shows "input_fifo q ! i = fd_zero" and "ring_put fd p = Some (write_fd i fd q)"
  using assms by (auto simp: sysmem_alloc_fd_def ring_put_def Let_def input_ring_ok_def word_less_nat_alt split: if_splits)

lemma alloc_fd_full: "sysmem_alloc_fd p = (None, q) \<Longrightarrow> q = p \<and> ring_put fd p = None"
  by (auto simp: sysmem_alloc_fd_def ring_put_def Let_def split: if_splits)

text \<open>The conditions the assertions check for a pending flow, and the descriptor it is started with.\<close>

definition startable :: "dp \<Rightarrow> addr \<Rightarrow> bool" where
  "startable s flow \<longleftrightarrow>
     (let f = flows s flow; pd = pds s (fl_pending_pd_head f) in
      drop_bit 24 (fl_pdf_index f) = 0 \<and> (pd_flow_term pd \<noteq> 0 \<longrightarrow> pd_packet_byte_count pd = 0))"

definition fd_for :: "dp \<Rightarrow> addr \<Rightarrow> hw_fd_descriptor" where
  "fd_for s flow =
     (let f = flows s flow; pd = fl_pending_pd_head f; d = pds s pd in
      case fill_fd f (jobs s (job_at (pd_cookie d) s)) d (pd_index pd s) fd_zero of Some fd \<Rightarrow> fd | None \<Rightarrow> fd_zero)"

lemma fill_fd_Some:
  assumes "drop_bit 24 (fl_pdf_index f) = 0" and "pd_flow_term pd \<noteq> 0 \<longrightarrow> pd_packet_byte_count pd = 0"
  shows "\<exists>fd'. fill_fd f j pd idx fd = Some fd'"
  using assms by (simp add: fill_fd_def Let_def HW_COPY_PD_INTO_FD_def)

lemma fill_fd_flow: "fl_u0 f = fl_u0 g \<Longrightarrow> fill_fd f = fill_fd g"
  by (intro ext) (simp only: fill_fd_def)

lemma ring_put_frame:
  assumes "input_ring_ok p" and "ring_put fd p = Some q"
  shows "pd_base q = pd_base p" "input_wrt_ptr_dirty q = 1" "fms_ring_id q = fms_ring_id p" "phy_hw q = phy_hw p"
    "sw_job_fifo q = sw_job_fifo p"
proof -
  obtain w i where q: "q = p\<lparr>input_wrt_ptr := w, input_wrt_ptr_dirty := 1, input_fifo := i\<rparr>"
    using ring_put_Some [OF assms] by blast
  show "pd_base q = pd_base p" "input_wrt_ptr_dirty q = 1" "fms_ring_id q = fms_ring_id p" "phy_hw q = phy_hw p"
    "sw_job_fifo q = sw_job_fifo p"
    unfolding q by simp_all
qed

lemma start_chain:
  assumes ok: "pending_ok s (f # fs)" "input_ring_ok (phy s)" and sw: "\<not> sw_fifos (dev s)" and st: "startable s f"
  shows "ring_put (fd_for s f) (phy s) = None \<Longrightarrow> nlm_flow_start_pending_pd_chain f s = Some (NLM_INPUT_FIFO_FULL, s)"
    and "ring_put (fd_for s f) (phy s) = Some q \<Longrightarrow>
      \<exists>s' h t. nlm_flow_start_pending_pd_chain f s = Some (NLM_OK, s') \<and> phy s' = q \<and> pending_ok s' fs \<and>
        flows s' = (flows s)(f := (flows s f)\<lparr>fl_next := NULL, fl_pending_pd_head := NULL\<rparr>) \<and>
        jobs s' = jobs s \<and> pds s' = pds s \<and>
        dev s' = (dev s)\<lparr>pending_flow_list_head := h, pending_flow_list_tail := t\<rparr>"
proof -
  obtain r p where al: "sysmem_alloc_fd (phy s) = (r, p)" by (cases "sysmem_alloc_fd (phy s)")
  { assume "ring_put (fd_for s f) (phy s) = None"
    then have "r = None" using al alloc_fd_put(2) [OF ok(2)] by (cases r) auto
    moreover have "upd_phy (\<lambda>_. phy s) s = s" by (simp add: upd_phy_def)
    ultimately show "nlm_flow_start_pending_pd_chain f s = Some (NLM_INPUT_FIFO_FULL, s)"
      using al alloc_fd_full [of "phy s" p] sw by (simp add: nlm_flow_start_pending_pd_chain_def) }
  { assume q: "ring_put (fd_for s f) (phy s) = Some q"
    then obtain i where r: "r = Some i" using al alloc_fd_full [of "phy s" p] by (cases r) auto
    note a = alloc_fd_put [OF ok(2) al [unfolded r]]
    have base: "pd_base p = pd_base (phy s)"
      using al by (auto simp: sysmem_alloc_fd_def Let_def split: if_splits)
    have "pending_ok (upd_phy (\<lambda>_. p) s) (f # fs)" using ok(1) by simp
    then obtain s1 where s1: "nlm_device_remove_flow_from_pending f (upd_phy (\<lambda>_. p) s) = Some s1" "pending_ok s1 fs"
      "flows s1 = (flows s)(f := (flows s f)\<lparr>fl_next := NULL, fl_pending_pd_head := NULL\<rparr>)"
      "phy s1 = p" "jobs s1 = jobs s" "pds s1 = pds s"
      "\<exists>h t. dev s1 = (dev s)\<lparr>pending_flow_list_head := h, pending_flow_list_tail := t\<rparr>"
      by (rule remove_pending) auto
    let ?pd = "fl_pending_pd_head (flows s f)"
    let ?j = "jobs s (job_at (pd_cookie (pds s ?pd)) s)"
    have "fill_fd (flows s1 f) ?j (pds s ?pd) (pd_index ?pd s1) fd_zero =
        fill_fd (flows s f) ?j (pds s ?pd) (pd_index ?pd s) fd_zero"
      using s1(3,4) base fill_fd_flow [of "flows s1 f" "flows s f"] by (simp add: pd_index_def)
    moreover obtain fd where fd: "fill_fd (flows s f) ?j (pds s ?pd) (pd_index ?pd s) fd_zero = Some fd"
      using fill_fd_Some [of "flows s f" "pds s ?pd"] st unfolding startable_def Let_def by blast
    moreover have "fd_for s f = fd" using fd by (simp add: fd_for_def Let_def)
    ultimately have e: "nlm_flow_start_pending_pd_chain f s = Some (NLM_OK, upd_phy (write_fd i fd) s1)"
      using al r sw s1 a(1) by (simp add: nlm_flow_start_pending_pd_chain_def Let_def)
    obtain h t where d: "dev s1 = (dev s)\<lparr>pending_flow_list_head := h, pending_flow_list_tail := t\<rparr>" using s1(7) by blast
    have "q = write_fd i fd p" using q a(2) \<open>fd_for s f = fd\<close> by simp
    moreover have "pending_ok (upd_phy (write_fd i fd) s1) fs" using s1(2) by simp
    ultimately show "\<exists>s' h t. nlm_flow_start_pending_pd_chain f s = Some (NLM_OK, s') \<and> phy s' = q \<and> pending_ok s' fs \<and>
        flows s' = (flows s)(f := (flows s f)\<lparr>fl_next := NULL, fl_pending_pd_head := NULL\<rparr>) \<and>
        jobs s' = jobs s \<and> pds s' = pds s \<and>
        dev s' = (dev s)\<lparr>pending_flow_list_head := h, pending_flow_list_tail := t\<rparr>"
      using e s1 d by (intro exI [of _ "upd_phy (write_fd i fd) s1"] exI [of _ h] exI [of _ t]) simp }
qed

text \<open>Number of free slots of the input ring.\<close>

definition ring_free :: "nlm_phy_device \<Rightarrow> nat" where
  "ring_free p = ring_cap p - length (ring_items p)"

lemma start_pending_flows_ring:
  assumes "pending_ok s fs" "input_ring_ok (phy s)" "\<not> sw_fifos (dev s)" "\<forall>f \<in> set fs. startable s f"
  shows "\<exists>s'. start_pending_flows s = Some s' \<and>
    (let k = min (length fs) (ring_free (phy s)) in
     pending_ok s' (drop k fs) \<and> ring_items (phy s') = ring_items (phy s) @ map (fd_for s) (take k fs) \<and>
     (\<forall>f. flows s' f = (if f \<in> set (take k fs) then (flows s f)\<lparr>fl_next := NULL, fl_pending_pd_head := NULL\<rparr> else flows s f)) \<and>
     (k \<noteq> 0 \<longrightarrow> input_wrt_ptr_dirty (phy s') = 1) \<and> (k = 0 \<longrightarrow> s' = s) \<and> phy_hw (phy s') = phy_hw (phy s)) \<and>
    pd_base (phy s') = pd_base (phy s) \<and> input_ring_ok (phy s') \<and> ring_cap (phy s') = ring_cap (phy s) \<and> jobs s' = jobs s \<and> pds s' = pds s \<and>
    (\<exists>h t. dev s' = (dev s)\<lparr>pending_flow_list_head := h, pending_flow_list_tail := t\<rparr>)"
  using assms
proof (induction fs arbitrary: s)
  case Nil
  then have "pending_flow_list_head (dev s) = NULL" by (simp add: pending_ok_def)
  moreover have "\<exists>h t. dev s = (dev s)\<lparr>pending_flow_list_head := h, pending_flow_list_tail := t\<rparr>"
    by (intro exI [of _ "pending_flow_list_head (dev s)"] exI [of _ "pending_flow_list_tail (dev s)"]) simp
  ultimately show ?case
    using Nil by (intro exI [of _ s]) (simp add: start_pending_flows.simps)
next
  case (Cons f fs)
  have hd: "pending_flow_list_head (dev s) = f" "f \<noteq> NULL" "f \<notin> set fs" using Cons.prems(1) by (auto simp: pending_ok_def)
  have st: "startable s f" using Cons.prems(4) by simp
  have dd: "\<exists>h t. dev s = (dev s)\<lparr>pending_flow_list_head := h, pending_flow_list_tail := t\<rparr>"
    by (intro exI [of _ "pending_flow_list_head (dev s)"] exI [of _ "pending_flow_list_tail (dev s)"]) simp
  show ?case
  proof (cases "ring_put (fd_for s f) (phy s)")
    case None
    have "ring_free (phy s) = 0" using None input_ring.put_full [OF Cons.prems(2)] by (simp add: ring_free_def)
    moreover have "start_pending_flows s = Some s"
      using start_chain(1) [OF Cons.prems(1-3) st None] hd by (simp add: start_pending_flows.simps)
    ultimately show ?thesis using Cons.prems dd by (intro exI [of _ s]) simp
  next
    case (Some q)
    obtain s1 h1 t1 where s1: "nlm_flow_start_pending_pd_chain f s = Some (NLM_OK, s1)" "phy s1 = q" "pending_ok s1 fs"
      "flows s1 = (flows s)(f := (flows s f)\<lparr>fl_next := NULL, fl_pending_pd_head := NULL\<rparr>)" "jobs s1 = jobs s" "pds s1 = pds s"
      "dev s1 = (dev s)\<lparr>pending_flow_list_head := h1, pending_flow_list_tail := t1\<rparr>"
      using start_chain(2) [OF Cons.prems(1-3) st Some] by blast
    have q: "input_ring_ok q" "ring_items q = ring_items (phy s) @ [fd_for s f]" "ring_cap q = ring_cap (phy s)"
      using input_ring.put_Some [OF Cons.prems(2) Some] by auto
    note fr = ring_put_frame [OF Cons.prems(2) Some]
    have room: "ring_free (phy s) = Suc (ring_free q)"
      using Some q input_ring.put_full [OF Cons.prems(2), of "fd_for s f"] by (simp add: ring_free_def)
    have same: "startable s1 g = startable s g" "fd_for s1 g = fd_for s g" if "g \<in> set fs" for g
      using that hd s1 fr(1) by (auto simp: startable_def fd_for_def Let_def job_at_def pd_index_def)
    have step: "start_pending_flows s = start_pending_flows s1"
      using hd s1(1) by (subst start_pending_flows.simps) simp
    obtain s' where s': "start_pending_flows s1 = Some s'"
      "let k = min (length fs) (ring_free q) in
       pending_ok s' (drop k fs) \<and> ring_items (phy s') = ring_items q @ map (fd_for s1) (take k fs) \<and>
       (\<forall>f. flows s' f = (if f \<in> set (take k fs) then (flows s1 f)\<lparr>fl_next := NULL, fl_pending_pd_head := NULL\<rparr> else flows s1 f)) \<and>
       (k \<noteq> 0 \<longrightarrow> input_wrt_ptr_dirty (phy s') = 1) \<and> (k = 0 \<longrightarrow> s' = s1) \<and> phy_hw (phy s') = phy_hw q"
      "pd_base (phy s') = pd_base q" "input_ring_ok (phy s')" "ring_cap (phy s') = ring_cap q" "jobs s' = jobs s1" "pds s' = pds s1"
      "\<exists>h t. dev s' = (dev s1)\<lparr>pending_flow_list_head := h, pending_flow_list_tail := t\<rparr>"
      using Cons.IH [of s1] s1 q(1) Cons.prems(3,4) same by auto
    have m: "map (fd_for s1) (take k fs) = map (fd_for s) (take k fs)" for k
      using same(2) by (auto dest: in_set_takeD)
    have fl: "f \<notin> set (take k fs)" for k using hd(3) by (auto dest: in_set_takeD)
    have "input_wrt_ptr_dirty (phy s') = 1"
      using s'(2) s1(2) fr(2) by (cases "min (length fs) (ring_free q) = 0") (auto simp: Let_def)
    then show ?thesis
      using s' step s1 q room m fl fr by (intro exI [of _ s']) (auto simp: Let_def)
  qed
qed

section \<open>Sending stateless jobs to the ring\<close>

lemma update_wrt_ptr_same [simp]:
  "ring_items (nlm_device_update_input_wrt_ptr p) = ring_items p" "input_ring_ok (nlm_device_update_input_wrt_ptr p) = input_ring_ok p"
  "input_wrt_ptr (nlm_device_update_input_wrt_ptr p) = input_wrt_ptr p" "input_wrt_ptr_dirty (nlm_device_update_input_wrt_ptr p) = 0"
  "fms_ring_id (nlm_device_update_input_wrt_ptr p) = fms_ring_id p"
  "phy_hw (nlm_device_update_input_wrt_ptr p) = SET_HW_REGISTER (FDF_FIFO_WRT_PTR (fms_ring_id p)) (input_wrt_ptr p) (phy_hw p)"
  by (simp_all add: nlm_device_update_input_wrt_ptr_def phy_set_register_def ring_items_def ring_count_def input_ring_ok_def)

text \<open>Going back to the old write index forgets the descriptors written since.\<close>

lemma ring_rollback:
  assumes "ring_items q = ring_items p @ xs" and "input_fifo_size q = input_fifo_size p" "input_rd_ptr q = input_rd_ptr p"
  shows "ring_items (q\<lparr>input_wrt_ptr := input_wrt_ptr p\<rparr>) = ring_items p"
proof -
  let ?N = "unat (input_fifo_size p)" and ?r = "unat (input_rd_ptr p)"
  have n: "ring_count (q\<lparr>input_wrt_ptr := input_wrt_ptr p\<rparr>) = ring_count p"
    using assms(2,3) by (simp add: ring_count_def)
  have "length (ring_items q) = length (ring_items p) + length xs" using assms(1) by simp
  then have le: "ring_count p \<le> ring_count q" by (simp add: ring_items_def)
  have "ring_items (q\<lparr>input_wrt_ptr := input_wrt_ptr p\<rparr>) = ring_list ?N ?r (ring_count p) (input_fifo q)"
    using assms(2,3) n by (simp add: ring_items_def)
  also have "\<dots> = take (ring_count p) (ring_items q)"
    using le assms(2,3) by (simp add: ring_items_def ring_list_def take_map)
  also have "\<dots> = ring_items p" using assms(1) by (simp add: ring_items_def)
  finally show ?thesis .
qed

text \<open>The jobs of a list that belong to a flow.\<close>

definition jobs_of :: "dp \<Rightarrow> addr \<Rightarrow> addr list \<Rightarrow> addr list" where
  "jobs_of s flow js = filter (\<lambda>j. jb_flow (jobs s j) = flow) js"

lemma send_stateless_ring:
  assumes "input_ring_ok (phy s)"
  shows "\<exists>s'. send_stateless_jobs js s = (length (filter (is_stateless_job s) js) \<le> ring_free (phy s), s') \<and>
    (let sl = take (ring_free (phy s)) (filter (is_stateless_job s) js) in
     ring_items (phy s') = ring_items (phy s) @ map (\<lambda>j. jb_fd (jobs s j)) sl \<and>
     (\<forall>f. flows s' f = (flows s f)\<lparr>fl_u0 := fl_u0 (flows s f) + word_of_nat (length (jobs_of s f sl))\<rparr>)) \<and>
    input_ring_ok (phy s') \<and> phy_hw (phy s') = phy_hw (phy s) \<and> fms_ring_id (phy s') = fms_ring_id (phy s) \<and>
    input_fifo_size (phy s') = input_fifo_size (phy s) \<and> input_rd_ptr (phy s') = input_rd_ptr (phy s) \<and>
    dev s' = dev s \<and> pds s' = pds s \<and> (\<forall>j. \<exists>x. jobs s' j = (jobs s j)\<lparr>jb_flow_offset := x\<rparr>)"
  using assms
proof (induction js arbitrary: s)
  case Nil
  have "\<exists>x. j = j\<lparr>jb_flow_offset := x\<rparr>" for j :: nlm_job by (intro exI [of _ "jb_flow_offset j"]) simp
  with Nil show ?case by (intro exI [of _ s]) (simp add: jobs_of_def)
next
  case (Cons job js)
  show ?case
  proof (cases "is_stateless_job s job")
    case False
    with Cons.IH [OF Cons.prems] show ?thesis by simp
  next
    case sl: True
    have self: "\<exists>x. j = j\<lparr>jb_flow_offset := x\<rparr>" for j :: nlm_job by (intro exI [of _ "jb_flow_offset j"]) simp
    obtain r p where al: "sysmem_alloc_fd (phy s) = (r, p)" by (cases "sysmem_alloc_fd (phy s)")
    show ?thesis
    proof (cases r)
      case None
      with al have p: "p = phy s" "ring_put fd_zero (phy s) = None" using alloc_fd_full by auto
      then have "ring_free (phy s) = 0" using input_ring.put_full [OF Cons.prems] by (simp add: ring_free_def)
      moreover have "upd_phy (\<lambda>_. phy s) s = s" by (simp add: upd_phy_def)
      ultimately show ?thesis
        using al None p sl self Cons.prems by (intro exI [of _ s]) (simp add: jobs_of_def)
    next
      case (Some i)
      let ?fd = "jb_fd (jobs s job)" and ?f = "jb_flow (jobs s job)"
      let ?q = "write_fd i ?fd p"
      let ?s1 = "upd_job job (\<lambda>j. j\<lparr>jb_flow_offset := 0\<rparr>) (upd_flow ?f (\<lambda>f. f\<lparr>fl_u0 := fl_u0 f + 1\<rparr>) (upd_phy (\<lambda>_. ?q) s))"
      have put: "ring_put ?fd (phy s) = Some ?q" using alloc_fd_put(2) [OF Cons.prems] al Some by simp
      have q: "input_ring_ok ?q" "ring_items ?q = ring_items (phy s) @ [?fd]" "ring_cap ?q = ring_cap (phy s)"
        using input_ring.put_Some [OF Cons.prems put] by auto
      have fr: "phy_hw ?q = phy_hw (phy s)" "fms_ring_id ?q = fms_ring_id (phy s)"
        using ring_put_frame [OF Cons.prems put] by auto
      have fr2: "input_fifo_size ?q = input_fifo_size (phy s)" "input_rd_ptr ?q = input_rd_ptr (phy s)"
        using al by (auto simp: sysmem_alloc_fd_def write_fd_def Let_def split: if_splits)
      have room: "ring_free (phy s) = Suc (ring_free ?q)"
        using put q input_ring.put_full [OF Cons.prems, of ?fd] by (simp add: ring_free_def)
      have sel: "jb_flow (jobs ?s1 j) = jb_flow (jobs s j)" "jb_fd (jobs ?s1 j) = jb_fd (jobs s j)" for j by simp_all
      then have same: "is_stateless_job ?s1 = is_stateless_job s" "jobs_of ?s1 = jobs_of s"
        by (auto simp: is_stateless_job_def jobs_of_def fun_eq_iff)
      have step: "send_stateless_jobs (job # js) s = send_stateless_jobs js ?s1"
        using sl al Some by (simp add: Let_def)
      let ?sl = "take (ring_free ?q) (filter (is_stateless_job s) js)"
      obtain s' where s': "send_stateless_jobs js ?s1 = (length (filter (is_stateless_job s) js) \<le> ring_free ?q, s')"
        "ring_items (phy s') = ring_items ?q @ map (\<lambda>j. jb_fd (jobs s j)) ?sl"
        "\<forall>f. flows s' f = (flows ?s1 f)\<lparr>fl_u0 := fl_u0 (flows ?s1 f) + word_of_nat (length (jobs_of s f ?sl))\<rparr>"
        "input_ring_ok (phy s')" "phy_hw (phy s') = phy_hw ?q" "fms_ring_id (phy s') = fms_ring_id ?q"
        "input_fifo_size (phy s') = input_fifo_size ?q" "input_rd_ptr (phy s') = input_rd_ptr ?q"
        "dev s' = dev s" "pds s' = pds s" "\<forall>j. \<exists>x. jobs s' j = (jobs ?s1 j)\<lparr>jb_flow_offset := x\<rparr>"
        using Cons.IH [of ?s1] q(1) unfolding same sel Let_def by auto
      have fl: "flows s' f = (flows s f)\<lparr>fl_u0 := fl_u0 (flows s f) + word_of_nat (length (jobs_of s f (job # ?sl)))\<rparr>" for f
        using s'(3) by (cases "f = ?f") (simp_all add: jobs_of_def)
      have jb: "\<exists>x. jobs s' j = (jobs s j)\<lparr>jb_flow_offset := x\<rparr>" for j
        using spec [OF s'(11), of j] by (cases "j = job") auto
      show ?thesis
        using s' step q room sl fr fr2 fl jb by (intro exI [of _ s']) (simp add: Let_def)
    qed
  qed
qed

lemma check_jobs_stateless:
  "\<forall>j \<in> set js. j \<noteq> NULL \<and> jb_flow (jobs s j) \<noteq> NULL \<and> is_stateless_job s j \<Longrightarrow>
   check_jobs js s n m = Inr (n + length js, m)"
  by (induction js arbitrary: n) (auto simp: is_stateless_job_def Let_def)

lemma start_jobs_stateless_ring:
  assumes ok: "input_ring_ok (phy s)" "\<not> sw_fifos (dev s)" and js: "js \<noteq> []" "device \<noteq> NULL" "jobs_ptr \<noteq> NULL"
    and sl: "\<forall>j \<in> set js. j \<noteq> NULL \<and> jb_flow (jobs s j) \<noteq> NULL \<and> is_stateless_job s j"
  obtains s1 where "ring_items (phy s1) = ring_items (phy s) @ map (\<lambda>j. jb_fd (jobs s j)) (take (ring_free (phy s)) js)"
    "\<forall>f. flows s1 f = (flows s f)\<lparr>fl_u0 := fl_u0 (flows s f) + word_of_nat (length (jobs_of s f (take (ring_free (phy s)) js)))\<rparr>"
    "phy_hw (phy s1) = phy_hw (phy s)" "fms_ring_id (phy s1) = fms_ring_id (phy s)"
    "input_fifo_size (phy s1) = input_fifo_size (phy s)" "input_rd_ptr (phy s1) = input_rd_ptr (phy s)"
    "nlm_start_jobs device jobs_ptr js s = (if length js \<le> ring_free (phy s)
       then Some (NLM_OK, upd_phy nlm_device_update_input_wrt_ptr s1)
       else Some (NLM_INPUT_FIFO_FULL, upd_phy (\<lambda>p. p\<lparr>input_wrt_ptr := input_wrt_ptr (phy s)\<rparr>) s1))"
proof -
  have f: "filter (is_stateless_job s) js = js" using sl by (simp add: filter_id_conv)
  obtain s1 where s1: "send_stateless_jobs js s = (length js \<le> ring_free (phy s), s1)"
    "ring_items (phy s1) = ring_items (phy s) @ map (\<lambda>j. jb_fd (jobs s j)) (take (ring_free (phy s)) js)"
    "\<forall>f. flows s1 f = (flows s f)\<lparr>fl_u0 := fl_u0 (flows s f) + word_of_nat (length (jobs_of s f (take (ring_free (phy s)) js)))\<rparr>"
    "phy_hw (phy s1) = phy_hw (phy s)" "fms_ring_id (phy s1) = fms_ring_id (phy s)"
    "input_fifo_size (phy s1) = input_fifo_size (phy s)" "input_rd_ptr (phy s1) = input_rd_ptr (phy s)"
    using send_stateless_ring [OF ok(1), of js] unfolding f Let_def by auto
  have "nlm_start_jobs device jobs_ptr js s = (if length js \<le> ring_free (phy s)
       then Some (NLM_OK, upd_phy nlm_device_update_input_wrt_ptr s1)
       else Some (NLM_INPUT_FIFO_FULL, upd_phy (\<lambda>p. p\<lparr>input_wrt_ptr := input_wrt_ptr (phy s)\<rparr>) s1))"
    using js ok(2) check_jobs_stateless [OF sl, of 0 0] s1(1)
    by (auto simp: nlm_start_jobs_def start_stateless_jobs_def)
  with s1 that show thesis by blast
qed

section \<open>Queues of packet descriptors\<close>

definition pd_next :: "dp \<Rightarrow> addr \<Rightarrow> addr" where
  "pd_next s a = (let i = pd_nla_index (pd_nla (pds s a)) in if i = 0 then NULL else pd_at i s)"

lemma pd_next_same [simp]:
  "pd_next (upd_flow a g s) = pd_next s" "pd_next (upd_job a h s) = pd_next s"
  "pd_next (upd_pd a (\<lambda>d. d\<lparr>pd_rsv01 := x\<rparr>) s) = pd_next s" "pd_next (upd_pd a (\<lambda>d. d\<lparr>pd_flow_term := y\<rparr>) s) = pd_next s"
  by (intro ext; simp add: pd_next_def pd_at_def Let_def)+

text \<open>The packet descriptors of a flow that are started and not finished, oldest first. When the
  chain is not yet on its way to the device, its first descriptor is the pending one.\<close>

definition flow_queue :: "dp \<Rightarrow> addr \<Rightarrow> addr list \<Rightarrow> bool" where
  "flow_queue s flow ps \<longleftrightarrow>
     (let f = flows s flow in
      if ps = [] then fl_last_pd f = NULL \<and> fl_pending_pd_head f = NULL
      else chain (pd_next s) (hd ps) ps \<and> distinct ps \<and> fl_last_pd f = last ps \<and>
        (fl_pending_pd_head f = NULL \<or> fl_pending_pd_head f = hd ps))"

text \<open>The scheduling state: the pending list is exactly the flows with a pending chain, and the
  queues of different flows share no descriptor.\<close>

definition sched_ok :: "dp \<Rightarrow> addr list \<Rightarrow> (addr \<Rightarrow> addr list) \<Rightarrow> bool" where
  "sched_ok s fs Q \<longleftrightarrow> pending_ok s fs \<and> (\<forall>f. flow_queue s f (Q f)) \<and>
     (\<forall>f g. f \<noteq> g \<longrightarrow> set (Q f) \<inter> set (Q g) = {}) \<and>
     (\<forall>f. f \<in> set fs \<longleftrightarrow> fl_pending_pd_head (flows s f) \<noteq> NULL) \<and> (\<forall>f. f \<notin> set fs \<longrightarrow> fl_next (flows s f) = NULL)"

lemma pd_index_roundtrip:
  assumes "pd \<in> pd_slots s"
  shows "pd_at (pd_index pd s) s = pd" and "pd_index pd s \<noteq> 0"
proof -
  let ?i = "(pd - pd_base (phy s)) div sizeof_pd"
  have d: "sizeof_pd dvd pd - pd_base (phy s)" "0 < pd - pd_base (phy s)" "?i < 2 ^ 24"
    using assms by (auto simp: pd_slots_def)
  then have i: "0 < ?i" "?i * sizeof_pd = pd - pd_base (phy s)"
    by (auto simp: sizeof_defs pos_imp_zdiv_pos_iff zdvd_imp_le)
  then have u: "uint (pd_index pd s) = ?i"
    using d by (simp add: pd_index_def unsigned_of_int take_bit_int_eq_self)
  with i show "pd_at (pd_index pd s) s = pd" by (simp add: pd_at_def)
  from u i show "pd_index pd s \<noteq> 0" by auto
qed

lemma flow_queue_cong:
  assumes "\<And>a. a \<in> set ps \<Longrightarrow> pd_next s' a = pd_next s a"
    and "fl_last_pd (flows s' f) = fl_last_pd (flows s f)" "fl_pending_pd_head (flows s' f) = fl_pending_pd_head (flows s f)"
  shows "flow_queue s' f ps = flow_queue s f ps"
proof -
  have "chain (pd_next s') p ps = chain (pd_next s) p ps" for p
    using assms(1) by (intro chain_cong) auto
  with assms(2,3) show ?thesis by (simp add: flow_queue_def Let_def)
qed

lemma flow_queue_Nil [simp]:
  "flow_queue s f [] \<longleftrightarrow> fl_last_pd (flows s f) = NULL \<and> fl_pending_pd_head (flows s f) = NULL"
  by (simp add: flow_queue_def Let_def)

lemma flow_queue_NULL: "flow_queue s f ps \<Longrightarrow> ps \<noteq> [] \<Longrightarrow> fl_last_pd (flows s f) \<noteq> NULL"
  unfolding flow_queue_def Let_def by (metis chain_not_NULL last_in_set)

text \<open>Appending to a queue that is not empty writes a link into its last descriptor.\<close>

lemma flow_queue_link:
  assumes q: "flow_queue s flow ps" "ps \<noteq> []" and pd: "pd \<noteq> NULL" "pd \<notin> set ps" "pd_next s pd = NULL"
    and upd: "pd_next s' = (pd_next s)(last ps := pd)"
    and fl: "fl_last_pd (flows s' flow) = pd" "fl_pending_pd_head (flows s' flow) = fl_pending_pd_head (flows s flow)"
  shows "flow_queue s' flow (ps @ [pd])"
proof -
  obtain qs l where ps: "ps = qs @ [l]" using q(2) by (cases ps rule: rev_cases) auto
  have c: "chain (pd_next s) (hd ps) (qs @ [l])" "distinct (qs @ [l])" "fl_pending_pd_head (flows s flow) \<in> {NULL, hd ps}"
    using q ps by (auto simp: flow_queue_def Let_def)
  have "chain ((pd_next s)(l := pd)) (hd ps) (qs @ [l, pd])"
    using chain_snoc [OF c(1) pd(1,3)] pd(2) c(2) ps by simp
  with upd fl c(2,3) pd(2) ps show ?thesis
    by (auto simp: flow_queue_def Let_def hd_append)
qed

text \<open>What adding a job leaves of the rest of the state.\<close>

definition added :: "dp \<Rightarrow> dp \<Rightarrow> addr list \<Rightarrow> bool" where
  "added s s' ps \<longleftrightarrow> phy s' = phy s \<and> jobs s' = jobs s \<and>
     (\<exists>h t. dev s' = (dev s)\<lparr>pending_flow_list_head := h, pending_flow_list_tail := t\<rparr>) \<and>
     (\<forall>f. fl_flow_offset (flows s' f) = fl_flow_offset (flows s f) \<and> fl_u0 (flows s' f) = fl_u0 (flows s f) \<and>
        fl_type (flows s' f) = fl_type (flows s f)) \<and>
     (\<forall>a. \<exists>d i. pds s' a = set_pd_nla_index i ((pds s a)\<lparr>pd_sw_disconnect := d\<rparr>)) \<and>
     (\<forall>a. a \<notin> set ps \<longrightarrow> pds s' a = pds s a)"

lemma sched_link:
  assumes ok: "sched_ok s fs Q" and ne: "Q flow \<noteq> []" and pd: "pd \<noteq> NULL" "\<forall>f. pd \<notin> set (Q f)" "pd_next s pd = NULL"
    and upd: "pd_next s' = (pd_next s)(last (Q flow) := pd)"
    and fl: "flows s' = (flows s)(flow := (flows s flow)\<lparr>fl_last_pd := pd, fl_last_db_group_combination := c\<rparr>)" and dv: "dev s' = dev s"
  shows "sched_ok s' fs (Q(flow := Q flow @ [pd]))"
proof -
  have q: "flow_queue s f (Q f)" for f using ok by (simp add: sched_ok_def)
  have disj: "set (Q f) \<inter> set (Q g) = {}" if "f \<noteq> g" for f g using ok that by (simp add: sched_ok_def)
  have "flow_queue s' f ((Q(flow := Q flow @ [pd])) f)" for f
  proof (cases "f = flow")
    case True
    then show ?thesis using flow_queue_link [OF q ne pd(1) _ pd(3) upd] pd(2) fl by simp
  next
    case False
    then have "last (Q flow) \<notin> set (Q f)" using disj [of flow f] ne by (metis IntI empty_iff last_in_set)
    with False fl show ?thesis
      using q [of f] by (simp, subst flow_queue_cong [where s = s]) (auto simp: upd)
  qed
  moreover have "chain (\<lambda>a. fl_next (flows s' a)) p fs = chain (\<lambda>a. fl_next (flows s a)) p fs" for p
    by (intro chain_cong) (simp add: fl)
  then have "pending_ok s' fs" using ok dv by (simp add: sched_ok_def pending_ok_def)
  moreover have "fl_pending_pd_head (flows s' f) = fl_pending_pd_head (flows s f)" "fl_next (flows s' f) = fl_next (flows s f)" for f
    by (simp_all add: fl)
  ultimately show ?thesis
    using ok pd(2) unfolding sched_ok_def by auto
qed

lemma sched_first:
  assumes ok: "sched_ok s fs Q" and em: "Q flow = []" and fl: "flow \<noteq> NULL"
    and pd: "pd \<noteq> NULL" "\<forall>f. pd \<notin> set (Q f)" "pd_next s pd = NULL"
  obtains s1 where "nlm_device_add_flow_to_pending flow (upd_flow flow (\<lambda>f. f\<lparr>fl_pending_pd_head := pd\<rparr>) s) = Some s1"
    "\<And>g. sched_ok (upd_flow flow (\<lambda>f. f\<lparr>fl_last_pd := pd, fl_last_db_group_combination := g\<rparr>) s1) (fs @ [flow]) (Q(flow := [pd]))"
    "\<And>g. added s (upd_flow flow (\<lambda>f. f\<lparr>fl_last_pd := pd, fl_last_db_group_combination := g\<rparr>) s1) []"
proof -
  let ?s0 = "upd_flow flow (\<lambda>f. f\<lparr>fl_pending_pd_head := pd\<rparr>) s"
  have q: "flow_queue s f (Q f)" for f using ok by (simp add: sched_ok_def)
  have nf: "flow \<notin> set fs" "fl_next (flows s flow) = NULL" "fl_pending_pd_head (flows s flow) = NULL"
    using ok q [of flow] em by (auto simp: sched_ok_def)
  have "chain (\<lambda>a. fl_next (flows ?s0 a)) p fs = chain (\<lambda>a. fl_next (flows s a)) p fs" for p
    by (intro chain_cong) simp
  then have "pending_ok ?s0 fs" using ok by (simp add: sched_ok_def pending_ok_def)
  then obtain s1 where s1: "nlm_device_add_flow_to_pending flow ?s0 = Some s1" "pending_ok s1 (fs @ [flow])"
    "\<And>a. \<exists>n. flows s1 a = (flows ?s0 a)\<lparr>fl_next := n\<rparr>" "flows s1 flow = flows ?s0 flow"
    "\<And>a. a \<notin> set fs \<Longrightarrow> flows s1 a = flows ?s0 a"
    "phy s1 = phy s" "jobs s1 = jobs s" "pds s1 = pds s"
    "\<exists>h t. dev s1 = (dev s)\<lparr>pending_flow_list_head := h, pending_flow_list_tail := t\<rparr>"
    by (rule add_pending [where flow = flow]) (use nf fl in auto)
  let ?s' = "\<lambda>g. upd_flow flow (\<lambda>f. f\<lparr>fl_last_pd := pd, fl_last_db_group_combination := g\<rparr>) s1"
  have nx: "pd_next s1 = pd_next s"
    using s1(6,8) by (intro ext) (simp add: pd_next_def pd_at_def Let_def)
  have sel: "fl_last_pd (flows s1 f) = fl_last_pd (flows s f)" "f \<noteq> flow \<Longrightarrow> fl_pending_pd_head (flows s1 f) = fl_pending_pd_head (flows s f)"
    "fl_flow_offset (flows s1 f) = fl_flow_offset (flows s f)" "fl_u0 (flows s1 f) = fl_u0 (flows s f)" "fl_type (flows s1 f) = fl_type (flows s f)" for f
    using s1(3) [of f] by (auto split: if_splits)
  have "flow_queue (?s' g) f ((Q(flow := [pd])) f)" for f g
  proof (cases "f = flow")
    case True
    then show ?thesis using pd s1(4) by (simp add: flow_queue_def nx)
  next
    case False
    then show ?thesis using q [of f] sel by (simp, subst flow_queue_cong [where s = s]) (auto simp: nx)
  qed
  moreover have "chain (\<lambda>a. fl_next (flows (?s' g) a)) p xs = chain (\<lambda>a. fl_next (flows s1 a)) p xs" for p g xs
    by (intro chain_cong) simp
  then have "pending_ok (?s' g) (fs @ [flow])" for g using s1(2) by (simp add: pending_ok_def)
  moreover have "\<forall>f. f \<in> set (fs @ [flow]) \<longleftrightarrow> fl_pending_pd_head (flows (?s' g) f) \<noteq> NULL" for g
    using ok sel s1(4) pd(1) by (auto simp: sched_ok_def)
  moreover have "\<forall>f. f \<notin> set (fs @ [flow]) \<longrightarrow> fl_next (flows (?s' g) f) = NULL" for g
    using ok s1(5) by (auto simp: sched_ok_def)
  moreover have "\<forall>f g. f \<noteq> g \<longrightarrow> set ((Q(flow := [pd])) f) \<inter> set ((Q(flow := [pd])) g) = {}"
    using ok pd(2) by (auto simp: sched_ok_def)
  ultimately have "sched_ok (?s' g) (fs @ [flow]) (Q(flow := [pd]))" for g
    unfolding sched_ok_def by blast
  moreover have "\<exists>d i. x = set_pd_nla_index i (x\<lparr>pd_sw_disconnect := d\<rparr>)" for x
    by (intro exI [of _ "pd_sw_disconnect x"] exI [of _ "pd_nla_index (pd_nla x)"]) (simp add: set_pd_nla_index_def)
  then have "added s (?s' g) []" for g
    using s1(6-9) sel by (auto simp: added_def)
  ultimately show thesis using s1(1) that by blast
qed

lemma add_job_to_list:
  assumes ok: "sched_ok s fs Q" and fl: "flow \<noteq> NULL"
    and pd: "pd \<in> pd_slots s" "pd \<noteq> NULL" "\<forall>f. pd \<notin> set (Q f)" "pd_nla_index (pd_nla (pds s pd)) = 0"
  shows "\<exists>s'. nlm_flow_add_job_to_list flow job pd s = Some s' \<and> added s s' (Q flow) \<and>
    sched_ok s' (if Q flow = [] then fs @ [flow] else fs) (Q(flow := Q flow @ [pd]))"
proof -
  have q: "flow_queue s flow (Q flow)" using ok by (simp add: sched_ok_def)
  have pn: "pd_next s pd = NULL" using pd(4) by (simp add: pd_next_def)
  let ?c = "jb_db_group_combination (jobs s job)"
  show ?thesis
  proof (cases "Q flow = []")
    case True
    have "fl_last_pd (flows s flow) = NULL" "fl_pending_pd_head (flows s flow) = NULL"
      using q True by auto
    with True show ?thesis
      by (auto intro: sched_first [OF ok True fl pd(2,3) pn] simp: nlm_flow_add_job_to_list_def Let_def)
  next
    case False
    let ?l = "last (Q flow)"
    have l: "fl_last_pd (flows s flow) = ?l" "?l \<noteq> NULL" "?l \<in> set (Q flow)"
      using q False flow_queue_NULL [OF q] by (auto simp: flow_queue_def Let_def)
    define s2 where "s2 = upd_pd ?l (set_pd_nla_index (pd_index pd s))
      (if ?c \<noteq> fl_last_db_group_combination (flows s flow) then upd_pd ?l (\<lambda>d. d\<lparr>pd_sw_disconnect := 1\<rparr>) s else s)"
    let ?s' = "upd_flow flow (\<lambda>f. f\<lparr>fl_last_pd := pd, fl_last_db_group_combination := ?c\<rparr>) s2"
    have e: "nlm_flow_add_job_to_list flow job pd s = Some ?s'"
      using l by (simp add: nlm_flow_add_job_to_list_def s2_def Let_def)
    have base: "phy ?s' = phy s" "dev ?s' = dev s" "jobs ?s' = jobs s" "flows s2 = flows s" by (simp_all add: s2_def)
    let ?d = "if ?c \<noteq> fl_last_db_group_combination (flows s flow) then 1 else pd_sw_disconnect (pds s ?l)"
    have p: "\<exists>d. pds ?s' = (pds s)(?l := set_pd_nla_index (pd_index pd s) ((pds s ?l)\<lparr>pd_sw_disconnect := d\<rparr>))"
      by (intro exI [of _ ?d]) (simp add: s2_def)
    then have nx: "pd_next ?s' = (pd_next s)(?l := pd)"
      using pd_index_roundtrip [OF pd(1)] base(1)
      by (auto simp: pd_next_def pd_at_def set_pd_nla_index_def Let_def fun_eq_iff)
    have "sched_ok ?s' fs (Q(flow := Q flow @ [pd]))"
      using sched_link [OF ok False pd(2,3) pn nx] base by simp
    moreover have "\<exists>d i. x = set_pd_nla_index i (x\<lparr>pd_sw_disconnect := d\<rparr>)" for x
      by (intro exI [of _ "pd_sw_disconnect x"] exI [of _ "pd_nla_index (pd_nla x)"]) (simp add: set_pd_nla_index_def)
    then have "\<exists>d i. pds ?s' a = set_pd_nla_index i ((pds s a)\<lparr>pd_sw_disconnect := d\<rparr>)" for a
      using p by (cases "a = ?l") (auto, blast)
    moreover have "pds ?s' a = pds s a" if "a \<notin> set (Q flow)" for a
      using p that l(3) by auto
    moreover have "\<exists>h t. dev s = (dev s)\<lparr>pending_flow_list_head := h, pending_flow_list_tail := t\<rparr>"
      by (intro exI [of _ "pending_flow_list_head (dev s)"] exI [of _ "pending_flow_list_tail (dev s)"]) simp
    ultimately show ?thesis
      using e base False by (auto simp: added_def)
  qed
qed

section \<open>Starting stateful jobs\<close>

lemma sched_cong:
  assumes "sched_ok s fs Q" and "pd_next s' = pd_next s" and "dev s' = dev s"
    and "\<And>f. fl_next (flows s' f) = fl_next (flows s f) \<and> fl_last_pd (flows s' f) = fl_last_pd (flows s f) \<and>
      fl_pending_pd_head (flows s' f) = fl_pending_pd_head (flows s f)"
  shows "sched_ok s' fs Q"
proof -
  have "flow_queue s' f ps = flow_queue s f ps" for f ps
    using assms(2,4) by (intro flow_queue_cong) auto
  moreover have "pending_ok s' fs = pending_ok s fs"
    using assms(3,4) by (simp add: pending_ok_def)
  ultimately show ?thesis using assms(1,4) by (simp add: sched_ok_def)
qed

text \<open>The assertions on a stateful job that is about to be started.\<close>

definition ready :: "dp \<Rightarrow> addr \<Rightarrow> bool" where
  "ready s job \<longleftrightarrow>
     (let j = jobs s job; pd = jb_pd j; d = pds s pd in
      jb_flow j \<noteq> NULL \<and> fl_pdf_index (flows s (jb_flow j)) \<noteq> 0 \<and> pd \<in> pd_slots s \<and> pd \<noteq> NULL \<and>
      pd_rsv01 d = PD_CREATED_BUT_NOT_STARTED \<and> pd_nla_index (pd_nla d) = 0)"

definition job_bytes :: "dp \<Rightarrow> addr \<Rightarrow> u64" where
  "job_bytes s job = ucast (pd_packet_byte_count (pds s (jb_pd (jobs s job))))"

text \<open>What starting a job leaves of the rest: \<open>ps\<close> are the descriptors it may have touched.\<close>

definition started :: "dp \<Rightarrow> dp \<Rightarrow> addr list \<Rightarrow> bool" where
  "started s s' ps \<longleftrightarrow> phy s' = phy s \<and>
     (\<exists>h t. dev s' = (dev s)\<lparr>pending_flow_list_head := h, pending_flow_list_tail := t\<rparr>) \<and>
     (\<forall>f. fl_u0 (flows s' f) = fl_u0 (flows s f) \<and> fl_type (flows s' f) = fl_type (flows s f)) \<and>
     (\<forall>a. pd_packet_byte_count (pds s' a) = pd_packet_byte_count (pds s a) \<and> pd_flow_term (pds s' a) = pd_flow_term (pds s a)) \<and>
     (\<forall>a. a \<notin> set ps \<longrightarrow> pds s' a = pds s a)"

lemma start_stateful_job_ok:
  assumes ok: "sched_ok s fs Q" and rd: "ready s job" and new: "\<forall>f. jb_pd (jobs s job) \<notin> set (Q f)"
  shows "\<exists>s' fs'. start_stateful_job job s = Some s' \<and>
    sched_ok s' fs' (Q(jb_flow (jobs s job) := Q (jb_flow (jobs s job)) @ [jb_pd (jobs s job)])) \<and>
    started s s' (jb_pd (jobs s job) # Q (jb_flow (jobs s job))) \<and>
    jobs s' = (jobs s)(job := (jobs s job)\<lparr>jb_flow_offset := fl_flow_offset (flows s (jb_flow (jobs s job)))\<rparr>) \<and>
    (\<forall>f. fl_flow_offset (flows s' f) = fl_flow_offset (flows s f) + (if f = jb_flow (jobs s job) then job_bytes s job else 0)) \<and>
    fs' = (if Q (jb_flow (jobs s job)) = [] then fs @ [jb_flow (jobs s job)] else fs)"
proof -
  let ?flow = "jb_flow (jobs s job)" and ?pd = "jb_pd (jobs s job)"
  let ?s2 = "upd_flow ?flow (\<lambda>f. f\<lparr>fl_flow_offset := fl_flow_offset f + job_bytes s job\<rparr>)
    (upd_job job (\<lambda>j. j\<lparr>jb_flow_offset := fl_flow_offset (flows s ?flow)\<rparr>) s)"
  have r: "?flow \<noteq> NULL" "fl_pdf_index (flows s ?flow) \<noteq> 0" "?pd \<in> pd_slots s" "?pd \<noteq> NULL"
    "pd_rsv01 (pds s ?pd) = PD_CREATED_BUT_NOT_STARTED" "pd_nla_index (pd_nla (pds s ?pd)) = 0"
    using rd by (auto simp: ready_def Let_def)
  have "sched_ok ?s2 fs Q"
    by (rule sched_cong [OF ok]) auto
  moreover have "?pd \<in> pd_slots ?s2" using r(3) by (simp add: pd_slots_def)
  ultimately obtain s3 where s3: "nlm_flow_add_job_to_list ?flow job ?pd ?s2 = Some s3" "added ?s2 s3 (Q ?flow)"
    "sched_ok s3 (if Q ?flow = [] then fs @ [?flow] else fs) (Q(?flow := Q ?flow @ [?pd]))"
    using add_job_to_list [of ?s2 fs Q ?flow ?pd job] r new by auto
  let ?s' = "upd_pd ?pd (\<lambda>d. d\<lparr>pd_rsv01 := PD_VALID_AND_STARTED\<rparr>) s3"
  have "start_stateful_job job s = Some ?s'"
    using r s3(1) by (simp add: start_stateful_job_def Let_def job_bytes_def)
  moreover have "sched_ok ?s' (if Q ?flow = [] then fs @ [?flow] else fs) (Q(?flow := Q ?flow @ [?pd]))"
    by (rule sched_cong [OF s3(3)]) auto
  moreover have "pd_packet_byte_count (pds s3 a) = pd_packet_byte_count (pds s a)" "pd_flow_term (pds s3 a) = pd_flow_term (pds s a)" for a
  proof -
    have "\<forall>a. \<exists>d i. pds s3 a = set_pd_nla_index i ((pds s a)\<lparr>pd_sw_disconnect := d\<rparr>)"
      using s3(2) by (simp add: added_def)
    then obtain d i where "pds s3 a = set_pd_nla_index i ((pds s a)\<lparr>pd_sw_disconnect := d\<rparr>)" by blast
    then show "pd_packet_byte_count (pds s3 a) = pd_packet_byte_count (pds s a)" "pd_flow_term (pds s3 a) = pd_flow_term (pds s a)"
      by (simp_all add: set_pd_nla_index_def)
  qed
  then have "started s ?s' (?pd # Q ?flow)"
    using s3(2) by (auto simp: started_def added_def)
  ultimately show ?thesis
    using s3(2) by (intro exI [of _ ?s']) (auto simp: added_def)
qed

lemma started_trans:
  assumes "started s t ps" and "started t u qs" shows "started s u (ps @ qs)"
proof -
  obtain h t' where "dev t = (dev s)\<lparr>pending_flow_list_head := h, pending_flow_list_tail := t'\<rparr>"
    using assms(1) by (auto simp: started_def)
  moreover obtain h2 t2 where "dev u = (dev t)\<lparr>pending_flow_list_head := h2, pending_flow_list_tail := t2\<rparr>"
    using assms(2) by (auto simp: started_def)
  ultimately have "\<exists>h t. dev u = (dev s)\<lparr>pending_flow_list_head := h, pending_flow_list_tail := t\<rparr>"
    by (intro exI [of _ h2] exI [of _ t2]) simp
  with assms show ?thesis by (simp add: started_def)
qed

text \<open>The queues after starting a list of jobs.\<close>

definition queues_after :: "dp \<Rightarrow> (addr \<Rightarrow> addr list) \<Rightarrow> addr list \<Rightarrow> addr \<Rightarrow> addr list" where
  "queues_after s Q js f = Q f @ map (\<lambda>j. jb_pd (jobs s j)) (jobs_of s f js)"

lemma start_stateful_jobs_ok:
  assumes "sched_ok s fs Q" and "\<forall>j \<in> set js. ready s j \<and> is_stateful_job s j \<and> (\<forall>f. jb_pd (jobs s j) \<notin> set (Q f))"
    and "distinct js" "distinct (map (\<lambda>j. jb_pd (jobs s j)) js)"
  shows "\<exists>s' fs' ps. start_stateful_jobs js s = Some s' \<and> sched_ok s' fs' (queues_after s Q js) \<and> started s s' ps \<and>
    set fs' \<subseteq> set fs \<union> (\<lambda>j. jb_flow (jobs s j)) ` set js \<and>
    (\<forall>f. fl_flow_offset (flows s' f) = fl_flow_offset (flows s f) + sum_list (map (job_bytes s) (jobs_of s f js))) \<and>
    (\<forall>j. j \<notin> set js \<longrightarrow> jobs s' j = jobs s j) \<and>
    (\<forall>i < length js. jobs s' (js ! i) = (jobs s (js ! i))\<lparr>jb_flow_offset :=
       fl_flow_offset (flows s (jb_flow (jobs s (js ! i)))) +
       sum_list (map (job_bytes s) (jobs_of s (jb_flow (jobs s (js ! i))) (take i js)))\<rparr>)"
  using assms
proof (induction js arbitrary: s fs Q)
  case Nil
  have "\<exists>h t. dev s = (dev s)\<lparr>pending_flow_list_head := h, pending_flow_list_tail := t\<rparr>"
    by (intro exI [of _ "pending_flow_list_head (dev s)"] exI [of _ "pending_flow_list_tail (dev s)"]) simp
  then have "started s s []" by (simp add: started_def)
  moreover have "queues_after s Q [] = Q" by (simp add: fun_eq_iff queues_after_def jobs_of_def)
  ultimately show ?case
    using Nil.prems(1) by (intro exI [of _ s] exI [of _ fs] exI [of _ "[]"]) (simp add: jobs_of_def)
next
  case (Cons job js)
  let ?flow = "jb_flow (jobs s job)" and ?pd = "jb_pd (jobs s job)"
  let ?Q = "Q(?flow := Q ?flow @ [?pd])"
  obtain s1 fs1 where s1: "start_stateful_job job s = Some s1" "sched_ok s1 fs1 ?Q" "started s s1 (?pd # Q ?flow)"
    "jobs s1 = (jobs s)(job := (jobs s job)\<lparr>jb_flow_offset := fl_flow_offset (flows s ?flow)\<rparr>)"
    "\<forall>f. fl_flow_offset (flows s1 f) = fl_flow_offset (flows s f) + (if f = ?flow then job_bytes s job else 0)"
    "fs1 = (if Q ?flow = [] then fs @ [?flow] else fs)"
    using start_stateful_job_ok [OF Cons.prems(1), of job] Cons.prems(2) by auto
  have sel: "jb_flow (jobs s1 j) = jb_flow (jobs s j)" "jb_pd (jobs s1 j) = jb_pd (jobs s j)" for j
    by (simp_all add: s1(4))
  have same: "jobs_of s1 = jobs_of s" "job_bytes s1 = job_bytes s" "is_stateful_job s1 = is_stateful_job s"
    "pd_slots s1 = pd_slots s" "queues_after s1 ?Q js = queues_after s Q (job # js)"
    using s1(3) sel by (auto simp: fun_eq_iff jobs_of_def job_bytes_def is_stateful_job_def started_def pd_slots_def queues_after_def)
  have "ready s1 j" if "j \<in> set js" for j
  proof -
    have "ready s j" "jb_pd (jobs s j) \<notin> set (?pd # Q ?flow)"
      using that Cons.prems(2,4) by (auto simp: image_iff)
    with s1(3) show ?thesis by (auto simp: ready_def Let_def sel same(4) started_def)
  qed
  then have pre: "\<forall>j \<in> set js. ready s1 j \<and> is_stateful_job s1 j \<and> (\<forall>f. jb_pd (jobs s1 j) \<notin> set (?Q f))"
    using Cons.prems(2,4) unfolding sel same by (auto simp: image_iff)
  obtain s' fs' ps where s': "start_stateful_jobs js s1 = Some s'" "sched_ok s' fs' (queues_after s Q (job # js))" "started s1 s' ps"
    "set fs' \<subseteq> set fs1 \<union> (\<lambda>j. jb_flow (jobs s j)) ` set js"
    "\<forall>f. fl_flow_offset (flows s' f) = fl_flow_offset (flows s1 f) + sum_list (map (job_bytes s) (jobs_of s f js))"
    "\<forall>j. j \<notin> set js \<longrightarrow> jobs s' j = jobs s1 j"
    "\<forall>i < length js. jobs s' (js ! i) = (jobs s1 (js ! i))\<lparr>jb_flow_offset := fl_flow_offset (flows s1 (jb_flow (jobs s (js ! i)))) +
       sum_list (map (job_bytes s) (jobs_of s (jb_flow (jobs s (js ! i))) (take i js)))\<rparr>"
    using Cons.IH [OF s1(2) pre] Cons.prems(3,4) unfolding sel same by auto
  have "start_stateful_jobs (job # js) s = Some s'"
    using s1(1) s'(1) Cons.prems(2) by simp
  moreover have "started s s' ((?pd # Q ?flow) @ ps)" using started_trans [OF s1(3) s'(3)] .
  moreover have "set fs' \<subseteq> set fs \<union> (\<lambda>j. jb_flow (jobs s j)) ` set (job # js)"
    using s'(4) s1(6) by (auto split: if_splits)
  moreover have "fl_flow_offset (flows s' f) = fl_flow_offset (flows s f) + sum_list (map (job_bytes s) (jobs_of s f (job # js)))" for f
    using s'(5) s1(5) by (simp add: jobs_of_def)
  moreover have "jobs s' j = jobs s j" if "j \<notin> set (job # js)" for j using s'(6) s1(4) that by simp
  moreover have "jobs s' ((job # js) ! i) = (jobs s ((job # js) ! i))\<lparr>jb_flow_offset :=
       fl_flow_offset (flows s (jb_flow (jobs s ((job # js) ! i)))) +
       sum_list (map (job_bytes s) (jobs_of s (jb_flow (jobs s ((job # js) ! i))) (take i (job # js))))\<rparr>"
    if "i < length (job # js)" for i
  proof (cases i)
    case 0
    then show ?thesis using s'(6) s1(4) Cons.prems(3) by (simp add: jobs_of_def)
  next
    case (Suc k)
    with that have k: "k < length js" by simp
    have ne: "js ! k \<noteq> job" using Cons.prems(3) k by (metis distinct.simps(2) nth_mem)
    have "jobs s' (js ! k) = (jobs s (js ! k))\<lparr>jb_flow_offset := fl_flow_offset (flows s1 (jb_flow (jobs s (js ! k)))) +
        sum_list (map (job_bytes s) (jobs_of s (jb_flow (jobs s (js ! k))) (take k js)))\<rparr>"
      using s'(7) k s1(4) ne by simp
    then show ?thesis using s1(5) Suc by (simp add: jobs_of_def add.assoc)
  qed
  ultimately show ?case using s'(2) by (intro exI [of _ s'] exI [of _ fs'] exI [of _ "(?pd # Q ?flow) @ ps"]) blast
qed

section \<open>Starting jobs of stateful flows\<close>

text \<open>Context indexes fit into a descriptor, and only empty packets end a flow.\<close>

definition chains_ok :: "dp \<Rightarrow> (addr \<Rightarrow> addr list) \<Rightarrow> bool" where
  "chains_ok s Q \<longleftrightarrow> (\<forall>f. \<forall>a \<in> set (Q f). drop_bit 24 (fl_pdf_index (flows s f)) = 0 \<and>
     (pd_flow_term (pds s a) \<noteq> 0 \<longrightarrow> pd_packet_byte_count (pds s a) = 0))"

lemma chains_startable:
  assumes "sched_ok s fs Q" and "chains_ok s Q" and "f \<in> set fs"
  shows "startable s f"
proof -
  have q: "flow_queue s f (Q f)" and p: "fl_pending_pd_head (flows s f) \<noteq> NULL"
    using assms(1,3) by (auto simp: sched_ok_def)
  then have ne: "Q f \<noteq> []" by auto
  with q p have "fl_pending_pd_head (flows s f) = hd (Q f)" by (auto simp: flow_queue_def Let_def)
  moreover have "hd (Q f) \<in> set (Q f)" using ne by simp
  ultimately show ?thesis using assms(2) unfolding chains_ok_def startable_def Let_def by metis
qed

lemma sched_started:
  assumes ok: "sched_ok s fs Q" and p: "pending_ok s' (drop k fs)"
    and fl: "\<forall>f. flows s' f = (if f \<in> set (take k fs) then (flows s f)\<lparr>fl_next := NULL, fl_pending_pd_head := NULL\<rparr> else flows s f)"
    and nx: "pds s' = pds s" "pd_base (phy s') = pd_base (phy s)"
  shows "sched_ok s' (drop k fs) Q"
proof -
  have n: "pd_next s' = pd_next s" using nx by (intro ext) (simp add: pd_next_def pd_at_def Let_def)
  have "flow_queue s' f (Q f)" for f
  proof -
    have "flow_queue s f (Q f)" using ok by (simp add: sched_ok_def)
    with fl n show ?thesis by (auto simp: flow_queue_def Let_def split: if_splits)
  qed
  moreover have "distinct (take k fs @ drop k fs)" using ok by (simp add: sched_ok_def pending_ok_def)
  then have "set (take k fs) \<inter> set (drop k fs) = {}" by (simp only: distinct_append)
  then have "f \<notin> set (take k fs)" if "f \<in> set (drop k fs)" for f using that by blast
  moreover have "f \<in> set fs \<longleftrightarrow> f \<in> set (take k fs) \<or> f \<in> set (drop k fs)" for f
    by (metis Un_iff append_take_drop_id set_append)
  ultimately show ?thesis
    using ok p fl by (auto simp: sched_ok_def)
qed

lemma try_start_sched:
  assumes "sched_ok s fs Q" "chains_ok s Q" "input_ring_ok (phy s)" "\<not> sw_fifos (dev s)"
  shows "\<exists>s'. nlm_try_start_stateful_flows s = Some s' \<and> jobs s' = jobs s \<and>
    (let k = min (length fs) (ring_free (phy s)) in
     sched_ok s' (drop k fs) Q \<and> ring_items (phy s') = ring_items (phy s) @ map (fd_for s) (take k fs)) \<and>
    (\<forall>f. fl_flow_offset (flows s' f) = fl_flow_offset (flows s f))"
proof -
  let ?k = "min (length fs) (ring_free (phy s))"
  have "pending_ok s fs" using assms(1) by (simp add: sched_ok_def)
  moreover have "\<forall>f \<in> set fs. startable s f" using chains_startable [OF assms(1,2)] by blast
  ultimately obtain s1 where s1: "start_pending_flows s = Some s1" "pending_ok s1 (drop ?k fs)"
    "ring_items (phy s1) = ring_items (phy s) @ map (fd_for s) (take ?k fs)"
    "\<forall>f. flows s1 f = (if f \<in> set (take ?k fs) then (flows s f)\<lparr>fl_next := NULL, fl_pending_pd_head := NULL\<rparr> else flows s f)"
    "jobs s1 = jobs s" "pds s1 = pds s" "pd_base (phy s1) = pd_base (phy s)"
    using start_pending_flows_ring [of s fs] assms(3,4) by (auto simp: Let_def)
  have k: "sched_ok s1 (drop ?k fs) Q" using sched_started [OF assms(1) s1(2,4,6,7)] .
  have pb: "pd_base (nlm_device_update_input_wrt_ptr p) = pd_base p" for p
    by (simp add: nlm_device_update_input_wrt_ptr_def phy_set_register_def)
  have "pd_next (upd_phy nlm_device_update_input_wrt_ptr s1) = pd_next s1"
    by (intro ext) (simp add: pd_next_def pd_at_def Let_def pb)
  then have "sched_ok (upd_phy nlm_device_update_input_wrt_ptr s1) (drop ?k fs) Q"
    by (intro sched_cong [OF k]) auto
  with k s1 show ?thesis
    by (auto simp: nlm_try_start_stateful_flows_def Let_def)
qed

lemma check_jobs_stateful:
  "\<forall>j \<in> set js. j \<noteq> NULL \<and> jb_flow (jobs s j) \<noteq> NULL \<and> is_stateful_job s j \<Longrightarrow>
   check_jobs js s n m = Inr (n, m + length js)"
  by (induction js arbitrary: m) (auto simp: is_stateful_job_def Let_def flow_type_defs)

section \<open>Properties\<close>

text \<open>C13. Starting stateless jobs without a manager thread is all or nothing for the device:
  when the ring has room for all of them, their descriptors are appended to the ring in order
  and the write index is announced with one register write; otherwise the call reports that
  the input FIFO is full, the descriptors waiting in the ring are the same as before, and no
  register is touched.\<close>

theorem nlm_start_jobs_stateless:
  assumes "input_ring_ok (phy s)" "\<not> sw_fifos (dev s)" "js \<noteq> []" "device \<noteq> NULL" "jobs_ptr \<noteq> NULL"
    and "\<forall>j \<in> set js. j \<noteq> NULL \<and> jb_flow (jobs s j) \<noteq> NULL \<and> is_stateless_job s j"
  shows "\<exists>st s'. nlm_start_jobs device jobs_ptr js s = Some (st, s') \<and>
    (if length js \<le> ring_free (phy s)
     then st = NLM_OK \<and> ring_items (phy s') = ring_items (phy s) @ map (\<lambda>j. jb_fd (jobs s j)) js \<and>
       phy_hw (phy s') = SET_HW_REGISTER (FDF_FIFO_WRT_PTR (fms_ring_id (phy s))) (input_wrt_ptr (phy s')) (phy_hw (phy s))
     else st = NLM_INPUT_FIFO_FULL \<and> ring_items (phy s') = ring_items (phy s) \<and> phy_hw (phy s') = phy_hw (phy s) \<and>
       input_wrt_ptr (phy s') = input_wrt_ptr (phy s))"
  using assms
proof (rule start_jobs_stateless_ring)
  fix s1
  assume a: "ring_items (phy s1) = ring_items (phy s) @ map (\<lambda>j. jb_fd (jobs s j)) (take (ring_free (phy s)) js)"
    and b: "phy_hw (phy s1) = phy_hw (phy s)" "fms_ring_id (phy s1) = fms_ring_id (phy s)"
      "input_fifo_size (phy s1) = input_fifo_size (phy s)" "input_rd_ptr (phy s1) = input_rd_ptr (phy s)"
    and c: "nlm_start_jobs device jobs_ptr js s = (if length js \<le> ring_free (phy s)
       then Some (NLM_OK, upd_phy nlm_device_update_input_wrt_ptr s1)
       else Some (NLM_INPUT_FIFO_FULL, upd_phy (\<lambda>p. p\<lparr>input_wrt_ptr := input_wrt_ptr (phy s)\<rparr>) s1))"
  from a b c ring_rollback [OF a b(3,4)] show ?thesis by (cases "length js \<le> ring_free (phy s)") auto
qed

text \<open>A refused start is not undone in the flows: each flow counts the jobs that had
  found a place in the ring before it was full as in flight, although none was started. (A
  flow destroyed later waits for results that never come, so that its memory is lost.)\<close>

theorem nlm_start_jobs_full_counts:
  assumes "input_ring_ok (phy s)" "\<not> sw_fifos (dev s)" "js \<noteq> []" "device \<noteq> NULL" "jobs_ptr \<noteq> NULL"
    and "\<forall>j \<in> set js. j \<noteq> NULL \<and> jb_flow (jobs s j) \<noteq> NULL \<and> is_stateless_job s j"
    and "ring_free (phy s) < length js"
  shows "\<exists>s'. nlm_start_jobs device jobs_ptr js s = Some (NLM_INPUT_FIFO_FULL, s') \<and>
    (\<forall>f. fl_job_seq_id (flows s' f) =
       fl_job_seq_id (flows s f) + word_of_nat (length (jobs_of s f (take (ring_free (phy s)) js))))"
  using assms(1-6)
  by (rule start_jobs_stateless_ring) (use assms(7) in simp)

text \<open>C14. Starting pending stateful flows always returns; the flows are started in the order
  in which they became pending, each with one descriptor for the head of its chain, until all
  are started or the ring is full; the others stay pending in the same order. If any flow was
  started the new write index is announced to the device.\<close>

theorem nlm_try_start_stateful_flows_correct:
  assumes "pending_ok s fs" "input_ring_ok (phy s)" "\<not> sw_fifos (dev s)" "\<forall>f \<in> set fs. startable s f"
  shows "\<exists>s'. nlm_try_start_stateful_flows s = Some s' \<and>
    (let k = min (length fs) (ring_free (phy s)) in
     pending_ok s' (drop k fs) \<and> ring_items (phy s') = ring_items (phy s) @ map (fd_for s) (take k fs) \<and>
     (\<forall>f. fl_pending_pd_head (flows s' f) = (if f \<in> set (take k fs) then NULL else fl_pending_pd_head (flows s f))) \<and>
     (k \<noteq> 0 \<longrightarrow> phy_hw (phy s') =
        SET_HW_REGISTER (FDF_FIFO_WRT_PTR (fms_ring_id (phy s'))) (input_wrt_ptr (phy s')) (phy_hw (phy s))))"
proof -
  let ?k = "min (length fs) (ring_free (phy s))"
  obtain s1 where s1: "start_pending_flows s = Some s1" "pending_ok s1 (drop ?k fs)"
    "ring_items (phy s1) = ring_items (phy s) @ map (fd_for s) (take ?k fs)"
    "\<forall>f. flows s1 f = (if f \<in> set (take ?k fs) then (flows s f)\<lparr>fl_next := NULL, fl_pending_pd_head := NULL\<rparr> else flows s f)"
    "?k \<noteq> 0 \<longrightarrow> input_wrt_ptr_dirty (phy s1) = 1" "phy_hw (phy s1) = phy_hw (phy s)" "sw_fifos (dev s1) = sw_fifos (dev s)"
    using start_pending_flows_ring [OF assms] by (auto simp: Let_def)
  then show ?thesis
    using assms(3) by (cases "input_wrt_ptr_dirty (phy s1) = 0") (auto simp: nlm_try_start_stateful_flows_def Let_def)
qed

text \<open>C8. Starting jobs of stateful flows keeps the packets of every flow in order: the call
  succeeds, each flow's queue of packet descriptors grows at its end by the descriptors of its
  jobs in the order given, every job remembers the offset in its flow at which its packet
  begins, and the flow's offset grows by the lengths of the packets.\<close>

theorem nlm_start_jobs_stateful:
  assumes "sched_ok s fs Q" "chains_ok s (queues_after s Q js)" "input_ring_ok (phy s)" "\<not> sw_fifos (dev s)"
    and args: "js \<noteq> []" "device \<noteq> NULL" "jobs_ptr \<noteq> NULL"
    and "\<forall>j \<in> set js. j \<noteq> NULL \<and> ready s j \<and> is_stateful_job s j \<and> (\<forall>f. jb_pd (jobs s j) \<notin> set (Q f))"
    and "distinct js" "distinct (map (\<lambda>j. jb_pd (jobs s j)) js)"
  shows "\<exists>s' fs'. nlm_start_jobs device jobs_ptr js s = Some (NLM_OK, s') \<and> sched_ok s' fs' (queues_after s Q js) \<and>
    (\<forall>f. fl_flow_offset (flows s' f) = fl_flow_offset (flows s f) + sum_list (map (job_bytes s) (jobs_of s f js))) \<and>
    (\<forall>i < length js. jb_flow_offset (jobs s' (js ! i)) = fl_flow_offset (flows s (jb_flow (jobs s (js ! i)))) +
       sum_list (map (job_bytes s) (jobs_of s (jb_flow (jobs s (js ! i))) (take i js))))"
proof -
  obtain s1 fs1 ps where s1: "start_stateful_jobs js s = Some s1" "sched_ok s1 fs1 (queues_after s Q js)" "started s s1 ps"
    "\<forall>f. fl_flow_offset (flows s1 f) = fl_flow_offset (flows s f) + sum_list (map (job_bytes s) (jobs_of s f js))"
    "\<forall>i < length js. jobs s1 (js ! i) = (jobs s (js ! i))\<lparr>jb_flow_offset :=
       fl_flow_offset (flows s (jb_flow (jobs s (js ! i)))) +
       sum_list (map (job_bytes s) (jobs_of s (jb_flow (jobs s (js ! i))) (take i js)))\<rparr>"
    using start_stateful_jobs_ok [of s fs Q js] assms by auto
  have "chains_ok s1 (queues_after s Q js)" "input_ring_ok (phy s1)" "\<not> sw_fifos (dev s1)"
    using assms(2-4) s1(3) by (auto simp: chains_ok_def started_def)
  then obtain s2 where s2: "nlm_try_start_stateful_flows s1 = Some s2" "jobs s2 = jobs s1"
    "sched_ok s2 (drop (min (length fs1) (ring_free (phy s1))) fs1) (queues_after s Q js)"
    "\<forall>f. fl_flow_offset (flows s2 f) = fl_flow_offset (flows s1 f)"
    using try_start_sched [OF s1(2)] by (auto simp: Let_def)
  have "check_jobs js s 0 0 = Inr (0, length js)"
    using check_jobs_stateful [of js s 0 0] assms(8) by (auto simp: ready_def Let_def)
  then have "nlm_start_jobs device jobs_ptr js s = Some (NLM_OK, s2)"
    using args s1(1) s2(1) by (simp add: nlm_start_jobs_def)
  with s1 s2 show ?thesis by auto
qed

lemma fresh_flow_type:
  assumes "fresh_flow NLM_FLOW_TYPE_STATELESS f" shows "fl_type f = NLM_FLOW_TYPE_STATELESS"
proof -
  from assms have "f = flow_zero\<lparr>fl_type := NLM_FLOW_TYPE_STATELESS, fl_is_stateless := 1, fl_u0 := fl_u0 f\<rparr>"
    by (simp add: fresh_flow_def flow_type_defs)
  then show ?thesis by (metis nlm_flow.select_convs(1) nlm_flow.surjective nlm_flow.update_convs(1,7,11))
qed

lemma flow_pool_type:
  assumes "flow_pool_ok s U" and "a \<in> U"
  shows "flow_pool_ok (upd_flow a (\<lambda>f. f\<lparr>fl_type := t\<rparr>) s) U"
proof -
  let ?s = "upd_flow a (\<lambda>f. f\<lparr>fl_type := t\<rparr>) s"
  obtain sf sl where l: "flow_lists_ok s U sf sl" using assms(1) by (auto simp: flow_pool_ok_def)
  with assms(2) have a: "a \<notin> set (sf @ sl)" by (auto simp: flow_lists_ok_def)
  have "chain (\<lambda>b. flow_link (flows ?s b)) p ps = chain (\<lambda>b. flow_link (flows s b)) p ps" if "set ps \<subseteq> set (sf @ sl)" for p ps
    using a that by (intro chain_cong) auto
  then have "flow_lists_ok ?s U sf sl"
    using l a by (auto simp: flow_lists_ok_def pool_geometry_def flow_slots_def)
  then show ?thesis by (auto simp: flow_pool_ok_def)
qed

text \<open>Destroying a flow without work in the device frees it at once: a stateless flow with
  no job in flight, and a stateful flow on which nothing was sent, go back to the pool.\<close>

theorem nlm_destroy_idle_flow:
  assumes "flow_pool_ok s U" and "flow \<in> U" and "device \<noteq> NULL"
  shows "(fl_type (flows s flow) = NLM_FLOW_TYPE_STATELESS \<and> fl_job_seq_id (flows s flow) = 0 \<longrightarrow>
      (\<exists>s'. nlm_destroy_stateless_flow device flow s = Some (NLM_OK, s') \<and> flow_pool_ok s' (U - {flow}))) \<and>
    (fl_type (flows s flow) = NLM_FLOW_TYPE_STATEFUL \<and> fl_flow_offset (flows s flow) = 0 \<longrightarrow>
      (\<exists>s'. nlm_destroy_stateful_flow device flow cookie s = Some (NLM_END_OF_JOB, s') \<and> flow_pool_ok s' (U - {flow})))"
proof -
  have g: "pool_geometry s" and sl: "flow \<in> flow_slots s"
    using assms(1,2) by (auto simp: flow_pool_ok_def flow_lists_ok_def)
  then have n: "flow \<noteq> NULL" "memory_pool (dev s) \<noteq> NULL"
    using flow_slots_addr [OF g sl] by (auto simp: pool_geometry_def)
  let ?s = "upd_flow flow (\<lambda>f. f\<lparr>fl_type := NLM_FLOW_TYPE_INVALID\<rparr>) s"
  have "flow_pool_ok (memory_pool_free_flow flow ?s) (U - {flow})"
    using free_flow_ok [OF flow_pool_type [OF assms(1,2)] assms(2)] .
  with n assms(3) show ?thesis
    by (auto simp: nlm_destroy_stateless_flow_def nlm_destroy_stateful_flow_def Let_def flow_type_defs)
qed

text \<open>Destroying a stateful flow is not retried: when the packet that ends the flow cannot be
  enqueued, the flow has already lost its type, so that every later attempt to destroy it
  is refused as well and its memory is never freed.\<close>

theorem nlm_destroy_stateful_flow_once:
  assumes "nlm_destroy_stateful_flow device flow cookie s = Some (st, s')"
    and "st \<in> {NLM_OUT_OF_MEMORY, NLM_OUT_OF_DEVICE_MEMORY, NLM_OUT_OF_PACKET_MEMORY}"
  shows "nlm_destroy_stateful_flow device flow cookie' s' = Some (NLM_INVALID_FLOW, s')"
proof -
  have a: "device \<noteq> NULL" "flow \<noteq> NULL" "memory_pool (dev s) \<noteq> NULL" "fl_type (flows s flow) = NLM_FLOW_TYPE_STATEFUL"
    using assms by (auto simp: nlm_destroy_stateful_flow_def assert_then_def split: if_splits)
  let ?s2 = "upd_flow flow (\<lambda>f. f\<lparr>fl_db_group_combination := fl_db_group_combination f + 1\<rparr>)
    (upd_flow flow (\<lambda>f. f\<lparr>fl_type := NLM_FLOW_TYPE_INVALID\<rparr>) s)"
  have keep: "flows s3 = flows t \<and> memory_pool (dev s3) = memory_pool (dev t)"
    if "nlm_flow_enqueue_search_1 flow NULL NULL cookie t = (x, r, s3)" for x r s3 t
    using that
    by (auto simp: nlm_flow_enqueue_search_1_def Let_def memory_pool_alloc_job_def sysmem_alloc_pd_def memory_pool_free_job_def
        sysmem_free_pd_def split: if_splits prod.splits)
  obtain x r s3 where e: "nlm_flow_enqueue_search_1 flow NULL NULL cookie ?s2 = (x, r, s3)" by (rule prod_cases3)
  have "s' = s3"
    using assms a e
    by (auto simp: nlm_destroy_stateful_flow_def Let_def flow_type_defs split: if_splits option.splits simp: bind_eq_Some_conv)
  with keep [OF e] a show ?thesis
    by (simp add: nlm_destroy_stateful_flow_def flow_type_defs)
qed

section \<open>Examples\<close>

text \<open>Jobs of one flow, with their packet descriptor at \<open>0x10010\<close>.\<close>

definition dp_jobs :: "u32 \<Rightarrow> dp" where
  "dp_jobs t = upd_pd 0x10010 (\<lambda>d. d\<lparr>pd_rsv01 := PD_CREATED_BUT_NOT_STARTED, pd_packet_byte_count := 0x30\<rparr>)
     (upd_dev (\<lambda>d. d\<lparr>first_free_pd := 0x10020\<rparr>) ((dp_flow t)\<lparr>jobs := \<lambda>_. job_zero\<lparr>jb_flow := 0x1100, jb_pd := 0x10010\<rparr>\<rparr>))"

lemma pd_zero_simps:
  "pd_flow_term pd_zero = 0" "pd_nla pd_zero = \<lparr>rsv_cookie = 0, pd_nla_index = 0\<rparr>"
  by (simp_all add: pd_zero_def pd_of_words_def set_pd_word0_def nla_of_word_def)

lemma dp_jobs_sel:
  "phy (dp_jobs t) = phy0" "jobs (dp_jobs t) j = job_zero\<lparr>jb_flow := 0x1100, jb_pd := 0x10010\<rparr>" "sw_fifos (dev (dp_jobs t)) = False"
  "flows (dp_jobs t) = (\<lambda>_. flow_zero)(0x1100 := flow_zero\<lparr>fl_type := t, fl_db_group_cnt := 1, fl_u0 := 8\<rparr>)"
  "dev (dp_jobs t) = dev0\<lparr>first_free_pd := 0x10020\<rparr>"
  "pds (dp_jobs t) = (\<lambda>_. pd_zero)(0x10010 := pd_zero\<lparr>pd_rsv01 := PD_CREATED_BUT_NOT_STARTED, pd_packet_byte_count := 0x30\<rparr>)"
  by (simp_all add: dp_jobs_def dp_flow_def dev0_def)

lemma ring_phy0: "ring_items phy0 = []" "ring_free phy0 = 3"
  by (simp_all add: ring_items_def ring_count_def ring_free_def ring_cap_def phy0_def)

lemma dp_jobs_stateless:
  "\<forall>j \<in> set [1, 2, 3, 4]. j \<noteq> NULL \<and> jb_flow (jobs (dp_jobs NLM_FLOW_TYPE_STATELESS) j) \<noteq> NULL \<and>
     is_stateless_job (dp_jobs NLM_FLOW_TYPE_STATELESS) j"
  by (simp add: dp_jobs_sel is_stateless_job_def)

theorem nlm_start_jobs_stateless_witness:
  "\<exists>s'. nlm_start_jobs 1 1 [1, 2, 3, 4] (dp_jobs NLM_FLOW_TYPE_STATELESS) = Some (NLM_INPUT_FIFO_FULL, s') \<and> ring_items (phy s') = []"
  using nlm_start_jobs_stateless [of "dp_jobs NLM_FLOW_TYPE_STATELESS" "[1, 2, 3, 4]" 1 1] input_ring_phy0 dp_jobs_stateless
  by (auto simp: dp_jobs_sel(1,3) ring_phy0)

theorem nlm_start_jobs_full_counts_witness:
  "\<exists>s'. nlm_start_jobs 1 1 [1, 2, 3, 4] (dp_jobs NLM_FLOW_TYPE_STATELESS) = Some (NLM_INPUT_FIFO_FULL, s') \<and>
     fl_job_seq_id (flows s' 0x1100) = 8 + 3"
proof -
  let ?s = "dp_jobs NLM_FLOW_TYPE_STATELESS"
  obtain s' where s': "nlm_start_jobs 1 1 [1, 2, 3, 4] ?s = Some (NLM_INPUT_FIFO_FULL, s')"
    "\<forall>f. fl_job_seq_id (flows s' f) = fl_job_seq_id (flows ?s f) + word_of_nat (length (jobs_of ?s f (take (ring_free (phy ?s)) [1, 2, 3, 4])))"
    using nlm_start_jobs_full_counts [of ?s "[1, 2, 3, 4]" 1 1] input_ring_phy0 dp_jobs_stateless
    by (auto simp: dp_jobs_sel(1,3) ring_phy0)
  from spec [OF s'(2), of "0x1100"] have "fl_job_seq_id (flows s' 0x1100) = 8 + 3"
    by (simp add: dp_jobs_sel ring_phy0 jobs_of_def)
  with s'(1) show ?thesis by blast
qed

text \<open>The flow at \<open>0x1100\<close> waits to be started.\<close>

definition dp_pending :: dp where
  "dp_pending = upd_dev (\<lambda>d. d\<lparr>pending_flow_list_head := 0x1100, pending_flow_list_tail := 0x1100\<rparr>)
     (upd_flow 0x1100 (\<lambda>f. f\<lparr>fl_pending_pd_head := 0x10010, fl_last_pd := 0x10010\<rparr>) (dp_jobs NLM_FLOW_TYPE_STATEFUL))"

theorem nlm_try_start_stateful_flows_correct_witness:
  "\<exists>s'. nlm_try_start_stateful_flows dp_pending = Some s' \<and> pending_ok s' [] \<and> map fd_pdf_index (ring_items (phy s')) = [8]"
proof -
  have p: "pending_ok dp_pending [0x1100]"
    by (simp add: pending_ok_def dp_pending_def dp_jobs_sel flow_zero_def)
  have st: "startable dp_pending 0x1100"
    by (simp add: startable_def dp_pending_def dp_jobs_sel pd_zero_simps)
  have f: "fd_pdf_index (fd_for dp_pending 0x1100) = 8"
    by (simp add: fd_for_def fill_fd_def dp_pending_def dp_jobs_sel pd_zero_simps HW_COPY_PD_INTO_FD_def Let_def)
  have ph: "phy dp_pending = phy0" "\<not> sw_fifos (dev dp_pending)" by (simp_all add: dp_pending_def dp_jobs_sel dev0_def)
  show ?thesis
    using nlm_try_start_stateful_flows_correct [OF p] st f ph input_ring_phy0 by (auto simp: Let_def ring_phy0)
qed

theorem nlm_start_jobs_stateful_witness:
  "\<exists>s' fs'. nlm_start_jobs 1 1 [1] (dp_jobs NLM_FLOW_TYPE_STATEFUL) = Some (NLM_OK, s') \<and>
     sched_ok s' fs' (queues_after (dp_jobs NLM_FLOW_TYPE_STATEFUL) (\<lambda>_. []) [1]) \<and> fl_flow_offset (flows s' 0x1100) = 0x30"
proof -
  let ?s = "dp_jobs NLM_FLOW_TYPE_STATEFUL"
  have a: "sched_ok ?s [] (\<lambda>_. [])"
    by (simp add: sched_ok_def pending_ok_def dp_jobs_sel flow_zero_def dev0_def)
  have c: "chains_ok ?s (queues_after ?s (\<lambda>_. []) [1])"
    by (auto simp: chains_ok_def queues_after_def jobs_of_def dp_jobs_sel pd_zero_simps)
  have r: "ready ?s 1" "is_stateful_job ?s 1"
    by (simp_all add: ready_def is_stateful_job_def Let_def dp_jobs_sel pd_slots_def sizeof_defs pd_zero_simps)
  obtain s' fs' where s': "nlm_start_jobs 1 1 [1] ?s = Some (NLM_OK, s')" "sched_ok s' fs' (queues_after ?s (\<lambda>_. []) [1])"
    "\<forall>f. fl_flow_offset (flows s' f) = fl_flow_offset (flows ?s f) + sum_list (map (job_bytes ?s) (jobs_of ?s f [1]))"
    using nlm_start_jobs_stateful [OF a c, of 1 1] r input_ring_phy0 by (auto simp: dp_jobs_sel(1,3))
  from spec [OF s'(3), of "0x1100"] have "fl_flow_offset (flows s' 0x1100) = 0x30"
    by (simp add: jobs_of_def job_bytes_def dp_jobs_sel flow_zero_def)
  with s' show ?thesis by blast
qed

theorem nlm_destroy_idle_flow_witness:
  "\<exists>s t. nlm_create_flow 1 NLM_FLOW_TYPE_STATELESS 1 dp0 = Some (NLM_OK, Some 0x1100, s) \<and>
     nlm_destroy_stateless_flow 1 0x1100 s = Some (NLM_OK, t) \<and> flow_pool_ok t {}"
proof (rule create_flow_cases [OF flow_pool_dp0, of NLM_FLOW_TYPE_STATELESS 1 1])
  have e: "map_option (\<lambda>(st, a, _). (st, a)) (nlm_create_flow 1 NLM_FLOW_TYPE_STATELESS 1 dp0) = Some (NLM_OK, Some 0x1100)"
    and u: "map_option (\<lambda>(_, _, s). fl_u0 (flows s 0x1100)) (nlm_create_flow 1 NLM_FLOW_TYPE_STATELESS 1 dp0) = Some 0"
    by (simp_all add: nlm_create_flow_def memory_pool_alloc_flow_def Let_def dev0_def sizeof_defs flow_type_defs flow_zero_def)
  show ?thesis if "nlm_create_flow 1 NLM_FLOW_TYPE_STATELESS 1 dp0 = Some (st, Some NULL, s')" for st s'
    using e that by simp
  show ?thesis if c: "nlm_create_flow 1 NLM_FLOW_TYPE_STATELESS 1 dp0 = Some (NLM_OK, Some a, s')"
    "flow_pool_ok s' (insert a {})" "fresh_flow NLM_FLOW_TYPE_STATELESS (flows s' a)" for a s'
  proof -
    have a: "a = 0x1100" using e c(1) by simp
    have "fl_type (flows s' a) = NLM_FLOW_TYPE_STATELESS" using fresh_flow_type [OF c(3)] by simp
    moreover have "fl_u0 (flows s' a) = 0" using u c(1) a by simp
    ultimately show ?thesis
      using nlm_destroy_idle_flow [OF c(2), of a 1 0] c(1) a by auto
  qed
qed simp_all

theorem nlm_destroy_stateful_flow_once_witness:
  "\<exists>s s'. nlm_destroy_stateful_flow 1 0x1100 7 s = Some (NLM_OUT_OF_MEMORY, s') \<and>
     nlm_destroy_stateful_flow 1 0x1100 7 s' = Some (NLM_INVALID_FLOW, s')"
proof -
  let ?s = "upd_dev (\<lambda>d. d\<lparr>first_free_job := 0x1100\<rparr>)
    (upd_flow 0x1100 (\<lambda>f. f\<lparr>fl_flow_offset := 5, fl_db_group_combination := 1\<rparr>) (dp_flow NLM_FLOW_TYPE_STATEFUL))"
  have "map_option fst (nlm_destroy_stateful_flow 1 0x1100 7 ?s) = Some NLM_OUT_OF_MEMORY"
    by (simp add: nlm_destroy_stateful_flow_def nlm_flow_enqueue_search_1_def memory_pool_alloc_job_def dp_flow_def dev0_def
        sizeof_defs flow_zero_def flow_type_defs Let_def)
  then obtain s' where s': "nlm_destroy_stateful_flow 1 0x1100 7 ?s = Some (NLM_OUT_OF_MEMORY, s')" by auto
  with nlm_destroy_stateful_flow_once [OF s', of 7] show ?thesis by auto
qed

end
