(* ===== verification/Results.thy ===== *)
theory Results
  imports Jobs
begin

unbundle bit_operations_syntax

text \<open>
  Collecting results: convert_hw_error_code_to_status, populate_results, consume_rd_for_thread,
  get_search_results_from_fifo and nlm_get_all_search_results of lib/dataplane/fms_packet_api.c.
  A match is decoded into the user's buffer; the result that ends a job gives the job and its
  packet descriptor back and, for a stateful flow, lets the flow's next chain start.
\<close>

section \<open>Model\<close>

definition convert_hw_error_code_to_status :: "u32 \<Rightarrow> nlm_status" where
  "convert_hw_error_code_to_status error_code =
     (if error_code = 0 then NLM_OK
      else if error_code = 1 \<or> error_code = 4 then NLM_DEVICE_ILLEGAL_INSTRUCTION
      else if error_code = 2 \<or> error_code = 5 then NLM_DEVICE_SRAM_ADDR
      else if error_code = 3 \<or> error_code = 6 then NLM_DEVICE_PARITY_ERROR
      else if error_code = 7 then NLM_DEVICE_NFA_STATE_LIMIT
      else if error_code = 8 then NLM_END_OF_JOB
      else if error_code = 9 then NLM_DEVICE_NFA_TIMEOUT
      else if error_code = 10 then NLM_DEVICE_DFA_TIMEOUT
      else if error_code = 13 then NLM_DEVICE_BUSY_POLL_TIMEOUT
      else if error_code = 15 then NLM_DEVICE_CONTEXT_FAIL
      else if error_code = 0x15 then NLM_DEVICE_RESULT_CLAMP
      else if error_code = 0x16 then NLM_DEVICE_CONTEXT_CLAMP
      else if error_code = 0x17 then NLM_DEVICE_CONTEXT_RING_EMPTY
      else if error_code = 0x1C then NLM_INVALID_GROUPID
      else NLM_DEVICE_FAILURE)"

record nlm_match =
  m_rule_id :: u32
  m_group_id :: u32
  m_database_id :: u32
  m_byte_offset :: u32
  m_flow_offset :: u64
  m_match_length :: u32

record nlm_stats =
  s_timestamp :: u64
  s_total_state_cnt :: u32
  s_peak_state_cnt :: u8
  s_final_state_cnt :: u8

text \<open>The union \<^verbatim>\<open>u\<close>: the code always writes all fields of one of its members.\<close>

datatype nlm_result_u = U_match nlm_match | U_stats nlm_stats

record nlm_result =
  r_status :: nlm_status
  r_cookie :: addr
  r_u :: nlm_result_u

definition match_flow_offset :: "hw_result_descriptor \<Rightarrow> u64" where
  "match_flow_offset rd = ucast (rd_byte_offset_lo rd) OR push_bit 24 (ucast (rd_byte_offset_hi rd))"

definition decode_match :: "hw_result_descriptor \<Rightarrow> nlm_job \<Rightarrow> nlm_match" where
  "decode_match rd j =
     \<lparr>m_rule_id = ucast (rd_rule_id rd), m_group_id = ucast (rd_gid rd AND 0x3ff),
      m_database_id = ucast (drop_bit 10 (rd_gid rd)),
      m_byte_offset = ucast (match_flow_offset rd - jb_flow_offset j),
      m_flow_offset = match_flow_offset rd, m_match_length = ucast (rd_match_length rd)\<rparr>"

definition decode_stats :: "hw_result_descriptor \<Rightarrow> nlm_stats" where
  "decode_stats rd =
     \<lparr>s_timestamp = push_bit 24 (ucast (rd_timestamp_hi rd)) OR ucast (rd_timestamp_lo rd),
      s_total_state_cnt = 0, s_peak_state_cnt = 0, s_final_state_cnt = 0\<rparr>"

text \<open>Releasing the packet descriptor, the part under \<^verbatim>\<open>if (pd)\<close>.\<close>

definition finish_pd :: "hw_result_descriptor \<Rightarrow> addr \<Rightarrow> addr \<Rightarrow> dp \<Rightarrow> dp option" where
  "finish_pd rd flow pd s =
     assert_then (pd_rsv01 (pds s pd) = PD_VALID_AND_STARTED)
       (map_option (sysmem_free_pd pd)
         (if pd_flow_term (pds s pd) \<noteq> 0 then
            assert_then (fl_type (flows s flow) = NLM_FLOW_TYPE_INVALID \<and> rd_result_type rd = FMS_FRD_RESULT)
              (Some (memory_pool_free_flow flow s))
          else if (fl_type (flows s flow) = NLM_FLOW_TYPE_STATEFUL
              \<or> fl_type (flows s flow) = NLM_FLOW_TYPE_INVALID \<and> fl_is_stateless (flows s flow) = 0)
              \<and> rd_result_type rd = FMS_FRD_RESULT
          then nlm_flow_notice_job_completion flow pd s
          else Some s))"

text \<open>Counting a finished job of a stateless flow.\<close>

definition finish_stateless :: "hw_result_descriptor \<Rightarrow> addr \<Rightarrow> dp \<Rightarrow> dp option" where
  "finish_stateless rd flow s =
     (if fl_is_stateless (flows s flow) \<noteq> 0 then
        assert_then (rd_result_type rd = FMS_FRD_RESULT)
          (let s1 = upd_flow flow (\<lambda>f. f\<lparr>fl_u0 := fl_u0 f - 1\<rparr>) s in
           Some (if fl_type (flows s1 flow) = NLM_FLOW_TYPE_INVALID \<and> fl_job_seq_id (flows s1 flow) = 0
                 then memory_pool_free_flow flow s1 else s1))
      else Some s)"

text \<open>The result descriptor, the buffer and its index are passed in and out; the function always
  returns 0. Entry \<open>j\<close> of the buffer is written even where the index is not advanced.\<close>

definition populate_results ::
  "hw_result_descriptor \<Rightarrow> nlm_result list \<Rightarrow> nat \<Rightarrow> dp \<Rightarrow>
   (hw_result_descriptor \<times> nlm_result list \<times> nat \<times> dp) option" where
  "populate_results rd buf j s =
     assert_then (rd_cookie rd \<noteq> 0 \<and> rd_valid rd \<noteq> 0)
       (let job = job_at (rd_cookie rd) s;
            jb = jobs s job; flow = jb_flow jb; pd = jb_pd jb; f = flows s flow;
            done = rd\<lparr>rd_u4 := RD_WAS_PROCESSED\<rparr>;
            buf1 = buf[j := (buf ! j)\<lparr>r_cookie := jb_user_cookie jb\<rparr>]
        in assert_then (fd_cookie (jb_fd jb) = rd_cookie rd \<and> (if fl_is_stateless f \<noteq> 0 then pd = NULL else pd \<noteq> NULL))
          (if rd_result_type rd = FMS_MATCH_RESULT then
             if rd_end_anchor rd \<noteq> 0 \<and> fl_errored f \<noteq> 0 then Some (rd, buf1, j, s)
             else assert_then (fl_errored f = 0)
               (let st = (if rd_end_anchor rd \<noteq> 0 then NLM_END_ANCHORED else NLM_OK)
                in Some (done, buf1[j := (buf1 ! j)\<lparr>r_status := st, r_u := U_match (decode_match rd jb)\<rparr>], j + 1, s))
           else if rd_result_type rd = FMS_FRD_RESULT \<or> rd_result_type rd = FMS_PRD_RESULT then
             let st = (if rd_error_code rd = 0 then NLM_END_OF_JOB
                       else convert_hw_error_code_to_status (ucast (rd_error_code rd)));
                 buf2 = buf1[j := (buf1 ! j)\<lparr>r_status := st, r_u := U_stats (decode_stats rd)\<rparr>];
                 s1 = (if rd_error_code rd = 0 then s
                       else upd_flow flow (\<lambda>f. f\<lparr>fl_errored := ucast (rd_error_code rd)\<rparr>) s)
             in Option.bind (if pd \<noteq> NULL then finish_pd rd flow pd s1 else Some s1) (\<lambda>s2.
                Option.bind (finish_stateless rd flow (memory_pool_free_job job s2)) (\<lambda>s3.
                Some (done, buf2, j + 1, s3)))
           else if rd_result_type rd = FMS_ERD_RESULT then Some (done, buf1, j, s)
           else None))"

definition upd_rd :: "nat \<Rightarrow> hw_result_descriptor \<Rightarrow> dp \<Rightarrow> dp" where
  "upd_rd k rd s = upd_phy (\<lambda>p. p\<lparr>output_fifo := (output_fifo p)[k := rd]\<rparr>) s"

text \<open>The result for slot \<open>k\<close> of the output ring; true when it is for another thread.\<close>

definition consume_rd_for_thread ::
  "nat \<Rightarrow> nlm_result list \<Rightarrow> nat \<Rightarrow> dp \<Rightarrow> (bool \<times> nlm_result list \<times> nat \<times> dp) option" where
  "consume_rd_for_thread k buf j s =
     (let rd = output_fifo (phy s) ! k in
      if rd_u4 rd = RD_WAS_PROCESSED then Some (False, buf, j, s)
      else assert_then (rd_cookie rd \<noteq> 0)
        (if NLM_GET_THREAD_ID (rd_cookie rd) \<noteq> thread_id (dev s) then Some (True, buf, j, s)
         else map_option (\<lambda>(rd', buf', j', s'). (False, buf', j', upd_rd k rd' s')) (populate_results rd buf j s)))"

definition result_fifo_of :: "dp \<Rightarrow> nlm_result_fifo" where
  "result_fifo_of s = sw_result_fifo (phy s) ! unat (thread_id (dev s))"

definition upd_result_fifo :: "(nlm_result_fifo \<Rightarrow> nlm_result_fifo) \<Rightarrow> dp \<Rightarrow> dp" where
  "upd_result_fifo g s =
     upd_phy (\<lambda>p. p\<lparr>sw_result_fifo := (sw_result_fifo p)[unat (thread_id (dev s)) := g (result_fifo_of s)]\<rparr>) s"

text \<open>The loop over the software FIFO. The comparison with the size of the buffer comes after a
  result is stored.\<close>

partial_function (option) fifo_results ::
  "nat \<Rightarrow> nlm_result list \<Rightarrow> nat \<Rightarrow> dp \<Rightarrow> (nlm_result list \<times> nat \<times> dp) option" where
  [code]: "fifo_results n buf j s =
     (case peek_result_fifo_output (result_fifo_of s) of
        None \<Rightarrow> Some (buf, j, s)
      | Some i \<Rightarrow>
          Option.bind (populate_results (rf_buf (result_fifo_of s) ! i) buf j s) (\<lambda>(rd', buf', j', s1).
          let s2 = upd_result_fifo (\<lambda>q. pop_result_fifo (q\<lparr>rf_buf := (rf_buf q)[i := rd']\<rparr>)) s1
          in if j' = n then Some (buf', j', s2) else fifo_results n buf' j' s2))"

definition get_search_results_from_fifo ::
  "nat \<Rightarrow> nlm_result list \<Rightarrow> dp \<Rightarrow> (nlm_result list \<times> nat \<times> dp) option" where
  "get_search_results_from_fifo n buf s = fifo_results n buf 0 s"

text \<open>One of the loops over the output ring: the slots \<open>ks\<close>, the index \<open>e\<close> the loop ends with. The
  result is the index reached, whether some result was for another thread, and the buffer.\<close>

fun scan_rds ::
  "nat list \<Rightarrow> nat \<Rightarrow> nat \<Rightarrow> bool \<Rightarrow> nlm_result list \<Rightarrow> nat \<Rightarrow> dp \<Rightarrow> (nat \<times> bool \<times> nlm_result list \<times> nat \<times> dp) option" where
  "scan_rds [] e n nu buf j s = Some (e, nu, buf, j, s)"
| "scan_rds (k # ks) e n nu buf j s =
     (case consume_rd_for_thread k buf j s of
        None \<Rightarrow> None
      | Some (b, buf', j', s') \<Rightarrow>
          if j' = n then Some (k, nu \<or> b, buf', j', s') else scan_rds ks e n (nu \<or> b) buf' j' s')"

definition try_pending :: "dp \<Rightarrow> dp option" where
  "try_pending s = (if pending_flow_list_head (dev s) \<noteq> NULL then nlm_try_start_stateful_flows s else Some s)"

text \<open>\<open>n\<close> is the size of the user's buffer. The result is the status, \<^verbatim>\<open>*n_results\<close>, the buffer and
  the state.\<close>

definition nlm_get_all_search_results ::
  "addr \<Rightarrow> nat \<Rightarrow> addr \<Rightarrow> nlm_result list \<Rightarrow> addr \<Rightarrow> dp \<Rightarrow> (nlm_status \<times> nat option \<times> nlm_result list \<times> dp) option" where
  "nlm_get_all_search_results device n buf_ptr buf n_results s =
     (if device = NULL \<or> n = 0 \<or> buf_ptr = NULL \<or> n_results = NULL then Some (NLM_INVALID_ARGUMENT, None, buf, s)
      else if sw_fifos (dev s) then
        Option.bind (get_search_results_from_fifo n buf s) (\<lambda>(buf', j, s1).
        Option.bind (try_pending s1) (\<lambda>s2. Some (NLM_OK, Some j, buf', s2)))
      else
        let rd_ptr = output_rd_ptr (phy s); wrt_ptr = output_wrt_ptr (phy s); size = output_fifo_size (phy s) in
        assert_then (rd_ptr < size \<and> wrt_ptr < size)
          (if rd_ptr = wrt_ptr then Option.bind (try_pending s) (\<lambda>s2. Some (NLM_OK, Some 0, buf, s2))
           else
             let r = unat rd_ptr; w = unat wrt_ptr in
             Option.bind
               (if r < w then scan_rds [r..<w] w n False buf 0 s
                else
                  Option.bind (scan_rds [r..<unat size] (unat size) n False buf 0 s) (\<lambda>(e, nu, buf1, j, s1).
                  if j < n then scan_rds [0..<w] w n nu buf1 j s1 else Some (e, nu, buf1, j, s1)))
               (\<lambda>(e, nu, buf', j, s1).
                let e' = word_of_nat e AND (size - 1);
                    s2 = (if \<not> nu \<and> e' \<noteq> output_rd_ptr (phy s1)
                          then upd_phy (\<lambda>p. phy_set_register (RDF_RD_PTR (fms_ring_id p)) e' (p\<lparr>output_rd_ptr := e'\<rparr>)) s1
                          else s1)
                in Option.bind (try_pending s2) (\<lambda>s3. Some (NLM_OK, Some j, buf', s3)))))"

section \<open>Decoding a match\<close>

text \<open>A match as the device writes it: database and group, rule, end of the match in the flow,
  length, whether the rule is end-anchored, and the cookie of the job.\<close>

definition match_rd :: "12 word \<Rightarrow> u16 \<Rightarrow> u64 \<Rightarrow> u16 \<Rightarrow> 1 word \<Rightarrow> u32 \<Rightarrow> hw_result_descriptor" where
  "match_rd gid rule off len ea cookie =
     \<lparr>rd_u1 = ucast (take_bit 24 off), rd_cookie = cookie, rd_u3 = push_bit 16 (ucast len) OR ucast rule,
      rd_u4 = NOT (mask 31) OR push_bit 30 (ucast ea) OR push_bit 16 (ucast gid) OR ucast (take_bit 16 (drop_bit 24 off))\<rparr>"

lemma match_rd_fields:
  "rd_result_type (match_rd gid rule off len ea cookie) = FMS_MATCH_RESULT"
  "rd_valid (match_rd gid rule off len ea cookie) = 1" "rd_end_anchor (match_rd gid rule off len ea cookie) = ea"
  "rd_gid (match_rd gid rule off len ea cookie) = gid" "rd_rule_id (match_rd gid rule off len ea cookie) = rule"
  "rd_match_length (match_rd gid rule off len ea cookie) = len" "rd_cookie (match_rd gid rule off len ea cookie) = cookie"
  unfolding rd_result_type_def rd_valid_def rd_end_anchor_def rd_gid_def rd_rule_id_def rd_match_length_def match_rd_def FMS_MATCH_RESULT_def
  by (rule bit_word_eqI; auto simp: bit_simps dest: bit_imp_le_length)+

lemma match_flow_offset_rd:
  assumes "off < 2 ^ 40" shows "match_flow_offset (match_rd gid rule off len ea cookie) = off"
proof -
  have "take_bit 40 off = off"
    using assms by (simp add: word_unat_eq_iff unsigned_take_bit_eq word_less_nat_alt take_bit_nat_eq_self)
  moreover have "match_flow_offset (match_rd gid rule off len ea cookie) = take_bit 40 off"
    unfolding match_flow_offset_def rd_byte_offset_lo_def rd_byte_offset_hi_def match_rd_def
    by (rule bit_word_eqI) (auto simp: bit_simps)
  ultimately show ?thesis by simp
qed

text \<open>A job that waits for its results: the cookie leads to it, and it has a packet descriptor
  exactly when its flow is stateful.\<close>

definition awaits :: "addr \<Rightarrow> dp \<Rightarrow> bool" where
  "awaits job s \<longleftrightarrow>
     (let j = jobs s job; c = fd_cookie (jb_fd j) in
      c \<noteq> 0 \<and> job_at c s = job \<and> (if fl_is_stateless (flows s (jb_flow j)) \<noteq> 0 then jb_pd j = NULL else jb_pd j \<noteq> NULL))"

section \<open>The end of a job\<close>

definition end_rd :: "3 word \<Rightarrow> 5 word \<Rightarrow> u64 \<Rightarrow> u32 \<Rightarrow> hw_result_descriptor" where
  "end_rd ty err time cookie =
     \<lparr>rd_u1 = push_bit 29 (ucast ty) OR push_bit 24 (ucast err) OR ucast (take_bit 24 time), rd_cookie = cookie, rd_u3 = 0,
      rd_u4 = NOT (mask 31) OR ucast (take_bit 16 (drop_bit 24 time))\<rparr>"

lemma end_rd_fields:
  "rd_result_type (end_rd ty err time cookie) = ty" "rd_error_code (end_rd ty err time cookie) = err"
  "rd_valid (end_rd ty err time cookie) = 1" "rd_cookie (end_rd ty err time cookie) = cookie"
  unfolding rd_result_type_def rd_valid_def rd_error_code_def end_rd_def
  by (rule bit_word_eqI; auto simp: bit_simps dest: bit_imp_le_length)+

lemma decode_stats_end:
  assumes "time < 2 ^ 40" shows "s_timestamp (decode_stats (end_rd ty err time cookie)) = time"
proof -
  have "take_bit 40 time = time"
    using assms by (simp add: word_unat_eq_iff unsigned_take_bit_eq word_less_nat_alt take_bit_nat_eq_self)
  moreover have "s_timestamp (decode_stats (end_rd ty err time cookie)) = take_bit 40 time"
    unfolding decode_stats_def rd_timestamp_lo_def rd_timestamp_hi_def end_rd_def
    by (simp, rule bit_word_eqI) (auto simp: bit_simps)
  ultimately show ?thesis by simp
qed

section \<open>The next chain of a flow\<close>

text \<open>Making a flow pending whose pending head is already set.\<close>

lemma sched_add:
  assumes q: "\<And>f. flow_queue s f (Q f)" and disj: "\<forall>f g. f \<noteq> g \<longrightarrow> set (Q f) \<inter> set (Q g) = {}"
    and p: "pending_ok s fs" and new: "flow \<notin> set fs" "flow \<noteq> NULL"
    and pend: "\<And>f. f \<in> set (fs @ [flow]) \<longleftrightarrow> fl_pending_pd_head (flows s f) \<noteq> NULL"
    and nx: "\<forall>f. f \<notin> set fs \<longrightarrow> fl_next (flows s f) = NULL"
  obtains s1 where "nlm_device_add_flow_to_pending flow s = Some s1" "sched_ok s1 (fs @ [flow]) Q"
    "\<forall>a. \<exists>n. flows s1 a = (flows s a)\<lparr>fl_next := n\<rparr>" "phy s1 = phy s" "jobs s1 = jobs s" "pds s1 = pds s"
    "\<exists>h t. dev s1 = (dev s)\<lparr>pending_flow_list_head := h, pending_flow_list_tail := t\<rparr>"
proof (rule add_pending [OF p new])
  show "fl_next (flows s flow) = NULL" using nx new(1) by blast
next
  fix s1
  assume s1: "nlm_device_add_flow_to_pending flow s = Some s1" "pending_ok s1 (fs @ [flow])"
    "\<And>a. \<exists>n. flows s1 a = (flows s a)\<lparr>fl_next := n\<rparr>" "flows s1 flow = flows s flow"
    "\<And>a. a \<notin> set fs \<Longrightarrow> flows s1 a = flows s a" "phy s1 = phy s" "jobs s1 = jobs s" "pds s1 = pds s"
    "\<exists>h t. dev s1 = (dev s)\<lparr>pending_flow_list_head := h, pending_flow_list_tail := t\<rparr>"
  have n: "pd_next s1 = pd_next s" using s1(6,8) by (intro ext) (simp add: pd_next_def pd_at_def Let_def)
  have sel: "fl_last_pd (flows s1 f) = fl_last_pd (flows s f)" "fl_pending_pd_head (flows s1 f) = fl_pending_pd_head (flows s f)" for f
    using s1(3) [of f] by auto
  have "flow_queue s1 f (Q f)" for f
    using q [of f] by (subst flow_queue_cong [where s = s]) (auto simp: n sel)
  moreover have "\<forall>f. f \<notin> set (fs @ [flow]) \<longrightarrow> fl_next (flows s1 f) = NULL"
    using s1(5) nx by auto
  ultimately have "sched_ok s1 (fs @ [flow]) Q"
    using s1(2) disj pend unfolding sched_ok_def sel by blast
  with s1 show thesis by (intro that) auto
qed

lemma notice_completion:
  assumes ok: "sched_ok s fs Q" and base: "0 < pd_base (phy s)" and q: "Q flow = pd # ps" and nf: "flow \<notin> set fs" "flow \<noteq> NULL"
  obtains s' where "nlm_flow_notice_job_completion flow pd s = Some s'" "sched_ok s' (if ps = [] then fs else fs @ [flow]) (Q(flow := ps))"
    "\<forall>a. \<exists>n h l. flows s' a = (flows s a)\<lparr>fl_next := n, fl_pending_pd_head := h, fl_last_pd := l\<rparr>"
    "phy s' = phy s" "jobs s' = jobs s" "pds s' = pds s"
    "\<exists>h t. dev s' = (dev s)\<lparr>pending_flow_list_head := h, pending_flow_list_tail := t\<rparr>"
proof -
  have fq: "flow_queue s f (Q f)" for f using ok by (simp add: sched_ok_def)
  from fq [of flow] q have c: "pd \<noteq> NULL" "chain (pd_next s) (pd_next s pd) ps" "pd \<notin> set ps" "distinct ps" "fl_last_pd (flows s flow) = last (pd # ps)"
    by (auto simp: flow_queue_def Let_def)
  have pend: "fl_pending_pd_head (flows s flow) = NULL" using ok nf by (auto simp: sched_ok_def)
  have link: "pd_next s pd = NULL \<longleftrightarrow> pd_nla_index (pd_nla (pds s pd)) = 0"
  proof -
    have "0 < pd_at i s" for i using base by (simp add: pd_at_def sizeof_defs add_pos_nonneg)
    then show ?thesis by (simp add: pd_next_def Let_def less_imp_neq [symmetric])
  qed
  have disj: "\<forall>f g. f \<noteq> g \<longrightarrow> set ((Q(flow := ps)) f) \<inter> set ((Q(flow := ps)) g) = {}"
  proof (intro allI impI)
    fix f g :: addr assume "f \<noteq> g"
    then have "set (Q f) \<inter> set (Q g) = {}" using ok by (simp add: sched_ok_def)
    with q show "set ((Q(flow := ps)) f) \<inter> set ((Q(flow := ps)) g) = {}" by auto
  qed
  have self: "\<exists>n h l. f = f\<lparr>fl_next := n, fl_pending_pd_head := h, fl_last_pd := l\<rparr>" for f :: nlm_flow
    by (intro exI [of _ "fl_next f"] exI [of _ "fl_pending_pd_head f"] exI [of _ "fl_last_pd f"]) simp
  show thesis
  proof (cases ps)
    case Nil
    let ?s = "upd_flow flow (\<lambda>f. f\<lparr>fl_last_pd := NULL\<rparr>) s"
    have "nlm_flow_notice_job_completion flow pd s = Some ?s"
      using c Nil link by (simp add: nlm_flow_notice_job_completion_def)
    moreover have "flow_queue ?s f ((Q(flow := ps)) f)" for f
      using fq [of f] Nil pend by (cases "f = flow") (simp_all, subst flow_queue_cong [where s = s], auto)
    moreover have "chain (\<lambda>a. fl_next (flows ?s a)) p fs = chain (\<lambda>a. fl_next (flows s a)) p fs" for p
      by (intro chain_cong) simp
    then have "pending_ok ?s fs" using ok by (simp add: sched_ok_def pending_ok_def)
    ultimately have "sched_ok ?s fs (Q(flow := ps))"
      using ok disj unfolding sched_ok_def by simp
    moreover have "\<exists>n h l. flows ?s a = (flows s a)\<lparr>fl_next := n, fl_pending_pd_head := h, fl_last_pd := l\<rparr>" for a
      by (intro exI [of _ "fl_next (flows s a)"] exI [of _ "fl_pending_pd_head (flows s a)"] exI [of _ "fl_last_pd (flows ?s a)"]) simp
    moreover have "\<exists>h t. dev ?s = (dev s)\<lparr>pending_flow_list_head := h, pending_flow_list_tail := t\<rparr>"
      by (intro exI [of _ "pending_flow_list_head (dev s)"] exI [of _ "pending_flow_list_tail (dev s)"]) simp
    ultimately show thesis
      using \<open>nlm_flow_notice_job_completion flow pd s = Some ?s\<close> Nil by (intro that [of ?s]) auto
  next
    case (Cons r rs)
    let ?s = "upd_flow flow (\<lambda>f. f\<lparr>fl_pending_pd_head := r\<rparr>) s"
    have r: "pd_next s pd = r" "r \<noteq> NULL" using c(2) Cons by auto
    then have at: "pd_at (pd_nla_index (pd_nla (pds s pd))) s = r" and l0: "pd_nla_index (pd_nla (pds s pd)) \<noteq> 0"
      using link by (auto simp: pd_next_def Let_def)
    have nl: "last (pd # ps) \<noteq> pd" using c(3) Cons by (metis last.simps last_in_set list.distinct(1))
    have q1: "flow_queue ?s f ((Q(flow := ps)) f)" for f
    proof (cases "f = flow")
      case True
      then show ?thesis using c r Cons by (simp add: flow_queue_def)
    next
      case False
      then show ?thesis using fq [of f] by (simp, subst flow_queue_cong [where s = s]) auto
    qed
    have "chain (\<lambda>a. fl_next (flows ?s a)) p fs = chain (\<lambda>a. fl_next (flows s a)) p fs" for p
      by (intro chain_cong) simp
    then have p1: "pending_ok ?s fs" using ok by (simp add: sched_ok_def pending_ok_def)
    have pend1: "f \<in> set (fs @ [flow]) \<longleftrightarrow> fl_pending_pd_head (flows ?s f) \<noteq> NULL" for f
      using ok r by (auto simp: sched_ok_def)
    have nx1: "\<forall>f. f \<notin> set fs \<longrightarrow> fl_next (flows ?s f) = NULL"
      using ok by (auto simp: sched_ok_def)
    obtain s1 where s1: "nlm_device_add_flow_to_pending flow ?s = Some s1" "sched_ok s1 (fs @ [flow]) (Q(flow := ps))"
      "\<forall>a. \<exists>n. flows s1 a = (flows ?s a)\<lparr>fl_next := n\<rparr>" "phy s1 = phy ?s" "jobs s1 = jobs ?s" "pds s1 = pds ?s"
      "\<exists>h t. dev s1 = (dev ?s)\<lparr>pending_flow_list_head := h, pending_flow_list_tail := t\<rparr>"
      by (rule sched_add [OF q1 disj p1 nf pend1 nx1])
    have "\<exists>n h l. flows s1 a = (flows s a)\<lparr>fl_next := n, fl_pending_pd_head := h, fl_last_pd := l\<rparr>" for a
    proof -
      obtain n where "flows s1 a = (flows ?s a)\<lparr>fl_next := n\<rparr>" using s1(3) by blast
      then show ?thesis
        by (intro exI [of _ n] exI [of _ "fl_pending_pd_head (flows ?s a)"] exI [of _ "fl_last_pd (flows s a)"]) simp
    qed
    moreover have "nlm_flow_notice_job_completion flow pd s = Some s1"
      using s1(1) c nl l0 at pend by (simp add: nlm_flow_notice_job_completion_def Let_def)
    ultimately show thesis using s1 Cons by (intro that [of s1]) auto
  qed
qed

lemma result_upd:
  "r\<lparr>r_cookie := a, r_status := b, r_u := u\<rparr> = \<lparr>r_status = b, r_cookie = a, r_u = u\<rparr>" for r :: nlm_result
  by simp

section \<open>Finishing a job\<close>

lemma sched_free_pd:
  assumes "sched_ok s fs Q" and "\<forall>f. pd \<notin> set (Q f)"
  shows "sched_ok (sysmem_free_pd pd s) fs Q"
proof -
  have "pds (sysmem_free_pd pd s) a = pds s a" if "a \<noteq> pd" for a
    using that by (simp add: sysmem_free_pd_def Let_def)
  then have n: "pd_next (sysmem_free_pd pd s) a = pd_next s a" if "a \<noteq> pd" for a
    using that by (simp add: pd_next_def pd_at_def Let_def)
  have "flow_queue (sysmem_free_pd pd s) f (Q f) = flow_queue s f (Q f)" for f
    using assms(2) by (intro flow_queue_cong n) auto
  moreover have "pending_ok (sysmem_free_pd pd s) fs = pending_ok s fs"
    by (simp add: pending_ok_def sysmem_free_pd_def Let_def)
  ultimately show ?thesis using assms(1) by (simp add: sched_ok_def)
qed

lemma sched_free_job:
  "sched_ok s fs Q \<Longrightarrow> sched_ok (memory_pool_free_job job s) fs Q"
proof -
  assume ok: "sched_ok s fs Q"
  have "pd_next (memory_pool_free_job job s) = pd_next s"
    by (intro ext) (simp add: pd_next_def pd_at_def Let_def)
  then have "flow_queue (memory_pool_free_job job s) f (Q f) = flow_queue s f (Q f)" for f
    by (intro flow_queue_cong) simp_all
  moreover have "pending_ok (memory_pool_free_job job s) fs = pending_ok s fs"
    by (simp add: pending_ok_def memory_pool_free_job_def)
  ultimately show ?thesis using ok by (simp add: sched_ok_def)
qed

text \<open>The packet descriptor at the head of a queue is finished: the whole chain with a flow result,
  a single packet inside of a chain with a packet result.\<close>

lemma finish_frd:
  assumes ok: "sched_ok s fs Q" "Q flow = pd # ps" "flow \<notin> set fs" "flow \<noteq> NULL" and pool: "pd_pool_ok s V" "pd \<in> V"
    and pd: "pd_rsv01 (pds s pd) = PD_VALID_AND_STARTED" "pd_flow_term (pds s pd) = 0"
    and fl: "fl_type (flows s flow) = NLM_FLOW_TYPE_STATEFUL" and rd: "rd_result_type rd = FMS_FRD_RESULT"
  obtains s' where "finish_pd rd flow pd s = Some s'" "sched_ok s' (if ps = [] then fs else fs @ [flow]) (Q(flow := ps))"
    "pd_pool_ok s' (V - {pd})" "jobs s' = jobs s" "job_dev (dev s') = job_dev (dev s)"
    "\<And>a. fl_is_stateless (flows s' a) = fl_is_stateless (flows s a)"
    "\<forall>qs. free_pds s qs \<longrightarrow> free_pds s' (pd # qs)" "\<forall>js. free_jobs s js \<longrightarrow> free_jobs s' js"
proof -
  have base: "0 < pd_base (phy s)" using pool(1) by (simp add: pd_pool_ok_def)
  obtain s1 where s1: "nlm_flow_notice_job_completion flow pd s = Some s1"
    "sched_ok s1 (if ps = [] then fs else fs @ [flow]) (Q(flow := ps))"
    "\<forall>a. \<exists>n h l. flows s1 a = (flows s a)\<lparr>fl_next := n, fl_pending_pd_head := h, fl_last_pd := l\<rparr>"
    "phy s1 = phy s" "jobs s1 = jobs s" "pds s1 = pds s"
    "\<exists>h t. dev s1 = (dev s)\<lparr>pending_flow_list_head := h, pending_flow_list_tail := t\<rparr>"
    by (rule notice_completion [OF ok(1) base ok(2-4)])
  have "pd \<notin> set ((Q(flow := ps)) f)" for f
  proof (cases "f = flow")
    case True
    have "flow_queue s flow (pd # ps)" using ok by (metis sched_ok_def)
    with True show ?thesis by (auto simp: flow_queue_def Let_def)
  next
    case False
    then have "set (Q f) \<inter> set (Q flow) = {}" using ok(1) by (simp add: sched_ok_def)
    with ok(2) False show ?thesis by auto
  qed
  then have "sched_ok (sysmem_free_pd pd s1) (if ps = [] then fs else fs @ [flow]) (Q(flow := ps))"
    using sched_free_pd [OF s1(2)] by blast
  moreover have p1: "pd_pool_ok s1 V"
    using s1(4,6,7) by (intro pd_pool_frame [OF pool(1)]) (auto simp: pd_dev_def)
  then have "pd_pool_ok (sysmem_free_pd pd s1) (V - {pd})" using pool(2) by (rule pd_pool.free_ok)
  moreover have "free_pds (sysmem_free_pd pd s1) (pd # qs)" if "free_pds s qs" for qs
    using s1(6,7) that free_pds_cong [of s1 s qs] by (intro free_pd_push [OF p1 pool(2)]) auto
  moreover have "free_jobs (sysmem_free_pd pd s1) js" if "free_jobs s js" for js
    using s1(5,7) that free_jobs_cong [of s1 s js] by auto
  moreover have "finish_pd rd flow pd s = Some (sysmem_free_pd pd s1)"
    using pd fl rd s1(1) by (simp add: finish_pd_def)
  moreover have "fl_is_stateless (flows s1 a) = fl_is_stateless (flows s a)" for a
    using spec [OF s1(3), of a] by auto
  moreover have "job_dev (dev s1) = job_dev (dev s)" using s1(7) by (auto simp: job_dev_def)
  ultimately show thesis using s1(5) by (intro that [of "sysmem_free_pd pd s1"]) simp_all
qed

text \<open>What is left of \<^verbatim>\<open>populate_results\<close> for a flow result of an awaited job.\<close>

lemma populate_end:
  assumes "awaits job s" and "rd = end_rd FMS_FRD_RESULT err time (fd_cookie (jb_fd (jobs s job)))"
  shows "populate_results rd buf j s =
    Option.bind (if jb_pd (jobs s job) \<noteq> NULL then finish_pd rd (jb_flow (jobs s job)) (jb_pd (jobs s job))
        (if err = 0 then s else upd_flow (jb_flow (jobs s job)) (\<lambda>f. f\<lparr>fl_errored := ucast err\<rparr>) s)
      else Some (if err = 0 then s else upd_flow (jb_flow (jobs s job)) (\<lambda>f. f\<lparr>fl_errored := ucast err\<rparr>) s)) (\<lambda>s2.
    Option.bind (finish_stateless rd (jb_flow (jobs s job)) (memory_pool_free_job job s2)) (\<lambda>s3.
    Some (rd\<lparr>rd_u4 := RD_WAS_PROCESSED\<rparr>,
      buf[j := (buf[j := (buf ! j)\<lparr>r_cookie := jb_user_cookie (jobs s job)\<rparr>] ! j)
        \<lparr>r_status := if err = 0 then NLM_END_OF_JOB else convert_hw_error_code_to_status (ucast err),
         r_u := U_stats (decode_stats rd)\<rparr>], j + 1, s3)))"
  using assms(1)
  by (simp add: populate_results_def awaits_def Let_def assms(2) end_rd_fields FMS_FRD_RESULT_def FMS_MATCH_RESULT_def)

lemma flow_lists_write:
  assumes l: "flow_lists_ok s U sf sl" and "a \<in> U" and "length (fl_db_group_id (g (flows s a))) = length (fl_db_group_id (flows s a))"
    and "fl_is_stateless (g (flows s a)) = 0 \<Longrightarrow> fl_u0 (g (flows s a)) \<noteq> 0"
  shows "flow_lists_ok (upd_flow a g s) U sf sl"
proof -
  from l assms(2) have a: "a \<notin> set (sf @ sl)" by (auto simp: flow_lists_ok_def)
  have "chain (\<lambda>b. flow_link (flows (upd_flow a g s) b)) p ps = chain (\<lambda>b. flow_link (flows s b)) p ps"
    if "set ps \<subseteq> set (sf @ sl)" for p ps
    using a that by (intro chain_cong) auto
  then show ?thesis
    using l a assms(3,4) by (auto simp: flow_lists_ok_def pool_geometry_def flow_slots_def)
qed

lemma flow_pool_write:
  assumes "flow_pool_ok s U" and "a \<in> U" and "length (fl_db_group_id (g (flows s a))) = length (fl_db_group_id (flows s a))"
    and "fl_is_stateless (g (flows s a)) = 0 \<Longrightarrow> fl_u0 (g (flows s a)) \<noteq> 0"
  shows "flow_pool_ok (upd_flow a g s) U"
  using assms(1) flow_lists_write [of s U _ _ a g] assms(2-4) by (auto simp: flow_pool_ok_def)

lemma flow_lists_free_job: "flow_lists_ok (memory_pool_free_job job s) U sf sl = flow_lists_ok s U sf sl"
  by (simp add: flow_lists_ok_def memory_pool_free_job_def pool_geometry_def flow_slots_def)

lemma flow_pool_free_job: "flow_pool_ok (memory_pool_free_job job s) U = flow_pool_ok s U"
  by (simp add: flow_pool_ok_def flow_lists_free_job)

section \<open>Properties\<close>

text \<open>Reading a match inverts the device's encoding: for a job that awaits results on a flow
  without errors, the user sees the rule, database and group, the end of the match in the
  flow (40 bits), the same relative to the start of the job, and the length; the descriptor is
  marked as processed and nothing else changes.\<close>

theorem populate_results_match:
  assumes "awaits job s" and "c = fd_cookie (jb_fd (jobs s job))" and "fl_errored (flows s (jb_flow (jobs s job))) = 0"
    and "off < 2 ^ 40" and "j < length buf"
    and rd: "rd = match_rd (push_bit 10 (ucast (db :: 2 word)) OR ucast (grp :: 10 word)) rule off len ea c"
  shows "populate_results rd buf j s = Some (rd\<lparr>rd_u4 := RD_WAS_PROCESSED\<rparr>,
    buf[j := \<lparr>r_status = if ea = 1 then NLM_END_ANCHORED else NLM_OK, r_cookie = jb_user_cookie (jobs s job),
      r_u = U_match \<lparr>m_rule_id = ucast rule, m_group_id = ucast grp, m_database_id = ucast db,
        m_byte_offset = ucast (off - jb_flow_offset (jobs s job)), m_flow_offset = off, m_match_length = ucast len\<rparr>\<rparr>],
    j + 1, s)"
proof -
  let ?g = "push_bit 10 (ucast db) OR ucast grp :: 12 word"
  have g: "(ucast (?g AND 0x3ff) :: u32) = ucast grp" "(ucast (drop_bit 10 ?g) :: u32) = ucast db"
  proof -
    have m: "(0x3ff :: 12 word) = mask 10" by (simp add: mask_eq_exp_minus_1)
    show "(ucast (?g AND 0x3ff) :: u32) = ucast grp" "(ucast (drop_bit 10 ?g) :: u32) = ucast db"
      unfolding m by (rule bit_word_eqI; auto simp: bit_simps dest: bit_imp_le_length)+
  qed
  have "unat ea < 2" using unsigned_less [of ea] by simp
  then have ea: "ea \<noteq> 0 \<longleftrightarrow> ea = 1" by (auto simp: word_unat_eq_iff)
  have "decode_match rd (jobs s job) = \<lparr>m_rule_id = ucast rule, m_group_id = ucast grp, m_database_id = ucast db,
      m_byte_offset = ucast (off - jb_flow_offset (jobs s job)), m_flow_offset = off, m_match_length = ucast len\<rparr>"
    using assms(4) g by (simp add: rd decode_match_def match_rd_fields match_flow_offset_rd)
  then show ?thesis
    using assms(1-3,5) ea
    by (auto simp: populate_results_def awaits_def Let_def rd match_rd_fields result_upd)
qed

text \<open>C11. The result that ends the job at the head of a stateful flow's queue reports the end of
  the job, or the error the device saw, with its 40-bit time stamp; the job and its packet
  descriptor go back to their pools, each to the head of its free list; the flow's queue loses its head, and if packets were
  linked behind it too late for the device to see, the flow becomes pending again, last in
  line. No assertion can fail.\<close>

theorem populate_results_end_stateful:
  assumes "awaits job s" and jb: "jb_flow (jobs s job) = flow" "jb_pd (jobs s job) = pd"
    and fl: "fl_is_stateless (flows s flow) = 0" "fl_type (flows s flow) = NLM_FLOW_TYPE_STATEFUL" "flow \<noteq> NULL"
    and ok: "sched_ok s fs Q" "Q flow = pd # ps" "flow \<notin> set fs"
    and pd: "pd_rsv01 (pds s pd) = PD_VALID_AND_STARTED" "pd_flow_term (pds s pd) = 0"
    and pool: "job_pool_ok s U" "job \<in> U" "pd_pool_ok s V" "pd \<in> V" and free: "free_jobs s js" "free_pds s qs"
    and "j < length buf" and time: "time < 2 ^ 40"
    and rd: "rd = end_rd FMS_FRD_RESULT err time (fd_cookie (jb_fd (jobs s job)))"
  shows "\<exists>buf' s'. populate_results rd buf j s = Some (rd\<lparr>rd_u4 := RD_WAS_PROCESSED\<rparr>, buf', j + 1, s') \<and>
    (\<exists>st. buf' = buf[j := \<lparr>r_status = if err = 0 then NLM_END_OF_JOB else convert_hw_error_code_to_status (ucast err),
      r_cookie = jb_user_cookie (jobs s job), r_u = U_stats st\<rparr>] \<and> s_timestamp st = time) \<and>
    job_pool_ok s' (U - {job}) \<and> pd_pool_ok s' (V - {pd}) \<and> free_jobs s' (job # js) \<and> free_pds s' (pd # qs) \<and>
    sched_ok s' (if ps = [] then fs else fs @ [flow]) (Q(flow := ps))"
proof -
  define s1 where "s1 = (if err = 0 then s else upd_flow flow (\<lambda>f. f\<lparr>fl_errored := ucast err\<rparr>) s)"
  have "sched_ok s1 fs Q" using ok(1) by (auto simp: s1_def intro: sched_cong)
  moreover have "pd_pool_ok s1 V" "pds s1 = pds s" "fl_type (flows s1 flow) = NLM_FLOW_TYPE_STATEFUL"
    and fr1: "free_jobs s1 js" "free_pds s1 qs"
    and e1: "jobs s1 = jobs s" "dev s1 = dev s" "fl_is_stateless (flows s1 a) = fl_is_stateless (flows s a)" for a
    using pool fl free by (simp_all add: s1_def)
  moreover have "rd_result_type rd = FMS_FRD_RESULT" by (simp add: rd end_rd_fields)
  ultimately obtain s2 where s2: "finish_pd rd flow pd s1 = Some s2"
    "sched_ok s2 (if ps = [] then fs else fs @ [flow]) (Q(flow := ps))" "pd_pool_ok s2 (V - {pd})"
    "jobs s2 = jobs s1" "job_dev (dev s2) = job_dev (dev s1)" "\<And>a. fl_is_stateless (flows s2 a) = fl_is_stateless (flows s1 a)"
    "\<forall>qs. free_pds s1 qs \<longrightarrow> free_pds s2 (pd # qs)" "\<forall>js. free_jobs s1 js \<longrightarrow> free_jobs s2 js"
    using finish_frd [of s1 fs Q flow pd ps V rd] ok(2,3) fl(3) pool(4) pd by auto
  let ?s3 = "memory_pool_free_job job s2"
  have "job_pool_ok s2 U"
    using s2(4,5) e1 by (intro job_pool_frame [OF pool(1)]) simp_all
  then have "job_pool_ok ?s3 (U - {job})" "free_jobs ?s3 (job # js)"
    using pool(2) job_pool.free_ok free_job_push s2(8) fr1(1) by blast+
  moreover have "free_pds ?s3 (pd # qs)" using s2(7) fr1(2) by simp
  moreover have "pd_pool_ok ?s3 (V - {pd})" by (rule pd_pool_frame [OF s2(3)]) simp_all
  moreover have "sched_ok ?s3 (if ps = [] then fs else fs @ [flow]) (Q(flow := ps))" using s2(2) by (rule sched_free_job)
  moreover have "finish_stateless rd flow ?s3 = Some ?s3"
    using s2(6) [of flow] e1(3) fl(1) by (simp add: finish_stateless_def)
  moreover have "FMS_FRD_RESULT \<noteq> FMS_MATCH_RESULT" by (simp add: FMS_FRD_RESULT_def FMS_MATCH_RESULT_def)
  ultimately have "populate_results rd buf j s = Some (rd\<lparr>rd_u4 := RD_WAS_PROCESSED\<rparr>,
      buf[j := \<lparr>r_status = if err = 0 then NLM_END_OF_JOB else convert_hw_error_code_to_status (ucast err),
        r_cookie = jb_user_cookie (jobs s job), r_u = U_stats (decode_stats rd)\<rparr>], j + 1, ?s3)"
    using assms(1) jb fl(1) s2(1) \<open>j < length buf\<close>
    by (auto simp: populate_results_def awaits_def Let_def rd end_rd_fields s1_def result_upd)
  moreover have "s_timestamp (decode_stats rd) = time" using decode_stats_end [OF time] by (simp add: rd)
  ultimately show ?thesis
    using \<open>job_pool_ok ?s3 (U - {job})\<close> \<open>pd_pool_ok ?s3 (V - {pd})\<close> \<open>sched_ok ?s3 _ _\<close>
      \<open>free_jobs ?s3 (job # js)\<close> \<open>free_pds ?s3 (pd # qs)\<close> by blast
qed

text \<open>A finished job of a stateless flow gives the job back and counts one job less in flight;
  a flow that was destroyed meanwhile is released with its last job, and not before.\<close>

theorem populate_results_end_stateless:
  assumes "awaits job s" and jb: "jb_flow (jobs s job) = flow" and fl: "fl_is_stateless (flows s flow) \<noteq> 0"
    and pool: "job_pool_ok s U" "job \<in> U" "flow_pool_ok s F" "flow \<in> F"
    and rd: "rd = end_rd FMS_FRD_RESULT err time (fd_cookie (jb_fd (jobs s job)))"
  shows "\<exists>buf' s'. populate_results rd buf j s = Some (rd\<lparr>rd_u4 := RD_WAS_PROCESSED\<rparr>, buf', j + 1, s') \<and>
    job_pool_ok s' (U - {job}) \<and>
    (let last = (fl_type (flows s flow) = NLM_FLOW_TYPE_INVALID \<and> fl_job_seq_id (flows s flow) = 1) in
     flow_pool_ok s' (if last then F - {flow} else F) \<and>
     (\<not> last \<longrightarrow> fl_job_seq_id (flows s' flow) = fl_job_seq_id (flows s flow) - 1))"
proof -
  define s1 where "s1 = (if err = 0 then s else upd_flow flow (\<lambda>f. f\<lparr>fl_errored := ucast err\<rparr>) s)"
  define s2 where "s2 = memory_pool_free_job job s1"
  define s3 where "s3 = upd_flow flow (\<lambda>f. f\<lparr>fl_u0 := fl_u0 f - 1\<rparr>) s2"
  let ?last = "fl_type (flows s flow) = NLM_FLOW_TYPE_INVALID \<and> fl_job_seq_id (flows s flow) = 1"
  have pd: "jb_pd (jobs s job) = NULL" using assms(1) fl jb by (simp add: awaits_def Let_def)
  have sel: "fl_is_stateless (flows s3 flow) = fl_is_stateless (flows s flow)" "fl_type (flows s3 flow) = fl_type (flows s flow)"
    "fl_u0 (flows s3 flow) = fl_u0 (flows s flow) - 1" "fl_is_stateless (flows s2 flow) = fl_is_stateless (flows s flow)"
    by (simp_all add: s3_def s2_def s1_def)
  have "job_pool_ok s1 U" using pool(1) by (simp add: s1_def)
  then have "job_pool_ok s2 (U - {job})" using pool(2) unfolding s2_def by (rule job_pool.free_ok)
  then have j3: "job_pool_ok s3 (U - {job})" by (simp add: s3_def)
  have f1: "flow_pool_ok s1 F" using flow_pool_write [OF pool(3,4), of "\<lambda>f. f\<lparr>fl_errored := ucast err\<rparr>"] pool(3) fl by (simp add: s1_def)
  then have "flow_pool_ok s2 F" by (simp add: s2_def flow_pool_free_job)
  then have f3: "flow_pool_ok s3 F"
    unfolding s3_def using flow_pool_write [OF _ pool(4), of s2 "\<lambda>f. f\<lparr>fl_u0 := fl_u0 f - 1\<rparr>"] sel(4) fl by simp
  let ?s' = "if ?last then memory_pool_free_flow flow s3 else s3"
  have z: "fl_u0 (flows s flow) - 1 = 0 \<longleftrightarrow> fl_u0 (flows s flow) = 1" by (simp add: eq_iff_diff_eq_0 [symmetric])
  have "finish_stateless rd flow s2 = Some ?s'"
    using fl sel z by (simp add: finish_stateless_def rd end_rd_fields s3_def [symmetric] Let_def)
  then have "\<exists>buf'. populate_results rd buf j s = Some (rd\<lparr>rd_u4 := RD_WAS_PROCESSED\<rparr>, buf', j + 1, ?s')"
    unfolding populate_end [OF assms(1) rd] jb s1_def [symmetric] using pd by (simp add: s2_def)
  moreover have "job_pool_ok ?s' (U - {job})"
    using j3 job_pool_frame [OF j3, of "memory_pool_free_flow flow s3"] by (auto simp: memory_pool_free_flow_def job_dev_def)
  moreover have "flow_pool_ok ?s' (if ?last then F - {flow} else F)"
    using f3 free_flow_ok [OF f3 pool(4)] by simp
  moreover have "\<not> ?last \<longrightarrow> fl_job_seq_id (flows ?s' flow) = fl_job_seq_id (flows s flow) - 1"
    using sel(3) by simp
  ultimately show ?thesis unfolding Let_def by blast
qed

text \<open>A flow remembers an error of the device until it is released, also a stateless flow whose jobs
  have nothing to do with each other. After one job failed, a match in another job of the same
  flow trips an assertion, and a match of an end-anchored rule is dropped.\<close>

theorem populate_results_after_error:
  assumes "awaits job s" and "awaits job' s" and "job' \<noteq> job"
    and fl: "jb_flow (jobs s job) = flow" "jb_flow (jobs s job') = flow" "fl_is_stateless (flows s flow) \<noteq> 0"
      "fl_type (flows s flow) = NLM_FLOW_TYPE_STATELESS"
    and err: "err \<noteq> 0"
    and rd: "rd = end_rd FMS_FRD_RESULT err time (fd_cookie (jb_fd (jobs s job)))"
      "rd' = match_rd gid rule off len ea (fd_cookie (jb_fd (jobs s job')))"
  shows "\<exists>buf' s'. populate_results rd buf j s = Some (rd\<lparr>rd_u4 := RD_WAS_PROCESSED\<rparr>, buf', j + 1, s') \<and> awaits job' s' \<and>
    (ea = 0 \<longrightarrow> populate_results rd' buf' (j + 1) s' = None) \<and>
    (ea \<noteq> 0 \<longrightarrow> (\<exists>buf''. populate_results rd' buf' (j + 1) s' = Some (rd', buf'', j + 1, s')))"
proof -
  define s2 where "s2 = memory_pool_free_job job (upd_flow flow (\<lambda>f. f\<lparr>fl_errored := ucast err\<rparr>) s)"
  define s3 where "s3 = upd_flow flow (\<lambda>f. f\<lparr>fl_u0 := fl_u0 f - 1\<rparr>) s2"
  have pd: "jb_pd (jobs s job) = NULL" using assms(1) fl by (simp add: awaits_def Let_def)
  have s2: "fl_is_stateless (flows s2 a) = fl_is_stateless (flows s a)" "fl_type (flows s2 a) = fl_type (flows s a)" for a
    by (simp_all add: s2_def)
  have "finish_stateless rd flow s2 = Some s3"
    using fl s2 by (simp add: finish_stateless_def rd end_rd_fields s3_def Let_def flow_type_defs)
  then have p: "\<exists>buf'. populate_results rd buf j s = Some (rd\<lparr>rd_u4 := RD_WAS_PROCESSED\<rparr>, buf', j + 1, s3)"
    unfolding populate_end [OF assms(1) rd(1)] fl(1) using pd err by (simp add: s2_def)
  have e: "(ucast err :: u8) \<noteq> 0"
  proof
    assume "(ucast err :: u8) = 0"
    then have "ucast (ucast err :: u8) = (0 :: 5 word)" by simp
    moreover have "ucast (ucast err :: u8) = err" by (rule bit_word_eqI) (auto simp: bit_simps)
    ultimately show False using err by simp
  qed
  have j3: "jobs s3 job' = jobs s job'" and d3: "job_base (dev s3) = job_base (dev s)"
    and f3: "fl_is_stateless (flows s3 flow) = fl_is_stateless (flows s flow)" "fl_errored (flows s3 flow) \<noteq> 0"
    using assms(3) e by (simp_all add: s3_def s2_def memory_pool_free_job_def)
  have aw: "awaits job' s3" using assms(2) fl j3 d3 f3 by (auto simp: awaits_def Let_def job_at_def)
  have "ea \<noteq> 0 \<Longrightarrow> \<exists>buf''. populate_results rd' b (j + 1) s3 = Some (rd', buf'', j + 1, s3)"
    and "ea = 0 \<Longrightarrow> populate_results rd' b (j + 1) s3 = None" for b
    using aw j3 f3 fl(2) by (auto simp: populate_results_def awaits_def Let_def rd(2) match_rd_fields assert_then_def)
  with p aw show ?thesis by blast
qed

section \<open>Examples\<close>

text \<open>Two jobs of the flow at \<open>0x1100\<close> that wait for results; if the flow is stateful, their packet
  descriptors are linked and the device has seen only the first.\<close>

definition dp_results :: "bool \<Rightarrow> dp" where
  "dp_results stateless =
     dp0\<lparr>dev := dev0\<lparr>first_free_flow := 0x1100 + 72, first_free_job := 0x2000 - 3 * 88, first_free_pd := 0x10030\<rparr>,
       jobs := (\<lambda>_. job_zero)
         (0x1FA8 := job_zero\<lparr>jb_flow := 0x1100, jb_user_cookie := 77, jb_pd := if stateless then NULL else 0x10010, jb_fd := fd_zero\<lparr>fd_cookie := 1\<rparr>\<rparr>,
          0x1F50 := job_zero\<lparr>jb_flow := 0x1100, jb_user_cookie := 78, jb_pd := if stateless then NULL else 0x10020, jb_fd := fd_zero\<lparr>fd_cookie := 2\<rparr>\<rparr>),
       flows := (\<lambda>_. flow_zero)
         (0x1100 := flow_zero\<lparr>fl_type := if stateless then NLM_FLOW_TYPE_STATELESS else NLM_FLOW_TYPE_STATEFUL,
            fl_is_stateless := if stateless then 1 else 0, fl_u0 := 2, fl_last_pd := if stateless then NULL else 0x10020\<rparr>),
       pds := (\<lambda>_. pd_zero)
         (0x10010 := pd_zero\<lparr>pd_rsv01 := PD_VALID_AND_STARTED, pd_nla := \<lparr>rsv_cookie = 0, pd_nla_index = 2\<rparr>\<rparr>,
          0x10020 := pd_zero\<lparr>pd_rsv01 := PD_VALID_AND_STARTED\<rparr>)\<rparr>"

lemma dp_results_sel:
  "phy (dp_results st) = phy0"
  "dev (dp_results st) = dev0\<lparr>first_free_flow := 0x1100 + 72, first_free_job := 0x2000 - 3 * 88, first_free_pd := 0x10030\<rparr>"
  by (simp_all add: dp_results_def)

lemma dp_results_ok:
  "awaits 0x1FA8 (dp_results st)" "awaits 0x1F50 (dp_results st)"
  "job_pool_ok (dp_results st) {0x1FA8, 0x1F50}" "flow_pool_ok (dp_results st) {0x1100}" "pd_pool_ok (dp_results st) {0x10010, 0x10020}"
proof -
  show "awaits 0x1FA8 (dp_results st)" "awaits 0x1F50 (dp_results st)"
    by (simp_all add: awaits_def dp_results_def job_at_def NLM_GET_JOB_INDEX_def NLM_JOB_INDEX_MASK_def dev0_def sizeof_defs)
  show "job_pool_ok (dp_results st) {0x1FA8, 0x1F50}"
    by (simp add: job_pool_ok_def pool_geometry_def dp_results_def dev0_def sizeof_defs job_slots_def)
  show "flow_pool_ok (dp_results st) {0x1100}"
    by (auto simp: flow_pool_ok_def flow_lists_ok_def pool_geometry_def dp_results_def dev0_def sizeof_defs flow_slots_def flow_zero_def
        intro!: exI [of _ "[]"])
  show "pd_pool_ok (dp_results st) {0x10010, 0x10020}"
    by (simp add: pd_pool_ok_def phy0_def dp_results_def dev0_def sizeof_defs pd_slots_def)
qed

text \<open>The user's buffer before the call.\<close>

definition buf0 :: "nlm_result list" where
  "buf0 = replicate 4 \<lparr>r_status = NLM_OK, r_cookie = NULL, r_u = U_stats \<lparr>s_timestamp = 0, s_total_state_cnt = 0, s_peak_state_cnt = 0, s_final_state_cnt = 0\<rparr>\<rparr>"

lemma dp_results_job:
  "jb_flow (jobs (dp_results st) 0x1FA8) = 0x1100" "jb_flow (jobs (dp_results st) 0x1F50) = 0x1100"
  "fd_cookie (jb_fd (jobs (dp_results st) 0x1FA8)) = 1" "fd_cookie (jb_fd (jobs (dp_results st) 0x1F50)) = 2"
  "jb_pd (jobs (dp_results st) 0x1FA8) = (if st then NULL else 0x10010)"
  "jb_flow_offset (jobs (dp_results st) 0x1FA8) = 0" "jb_user_cookie (jobs (dp_results st) 0x1FA8) = 77"
  by (simp_all add: dp_results_def job_zero_def)

lemma dp_results_flow:
  "fl_is_stateless (flows (dp_results st) 0x1100) = (if st then 1 else 0)" "fl_errored (flows (dp_results st) 0x1100) = 0"
  "fl_type (flows (dp_results st) 0x1100) = (if st then NLM_FLOW_TYPE_STATELESS else NLM_FLOW_TYPE_STATEFUL)"
  "fl_job_seq_id (flows (dp_results st) 0x1100) = 2"
  by (simp_all add: dp_results_def flow_zero_def)

theorem populate_results_match_witness:
  "\<exists>rd' buf' s'. populate_results (match_rd 0x807 5 0x1234567890 9 1 1) buf0 0 (dp_results False) = Some (rd', buf', 1, s') \<and>
     buf' ! 0 = \<lparr>r_status = NLM_END_ANCHORED, r_cookie = 77, r_u = U_match \<lparr>m_rule_id = 5, m_group_id = 7, m_database_id = 2,
       m_byte_offset = 0x34567890, m_flow_offset = 0x1234567890, m_match_length = 9\<rparr>\<rparr>"
proof -
  have gid: "(0x807 :: 12 word) = push_bit 10 (ucast (2 :: 2 word)) OR ucast (7 :: 10 word)" by simp
  show ?thesis
    unfolding gid
    using populate_results_match [OF dp_results_ok(1) dp_results_job(3) [symmetric], of False "0x1234567890" 0 buf0 _ 2 7 5 9 1, OF _ _ _ refl]
    by (simp add: dp_results_job dp_results_flow buf0_def)
qed

theorem populate_results_end_stateful_witness:
  "\<exists>rd' buf' s'. populate_results (end_rd FMS_FRD_RESULT 0 7 1) buf0 0 (dp_results False) = Some (rd', buf', 1, s') \<and>
     sched_ok s' [0x1100] ((\<lambda>_. [])(0x1100 := [0x10020])) \<and> free_jobs s' [0x1FA8] \<and> free_pds s' [0x10010]"
proof -
  have free: "free_jobs (dp_results False) []" "free_pds (dp_results False) []"
    by (simp_all add: free_jobs_def free_pds_def dp_results_sel dev0_def)
  let ?s = "dp_results False" and ?Q = "(\<lambda>_. [])(0x1100 := [0x10010, 0x10020 :: addr])"
  have q: "sched_ok ?s [] ?Q"
    by (auto simp: sched_ok_def pending_ok_def flow_queue_def Let_def dp_results_def dev0_def phy0_def flow_zero_def
        pd_next_def pd_at_def pd_zero_simps sizeof_defs)
  have pd: "pd_rsv01 (pds ?s 0x10010) = PD_VALID_AND_STARTED" "pd_flow_term (pds ?s 0x10010) = 0"
    by (simp_all add: dp_results_def pd_zero_simps)
  have "?Q 0x1100 = [0x10010, 0x10020]" by simp
  note end_stateful = populate_results_end_stateful [where s = ?s and job = "0x1FA8" and flow = "0x1100" and pd = "0x10010" and fs = "[]" and Q = ?Q
      and ps = "[0x10020]" and U = "{0x1FA8, 0x1F50}" and V = "{0x10010, 0x10020}" and err = 0 and time = 7 and j = 0 and buf = buf0]
  show ?thesis
    using end_stateful [OF dp_results_ok(1) _ _ _ _ _ q _ _ pd dp_results_ok(3) _ dp_results_ok(5) _ free _ _ refl]
    by (auto simp: dp_results_job dp_results_flow buf0_def insert_Diff_if)
qed

theorem populate_results_end_stateless_witness:
  "\<exists>rd' buf' s'. populate_results (end_rd FMS_FRD_RESULT 0 7 1) buf0 0 (dp_results True) = Some (rd', buf', 1, s') \<and>
     job_pool_ok s' {0x1F50} \<and> flow_pool_ok s' {0x1100} \<and> fl_job_seq_id (flows s' 0x1100) = 1"
  using populate_results_end_stateless [OF dp_results_ok(1) dp_results_job(1) _ dp_results_ok(3) _ dp_results_ok(4) _ refl, of True 0 7 buf0 0]
  by (auto simp: dp_results_job dp_results_flow Let_def flow_type_defs insert_Diff_if)

theorem populate_results_after_error_witness:
  "\<exists>rd' buf' s'. populate_results (end_rd FMS_FRD_RESULT 9 7 1) buf0 0 (dp_results True) = Some (rd', buf', 1, s') \<and>
     populate_results (match_rd 3 5 100 9 0 2) buf' 1 s' = None"
  using populate_results_after_error [OF dp_results_ok(1,2) _ dp_results_job(1,2) _ _ _ refl refl, where err = 9 and time = 7 and gid = 3 and rule = 5 and off = 100 and len = 9 and ea = 0 and j = 0 and buf = buf0, of True]
  by (auto simp: dp_results_job dp_results_flow)

end
