(* ===== verification/Collect.thy ===== *)
theory Collect
  imports Results Manager
begin

unbundle bit_operations_syntax

text \<open>
  How nlm_get_all_search_results of lib/dataplane/fms_packet_api.c empties the output ring that
  all threads share: what it may do to the results of other threads, and, for a thread with
  stateless flows, that it returns exactly the results of the thread, in the order of the ring.
\<close>

section \<open>Scanning the output ring\<close>

lemma add_pending_frame:
  "nlm_device_add_flow_to_pending f s = Some s' \<Longrightarrow> phy s' = phy s \<and> thread_id (dev s') = thread_id (dev s)"
  by (auto simp: nlm_device_add_flow_to_pending_def Let_def split: if_splits)

lemma notice_frame:
  assumes "nlm_flow_notice_job_completion f pd s = Some s'"
  shows "phy s' = phy s \<and> thread_id (dev s') = thread_id (dev s)"
  using assms
  by (auto simp: nlm_flow_notice_job_completion_def Let_def dest!: add_pending_frame split: if_splits)

lemma free_frame [simp]:
  "phy (memory_pool_free_flow f s) = phy s" "thread_id (dev (memory_pool_free_flow f s)) = thread_id (dev s)"
  "thread_id (dev (memory_pool_free_job a s)) = thread_id (dev s)" "thread_id (dev (sysmem_free_pd a s)) = thread_id (dev s)"
  by (simp_all add: memory_pool_free_flow_def memory_pool_free_job_def sysmem_free_pd_def Let_def)

lemma finish_frame:
  "finish_pd rd f pd s = Some s' \<Longrightarrow> phy s' = phy s \<and> thread_id (dev s') = thread_id (dev s)"
  "finish_stateless rd f s = Some s' \<Longrightarrow> phy s' = phy s \<and> thread_id (dev s') = thread_id (dev s)"
  by (auto simp: finish_pd_def finish_stateless_def Let_def dest!: notice_frame split: if_splits)

lemma populate_frame:
  assumes "populate_results rd buf j s = Some (rd', buf', j', s')"
  shows "phy s' = phy s \<and> thread_id (dev s') = thread_id (dev s) \<and> length buf' = length buf \<and> j' \<le> Suc j"
  using assms
  by (auto simp: populate_results_def Let_def bind_eq_Some_conv dest!: finish_frame split: if_splits)

text \<open>A slot with a result for another thread that is not processed yet.\<close>

definition foreign :: "dp \<Rightarrow> nat \<Rightarrow> bool" where
  "foreign s k \<longleftrightarrow> rd_u4 (output_fifo (phy s) ! k) \<noteq> RD_WAS_PROCESSED \<and>
     NLM_GET_THREAD_ID (rd_cookie (output_fifo (phy s) ! k)) \<noteq> thread_id (dev s)"

text \<open>The same thread, the same read pointer and the same foreign results.\<close>

definition others_kept :: "dp \<Rightarrow> dp \<Rightarrow> bool" where
  "others_kept s s' \<longleftrightarrow> thread_id (dev s') = thread_id (dev s) \<and> output_rd_ptr (phy s') = output_rd_ptr (phy s) \<and>
     output_fifo_size (phy s') = output_fifo_size (phy s) \<and>
     (\<forall>k. foreign s k \<longrightarrow> output_fifo (phy s') ! k = output_fifo (phy s) ! k)"

lemma others_kept_trans: "others_kept s t \<Longrightarrow> others_kept t u \<Longrightarrow> others_kept s u"
  by (simp add: others_kept_def foreign_def)

lemma others_kept_foreign: "others_kept s t \<Longrightarrow> foreign s k \<Longrightarrow> foreign t k"
  by (simp add: others_kept_def foreign_def)

lemma consume_rd_for_thread_step:
  assumes "consume_rd_for_thread k buf j s = Some (b, buf', j', s')"
  shows "others_kept s s' \<and> length buf' = length buf \<and> j' \<le> Suc j \<and> (foreign s k \<longrightarrow> b)"
proof -
  let ?rd = "output_fifo (phy s) ! k"
  consider (processed) "rd_u4 ?rd = RD_WAS_PROCESSED" "s' = s" "buf' = buf" "j' = j"
    | (other) "b" "s' = s" "buf' = buf" "j' = j"
    | (own) rd' s1 where "NLM_GET_THREAD_ID (rd_cookie ?rd) = thread_id (dev s)" "populate_results ?rd buf j s = Some (rd', buf', j', s1)"
        "s' = upd_rd k rd' s1"
    using assms by (auto simp: consume_rd_for_thread_def Let_def split: if_splits)
  then show ?thesis
  proof cases
    case (own rd' s1)
    note f = populate_frame [OF own(2)]
    have "output_fifo (phy s') ! i = output_fifo (phy s) ! i" if "foreign s i" for i
      using that own f by (cases "i = k") (auto simp: foreign_def upd_rd_def)
    with own f show ?thesis by (auto simp: others_kept_def foreign_def upd_rd_def)
  qed (auto simp: others_kept_def foreign_def)
qed

lemma scan_rds_spec:
  "scan_rds ks e n nu buf j s = Some (i, nu', buf', j', s') \<Longrightarrow> j < n \<Longrightarrow>
   others_kept s s' \<and> length buf' = length buf \<and> j' \<le> n \<and> (i = e \<or> i \<in> set ks) \<and> (nu \<longrightarrow> nu') \<and>
   (\<forall>k \<in> set (takeWhile (\<lambda>k. k \<noteq> i) ks). foreign s k \<longrightarrow> nu')"
proof (induction ks arbitrary: nu buf j s)
  case Nil
  then show ?case by (auto simp: others_kept_def)
next
  case (Cons k ks)
  obtain b buf1 j1 s1 where c: "consume_rd_for_thread k buf j s = Some (b, buf1, j1, s1)"
    using Cons.prems(1) by (auto split: option.splits)
  note st = consume_rd_for_thread_step [OF c]
  show ?case
  proof (cases "j1 = n")
    case True
    with Cons.prems c st show ?thesis by auto
  next
    case False
    with Cons.prems c have r: "scan_rds ks e n (nu \<or> b) buf1 j1 s1 = Some (i, nu', buf', j', s')" by simp
    have "j1 < n" using st False Cons.prems(2) by simp
    from Cons.IH [OF r this] st show ?thesis
      by (auto intro: others_kept_trans dest: others_kept_foreign split: if_splits)
  qed
qed

lemma scan_rds_append:
  "j < n \<Longrightarrow> scan_rds (ks @ ls) e n nu buf j s =
   Option.bind (scan_rds ks e' n nu buf j s) (\<lambda>(i, nu1, buf1, j1, s1).
     if j1 < n then scan_rds ls e n nu1 buf1 j1 s1 else Some (i, nu1, buf1, j1, s1))"
proof (induction ks arbitrary: nu buf j s)
  case (Cons k ks)
  show ?case
  proof (cases "consume_rd_for_thread k buf j s")
    case (Some x)
    then obtain b buf1 j1 s1 where c: "consume_rd_for_thread k buf j s = Some (b, buf1, j1, s1)" by (cases x) auto
    with consume_rd_for_thread_step [OF c] Cons.prems have "j1 \<noteq> n \<Longrightarrow> j1 < n" by simp
    with c Cons.IH [of j1 "nu \<or> b" buf1 s1] show ?thesis by auto
  qed simp
qed simp

section \<open>The whole operation\<close>

definition output_side :: "dp \<Rightarrow> hw_result_descriptor list \<times> u32 \<times> u32 \<times> u32 \<times> u32" where
  "output_side s = (output_fifo (phy s), output_rd_ptr (phy s), output_wrt_ptr (phy s), output_fifo_size (phy s), thread_id (dev s))"

lemma output_side_simps [simp]:
  "output_side (upd_flow a g s) = output_side s" "output_side (upd_pd a h s) = output_side s" "output_side (upd_job a k s) = output_side s"
  "output_side (upd_phy (write_fd i fd) s) = output_side s" "output_side (upd_job_fifo q s) = output_side s"
  "output_side (upd_phy nlm_device_update_input_wrt_ptr s) = output_side s"
  by (simp_all add: output_side_def write_fd_def upd_job_fifo_def nlm_device_update_input_wrt_ptr_def phy_set_register_def)

lemma remove_pending_output: "nlm_device_remove_flow_from_pending f s = Some s' \<Longrightarrow> output_side s' = output_side s"
  by (auto simp: nlm_device_remove_flow_from_pending_def Let_def output_side_def split: if_splits)

lemma alloc_fd_output: "sysmem_alloc_fd (phy s) = (r, p) \<Longrightarrow> output_side (upd_phy (\<lambda>_. p) s) = output_side s"
  by (auto simp: sysmem_alloc_fd_def Let_def output_side_def split: if_splits)

lemma start_chain_output:
  assumes "nlm_flow_start_pending_pd_chain f s = Some (st, s')" shows "output_side s' = output_side s"
proof -
  obtain r p where a: "sysmem_alloc_fd (phy s) = (r, p)" by (cases "sysmem_alloc_fd (phy s)")
  show ?thesis
    using assms alloc_fd_output [OF a]
    by (auto simp: nlm_flow_start_pending_pd_chain_def Let_def bind_eq_Some_conv a
        dest!: remove_pending_output split: if_splits option.splits)
qed

lemma start_pending_output:
  assumes "start_pending_flows s = Some s'" shows "output_side s' = output_side s"
  by (rule start_pending_flows.raw_induct [where P = "\<lambda>s s'. output_side s' = output_side s", OF _ assms])
    (auto simp: bind_eq_Some_conv dest!: start_chain_output split: if_splits)

lemma try_pending_output: "try_pending s = Some s' \<Longrightarrow> output_side s' = output_side s"
  by (auto simp: try_pending_def nlm_try_start_stateful_flows_def dest!: start_pending_output split: if_splits)

lemma ring_index_id:
  assumes "\<exists>n\<le>31. sz = 2 ^ n" and "k < unat sz" shows "(word_of_nat k :: u32) AND (sz - 1) = word_of_nat k"
proof -
  obtain n where n: "n \<le> 31" "sz = 2 ^ n" using assms(1) by auto
  then have "k < 2 ^ n" using assms(2) by (simp add: unat_exp)
  moreover have "(2 :: nat) ^ n \<le> 2 ^ 31" using n by (intro power_increasing) auto
  ultimately have "unat (word_of_nat k :: u32) = k" by (simp add: unsigned_of_nat take_bit_nat_eq_self)
  then show ?thesis using n(1) \<open>k < 2 ^ n\<close> unfolding n(2) by (simp add: word_unat_eq_iff unat_and_exp_minus_1)
qed

lemma window_range:
  assumes "output_ring_ok p" and "i = unat (output_wrt_ptr p) \<or> i \<in> set (output_window p)"
  shows "i < unat (output_fifo_size p)"
  using assms by (auto simp: output_ring_ok_def output_window_def word_less_nat_alt split: if_splits)

lemma window_wrt: "output_rd_ptr p \<noteq> output_wrt_ptr p \<Longrightarrow> unat (output_wrt_ptr p) \<notin> set (output_window p)"
  by (auto simp: output_window_def word_less_nat_alt word_unat_eq_iff)

text \<open>The operation as one scan of the unread slots, followed by the update of the read pointer.\<close>

definition publish_rd_ptr :: "nat \<Rightarrow> bool \<Rightarrow> dp \<Rightarrow> dp" where
  "publish_rd_ptr i nu s =
     (if \<not> nu \<and> word_of_nat i \<noteq> output_rd_ptr (phy s)
      then upd_phy (\<lambda>p. phy_set_register (RDF_RD_PTR (fms_ring_id p)) (word_of_nat i) (p\<lparr>output_rd_ptr := word_of_nat i\<rparr>)) s
      else s)"

lemma get_all_scan:
  assumes ok: "output_ring_ok (phy s)" and ne: "output_rd_ptr (phy s) \<noteq> output_wrt_ptr (phy s)" and hw: "\<not> sw_fifos (dev s)"
    and args: "device \<noteq> NULL" "0 < n" "buf_ptr \<noteq> NULL" "nr \<noteq> NULL"
  shows "nlm_get_all_search_results device n buf_ptr buf nr s =
    Option.bind (scan_rds (output_window (phy s)) (unat (output_wrt_ptr (phy s))) n False buf 0 s) (\<lambda>(i, nu, buf', j, s1).
    Option.bind (try_pending (publish_rd_ptr i nu s1)) (\<lambda>s2. Some (NLM_OK, Some j, buf', s2)))"
proof -
  let ?p = "phy s" and ?w = "unat (output_wrt_ptr (phy s))"
  let ?scan = "scan_rds (output_window ?p) ?w n False buf 0 s"
  have two: "(if unat (output_rd_ptr ?p) < ?w then scan_rds [unat (output_rd_ptr ?p)..<?w] ?w n False buf 0 s
      else Option.bind (scan_rds [unat (output_rd_ptr ?p)..<unat (output_fifo_size ?p)] (unat (output_fifo_size ?p)) n False buf 0 s)
        (\<lambda>(e, nu, buf1, j, s1). if j < n then scan_rds [0..<?w] ?w n nu buf1 j s1 else Some (e, nu, buf1, j, s1))) = ?scan"
    unfolding output_window_def word_less_nat_alt
    using scan_rds_append [OF args(2), of "[unat (output_rd_ptr ?p)..<unat (output_fifo_size ?p)]" "[0..<?w]" ?w False buf s
        "unat (output_fifo_size ?p)"] by simp
  have idx: "word_of_nat i AND (output_fifo_size ?p - 1) = word_of_nat i" if "?scan = Some (i, nu, buf', j, s1)" for i nu buf' j s1
    using scan_rds_spec [OF that args(2)] ok window_range [OF ok, of i]
    by (intro ring_index_id) (auto simp: output_ring_ok_def)
  have "nlm_get_all_search_results device n buf_ptr buf nr s =
    Option.bind ?scan (\<lambda>(i, nu, buf', j, s1).
      let e' = word_of_nat i AND (output_fifo_size ?p - 1);
          s2 = (if \<not> nu \<and> e' \<noteq> output_rd_ptr (phy s1)
                then upd_phy (\<lambda>p. phy_set_register (RDF_RD_PTR (fms_ring_id p)) e' (p\<lparr>output_rd_ptr := e'\<rparr>)) s1 else s1)
      in Option.bind (try_pending s2) (\<lambda>s3. Some (NLM_OK, Some j, buf', s3)))"
    unfolding nlm_get_all_search_results_def Let_def two using ok ne hw args by (simp add: output_ring_ok_def)
  also have "\<dots> = Option.bind ?scan (\<lambda>(i, nu, buf', j, s1).
    Option.bind (try_pending (publish_rd_ptr i nu s1)) (\<lambda>s2. Some (NLM_OK, Some j, buf', s2)))"
    using idx by (cases ?scan) (auto simp: publish_rd_ptr_def Let_def)
  finally show ?thesis .
qed

section \<open>Results of stateless flows\<close>

text \<open>A thread with the jobs \<open>U\<close> and the flows \<open>F\<close> in use, of which the jobs \<open>W\<close> are on the device;
  all of them belong to stateless flows without errors, whose counters count them.\<close>

definition on_device :: "dp \<Rightarrow> addr set \<Rightarrow> addr set \<Rightarrow> addr set \<Rightarrow> bool" where
  "on_device s U F W \<longleftrightarrow> job_pool_ok s U \<and> flow_pool_ok s F \<and> finite W \<and> W \<subseteq> U \<and> card W < 2 ^ 32 \<and>
     (\<forall>job \<in> W. let f = jb_flow (jobs s job); c = fd_cookie (jb_fd (jobs s job)) in
        c \<noteq> 0 \<and> job_at c s = job \<and> jb_pd (jobs s job) = NULL \<and> f \<in> F \<and>
        fl_is_stateless (flows s f) \<noteq> 0 \<and> fl_errored (flows s f) = 0 \<and>
        fl_job_seq_id (flows s f) = word_of_nat (card {w \<in> W. jb_flow (jobs s w) = f}))"

text \<open>What the device writes without an error: matches of jobs it has, and the end of each job
  after its matches. The result is the jobs still on the device, if the results \<open>rds\<close> fit.\<close>

definition of_job :: "dp \<Rightarrow> hw_result_descriptor \<Rightarrow> addr" where
  "of_job s rd = job_at (rd_cookie rd) s"

definition ends_job :: "hw_result_descriptor \<Rightarrow> bool" where
  "ends_job rd \<longleftrightarrow> rd_result_type rd = FMS_FRD_RESULT"

definition fits :: "dp \<Rightarrow> addr set \<Rightarrow> hw_result_descriptor \<Rightarrow> bool" where
  "fits s W rd \<longleftrightarrow> rd_valid rd \<noteq> 0 \<and> of_job s rd \<in> W \<and> rd_cookie rd = fd_cookie (jb_fd (jobs s (of_job s rd))) \<and>
     (rd_result_type rd = FMS_MATCH_RESULT \<or> rd_result_type rd = FMS_FRD_RESULT \<and> rd_error_code rd = 0)"

fun fit_all :: "dp \<Rightarrow> addr set \<Rightarrow> hw_result_descriptor list \<Rightarrow> bool" where
  "fit_all s W [] = True"
| "fit_all s W (rd # rds) \<longleftrightarrow> fits s W rd \<and> fit_all s (if ends_job rd then W - {of_job s rd} else W) rds"

text \<open>The entry of the user's buffer for a result, and the jobs some results end.\<close>

definition result_of :: "dp \<Rightarrow> hw_result_descriptor \<Rightarrow> nlm_result" where
  "result_of s rd =
     (let j = jobs s (of_job s rd) in
      if ends_job rd then \<lparr>r_status = NLM_END_OF_JOB, r_cookie = jb_user_cookie j, r_u = U_stats (decode_stats rd)\<rparr>
      else \<lparr>r_status = if rd_end_anchor rd \<noteq> 0 then NLM_END_ANCHORED else NLM_OK, r_cookie = jb_user_cookie j,
        r_u = U_match (decode_match rd j)\<rparr>)"

definition ended :: "dp \<Rightarrow> hw_result_descriptor list \<Rightarrow> addr set" where
  "ended s rds = of_job s ` set (filter ends_job rds)"

lemma ended_simps [simp]:
  "ended s [] = {}" "ended s (rd # rds) = (if ends_job rd then insert (of_job s rd) (ended s rds) else ended s rds)"
  by (simp_all add: ended_def)

text \<open>The same jobs in order, and the flows that were destroyed and have their last job among them.\<close>

definition ended_jobs :: "dp \<Rightarrow> hw_result_descriptor list \<Rightarrow> addr list" where
  "ended_jobs s rds = map (of_job s) (filter ends_job rds)"

lemma ended_jobs_simps [simp]:
  "ended_jobs s [] = []" "ended_jobs s (rd # rds) = (if ends_job rd then of_job s rd # ended_jobs s rds else ended_jobs s rds)"
  "set (ended_jobs s rds) = ended s rds"
  by (simp_all add: ended_jobs_def ended_def)

definition freed_flows :: "dp \<Rightarrow> addr set \<Rightarrow> hw_result_descriptor list \<Rightarrow> addr set" where
  "freed_flows s W rds = {f. fl_type (flows s f) = NLM_FLOW_TYPE_INVALID \<and> f \<in> (\<lambda>w. jb_flow (jobs s w)) ` ended s rds \<and>
     f \<notin> (\<lambda>w. jb_flow (jobs s w)) ` (W - ended s rds)}"

text \<open>The free lists: \<open>fs\<close> of the jobs, \<open>sf\<close> and \<open>sl\<close> of the stateful and the stateless flows.\<close>

definition stock :: "dp \<Rightarrow> addr set \<Rightarrow> addr list \<Rightarrow> addr list \<Rightarrow> addr list \<Rightarrow> bool" where
  "stock s F fs sf sl \<longleftrightarrow> free_jobs s fs \<and> flow_lists_ok s F sf sl"

lemma freed_flows_Nil [simp]: "freed_flows s W [] = {}"
  by (simp add: freed_flows_def)

lemma freed_flows_match: "\<not> ends_job rd \<Longrightarrow> freed_flows s W (rd # rds) = freed_flows s W rds"
  by (simp add: freed_flows_def)

lemma freed_flows_step:
  assumes e: "ended s [rd] \<subseteq> W" and sub: "ended s rds \<subseteq> W - ended s [rd]"
    and same: "\<forall>a. a \<notin> ended s [rd] \<longrightarrow> jobs s' a = jobs s a"
      "\<forall>w \<in> W - ended s [rd]. fl_type (flows s' (jb_flow (jobs s w))) = fl_type (flows s (jb_flow (jobs s w)))"
      "job_base (dev s') = job_base (dev s)"
  shows "freed_flows s W (rd # rds) = freed_flows s W [rd] \<union> freed_flows s' (W - ended s [rd]) rds"
proof -
  have oj: "of_job s' = of_job s" using same(3) by (intro ext) (simp add: of_job_def job_at_def)
  then have en: "ended s' rds = ended s rds" by (simp add: ended_def)
  have split: "ended s (rd # rds) = ended s [rd] \<union> ended s rds" by (simp add: ended_def)
  have img: "(\<lambda>w. jb_flow (jobs s' w)) ` X = (\<lambda>w. jb_flow (jobs s w)) ` X" if "X \<subseteq> W - ended s [rd]" for X
    using that same(1) by (intro image_cong) auto
  have rest: "W - (ended s [rd] \<union> ended s rds) = W - ended s [rd] - ended s rds" by auto
  have W: "W - ended s [rd] = (W - ended s [rd] - ended s rds) \<union> ended s rds" using sub by auto
  have "(\<lambda>w. jb_flow (jobs s w)) ` (W - ended s [rd]) =
      (\<lambda>w. jb_flow (jobs s w)) ` (W - ended s [rd] - ended s rds) \<union> (\<lambda>w. jb_flow (jobs s w)) ` ended s rds"
    by (subst W) (rule image_Un)
  then show ?thesis
    unfolding freed_flows_def en split rest img [OF sub] img [OF Diff_subset] image_Un using same(2) sub by auto
qed

lemma on_deviceD:
  assumes "on_device s U F W" and "job \<in> W"
  shows "awaits job s" "jb_pd (jobs s job) = NULL" "jb_flow (jobs s job) \<in> F" "job \<in> U" "job_pool_ok s U" "flow_pool_ok s F" "finite W"
    "fl_is_stateless (flows s (jb_flow (jobs s job))) \<noteq> 0" "fl_errored (flows s (jb_flow (jobs s job))) = 0"
    "fl_job_seq_id (flows s (jb_flow (jobs s job))) = word_of_nat (card {w \<in> W. jb_flow (jobs s w) = jb_flow (jobs s job)})"
  using assms by (auto simp: on_device_def awaits_def Let_def)

lemma result_types: "FMS_FRD_RESULT \<noteq> FMS_MATCH_RESULT" "FMS_MATCH_RESULT \<noteq> FMS_FRD_RESULT"
  by (simp_all add: FMS_FRD_RESULT_def FMS_MATCH_RESULT_def)

lemma populate_match_fit:
  assumes "on_device s U F W" and "fits s W rd" and "\<not> ends_job rd" and "j < length buf"
  shows "populate_results rd buf j s = Some (rd\<lparr>rd_u4 := RD_WAS_PROCESSED\<rparr>, buf[j := result_of s rd], j + 1, s)"
  using assms(2-) on_deviceD [OF assms(1), of "of_job s rd"]
  by (auto simp: populate_results_def fits_def ends_job_def result_of_def Let_def of_job_def awaits_def result_upd result_types)

lemma of_nat_1: "n < 2 ^ 32 \<Longrightarrow> (word_of_nat n :: u32) = 1 \<longleftrightarrow> n = 1"
  by (simp add: word_unat_eq_iff unsigned_of_nat take_bit_nat_eq_self)

lemma populate_end_fit:
  assumes dev: "on_device s U F W" and fit: "fits s W rd" and e: "ends_job rd" and j: "j < length buf"
    and stock: "stock s F fs sf sl"
  obtains s' sl' where "populate_results rd buf j s = Some (rd\<lparr>rd_u4 := RD_WAS_PROCESSED\<rparr>, buf[j := result_of s rd], j + 1, s')"
    "on_device s' (U - {of_job s rd}) (F - freed_flows s W [rd]) (W - {of_job s rd})"
    "stock s' (F - freed_flows s W [rd]) (of_job s rd # fs) sf (sl' @ sl)" "set sl' = freed_flows s W [rd]"
    "\<forall>w \<in> W - {of_job s rd}. fl_type (flows s' (jb_flow (jobs s w))) = fl_type (flows s (jb_flow (jobs s w)))" "phy s' = phy s" "thread_id (dev s') = thread_id (dev s)"
    "job_base (dev s') = job_base (dev s)" "pending_flow_list_head (dev s') = pending_flow_list_head (dev s)"
    "\<forall>a. a \<noteq> of_job s rd \<longrightarrow> jobs s' a = jobs s a"
proof -
  define job where "job = of_job s rd"
  define flow where "flow = jb_flow (jobs s job)"
  have W: "job \<in> W" "rd_valid rd \<noteq> 0" "rd_cookie rd = fd_cookie (jb_fd (jobs s job))" "rd_error_code rd = 0"
    using fit e by (auto simp: fits_def job_def ends_job_def result_types)
  note D = on_deviceD [OF dev W(1), folded flow_def]
  let ?C = "{w \<in> W. jb_flow (jobs s w) = flow}"
  have cW: "card W < 2 ^ 32" using dev by (simp add: on_device_def)
  have cC: "card ?C \<le> card W" using D(7) by (intro card_mono) auto
  have finC: "finite ?C" and inC: "job \<in> ?C" using D(7) W(1) by (auto simp: flow_def)
  then have pos: "card ?C \<noteq> 0" by auto
  define s2 where "s2 = memory_pool_free_job job s"
  define s3 where "s3 = upd_flow flow (\<lambda>f. f\<lparr>fl_u0 := fl_u0 f - 1\<rparr>) s2"
  define last where "last = (fl_type (flows s flow) = NLM_FLOW_TYPE_INVALID \<and> fl_job_seq_id (flows s flow) = 1)"
  define s4 where "s4 = (if last then memory_pool_free_flow flow s3 else s3)"
  let ?F = "if last then F - {flow} else F"
  have eq1: "card ?C = 1 \<longleftrightarrow> flow \<notin> (\<lambda>w. jb_flow (jobs s w)) ` (W - {job})"
  proof
    assume "card ?C = 1"
    then obtain x where x: "?C = {x}" by (rule card_1_singletonE)
    with inC have "?C = {job}" by auto
    then show "flow \<notin> (\<lambda>w. jb_flow (jobs s w)) ` (W - {job})" by auto
  next
    assume no: "flow \<notin> (\<lambda>w. jb_flow (jobs s w)) ` (W - {job})"
    have "x = job" if "x \<in> ?C" for x
    proof (rule ccontr)
      assume "x \<noteq> job"
      with that have "x \<in> W - {job}" "flow = jb_flow (jobs s x)" by auto
      then have "flow \<in> (\<lambda>w. jb_flow (jobs s w)) ` (W - {job})" by (rule rev_image_eqI)
      with no show False ..
    qed
    then have "?C \<subseteq> {job}" by blast
    with inC have "?C = {job}" by (intro equalityI) blast+
    then show "card ?C = 1" by simp
  qed
  have freed: "freed_flows s W [rd] = (if last then {flow} else {})"
  proof -
    have "freed_flows s W [rd] = {f. f = flow \<and> fl_type (flows s flow) = NLM_FLOW_TYPE_INVALID \<and> flow \<notin> (\<lambda>w. jb_flow (jobs s w)) ` (W - {job})}"
    proof -
      have "ended s [rd] = {job}" using e by (simp add: job_def)
      then show ?thesis unfolding freed_flows_def by (simp add: flow_def [symmetric]) blast
    qed
    moreover have "card ?C < 2 ^ 32" using cC cW by linarith
    then have "last \<longleftrightarrow> fl_type (flows s flow) = NLM_FLOW_TYPE_INVALID \<and> card ?C = 1"
      unfolding last_def D(10) using of_nat_1 [of "card ?C"] by simp
    ultimately show ?thesis unfolding eq1 by simp
  qed
  have j2: "job_pool_ok s2 (U - {job})" using D(5,4) unfolding s2_def by (rule job_pool.free_ok)
  then have j3: "job_pool_ok s3 (U - {job})" by (simp add: s3_def)
  have j4: "job_pool_ok s4 (U - {job})"
    using j3 job_pool_frame [OF j3, of "memory_pool_free_flow flow s3"] by (auto simp: s4_def memory_pool_free_flow_def job_dev_def)
  have "flow_pool_ok s2 F" using D(6) by (simp add: s2_def flow_pool_free_job)
  then have f3: "flow_pool_ok s3 F"
    unfolding s3_def using flow_pool_write [OF _ D(3), of s2 "\<lambda>f. f\<lparr>fl_u0 := fl_u0 f - 1\<rparr>"] D(8) by (simp add: s2_def)
  then have f4: "flow_pool_ok s4 ?F" using free_flow_ok [OF f3 D(3)] by (simp add: s4_def)
  have "flow_lists_ok s2 F sf sl" using stock by (simp add: stock_def s2_def flow_lists_free_job)
  then have l3: "flow_lists_ok s3 F sf sl"
    unfolding s3_def using flow_lists_write [OF _ D(3), of s2 sf sl "\<lambda>f. f\<lparr>fl_u0 := fl_u0 f - 1\<rparr>"] D(8) by (simp add: s2_def)
  have "fl_is_stateless (flows s3 flow) \<noteq> 0" using D(8) by (simp add: s3_def s2_def)
  then have l4: "flow_lists_ok s4 ?F sf ((if last then [flow] else []) @ sl)"
    using l3 free_flow_lists(1) [OF l3 D(3)] by (simp add: s4_def)
  have "free_jobs s2 (job # fs)"
    unfolding s2_def using stock by (intro free_job_push [OF D(5,4)]) (simp add: stock_def)
  moreover have "free_jobs s4 xs = free_jobs s2 xs" for xs
    by (rule free_jobs_cong) (simp_all add: s4_def s3_def memory_pool_free_flow_def)
  ultimately have st4: "stock s4 ?F (job # fs) sf ((if last then [flow] else []) @ sl)" using l4 by (simp add: stock_def)
  have z: "fl_u0 (flows s flow) - 1 = 0 \<longleftrightarrow> fl_u0 (flows s flow) = 1" by (simp add: eq_iff_diff_eq_0 [symmetric])
  have "finish_stateless rd flow s2 = Some s4"
    using D(8) e z by (simp add: finish_stateless_def s2_def s3_def s4_def last_def Let_def ends_job_def)
  then have fin: "finish_stateless rd flow (memory_pool_free_job job s) = Some s4" by (simp add: s2_def)
  have at: "job_at (rd_cookie rd) s = job" by (simp add: job_def of_job_def)
  have ty: "rd_result_type rd = FMS_FRD_RESULT" using e by (simp add: ends_job_def)
  have res: "result_of s rd = \<lparr>r_status = NLM_END_OF_JOB, r_cookie = jb_user_cookie (jobs s job), r_u = U_stats (decode_stats rd)\<rparr>"
    using e by (simp add: result_of_def Let_def of_job_def at)
  have pop: "populate_results rd buf j s = Some (rd\<lparr>rd_u4 := RD_WAS_PROCESSED\<rparr>, buf[j := result_of s rd], j + 1, s4)"
    unfolding populate_results_def Let_def at res flow_def [symmetric]
    using W(2-4) D(1,2,8) fin j by (simp add: awaits_def Let_def result_types ty result_upd)
  have jobs4: "jobs s4 a = jobs s a" if "a \<noteq> job" for a
    using that by (simp add: s4_def s3_def s2_def memory_pool_free_flow_def memory_pool_free_job_def)
  have flows4: "flows s4 f = flows s f" if "f \<noteq> flow" for f
    using that by (simp add: s4_def s3_def s2_def memory_pool_free_flow_def memory_pool_free_job_def)
  have same: "fl_is_stateless (flows s4 f) = fl_is_stateless (flows s f)" "fl_errored (flows s4 f) = fl_errored (flows s f)" for f
    by (simp_all add: s4_def s3_def s2_def memory_pool_free_flow_def memory_pool_free_job_def set_flow_link_def Let_def)
  have type4: "fl_type (flows s4 (jb_flow (jobs s w))) = fl_type (flows s (jb_flow (jobs s w)))" if w: "w \<in> W - {job}" for w
  proof (cases "jb_flow (jobs s w) = flow")
    case True
    then have "flow \<in> (\<lambda>w. jb_flow (jobs s w)) ` (W - {job})" using w by (intro image_eqI [of _ _ w]) simp_all
    moreover have "card ?C < 2 ^ 32" using cC cW by linarith
    ultimately have "\<not> last" unfolding last_def D(10) using of_nat_1 [of "card ?C"] eq1 by simp
    then show ?thesis by (simp add: s4_def s3_def s2_def)
  qed (simp add: flows4)
  have cnt: "fl_u0 (flows s4 flow) = word_of_nat (card ?C) - 1"
    using D(10) by (simp add: s4_def s3_def s2_def memory_pool_free_flow_def memory_pool_free_job_def set_flow_link_def Let_def)
  have base: "job_base (dev s4) = job_base (dev s)" "pending_flow_list_head (dev s4) = pending_flow_list_head (dev s)"
    "thread_id (dev s4) = thread_id (dev s)" "phy s4 = phy s"
    by (simp_all add: s4_def s3_def s2_def memory_pool_free_flow_def memory_pool_free_job_def)
  have "on_device s4 (U - {job}) ?F (W - {job})"
    unfolding on_device_def Let_def
  proof (intro conjI ballI)
    fix w assume w: "w \<in> W - {job}"
    let ?g = "jb_flow (jobs s w)"
    note E = on_deviceD [OF dev, of w]
    have jw: "jobs s4 w = jobs s w" using w jobs4 by simp
    have at: "job_at c s4 = job_at c s" for c using base by (simp add: job_at_def)
    show "fd_cookie (jb_fd (jobs s4 w)) \<noteq> 0" "job_at (fd_cookie (jb_fd (jobs s4 w))) s4 = w" "jb_pd (jobs s4 w) = NULL"
      using w E by (auto simp: jw at awaits_def Let_def)
    show "fl_is_stateless (flows s4 (jb_flow (jobs s4 w))) \<noteq> 0" "fl_errored (flows s4 (jb_flow (jobs s4 w))) = 0"
      using w E by (auto simp: jw same)
    show "jb_flow (jobs s4 w) \<in> ?F"
    proof -
      have "card ?C \<noteq> 1" if "?g = flow"
      proof
        assume "card ?C = 1"
        then obtain x where "?C = {x}" by (rule card_1_singletonE)
        moreover have "w \<in> ?C" using w that by simp
        ultimately have "w = x" "job = x" using inC by (metis singletonD)+
        with w show False by simp
      qed
      then have "\<not> last" if "?g = flow" using that D(10) of_nat_1 [of "card ?C"] cC cW by (auto simp: last_def)
      then show ?thesis using w E by (auto simp: jw)
    qed
    have set: "{x \<in> W - {job}. jb_flow (jobs s4 x) = g} = {x \<in> W. jb_flow (jobs s x) = g} - {job}" for g
      using jobs4 by auto
    show "fl_job_seq_id (flows s4 (jb_flow (jobs s4 w))) =
      word_of_nat (card {x \<in> W - {job}. jb_flow (jobs s4 x) = jb_flow (jobs s4 w)})"
    proof (cases "?g = flow")
      case True
      have "card (?C - {job}) = card ?C - 1" using finC inC by simp
      moreover have "(word_of_nat (card ?C - 1) :: u32) = word_of_nat (card ?C) - 1" using pos by (simp add: of_nat_diff)
      ultimately show ?thesis unfolding jw set True cnt by (simp only:)
    next
      case False
      then have "{x \<in> W. jb_flow (jobs s x) = ?g} - {job} = {x \<in> W. jb_flow (jobs s x) = ?g}" by (auto simp: flow_def)
      moreover have "flows s4 ?g = flows s ?g" using False by (rule flows4)
      ultimately show ?thesis using w E(10) unfolding jw set by simp
    qed
  next
    have "card (W - {job}) \<le> card W" using D(7) by (intro card_mono) auto
    with cW show "card (W - {job}) < 2 ^ 32" by simp
  qed (use j4 f4 D(7) dev in \<open>auto simp: on_device_def\<close>)
  moreover have "?F = F - freed_flows s W [rd]" by (simp add: freed)
  ultimately show thesis
    using pop base jobs4 type4 st4 freed
    by (intro that [of s4 "if last then [flow] else []"]) (auto simp: job_def [symmetric])
qed

text \<open>The results of the thread among the slots \<open>ks\<close>.\<close>

definition own :: "dp \<Rightarrow> nat list \<Rightarrow> hw_result_descriptor list" where
  "own s ks = pending_rds (unat (thread_id (dev s))) (output_fifo (phy s)) ks"

definition slots_valid :: "dp \<Rightarrow> nat list \<Rightarrow> bool" where
  "slots_valid s ks \<longleftrightarrow> distinct ks \<and> (\<forall>k \<in> set ks. k < length (output_fifo (phy s)) \<and>
     (rd_u4 (output_fifo (phy s) ! k) \<noteq> RD_WAS_PROCESSED \<longrightarrow> rd_cookie (output_fifo (phy s) ! k) \<noteq> 0))"

lemma own_simps:
  "own s [] = []"
  "own s (k # ks) =
     (if rd_u4 (output_fifo (phy s) ! k) \<noteq> RD_WAS_PROCESSED \<and> NLM_GET_THREAD_ID (rd_cookie (output_fifo (phy s) ! k)) = thread_id (dev s)
      then output_fifo (phy s) ! k # own s ks else own s ks)"
  by (simp_all add: own_def rd_thread_def word_unat_eq_iff)

lemma of_job_same: "job_base (dev s') = job_base (dev s) \<Longrightarrow> of_job s' = of_job s"
  by (intro ext) (simp add: of_job_def job_at_def)

lemma fit_all_same:
  assumes "job_base (dev s') = job_base (dev s)" and "\<forall>a \<in> W. jobs s' a = jobs s a" and "fit_all s W rds"
  shows "fit_all s' W rds \<and> map (result_of s') rds = map (result_of s) rds"
  using assms
proof (induction rds arbitrary: W)
  case (Cons rd rds)
  note oj = of_job_same [OF Cons.prems(1)]
  have "of_job s rd \<in> W" using Cons.prems(3) by (simp add: fits_def)
  then have "jobs s' (of_job s rd) = jobs s (of_job s rd)" using Cons.prems(2) by simp
  moreover have "fit_all s' (if ends_job rd then W - {of_job s rd} else W) rds \<and> map (result_of s') rds = map (result_of s) rds"
    using Cons.prems by (intro Cons.IH) auto
  moreover from calculation(1) have "result_of s' rd = result_of s rd" "fits s' W rd = fits s W rd"
    by (simp_all add: fits_def oj result_of_def Let_def)
  ultimately show ?case using Cons.prems(3) by (cases "ends_job rd") (simp_all add: oj)
qed simp

lemma ended_fit: "fit_all s W rds \<Longrightarrow> ended s rds \<subseteq> W"
  by (induction rds arbitrary: W) (fastforce simp: fits_def split: if_splits)+

lemma ended_take: "ended s (take m rds) \<subseteq> ended s rds"
  using set_take_subset by (fastforce simp: ended_def)

lemma ended_same: "job_base (dev s') = job_base (dev s) \<Longrightarrow> ended s' rds = ended s rds"
  using of_job_same [of s' s] by (simp add: ended_def)

lemma on_device_upd_rd [simp]: "on_device (upd_rd k rd s) U F W = on_device s U F W"
proof -
  have "pool_geometry (upd_rd k rd s) = pool_geometry s" "flow_slots (upd_rd k rd s) = flow_slots s" "job_slots (upd_rd k rd s) = job_slots s"
    by (simp_all add: upd_rd_def pool_geometry_def flow_slots_def job_slots_def)
  moreover have "jobs (upd_rd k rd s) = jobs s" "flows (upd_rd k rd s) = flows s" "dev (upd_rd k rd s) = dev s"
    by (simp_all add: upd_rd_def)
  ultimately show ?thesis
    by (simp add: on_device_def job_pool_ok_def flow_pool_ok_def flow_lists_ok_def job_at_def)
qed

lemma stock_upd_rd [simp]: "stock (upd_rd k rd s) F fs sf sl = stock s F fs sf sl"
  by (simp add: stock_def upd_rd_def free_jobs_def flow_lists_ok_def pool_geometry_def flow_slots_def)

text \<open>One slot with a result of the thread.\<close>

lemma consume_own:
  assumes dev: "on_device s U F W" and fit: "fits s W rd" and rd: "rd = output_fifo (phy s) ! k" and k: "k < length (output_fifo (phy s))"
    and own: "rd_u4 rd \<noteq> RD_WAS_PROCESSED" "rd_cookie rd \<noteq> 0" "NLM_GET_THREAD_ID (rd_cookie rd) = thread_id (dev s)" and j: "j < length buf"
    and stock: "stock s F fs sf sl"
  obtains s' sl' where "consume_rd_for_thread k buf j s = Some (False, buf[j := result_of s rd], j + 1, s')"
    "on_device s' (U - ended s [rd]) (F - freed_flows s W [rd]) (W - ended s [rd])"
    "stock s' (F - freed_flows s W [rd]) (rev (ended_jobs s [rd]) @ fs) sf (sl' @ sl)" "set sl' = freed_flows s W [rd]"
    "\<forall>w \<in> W - ended s [rd]. fl_type (flows s' (jb_flow (jobs s w))) = fl_type (flows s (jb_flow (jobs s w)))" "job_base (dev s') = job_base (dev s)"
    "pending_flow_list_head (dev s') = pending_flow_list_head (dev s)" "thread_id (dev s') = thread_id (dev s)"
    "output_fifo (phy s') = (output_fifo (phy s))[k := rd\<lparr>rd_u4 := RD_WAS_PROCESSED\<rparr>]"
    "\<forall>a. a \<notin> ended s [rd] \<longrightarrow> jobs s' a = jobs s a"
proof (cases "ends_job rd")
  case False
  note p = populate_match_fit [OF dev fit False j]
  show thesis
    using p dev own False stock
    by (intro that [of "upd_rd k (rd\<lparr>rd_u4 := RD_WAS_PROCESSED\<rparr>) s" "[]"])
      (simp_all add: consume_rd_for_thread_def Let_def rd [symmetric] freed_flows_match, simp_all add: upd_rd_def)
next
  case True
  obtain s1 sl' where s1: "populate_results rd buf j s = Some (rd\<lparr>rd_u4 := RD_WAS_PROCESSED\<rparr>, buf[j := result_of s rd], j + 1, s1)"
    "on_device s1 (U - {of_job s rd}) (F - freed_flows s W [rd]) (W - {of_job s rd})"
    "stock s1 (F - freed_flows s W [rd]) (of_job s rd # fs) sf (sl' @ sl)" "set sl' = freed_flows s W [rd]"
    "\<forall>w \<in> W - {of_job s rd}. fl_type (flows s1 (jb_flow (jobs s w))) = fl_type (flows s (jb_flow (jobs s w)))" "phy s1 = phy s" "thread_id (dev s1) = thread_id (dev s)"
    "job_base (dev s1) = job_base (dev s)" "pending_flow_list_head (dev s1) = pending_flow_list_head (dev s)"
    "\<forall>a. a \<noteq> of_job s rd \<longrightarrow> jobs s1 a = jobs s a"
    by (rule populate_end_fit [OF dev fit True j stock])
  show thesis
    using s1 own True
    by (intro that [of "upd_rd k (rd\<lparr>rd_u4 := RD_WAS_PROCESSED\<rparr>) s1" sl'])
      (simp_all add: consume_rd_for_thread_def Let_def rd [symmetric], simp_all add: upd_rd_def)
qed

text \<open>The scan stores the first results of the thread, as many as there is room for.\<close>

lemma take_Suc_update: "j < length xs \<Longrightarrow> take (Suc j) (xs[j := x]) = take j xs @ [x]"
  by (simp add: take_Suc_conv_app_nth)

lemma own_update: "k \<notin> set ks \<Longrightarrow> thread_id (dev s') = thread_id (dev s) \<Longrightarrow>
    output_fifo (phy s') = (output_fifo (phy s))[k := rd] \<Longrightarrow> own s' ks = own s ks"
  unfolding own_def by (simp only:, rule pending_rds_cong) (metis nth_list_update_neq)

lemma scan_rds_results:
  assumes "on_device s U F W" and "fit_all s W (own s ks)" and "slots_valid s ks" and "j < n" and "n \<le> length buf"
    and "stock s F fs sf sl"
  shows "\<exists>i nu' buf' s' sl'. let D = take (n - j) (own s ks) in
    scan_rds ks e n nu buf j s = Some (i, nu', buf', j + length D, s') \<and>
    take (j + length D) buf' = take j buf @ map (result_of s) D \<and>
    on_device s' (U - ended s D) (F - freed_flows s W D) (W - ended s D) \<and>
    stock s' (F - freed_flows s W D) (rev (ended_jobs s D) @ fs) sf (sl' @ sl) \<and> set sl' = freed_flows s W D \<and>
    pending_flow_list_head (dev s') = pending_flow_list_head (dev s)"
  using assms
proof (induction ks arbitrary: nu buf j s U F W fs sl)
  case Nil
  then show ?case by (auto simp: own_simps)
next
  case (Cons k ks)
  let ?rd = "output_fifo (phy s) ! k"
  have k: "k < length (output_fifo (phy s))" "k \<notin> set ks" "rd_u4 ?rd \<noteq> RD_WAS_PROCESSED \<longrightarrow> rd_cookie ?rd \<noteq> 0"
    and v: "slots_valid s ks"
    using Cons.prems(3) by (auto simp: slots_valid_def)
  show ?case
  proof (cases "rd_u4 ?rd \<noteq> RD_WAS_PROCESSED \<and> NLM_GET_THREAD_ID (rd_cookie ?rd) = thread_id (dev s)")
    case False
    then have "consume_rd_for_thread k buf j s = Some (rd_u4 ?rd \<noteq> RD_WAS_PROCESSED, buf, j, s)"
      using k(3) by (auto simp: consume_rd_for_thread_def Let_def)
    then obtain b where "consume_rd_for_thread k buf j s = Some (b, buf, j, s)" ..
    moreover have o: "own s (k # ks) = own s ks" using False by (simp only: own_simps if_False)
    ultimately show ?thesis
      using Cons.IH [of s U F W j buf fs sl "nu \<or> b"] Cons.prems v unfolding o by (auto simp: Let_def)
  next
    case True
    have o: "own s (k # ks) = ?rd # own s ks" unfolding own_simps(2) by (rule if_P [OF True])
    with Cons.prems(2) have fit: "fits s W ?rd" "fit_all s (W - ended s [?rd]) (own s ks)"
      by (auto split: if_splits)
    have jb: "j < length buf" using Cons.prems(4,5) by simp
    from True k(3) have t: "rd_u4 ?rd \<noteq> RD_WAS_PROCESSED" "rd_cookie ?rd \<noteq> 0"
      "NLM_GET_THREAD_ID (rd_cookie ?rd) = thread_id (dev s)" by auto
    obtain s1 sl1 where c: "consume_rd_for_thread k buf j s = Some (False, buf[j := result_of s ?rd], j + 1, s1)"
      and d1: "on_device s1 (U - ended s [?rd]) (F - freed_flows s W [?rd]) (W - ended s [?rd])"
      and st1: "stock s1 (F - freed_flows s W [?rd]) (rev (ended_jobs s [?rd]) @ fs) sf (sl1 @ sl)" "set sl1 = freed_flows s W [?rd]"
      and types: "\<forall>w \<in> W - ended s [?rd]. fl_type (flows s1 (jb_flow (jobs s w))) = fl_type (flows s (jb_flow (jobs s w)))"
      and base: "job_base (dev s1) = job_base (dev s)"
      and pend: "pending_flow_list_head (dev s1) = pending_flow_list_head (dev s)" and tid: "thread_id (dev s1) = thread_id (dev s)"
      and ring: "output_fifo (phy s1) = (output_fifo (phy s))[k := ?rd\<lparr>rd_u4 := RD_WAS_PROCESSED\<rparr>]"
      and jobs1: "\<forall>a. a \<notin> ended s [?rd] \<longrightarrow> jobs s1 a = jobs s a"
      by (rule consume_own [OF Cons.prems(1) fit(1) refl k(1) t jb Cons.prems(6)])
    let ?buf = "buf[j := result_of s ?rd]"
    have own1: "own s1 ks = own s ks" by (rule own_update [OF k(2) tid ring])
    have same: "fit_all s1 (W - ended s [?rd]) (own s ks) \<and> map (result_of s1) (own s ks) = map (result_of s) (own s ks)"
      using jobs1 by (intro fit_all_same [OF base _ fit(2)]) blast
    have buf1: "take (Suc j) ?buf = take j buf @ [result_of s ?rd]" by (rule take_Suc_update [OF jb])
    show ?thesis
    proof (cases "j + 1 = n")
      case True
      then have D1: "take (n - j) (?rd # own s ks) = [?rd]" by (simp add: take_Cons')
      from True show ?thesis
        unfolding Let_def o D1 using c buf1 d1 pend st1
        by (intro exI [of _ k] exI [of _ nu] exI [of _ ?buf] exI [of _ s1] exI [of _ sl1]) (simp add: take_Suc_conv_app_nth)
    next
      case False
      then have jn: "j + 1 < n" using Cons.prems(4) by simp
      have "\<forall>x \<in> set ks. output_fifo (phy s1) ! x = output_fifo (phy s) ! x" "length (output_fifo (phy s1)) = length (output_fifo (phy s))"
        using k(2) by (metis ring nth_list_update_neq, simp add: ring)
      then have v1: "slots_valid s1 ks" using v by (simp add: slots_valid_def)
      have len: "n \<le> length ?buf" using Cons.prems(5) by simp
      let ?F = "F - freed_flows s W [?rd]" and ?W = "W - ended s [?rd]"
      obtain i nu' buf' s' sl' where IH: "let D = take (n - (j + 1)) (own s ks) in
          scan_rds ks e n nu ?buf (j + 1) s1 = Some (i, nu', buf', j + 1 + length D, s') \<and>
          take (j + 1 + length D) buf' = take (j + 1) ?buf @ map (result_of s1) D \<and>
          on_device s' (U - ended s [?rd] - ended s1 D) (?F - freed_flows s1 ?W D) (?W - ended s1 D) \<and>
          stock s' (?F - freed_flows s1 ?W D) (rev (ended_jobs s1 D) @ rev (ended_jobs s [?rd]) @ fs) sf (sl' @ sl1 @ sl) \<and>
          set sl' = freed_flows s1 ?W D \<and>
          pending_flow_list_head (dev s') = pending_flow_list_head (dev s1)"
        using Cons.IH [OF d1 _ v1 jn len st1(1), of nu] same unfolding own1 by blast
      let ?D = "take (n - (j + 1)) (own s ks)"
      have D: "take (n - j) (own s (k # ks)) = ?rd # ?D" using jn unfolding o by (simp add: take_Cons' Suc_diff_Suc)
      have m: "map (result_of s1) ?D = map (result_of s) ?D" using same by (metis take_map)
      have e: "A - ended s [?rd] - ended s1 ?D = A - ended s (?rd # ?D)" for A
        by (auto simp: ended_same [OF base])
      have sc: "scan_rds (k # ks) e n nu buf j s = scan_rds ks e n nu ?buf (j + 1) s1" using c False by simp
      have jobs_list: "rev (ended_jobs s1 ?D) @ rev (ended_jobs s [?rd]) @ fs = rev (ended_jobs s (?rd # ?D)) @ fs"
        by (simp add: ended_jobs_def of_job_same [OF base])
      have "ended s ?D \<subseteq> ?W"
        using ended_fit [OF fit(2)] ended_take [of s "n - (j + 1)" "own s ks"] by blast
      moreover have "ended s [?rd] \<subseteq> W" using fit(1) by (auto simp: fits_def)
      ultimately have fr: "freed_flows s W (?rd # ?D) = freed_flows s W [?rd] \<union> freed_flows s1 ?W ?D"
        using jobs1 types base by (intro freed_flows_step) auto
      have F: "?F - freed_flows s1 ?W ?D = F - freed_flows s W (?rd # ?D)" unfolding fr by blast
      show ?thesis
        unfolding Let_def D sc using IH buf1 pend st1(2) fr unfolding Let_def m e F jobs_list
        by (intro exI [of _ i] exI [of _ nu'] exI [of _ buf'] exI [of _ s'] exI [of _ "sl' @ sl1"]) auto
    qed
  qed
qed

section \<open>Properties\<close>

lemma publish_output:
  "output_fifo (phy (publish_rd_ptr i nu s)) = output_fifo (phy s)"
  "output_rd_ptr (phy (publish_rd_ptr i nu s)) = (if nu then output_rd_ptr (phy s) else word_of_nat i)"
  by (simp_all add: publish_rd_ptr_def phy_set_register_def)

lemma unat_window:
  assumes "i < unat (output_fifo_size p)" shows "unat (word_of_nat i :: u32) = i"
proof -
  have "unat (output_fifo_size p) < 2 ^ LENGTH(32)" by (rule unsigned_less)
  with assms have "i < 2 ^ 32" by simp
  then show ?thesis by (simp add: unsigned_of_nat take_bit_nat_eq_self)
qed

text \<open>C10. The output ring is shared by the threads. Whatever a thread collects, at most as many results
  as its buffer holds are stored, the results of other threads stay in the ring as they are, and
  the read pointer moves only past slots that hold no undelivered result of another thread.\<close>

theorem nlm_get_all_search_results_shared:
  assumes ok: "output_ring_ok (phy s)" and hw: "\<not> sw_fifos (dev s)"
    and args: "device \<noteq> NULL" "0 < n" "buf_ptr \<noteq> NULL" "nr \<noteq> NULL"
    and res: "nlm_get_all_search_results device n buf_ptr buf nr s = Some (st, r, buf', s')"
  shows "st = NLM_OK \<and> (\<exists>j \<le> n. r = Some j) \<and> length buf' = length buf \<and>
    (\<forall>k. foreign s k \<longrightarrow> output_fifo (phy s') ! k = output_fifo (phy s) ! k) \<and>
    (output_rd_ptr (phy s') \<noteq> output_rd_ptr (phy s) \<longrightarrow>
      (\<forall>k \<in> set (takeWhile (\<lambda>k. k \<noteq> unat (output_rd_ptr (phy s'))) (unread_slots (phy s))). \<not> foreign s k))"
proof (cases "output_rd_ptr (phy s) = output_wrt_ptr (phy s)")
  case True
  then have "st = NLM_OK \<and> r = Some 0 \<and> buf' = buf \<and> try_pending s = Some s'"
    using res ok hw args
    by (auto simp: nlm_get_all_search_results_def Let_def output_ring_ok_def bind_eq_Some_conv)
  with try_pending_output [of s s'] show ?thesis by (auto simp: output_side_def)
next
  case False
  obtain i nu j s1 where scan: "scan_rds (output_window (phy s)) (unat (output_wrt_ptr (phy s))) n False buf 0 s = Some (i, nu, buf', j, s1)"
    and st: "st = NLM_OK" "r = Some j" and tp: "try_pending (publish_rd_ptr i nu s1) = Some s'"
    using res unfolding get_all_scan [OF ok False hw args] by (auto simp: bind_eq_Some_conv)
  note sp = scan_rds_spec [OF scan args(2)]
  from sp have kept: "others_kept s s1" by blast
  have i: "i < unat (output_fifo_size (phy s))" using sp window_range [OF ok] by blast
  have fifo: "output_fifo (phy s') = output_fifo (phy s1)" "output_rd_ptr (phy s') = (if nu then output_rd_ptr (phy s1) else word_of_nat i)"
    using try_pending_output [OF tp] publish_output [of i nu s1] by (simp_all add: output_side_def)
  have "unread_slots (phy s) = output_window (phy s)" using False by (simp add: unread_slots_def)
  moreover have "\<not> nu" "unat (output_rd_ptr (phy s')) = i" if "output_rd_ptr (phy s') \<noteq> output_rd_ptr (phy s)"
    using that fifo kept unat_window [OF i] by (auto simp: others_kept_def split: if_splits)
  ultimately show ?thesis
    using sp st fifo kept unfolding others_kept_def by auto
qed

text \<open>C7. For a thread without software FIFOs whose flows are stateless and a device that reports no errors,
  collecting results returns: the buffer gets the decoded results of the thread in the order of the ring, as
  many as there are or as there is room for. Exactly the jobs that end with them go, one after the
  other, to the head of the free list of jobs, and exactly the flows that were destroyed before and
  lose their last job go to the head of the free list of stateless flows; all other jobs and flows stay in use.\<close>

theorem nlm_get_all_search_results_stateless:
  assumes ok: "output_ring_ok (phy s)" and hw: "\<not> sw_fifos (dev s)" and pend: "pending_flow_list_head (dev s) = NULL"
    and args: "device \<noteq> NULL" "0 < n" "buf_ptr \<noteq> NULL" "nr \<noteq> NULL" and n: "n \<le> length buf"
    and dev: "on_device s U F W" and fit: "fit_all s W (own s (unread_slots (phy s)))" and v: "slots_valid s (unread_slots (phy s))"
    and free: "free_jobs s fs" "flow_lists_ok s F sf sl"
  shows "let D = take n (own s (unread_slots (phy s))) in \<exists>buf' s' sl'.
    nlm_get_all_search_results device n buf_ptr buf nr s = Some (NLM_OK, Some (length D), buf', s') \<and>
    take (length D) buf' = map (result_of s) D \<and>
    on_device s' (U - ended s D) (F - freed_flows s W D) (W - ended s D) \<and>
    free_jobs s' (rev (ended_jobs s D) @ fs) \<and>
    flow_lists_ok s' (F - freed_flows s W D) sf (sl' @ sl) \<and> set sl' = freed_flows s W D"
proof (cases "output_rd_ptr (phy s) = output_wrt_ptr (phy s)")
  case True
  have "nlm_get_all_search_results device n buf_ptr buf nr s = Some (NLM_OK, Some 0, buf, s)"
    using True ok hw args pend by (simp add: nlm_get_all_search_results_def Let_def output_ring_ok_def try_pending_def)
  moreover have "own s (unread_slots (phy s)) = []" using True by (simp add: unread_slots_def own_simps)
  ultimately show ?thesis using dev free by (auto simp: Let_def)
next
  case False
  then have u: "unread_slots (phy s) = output_window (phy s)" by (simp add: unread_slots_def)
  have stock: "stock s F fs sf sl" using free by (simp add: stock_def)
  let ?D = "take n (own s (output_window (phy s)))"
  obtain i nu buf' s1 sl' where r:
    "scan_rds (output_window (phy s)) (unat (output_wrt_ptr (phy s))) n False buf 0 s = Some (i, nu, buf', length ?D, s1)"
    "take (length ?D) buf' = map (result_of s) ?D"
    "on_device s1 (U - ended s ?D) (F - freed_flows s W ?D) (W - ended s ?D)"
    "stock s1 (F - freed_flows s W ?D) (rev (ended_jobs s ?D) @ fs) sf (sl' @ sl)" "set sl' = freed_flows s W ?D"
    "pending_flow_list_head (dev s1) = pending_flow_list_head (dev s)"
    using scan_rds_results [OF dev fit [unfolded u] v [unfolded u] args(2) n stock, of "unat (output_wrt_ptr (phy s))" False]
    by (auto simp: Let_def)
  let ?s = "publish_rd_ptr i nu s1"
  have "on_device ?s A B C = on_device s1 A B C" "stock ?s B fs' sf' sl'' = stock s1 B fs' sf' sl''" for A B C fs' sf' sl''
    by (simp_all add: publish_rd_ptr_def on_device_def stock_def job_pool_ok_def flow_pool_ok_def flow_lists_ok_def job_at_def
        pool_geometry_def flow_slots_def job_slots_def free_jobs_def)
  then have s: "on_device ?s (U - ended s ?D) (F - freed_flows s W ?D) (W - ended s ?D)"
    and "stock ?s (F - freed_flows s W ?D) (rev (ended_jobs s ?D) @ fs) sf (sl' @ sl)"
    using r(3,4) by blast+
  then have s2: "free_jobs ?s (rev (ended_jobs s ?D) @ fs)" "flow_lists_ok ?s (F - freed_flows s W ?D) sf (sl' @ sl)"
    unfolding stock_def by blast+
  have "nlm_get_all_search_results device n buf_ptr buf nr s = Some (NLM_OK, Some (length ?D), buf', ?s)"
    unfolding get_all_scan [OF ok False hw args] r(1) using r(6) pend by (simp add: try_pending_def publish_rd_ptr_def)
  with r(2,5) s s2 show ?thesis unfolding u Let_def by blast
qed

section \<open>Examples\<close>

text \<open>Around the end of the ring: a match and the end of a job of this thread, then a match of thread 1.\<close>

definition dp_collect :: dp where
  "dp_collect = upd_phy (\<lambda>p. p\<lparr>output_rd_ptr := 3, output_wrt_ptr := 2,
     output_fifo := [end_rd FMS_FRD_RESULT 0 7 1, match_rd 3 5 100 9 0 0x01000001, rd_zero, match_rd 3 5 100 9 0 1]\<rparr>) (dp_results True)"

lemma fresh_rd: "rd_valid rd \<noteq> 0 \<Longrightarrow> rd_u4 rd \<noteq> RD_WAS_PROCESSED"
  by (auto simp: rd_valid_def RD_WAS_PROCESSED_def)

lemma fresh_rds [simp]:
  "rd_u4 (match_rd gid rule off len ea cookie) \<noteq> RD_WAS_PROCESSED" "rd_u4 (end_rd ty err time cookie) \<noteq> RD_WAS_PROCESSED"
  by (rule fresh_rd, simp add: match_rd_fields end_rd_fields)+

lemma dp_collect_sel:
  "phy dp_collect = phy0\<lparr>output_rd_ptr := 3, output_wrt_ptr := 2,
     output_fifo := [end_rd FMS_FRD_RESULT 0 7 1, match_rd 3 5 100 9 0 0x01000001, rd_zero, match_rd 3 5 100 9 0 1]\<rparr>"
  "dev dp_collect = dev (dp_results True)" "jobs dp_collect = jobs (dp_results True)" "flows dp_collect = flows (dp_results True)"
  by (simp_all add: dp_collect_def dp_results_sel)

lemma dp_collect_slots: "unread_slots (phy dp_collect) = [3, 0, 1]"
  by (simp add: dp_collect_sel unread_slots_def output_window_def phy0_def upt_rec)

lemma dp_collect_own: "own dp_collect [3, 0, 1] = [match_rd 3 5 100 9 0 1, end_rd FMS_FRD_RESULT 0 7 1]"
  by (simp add: own_simps dp_collect_sel dp_results_sel dev0_def match_rd_fields end_rd_fields NLM_GET_THREAD_ID_def NLM_THREAD_ID_MASK_def)

lemma dp_collect_ok:
  "output_ring_ok (phy dp_collect)" "on_device dp_collect {0x1FA8, 0x1F50} {0x1100} {0x1FA8, 0x1F50}"
  "fit_all dp_collect {0x1FA8, 0x1F50} (own dp_collect [3, 0, 1])" "slots_valid dp_collect [3, 0, 1]"
proof -
  show "output_ring_ok (phy dp_collect)"
    by (auto simp: dp_collect_sel phy0_def output_ring_ok_def intro!: exI [of _ 2])
  have job: "job_pool_ok dp_collect U = job_pool_ok (dp_results True) U" "flow_pool_ok dp_collect F = flow_pool_ok (dp_results True) F" for U F
    by (simp_all add: dp_collect_def job_pool_ok_def flow_pool_ok_def flow_lists_ok_def pool_geometry_def job_slots_def flow_slots_def)
  have set: "{w. (w = 0x1FA8 \<or> w = 0x1F50) \<and> jb_flow (jobs (dp_results True) w) = 0x1100} = {0x1FA8, 0x1F50}"
    by (auto simp: dp_results_job)
  have at: "job_at 1 dp_collect = 0x1FA8" "job_at 2 dp_collect = 0x1F50"
    by (simp_all add: job_at_def dp_collect_sel dp_results_sel dev0_def sizeof_defs NLM_GET_JOB_INDEX_def NLM_JOB_INDEX_MASK_def)
  show "on_device dp_collect {0x1FA8, 0x1F50} {0x1100} {0x1FA8, 0x1F50}"
    using dp_results_ok [of True]
    by (simp add: on_device_def job Let_def dp_collect_sel dp_results_job dp_results_flow at set awaits_def)
  show "fit_all dp_collect {0x1FA8, 0x1F50} (own dp_collect [3, 0, 1])"
    unfolding dp_collect_own
    by (simp add: fits_def of_job_def at dp_collect_sel dp_results_job match_rd_fields end_rd_fields ends_job_def result_types)
  show "slots_valid dp_collect [3, 0, 1]"
    by (simp add: slots_valid_def dp_collect_sel match_rd_fields end_rd_fields)
qed

lemma dp_collect_stock: "free_jobs dp_collect []" "flow_lists_ok dp_collect {0x1100} [] []"
  by (auto simp: free_jobs_def flow_lists_ok_def pool_geometry_def flow_slots_def dp_collect_def dp_results_def dev0_def sizeof_defs flow_zero_def)

theorem nlm_get_all_search_results_stateless_witness:
  "\<exists>buf' s'. nlm_get_all_search_results 1 4 1 buf0 1 dp_collect = Some (NLM_OK, Some 2, buf', s') \<and>
     map r_status (take 2 buf') = [NLM_OK, NLM_END_OF_JOB] \<and> free_jobs s' [0x1FA8]"
proof -
  let ?D = "[match_rd 3 5 100 9 0 1, end_rd FMS_FRD_RESULT 0 7 1]"
  have e: "ended_jobs dp_collect ?D = [0x1FA8]"
    by (simp add: ends_job_def match_rd_fields end_rd_fields result_types of_job_def job_at_def dp_collect_sel dp_results_sel dev0_def
        sizeof_defs NLM_GET_JOB_INDEX_def NLM_JOB_INDEX_MASK_def)
  have r: "map r_status (map (result_of dp_collect) ?D) = [NLM_OK, NLM_END_OF_JOB]"
    by (simp add: result_of_def Let_def ends_job_def match_rd_fields end_rd_fields result_types)
  have p: "\<not> sw_fifos (dev dp_collect)" "pending_flow_list_head (dev dp_collect) = NULL" "4 \<le> length buf0"
    by (simp_all add: dp_collect_sel dp_results_sel dev0_def buf0_def)
  have f: "fit_all dp_collect {0x1FA8, 0x1F50} ?D" using dp_collect_ok(3) unfolding dp_collect_own .
  have one: "(1 :: addr) \<noteq> NULL" "0 < (4 :: nat)" by simp_all
  have D: "take 4 [x, y] = [x, y]" "length [x, y] = 2" for x y :: hw_result_descriptor by simp_all
  note main = nlm_get_all_search_results_stateless [OF dp_collect_ok(1) p(1,2) one one(1) one(1) p(3) dp_collect_ok(2), unfolded dp_collect_slots dp_collect_own,
      OF f dp_collect_ok(4) dp_collect_stock, unfolded Let_def D e]
  then obtain buf' s' where "nlm_get_all_search_results 1 4 1 buf0 1 dp_collect = Some (NLM_OK, Some 2, buf', s')"
    "take 2 buf' = map (result_of dp_collect) ?D" "free_jobs s' (rev [0x1FA8] @ [])" by blast
  with r show ?thesis by (intro exI [of _ buf'] exI [of _ s']) simp
qed

theorem nlm_get_all_search_results_shared_witness:
  "\<exists>st r buf' s'. nlm_get_all_search_results 1 1 1 buf0 1 dp_collect = Some (st, r, buf', s') \<and> r \<noteq> None \<and>
     output_fifo (phy s') ! 1 = match_rd 3 5 100 9 0 0x01000001"
proof -
  have p: "\<not> sw_fifos (dev dp_collect)" "pending_flow_list_head (dev dp_collect) = NULL" "1 \<le> length buf0"
    "output_rd_ptr (phy dp_collect) \<noteq> output_wrt_ptr (phy dp_collect)"
    by (simp_all add: dp_collect_sel dp_results_sel dev0_def buf0_def)
  have stk: "stock dp_collect {0x1100} [] [] []" using dp_collect_stock by (simp add: stock_def)
  have w: "output_window (phy dp_collect) = [3, 0, 1]" using dp_collect_slots p(4) by (simp add: unread_slots_def)
  obtain i nu b j s1 where scan: "scan_rds [3, 0, 1] (unat (output_wrt_ptr (phy dp_collect))) 1 False buf0 0 dp_collect = Some (i, nu, b, j, s1)"
    and pn: "pending_flow_list_head (dev s1) = NULL"
    using scan_rds_results [OF dp_collect_ok(2-4) zero_less_one p(3) stk, of "unat (output_wrt_ptr (phy dp_collect))" False] p(2)
    unfolding Let_def by metis
  have "try_pending (publish_rd_ptr i nu s1) = Some (publish_rd_ptr i nu s1)"
    using pn by (simp add: try_pending_def publish_rd_ptr_def)
  then have g: "nlm_get_all_search_results 1 1 1 buf0 1 dp_collect = Some (NLM_OK, Some j, b, publish_rd_ptr i nu s1)"
    using get_all_scan [OF dp_collect_ok(1) p(4,1), of 1 1 1 1 buf0] scan w by simp
  have "foreign dp_collect 1"
    by (simp add: foreign_def dp_collect_sel dp_results_sel dev0_def match_rd_fields NLM_GET_THREAD_ID_def NLM_THREAD_ID_MASK_def)
  with nlm_get_all_search_results_shared [OF dp_collect_ok(1) p(1) _ _ _ _ g] g show ?thesis
    by (auto simp: dp_collect_sel)
qed

end
