(* ===== verification/Driver_Mem.thy ===== *)
theory Driver_Mem
  imports Nlm_Prelude "HOL-Library.Multiset"
begin

unbundle bit_operations_syntax

text \<open>
  The memory manager of the kernel driver (src/driver/netl7driver.c): finding contiguous
  physical memory page by page, and carving a region up for the devices. Pointers are
  addresses, physical addresses are 64-bit words. The kernel is a part of the state: the pages
  it will hand out, the pages it got back, its translation between the two kinds of addresses
  and its \<^verbatim>\<open>sort\<close>, which gets the comparison of the driver. A count of pages is an integer: it
  stays far below \<^verbatim>\<open>INT_MAX\<close>.
\<close>

section \<open>Memory\<close>

definition PAGE_SIZE :: u64 where "PAGE_SIZE = 4096"
definition PAGE_MASK :: u64 where "PAGE_MASK = NOT (PAGE_SIZE - 1)"
definition PAGE_ALIGN :: "u64 \<Rightarrow> u64" where "PAGE_ALIGN a = (a + PAGE_SIZE - 1) AND PAGE_MASK"
definition NLM_DEFAULT_DMA_MEM_SIZE :: u64 where "NLM_DEFAULT_DMA_MEM_SIZE = 2 * 1024 * 1024"
definition NLM_MIN_ALLOC_SIZE :: u64 where "NLM_MIN_ALLOC_SIZE = 2 * 1024 * 1024"
definition NLM_SCRATCH_PAGE_SIZE :: u64 where "NLM_SCRATCH_PAGE_SIZE = 2 * 1024 * 1024"
definition NLM_DEFAULT_PHYS_MEM_SIZE :: u64 where "NLM_DEFAULT_PHYS_MEM_SIZE = 256 * 1024 * 1024"
definition MAX_DEVICES :: nat where "MAX_DEVICES = 16"

definition EPERM :: int where "EPERM = 1"
definition ENOMEM :: int where "ENOMEM = 12"
definition EFAULT :: int where "EFAULT = 14"
definition EBUSY :: int where "EBUSY = 16"
definition EINVAL :: int where "EINVAL = 22"

record mem_desc =
  md_next :: addr
  md_npages :: int

text \<open>\<open>scratch_ok\<close> tells whether the kernel has a block of two megabytes for the page table,
  \<open>scratch\<close> whether the driver holds it.\<close>

record kmem =
  virt_to_phys_k :: "addr \<Rightarrow> u64"
  phys_to_virt_k :: "u64 \<Rightarrow> addr"
  sort_k :: "(u64 \<Rightarrow> u64 \<Rightarrow> int) \<Rightarrow> u64 list \<Rightarrow> u64 list"
  avail :: "addr list"
  freed :: "addr list"
  scratch_ok :: bool
  scratch :: bool
  descs :: "addr \<Rightarrow> mem_desc"

definition set_next :: "addr \<Rightarrow> addr \<Rightarrow> kmem \<Rightarrow> kmem" where
  "set_next a n s = s\<lparr>descs := (descs s)(a := (descs s a)\<lparr>md_next := n\<rparr>)\<rparr>"
definition set_desc :: "addr \<Rightarrow> addr \<Rightarrow> int \<Rightarrow> kmem \<Rightarrow> kmem" where
  "set_desc a n k s = s\<lparr>descs := (descs s)(a := \<lparr>md_next = n, md_npages = k\<rparr>)\<rparr>"

section \<open>The sorted list of chunks\<close>

partial_function (option) insert_loop :: "addr \<Rightarrow> addr \<Rightarrow> addr \<Rightarrow> addr \<Rightarrow> kmem \<Rightarrow> (addr \<times> kmem) option" where
  [code]: "insert_loop list_head element prev cur s =
     (if cur = NULL then Some (list_head, set_next element NULL (set_next prev element s))
      else if md_npages (descs s element) > md_npages (descs s cur) then
        if prev \<noteq> NULL then Some (list_head, set_next element cur (set_next prev element s))
        else Some (element, set_next element cur s)
      else insert_loop list_head element cur (md_next (descs s cur)) s)"

definition insert_into_sorted_list :: "addr \<Rightarrow> addr \<Rightarrow> kmem \<Rightarrow> (addr \<times> kmem) option" where
  "insert_into_sorted_list list_head element s =
     (if list_head = NULL then Some (element, s) else insert_loop list_head element NULL list_head s)"

text \<open>The difference of two longs, returned as an int.\<close>

definition compare_addresses :: "u64 \<Rightarrow> u64 \<Rightarrow> int" where
  "compare_addresses a b = sint (ucast (a - b) :: u32)"

definition free_run :: "addr \<Rightarrow> int \<Rightarrow> kmem \<Rightarrow> kmem" where
  "free_run c n s =
     s\<lparr>freed := freed s @ map (\<lambda>i. phys_to_virt_k s (virt_to_phys_k s c + word_of_nat i * PAGE_SIZE)) [0..<nat n]\<rparr>"

partial_function (option) release_chunks :: "addr \<Rightarrow> kmem \<Rightarrow> kmem option" where
  [code]: "release_chunks chunks s =
     (if chunks = NULL then Some s
      else release_chunks (md_next (descs s chunks)) (free_run chunks (md_npages (descs s chunks)) s))"

partial_function (option) count_pages :: "addr \<Rightarrow> int \<Rightarrow> kmem \<Rightarrow> int option" where
  [code]: "count_pages chunks n s =
     (if chunks = NULL then Some n else count_pages (md_next (descs s chunks)) (n + md_npages (descs s chunks)) s)"

section \<open>Searching for chunks\<close>

definition page_threshold :: int where "page_threshold = uint (NLM_MIN_ALLOC_SIZE div PAGE_SIZE)"
definition max_index :: nat where "max_index = unat (NLM_SCRATCH_PAGE_SIZE div 8)"

text \<open>The loop that fills the page table with physical addresses.\<close>

fun alloc_pages :: "nat \<Rightarrow> kmem \<Rightarrow> u64 list \<times> kmem" where
  "alloc_pages 0 s = ([], s)"
| "alloc_pages (Suc n) s =
     (case avail s of
        [] \<Rightarrow> ([], s)
      | p # ps \<Rightarrow> (case alloc_pages n (s\<lparr>avail := ps\<rparr>) of (t, s') \<Rightarrow> (virt_to_phys_k s p # t, s')))"

text \<open>A run of pages becomes a chunk of one of the two lists. After the loop the link of a good
  chunk is set to the head of the list first.\<close>

definition add_segment :: "u64 \<Rightarrow> int \<Rightarrow> bool \<Rightarrow> addr \<Rightarrow> addr \<Rightarrow> kmem \<Rightarrow> (addr \<times> addr \<times> kmem) option" where
  "add_segment start npages final good_list free_list s =
     (let segment = phys_to_virt_k s start in
      if npages < page_threshold then Some (good_list, segment, set_desc segment free_list npages s)
      else
        map_option (\<lambda>(h, s'). (h, free_list, s'))
          (insert_into_sorted_list good_list segment (set_desc segment (if final then good_list else NULL) npages s)))"

fun scan_table ::
  "u64 list \<Rightarrow> u64 \<Rightarrow> u64 \<Rightarrow> int \<Rightarrow> addr \<Rightarrow> addr \<Rightarrow> kmem \<Rightarrow> (addr \<times> addr \<times> kmem) option" where
  "scan_table [] prev start npages good_list free_list s = add_segment start npages True good_list free_list s"
| "scan_table (memory # t) prev start npages good_list free_list s =
     (if prev + PAGE_SIZE = memory then scan_table t memory start (npages + 1) good_list free_list s
      else
        case add_segment start npages False good_list free_list s of
          None \<Rightarrow> None
        | Some (g, f, s') \<Rightarrow> scan_table t memory memory 1 g f s')"

text \<open>One pass per full page table; \<^verbatim>\<open>page_table[0]\<close> is zero when there was no page.\<close>

partial_function (option) find_loop :: "addr \<Rightarrow> addr \<Rightarrow> int \<Rightarrow> kmem \<Rightarrow> (addr \<times> addr \<times> int \<times> kmem) option" where
  [code]: "find_loop good_list free_list alloced s =
     (let (t, s1) = alloc_pages max_index s;
          i = length t;
          t' = sort_k s1 compare_addresses t;
          first = (if t' = [] then 0 else hd t')
      in Option.bind (scan_table (tl t') first first 1 good_list free_list s1) (\<lambda>(g, f, s2).
         if i = max_index then find_loop g f (alloced + int i) s2 else Some (g, f, alloced + int i, s2)))"

definition find_free_chunks :: "kmem \<Rightarrow> (int \<times> addr \<times> kmem) option" where
  "find_free_chunks s =
     (if \<not> scratch_ok s then Some (- ENOMEM, NULL, s)
      else
        Option.bind (find_loop NULL NULL 0 (s\<lparr>scratch := True\<rparr>)) (\<lambda>(g, f, alloced, s1).
        Option.bind (count_pages g 0 s1) (\<lambda>n.
        Option.bind (count_pages f n s1) (\<lambda>rec.
        Option.bind (release_chunks f s1) (\<lambda>s2.
          Some (if alloced \<noteq> rec then (- EFAULT, NULL, s2) else (0, g, s2\<lparr>scratch := False\<rparr>)))))))"

section \<open>Insertion refines insertion into a list\<close>

definition next_of :: "kmem \<Rightarrow> addr \<Rightarrow> addr" where "next_of s a = md_next (descs s a)"
definition npages_of :: "kmem \<Rightarrow> addr \<Rightarrow> int" where "npages_of s a = md_npages (descs s a)"

lemma set_next_simps [simp]:
  "next_of (set_next a n s) = (next_of s)(a := n)" "npages_of (set_next a n s) = npages_of s"
  "next_of (set_desc a n k s) = (next_of s)(a := n)" "npages_of (set_desc a n k s) = (npages_of s)(a := k)"
  by (auto simp: next_of_def npages_of_def set_next_def set_desc_def)

lemma set_desc_map [simp]:
  "virt_to_phys_k (set_desc a n k s) = virt_to_phys_k s" "phys_to_virt_k (set_desc a n k s) = phys_to_virt_k s"
  by (simp_all add: set_desc_def)

definition insert_desc :: "('a \<Rightarrow> int) \<Rightarrow> 'a \<Rightarrow> 'a list \<Rightarrow> 'a list" where
  "insert_desc k x xs = takeWhile (\<lambda>y. k x \<le> k y) xs @ x # dropWhile (\<lambda>y. k x \<le> k y) xs"

lemma mset_insert_desc: "mset (insert_desc k x xs) = add_mset x (mset xs)"
proof -
  have "mset (takeWhile P xs) + mset (dropWhile P xs) = mset xs" for P by (metis mset_append takeWhile_dropWhile_id)
  then show ?thesis by (simp add: insert_desc_def)
qed

lemma sorted_insert_desc:
  "sorted_wrt (\<lambda>a b. k b \<le> k a) xs \<Longrightarrow> sorted_wrt (\<lambda>a b. k b \<le> k a) (insert_desc k x xs)"
proof (induction xs)
  case (Cons y ys)
  show ?case
  proof (cases "k x \<le> k y")
    case True
    then have "insert_desc k x (y # ys) = y # insert_desc k x ys" by (simp add: insert_desc_def)
    moreover have "set (insert_desc k x ys) = insert x (set ys)" using arg_cong [OF mset_insert_desc, of set_mset k x ys] by simp
    ultimately show ?thesis using Cons True by auto
  next
    case False
    with Cons show ?thesis by (auto simp: insert_desc_def)
  qed
qed (simp add: insert_desc_def)

lemma chain_tail: "chain f p (ys @ zs) \<Longrightarrow> ys \<noteq> [] \<Longrightarrow> chain f (f (last ys)) zs"
  by (induction ys arbitrary: p) (auto split: if_splits)

lemma chain_insert:
  assumes "chain f p (ys @ zs)" and "distinct (ys @ zs)" and "ys \<noteq> []" and "e \<notin> set (ys @ zs)" and "e \<noteq> NULL"
  shows "chain (f(last ys := e, e := f (last ys))) p (ys @ e # zs)"
  using assms
proof (induction ys arbitrary: p)
  case (Cons y ys)
  let ?g = "f(last (y # ys) := e, e := f (last (y # ys)))"
  have p: "p = y" "y \<noteq> NULL" "chain f (f y) (ys @ zs)" using Cons.prems(1) by auto
  show ?case
  proof (cases ys)
    case Nil
    have "chain ?g (f y) zs = chain f (f y) zs" using Cons.prems Nil by (intro chain_cong) auto
    with p Nil Cons.prems show ?thesis by (auto simp: fun_upd_def)
  next
    case (Cons z zs')
    then have "y \<noteq> last ys" "y \<noteq> e" using Cons.prems by (auto dest: last_in_set)
    moreover have "chain (f(last ys := e, e := f (last ys))) (f y) (ys @ e # zs)"
      using Cons Cons.prems p by (intro Cons.IH) auto
    moreover have "last (y # ys) = last ys" using Cons by simp
    ultimately have "chain ?g (?g y) (ys @ e # zs)" "?g y = f y" by simp_all
    then show ?thesis unfolding append_Cons chain.simps using p by blast
  qed
qed simp

lemma chain_insert_head:
  assumes "chain f p zs" and "e \<notin> set zs" and "e \<noteq> NULL"
  shows "chain (f(e := p)) e (e # zs)"
proof -
  have "chain (f(e := p)) p zs = chain f p zs" using assms(2) by (intro chain_cong) auto
  with assms show ?thesis by simp
qed

text \<open>Only the lists of chunks change.\<close>

definition relinked :: "kmem \<Rightarrow> kmem \<Rightarrow> bool" where
  "relinked s s' \<longleftrightarrow> (\<exists>d. s' = s\<lparr>descs := d\<rparr>)"

lemma relinked_next [simp]: "relinked s (set_next a n s)"
  by (auto simp: relinked_def set_next_def)
lemma relinked_desc [simp]: "relinked s (set_desc a n k s)"
  by (auto simp: relinked_def set_desc_def)
lemma relinked_refl [simp]: "relinked s s"
  unfolding relinked_def by (intro exI [of _ "descs s"]) simp
lemma relinked_trans: "relinked s t \<Longrightarrow> relinked t u \<Longrightarrow> relinked s u"
  by (auto simp: relinked_def)
lemma relinked_sel:
  "relinked s s' \<Longrightarrow> virt_to_phys_k s' = virt_to_phys_k s \<and> phys_to_virt_k s' = phys_to_virt_k s \<and> sort_k s' = sort_k s \<and>
     avail s' = avail s \<and> freed s' = freed s \<and> scratch_ok s' = scratch_ok s \<and> scratch s' = scratch s"
  by (auto simp: relinked_def)

lemma insert_loop_correct:
  assumes "chain (next_of s) h (ys @ zs)" and "distinct (ys @ zs)" and "e \<notin> set (ys @ zs)" and "e \<noteq> NULL" and "h \<noteq> NULL"
    and "prev = (if ys = [] then NULL else last ys)" and "chain (next_of s) cur zs" and "ys \<noteq> [] \<longrightarrow> cur = next_of s (last ys)"
    and "ys = [] \<longrightarrow> cur = h"
  shows "\<exists>h' s'. insert_loop h e prev cur s = Some (h', s') \<and> chain (next_of s') h' (ys @ insert_desc (npages_of s) e zs) \<and>
    npages_of s' = npages_of s \<and> relinked s s' \<and> (\<forall>a. a \<notin> insert e (set (ys @ zs)) \<longrightarrow> next_of s' a = next_of s a)"
  using assms
proof (induction zs arbitrary: ys prev cur)
  case Nil
  then have ys: "ys \<noteq> []" "cur = NULL" by auto
  then have "next_of s (last ys) = NULL" using Nil.prems(8) by simp
  with chain_insert [of "next_of s" h ys "[]" e] ys Nil.prems
  show ?case by (auto simp: insert_loop.simps insert_desc_def intro: relinked_trans [OF relinked_next relinked_next])
next
  case (Cons z zs)
  then have cur: "cur = z" "z \<noteq> NULL" by auto
  show ?case
  proof (cases "npages_of s z < npages_of s e")
    case True
    then have ins: "insert_desc (npages_of s) e (z # zs) = e # z # zs" by (simp add: insert_desc_def)
    show ?thesis
    proof (cases ys)
      case Nil
      with Cons.prems cur True chain_insert_head [of "next_of s" h "z # zs" e]
      show ?thesis by (simp add: insert_loop.simps ins npages_of_def [symmetric])
    next
      case (Cons y ys')
      then have ne: "ys \<noteq> []" by simp
      with Cons.prems have pr: "prev = last ys" "prev \<noteq> NULL" "cur = next_of s (last ys)"
        by (auto dest!: chain_not_NULL last_in_set split: if_splits)
      let ?s = "set_next e cur (set_next prev e s)"
      have "chain (next_of ?s) h (ys @ insert_desc (npages_of s) e (z # zs))"
        unfolding ins set_next_simps using chain_insert [OF Cons.prems(1,2) ne Cons.prems(3,4)] pr by simp
      moreover have "insert_loop h e prev cur s = Some (h, ?s)"
        using pr cur True by (simp add: insert_loop.simps npages_of_def)
      moreover have "relinked s ?s" by (rule relinked_trans [OF relinked_next relinked_next])
      moreover have "\<forall>a. a \<notin> insert e (set (ys @ z # zs)) \<longrightarrow> next_of ?s a = next_of s a" using pr(1) ne by auto
      ultimately show ?thesis by auto
    qed
  next
    case False
    then have ins: "insert_desc (npages_of s) e (z # zs) = z # insert_desc (npages_of s) e zs" by (simp add: insert_desc_def)
    have "\<exists>h' s'. insert_loop h e z (next_of s z) s = Some (h', s') \<and>
      chain (next_of s') h' ((ys @ [z]) @ insert_desc (npages_of s) e zs) \<and> npages_of s' = npages_of s \<and> relinked s s' \<and>
      (\<forall>a. a \<notin> insert e (set ((ys @ [z]) @ zs)) \<longrightarrow> next_of s' a = next_of s a)"
      using Cons.prems cur by (intro Cons.IH) auto
    with cur False show ?thesis
      by (auto simp: insert_loop.simps [of h e prev] ins npages_of_def [symmetric] next_of_def [symmetric])
  qed
qed

lemma insert_sorted_correct:
  assumes "chain (next_of s) h xs" and "distinct xs" and "e \<notin> set xs" and "e \<noteq> NULL" and "xs = [] \<Longrightarrow> next_of s e = NULL"
  obtains h' s' where "insert_into_sorted_list h e s = Some (h', s')" "chain (next_of s') h' (insert_desc (npages_of s) e xs)"
    "npages_of s' = npages_of s" "relinked s s'" "\<forall>a. a \<notin> insert e (set xs) \<longrightarrow> next_of s' a = next_of s a"
proof (cases "h = NULL")
  case True
  then have "xs = []" using assms(1) by simp
  with assms(4,5) True show thesis
    by (intro that [of e s]) (simp_all add: insert_into_sorted_list_def insert_desc_def)
next
  case False
  with insert_loop_correct [of s h "[]" xs e NULL h] assms that show thesis
    by (auto simp: insert_into_sorted_list_def)
qed

section \<open>The search loses no page\<close>

definition run :: "u64 \<Rightarrow> nat \<Rightarrow> u64 list" where
  "run a n = map (\<lambda>i. a + word_of_nat i * PAGE_SIZE) [0..<n]"

definition chunk_pages :: "kmem \<Rightarrow> addr \<Rightarrow> u64 list" where
  "chunk_pages s c = run (virt_to_phys_k s c) (nat (npages_of s c))"

definition pages_of :: "kmem \<Rightarrow> addr list \<Rightarrow> u64 list" where
  "pages_of s cs = concat (map (chunk_pages s) cs)"

text \<open>The lists of chunks: the good ones by falling size, the others below the threshold.\<close>

definition chunks :: "kmem \<Rightarrow> addr \<Rightarrow> addr \<Rightarrow> addr list \<Rightarrow> addr list \<Rightarrow> bool" where
  "chunks s g f gs fs \<longleftrightarrow> chain (next_of s) g gs \<and> chain (next_of s) f fs \<and> distinct (gs @ fs) \<and>
     sorted_wrt (\<lambda>a b. npages_of s b \<le> npages_of s a) gs \<and> (\<forall>c \<in> set gs. page_threshold \<le> npages_of s c) \<and>
     (\<forall>c \<in> set fs. 0 < npages_of s c \<and> npages_of s c < page_threshold) \<and>
     (\<forall>c \<in> set (gs @ fs). phys_to_virt_k s (virt_to_phys_k s c) = c)"

definition phys_ok :: "kmem \<Rightarrow> u64 set \<Rightarrow> bool" where
  "phys_ok s P \<longleftrightarrow> (\<forall>a \<in> P. phys_to_virt_k s a \<noteq> NULL \<and> virt_to_phys_k s (phys_to_virt_k s a) = a)"

lemma page_threshold: "page_threshold = 512"
  by (simp add: page_threshold_def NLM_MIN_ALLOC_SIZE_def PAGE_SIZE_def)

lemma max_index: "max_index = 262144"
  by (simp add: max_index_def NLM_SCRATCH_PAGE_SIZE_def)

lemma run_Suc: "run a (Suc n) = run a n @ [a + word_of_nat n * PAGE_SIZE]" by (simp add: run_def)

lemma run_add: "run a (m + n) = run a m @ run (a + word_of_nat m * PAGE_SIZE) n"
  by (induction n) (simp_all add: run_Suc algebra_simps, simp add: run_def)

lemma run_hd: "0 < n \<Longrightarrow> a \<in> set (run a n)"
  by (auto simp: run_def intro!: image_eqI [of _ _ 0])

lemma length_run [simp]: "length (run a n) = n" by (simp add: run_def)

lemma chunks_npages: "chunks s g f gs fs \<Longrightarrow> c \<in> set (gs @ fs) \<Longrightarrow> 0 < npages_of s c"
  by (auto simp: chunks_def page_threshold)

lemma chunk_start: "chunks s g f gs fs \<Longrightarrow> c \<in> set (gs @ fs) \<Longrightarrow> virt_to_phys_k s c \<in> set (pages_of s (gs @ fs))"
  using chunks_npages [of s g f gs fs c] run_hd [of "nat (npages_of s c)" "virt_to_phys_k s c"]
  by (auto simp: pages_of_def chunk_pages_def)

lemma pages_of_cong:
  "\<forall>c \<in> set cs. npages_of s' c = npages_of s c \<and> virt_to_phys_k s' c = virt_to_phys_k s c \<Longrightarrow> pages_of s' cs = pages_of s cs"
  unfolding pages_of_def by (intro arg_cong [where f = concat] map_cong) (auto simp: chunk_pages_def)

lemma mset_pages_of: "mset (pages_of s cs) = (\<Sum>c \<in># mset cs. mset (chunk_pages s c))"
  by (induction cs) (auto simp: pages_of_def)

text \<open>A list of chunks that keeps a run of pages in one chunk, and one that keeps every long run of consecutive entries of a
  page table.\<close>

definition kept :: "kmem \<Rightarrow> addr list \<Rightarrow> u64 list \<Rightarrow> bool" where
  "kept s gs ps \<longleftrightarrow> (\<exists>c \<in> set gs. set ps \<subseteq> set (chunk_pages s c))"

definition keeps_runs :: "kmem \<Rightarrow> addr list \<Rightarrow> u64 list \<Rightarrow> bool" where
  "keeps_runs s gs t \<longleftrightarrow> (\<forall>us a m vs. t = us @ run a m @ vs \<and> 512 \<le> m \<longrightarrow> kept s gs (run a m))"

definition grown :: "kmem \<Rightarrow> addr list \<Rightarrow> kmem \<Rightarrow> addr list \<Rightarrow> bool" where
  "grown s gs s' gs' \<longleftrightarrow> set gs \<subseteq> set gs' \<and> (\<forall>c \<in> set gs. chunk_pages s' c = chunk_pages s c)"

lemma grown_trans: "grown s gs s1 gs1 \<Longrightarrow> grown s1 gs1 s2 gs2 \<Longrightarrow> grown s gs s2 gs2"
  by (auto simp: grown_def subset_iff)

lemma keeps_runs_grown: "keeps_runs s gs t \<Longrightarrow> grown s gs s' gs' \<Longrightarrow> keeps_runs s' gs' t"
  unfolding keeps_runs_def kept_def grown_def by (metis subsetD)

lemma keeps_runs_Nil [simp]: "keeps_runs s gs []" by (auto simp: keeps_runs_def run_def)

lemma keeps_run:
  assumes "512 \<le> n \<Longrightarrow> kept s gs (run start n)" shows "keeps_runs s gs (run start n)"
  unfolding keeps_runs_def
proof (intro allI impI)
  fix us a m vs assume r: "run start n = us @ run a m @ vs \<and> 512 \<le> m"
  then have "n = length us + (m + length vs)" by (metis length_append length_run)
  then have "512 \<le> n" using r by simp
  moreover have "set (run a m) \<subseteq> set (run start n)" using r by auto
  ultimately show "kept s gs (run a m)" using assms by (auto simp: kept_def)
qed

lemma run_nth: "i < n \<Longrightarrow> run a n ! i = a + word_of_nat i * PAGE_SIZE" by (simp add: run_def)

text \<open>A run does not reach over a gap between two entries.\<close>

lemma keeps_runs_gap:
  assumes "keeps_runs s gs (run start n)" and "keeps_runs s gs (b # t)" and n: "0 < n" and gap: "start + word_of_nat n * PAGE_SIZE \<noteq> b"
  shows "keeps_runs s gs (run start n @ b # t)"
  unfolding keeps_runs_def
proof (intro allI impI)
  fix us a m vs assume r: "run start n @ b # t = us @ run a m @ vs \<and> 512 \<le> m"
  then consider zs where "run start n = us @ zs" "zs @ b # t = run a m @ vs" | zs where "b # t = zs @ run a m @ vs"
    by (auto simp: append_eq_append_conv2)
  then show "kept s gs (run a m)"
  proof cases
    case 2
    then show ?thesis using assms(2) r by (auto simp: keeps_runs_def)
  next
    case 1
    from 1(2) consider ws where "zs = run a m @ ws" | ws where "run a m = zs @ ws" "b # t = ws @ vs"
      unfolding append_eq_append_conv2 by metis
    then show ?thesis
    proof cases
      case 1
      then show ?thesis using assms(1) r \<open>run start n = us @ zs\<close> by (auto simp: keeps_runs_def)
    next
      case 2
      show ?thesis
      proof (cases "zs = [] \<or> ws = []")
        case True
        then show ?thesis
        proof
          assume "zs = []"
          then have "b # t = [] @ run a m @ vs" using 2 by simp
          then show ?thesis using assms(2) r unfolding keeps_runs_def by blast
        next
          assume "ws = []"
          then have "run start n = us @ run a m @ []" using 2 \<open>run start n = us @ zs\<close> by simp
          then show ?thesis using assms(1) r unfolding keeps_runs_def by blast
        qed
      next
        case False
        then obtain k ws' where k: "length zs = Suc k" and ws: "ws = b # ws'" using 2(2) by (cases zs; cases ws) auto
        have len: "length zs + length ws = m" using 2(1) by (metis length_append length_run)
        have "run a m ! Suc k = b" unfolding 2(1) using k ws by (simp add: nth_append)
        then have b: "b = a + word_of_nat (Suc k) * PAGE_SIZE" using len k ws by (simp add: run_nth)
        have "zs ! k = run a m ! k" unfolding 2(1) using k by (simp add: nth_append)
        then have z: "zs ! k = a + word_of_nat k * PAGE_SIZE" using len k by (simp add: run_nth)
        have l: "length us + Suc k = n" using \<open>run start n = us @ zs\<close> k by (metis length_append length_run)
        have "run start n ! (length us + k) = zs ! k" unfolding \<open>run start n = us @ zs\<close> by (simp add: nth_append)
        then have "start + word_of_nat (length us + k) * PAGE_SIZE = a + word_of_nat k * PAGE_SIZE" using z l by (simp add: run_nth)
        then have "start + word_of_nat n * PAGE_SIZE = b" unfolding b l [symmetric] by (simp add: algebra_simps)
        then show ?thesis using gap by blast
      qed
    qed
  qed
qed

lemma add_segment_correct:
  assumes ok: "chunks s g f gs fs" and P: "phys_ok s P" "start \<in> P" and n: "0 < n"
    and dist: "distinct (pages_of s (gs @ fs) @ run start (nat n))"
  obtains g' f' s' gs' fs' where "add_segment start n final g f s = Some (g', f', s')" "chunks s' g' f' gs' fs'"
    "mset (pages_of s' (gs' @ fs')) = mset (pages_of s (gs @ fs) @ run start (nat n))" "relinked s s'"
    "grown s gs s' gs'" "512 \<le> nat n \<longrightarrow> kept s' gs' (run start (nat n))"
proof -
  let ?c = "phys_to_virt_k s start"
  have c: "?c \<noteq> NULL" "virt_to_phys_k s ?c = start" using P by (auto simp: phys_ok_def)
  have new: "?c \<notin> set (gs @ fs)"
  proof
    assume "?c \<in> set (gs @ fs)"
    then have "start \<in> set (pages_of s (gs @ fs))" using chunk_start [OF ok] c by metis
    moreover have "start \<in> set (run start (nat n))" using n by (intro run_hd) simp
    ultimately show False using dist by auto
  qed
  note L = ok [unfolded chunks_def]
  have keep: "chain ((next_of s)(?c := x)) p cs = chain (next_of s) p cs" if "set cs \<subseteq> set (gs @ fs)" for x p cs
    using new that by (intro chain_cong) auto
  have pages: "mset (pages_of s' (gs' @ fs')) = mset (pages_of s (gs @ fs) @ run start (nat n))"
    if "npages_of s' = (npages_of s)(?c := n)" "relinked s s'" "mset (gs' @ fs') = add_mset ?c (mset (gs @ fs))" for s' gs' fs'
  proof -
    have v: "virt_to_phys_k s' = virt_to_phys_k s" using relinked_sel [OF that(2)] by simp
    have "mset (pages_of s' (gs' @ fs')) = mset (pages_of s' (gs @ fs)) + mset (chunk_pages s' ?c)"
      unfolding mset_pages_of that(3) by (simp add: add.commute)
    moreover have "pages_of s' (gs @ fs) = pages_of s (gs @ fs)" using that new v by (intro pages_of_cong) auto
    moreover have "chunk_pages s' ?c = run start (nat n)" using that v c by (simp add: chunk_pages_def)
    ultimately show ?thesis by simp
  qed
  have more: "grown s gs s' gs'" "?c \<in> set gs' \<Longrightarrow> kept s' gs' (run start (nat n))"
    if "npages_of s' = (npages_of s)(?c := n)" "relinked s s'" "set gs \<subseteq> set gs'" for s' gs'
  proof -
    have v: "virt_to_phys_k s' = virt_to_phys_k s" using relinked_sel [OF that(2)] by simp
    show "grown s gs s' gs'" using that(1,3) v new by (auto simp: grown_def chunk_pages_def)
    have "chunk_pages s' ?c = run start (nat n)" using that v c by (simp add: chunk_pages_def)
    then show "kept s' gs' (run start (nat n))" if "?c \<in> set gs'" unfolding kept_def using that by (intro bexI [of _ ?c]) auto
  qed
  have sorted: "sorted_wrt (\<lambda>a b. ((npages_of s)(?c := n)) b \<le> ((npages_of s)(?c := n)) a) gs"
  proof (rule sorted_wrt_mono_rel [of gs "\<lambda>a b. npages_of s b \<le> npages_of s a"])
    fix x y assume "x \<in> set gs" "y \<in> set gs" "npages_of s y \<le> npages_of s x"
    moreover from this new have "x \<noteq> ?c" "y \<noteq> ?c" by auto
    ultimately show "((npages_of s)(?c := n)) y \<le> ((npages_of s)(?c := n)) x" by simp
  qed (use L in blast)
  have others: "((npages_of s)(?c := n)) x = npages_of s x" if "x \<in> set (gs @ fs)" for x using that new by auto
  show thesis
  proof (cases "n < page_threshold")
    case True
    let ?s = "set_desc ?c f n s"
    have "chain (next_of ?s) g gs" "chain (next_of ?s) ?c (?c # fs)" using L c(1) keep [of gs] keep [of fs] by simp_all
    then have "chunks ?s g ?c gs (?c # fs)"
      unfolding chunks_def set_next_simps set_desc_map using sorted others n True new L c(2) by auto
    moreover have "add_segment start n final g f s = Some (g, ?c, ?s)" using True by (simp add: add_segment_def Let_def)
    moreover have "\<not> 512 \<le> nat n" using True by (simp add: page_threshold)
    ultimately show thesis by (intro that [of g ?c ?s gs "?c # fs"] pages more) simp_all
  next
    case False
    let ?s = "set_desc ?c (if final then g else NULL) n s"
    let ?gs = "insert_desc ((npages_of s)(?c := n)) ?c gs"
    have g: "chain (next_of ?s) g gs" "gs = [] \<Longrightarrow> next_of ?s ?c = NULL" using L keep [of gs] by auto
    have d: "distinct gs" "?c \<notin> set gs" using L new by auto
    obtain h s' where h: "insert_into_sorted_list g ?c ?s = Some (h, s')" "chain (next_of s') h ?gs"
      "npages_of s' = (npages_of s)(?c := n)" "relinked ?s s'" "\<forall>a. a \<notin> insert ?c (set gs) \<longrightarrow> next_of s' a = next_of ?s a"
      by (rule insert_sorted_correct [OF g(1) d c(1) g(2), unfolded set_next_simps(4)])
    have m: "mset ?gs = add_mset ?c (mset gs)" by (rule mset_insert_desc)
    then have set: "set ?gs = insert ?c (set gs)" by (metis set_mset_mset set_mset_add_mset_insert)
    have "mset ?gs = mset (?c # gs)" using m by simp
    then have "distinct ?gs" using d by (metis distinct.simps(2) mset_eq_imp_distinct_iff)
    moreover have "chain (next_of s') f fs = chain (next_of ?s) f fs" using h(5) new L by (intro chain_cong) auto
    moreover have "sorted_wrt (\<lambda>a b. npages_of s' b \<le> npages_of s' a) ?gs" unfolding h(3) using sorted by (rule sorted_insert_desc)
    moreover have "chain (next_of ?s) f fs" using L keep [of fs] by simp
    moreover have map_eq: "virt_to_phys_k s' = virt_to_phys_k s" "phys_to_virt_k s' = phys_to_virt_k s"
      using relinked_sel [OF h(4)] by simp_all
    ultimately have "chunks s' h f ?gs fs"
      unfolding chunks_def h(3) set distinct_append set_append map_eq using h(2) others False new L c(2) by auto
    moreover have "add_segment start n final g f s = Some (h, f, s')" using False h(1) by (simp add: add_segment_def Let_def)
    moreover have "relinked s s'" using h(4) by (rule relinked_trans [OF relinked_desc])
    moreover have "grown s gs s' ?gs" "kept s' ?gs (run start (nat n))"
      using more [OF h(3) \<open>relinked s s'\<close>, of ?gs] set by auto
    ultimately show thesis using m h(3) by (intro that [of h f s' ?gs fs] pages) simp_all
  qed
qed

lemma phys_ok_relinked: "relinked s s' \<Longrightarrow> phys_ok s' P = phys_ok s P"
  using relinked_sel [of s s'] by (simp add: phys_ok_def)

lemma scan_table_correct:
  assumes "chunks s g f gs fs" and "phys_ok s P" and "start \<in> P" and "set t \<subseteq> P" and "0 < n"
    and "prev = start + word_of_nat (nat n - 1) * PAGE_SIZE" and "distinct (pages_of s (gs @ fs) @ run start (nat n) @ t)"
  shows "\<exists>g' f' s' gs' fs'. scan_table t prev start n g f s = Some (g', f', s') \<and> chunks s' g' f' gs' fs' \<and>
    mset (pages_of s' (gs' @ fs')) = mset (pages_of s (gs @ fs) @ run start (nat n) @ t) \<and> relinked s s' \<and>
    grown s gs s' gs' \<and> keeps_runs s' gs' (run start (nat n) @ t)"
  using assms
proof (induction t arbitrary: prev start n g f s gs fs)
  case Nil
  then have "distinct (pages_of s (gs @ fs) @ run start (nat n))" by simp
  from add_segment_correct [OF Nil.prems(1-3,5) this, of True] show ?case
    by (metis append_Nil2 scan_table.simps(1) keeps_run)
next
  case (Cons m t)
  obtain k where k: "nat n = Suc k" using Cons.prems(5) by (cases "nat n") auto
  show ?case
  proof (cases "prev + PAGE_SIZE = m")
    case True
    then have m: "m = start + word_of_nat (nat n) * PAGE_SIZE" using Cons.prems(6) k by (simp add: algebra_simps)
    have step: "scan_table (m # t) prev start n g f s = scan_table t m start (n + 1) g f s" using True by simp
    have n1: "nat (n + 1) = Suc (nat n)" using Cons.prems(5) by simp
    then have r: "run start (nat (n + 1)) @ t = run start (nat n) @ m # t" by (simp only: run_Suc m [symmetric]) simp
    have "m = start + word_of_nat (nat (n + 1) - 1) * PAGE_SIZE" using m n1 by simp
    moreover have "distinct (pages_of s (gs @ fs) @ run start (nat (n + 1)) @ t)" using Cons.prems(7) unfolding r .
    moreover have "0 < n + 1" "set t \<subseteq> P" using Cons.prems(4,5) by simp_all
    ultimately show ?thesis
      using Cons.IH [OF Cons.prems(1-3), of "n + 1" m] unfolding r step by blast
  next
    case False
    have d: "distinct (pages_of s (gs @ fs) @ run start (nat n))"
      using Cons.prems(7) unfolding append_assoc [symmetric] by (rule distinct_append [THEN iffD1, THEN conjunct1])
    obtain g1 f1 s1 gs1 fs1 where a: "add_segment start n False g f s = Some (g1, f1, s1)" "chunks s1 g1 f1 gs1 fs1"
      "mset (pages_of s1 (gs1 @ fs1)) = mset (pages_of s (gs @ fs) @ run start (nat n))" "relinked s s1"
      "grown s gs s1 gs1" "512 \<le> nat n \<longrightarrow> kept s1 gs1 (run start (nat n))"
      by (rule add_segment_correct [OF Cons.prems(1-3,5) d])
    have one: "run m (nat 1) = [m]" by (simp add: run_def)
    have ms: "mset (pages_of s1 (gs1 @ fs1) @ run m (nat 1) @ t) = mset (pages_of s (gs @ fs) @ run start (nat n) @ m # t)"
      using a(3) one by simp
    then have "distinct (pages_of s1 (gs1 @ fs1) @ run m (nat 1) @ t)"
      using Cons.prems(7) mset_eq_imp_distinct_iff by blast
    then obtain g' f' s' gs' fs' where r: "scan_table t m m 1 g1 f1 s1 = Some (g', f', s')" "chunks s' g' f' gs' fs'"
      "mset (pages_of s' (gs' @ fs')) = mset (pages_of s1 (gs1 @ fs1) @ run m (nat 1) @ t)" "relinked s1 s'"
      "grown s1 gs1 s' gs'" "keeps_runs s' gs' (run m (nat 1) @ t)"
      using Cons.IH [OF a(2), of m 1 m] Cons.prems(2,4) phys_ok_relinked [OF a(4)] by auto
    have "scan_table (m # t) prev start n g f s = Some (g', f', s')" using False a(1) r(1) by simp
    moreover have "grown s gs s' gs'" using a(5) r(5) by (rule grown_trans)
    moreover have "keeps_runs s' gs' (run start (nat n) @ m # t)"
    proof (rule keeps_runs_gap)
      have "keeps_runs s1 gs1 (run start (nat n))" using a(6) by (intro keeps_run) blast
      then show "keeps_runs s' gs' (run start (nat n))" using r(5) by (rule keeps_runs_grown)
      show "keeps_runs s' gs' (m # t)" using r(6) one by simp
      show "0 < nat n" using Cons.prems(5) by simp
      show "start + word_of_nat (nat n) * PAGE_SIZE \<noteq> m" using False Cons.prems(6) k by (simp add: algebra_simps)
    qed
    ultimately show ?thesis using r(2,3) ms relinked_trans [OF a(4) r(4)] by metis
  qed
qed

lemma alloc_pages_correct:
  "alloc_pages n s = (map (virt_to_phys_k s) (take n (avail s)), s\<lparr>avail := drop n (avail s)\<rparr>)"
  by (induction n arbitrary: s) (auto split: list.splits)

lemma pages_of_avail [simp]: "pages_of (s\<lparr>avail := ps\<rparr>) cs = pages_of s cs"
  by (intro pages_of_cong) (simp add: npages_of_def)

lemma chunks_avail [simp]: "chunks (s\<lparr>avail := ps\<rparr>) g f gs fs = chunks s g f gs fs"
proof -
  have "next_of (s\<lparr>avail := ps\<rparr>) = next_of s" "npages_of (s\<lparr>avail := ps\<rparr>) = npages_of s"
    by (auto simp: next_of_def npages_of_def)
  then show ?thesis by (simp add: chunks_def)
qed

text \<open>A kernel whose sort is a permutation, and whose pages have distinct physical addresses.\<close>

definition kernel_ok :: "kmem \<Rightarrow> bool" where
  "kernel_ok s \<longleftrightarrow> (\<forall>c xs. mset (sort_k s c xs) = mset xs) \<and> distinct (map (virt_to_phys_k s) (avail s)) \<and>
     (\<forall>p \<in> set (avail s). p \<noteq> NULL \<and> phys_to_virt_k s (virt_to_phys_k s p) = p)"

text \<open>The page table of pass \<open>k\<close>: as many pages as fit, sorted.\<close>

definition page_table :: "kmem \<Rightarrow> nat \<Rightarrow> u64 list" where
  "page_table s k = sort_k s compare_addresses (map (virt_to_phys_k s) (take max_index (drop (k * max_index) (avail s))))"

lemma grown_avail [simp]: "grown (s\<lparr>avail := ps\<rparr>) gs s' gs' = grown s gs s' gs'"
  by (simp add: grown_def chunk_pages_def npages_of_def)

lemma find_loop_correct:
  assumes "chunks s g f gs fs" and "kernel_ok s" and "length (avail s) mod max_index \<noteq> 0"
    and "distinct (pages_of s (gs @ fs) @ map (virt_to_phys_k s) (avail s))"
  shows "\<exists>g' f' s' gs' fs'. find_loop g f n s = Some (g', f', n + int (length (avail s)), s') \<and> chunks s' g' f' gs' fs' \<and>
    mset (pages_of s' (gs' @ fs')) = mset (pages_of s (gs @ fs) @ map (virt_to_phys_k s) (avail s)) \<and>
    relinked (s\<lparr>avail := []\<rparr>) s' \<and> grown s gs s' gs' \<and> (\<forall>k. keeps_runs s' gs' (page_table s k))"
  using assms
proof (induction "length (avail s)" arbitrary: s g f gs fs n rule: less_induct)
  case less
  let ?v = "virt_to_phys_k s" and ?t = "map (virt_to_phys_k s) (take max_index (avail s))"
  let ?s1 = "s\<lparr>avail := drop max_index (avail s)\<rparr>"
  let ?t' = "sort_k s compare_addresses ?t"
  have perm: "mset ?t' = mset ?t" using less.prems(2) by (simp add: kernel_ok_def)
  have ne: "avail s \<noteq> []" using less.prems(3) by auto
  then have "?t \<noteq> []" by (simp add: max_index)
  with perm have t0: "?t' \<noteq> []" by (metis mset_zero_iff)
  obtain a t where t: "?t' = a # t" using t0 by (cases ?t') auto
  let ?P = "set (map ?v (avail s))"
  have v: "?v p \<in> ?P" if "p \<in> set (avail s)" for p using that by simp
  have P: "phys_ok ?s1 ?P" using less.prems(2) by (auto simp: phys_ok_def kernel_ok_def)
  have sub: "set (a # t) \<subseteq> ?P" unfolding t [symmetric] using mset_eq_setD [OF perm] by (auto dest: in_set_takeD)
  have split: "mset (map ?v (avail s)) = mset (a # t) + mset (map ?v (drop max_index (avail s)))"
    unfolding t [symmetric] perm mset_append [symmetric] map_append [symmetric] append_take_drop_id ..
  have dist: "distinct (pages_of s (gs @ fs) @ (a # t) @ map ?v (drop max_index (avail s)))"
    using less.prems(4) split by (metis mset_append mset_eq_imp_distinct_iff)
  have one: "run a (nat 1) = [a]" by (simp add: run_def)
  have "\<exists>g' f' s' gs' fs'. scan_table t a a 1 g f ?s1 = Some (g', f', s') \<and> chunks s' g' f' gs' fs' \<and>
      mset (pages_of s' (gs' @ fs')) = mset (pages_of ?s1 (gs @ fs) @ run a (nat 1) @ t) \<and> relinked ?s1 s' \<and>
      grown ?s1 gs s' gs' \<and> keeps_runs s' gs' (run a (nat 1) @ t)"
    using sub dist less.prems(1) one by (intro scan_table_correct [OF _ P]) auto
  then obtain g2 f2 s2 gs2 fs2 where sc: "scan_table t a a 1 g f ?s1 = Some (g2, f2, s2)" "chunks s2 g2 f2 gs2 fs2"
    "mset (pages_of s2 (gs2 @ fs2)) = mset (pages_of s (gs @ fs) @ a # t)" "relinked ?s1 s2"
    "grown s gs s2 gs2" "keeps_runs s2 gs2 (page_table s 0)"
    unfolding one page_table_def by (auto simp: t)
  note F = relinked_sel [OF sc(4)]
  have st: "find_loop g f n s = (if length ?t = max_index then find_loop g2 f2 (n + int (length ?t)) s2 else Some (g2, f2, n + int (length ?t), s2))"
    by (subst find_loop.simps) (simp add: alloc_pages_correct Let_def t sc(1))
  show ?case
  proof (cases "max_index \<le> length (avail s)")
    case False
    then have "drop max_index (avail s) = []" "length ?t = length (avail s)" by simp_all
    moreover have "keeps_runs s2 gs2 (page_table s k)" for k
    proof (cases k)
      case (Suc l)
      then have "page_table s k = sort_k s compare_addresses []" using False by (simp add: page_table_def)
      moreover have "mset (sort_k s compare_addresses []) = mset []" using less.prems(2) unfolding kernel_ok_def by blast
      ultimately show ?thesis by simp
    qed (use sc(6) in simp)
    ultimately show ?thesis using False st sc(1-5) split
      by (intro exI [of _ g2] exI [of _ f2] exI [of _ s2] exI [of _ gs2] exI [of _ fs2]) auto
  next
    case True
    then have len: "length ?t = max_index" by simp
    have a2: "avail s2 = drop max_index (avail s)" "virt_to_phys_k s2 = ?v" "sort_k s2 = sort_k s" "phys_to_virt_k s2 = phys_to_virt_k s"
      using F by simp_all
    have k2: "kernel_ok s2"
      using less.prems(2) unfolding kernel_ok_def a2 by (auto simp: drop_map [symmetric] dest: in_set_dropD)
    have lt: "length (avail s2) < length (avail s)" using True by (simp add: a2 max_index)
    have md: "length (avail s2) mod max_index \<noteq> 0"
      using less.prems(3) True by (simp add: a2 le_mod_geq)
    have ms: "mset (pages_of s2 (gs2 @ fs2) @ map ?v (avail s2)) = mset (pages_of s (gs @ fs) @ map ?v (avail s))"
      using sc(3) split by (simp add: a2)
    then have "distinct (pages_of s2 (gs2 @ fs2) @ map (virt_to_phys_k s2) (avail s2))"
      using less.prems(4) mset_eq_imp_distinct_iff unfolding a2(2) by blast
    from less.hyps [OF lt sc(2) k2 md this, of "n + int max_index"] obtain g' f' s' gs' fs' where
      r: "find_loop g2 f2 (n + int max_index) s2 = Some (g', f', n + int max_index + int (length (avail s2)), s')"
      "chunks s' g' f' gs' fs'" "mset (pages_of s' (gs' @ fs')) = mset (pages_of s2 (gs2 @ fs2) @ map ?v (avail s2))"
      "relinked (s2\<lparr>avail := []\<rparr>) s'" "grown s2 gs2 s' gs'" "\<forall>k. keeps_runs s' gs' (page_table s2 k)" unfolding a2(2) by blast
    have "int max_index + int (length (avail s2)) = int (length (avail s))" using True by (simp add: a2)
    then have "find_loop g f n s = Some (g', f', n + int (length (avail s)), s')" using st len r(1) by (simp add: add.assoc)
    moreover obtain d where "s2 = ?s1\<lparr>descs := d\<rparr>" using sc(4) by (auto simp: relinked_def)
    then have "relinked (s\<lparr>avail := []\<rparr>) s'" using r(4) by (auto simp: relinked_def)
    moreover have "grown s gs s' gs'" using sc(5) r(5) by (rule grown_trans)
    moreover have "\<forall>k. keeps_runs s' gs' (page_table s k)"
    proof
      fix k show "keeps_runs s' gs' (page_table s k)"
      proof (cases k)
        case 0
        then show ?thesis using keeps_runs_grown [OF sc(6) r(5)] by simp
      next
        case (Suc l)
        then have "page_table s k = page_table s2 l" by (simp add: page_table_def a2 add.commute)
        then show ?thesis using r(6) by simp
      qed
    qed
    ultimately show ?thesis using r(2,3) ms by metis
  qed
qed

lemma count_pages_correct:
  "chain (next_of s) p cs \<Longrightarrow> count_pages p n s = Some (n + sum_list (map (npages_of s) cs))"
  by (induction cs arbitrary: p n)
    (auto simp: count_pages.simps [of NULL] count_pages.simps [of "_ :: addr"] npages_of_def next_of_def)

lemma release_chunks_correct:
  "chain (next_of s) p cs \<Longrightarrow> release_chunks p s = Some (s\<lparr>freed := freed s @ map (phys_to_virt_k s) (pages_of s cs)\<rparr>)"
proof (induction cs arbitrary: p s)
  case Nil
  then show ?case by (simp add: release_chunks.simps pages_of_def)
next
  case (Cons c cs)
  let ?s = "free_run c (md_npages (descs s c)) s"
  have "next_of ?s = next_of s" by (auto simp: next_of_def free_run_def)
  then have "release_chunks (next_of s c) ?s = Some (?s\<lparr>freed := freed ?s @ map (phys_to_virt_k ?s) (pages_of ?s cs)\<rparr>)"
    using Cons by (intro Cons.IH) auto
  moreover have "pages_of ?s cs = pages_of s cs" by (intro pages_of_cong) (simp add: free_run_def npages_of_def)
  moreover have "freed ?s = freed s @ map (phys_to_virt_k s) (chunk_pages s c)" "phys_to_virt_k ?s = phys_to_virt_k s"
    "?s\<lparr>freed := x\<rparr> = s\<lparr>freed := x\<rparr>" for x
    by (simp_all add: free_run_def chunk_pages_def run_def npages_of_def comp_def)
  ultimately show ?case
    using Cons.prems by (subst release_chunks.simps) (simp add: pages_of_def next_of_def [symmetric])
qed

lemma length_pages_of: "\<forall>c \<in> set cs. 0 < npages_of s c \<Longrightarrow> int (length (pages_of s cs)) = sum_list (map (npages_of s) cs)"
  by (induction cs) (auto simp: pages_of_def chunk_pages_def)

lemma find_free_chunks_spec:
  assumes "scratch_ok s" and ok: "kernel_ok s" and "length (avail s) mod max_index \<noteq> 0"
  shows "\<exists>g s' gs fr. find_free_chunks s = Some (0, g, s') \<and> chain (next_of s') g gs \<and>
    sorted_wrt (\<lambda>a b. npages_of s' b \<le> npages_of s' a) gs \<and> (\<forall>c \<in> set gs. 512 \<le> npages_of s' c) \<and>
    freed s' = freed s @ fr \<and> \<not> scratch s' \<and> avail s' = [] \<and>
    mset (pages_of s' gs @ map (virt_to_phys_k s) fr) = mset (map (virt_to_phys_k s) (avail s)) \<and>
    distinct gs \<and> (\<forall>c \<in> set gs. phys_to_virt_k s (virt_to_phys_k s c) = c) \<and>
    virt_to_phys_k s' = virt_to_phys_k s \<and> phys_to_virt_k s' = phys_to_virt_k s \<and> (\<forall>k. keeps_runs s' gs (page_table s k))"
proof -
  let ?s = "s\<lparr>scratch := True\<rparr>"
  have pre: "chunks ?s NULL NULL [] []" "kernel_ok ?s" "length (avail ?s) mod max_index \<noteq> 0"
    "distinct (pages_of ?s ([] @ []) @ map (virt_to_phys_k ?s) (avail ?s))"
    using assms by (simp_all add: chunks_def kernel_ok_def pages_of_def)
  obtain g f s1 gs fs where r: "find_loop NULL NULL 0 ?s = Some (g, f, int (length (avail s)), s1)" "chunks s1 g f gs fs"
    "mset (pages_of s1 (gs @ fs)) = mset (map (virt_to_phys_k s) (avail s))" "relinked (?s\<lparr>avail := []\<rparr>) s1"
    "\<forall>k. keeps_runs s1 gs (page_table s k)"
    using find_loop_correct [OF pre, of 0] by (auto simp: pages_of_def page_table_def)
  note F = relinked_sel [OF r(4)]
  note L = r(2) [unfolded chunks_def]
  let ?fr = "map (phys_to_virt_k s) (pages_of s1 fs)"
  let ?s2 = "s1\<lparr>freed := freed s1 @ map (phys_to_virt_k s1) (pages_of s1 fs)\<rparr>"
  have "int (length (pages_of s1 (gs @ fs))) = sum_list (map (npages_of s1) gs) + sum_list (map (npages_of s1) fs)"
    using length_pages_of [of "gs @ fs" s1] chunks_npages [OF r(2)] by simp
  moreover have "length (pages_of s1 (gs @ fs)) = length (avail s)" using r(3) by (metis length_map size_mset)
  ultimately have cnt: "sum_list (map (npages_of s1) gs) + sum_list (map (npages_of s1) fs) = int (length (avail s))" by simp
  have rel: "release_chunks f s1 = Some ?s2" using L by (intro release_chunks_correct) blast
  have c: "count_pages g 0 s1 = Some (sum_list (map (npages_of s1) gs))"
    "count_pages f n s1 = Some (n + sum_list (map (npages_of s1) fs))" for n
    using L count_pages_correct [of s1] by auto
  have res: "find_free_chunks s = Some (0, g, ?s2\<lparr>scratch := False\<rparr>)"
    using assms(1) r(1) rel c cnt by (simp add: find_free_chunks_def)
  have inv: "map (virt_to_phys_k s) ?fr = pages_of s1 fs"
  proof -
    have "set (pages_of s1 fs) \<subseteq> set (map (virt_to_phys_k s) (avail s))"
      using mset_eq_setD [OF r(3)] by (auto simp: pages_of_def)
    then show ?thesis unfolding map_map using ok by (intro map_idI) (auto simp: kernel_ok_def subset_iff)
  qed
  define s3 where "s3 = ?s2\<lparr>scratch := False\<rparr>"
  have same: "next_of s3 = next_of s1" "npages_of s3 = npages_of s1" "freed s3 = freed s @ ?fr" "\<not> scratch s3" "avail s3 = []"
    "virt_to_phys_k s3 = virt_to_phys_k s" "phys_to_virt_k s3 = phys_to_virt_k s"
    using F by (auto simp: s3_def next_of_def npages_of_def)
  have pg: "pages_of s3 gs = pages_of s1 gs" by (intro pages_of_cong) (simp add: s3_def npages_of_def)
  have "mset (pages_of s3 gs @ map (virt_to_phys_k s) ?fr) = mset (map (virt_to_phys_k s) (avail s))"
    unfolding inv r(3) [symmetric] pg by (simp add: pages_of_def)
  moreover have "grown s1 gs s3 gs" by (simp add: grown_def chunk_pages_def s3_def npages_of_def)
  then have "\<forall>k. keeps_runs s3 gs (page_table s k)" using r(5) keeps_runs_grown by blast
  moreover have "chain (next_of s3) g gs" "sorted_wrt (\<lambda>a b. npages_of s3 b \<le> npages_of s3 a) gs" "\<forall>c \<in> set gs. 512 \<le> npages_of s3 c" "distinct gs"
    "\<forall>c \<in> set gs. phys_to_virt_k s (virt_to_phys_k s c) = c"
    unfolding same using L F by (simp_all add: page_threshold)
  ultimately show ?thesis using res same unfolding s3_def [symmetric] by blast
qed


text \<open>With no free page at all the search takes address 0 for a page: it writes a link there, gives
  the page back although it never had it, and fails without releasing its page table.\<close>

theorem find_free_chunks_no_pages:
  assumes "scratch_ok s" and "avail s = []" and "\<forall>c. sort_k s c [] = []" and "phys_to_virt_k s 0 = z" and "z \<noteq> NULL"
    and "virt_to_phys_k s z = 0"
  shows "\<exists>s'. find_free_chunks s = Some (- EFAULT, NULL, s') \<and> scratch s' \<and> freed s' = freed s @ [z] \<and>
    descs s' z = \<lparr>md_next = NULL, md_npages = 1\<rparr>"
proof -
  let ?s1 = "set_desc z NULL 1 (s\<lparr>scratch := True, avail := []\<rparr>)"
  have l: "find_loop NULL NULL 0 (s\<lparr>scratch := True\<rparr>) = Some (NULL, z, 0, ?s1)"
    using assms by (subst find_loop.simps) (simp add: alloc_pages_correct Let_def add_segment_def page_threshold max_index)
  have ch: "chain (next_of ?s1) z [z]" using assms(5) by simp
  have p: "pages_of ?s1 [z] = [0]" using assms(6) by (simp add: pages_of_def chunk_pages_def run_def set_desc_def npages_of_def)
  have "count_pages NULL 0 ?s1 = Some 0" "count_pages z 0 ?s1 = Some 1"
    using count_pages_correct [OF ch, of 0] by (simp_all add: count_pages.simps [of NULL])
  then have "find_free_chunks s = Some (- EFAULT, NULL, ?s1\<lparr>freed := freed ?s1 @ map (phys_to_virt_k ?s1) [0]\<rparr>)"
    using assms(1) l release_chunks_correct [OF ch] p by (simp add: find_free_chunks_def)
  then show ?thesis using assms(4) by (simp add: set_desc_def)
qed

lemma compare_addresses_diff:
  assumes "\<bar>uint a - uint b\<bar> < 2 ^ 31" shows "compare_addresses a b = uint a - uint b"
proof -
  have r: "- (2 ^ 31) \<le> uint a - uint b" "uint a - uint b < 2 ^ 31" using assms by auto
  have "(ucast (word_of_int k :: u64) :: u32) = word_of_int k" for k
    by (rule bit_word_eqI) (auto simp: bit_simps)
  moreover have "a - b = word_of_int (uint a - uint b)" by simp
  ultimately have "compare_addresses a b = sint (word_of_int (uint a - uint b) :: u32)"
    unfolding compare_addresses_def by metis
  then have "compare_addresses a b = signed_take_bit 31 (uint a - uint b)" by (simp only: signed_of_int) simp
  then show ?thesis using r by (simp add: signed_take_bit_int_eq_self)
qed

text \<open>The comparison of the sort is right for addresses less than two gigabytes apart; for others
  the difference does not fit an int: an address exactly four gigabytes up counts as equal, one
  two gigabytes up as smaller.\<close>

theorem compare_addresses_truncates:
  "(\<bar>uint a - uint b\<bar> < 2 ^ 31 \<longrightarrow> compare_addresses a b = uint a - uint b) \<and>
   compare_addresses (a + 2 ^ 32) a = 0 \<and> compare_addresses (a + 2 ^ 31) a < 0"
  using compare_addresses_diff [of a b] by (simp add: compare_addresses_def)

section \<open>Examples\<close>

text \<open>A kernel with its memory mapped at \<open>0x80000000\<close>.\<close>

definition kmem0 :: "addr list \<Rightarrow> kmem" where
  "kmem0 ps = \<lparr>virt_to_phys_k = \<lambda>v. word_of_int (v - 0x80000000), phys_to_virt_k = \<lambda>a. 0x80000000 + uint a,
     sort_k = \<lambda>c. sort_key (\<lambda>a. c a 0), avail = ps, freed = [], scratch_ok = True, scratch = False,
     descs = \<lambda>_. \<lparr>md_next = NULL, md_npages = 0\<rparr>\<rparr>"

lemma kmem0_sel [simp]:
  "scratch_ok (kmem0 ps)" "avail (kmem0 ps) = ps" "freed (kmem0 ps) = []"
  "virt_to_phys_k (kmem0 ps) = (\<lambda>v. word_of_int (v - 0x80000000))" "phys_to_virt_k (kmem0 ps) = (\<lambda>a. 0x80000000 + uint a)"
  "sort_k (kmem0 ps) = (\<lambda>c. sort_key (\<lambda>a. c a 0))"
  by (simp_all add: kmem0_def)


theorem find_free_chunks_no_pages_witness:
  "\<exists>s'. find_free_chunks (kmem0 []) = Some (- EFAULT, NULL, s') \<and> freed s' = [0x80000000]"
  using find_free_chunks_no_pages [of "kmem0 []" "0x80000000"] by auto

theorem compare_addresses_truncates_witness: "compare_addresses 0x5000 0x3000 = 0x2000"
  using compare_addresses_truncates [of "0x5000" "0x3000"] by simp

end
