(* ===== verification/Driver.thy ===== *)
theory Driver
  imports Driver_Mem
begin

unbundle bit_operations_syntax

text \<open>
  The kernel driver (src/driver/netl7driver.c): probing, the entries in \<^verbatim>\<open>/proc/NetL7\<close>, opening
  and closing, mapping, and the memory of the devices. The kernel decides whether a PCI device
  can be enabled, an entry created, user memory written or pages mapped: these answers are
  arguments. \<^term>\<open>None\<close> is an access beyond \<^verbatim>\<open>device_list\<close> or through a null pointer.
\<close>

section \<open>State\<close>

datatype nlm_device_type =
  NLM_DEVICE_UNKNOWN | NLM_DEVICE_MARS1 | NLM_DEVICE_MARS2 | NLM_DEVICE_FAMOS | NLM_DEVICE_XAUIEX2 | NLM_DEVICE_MARS3

record drv_device =
  dd_type :: nlm_device_type
  owner_pid :: int
  proc_entry :: "string option"
  sysmem_base :: u64
  packetmem_base :: u64
  regmap_base :: u64
  regmap_size :: u32
  sysmem_size :: u32
  packetmem_size :: u32

definition drv_device_zero :: drv_device where
  "drv_device_zero = \<lparr>dd_type = NLM_DEVICE_UNKNOWN, owner_pid = 0, proc_entry = None, sysmem_base = 0, packetmem_base = 0,
     regmap_base = 0, regmap_size = 0, sysmem_size = 0, packetmem_size = 0\<rparr>"

text \<open>\<open>procs\<close> are the entries of \<^verbatim>\<open>/proc/NetL7\<close> with the index of their device.\<close>

record driver =
  device_list :: "drv_device list"
  n_devices :: nat
  fixed_phys_base :: u64
  fixed_phys_size :: u64
  dmamem_size :: u64
  procs :: "(string \<times> nat) list"
  mem :: kmem

definition upd_device :: "nat \<Rightarrow> (drv_device \<Rightarrow> drv_device) \<Rightarrow> driver \<Rightarrow> driver option" where
  "upd_device i g d =
     (if i < length (device_list d) then Some (d\<lparr>device_list := (device_list d)[i := g (device_list d ! i)]\<rparr>) else None)"

section \<open>Probing\<close>

record pci_dev =
  pci_id :: u32
  pci_enable :: bool
  pci_start :: u64
  pci_len :: u32

definition type_of_id :: "u32 \<Rightarrow> nlm_device_type option" where
  "type_of_id i =
     (if i = 8 then Some NLM_DEVICE_MARS1 else if i = 9 then Some NLM_DEVICE_MARS2
      else if i = 10 then Some NLM_DEVICE_FAMOS else if i = 11 then Some NLM_DEVICE_XAUIEX2
      else if i = 12 then Some NLM_DEVICE_MARS3 else None)"

definition add_device :: "nlm_device_type \<Rightarrow> u64 \<Rightarrow> u32 \<Rightarrow> driver \<Rightarrow> driver option" where
  "add_device ty start len d =
     upd_device (n_devices d) (\<lambda>x. x\<lparr>dd_type := ty, regmap_base := start, regmap_size := len, proc_entry := None\<rparr>)
       (d\<lparr>n_devices := n_devices d + 1\<rparr>)"

fun add_devices :: "nat \<Rightarrow> nlm_device_type \<Rightarrow> u64 \<Rightarrow> u32 \<Rightarrow> driver \<Rightarrow> driver option" where
  "add_devices 0 ty start len d = Some d"
| "add_devices (Suc k) ty start len d = Option.bind (add_device ty start len d) (add_devices k ty start len)"

definition nlm_pci_probe :: "pci_dev option \<Rightarrow> driver \<Rightarrow> (int \<times> driver) option" where
  "nlm_pci_probe pdev d =
     (if MAX_DEVICES \<le> n_devices d then Some (- EINVAL, d)
      else
        case pdev of
          None \<Rightarrow> Some (- EINVAL, d)
        | Some p \<Rightarrow>
            if \<not> pci_enable p then Some (- EINVAL, d)
            else
              case type_of_id (pci_id p) of
                None \<Rightarrow> Some (- EINVAL, d)
              | Some ty \<Rightarrow>
                  Option.bind (add_device ty (pci_start p) (pci_len p) d) (\<lambda>d1.
                  if ty = NLM_DEVICE_FAMOS then
                    if MAX_DEVICES \<le> n_devices d1 + 5 then Some (- EINVAL, d1)
                    else map_option (\<lambda>d2. (0, d2)) (add_devices 5 ty (pci_start p) (pci_len p) d1)
                  else if ty = NLM_DEVICE_XAUIEX2 then
                    if MAX_DEVICES \<le> n_devices d1 + 1 then Some (- EINVAL, d1)
                    else map_option (\<lambda>d2. (0, d2)) (add_devices 1 ty (pci_start p) (pci_len p) d1)
                  else Some (0, d1)))"

text \<open>Registering the driver probes the devices of the bus.\<close>

fun probe_all :: "pci_dev list \<Rightarrow> driver \<Rightarrow> driver option" where
  "probe_all [] d = Some d"
| "probe_all (p # ps) d = Option.bind (nlm_pci_probe (Some p) d) (\<lambda>(st, d1). probe_all ps d1)"

section \<open>Entries in /proc\<close>

text \<open>A number printed with \<^verbatim>\<open>%01d\<close>.\<close>

fun dec :: "nat \<Rightarrow> string" where
  "dec n = (if n < 10 then [char_of (48 + n)] else dec (n div 10) @ [char_of (48 + n mod 10)])"

declare dec.simps [simp del]

definition make_entry :: "(string \<Rightarrow> bool) \<Rightarrow> string \<Rightarrow> nat \<Rightarrow> driver \<Rightarrow> (bool \<times> driver) option" where
  "make_entry create nm i d =
     (if create nm then
        map_option (\<lambda>d1. (True, d1\<lparr>procs := procs d1 @ [(nm, i)]\<rparr>)) (upd_device i (\<lambda>x. x\<lparr>proc_entry := Some nm\<rparr>) d)
      else Some (False, d))"

text \<open>The rings of one device, in consecutive slots; the index is passed back.\<close>

fun make_rings :: "(string \<Rightarrow> bool) \<Rightarrow> string \<Rightarrow> nat list \<Rightarrow> nat \<Rightarrow> driver \<Rightarrow> (bool \<times> nat \<times> driver) option" where
  "make_rings create pre [] i d = Some (True, i, d)"
| "make_rings create pre (j # js) i d =
     (case make_entry create (pre @ ''.r'' @ dec j) i d of
        None \<Rightarrow> None
      | Some (ok, d1) \<Rightarrow> if ok then make_rings create pre js (Suc i) d1 else Some (False, i, d1))"

record proc_ids =
  mars1_id :: nat
  mars2_id :: nat
  famos_id :: nat
  xauiex2_id :: nat
  mars3_id :: nat

text \<open>One iteration: whether it succeeded, the index of the next one, and the counters.\<close>

definition create_step :: "(string \<Rightarrow> bool) \<Rightarrow> nat \<Rightarrow> proc_ids \<Rightarrow> driver \<Rightarrow> (bool \<times> nat \<times> proc_ids \<times> driver) option" where
  "create_step create i c d =
     (let one = (\<lambda>nm c'. map_option (\<lambda>(ok, d1). (ok, Suc i, c', d1)) (make_entry create nm i d));
          rings = (\<lambda>pre n c'. map_option (\<lambda>(ok, i', d1). (ok, i', c', d1)) (make_rings create pre [0..<n] i d))
      in case dd_type (device_list d ! i) of
           NLM_DEVICE_MARS1 \<Rightarrow> one (''mars1.'' @ dec (mars1_id c)) (c\<lparr>mars1_id := Suc (mars1_id c)\<rparr>)
         | NLM_DEVICE_MARS2 \<Rightarrow> one (''mars2.'' @ dec (mars2_id c)) (c\<lparr>mars2_id := Suc (mars2_id c)\<rparr>)
         | NLM_DEVICE_FAMOS \<Rightarrow> rings (''fms.'' @ dec (famos_id c)) 6 (c\<lparr>famos_id := Suc (famos_id c)\<rparr>)
         | NLM_DEVICE_XAUIEX2 \<Rightarrow> rings (''xauiex2.'' @ dec (xauiex2_id c)) 2 (c\<lparr>xauiex2_id := Suc (xauiex2_id c)\<rparr>)
         | NLM_DEVICE_MARS3 \<Rightarrow> one (''mars3.'' @ dec (mars3_id c)) (c\<lparr>mars3_id := Suc (mars3_id c)\<rparr>)
         | NLM_DEVICE_UNKNOWN \<Rightarrow> Some (True, Suc i, c, d))"

lemma make_entry_frame:
  "make_entry create nm i d = Some (ok, d1) \<Longrightarrow> n_devices d1 = n_devices d"
  by (auto simp: make_entry_def upd_device_def split: if_splits)

lemma make_rings_frame:
  "make_rings create pre js i d = Some (ok, i', d1) \<Longrightarrow> n_devices d1 = n_devices d \<and> (ok \<longrightarrow> i' = i + length js)"
proof (induction js arbitrary: i d)
  case (Cons j js)
  then obtain ok1 d2 where e: "make_entry create (pre @ ''.r'' @ dec j) i d = Some (ok1, d2)" by (auto split: option.splits)
  show ?case
  proof (cases ok1)
    case True
    with Cons.prems e Cons.IH [of "Suc i" d2] make_entry_frame [OF e] show ?thesis by auto
  next
    case False
    with Cons.prems e make_entry_frame [OF e] show ?thesis by auto
  qed
qed simp

lemma create_step_frame:
  "create_step create i c d = Some (ok, i', c', d1) \<Longrightarrow> n_devices d1 = n_devices d \<and> (ok \<longrightarrow> i < i')"
  by (auto simp: create_step_def Let_def dest!: make_entry_frame make_rings_frame split: nlm_device_type.splits)

text \<open>The loop over the devices; the result is whether every entry was created.\<close>

function create_loop :: "(string \<Rightarrow> bool) \<Rightarrow> nat \<Rightarrow> proc_ids \<Rightarrow> driver \<Rightarrow> (bool \<times> driver) option" where
  "create_loop create i c d =
     (if i < n_devices d then
        case create_step create i c d of
          None \<Rightarrow> None
        | Some (ok, i', c', d1) \<Rightarrow> if ok then create_loop create i' c' d1 else Some (False, d1)
      else Some (True, d))"
  by pat_completeness auto
termination
  by (relation "measure (\<lambda>(create, i, c, d). n_devices d - i)") (auto dest!: create_step_frame)

declare create_loop.simps [simp del]

fun destroy_loop :: "nat list \<Rightarrow> driver \<Rightarrow> driver option" where
  "destroy_loop [] d = Some d"
| "destroy_loop (i # is) d =
     (if length (device_list d) \<le> i then None
      else
        case proc_entry (device_list d ! i) of
          None \<Rightarrow> Some d
        | Some nm \<Rightarrow> Option.bind (upd_device i (\<lambda>x. x\<lparr>proc_entry := None\<rparr>) d) (\<lambda>d1.
            destroy_loop is (d1\<lparr>procs := filter (\<lambda>e. fst e \<noteq> nm) (procs d1)\<rparr>)))"

definition destroy_proc_entries :: "driver \<Rightarrow> driver option" where
  "destroy_proc_entries d = destroy_loop [0..<n_devices d] d"

definition create_proc_entries :: "bool \<Rightarrow> (string \<Rightarrow> bool) \<Rightarrow> driver \<Rightarrow> (int \<times> driver) option" where
  "create_proc_entries mkdir create d =
     (if \<not> mkdir then Some (- EINVAL, d)
      else
        case create_loop create 0 \<lparr>mars1_id = 0, mars2_id = 0, famos_id = 0, xauiex2_id = 0, mars3_id = 0\<rparr> d of
          None \<Rightarrow> None
        | Some (ok, d1) \<Rightarrow> if ok then Some (0, d1) else map_option (\<lambda>d2. (- EINVAL, d2)) (destroy_proc_entries d1))"

section \<open>Memory of the devices\<close>

fun carve :: "(u64 \<Rightarrow> drv_device \<Rightarrow> drv_device) \<Rightarrow> nat list \<Rightarrow> u64 \<Rightarrow> u64 \<Rightarrow> driver \<Rightarrow> (u64 \<times> driver) option" where
  "carve assign [] base sz d = Some (base, d)"
| "carve assign (i # is) base sz d = Option.bind (upd_device i (assign base) d) (carve assign is (base + sz) sz)"

definition set_sysmem :: "u64 \<Rightarrow> u64 \<Rightarrow> drv_device \<Rightarrow> drv_device" where
  "set_sysmem sz base x = x\<lparr>sysmem_base := base, sysmem_size := ucast sz\<rparr>"
definition set_packetmem :: "u64 \<Rightarrow> u64 \<Rightarrow> drv_device \<Rightarrow> drv_device" where
  "set_packetmem sz base x = x\<lparr>packetmem_base := base, packetmem_size := ucast sz\<rparr>"

definition fixed_memory_chunking :: "u64 \<Rightarrow> u64 \<Rightarrow> u64 \<Rightarrow> driver \<Rightarrow> (int \<times> driver) option" where
  "fixed_memory_chunking phys_base phys_size dma_size d =
     (if phys_base = 0 \<or> phys_size = 0 then Some (- EINVAL, d)
      else if n_devices d = 0 then None
      else
        let dma = (if dma_size = 0 then NLM_DEFAULT_DMA_MEM_SIZE else dma_size) AND PAGE_MASK;
            base = (phys_base + PAGE_SIZE - 1) AND PAGE_MASK;
            sz = (if base \<noteq> phys_base then phys_size - (base - phys_base) else phys_size);
            sysmem = (sz div word_of_nat (n_devices d)) AND PAGE_MASK
        in if sysmem < dma then Some (- ENOMEM, d)
           else
             Option.bind (carve (set_sysmem (sysmem - dma)) [0..<n_devices d] base (sysmem - dma) d) (\<lambda>(b1, d1).
             Option.bind (carve (set_packetmem dma) [0..<n_devices d] b1 dma d1) (\<lambda>(b2, d2).
             Some (if phys_base + sz < b2 then - EFAULT else 0, d2))))"

text \<open>One chunk for each device; false when there are not enough.\<close>

fun assign_chunks ::
  "(u64 \<Rightarrow> u64 \<Rightarrow> drv_device \<Rightarrow> drv_device) \<Rightarrow> nat list \<Rightarrow> addr \<Rightarrow> driver \<Rightarrow> (bool \<times> addr \<times> driver) option" where
  "assign_chunks assign [] chunk d = Some (True, chunk, d)"
| "assign_chunks assign (i # is) chunk d =
     (if chunk \<noteq> NULL then
        Option.bind (upd_device i (assign (word_of_int (md_npages (descs (mem d) chunk)) * PAGE_SIZE) (virt_to_phys_k (mem d) chunk)) d)
          (assign_chunks assign is (md_next (descs (mem d) chunk)))
      else Some (False, chunk, d))"

definition upd_mem :: "kmem \<Rightarrow> driver \<Rightarrow> driver" where
  "upd_mem m d = d\<lparr>mem := m\<rparr>"

definition dynamic_memory_init :: "driver \<Rightarrow> (int \<times> driver) option" where
  "dynamic_memory_init d =
     Option.bind (find_free_chunks (mem d)) (\<lambda>(err, c, m).
     if err \<noteq> 0 then Some (err, upd_mem m d)
     else
       let sz = PAGE_ALIGN (if fixed_phys_size d = 0 then NLM_DEFAULT_PHYS_MEM_SIZE else fixed_phys_size d);
           npages = md_npages (descs m c);
           bytes = word_of_int npages * PAGE_SIZE
       in if c = NULL then None
          else if bytes = sz then
            Option.bind (release_chunks (md_next (descs m c)) m) (\<lambda>m1.
            fixed_memory_chunking (virt_to_phys_k m1 c) sz (dmamem_size d) (upd_mem m1 d))
          else if sz < bytes then
            let rest = c + uint sz;
                m1 = set_desc rest (md_next (descs m c)) (npages - uint (sz div PAGE_SIZE)) m
            in Option.bind (release_chunks rest m1) (\<lambda>m2.
               fixed_memory_chunking (virt_to_phys_k m2 c) sz (dmamem_size d) (upd_mem m2 d))
          else
            Option.bind (assign_chunks set_sysmem [0..<n_devices d] c (upd_mem m d)) (\<lambda>(ok, c1, d1).
            if \<not> ok then Some (- ENOMEM, d1)
            else
              Option.bind (assign_chunks set_packetmem [0..<n_devices d] c1 d1) (\<lambda>(ok, c2, d2).
              if \<not> ok then Some (- ENOMEM, d2)
              else map_option (\<lambda>m'. (0, upd_mem m' d2)) (release_chunks c2 (mem d2)))))"

definition memory_manager_init :: "driver \<Rightarrow> (int \<times> driver) option" where
  "memory_manager_init d =
     (if fixed_phys_base d \<noteq> 0 then fixed_memory_chunking (fixed_phys_base d) (fixed_phys_size d) (dmamem_size d) d
      else dynamic_memory_init d)"

text \<open>Giving one region back; \<^verbatim>\<open>sysmem_size / PAGE_SIZE\<close> is a division of unsigned longs.\<close>

definition release_region :: "u64 \<Rightarrow> u32 \<Rightarrow> kmem \<Rightarrow> kmem option" where
  "release_region base sz m =
     (if base \<noteq> 0 then
        let c = phys_to_virt_k m base
        in release_chunks c (set_desc c NULL (uint ((ucast sz :: u64) div PAGE_SIZE)) m)
      else Some m)"

fun release_devices :: "drv_device list \<Rightarrow> kmem \<Rightarrow> kmem option" where
  "release_devices [] m = Some m"
| "release_devices (x # xs) m =
     Option.bind (release_region (sysmem_base x) (sysmem_size x) m) (\<lambda>m1.
     Option.bind (release_region (packetmem_base x) (packetmem_size x) m1) (release_devices xs))"

definition memory_manager_fini :: "driver \<Rightarrow> driver option" where
  "memory_manager_fini d =
     (if fixed_phys_base d \<noteq> 0 then Some d
      else map_option (\<lambda>m. upd_mem m d) (release_devices (take (n_devices d) (device_list d)) (mem d)))"

section \<open>Loading and unloading\<close>

text \<open>The final loop prints the name of every entry.\<close>

definition nlm_drv_module_init :: "int \<Rightarrow> pci_dev list \<Rightarrow> bool \<Rightarrow> (string \<Rightarrow> bool) \<Rightarrow> driver \<Rightarrow> (int \<times> driver) option" where
  "nlm_drv_module_init status bus mkdir create d =
     Option.bind (probe_all bus d) (\<lambda>d1.
     if status < 0 then Some (- EINVAL, d1)
     else if n_devices d1 = 0 then Some (0, d1)
     else
       Option.bind (memory_manager_init d1) (\<lambda>(st, d2).
       if st < 0 then Some (st, d2)
       else
         Option.bind (create_proc_entries mkdir create d2) (\<lambda>(st, d3).
         if st < 0 then Some (st, d3)
         else assert_then (list_all (\<lambda>x. proc_entry x \<noteq> None) (take (n_devices d3) (device_list d3))) (Some (0, d3)))))"

definition nlm_drv_module_exit :: "driver \<Rightarrow> driver option" where
  "nlm_drv_module_exit d = Option.bind (destroy_proc_entries d) memory_manager_fini"

section \<open>File operations\<close>

text \<open>\<open>data\<close> is the device behind the entry; a file that is open for writing remembers it. The
  status of \<^verbatim>\<open>single_open\<close> and \<^verbatim>\<open>single_release\<close> is \<open>single\<close>.\<close>

definition nlm_device_open :: "nat option \<Rightarrow> bool \<Rightarrow> int \<Rightarrow> int \<Rightarrow> driver \<Rightarrow> (int \<times> nat option \<times> driver) option" where
  "nlm_device_open data write pid single d =
     (case data of
        None \<Rightarrow> Some (- EINVAL, None, d)
      | Some i \<Rightarrow>
          if write then
            if length (device_list d) \<le> i then None
            else if owner_pid (device_list d ! i) = 0 then
              map_option (\<lambda>d1. (0, Some i, d1)) (upd_device i (\<lambda>x. x\<lparr>owner_pid := pid\<rparr>) d)
            else if owner_pid (device_list d ! i) = pid then Some (0, Some i, d)
            else Some (- EBUSY, None, d)
          else Some (single, None, d))"

definition nlm_device_close :: "nat option \<Rightarrow> bool \<Rightarrow> int \<Rightarrow> driver \<Rightarrow> (int \<times> driver) option" where
  "nlm_device_close data write single d =
     (case data of
        None \<Rightarrow> Some (- EINVAL, d)
      | Some i \<Rightarrow>
          if write then map_option (\<lambda>d1. (0, d1)) (upd_device i (\<lambda>x. x\<lparr>owner_pid := 0\<rparr>) d)
          else Some (single, d))"

record nlm_sys_cfg =
  mem_size :: u32
  physical_addr :: u64

text \<open>\<open>put\<close> tells for the first and the second field written whether the user's memory is accessible.\<close>

definition put_cfg :: "bool \<times> bool \<Rightarrow> bool \<Rightarrow> u32 \<Rightarrow> u64 \<Rightarrow> nlm_sys_cfg \<Rightarrow> int \<times> nlm_sys_cfg" where
  "put_cfg put size_first sz addr buf =
     (let first = (if size_first then buf\<lparr>mem_size := sz\<rparr> else buf\<lparr>physical_addr := addr\<rparr>)
      in if \<not> fst put then (- EFAULT, buf)
         else if \<not> snd put then (- EFAULT, first)
         else (0, \<lparr>mem_size = sz, physical_addr = addr\<rparr>))"

definition nlm_device_ioctl :: "nat option \<Rightarrow> nat \<Rightarrow> bool \<times> bool \<Rightarrow> nlm_sys_cfg \<Rightarrow> driver \<Rightarrow> int \<times> nlm_sys_cfg" where
  "nlm_device_ioctl data cmd put buf d =
     (case data of
        None \<Rightarrow> (- EINVAL, buf)
      | Some i \<Rightarrow>
          let x = device_list d ! i in
          if cmd = 1 then put_cfg put True (regmap_size x) (regmap_base x) buf
          else if cmd = 3 then put_cfg put False (packetmem_size x) (packetmem_base x) buf
          else if cmd = 2 then put_cfg put False (sysmem_size x) (sysmem_base x) buf
          else (- EFAULT, buf))"

record vm_area =
  vm_locked :: bool
  vm_reserved :: bool
  vm_io :: bool
  vm_noncached :: bool
  vm_pgoff :: u64

definition nlm_device_mmap :: "bool \<Rightarrow> vm_area \<Rightarrow> driver \<Rightarrow> int \<times> vm_area" where
  "nlm_device_mmap remap vm d =
     (if vm_locked vm then (- EPERM, vm)
      else
        let phy_addr = push_bit 12 (vm_pgoff vm);
            registers = list_ex (\<lambda>x. regmap_base x = phy_addr) (take (n_devices d) (device_list d));
            vm1 = vm\<lparr>vm_reserved := True, vm_io := True, vm_noncached := registers \<or> vm_noncached vm\<rparr>
        in (if remap then 0 else - EFAULT, vm1))"

section \<open>Exclusive access\<close>

text \<open>Processes open the device \<open>i\<close> for writing and close it; \<open>hs\<close> are the processes with an open
  file. No process opens a second file.\<close>

inductive file_step :: "nat \<Rightarrow> driver \<times> int list \<Rightarrow> driver \<times> int list \<Rightarrow> bool" for i where
  opened: "nlm_device_open (Some i) True p r d = Some (0, Some i, d') \<Longrightarrow> p \<noteq> 0 \<Longrightarrow> p \<notin> set hs \<Longrightarrow>
    file_step i (d, hs) (d', p # hs)"
| refused: "nlm_device_open (Some i) True p r d = Some (st, None, d') \<Longrightarrow> p \<noteq> 0 \<Longrightarrow> p \<notin> set hs \<Longrightarrow>
    file_step i (d, hs) (d', hs)"
| closed: "p \<in> set hs \<Longrightarrow> nlm_device_close (Some i) True r d = Some (st, d') \<Longrightarrow> file_step i (d, hs) (d', remove1 p hs)"

inductive_cases file_stepE: "file_step i (d, hs) (d', hs')"

definition exclusive :: "nat \<Rightarrow> driver \<times> int list \<Rightarrow> bool" where
  "exclusive i = (\<lambda>(d, hs). i < length (device_list d) \<and>
     (hs = [] \<and> owner_pid (device_list d ! i) = 0 \<or> (\<exists>p. p \<noteq> 0 \<and> hs = [p] \<and> owner_pid (device_list d ! i) = p)))"

lemma exclusive_step: "file_step i x y \<Longrightarrow> exclusive i x \<Longrightarrow> exclusive i y"
  by (induction rule: file_step.induct)
    (auto simp: exclusive_def nlm_device_open_def nlm_device_close_def upd_device_def split: if_splits)

lemma exclusive_reachable: "(file_step i)\<^sup>*\<^sup>* x y \<Longrightarrow> exclusive i x \<Longrightarrow> exclusive i y"
  by (induction rule: rtranclp_induct) (auto intro: exclusive_step)

text \<open>C20. As long as no process opens a device twice, at most one file of a device is open for writing at
  any time: while a process holds it every other process is told that the device is busy, and
  when no process does, any process gets it.\<close>

theorem nlm_device_open_exclusive:
  assumes "(file_step i)\<^sup>*\<^sup>* (d0, []) (d, hs)" and "i < length (device_list d0)" and "owner_pid (device_list d0 ! i) = 0"
    and "p \<noteq> 0" and "p \<notin> set hs"
  shows "length hs \<le> 1 \<and>
    (hs \<noteq> [] \<longrightarrow> nlm_device_open (Some i) True p r d = Some (- EBUSY, None, d)) \<and>
    (hs = [] \<longrightarrow> (\<exists>d'. nlm_device_open (Some i) True p r d = Some (0, Some i, d') \<and> owner_pid (device_list d' ! i) = p))"
proof -
  have "exclusive i (d, hs)" using assms(2,3) by (intro exclusive_reachable [OF assms(1)]) (simp add: exclusive_def)
  with assms(4,5) show ?thesis
    by (auto simp: exclusive_def nlm_device_open_def upd_device_def)
qed

text \<open>A process may open a device twice; closing one of its two files makes the device available
  although the other file is still open, and a second process gets access beside the first.\<close>

theorem nlm_device_close_shares:
  assumes "i < length (device_list d)" and "owner_pid (device_list d ! i) = 0" and "p \<noteq> 0" and "q \<noteq> p"
  shows "\<exists>d1 d2 d3 d4. nlm_device_open (Some i) True p r d = Some (0, Some i, d1) \<and>
    nlm_device_open (Some i) True p r d1 = Some (0, Some i, d2) \<and> nlm_device_close (Some i) True r d2 = Some (0, d3) \<and>
    nlm_device_open (Some i) True q r d3 = Some (0, Some i, d4)"
  using assms by (simp add: nlm_device_open_def nlm_device_close_def upd_device_def)

section \<open>Carving up a region\<close>

lemma page_mask: "a AND PAGE_MASK = push_bit 12 (drop_bit 12 a)"
proof -
  have "PAGE_SIZE - 1 = mask 12" by (simp add: PAGE_SIZE_def mask_eq_exp_minus_1)
  then show ?thesis unfolding PAGE_MASK_def by (auto intro!: bit_word_eqI simp: bit_simps)
qed

lemma unat_page_mask: "unat (a AND PAGE_MASK) = 4096 * (unat a div 4096)"
proof -
  have "unat (drop_bit 12 a) = unat a div 4096" unfolding unat_drop_bit_eq by (simp add: drop_bit_eq_div)
  moreover have "unat (push_bit 12 (drop_bit 12 a)) = unat (drop_bit 12 a) * 4096"
  proof -
    have "unat a < 2 ^ LENGTH(64)" by (rule unsigned_less)
    then have "unat (drop_bit 12 a) * 4096 < 2 ^ 64" using calculation by simp
    then show ?thesis by (simp add: push_bit_eq_mult unat_word_ariths)
  qed
  ultimately show ?thesis by (simp add: page_mask)
qed

lemma carve_correct:
  assumes "a + k \<le> length (device_list d)"
  shows "\<exists>d'. carve g [a..<a + k] b sz d = Some (b + word_of_nat k * sz, d') \<and> length (device_list d') = length (device_list d) \<and>
    n_devices d' = n_devices d \<and> mem d' = mem d \<and> fixed_phys_base d' = fixed_phys_base d \<and>
    (\<forall>i. device_list d' ! i = (if a \<le> i \<and> i < a + k then g (b + word_of_nat (i - a) * sz) (device_list d ! i) else device_list d ! i))"
  using assms
proof (induction k arbitrary: a b d)
  case (Suc k)
  let ?d = "d\<lparr>device_list := (device_list d)[a := g b (device_list d ! a)]\<rparr>"
  obtain d' where IH: "carve g [Suc a..<Suc a + k] (b + sz) sz ?d = Some (b + sz + word_of_nat k * sz, d')"
    "length (device_list d') = length (device_list ?d)" "n_devices d' = n_devices ?d" "mem d' = mem ?d" "fixed_phys_base d' = fixed_phys_base ?d"
    "\<forall>i. device_list d' ! i = (if Suc a \<le> i \<and> i < Suc a + k then g (b + sz + word_of_nat (i - Suc a) * sz) (device_list ?d ! i) else device_list ?d ! i)"
    using Suc.IH [of "Suc a" ?d "b + sz"] Suc.prems by auto
  have "[a..<a + Suc k] = a # [Suc a..<Suc a + k]" by (simp add: upt_rec)
  then have "carve g [a..<a + Suc k] b sz d = Some (b + word_of_nat (Suc k) * sz, d')"
    using IH(1) Suc.prems by (simp add: upd_device_def algebra_simps)
  moreover have "device_list d' ! i = (if a \<le> i \<and> i < a + Suc k then g (b + word_of_nat (i - a) * sz) (device_list d ! i) else device_list d ! i)" for i
  proof (cases "Suc a \<le> i \<and> i < Suc a + k")
    case True
    then obtain m where "i = Suc (a + m)" by (auto simp: less_eq_Suc_le le_iff_add)
    with True spec [OF IH(6), of i] show ?thesis by (simp add: algebra_simps)
  next
    case False
    with spec [OF IH(6), of i] Suc.prems show ?thesis by (cases "i = a") auto
  qed
  ultimately show ?case using IH by (intro exI [of _ d']) auto
qed auto

text \<open>The addresses of a region.\<close>

definition region :: "u64 \<Rightarrow> u32 \<Rightarrow> nat set" where
  "region b sz = {unat b..<unat b + unat sz}"

lemma region_inside:
  assumes "unat b + i * s + s \<le> e" and "s = unat sz" and "e < 2 ^ 64"
  shows "region (b + word_of_nat i * sz) (ucast sz) \<subseteq> {unat b + i * s..<unat b + i * s + s}"
proof -
  have "unat (b + word_of_nat i * sz) = unat b + i * s"
  proof (cases "s = 0")
    case True
    then have "sz = 0" using assms(2) by (simp add: unat_eq_0)
    with True show ?thesis by simp
  next
    case False
    then have "i * 1 \<le> i * s" by (intro mult_le_mono2) simp
    then have "i \<le> i * s" by (simp only: mult_1_right)
    then have "i < 2 ^ 64" using assms(1,3) by linarith
    then have "unat (word_of_nat i :: u64) = i" by (simp add: unsigned_of_nat take_bit_nat_eq_self)
    moreover have "i * s < 2 ^ 64" "unat b + i * s < 2 ^ 64" using assms(1,3) by simp_all
    ultimately show ?thesis using assms(2) by (simp add: unat_word_ariths)
  qed
  moreover have "unat (ucast sz :: u32) \<le> s" unfolding assms(2) by (simp add: unsigned_ucast_eq unsigned_take_bit_eq take_bit_nat_less_eq_self)
  ultimately show ?thesis by (auto simp: region_def)
qed

definition sysmem_region :: "drv_device \<Rightarrow> nat set" where
  "sysmem_region x = region (sysmem_base x) (sysmem_size x)"
definition packetmem_region :: "drv_device \<Rightarrow> nat set" where
  "packetmem_region x = region (packetmem_base x) (packetmem_size x)"

definition dma_bytes :: "u64 \<Rightarrow> u64" where
  "dma_bytes dma_size = (if dma_size = 0 then NLM_DEFAULT_DMA_MEM_SIZE else dma_size) AND PAGE_MASK"

lemma page_aligned_up:
  assumes "a AND PAGE_MASK = a" shows "(a + PAGE_SIZE - 1) AND PAGE_MASK = a"
proof -
  have a: "unat a = 4096 * (unat a div 4096)" using unat_page_mask [of a] assms by simp
  have "unat a < 2 ^ LENGTH(64)" by (rule unsigned_less)
  with a have "unat a div 4096 < 4503599627370496" by simp
  with a have "unat a + 4095 < 18446744073709551616" by linarith
  then have "unat a + 4095 < 2 ^ 64" by simp
  moreover have "unat (a + PAGE_SIZE - 1) = unat (a + 4095)" by (simp add: PAGE_SIZE_def add.commute)
  ultimately have "unat (a + PAGE_SIZE - 1) = unat a + 4095" by (simp add: unat_word_ariths)
  then have "unat ((a + PAGE_SIZE - 1) AND PAGE_MASK) = 4096 * ((unat a + 4095) div 4096)" by (simp only: unat_page_mask)
  also have "\<dots> = unat a"
  proof -
    obtain k where k: "unat a = 4096 * k" using a by blast
    show ?thesis unfolding k by simp
  qed
  finally show ?thesis by (simp only: word_unat_eq_iff)
qed

text \<open>What the two loops leave behind, in natural numbers.\<close>

lemma chunking_aligned:
  assumes n: "0 < n_devices d" "n_devices d \<le> length (device_list d)" "n_devices d < 2 ^ 32"
    and b: "pb \<noteq> 0" "ps \<noteq> 0" "pb AND PAGE_MASK = pb" "unat pb + unat ps < 2 ^ 64"
    and share: "share = 4096 * (unat ps div n_devices d div 4096)" and dma: "unat (dma_bytes ds) \<le> share"
  obtains d' S where "fixed_memory_chunking pb ps ds d = Some (0, d')" "unat S = share - unat (dma_bytes ds)"
    "\<forall>i < n_devices d. sysmem_region (device_list d' ! i) = region (pb + word_of_nat i * S) (ucast S)"
    "\<forall>i < n_devices d.
      packetmem_region (device_list d' ! i) = region (pb + word_of_nat (n_devices d) * S + word_of_nat i * dma_bytes ds) (ucast (dma_bytes ds))"
    "n_devices d' = n_devices d" "mem d' = mem d"
proof -
  let ?n = "n_devices d"
  define S where "S = ((ps div word_of_nat ?n) AND PAGE_MASK) - dma_bytes ds"
  have nw: "unat (word_of_nat ?n :: u64) = ?n" using n(3) by (simp add: unsigned_of_nat take_bit_nat_eq_self)
  have sh: "unat ((ps div word_of_nat ?n) AND PAGE_MASK) = share" by (simp add: unat_page_mask unat_div nw share)
  then have le: "\<not> (ps div word_of_nat ?n) AND PAGE_MASK < dma_bytes ds" using dma by (simp add: word_less_nat_alt)
  have S: "unat S = share - unat (dma_bytes ds)" unfolding S_def using le sh by (simp add: unat_sub_if' word_le_nat_alt not_less)
  obtain d1 where d1: "carve (set_sysmem S) [0..<0 + ?n] pb S d = Some (pb + word_of_nat ?n * S, d1)" "length (device_list d1) = length (device_list d)"
    "n_devices d1 = ?n" "mem d1 = mem d"
    "\<forall>i. device_list d1 ! i = (if 0 \<le> i \<and> i < 0 + ?n then set_sysmem S (pb + word_of_nat (i - 0) * S) (device_list d ! i) else device_list d ! i)"
    using carve_correct [of 0 ?n d "set_sysmem S" pb S] n(2) by auto
  let ?b1 = "pb + word_of_nat ?n * S" and ?D = "dma_bytes ds"
  obtain d2 where d2: "carve (set_packetmem ?D) [0..<0 + ?n] ?b1 ?D d1 = Some (?b1 + word_of_nat ?n * ?D, d2)" "n_devices d2 = ?n" "mem d2 = mem d"
    "\<forall>i. device_list d2 ! i = (if 0 \<le> i \<and> i < 0 + ?n then set_packetmem ?D (?b1 + word_of_nat (i - 0) * ?D) (device_list d1 ! i) else device_list d1 ! i)"
    using carve_correct [of 0 ?n d1 "set_packetmem ?D" ?b1 ?D] n(2) d1 by auto
  have "?n * share \<le> unat ps"
  proof -
    have "share \<le> unat ps div ?n" unfolding share by (rule times_div_less_eq_dividend)
    then have "?n * share \<le> ?n * (unat ps div ?n)" by (rule mult_le_mono2)
    also have "\<dots> \<le> unat ps" by (rule times_div_less_eq_dividend)
    finally show ?thesis .
  qed
  then have "unat pb + ?n * share \<le> unat pb + unat ps" by simp
  moreover have b2: "?b1 + word_of_nat ?n * ?D = pb + word_of_nat ?n * word_of_nat share"
  proof -
    have "S + ?D = word_of_nat share" unfolding S_def sh [symmetric] by simp
    then show ?thesis by (simp only: add.assoc distrib_left [symmetric])
  qed
  moreover have "unat (pb + word_of_nat ?n * word_of_nat share :: u64) = unat pb + ?n * share"
  proof -
    have e: "pb + word_of_nat ?n * word_of_nat share = (word_of_nat (unat pb + ?n * share) :: u64)" by simp
    have "unat (word_of_nat k :: u64) = k" if "k < 2 ^ 64" for k
      using that by (simp add: unsigned_of_nat take_bit_nat_eq_self)
    moreover have "unat pb + ?n * share < 2 ^ 64" using \<open>?n * share \<le> unat ps\<close> b(4) by linarith
    ultimately show ?thesis unfolding e by blast
  qed
  moreover have "unat (pb + ps) = unat pb + unat ps" using b(4) by (simp add: unat_word_ariths)
  ultimately have end_ok: "\<not> pb + ps < ?b1 + word_of_nat ?n * ?D" unfolding b2 word_less_nat_alt by simp
  have "fixed_memory_chunking pb ps ds d = Some (0, d2)"
    unfolding fixed_memory_chunking_def Let_def page_aligned_up [OF b(3)] dma_bytes_def [symmetric]
    using n b le d1(1) d2(1) end_ok by (simp add: S_def)
  then show thesis
    using S d1(5) d2(2-4) by (intro that [of d2 S]) (simp_all add: sysmem_region_def packetmem_region_def set_sysmem_def set_packetmem_def)
qed

lemma block_disjoint: "i \<noteq> j \<Longrightarrow> {a + i * s..<a + i * s + s} \<inter> {a + j * s..<a + j * s + s} = {}" for i j s a :: nat
proof (induction i j rule: linorder_wlog)
  case (le i j)
  then have "Suc i * s \<le> j * s" by (intro mult_le_mono1) simp
  then show ?case by auto
qed (metis Int_commute)

text \<open>C19. A page-aligned region is carved up completely or not at all: with room for the packet memory
  the call succeeds, and every device gets its system and its packet memory inside the region,
  no two of them overlapping; without room nothing is assigned.\<close>

theorem fixed_memory_chunking_layout:
  assumes n: "0 < n_devices d" "n_devices d \<le> length (device_list d)" "n_devices d < 2 ^ 32"
    and b: "pb \<noteq> 0" "ps \<noteq> 0" "pb AND PAGE_MASK = pb" "unat pb + unat ps < 2 ^ 64"
    and share: "share = 4096 * (unat ps div n_devices d div 4096)"
  shows "(share < unat (dma_bytes ds) \<longrightarrow> fixed_memory_chunking pb ps ds d = Some (- ENOMEM, d)) \<and>
    (unat (dma_bytes ds) \<le> share \<longrightarrow>
      (\<exists>d'. fixed_memory_chunking pb ps ds d = Some (0, d') \<and>
        (\<forall>i < n_devices d. \<forall>j < n_devices d.
          sysmem_region (device_list d' ! i) \<subseteq> {unat pb..<unat pb + unat ps} \<and>
          packetmem_region (device_list d' ! i) \<subseteq> {unat pb..<unat pb + unat ps} \<and>
          sysmem_region (device_list d' ! i) \<inter> packetmem_region (device_list d' ! j) = {} \<and>
          (i \<noteq> j \<longrightarrow> sysmem_region (device_list d' ! i) \<inter> sysmem_region (device_list d' ! j) = {} \<and>
             packetmem_region (device_list d' ! i) \<inter> packetmem_region (device_list d' ! j) = {}))))"
proof (intro conjI impI)
  let ?n = "n_devices d"
  have nw: "unat (word_of_nat ?n :: u64) = ?n" using n(3) by (simp add: unsigned_of_nat take_bit_nat_eq_self)
  assume "share < unat (dma_bytes ds)"
  then have "(ps div word_of_nat ?n) AND PAGE_MASK < dma_bytes ds"
    by (simp add: word_less_nat_alt unat_page_mask unat_div nw share)
  then show "fixed_memory_chunking pb ps ds d = Some (- ENOMEM, d)"
    using n b unfolding fixed_memory_chunking_def Let_def page_aligned_up [OF b(3)] dma_bytes_def [symmetric] by simp
next
  let ?n = "n_devices d" and ?B = "unat pb"
  assume le: "unat (dma_bytes ds) \<le> share"
  define D where "D = unat (dma_bytes ds)"
  obtain d' S where r: "fixed_memory_chunking pb ps ds d = Some (0, d')" "unat S = share - D"
    "\<forall>i < ?n. sysmem_region (device_list d' ! i) = region (pb + word_of_nat i * S) (ucast S)"
    "\<forall>i < ?n.
      packetmem_region (device_list d' ! i) = region (pb + word_of_nat ?n * S + word_of_nat i * dma_bytes ds) (ucast (dma_bytes ds))"
    "n_devices d' = ?n" "mem d' = mem d"
    unfolding D_def by (rule chunking_aligned [OF n b share le])
  define s where "s = unat S"
  have "share \<le> unat ps div ?n" unfolding share by (rule times_div_less_eq_dividend)
  then have "?n * share \<le> ?n * (unat ps div ?n)" by (rule mult_le_mono2)
  also have "\<dots> \<le> unat ps" by (rule times_div_less_eq_dividend)
  finally have tot: "?n * s + ?n * D \<le> unat ps"
    using le r(2) by (simp add: s_def D_def add_mult_distrib2 [symmetric])
  have step: "i * x + x \<le> ?n * x" if "i < ?n" for i x
    using mult_le_mono1 [of "Suc i" ?n x] that by simp
  have b1: "unat (pb + word_of_nat ?n * S) = ?B + ?n * s"
  proof -
    have nw: "unat (word_of_nat ?n :: u64) = ?n" using n(3) by (simp add: unsigned_of_nat take_bit_nat_eq_self)
    have lt: "?B + ?n * s < 2 ^ 64" "?n * s < 2 ^ 64" using tot b(4) by linarith+
    then show ?thesis unfolding s_def by (simp add: unat_word_ariths nw)
  qed
  have sys: "sysmem_region (device_list d' ! i) \<subseteq> {?B + i * s..<?B + i * s + s}" if "i < ?n" for i
    unfolding r(3) [rule_format, OF that] using step [OF that, of s] tot b(4) by (intro region_inside [of _ _ _ "?B + ?n * s"]) (auto simp: s_def)
  have pk: "packetmem_region (device_list d' ! i) \<subseteq> {?B + ?n * s + i * D..<?B + ?n * s + i * D + D}" if "i < ?n" for i
    unfolding r(4) [rule_format, OF that] b1 [symmetric] using step [OF that, of D] tot b(4) b1
    by (intro region_inside [of _ _ _ "?B + ?n * s + ?n * D"]) (auto simp: D_def)
  have "sysmem_region (device_list d' ! i) \<subseteq> {?B..<?B + unat ps} \<and> packetmem_region (device_list d' ! i) \<subseteq> {?B..<?B + unat ps} \<and>
      sysmem_region (device_list d' ! i) \<inter> packetmem_region (device_list d' ! j) = {} \<and>
      (i \<noteq> j \<longrightarrow> sysmem_region (device_list d' ! i) \<inter> sysmem_region (device_list d' ! j) = {} \<and>
         packetmem_region (device_list d' ! i) \<inter> packetmem_region (device_list d' ! j) = {})" if ij: "i < ?n" "j < ?n" for i j
  proof (intro conjI impI)
    show "sysmem_region (device_list d' ! i) \<subseteq> {?B..<?B + unat ps}"
      by (rule order_trans [OF sys [OF ij(1)]]) (use step [OF ij(1), of s] tot in auto)
    show "packetmem_region (device_list d' ! i) \<subseteq> {?B..<?B + unat ps}"
      by (rule order_trans [OF pk [OF ij(1)]]) (use step [OF ij(1), of D] tot in auto)
    have "{?B + i * s..<?B + i * s + s} \<inter> {?B + ?n * s + j * D..<?B + ?n * s + j * D + D} = {}"
      using step [OF ij(1), of s] by auto
    then show "sysmem_region (device_list d' ! i) \<inter> packetmem_region (device_list d' ! j) = {}"
      using sys [OF ij(1)] pk [OF ij(2)] by blast
    assume "i \<noteq> j"
    then show "sysmem_region (device_list d' ! i) \<inter> sysmem_region (device_list d' ! j) = {}"
      "packetmem_region (device_list d' ! i) \<inter> packetmem_region (device_list d' ! j) = {}"
      using sys [OF ij(1)] sys [OF ij(2)] pk [OF ij(1)] pk [OF ij(2)] block_disjoint [of i j ?B s] block_disjoint [of i j "?B + ?n * s" D] by blast+
  qed
  with r(1) show "\<exists>d'. fixed_memory_chunking pb ps ds d = Some (0, d') \<and> (\<forall>i < ?n. \<forall>j < ?n.
      sysmem_region (device_list d' ! i) \<subseteq> {?B..<?B + unat ps} \<and> packetmem_region (device_list d' ! i) \<subseteq> {?B..<?B + unat ps} \<and>
      sysmem_region (device_list d' ! i) \<inter> packetmem_region (device_list d' ! j) = {} \<and>
      (i \<noteq> j \<longrightarrow> sysmem_region (device_list d' ! i) \<inter> sysmem_region (device_list d' ! j) = {} \<and>
         packetmem_region (device_list d' ! i) \<inter> packetmem_region (device_list d' ! j) = {}))" by blast
qed

text \<open>The final check compares with the unaligned start of the region but the shortened size, so a
  region with an unaligned start that is used up completely is refused although everything fits.\<close>

theorem fixed_memory_chunking_unaligned:
  assumes n: "n_devices d = 1" "1 \<le> length (device_list d)" and b: "b AND PAGE_MASK = b" "0 < k" "k < 4096" "k < unat b"
    and m: "m AND PAGE_MASK = m" "m \<noteq> 0" "dma_bytes ds \<le> m" "unat b + unat m < 2 ^ 64"
  shows "\<exists>d'. fixed_memory_chunking (b - word_of_nat k) (word_of_nat k + m) ds d = Some (- EFAULT, d') \<and>
    sysmem_region (device_list d' ! 0) \<union> packetmem_region (device_list d' ! 0) \<subseteq> {unat b..<unat b + unat m}"
proof -
  let ?pb = "b - word_of_nat k" and ?D = "dma_bytes ds"
  have k: "unat (word_of_nat k :: u64) = k" using b(3) by (simp add: unsigned_of_nat take_bit_nat_eq_self)
  have pb: "unat ?pb = unat b - k" using b(4) k by (simp add: unat_sub_if')
  obtain q where q: "unat b = 4096 * q" using unat_page_mask [of b] b(1) by auto
  have "unat b < 2 ^ 64" using m(4) by linarith
  then have "q < 4503599627370496" using q by simp
  then have "unat ?pb + 4095 < 18446744073709551616" using b(2,4) pb q by linarith
  then have "unat (?pb + PAGE_SIZE - 1) = unat ?pb + 4095"
    by (simp add: PAGE_SIZE_def unat_word_ariths add_diff_eq [symmetric])
  then have "unat ((?pb + PAGE_SIZE - 1) AND PAGE_MASK) = 4096 * ((unat b - k + 4095) div 4096)" by (simp only: unat_page_mask pb)
  also have "(unat b - k + 4095) div 4096 = q"
  proof -
    have "unat b - k + 4095 = 4096 * q + (4095 - k)" using b(2-4) q by linarith
    then show ?thesis by simp
  qed
  finally have base: "(?pb + PAGE_SIZE - 1) AND PAGE_MASK = b" using q by (simp only: word_unat_eq_iff)
  have ne: "?pb \<noteq> 0" "b \<noteq> ?pb" "word_of_nat k + m \<noteq> 0"
  proof -
    show "?pb \<noteq> 0" using pb b(4) by (metis diff_is_0_eq not_le unat_0)
    show "b \<noteq> ?pb" using pb b(2,4) by (metis diff_less gr_implies_not0 less_irrefl neq0_conv not_less_zero)
    have "unat (word_of_nat k + m) = k + unat m" using m(4) b(4) k by (simp add: unat_word_ariths)
    then show "word_of_nat k + m \<noteq> 0" using b(2) by (metis add_is_0 less_irrefl unat_0)
  qed
  let ?d1 = "d\<lparr>device_list := (device_list d)[0 := set_sysmem (m - ?D) b (device_list d ! 0)]\<rparr>"
  let ?d2 = "?d1\<lparr>device_list := (device_list ?d1)[0 := set_packetmem ?D (b + (m - ?D)) (device_list ?d1 ! 0)]\<rparr>"
  have bm: "unat (b + m) = unat b + unat m" using m(4) by (simp add: unat_word_ariths)
  have "unat (?pb + m) = unat b - k + unat m" using m(4) pb b(4) by (simp add: unat_word_ariths)
  then have lt: "?pb + m < b + m" using bm b(2,4) by (simp add: word_less_nat_alt)
  have "fixed_memory_chunking ?pb (word_of_nat k + m) ds d = Some (- EFAULT, ?d2)"
  proof -
    have "device_list d \<noteq> []" "\<not> m < ?D" using n(2) m(3) by auto
    then show ?thesis
      unfolding fixed_memory_chunking_def Let_def base dma_bytes_def [symmetric]
      using n(1) ne m(1,2) lt by (simp add: upd_device_def)
  qed
  moreover have D: "unat (m - ?D) = unat m - unat ?D" "unat ?D \<le> unat m" using m(3) by (simp_all add: unat_sub word_le_nat_alt)
  have one: "region a (ucast sz) \<subseteq> {unat a..<unat a + unat sz}" if "unat a + unat sz \<le> unat b + unat m" for a sz :: u64
    using region_inside [of a 0 "unat sz" "unat b + unat m" sz] that m(4) by simp
  have "region b (ucast (m - ?D)) \<subseteq> {unat b..<unat b + unat m}"
    by (rule order_trans [OF one]) (simp_all add: D)
  moreover have "unat (b + (m - ?D)) = unat b + (unat m - unat ?D)"
  proof -
    have "unat b + (unat m - unat ?D) < 2 ^ 64" using m(4) by linarith
    then show ?thesis by (simp add: unat_word_ariths D)
  qed
  then have "region (b + (m - ?D)) (ucast ?D) \<subseteq> {unat b..<unat b + unat m}"
    by (intro order_trans [OF one]) (use D in auto)
  moreover have "0 < length (device_list d)" using n(2) by linarith
  ultimately show ?thesis
    by (intro exI [of _ ?d2]) (simp add: sysmem_region_def packetmem_region_def set_sysmem_def set_packetmem_def)
qed

section \<open>The table of devices\<close>

lemma add_device_bounds:
  "n_devices d < length (device_list d) \<Longrightarrow>
   \<exists>d'. add_device ty a l d = Some d' \<and> n_devices d' = n_devices d + 1 \<and> length (device_list d') = length (device_list d) \<and>
     (\<forall>i < n_devices d. device_list d' ! i = device_list d ! i) \<and> dd_type (device_list d' ! n_devices d) = ty \<and>
     regmap_base (device_list d' ! n_devices d) = a"
  by (simp add: add_device_def upd_device_def)

lemma add_devices_bounds:
  "n_devices d + k \<le> length (device_list d) \<Longrightarrow>
   \<exists>d'. add_devices k ty a l d = Some d' \<and> n_devices d' = n_devices d + k \<and> length (device_list d') = length (device_list d) \<and>
     (\<forall>i < n_devices d. device_list d' ! i = device_list d ! i) \<and>
     (\<forall>i. n_devices d \<le> i \<and> i < n_devices d + k \<longrightarrow> dd_type (device_list d' ! i) = ty \<and> regmap_base (device_list d' ! i) = a)"
proof (induction k arbitrary: d)
  case (Suc k)
  obtain d1 where d1: "add_device ty a l d = Some d1" "n_devices d1 = n_devices d + 1" "length (device_list d1) = length (device_list d)"
    "\<forall>i < n_devices d. device_list d1 ! i = device_list d ! i" "dd_type (device_list d1 ! n_devices d) = ty"
    "regmap_base (device_list d1 ! n_devices d) = a"
    using add_device_bounds [of d ty a l] Suc.prems by auto
  obtain d2 where d2: "add_devices k ty a l d1 = Some d2" "n_devices d2 = n_devices d1 + k" "length (device_list d2) = length (device_list d1)"
    "\<forall>i < n_devices d1. device_list d2 ! i = device_list d1 ! i"
    "\<forall>i. n_devices d1 \<le> i \<and> i < n_devices d1 + k \<longrightarrow> dd_type (device_list d2 ! i) = ty \<and> regmap_base (device_list d2 ! i) = a"
    using Suc.IH [of d1] Suc.prems d1 by auto
  have "dd_type (device_list d2 ! i) = ty \<and> regmap_base (device_list d2 ! i) = a" if "n_devices d \<le> i" "i < n_devices d + Suc k" for i
    using that d1 d2 by (cases "i = n_devices d") auto
  with d1 d2 show ?case by (intro exI [of _ d2]) auto
qed auto

text \<open>Whatever is on the bus, probing stays inside of the table of sixteen devices, keeps the devices it
  found before, and gives every ring of a device it accepts a slot of its own with the type and
  the registers of that device.\<close>

theorem nlm_pci_probe_bounds:
  assumes "length (device_list d) = MAX_DEVICES" and "n_devices d \<le> MAX_DEVICES"
  shows "\<exists>st d'. nlm_pci_probe pdev d = Some (st, d') \<and> length (device_list d') = MAX_DEVICES \<and> n_devices d' \<le> MAX_DEVICES \<and>
    n_devices d \<le> n_devices d' \<and> (\<forall>i < n_devices d. device_list d' ! i = device_list d ! i) \<and>
    (st = 0 \<longrightarrow> (\<exists>p ty. pdev = Some p \<and> type_of_id (pci_id p) = Some ty \<and>
       n_devices d' = n_devices d + (if ty = NLM_DEVICE_FAMOS then 6 else if ty = NLM_DEVICE_XAUIEX2 then 2 else 1) \<and>
       (\<forall>i. n_devices d \<le> i \<and> i < n_devices d' \<longrightarrow> dd_type (device_list d' ! i) = ty \<and> regmap_base (device_list d' ! i) = pci_start p)))"
proof (cases "MAX_DEVICES \<le> n_devices d \<or> pdev = None \<or> \<not> pci_enable (the pdev) \<or> type_of_id (pci_id (the pdev)) = None")
  case True
  then have "nlm_pci_probe pdev d = Some (- EINVAL, d)" by (auto simp: nlm_pci_probe_def split: option.splits)
  with assms show ?thesis by (simp add: EINVAL_def)
next
  case False
  then obtain p ty where p: "pdev = Some p" "pci_enable p" "type_of_id (pci_id p) = Some ty" "n_devices d < MAX_DEVICES" by auto
  obtain d1 where d1: "add_device ty (pci_start p) (pci_len p) d = Some d1" "n_devices d1 = n_devices d + 1" "length (device_list d1) = MAX_DEVICES"
    "\<forall>i < n_devices d. device_list d1 ! i = device_list d ! i" "dd_type (device_list d1 ! n_devices d) = ty"
    "regmap_base (device_list d1 ! n_devices d) = pci_start p"
    using add_device_bounds [of d ty "pci_start p" "pci_len p"] assms(1) p(4) by auto
  let ?k = "(if ty = NLM_DEVICE_FAMOS then 5 else if ty = NLM_DEVICE_XAUIEX2 then 1 else 0) :: nat"
  have more: "nlm_pci_probe pdev d =
      (if ?k \<noteq> 0 \<and> MAX_DEVICES \<le> n_devices d1 + ?k then Some (- EINVAL, d1)
       else map_option (\<lambda>d2. (0, d2)) (add_devices ?k ty (pci_start p) (pci_len p) d1))"
    using p d1(1) by (simp add: nlm_pci_probe_def)
  show ?thesis
  proof (cases "?k \<noteq> 0 \<and> MAX_DEVICES \<le> n_devices d1 + ?k")
    case True
    with more d1 p(4) show ?thesis by (intro exI [of _ "- EINVAL"] exI [of _ d1]) (simp add: EINVAL_def)
  next
    case False
    have le: "n_devices d1 + ?k \<le> length (device_list d1)" using False d1 p(4) by (cases "?k = 0") auto
    obtain d2 where d2: "add_devices ?k ty (pci_start p) (pci_len p) d1 = Some d2" "n_devices d2 = n_devices d1 + ?k"
      "length (device_list d2) = length (device_list d1)" "\<forall>i < n_devices d1. device_list d2 ! i = device_list d1 ! i"
      "\<forall>i. n_devices d1 \<le> i \<and> i < n_devices d1 + ?k \<longrightarrow> dd_type (device_list d2 ! i) = ty \<and> regmap_base (device_list d2 ! i) = pci_start p"
      using add_devices_bounds [OF le] by blast
    have r: "nlm_pci_probe pdev d = Some (0, d2)" unfolding more if_not_P [OF False] d2(1) by simp
    have "dd_type (device_list d2 ! i) = ty \<and> regmap_base (device_list d2 ! i) = pci_start p" if "n_devices d \<le> i" "i < n_devices d2" for i
      using that d1 d2 by (cases "i = n_devices d") auto
    moreover have "n_devices d2 = n_devices d + (if ty = NLM_DEVICE_FAMOS then 6 else if ty = NLM_DEVICE_XAUIEX2 then 2 else 1)"
      using d1(2) d2(2) by simp
    ultimately show ?thesis
      using r p d1 d2 le by (intro exI [of _ 0] exI [of _ d2]) simp
  qed
qed

section \<open>Entries for a refused device\<close>

lemma make_entry_types:
  "make_entry create nm i d = Some (ok, d') \<Longrightarrow> length (device_list d') = length (device_list d) \<and>
     (\<forall>t. dd_type (device_list d' ! t) = dd_type (device_list d ! t))"
  by (auto simp: make_entry_def upd_device_def nth_list_update split: if_splits)

lemma make_rings_overflow:
  "length (device_list d) < i + length js \<Longrightarrow> i \<le> length (device_list d) \<Longrightarrow> make_rings (\<lambda>_. True) pre js i d = None"
proof (induction js arbitrary: i d)
  case (Cons j js)
  show ?case
  proof (cases "i < length (device_list d)")
    case True
    then obtain d1 where e: "make_entry (\<lambda>_. True) (pre @ ''.r'' @ dec j) i d = Some (True, d1)"
      by (simp add: make_entry_def upd_device_def)
    with Cons True make_entry_types [OF e] show ?thesis by simp
  next
    case False
    then show ?thesis by (simp add: make_entry_def upd_device_def)
  qed
qed simp

lemma create_singles:
  assumes "i + j \<le> n_devices d" and "i + j \<le> length (device_list d)" and "\<forall>t. i \<le> t \<and> t < i + j \<longrightarrow> dd_type (device_list d ! t) = NLM_DEVICE_MARS1"
  shows "\<exists>c' d'. create_loop (\<lambda>_. True) i c d = create_loop (\<lambda>_. True) (i + j) c' d' \<and> n_devices d' = n_devices d \<and>
    length (device_list d') = length (device_list d) \<and> (\<forall>t. dd_type (device_list d' ! t) = dd_type (device_list d ! t))"
  using assms
proof (induction j arbitrary: i c d)
  case 0
  then show ?case by auto
next
  case (Suc j)
  let ?nm = "''mars1.'' @ dec (mars1_id c)"
  obtain d1 where e: "make_entry (\<lambda>_. True) ?nm i d = Some (True, d1)"
    using Suc.prems by (simp add: make_entry_def upd_device_def)
  note T = make_entry_types [OF e] make_entry_frame [OF e]
  have "create_loop (\<lambda>_. True) i c d = create_loop (\<lambda>_. True) (Suc i) (c\<lparr>mars1_id := Suc (mars1_id c)\<rparr>) d1"
    using Suc.prems e by (subst create_loop.simps) (simp add: create_step_def Let_def)
  moreover have pre: "Suc i + j \<le> n_devices d1" "Suc i + j \<le> length (device_list d1)"
    "\<forall>t. Suc i \<le> t \<and> t < Suc i + j \<longrightarrow> dd_type (device_list d1 ! t) = NLM_DEVICE_MARS1"
    using Suc.prems T by simp_all
  obtain c' d' where "create_loop (\<lambda>_. True) (Suc i) (c\<lparr>mars1_id := Suc (mars1_id c)\<rparr>) d1 = create_loop (\<lambda>_. True) (Suc i + j) c' d'"
    "n_devices d' = n_devices d1" "length (device_list d') = length (device_list d1)" "\<forall>t. dd_type (device_list d' ! t) = dd_type (device_list d1 ! t)"
    using Suc.IH [OF pre] by blast
  ultimately show ?case using T by (intro exI [of _ c'] exI [of _ d']) simp
qed

text \<open>A FAMOS device that is refused for lack of six slots keeps the slot it already took. When the
  entries are created, the loop takes six slots for it nevertheless and writes behind the end of
  the table.\<close>

theorem create_proc_entries_overflow:
  assumes "length (device_list d) = MAX_DEVICES" and "11 \<le> n_devices d" and "n_devices d < MAX_DEVICES"
    and "\<forall>t < n_devices d. dd_type (device_list d ! t) = NLM_DEVICE_MARS1" and "pci_enable p" and "pci_id p = 10"
  shows "\<exists>d1. nlm_pci_probe (Some p) d = Some (- EINVAL, d1) \<and> create_proc_entries True (\<lambda>_. True) d1 = None"
proof -
  let ?n = "n_devices d"
  obtain d1 where d1: "add_device NLM_DEVICE_FAMOS (pci_start p) (pci_len p) d = Some d1" "n_devices d1 = ?n + 1"
    "length (device_list d1) = length (device_list d)" "\<forall>i < ?n. device_list d1 ! i = device_list d ! i"
    "dd_type (device_list d1 ! ?n) = NLM_DEVICE_FAMOS"
    using add_device_bounds [of d NLM_DEVICE_FAMOS "pci_start p" "pci_len p"] assms(1,3) by auto
  have "nlm_pci_probe (Some p) d = Some (- EINVAL, d1)"
    using assms d1(1,2) by (simp add: nlm_pci_probe_def type_of_id_def MAX_DEVICES_def)
  moreover have "create_loop (\<lambda>_. True) 0 c d1 = None" for c
  proof -
    obtain c' d' where l: "create_loop (\<lambda>_. True) 0 c d1 = create_loop (\<lambda>_. True) (0 + ?n) c' d'" "n_devices d' = n_devices d1"
      "length (device_list d') = length (device_list d1)" "\<forall>t. dd_type (device_list d' ! t) = dd_type (device_list d1 ! t)"
      using create_singles [of 0 ?n d1 c] assms d1 by auto
    have "make_rings (\<lambda>_. True) pre [0..<6] ?n d' = None" for pre
      using assms(1-3) l(3) d1(3) by (intro make_rings_overflow) (simp_all add: MAX_DEVICES_def)
    then have "create_loop (\<lambda>_. True) (0 + ?n) c' d' = None"
      using l d1 by (subst create_loop.simps) (simp add: create_step_def Let_def)
    with l(1) show ?thesis by simp
  qed
  then have "create_proc_entries True (\<lambda>_. True) d1 = None" by (simp add: create_proc_entries_def)
  ultimately show ?thesis by blast
qed

section \<open>Memory found at run time\<close>

text \<open>The kernel maps physical memory in one piece.\<close>

definition linear_map :: "kmem \<Rightarrow> bool" where
  "linear_map m \<longleftrightarrow> (\<forall>a b. unat a + unat b < 2 ^ 64 \<longrightarrow> phys_to_virt_k m (a + b) = phys_to_virt_k m a + uint b)"

definition requested_size :: "driver \<Rightarrow> u64" where
  "requested_size d = PAGE_ALIGN (if fixed_phys_size d = 0 then NLM_DEFAULT_PHYS_MEM_SIZE else fixed_phys_size d)"

lemma requested_pages: "unat (requested_size d) = 4096 * (unat (requested_size d) div 4096)"
  unfolding requested_size_def PAGE_ALIGN_def unat_page_mask by simp

lemma unat_bytes:
  assumes "0 \<le> n" and "n < 2 ^ 40" shows "unat (word_of_int n * PAGE_SIZE) = 4096 * nat n"
proof -
  have "unat (word_of_int n :: u64) = nat n" using assms by (simp add: unsigned_of_int take_bit_int_eq_self)
  then show ?thesis using assms by (simp add: PAGE_SIZE_def unat_word_ariths)
qed

lemma run_mem: "i < n \<Longrightarrow> a + word_of_nat i * PAGE_SIZE \<in> set (run a n)"
  by (auto simp: run_def)

text \<open>The rest of a chunk becomes a chunk of its own.\<close>

lemma split_chunk:
  assumes lin: "linear_map m" and p: "p + uint sz = r" "phys_to_virt_k m (virt_to_phys_k m p) = p"
    and sz: "unat sz = 4096 * k" "k < n" "k < 2 ^ 40" and run: "set (run (virt_to_phys_k m p) n) \<subseteq> P" and P: "\<forall>a \<in> P. unat a < 2 ^ 63" "\<forall>a \<in> P. \<exists>v. v \<noteq> NULL \<and> phys_to_virt_k m a = v \<and> virt_to_phys_k m v = a"
  shows "r \<noteq> NULL" "virt_to_phys_k m r = virt_to_phys_k m p + sz" "virt_to_phys_k m r \<in> set (run (virt_to_phys_k m p) n)"
    "run (virt_to_phys_k m p) n = run (virt_to_phys_k m p) k @ run (virt_to_phys_k m p + sz) (n - k)"
proof -
  let ?a = "virt_to_phys_k m p"
  have "sz = word_of_nat (4096 * k)" unfolding sz(1) [symmetric] by simp
  then have w: "sz = word_of_nat k * PAGE_SIZE" by (simp add: PAGE_SIZE_def)
  have in_run: "?a + sz \<in> set (run ?a n)" unfolding w using sz(2) by (rule run_mem)
  have "?a \<in> set (run ?a n)" using sz(2) by (intro run_hd) simp
  then have "unat ?a < 2 ^ 63" using run P(1) by blast
  show r: "run ?a n = run ?a k @ run (?a + sz) (n - k)"
    using run_add [of ?a k "n - k"] sz(2) unfolding w by simp
  have "unat ?a + unat sz < 2 ^ 64" using \<open>unat ?a < 2 ^ 63\<close> sz(1,3) by simp
  then have "phys_to_virt_k m (?a + sz) = r" using lin p by (simp add: linear_map_def)
  with in_run run P(2) show "r \<noteq> NULL" "virt_to_phys_k m r = ?a + sz" by (metis subsetD)+
  with in_run show "virt_to_phys_k m r \<in> set (run ?a n)" by simp
qed

text \<open>C17. When the driver looks for memory at run time and finds a chunk that is large enough, it keeps
  exactly the pages of the requested size at the start of the largest chunk, divides them among
  the devices, and gives every other page back to the kernel.\<close>

theorem dynamic_memory_init_conserves:
  assumes "fixed_phys_base d = 0" and k: "scratch_ok (mem d)" "kernel_ok (mem d)" "linear_map (mem d)"
    and len: "length (avail (mem d)) mod max_index \<noteq> 0" "length (avail (mem d)) < 2 ^ 40"
    and phys: "\<forall>p \<in> set (avail (mem d)). unat (virt_to_phys_k (mem d) p) < 2 ^ 63"
    and found: "find_free_chunks (mem d) = Some (0, c, m)" "c \<noteq> NULL" "requested_size d \<le> word_of_int (npages_of m c) * PAGE_SIZE"
  shows "\<exists>m' fr. memory_manager_init d =
      fixed_memory_chunking (virt_to_phys_k (mem d) c) (requested_size d) (dmamem_size d) (upd_mem m' d) \<and>
    freed m' = freed (mem d) @ fr \<and>
    mset (run (virt_to_phys_k (mem d) c) (unat (requested_size d) div 4096) @ map (virt_to_phys_k (mem d)) fr) =
      mset (map (virt_to_phys_k (mem d)) (avail (mem d)))"
proof -
  let ?v = "virt_to_phys_k (mem d)" and ?u = "phys_to_virt_k (mem d)" and ?sz = "requested_size d"
  define P where "P = set (map ?v (avail (mem d)))"
  obtain gs fr where sp: "chain (next_of m) c gs" "\<forall>c \<in> set gs. 512 \<le> npages_of m c" "freed m = freed (mem d) @ fr"
    "mset (pages_of m gs @ map ?v fr) = mset (map ?v (avail (mem d)))" "distinct gs" "\<forall>c \<in> set gs. ?u (?v c) = c"
    "virt_to_phys_k m = ?v" "phys_to_virt_k m = ?u"
    using find_free_chunks_spec [OF k(1,2) len(1)] found(1) by auto
  obtain gs' where gs: "gs = c # gs'" "chain (next_of m) (next_of m c) gs'" using chain_head [OF sp(1) found(2)] by blast
  define n where "n = nat (npages_of m c)"
  have np: "npages_of m c = int n" "512 \<le> n" using sp(2) gs by (auto simp: n_def)
  have pages: "pages_of m gs = run (?v c) n @ pages_of m gs'" by (simp add: gs pages_of_def chunk_pages_def sp(7) n_def)
  have "length (pages_of m gs @ map ?v fr) = length (avail (mem d))" using sp(4) by (metis length_map size_mset)
  then have "n < 2 ^ 40" using pages len(2) by simp
  then have bytes: "unat (word_of_int (npages_of m c) * PAGE_SIZE) = 4096 * n" using unat_bytes [of "npages_of m c"] np by simp
  define q where "q = unat ?sz div 4096"
  have q: "unat ?sz = 4096 * q" unfolding q_def by (rule requested_pages)
  have qn: "q \<le> n" using found(3) bytes q by (simp add: word_le_nat_alt)
  have sub: "set (pages_of m gs) \<subseteq> P" using mset_eq_setD [OF sp(4)] by (auto simp: P_def)
  have inv: "?v (?u a) = a" "?u a \<noteq> NULL" if "a \<in> P" for a using that k(2) by (auto simp: P_def kernel_ok_def)
  have frees: "map ?v (map ?u (pages_of m gs')) = pages_of m gs'"
    unfolding map_map using sub inv pages by (intro map_idI) auto
  have init: "memory_manager_init d = dynamic_memory_init d" using assms(1) by (simp add: memory_manager_init_def)
  show ?thesis
  proof (cases "q = n")
    case True
    let ?m = "m\<lparr>freed := freed m @ map ?u (pages_of m gs')\<rparr>"
    have "word_of_int (npages_of m c) * PAGE_SIZE = ?sz" using bytes q True by (simp add: word_unat_eq_iff)
    moreover have "release_chunks (next_of m c) m = Some ?m" using release_chunks_correct [OF gs(2)] sp(8) by simp
    ultimately have "dynamic_memory_init d = fixed_memory_chunking (?v c) ?sz (dmamem_size d) (upd_mem ?m d)"
      using found(1,2) sp(7)
      by (simp add: dynamic_memory_init_def Let_def requested_size_def [symmetric] npages_of_def next_of_def)
    moreover have "mset (run (?v c) q @ map ?v (fr @ map ?u (pages_of m gs'))) = mset (map ?v (avail (mem d)))"
      unfolding sp(4) [symmetric] pages True map_append frees by (simp add: ac_simps)
    ultimately show ?thesis
      unfolding init q_def [symmetric] using sp(3) by (intro exI [of _ ?m] exI [of _ "fr @ map ?u (pages_of m gs')"]) simp
  next
    case False
    then have lt: "q < n" using qn by simp
    let ?r = "c + uint ?sz"
    let ?m1 = "set_desc ?r (next_of m c) (int (n - q)) m"
    have run_sub: "set (run (?v c) n) \<subseteq> P" using sub pages by simp
    have P: "\<forall>a \<in> P. unat a < 2 ^ 63" "\<forall>a \<in> P. \<exists>v. v \<noteq> NULL \<and> phys_to_virt_k m a = v \<and> virt_to_phys_k m v = a"
      using phys inv by (auto simp: P_def sp(7,8))
    have pre: "linear_map m" "phys_to_virt_k m (virt_to_phys_k m c) = c" "set (run (virt_to_phys_k m c) n) \<subseteq> P" "q < 2 ^ 40"
      using k(3) sp(6) gs(1) run_sub lt \<open>n < 2 ^ 40\<close> by (simp_all add: linear_map_def sp(7,8))
    note S = split_chunk [OF pre(1) refl pre(2) q lt pre(4,3) P, unfolded sp(7)]
    have dist: "distinct (pages_of m gs)"
      using k(2) mset_eq_imp_distinct_iff [OF sp(4)] by (simp add: kernel_ok_def)
    have new: "?r \<notin> set gs'"
    proof
      assume r: "?r \<in> set gs'"
      then have "0 < npages_of m ?r" using sp(2) gs(1) by auto
      then have "?v ?r \<in> set (chunk_pages m ?r)" unfolding chunk_pages_def sp(7) by (intro run_hd) simp
      then have "?v ?r \<in> set (pages_of m gs')" using r by (auto simp: pages_of_def)
      with S(3) dist pages show False by auto
    qed
    have "chain (next_of ?m1) (next_of m c) gs' = chain (next_of m) (next_of m c) gs'" using new by (intro chain_cong) auto
    then have ch: "chain (next_of ?m1) ?r (?r # gs')" using gs(2) S(1) by simp
    have "pages_of ?m1 gs' = pages_of m gs'" using new by (intro pages_of_cong) auto
    then have pg: "pages_of ?m1 (?r # gs') = run (?v c + ?sz) (n - q) @ pages_of m gs'"
      by (simp add: pages_of_def chunk_pages_def sp(7) S(2))
    let ?fr = "map ?u (pages_of ?m1 (?r # gs'))"
    let ?m2 = "?m1\<lparr>freed := freed ?m1 @ map (phys_to_virt_k ?m1) (pages_of ?m1 (?r # gs'))\<rparr>"
    have rel: "release_chunks ?r ?m1 = Some ?m2" by (rule release_chunks_correct [OF ch])
    have "unat ?sz < unat (word_of_int (npages_of m c) * PAGE_SIZE)" using bytes q lt by simp
    then have ne: "word_of_int (npages_of m c) * PAGE_SIZE \<noteq> ?sz" "?sz < word_of_int (npages_of m c) * PAGE_SIZE"
      by (auto simp: word_less_nat_alt)
    have "uint (?sz div PAGE_SIZE) = int q"
    proof -
      have "unat (?sz div PAGE_SIZE) = q" by (simp add: unat_div PAGE_SIZE_def q_def)
      then show ?thesis by (metis uint_nat)
    qed
    then have cnt: "npages_of m c - uint (?sz div PAGE_SIZE) = int (n - q)" using np lt by simp
    have dyn: "dynamic_memory_init d = fixed_memory_chunking (?v c) ?sz (dmamem_size d) (upd_mem ?m2 d)"
      using found(1,2) ne rel cnt
      by (simp add: dynamic_memory_init_def Let_def requested_size_def [symmetric] npages_of_def next_of_def sp(7))
    have "set (run (?v c + ?sz) (n - q) @ pages_of m gs') \<subseteq> P" using sub pages S(4) by auto
    then have frees2: "map ?v ?fr = run (?v c + ?sz) (n - q) @ pages_of m gs'"
      unfolding map_map pg using inv by (intro map_idI) auto
    have "mset (run (?v c) q @ map ?v (fr @ ?fr)) = mset (map ?v (avail (mem d)))"
      unfolding sp(4) [symmetric] pages S(4) map_append frees2 by (simp add: ac_simps)
    moreover have "freed ?m2 = freed (mem d) @ fr @ ?fr" using sp(3,8) by (simp add: set_desc_def)
    ultimately show ?thesis
      unfolding init q_def [symmetric] dyn by blast
  qed
qed

section \<open>Examples\<close>

definition driver0 :: "nat \<Rightarrow> kmem \<Rightarrow> driver" where
  "driver0 n m = \<lparr>device_list = replicate 16 (drv_device_zero\<lparr>dd_type := NLM_DEVICE_MARS1\<rparr>), n_devices = n, fixed_phys_base = 0,
     fixed_phys_size = 1, dmamem_size = 0, procs = [], mem = m\<rparr>"

lemma driver0_sel [simp]:
  "device_list (driver0 n m) = replicate 16 (drv_device_zero\<lparr>dd_type := NLM_DEVICE_MARS1\<rparr>)" "n_devices (driver0 n m) = n"
  "fixed_phys_base (driver0 n m) = 0" "fixed_phys_size (driver0 n m) = 1" "mem (driver0 n m) = m"
  by (simp_all add: driver0_def)

theorem nlm_device_open_exclusive_witness:
  "\<exists>d hs. (file_step 3)\<^sup>*\<^sup>* (driver0 6 (kmem0 []), []) (d, hs) \<and> hs = [7] \<and>
     nlm_device_open (Some 3) True 8 0 d = Some (- EBUSY, None, d)"
proof -
  let ?d = "driver0 6 (kmem0 [])"
  obtain d where d: "nlm_device_open (Some 3) True 7 0 ?d = Some (0, Some 3, d)"
    by (simp add: nlm_device_open_def upd_device_def drv_device_zero_def)
  then have "file_step 3 (?d, []) (d, [7])" by (rule file_step.opened) simp_all
  then have "(file_step 3)\<^sup>*\<^sup>* (?d, []) (d, [7])" by (rule r_into_rtranclp)
  with nlm_device_open_exclusive [OF this, of 8] show ?thesis by (auto simp: drv_device_zero_def)
qed

theorem nlm_device_close_shares_witness:
  "\<exists>d1 d2 d3 d4. nlm_device_open (Some 3) True 7 0 (driver0 6 (kmem0 [])) = Some (0, Some 3, d1) \<and>
     nlm_device_open (Some 3) True 7 0 d1 = Some (0, Some 3, d2) \<and> nlm_device_close (Some 3) True 0 d2 = Some (0, d3) \<and>
     nlm_device_open (Some 3) True 8 0 d3 = Some (0, Some 3, d4)"
  using nlm_device_close_shares [of 3 "driver0 6 (kmem0 [])" 7 8 0] by (simp add: drv_device_zero_def)

theorem fixed_memory_chunking_layout_witness:
  "\<exists>d'. fixed_memory_chunking 0x10000000 0x1000000 0 (driver0 6 (kmem0 [])) = Some (0, d') \<and>
     sysmem_region (device_list d' ! 0) \<inter> sysmem_region (device_list d' ! 1) = {}"
proof -
  let ?d = "driver0 6 (kmem0 [])"
  have m: "PAGE_MASK = 0xFFFFFFFFFFFFF000" by (simp add: PAGE_MASK_def PAGE_SIZE_def)
  have dma: "unat (dma_bytes 0) = 0x200000" by (simp add: dma_bytes_def NLM_DEFAULT_DMA_MEM_SIZE_def m)
  have sh: "(0x2AA000 :: nat) = 4096 * (unat (0x1000000 :: u64) div n_devices ?d div 4096)" by simp
  show ?thesis
    using fixed_memory_chunking_layout [OF _ _ _ _ _ _ _ sh, of "0x10000000" 0] dma by (auto simp: m)
qed

theorem fixed_memory_chunking_unaligned_witness:
  "\<exists>d'. fixed_memory_chunking 0x0FFFF800 0x1000800 0 (driver0 1 (kmem0 [])) = Some (- EFAULT, d') \<and>
     sysmem_region (device_list d' ! 0) \<subseteq> {0x10000000..<0x11000000}"
proof -
  have m: "PAGE_MASK = 0xFFFFFFFFFFFFF000" by (simp add: PAGE_MASK_def PAGE_SIZE_def)
  have dma: "dma_bytes 0 = 0x200000" by (simp add: dma_bytes_def NLM_DEFAULT_DMA_MEM_SIZE_def m)
  show ?thesis
    using fixed_memory_chunking_unaligned [of "driver0 1 (kmem0 [])" "0x10000000" "0x800" "0x1000000" 0] by (auto simp: m dma)
qed

theorem nlm_pci_probe_bounds_witness:
  "\<exists>st d'. nlm_pci_probe (Some \<lparr>pci_id = 10, pci_enable = True, pci_start = 0x1000, pci_len = 0x100\<rparr>) (driver0 4 (kmem0 [])) = Some (st, d') \<and>
     n_devices d' \<le> 16"
  using nlm_pci_probe_bounds [of "driver0 4 (kmem0 [])" "Some \<lparr>pci_id = 10, pci_enable = True, pci_start = 0x1000, pci_len = 0x100\<rparr>"]
  by (auto simp: MAX_DEVICES_def)

theorem create_proc_entries_overflow_witness:
  "\<exists>d1. nlm_pci_probe (Some \<lparr>pci_id = 10, pci_enable = True, pci_start = 0x1000, pci_len = 0x100\<rparr>) (driver0 12 (kmem0 [])) =
     Some (- EINVAL, d1) \<and> create_proc_entries True (\<lambda>_. True) d1 = None"
  using create_proc_entries_overflow [of "driver0 12 (kmem0 [])"] by (simp add: MAX_DEVICES_def)

text \<open>Two megabytes of consecutive pages, of which the driver is to keep one page.\<close>

definition pages0 :: "addr list" where
  "pages0 = map (\<lambda>i. 0x80001000 + int i * 4096) [0..<512]"

lemma scan_run:
  "0 < k \<Longrightarrow> k \<le> n \<Longrightarrow> scan_table (map (\<lambda>i. a + word_of_nat i * PAGE_SIZE) [k..<n]) (a + word_of_nat (k - 1) * PAGE_SIZE) a (int k) g f s =
   add_segment a (int n) True g f s"
proof (induction "n - k" arbitrary: k)
  case (Suc m)
  then have k: "[k..<n] = k # [Suc k..<n]" "k < n" by (simp_all add: upt_rec)
  have "a + word_of_nat (k - 1) * PAGE_SIZE + PAGE_SIZE = a + word_of_nat k * PAGE_SIZE"
    using Suc.prems by (cases k) (simp_all add: algebra_simps)
  then show ?case using Suc.hyps(1) [of "Suc k"] Suc.hyps(2) k by (simp add: algebra_simps)
qed simp

lemma pages0_phys: "map (virt_to_phys_k (kmem0 pages0)) pages0 = run 0x1000 512"
  by (simp add: pages0_def run_def PAGE_SIZE_def del: upt_rec_numeral)

lemma length_pages0: "length pages0 = 512" by (simp add: pages0_def del: upt_rec_numeral)

lemma unat_page0: "i < 512 \<Longrightarrow> unat (0x1000 + word_of_nat i * PAGE_SIZE) = 0x1000 + i * 4096"
proof -
  assume i: "i < 512"
  have "0x1000 + word_of_nat i * PAGE_SIZE = (word_of_nat (0x1000 + i * 4096) :: u64)" by (simp add: PAGE_SIZE_def)
  then show ?thesis using i by (simp only: unsigned_of_nat) (simp add: take_bit_nat_eq_self)
qed

lemma kernel_ok0: "kernel_ok (kmem0 pages0)" "linear_map (kmem0 pages0)"
proof -
  have "inj_on (\<lambda>i. 0x1000 + word_of_nat i * PAGE_SIZE :: u64) {0..<512}"
    by (rule inj_onI) (metis add_left_cancel atLeastLessThan_iff mult_cancel_right unat_page0 zero_neq_numeral)
  then have "distinct (run 0x1000 512)" by (simp add: run_def distinct_map)
  then have d: "distinct (map (virt_to_phys_k (kmem0 pages0)) (avail (kmem0 pages0)))" by (simp only: kmem0_sel(2) pages0_phys)
  have v: "uint (4096 + word_of_nat i * 4096 :: u64) = 4096 + int i * 4096" if "i < 512" for i
    using unat_page0 [OF that] by (simp add: uint_nat PAGE_SIZE_def)
  have p: "\<forall>p \<in> set pages0. p \<noteq> NULL \<and> phys_to_virt_k (kmem0 pages0) (virt_to_phys_k (kmem0 pages0) p) = p"
    using v by (auto simp: pages0_def simp del: upt_rec_numeral)
  have "\<forall>c xs. mset (sort_k (kmem0 pages0) c xs) = mset xs" by simp
  with d p show "kernel_ok (kmem0 pages0)" unfolding kernel_ok_def kmem0_sel(2) by blast
  show "linear_map (kmem0 pages0)" unfolding linear_map_def
  proof (intro allI impI)
    fix a b :: u64 assume "unat a + unat b < 2 ^ 64"
    then have "unat (a + b) = unat a + unat b" using unat_add_lem [of a b] by simp
    then have "uint (a + b) = uint a + uint b" by (simp only: uint_nat of_nat_add)
    then show "phys_to_virt_k (kmem0 pages0) (a + b) = phys_to_virt_k (kmem0 pages0) a + uint b" by simp
  qed
qed

lemma find0: "\<exists>m. find_free_chunks (kmem0 pages0) = Some (0, 0x80001000, m) \<and> npages_of m 0x80001000 = 512"
proof -
  let ?s = "kmem0 pages0" and ?c = "0x80001000 :: addr"
  let ?s1 = "?s\<lparr>scratch := True, avail := []\<rparr>"
  have "sorted (map (\<lambda>a. compare_addresses a 0) (run 0x1000 512))"
  proof -
    have "compare_addresses (0x1000 + word_of_nat i * PAGE_SIZE) 0 = 0x1000 + int i * 4096" if "i < 512" for i
      using that unat_page0 [OF that] by (subst compare_addresses_diff) (simp_all add: uint_nat)
    then have "map (\<lambda>a. compare_addresses a 0) (run 0x1000 512) = map (\<lambda>i. 0x1000 + int i * 4096) [0..<512]"
      unfolding run_def map_map by (intro map_cong) simp_all
    then show ?thesis by (simp add: sorted_map sorted_wrt_map)
  qed
  then have srt: "sort_key (\<lambda>a. compare_addresses a 0) (run 0x1000 512) = run 0x1000 512" by (rule sort_key_id_if_sorted)
  have al: "alloc_pages max_index (?s\<lparr>scratch := True\<rparr>) = (run 0x1000 512, ?s1)"
    using pages0_phys by (simp add: alloc_pages_correct max_index length_pages0)
  have r: "run 0x1000 512 = 0x1000 # map (\<lambda>i. 0x1000 + word_of_nat i * PAGE_SIZE) [1..<512]"
    using upt_conv_Cons [of 0 512] by (simp add: run_def del: upt_rec_numeral)
  let ?s2 = "set_desc ?c NULL 512 ?s1"
  have "scan_table (map (\<lambda>i. 0x1000 + word_of_nat i * PAGE_SIZE) [1..<512]) 0x1000 0x1000 1 NULL NULL ?s1 = Some (?c, NULL, ?s2)"
    using scan_run [of 1 512 "0x1000" NULL NULL ?s1]
    by (simp add: add_segment_def page_threshold Let_def insert_into_sorted_list_def kmem0_def)
  then have l: "find_loop NULL NULL 0 (?s\<lparr>scratch := True\<rparr>) = Some (?c, NULL, 512, ?s2)"
    using al [unfolded max_index] srt r by (subst find_loop.simps) (simp add: max_index length_run)
  have "count_pages ?c 0 ?s2 = Some 512" using count_pages_correct [of ?s2 ?c "[?c]" 0] by simp
  moreover have "count_pages NULL n ?s2 = Some n" "release_chunks NULL ?s2 = Some ?s2" for n
    by (simp_all add: count_pages.simps [of NULL] release_chunks.simps [of NULL])
  ultimately have "find_free_chunks ?s = Some (0, ?c, ?s2\<lparr>scratch := False\<rparr>)" using l by (simp add: find_free_chunks_def)
  then show ?thesis by (auto simp: npages_of_def set_desc_def)
qed

theorem dynamic_memory_init_conserves_witness:
  "\<exists>m' fr. memory_manager_init (driver0 2 (kmem0 pages0)) =
      fixed_memory_chunking (virt_to_phys_k (kmem0 pages0) 0x80001000) 0x1000 (dmamem_size (driver0 2 (kmem0 pages0))) (upd_mem m' (driver0 2 (kmem0 pages0))) \<and>
     freed m' = fr \<and> length fr = 511"
proof -
  let ?d = "driver0 2 (kmem0 pages0)"
  obtain m where m: "find_free_chunks (kmem0 pages0) = Some (0, 0x80001000, m)" "npages_of m 0x80001000 = 512" using find0 by blast
  have sz: "requested_size ?d = 0x1000" by (simp add: requested_size_def PAGE_ALIGN_def PAGE_MASK_def PAGE_SIZE_def)
  have ph: "\<forall>p \<in> set pages0. unat (virt_to_phys_k (kmem0 pages0) p) < 2 ^ 63"
  proof
    fix p assume "p \<in> set pages0"
    then have "virt_to_phys_k (kmem0 pages0) p \<in> set (run 0x1000 512)" by (simp flip: pages0_phys)
    then obtain i where "i < 512" "virt_to_phys_k (kmem0 pages0) p = 0x1000 + word_of_nat i * PAGE_SIZE" by (auto simp: run_def)
    with unat_page0 [of i] show "unat (virt_to_phys_k (kmem0 pages0) p) < 2 ^ 63" by simp
  qed
  have le: "requested_size ?d \<le> word_of_int (npages_of m 0x80001000) * PAGE_SIZE" by (simp add: sz m PAGE_SIZE_def)
  have n: "length (avail (mem ?d)) mod max_index \<noteq> 0" "length (avail (mem ?d)) < 2 ^ 40" by (simp_all add: length_pages0 max_index)
  obtain m' fr where r: "memory_manager_init ?d =
      fixed_memory_chunking (virt_to_phys_k (mem ?d) 0x80001000) (requested_size ?d) (dmamem_size ?d) (upd_mem m' ?d)"
    "freed m' = freed (mem ?d) @ fr"
    "mset (run (virt_to_phys_k (mem ?d) 0x80001000) (unat (requested_size ?d) div 4096) @ map (virt_to_phys_k (mem ?d)) fr) =
      mset (map (virt_to_phys_k (mem ?d)) (avail (mem ?d)))"
    using dynamic_memory_init_conserves [of ?d "0x80001000" m, OF _ _ _ _ n _ _ _ le] kernel_ok0 m ph by auto
  have "length (run (virt_to_phys_k (mem ?d) 0x80001000) (unat (requested_size ?d) div 4096) @ map (virt_to_phys_k (mem ?d)) fr) = 512"
    using arg_cong [OF r(3), of size] by (simp add: length_pages0)
  then have "length fr = 511" by (simp add: sz)
  with r(1,2) show ?thesis unfolding sz by (intro exI [of _ m'] exI [of _ fr]) simp
qed

end
