(* ===== verification/Loader_Hw.thy ===== *)
theory Loader_Hw
  imports Formats
begin

unbundle bit_operations_syntax

text \<open>
  The register sequences of the database loader (the macros of lib/dataplane/loader_fms.c).
  Several of them wait in a loop without a bound for the device to clear a bit: such a loop is a
  partial function, and the behaviour the code relies on, that the bit is clear after some
  number of reads, is the hypothesis \<open>handshakes\<close>. A read that the code makes only to print it
  is left out.
\<close>

section \<open>Registers\<close>

definition GID_BMAP_CTRL :: u32 where "GID_BMAP_CTRL = 0x2700"
definition GID_BMAP_DATA0 :: u32 where "GID_BMAP_DATA0 = 0x2710"
definition GID_BMAP_DATA1 :: u32 where "GID_BMAP_DATA1 = 0x2714"
definition BLOCK_CTRL :: u32 where "BLOCK_CTRL = 0x2780"
definition BLOCK_CTRL_MAP :: u32 where "BLOCK_CTRL_MAP = 0x2784"
definition BLOCK_IDLE_CHECK :: u32 where "BLOCK_IDLE_CHECK = 0x2788"
definition BLOCK_IDLE_READY :: u32 where "BLOCK_IDLE_READY = 0x278C"
definition GID_BMAP_LOCK :: u32 where "GID_BMAP_LOCK = 0x27b0"
definition FAMOS_BLK_ADDR :: u32 where "FAMOS_BLK_ADDR = 0x5000"
definition FAMOS_BLK_DATA0 :: u32 where "FAMOS_BLK_DATA0 = 0x5004"
definition FAMOS_BLK_DATA1 :: u32 where "FAMOS_BLK_DATA1 = 0x5008"
definition FAMOS_BLK_DATA2 :: u32 where "FAMOS_BLK_DATA2 = 0x500C"
definition FAMOS_CTRL :: u32 where "FAMOS_CTRL = 0x5010"
definition ACTION_DATA0 :: u32 where "ACTION_DATA0 = 0x6300"
definition ACTION_DATA1 :: u32 where "ACTION_DATA1 = 0x6304"
definition ACTION_DATA2 :: u32 where "ACTION_DATA2 = 0x6308"
definition ACTION_DATA3 :: u32 where "ACTION_DATA3 = 0x630C"
definition ACTION_CTRL :: u32 where "ACTION_CTRL = 0x6310"
definition BLOCK0_CONFIG :: u32 where "BLOCK0_CONFIG = 0x6810"
definition BLOCK0_OFFSET :: u32 where "BLOCK0_OFFSET = 0x6814"
definition FMS_BLK_REG_STEP :: u32 where "FMS_BLK_REG_STEP = 0x6818 - BLOCK0_CONFIG"
definition BLOCK_DMA_CONFIG0 :: u32 where "BLOCK_DMA_CONFIG0 = 0x6880"
definition BLOCK_DMA_CONFIG1 :: u32 where "BLOCK_DMA_CONFIG1 = 0x6884"
definition BLOCK_DMA_CONFIG2 :: u32 where "BLOCK_DMA_CONFIG2 = 0x6888"

lemmas loader_regs = GID_BMAP_CTRL_def GID_BMAP_DATA0_def GID_BMAP_DATA1_def BLOCK_CTRL_def BLOCK_CTRL_MAP_def
  BLOCK_IDLE_CHECK_def BLOCK_IDLE_READY_def GID_BMAP_LOCK_def FAMOS_BLK_ADDR_def FAMOS_BLK_DATA0_def FAMOS_BLK_DATA1_def
  FAMOS_BLK_DATA2_def FAMOS_CTRL_def ACTION_DATA0_def ACTION_DATA1_def ACTION_DATA2_def ACTION_DATA3_def ACTION_CTRL_def
  BLOCK0_CONFIG_def BLOCK0_OFFSET_def FMS_BLK_REG_STEP_def BLOCK_DMA_CONFIG0_def BLOCK_DMA_CONFIG1_def BLOCK_DMA_CONFIG2_def

section \<open>Loops\<close>

text \<open>A loop over a list whose body can fail.\<close>

fun foldM :: "('a \<Rightarrow> 's \<Rightarrow> 's option) \<Rightarrow> 'a list \<Rightarrow> 's \<Rightarrow> 's option" where
  "foldM f [] s = Some s"
| "foldM f (x # xs) s = Option.bind (f x s) (foldM f xs)"

lemma foldM_append: "foldM f (xs @ ys) s = Option.bind (foldM f xs s) (foldM f ys)"
  by (induction xs arbitrary: s) (auto split: bind_splits)

lemma foldM_cong [fundef_cong]:
  "xs = ys \<Longrightarrow> s = t \<Longrightarrow> (\<And>x s. x \<in> set ys \<Longrightarrow> f x s = g x s) \<Longrightarrow> foldM f xs s = foldM g ys t"
proof (induction xs arbitrary: ys s t)
  case (Cons x xs)
  then show ?case by (cases "g x t") (auto split: bind_splits)
qed simp

text \<open>An invariant of the body holds after the loop, and a body that never fails gives a loop
  that never fails.\<close>

lemma foldM_invariant:
  "foldM f xs s = Some t \<Longrightarrow> P s \<Longrightarrow> (\<And>x s t. x \<in> set xs \<Longrightarrow> f x s = Some t \<Longrightarrow> P s \<Longrightarrow> P t) \<Longrightarrow> P t"
proof (induction xs arbitrary: s)
  case (Cons x xs)
  then obtain u where "f x s = Some u" "foldM f xs u = Some t" by (auto split: bind_splits)
  with Cons show ?case by (metis list.set_intros)
qed simp

lemma foldM_returns:
  "P s \<Longrightarrow> (\<And>x s. x \<in> set xs \<Longrightarrow> P s \<Longrightarrow> \<exists>t. f x s = Some t \<and> P t) \<Longrightarrow> \<exists>t. foldM f xs s = Some t \<and> P t"
proof (induction xs arbitrary: s)
  case (Cons x xs)
  then obtain u where "f x s = Some u" "P u" by (metis list.set_intros(1))
  with Cons show ?case by simp
qed simp

section \<open>Waiting\<close>

text \<open>\<^verbatim>\<open>while (HW_REGISTER (reg) & m);\<close>\<close>

partial_function (option) wait_clear :: "u32 \<Rightarrow> u32 \<Rightarrow> hw \<Rightarrow> hw option" where
  "wait_clear reg m h = (let (v, h1) = HW_REGISTER reg h in if v AND m = 0 then Some h1 else wait_clear reg m h1)"

section \<open>Macros\<close>

definition WRITE_ACTION_TABLE_ENTRY :: "u32 \<Rightarrow> u32 \<Rightarrow> u32 \<times> u32 \<times> u32 \<times> u32 \<Rightarrow> hw \<Rightarrow> hw option" where
  "WRITE_ACTION_TABLE_ENTRY blk addr = (\<lambda>(d0, d1, d2, d3) h.
     wait_clear ACTION_CTRL 1
       (SET_HW_REGISTER ACTION_CTRL (push_bit 16 ((push_bit 11 blk OR addr) AND 0x7fff) OR 1)
       (SET_HW_REGISTER ACTION_DATA3 d3 (SET_HW_REGISTER ACTION_DATA2 d2
       (SET_HW_REGISTER ACTION_DATA1 d1 (SET_HW_REGISTER ACTION_DATA0 d0 h))))))"

definition WRITE_GID_BMAP_ENTRY :: "u32 \<Rightarrow> u32 \<Rightarrow> u32 \<times> u32 \<Rightarrow> hw \<Rightarrow> hw option" where
  "WRITE_GID_BMAP_ENTRY db_id gid = (\<lambda>(d0, d1) h.
     map_option (\<lambda>h1. SET_HW_REGISTER GID_BMAP_CTRL (push_bit 26 db_id OR push_bit 16 gid OR 1)
         (SET_HW_REGISTER GID_BMAP_DATA1 d1 (SET_HW_REGISTER GID_BMAP_DATA0 d0 h1)))
       (wait_clear GID_BMAP_CTRL 1 h))"

definition BLOCK_PAUSE :: "nat \<Rightarrow> hw \<Rightarrow> hw option" where
  "BLOCK_PAUSE blk h =
     (let (v, h1) = HW_REGISTER BLOCK_IDLE_READY h in
      assert_then (v AND push_bit blk 1 = 0)
        (let (map, h2) = HW_REGISTER BLOCK_IDLE_CHECK h1
         in Some (SET_HW_REGISTER BLOCK_IDLE_CHECK (map OR push_bit blk 1) h2)))"

definition BLOCK_RESUME :: "nat \<Rightarrow> hw \<Rightarrow> hw" where
  "BLOCK_RESUME blk h =
     (let (map, h1) = HW_REGISTER BLOCK_IDLE_CHECK h
      in SET_HW_REGISTER BLOCK_IDLE_CHECK (map AND NOT (push_bit blk 1)) h1)"

definition IS_BLOCK_PAUSED :: "nat \<Rightarrow> hw \<Rightarrow> bool \<times> hw" where
  "IS_BLOCK_PAUSED blk h = (let (v, h1) = HW_REGISTER BLOCK_IDLE_READY h in (v AND push_bit blk 1 \<noteq> 0, h1))"

definition LOCK_GID_BMAP :: "hw \<Rightarrow> hw option" where
  "LOCK_GID_BMAP h = wait_clear GID_BMAP_LOCK 1 (SET_HW_REGISTER GID_BMAP_LOCK 3 h)"

definition UNLOCK_GID_BMAP :: "hw \<Rightarrow> hw option" where
  "UNLOCK_GID_BMAP h = wait_clear GID_BMAP_LOCK 1 (SET_HW_REGISTER GID_BMAP_LOCK 1 h)"

definition BLOCK_ADD :: "nat \<Rightarrow> hw \<Rightarrow> hw option" where
  "BLOCK_ADD blk h =
     map_option (\<lambda>h1. snd (HW_REGISTER BLOCK_CTRL h1))
       (wait_clear BLOCK_CTRL 1 (SET_HW_REGISTER BLOCK_CTRL 3 (SET_HW_REGISTER BLOCK_CTRL_MAP (push_bit blk 1) h)))"

definition BLOCK_DELETE :: "nat \<Rightarrow> hw \<Rightarrow> hw option" where
  "BLOCK_DELETE blk h =
     Option.bind (wait_clear BLOCK_CTRL 1 (SET_HW_REGISTER BLOCK_CTRL 1 (SET_HW_REGISTER BLOCK_CTRL_MAP (push_bit blk 1) h)))
       (\<lambda>h1. let (v, h2) = HW_REGISTER BLOCK_CTRL h1 in assert_then (v AND 4 = 0) (Some h2))"

definition BLOCK_SET_VIRT_ID_ASYNC :: "u32 \<Rightarrow> u32 \<Rightarrow> hw \<Rightarrow> hw" where
  "BLOCK_SET_VIRT_ID_ASYNC blk vb h =
     SET_HW_REGISTER FAMOS_CTRL 1 (SET_HW_REGISTER FAMOS_BLK_DATA2 0 (SET_HW_REGISTER FAMOS_BLK_DATA1 0
       (SET_HW_REGISTER FAMOS_BLK_DATA0 (vb AND 0xF) (SET_HW_REGISTER FAMOS_BLK_ADDR (push_bit 24 blk OR 0xC00000) h))))"

definition IS_DMA_BUSY :: "hw \<Rightarrow> bool \<times> hw" where
  "IS_DMA_BUSY h = (let (v, h1) = HW_REGISTER BLOCK_DMA_CONFIG2 h in (v AND 1 \<noteq> 0, h1))"

section \<open>The waits end\<close>

text \<open>The trace after \<open>k\<close> more reads of one register.\<close>

fun polls :: "(access list \<Rightarrow> u32 \<Rightarrow> u32) \<Rightarrow> u32 \<Rightarrow> access list \<Rightarrow> nat \<Rightarrow> access list" where
  "polls ans reg tr 0 = tr"
| "polls ans reg tr (Suc k) = polls ans reg (tr @ [Rd reg (ans tr reg)]) k"

definition settles :: "(access list \<Rightarrow> u32 \<Rightarrow> u32) \<Rightarrow> u32 \<Rightarrow> bool" where
  "settles ans reg \<longleftrightarrow> (\<forall>tr. \<exists>k. ans (polls ans reg tr k) reg AND 1 = 0)"

definition handshakes :: "(access list \<Rightarrow> u32 \<Rightarrow> u32) \<Rightarrow> bool" where
  "handshakes ans \<longleftrightarrow> settles ans GID_BMAP_CTRL \<and> settles ans GID_BMAP_LOCK \<and> settles ans BLOCK_CTRL \<and>
     settles ans ACTION_CTRL \<and> settles ans FAMOS_CTRL"

text \<open>What a sequence of accesses leaves alone: the device, and everything recorded before.\<close>

definition later :: "hw \<Rightarrow> hw \<Rightarrow> bool" where
  "later h h' \<longleftrightarrow> answer h' = answer h \<and> (\<exists>as. trace h' = trace h @ as)"

lemma later_refl [simp]: "later h h" by (simp add: later_def)

lemma later_trans: "later h h' \<Longrightarrow> later h' h'' \<Longrightarrow> later h h''"
  by (auto simp: later_def)

lemma later_SET [simp]: "later h (SET_HW_REGISTER reg v h)"
  by (simp add: later_def SET_HW_REGISTER_def)

lemma later_HW [simp]: "later h (snd (HW_REGISTER reg h))"
  by (simp add: later_def HW_REGISTER_def Let_def)

lemma answer_SET [simp]: "answer (SET_HW_REGISTER reg v h) = answer h"
  by (simp add: SET_HW_REGISTER_def)

lemma answer_HW [simp]: "answer (snd (HW_REGISTER reg h)) = answer h"
  by (simp add: HW_REGISTER_def Let_def)

lemma wait_clear_returns:
  "ans = answer h \<Longrightarrow> ans (polls ans reg (trace h) k) reg AND 1 = 0 \<Longrightarrow> \<exists>h'. wait_clear reg 1 h = Some h' \<and> answer h' = ans"
proof (induction k arbitrary: h)
  case 0
  then show ?case by (subst wait_clear.simps) (simp add: HW_REGISTER_def Let_def)
next
  case (Suc k)
  let ?h = "h\<lparr>trace := trace h @ [Rd reg (ans (trace h) reg)]\<rparr>"
  have "\<exists>h'. wait_clear reg 1 ?h = Some h' \<and> answer h' = ans"
    using Suc.prems by (intro Suc.IH) simp_all
  then show ?case using Suc.prems(1) by (subst wait_clear.simps) (auto simp: HW_REGISTER_def Let_def)
qed

lemma settles_wait: "settles (answer h) reg \<Longrightarrow> \<exists>h'. wait_clear reg 1 h = Some h' \<and> answer h' = answer h"
  using wait_clear_returns unfolding settles_def by blast

end
