(* ===== verification/Loader_Fms.thy ===== *)
theory Loader_Fms
  imports Loader_Hw Dp_State Sha2 Loader_Common
begin

unbundle bit_operations_syntax

text \<open>
  The database loader (lib/dataplane/loader_fms.c). A database is a few blocks; the host keeps
  a copy of each in a shadow block, and the device executes up to four copies of every block in its
  array blocks. Loading, unloading and changing the number of copies put commands into a ring;
  nlm_device_loader_cmd_exec_fms executes one command at a time and is called until the ring is
  empty. \<open>map_target\<close> and \<open>no_clones_target\<close> describe the array as it will be after all
  commands, \<open>map_current\<close> and \<open>no_clones_current\<close> as it is.

  Arrays over blocks are functions of the block number, which stays below \<^verbatim>\<open>num_fms_blocks\<close>.
  \<^term>\<open>None\<close> is a failed assertion or a loop that does not end.
\<close>

section \<open>Data\<close>

definition TOTAL_FAMOS_BLOCKS :: nat where "TOTAL_FAMOS_BLOCKS = 12"
definition FAMOS_BLOCK_SIZE :: nat where "FAMOS_BLOCK_SIZE = 0x4000"
definition MAX_ACCEPT_PER_BLOCK :: nat where "MAX_ACCEPT_PER_BLOCK = 0x800"
definition FMS_MAX_WAIT_TIMEOUT :: u32 where "FMS_MAX_WAIT_TIMEOUT = 0xffff"
definition FMS_MAX_DMA_WAIT_TIMEOUT :: u32 where "FMS_MAX_DMA_WAIT_TIMEOUT = 0xffffffff"
definition FMS_ASM_FAMOS_FPGA :: u32 where "FMS_ASM_FAMOS_FPGA = 0x46534d46"
definition NLM_FMS_LOADER_CMD_BUFF_SIZE :: nat where "NLM_FMS_LOADER_CMD_BUFF_SIZE = 14 * TOTAL_FAMOS_BLOCKS"
definition NLM_DATABASE_LOAD_POLICY_ASYNC :: u8 where "NLM_DATABASE_LOAD_POLICY_ASYNC = 2"

text \<open>Words of a block as the host loads them from the image.\<close>

type_synonym fms_row = "u32 \<times> u32 \<times> u32"
type_synonym fms_action = "u32 \<times> u32 \<times> u32 \<times> u32"

record fms_block =
  row :: "fms_row list"
  action_table :: "fms_action list"
  checksum :: "u32 list"

record fms_image =
  product_id :: u32
  im_blocks :: "fms_block list"

definition sizeof_file_sig :: u64 where "sizeof_file_sig = 12"
definition sizeof_block :: u64 where
  "sizeof_block = word_of_nat (12 * FAMOS_BLOCK_SIZE + 16 * MAX_ACCEPT_PER_BLOCK + 32)"

text \<open>The group of a row is in the upper 12 bits of its first word; the group of an action is a field
  in the middle of its first word.\<close>

definition row_gid :: "u32 \<Rightarrow> 12 word" where "row_gid w = ucast (drop_bit 20 w)"
definition set_row_gid :: "12 word \<Rightarrow> u32 \<Rightarrow> u32" where "set_row_gid g w = push_bit 20 (ucast g) OR (w AND 0xFFFFF)"
definition action_gid :: "u32 \<Rightarrow> 12 word" where "action_gid w = ucast (drop_bit 14 w)"
definition set_action_gid :: "12 word \<Rightarrow> u32 \<Rightarrow> u32" where
  "set_action_gid g w = push_bit 14 (ucast g) OR (w AND NOT (push_bit 14 0xFFF))"

text \<open>An entry of the group map: for each time slot the array blocks that search for the group. The
  reserved bits are zero.\<close>

record gid_bitmap =
  bitmap0 :: "12 word"
  bitmap1 :: "12 word"
  bitmap2 :: "12 word"
  bitmap3 :: "12 word"
  valid0 :: bool
  valid1 :: bool
  valid2 :: bool
  valid3 :: bool

definition gid_words :: "gid_bitmap \<Rightarrow> u32 \<times> u32" where
  "gid_words g =
     (push_bit 31 (of_bool (valid0 g)) OR push_bit 16 (ucast (bitmap0 g)) OR push_bit 15 (of_bool (valid1 g)) OR ucast (bitmap1 g),
      push_bit 31 (of_bool (valid2 g)) OR push_bit 16 (ucast (bitmap2 g)) OR push_bit 15 (of_bool (valid3 g)) OR ucast (bitmap3 g))"

record shadow_entry =
  sh_valid :: bool
  no_clones_current :: u8
  no_clones_target :: u8
  sh_db_id :: u8
  virt_blk_no :: u8

datatype loader_opcode =
  CMD_NOP | CMD_ARRAY_ADD | CMD_ARRAY_DELETE | CMD_SHADOW_DELETE | CMD_PAUSE | CMD_PAUSE_WAIT | CMD_RESUME | CMD_RESUME_WAIT
| CMD_DMA_XFER_START | CMD_DMA_XFER_COMPLETE_WAIT | CMD_ACTION_TABLE_LOAD | CMD_ACTION_TABLE_CLEAR | CMD_GID_BMAP_CONFIGURE
| CMD_GID_BMAP_DELETE | CMD_ASSIGN_VIRT_BLK_ID | CMD_ASSIGN_VIRT_BLK_ID_WAIT

record loader_command =
  opcode :: loader_opcode
  addr_array :: "4 word"
  addr_shadow :: "4 word"

text \<open>The fields of the physical device that the loader works on.\<close>

record fms_loader =
  ld_hw :: hw
  num_fms_blocks :: u8
  num_rows_per_fms_block :: u32
  wait_timeout :: u32
  pause_timeout :: u32
  database_load_policy :: u8
  block_group_list :: "nat \<Rightarrow> u16 list"
  gid_bmap_shadow :: "u8 \<Rightarrow> u16 \<Rightarrow> gid_bitmap"
  cmd_rd_ptr :: u8
  cmd_wr_ptr :: u8
  loader_cmd_mem :: "loader_command list"
  shadow_map :: "nat \<Rightarrow> shadow_entry"
  array_virt_ids :: "nat \<Rightarrow> u8"
  map_current :: "nat \<Rightarrow> u8"
  map_target :: "nat \<Rightarrow> u8"
  copy_number :: "nat \<Rightarrow> u8"
  extension_area :: "nat \<Rightarrow> fms_block"
  first_free_db_block :: nat

abbreviation nblocks :: "fms_loader \<Rightarrow> nat" where "nblocks p \<equiv> unat (num_fms_blocks p)"

definition upd_shadow :: "nat \<Rightarrow> (shadow_entry \<Rightarrow> shadow_entry) \<Rightarrow> fms_loader \<Rightarrow> fms_loader" where
  "upd_shadow i g p = p\<lparr>shadow_map := (shadow_map p)(i := g (shadow_map p i))\<rparr>"

definition with_hw :: "(hw \<Rightarrow> hw option) \<Rightarrow> fms_loader \<Rightarrow> fms_loader option" where
  "with_hw f p = map_option (\<lambda>h. p\<lparr>ld_hw := h\<rparr>) (f (ld_hw p))"

text \<open>The handle of the caller: the ring of the device and the thread. Only thread 0 of ring 0 may load.\<close>

type_synonym handle = "(u8 \<times> u32) option"

definition check_master :: "handle \<Rightarrow> nlm_status option" where
  "check_master who =
     (case who of None \<Rightarrow> Some NLM_INVALID_ARGUMENT
      | Some (ring, thread) \<Rightarrow>
          if ring \<noteq> 0 then Some NLM_INVALID_RING_ID else if thread \<noteq> 0 then Some NLM_INVALID_THREAD_ID else None)"

section \<open>Shadow blocks\<close>

definition shadow_block_list :: "fms_loader \<Rightarrow> u32 \<Rightarrow> nat list" where
  "shadow_block_list p database_id =
     filter (\<lambda>i. sh_valid (shadow_map p i) \<and> ucast (sh_db_id (shadow_map p i)) = database_id) [0..<nblocks p]"

definition num_shadow_blocks_free :: "fms_loader \<Rightarrow> nat" where
  "num_shadow_blocks_free p = length (filter (\<lambda>i. \<not> sh_valid (shadow_map p i)) [0..<nblocks p])"

definition num_array_blocks_free :: "fms_loader \<Rightarrow> nat" where
  "num_array_blocks_free p = length (filter (\<lambda>i. map_target p i = 0) [0..<nblocks p])"

section \<open>Checking a database\<close>

definition block_cnt_of :: "u32 \<Rightarrow> u32" where
  "block_cnt_of db_size = ucast ((ucast db_size - sizeof_file_sig) div sizeof_block)"

definition row_used :: "fms_row \<Rightarrow> bool" where
  "row_used = (\<lambda>(a, b, c). a \<noteq> 0 \<or> b \<noteq> 0 \<or> c \<noteq> 0)"

text \<open>The blocks after the header must be in the buffer as far as they are counted.\<close>

definition nlm_loader_fms_check_params_and_head :: "fms_image option \<Rightarrow> u32 \<Rightarrow> fms_loader \<Rightarrow> nlm_status option" where
  "nlm_loader_fms_check_params_and_head buffer db_size p =
     (let cnt = block_cnt_of db_size in
      case buffer of
        None \<Rightarrow> Some NLM_INVALID_ARGUMENT
      | Some im \<Rightarrow>
          if db_size = 0 then Some NLM_INVALID_ARGUMENT
          else if (ucast db_size :: u64) \<noteq> sizeof_file_sig + sizeof_block * ucast cnt then Some NLM_INVALID_DATABASE_SIZE
          else if cnt < 1 \<or> ucast (num_fms_blocks p) < cnt then Some NLM_INVALID_DATABASE_SIZE
          else
            assert_then (unat cnt \<le> length (im_blocks im))
              (if list_ex (\<lambda>b. list_ex row_used (drop (unat (num_rows_per_fms_block p)) (row b))) (take (unat cnt) (im_blocks im))
               then Some NLM_INVALID_DATABASE_SIZE
               else if byteswap_constant_32 FMS_ASM_FAMOS_FPGA \<noteq> product_id im then Some NLM_INVALID_DATABASE_VERSION
               else Some NLM_OK))"

text \<open>The bytes of a block up to its checksum, in memory order.\<close>

definition block_bytes :: "fms_block \<Rightarrow> u8 list" where
  "block_bytes b =
     concat (map (\<lambda>(x, y, z). be_bytes32 x @ be_bytes32 y @ be_bytes32 z) (row b)) @
     concat (map (\<lambda>(x, y, z, w). be_bytes32 x @ be_bytes32 y @ be_bytes32 z @ be_bytes32 w) (action_table b))"

text \<open>The checksum of one block; the engine of sha2.c keeps its state in static variables.\<close>

definition checksum_ok :: "fms_block \<Rightarrow> sha_state \<Rightarrow> bool \<times> sha_state" where
  "checksum_ok b sh =
     (case nlm_chksum_sha256 (Some (block_bytes b)) (ucast (sizeof_block - 32)) (Some (replicate 8 0)) sh of
        (rc, chk, sh') \<Rightarrow>
          (list_all (\<lambda>i. byteswap_constant_32 (the chk ! i) = checksum b ! i) [0..<8], sh'))"

fun checksums_ok :: "fms_block list \<Rightarrow> sha_state \<Rightarrow> nlm_status \<times> sha_state" where
  "checksums_ok [] sh = (NLM_OK, sh)"
| "checksums_ok (b # bs) sh =
     (case checksum_ok b sh of (ok, sh') \<Rightarrow> if ok then checksums_ok bs sh' else (NLM_INVALID_DATABASE_CHECKSUM, sh'))"

text \<open>The space for a new database, once the identifiers are checked; \<open>blocks\<close> are the shadow blocks
  it replaces.\<close>

definition try_load_space :: "u32 \<Rightarrow> u32 \<Rightarrow> nat list \<Rightarrow> fms_loader \<Rightarrow> bool" where
  "try_load_space block_cnt num_copies blocks p =
     (if 0 < num_copies then
        block_cnt * num_copies \<le> word_of_nat (num_array_blocks_free p +
          (if blocks \<noteq> [] then length blocks * unat (no_clones_target (shadow_map p (hd blocks))) else 0))
      else block_cnt \<le> word_of_nat (num_shadow_blocks_free p + length blocks))"

definition nlm_device_try_load_database ::
  "handle \<Rightarrow> fms_image option \<Rightarrow> u32 \<Rightarrow> u32 \<Rightarrow> u32 \<Rightarrow> u32 \<Rightarrow> sha_state \<Rightarrow> fms_loader \<Rightarrow> (nlm_status \<times> sha_state) option" where
  "nlm_device_try_load_database who buffer db_size replacing_db_id new_db_id num_copies sh p =
     (case check_master who of
        Some st \<Rightarrow> Some (st, sh)
      | None \<Rightarrow>
          if 4 < num_copies then Some (NLM_INVALID_ARGUMENT, sh)
          else if NLM_MAX_DATABASE_ID < new_db_id then Some (NLM_INVALID_DATABASE_ID, sh)
          else if replacing_db_id \<noteq> -1 \<and> NLM_MAX_DATABASE_ID < replacing_db_id then Some (NLM_INVALID_DATABASE_ID, sh)
          else
            Option.bind (nlm_loader_fms_check_params_and_head buffer db_size p) (\<lambda>st.
            if st \<noteq> NLM_OK then Some (st, sh)
            else if new_db_id \<noteq> replacing_db_id \<and> shadow_block_list p new_db_id \<noteq> [] then Some (NLM_INVALID_DATABASE_ID, sh)
            else if replacing_db_id \<noteq> -1 \<and> shadow_block_list p replacing_db_id = [] then Some (NLM_INVALID_DATABASE_ID, sh)
            else
              let blocks = (if replacing_db_id \<noteq> -1 then shadow_block_list p replacing_db_id else [])
              in if \<not> try_load_space (block_cnt_of db_size) num_copies blocks p then Some (NLM_INVALID_DATABASE_SIZE, sh)
                 else Some (checksums_ok (take (unat (block_cnt_of db_size)) (im_blocks (the buffer))) sh)))"

section \<open>Groups of a block\<close>

text \<open>Collecting the groups of the rows, each once, and tagging the rows with the database.\<close>

definition tag_gid :: "u32 \<Rightarrow> 12 word \<Rightarrow> 12 word" where
  "tag_gid db_id g = g OR ucast (push_bit 10 db_id)"

definition tag_row :: "u32 \<Rightarrow> fms_row \<Rightarrow> fms_row" where
  "tag_row db_id = (\<lambda>(a, b, c).
     let w = byteswap_constant_32 a in
     if row_gid w AND 0x3ff \<noteq> 0 then (byteswap_constant_32 (set_row_gid (tag_gid db_id (row_gid w)) w), b, c) else (a, b, c))"

definition tag_action :: "u32 \<Rightarrow> fms_action \<Rightarrow> fms_action" where
  "tag_action db_id = (\<lambda>(a, b, c, d).
     if action_gid a AND 0x3ff \<noteq> 0 then (set_action_gid (tag_gid db_id (action_gid a)) a, b, c, d) else (a, b, c, d))"

fun collect_groups :: "fms_row list \<Rightarrow> u16 list \<Rightarrow> u16 list" where
  "collect_groups [] gs = gs"
| "collect_groups ((a, b, c) # rows) gs =
     (let g = ucast (row_gid (byteswap_constant_32 a) AND 0x3ff) :: u16
      in collect_groups rows (if g \<noteq> 0 \<and> g \<notin> set gs then gs @ [g] else gs))"

text \<open>The new block, and the group list with its terminating zero.\<close>

definition nlm_extract_groups_from_block ::
  "fms_block \<Rightarrow> u16 list \<Rightarrow> u32 \<Rightarrow> nlm_status \<times> fms_block \<times> u16 list" where
  "nlm_extract_groups_from_block b group_list db_id =
     (let gs = collect_groups (row b) [];
          b1 = b\<lparr>row := map (tag_row db_id) (row b)\<rparr>;
          l1 = gs @ drop (length gs) group_list
      in if unat NLM_MAX_GROUP_ID < length gs then (NLM_INVALID_GROUPID, b1, l1)
         else (NLM_OK, b1\<lparr>action_table := map (tag_action db_id) (action_table b)\<rparr>, l1[length gs := 0]))"

definition groups_of :: "fms_loader \<Rightarrow> nat \<Rightarrow> u16 list" where
  "groups_of p i = takeWhile (\<lambda>g. g \<noteq> 0) (take (Suc (unat NLM_MAX_GROUP_ID)) (block_group_list p i))"

section \<open>The group map\<close>

definition sched_entry :: "(12 word \<Rightarrow> 12 word) \<Rightarrow> u32 \<Rightarrow> gid_bitmap \<Rightarrow> gid_bitmap" where
  "sched_entry f timeslot_map g =
     (let b0 = (if timeslot_map AND 8 \<noteq> 0 then f (bitmap0 g) else bitmap0 g);
          b1 = (if timeslot_map AND 4 \<noteq> 0 then f (bitmap1 g) else bitmap1 g);
          b2 = (if timeslot_map AND 2 \<noteq> 0 then f (bitmap2 g) else bitmap2 g);
          b3 = (if timeslot_map AND 1 \<noteq> 0 then f (bitmap3 g) else bitmap3 g)
      in \<lparr>bitmap0 = b0, bitmap1 = b1, bitmap2 = b2, bitmap3 = b3,
          valid0 = b0 \<noteq> 0, valid1 = b1 \<noteq> 0, valid2 = b2 \<noteq> 0, valid3 = b3 \<noteq> 0\<rparr>)"

definition sched_group :: "(12 word \<Rightarrow> 12 word) \<Rightarrow> u32 \<Rightarrow> u8 \<Rightarrow> u16 \<Rightarrow> fms_loader \<Rightarrow> fms_loader option" where
  "sched_group f timeslot_map db_id gid p =
     (let g = sched_entry f timeslot_map (gid_bmap_shadow p db_id gid)
      in with_hw (WRITE_GID_BMAP_ENTRY (ucast db_id) (ucast gid) (gid_words g))
           (p\<lparr>gid_bmap_shadow := (gid_bmap_shadow p)(db_id := (gid_bmap_shadow p db_id)(gid := g))\<rparr>))"

definition block_scheduler :: "(12 word \<Rightarrow> 12 word) \<Rightarrow> nat \<Rightarrow> u32 \<Rightarrow> fms_loader \<Rightarrow> fms_loader option" where
  "block_scheduler f s timeslot_map p =
     Option.bind (foldM (sched_group f timeslot_map (sh_db_id (shadow_map p s))) (groups_of p s) p)
       (with_hw (wait_clear GID_BMAP_CTRL 1))"

definition nlm_device_block_scheduler_add :: "nat \<Rightarrow> nat \<Rightarrow> u32 \<Rightarrow> fms_loader \<Rightarrow> fms_loader option" where
  "nlm_device_block_scheduler_add s a = block_scheduler (\<lambda>b. b OR push_bit a 1) s"

definition nlm_device_block_scheduler_delete :: "nat \<Rightarrow> nat \<Rightarrow> u32 \<Rightarrow> fms_loader \<Rightarrow> fms_loader option" where
  "nlm_device_block_scheduler_delete s a = block_scheduler (\<lambda>b. b AND NOT (push_bit a 1)) s"

end
