(* ===== verification/Loader_Cmd.thy ===== *)
theory Loader_Cmd
  imports Loader_Fms
begin

unbundle bit_operations_syntax

text \<open>
  The commands of the loader and the operations that queue them (lib/dataplane/loader_fms.c):
  execution of one command, cloning a shadow block into the array and the opposite, setting the
  number of copies, balancing, loading and unloading.
\<close>

section \<open>Executing a command\<close>

definition nlm_device_move_block_from_shadow :: "nat \<Rightarrow> nat \<Rightarrow> fms_loader \<Rightarrow> (nlm_status \<times> fms_loader) option" where
  "nlm_device_move_block_from_shadow shadow_blk array_blk p =
     (if nblocks p < shadow_blk \<or> nblocks p < array_blk then Some (NLM_INVALID_ARGUMENT, p)
      else
        let (busy, h) = IS_DMA_BUSY (ld_hw p) in
        assert_then (\<not> busy)
          (Some (NLM_OK, p\<lparr>ld_hw :=
            SET_HW_REGISTER BLOCK_DMA_CONFIG2 1
            (SET_HW_REGISTER BLOCK_DMA_CONFIG1 (num_rows_per_fms_block p)
            (SET_HW_REGISTER BLOCK_DMA_CONFIG0 (push_bit 24 (word_of_nat array_blk))
            (SET_HW_REGISTER (BLOCK0_CONFIG + FMS_BLK_REG_STEP * word_of_nat array_blk) 1
            (SET_HW_REGISTER (BLOCK0_OFFSET + FMS_BLK_REG_STEP * word_of_nat array_blk)
               (word_of_nat shadow_blk * ucast sizeof_block) h))))\<rparr>)))"

definition nlm_device_load_action_table :: "nat \<Rightarrow> fms_block \<Rightarrow> hw \<Rightarrow> hw option" where
  "nlm_device_load_action_table blk b =
     foldM (\<lambda>addr. WRITE_ACTION_TABLE_ENTRY (word_of_nat blk) (word_of_nat addr) (action_table b ! addr)) [0..<MAX_ACCEPT_PER_BLOCK]"

text \<open>The group map is filled in for all blocks of the database of \<open>s\<close> whose copies are complete.\<close>

definition configure_block :: "nat \<Rightarrow> u8 \<Rightarrow> nat \<Rightarrow> fms_loader \<Rightarrow> fms_loader option" where
  "configure_block s copies j =
     (\<lambda>p. foldM (\<lambda>b p.
        if word_of_nat b = array_virt_ids p j \<and> map_current p j \<noteq> 0 \<and> no_clones_current (shadow_map p b) = copies
        then nlm_device_block_scheduler_add b j (push_bit (unat (copy_number p j)) 1) p
        else Some p)
      (shadow_block_list p (ucast (sh_db_id (shadow_map p s)))) p)"

definition configure_gid_bmap :: "nat \<Rightarrow> u8 \<Rightarrow> fms_loader \<Rightarrow> fms_loader option" where
  "configure_gid_bmap s copies p =
     Option.bind (with_hw LOCK_GID_BMAP p) (\<lambda>p1.
     Option.bind (foldM (configure_block s copies) [0..<nblocks p1] p1) (with_hw UNLOCK_GID_BMAP))"

text \<open>One command. The first component is the status with which the function returns at once,
  leaving the command in the ring.\<close>

definition exec_cmd :: "loader_command \<Rightarrow> fms_loader \<Rightarrow> (nlm_status option \<times> fms_loader) option" where
  "exec_cmd c p =
     (let a = unat (addr_array c); s = unat (addr_shadow c) in
      case opcode c of
        CMD_NOP \<Rightarrow> Some (None, p)
      | CMD_ARRAY_ADD \<Rightarrow>
          map_option (\<lambda>p1. (None,
            upd_shadow s (\<lambda>e. e\<lparr>no_clones_current := no_clones_current e + 1\<rparr>)
              (p1\<lparr>map_current := (map_current p1)(a := 1),
                  copy_number := (copy_number p1)(a := no_clones_current (shadow_map p1 s))\<rparr>)))
            (with_hw (BLOCK_ADD a) p)
      | CMD_ARRAY_DELETE \<Rightarrow>
          map_option (\<lambda>p1. (None,
            upd_shadow s (\<lambda>e. e\<lparr>no_clones_current := no_clones_current e - 1\<rparr>) (p1\<lparr>map_current := (map_current p1)(a := 0)\<rparr>)))
            (with_hw (BLOCK_DELETE a) p)
      | CMD_SHADOW_DELETE \<Rightarrow>
          (let p1 = upd_shadow s (\<lambda>e. e\<lparr>sh_valid := False\<rparr>) p
           in assert_then (no_clones_current (shadow_map p1 s) = 0) (Some (None, p1)))
      | CMD_PAUSE \<Rightarrow> map_option (Pair None) (with_hw (BLOCK_PAUSE a) (p\<lparr>wait_timeout := pause_timeout p\<rparr>))
      | CMD_PAUSE_WAIT \<Rightarrow>
          if wait_timeout p = 1 then Some (Some NLM_LOADER_BLOCK_PAUSE_TIMEOUT, p)
          else
            (let (paused, h) = IS_BLOCK_PAUSED a (ld_hw p); p1 = p\<lparr>ld_hw := h\<rparr>
             in if paused then Some (None, p1)
                else Some (Some NLM_LOADER_IN_PROGRESS,
                  if wait_timeout p1 \<noteq> 0 then p1\<lparr>wait_timeout := wait_timeout p1 - 1\<rparr> else p1))
      | CMD_RESUME \<Rightarrow> Some (None, p\<lparr>wait_timeout := FMS_MAX_WAIT_TIMEOUT, ld_hw := BLOCK_RESUME a (ld_hw p)\<rparr>)
      | CMD_RESUME_WAIT \<Rightarrow>
          assert_then (wait_timeout p \<noteq> 0)
            (let (paused, h) = IS_BLOCK_PAUSED a (ld_hw p); p1 = p\<lparr>ld_hw := h\<rparr>
             in if paused then Some (Some NLM_LOADER_IN_PROGRESS, p1\<lparr>wait_timeout := wait_timeout p1 - 1\<rparr>)
                else Some (None, p1))
      | CMD_DMA_XFER_START \<Rightarrow>
          map_option (\<lambda>(st, p1). (None, p1)) (nlm_device_move_block_from_shadow s a (p\<lparr>wait_timeout := FMS_MAX_DMA_WAIT_TIMEOUT\<rparr>))
      | CMD_DMA_XFER_COMPLETE_WAIT \<Rightarrow>
          assert_then (wait_timeout p \<noteq> 0)
            (let (busy, h) = IS_DMA_BUSY (ld_hw p); p1 = p\<lparr>ld_hw := h\<rparr>
             in if busy then Some (Some NLM_LOADER_IN_PROGRESS, p1\<lparr>wait_timeout := wait_timeout p1 - 1\<rparr>)
                else Some (None, p1))
      | CMD_ACTION_TABLE_LOAD \<Rightarrow> map_option (Pair None) (with_hw (nlm_device_load_action_table a (extension_area p s)) p)
      | CMD_ACTION_TABLE_CLEAR \<Rightarrow> Some (None, p)
      | CMD_GID_BMAP_CONFIGURE \<Rightarrow> map_option (Pair None) (configure_gid_bmap s (ucast (addr_array c)) p)
      | CMD_GID_BMAP_DELETE \<Rightarrow> None
      | CMD_ASSIGN_VIRT_BLK_ID \<Rightarrow>
          Some (None, p\<lparr>ld_hw := BLOCK_SET_VIRT_ID_ASYNC (ucast (addr_array c)) (ucast (addr_shadow c)) (ld_hw p)\<rparr>)
      | CMD_ASSIGN_VIRT_BLK_ID_WAIT \<Rightarrow>
          (let (v, h) = HW_REGISTER FAMOS_CTRL (ld_hw p); p1 = p\<lparr>ld_hw := h\<rparr>
           in if v AND 1 \<noteq> 0 then Some (Some NLM_LOADER_IN_PROGRESS, p1)
              else Some (None, p1\<lparr>array_virt_ids := (array_virt_ids p1)(a := ucast (addr_shadow c))\<rparr>)))"

definition next_cmd_ptr :: "u8 \<Rightarrow> u8" where
  "next_cmd_ptr i = (i + 1) mod word_of_nat NLM_FMS_LOADER_CMD_BUFF_SIZE"

text \<open>The function proper; \<open>exec_ring\<close> is its body after the checks of the handle.\<close>

definition exec_ring :: "fms_loader \<Rightarrow> (nlm_status \<times> fms_loader) option" where
  "exec_ring p =
     (if cmd_rd_ptr p = cmd_wr_ptr p then Some (NLM_OK, p)
      else
        Option.bind (exec_cmd (loader_cmd_mem p ! unat (cmd_rd_ptr p)) p) (\<lambda>(early, p1).
        case early of
          Some st \<Rightarrow> Some (st, p1)
        | None \<Rightarrow>
            let p2 = p1\<lparr>cmd_rd_ptr := next_cmd_ptr (cmd_rd_ptr p1)\<rparr>
            in Some (if cmd_rd_ptr p2 = cmd_wr_ptr p2 then NLM_OK else NLM_LOADER_IN_PROGRESS, p2)))"

definition nlm_device_loader_cmd_exec_fms :: "handle \<Rightarrow> fms_loader \<Rightarrow> (nlm_status \<times> fms_loader) option" where
  "nlm_device_loader_cmd_exec_fms who p = (case check_master who of Some st \<Rightarrow> Some (st, p) | None \<Rightarrow> exec_ring p)"

text \<open>The loop of the synchronous policies.\<close>

partial_function (option) exec_all :: "handle \<Rightarrow> fms_loader \<Rightarrow> (nlm_status \<times> fms_loader) option" where
  "exec_all who p =
     Option.bind (nlm_device_loader_cmd_exec_fms who p) (\<lambda>(st, p1).
     if st \<noteq> NLM_LOADER_IN_PROGRESS then Some (st, p1) else exec_all who p1)"

text \<open>How the operations end: synchronously, or by executing one command.\<close>

definition run_commands :: "handle \<Rightarrow> fms_loader \<Rightarrow> (nlm_status \<times> fms_loader) option" where
  "run_commands who p =
     (if database_load_policy p \<noteq> NLM_DATABASE_LOAD_POLICY_ASYNC then exec_all who p
      else nlm_device_loader_cmd_exec_fms who p)"

section \<open>Queueing commands\<close>

definition nlm_device_loader_cmd_add :: "loader_command \<Rightarrow> fms_loader \<Rightarrow> fms_loader option" where
  "nlm_device_loader_cmd_add c p =
     assert_then (next_cmd_ptr (cmd_wr_ptr p) \<noteq> cmd_rd_ptr p)
       (Some (p\<lparr>loader_cmd_mem := (loader_cmd_mem p)[unat (cmd_wr_ptr p) := c], cmd_wr_ptr := next_cmd_ptr (cmd_wr_ptr p)\<rparr>))"

definition mk_cmd :: "nat \<Rightarrow> nat \<Rightarrow> loader_opcode \<Rightarrow> loader_command" where
  "mk_cmd a s c = \<lparr>opcode = c, addr_array = word_of_nat a, addr_shadow = word_of_nat s\<rparr>"

definition clone_cmds :: "nat \<Rightarrow> nat \<Rightarrow> loader_command list" where
  "clone_cmds a s = map (mk_cmd a s)
     [CMD_DMA_XFER_START, CMD_DMA_XFER_COMPLETE_WAIT, CMD_ACTION_TABLE_LOAD, CMD_ASSIGN_VIRT_BLK_ID,
      CMD_ASSIGN_VIRT_BLK_ID_WAIT, CMD_ARRAY_ADD]"

definition declone_cmds :: "nat \<Rightarrow> nat \<Rightarrow> loader_command list" where
  "declone_cmds a s = map (mk_cmd a s) [CMD_PAUSE, CMD_PAUSE_WAIT, CMD_ARRAY_DELETE, CMD_RESUME]"

definition nlm_device_loader_clone :: "nat \<Rightarrow> fms_loader \<Rightarrow> fms_loader option" where
  "nlm_device_loader_clone s p =
     (case filter (\<lambda>a. map_target p a = 0) [0..<nblocks p] of
        [] \<Rightarrow> None
      | a # _ \<Rightarrow>
          foldM nlm_device_loader_cmd_add (clone_cmds a s)
            (upd_shadow s (\<lambda>e. e\<lparr>no_clones_target := no_clones_target e + 1\<rparr>) (p\<lparr>map_target := (map_target p)(a := 1)\<rparr>)))"

definition nlm_device_loader_declone :: "nat \<Rightarrow> nat \<Rightarrow> fms_loader \<Rightarrow> fms_loader option" where
  "nlm_device_loader_declone a s p =
     foldM nlm_device_loader_cmd_add (declone_cmds a s)
       (upd_shadow s (\<lambda>e. e\<lparr>no_clones_target := no_clones_target e - 1\<rparr>) (p\<lparr>map_target := (map_target p)(a := 0)\<rparr>))"

section \<open>The number of copies\<close>

text \<open>The last component is what is stored through the pointer.\<close>

definition nlm_device_database_get_num_copies ::
  "handle \<Rightarrow> u32 \<Rightarrow> fms_loader \<Rightarrow> (nlm_status \<times> fms_loader \<times> u32 option) option" where
  "nlm_device_database_get_num_copies who database_id p =
     (case check_master who of
        Some st \<Rightarrow> Some (st, p, None)
      | None \<Rightarrow>
          if NLM_MAX_DATABASE_ID < database_id then Some (NLM_INVALID_DATABASE_ID, p, None)
          else
            let blocks = shadow_block_list p database_id
            in if list_ex (\<lambda>i. no_clones_current (shadow_map p i) \<noteq> no_clones_target (shadow_map p i)) blocks
               then Some (NLM_BUSY, p, None)
               else
                 let n = (if blocks = [] then 0 else ucast (no_clones_current (shadow_map p (last blocks))))
                 in assert_then (n = 0 \<longrightarrow> blocks = [])
                      (if n = 0 then Some (NLM_DATABASE_UNLOADED, p, Some n)
                       else map_option (\<lambda>(st, p1). (st, p1, Some n)) (nlm_device_loader_cmd_exec_fms who p)))"

text \<open>How many copies of one block are missing, and of all; differences of unsigned values, read as
  signed ones.\<close>

definition copies_missing :: "u32 \<Rightarrow> fms_loader \<Rightarrow> nat \<Rightarrow> u32" where
  "copies_missing num_copies p b = num_copies - ucast (no_clones_target (shadow_map p b))"

text \<open>The loop that finds the difference asserts, for all blocks but the last, that it is the same.\<close>

fun delta_loop :: "u32 \<Rightarrow> fms_loader \<Rightarrow> nat list \<Rightarrow> bool \<Rightarrow> int \<Rightarrow> int \<Rightarrow> int option" where
  "delta_loop num_copies p [] first delta old = Some delta"
| "delta_loop num_copies p (b # bs) first delta old =
     assert_then (delta = old)
       (let d = sint (copies_missing num_copies p b) in delta_loop num_copies p bs False d (if first then d else old))"

definition grow_once :: "nat list \<Rightarrow> fms_loader \<Rightarrow> fms_loader option" where
  "grow_once blocks p =
     Option.bind (foldM nlm_device_loader_clone blocks p) (\<lambda>p1.
     nlm_device_loader_cmd_add
       (mk_cmd (unat (no_clones_target (shadow_map p1 (hd blocks)))) (hd blocks) CMD_GID_BMAP_CONFIGURE) p1)"

text \<open>One pass over the array for a shadow block, and passes until enough copies were removed. With
  copies that are queued but not yet in the array a pass finds nothing, and the loop does not end.\<close>

fun shrink_pass :: "nat \<Rightarrow> nat list \<Rightarrow> int \<Rightarrow> fms_loader \<Rightarrow> (int \<times> fms_loader) option" where
  "shrink_pass b [] d p = Some (d, p)"
| "shrink_pass b (j # js) d p =
     (if d = 0 then Some (d, p)
      else if word_of_nat b = array_virt_ids p j \<and> map_current p j \<noteq> 0 \<and>
        unat (no_clones_target (shadow_map p b)) = unat (copy_number p j) + 1
      then
        Option.bind (nlm_device_block_scheduler_delete b j (push_bit (unat (copy_number p j)) 1) p) (\<lambda>p1.
        Option.bind (nlm_device_loader_declone j b p1) (shrink_pass b js (d + 1)))
      else shrink_pass b js d p)"

partial_function (option) shrink_block :: "nat \<Rightarrow> int \<Rightarrow> fms_loader \<Rightarrow> fms_loader option" where
  "shrink_block b d p =
     (if d = 0 then Some p
      else Option.bind (shrink_pass b [0..<nblocks p] d p) (\<lambda>(d', p'). shrink_block b d' p'))"

definition nlm_device_database_set_num_copies ::
  "handle \<Rightarrow> u32 \<Rightarrow> u32 \<Rightarrow> fms_loader \<Rightarrow> (nlm_status \<times> fms_loader) option" where
  "nlm_device_database_set_num_copies who database_id num_copies p =
     (case check_master who of
        Some st \<Rightarrow> Some (st, p)
      | None \<Rightarrow>
          if NLM_MAX_DATABASE_ID < database_id then Some (NLM_INVALID_DATABASE_ID, p)
          else if 4 < num_copies then Some (NLM_INVALID_ARGUMENT, p)
          else
            let blocks = shadow_block_list p database_id;
                required = sint (sum_list (map (copies_missing num_copies p) blocks))
            in if blocks = [] then Some (NLM_INVALID_DATABASE_ID, p)
               else if 0 < required \<and> int (num_array_blocks_free p) < required then Some (NLM_INVALID_DATABASE_SIZE, p)
               else
                 Option.bind (delta_loop num_copies p blocks True 0 0) (\<lambda>delta.
                 Option.bind
                   (if 0 < delta then foldM (\<lambda>_. grow_once blocks) [0..<nat delta] p
                    else
                      Option.bind (with_hw LOCK_GID_BMAP p) (\<lambda>p1.
                      Option.bind (foldM (\<lambda>b. shrink_block b delta) blocks p1) (with_hw UNLOCK_GID_BMAP)))
                   (run_commands who)))"

section \<open>Balancing\<close>

text \<open>The loops over the databases; every change has to succeed or be in progress.\<close>

fun balance_loop ::
  "(u8 \<Rightarrow> bool) \<Rightarrow> u32 \<Rightarrow> handle \<Rightarrow> u32 list \<Rightarrow> nlm_status \<Rightarrow> fms_loader \<Rightarrow> (nlm_status \<times> fms_loader) option" where
  "balance_loop want num_copies who [] st p = Some (st, p)"
| "balance_loop want num_copies who (i # is) st p =
     (let blocks = shadow_block_list p i in
      if blocks \<noteq> [] \<and> want (no_clones_current (shadow_map p (hd blocks))) then
        Option.bind (nlm_device_database_set_num_copies who i num_copies p) (\<lambda>(st1, p1).
        assert_then (st1 = NLM_OK \<or> st1 = NLM_LOADER_IN_PROGRESS) (balance_loop want num_copies who is st1 p1))
      else balance_loop want num_copies who is st p)"

definition nlm_device_database_balance :: "handle \<Rightarrow> fms_loader \<Rightarrow> (nlm_status \<times> fms_loader) option" where
  "nlm_device_database_balance who p =
     (case check_master who of
        Some st \<Rightarrow> Some (st, p)
      | None \<Rightarrow>
          let occupied = length (filter (\<lambda>i. sh_valid (shadow_map p i)) [0..<nblocks p])
          in if occupied = 0 then Some (NLM_INVALID_DATABASE_ID, p)
             else
               let n = min 4 (nblocks p div occupied); ids = map word_of_nat [0..<Suc (unat NLM_MAX_DATABASE_ID)]
               in Option.bind (balance_loop (\<lambda>k. n < unat k) (word_of_nat n) who ids NLM_OK p) (\<lambda>(st, p1).
                  balance_loop (\<lambda>k. unat k < n) (word_of_nat n) who ids st p1))"

section \<open>Loading and unloading\<close>

definition swap_action :: "fms_action \<Rightarrow> fms_action" where
  "swap_action = (\<lambda>(a, b, c, d).
     (byteswap_constant_32 a, byteswap_constant_32 b, byteswap_constant_32 c, byteswap_constant_32 d))"

text \<open>Copying one block into shadow block \<open>i\<close>.\<close>

definition write_shadow_block :: "u32 \<Rightarrow> fms_block \<Rightarrow> nat \<Rightarrow> fms_loader \<Rightarrow> nlm_status \<times> fms_loader" where
  "write_shadow_block database_id b i p =
     (case nlm_extract_groups_from_block (b\<lparr>action_table := map swap_action (action_table b)\<rparr>) (block_group_list p i) database_id of
        (st, b1, gs) \<Rightarrow>
          let p1 = p\<lparr>extension_area := (extension_area p)(i := b1), block_group_list := (block_group_list p)(i := gs)\<rparr>
          in if st \<noteq> NLM_OK then (st, p1)
             else (NLM_OK, upd_shadow i (\<lambda>e. e\<lparr>sh_valid := True, sh_db_id := ucast database_id, virt_blk_no := word_of_nat i\<rparr>) p1))"

text \<open>The loop over the shadow blocks, until all blocks are written; the last component is the index
  it stops at.\<close>

fun write_blocks :: "u32 \<Rightarrow> fms_block list \<Rightarrow> nat list \<Rightarrow> nat \<Rightarrow> fms_loader \<Rightarrow> nlm_status \<times> fms_loader \<times> nat" where
  "write_blocks database_id bs [] k p = (NLM_OK, p, k)"
| "write_blocks database_id [] (i # is) k p = (NLM_OK, p, k)"
| "write_blocks database_id (b # bs) (i # is) k p =
     (if sh_valid (shadow_map p i) then write_blocks database_id (b # bs) is (Suc k) p
      else
        case write_shadow_block database_id b i p of (st, p1) \<Rightarrow>
          if st \<noteq> NLM_OK then (st, p1, k) else write_blocks database_id bs is (Suc k) p1)"

definition nlm_device_write_database_to_shadow :: "u32 \<Rightarrow> fms_block list \<Rightarrow> u32 \<Rightarrow> fms_loader \<Rightarrow> nlm_status \<times> fms_loader" where
  "nlm_device_write_database_to_shadow database_id blocks num_blocks p =
     (if word_of_nat (num_shadow_blocks_free p) < num_blocks then (NLM_INVALID_DATABASE_SIZE, p)
      else
        case write_blocks database_id (take (unat num_blocks) blocks) [0..<nblocks p] 0 p of
          (st, p1, k) \<Rightarrow> if st \<noteq> NLM_OK then (st, p1) else (NLM_OK, p1\<lparr>first_free_db_block := k\<rparr>))"

definition nlm_device_load_database ::
  "handle \<Rightarrow> fms_image option \<Rightarrow> u32 \<Rightarrow> u32 \<Rightarrow> u32 \<Rightarrow> fms_loader \<Rightarrow> (nlm_status \<times> fms_loader) option" where
  "nlm_device_load_database who database db_size database_id num_copies p =
     (case check_master who of
        Some st \<Rightarrow> Some (st, p)
      | None \<Rightarrow>
          if NLM_MAX_DATABASE_ID < database_id then Some (NLM_INVALID_DATABASE_ID, p)
          else
            Option.bind (nlm_device_loader_cmd_exec_fms who p) (\<lambda>(st, p1).
            if st = NLM_LOADER_IN_PROGRESS then Some (NLM_BUSY, p1)
            else
              Option.bind (nlm_loader_fms_check_params_and_head database db_size p1) (\<lambda>st.
              if st \<noteq> NLM_OK then Some (st, p1)
              else
                let old = shadow_block_list p1 database_id; num_blocks = block_cnt_of db_size
                in if old \<noteq> [] then
                     Some (if no_clones_target (shadow_map p1 (hd old)) \<noteq> 0 then NLM_INVALID_ARGUMENT else NLM_BUSY, p1)
                   else if 4 < num_copies then Some (NLM_INVALID_ARGUMENT, p1)
                   else if 0 < num_copies \<and> word_of_nat (num_array_blocks_free p1) < num_blocks * num_copies
                   then Some (NLM_INVALID_DATABASE_SIZE, p1)
                   else
                     case nlm_device_write_database_to_shadow database_id (im_blocks (the database)) num_blocks p1 of (st, p2) \<Rightarrow>
                       if st \<noteq> NLM_OK then Some (st, p2)
                       else
                         Option.bind
                           (if num_copies \<noteq> 0 then nlm_device_database_set_num_copies who database_id num_copies p2
                            else nlm_device_database_balance who p2) (\<lambda>(st, p3).
                         if st \<noteq> NLM_OK then Some (st, p3) else run_commands who p3))))"

definition unload_array_block :: "nat \<Rightarrow> nat \<Rightarrow> fms_loader \<Rightarrow> fms_loader option" where
  "unload_array_block s j p =
     (if map_current p j \<noteq> 0 \<and> word_of_nat s = array_virt_ids p j then
        Option.bind (nlm_device_block_scheduler_delete s j (push_bit (unat (copy_number p j)) 1) p) (nlm_device_loader_declone j s)
      else Some p)"

definition unload_block :: "nat \<Rightarrow> fms_loader \<Rightarrow> fms_loader option" where
  "unload_block s p =
     Option.bind (foldM (unload_array_block s) [0..<nblocks p] p) (nlm_device_loader_cmd_add (mk_cmd 0 s CMD_SHADOW_DELETE))"

definition nlm_device_unload_database :: "handle \<Rightarrow> u32 \<Rightarrow> fms_loader \<Rightarrow> (nlm_status \<times> fms_loader) option" where
  "nlm_device_unload_database who database_id p =
     (case check_master who of
        Some st \<Rightarrow> Some (st, p)
      | None \<Rightarrow>
          if NLM_MAX_DATABASE_ID < database_id then Some (NLM_INVALID_DATABASE_ID, p)
          else
            Option.bind (nlm_device_loader_cmd_exec_fms who p) (\<lambda>(st, p1).
            if st = NLM_LOADER_IN_PROGRESS then Some (NLM_BUSY, p1)
            else
              let blocks = shadow_block_list p1 database_id
              in if blocks = [] then Some (NLM_INVALID_DATABASE_ID, p1)
                 else
                   Option.bind (with_hw LOCK_GID_BMAP p1) (\<lambda>p2.
                   Option.bind (foldM unload_block blocks p2) (\<lambda>p3.
                   Option.bind (with_hw UNLOCK_GID_BMAP p3) (run_commands who)))))"

end
