(* ===== verification/Loader_Ring.thy ===== *)
theory Loader_Ring
  imports Loader_Cmd
begin

unbundle bit_operations_syntax

text \<open>
  What executing commands does to the bookkeeping of the loader, whatever the device answers. The
  command ring is a bounded FIFO. Every command has an effect on the books (the shadow entries and
  the four arrays); \<open>settled\<close> is the state of the books after all queued commands, and no
  call of nlm_device_loader_cmd_exec_fms changes it.
\<close>

section \<open>The command ring\<close>

definition cmd_ring_ok :: "fms_loader \<Rightarrow> bool" where
  "cmd_ring_ok p \<longleftrightarrow> unat (cmd_rd_ptr p) < 168 \<and> unat (cmd_wr_ptr p) < 168 \<and> length (loader_cmd_mem p) = 168"

definition num_pending :: "fms_loader \<Rightarrow> nat" where
  "num_pending p = (unat (cmd_wr_ptr p) + 168 - unat (cmd_rd_ptr p)) mod 168"

definition pending :: "fms_loader \<Rightarrow> loader_command list" where
  "pending p = ring_list 168 (unat (cmd_rd_ptr p)) (num_pending p) (loader_cmd_mem p)"

text \<open>Taking the next command, as a call that finishes it does.\<close>

definition cmd_fetch :: "fms_loader \<Rightarrow> (loader_command \<times> fms_loader) option" where
  "cmd_fetch p =
     (if cmd_rd_ptr p = cmd_wr_ptr p then None
      else Some (loader_cmd_mem p ! unat (cmd_rd_ptr p), p\<lparr>cmd_rd_ptr := next_cmd_ptr (cmd_rd_ptr p)\<rparr>))"

lemma length_pending [simp]: "length (pending p) = num_pending p"
  by (simp add: pending_def)

lemma next_cmd_ptr: "unat i < 168 \<Longrightarrow> unat (next_cmd_ptr i) = Suc (unat i) mod 168"
proof -
  assume "unat i < 168"
  then have "unat (i + 1) = Suc (unat i)" by (simp add: unat_word_ariths)
  then show ?thesis
    by (simp add: next_cmd_ptr_def NLM_FMS_LOADER_CMD_BUFF_SIZE_def TOTAL_FAMOS_BLOCKS_def unat_mod)
qed

lemma num_pending_facts:
  assumes "cmd_ring_ok p"
  shows "num_pending p < 168"
    and "(unat (cmd_rd_ptr p) + num_pending p) mod 168 = unat (cmd_wr_ptr p)"
    and "next_cmd_ptr (cmd_wr_ptr p) = cmd_rd_ptr p \<longleftrightarrow> num_pending p = 167"
    and "cmd_rd_ptr p = cmd_wr_ptr p \<longleftrightarrow> num_pending p = 0"
proof -
  have r: "unat (cmd_rd_ptr p) < 168" and w: "unat (cmd_wr_ptr p) < 168" using assms by (simp_all add: cmd_ring_ok_def)
  show "num_pending p < 168" by (simp add: num_pending_def)
  show "(unat (cmd_rd_ptr p) + num_pending p) mod 168 = unat (cmd_wr_ptr p)" using r w by (simp add: num_pending_def mod_simps)
  show "next_cmd_ptr (cmd_wr_ptr p) = cmd_rd_ptr p \<longleftrightarrow> num_pending p = 167"
    using r w unfolding word_unat_eq_iff num_pending_def by (simp add: next_cmd_ptr) (auto simp: mod_if mod_Suc)
  show "cmd_rd_ptr p = cmd_wr_ptr p \<longleftrightarrow> num_pending p = 0"
    using r w unfolding word_unat_eq_iff num_pending_def by (auto simp: mod_if)
qed

lemma cmd_add_Some:
  assumes ok: "cmd_ring_ok p" and add: "nlm_device_loader_cmd_add c p = Some q"
  shows "cmd_ring_ok q \<and> pending q = pending p @ [c] \<and>
    q = p\<lparr>loader_cmd_mem := loader_cmd_mem q, cmd_wr_ptr := cmd_wr_ptr q\<rparr>"
proof -
  have nf: "num_pending p \<noteq> 167" and q: "q = p\<lparr>loader_cmd_mem := (loader_cmd_mem p)[unat (cmd_wr_ptr p) := c],
      cmd_wr_ptr := next_cmd_ptr (cmd_wr_ptr p)\<rparr>"
    using add num_pending_facts(3) [OF ok] by (auto simp: nlm_device_loader_cmd_add_def)
  have w: "unat (cmd_wr_ptr p) < 168" and r: "unat (cmd_rd_ptr p) < 168" and len: "length (loader_cmd_mem p) = 168"
    using ok by (simp_all add: cmd_ring_ok_def)
  have ok': "cmd_ring_ok q" using ok w by (simp add: q cmd_ring_ok_def next_cmd_ptr)
  have cnt: "num_pending q = Suc (num_pending p)"
    using nf num_pending_facts(1) [OF ok] w r
    by (simp add: q num_pending_def next_cmd_ptr) (auto simp: mod_if mod_Suc split: if_splits)
  have "pending q = pending p @ [c]"
    unfolding pending_def cnt
    using nf num_pending_facts(1) [OF ok] num_pending_facts(2) [OF ok] len
    by (simp add: q) (rule ring_list_put, simp_all)
  with ok' show ?thesis by (simp add: q)
qed

lemma cmd_fetch_Some:
  assumes ok: "cmd_ring_ok p" and get: "cmd_fetch p = Some (c, q)"
  shows "cmd_ring_ok q \<and> pending p = c # pending q"
proof -
  have ne: "num_pending p \<noteq> 0" and q: "q = p\<lparr>cmd_rd_ptr := next_cmd_ptr (cmd_rd_ptr p)\<rparr>"
    and c: "c = loader_cmd_mem p ! unat (cmd_rd_ptr p)"
    using get num_pending_facts(4) [OF ok] by (auto simp: cmd_fetch_def split: if_splits)
  have w: "unat (cmd_wr_ptr p) < 168" and r: "unat (cmd_rd_ptr p) < 168" using ok by (simp_all add: cmd_ring_ok_def)
  have ok': "cmd_ring_ok q" using ok r by (simp add: q cmd_ring_ok_def next_cmd_ptr)
  have cnt: "num_pending q = num_pending p - 1"
    using ne w r by (simp add: q num_pending_def next_cmd_ptr) (auto simp: mod_if mod_Suc split: if_splits)
  have "pending p = loader_cmd_mem p ! (unat (cmd_rd_ptr p) mod 168) #
      ring_list 168 (Suc (unat (cmd_rd_ptr p))) (num_pending p - 1) (loader_cmd_mem p)"
    unfolding pending_def using ne by (intro ring_list_get) simp
  also have "ring_list 168 (Suc (unat (cmd_rd_ptr p))) (num_pending p - 1) (loader_cmd_mem p) = pending q"
    unfolding pending_def cnt using r by (simp add: q next_cmd_ptr)
  finally show ?thesis using ok' r c by simp
qed

interpretation cmd_ring: bounded_fifo cmd_ring_ok pending "\<lambda>_. 167" nlm_device_loader_cmd_add cmd_fetch
proof
  fix p q :: fms_loader and c
  assume ok: "cmd_ring_ok p"
  show "nlm_device_loader_cmd_add c p = None \<longleftrightarrow> 167 \<le> length (pending p)"
    using num_pending_facts(1,3) [OF ok] by (auto simp: nlm_device_loader_cmd_add_def assert_then_def)
  show "cmd_fetch p = None \<longleftrightarrow> pending p = []"
    using num_pending_facts(4) [OF ok] by (auto simp: cmd_fetch_def pending_def ring_list_def)
  show "cmd_ring_ok q \<and> pending q = pending p @ [c] \<and> 167 = (167 :: nat)" if "nlm_device_loader_cmd_add c p = Some q"
    using cmd_add_Some [OF ok that] by blast
  show "cmd_ring_ok q \<and> pending p = c # pending q \<and> 167 = (167 :: nat)" if "cmd_fetch p = Some (c, q)"
    using cmd_fetch_Some [OF ok that] by blast
qed

text \<open>Adding several commands, while there is room.\<close>

lemma cmds_add:
  assumes "cmd_ring_ok p" and "num_pending p + length cs \<le> 167"
  shows "\<exists>q. foldM nlm_device_loader_cmd_add cs p = Some q \<and> cmd_ring_ok q \<and> pending q = pending p @ cs \<and>
    q = p\<lparr>loader_cmd_mem := loader_cmd_mem q, cmd_wr_ptr := cmd_wr_ptr q\<rparr>"
  using assms
proof (induction cs arbitrary: p)
  case (Cons c cs)
  then obtain q where q: "nlm_device_loader_cmd_add c p = Some q" using cmd_ring.put_succeeds [of p c] by auto
  then have a: "cmd_ring_ok q" "pending q = pending p @ [c]" and e: "q = p\<lparr>loader_cmd_mem := loader_cmd_mem q, cmd_wr_ptr := cmd_wr_ptr q\<rparr>"
    using cmd_add_Some [OF Cons.prems(1) q] by blast+
  have "num_pending q = Suc (num_pending p)" using a(2) by (metis length_pending length_append_singleton)
  then obtain r where r: "foldM nlm_device_loader_cmd_add cs q = Some r" "cmd_ring_ok r" "pending r = pending q @ cs"
    "r = q\<lparr>loader_cmd_mem := loader_cmd_mem r, cmd_wr_ptr := cmd_wr_ptr r\<rparr>"
    using Cons.IH [OF a(1)] Cons.prems(2) by auto
  have "r = p\<lparr>loader_cmd_mem := loader_cmd_mem r, cmd_wr_ptr := cmd_wr_ptr r\<rparr>"
    by (subst r(4), subst e) simp
  with q a(2) r(1-3) show ?case by (intro exI [of _ r]) simp
qed simp

section \<open>The books\<close>

record books =
  bk_shadow :: "nat \<Rightarrow> shadow_entry"
  bk_virt :: "nat \<Rightarrow> u8"
  bk_current :: "nat \<Rightarrow> u8"
  bk_copy :: "nat \<Rightarrow> u8"

definition books_of :: "fms_loader \<Rightarrow> books" where
  "books_of p = \<lparr>bk_shadow = shadow_map p, bk_virt = array_virt_ids p, bk_current = map_current p, bk_copy = copy_number p\<rparr>"

definition bk_clones :: "books \<Rightarrow> nat \<Rightarrow> u8" where "bk_clones B s = no_clones_current (bk_shadow B s)"

definition set_clones :: "nat \<Rightarrow> u8 \<Rightarrow> books \<Rightarrow> books" where
  "set_clones s k B = B\<lparr>bk_shadow := (bk_shadow B)(s := (bk_shadow B s)\<lparr>no_clones_current := k\<rparr>)\<rparr>"

definition effect :: "loader_command \<Rightarrow> books \<Rightarrow> books" where
  "effect c B =
     (let a = unat (addr_array c); s = unat (addr_shadow c) in
      case opcode c of
        CMD_ARRAY_ADD \<Rightarrow> set_clones s (bk_clones B s + 1)
          (B\<lparr>bk_current := (bk_current B)(a := 1), bk_copy := (bk_copy B)(a := bk_clones B s)\<rparr>)
      | CMD_ARRAY_DELETE \<Rightarrow> set_clones s (bk_clones B s - 1) (B\<lparr>bk_current := (bk_current B)(a := 0)\<rparr>)
      | CMD_SHADOW_DELETE \<Rightarrow> B\<lparr>bk_shadow := (bk_shadow B)(s := (bk_shadow B s)\<lparr>sh_valid := False\<rparr>)\<rparr>
      | CMD_ASSIGN_VIRT_BLK_ID_WAIT \<Rightarrow> B\<lparr>bk_virt := (bk_virt B)(a := ucast (addr_shadow c))\<rparr>
      | _ \<Rightarrow> B)"

definition settled :: "fms_loader \<Rightarrow> books" where
  "settled p = fold effect (pending p) (books_of p)"

text \<open>What executing a command does not touch.\<close>

definition same_plan :: "fms_loader \<Rightarrow> fms_loader \<Rightarrow> bool" where
  "same_plan p q \<longleftrightarrow> cmd_rd_ptr q = cmd_rd_ptr p \<and> cmd_wr_ptr q = cmd_wr_ptr p \<and> loader_cmd_mem q = loader_cmd_mem p \<and>
     map_target q = map_target p \<and> num_fms_blocks q = num_fms_blocks p \<and> database_load_policy q = database_load_policy p \<and>
     pause_timeout q = pause_timeout p \<and> block_group_list q = block_group_list p \<and> extension_area q = extension_area p \<and>
     num_rows_per_fms_block q = num_rows_per_fms_block p \<and> first_free_db_block q = first_free_db_block p"

lemma same_plan_refl [simp]: "same_plan p p" by (simp add: same_plan_def)

lemma same_plan_trans: "same_plan p q \<Longrightarrow> same_plan q r \<Longrightarrow> same_plan p r" by (simp add: same_plan_def)

lemma same_plan_simps [simp]:
  "same_plan p (q\<lparr>ld_hw := h\<rparr>) = same_plan p q" "same_plan p (q\<lparr>wait_timeout := w\<rparr>) = same_plan p q"
  "same_plan p (q\<lparr>gid_bmap_shadow := g\<rparr>) = same_plan p q" "same_plan p (q\<lparr>map_current := f\<rparr>) = same_plan p q"
  "same_plan p (q\<lparr>copy_number := f\<rparr>) = same_plan p q" "same_plan p (q\<lparr>array_virt_ids := f\<rparr>) = same_plan p q"
  "same_plan p (q\<lparr>shadow_map := m\<rparr>) = same_plan p q" "same_plan p (upd_shadow i e q) = same_plan p q"
  "same_plan (p\<lparr>ld_hw := h\<rparr>) q = same_plan p q" "same_plan (p\<lparr>wait_timeout := w\<rparr>) q = same_plan p q"
  "same_plan (p\<lparr>gid_bmap_shadow := g\<rparr>) q = same_plan p q"
  by (simp_all add: same_plan_def upd_shadow_def)

lemma books_of_simps [simp]:
  "books_of (q\<lparr>ld_hw := h\<rparr>) = books_of q" "books_of (q\<lparr>wait_timeout := w\<rparr>) = books_of q"
  "books_of (q\<lparr>gid_bmap_shadow := g\<rparr>) = books_of q" "books_of (q\<lparr>cmd_rd_ptr := r\<rparr>) = books_of q"
  "books_of (q\<lparr>loader_cmd_mem := m, cmd_wr_ptr := r\<rparr>) = books_of q"
  "books_of (q\<lparr>map_target := f\<rparr>) = books_of q"
  by (simp_all add: books_of_def)

lemma same_plan_sel:
  assumes "same_plan p q"
  shows "pending q = pending p" and "cmd_ring_ok q = cmd_ring_ok p" and "num_pending q = num_pending p" and "map_target q = map_target p"
    and "num_fms_blocks q = num_fms_blocks p"
  using assms by (simp_all add: same_plan_def pending_def num_pending_def cmd_ring_ok_def)

lemma with_hw_plan: "with_hw f p = Some q \<Longrightarrow> same_plan p q \<and> books_of q = books_of p"
  by (auto simp: with_hw_def)

lemma block_scheduler_plan:
  assumes "block_scheduler f s t p = Some q" shows "same_plan p q \<and> books_of q = books_of p"
proof -
  obtain r where r: "foldM (sched_group f t (sh_db_id (shadow_map p s))) (groups_of p s) p = Some r"
    "with_hw (wait_clear GID_BMAP_CTRL 1) r = Some q"
    using assms by (auto simp: block_scheduler_def split: bind_splits)
  have "same_plan p r \<and> books_of r = books_of p"
  proof (rule foldM_invariant [OF r(1)])
    fix g u v
    assume step: "sched_group f t (sh_db_id (shadow_map p s)) g u = Some v" and u: "same_plan p u \<and> books_of u = books_of p"
    then show "same_plan p v \<and> books_of v = books_of p"
      unfolding sched_group_def Let_def by (auto dest!: with_hw_plan intro: same_plan_trans)
  qed simp
  then show ?thesis using with_hw_plan [OF r(2)] by (auto intro: same_plan_trans)
qed

lemma configure_plan:
  assumes "configure_gid_bmap s k p = Some q" shows "same_plan p q \<and> books_of q = books_of p"
proof -
  obtain p1 p2 where s: "with_hw LOCK_GID_BMAP p = Some p1" "foldM (configure_block s k) [0..<nblocks p1] p1 = Some p2"
    "with_hw UNLOCK_GID_BMAP p2 = Some q"
    using assms by (auto simp: configure_gid_bmap_def split: bind_splits)
  have "same_plan p1 p2 \<and> books_of p2 = books_of p1"
  proof (rule foldM_invariant [OF s(2)])
    fix j u v
    assume step: "configure_block s k j u = Some v" and u: "same_plan p1 u \<and> books_of u = books_of p1"
    have "same_plan u v \<and> books_of v = books_of u"
      using step unfolding configure_block_def
      by (rule foldM_invariant)
        (auto simp: nlm_device_block_scheduler_add_def dest!: block_scheduler_plan intro: same_plan_trans split: if_splits)
    with u show "same_plan p1 v \<and> books_of v = books_of p1" by (auto intro: same_plan_trans)
  qed simp
  then show ?thesis using with_hw_plan [OF s(1)] with_hw_plan [OF s(3)] by (auto intro: same_plan_trans)
qed

text \<open>A command that is finished has its effect; one that has to wait, or is given up, has none.\<close>

lemma move_block_plan:
  "nlm_device_move_block_from_shadow s a p = Some (st, q) \<Longrightarrow> same_plan p q \<and> books_of q = books_of p"
  by (auto simp: nlm_device_move_block_from_shadow_def Let_def split: if_splits prod.splits)

lemma exec_cmd_books:
  assumes "exec_cmd c p = Some (e, q)"
  shows "same_plan p q" and "books_of q = (if e = None then effect c (books_of p) else books_of p)"
    and "e = None \<or> e = Some NLM_LOADER_IN_PROGRESS \<or> e = Some NLM_LOADER_BLOCK_PAUSE_TIMEOUT"
proof -
  have "same_plan p q \<and> books_of q = (if e = None then effect c (books_of p) else books_of p) \<and>
    (e = None \<or> e = Some NLM_LOADER_IN_PROGRESS \<or> e = Some NLM_LOADER_BLOCK_PAUSE_TIMEOUT)"
  proof (cases "opcode c")
    case CMD_DMA_XFER_START
    with assms show ?thesis
      by (auto simp: exec_cmd_def effect_def Let_def dest!: move_block_plan)
  next
    case CMD_GID_BMAP_CONFIGURE
    with assms show ?thesis by (auto simp: exec_cmd_def effect_def Let_def dest!: configure_plan)
  next
    case CMD_ARRAY_ADD
    with assms show ?thesis
      by (auto simp: exec_cmd_def effect_def Let_def with_hw_def books_of_def bk_clones_def set_clones_def upd_shadow_def same_plan_def)
  next
    case CMD_ARRAY_DELETE
    with assms show ?thesis
      by (auto simp: exec_cmd_def effect_def Let_def with_hw_def books_of_def bk_clones_def set_clones_def upd_shadow_def same_plan_def)
  next
    case CMD_SHADOW_DELETE
    with assms show ?thesis
      by (auto simp: exec_cmd_def effect_def Let_def books_of_def upd_shadow_def same_plan_def)
  next
    case CMD_ASSIGN_VIRT_BLK_ID_WAIT
    with assms show ?thesis
      by (auto simp: exec_cmd_def effect_def Let_def books_of_def same_plan_def split: prod.splits if_splits)
  qed (use assms in \<open>auto simp: exec_cmd_def effect_def Let_def dest!: with_hw_plan split: prod.splits if_splits\<close>)
  then show "same_plan p q" "books_of q = (if e = None then effect c (books_of p) else books_of p)"
    "e = None \<or> e = Some NLM_LOADER_IN_PROGRESS \<or> e = Some NLM_LOADER_BLOCK_PAUSE_TIMEOUT" by blast+
qed

lemma exec_ring_settled:
  assumes ok: "cmd_ring_ok p" and ex: "exec_ring p = Some (st, q)"
  shows "cmd_ring_ok q" and "settled q = settled p" and "map_target q = map_target p" and "num_fms_blocks q = num_fms_blocks p"
    and "st = NLM_OK \<longleftrightarrow> pending q = []" and "pending q = pending p \<or> pending p = hd (pending p) # pending q"
proof -
  have "cmd_ring_ok q \<and> settled q = settled p \<and> map_target q = map_target p \<and> num_fms_blocks q = num_fms_blocks p \<and>
    (st = NLM_OK \<longleftrightarrow> pending q = []) \<and> (pending q = pending p \<or> pending p = hd (pending p) # pending q)"
  proof (cases "cmd_rd_ptr p = cmd_wr_ptr p")
    case True
    then have "st = NLM_OK" "q = p" using ex by (simp_all add: exec_ring_def)
    moreover have "pending p = []" using True num_pending_facts(4) [OF ok] by (simp add: pending_def ring_list_def)
    ultimately show ?thesis using ok by simp
  next
    case False
    then have ne: "pending p \<noteq> []" using num_pending_facts(4) [OF ok] by (metis length_pending list.size(3))
    let ?c = "loader_cmd_mem p ! unat (cmd_rd_ptr p)"
    obtain early p1 where e: "exec_cmd ?c p = Some (early, p1)" using ex False by (auto simp: exec_ring_def split: bind_splits)
    note b = exec_cmd_books [OF e] and sel = same_plan_sel [OF exec_cmd_books(1) [OF e]]
    have f: "cmd_fetch p = Some (?c, p\<lparr>cmd_rd_ptr := next_cmd_ptr (cmd_rd_ptr p)\<rparr>)" using False by (simp add: cmd_fetch_def)
    show ?thesis
    proof (cases early)
      case (Some s)
      then have "st = s" "q = p1" using ex e False by (simp_all add: exec_ring_def)
      then show ?thesis using Some b sel ok ne by (auto simp: settled_def)
    next
      case None
      let ?q = "p1\<lparr>cmd_rd_ptr := next_cmd_ptr (cmd_rd_ptr p1)\<rparr>"
      have q: "q = ?q" "st = (if cmd_rd_ptr ?q = cmd_wr_ptr ?q then NLM_OK else NLM_LOADER_IN_PROGRESS)"
        using None ex e False by (auto simp: exec_ring_def Let_def)
      have pq: "pending q = pending (p\<lparr>cmd_rd_ptr := next_cmd_ptr (cmd_rd_ptr p)\<rparr>)"
        and okq: "cmd_ring_ok q"
        using b(1) cmd_fetch_Some [OF ok f] by (simp_all add: q same_plan_def pending_def num_pending_def cmd_ring_ok_def)
      then have p: "pending p = ?c # pending q" using cmd_fetch_Some [OF ok f] by simp
      have "books_of q = effect ?c (books_of p)" using b(2) None by (simp add: q)
      then have "settled q = settled p" by (simp add: settled_def p)
      moreover have "st = NLM_OK \<longleftrightarrow> pending q = []"
        using num_pending_facts(4) [OF okq] q by (auto simp: pending_def ring_list_def)
      ultimately show ?thesis using okq p b(1) by (simp add: q same_plan_def)
    qed
  qed
  then show "cmd_ring_ok q" "settled q = settled p" "map_target q = map_target p" "num_fms_blocks q = num_fms_blocks p"
    "st = NLM_OK \<longleftrightarrow> pending q = []" "pending q = pending p \<or> pending p = hd (pending p) # pending q" by blast+
qed

end
