(* ===== verification/Loader_Run.thy ===== *)
theory Loader_Run
  imports Loader_Ring
begin

unbundle bit_operations_syntax

text \<open>
  The synchronous loop ends. The queue of the loader is a sequence of tasks: clone a shadow block
  into an array block, remove a copy, fill in the group map, forget a shadow block. With a device
  that keeps its documented promises (\<open>device_ok\<close>) the loop executes all of them, never fails an
  assertion and leaves the books \<open>settled\<close>.
\<close>

section \<open>The device\<close>

text \<open>From the trace: the blocks that are asked to pause, and whether no DMA transfer was started since
  the last time the transfer was seen to be complete.\<close>

definition check_map :: "access list \<Rightarrow> u32" where
  "check_map tr = fold (\<lambda>a m. case a of Wr reg v \<Rightarrow> if reg = BLOCK_IDLE_CHECK then v else m | Rd _ _ \<Rightarrow> m) tr 0"

definition dma_idle :: "access list \<Rightarrow> bool" where
  "dma_idle tr = fold (\<lambda>a b. case a of
     Wr reg v \<Rightarrow> b \<and> reg \<noteq> BLOCK_DMA_CONFIG2
   | Rd reg v \<Rightarrow> b \<or> reg = BLOCK_DMA_CONFIG2 \<and> v AND 1 = 0) tr True"

text \<open>The promises: a handshake ends; no block is refused; a block becomes idle only when it is
  asked to, and then before the timeout of the user; a transfer ends, and none starts by itself.\<close>

definition device_ok :: "(access list \<Rightarrow> u32 \<Rightarrow> u32) \<Rightarrow> u32 \<Rightarrow> bool" where
  "device_ok ans limit \<longleftrightarrow> handshakes ans \<and> (\<forall>tr. ans tr BLOCK_CTRL AND 4 = 0) \<and>
     (\<forall>tr. ans tr BLOCK_IDLE_CHECK = check_map tr) \<and>
     (\<forall>tr b. bit (ans tr BLOCK_IDLE_READY) b \<longrightarrow> bit (check_map tr) b) \<and>
     (\<forall>tr b. bit (check_map tr) b \<longrightarrow>
        (\<exists>k. (limit = 0 \<or> Suc k < unat limit) \<and> bit (ans (polls ans BLOCK_IDLE_READY tr k) BLOCK_IDLE_READY) b)) \<and>
     (\<forall>tr. dma_idle tr \<longrightarrow> ans tr BLOCK_DMA_CONFIG2 AND 1 = 0) \<and>
     (\<forall>tr. \<exists>k. k < 0xFFFFFFFF \<and> ans (polls ans BLOCK_DMA_CONFIG2 tr k) BLOCK_DMA_CONFIG2 AND 1 = 0)"

text \<open>The hardware side between commands: \<open>idle\<close> when no transfer is under way, \<open>m\<close> the blocks that pause.\<close>

definition hw_is :: "(access list \<Rightarrow> u32 \<Rightarrow> u32) \<Rightarrow> bool \<Rightarrow> u32 \<Rightarrow> hw \<Rightarrow> bool" where
  "hw_is ans idle m h \<longleftrightarrow> answer h = ans \<and> (idle \<longrightarrow> dma_idle (trace h)) \<and> check_map (trace h) = m"

lemma check_map_snoc [simp]:
  "check_map (tr @ [Rd reg v]) = check_map tr"
  "check_map (tr @ [Wr reg v]) = (if reg = BLOCK_IDLE_CHECK then v else check_map tr)"
  by (simp_all add: check_map_def)

lemma dma_idle_snoc [simp]:
  "dma_idle (tr @ [Wr reg v]) \<longleftrightarrow> dma_idle tr \<and> reg \<noteq> BLOCK_DMA_CONFIG2"
  "dma_idle (tr @ [Rd reg v]) \<longleftrightarrow> dma_idle tr \<or> reg = BLOCK_DMA_CONFIG2 \<and> v AND 1 = 0"
  by (simp_all add: dma_idle_def)

lemma hw_is_SET:
  "hw_is ans idle m h \<Longrightarrow> reg \<noteq> BLOCK_IDLE_CHECK \<Longrightarrow> reg \<noteq> BLOCK_DMA_CONFIG2 \<Longrightarrow> hw_is ans idle m (SET_HW_REGISTER reg v h)"
  by (simp add: hw_is_def SET_HW_REGISTER_def)

lemma hw_is_HW: "hw_is ans idle m h \<Longrightarrow> hw_is ans idle m (snd (HW_REGISTER reg h))"
  by (auto simp: hw_is_def HW_REGISTER_def Let_def)

lemma hw_is_SET_False:
  "hw_is ans idle m h \<Longrightarrow> reg \<noteq> BLOCK_IDLE_CHECK \<Longrightarrow> hw_is ans False m (SET_HW_REGISTER reg v h)"
  by (simp add: hw_is_def SET_HW_REGISTER_def)

lemma hw_is_SET_check: "hw_is ans idle m h \<Longrightarrow> hw_is ans idle v (SET_HW_REGISTER BLOCK_IDLE_CHECK v h)"
  by (simp add: hw_is_def SET_HW_REGISTER_def loader_regs)

lemma hw_is_weaken: "hw_is ans True m h \<Longrightarrow> hw_is ans idle m h"
  by (simp add: hw_is_def)

lemma wait_clear_hw_is:
  assumes "wait_clear reg m h = Some h'" and "hw_is ans idle c h" shows "hw_is ans idle c h'"
proof -
  have "hw_is ans idle c h \<longrightarrow> hw_is ans idle c h'"
  proof (rule wait_clear.raw_induct [where P = "\<lambda>reg m h h'. hw_is ans idle c h \<longrightarrow> hw_is ans idle c h'", OF _ assms(1)])
    fix wc reg m h h'
    assume IH: "\<And>reg m h h'. wc reg m h = Some h' \<Longrightarrow> hw_is ans idle c h \<longrightarrow> hw_is ans idle c h'"
      and step: "(let (v, h1) = HW_REGISTER reg h in if v AND m = 0 then Some h1 else wc reg m h1) = Some h'"
    show "hw_is ans idle c h \<longrightarrow> hw_is ans idle c h'"
      using step IH [of reg m "snd (HW_REGISTER reg h)" h'] hw_is_HW [of ans idle c h reg]
      by (cases "HW_REGISTER reg h") (auto split: if_splits)
  qed
  then show ?thesis using assms(2) ..
qed

lemma settles_hw_is:
  assumes "settles ans reg" and "hw_is ans idle m h"
  shows "\<exists>h'. wait_clear reg 1 h = Some h' \<and> hw_is ans idle m h'"
proof -
  have "settles (answer h) reg" using assms by (simp add: hw_is_def)
  then obtain h' where "wait_clear reg 1 h = Some h'" using settles_wait by blast
  with wait_clear_hw_is [OF this assms(2)] show ?thesis by blast
qed

section \<open>One command\<close>

abbreviation master :: handle where "master \<equiv> Some (0, 0)"

definition advanced :: "fms_loader \<Rightarrow> fms_loader \<Rightarrow> bool" where
  "advanced p q \<longleftrightarrow> same_plan (p\<lparr>cmd_rd_ptr := cmd_rd_ptr q\<rparr>) q"

definition finishes :: "loader_command list \<Rightarrow> loader_command list \<Rightarrow> fms_loader \<Rightarrow> fms_loader \<Rightarrow> bool" where
  "finishes cs rest p q \<longleftrightarrow> exec_all master p = exec_all master q \<and> cmd_ring_ok q \<and> pending q = rest \<and>
     books_of q = fold effect cs (books_of p) \<and> advanced p q"

lemma advanced_refl: "advanced p p" by (simp add: advanced_def)

lemma advanced_trans: "advanced p q \<Longrightarrow> advanced q r \<Longrightarrow> advanced p r"
  by (auto simp: advanced_def same_plan_def)

lemma same_plan_advanced: "same_plan p q \<Longrightarrow> advanced p q"
  by (simp add: advanced_def same_plan_def)

lemma finishes_trans:
  "finishes cs rest p q \<Longrightarrow> finishes ds rest' q r \<Longrightarrow> finishes (cs @ ds) rest' p r"
  by (auto simp: finishes_def intro: advanced_trans)

lemma exec_all_empty: "cmd_ring_ok p \<Longrightarrow> pending p = [] \<Longrightarrow> exec_all master p = Some (NLM_OK, p)"
proof -
  assume "cmd_ring_ok p" "pending p = []"
  then have "cmd_rd_ptr p = cmd_wr_ptr p" using num_pending_facts(4) by (metis length_pending list.size(3))
  then show ?thesis by (subst exec_all.simps) (simp add: nlm_device_loader_cmd_exec_fms_def check_master_def exec_ring_def)
qed

lemma exec_ring_head:
  assumes ok: "cmd_ring_ok p" and p: "pending p = c # cs"
  shows "cmd_rd_ptr p \<noteq> cmd_wr_ptr p" and "loader_cmd_mem p ! unat (cmd_rd_ptr p) = c"
proof -
  have "num_pending p \<noteq> 0" using p by (metis length_pending list.size(3) list.distinct(1) length_0_conv)
  then show ne: "cmd_rd_ptr p \<noteq> cmd_wr_ptr p" using num_pending_facts(4) [OF ok] by simp
  have "cmd_fetch p = Some (loader_cmd_mem p ! unat (cmd_rd_ptr p), p\<lparr>cmd_rd_ptr := next_cmd_ptr (cmd_rd_ptr p)\<rparr>)"
    using ne by (simp add: cmd_fetch_def)
  from cmd_fetch_Some [OF ok this] p show "loader_cmd_mem p ! unat (cmd_rd_ptr p) = c" by simp
qed

lemma exec_all_step:
  assumes ok: "cmd_ring_ok p" and ex: "exec_ring p = Some (st, q)" and st: "st \<noteq> NLM_LOADER_BLOCK_PAUSE_TIMEOUT"
    and st2: "st = NLM_OK \<or> st = NLM_LOADER_IN_PROGRESS"
  shows "exec_all master p = exec_all master q"
proof -
  have u: "exec_all master p = (if st \<noteq> NLM_LOADER_IN_PROGRESS then Some (st, q) else exec_all master q)"
    by (subst exec_all.simps) (simp add: nlm_device_loader_cmd_exec_fms_def check_master_def ex)
  show ?thesis
  proof (cases "st = NLM_OK")
    case True
    then have "pending q = []" "cmd_ring_ok q" using exec_ring_settled [OF ok ex] by auto
    then show ?thesis using u True exec_all_empty by simp
  next
    case False
    then show ?thesis using u st2 by simp
  qed
qed

lemma step_done:
  assumes ok: "cmd_ring_ok p" and p: "pending p = c # cs" and ex: "exec_cmd c p = Some (None, p1)"
  shows "\<exists>q. finishes [c] cs p q \<and> ld_hw q = ld_hw p1 \<and> wait_timeout q = wait_timeout p1"
proof -
  note h = exec_ring_head [OF ok p] and b = exec_cmd_books [OF ex]
  let ?q = "p1\<lparr>cmd_rd_ptr := next_cmd_ptr (cmd_rd_ptr p1)\<rparr>"
  let ?st = "if cmd_rd_ptr ?q = cmd_wr_ptr ?q then NLM_OK else NLM_LOADER_IN_PROGRESS"
  have ex': "exec_ring p = Some (?st, ?q)" using h ex by (simp add: exec_ring_def Let_def)
  have e: "exec_all master p = exec_all master ?q"
    using exec_all_step [OF ok ex'] by simp
  have f: "cmd_fetch p = Some (c, p\<lparr>cmd_rd_ptr := next_cmd_ptr (cmd_rd_ptr p)\<rparr>)" using h by (simp add: cmd_fetch_def)
  have pq: "pending ?q = pending (p\<lparr>cmd_rd_ptr := next_cmd_ptr (cmd_rd_ptr p)\<rparr>)"
    using b(1) by (simp add: same_plan_def pending_def num_pending_def)
  have "pending ?q = cs" using cmd_fetch_Some [OF ok f] p pq by simp
  moreover have "cmd_ring_ok ?q" using exec_ring_settled(1) [OF ok ex'] .
  moreover have "advanced p ?q" using b(1) by (simp add: advanced_def same_plan_def)
  ultimately have "finishes [c] cs p ?q" using e b(2) by (auto simp: finishes_def)
  then show ?thesis by (intro exI [of _ ?q]) simp
qed

lemma step_wait:
  assumes ok: "cmd_ring_ok p" and p: "pending p = c # cs" and ex: "exec_cmd c p = Some (Some NLM_LOADER_IN_PROGRESS, p1)"
  shows "exec_all master p = exec_all master p1" and "cmd_ring_ok p1" and "pending p1 = c # cs"
    and "books_of p1 = books_of p" and "advanced p p1"
proof -
  note h = exec_ring_head [OF ok p] and b = exec_cmd_books [OF ex]
  have ex': "exec_ring p = Some (NLM_LOADER_IN_PROGRESS, p1)" using h ex by (simp add: exec_ring_def)
  show "exec_all master p = exec_all master p1" using exec_all_step [OF ok ex'] by simp
  show "cmd_ring_ok p1" "pending p1 = c # cs" "books_of p1 = books_of p" "advanced p p1"
    using b same_plan_sel [OF b(1)] ok p same_plan_advanced by auto
qed

text \<open>Waiting: \<open>R k\<close> holds when at most \<open>k\<close> more calls are needed.\<close>

lemma wait_cmd:
  assumes "cmd_ring_ok p" and "pending p = c # cs" and "R k p"
    and step: "\<And>i p. R i p \<Longrightarrow> \<exists>e p1. exec_cmd c p = Some (e, p1) \<and>
      (e = None \<and> Q (ld_hw p1) \<or> e = Some NLM_LOADER_IN_PROGRESS \<and> (\<exists>j. i = Suc j \<and> R j p1))"
  shows "\<exists>q. finishes [c] cs p q \<and> Q (ld_hw q)"
  using assms(1-3)
proof (induction k arbitrary: p)
  case 0
  then obtain p1 where "exec_cmd c p = Some (None, p1)" "Q (ld_hw p1)" using step by fastforce
  then show ?case using step_done [OF 0(1,2)] by metis
next
  case (Suc k)
  from step [OF Suc.prems(3)] obtain e p1 where e: "exec_cmd c p = Some (e, p1)"
    "e = None \<and> Q (ld_hw p1) \<or> e = Some NLM_LOADER_IN_PROGRESS \<and> R k p1" by auto
  show ?case
  proof (cases "e = None")
    case True
    then show ?thesis using e step_done [OF Suc.prems(1,2)] by fastforce
  next
    case False
    with e have x: "exec_cmd c p = Some (Some NLM_LOADER_IN_PROGRESS, p1)" and R: "R k p1" by auto
    note w = step_wait [OF Suc.prems(1,2) x]
    obtain q where "finishes [c] cs p1 q" "Q (ld_hw q)" using Suc.IH [OF w(2,3) R] by blast
    then show ?thesis using w by (intro exI [of _ q]) (auto simp: finishes_def intro: advanced_trans)
  qed
qed

section \<open>Every command ends\<close>

definition keeps :: "(access list \<Rightarrow> u32 \<Rightarrow> u32) \<Rightarrow> bool \<Rightarrow> u32 \<Rightarrow> (hw \<Rightarrow> hw option) \<Rightarrow> bool" where
  "keeps ans idle m f \<longleftrightarrow> (\<forall>h. hw_is ans idle m h \<longrightarrow> (\<exists>h'. f h = Some h' \<and> hw_is ans idle m h'))"

lemma keepsI: "(\<And>h. hw_is ans idle m h \<Longrightarrow> \<exists>h'. f h = Some h' \<and> hw_is ans idle m h') \<Longrightarrow> keeps ans idle m f"
  by (simp add: keeps_def)

lemma keepsD: "keeps ans idle m f \<Longrightarrow> hw_is ans idle m h \<Longrightarrow> \<exists>h'. f h = Some h' \<and> hw_is ans idle m h'"
  by (simp add: keeps_def)

lemma keeps_wait: "settles ans reg \<Longrightarrow> keeps ans idle m (wait_clear reg 1)"
  by (intro keepsI settles_hw_is)

lemma keeps_foldM: "(\<And>x. x \<in> set xs \<Longrightarrow> keeps ans idle m (f x)) \<Longrightarrow> keeps ans idle m (foldM f xs)"
  by (intro keepsI foldM_returns) (auto simp: keeps_def)

lemma action_keeps:
  assumes "handshakes ans" shows "keeps ans idle m (nlm_device_load_action_table blk b)"
  unfolding nlm_device_load_action_table_def
proof (intro keeps_foldM keepsI)
  fix i h assume h: "hw_is ans idle m h"
  obtain d0 d1 d2 d3 where d: "action_table b ! i = (d0, d1, d2, d3)" by (cases "action_table b ! i")
  have s: "settles ans ACTION_CTRL" using assms by (simp add: handshakes_def)
  show "\<exists>h'. WRITE_ACTION_TABLE_ENTRY (word_of_nat blk) (word_of_nat i) (action_table b ! i) h = Some h' \<and> hw_is ans idle m h'"
    unfolding d WRITE_ACTION_TABLE_ENTRY_def prod.case
    by (intro settles_hw_is [OF s] hw_is_SET h) (simp_all add: loader_regs)
qed

lemma gid_keeps:
  assumes "handshakes ans" shows "keeps ans idle m (WRITE_GID_BMAP_ENTRY db g ws)"
proof (rule keepsI)
  fix h assume h: "hw_is ans idle m h"
  obtain d0 d1 where d: "ws = (d0, d1)" by (cases ws)
  have s: "settles ans GID_BMAP_CTRL" using assms by (simp add: handshakes_def)
  obtain h1 where h1: "wait_clear GID_BMAP_CTRL 1 h = Some h1" "hw_is ans idle m h1" using settles_hw_is [OF s h] by blast
  have "hw_is ans idle m (SET_HW_REGISTER GID_BMAP_CTRL (push_bit 26 db OR push_bit 16 g OR 1)
         (SET_HW_REGISTER GID_BMAP_DATA1 d1 (SET_HW_REGISTER GID_BMAP_DATA0 d0 h1)))"
    by (intro hw_is_SET h1) (simp_all add: loader_regs)
  with h1(1) show "\<exists>h'. WRITE_GID_BMAP_ENTRY db g ws h = Some h' \<and> hw_is ans idle m h'"
    by (simp add: WRITE_GID_BMAP_ENTRY_def d)
qed

lemma lock_keeps:
  assumes "handshakes ans" shows "keeps ans idle m LOCK_GID_BMAP" and "keeps ans idle m UNLOCK_GID_BMAP"
  using assms
  by (auto intro!: keepsI settles_hw_is hw_is_SET simp: LOCK_GID_BMAP_def UNLOCK_GID_BMAP_def handshakes_def loader_regs)

text \<open>The operations of the loader that only talk to the device.\<close>

definition hw_only :: "(access list \<Rightarrow> u32 \<Rightarrow> u32) \<Rightarrow> bool \<Rightarrow> u32 \<Rightarrow> fms_loader \<Rightarrow> fms_loader \<Rightarrow> bool" where
  "hw_only ans idle m p q \<longleftrightarrow> hw_is ans idle m (ld_hw q) \<and> wait_timeout q = wait_timeout p \<and> same_plan p q \<and> books_of q = books_of p"

lemma hw_only_hw: "hw_only ans idle m p q \<Longrightarrow> hw_is ans idle m (ld_hw q)" by (simp add: hw_only_def)

lemma hw_only_trans: "hw_only ans idle m p q \<Longrightarrow> hw_only ans idle m q r \<Longrightarrow> hw_only ans idle m p r"
  by (auto simp: hw_only_def intro: same_plan_trans)

lemma with_hw_returns:
  assumes "keeps ans idle m f" and "hw_is ans idle m (ld_hw p)"
  shows "\<exists>q. with_hw f p = Some q \<and> hw_only ans idle m p q"
  using keepsD [OF assms] by (auto simp: with_hw_def hw_only_def)

lemma scheduler_hw:
  assumes "handshakes ans" and "hw_is ans idle m (ld_hw p)"
  shows "\<exists>q. block_scheduler f s t p = Some q \<and> hw_only ans idle m p q"
proof -
  have "\<exists>r. foldM (sched_group f t (sh_db_id (shadow_map p s))) (groups_of p s) p = Some r \<and> hw_only ans idle m p r"
  proof (rule foldM_returns)
    show "hw_only ans idle m p p" using assms(2) by (simp add: hw_only_def)
    fix g u assume u: "hw_only ans idle m p u"
    define e where "e = sched_entry f t (gid_bmap_shadow u (sh_db_id (shadow_map p s)) g)"
    let ?u = "u\<lparr>gid_bmap_shadow := (gid_bmap_shadow u)
      (sh_db_id (shadow_map p s) := (gid_bmap_shadow u (sh_db_id (shadow_map p s)))(g := e))\<rparr>"
    have h: "hw_is ans idle m (ld_hw ?u)" using u by (simp add: hw_only_def)
    obtain v where v: "with_hw (WRITE_GID_BMAP_ENTRY (ucast (sh_db_id (shadow_map p s))) (ucast g) (gid_words e)) ?u = Some v"
      "hw_only ans idle m ?u v" using with_hw_returns [OF gid_keeps [OF assms(1)] h] by blast
    have "hw_only ans idle m u ?u" using u by (simp add: hw_only_def)
    then show "\<exists>t'. sched_group f t (sh_db_id (shadow_map p s)) g u = Some t' \<and> hw_only ans idle m p t'"
      using v u by (auto simp: sched_group_def Let_def e_def intro: hw_only_trans)
  qed
  then obtain r where r: "foldM (sched_group f t (sh_db_id (shadow_map p s))) (groups_of p s) p = Some r" "hw_only ans idle m p r"
    by blast
  have "settles ans GID_BMAP_CTRL" using assms(1) by (simp add: handshakes_def)
  then obtain q where "with_hw (wait_clear GID_BMAP_CTRL 1) r = Some q" "hw_only ans idle m r q"
    using with_hw_returns [OF keeps_wait hw_only_hw [OF r(2)]] by blast
  then show ?thesis using r hw_only_trans by (fastforce simp: block_scheduler_def)
qed

lemma configure_hw:
  assumes a: "handshakes ans" and h: "hw_is ans idle m (ld_hw p)"
  shows "\<exists>q. configure_gid_bmap s k p = Some q \<and> hw_only ans idle m p q"
proof -
  obtain p1 where p1: "with_hw LOCK_GID_BMAP p = Some p1" "hw_only ans idle m p p1"
    using with_hw_returns [OF lock_keeps(1) [OF a] h] by blast
  have "\<exists>p2. foldM (configure_block s k) [0..<nblocks p1] p1 = Some p2 \<and> hw_only ans idle m p p2"
  proof (rule foldM_returns [where P = "hw_only ans idle m p", OF p1(2)])
    fix j u assume u: "hw_only ans idle m p u"
    show "\<exists>t. configure_block s k j u = Some t \<and> hw_only ans idle m p t"
      unfolding configure_block_def
    proof (rule foldM_returns [where P = "hw_only ans idle m p", OF u])
      fix b v assume v: "hw_only ans idle m p v"
      then have "\<exists>q. nlm_device_block_scheduler_add b j (push_bit (unat (copy_number v j)) 1) v = Some q \<and> hw_only ans idle m v q"
        unfolding nlm_device_block_scheduler_add_def by (intro scheduler_hw [OF a] hw_only_hw)
      with v show "\<exists>t. (if word_of_nat b = array_virt_ids v j \<and> map_current v j \<noteq> 0 \<and> no_clones_current (shadow_map v b) = k
          then nlm_device_block_scheduler_add b j (push_bit (unat (copy_number v j)) 1) v else Some v) = Some t \<and> hw_only ans idle m p t"
        by (auto intro: hw_only_trans)
    qed
  qed
  then obtain p2 where p2: "foldM (configure_block s k) [0..<nblocks p1] p1 = Some p2" "hw_only ans idle m p p2" by blast
  obtain q where "with_hw UNLOCK_GID_BMAP p2 = Some q" "hw_only ans idle m p2 q"
    using with_hw_returns [OF lock_keeps(2) [OF a] hw_only_hw [OF p2(2)]] by blast
  then show ?thesis using p1(1) p2 hw_only_trans by (fastforce simp: configure_gid_bmap_def)
qed

lemma mk_cmd_sel [simp]:
  "opcode (mk_cmd a s op) = op" "a < 16 \<Longrightarrow> unat (addr_array (mk_cmd a s op)) = a"
  "s < 16 \<Longrightarrow> unat (addr_shadow (mk_cmd a s op)) = s"
  by (simp_all add: mk_cmd_def unsigned_of_nat take_bit_nat_eq_self)

lemma and_bit_eq_0: "v AND 2 ^ n = 0 \<longleftrightarrow> \<not> bit v n" if "n < 32" for v :: u32
proof
  assume "v AND 2 ^ n = 0"
  then have "bit (v AND 2 ^ n) n \<longleftrightarrow> bit (0 :: u32) n" by simp
  then show "\<not> bit v n" using that by (simp add: bit_simps)
next
  assume "\<not> bit v n"
  then show "v AND 2 ^ n = 0" by (intro bit_word_eqI) (auto simp: bit_simps)
qed

lemma block_register_neq: "a < 16 \<Longrightarrow> c \<in> {0x6810, 0x6814} \<Longrightarrow> c + (0x6818 - 0x6810) * word_of_nat a \<noteq> (0x2788 :: u32)"
proof
  assume a: "a < 16" "c \<in> {0x6810, 0x6814}" and e: "c + (0x6818 - 0x6810) * word_of_nat a = (0x2788 :: u32)"
  have "c + (0x6818 - 0x6810) * word_of_nat a = (word_of_nat (unat c + 8 * a) :: u32)" by simp
  then have "unat (c + (0x6818 - 0x6810) * word_of_nat a :: u32) = (unat c + 8 * a) mod 4294967296"
    by (simp only: unsigned_of_nat take_bit_eq_mod) simp
  then show False using a e by auto
qed

text \<open>The head of the queue is executed; \<open>idle\<close> and \<open>m\<close> describe the device before and after.\<close>

definition executes ::
  "(access list \<Rightarrow> u32 \<Rightarrow> u32) \<Rightarrow> bool \<Rightarrow> u32 \<Rightarrow> loader_command list \<Rightarrow> loader_command list \<Rightarrow> fms_loader \<Rightarrow> fms_loader \<Rightarrow> bool" where
  "executes ans idle m cs rest p q \<longleftrightarrow> finishes cs rest p q \<and> hw_is ans idle m (ld_hw q)"

definition at_head :: "(access list \<Rightarrow> u32 \<Rightarrow> u32) \<Rightarrow> bool \<Rightarrow> u32 \<Rightarrow> loader_command list \<Rightarrow> fms_loader \<Rightarrow> bool" where
  "at_head ans idle m cs p \<longleftrightarrow> cmd_ring_ok p \<and> pending p = cs \<and> hw_is ans idle m (ld_hw p) \<and> device_ok ans (pause_timeout p)"

lemma executes_head: "executes ans idle m cs rest p q \<Longrightarrow> at_head ans i k (cs @ rest) p \<Longrightarrow> at_head ans idle m rest q"
  by (auto simp: executes_def at_head_def finishes_def advanced_def same_plan_def)

lemma executes_trans:
  "executes ans i k cs rest p q \<Longrightarrow> executes ans idle m ds rest' q r \<Longrightarrow> executes ans idle m (cs @ ds) rest' p r"
  by (auto simp: executes_def intro: finishes_trans)

lemma executes_now:
  assumes "at_head ans i k (c # cs) p" and "exec_cmd c p = Some (None, p1)" and "hw_is ans idle m (ld_hw p1)"
  shows "\<exists>q. executes ans idle m [c] cs p q \<and> wait_timeout q = wait_timeout p1"
proof -
  have h: "cmd_ring_ok p" "pending p = c # cs" using assms(1) by (auto simp: at_head_def)
  from step_done [OF h assms(2)] assms(3) show ?thesis by (auto simp: executes_def)
qed

lemma run_dma_start:
  assumes h: "at_head ans True m (mk_cmd a s CMD_DMA_XFER_START # cs) p" and a: "a < 16" and s: "s < 16"
  shows "\<exists>q. executes ans False m [mk_cmd a s CMD_DMA_XFER_START] cs p q \<and> wait_timeout q = 0xFFFFFFFF"
proof -
  let ?p = "p\<lparr>wait_timeout := FMS_MAX_DMA_WAIT_TIMEOUT\<rparr>"
  have hw: "hw_is ans True m (ld_hw p)" using h by (simp add: at_head_def)
  have idle: "\<not> fst (IS_DMA_BUSY (ld_hw p))"
    using h by (auto simp: at_head_def device_ok_def hw_is_def IS_DMA_BUSY_def HW_REGISTER_def Let_def)
  have n: "c + (0x6818 - 0x6810) * word_of_nat a \<noteq> (0x2788 :: u32)" if "c \<in> {0x6810, 0x6814}" for c
    using block_register_neq [OF a that] .
  obtain st p1 where m: "nlm_device_move_block_from_shadow s a ?p = Some (st, p1)" "hw_is ans False m (ld_hw p1)"
    "wait_timeout p1 = FMS_MAX_DMA_WAIT_TIMEOUT"
  proof (cases "nblocks p < s \<or> nblocks p < a")
    case True
    then have "nlm_device_move_block_from_shadow s a ?p = Some (NLM_INVALID_ARGUMENT, ?p)"
      by (simp add: nlm_device_move_block_from_shadow_def)
    then show ?thesis using that [of NLM_INVALID_ARGUMENT ?p] hw by (simp add: hw_is_def)
  next
    case False
    let ?h = "SET_HW_REGISTER (BLOCK0_CONFIG + FMS_BLK_REG_STEP * word_of_nat a) 1
      (SET_HW_REGISTER (BLOCK0_OFFSET + FMS_BLK_REG_STEP * word_of_nat a) (word_of_nat s * ucast sizeof_block) (snd (IS_DMA_BUSY (ld_hw p))))"
    let ?h1 = "SET_HW_REGISTER BLOCK_DMA_CONFIG2 1 (SET_HW_REGISTER BLOCK_DMA_CONFIG1 (num_rows_per_fms_block p)
      (SET_HW_REGISTER BLOCK_DMA_CONFIG0 (push_bit 24 (word_of_nat a)) ?h))"
    have mv: "nlm_device_move_block_from_shadow s a ?p = Some (NLM_OK, ?p\<lparr>ld_hw := ?h1\<rparr>)"
      using False idle by (cases "IS_DMA_BUSY (ld_hw p)") (simp add: nlm_device_move_block_from_shadow_def)
    have b: "hw_is ans False m (snd (IS_DMA_BUSY (ld_hw p)))"
      using hw_is_HW [OF hw_is_weaken [OF hw, of False], of BLOCK_DMA_CONFIG2]
      by (cases "HW_REGISTER BLOCK_DMA_CONFIG2 (ld_hw p)") (simp add: IS_DMA_BUSY_def)
    have "hw_is ans False m ?h1"
      using n [of "0x6810"] n [of "0x6814"] by (intro hw_is_SET_False [where idle = False] b) (simp_all add: loader_regs)
    with mv show ?thesis using that [of NLM_OK "?p\<lparr>ld_hw := ?h1\<rparr>"] by simp
  qed
  have "exec_cmd (mk_cmd a s CMD_DMA_XFER_START) p = Some (None, p1)" using m a s by (simp add: exec_cmd_def)
  from executes_now [OF h this m(2)] m(3) show ?thesis by (simp add: FMS_MAX_DMA_WAIT_TIMEOUT_def)
qed

lemma run_dma_wait:
  assumes h: "at_head ans idle m (mk_cmd a s CMD_DMA_XFER_COMPLETE_WAIT # cs) p" and w: "wait_timeout p = 0xFFFFFFFF"
  shows "\<exists>q. executes ans True m [mk_cmd a s CMD_DMA_XFER_COMPLETE_WAIT] cs p q"
proof -
  let ?c = "mk_cmd a s CMD_DMA_XFER_COMPLETE_WAIT"
  define R where "R i (p :: fms_loader) \<longleftrightarrow> hw_is ans False m (ld_hw p) \<and> i < unat (wait_timeout p) \<and>
    ans (polls ans BLOCK_DMA_CONFIG2 (trace (ld_hw p)) i) BLOCK_DMA_CONFIG2 AND 1 = 0" for i p
  obtain k where "k < 0xFFFFFFFF" "ans (polls ans BLOCK_DMA_CONFIG2 (trace (ld_hw p)) k) BLOCK_DMA_CONFIG2 AND 1 = 0"
    using h unfolding at_head_def device_ok_def by blast
  then have "R k p" using h w by (simp add: R_def at_head_def hw_is_def)
  moreover have "\<exists>e p1. exec_cmd ?c p = Some (e, p1) \<and>
      (e = None \<and> hw_is ans True m (ld_hw p1) \<or> e = Some NLM_LOADER_IN_PROGRESS \<and> (\<exists>j. i = Suc j \<and> R j p1))" if r: "R i p" for i p
  proof -
    let ?v = "ans (trace (ld_hw p)) BLOCK_DMA_CONFIG2"
    let ?h = "(ld_hw p)\<lparr>trace := trace (ld_hw p) @ [Rd BLOCK_DMA_CONFIG2 ?v]\<rparr>"
    have an: "answer (ld_hw p) = ans" and w0: "wait_timeout p \<noteq> 0" using r by (auto simp: R_def hw_is_def)
    have ex: "exec_cmd ?c p = (if ?v AND 1 \<noteq> 0 then Some (Some NLM_LOADER_IN_PROGRESS, p\<lparr>ld_hw := ?h, wait_timeout := wait_timeout p - 1\<rparr>)
        else Some (None, p\<lparr>ld_hw := ?h\<rparr>))"
      using w0 an by (simp add: exec_cmd_def IS_DMA_BUSY_def HW_REGISTER_def Let_def)
    show ?thesis
    proof (cases "?v AND 1 = 0")
      case True
      have "hw_is ans True m ?h" using r True by (simp add: R_def hw_is_def)
      with True ex show ?thesis by simp
    next
      case False
      then obtain j where j: "i = Suc j" using r by (cases i) (simp_all add: R_def)
      have "unat (wait_timeout p - 1) = unat (wait_timeout p) - 1" using w0 by (simp add: unat_minus_one)
      then have "R j (p\<lparr>ld_hw := ?h, wait_timeout := wait_timeout p - 1\<rparr>)" using r j by (auto simp: R_def hw_is_def)
      with False ex j show ?thesis by simp
    qed
  qed
  ultimately show ?thesis
    using wait_cmd [of p ?c cs R k "hw_is ans True m"] h unfolding at_head_def executes_def by blast
qed

lemma run_virt_wait:
  assumes h: "at_head ans idle m (mk_cmd a s CMD_ASSIGN_VIRT_BLK_ID_WAIT # cs) p"
  shows "\<exists>q. executes ans idle m [mk_cmd a s CMD_ASSIGN_VIRT_BLK_ID_WAIT] cs p q"
proof -
  let ?c = "mk_cmd a s CMD_ASSIGN_VIRT_BLK_ID_WAIT"
  define R where "R i (p :: fms_loader) \<longleftrightarrow> hw_is ans idle m (ld_hw p) \<and> ans (polls ans FAMOS_CTRL (trace (ld_hw p)) i) FAMOS_CTRL AND 1 = 0" for i p
  obtain k where "ans (polls ans FAMOS_CTRL (trace (ld_hw p)) k) FAMOS_CTRL AND 1 = 0"
    using h unfolding at_head_def device_ok_def handshakes_def settles_def by blast
  then have "R k p" using h by (simp add: R_def at_head_def)
  moreover have "\<exists>e p1. exec_cmd ?c p = Some (e, p1) \<and>
      (e = None \<and> hw_is ans idle m (ld_hw p1) \<or> e = Some NLM_LOADER_IN_PROGRESS \<and> (\<exists>j. i = Suc j \<and> R j p1))" if r: "R i p" for i p
  proof -
    let ?v = "ans (trace (ld_hw p)) FAMOS_CTRL"
    let ?h = "(ld_hw p)\<lparr>trace := trace (ld_hw p) @ [Rd FAMOS_CTRL ?v]\<rparr>"
    have an: "answer (ld_hw p) = ans" using r by (auto simp: R_def hw_is_def)
    have hw: "hw_is ans idle m ?h" using r by (auto simp: R_def hw_is_def)
    have ex: "exec_cmd ?c p = (if ?v AND 1 \<noteq> 0 then Some (Some NLM_LOADER_IN_PROGRESS, p\<lparr>ld_hw := ?h\<rparr>)
        else Some (None, p\<lparr>ld_hw := ?h, array_virt_ids := (array_virt_ids p)(unat (addr_array ?c) := ucast (addr_shadow ?c))\<rparr>))"
      using an by (simp add: exec_cmd_def HW_REGISTER_def Let_def)
    show ?thesis
    proof (cases "?v AND 1 = 0")
      case True
      with hw ex show ?thesis by simp
    next
      case False
      then obtain j where "i = Suc j" using r by (cases i) (simp_all add: R_def)
      with r hw have "R j (p\<lparr>ld_hw := ?h\<rparr>)" by (simp add: R_def)
      with False ex \<open>i = Suc j\<close> show ?thesis by simp
    qed
  qed
  ultimately show ?thesis
    using wait_cmd [of p ?c cs R k "hw_is ans idle m"] h unfolding at_head_def executes_def by blast
qed

lemma at_head_hw: "at_head ans idle m cs p \<Longrightarrow> hw_is ans idle m (ld_hw p)" by (simp add: at_head_def)

lemma at_head_handshakes: "at_head ans idle m cs p \<Longrightarrow> handshakes ans" by (simp add: at_head_def device_ok_def)

lemma run_action_load:
  assumes h: "at_head ans idle m (mk_cmd a s CMD_ACTION_TABLE_LOAD # cs) p"
  shows "\<exists>q. executes ans idle m [mk_cmd a s CMD_ACTION_TABLE_LOAD] cs p q"
proof -
  let ?c = "mk_cmd a s CMD_ACTION_TABLE_LOAD"
  obtain p1 where p1: "with_hw (nlm_device_load_action_table (unat (addr_array ?c)) (extension_area p (unat (addr_shadow ?c)))) p = Some p1"
    "hw_only ans idle m p p1"
    using with_hw_returns [OF action_keeps [OF at_head_handshakes [OF h]] at_head_hw [OF h]] by blast
  then have "exec_cmd ?c p = Some (None, p1)" by (simp add: exec_cmd_def)
  from executes_now [OF h this hw_only_hw [OF p1(2)]] show ?thesis by blast
qed

lemma run_assign_virt:
  assumes h: "at_head ans idle m (mk_cmd a s CMD_ASSIGN_VIRT_BLK_ID # cs) p"
  shows "\<exists>q. executes ans idle m [mk_cmd a s CMD_ASSIGN_VIRT_BLK_ID] cs p q"
proof -
  let ?c = "mk_cmd a s CMD_ASSIGN_VIRT_BLK_ID"
  have "hw_is ans idle m (BLOCK_SET_VIRT_ID_ASYNC (ucast (addr_array ?c)) (ucast (addr_shadow ?c)) (ld_hw p))"
    unfolding BLOCK_SET_VIRT_ID_ASYNC_def by (intro hw_is_SET at_head_hw [OF h]) (simp_all add: loader_regs)
  moreover have "exec_cmd ?c p = Some (None, p\<lparr>ld_hw := BLOCK_SET_VIRT_ID_ASYNC (ucast (addr_array ?c)) (ucast (addr_shadow ?c)) (ld_hw p)\<rparr>)"
    by (simp add: exec_cmd_def)
  ultimately show ?thesis using executes_now [OF h] by fastforce
qed

lemma block_ctrl_keeps:
  assumes "handshakes ans" shows "keeps ans idle m (BLOCK_ADD a)"
    and "(\<forall>tr. ans tr BLOCK_CTRL AND 4 = 0) \<Longrightarrow> keeps ans idle m (BLOCK_DELETE a)"
proof -
  have s: "settles ans BLOCK_CTRL" using assms by (simp add: handshakes_def)
  have set: "hw_is ans idle m (SET_HW_REGISTER BLOCK_CTRL v (SET_HW_REGISTER BLOCK_CTRL_MAP w h))" if "hw_is ans idle m h" for v w h
    by (intro hw_is_SET that) (simp_all add: loader_regs)
  show "keeps ans idle m (BLOCK_ADD a)"
  proof (rule keepsI)
    fix h assume "hw_is ans idle m h"
    from settles_hw_is [OF s set [OF this, of 3 "push_bit a 1"]]
    show "\<exists>h'. BLOCK_ADD a h = Some h' \<and> hw_is ans idle m h'" by (auto simp: BLOCK_ADD_def intro: hw_is_HW)
  qed
  assume no: "\<forall>tr. ans tr BLOCK_CTRL AND 4 = 0"
  show "keeps ans idle m (BLOCK_DELETE a)"
  proof (rule keepsI)
    fix h assume "hw_is ans idle m h"
    from settles_hw_is [OF s set [OF this, of 1 "push_bit a 1"]] obtain h1
      where h1: "wait_clear BLOCK_CTRL 1 (SET_HW_REGISTER BLOCK_CTRL 1 (SET_HW_REGISTER BLOCK_CTRL_MAP (push_bit a 1) h)) = Some h1"
        "hw_is ans idle m h1" by blast
    have "fst (HW_REGISTER BLOCK_CTRL h1) AND 4 = 0" using no h1(2) by (simp add: HW_REGISTER_def Let_def hw_is_def)
    then show "\<exists>h'. BLOCK_DELETE a h = Some h' \<and> hw_is ans idle m h'"
      using h1 hw_is_HW [OF h1(2), of BLOCK_CTRL] by (cases "HW_REGISTER BLOCK_CTRL h1") (simp add: BLOCK_DELETE_def)
  qed
qed

lemma run_array_add:
  assumes h: "at_head ans idle m (mk_cmd a s CMD_ARRAY_ADD # cs) p"
  shows "\<exists>q. executes ans idle m [mk_cmd a s CMD_ARRAY_ADD] cs p q"
proof -
  let ?c = "mk_cmd a s CMD_ARRAY_ADD"
  obtain p1 where p1: "with_hw (BLOCK_ADD (unat (addr_array ?c))) p = Some p1" "hw_only ans idle m p p1"
    using with_hw_returns [OF block_ctrl_keeps(1) [OF at_head_handshakes [OF h]] at_head_hw [OF h]] by blast
  obtain p2 where p2: "exec_cmd ?c p = Some (None, p2)" "ld_hw p2 = ld_hw p1" using p1(1) by (simp add: exec_cmd_def Let_def upd_shadow_def)
  from executes_now [OF h p2(1)] p2(2) hw_only_hw [OF p1(2)] show ?thesis by auto
qed

lemma run_array_delete:
  assumes h: "at_head ans idle m (mk_cmd a s CMD_ARRAY_DELETE # cs) p"
  shows "\<exists>q. executes ans idle m [mk_cmd a s CMD_ARRAY_DELETE] cs p q"
proof -
  let ?c = "mk_cmd a s CMD_ARRAY_DELETE"
  have "\<forall>tr. ans tr BLOCK_CTRL AND 4 = 0" using h by (simp add: at_head_def device_ok_def)
  then obtain p1 where p1: "with_hw (BLOCK_DELETE (unat (addr_array ?c))) p = Some p1" "hw_only ans idle m p p1"
    using with_hw_returns [OF block_ctrl_keeps(2) [OF at_head_handshakes [OF h]] at_head_hw [OF h]] by blast
  obtain p2 where p2: "exec_cmd ?c p = Some (None, p2)" "ld_hw p2 = ld_hw p1" using p1(1) by (simp add: exec_cmd_def Let_def upd_shadow_def)
  from executes_now [OF h p2(1)] p2(2) hw_only_hw [OF p1(2)] show ?thesis by auto
qed

lemma run_configure:
  assumes h: "at_head ans idle m (mk_cmd a s CMD_GID_BMAP_CONFIGURE # cs) p"
  shows "\<exists>q. executes ans idle m [mk_cmd a s CMD_GID_BMAP_CONFIGURE] cs p q"
proof -
  let ?c = "mk_cmd a s CMD_GID_BMAP_CONFIGURE"
  obtain p1 where p1: "configure_gid_bmap (unat (addr_shadow ?c)) (ucast (addr_array ?c)) p = Some p1" "hw_only ans idle m p p1"
    using configure_hw [OF at_head_handshakes [OF h] at_head_hw [OF h]] by blast
  then have "exec_cmd ?c p = Some (None, p1)" by (simp add: exec_cmd_def)
  from executes_now [OF h this hw_only_hw [OF p1(2)]] show ?thesis by blast
qed

lemma run_shadow_delete:
  assumes h: "at_head ans idle m (mk_cmd a s CMD_SHADOW_DELETE # cs) p" and s: "s < 16" and z: "bk_clones (books_of p) s = 0"
  shows "\<exists>q. executes ans idle m [mk_cmd a s CMD_SHADOW_DELETE] cs p q"
proof -
  have "exec_cmd (mk_cmd a s CMD_SHADOW_DELETE) p = Some (None, upd_shadow s (\<lambda>e. e\<lparr>sh_valid := False\<rparr>) p)"
    using z s by (simp add: exec_cmd_def Let_def upd_shadow_def bk_clones_def books_of_def)
  from executes_now [OF h this] at_head_hw [OF h] show ?thesis by (auto simp: upd_shadow_def)
qed

lemma run_pause:
  assumes h: "at_head ans idle m (mk_cmd a s CMD_PAUSE # cs) p" and a: "a < 16" and m: "\<not> bit m a"
  shows "\<exists>q. executes ans idle (m OR push_bit a 1) [mk_cmd a s CMD_PAUSE] cs p q \<and> wait_timeout q = pause_timeout p"
proof -
  let ?c = "mk_cmd a s CMD_PAUSE" and ?h = "ld_hw p"
  let ?h1 = "snd (HW_REGISTER BLOCK_IDLE_READY ?h)"
  let ?h2 = "snd (HW_REGISTER BLOCK_IDLE_CHECK ?h1)"
  have hw: "hw_is ans idle m ?h" using at_head_hw [OF h] .
  have "\<not> bit (fst (HW_REGISTER BLOCK_IDLE_READY ?h)) a"
    using h m by (auto simp: at_head_def device_ok_def HW_REGISTER_def Let_def hw_is_def)
  then have r: "fst (HW_REGISTER BLOCK_IDLE_READY ?h) AND push_bit a 1 = 0" using a by (simp add: and_bit_eq_0)
  have h1: "hw_is ans idle m ?h1" using hw by (rule hw_is_HW)
  then have c: "fst (HW_REGISTER BLOCK_IDLE_CHECK ?h1) = m"
    using h by (simp add: at_head_def device_ok_def HW_REGISTER_def Let_def hw_is_def)
  have h2: "hw_is ans idle m ?h2" using h1 by (rule hw_is_HW)
  let ?h3 = "SET_HW_REGISTER BLOCK_IDLE_CHECK (m OR push_bit a 1) ?h2"
  have h3: "hw_is ans idle (m OR push_bit a 1) ?h3" using h2 by (simp add: hw_is_def SET_HW_REGISTER_def loader_regs)
  have "BLOCK_PAUSE a ?h = Some ?h3"
    using r c by (cases "HW_REGISTER BLOCK_IDLE_READY ?h", cases "HW_REGISTER BLOCK_IDLE_CHECK ?h1") (simp add: BLOCK_PAUSE_def)
  then have ex: "exec_cmd ?c p = Some (None, p\<lparr>wait_timeout := pause_timeout p, ld_hw := ?h3\<rparr>)"
    using a by (simp add: exec_cmd_def with_hw_def)
  from executes_now [OF h ex] h3 show ?thesis by simp
qed

lemma run_pause_wait:
  assumes h: "at_head ans idle m (mk_cmd a s CMD_PAUSE_WAIT # cs) p" and a: "a < 16" and m: "bit m a" and w: "wait_timeout p = pause_timeout p"
  shows "\<exists>q. executes ans idle m [mk_cmd a s CMD_PAUSE_WAIT] cs p q"
proof -
  let ?c = "mk_cmd a s CMD_PAUSE_WAIT"
  define R where "R i (p :: fms_loader) \<longleftrightarrow> hw_is ans idle m (ld_hw p) \<and> (wait_timeout p = 0 \<or> Suc i < unat (wait_timeout p)) \<and>
    bit (ans (polls ans BLOCK_IDLE_READY (trace (ld_hw p)) i) BLOCK_IDLE_READY) a" for i p
  have "bit (check_map (trace (ld_hw p))) a" using at_head_hw [OF h] m by (simp add: hw_is_def)
  then obtain k where "pause_timeout p = 0 \<or> Suc k < unat (pause_timeout p)"
    "bit (ans (polls ans BLOCK_IDLE_READY (trace (ld_hw p)) k) BLOCK_IDLE_READY) a"
    using h unfolding at_head_def device_ok_def by blast
  then have "R k p" using at_head_hw [OF h] w by (simp add: R_def)
  moreover have "\<exists>e p1. exec_cmd ?c p = Some (e, p1) \<and>
      (e = None \<and> hw_is ans idle m (ld_hw p1) \<or> e = Some NLM_LOADER_IN_PROGRESS \<and> (\<exists>j. i = Suc j \<and> R j p1))" if r: "R i p" for i p
  proof -
    let ?v = "ans (trace (ld_hw p)) BLOCK_IDLE_READY"
    let ?h = "(ld_hw p)\<lparr>trace := trace (ld_hw p) @ [Rd BLOCK_IDLE_READY ?v]\<rparr>"
    let ?p = "p\<lparr>ld_hw := ?h, wait_timeout := if wait_timeout p \<noteq> 0 then wait_timeout p - 1 else wait_timeout p\<rparr>"
    have an: "answer (ld_hw p) = ans" and w1: "wait_timeout p \<noteq> 1" using r by (auto simp: R_def hw_is_def)
    have hw: "hw_is ans idle m ?h" using r by (auto simp: R_def hw_is_def)
    have ex: "exec_cmd ?c p = (if bit ?v a then Some (None, p\<lparr>ld_hw := ?h\<rparr>) else Some (Some NLM_LOADER_IN_PROGRESS, ?p))"
      using w1 an a by (simp add: exec_cmd_def IS_BLOCK_PAUSED_def HW_REGISTER_def Let_def and_bit_eq_0)
    show ?thesis
    proof (cases "bit ?v a")
      case True
      with hw ex show ?thesis by simp
    next
      case False
      then obtain j where j: "i = Suc j" using r by (cases i) (simp_all add: R_def)
      have "wait_timeout p \<noteq> 0 \<Longrightarrow> unat (wait_timeout p - 1) = unat (wait_timeout p) - 1" by (simp add: unat_minus_one)
      then have "R j ?p" using r j hw by (auto simp: R_def)
      with False ex j show ?thesis by simp
    qed
  qed
  ultimately show ?thesis
    using wait_cmd [of p ?c cs R k "hw_is ans idle m"] h unfolding at_head_def executes_def by blast
qed

lemma run_resume:
  assumes h: "at_head ans idle m (mk_cmd a s CMD_RESUME # cs) p" and a: "a < 16"
  shows "\<exists>q. executes ans idle (m AND NOT (push_bit a 1)) [mk_cmd a s CMD_RESUME] cs p q"
proof -
  let ?h = "ld_hw p"
  let ?h1 = "snd (HW_REGISTER BLOCK_IDLE_CHECK ?h)"
  have hw: "hw_is ans idle m ?h" using at_head_hw [OF h] .
  then have c: "fst (HW_REGISTER BLOCK_IDLE_CHECK ?h) = m"
    using h by (simp add: at_head_def device_ok_def HW_REGISTER_def Let_def hw_is_def)
  have h1: "hw_is ans idle m ?h1" using hw by (rule hw_is_HW)
  have "BLOCK_RESUME a ?h = SET_HW_REGISTER BLOCK_IDLE_CHECK (m AND NOT (push_bit a 1)) ?h1"
    using c by (cases "HW_REGISTER BLOCK_IDLE_CHECK ?h") (simp add: BLOCK_RESUME_def)
  then have h2: "hw_is ans idle (m AND NOT (push_bit a 1)) (BLOCK_RESUME a ?h)" using hw_is_SET_check [OF h1] by simp
  have ex: "exec_cmd (mk_cmd a s CMD_RESUME) p = Some (None, p\<lparr>wait_timeout := FMS_MAX_WAIT_TIMEOUT, ld_hw := BLOCK_RESUME a ?h\<rparr>)"
    using a by (simp add: exec_cmd_def)
  from executes_now [OF h ex] h2 show ?thesis by auto
qed

section \<open>Tasks\<close>

datatype task = Clone nat nat | Declone nat nat | Configure nat nat | Forget nat

fun cmds_of :: "task \<Rightarrow> loader_command list" where
  "cmds_of (Clone a s) = clone_cmds a s"
| "cmds_of (Declone a s) = declone_cmds a s"
| "cmds_of (Configure k s) = [mk_cmd k s CMD_GID_BMAP_CONFIGURE]"
| "cmds_of (Forget s) = [mk_cmd 0 s CMD_SHADOW_DELETE]"

fun task_blocks :: "task \<Rightarrow> nat \<times> nat" where
  "task_blocks (Clone a s) = (a, s)"
| "task_blocks (Declone a s) = (a, s)"
| "task_blocks (Configure k s) = (k, s)"
| "task_blocks (Forget s) = (0, s)"

text \<open>A shadow block is forgotten only when it has no copies left.\<close>

fun tasks_ok :: "task list \<Rightarrow> books \<Rightarrow> bool" where
  "tasks_ok [] B \<longleftrightarrow> True"
| "tasks_ok (t # ts) B \<longleftrightarrow> fst (task_blocks t) < 16 \<and> snd (task_blocks t) < 16 \<and>
     (\<forall>s. t = Forget s \<longrightarrow> bk_clones B s = 0) \<and> tasks_ok ts (fold effect (cmds_of t) B)"

lemma run_clone:
  assumes h: "at_head ans True m (clone_cmds a s @ cs) p" and a: "a < 16" and s: "s < 16"
  shows "\<exists>q. executes ans True m (clone_cmds a s) cs p q"
proof -
  let ?c = "mk_cmd a s"
  note clone_cmds_def [simp]
  obtain q1 where q1: "executes ans False m [?c CMD_DMA_XFER_START] ([?c CMD_DMA_XFER_COMPLETE_WAIT, ?c CMD_ACTION_TABLE_LOAD,
      ?c CMD_ASSIGN_VIRT_BLK_ID, ?c CMD_ASSIGN_VIRT_BLK_ID_WAIT, ?c CMD_ARRAY_ADD] @ cs) p q1" "wait_timeout q1 = 0xFFFFFFFF"
    using run_dma_start [of ans m a s _ p] h a s by fastforce
  note h1 = executes_head [OF q1(1)]
  obtain q2 where q2: "executes ans True m [?c CMD_DMA_XFER_COMPLETE_WAIT] ([?c CMD_ACTION_TABLE_LOAD,
      ?c CMD_ASSIGN_VIRT_BLK_ID, ?c CMD_ASSIGN_VIRT_BLK_ID_WAIT, ?c CMD_ARRAY_ADD] @ cs) q1 q2"
    using run_dma_wait [of ans False m a s _ q1] h1 h q1(2) by fastforce
  note e2 = executes_trans [OF q1(1) q2]
  obtain q3 where q3: "executes ans True m [?c CMD_ACTION_TABLE_LOAD] ([?c CMD_ASSIGN_VIRT_BLK_ID, ?c CMD_ASSIGN_VIRT_BLK_ID_WAIT,
      ?c CMD_ARRAY_ADD] @ cs) q2 q3"
    using run_action_load [of ans True m a s _ q2] executes_head [OF e2] h by fastforce
  note e3 = executes_trans [OF e2 q3]
  obtain q4 where q4: "executes ans True m [?c CMD_ASSIGN_VIRT_BLK_ID] ([?c CMD_ASSIGN_VIRT_BLK_ID_WAIT, ?c CMD_ARRAY_ADD] @ cs) q3 q4"
    using run_assign_virt [of ans True m a s _ q3] executes_head [OF e3] h by fastforce
  note e4 = executes_trans [OF e3 q4]
  obtain q5 where q5: "executes ans True m [?c CMD_ASSIGN_VIRT_BLK_ID_WAIT] ([?c CMD_ARRAY_ADD] @ cs) q4 q5"
    using run_virt_wait [of ans True m a s _ q4] executes_head [OF e4] h by fastforce
  note e5 = executes_trans [OF e4 q5]
  obtain q6 where q6: "executes ans True m [?c CMD_ARRAY_ADD] cs q5 q6"
    using run_array_add [of ans True m a s _ q5] executes_head [OF e5] h by fastforce
  from executes_trans [OF e5 q6] show ?thesis by auto
qed

lemma run_declone:
  assumes h: "at_head ans True 0 (declone_cmds a s @ cs) p" and a: "a < 16" and s: "s < 16"
  shows "\<exists>q. executes ans True 0 (declone_cmds a s) cs p q"
proof -
  let ?c = "mk_cmd a s" and ?m = "0 OR push_bit a 1 :: u32"
  note declone_cmds_def [simp]
  obtain q1 where q1: "executes ans True ?m [?c CMD_PAUSE] ([?c CMD_PAUSE_WAIT, ?c CMD_ARRAY_DELETE, ?c CMD_RESUME] @ cs) p q1"
    "wait_timeout q1 = pause_timeout p"
    using run_pause [of ans True 0 a s _ p] h a by fastforce
  have "pause_timeout q1 = pause_timeout p" using q1(1) by (simp add: executes_def finishes_def advanced_def same_plan_def)
  moreover have "bit ?m a" using a by (simp add: bit_simps)
  ultimately obtain q2 where q2: "executes ans True ?m [?c CMD_PAUSE_WAIT] ([?c CMD_ARRAY_DELETE, ?c CMD_RESUME] @ cs) q1 q2"
    using run_pause_wait [of ans True ?m a s _ q1] executes_head [OF q1(1)] h a q1(2) by fastforce
  note e2 = executes_trans [OF q1(1) q2]
  obtain q3 where q3: "executes ans True ?m [?c CMD_ARRAY_DELETE] ([?c CMD_RESUME] @ cs) q2 q3"
    using run_array_delete [of ans True ?m a s _ q2] executes_head [OF e2] h by fastforce
  note e3 = executes_trans [OF e2 q3]
  obtain q4 where q4: "executes ans True (?m AND NOT (push_bit a 1)) [?c CMD_RESUME] cs q3 q4"
    using run_resume [of ans True ?m a s _ q3] executes_head [OF e3] h a by fastforce
  have "?m AND NOT (push_bit a 1) = 0" by simp
  with executes_trans [OF e3 q4] show ?thesis by auto
qed

lemma run_task:
  assumes h: "at_head ans True 0 (cmds_of t @ cs) p" and ok: "tasks_ok (t # ts) (books_of p)"
  shows "\<exists>q. executes ans True 0 (cmds_of t) cs p q"
  using assms run_clone run_declone run_configure run_shadow_delete by (cases t) auto

text \<open>All tasks are executed, and the loop returns.\<close>

lemma run_tasks:
  assumes "at_head ans True 0 (concat (map cmds_of ts)) p" and "tasks_ok ts (books_of p)"
  shows "\<exists>q. exec_all master p = Some (NLM_OK, q) \<and> at_head ans True 0 [] q \<and> books_of q = settled p \<and> advanced p q"
proof -
  have "\<exists>q. executes ans True 0 (concat (map cmds_of ts)) [] p q"
    using assms
  proof (induction ts arbitrary: p)
    case Nil
    then show ?case by (intro exI [of _ p]) (simp add: executes_def finishes_def at_head_def advanced_refl)
  next
    case (Cons t ts)
    then obtain q where q: "executes ans True 0 (cmds_of t) (concat (map cmds_of ts)) p q" using run_task by fastforce
    have "at_head ans True 0 (concat (map cmds_of ts)) q" using executes_head [OF q] Cons.prems(1) by simp
    moreover have "tasks_ok ts (books_of q)" using Cons.prems(2) q by (simp add: executes_def finishes_def)
    ultimately obtain r where r: "executes ans True 0 (concat (map cmds_of ts)) [] q r" using Cons.IH by blast
    show ?case using executes_trans [OF q r] by (intro exI [of _ r]) simp
  qed
  then obtain q where q: "executes ans True 0 (concat (map cmds_of ts)) [] p q" by blast
  then have "cmd_ring_ok q" "pending q = []" "exec_all master p = exec_all master q" "advanced p q"
    "books_of q = fold effect (concat (map cmds_of ts)) (books_of p)"
    by (simp_all add: executes_def finishes_def)
  moreover have "at_head ans True 0 [] q" using executes_head [OF q, of True 0] assms(1) by simp
  moreover have "pending p = concat (map cmds_of ts)" using assms(1) by (simp add: at_head_def)
  ultimately show ?thesis using exec_all_empty by (auto simp: settled_def)
qed

end
