(* ===== verification/Loader_Copies.thy ===== *)
theory Loader_Copies
  imports Loader_Run
begin

unbundle bit_operations_syntax

text \<open>
  What the operations of the loader achieve. \<open>consistent\<close> says that the plan and the books
  agree: the target map is the map of occupied array blocks, and the copies of every shadow block are
  numbered from 0 on. Setting the number of copies, unloading and loading, started on an idle loader,
  return with the loader idle again and the books as requested.
\<close>

section \<open>Consistent books\<close>

definition bk_target :: "books \<Rightarrow> nat \<Rightarrow> u8" where "bk_target B s = no_clones_target (bk_shadow B s)"

definition set_target :: "nat \<Rightarrow> u8 \<Rightarrow> books \<Rightarrow> books" where
  "set_target s k B = B\<lparr>bk_shadow := (bk_shadow B)(s := (bk_shadow B s)\<lparr>no_clones_target := k\<rparr>)\<rparr>"

definition copies_of :: "nat \<Rightarrow> books \<Rightarrow> nat \<Rightarrow> nat set" where
  "copies_of n B s = {a. a < n \<and> bk_current B a \<noteq> 0 \<and> bk_virt B a = word_of_nat s}"

definition numbered :: "nat \<Rightarrow> books \<Rightarrow> nat \<Rightarrow> bool" where
  "numbered n B s \<longleftrightarrow> bij_betw (\<lambda>a. unat (bk_copy B a)) (copies_of n B s) {..<unat (bk_clones B s)}"

definition consistent :: "nat \<Rightarrow> (nat \<Rightarrow> u8) \<Rightarrow> books \<Rightarrow> bool" where
  "consistent n T B \<longleftrightarrow> n \<le> 12 \<and> (\<forall>a<n. T a = bk_current B a) \<and>
     (\<forall>s<n. bk_target B s = bk_clones B s \<and> numbered n B s) \<and>
     (\<forall>a<n. bk_current B a \<noteq> 0 \<longrightarrow> (\<exists>s<n. bk_virt B a = word_of_nat s \<and> sh_valid (bk_shadow B s)))"

definition add_copy :: "nat \<Rightarrow> nat \<Rightarrow> books \<Rightarrow> books" where
  "add_copy a s B = set_target s (bk_target B s + 1) (set_clones s (bk_clones B s + 1)
     (B\<lparr>bk_virt := (bk_virt B)(a := word_of_nat s), bk_current := (bk_current B)(a := 1), bk_copy := (bk_copy B)(a := bk_clones B s)\<rparr>))"

definition del_copy :: "nat \<Rightarrow> nat \<Rightarrow> books \<Rightarrow> books" where
  "del_copy a s B = set_target s (bk_target B s - 1) (set_clones s (bk_clones B s - 1) (B\<lparr>bk_current := (bk_current B)(a := 0)\<rparr>))"

lemma set_target_sel [simp]:
  "bk_virt (set_target s k B) = bk_virt B" "bk_current (set_target s k B) = bk_current B" "bk_copy (set_target s k B) = bk_copy B"
  "bk_clones (set_target s k B) = bk_clones B" "bk_target (set_target s k B) t = (if t = s then k else bk_target B t)"
  "sh_valid (bk_shadow (set_target s k B) t) = sh_valid (bk_shadow B t)"
  "sh_db_id (bk_shadow (set_target s k B) t) = sh_db_id (bk_shadow B t)"
  by (auto simp: set_target_def bk_clones_def bk_target_def)

lemma set_clones_sel [simp]:
  "bk_virt (set_clones s k B) = bk_virt B" "bk_current (set_clones s k B) = bk_current B" "bk_copy (set_clones s k B) = bk_copy B"
  "bk_target (set_clones s k B) = bk_target B" "bk_clones (set_clones s k B) t = (if t = s then k else bk_clones B t)"
  "sh_valid (bk_shadow (set_clones s k B) t) = sh_valid (bk_shadow B t)"
  "sh_db_id (bk_shadow (set_clones s k B) t) = sh_db_id (bk_shadow B t)"
  by (auto simp: set_clones_def bk_clones_def bk_target_def)

lemma bk_update_sel [simp]:
  "bk_clones (B\<lparr>bk_virt := v\<rparr>) = bk_clones B" "bk_clones (B\<lparr>bk_current := c\<rparr>) = bk_clones B" "bk_clones (B\<lparr>bk_copy := d\<rparr>) = bk_clones B"
  "bk_target (B\<lparr>bk_virt := v\<rparr>) = bk_target B" "bk_target (B\<lparr>bk_current := c\<rparr>) = bk_target B" "bk_target (B\<lparr>bk_copy := d\<rparr>) = bk_target B"
  by (auto simp: bk_clones_def bk_target_def)

lemma add_copy_sel [simp]:
  "bk_virt (add_copy a s B) = (bk_virt B)(a := word_of_nat s)" "bk_current (add_copy a s B) = (bk_current B)(a := 1)"
  "bk_copy (add_copy a s B) = (bk_copy B)(a := bk_clones B s)"
  "bk_clones (add_copy a s B) t = (if t = s then bk_clones B s + 1 else bk_clones B t)"
  "bk_target (add_copy a s B) t = (if t = s then bk_target B s + 1 else bk_target B t)"
  "sh_valid (bk_shadow (add_copy a s B) t) = sh_valid (bk_shadow B t)"
  "sh_db_id (bk_shadow (add_copy a s B) t) = sh_db_id (bk_shadow B t)"
  by (simp_all add: add_copy_def)

lemma del_copy_sel [simp]:
  "bk_virt (del_copy a s B) = bk_virt B" "bk_current (del_copy a s B) = (bk_current B)(a := 0)" "bk_copy (del_copy a s B) = bk_copy B"
  "bk_clones (del_copy a s B) t = (if t = s then bk_clones B s - 1 else bk_clones B t)"
  "bk_target (del_copy a s B) t = (if t = s then bk_target B s - 1 else bk_target B t)"
  "sh_valid (bk_shadow (del_copy a s B) t) = sh_valid (bk_shadow B t)"
  "sh_db_id (bk_shadow (del_copy a s B) t) = sh_db_id (bk_shadow B t)"
  by (simp_all add: del_copy_def)

lemma unat_of_nat_u8: "s < 256 \<Longrightarrow> unat (word_of_nat s :: u8) = s"
  by (simp add: unsigned_of_nat take_bit_nat_eq_self)

lemma word_of_nat_u8_inj: "s < 256 \<Longrightarrow> t < 256 \<Longrightarrow> (word_of_nat s :: u8) = word_of_nat t \<longleftrightarrow> s = t"
  by (metis unat_of_nat_u8)

lemma finite_copies_of [simp]: "finite (copies_of n B s)"
  by (rule finite_subset [of _ "{..<n}"]) (auto simp: copies_of_def)

lemma card_copies: "numbered n B s \<Longrightarrow> card (copies_of n B s) = unat (bk_clones B s)"
  unfolding numbered_def by (drule bij_betw_same_card) simp

lemma clones_le:
  assumes "numbered n B s" shows "unat (bk_clones B s) \<le> n"
  using card_mono [of "{..<n}" "copies_of n B s"] card_copies [OF assms] by (auto simp: copies_of_def)

lemma numbered_cong:
  assumes "copies_of n B s = copies_of n C s" and "\<And>a. a \<in> copies_of n C s \<Longrightarrow> bk_copy B a = bk_copy C a"
    and "bk_clones B s = bk_clones C s"
  shows "numbered n B s \<longleftrightarrow> numbered n C s"
proof -
  have "bij_betw (\<lambda>a. unat (bk_copy B a)) (copies_of n C s) X \<longleftrightarrow> bij_betw (\<lambda>a. unat (bk_copy C a)) (copies_of n C s) X" for X
    by (rule bij_betw_cong) (simp add: assms(2))
  then show ?thesis using assms(1,3) by (simp add: numbered_def)
qed

text \<open>A new copy in a free array block gets the next number.\<close>

lemma consistent_add:
  assumes c: "consistent n T B" and a: "a < n" "T a = 0" and s: "s < n" "sh_valid (bk_shadow B s)"
  shows "consistent n (T(a := 1)) (add_copy a s B)" and "unat (bk_clones (add_copy a s B) s) = Suc (unat (bk_clones B s))"
proof -
  have n: "n \<le> 12" and T: "\<forall>a<n. T a = bk_current B a" and num: "\<forall>t<n. numbered n B t"
    and tg: "\<forall>t<n. bk_target B t = bk_clones B t"
    and own: "\<forall>a<n. bk_current B a \<noteq> 0 \<longrightarrow> (\<exists>s<n. bk_virt B a = word_of_nat s \<and> sh_valid (bk_shadow B s))"
    using c by (auto simp: consistent_def)
  have free: "bk_current B a = 0" using T a by auto
  have le: "unat (bk_clones B s) \<le> 12" using clones_le [of n B s] num s n by auto
  then show k: "unat (bk_clones (add_copy a s B) s) = Suc (unat (bk_clones B s))" by (simp add: unat_word_ariths)
  have inj: "t < n \<Longrightarrow> (word_of_nat s :: u8) = word_of_nat t \<longleftrightarrow> s = t" for t
    using word_of_nat_u8_inj [of s t] s n by simp
  let ?B = "add_copy a s B"
  have same: "copies_of n ?B t = copies_of n B t" if "t < n" "t \<noteq> s" for t
    using inj [OF that(1)] that(2) free by (auto simp: copies_of_def)
  have new: "copies_of n ?B s = insert a (copies_of n B s)" "a \<notin> copies_of n B s"
    using free a by (auto simp: copies_of_def)
  have b: "bij_betw (\<lambda>x. unat (bk_copy B x)) (copies_of n B s) {..<unat (bk_clones B s)}" using num s by (simp add: numbered_def)
  have "unat (bk_copy B x) = unat (bk_copy ?B x)" if "x \<in> copies_of n B s" for x using that new(2) by auto
  from bij_betw_cong [OF this, THEN iffD1, OF _ b]
  have "bij_betw (\<lambda>x. unat (bk_copy ?B x)) (copies_of n B s) {..<unat (bk_clones B s)}" .
  from bij_betw_combine [OF this, of "{a}" "{unat (bk_clones B s)}"]
  have "bij_betw (\<lambda>x. unat (bk_copy ?B x)) (copies_of n B s \<union> {a}) ({..<unat (bk_clones B s)} \<union> {unat (bk_clones B s)})"
    by (simp add: bij_betw_def)
  then have ns: "numbered n ?B s" unfolding numbered_def new(1) k by (simp add: lessThan_Suc)
  have "numbered n ?B t" if "t < n" for t
  proof (cases "t = s")
    case False
    then show ?thesis
      using num same [OF that False] that free by (subst numbered_cong [where C = B]) (auto simp: copies_of_def)
  qed (use ns in simp)
  then show "consistent n (T(a := 1)) ?B"
    using n T tg own s a by (auto simp: consistent_def)
qed

text \<open>The copy with the highest number is removed.\<close>

lemma consistent_del:
  assumes c: "consistent n T B" and a: "a \<in> copies_of n B s" and s: "s < n" and top: "Suc (unat (bk_copy B a)) = unat (bk_clones B s)"
  shows "consistent n (T(a := 0)) (del_copy a s B)" and "unat (bk_clones (del_copy a s B) s) = unat (bk_clones B s) - 1"
proof -
  have n: "n \<le> 12" and T: "\<forall>a<n. T a = bk_current B a" and num: "\<forall>t<n. numbered n B t"
    and tg: "\<forall>t<n. bk_target B t = bk_clones B t"
    and own: "\<forall>a<n. bk_current B a \<noteq> 0 \<longrightarrow> (\<exists>s<n. bk_virt B a = word_of_nat s \<and> sh_valid (bk_shadow B s))"
    using c by (auto simp: consistent_def)
  have "bk_clones B s \<noteq> 0" using top by auto
  then show k: "unat (bk_clones (del_copy a s B) s) = unat (bk_clones B s) - 1" by (simp add: unat_minus_one)
  let ?B = "del_copy a s B"
  have va: "bk_virt B a = word_of_nat s" using a by (simp add: copies_of_def)
  have same: "copies_of n ?B t = copies_of n B t" if "t < n" "t \<noteq> s" for t
    using word_of_nat_u8_inj [of s t] that s n va by (auto simp: copies_of_def)
  have new: "copies_of n ?B s = copies_of n B s - {a}" using va by (auto simp: copies_of_def)
  have b: "bij_betw (\<lambda>x. unat (bk_copy B x)) (copies_of n B s) {..<unat (bk_clones B s)}" using num s by (auto simp: numbered_def)
  have "bij_betw (\<lambda>x. unat (bk_copy B x)) (copies_of n B s - {a}) ({..<unat (bk_clones B s)} - {unat (bk_copy B a)})"
    using bij_betw_DiffI [OF b, of "{a}" "{unat (bk_copy B a)}"] a top by (simp add: bij_betw_def)
  moreover have "{..<unat (bk_clones B s)} - {unat (bk_copy B a)} = {..<unat (bk_clones B s) - 1}" using top by auto
  ultimately have ns: "numbered n ?B s" unfolding numbered_def new k by simp
  have "numbered n ?B t" if "t < n" for t
  proof (cases "t = s")
    case False
    then show ?thesis using num same [OF that False] that by (subst numbered_cong [where C = B]) auto
  qed (use ns in simp)
  then show "consistent n (T(a := 0)) ?B" using n T tg own by (auto simp: consistent_def)
qed

text \<open>The blocks of \<open>S\<close> have at least their old copies, the other blocks exactly these. Read backwards,
  the blocks of \<open>S\<close> have lost copies at most.\<close>

definition more_copies :: "nat \<Rightarrow> nat set \<Rightarrow> books \<Rightarrow> books \<Rightarrow> bool" where
  "more_copies n S B C \<longleftrightarrow> (\<forall>t < n. copies_of n B t \<subseteq> copies_of n C t \<and> (t \<notin> S \<longrightarrow> copies_of n C t = copies_of n B t))"

lemma more_copies_refl [simp]: "more_copies n S B B"
  by (simp add: more_copies_def)

lemma more_copies_trans: "more_copies n S B C \<Longrightarrow> more_copies n S' C D \<Longrightarrow> S \<subseteq> T \<Longrightarrow> S' \<subseteq> T \<Longrightarrow> more_copies n T B D"
  unfolding more_copies_def by blast

lemma more_copies_add:
  assumes "consistent n T B" and "a < n" "T a = 0" and "s < n"
  shows "more_copies n {s} B (add_copy a s B)"
proof -
  have n: "n \<le> 12" and "bk_current B a = 0" using assms by (auto simp: consistent_def)
  moreover have "(word_of_nat s :: u8) = word_of_nat t \<longleftrightarrow> s = t" if "t < n" for t
    using word_of_nat_u8_inj [of s t] that assms(4) n by simp
  ultimately show ?thesis by (auto simp: more_copies_def copies_of_def)
qed

lemma more_copies_del:
  assumes "n \<le> 12" and "a \<in> copies_of n B s" and "s < n"
  shows "more_copies n {s} (del_copy a s B) B"
proof -
  have "(word_of_nat t :: u8) \<noteq> word_of_nat s" if "t < n" "t \<noteq> s" for t
    using word_of_nat_u8_inj [of t s] that assms(1,3) by simp
  then show ?thesis using assms(2) by (auto simp: more_copies_def copies_of_def)
qed

text \<open>Every number below the number of copies is taken by exactly one array block.\<close>

lemma numbered_block:
  assumes "numbered n B s" and "k < unat (bk_clones B s)"
  obtains a where "a \<in> copies_of n B s" and "unat (bk_copy B a) = k"
    and "\<And>b. b \<in> copies_of n B s \<Longrightarrow> unat (bk_copy B b) = k \<Longrightarrow> b = a"
proof -
  have b: "bij_betw (\<lambda>a. unat (bk_copy B a)) (copies_of n B s) {..<unat (bk_clones B s)}" using assms(1) by (simp add: numbered_def)
  then have "k \<in> (\<lambda>a. unat (bk_copy B a)) ` copies_of n B s" using assms(2) by (simp add: bij_betw_def)
  then obtain a where a: "a \<in> copies_of n B s" "unat (bk_copy B a) = k" by blast
  have "inj_on (\<lambda>a. unat (bk_copy B a)) (copies_of n B s)" using b by (simp add: bij_betw_def)
  then have "c = a" if "c \<in> copies_of n B s" "unat (bk_copy B c) = k" for c using that a by (auto dest: inj_onD)
  with that a show ?thesis by blast
qed

section \<open>Queued tasks and the settled books\<close>

lemma shadow_swap: "e\<lparr>no_clones_target := k, no_clones_current := j\<rparr> = e\<lparr>no_clones_current := j, no_clones_target := k\<rparr>"
  by (cases e) simp

lemma shadow_swap_valid: "e\<lparr>no_clones_target := k, sh_valid := v\<rparr> = e\<lparr>sh_valid := v, no_clones_target := k\<rparr>"
  by (cases e) simp

lemma effect_set_target: "effect c (set_target s k B) = set_target s k (effect c B)"
proof (cases "opcode c")
  case CMD_ARRAY_ADD
  then show ?thesis by (cases "unat (addr_shadow c) = s") (simp_all add: effect_def Let_def set_target_def set_clones_def bk_clones_def fun_upd_twist shadow_swap)
next
  case CMD_ARRAY_DELETE
  then show ?thesis by (cases "unat (addr_shadow c) = s") (simp_all add: effect_def Let_def set_target_def set_clones_def bk_clones_def fun_upd_twist shadow_swap)
next
  case CMD_SHADOW_DELETE
  then show ?thesis by (cases "unat (addr_shadow c) = s") (simp_all add: effect_def Let_def set_target_def fun_upd_twist shadow_swap_valid)
qed (simp_all add: effect_def set_target_def)

lemma fold_effect_set_target: "fold effect cs (set_target s k B) = set_target s k (fold effect cs B)"
  by (induction cs arbitrary: B) (simp_all add: effect_set_target)

lemma effect_target [simp]: "bk_target (effect c B) s = bk_target B s"
  by (cases "opcode c") (auto simp: effect_def Let_def bk_target_def set_clones_def)

lemma fold_effect_target [simp]: "bk_target (fold effect cs B) s = bk_target B s"
  by (induction cs arbitrary: B) simp_all

lemma ucast_addr_shadow: "s < 16 \<Longrightarrow> ucast (addr_shadow (mk_cmd a s op)) = (word_of_nat s :: u8)"
  by (simp add: mk_cmd_def unsigned_of_nat take_bit_nat_eq_self)

lemma fold_clone:
  assumes "a < 16" and "s < 16"
  shows "fold effect (clone_cmds a s) B = set_clones s (bk_clones B s + 1)
    (B\<lparr>bk_virt := (bk_virt B)(a := word_of_nat s), bk_current := (bk_current B)(a := 1), bk_copy := (bk_copy B)(a := bk_clones B s)\<rparr>)"
  using assms by (simp add: clone_cmds_def effect_def Let_def ucast_addr_shadow)

lemma fold_declone:
  assumes "a < 16" and "s < 16"
  shows "fold effect (declone_cmds a s) B = set_clones s (bk_clones B s - 1) (B\<lparr>bk_current := (bk_current B)(a := 0)\<rparr>)"
  using assms by (simp add: declone_cmds_def effect_def Let_def)

definition well_kept :: "fms_loader \<Rightarrow> bool" where
  "well_kept p \<longleftrightarrow> cmd_ring_ok p \<and> consistent (nblocks p) (map_target p) (settled p)"

text \<open>\<open>q\<close> is \<open>p\<close> with the tasks \<open>ts\<close> queued.\<close>

definition frame :: "fms_loader \<Rightarrow> fms_loader \<Rightarrow> bool" where
  "frame p q \<longleftrightarrow> num_fms_blocks q = num_fms_blocks p \<and> database_load_policy q = database_load_policy p \<and>
     pause_timeout q = pause_timeout p \<and> block_group_list q = block_group_list p \<and> extension_area q = extension_area p \<and>
     map_current q = map_current p \<and> array_virt_ids q = array_virt_ids p \<and> copy_number q = copy_number p \<and>
     (\<forall>s. (shadow_map q s)\<lparr>no_clones_target := 0\<rparr> = (shadow_map p s)\<lparr>no_clones_target := 0\<rparr>)"

definition extends :: "(access list \<Rightarrow> u32 \<Rightarrow> u32) \<Rightarrow> fms_loader \<Rightarrow> task list \<Rightarrow> fms_loader \<Rightarrow> bool" where
  "extends ans p ts q \<longleftrightarrow> cmd_ring_ok q \<and> pending q = pending p @ concat (map cmds_of ts) \<and> hw_is ans True 0 (ld_hw q) \<and> frame p q \<and>
     (\<forall>t \<in> set ts. fst (task_blocks t) < 16 \<and> snd (task_blocks t) < 16)"

lemma frame_refl [simp]: "frame p p" by (simp add: frame_def)

lemma frame_trans: "frame p q \<Longrightarrow> frame q r \<Longrightarrow> frame p r" by (simp add: frame_def)

lemma extends_trans: "extends ans p ts q \<Longrightarrow> extends ans q us r \<Longrightarrow> extends ans p (ts @ us) r"
  by (auto simp: extends_def intro: frame_trans)

lemma extends_num_pending: "extends ans p ts q \<Longrightarrow> num_pending q = num_pending p + length (concat (map cmds_of ts))"
  by (metis extends_def length_append length_pending)

lemma frame_shadow:
  assumes "frame p q"
  shows "sh_valid (shadow_map q s) = sh_valid (shadow_map p s)" and "sh_db_id (shadow_map q s) = sh_db_id (shadow_map p s)"
    and "no_clones_current (shadow_map q s) = no_clones_current (shadow_map p s)"
proof -
  have e: "(shadow_map q s)\<lparr>no_clones_target := 0\<rparr> = (shadow_map p s)\<lparr>no_clones_target := 0\<rparr>" using assms by (simp add: frame_def)
  show "sh_valid (shadow_map q s) = sh_valid (shadow_map p s)" using arg_cong [OF e, of sh_valid] by simp
  show "sh_db_id (shadow_map q s) = sh_db_id (shadow_map p s)" using arg_cong [OF e, of sh_db_id] by simp
  show "no_clones_current (shadow_map q s) = no_clones_current (shadow_map p s)" using arg_cong [OF e, of no_clones_current] by simp
qed

lemma frame_block_list: "frame p q \<Longrightarrow> shadow_block_list q db = shadow_block_list p db"
  by (simp add: shadow_block_list_def frame_shadow) (simp add: frame_def)

lemma frame_cmds: "frame p (q\<lparr>loader_cmd_mem := m, cmd_wr_ptr := w\<rparr>) = frame p q"
  by (simp add: frame_def)

lemma frame_target: "frame p (upd_shadow s (\<lambda>e. e\<lparr>no_clones_target := k\<rparr>) (p\<lparr>map_target := T\<rparr>))"
  by (simp add: frame_def upd_shadow_def)

lemma books_upd_target: "books_of (upd_shadow s (\<lambda>e. e\<lparr>no_clones_target := k\<rparr>) (p\<lparr>map_target := T\<rparr>)) = set_target s k (books_of p)"
  by (simp add: books_of_def upd_shadow_def set_target_def)

lemma settled_target: "bk_target (settled p) s = no_clones_target (shadow_map p s)"
  by (simp add: settled_def) (simp add: bk_target_def books_of_def)

text \<open>Changing the plan for one array block and queueing the commands for it.\<close>

lemma queue_change:
  assumes ok: "cmd_ring_ok p" and room: "num_pending p + length (cmds_of t) \<le> 167" and hw: "hw_is ans True 0 (ld_hw p)"
    and t: "fst (task_blocks t) < 16" "snd (task_blocks t) < 16"
  shows "\<exists>q. foldM nlm_device_loader_cmd_add (cmds_of t) (upd_shadow s (\<lambda>e. e\<lparr>no_clones_target := k\<rparr>) (p\<lparr>map_target := T\<rparr>)) = Some q \<and>
    extends ans p [t] q \<and> map_target q = T \<and> settled q = set_target s k (fold effect (cmds_of t) (settled p))"
proof -
  let ?p = "upd_shadow s (\<lambda>e. e\<lparr>no_clones_target := k\<rparr>) (p\<lparr>map_target := T\<rparr>)"
  have ok': "cmd_ring_ok ?p" "num_pending ?p = num_pending p" "pending ?p = pending p"
    using ok by (simp_all add: cmd_ring_ok_def num_pending_def pending_def upd_shadow_def)
  then obtain q where q: "foldM nlm_device_loader_cmd_add (cmds_of t) ?p = Some q" "cmd_ring_ok q" "pending q = pending p @ cmds_of t"
    "q = ?p\<lparr>loader_cmd_mem := loader_cmd_mem q, cmd_wr_ptr := cmd_wr_ptr q\<rparr>"
    using cmds_add [of ?p "cmds_of t"] room by auto
  have f: "frame p q" by (subst q(4), subst frame_cmds) (rule frame_target)
  have h: "ld_hw q = ld_hw p" "map_target q = T" by (subst q(4), simp add: upd_shadow_def)+
  have "books_of q = set_target s k (books_of p)" by (subst q(4), simp add: books_upd_target)
  then have "settled q = set_target s k (fold effect (cmds_of t) (settled p))"
    by (simp add: settled_def q(3) fold_effect_set_target)
  moreover have "extends ans p [t] q" using q(2,3) f h hw t by (simp add: extends_def)
  ultimately show ?thesis using q(1) h(2) by blast
qed

lemma num_free: "num_array_blocks_free p = card {a. a < nblocks p \<and> map_target p a = 0}"
  by (simp add: num_array_blocks_free_def length_filter_conv_card cong: conj_cong)

lemma clone_plan:
  assumes w: "well_kept p" and room: "num_pending p + 6 \<le> 167" and hw: "hw_is ans True 0 (ld_hw p)"
    and free: "0 < num_array_blocks_free p" and s: "s < nblocks p" "sh_valid (bk_shadow (settled p) s)"
  shows "\<exists>q a. nlm_device_loader_clone s p = Some q \<and> extends ans p [Clone a s] q \<and> well_kept q \<and> settled q = add_copy a s (settled p) \<and>
    num_array_blocks_free q + 1 = num_array_blocks_free p \<and>
    unat (bk_clones (settled q) s) = Suc (unat (bk_clones (settled p) s)) \<and> more_copies (nblocks p) {s} (settled p) (settled q)"
proof -
  have n: "nblocks p \<le> 12" and con: "consistent (nblocks p) (map_target p) (settled p)" and ok: "cmd_ring_ok p"
    using w by (auto simp: well_kept_def consistent_def)
  obtain a as where fl: "filter (\<lambda>a. map_target p a = 0) [0..<nblocks p] = a # as"
    using free by (cases "filter (\<lambda>a. map_target p a = 0) [0..<nblocks p]") (auto simp: num_array_blocks_free_def)
  then have "a \<in> set (filter (\<lambda>a. map_target p a = 0) [0..<nblocks p])" by simp
  then have a: "a < nblocks p" "map_target p a = 0" by auto
  let ?T = "(map_target p)(a := 1)" and ?k = "no_clones_target (shadow_map p s) + 1"
  obtain q where q: "foldM nlm_device_loader_cmd_add (cmds_of (Clone a s)) (upd_shadow s (\<lambda>e. e\<lparr>no_clones_target := ?k\<rparr>) (p\<lparr>map_target := ?T\<rparr>)) = Some q"
    "extends ans p [Clone a s] q" "map_target q = ?T" "settled q = set_target s ?k (fold effect (cmds_of (Clone a s)) (settled p))"
    using queue_change [OF ok _ hw, of "Clone a s" s ?k ?T] room a s n by (auto simp: clone_cmds_def)
  have "upd_shadow s (\<lambda>e. e\<lparr>no_clones_target := no_clones_target e + 1\<rparr>) (p\<lparr>map_target := ?T\<rparr>) =
    upd_shadow s (\<lambda>e. e\<lparr>no_clones_target := ?k\<rparr>) (p\<lparr>map_target := ?T\<rparr>)" by (simp add: upd_shadow_def)
  then have cl: "nlm_device_loader_clone s p = Some q" using fl q(1) by (simp add: nlm_device_loader_clone_def)
  have st: "settled q = add_copy a s (settled p)"
    using q(4) a s n by (simp add: fold_clone add_copy_def settled_target)
  have nb: "nblocks q = nblocks p" using q(2) by (simp add: extends_def frame_def)
  have "{x. x < nblocks p \<and> map_target p x = 0} = insert a {x. x < nblocks q \<and> map_target q x = 0}" "a \<notin> {x. x < nblocks q \<and> map_target q x = 0}"
    using a q(3) nb by auto
  then have "num_array_blocks_free q + 1 = num_array_blocks_free p" by (simp add: num_free)
  moreover have "well_kept q" using consistent_add(1) [OF con a s] q(2,3) st nb by (simp add: well_kept_def extends_def)
  moreover have "unat (bk_clones (settled q) s) = Suc (unat (bk_clones (settled p) s))" using consistent_add(2) [OF con a s] st by simp
  moreover have "more_copies (nblocks p) {s} (settled p) (settled q)" unfolding st by (rule more_copies_add [OF con a s(1)])
  ultimately show ?thesis using cl q(2) st by blast
qed

end
