(* ===== verification/Loader_Num.thy ===== *)
theory Loader_Num
  imports Loader_Copies
begin

unbundle bit_operations_syntax

text \<open>
  Setting the number of copies of a database: growing queues a task for every new copy, shrinking
  removes the copies with the highest numbers. On an idle loader the synchronous call returns with
  exactly the requested number of copies of every block of the database.
\<close>

section \<open>Growing\<close>

definition plain :: "task list \<Rightarrow> bool" where
  "plain ts \<longleftrightarrow> (\<forall>t \<in> set ts. \<forall>s. t \<noteq> Forget s)"

lemma plain_append [simp]: "plain (ts @ us) \<longleftrightarrow> plain ts \<and> plain us" by (auto simp: plain_def)

lemma plain_ok:
  "plain ts \<Longrightarrow> \<forall>t \<in> set ts. fst (task_blocks t) < 16 \<and> snd (task_blocks t) < 16 \<Longrightarrow> tasks_ok ts B"
  by (induction ts arbitrary: B) (auto simp: plain_def)

text \<open>A planned change: well kept before and after, with \<open>f s\<close> copies of block \<open>s\<close> afterwards and
  nothing else changed about the blocks.\<close>

definition planned :: "(access list \<Rightarrow> u32 \<Rightarrow> u32) \<Rightarrow> fms_loader \<Rightarrow> task list \<Rightarrow> (nat \<Rightarrow> nat) \<Rightarrow> fms_loader \<Rightarrow> bool" where
  "planned ans p ts f q \<longleftrightarrow> extends ans p ts q \<and> well_kept q \<and>
     (\<forall>s < nblocks p. unat (bk_clones (settled q) s) = f s) \<and>
     (\<forall>s. sh_valid (bk_shadow (settled q) s) = sh_valid (bk_shadow (settled p) s))"

lemma extends_nblocks: "extends ans p ts q \<Longrightarrow> num_fms_blocks q = num_fms_blocks p"
  by (simp add: extends_def frame_def)

lemma extends_hw: "extends ans p ts q \<Longrightarrow> hw_is ans True 0 (ld_hw q)"
  by (simp add: extends_def)

lemma extends_refl: "cmd_ring_ok p \<Longrightarrow> hw_is ans True 0 (ld_hw p) \<Longrightarrow> extends ans p [] p"
  by (simp add: extends_def)

lemma planned_refl: "well_kept p \<Longrightarrow> hw_is ans True 0 (ld_hw p) \<Longrightarrow> planned ans p [] (\<lambda>s. unat (bk_clones (settled p) s)) p"
  by (simp add: planned_def extends_refl well_kept_def)

lemma planned_trans:
  assumes "planned ans p ts f q" and "planned ans q us g r" shows "planned ans p (ts @ us) g r"
  using assms extends_nblocks [of ans p ts q] by (auto simp: planned_def intro: extends_trans)

lemma planned_cong: "(\<And>s. s < nblocks p \<Longrightarrow> f s = g s) \<Longrightarrow> planned ans p ts f q \<Longrightarrow> planned ans p ts g q"
  by (simp add: planned_def)

lemma length_clone_cmds [simp]: "length (clone_cmds a s) = 6" by (simp add: clone_cmds_def)

lemma length_declone_cmds [simp]: "length (declone_cmds a s) = 4" by (simp add: declone_cmds_def)

text \<open>One copy more of each of several blocks.\<close>

lemma clone_blocks:
  assumes "well_kept p" and "hw_is ans True 0 (ld_hw p)" and "distinct bs" and "\<forall>b \<in> set bs. b < nblocks p \<and> sh_valid (bk_shadow (settled p) b)"
    and "length bs \<le> num_array_blocks_free p" and "num_pending p + 6 * length bs \<le> 167"
  shows "\<exists>q ts. foldM nlm_device_loader_clone bs p = Some q \<and>
    planned ans p ts (\<lambda>s. unat (bk_clones (settled p) s) + of_bool (s \<in> set bs)) q \<and> plain ts \<and>
    more_copies (nblocks p) (set bs) (settled p) (settled q) \<and> num_array_blocks_free q + length bs = num_array_blocks_free p \<and> num_pending q = num_pending p + 6 * length bs"
  using assms
proof (induction bs arbitrary: p)
  case Nil
  then show ?case using planned_refl [of p ans] by (auto intro!: exI [of _ "[]"] simp: plain_def)
next
  case (Cons b bs)
  obtain q a where q: "nlm_device_loader_clone b p = Some q" "extends ans p [Clone a b] q" "well_kept q"
    "settled q = add_copy a b (settled p)" "num_array_blocks_free q + 1 = num_array_blocks_free p"
    "unat (bk_clones (settled q) b) = Suc (unat (bk_clones (settled p) b))" "more_copies (nblocks p) {b} (settled p) (settled q)"
    using clone_plan [OF Cons.prems(1) _ Cons.prems(2), of b] Cons.prems by auto
  have np: "num_pending q = num_pending p + 6" using extends_num_pending [OF q(2)] by simp
  have nb: "nblocks q = nblocks p" using extends_nblocks [OF q(2)] by simp
  have v: "sh_valid (bk_shadow (settled q) s) = sh_valid (bk_shadow (settled p) s)" for s using q(4) by simp
  obtain r ts where r: "foldM nlm_device_loader_clone bs q = Some r"
    "planned ans q ts (\<lambda>s. unat (bk_clones (settled q) s) + of_bool (s \<in> set bs)) r" "plain ts"
    "more_copies (nblocks q) (set bs) (settled q) (settled r)" "num_array_blocks_free r + length bs = num_array_blocks_free q" "num_pending r = num_pending q + 6 * length bs"
    using Cons.IH [OF q(3) extends_hw [OF q(2)]] Cons.prems q(5) np nb v by auto
  have 1: "planned ans p [Clone a b] (\<lambda>s. unat (bk_clones (settled q) s)) q" using q v by (simp add: planned_def)
  have "planned ans p ([Clone a b] @ ts) (\<lambda>s. unat (bk_clones (settled p) s) + of_bool (s \<in> set (b # bs))) r"
    using planned_trans [OF 1 r(2)] Cons.prems(3) q(4,6) by (elim planned_cong [rotated]) auto
  moreover have "more_copies (nblocks p) (set (b # bs)) (settled p) (settled r)"
    by (rule more_copies_trans [OF q(7) r(4) [unfolded nb]]) auto
  ultimately show ?case using q(1,5) r np by (intro exI [of _ r] exI [of _ "[Clone a b] @ ts"]) (auto simp: plain_def)
qed

text \<open>The command that fills in the group map changes nothing in the books.\<close>

lemma add_configure:
  assumes w: "well_kept p" and hw: "hw_is ans True 0 (ld_hw p)" and room: "num_pending p < 167" and k: "k < 16" "s < 16"
  shows "\<exists>q. nlm_device_loader_cmd_add (mk_cmd k s CMD_GID_BMAP_CONFIGURE) p = Some q \<and>
    planned ans p [Configure k s] (\<lambda>s. unat (bk_clones (settled p) s)) q \<and> num_array_blocks_free q = num_array_blocks_free p \<and>
    num_pending q = Suc (num_pending p) \<and> settled q = settled p"
proof -
  have ok: "cmd_ring_ok p" using w by (simp add: well_kept_def)
  let ?c = "mk_cmd k s CMD_GID_BMAP_CONFIGURE"
  obtain q where q: "nlm_device_loader_cmd_add ?c p = Some q" using cmd_ring.put_succeeds [OF ok] room by auto
  have a: "cmd_ring_ok q" "pending q = pending p @ [?c]" and e: "q = p\<lparr>loader_cmd_mem := loader_cmd_mem q, cmd_wr_ptr := cmd_wr_ptr q\<rparr>"
    using cmd_add_Some [OF ok q] by blast+
  have sel: "frame p q" "map_target q = map_target p" "ld_hw q = ld_hw p" "num_fms_blocks q = num_fms_blocks p"
    by (subst e, simp add: frame_def)+
  have "books_of q = books_of p" by (subst e) simp
  then have s: "settled q = settled p" by (simp add: settled_def a(2) effect_def)
  have x: "extends ans p [Configure k s] q" using a sel hw k by (simp add: extends_def)
  have "well_kept q" using w a(1) s sel by (simp add: well_kept_def)
  then have "planned ans p [Configure k s] (\<lambda>s. unat (bk_clones (settled p) s)) q" using x s by (simp add: planned_def)
  moreover have "num_array_blocks_free q = num_array_blocks_free p" using sel by (simp add: num_array_blocks_free_def)
  ultimately show ?thesis using q s extends_num_pending [OF x] by simp
qed

lemma planned_sel:
  assumes "planned ans p ts f q"
  shows "extends ans p ts q" and "well_kept q" and "hw_is ans True 0 (ld_hw q)" and "nblocks q = nblocks p"
    and "\<And>s. sh_valid (bk_shadow (settled q) s) = sh_valid (bk_shadow (settled p) s)"
    and "\<And>s. s < nblocks p \<Longrightarrow> unat (bk_clones (settled q) s) = f s"
  using assms by (auto simp: planned_def extends_def frame_def)

lemma well_kept_clones: "well_kept p \<Longrightarrow> s < nblocks p \<Longrightarrow> unat (bk_clones (settled p) s) \<le> 12 \<and> nblocks p \<le> 12"
  using clones_le by (fastforce simp: well_kept_def consistent_def)

lemma grow_once:
  assumes w: "well_kept p" and hw: "hw_is ans True 0 (ld_hw p)" and bs: "distinct bs" "bs \<noteq> []"
    "\<forall>b \<in> set bs. b < nblocks p \<and> sh_valid (bk_shadow (settled p) b)"
    and free: "length bs \<le> num_array_blocks_free p" and room: "num_pending p + 6 * length bs < 167"
  shows "\<exists>q ts. grow_once bs p = Some q \<and> planned ans p ts (\<lambda>s. unat (bk_clones (settled p) s) + of_bool (s \<in> set bs)) q \<and> plain ts \<and>
    more_copies (nblocks p) (set bs) (settled p) (settled q) \<and>
    num_array_blocks_free q + length bs = num_array_blocks_free p \<and> num_pending q = num_pending p + 6 * length bs + 1"
proof -
  let ?f = "\<lambda>s. unat (bk_clones (settled p) s) + of_bool (s \<in> set bs)"
  obtain q ts where q: "foldM nlm_device_loader_clone bs p = Some q" "planned ans p ts ?f q" "plain ts"
    "more_copies (nblocks p) (set bs) (settled p) (settled q)" "num_array_blocks_free q + length bs = num_array_blocks_free p" "num_pending q = num_pending p + 6 * length bs"
    using clone_blocks [OF w hw bs(1,3) free] room by auto
  note s = planned_sel [OF q(2)]
  have h: "hd bs < nblocks p" using bs by (cases bs) auto
  have t: "unat (no_clones_target (shadow_map q (hd bs))) < 16" "hd bs < 16"
    using well_kept_clones [OF s(2), of "hd bs"] s(2,4) h settled_target [of q "hd bs"] by (auto simp: well_kept_def consistent_def)
  obtain r where r: "nlm_device_loader_cmd_add (mk_cmd (unat (no_clones_target (shadow_map q (hd bs)))) (hd bs) CMD_GID_BMAP_CONFIGURE) q = Some r"
    "planned ans q [Configure (unat (no_clones_target (shadow_map q (hd bs)))) (hd bs)] (\<lambda>s. unat (bk_clones (settled q) s)) r"
    "num_array_blocks_free r = num_array_blocks_free q" "num_pending r = Suc (num_pending q)" "settled r = settled q"
    using add_configure [OF s(2,3) _ t] q(6) room by auto
  have "planned ans p (ts @ [Configure (unat (no_clones_target (shadow_map q (hd bs)))) (hd bs)]) ?f r"
    using planned_trans [OF q(2) r(2)] s(6) by (elim planned_cong [rotated]) auto
  then show ?thesis using q r
    by (intro exI [of _ r] exI [of _ "ts @ [Configure (unat (no_clones_target (shadow_map q (hd bs)))) (hd bs)]"])
      (auto simp: grow_once_def plain_def)
qed

lemma grow:
  assumes "well_kept p" and "hw_is ans True 0 (ld_hw p)" and "distinct bs" "bs \<noteq> []"
    "\<forall>b \<in> set bs. b < nblocks p \<and> sh_valid (bk_shadow (settled p) b)"
    and "length xs * length bs \<le> num_array_blocks_free p" and "num_pending p + length xs * (6 * length bs + 1) \<le> 167"
  shows "\<exists>q ts. foldM (\<lambda>_. grow_once bs) xs p = Some q \<and>
    planned ans p ts (\<lambda>s. unat (bk_clones (settled p) s) + (if s \<in> set bs then length xs else 0)) q \<and> plain ts \<and>
    more_copies (nblocks p) (set bs) (settled p) (settled q)"
  using assms
proof (induction xs arbitrary: p)
  case Nil
  have "planned ans p [] (\<lambda>s. unat (bk_clones (settled p) s) + (if s \<in> set bs then length [] else 0)) p"
    using planned_refl [OF Nil(1,2)] by (elim planned_cong [rotated]) simp
  then show ?case by (intro exI [of _ p] exI [of _ "[]"]) (simp add: plain_def)
next
  case (Cons x xs)
  obtain q ts where q: "grow_once bs p = Some q" "planned ans p ts (\<lambda>s. unat (bk_clones (settled p) s) + of_bool (s \<in> set bs)) q" "plain ts"
    "more_copies (nblocks p) (set bs) (settled p) (settled q)"
    "num_array_blocks_free q + length bs = num_array_blocks_free p" "num_pending q = num_pending p + 6 * length bs + 1"
    using grow_once [OF Cons.prems(1-5)] Cons.prems(6,7) by auto
  note s = planned_sel [OF q(2)]
  obtain r us where r: "foldM (\<lambda>_. grow_once bs) xs q = Some r"
    "planned ans q us (\<lambda>s. unat (bk_clones (settled q) s) + (if s \<in> set bs then length xs else 0)) r" "plain us"
    "more_copies (nblocks q) (set bs) (settled q) (settled r)"
    using Cons.IH [OF s(2,3) Cons.prems(3,4)] Cons.prems(5-7) s(4,5) q(5,6) by auto
  have "planned ans p (ts @ us) (\<lambda>s. unat (bk_clones (settled p) s) + (if s \<in> set bs then length (x # xs) else 0)) r"
    using planned_trans [OF q(2) r(2)] s(6) by (elim planned_cong [rotated]) auto
  moreover have "more_copies (nblocks p) (set bs) (settled p) (settled r)"
    by (rule more_copies_trans [OF q(4) r(4) [unfolded s(4)]]) auto
  ultimately show ?case using q r by (intro exI [of _ r] exI [of _ "ts @ us"]) auto
qed

section \<open>Shrinking\<close>

lemma hw_only_extends:
  assumes "cmd_ring_ok p" and "hw_only ans True 0 p q"
  shows "extends ans p [] q" and "settled q = settled p" and "map_target q = map_target p"
proof -
  have sp: "same_plan p q" and b: "books_of q = books_of p" and h: "hw_is ans True 0 (ld_hw q)" using assms(2) by (auto simp: hw_only_def)
  note sel = same_plan_sel [OF sp]
  show "settled q = settled p" using sel(1) b by (simp add: settled_def)
  show "map_target q = map_target p" by (rule sel(4))
  have "frame p q" using sp b by (simp add: frame_def same_plan_def books_of_def)
  then show "extends ans p [] q" using assms(1) sel h by (simp add: extends_def)
qed

lemma hw_only_planned:
  assumes "well_kept p" and "hw_only ans True 0 p q"
  shows "planned ans p [] (\<lambda>s. unat (bk_clones (settled p) s)) q" and "settled q = settled p" and "num_pending q = num_pending p"
proof -
  have ok: "cmd_ring_ok p" using assms(1) by (simp add: well_kept_def)
  note x = hw_only_extends [OF ok assms(2)]
  show "settled q = settled p" by (rule x(2))
  show "num_pending q = num_pending p" using extends_num_pending [OF x(1)] by simp
  show "planned ans p [] (\<lambda>s. unat (bk_clones (settled p) s)) q"
    using assms(1) x extends_nblocks [OF x(1)] by (simp add: planned_def well_kept_def extends_def)
qed

lemma declone_queue:
  assumes ok: "cmd_ring_ok p" and room: "num_pending p + 4 \<le> 167" and hw: "hw_is ans True 0 (ld_hw p)" and s: "a < 16" "s < 16"
  shows "\<exists>q. nlm_device_loader_declone a s p = Some q \<and> extends ans p [Declone a s] q \<and> settled q = del_copy a s (settled p) \<and>
    map_target q = (map_target p)(a := 0)"
proof -
  let ?T = "(map_target p)(a := 0)" and ?k = "no_clones_target (shadow_map p s) - 1"
  obtain q where q: "foldM nlm_device_loader_cmd_add (cmds_of (Declone a s)) (upd_shadow s (\<lambda>e. e\<lparr>no_clones_target := ?k\<rparr>) (p\<lparr>map_target := ?T\<rparr>)) = Some q"
    "extends ans p [Declone a s] q" "map_target q = ?T" "settled q = set_target s ?k (fold effect (cmds_of (Declone a s)) (settled p))"
    using queue_change [OF ok _ hw, of "Declone a s" s ?k ?T] room s by auto
  have "upd_shadow s (\<lambda>e. e\<lparr>no_clones_target := no_clones_target e - 1\<rparr>) (p\<lparr>map_target := ?T\<rparr>) =
    upd_shadow s (\<lambda>e. e\<lparr>no_clones_target := ?k\<rparr>) (p\<lparr>map_target := ?T\<rparr>)" by (simp add: upd_shadow_def)
  then have "nlm_device_loader_declone a s p = Some q" using q(1) by (simp add: nlm_device_loader_declone_def)
  then show ?thesis using q(2-4) s by (simp add: fold_declone del_copy_def settled_target)
qed

lemma declone_plan:
  assumes w: "well_kept p" and room: "num_pending p + 4 \<le> 167" and hw: "hw_is ans True 0 (ld_hw p)" and s: "s < nblocks p"
    and a: "a \<in> copies_of (nblocks p) (settled p) s" and top: "Suc (unat (bk_copy (settled p) a)) = unat (bk_clones (settled p) s)"
  shows "\<exists>q. nlm_device_loader_declone a s p = Some q \<and> settled q = del_copy a s (settled p) \<and> num_pending q = num_pending p + 4 \<and>
    planned ans p [Declone a s] (\<lambda>t. unat (bk_clones (settled p) t) - of_bool (t = s)) q"
proof -
  have n: "nblocks p \<le> 12" and con: "consistent (nblocks p) (map_target p) (settled p)" and ok: "cmd_ring_ok p"
    using w by (auto simp: well_kept_def consistent_def)
  have an: "a < 16" "s < 16" using a s n by (auto simp: copies_of_def)
  obtain q where q: "nlm_device_loader_declone a s p = Some q" "extends ans p [Declone a s] q" "settled q = del_copy a s (settled p)"
    "map_target q = (map_target p)(a := 0)"
    using declone_queue [OF ok room hw an] by blast
  have nb: "nblocks q = nblocks p" using extends_nblocks [OF q(2)] by simp
  have "well_kept q" using consistent_del(1) [OF con a s top] q(2-4) nb by (simp add: well_kept_def extends_def)
  then have "planned ans p [Declone a s] (\<lambda>t. unat (bk_clones (settled p) t) - of_bool (t = s)) q"
    using q(2,3) consistent_del(2) [OF con a s top] by (auto simp: planned_def)
  with q(1,3) show ?thesis using extends_num_pending [OF q(2)] by simp
qed

text \<open>While the queue only holds removals, the arrays still describe the copies at the start.\<close>

definition shrinking :: "fms_loader \<Rightarrow> fms_loader \<Rightarrow> bool" where
  "shrinking p q \<longleftrightarrow> frame p q \<and> bk_virt (settled q) = array_virt_ids p \<and> bk_copy (settled q) = copy_number p \<and>
     (\<forall>j < nblocks p. bk_current (settled q) j \<noteq> 0 \<longrightarrow> map_current p j \<noteq> 0)"

lemma shrink_candidate:
  assumes w: "well_kept q" and sh: "shrinking p q" and num: "numbered (nblocks p) (books_of p) b" and b: "b < nblocks p"
    and pos: "0 < unat (bk_clones (settled q) b)"
  obtains a where "a \<in> copies_of (nblocks q) (settled q) b" and "Suc (unat (bk_copy (settled q) a)) = unat (bk_clones (settled q) b)"
    and "\<And>j. j < nblocks q \<Longrightarrow> (word_of_nat b = array_virt_ids q j \<and> map_current q j \<noteq> 0 \<and>
        unat (no_clones_target (shadow_map q b)) = unat (copy_number q j) + 1) \<longleftrightarrow> j = a"
proof -
  have nb: "nblocks q = nblocks p" and fr: "map_current q = map_current p" "array_virt_ids q = array_virt_ids p" "copy_number q = copy_number p"
    using sh by (auto simp: shrinking_def frame_def)
  have c: "numbered (nblocks q) (settled q) b" "bk_target (settled q) b = bk_clones (settled q) b"
    using w b nb by (auto simp: well_kept_def consistent_def)
  obtain a where a: "a \<in> copies_of (nblocks q) (settled q) b" "unat (bk_copy (settled q) a) = unat (bk_clones (settled q) b) - 1"
    using numbered_block [OF c(1), of "unat (bk_clones (settled q) b) - 1"] pos by auto
  have top: "Suc (unat (bk_copy (settled q) a)) = unat (bk_clones (settled q) b)" using a(2) pos by simp
  have tg: "no_clones_target (shadow_map q b) = bk_clones (settled q) b" using c(2) settled_target by metis
  have in_p: "a \<in> copies_of (nblocks p) (books_of p) b" "bk_copy (books_of p) a = bk_copy (settled q) a"
    using a(1) sh nb by (auto simp: copies_of_def shrinking_def books_of_def)
  have inj: "inj_on (\<lambda>a. unat (bk_copy (books_of p) a)) (copies_of (nblocks p) (books_of p) b)"
    using num by (simp add: numbered_def bij_betw_def)
  have "(word_of_nat b = array_virt_ids q j \<and> map_current q j \<noteq> 0 \<and>
        unat (no_clones_target (shadow_map q b)) = unat (copy_number q j) + 1) \<longleftrightarrow> j = a" if j: "j < nblocks q" for j
  proof
    assume "j = a"
    then show "word_of_nat b = array_virt_ids q j \<and> map_current q j \<noteq> 0 \<and> unat (no_clones_target (shadow_map q b)) = unat (copy_number q j) + 1"
      using in_p top tg fr by (simp add: copies_of_def books_of_def)
  next
    assume h: "word_of_nat b = array_virt_ids q j \<and> map_current q j \<noteq> 0 \<and> unat (no_clones_target (shadow_map q b)) = unat (copy_number q j) + 1"
    then have "j \<in> copies_of (nblocks p) (books_of p) b" using j nb fr by (simp add: copies_of_def books_of_def)
    moreover have "unat (bk_copy (books_of p) j) = unat (bk_copy (books_of p) a)"
      using h top tg fr in_p(2) by (simp add: books_of_def)
    ultimately show "j = a" using inj in_p(1) by (auto dest: inj_onD)
  qed
  with a(1) top that show ?thesis by blast
qed

lemma shrinking_hw: "shrinking p q \<Longrightarrow> frame q r \<Longrightarrow> settled r = settled q \<Longrightarrow> shrinking p r"
  by (auto simp: shrinking_def intro: frame_trans)

lemma shrinking_del: "shrinking p q \<Longrightarrow> frame q r \<Longrightarrow> settled r = del_copy a s (settled q) \<Longrightarrow> shrinking p r"
  by (auto simp: shrinking_def intro: frame_trans)

text \<open>Removing the copy with the highest number: clearing its bits in the group map, then queueing.\<close>

lemma remove_copy:
  assumes hs: "handshakes ans" and w: "well_kept q" and hw: "hw_is ans True 0 (ld_hw q)" and room: "num_pending q + 4 \<le> 167"
    and b: "b < nblocks q" and a: "a \<in> copies_of (nblocks q) (settled q) b"
    and top: "Suc (unat (bk_copy (settled q) a)) = unat (bk_clones (settled q) b)" and sh: "shrinking p q"
  shows "\<exists>q1 r. nlm_device_block_scheduler_delete b a t q = Some q1 \<and> nlm_device_loader_declone a b q1 = Some r \<and>
    num_pending r = num_pending q + 4 \<and> planned ans q [Declone a b] (\<lambda>s. unat (bk_clones (settled q) s) - of_bool (s = b)) r \<and> shrinking p r \<and>
    more_copies (nblocks q) {b} (settled r) (settled q)"
proof -
  obtain q1 where q1: "nlm_device_block_scheduler_delete b a t q = Some q1" "hw_only ans True 0 q q1"
    using scheduler_hw [OF hs hw] unfolding nlm_device_block_scheduler_delete_def by blast
  note h = hw_only_planned [OF w q1(2)] and s = planned_sel [OF hw_only_planned(1) [OF w q1(2)]]
  have f: "frame q q1" using s(1) by (simp add: extends_def)
  obtain r where r: "nlm_device_loader_declone a b q1 = Some r" "settled r = del_copy a b (settled q1)" "num_pending r = num_pending q1 + 4"
    "planned ans q1 [Declone a b] (\<lambda>t. unat (bk_clones (settled q1) t) - of_bool (t = b)) r"
    using declone_plan [OF s(2) _ s(3), of b a] room b a top h(2,3) s(4) by auto
  have fr: "frame q1 r" using r(4) by (simp add: planned_def extends_def)
  have "shrinking p r" using shrinking_del [OF shrinking_hw [OF sh f h(2)] fr r(2)] .
  moreover have "planned ans q [Declone a b] (\<lambda>s. unat (bk_clones (settled q) s) - of_bool (s = b)) r"
    using planned_trans [OF h(1) r(4)] h(2) by simp
  moreover have "nblocks q \<le> 12" using w by (simp add: well_kept_def consistent_def)
  then have "more_copies (nblocks q) {b} (settled r) (settled q)"
    unfolding r(2) h(2) using a b by (rule more_copies_del)
  ultimately show ?thesis using q1(1) r(1,3) h(3) by (intro exI [of _ q1] exI [of _ r]) simp
qed

lemma shrink_pass_correct:
  assumes hs: "handshakes ans" and num: "numbered (nblocks p) (books_of p) b" and b: "b < nblocks p"
    and "well_kept q" and "hw_is ans True 0 (ld_hw q)" and "shrinking p q" and "d \<le> 0" and "nat (- d) \<le> unat (bk_clones (settled q) b)"
    and "num_pending q + 4 * nat (- d) \<le> 167" and "set js \<subseteq> {..<nblocks p}"
  shows "\<exists>d' r ts. shrink_pass b js d q = Some (d', r) \<and> d \<le> d' \<and> d' \<le> 0 \<and> plain ts \<and> shrinking p r \<and>
    more_copies (nblocks p) {b} (settled r) (settled q) \<and>
    planned ans q ts (\<lambda>s. unat (bk_clones (settled q) s) - (if s = b then nat (d' - d) else 0)) r \<and>
    num_pending r = num_pending q + 4 * nat (d' - d) \<and>
    (d < 0 \<longrightarrow> (\<exists>a \<in> set js. a \<in> copies_of (nblocks q) (settled q) b \<and>
       Suc (unat (bk_copy (settled q) a)) = unat (bk_clones (settled q) b)) \<longrightarrow> d < d')"
  using assms(4-10)
proof (induction js arbitrary: d q)
  case Nil
  have "planned ans q [] (\<lambda>s. unat (bk_clones (settled q) s) - (if s = b then nat (d - d) else 0)) q"
    using planned_refl [OF Nil(1,2)] by (elim planned_cong [rotated]) simp
  then show ?case using Nil(3,4) by (intro exI [of _ d] exI [of _ q] exI [of _ "[]"]) (simp add: plain_def)
next
  case (Cons j js)
  have nb: "nblocks q = nblocks p" using Cons.prems(3) by (simp add: shrinking_def frame_def)
  show ?case
  proof (cases "d = 0")
    case True
    have "planned ans q [] (\<lambda>s. unat (bk_clones (settled q) s) - (if s = b then nat (0 - d) else 0)) q"
      using planned_refl [OF Cons.prems(1,2)] True by (elim planned_cong [rotated]) simp
    then show ?thesis using True Cons.prems(3)
      by (intro exI [of _ 0] exI [of _ q] exI [of _ "[]"]) (simp add: plain_def)
  next
    case False
    then have d: "d < 0" and pos: "0 < unat (bk_clones (settled q) b)" using Cons.prems by auto
    obtain a where a: "a \<in> copies_of (nblocks q) (settled q) b" "Suc (unat (bk_copy (settled q) a)) = unat (bk_clones (settled q) b)"
      and cand: "\<And>j. j < nblocks q \<Longrightarrow> (word_of_nat b = array_virt_ids q j \<and> map_current q j \<noteq> 0 \<and>
        unat (no_clones_target (shadow_map q b)) = unat (copy_number q j) + 1) \<longleftrightarrow> j = a"
      using shrink_candidate [OF Cons.prems(1,3) num b pos] by blast
    have jn: "j < nblocks q" using Cons.prems(7) nb by auto
    have room: "num_pending q + 4 \<le> 167" using Cons.prems(6) d by linarith
    show ?thesis
    proof (cases "j = a")
      case True
      obtain q1 r where r: "nlm_device_block_scheduler_delete b j (push_bit (unat (copy_number q j)) 1) q = Some q1"
        "nlm_device_loader_declone j b q1 = Some r" "num_pending r = num_pending q + 4"
        "planned ans q [Declone j b] (\<lambda>s. unat (bk_clones (settled q) s) - of_bool (s = b)) r" "shrinking p r"
        "more_copies (nblocks p) {b} (settled r) (settled q)"
        using remove_copy [OF hs Cons.prems(1,2) room _ a Cons.prems(3), of "push_bit (unat (copy_number q j)) 1", unfolded nb, OF b]
        unfolding True by blast
      note s = planned_sel [OF r(4)]
      have cl: "unat (bk_clones (settled r) b) = unat (bk_clones (settled q) b) - 1" using s(6) b nb by simp
      have lt: "nat (- d) = Suc (nat (- (d + 1)))" using d by simp
      have pre: "d + 1 \<le> 0" "nat (- (d + 1)) \<le> unat (bk_clones (settled r) b)" "num_pending r + 4 * nat (- (d + 1)) \<le> 167"
        "set js \<subseteq> {..<nblocks p}"
        using Cons.prems(5-7) d cl r(3) unfolding lt by simp_all
      obtain d' r' ts where r': "shrink_pass b js (d + 1) r = Some (d', r')" "d + 1 \<le> d'" "d' \<le> 0" "plain ts" "shrinking p r'"
        "more_copies (nblocks p) {b} (settled r') (settled r)" "planned ans r ts (\<lambda>s. unat (bk_clones (settled r) s) - (if s = b then nat (d' - (d + 1)) else 0)) r'"
        "num_pending r' = num_pending r + 4 * nat (d' - (d + 1))"
        using Cons.IH [OF s(2,3) r(5), of "d + 1"] pre by blast
      have st: "shrink_pass b (j # js) d q = Some (d', r')"
        using False cand [OF jn] True r(1,2) r'(1) by simp
      have n: "nat (d' - d) = Suc (nat (d' - (d + 1)))" using r'(2) by simp
      have "planned ans q ([Declone j b] @ ts) (\<lambda>s. unat (bk_clones (settled q) s) - (if s = b then nat (d' - d) else 0)) r'"
        using planned_trans [OF r(4) r'(7)] by (rule planned_cong [rotated]) (use s(6) n in auto)
      moreover have "more_copies (nblocks p) {b} (settled r') (settled q)"
        by (rule more_copies_trans [OF r'(6) r(6)]) simp_all
      ultimately show ?thesis using st r' r(3) n
        by (intro exI [of _ d'] exI [of _ r'] exI [of _ "[Declone j b] @ ts"]) (auto simp: plain_def)
    next
      case False
      then have e: "shrink_pass b (j # js) d q = shrink_pass b js d q" using d cand [OF jn] by auto
      have uniq: "x = a" if "x \<in> copies_of (nblocks q) (settled q) b" "Suc (unat (bk_copy (settled q) x)) = unat (bk_clones (settled q) b)" for x
      proof -
        have "numbered (nblocks q) (settled q) b" using Cons.prems(1) b nb by (auto simp: well_kept_def consistent_def)
        then have "inj_on (\<lambda>a. unat (bk_copy (settled q) a)) (copies_of (nblocks q) (settled q) b)" by (simp add: numbered_def bij_betw_def)
        moreover have "unat (bk_copy (settled q) x) = unat (bk_copy (settled q) a)" using that(2) a(2) by linarith
        ultimately show ?thesis using that(1) a(1) by (auto dest: inj_onD)
      qed
      have "set js \<subseteq> {..<nblocks p}" using Cons.prems(7) by simp
      from Cons.IH [OF Cons.prems(1-6) this] obtain d' r ts where r: "shrink_pass b js d q = Some (d', r)" "d \<le> d'" "d' \<le> 0" "plain ts"
        "shrinking p r" "more_copies (nblocks p) {b} (settled r) (settled q)" "planned ans q ts (\<lambda>s. unat (bk_clones (settled q) s) - (if s = b then nat (d' - d) else 0)) r"
        "num_pending r = num_pending q + 4 * nat (d' - d)"
        "d < 0 \<longrightarrow> (\<exists>a \<in> set js. a \<in> copies_of (nblocks q) (settled q) b \<and>
          Suc (unat (bk_copy (settled q) a)) = unat (bk_clones (settled q) b)) \<longrightarrow> d < d'" by blast
      show ?thesis using e r uniq False by (intro exI [of _ d'] exI [of _ r] exI [of _ ts]) auto
    qed
  qed
qed

text \<open>As every pass removes at least the copy with the highest number, the passes come to an end.\<close>

lemma shrink_block_correct:
  assumes hs: "handshakes ans" and num: "numbered (nblocks p) (books_of p) b" and b: "b < nblocks p"
    and "well_kept q" and "hw_is ans True 0 (ld_hw q)" and "shrinking p q" and "d \<le> 0" and "nat (- d) \<le> unat (bk_clones (settled q) b)"
    and "num_pending q + 4 * nat (- d) \<le> 167"
  shows "\<exists>r ts. shrink_block b d q = Some r \<and> plain ts \<and> shrinking p r \<and>
    more_copies (nblocks p) {b} (settled r) (settled q) \<and>
    planned ans q ts (\<lambda>s. unat (bk_clones (settled q) s) - (if s = b then nat (- d) else 0)) r \<and>
    num_pending r = num_pending q + 4 * nat (- d)"
  using assms(4-9)
proof (induction "nat (- d)" arbitrary: d q rule: less_induct)
  case less
  have nb: "nblocks q = nblocks p" using less.prems(3) by (simp add: shrinking_def frame_def)
  show ?case
  proof (cases "d = 0")
    case True
    have "planned ans q [] (\<lambda>s. unat (bk_clones (settled q) s) - (if s = b then nat (- d) else 0)) q"
      using planned_refl [OF less.prems(1,2)] True by (elim planned_cong [rotated]) simp
    then show ?thesis using True less.prems(3)
      by (intro exI [of _ q] exI [of _ "[]"]) (simp add: plain_def shrink_block.simps)
  next
    case False
    then have d: "d < 0" and pos: "0 < unat (bk_clones (settled q) b)" using less.prems by auto
    obtain a where a: "a \<in> copies_of (nblocks q) (settled q) b" "Suc (unat (bk_copy (settled q) a)) = unat (bk_clones (settled q) b)"
      using shrink_candidate [OF less.prems(1,3) num b pos] by blast
    have js: "set [0..<nblocks q] \<subseteq> {..<nblocks p}" "\<exists>a \<in> set [0..<nblocks q]. a \<in> copies_of (nblocks q) (settled q) b \<and>
        Suc (unat (bk_copy (settled q) a)) = unat (bk_clones (settled q) b)"
      using a nb by (auto simp: copies_of_def)
    from shrink_pass_correct [OF hs num b less.prems js(1)]
    obtain d' r ts where r: "shrink_pass b [0..<nblocks q] d q = Some (d', r)" "d \<le> d'" "d' \<le> 0" "plain ts" "shrinking p r"
      "more_copies (nblocks p) {b} (settled r) (settled q)" "planned ans q ts (\<lambda>s. unat (bk_clones (settled q) s) - (if s = b then nat (d' - d) else 0)) r"
      "num_pending r = num_pending q + 4 * nat (d' - d)" "d < d'" using d js(2) by blast
    note s = planned_sel [OF r(7)]
    have cl: "unat (bk_clones (settled r) b) = unat (bk_clones (settled q) b) - nat (d' - d)" using s(6) b nb by simp
    have k: "nat (- d) = nat (d' - d) + nat (- d')" using r(2,3) by simp
    have pre: "nat (- d') < nat (- d)" "nat (- d') \<le> unat (bk_clones (settled r) b)" "num_pending r + 4 * nat (- d') \<le> 167"
      using less.prems(5,6) r(3,8,9) cl k by linarith+
    obtain r' us where r': "shrink_block b d' r = Some r'" "plain us" "shrinking p r'"
      "more_copies (nblocks p) {b} (settled r') (settled r)" "planned ans r us (\<lambda>s. unat (bk_clones (settled r) s) - (if s = b then nat (- d') else 0)) r'" "num_pending r' = num_pending r + 4 * nat (- d')"
      using less.hyps [OF pre(1) s(2,3) r(5,3) pre(2,3)] by blast
    have e: "shrink_block b d q = Some r'" using False r(1) r'(1) by (subst shrink_block.simps) simp
    have "planned ans q (ts @ us) (\<lambda>s. unat (bk_clones (settled q) s) - (if s = b then nat (- d) else 0)) r'"
      using planned_trans [OF r(7) r'(5)] by (rule planned_cong [rotated]) (use s(6) k in auto)
    moreover have "more_copies (nblocks p) {b} (settled r') (settled q)"
      by (rule more_copies_trans [OF r'(4) r(6)]) simp_all
    ultimately show ?thesis using e r r' k by (intro exI [of _ r'] exI [of _ "ts @ us"]) simp
  qed
qed

lemma shrink_blocks:
  assumes hs: "handshakes ans" and num: "\<forall>b \<in> set bs. numbered (nblocks p) (books_of p) b \<and> b < nblocks p" and "distinct bs"
    and "well_kept q" and "hw_is ans True 0 (ld_hw q)" and "shrinking p q" and "d \<le> 0" and "\<forall>b \<in> set bs. nat (- d) \<le> unat (bk_clones (settled q) b)"
    and "num_pending q + length bs * (4 * nat (- d)) \<le> 167"
  shows "\<exists>r ts. foldM (\<lambda>b. shrink_block b d) bs q = Some r \<and> plain ts \<and>
    more_copies (nblocks p) (set bs) (settled r) (settled q) \<and>
    planned ans q ts (\<lambda>s. unat (bk_clones (settled q) s) - (if s \<in> set bs then nat (- d) else 0)) r"
  using assms(2-9)
proof (induction bs arbitrary: q)
  case Nil
  have "planned ans q [] (\<lambda>s. unat (bk_clones (settled q) s) - (if s \<in> set [] then nat (- d) else 0)) q"
    using planned_refl [OF Nil(3,4)] by (elim planned_cong [rotated]) simp
  then show ?case by (intro exI [of _ q] exI [of _ "[]"]) (simp add: plain_def)
next
  case (Cons b bs)
  have nb: "nblocks q = nblocks p" using Cons.prems(5) by (simp add: shrinking_def frame_def)
  have b: "numbered (nblocks p) (books_of p) b" "b < nblocks p" "nat (- d) \<le> unat (bk_clones (settled q) b)" using Cons.prems by auto
  have room: "num_pending q + 4 * nat (- d) \<le> 167" using Cons.prems(8) by simp
  obtain r ts where r: "shrink_block b d q = Some r" "plain ts" "shrinking p r"
    "more_copies (nblocks p) {b} (settled r) (settled q)" "planned ans q ts (\<lambda>s. unat (bk_clones (settled q) s) - (if s = b then nat (- d) else 0)) r" "num_pending r = num_pending q + 4 * nat (- d)"
    using shrink_block_correct [OF hs b(1,2) Cons.prems(3-6) b(3) room] by blast
  note s = planned_sel [OF r(5)]
  have cl: "unat (bk_clones (settled r) t) = unat (bk_clones (settled q) t)" if "t \<in> set bs" for t
    using that s(6) [of t] Cons.prems(1,2) nb by auto
  have pre: "\<forall>b \<in> set bs. numbered (nblocks p) (books_of p) b \<and> b < nblocks p" "distinct bs"
    "\<forall>b \<in> set bs. nat (- d) \<le> unat (bk_clones (settled r) b)" "num_pending r + length bs * (4 * nat (- d)) \<le> 167"
    using Cons.prems(1,2,7,8) cl r(6) by simp_all
  obtain r' us where r': "foldM (\<lambda>b. shrink_block b d) bs r = Some r'" "plain us"
    "more_copies (nblocks p) (set bs) (settled r') (settled r)" "planned ans r us (\<lambda>s. unat (bk_clones (settled r) s) - (if s \<in> set bs then nat (- d) else 0)) r'"
    using Cons.IH [OF pre(1,2) s(2,3) r(3) Cons.prems(6) pre(3,4)] by blast
  have "planned ans q (ts @ us) (\<lambda>s. unat (bk_clones (settled q) s) - (if s \<in> set (b # bs) then nat (- d) else 0)) r'"
    using planned_trans [OF r(5) r'(4)] by (rule planned_cong [rotated]) (use s(6) Cons.prems(2) in auto)
  moreover have "more_copies (nblocks p) (set (b # bs)) (settled r') (settled q)"
    by (rule more_copies_trans [OF r'(3) r(4)]) auto
  ultimately show ?case using r(1,2) r'(1,2) by (intro exI [of _ r'] exI [of _ "ts @ us"]) simp
qed

end
