(* ===== verification/Loader_Set.thy ===== *)
theory Loader_Set
  imports Loader_Num
begin

unbundle bit_operations_syntax

text \<open>
  nlm_device_database_set_num_copies on an idle loader, with a synchronous load policy: the call
  returns, and it leaves the loader idle with exactly the requested number of copies of every
  block of the database, or it finds that there is no room and changes nothing.
\<close>

section \<open>Idle loaders\<close>

definition loader_idle :: "(access list \<Rightarrow> u32 \<Rightarrow> u32) \<Rightarrow> fms_loader \<Rightarrow> bool" where
  "loader_idle ans p \<longleftrightarrow> well_kept p \<and> at_head ans True 0 [] p"

text \<open>The array blocks that search with shadow block \<open>s\<close>, and the copies they hold.\<close>

definition array_copies :: "fms_loader \<Rightarrow> nat \<Rightarrow> nat set" where
  "array_copies p s = {a. a < nblocks p \<and> map_current p a \<noteq> 0 \<and> array_virt_ids p a = word_of_nat s}"

lemma settled_idle: "pending p = [] \<Longrightarrow> settled p = books_of p" by (simp add: settled_def)

lemma books_sel [simp]:
  "bk_shadow (books_of p) = shadow_map p" "bk_virt (books_of p) = array_virt_ids p" "bk_current (books_of p) = map_current p"
  "bk_copy (books_of p) = copy_number p" "bk_clones (books_of p) s = no_clones_current (shadow_map p s)"
  "bk_target (books_of p) s = no_clones_target (shadow_map p s)"
  by (simp_all add: books_of_def bk_clones_def bk_target_def)

lemma idle_sel:
  assumes "loader_idle ans p"
  shows "well_kept p" and "pending p = []" and "cmd_ring_ok p" and "num_pending p = 0" and "hw_is ans True 0 (ld_hw p)"
    and "device_ok ans (pause_timeout p)" and "handshakes ans" and "settled p = books_of p" and "nblocks p \<le> 12"
  using assms length_pending [of p]
  by (auto simp: loader_idle_def at_head_def device_ok_def settled_idle well_kept_def consistent_def simp del: length_pending)

lemma idle_books:
  assumes "loader_idle ans p" and "s < nblocks p"
  shows "no_clones_target (shadow_map p s) = no_clones_current (shadow_map p s)" and "numbered (nblocks p) (books_of p) s"
    and "card (array_copies p s) = unat (no_clones_current (shadow_map p s))" and "unat (no_clones_current (shadow_map p s)) \<le> 12"
proof -
  have c: "consistent (nblocks p) (map_target p) (books_of p)" using idle_sel(1,8) [OF assms(1)] by (simp add: well_kept_def)
  then show "no_clones_target (shadow_map p s) = no_clones_current (shadow_map p s)" and n: "numbered (nblocks p) (books_of p) s"
    using assms(2) by (auto simp: consistent_def)
  show "card (array_copies p s) = unat (no_clones_current (shadow_map p s))"
    using card_copies [OF n] by (simp add: copies_of_def array_copies_def)
  show "unat (no_clones_current (shadow_map p s)) \<le> 12"
    using clones_le [OF n] idle_sel(9) [OF assms(1)] by simp
qed

lemma idle_exec: "loader_idle ans p \<Longrightarrow> nlm_device_loader_cmd_exec_fms master p = Some (NLM_OK, p)"
  using idle_sel(2,3) [of ans p] num_pending_facts(4) [of p] idle_sel(4) [of ans p]
  by (simp add: nlm_device_loader_cmd_exec_fms_def check_master_def exec_ring_def)

lemma fold_effect_db: "sh_db_id (bk_shadow (fold effect cs B) s) = sh_db_id (bk_shadow B s)"
proof (induction cs arbitrary: B)
  case (Cons c cs)
  have "sh_db_id (bk_shadow (effect c B) s) = sh_db_id (bk_shadow B s)"
    by (cases "opcode c") (simp_all add: effect_def Let_def)
  with Cons show ?case by simp
qed simp

text \<open>A planned change is carried out by the loop over the commands.\<close>

lemma exec_extended:
  assumes idle: "loader_idle ans p" and x: "extends ans p ts q" and w: "well_kept q" and ok: "tasks_ok ts (books_of q)"
  shows "\<exists>r. exec_all master q = Some (NLM_OK, r) \<and> loader_idle ans r \<and> nblocks r = nblocks p \<and>
    books_of r = settled q \<and> database_load_policy r = database_load_policy p \<and> pause_timeout r = pause_timeout p \<and>
    block_group_list r = block_group_list p \<and> extension_area r = extension_area p"
proof -
  note i = idle_sel [OF idle]
  have fr: "frame p q" and pq: "pending q = concat (map cmds_of ts)" and hw: "hw_is ans True 0 (ld_hw q)"
    using x i(2) by (simp_all add: extends_def)
  have "at_head ans True 0 (concat (map cmds_of ts)) q"
    using w hw pq i(6) fr by (simp add: at_head_def well_kept_def frame_def)
  from run_tasks [OF this ok] obtain r where r: "exec_all master q = Some (NLM_OK, r)" "at_head ans True 0 [] r"
    "books_of r = settled q" "advanced q r" by blast
  have a: "map_target r = map_target q" "num_fms_blocks r = num_fms_blocks q" "database_load_policy r = database_load_policy q"
    "pause_timeout r = pause_timeout q" "block_group_list r = block_group_list q" "extension_area r = extension_area q"
    using r(4) by (simp_all add: advanced_def same_plan_def)
  have st: "settled r = settled q" using r(2,3) by (simp add: settled_idle at_head_def)
  then have "well_kept r" using w r(2) a by (simp add: well_kept_def at_head_def)
  then show ?thesis using r(1-3) a fr by (auto simp: loader_idle_def frame_def)
qed

lemma extends_policy: "extends ans p ts q \<Longrightarrow> database_load_policy q = database_load_policy p"
  by (simp add: extends_def frame_def)

text \<open>With a synchronous policy the operations end with this loop.\<close>

lemma run_extended:
  assumes idle: "loader_idle ans p" and x: "extends ans p ts q" and w: "well_kept q" and ok: "tasks_ok ts (books_of q)"
    and pol: "database_load_policy p \<noteq> NLM_DATABASE_LOAD_POLICY_ASYNC"
  shows "\<exists>r. run_commands master q = Some (NLM_OK, r) \<and> loader_idle ans r \<and> nblocks r = nblocks p \<and>
    books_of r = settled q \<and> database_load_policy r = database_load_policy p \<and> pause_timeout r = pause_timeout p \<and>
    block_group_list r = block_group_list p \<and> extension_area r = extension_area p"
  using exec_extended [OF idle x w ok] pol extends_policy [OF x] by (simp add: run_commands_def)

lemma exec_planned:
  assumes idle: "loader_idle ans p" and pl: "planned ans p ts f q" and ok: "tasks_ok ts (books_of q)"
  shows "\<exists>r. exec_all master q = Some (NLM_OK, r) \<and> loader_idle ans r \<and> nblocks r = nblocks p \<and>
    books_of r = settled q \<and> database_load_policy r = database_load_policy p \<and>
    (\<forall>s < nblocks p. unat (no_clones_current (shadow_map r s)) = f s) \<and>
    block_group_list r = block_group_list p \<and> extension_area r = extension_area p"
proof -
  note s = planned_sel [OF pl]
  obtain r where r: "exec_all master q = Some (NLM_OK, r)" "loader_idle ans r" "nblocks r = nblocks p" "books_of r = settled q"
    "database_load_policy r = database_load_policy p" "block_group_list r = block_group_list p" "extension_area r = extension_area p"
    using exec_extended [OF idle s(1,2) ok] by blast
  have "unat (no_clones_current (shadow_map r t)) = f t" if "t < nblocks p" for t
    using s(6) [OF that] r(4) [symmetric] by simp
  then show ?thesis using r by blast
qed

lemma planned_db: "planned ans p ts f q \<Longrightarrow> pending p = [] \<Longrightarrow> sh_db_id (bk_shadow (settled q) s) = sh_db_id (shadow_map p s)"
  by (simp add: settled_def fold_effect_db planned_def extends_def frame_shadow)

section \<open>How many copies are missing\<close>

lemma sint_word_of_int_u32: "- 2000 < i \<Longrightarrow> i < 2000 \<Longrightarrow> sint (word_of_int i :: u32) = i"
  by (simp add: signed_of_int signed_take_bit_int_eq_self)

lemma missing_value:
  assumes "no_clones_target (shadow_map p b) = k" shows "copies_missing n p b = word_of_int (int (unat n) - int (unat k))"
proof -
  have "(ucast k :: u32) = word_of_int (int (unat k))" by (simp only: ucast_eq uint_nat)
  moreover have "n = word_of_int (int (unat n))" by (simp only: uint_nat [symmetric] word_of_int_uint)
  ultimately show ?thesis unfolding copies_missing_def assms by (metis wi_hom_sub)
qed

lemma sum_missing:
  assumes "\<forall>b \<in> set bs. no_clones_target (shadow_map p b) = k"
  shows "sum_list (map (copies_missing n p) bs) = word_of_int (int (length bs) * (int (unat n) - int (unat k)))"
  using assms
proof (induction bs)
  case (Cons b bs)
  then show ?case by (simp add: missing_value [of p b k] wi_hom_add distrib_right add.commute)
qed simp

lemma delta_loop_same:
  assumes "\<forall>b \<in> set bs. no_clones_target (shadow_map p b) = k" and "n \<le> 4" and "unat k \<le> 12" and "bs \<noteq> []"
  shows "delta_loop n p bs True 0 0 = Some (int (unat n) - int (unat k))"
proof -
  let ?d = "int (unat n) - int (unat k)"
  have n: "unat n \<le> 4" using assms(2) by (simp add: word_le_nat_alt)
  have s: "sint (copies_missing n p b) = ?d" if "b \<in> set bs" for b
    using sint_word_of_int_u32 [of ?d] n assms(3) unfolding missing_value [of p b k n, OF bspec [OF assms(1) that]] by linarith
  have "delta_loop n p cs False ?d ?d = Some ?d" if "set cs \<subseteq> set bs" for cs
    using that by (induction cs) (simp_all add: s)
  then show ?thesis using assms(4) s by (cases bs) (simp_all add: Let_def, auto)
qed

section \<open>Setting the number of copies\<close>

lemma distinct_shadow_block_list: "distinct (shadow_block_list p db)" by (simp add: shadow_block_list_def)

lemma shadow_block_listD:
  "b \<in> set (shadow_block_list p db) \<Longrightarrow> b < nblocks p \<and> sh_valid (shadow_map p b) \<and> ucast (sh_db_id (shadow_map p b)) = db"
  by (simp add: shadow_block_list_def)

lemma length_shadow_block_list: "length (shadow_block_list p db) \<le> nblocks p"
  by (simp add: shadow_block_list_def order.trans [OF length_filter_le])

lemma num_array_blocks_free_le: "num_array_blocks_free p \<le> nblocks p"
  by (simp add: num_array_blocks_free_def order.trans [OF length_filter_le])

text \<open>Both directions queue a plan.\<close>

lemma grow_plan:
  assumes idle: "loader_idle ans p" and bs: "distinct bs" "bs \<noteq> []" "\<forall>b \<in> set bs. b < nblocks p \<and> sh_valid (shadow_map p b)"
    and d: "d \<le> 4" "length bs * d \<le> num_array_blocks_free p"
  shows "\<exists>q ts. foldM (\<lambda>_. grow_once bs) [0..<d] p = Some q \<and> plain ts \<and>
    planned ans p ts (\<lambda>s. unat (no_clones_current (shadow_map p s)) + (if s \<in> set bs then d else 0)) q \<and>
    more_copies (nblocks p) (set bs) (books_of p) (settled q)"
proof -
  note i = idle_sel [OF idle]
  have "length bs * d \<le> 12" using d(2) num_array_blocks_free_le [of p] i(9) by linarith
  then have "d * (6 * length bs + 1) \<le> 167" using d(1) by (simp add: distrib_left mult.commute mult.left_commute)
  moreover have "\<forall>b \<in> set bs. b < nblocks p \<and> sh_valid (bk_shadow (settled p) b)" using bs(3) i(8) by simp
  ultimately obtain q ts where q: "foldM (\<lambda>_. grow_once bs) [0..<d] p = Some q" "plain ts"
    "planned ans p ts (\<lambda>s. unat (bk_clones (settled p) s) + (if s \<in> set bs then length [0..<d] else 0)) q"
    "more_copies (nblocks p) (set bs) (settled p) (settled q)"
    using grow [of p ans bs "[0..<d]"] i(1,4,5) bs(1,2) d(2) by (auto simp: mult.commute)
  then show ?thesis
    unfolding i(8) books_sel length_upt diff_zero by blast
qed

lemma shrink_plan:
  assumes idle: "loader_idle ans p" and bs: "distinct bs" "\<forall>b \<in> set bs. b < nblocks p \<and> no_clones_current (shadow_map p b) = k"
    and d: "nat (- d) \<le> unat k" "d \<le> 0" and few: "length bs * unat k \<le> 12"
  shows "\<exists>q r p1 ts. with_hw LOCK_GID_BMAP p = Some p1 \<and> foldM (\<lambda>b. shrink_block b d) bs p1 = Some q \<and>
    with_hw UNLOCK_GID_BMAP q = Some r \<and> plain ts \<and>
    planned ans p ts (\<lambda>s. unat (no_clones_current (shadow_map p s)) - (if s \<in> set bs then nat (- d) else 0)) r \<and>
    more_copies (nblocks p) (set bs) (settled r) (books_of p)"
proof -
  note i = idle_sel [OF idle]
  obtain p1 where p1: "with_hw LOCK_GID_BMAP p = Some p1" "hw_only ans True 0 p p1"
    using with_hw_returns [OF lock_keeps(1) [OF i(7)] i(5)] by blast
  note h = hw_only_planned [OF i(1) p1(2)] and s = planned_sel [OF hw_only_planned(1) [OF i(1) p1(2)]]
  have sh: "shrinking p p1" using s(1) h(2) i(8) by (simp add: shrinking_def extends_def)
  have num: "\<forall>b \<in> set bs. numbered (nblocks p) (books_of p) b \<and> b < nblocks p" using bs(2) idle_books(2) [OF idle] by blast
  have cl: "\<forall>b \<in> set bs. nat (- d) \<le> unat (bk_clones (settled p1) b)" using bs(2) d h(2) i(8) by auto
  have "length bs * nat (- d) \<le> length bs * unat k" using d by simp
  then have room: "num_pending p1 + length bs * (4 * nat (- d)) \<le> 167" using few h(3) i(4) by linarith
  obtain q ts where q: "foldM (\<lambda>b. shrink_block b d) bs p1 = Some q" "plain ts"
    "planned ans p1 ts (\<lambda>s. unat (bk_clones (settled p1) s) - (if s \<in> set bs then nat (- d) else 0)) q"
    "more_copies (nblocks p) (set bs) (settled q) (settled p1)"
    using shrink_blocks [OF i(7) num bs(1) s(2,3) sh d(2) cl room] by blast
  note t = planned_sel [OF q(3)]
  obtain r where r: "with_hw UNLOCK_GID_BMAP q = Some r" "hw_only ans True 0 q r"
    using with_hw_returns [OF lock_keeps(2) [OF i(7)] t(3)] by blast
  have "planned ans p ([] @ ts @ []) (\<lambda>s. unat (no_clones_current (shadow_map p s)) - (if s \<in> set bs then nat (- d) else 0)) r"
    using planned_trans [OF h(1) planned_trans [OF q(3) hw_only_planned(1) [OF t(2) r(2)]]]
    by (rule planned_cong [rotated]) (use t(4,6) s(4) h(2) i(8) in auto)
  moreover have "more_copies (nblocks p) (set bs) (settled r) (books_of p)"
    using q(4) hw_only_planned(2) [OF t(2) r(2)] h(2) i(8) by simp
  ultimately show ?thesis using p1(1) q(1,2) r(1) by auto
qed

text \<open>The copies of different blocks are in different array blocks.\<close>

lemma sum_copies:
  assumes idle: "loader_idle ans p" and bs: "distinct bs" "\<forall>b \<in> set bs. b < nblocks p"
  shows "(\<Sum>b \<leftarrow> bs. unat (no_clones_current (shadow_map p b))) \<le> 12"
proof -
  have n: "nblocks p \<le> 12" using idle_sel(9) [OF idle] .
  have "array_copies p s \<inter> array_copies p t = {}" if "s \<in> set bs" "t \<in> set bs" "s \<noteq> t" for s t
    using word_of_nat_u8_inj [of s t] that bs(2) n by (fastforce simp: array_copies_def)
  then have "card (\<Union>s \<in> set bs. array_copies p s) = (\<Sum>s \<in> set bs. card (array_copies p s))"
    by (intro card_UN_disjoint) (auto simp: array_copies_def)
  also have "\<dots> = (\<Sum>s \<in> set bs. unat (no_clones_current (shadow_map p s)))"
    using idle_books(3) [OF idle] bs(2) by (intro sum.cong) auto
  also have "\<dots> = (\<Sum>b \<leftarrow> bs. unat (no_clones_current (shadow_map p b)))" by (rule sum.distinct_set_conv_list [OF bs(1)])
  finally have "(\<Sum>b \<leftarrow> bs. unat (no_clones_current (shadow_map p b))) = card (\<Union>s \<in> set bs. array_copies p s)" ..
  also have "\<dots> \<le> card {..<nblocks p}" by (intro card_mono) (auto simp: array_copies_def)
  finally show ?thesis using n by simp
qed

lemma total_copies:
  assumes "loader_idle ans p" and "distinct bs" and bs: "\<forall>b \<in> set bs. b < nblocks p \<and> no_clones_current (shadow_map p b) = k"
  shows "length bs * unat k \<le> 12"
proof -
  have "(\<Sum>b \<leftarrow> bs. unat (no_clones_current (shadow_map p b))) = length bs * unat k"
    using bs by (induction bs) auto
  moreover have "\<forall>b \<in> set bs. b < nblocks p" using bs by blast
  ultimately show ?thesis using sum_copies [OF assms(1,2)] by simp
qed

lemma plain_planned_ok: "planned ans p ts f q \<Longrightarrow> plain ts \<Longrightarrow> tasks_ok ts B"
  by (intro plain_ok) (auto simp: planned_def extends_def)

lemma difference_small:
  fixes l n k :: nat assumes "l \<le> 12" and "n \<le> 4" and "k \<le> 12"
  shows "- 2000 < int l * (int n - int k) \<and> int l * (int n - int k) < 2000"
proof -
  have "l * n \<le> 12 * 4" "l * k \<le> 12 * 12" by (rule mult_le_mono [OF assms(1,2)], rule mult_le_mono [OF assms(1,3)])
  then have "int l * int n \<le> 48" "int l * int k \<le> 144" by (simp_all flip: of_nat_mult)
  moreover have "int l * (int n - int k) = int l * int n - int l * int k" by (rule right_diff_distrib)
  moreover have "0 \<le> int l * int n" "0 \<le> int l * int k" by simp_all
  ultimately show ?thesis by linarith
qed

lemma planned_same_databases:
  assumes "planned ans p ts f q" and "pending p = []" and "books_of r = settled q" and "nblocks r = nblocks p"
  shows "shadow_block_list r = shadow_block_list p"
proof -
  have "sh_valid (shadow_map r s) = sh_valid (shadow_map p s)" "sh_db_id (shadow_map r s) = sh_db_id (shadow_map p s)" for s
    using planned_sel(5) [OF assms(1)] planned_db [OF assms(1,2)] assms(2) by (simp_all add: settled_idle flip: assms(3))
  then show ?thesis using assms(4) by (simp add: shadow_block_list_def fun_eq_iff)
qed

text \<open>The common part: what the checks compute.\<close>

lemma set_num_copies_checks:
  assumes idle: "loader_idle ans p" and db: "database_id \<le> NLM_MAX_DATABASE_ID" and n: "num_copies \<le> 4"
    and bs: "shadow_block_list p database_id \<noteq> []"
    and same: "\<forall>b \<in> set (shadow_block_list p database_id). no_clones_current (shadow_map p b) = k"
  shows "nlm_device_database_set_num_copies master database_id num_copies p =
    (let bs = shadow_block_list p database_id; d = int (unat num_copies) - int (unat k) in
     if num_array_blocks_free p < length bs * (unat num_copies - unat k) then Some (NLM_INVALID_DATABASE_SIZE, p)
     else Option.bind
        (if 0 < d then foldM (\<lambda>_. grow_once bs) [0..<nat d] p
         else Option.bind (with_hw LOCK_GID_BMAP p) (\<lambda>p1. Option.bind (foldM (\<lambda>b. shrink_block b d) bs p1) (with_hw UNLOCK_GID_BMAP)))
        (run_commands master))"
proof -
  let ?bs = "shadow_block_list p database_id" and ?d = "int (unat num_copies) - int (unat k)"
  note D = shadow_block_listD [of _ p database_id]
  have b: "\<forall>b \<in> set ?bs. b < nblocks p \<and> no_clones_current (shadow_map p b) = k" using same D by blast
  have tg: "\<forall>b \<in> set ?bs. no_clones_target (shadow_map p b) = k" using idle_books(1) [OF idle] b by simp
  have k: "unat k \<le> 12" using idle_books(4) [OF idle] b bs by (metis last_in_set)
  have n4: "unat num_copies \<le> 4" using n by (simp add: word_le_nat_alt)
  have len: "length ?bs \<le> 12" using length_shadow_block_list [of p database_id] idle_sel(9) [OF idle] by linarith
  have "- 2000 < int (length ?bs) * ?d" "int (length ?bs) * ?d < 2000" using difference_small [OF len n4 k] by blast+
  then have req: "sint (sum_list (map (copies_missing num_copies p) ?bs)) = int (length ?bs) * ?d"
    unfolding sum_missing [OF tg] by (rule sint_word_of_int_u32)
  have g: "\<not> NLM_MAX_DATABASE_ID < database_id" "\<not> 4 < num_copies" using db n by simp_all
  have fits: "(0 < int (length ?bs) * ?d \<and> int (num_array_blocks_free p) < int (length ?bs) * ?d) \<longleftrightarrow>
    num_array_blocks_free p < length ?bs * (unat num_copies - unat k)"
  proof (cases "unat k < unat num_copies")
    case True
    then have "?d = int (unat num_copies - unat k)" by linarith
    moreover have "0 < length ?bs * (unat num_copies - unat k)" using True bs by simp
    ultimately show ?thesis by (metis of_nat_0_less_iff of_nat_less_iff of_nat_mult)
  next
    case False
    then have "?d \<le> 0" "unat num_copies - unat k = 0" by linarith+
    then have "int (length ?bs) * ?d \<le> 0" by (intro mult_nonneg_nonpos) simp_all
    with \<open>unat num_copies - unat k = 0\<close> show ?thesis by (simp del: of_nat_unat)
  qed
  show ?thesis
    unfolding nlm_device_database_set_num_copies_def Let_def req delta_loop_same [OF tg n k bs] fits
      if_not_P [OF bs] if_not_P [OF g(1)] if_not_P [OF g(2)] by (simp add: check_master_def)
qed



lemma set_num_copies_aux:
  assumes idle: "loader_idle ans p"
    and db: "database_id \<le> NLM_MAX_DATABASE_ID" and n: "num_copies \<le> 4" and bs: "shadow_block_list p database_id \<noteq> []"
    and same: "\<forall>b \<in> set (shadow_block_list p database_id). no_clones_current (shadow_map p b) = k"
    and room: "length (shadow_block_list p database_id) * (unat num_copies - unat k) \<le> num_array_blocks_free p"
  shows "\<exists>q ts. nlm_device_database_set_num_copies master database_id num_copies p = run_commands master q \<and> plain ts \<and>
    planned ans p ts (\<lambda>s. if s \<in> set (shadow_block_list p database_id) then unat num_copies else unat (no_clones_current (shadow_map p s))) q \<and>
    (more_copies (nblocks p) (set (shadow_block_list p database_id)) (books_of p) (settled q) \<or>
     more_copies (nblocks p) (set (shadow_block_list p database_id)) (settled q) (books_of p))"
proof -
  let ?bs = "shadow_block_list p database_id" and ?d = "int (unat num_copies) - int (unat k)"
  note D = shadow_block_listD [of _ p database_id]
  have b: "\<forall>b \<in> set ?bs. b < nblocks p \<and> no_clones_current (shadow_map p b) = k" using same D by blast
  have n4: "unat num_copies \<le> 4" using n by (simp add: word_le_nat_alt)
  have e: "nlm_device_database_set_num_copies master database_id num_copies p =
      Option.bind
        (if 0 < ?d then foldM (\<lambda>_. grow_once ?bs) [0..<nat ?d] p
         else Option.bind (with_hw LOCK_GID_BMAP p) (\<lambda>p1. Option.bind (foldM (\<lambda>b. shrink_block b ?d) ?bs p1) (with_hw UNLOCK_GID_BMAP)))
        (run_commands master)"
    using set_num_copies_checks [OF idle db n bs same] room unfolding Let_def by (simp add: not_less [symmetric] del: of_nat_unat)
  show ?thesis
  proof (cases "0 < ?d")
    case True
    have "nat ?d = unat num_copies - unat k" "unat k < unat num_copies" using True by linarith+
    then have d: "nat ?d \<le> 4" "length ?bs * nat ?d \<le> num_array_blocks_free p" "nat ?d + unat k = unat num_copies"
      using n4 room by (simp_all del: of_nat_unat)
    have v: "\<forall>b \<in> set ?bs. b < nblocks p \<and> sh_valid (shadow_map p b)" using D by blast
    from grow_plan [OF idle distinct_shadow_block_list bs v d(1,2)] obtain q ts where
      q: "foldM (\<lambda>_. grow_once ?bs) [0..<nat ?d] p = Some q" "plain ts"
      "planned ans p ts (\<lambda>s. unat (no_clones_current (shadow_map p s)) + (if s \<in> set ?bs then nat ?d else 0)) q"
      "more_copies (nblocks p) (set ?bs) (books_of p) (settled q)" by blast
    have "planned ans p ts (\<lambda>s. if s \<in> set ?bs then unat num_copies else unat (no_clones_current (shadow_map p s))) q"
      using q(3) by (rule planned_cong [rotated]) (use b d(3) in auto)
    then show ?thesis using e q(1,2,4) True by auto
  next
    case False
    then have d: "nat (- ?d) \<le> unat k" "?d \<le> 0" "unat k - nat (- ?d) = unat num_copies" by linarith+
    from shrink_plan [OF idle distinct_shadow_block_list b d(1,2) total_copies [OF idle distinct_shadow_block_list b]]
    obtain q r p1 ts where q: "with_hw LOCK_GID_BMAP p = Some p1" "foldM (\<lambda>b. shrink_block b ?d) ?bs p1 = Some q"
      "with_hw UNLOCK_GID_BMAP q = Some r" "plain ts"
      "planned ans p ts (\<lambda>s. unat (no_clones_current (shadow_map p s)) - (if s \<in> set ?bs then nat (- ?d) else 0)) r"
      "more_copies (nblocks p) (set ?bs) (settled r) (books_of p)" by blast
    have "planned ans p ts (\<lambda>s. if s \<in> set ?bs then unat num_copies else unat (no_clones_current (shadow_map p s))) r"
      using q(5) by (rule planned_cong [rotated]) (use b d(3) in auto)
    then show ?thesis using e q(1-4,6) False by auto
  qed
qed

text \<open>The blocks outside of \<open>S\<close> stay in the same array blocks; those of \<open>S\<close> only gain or only lose copies.\<close>

definition copies_kept :: "fms_loader \<Rightarrow> nat set \<Rightarrow> fms_loader \<Rightarrow> bool" where
  "copies_kept p S q \<longleftrightarrow> (\<forall>s < nblocks p.
     if s \<in> S then array_copies p s \<subseteq> array_copies q s \<or> array_copies q s \<subseteq> array_copies p s
     else array_copies q s = array_copies p s)"

lemma copies_kept_books:
  assumes "more_copies (nblocks p) S (books_of p) (books_of q) \<or> more_copies (nblocks p) S (books_of q) (books_of p)"
    and "nblocks q = nblocks p"
  shows "copies_kept p S q"
proof -
  have "copies_of (nblocks p) (books_of r) s = array_copies r s" if "nblocks r = nblocks p" for r s
    using that by (simp add: copies_of_def array_copies_def)
  with assms show ?thesis unfolding more_copies_def copies_kept_def by auto
qed

text \<open>With room the operation queues its commands, whatever the policy, and the loop over them reaches the
  number of copies.\<close>

lemma set_num_copies_queued:
  assumes "loader_idle ans p"
    and "database_id \<le> NLM_MAX_DATABASE_ID" and "num_copies \<le> 4" and "shadow_block_list p database_id \<noteq> []"
    and "\<forall>b \<in> set (shadow_block_list p database_id). no_clones_current (shadow_map p b) = k"
    and "length (shadow_block_list p database_id) * (unat num_copies - unat k) \<le> num_array_blocks_free p"
  shows "\<exists>q r. nlm_device_database_set_num_copies master database_id num_copies p = run_commands master q \<and>
    database_load_policy q = database_load_policy p \<and> exec_all master q = Some (NLM_OK, r) \<and>
    loader_idle ans r \<and> shadow_block_list r = shadow_block_list p \<and> database_load_policy r = database_load_policy p \<and>
    block_group_list r = block_group_list p \<and> extension_area r = extension_area p \<and>
    copies_kept p (set (shadow_block_list p database_id)) r \<and> (\<forall>s < nblocks p. card (array_copies r s) =
       (if s \<in> set (shadow_block_list p database_id) then unat num_copies else card (array_copies p s)))"
proof -
  obtain q ts where q: "nlm_device_database_set_num_copies master database_id num_copies p = run_commands master q" "plain ts"
    "planned ans p ts (\<lambda>s. if s \<in> set (shadow_block_list p database_id) then unat num_copies else unat (no_clones_current (shadow_map p s))) q"
    "more_copies (nblocks p) (set (shadow_block_list p database_id)) (books_of p) (settled q) \<or>
     more_copies (nblocks p) (set (shadow_block_list p database_id)) (settled q) (books_of p)"
    using set_num_copies_aux [OF assms] by blast
  from exec_planned [OF assms(1) q(3) plain_planned_ok [OF q(3,2)]] obtain r where
    r: "exec_all master q = Some (NLM_OK, r)" "loader_idle ans r" "nblocks r = nblocks p" "books_of r = settled q"
    "database_load_policy r = database_load_policy p"
    "\<forall>s < nblocks p. unat (no_clones_current (shadow_map r s)) =
       (if s \<in> set (shadow_block_list p database_id) then unat num_copies else unat (no_clones_current (shadow_map p s)))"
    "block_group_list r = block_group_list p" "extension_area r = extension_area p" by blast
  have "shadow_block_list r = shadow_block_list p"
    using planned_same_databases [OF q(3) _ r(4,3)] idle_sel(2) [OF assms(1)] by blast
  moreover have "card (array_copies r s) = (if s \<in> set (shadow_block_list p database_id) then unat num_copies else card (array_copies p s))"
    if "s < nblocks p" for s
    using r(6) that idle_books(3) [OF r(2)] idle_books(3) [OF assms(1)] r(3) by auto
  moreover have "database_load_policy q = database_load_policy p" using planned_sel(1) [OF q(3)] by (rule extends_policy)
  moreover have "copies_kept p (set (shadow_block_list p database_id)) r" using q(4) r(3) unfolding r(4) [symmetric] by (rule copies_kept_books)
  ultimately show ?thesis using q(1) r(1,2,5,7,8) by blast
qed

lemma set_num_copies_room:
  assumes "loader_idle ans p" and "database_load_policy p \<noteq> NLM_DATABASE_LOAD_POLICY_ASYNC"
    and "database_id \<le> NLM_MAX_DATABASE_ID" and "num_copies \<le> 4" and "shadow_block_list p database_id \<noteq> []"
    and "\<forall>b \<in> set (shadow_block_list p database_id). no_clones_current (shadow_map p b) = k"
    and "length (shadow_block_list p database_id) * (unat num_copies - unat k) \<le> num_array_blocks_free p"
  shows "\<exists>q. nlm_device_database_set_num_copies master database_id num_copies p = Some (NLM_OK, q) \<and>
    loader_idle ans q \<and> shadow_block_list q = shadow_block_list p \<and>
    block_group_list q = block_group_list p \<and> extension_area q = extension_area p \<and>
    copies_kept p (set (shadow_block_list p database_id)) q \<and> (\<forall>s < nblocks p. card (array_copies q s) =
       (if s \<in> set (shadow_block_list p database_id) then unat num_copies else card (array_copies p s)))"
proof -
  obtain q r where "nlm_device_database_set_num_copies master database_id num_copies p = run_commands master q"
    "database_load_policy q = database_load_policy p" "exec_all master q = Some (NLM_OK, r)"
    and r: "loader_idle ans r" "shadow_block_list r = shadow_block_list p"
      "block_group_list r = block_group_list p" "extension_area r = extension_area p"
      "copies_kept p (set (shadow_block_list p database_id)) r"
      "\<forall>s < nblocks p. card (array_copies r s) =
        (if s \<in> set (shadow_block_list p database_id) then unat num_copies else card (array_copies p s))"
    using set_num_copies_queued [OF assms(1,3-7)] by blast
  then have "nlm_device_database_set_num_copies master database_id num_copies p = Some (NLM_OK, r)"
    using assms(2) by (simp add: run_commands_def)
  then show ?thesis using r by blast
qed

text \<open>C1. Let the loader be idle, its load policy synchronous, and let all blocks of the database have the same
  number of copies, which holds after every load. Then nlm_device_database_set_num_copies, called with the master
  handle, returns. For an identifier out of range, more than four copies, a database that is not loaded or too
  few free array blocks it reports the status of that case and changes nothing. Otherwise it returns
  \<^const>\<open>NLM_OK\<close> and the loader is idle again: every block of the database is in exactly the requested number of
  array blocks, to which its old ones belong if copies were added and which are old ones if copies were removed;
  every other block is in the same array blocks as before; and the databases, the groups of the blocks and the
  contents of all blocks in the extension area are the same.\<close>

theorem set_num_copies_correct:
  assumes "loader_idle ans p" and "database_load_policy p \<noteq> NLM_DATABASE_LOAD_POLICY_ASYNC"
    and "\<forall>b \<in> set (shadow_block_list p database_id). no_clones_current (shadow_map p b) = k"
  shows "if 3 < database_id then nlm_device_database_set_num_copies master database_id num_copies p = Some (NLM_INVALID_DATABASE_ID, p)
    else if 4 < num_copies then nlm_device_database_set_num_copies master database_id num_copies p = Some (NLM_INVALID_ARGUMENT, p)
    else if shadow_block_list p database_id = []
    then nlm_device_database_set_num_copies master database_id num_copies p = Some (NLM_INVALID_DATABASE_ID, p)
    else if num_array_blocks_free p < length (shadow_block_list p database_id) * (unat num_copies - unat k)
    then nlm_device_database_set_num_copies master database_id num_copies p = Some (NLM_INVALID_DATABASE_SIZE, p)
    else \<exists>q. nlm_device_database_set_num_copies master database_id num_copies p = Some (NLM_OK, q) \<and> loader_idle ans q \<and>
      shadow_block_list q = shadow_block_list p \<and> block_group_list q = block_group_list p \<and> extension_area q = extension_area p \<and>
      (\<forall>s < nblocks p. if s \<in> set (shadow_block_list p database_id)
         then card (array_copies q s) = unat num_copies \<and>
           (array_copies p s \<subseteq> array_copies q s \<or> array_copies q s \<subseteq> array_copies p s)
         else array_copies q s = array_copies p s)"
proof -
  let ?bs = "shadow_block_list p database_id"
  have m: "NLM_MAX_DATABASE_ID = 3" by (simp add: NLM_MAX_DATABASE_ID_def)
  consider (db) "3 < database_id" | (num) "\<not> 3 < database_id" "4 < num_copies" | (none) "\<not> 3 < database_id" "\<not> 4 < num_copies" "?bs = []"
    | (full) "database_id \<le> 3" "num_copies \<le> 4" "?bs \<noteq> []" "num_array_blocks_free p < length ?bs * (unat num_copies - unat k)"
    | (room) "database_id \<le> 3" "num_copies \<le> 4" "?bs \<noteq> []" "length ?bs * (unat num_copies - unat k) \<le> num_array_blocks_free p"
    by (meson not_less)
  then show ?thesis
  proof cases
    case full
    have "nlm_device_database_set_num_copies master database_id num_copies p = Some (NLM_INVALID_DATABASE_SIZE, p)"
      using set_num_copies_checks [OF assms(1) _ full(2,3) assms(3), unfolded m, OF full(1)] full(4) by (simp add: Let_def)
    then show ?thesis using full by (simp add: not_less)
  next
    case room
    obtain q where "nlm_device_database_set_num_copies master database_id num_copies p = Some (NLM_OK, q)" "loader_idle ans q"
      "shadow_block_list q = shadow_block_list p" "block_group_list q = block_group_list p" "extension_area q = extension_area p"
      "copies_kept p (set ?bs) q" "\<forall>s < nblocks p. card (array_copies q s) = (if s \<in> set ?bs then unat num_copies else card (array_copies p s))"
      using set_num_copies_room [OF assms(1,2) _ room(2,3) assms(3) room(4), unfolded m, OF room(1)] by blast
    moreover from this(6,7) have "\<forall>s < nblocks p. if s \<in> set ?bs then card (array_copies q s) = unat num_copies \<and>
        (array_copies p s \<subseteq> array_copies q s \<or> array_copies q s \<subseteq> array_copies p s) else array_copies q s = array_copies p s"
      unfolding copies_kept_def by simp
    moreover have c: "\<not> 3 < database_id" "\<not> 4 < num_copies" "\<not> num_array_blocks_free p < length ?bs * (unat num_copies - unat k)"
      using room by simp_all
    ultimately show ?thesis unfolding if_not_P [OF c(1)] if_not_P [OF c(2)] if_not_P [OF c(3)] if_not_P [OF room(3)] by blast
  qed (simp_all add: nlm_device_database_set_num_copies_def check_master_def m)
qed

section \<open>A small device\<close>

text \<open>A device that answers at once, and a loader with four blocks on it: shadow block 0 holds
  database 1 and is loaded into array block 0.\<close>

definition prompt_device :: "access list \<Rightarrow> u32 \<Rightarrow> u32" where
  "prompt_device tr reg = (if reg = BLOCK_IDLE_CHECK \<or> reg = BLOCK_IDLE_READY then check_map tr else 0)"

lemma prompt_device_ok: "device_ok prompt_device 0"
proof -
  have s: "settles prompt_device reg" if "reg \<noteq> BLOCK_IDLE_CHECK" "reg \<noteq> BLOCK_IDLE_READY" for reg
    unfolding settles_def by (intro allI exI [of _ 0]) (simp add: prompt_device_def that)
  have h: "handshakes prompt_device" unfolding handshakes_def by (simp add: s loader_regs)
  have "\<exists>k. (0 = (0 :: u32) \<or> Suc k < unat (0 :: u32)) \<and> bit (prompt_device (polls prompt_device BLOCK_IDLE_READY tr k) BLOCK_IDLE_READY) b"
    if "bit (check_map tr) b" for tr b
    by (rule exI [of _ 0]) (simp add: prompt_device_def that)
  moreover have "\<exists>k. k < 0xFFFFFFFF \<and> prompt_device (polls prompt_device BLOCK_DMA_CONFIG2 tr k) BLOCK_DMA_CONFIG2 AND 1 = 0" for tr
    by (rule exI [of _ 0]) (simp add: prompt_device_def loader_regs)
  ultimately show ?thesis unfolding device_ok_def using h by (simp add: prompt_device_def loader_regs)
qed

definition sample_loader :: fms_loader where
  "sample_loader = \<lparr>ld_hw = \<lparr>trace = [], answer = prompt_device\<rparr>, num_fms_blocks = 4, num_rows_per_fms_block = 0x4000, wait_timeout = 0,
     pause_timeout = 0, database_load_policy = 0, block_group_list = \<lambda>_. 1 # replicate 1023 0, gid_bmap_shadow = \<lambda>_ _. \<lparr>bitmap0 = 0, bitmap1 = 0,
     bitmap2 = 0, bitmap3 = 0, valid0 = False, valid1 = False, valid2 = False, valid3 = False\<rparr>, cmd_rd_ptr = 0, cmd_wr_ptr = 0,
     loader_cmd_mem = replicate 168 (mk_cmd 0 0 CMD_NOP),
     shadow_map = (\<lambda>i. if i = 0 then \<lparr>sh_valid = True, no_clones_current = 1, no_clones_target = 1, sh_db_id = 1, virt_blk_no = 0\<rparr>
       else \<lparr>sh_valid = False, no_clones_current = 0, no_clones_target = 0, sh_db_id = 0, virt_blk_no = 0\<rparr>),
     array_virt_ids = \<lambda>_. 0, map_current = (\<lambda>a. if a = 0 then 1 else 0), map_target = (\<lambda>a. if a = 0 then 1 else 0),
     copy_number = \<lambda>_. 0, extension_area = \<lambda>_. \<lparr>row = [], action_table = replicate 2048 (0, 0, 0, 0), checksum = replicate 8 0\<rparr>,
     first_free_db_block = 0\<rparr>"

lemma sample_idle: "loader_idle prompt_device sample_loader"
proof -
  have p: "pending sample_loader = []" by (simp add: pending_def num_pending_def ring_list_def sample_loader_def)
  have ok: "cmd_ring_ok sample_loader" by (simp add: cmd_ring_ok_def sample_loader_def)
  have c: "copies_of 4 (books_of sample_loader) s = (if s = 0 then {0} else {})" if "s < 4" for s
    using word_of_nat_u8_inj [of s 0] that by (auto simp: copies_of_def sample_loader_def)
  have "numbered 4 (books_of sample_loader) s" if "s < 4" for s
    unfolding numbered_def c [OF that] by (auto simp: sample_loader_def bij_betw_def)
  then have "consistent 4 (map_target sample_loader) (books_of sample_loader)"
    unfolding consistent_def by (simp add: sample_loader_def exI [of _ 0])
  then have "well_kept sample_loader" using ok p by (simp add: well_kept_def settled_idle) (simp add: sample_loader_def)
  then show ?thesis using ok p prompt_device_ok
    by (simp add: loader_idle_def at_head_def) (simp add: sample_loader_def hw_is_def dma_idle_def check_map_def)
qed

lemma sample_blocks: "shadow_block_list sample_loader 1 = [0]"
  by (simp add: shadow_block_list_def sample_loader_def upt_rec)

lemma sample_free: "num_array_blocks_free sample_loader = 3"
  by (simp add: num_array_blocks_free_def sample_loader_def upt_rec)

lemma set_num_copies_correct_witness:
  "\<exists>q. nlm_device_database_set_num_copies master 1 3 sample_loader = Some (NLM_OK, q) \<and> card (array_copies q 0) = 3"
proof -
  have n: "nblocks sample_loader = 4" by (simp add: sample_loader_def)
  have pol: "database_load_policy sample_loader \<noteq> NLM_DATABASE_LOAD_POLICY_ASYNC"
    and same: "\<forall>b \<in> set (shadow_block_list sample_loader 1). no_clones_current (shadow_map sample_loader b) = 1"
    by (simp_all add: sample_blocks NLM_DATABASE_LOAD_POLICY_ASYNC_def, simp_all add: sample_loader_def)
  show ?thesis using set_num_copies_correct [OF sample_idle pol same, of 3] n by (auto simp: sample_blocks sample_free)
qed

end
