(* ===== verification/Loader_Load.thy ===== *)
theory Loader_Load
  imports Loader_Set
begin

unbundle bit_operations_syntax

text \<open>
  Loading a database: nlm_device_load_database writes the blocks of the image into free shadow blocks,
  with their groups collected and their rows tagged with the database, and then makes the copies.
\<close>

section \<open>Groups\<close>

text \<open>The groups of the rows of a block, without the empty one.\<close>

definition row_groups :: "fms_row list \<Rightarrow> u16 set" where
  "row_groups rows = (\<lambda>r. ucast (row_gid (byteswap_constant_32 (fst r)) AND 0x3ff)) ` set rows - {0}"

lemma row_groups_Cons: "row_groups ((a, b, c) # rows) = {ucast (row_gid (byteswap_constant_32 a) AND 0x3ff)} - {0} \<union> row_groups rows"
  by (auto simp: row_groups_def)

lemma collect_groups_set: "set (collect_groups rows gs) = set gs \<union> row_groups rows"
proof (induction rows arbitrary: gs)
  case Nil
  then show ?case by (simp add: row_groups_def)
next
  case (Cons r rows)
  obtain a b c where r: "r = (a, b, c)" by (cases r)
  show ?case unfolding r row_groups_Cons by (auto simp: Let_def Cons.IH)
qed

lemma collect_groups_distinct: "distinct gs \<Longrightarrow> distinct (collect_groups rows gs)"
proof (induction rows arbitrary: gs)
  case (Cons r rows)
  then show ?case by (cases r) (auto simp: Let_def)
qed simp

lemma row_groups_bound: "g \<in> row_groups rows \<Longrightarrow> 0 < unat g \<and> unat g < 1024"
proof -
  assume "g \<in> row_groups rows"
  then obtain w :: "12 word" where g: "g = ucast (w AND 0x3ff)" "g \<noteq> 0" by (auto simp: row_groups_def)
  have "w AND 0x3ff \<le> 0x3ff" by (rule word_and_le1)
  then have "unat (w AND 0x3ff) < 1024" by (simp add: word_le_nat_alt)
  moreover have "unat g = unat (w AND 0x3ff)" using calculation by (simp add: g(1) unsigned_ucast_eq take_bit_nat_eq_self)
  moreover have "unat g \<noteq> 0" using g(2) by (simp add: unat_eq_0)
  ultimately show ?thesis by simp
qed

text \<open>A block has at most 1023 groups, so the check of their number never fails.\<close>

lemma collect_groups_length: "length (collect_groups rows []) \<le> 1023"
proof -
  let ?gs = "collect_groups rows []"
  have "unat ` set ?gs \<subseteq> {1..<1024}" using row_groups_bound by (force simp: collect_groups_set)
  then have "card (unat ` set ?gs) \<le> card {1..<1024 :: nat}" by (intro card_mono) simp_all
  moreover have "card (unat ` set ?gs) = length ?gs"
    using distinct_card [OF collect_groups_distinct [of "[]" rows]] by (subst card_image) (auto intro!: inj_onI simp: word_unat_eq_iff)
  ultimately show ?thesis by simp
qed

text \<open>The block as it is stored, and its groups, which the list then ends after.\<close>

definition tagged :: "u32 \<Rightarrow> fms_block \<Rightarrow> fms_block" where
  "tagged db b = b\<lparr>row := map (tag_row db) (row b), action_table := map (tag_action db) (map swap_action (action_table b))\<rparr>"

lemma extract_groups:
  assumes "length gl = 1024"
  shows "\<exists>l. nlm_extract_groups_from_block (b\<lparr>action_table := map swap_action (action_table b)\<rparr>) gl db = (NLM_OK, tagged db b, l) \<and>
    length l = 1024 \<and> takeWhile (\<lambda>g. g \<noteq> 0) (take 1024 l) = collect_groups (row b) []"
proof -
  let ?gs = "collect_groups (row b) []"
  let ?l = "(?gs @ drop (length ?gs) gl)[length ?gs := 0]"
  have len: "length ?gs \<le> 1023" by (rule collect_groups_length)
  obtain x xs where "drop (length ?gs) gl = x # xs" using len assms by (cases "drop (length ?gs) gl") auto
  then have l: "?l = ?gs @ 0 # xs" by (simp add: list_update_append)
  have "length ?l = 1024" using len assms by simp
  moreover have "\<forall>g \<in> set ?gs. g \<noteq> 0" using row_groups_bound by (force simp: collect_groups_set)
  then have "takeWhile (\<lambda>g. g \<noteq> 0) (take 1024 ?l) = ?gs" using len unfolding l by (simp add: takeWhile_append take_Cons')
  ultimately show ?thesis using len
    by (intro exI [of _ ?l]) (simp add: nlm_extract_groups_from_block_def Let_def NLM_MAX_GROUP_ID_def tagged_def)
qed

section \<open>Writing the blocks\<close>

abbreviation free_blocks :: "fms_loader \<Rightarrow> nat list \<Rightarrow> nat list" where
  "free_blocks p \<equiv> filter (\<lambda>i. \<not> sh_valid (shadow_map p i))"

definition occupy :: "u32 \<Rightarrow> nat \<Rightarrow> shadow_entry \<Rightarrow> shadow_entry" where
  "occupy db i e = e\<lparr>sh_valid := True, sh_db_id := ucast db, virt_blk_no := word_of_nat i\<rparr>"

lemma occupy_sel [simp]:
  "sh_valid (occupy db i e)" "sh_db_id (occupy db i e) = ucast db" "no_clones_current (occupy db i e) = no_clones_current e"
  "no_clones_target (occupy db i e) = no_clones_target e"
  by (simp_all add: occupy_def)

text \<open>The blocks \<open>bs\<close> of database \<open>db\<close> are in the shadow blocks \<open>ns\<close>; the rest is untouched.\<close>

definition filled :: "u32 \<Rightarrow> fms_block list \<Rightarrow> nat list \<Rightarrow> fms_loader \<Rightarrow> fms_loader \<Rightarrow> bool" where
  "filled db bs ns p q \<longleftrightarrow> length ns = length bs \<and>
     q = p\<lparr>shadow_map := (\<lambda>s. if s \<in> set ns then occupy db s (shadow_map p s) else shadow_map p s),
            extension_area := extension_area q, block_group_list := block_group_list q, first_free_db_block := first_free_db_block q\<rparr> \<and>
     (\<forall>k < length bs. extension_area q (ns ! k) = tagged db (bs ! k) \<and> groups_of q (ns ! k) = collect_groups (row (bs ! k)) []) \<and>
     (\<forall>i. i \<notin> set ns \<longrightarrow> extension_area q i = extension_area p i \<and> block_group_list q i = block_group_list p i) \<and>
     (\<forall>i. length (block_group_list q i) = 1024)"

lemma filled_sel:
  assumes "filled db bs ns p q"
  shows "shadow_map q = (\<lambda>s. if s \<in> set ns then occupy db s (shadow_map p s) else shadow_map p s)"
    and "cmd_ring_ok q = cmd_ring_ok p" and "pending q = pending p" and "ld_hw q = ld_hw p" and "map_target q = map_target p"
    and "num_fms_blocks q = num_fms_blocks p" and "pause_timeout q = pause_timeout p" and "database_load_policy q = database_load_policy p"
    and "map_current q = map_current p" and "array_virt_ids q = array_virt_ids p" and "copy_number q = copy_number p"
    and "length ns = length bs"
proof -
  have e: "q = p\<lparr>shadow_map := (\<lambda>s. if s \<in> set ns then occupy db s (shadow_map p s) else shadow_map p s),
      extension_area := extension_area q, block_group_list := block_group_list q, first_free_db_block := first_free_db_block q\<rparr>"
    using assms by (simp only: filled_def)
  show "shadow_map q = (\<lambda>s. if s \<in> set ns then occupy db s (shadow_map p s) else shadow_map p s)" by (subst e) simp
  show "cmd_ring_ok q = cmd_ring_ok p" by (subst e) (simp add: cmd_ring_ok_def)
  show "pending q = pending p" by (subst e) (simp add: pending_def num_pending_def)
  show "ld_hw q = ld_hw p" "map_target q = map_target p" "num_fms_blocks q = num_fms_blocks p" "pause_timeout q = pause_timeout p"
    "database_load_policy q = database_load_policy p" "map_current q = map_current p" "array_virt_ids q = array_virt_ids p"
    "copy_number q = copy_number p" by (subst e, simp)+
  show "length ns = length bs" using assms by (simp only: filled_def)
qed

lemma write_shadow_block_filled:
  assumes "\<forall>i. length (block_group_list p i) = 1024"
  shows "\<exists>q. write_shadow_block db b i p = (NLM_OK, q) \<and> filled db [b] [i] p q"
proof -
  obtain l where l: "nlm_extract_groups_from_block (b\<lparr>action_table := map swap_action (action_table b)\<rparr>) (block_group_list p i) db = (NLM_OK, tagged db b, l)"
    "length l = 1024" "takeWhile (\<lambda>g. g \<noteq> 0) (take 1024 l) = collect_groups (row b) []"
    using extract_groups assms by blast
  let ?q = "upd_shadow i (occupy db i) (p\<lparr>extension_area := (extension_area p)(i := tagged db b), block_group_list := (block_group_list p)(i := l)\<rparr>)"
  have "write_shadow_block db b i p = (NLM_OK, ?q)" using l(1) by (simp add: write_shadow_block_def Let_def occupy_def upd_shadow_def)
  moreover have "filled db [b] [i] p ?q"
    using l(2,3) assms by (auto simp: filled_def upd_shadow_def groups_of_def NLM_MAX_GROUP_ID_def fun_eq_iff)
  ultimately show ?thesis by blast
qed

lemma filled_Cons:
  assumes "filled db [b] [i] p q" and "filled db bs ns q r" and "i \<notin> set ns"
  shows "filled db (b # bs) (i # ns) p r"
proof -
  have q: "q = p\<lparr>shadow_map := (\<lambda>s. if s \<in> set [i] then occupy db s (shadow_map p s) else shadow_map p s),
            extension_area := extension_area q, block_group_list := block_group_list q, first_free_db_block := first_free_db_block q\<rparr>"
    and r: "r = q\<lparr>shadow_map := (\<lambda>s. if s \<in> set ns then occupy db s (shadow_map q s) else shadow_map q s),
            extension_area := extension_area r, block_group_list := block_group_list r, first_free_db_block := first_free_db_block r\<rparr>"
    using assms(1,2) by (simp_all only: filled_def)
  have sm: "shadow_map q = (\<lambda>s. if s \<in> set [i] then occupy db s (shadow_map p s) else shadow_map p s)" by (subst q) simp
  have m: "(\<lambda>s. if s \<in> set ns then occupy db s (shadow_map q s) else shadow_map q s) =
      (\<lambda>s. if s \<in> set (i # ns) then occupy db s (shadow_map p s) else shadow_map p s)"
    using assms(3) unfolding sm by auto
  have e: "r = p\<lparr>shadow_map := (\<lambda>s. if s \<in> set (i # ns) then occupy db s (shadow_map p s) else shadow_map p s),
            extension_area := extension_area r, block_group_list := block_group_list r, first_free_db_block := first_free_db_block r\<rparr>"
    by (subst r, subst m, subst q) simp
  have keep: "extension_area r i = extension_area q i" "groups_of r i = groups_of q i"
    using assms(2,3) by (auto simp: filled_def groups_of_def)
  have "extension_area r ((i # ns) ! k) = tagged db ((b # bs) ! k) \<and> groups_of r ((i # ns) ! k) = collect_groups (row ((b # bs) ! k)) []"
    if "k < length (b # bs)" for k
    using that assms(1,2) keep by (cases k) (auto simp: filled_def)
  then show ?thesis using e assms(1,2) unfolding filled_def by auto
qed

lemma write_blocks_filled:
  assumes "\<forall>i. length (block_group_list p i) = 1024" and "distinct js" and "length bs \<le> length (free_blocks p js)"
  shows "\<exists>q k'. write_blocks db bs js k p = (NLM_OK, q, k') \<and> filled db bs (take (length bs) (free_blocks p js)) p q"
  using assms
proof (induction js arbitrary: bs k p)
  case Nil
  then show ?case by (simp add: filled_def)
next
  case (Cons j js)
  show ?case
  proof (cases bs)
    case Nil
    then show ?thesis using Cons.prems(1) by (simp add: filled_def)
  next
    case (Cons b bs')
    show ?thesis
    proof (cases "sh_valid (shadow_map p j)")
      case True
      then show ?thesis using Cons.IH [OF Cons.prems(1), of bs "Suc k"] Cons.prems(2,3) Cons by simp
    next
      case False
      obtain q where q: "write_shadow_block db b j p = (NLM_OK, q)" "filled db [b] [j] p q"
        using write_shadow_block_filled [OF Cons.prems(1)] by blast
      note sm = filled_sel(1) [OF q(2)]
      have f: "free_blocks q js = free_blocks p js" using Cons.prems(2) by (auto simp: sm intro!: filter_cong)
      have gl: "\<forall>i. length (block_group_list q i) = 1024" using q(2) unfolding filled_def by blast
      obtain r k' where r: "write_blocks db bs' js (Suc k) q = (NLM_OK, r, k')" "filled db bs' (take (length bs') (free_blocks p js)) q r"
        using Cons.IH [OF gl, of bs' "Suc k"] Cons.prems(2,3) False Cons unfolding f by auto
      have "j \<notin> set (take (length bs') (free_blocks p js))" using Cons.prems(2) by (auto dest: in_set_takeD)
      from filled_Cons [OF q(2) r(2) this] show ?thesis using q(1) r(1) False Cons by auto
    qed
  qed
qed

section \<open>Loading\<close>

lemma not_valid_no_copies:
  assumes idle: "loader_idle ans p" and s: "s < nblocks p" "\<not> sh_valid (shadow_map p s)"
  shows "no_clones_current (shadow_map p s) = 0" and "array_copies p s = {}"
proof -
  have c: "consistent (nblocks p) (map_target p) (books_of p)" using idle_sel(1,8) [OF idle] by (simp add: well_kept_def)
  have n: "nblocks p \<le> 12" by (rule idle_sel(9) [OF idle])
  show e: "array_copies p s = {}"
  proof (rule ccontr)
    assume "array_copies p s \<noteq> {}"
    then obtain a where a: "a < nblocks p" "map_current p a \<noteq> 0" "array_virt_ids p a = word_of_nat s" by (auto simp: array_copies_def)
    then obtain t where t: "t < nblocks p" "array_virt_ids p a = word_of_nat t" "sh_valid (shadow_map p t)"
      using c by (auto simp: consistent_def)
    have "s = t" using word_of_nat_u8_inj [of s t] a(3) t(1,2) s(1) n by simp
    then show False using s(2) t(3) by simp
  qed
  then have "unat (no_clones_current (shadow_map p s)) = 0" using idle_books(3) [OF idle s(1)] by simp
  then show "no_clones_current (shadow_map p s) = 0" by (simp add: unat_eq_0)
qed

lemma filled_idle:
  assumes idle: "loader_idle ans p" and f: "filled db bs ns p q"
  shows "loader_idle ans q" and "array_copies q s = array_copies p s"
proof -
  note sel = filled_sel [OF f] and i = idle_sel [OF idle]
  have c: "consistent (nblocks p) (map_target p) (books_of p)" using i(1,8) by (simp add: well_kept_def)
  have cl: "bk_clones (books_of q) s = bk_clones (books_of p) s" "bk_target (books_of q) s = bk_target (books_of p) s" for s
    by (simp_all add: sel(1))
  have "copies_of n (books_of q) s = copies_of n (books_of p) s" for n s by (simp add: copies_of_def sel)
  then have "numbered n (books_of q) s = numbered n (books_of p) s" for n s
    by (intro numbered_cong) (simp_all add: sel)
  then have "consistent (nblocks p) (map_target p) (books_of q)" using c unfolding consistent_def cl by (auto simp: sel)
  then have "well_kept q" using i(1,2) sel by (simp add: well_kept_def settled_idle)
  then show "loader_idle ans q" using i sel idle by (simp add: loader_idle_def at_head_def)
  show "array_copies q s = array_copies p s" by (simp add: array_copies_def sel)
qed

lemma ucast_database: "database_id \<le> NLM_MAX_DATABASE_ID \<Longrightarrow> ucast (ucast database_id :: u8) = (database_id :: u32)"
  by (simp add: word_unat_eq_iff unsigned_ucast_eq word_le_nat_alt NLM_MAX_DATABASE_ID_def unsigned_take_bit_eq take_bit_nat_eq_self)

lemma filled_databases:
  assumes db: "database_id \<le> NLM_MAX_DATABASE_ID" and none: "shadow_block_list p database_id = []"
    and f: "filled database_id bs (take m (free_blocks p [0..<nblocks p])) p q"
  shows "shadow_block_list q = (shadow_block_list p)(database_id := take m (free_blocks p [0..<nblocks p]))"
proof
  fix d
  let ?ns = "take m (free_blocks p [0..<nblocks p])"
  note sel = filled_sel [OF f]
  have v: "\<not> sh_valid (shadow_map p i)" if "i \<in> set ?ns" for i using that by (auto dest: in_set_takeD)
  show "shadow_block_list q d = ((shadow_block_list p)(database_id := ?ns)) d"
  proof (cases "d = database_id")
    case True
    have "shadow_block_list q database_id = filter (\<lambda>i. i \<in> set ?ns) [0..<nblocks p]"
      using none ucast_database [OF db]
      by (auto simp: shadow_block_list_def sel filter_empty_conv intro!: filter_cong)
    also have "\<dots> = ?ns"
    proof (rule sorted_distinct_set_unique)
      show "sorted (filter (\<lambda>i. i \<in> set ?ns) [0..<nblocks p])" by (intro sorted_wrt_filter) simp
      show "distinct (filter (\<lambda>i. i \<in> set ?ns) [0..<nblocks p])" "distinct ?ns"
        by simp_all
      show "sorted ?ns" by (intro sorted_wrt_take sorted_wrt_filter) simp
      show "set (filter (\<lambda>i. i \<in> set ?ns) [0..<nblocks p]) = set ?ns" by (auto dest: in_set_takeD)
    qed
    finally show ?thesis using True by simp
  next
    case False
    have "(sh_valid (shadow_map q i) \<and> ucast (sh_db_id (shadow_map q i)) = d) \<longleftrightarrow> (sh_valid (shadow_map p i) \<and> ucast (sh_db_id (shadow_map p i)) = d)" for i
      using v [of i] ucast_database [OF db] False by (cases "i \<in> set ?ns") (simp_all add: sel(1))
    then have "shadow_block_list q d = shadow_block_list p d" by (simp add: shadow_block_list_def sel(6))
    with False show ?thesis by simp
  qed
qed

lemma check_params_OK:
  assumes "nlm_loader_fms_check_params_and_head (Some im) db_size p = Some NLM_OK"
  shows "0 < block_cnt_of db_size" and "unat (block_cnt_of db_size) \<le> nblocks p" and "unat (block_cnt_of db_size) \<le> length (im_blocks im)"
proof -
  have a: "\<not> (block_cnt_of db_size < 1 \<or> ucast (num_fms_blocks p) < block_cnt_of db_size)" and l: "unat (block_cnt_of db_size) \<le> length (im_blocks im)"
    using assms by (auto simp: nlm_loader_fms_check_params_and_head_def Let_def assert_then_def split: if_splits)
  show "0 < block_cnt_of db_size" using a by (simp add: word_less_nat_alt)
  have "block_cnt_of db_size \<le> ucast (num_fms_blocks p)" using a by (simp add: not_less)
  then show "unat (block_cnt_of db_size) \<le> nblocks p" by (simp add: word_le_nat_alt unsigned_ucast_eq take_bit_nat_eq_self order.strict_trans2 [OF unsigned_less])
  show "unat (block_cnt_of db_size) \<le> length (im_blocks im)" by (rule l)
qed

lemma small_product:
  fixes c n :: u32 assumes "unat c \<le> 12" and "n \<le> 4" shows "unat (c * n) = unat c * unat n" and "unat c * unat n \<le> 48"
proof -
  have n: "unat n \<le> 4" using assms(2) by (simp add: word_le_nat_alt)
  show p: "unat c * unat n \<le> 48" using mult_le_mono [OF assms(1) n] by simp
  then show "unat (c * n) = unat c * unat n" by (simp add: unat_word_ariths(2))
qed

lemma free_compare: "unat c \<le> 48 \<Longrightarrow> k \<le> 12 \<Longrightarrow> (word_of_nat k < (c :: u32)) = (k < unat c)"
  by (simp add: word_less_nat_alt unsigned_of_nat take_bit_nat_eq_self)

lemma filled_first_free: "filled db bs ns p q \<Longrightarrow> filled db bs ns p (q\<lparr>first_free_db_block := k\<rparr>)"
proof -
  assume f: "filled db bs ns p q"
  have e: "q = p\<lparr>shadow_map := (\<lambda>s. if s \<in> set ns then occupy db s (shadow_map p s) else shadow_map p s),
      extension_area := extension_area q, block_group_list := block_group_list q, first_free_db_block := first_free_db_block q\<rparr>"
    using f unfolding filled_def by blast
  have "q\<lparr>first_free_db_block := k\<rparr> = p\<lparr>shadow_map := (\<lambda>s. if s \<in> set ns then occupy db s (shadow_map p s) else shadow_map p s),
      extension_area := extension_area q, block_group_list := block_group_list q, first_free_db_block := k\<rparr>"
    by (subst e) simp
  then show ?thesis using f unfolding filled_def by (simp add: groups_of_def)
qed

lemma write_database_filled:
  assumes gl: "\<forall>i. length (block_group_list p i) = 1024" and n: "nblocks p \<le> 12" and c: "unat c \<le> 48" and l: "unat c \<le> length bs"
  shows "if unat c \<le> num_shadow_blocks_free p
    then \<exists>q. nlm_device_write_database_to_shadow db bs c p = (NLM_OK, q) \<and>
      filled db (take (unat c) bs) (take (unat c) (free_blocks p [0..<nblocks p])) p q
    else nlm_device_write_database_to_shadow db bs c p = (NLM_INVALID_DATABASE_SIZE, p)"
proof -
  have "num_shadow_blocks_free p \<le> 12" using length_filter_le [of "\<lambda>i. \<not> sh_valid (shadow_map p i)" "[0..<nblocks p]"] n
    by (simp add: num_shadow_blocks_free_def)
  then have cmp: "word_of_nat (num_shadow_blocks_free p) < c \<longleftrightarrow> num_shadow_blocks_free p < unat c" by (rule free_compare [OF c])
  show ?thesis
  proof (cases "unat c \<le> num_shadow_blocks_free p")
    case True
    then have fit: "length (take (unat c) bs) \<le> length (free_blocks p [0..<nblocks p])" using l by (simp add: num_shadow_blocks_free_def)
    obtain q k where q: "write_blocks db (take (unat c) bs) [0..<nblocks p] 0 p = (NLM_OK, q, k)"
      "filled db (take (unat c) bs) (take (unat c) (free_blocks p [0..<nblocks p])) p q"
      using write_blocks_filled [OF gl distinct_upt fit, of db 0] l by (auto simp: min_absorb2)
    then show ?thesis using True filled_first_free [OF q(2), of k]
      by (auto simp: nlm_device_write_database_to_shadow_def cmp)
  qed (simp add: nlm_device_write_database_to_shadow_def cmp)
qed

text \<open>One step of the loop over the commands.\<close>

lemma exec_all_call:
  assumes "exec_all who p = Some (NLM_OK, r)" and "nlm_device_loader_cmd_exec_fms who p \<noteq> Some (NLM_OK, r)"
  shows "\<exists>q. nlm_device_loader_cmd_exec_fms who p = Some (NLM_LOADER_IN_PROGRESS, q) \<and> exec_all who q = Some (NLM_OK, r)"
  using assms by (subst (asm) exec_all.simps) (auto split: bind_splits if_splits)

lemma run_commands_cases:
  assumes "exec_all who q = Some (NLM_OK, r)"
  shows "run_commands who q = Some (NLM_OK, r) \<or> database_load_policy q = NLM_DATABASE_LOAD_POLICY_ASYNC \<and>
    (\<exists>p. run_commands who q = Some (NLM_LOADER_IN_PROGRESS, p) \<and> exec_all who p = Some (NLM_OK, r))"
  using assms exec_all_call [OF assms] by (auto simp: run_commands_def)

text \<open>Loading ends at once, or, with the asynchronous policy, leaves commands whose execution ends it.\<close>

definition load_ends :: "u8 \<Rightarrow> (nlm_status \<times> fms_loader) option \<Rightarrow> fms_loader \<Rightarrow> bool" where
  "load_ends policy res r \<longleftrightarrow> res = Some (NLM_OK, r) \<or> policy = NLM_DATABASE_LOAD_POLICY_ASYNC \<and>
     (\<exists>p. res = Some (NLM_LOADER_IN_PROGRESS, p) \<and> exec_all master p = Some (NLM_OK, r))"

lemma load_database_queued:
  assumes idle: "loader_idle ans p"
    and db: "database_id \<le> NLM_MAX_DATABASE_ID" and none: "shadow_block_list p database_id = []"
    and n: "0 < num_copies" "num_copies \<le> 4" and head: "nlm_loader_fms_check_params_and_head (Some im) db_size p = Some NLM_OK"
    and gl: "\<forall>i. length (block_group_list p i) = 1024" and m: "m = unat (block_cnt_of db_size)"
  shows "if m * unat num_copies \<le> num_array_blocks_free p \<and> m \<le> num_shadow_blocks_free p
    then \<exists>q ns. load_ends (database_load_policy p) (nlm_device_load_database master (Some im) db_size database_id num_copies p) q \<and>
      loader_idle ans q \<and> length ns = m \<and> shadow_block_list q = (shadow_block_list p)(database_id := ns) \<and>
      (\<forall>k < m. extension_area q (ns ! k) = tagged database_id (im_blocks im ! k) \<and>
         groups_of q (ns ! k) = collect_groups (row (im_blocks im ! k)) []) \<and>
      (\<forall>s < nblocks p. card (array_copies q s) = (if s \<in> set ns then unat num_copies else card (array_copies p s)))
    else nlm_device_load_database master (Some im) db_size database_id num_copies p = Some (NLM_INVALID_DATABASE_SIZE, p)"
proof -
  let ?c = "block_cnt_of db_size" and ?free = "free_blocks p [0..<nblocks p]"
  note h = check_params_OK [OF head] and i = idle_sel [OF idle]
  have c: "unat ?c \<le> 12" using h(2) i(9) by linarith
  note prod = small_product [OF c n(2)]
  have af: "num_array_blocks_free p \<le> 12" using num_array_blocks_free_le [of p] i(9) by linarith
  have cmp: "word_of_nat (num_array_blocks_free p) < ?c * num_copies \<longleftrightarrow> num_array_blocks_free p < m * unat num_copies"
    using free_compare [of "?c * num_copies", OF _ af] prod unfolding m by simp
  have g: "\<not> NLM_MAX_DATABASE_ID < database_id" "\<not> 4 < num_copies" "num_copies \<noteq> 0" using db n by (auto simp: not_less)
  have e: "nlm_device_load_database master (Some im) db_size database_id num_copies p =
      (if num_array_blocks_free p < m * unat num_copies then Some (NLM_INVALID_DATABASE_SIZE, p)
       else case nlm_device_write_database_to_shadow database_id (im_blocks im) ?c p of (st, p2) \<Rightarrow>
         if st \<noteq> NLM_OK then Some (st, p2)
         else Option.bind (nlm_device_database_set_num_copies master database_id num_copies p2)
           (\<lambda>(st, p3). if st \<noteq> NLM_OK then Some (st, p3) else run_commands master p3))"
    unfolding nlm_device_load_database_def if_P [OF g(3)] using g n(1) head none cmp
    by (simp add: check_master_def idle_exec [OF idle] Let_def)
  have wr: "if m \<le> num_shadow_blocks_free p
    then \<exists>q. nlm_device_write_database_to_shadow database_id (im_blocks im) ?c p = (NLM_OK, q) \<and>
      filled database_id (take m (im_blocks im)) (take m ?free) p q
    else nlm_device_write_database_to_shadow database_id (im_blocks im) ?c p = (NLM_INVALID_DATABASE_SIZE, p)"
    using write_database_filled [OF gl i(9) _ h(3)] c unfolding m by simp
  show ?thesis
  proof (cases "m * unat num_copies \<le> num_array_blocks_free p \<and> m \<le> num_shadow_blocks_free p")
    case False
    then show ?thesis using e wr by (auto simp: not_le)
  next
    case True
    obtain q where q: "nlm_device_write_database_to_shadow database_id (im_blocks im) ?c p = (NLM_OK, q)"
      "filled database_id (take m (im_blocks im)) (take m ?free) p q" using wr True by auto
    note sel = filled_sel [OF q(2)] and fi = filled_idle [OF idle q(2)] and d = filled_databases [OF db none q(2)]
    have len: "length (take m ?free) = m" using True by (simp add: num_shadow_blocks_free_def)
    have ns: "shadow_block_list q database_id = take m ?free" by (simp add: d)
    have ne: "shadow_block_list q database_id \<noteq> []" using len h(1) unfolding ns m by (auto simp: word_less_nat_alt)
    have z: "\<forall>b \<in> set (shadow_block_list q database_id). no_clones_current (shadow_map q b) = 0"
      using not_valid_no_copies(1) [OF idle] unfolding ns by (auto simp: sel(1) dest: in_set_takeD)
    have room: "length (shadow_block_list q database_id) * (unat num_copies - unat (0 :: u8)) \<le> num_array_blocks_free q"
      using True len unfolding ns by (simp add: num_array_blocks_free_def sel)
    obtain s r where s: "nlm_device_database_set_num_copies master database_id num_copies q = run_commands master s"
      "database_load_policy s = database_load_policy p" "exec_all master s = Some (NLM_OK, r)"
      and r: "loader_idle ans r" "shadow_block_list r = shadow_block_list q" "block_group_list r = block_group_list q"
      "extension_area r = extension_area q" "\<forall>s < nblocks q. card (array_copies r s) =
        (if s \<in> set (shadow_block_list q database_id) then unat num_copies else card (array_copies q s))"
      using set_num_copies_queued [OF fi(1) db n(2) ne z room] unfolding sel(8) by blast
    have "nlm_device_load_database master (Some im) db_size database_id num_copies p =
        Option.bind (run_commands master s) (\<lambda>(st, p3). if st \<noteq> NLM_OK then Some (st, p3) else run_commands master p3)"
      using e True q(1) s(1) by simp
    moreover have "run_commands master r = Some (NLM_OK, r)"
      using idle_exec [OF r(1)] exec_all_empty [OF idle_sel(3,2) [OF r(1)]] by (simp add: run_commands_def)
    ultimately have "load_ends (database_load_policy p) (nlm_device_load_database master (Some im) db_size database_id num_copies p) r"
      using run_commands_cases [OF s(3)] s(2) by (auto simp: load_ends_def)
    moreover have "\<forall>k < m. extension_area r (take m ?free ! k) = tagged database_id (im_blocks im ! k) \<and>
        groups_of r (take m ?free ! k) = collect_groups (row (im_blocks im ! k)) []"
      using q(2) h(3) unfolding filled_def r(4) m groups_of_def r(3) by simp
    moreover have "\<forall>s < nblocks p. card (array_copies r s) = (if s \<in> set (take m ?free) then unat num_copies else card (array_copies p s))"
      using r(5) unfolding ns fi(2) sel(6) by blast
    ultimately show ?thesis using True r(1,2) len d by (intro if_P [THEN iffD2] exI [of _ r] exI [of _ "take m ?free"]) simp_all
  qed
qed

text \<open>C2. On an idle loader with a synchronous load policy nlm_device_load_database returns. For a database that
  is not loaded yet, an image whose header is accepted and between one and four copies, it returns
  \<^const>\<open>NLM_OK\<close> when there is room in the memory and in the array: the loader is idle again, the database has as many
  blocks as the image, each of them in \<open>num_copies\<close> array blocks, every stored block is the block of the
  image tagged with the database and is listed with exactly its groups, and the other databases and their
  copies are as before. Without room it returns \<^const>\<open>NLM_INVALID_DATABASE_SIZE\<close> and changes nothing.\<close>

theorem load_database_correct:
  assumes idle: "loader_idle ans p" and pol: "database_load_policy p \<noteq> NLM_DATABASE_LOAD_POLICY_ASYNC"
    and db: "database_id \<le> NLM_MAX_DATABASE_ID" and none: "shadow_block_list p database_id = []"
    and n: "0 < num_copies" "num_copies \<le> 4" and head: "nlm_loader_fms_check_params_and_head (Some im) db_size p = Some NLM_OK"
    and gl: "\<forall>i. length (block_group_list p i) = 1024" and m: "m = unat (block_cnt_of db_size)"
  shows "if m * unat num_copies \<le> num_array_blocks_free p \<and> m \<le> num_shadow_blocks_free p
    then \<exists>q ns. nlm_device_load_database master (Some im) db_size database_id num_copies p = Some (NLM_OK, q) \<and> loader_idle ans q \<and>
      length ns = m \<and> shadow_block_list q = (shadow_block_list p)(database_id := ns) \<and>
      (\<forall>k < m. extension_area q (ns ! k) = tagged database_id (im_blocks im ! k) \<and>
         groups_of q (ns ! k) = collect_groups (row (im_blocks im ! k)) []) \<and>
      (\<forall>s < nblocks p. card (array_copies q s) = (if s \<in> set ns then unat num_copies else card (array_copies p s)))
    else nlm_device_load_database master (Some im) db_size database_id num_copies p = Some (NLM_INVALID_DATABASE_SIZE, p)"
  using load_database_queued [OF idle db none n head gl m] pol by (simp add: load_ends_def cong: if_cong)

text \<open>An image with one block, whose only row belongs to group 5.\<close>

definition sample_image :: fms_image where
  "sample_image = \<lparr>product_id = byteswap_constant_32 FMS_ASM_FAMOS_FPGA, im_blocks =
     [\<lparr>row = [(byteswap_constant_32 0x500000, 1, 2)], action_table = replicate 2048 (0, 0, 0, 0), checksum = replicate 8 0\<rparr>]\<rparr>"

lemma sample_size: "block_cnt_of 229420 = 1" "(ucast (229420 :: u32) :: u64) = sizeof_file_sig + sizeof_block * ucast (block_cnt_of 229420)"
  by (simp_all add: block_cnt_of_def sizeof_file_sig_def sizeof_block_def FAMOS_BLOCK_SIZE_def MAX_ACCEPT_PER_BLOCK_def)

lemma sample_head: "nlm_loader_fms_check_params_and_head (Some sample_image) 229420 sample_loader = Some NLM_OK"
  using sample_size by (simp add: nlm_loader_fms_check_params_and_head_def Let_def sample_image_def sample_loader_def)

lemma load_database_correct_witness:
  "\<exists>q i. nlm_device_load_database master (Some sample_image) 229420 2 2 sample_loader = Some (NLM_OK, q) \<and>
    shadow_block_list q 1 = [0] \<and> shadow_block_list q 2 = [i] \<and> groups_of q i = [5]"
proof -
  have c: "collect_groups (row (im_blocks sample_image ! 0)) [] = [5]" by code_simp
  have f: "num_array_blocks_free sample_loader = 3" "num_shadow_blocks_free sample_loader = 3"
    by (rule sample_free) (simp add: num_shadow_blocks_free_def sample_loader_def upt_rec)
  have b: "shadow_block_list sample_loader 2 = []" by (simp add: shadow_block_list_def sample_loader_def upt_rec)
  have pol: "database_load_policy sample_loader \<noteq> NLM_DATABASE_LOAD_POLICY_ASYNC" "\<forall>i. length (block_group_list sample_loader i) = 1024"
    by (simp_all add: sample_loader_def NLM_DATABASE_LOAD_POLICY_ASYNC_def)
  obtain q ns where q: "nlm_device_load_database master (Some sample_image) 229420 2 2 sample_loader = Some (NLM_OK, q)"
    "length ns = 1" "shadow_block_list q = (shadow_block_list sample_loader)(2 := ns)"
    "\<forall>k < 1. extension_area q (ns ! k) = tagged 2 (im_blocks sample_image ! k) \<and> groups_of q (ns ! k) = collect_groups (row (im_blocks sample_image ! k)) []"
    using load_database_correct [OF sample_idle pol(1) _ b _ _ sample_head pol(2) refl, of 2] f
    by (auto simp: NLM_MAX_DATABASE_ID_def sample_size)
  obtain i where "ns = [i]" using q(2) by (auto simp: length_Suc_conv)
  then show ?thesis using q(1,3,4) c by (intro exI [of _ q] exI [of _ i]) (simp add: sample_blocks)
qed

end
