(* ===== verification/Loader_Unload.thy ===== *)
theory Loader_Unload
  imports Loader_Set
begin

unbundle bit_operations_syntax

text \<open>
  Unloading a database: nlm_device_unload_database removes the copies of every block in the order of
  the array and then forgets the block. While copies are removed their numbers have gaps; when all
  copies of a block are gone the books are consistent again.
\<close>

section \<open>Removing all copies of a block\<close>

lemma fold_del_copy:
  "bk_virt (fold (\<lambda>a. del_copy a s) ks B) = bk_virt B" "bk_copy (fold (\<lambda>a. del_copy a s) ks B) = bk_copy B"
  "bk_current (fold (\<lambda>a. del_copy a s) ks B) = (\<lambda>a. if a \<in> set ks then 0 else bk_current B a)"
  "bk_clones (fold (\<lambda>a. del_copy a s) ks B) t = (if t = s then bk_clones B s - word_of_nat (length ks) else bk_clones B t)"
  "bk_target (fold (\<lambda>a. del_copy a s) ks B) t = (if t = s then bk_target B s - word_of_nat (length ks) else bk_target B t)"
  "sh_valid (bk_shadow (fold (\<lambda>a. del_copy a s) ks B) t) = sh_valid (bk_shadow B t)"
  "sh_db_id (bk_shadow (fold (\<lambda>a. del_copy a s) ks B) t) = sh_db_id (bk_shadow B t)"
  by (induction ks arbitrary: B) (auto simp: fun_eq_iff)

text \<open>The array blocks among \<open>js\<close> that search with block \<open>s\<close> at the moment.\<close>

definition held :: "fms_loader \<Rightarrow> nat \<Rightarrow> nat list \<Rightarrow> nat list" where
  "held q s js = filter (\<lambda>j. map_current q j \<noteq> 0 \<and> word_of_nat s = array_virt_ids q j) js"

lemma held_frame: "map_current r = map_current q \<Longrightarrow> array_virt_ids r = array_virt_ids q \<Longrightarrow> held r s js = held q s js"
  by (simp add: held_def)

lemma unload_array_blocks:
  assumes "handshakes ans" and "cmd_ring_ok q" and "hw_is ans True 0 (ld_hw q)" and "s < 16" and "\<forall>j \<in> set js. j < 16"
    and "num_pending q + 4 * length (held q s js) \<le> 167"
  shows "\<exists>r. foldM (unload_array_block s) js q = Some r \<and>
    extends ans q (map (\<lambda>a. Declone a s) (held q s js)) r \<and>
    settled r = fold (\<lambda>a. del_copy a s) (held q s js) (settled q) \<and>
    map_target r = (\<lambda>a. if a \<in> set (held q s js) then 0 else map_target q a)"
  using assms(2-6)
proof (induction js arbitrary: q)
  case Nil
  then show ?case by (simp add: extends_refl held_def)
next
  case (Cons j js)
  show ?case
  proof (cases "map_current q j \<noteq> 0 \<and> word_of_nat s = array_virt_ids q j")
    case False
    then have "unload_array_block s j q = Some q" by (auto simp: unload_array_block_def)
    moreover have e: "held q s (j # js) = held q s js" using False by (auto simp: held_def)
    ultimately show ?thesis using Cons.IH [OF Cons.prems(1-3)] Cons.prems(4,5) unfolding e by simp
  next
    case True
    obtain q1 where q1: "nlm_device_block_scheduler_delete s j (push_bit (unat (copy_number q j)) 1) q = Some q1" "hw_only ans True 0 q q1"
      using scheduler_hw [OF assms(1) Cons.prems(2)] unfolding nlm_device_block_scheduler_delete_def by blast
    note x1 = hw_only_extends [OF Cons.prems(1) q1(2)]
    have k1: "cmd_ring_ok q1" "hw_is ans True 0 (ld_hw q1)" "num_pending q1 = num_pending q"
      using x1(1) extends_num_pending [OF x1(1)] by (simp_all add: extends_def)
    have room: "num_pending q1 + 4 \<le> 167" "j < 16" using Cons.prems(4,5) True k1(3) by (simp_all add: held_def)
    obtain q2 where q2: "nlm_device_loader_declone j s q1 = Some q2" "extends ans q1 [Declone j s] q2"
      "settled q2 = del_copy j s (settled q1)" "map_target q2 = (map_target q1)(j := 0)"
      using declone_queue [OF k1(1) room(1) k1(2) room(2) Cons.prems(3)] by blast
    have x2: "extends ans q [Declone j s] q2" using extends_trans [OF x1(1) q2(2)] by simp
    have k2: "cmd_ring_ok q2" "hw_is ans True 0 (ld_hw q2)" "num_pending q2 = num_pending q + 4"
      and fr: "map_current q2 = map_current q" "array_virt_ids q2 = array_virt_ids q"
      using x2 extends_num_pending [OF x2] by (simp_all add: extends_def frame_def)
    let ?ks = "held q s js"
    have pre: "\<forall>j \<in> set js. j < 16" "num_pending q2 + 4 * length ?ks \<le> 167" using Cons.prems(4,5) True k2(3) by (simp_all add: held_def)
    obtain r where r: "foldM (unload_array_block s) js q2 = Some r" "extends ans q2 (map (\<lambda>a. Declone a s) ?ks) r"
      "settled r = fold (\<lambda>a. del_copy a s) ?ks (settled q2)" "map_target r = (\<lambda>a. if a \<in> set ?ks then 0 else map_target q2 a)"
      using Cons.IH [OF k2(1,2) Cons.prems(3) pre(1)] pre(2) unfolding held_frame [OF fr] by blast
    have e: "held q s (j # js) = j # ?ks" using True by (simp add: held_def)
    have "unload_array_block s j q = Some q2" using True q1(1) q2(1) by (simp add: unload_array_block_def)
    then have "foldM (unload_array_block s) (j # js) q = Some r" using r(1) by simp
    moreover have "extends ans q (map (\<lambda>a. Declone a s) (j # ?ks)) r" using extends_trans [OF x2 r(2)] by simp
    moreover have "settled r = fold (\<lambda>a. del_copy a s) (j # ?ks) (settled q)" using r(3) q2(3) x1(2) by simp
    moreover have "map_target r = (\<lambda>a. if a \<in> set (j # ?ks) then 0 else map_target q a)"
      using r(4) q2(4) x1(3) by (auto simp: fun_eq_iff)
    ultimately show ?thesis unfolding e by blast
  qed
qed

text \<open>A block without copies can be forgotten.\<close>

definition forget :: "nat \<Rightarrow> books \<Rightarrow> books" where
  "forget s B = B\<lparr>bk_shadow := (bk_shadow B)(s := (bk_shadow B s)\<lparr>sh_valid := False\<rparr>)\<rparr>"

lemma forget_sel [simp]:
  "bk_virt (forget s B) = bk_virt B" "bk_copy (forget s B) = bk_copy B" "bk_current (forget s B) = bk_current B"
  "bk_clones (forget s B) t = bk_clones B t" "bk_target (forget s B) t = bk_target B t"
  "sh_valid (bk_shadow (forget s B) t) \<longleftrightarrow> t \<noteq> s \<and> sh_valid (bk_shadow B t)"
  "sh_db_id (bk_shadow (forget s B) t) = sh_db_id (bk_shadow B t)"
  by (auto simp: forget_def bk_clones_def bk_target_def)

lemma consistent_forget:
  assumes c: "consistent n T B" and s: "s < n" and ks: "distinct ks" "set ks = copies_of n B s"
  shows "consistent n (\<lambda>a. if a \<in> set ks then 0 else T a) (forget s (fold (\<lambda>a. del_copy a s) ks B))"
    and "bk_clones (fold (\<lambda>a. del_copy a s) ks B) s = 0"
proof -
  let ?B = "forget s (fold (\<lambda>a. del_copy a s) ks B)"
  note sel = fold_del_copy [of s ks B]
  have n: "n \<le> 12" and T: "\<forall>a<n. T a = bk_current B a" and num: "\<forall>t<n. numbered n B t" and tg: "\<forall>t<n. bk_target B t = bk_clones B t"
    and own: "\<forall>a<n. bk_current B a \<noteq> 0 \<longrightarrow> (\<exists>s<n. bk_virt B a = word_of_nat s \<and> sh_valid (bk_shadow B s))"
    using c by (auto simp: consistent_def)
  have "length ks = unat (bk_clones B s)" using card_copies [of n B s] num s distinct_card [OF ks(1)] ks(2) by simp
  then have "word_of_nat (length ks) = bk_clones B s" by simp
  then show z: "bk_clones (fold (\<lambda>a. del_copy a s) ks B) s = 0" by (simp add: sel)
  have other: "copies_of n ?B t = copies_of n B t" if "t < n" "t \<noteq> s" for t
  proof -
    have "word_of_nat s \<noteq> (word_of_nat t :: u8)" using word_of_nat_u8_inj [of s t] that s n by linarith
    then have "copies_of n B t \<inter> set ks = {}" unfolding ks(2) by (auto simp: copies_of_def)
    then show ?thesis unfolding copies_of_def forget_sel sel by (auto split: if_splits)
  qed
  have none: "copies_of n ?B s = {}" using ks(2) by (auto simp: copies_of_def sel)
  have "numbered n ?B t" if "t < n" for t
  proof (cases "t = s")
    case True
    then show ?thesis using none z by (simp add: numbered_def bij_betw_def)
  next
    case False
    then show ?thesis using num other [OF that False] that by (subst numbered_cong [where C = B]) (auto simp: sel)
  qed
  moreover have "bk_target ?B t = bk_clones ?B t" if "t < n" for t using tg that s by (simp add: sel)
  moreover have "\<exists>u<n. bk_virt ?B a = word_of_nat u \<and> sh_valid (bk_shadow ?B u)" if a: "a < n" "bk_current ?B a \<noteq> 0" for a
  proof -
    have b: "a \<notin> set ks" "bk_current B a \<noteq> 0" using a(2) by (auto simp: sel split: if_splits)
    obtain u where u: "u < n" "bk_virt B a = word_of_nat u" "sh_valid (bk_shadow B u)" using own a(1) b(2) by blast
    then have "u \<noteq> s" using b a(1) ks(2) by (auto simp: copies_of_def)
    then show ?thesis using u by (auto simp: sel)
  qed
  ultimately show "consistent n (\<lambda>a. if a \<in> set ks then 0 else T a) ?B"
    using n T unfolding consistent_def by (simp add: sel)
qed

lemma queue_plain:
  assumes ok: "cmd_ring_ok p" and room: "num_pending p + length (cmds_of t) \<le> 167" and hw: "hw_is ans True 0 (ld_hw p)"
    and t: "fst (task_blocks t) < 16" "snd (task_blocks t) < 16"
  shows "\<exists>q. foldM nlm_device_loader_cmd_add (cmds_of t) p = Some q \<and>
    extends ans p [t] q \<and> map_target q = map_target p \<and> settled q = fold effect (cmds_of t) (settled p)"
proof -
  have "upd_shadow 0 (\<lambda>e. e\<lparr>no_clones_target := no_clones_target (shadow_map p 0)\<rparr>) (p\<lparr>map_target := map_target p\<rparr>) = p"
    by (simp add: upd_shadow_def)
  moreover have "set_target 0 (no_clones_target (shadow_map p 0)) B = B" if "bk_target B 0 = no_clones_target (shadow_map p 0)" for B
    using that by (simp add: set_target_def bk_target_def flip: that)
  ultimately show ?thesis
    using queue_change [OF ok room hw t, of 0 "no_clones_target (shadow_map p 0)" "map_target p"] by (simp add: settled_target)
qed

text \<open>A shadow block is forgotten only when it has no copies left; only the numbers of copies matter.\<close>

lemma bk_clones_effect:
  "bk_clones (effect c B) =
    (if opcode c = CMD_ARRAY_ADD then (bk_clones B)(unat (addr_shadow c) := bk_clones B (unat (addr_shadow c)) + 1)
     else if opcode c = CMD_ARRAY_DELETE then (bk_clones B)(unat (addr_shadow c) := bk_clones B (unat (addr_shadow c)) - 1)
     else bk_clones B)"
  by (cases "opcode c") (simp_all add: effect_def Let_def fun_eq_iff, auto simp: bk_clones_def)

lemma fold_effect_clones: "bk_clones B = bk_clones C \<Longrightarrow> bk_clones (fold effect cs B) = bk_clones (fold effect cs C)"
  by (induction cs arbitrary: B C) (simp_all add: bk_clones_effect)

lemma tasks_ok_cong: "bk_clones B = bk_clones C \<Longrightarrow> tasks_ok ts B = tasks_ok ts C"
proof (induction ts arbitrary: B C)
  case (Cons t ts)
  from Cons.IH [OF fold_effect_clones [OF Cons.prems]] Cons.prems show ?case by simp
qed simp

lemma tasks_ok_append: "tasks_ok (ts @ us) B \<longleftrightarrow> tasks_ok ts B \<and> tasks_ok us (fold effect (concat (map cmds_of ts)) B)"
  by (induction ts arbitrary: B) auto

lemma extends_clones:
  assumes "extends ans p ts q"
  shows "bk_clones (settled q) = bk_clones (fold effect (concat (map cmds_of ts)) (settled p))" and "bk_clones (books_of q) = bk_clones (books_of p)"
proof -
  show b: "bk_clones (books_of q) = bk_clones (books_of p)" using assms by (simp add: extends_def frame_shadow fun_eq_iff)
  show "bk_clones (settled q) = bk_clones (fold effect (concat (map cmds_of ts)) (settled p))"
    using assms by (simp add: settled_def extends_def) (rule fold_effect_clones [OF fold_effect_clones [OF b]])
qed

lemma tasks_ok_extends: "extends ans p ts q \<Longrightarrow> tasks_ok (ts @ us) (settled p) \<longleftrightarrow> tasks_ok ts (settled p) \<and> tasks_ok us (settled q)"
  using tasks_ok_cong [OF extends_clones(1)] by (auto simp: tasks_ok_append)

section \<open>Unloading the blocks of a database\<close>

lemma unload_block_plan:
  assumes hs: "handshakes ans" and w: "well_kept q" and hw: "hw_is ans True 0 (ld_hw q)" and b: "b < nblocks q"
    and held: "set (held q b [0..<nblocks q]) = copies_of (nblocks q) (settled q) b"
    and room: "num_pending q + 4 * unat (bk_clones (settled q) b) + 1 \<le> 167"
  shows "\<exists>r ts. unload_block b q = Some r \<and> extends ans q ts r \<and> well_kept r \<and> tasks_ok ts (settled q) \<and>
    num_pending r = num_pending q + 4 * unat (bk_clones (settled q) b) + 1 \<and>
    settled r = forget b (fold (\<lambda>a. del_copy a b) (held q b [0..<nblocks q]) (settled q))"
proof -
  let ?ks = "held q b [0..<nblocks q]"
  have n: "nblocks q \<le> 12" and con: "consistent (nblocks q) (map_target q) (settled q)" and ok: "cmd_ring_ok q"
    using w by (auto simp: well_kept_def consistent_def)
  have d: "distinct ?ks" by (simp add: held_def)
  have len: "length ?ks = unat (bk_clones (settled q) b)"
    using card_copies [of "nblocks q" "settled q" b] con b distinct_card [OF d] held by (simp add: consistent_def)
  have pre: "b < 16" "\<forall>j \<in> set [0..<nblocks q]. j < 16" "num_pending q + 4 * length ?ks \<le> 167" using b n room len by auto
  obtain r where r: "foldM (unload_array_block b) [0..<nblocks q] q = Some r" "extends ans q (map (\<lambda>a. Declone a b) ?ks) r"
    "settled r = fold (\<lambda>a. del_copy a b) ?ks (settled q)" "map_target r = (\<lambda>a. if a \<in> set ?ks then 0 else map_target q a)"
    using unload_array_blocks [OF hs ok hw pre] by blast
  have np: "num_pending r = num_pending q + 4 * length ?ks"
    using extends_num_pending [OF r(2)] by (simp add: length_concat sum_list_triv comp_def)
  have k: "cmd_ring_ok r" "hw_is ans True 0 (ld_hw r)" using r(2) by (simp_all add: extends_def)
  have "num_pending r + length (cmds_of (Forget b)) \<le> 167" using np len room by simp
  from queue_plain [OF k(1) this k(2)] pre(1) obtain t where
    t: "nlm_device_loader_cmd_add (mk_cmd 0 b CMD_SHADOW_DELETE) r = Some t" "extends ans r [Forget b] t"
    "map_target t = map_target r" "settled t = fold effect (cmds_of (Forget b)) (settled r)"
    by (auto split: bind_splits)
  have st: "settled t = forget b (fold (\<lambda>a. del_copy a b) ?ks (settled q))"
    using t(4) r(3) pre(1) by (simp add: effect_def forget_def)
  note c = consistent_forget [OF con b d held]
  have x: "extends ans q (map (\<lambda>a. Declone a b) ?ks @ [Forget b]) t" by (rule extends_trans [OF r(2) t(2)])
  have "well_kept t" using c(1) st t(2,3) r(4) extends_nblocks [OF x] by (simp add: well_kept_def extends_def)
  moreover have "tasks_ok (map (\<lambda>a. Declone a b) ?ks @ [Forget b]) (settled q)"
    unfolding tasks_ok_extends [OF r(2)]
    using c(2) r(2,3) pre(1) by (auto simp: extends_def plain_def intro!: plain_ok)
  moreover have "unload_block b q = Some t" using r(1) t(1) by (simp add: unload_block_def)
  moreover have "num_pending t = num_pending q + 4 * unat (bk_clones (settled q) b) + 1"
    using extends_num_pending [OF t(2)] np len by simp
  ultimately show ?thesis using x st by blast
qed

text \<open>The books without the blocks \<open>bs\<close> and their copies.\<close>

definition without :: "nat \<Rightarrow> nat list \<Rightarrow> books \<Rightarrow> books \<Rightarrow> bool" where
  "without n bs B C \<longleftrightarrow> bk_virt C = bk_virt B \<and>
     (\<forall>a < n. bk_current C a = (if \<exists>b \<in> set bs. a \<in> copies_of n B b then 0 else bk_current B a)) \<and>
     (\<forall>s. sh_valid (bk_shadow C s) \<longleftrightarrow> s \<notin> set bs \<and> sh_valid (bk_shadow B s)) \<and>
     (\<forall>s. sh_db_id (bk_shadow C s) = sh_db_id (bk_shadow B s)) \<and>
     (\<forall>s. s \<notin> set bs \<longrightarrow> bk_clones C s = bk_clones B s)"

lemma unload_blocks:
  assumes hs: "handshakes ans" and "distinct bs" and "well_kept q" and "hw_is ans True 0 (ld_hw q)"
    and "\<forall>b \<in> set bs. b < nblocks q \<and> set (held q b [0..<nblocks q]) = copies_of (nblocks q) (settled q) b"
    and "num_pending q + (\<Sum>b \<leftarrow> bs. 4 * unat (bk_clones (settled q) b) + 1) \<le> 167"
  shows "\<exists>r ts. foldM unload_block bs q = Some r \<and> extends ans q ts r \<and> well_kept r \<and> tasks_ok ts (settled q) \<and>
    without (nblocks q) bs (settled q) (settled r)"
  using assms(2-6)
proof (induction bs arbitrary: q)
  case Nil
  then show ?case by (intro exI [of _ q] exI [of _ "[]"]) (simp add: extends_refl well_kept_def without_def)
next
  case (Cons b bs)
  let ?n = "nblocks q" and ?B = "settled q"
  have b: "b < ?n" "set (held q b [0..<?n]) = copies_of ?n ?B b" and room: "num_pending q + 4 * unat (bk_clones ?B b) + 1 \<le> 167"
    using Cons.prems(4,5) by simp_all
  have n: "?n \<le> 12" using Cons.prems(2) by (simp add: well_kept_def consistent_def)
  obtain r ts where r: "unload_block b q = Some r" "extends ans q ts r" "well_kept r" "tasks_ok ts ?B"
    "num_pending r = num_pending q + 4 * unat (bk_clones ?B b) + 1"
    "settled r = forget b (fold (\<lambda>a. del_copy a b) (held q b [0..<?n]) ?B)"
    using unload_block_plan [OF hs Cons.prems(2,3) b room] by blast
  note sel = fold_del_copy [of b "held q b [0..<?n]" ?B]
  have nb: "nblocks r = ?n" using extends_nblocks [OF r(2)] by simp
  have hw: "hw_is ans True 0 (ld_hw r)" by (rule extends_hw [OF r(2)])
  have hd: "held r t js = held q t js" for t js using r(2) by (intro held_frame) (simp_all add: extends_def frame_def)
  have cop: "copies_of ?n (settled r) t = copies_of ?n ?B t" if t: "t < ?n" "t \<noteq> b" for t
  proof -
    have "word_of_nat b \<noteq> (word_of_nat t :: u8)" using word_of_nat_u8_inj [of b t] t b n by linarith
    then have "copies_of ?n ?B t \<inter> set (held q b [0..<?n]) = {}" unfolding b(2) by (auto simp: copies_of_def)
    then show ?thesis unfolding copies_of_def r(6) forget_sel sel by (auto split: if_splits)
  qed
  have cl: "bk_clones (settled r) t = bk_clones ?B t" if "t \<noteq> b" for t using that by (simp add: r(6) sel)
  have ne: "t \<noteq> b" if "t \<in> set bs" for t using that Cons.prems(1) by auto
  have "\<forall>t \<in> set bs. t < nblocks r \<and> set (held r t [0..<nblocks r]) = copies_of (nblocks r) (settled r) t"
    using Cons.prems(4) ne cop unfolding hd nb by auto
  moreover have sm: "map (\<lambda>b. 4 * unat (bk_clones (settled r) b) + 1) bs = map (\<lambda>b. 4 * unat (bk_clones ?B b) + 1) bs" using cl ne by simp
  have "num_pending r + (\<Sum>b \<leftarrow> bs. 4 * unat (bk_clones (settled r) b) + 1) \<le> 167" unfolding sm using Cons.prems(5) r(5) by simp
  ultimately obtain t us where t: "foldM unload_block bs r = Some t" "extends ans r us t" "well_kept t" "tasks_ok us (settled r)"
    "without (nblocks r) bs (settled r) (settled t)"
    using Cons.IH [OF _ r(3) hw] Cons.prems(1) by auto
  have "bk_current (settled t) a = (if \<exists>b \<in> set (b # bs). a \<in> copies_of ?n ?B b then 0 else bk_current ?B a)" if a: "a < ?n" for a
  proof -
    have "(\<exists>u \<in> set bs. a \<in> copies_of ?n (settled r) u) \<longleftrightarrow> (\<exists>u \<in> set bs. a \<in> copies_of ?n ?B u)"
      using cop ne Cons.prems(4) by auto
    then show ?thesis using t(5) a b(2) unfolding without_def nb r(6) forget_sel sel by (simp split: if_splits)
  qed
  then have "without ?n (b # bs) ?B (settled t)"
    using t(5) unfolding without_def nb r(6) forget_sel sel by auto
  moreover have "tasks_ok (ts @ us) ?B" using tasks_ok_extends [OF r(2)] r(4) t(4) by blast
  ultimately show ?case using r(1) t(1,3) extends_trans [OF r(2) t(2)] by auto
qed

lemma held_idle: "set (held p b [0..<nblocks p]) = copies_of (nblocks p) (books_of p) b"
  by (auto simp: held_def copies_of_def)

lemma unload_plan:
  assumes idle: "loader_idle ans p" and bs: "distinct bs" "\<forall>b \<in> set bs. b < nblocks p"
  shows "\<exists>p1 q r ts. with_hw LOCK_GID_BMAP p = Some p1 \<and> foldM unload_block bs p1 = Some q \<and> with_hw UNLOCK_GID_BMAP q = Some r \<and>
    extends ans p ts r \<and> well_kept r \<and> tasks_ok ts (books_of r) \<and> without (nblocks p) bs (books_of p) (settled r)"
proof -
  note i = idle_sel [OF idle]
  obtain p1 where p1: "with_hw LOCK_GID_BMAP p = Some p1" "hw_only ans True 0 p p1"
    using with_hw_returns [OF lock_keeps(1) [OF i(7)] i(5)] by blast
  note x1 = hw_only_extends [OF i(3) p1(2)] and w1 = planned_sel(2) [OF hw_only_planned(1) [OF i(1) p1(2)]]
  have k1: "hw_is ans True 0 (ld_hw p1)" "nblocks p1 = nblocks p" "num_pending p1 = 0" "settled p1 = books_of p"
    using x1 i(4,8) extends_num_pending [OF x1(1)] by (simp_all add: extends_def frame_def)
  have hd: "held p1 t js = held p t js" for t js using x1(1) by (intro held_frame) (simp_all add: extends_def frame_def)
  have "length bs \<le> nblocks p" using card_mono [of "{..<nblocks p}" "set bs"] bs distinct_card [OF bs(1)] by auto
  then have "length bs \<le> 12" using i(9) by simp
  moreover have "(\<Sum>b \<leftarrow> bs. 4 * unat (no_clones_current (shadow_map p b)) + 1) =
      4 * (\<Sum>b \<leftarrow> bs. unat (no_clones_current (shadow_map p b))) + length bs" by (induction bs) simp_all
  ultimately have "num_pending p1 + (\<Sum>b \<leftarrow> bs. 4 * unat (bk_clones (settled p1) b) + 1) \<le> 167"
    using sum_copies [OF idle bs] unfolding k1(3,4) books_sel by linarith
  moreover have "\<forall>b \<in> set bs. b < nblocks p1 \<and> set (held p1 b [0..<nblocks p1]) = copies_of (nblocks p1) (settled p1) b"
    using bs(2) unfolding hd k1(2,4) held_idle by blast
  ultimately obtain q ts where q: "foldM unload_block bs p1 = Some q" "extends ans p1 ts q" "well_kept q" "tasks_ok ts (settled p1)"
    "without (nblocks p1) bs (settled p1) (settled q)"
    using unload_blocks [OF i(7) bs(1) w1 k1(1)] by blast
  obtain r where r: "with_hw UNLOCK_GID_BMAP q = Some r" "hw_only ans True 0 q r"
    using with_hw_returns [OF lock_keeps(2) [OF i(7)] extends_hw [OF q(2)]] by blast
  have ok: "cmd_ring_ok q" using q(2) by (simp add: extends_def)
  note x2 = hw_only_extends [OF ok r(2)]
  have x: "extends ans p ts r" using extends_trans [OF x1(1) extends_trans [OF q(2) x2(1)]] by simp
  have "tasks_ok ts (books_of r)"
    using q(4) tasks_ok_cong [OF extends_clones(2) [OF x]] k1(4) by simp
  then show ?thesis using p1(1) q(1,5) r(1) x planned_sel(2) [OF hw_only_planned(1) [OF q(3) r(2)]] x2(2) k1(2,4) by auto
qed

text \<open>C3. On an idle loader with a synchronous load policy nlm_device_unload_database returns. If the database is
  loaded it returns \<^const>\<open>NLM_OK\<close>, the loader is idle again, the database has no blocks any more, its blocks are in
  no array block, and the blocks of the other databases and their copies are as before. If it is not,
  or the identifier is out of range, it returns \<^const>\<open>NLM_INVALID_DATABASE_ID\<close> and changes nothing.\<close>

theorem unload_database_correct:
  assumes "loader_idle ans p" and "database_load_policy p \<noteq> NLM_DATABASE_LOAD_POLICY_ASYNC"
  shows "if database_id \<le> NLM_MAX_DATABASE_ID \<and> shadow_block_list p database_id \<noteq> []
    then \<exists>q. nlm_device_unload_database master database_id p = Some (NLM_OK, q) \<and> loader_idle ans q \<and>
      shadow_block_list q = (shadow_block_list p)(database_id := []) \<and>
      (\<forall>s < nblocks p. array_copies q s = (if s \<in> set (shadow_block_list p database_id) then {} else array_copies p s))
    else nlm_device_unload_database master database_id p = Some (NLM_INVALID_DATABASE_ID, p)"
proof (cases "database_id \<le> NLM_MAX_DATABASE_ID \<and> shadow_block_list p database_id \<noteq> []")
  case True
  let ?bs = "shadow_block_list p database_id"
  have "\<forall>b \<in> set ?bs. b < nblocks p" using shadow_block_listD by blast
  from unload_plan [OF assms(1) distinct_shadow_block_list this] obtain p1 q r ts where
    s: "with_hw LOCK_GID_BMAP p = Some p1" "foldM unload_block ?bs p1 = Some q" "with_hw UNLOCK_GID_BMAP q = Some r"
    "extends ans p ts r" "well_kept r" "tasks_ok ts (books_of r)" "without (nblocks p) ?bs (books_of p) (settled r)" by blast
  obtain t where t: "run_commands master r = Some (NLM_OK, t)" "loader_idle ans t" "nblocks t = nblocks p" "books_of t = settled r"
    using run_extended [OF assms(1) s(4-6) assms(2)] by blast
  have "\<not> NLM_MAX_DATABASE_ID < database_id" using True by (simp add: not_less)
  then have e: "nlm_device_unload_database master database_id p = Some (NLM_OK, t)"
    using True s(1-3) t(1) by (simp add: nlm_device_unload_database_def check_master_def idle_exec [OF assms(1)] Let_def)
  have wo: "without (nblocks p) ?bs (books_of p) (books_of t)" using s(7) t(4) by simp
  have v: "sh_valid (shadow_map t s) \<longleftrightarrow> s \<notin> set ?bs \<and> sh_valid (shadow_map p s)" "sh_db_id (shadow_map t s) = sh_db_id (shadow_map p s)" for s
    using wo by (simp_all add: without_def)
  have "shadow_block_list t = (shadow_block_list p)(database_id := [])"
    unfolding shadow_block_list_def fun_eq_iff fun_upd_apply t(3) v
    by (auto simp: shadow_block_list_def filter_empty_conv intro!: filter_cong)
  moreover have "array_copies t s = (if s \<in> set ?bs then {} else array_copies p s)" if s: "s < nblocks p" for s
  proof -
    have key: "(\<exists>b \<in> set ?bs. a \<in> copies_of (nblocks p) (books_of p) b) \<longleftrightarrow> s \<in> set ?bs" if "a \<in> array_copies p s" for a
    proof
      assume "\<exists>b \<in> set ?bs. a \<in> copies_of (nblocks p) (books_of p) b"
      then obtain b where b: "b \<in> set ?bs" "a \<in> copies_of (nblocks p) (books_of p) b" by blast
      have "(word_of_nat b :: u8) = word_of_nat s" using that b(2) by (simp add: array_copies_def copies_of_def)
      then have "b = s" using word_of_nat_u8_inj [of b s] s shadow_block_listD [OF b(1)] idle_sel(9) [OF assms(1)] by linarith
      with b(1) show "s \<in> set ?bs" by simp
    next
      assume "s \<in> set ?bs"
      with that show "\<exists>b \<in> set ?bs. a \<in> copies_of (nblocks p) (books_of p) b"
        by (auto simp: array_copies_def copies_of_def)
    qed
    have "a \<in> array_copies t s \<longleftrightarrow> a \<in> array_copies p s \<and> \<not> (\<exists>b \<in> set ?bs. a \<in> copies_of (nblocks p) (books_of p) b)" for a
      using wo by (auto simp: array_copies_def without_def t(3) split: if_splits)
    then show ?thesis using key by (cases "s \<in> set ?bs") (simp_all add: set_eq_iff, blast+)
  qed
  ultimately show ?thesis using True e t(2) by auto
next
  case False
  then show ?thesis
    by (auto simp: nlm_device_unload_database_def check_master_def idle_exec [OF assms(1)] Let_def not_le)
qed

lemma unload_database_correct_witness:
  "\<exists>q. nlm_device_unload_database master 1 sample_loader = Some (NLM_OK, q) \<and> shadow_block_list q 1 = [] \<and> array_copies q 0 = {}"
proof -
  have "database_load_policy sample_loader \<noteq> NLM_DATABASE_LOAD_POLICY_ASYNC" "nblocks sample_loader = 4"
    by (simp_all add: sample_loader_def NLM_DATABASE_LOAD_POLICY_ASYNC_def)
  then show ?thesis
    using unload_database_correct [OF sample_idle, of 1] by (auto simp: sample_blocks NLM_MAX_DATABASE_ID_def)
qed

end
