(* ===== verification/Loader_Async.thy ===== *)
theory Loader_Async
  imports Loader_Set
begin

unbundle bit_operations_syntax

text \<open>
  The loader between calls: with the asynchronous policy the user calls nlm_device_loader_cmd_exec_fms
  again and again. Whatever the device answers, commands are executed in order; and what happens
  when the number of copies is lowered before the commands that raise it are executed.
\<close>

section \<open>Executing in order\<close>

text \<open>The states that repeated calls reach.\<close>

inductive exec_reaches :: "fms_loader \<Rightarrow> fms_loader \<Rightarrow> bool" where
  exec_start: "exec_reaches p p"
| exec_call: "exec_reaches p q \<Longrightarrow> nlm_device_loader_cmd_exec_fms who q = Some (st, r) \<Longrightarrow> exec_reaches p r"

lemma exec_fms_cases:
  assumes "nlm_device_loader_cmd_exec_fms who p = Some (st, q)"
  obtains (refused) "q = p" "who \<noteq> master" | (ran) "exec_ring p = Some (st, q)" "who = master"
  using assms by (auto simp: nlm_device_loader_cmd_exec_fms_def check_master_def split: option.splits prod.splits if_splits)

lemma exec_ring_books:
  assumes ok: "cmd_ring_ok p" and ex: "exec_ring p = Some (st, q)"
  shows "\<exists>cs. pending p = cs @ pending q \<and> length cs \<le> 1 \<and> books_of q = fold effect cs (books_of p)"
proof (cases "cmd_rd_ptr p = cmd_wr_ptr p")
  case True
  then show ?thesis using ex by (simp add: exec_ring_def)
next
  case False
  let ?c = "loader_cmd_mem p ! unat (cmd_rd_ptr p)"
  obtain early p1 where e: "exec_cmd ?c p = Some (early, p1)" using ex False by (auto simp: exec_ring_def split: bind_splits)
  note b = exec_cmd_books [OF e]
  show ?thesis
  proof (cases early)
    case (Some s)
    then have "q = p1" using ex e False by (simp add: exec_ring_def)
    then show ?thesis using Some b same_plan_sel(1) [OF b(1)] by (intro exI [of _ "[]"]) simp
  next
    case None
    then have q: "q = p1\<lparr>cmd_rd_ptr := next_cmd_ptr (cmd_rd_ptr p1)\<rparr>" using ex e False by (auto simp: exec_ring_def Let_def)
    have "pending q = pending (p\<lparr>cmd_rd_ptr := next_cmd_ptr (cmd_rd_ptr p)\<rparr>)"
      using b(1) by (simp add: q same_plan_def pending_def num_pending_def)
    moreover have "cmd_fetch p = Some (?c, p\<lparr>cmd_rd_ptr := next_cmd_ptr (cmd_rd_ptr p)\<rparr>)" using False by (simp add: cmd_fetch_def)
    ultimately have "pending p = ?c # pending q" using cmd_fetch_Some [OF ok] by simp
    then show ?thesis using b(2) None q by (intro exI [of _ "[?c]"]) simp
  qed
qed

text \<open>C4. Whatever the device answers and whoever calls, repeated calls of nlm_device_loader_cmd_exec_fms execute the
  queued commands in order, each exactly once: the commands executed so far followed by the commands
  still queued are the commands queued at the start, the bookkeeping is the effect of the executed ones, and
  with it the state the loader is heading for never changes.\<close>

theorem loader_executes_in_order:
  assumes "exec_reaches p q" and "cmd_ring_ok p"
  shows "cmd_ring_ok q \<and> settled q = settled p \<and> map_target q = map_target p \<and>
    (\<exists>cs. pending p = cs @ pending q \<and> books_of q = fold effect cs (books_of p))"
  using assms
proof (induction rule: exec_reaches.induct)
  case (exec_start p)
  then show ?case by simp
next
  case (exec_call p q who st r)
  then obtain cs where q: "cmd_ring_ok q" "settled q = settled p" "map_target q = map_target p"
    "pending p = cs @ pending q" "books_of q = fold effect cs (books_of p)" by blast
  from exec_call.hyps(2) show ?case
  proof (cases rule: exec_fms_cases)
    case refused
    then show ?thesis using q by blast
  next
    case ran
    note s = exec_ring_settled [OF q(1) ran(1)]
    obtain ds where ds: "pending q = ds @ pending r" "books_of r = fold effect ds (books_of q)"
      using exec_ring_books [OF q(1) ran(1)] by blast
    then have "pending p = (cs @ ds) @ pending r \<and> books_of r = fold effect (cs @ ds) (books_of p)" using q(4,5) by simp
    then show ?thesis using s(1-3) q(2,3) by metis
  qed
qed

section \<open>Lowering the number of copies too early\<close>

lemma shrink_pass_stuck:
  assumes "\<forall>j \<in> set js. \<not> (word_of_nat b = array_virt_ids p j \<and> map_current p j \<noteq> 0 \<and>
    unat (no_clones_target (shadow_map p b)) = unat (copy_number p j) + 1)"
  shows "shrink_pass b js d p = Some (d, p)"
  using assms by (induction js) auto

definition no_candidate :: "nat \<Rightarrow> fms_loader \<Rightarrow> bool" where
  "no_candidate b p \<longleftrightarrow> (\<forall>j < nblocks p. map_current p j \<noteq> 0 \<longrightarrow> array_virt_ids p j = word_of_nat b \<longrightarrow>
     unat (copy_number p j) + 1 \<noteq> unat (no_clones_target (shadow_map p b)))"

lemma no_candidate_pass: "no_candidate b p \<Longrightarrow> shrink_pass b [0..<nblocks p] d p = Some (d, p)"
  by (rule shrink_pass_stuck) (auto simp: no_candidate_def)

lemma shrink_block_stuck:
  assumes "no_candidate b p" and "d \<noteq> 0" shows "shrink_block b d p = None"
proof (rule ccontr)
  assume "shrink_block b d p \<noteq> None"
  then obtain r where "shrink_block b d p = Some r" by auto
  then have "no_candidate b p \<and> d \<noteq> 0 \<longrightarrow> False"
  proof (rule shrink_block.raw_induct [where P = "\<lambda>b d p r. no_candidate b p \<and> d \<noteq> 0 \<longrightarrow> False", rotated])
    fix f b d p and r :: fms_loader
    assume IH: "\<And>b d p r. f b d p = Some r \<Longrightarrow> no_candidate b p \<and> d \<noteq> 0 \<longrightarrow> False"
      and s: "(if d = 0 then Some p else Option.bind (shrink_pass b [0..<nblocks p] d p) (\<lambda>(d', p'). f b d' p')) = Some r"
    show "no_candidate b p \<and> d \<noteq> 0 \<longrightarrow> False"
    proof
      assume a: "no_candidate b p \<and> d \<noteq> 0"
      then have "f b d p = Some r" using s no_candidate_pass [of b p d] by simp
      with IH a show False by blast
    qed
  qed
  with assms show False by simp
qed

lemma no_candidate_hw: "with_hw f p = Some q \<Longrightarrow> no_candidate b q = no_candidate b p"
  by (auto simp: with_hw_def no_candidate_def)

text \<open>C5. When the number of copies of a database is lowered while its newest copies are only queued, no array
  block holds the copy with the highest number: a pass over the array finds nothing and changes
  nothing, so nlm_device_database_set_num_copies repeats it forever, and holds the lock of the group map.\<close>

theorem set_num_copies_hangs:
  assumes hs: "handshakes (answer (ld_hw p))" and n: "nblocks p \<le> 12"
    and db: "database_id \<le> NLM_MAX_DATABASE_ID" and bs: "shadow_block_list p database_id = b # bs"
    and k: "\<forall>i \<in> set (shadow_block_list p database_id). no_clones_target (shadow_map p i) = k" "num_copies < ucast k" "num_copies \<le> 4"
    and k12: "unat k \<le> 12" and queued: "no_candidate b p"
  shows "\<exists>p1. with_hw LOCK_GID_BMAP p = Some p1 \<and> (\<forall>d. shrink_pass b [0..<nblocks p1] d p1 = Some (d, p1)) \<and>
    nlm_device_database_set_num_copies master database_id num_copies p = None"
proof -
  let ?bs = "shadow_block_list p database_id" and ?d = "int (unat num_copies) - int (unat k)"
  have lt: "unat num_copies < unat k"
    using k(2) by (simp add: word_less_nat_alt unsigned_ucast_eq take_bit_nat_eq_self order.strict_trans2 [OF unsigned_less])
  have len: "length ?bs \<le> 12" using length_shadow_block_list [of p database_id] n by linarith
  have n4: "unat num_copies \<le> 4" using k(3) by (simp add: word_le_nat_alt)
  have "- 2000 < int (length ?bs) * ?d" "int (length ?bs) * ?d < 2000" using difference_small [OF len n4 k12] by blast+
  then have req: "sint (sum_list (map (copies_missing num_copies p) ?bs)) = int (length ?bs) * ?d"
    unfolding sum_missing [OF k(1)] by (rule sint_word_of_int_u32)
  have neg: "?d < 0" using lt by linarith
  then have "int (length ?bs) * ?d \<le> 0" by (intro mult_nonneg_nonpos) simp_all
  then have fits: "\<not> (0 < int (length ?bs) * ?d \<and> int (num_array_blocks_free p) < int (length ?bs) * ?d)" by linarith
  have g: "?bs \<noteq> []" "\<not> NLM_MAX_DATABASE_ID < database_id" "\<not> 4 < num_copies" "\<not> 0 < ?d" using bs db k(3) neg by (auto simp: not_less)
  have "keeps (answer (ld_hw p)) False (check_map (trace (ld_hw p))) LOCK_GID_BMAP" by (rule lock_keeps(1) [OF hs])
  from with_hw_returns [OF this] obtain p1 where p1: "with_hw LOCK_GID_BMAP p = Some p1" by (auto simp: hw_is_def)
  have c: "no_candidate b p1" using queued no_candidate_hw [OF p1] by simp
  have "shrink_block b ?d p1 = None" using shrink_block_stuck [OF c] neg by simp
  then have "foldM (\<lambda>b. shrink_block b ?d) ?bs p1 = None" unfolding bs by simp
  then have "nlm_device_database_set_num_copies master database_id num_copies p = None"
    unfolding nlm_device_database_set_num_copies_def Let_def req delta_loop_same [OF k(1,3) k12 g(1)] if_not_P [OF fits]
      if_not_P [OF g(1)] if_not_P [OF g(2)] if_not_P [OF g(3)]
    using p1 g(4) by (simp add: check_master_def)
  then show ?thesis using p1 no_candidate_pass [OF c] by blast
qed

lemma set_num_copies_hangs_witness:
  "\<exists>q. grow_once [0] sample_loader = Some q \<and> nlm_device_database_set_num_copies master 1 1 q = None"
proof -
  note i = idle_sel [OF sample_idle]
  have n: "nblocks sample_loader = 4" by (simp add: sample_loader_def)
  have v: "\<forall>b \<in> set [0]. b < nblocks sample_loader \<and> sh_valid (bk_shadow (settled sample_loader) b)"
    using n unfolding i(8) by (simp add: sample_loader_def)
  obtain q ts where q: "grow_once [0] sample_loader = Some q"
    "planned prompt_device sample_loader ts (\<lambda>s. unat (bk_clones (settled sample_loader) s) + of_bool (s \<in> set [0])) q"
    using grow_once [OF i(1,5) _ _ v] i(4) sample_free by auto
  note s = planned_sel [OF q(2)]
  have fr: "frame sample_loader q" and hw: "answer (ld_hw q) = prompt_device" using s(1) by (simp_all add: extends_def hw_is_def)
  have bl: "shadow_block_list q 1 = [0]" using frame_block_list [OF fr] sample_blocks by simp
  have "unat (bk_clones (settled q) 0) = 2" using s(6) [of 0] n unfolding i(8) by (simp add: sample_loader_def)
  moreover have "bk_target (settled q) 0 = bk_clones (settled q) 0" using s(2,4) n by (simp add: well_kept_def consistent_def)
  ultimately have t: "unat (no_clones_target (shadow_map q 0)) = 2" by (simp add: settled_target)
  then have t2: "no_clones_target (shadow_map q 0) = 2" by (simp add: word_unat_eq_iff)
  have nc: "no_candidate 0 q" using t fr by (simp add: no_candidate_def frame_def) (simp add: sample_loader_def)
  have "\<exists>p1. with_hw LOCK_GID_BMAP q = Some p1 \<and> (\<forall>d. shrink_pass 0 [0..<nblocks p1] d p1 = Some (d, p1)) \<and>
    nlm_device_database_set_num_copies master 1 1 q = None"
    by (rule set_num_copies_hangs [OF _ _ _ bl _ _ _ _ nc, of 2])
      (use i(7) hw s(4) n bl t2 in \<open>simp_all add: NLM_MAX_DATABASE_ID_def\<close>)
  then show ?thesis using q(1) by blast
qed

text \<open>The sample with one command queued: forget shadow block 1.\<close>

definition sample_queued :: fms_loader where
  "sample_queued = sample_loader\<lparr>loader_cmd_mem := mk_cmd 0 1 CMD_SHADOW_DELETE # replicate 167 (mk_cmd 0 0 CMD_NOP), cmd_wr_ptr := 1\<rparr>"

lemma loader_executes_in_order_witness:
  "\<exists>q. nlm_device_loader_cmd_exec_fms master sample_queued = Some (NLM_OK, q) \<and> cmd_rd_ptr q = 1 \<and> settled q = settled sample_queued"
proof -
  let ?c = "mk_cmd 0 1 CMD_SHADOW_DELETE"
  have "exec_cmd ?c sample_queued = Some (None, upd_shadow 1 (\<lambda>e. e\<lparr>sh_valid := False\<rparr>) sample_queued)"
    by (simp add: exec_cmd_def Let_def upd_shadow_def sample_queued_def sample_loader_def)
  then obtain q where q: "nlm_device_loader_cmd_exec_fms master sample_queued = Some (NLM_OK, q)" "cmd_rd_ptr q = 1"
    by (simp add: nlm_device_loader_cmd_exec_fms_def check_master_def exec_ring_def Let_def upd_shadow_def next_cmd_ptr_def
        NLM_FMS_LOADER_CMD_BUFF_SIZE_def TOTAL_FAMOS_BLOCKS_def sample_queued_def sample_loader_def)
  have "cmd_ring_ok sample_queued" by (simp add: cmd_ring_ok_def sample_queued_def sample_loader_def)
  then have "settled q = settled sample_queued"
    using loader_executes_in_order [OF exec_call [OF exec_start q(1)]] by blast
  with q show ?thesis by blast
qed

section \<open>A block that does not pause\<close>

text \<open>Once the count of a pause has run down to one the command can never be finished: every call reports
  the timeout and changes nothing, so the commands behind it are stuck as well.\<close>

lemma pause_timeout_forever:
  assumes "cmd_rd_ptr p \<noteq> cmd_wr_ptr p" and "opcode (loader_cmd_mem p ! unat (cmd_rd_ptr p)) = CMD_PAUSE_WAIT" and "wait_timeout p = 1"
    and "exec_reaches p q"
  shows "q = p \<and> nlm_device_loader_cmd_exec_fms master q = Some (NLM_LOADER_BLOCK_PAUSE_TIMEOUT, q)"
  using assms(4,1-3)
proof (induction rule: exec_reaches.induct)
  case (exec_start p)
  then show ?case
    by (simp add: nlm_device_loader_cmd_exec_fms_def check_master_def exec_ring_def exec_cmd_def Let_def)
next
  case (exec_call p q who st r)
  then have q: "q = p" "nlm_device_loader_cmd_exec_fms master q = Some (NLM_LOADER_BLOCK_PAUSE_TIMEOUT, q)" by blast+
  from exec_call.hyps(2) have "r = q"
  proof (cases rule: exec_fms_cases)
    case refused
    then show ?thesis by simp
  next
    case ran
    then show ?thesis using q(2) by (simp add: nlm_device_loader_cmd_exec_fms_def check_master_def)
  qed
  with q show ?case by simp
qed

end
