(* ===== verification/Dev_Config.thy ===== *)
theory Dev_Config
  imports Dp_State
begin

unbundle bit_operations_syntax

text \<open>
  The configuration of a device (struct nlm_device_config of include/nlm_packet_api.h), the checks
  nlm_device_init_1 and nlm_device_attach make of it, and how the memory pool of the user is divided
  between the threads of a ring. Function pointers are addresses; what a call of one returns is an
  argument of the operations that call it.
\<close>

section \<open>Constants\<close>

definition NLM_MASTER_RING :: u32 where "NLM_MASTER_RING = 0"
definition NLM_XAUI_RING_0 :: u32 where "NLM_XAUI_RING_0 = 4"
definition NLM_XAUI_RING_1 :: u32 where "NLM_XAUI_RING_1 = 5"
definition NLM_LAST_UNUSED_RING_ID :: u32 where "NLM_LAST_UNUSED_RING_ID = 6"
definition NLM_MAX_THREADS :: u32 where "NLM_MAX_THREADS = 256"
definition NLM_MIN_SYSMEM_SIZE :: u32 where "NLM_MIN_SYSMEM_SIZE = 32 * 1024"
definition NLM_MIN_CONTEXT_SAVE_RESTORE_AREA :: u32 where "NLM_MIN_CONTEXT_SAVE_RESTORE_AREA = 8 * 1024"
definition NLM_MIN_MEMORY_POOL_SIZE :: u32 where "NLM_MIN_MEMORY_POOL_SIZE = 32 * 1024"
definition NLM_MAX_INPUT_FIFO_SIZE :: u32 where "NLM_MAX_INPUT_FIFO_SIZE = 64 * 1024 * 1024"
definition NLM_MAX_OUTPUT_FIFO_SIZE :: u32 where "NLM_MAX_OUTPUT_FIFO_SIZE = 64 * 1024 * 1024"
definition NLM_MIN_FLOW_CNT :: u32 where "NLM_MIN_FLOW_CNT = 16"
definition NLM_DEVICE_MAGIC :: u32 where "NLM_DEVICE_MAGIC = 0xdeadbeef"

lemmas config_consts = NLM_MASTER_RING_def NLM_XAUI_RING_0_def NLM_XAUI_RING_1_def NLM_LAST_UNUSED_RING_ID_def NLM_MAX_THREADS_def
  NLM_MIN_SYSMEM_SIZE_def NLM_MIN_CONTEXT_SAVE_RESTORE_AREA_def NLM_MIN_MEMORY_POOL_SIZE_def NLM_MAX_INPUT_FIFO_SIZE_def
  NLM_MAX_OUTPUT_FIFO_SIZE_def NLM_MIN_FLOW_CNT_def NLM_DEVICE_MAGIC_def

text \<open>The size of the handle of a thread.\<close>

definition sizeof_device :: int where "sizeof_device = 160"

section \<open>The configuration\<close>

record nlm_device_config =
  cf_register_map_base_virt :: addr
  cf_register_map_base_phys :: u64
  cf_register_map_size :: u32
  cf_sysmem_base_virt :: addr
  cf_sysmem_base_phys :: u64
  cf_sysmem_size :: u32
  cf_input_fifo_size :: u32
  cf_output_fifo_size :: u32
  cf_size_of_database_extension_area :: u32
  cf_size_of_context_save_restore_area :: u32
  cf_virt_to_phys :: addr
  cf_packet_base_phys :: u64
  cf_packet_base_virt :: addr
  cf_memory_pool :: addr
  cf_memory_pool_size :: u32
  cf_base_addr_of_ddr_memory :: u64
  cf_size_of_ddr_memory :: u64
  cf_ring_id :: u32
  cf_cookie :: addr
  cf_xmalloc :: addr
  cf_xfree :: addr
  cf_max_threads :: u32
  cf_thread_id :: u32
  cf_using_manager_thread :: u32

section \<open>Alignment\<close>

text \<open>\<^verbatim>\<open>(p + (n - 1)) & ~(n - 1)\<close> and \<^verbatim>\<open>p & ~(n - 1)\<close> on addresses, for \<open>n\<close> a power of two.\<close>

definition round_up :: "int \<Rightarrow> addr \<Rightarrow> addr" where "round_up n p = (p + (n - 1)) div n * n"
definition round_down :: "int \<Rightarrow> addr \<Rightarrow> addr" where "round_down n p = p div n * n"

lemma clear_low_int: "x AND NOT (mask k) = x div 2 ^ k * 2 ^ k" for x :: int
proof -
  have "push_bit k (drop_bit k x) = x AND NOT (mask k)" by (rule bit_eqI) (auto simp: bit_simps)
  then show ?thesis by (simp add: push_bit_eq_mult drop_bit_eq_div)
qed

lemma round_mask:
  "round_up (2 ^ k) p = (p + (2 ^ k - 1)) AND NOT (mask k)" "round_down (2 ^ k) p = p AND NOT (mask k)"
  by (simp_all add: round_up_def round_down_def clear_low_int)

lemma round_up_props:
  assumes "0 < n" shows "p \<le> round_up n p" "round_up n p < p + n" "n dvd round_up n p"
proof -
  have "(p + (n - 1)) div n * n = p + (n - 1) - (p + (n - 1)) mod n" by (simp add: minus_mod_eq_div_mult)
  moreover have "0 \<le> (p + (n - 1)) mod n" "(p + (n - 1)) mod n < n" using assms by simp_all
  ultimately show "p \<le> round_up n p" "round_up n p < p + n" "n dvd round_up n p" by (simp_all add: round_up_def)
qed

lemma round_down_props:
  assumes "0 < n" shows "round_down n p \<le> p" "p - n < round_down n p" "n dvd round_down n p"
proof -
  have "p div n * n = p - p mod n" by (simp add: minus_mod_eq_div_mult)
  moreover have "0 \<le> p mod n" "p mod n < n" using assms by simp_all
  ultimately show "round_down n p \<le> p" "p - n < round_down n p" "n dvd round_down n p" by (simp_all add: round_down_def)
qed

lemma multiple_near: "n dvd d \<Longrightarrow> - n < d \<Longrightarrow> 0 < n \<Longrightarrow> 0 \<le> d" for d n :: int
proof (rule ccontr)
  assume "n dvd d" "- n < d" "0 < n" "\<not> 0 \<le> d"
  then show False using zdvd_imp_le [of n "- d"] by simp
qed

text \<open>A multiple above a number is not passed by rounding the number up, a multiple below not by rounding down.\<close>

lemma round_up_le: "0 < n \<Longrightarrow> p \<le> q \<Longrightarrow> n dvd q \<Longrightarrow> round_up n p \<le> q"
  using multiple_near [of n "q - round_up n p"] round_up_props [of n p] by (simp add: dvd_diff)

lemma round_down_ge: "0 < n \<Longrightarrow> q \<le> p \<Longrightarrow> n dvd q \<Longrightarrow> q \<le> round_down n p"
  using multiple_near [of n "round_down n p - q"] round_down_props [of n p] by (simp add: dvd_diff)

lemma round_aligned: "0 < n \<Longrightarrow> n dvd p \<Longrightarrow> round_up n p = p" "0 < n \<Longrightarrow> n dvd p \<Longrightarrow> round_down n p = p"
  using round_up_le [of n p p] round_up_props [of n p] round_down_ge [of n p p] round_down_props [of n p] by simp_all

section \<open>The checks of nlm_device_init_1\<close>

definition config_out_of_range :: "nlm_device_config \<Rightarrow> bool" where
  "config_out_of_range c \<longleftrightarrow>
     cf_register_map_base_virt c = NULL \<or> cf_register_map_base_phys c = 0 \<or> cf_sysmem_base_virt c = NULL \<or>
     cf_sysmem_size c < NLM_MIN_SYSMEM_SIZE \<or>
     cf_size_of_context_save_restore_area c < NLM_MIN_CONTEXT_SAVE_RESTORE_AREA \<or>
     (cf_memory_pool c = NULL \<and> cf_xmalloc c = NULL) \<or>
     (cf_memory_pool c \<noteq> NULL \<and> cf_memory_pool_size c < NLM_MIN_MEMORY_POOL_SIZE) \<or>
     cf_input_fifo_size c = 0 \<or> NLM_MAX_INPUT_FIFO_SIZE < cf_input_fifo_size c \<or>
     cf_output_fifo_size c = 0 \<or> NLM_MAX_OUTPUT_FIFO_SIZE < cf_output_fifo_size c \<or>
     cf_max_threads c = 0 \<or> NLM_MAX_THREADS < cf_max_threads c"

definition config_error :: "nlm_device_config \<Rightarrow> nlm_status option" where
  "config_error c =
     (if config_out_of_range c then Some NLM_INVALID_DEVICE_CONFIG
      else if cf_thread_id c \<noteq> 0 then Some NLM_INVALID_THREAD_ID
      else if cf_sysmem_base_virt c AND 7 \<noteq> 0 then Some NLM_INVALID_DEVICE_CONFIG
      else if cf_memory_pool c = cf_sysmem_base_virt c \<or> cf_register_map_base_virt c = cf_memory_pool c \<or>
         cf_register_map_base_virt c = cf_sysmem_base_virt c \<or> cf_register_map_base_phys c = cf_sysmem_base_phys c
      then Some NLM_INVALID_DEVICE_CONFIG
      else if cf_input_fifo_size c AND (cf_input_fifo_size c - 1) \<noteq> 0 then Some NLM_INVALID_DEVICE_CONFIG
      else if cf_output_fifo_size c AND (cf_output_fifo_size c - 1) \<noteq> 0 then Some NLM_INVALID_DEVICE_CONFIG
      else None)"

lemma config_ok:
  assumes "config_error c = None"
  shows "\<not> config_out_of_range c" "cf_thread_id c = 0" "cf_sysmem_base_virt c AND 7 = 0"
    "cf_input_fifo_size c AND (cf_input_fifo_size c - 1) = 0" "cf_output_fifo_size c AND (cf_output_fifo_size c - 1) = 0"
  using assms by (simp_all add: config_error_def split: if_splits)

lemma config_in_range:
  assumes "\<not> config_out_of_range c"
  shows "cf_sysmem_base_virt c \<noteq> NULL" "NLM_MIN_SYSMEM_SIZE \<le> cf_sysmem_size c"
    "NLM_MIN_CONTEXT_SAVE_RESTORE_AREA \<le> cf_size_of_context_save_restore_area c"
    "cf_memory_pool c = NULL \<Longrightarrow> cf_xmalloc c \<noteq> NULL"
    "cf_memory_pool c \<noteq> NULL \<Longrightarrow> NLM_MIN_MEMORY_POOL_SIZE \<le> cf_memory_pool_size c"
    "cf_input_fifo_size c \<noteq> 0" "cf_input_fifo_size c \<le> NLM_MAX_INPUT_FIFO_SIZE"
    "cf_output_fifo_size c \<noteq> 0" "cf_output_fifo_size c \<le> NLM_MAX_OUTPUT_FIFO_SIZE"
    "cf_max_threads c \<noteq> 0" "cf_max_threads c \<le> NLM_MAX_THREADS"
  using assms unfolding config_out_of_range_def by (simp_all only: de_Morgan_disj de_Morgan_conj not_less simp_thms)

section \<open>The memory pool\<close>

text \<open>The division of the pool of the user: the handle of the manager thread first, then equal parts.\<close>

definition pool_base :: "nlm_device_config \<Rightarrow> addr" where
  "pool_base c = (if cf_using_manager_thread c \<noteq> 0 then round_up 8 (cf_memory_pool c + sizeof_device) else cf_memory_pool c)"

definition pool_part :: "nlm_device_config \<Rightarrow> u32" where
  "pool_part c = ((cf_memory_pool_size c - word_of_int (pool_base c - cf_memory_pool c)) div cf_max_threads c) AND NOT 7"

text \<open>The pool of the thread that initialises the ring, and that of a thread that attaches to it. The argument is
  what the function at an address returns for a cookie and a size.\<close>

definition init_pool :: "(addr \<Rightarrow> addr \<Rightarrow> u32 \<Rightarrow> addr) \<Rightarrow> nlm_device_config \<Rightarrow> (addr \<times> u32) option" where
  "init_pool xmalloc c =
     (if cf_xmalloc c \<noteq> NULL then
        let m = xmalloc (cf_xmalloc c) (cf_cookie c) (cf_memory_pool_size c)
        in if m = NULL \<or> m AND 7 \<noteq> 0 then None else Some (m, cf_memory_pool_size c)
      else if cf_memory_pool c = NULL \<or> cf_memory_pool c AND 7 \<noteq> 0 then None
      else Some (pool_base c, pool_part c))"

definition attach_pool :: "(addr \<Rightarrow> addr \<Rightarrow> u32 \<Rightarrow> addr) \<Rightarrow> nlm_device_config \<Rightarrow> (addr \<times> u32) option" where
  "attach_pool xmalloc c =
     (if cf_memory_pool c \<noteq> NULL then
        if cf_memory_pool c AND 7 \<noteq> 0 then None
        else Some (pool_base c + uint (pool_part c * cf_thread_id c), pool_part c)
      else if cf_xmalloc c \<noteq> NULL then
        let m = xmalloc (cf_xmalloc c) (cf_cookie c) (cf_memory_pool_size c)
        in if m = NULL \<or> cf_memory_pool c AND 7 \<noteq> 0 then None else Some (m, cf_memory_pool_size c AND NOT 7)
      else None)"

section \<open>The parts of the pool\<close>

lemma div_mult_le_int: "0 < n \<Longrightarrow> a div n * n \<le> a" for a n :: int
  using round_down_props(1) [of n a] by (simp add: round_down_def)

lemma uint_clear_low: "uint (w AND NOT (mask k)) = uint w div 2 ^ k * 2 ^ k" for w :: "'a::len word"
proof -
  have "push_bit k (drop_bit k w) = w AND NOT (mask k)" by (rule bit_eqI) (auto simp: bit_simps)
  then have "uint (w AND NOT (mask k)) = take_bit LENGTH('a) (push_bit k (uint (drop_bit k w)))"
    by (metis unsigned_push_bit_eq)
  also have "uint (drop_bit k w) = drop_bit k (uint w)" by (rule bit_eqI) (auto simp: bit_simps)
  also have "take_bit LENGTH('a) (push_bit k (drop_bit k (uint w))) = take_bit LENGTH('a) (uint w div 2 ^ k * 2 ^ k)"
    by (simp only: push_bit_eq_mult drop_bit_eq_div)
  also have "\<dots> = uint w div 2 ^ k * 2 ^ k"
  proof -
    have "0 \<le> uint w div 2 ^ k * 2 ^ k" by (simp add: pos_imp_zdiv_nonneg_iff)
    moreover have "uint w div 2 ^ k * 2 ^ k \<le> uint w" by (simp add: div_mult_le_int)
    moreover have "uint w < 2 ^ LENGTH('a)" by (rule uint_lt2p)
    ultimately show ?thesis by (intro take_bit_int_eq_self) linarith+
  qed
  finally show ?thesis .
qed

lemma and7_int: "x AND 7 = x mod 8" for x :: int
  using take_bit_eq_mask [of 3 x] by (simp add: take_bit_eq_mod mask_eq_exp_minus_1)

lemma uint_and_not7: "uint (w AND - 8) = uint w div 8 * 8" for w :: u32
  using uint_clear_low [of w 3] by (simp add: mask_eq_exp_minus_1)

text \<open>What the accepted configurations without an allocation function look like.\<close>

definition pool_config :: "nlm_device_config \<Rightarrow> bool" where
  "pool_config c \<longleftrightarrow> cf_xmalloc c = NULL \<and> cf_memory_pool c \<noteq> NULL \<and> 8 dvd cf_memory_pool c \<and>
     NLM_MIN_MEMORY_POOL_SIZE \<le> cf_memory_pool_size c \<and> 0 < cf_max_threads c \<and> cf_max_threads c \<le> NLM_MAX_THREADS"

definition manager_room :: "nlm_device_config \<Rightarrow> int" where
  "manager_room c = (if cf_using_manager_thread c \<noteq> 0 then sizeof_device else 0)"

lemma pool_base_eq: "8 dvd cf_memory_pool c \<Longrightarrow> pool_base c = cf_memory_pool c + manager_room c"
  by (simp add: pool_base_def manager_room_def sizeof_device_def round_aligned dvd_add)

lemma pool_part_eq:
  assumes "pool_config c"
  shows "uint (pool_part c) = (uint (cf_memory_pool_size c) - manager_room c) div uint (cf_max_threads c) div 8 * 8"
proof -
  have b: "pool_base c - cf_memory_pool c = manager_room c" using assms pool_base_eq by (simp add: pool_config_def)
  have "0 \<le> manager_room c" "manager_room c \<le> 160" by (simp_all add: manager_room_def sizeof_device_def)
  moreover have "32768 \<le> uint (cf_memory_pool_size c)"
    using assms by (simp add: pool_config_def NLM_MIN_MEMORY_POOL_SIZE_def word_le_def)
  ultimately have "uint (cf_memory_pool_size c - word_of_int (manager_room c)) = uint (cf_memory_pool_size c) - manager_room c"
    using uint_lt2p [of "cf_memory_pool_size c"] by (simp add: uint_word_ariths uint_word_of_int)
  then show ?thesis by (simp add: pool_part_def b uint_and_not7 uint_div)
qed

lemma pool_parts_fit:
  assumes "pool_config c"
  shows "uint (pool_part c) * uint (cf_max_threads c) \<le> uint (cf_memory_pool_size c) - manager_room c"
    and "8 dvd uint (pool_part c)"
proof -
  let ?a = "uint (cf_memory_pool_size c) - manager_room c" and ?t = "uint (cf_max_threads c)"
  have "32768 \<le> uint (cf_memory_pool_size c)" and t: "0 < ?t"
    using assms by (simp_all add: pool_config_def NLM_MIN_MEMORY_POOL_SIZE_def word_le_def word_less_def)
  then have "0 \<le> ?a" by (simp add: manager_room_def sizeof_device_def)
  have "?a div ?t div 8 * 8 \<le> ?a div ?t" by (rule div_mult_le_int) simp
  then have "?a div ?t div 8 * 8 * ?t \<le> ?a div ?t * ?t" using t by (simp add: mult_right_mono)
  also have "\<dots> \<le> ?a" using t by (rule div_mult_le_int)
  finally show "uint (pool_part c) * ?t \<le> ?a" using pool_part_eq [OF assms] by simp
  show "8 dvd uint (pool_part c)" using pool_part_eq [OF assms] by simp
qed

lemma config_pool:
  assumes "config_error c = None" and "cf_xmalloc c = NULL" and "cf_memory_pool c AND 7 = 0"
  shows "pool_config c"
  using config_in_range [OF config_ok(1) [OF assms(1)]] assms(2,3)
  by (simp add: pool_config_def and7_int dvd_eq_mod_eq_0 word_gt_0) metis

text \<open>The pool of thread \<open>t\<close>: thread 0 initialises the ring, the others attach to it.\<close>

definition pool_of :: "(addr \<Rightarrow> addr \<Rightarrow> u32 \<Rightarrow> addr) \<Rightarrow> nlm_device_config \<Rightarrow> u32 \<Rightarrow> (addr \<times> u32) option" where
  "pool_of xmalloc c t = (if t = 0 then init_pool xmalloc (c\<lparr>cf_thread_id := t\<rparr>) else attach_pool xmalloc (c\<lparr>cf_thread_id := t\<rparr>))"

lemma pool_of_eq:
  assumes c: "pool_config c" and t: "t < cf_max_threads c"
  shows "pool_of xmalloc c t =
    Some (cf_memory_pool c + manager_room c + uint t * uint (pool_part c), pool_part c)"
proof -
  have m: "cf_memory_pool c AND 7 = 0" "cf_memory_pool c \<noteq> NULL" "cf_xmalloc c = NULL"
    using c by (simp_all add: pool_config_def and7_int dvd_eq_mod_eq_0)
  have base: "pool_base c = cf_memory_pool c + manager_room c" using c pool_base_eq by (simp add: pool_config_def)
  have [simp]: "pool_base (c\<lparr>cf_thread_id := v\<rparr>) = pool_base c" "pool_part (c\<lparr>cf_thread_id := v\<rparr>) = pool_part c" for v
    by (simp_all add: pool_base_def pool_part_def)
  have "uint t * uint (pool_part c) \<le> uint (cf_max_threads c) * uint (pool_part c)"
    using t by (intro mult_right_mono) (simp_all add: word_less_def)
  also have "\<dots> \<le> uint (cf_memory_pool_size c)"
    using pool_parts_fit(1) [OF c] by (simp add: manager_room_def sizeof_device_def mult.commute split: if_splits)
  also have "\<dots> < 2 ^ 32" using uint_lt2p [of "cf_memory_pool_size c"] by simp
  finally have "uint (pool_part c * t) = uint t * uint (pool_part c)"
    by (simp add: uint_word_ariths mult.commute)
  then show ?thesis using m by (simp add: pool_of_def init_pool_def attach_pool_def base)
qed

text \<open>The pools of the threads of a ring are 8-byte aligned, equally large, disjoint from each other and from the
  handle of the manager thread, and lie inside the pool of the user.\<close>

theorem thread_pools_disjoint:
  assumes c: "config_error c = None" "cf_xmalloc c = NULL" "cf_memory_pool c AND 7 = 0"
    and t: "t < u" "u < cf_max_threads c"
  shows "\<exists>a b n. pool_of xmalloc c t = Some (a, n) \<and> pool_of xmalloc c u = Some (b, n) \<and>
    cf_memory_pool c + manager_room c \<le> a \<and> a + uint n \<le> b \<and>
    b + uint n \<le> cf_memory_pool c + uint (cf_memory_pool_size c) \<and> 8 dvd a \<and> 8 dvd b \<and> 8 dvd uint n"
proof -
  have pc: "pool_config c" using c by (rule config_pool)
  let ?n = "uint (pool_part c)" and ?m = "cf_memory_pool c + manager_room c"
  have lt: "uint t + 1 \<le> uint u" "uint u + 1 \<le> uint (cf_max_threads c)" using t by (simp_all add: word_less_def)
  have "(uint t + 1) * ?n \<le> uint u * ?n" using lt by (intro mult_right_mono) simp_all
  moreover have "(uint u + 1) * ?n \<le> uint (cf_max_threads c) * ?n" using lt by (intro mult_right_mono) simp_all
  ultimately have le: "?m + uint t * ?n + ?n \<le> ?m + uint u * ?n"
    "?m + uint u * ?n + ?n \<le> cf_memory_pool c + uint (cf_memory_pool_size c)"
    using pool_parts_fit(1) [OF pc] by (simp_all add: algebra_simps)
  have "8 dvd ?m" "8 dvd ?n"
    using pc pool_parts_fit(2) [OF pc] by (simp_all add: pool_config_def manager_room_def sizeof_device_def dvd_add)
  then show ?thesis using le pool_of_eq [OF pc t(2)] pool_of_eq [OF pc less_trans [OF t]] by (simp add: dvd_add)
qed

definition sample_config :: nlm_device_config where
  "sample_config = \<lparr>cf_register_map_base_virt = 0x40000000, cf_register_map_base_phys = 0xC0000000, cf_register_map_size = 0x10000,
     cf_sysmem_base_virt = 0x10000000, cf_sysmem_base_phys = 0x80000000, cf_sysmem_size = 0x800000, cf_input_fifo_size = 1024,
     cf_output_fifo_size = 1024, cf_size_of_database_extension_area = 0, cf_size_of_context_save_restore_area = 0x10000,
     cf_virt_to_phys = 0, cf_packet_base_phys = 0x100000000, cf_packet_base_virt = 0x20000000, cf_memory_pool = 0x30000000,
     cf_memory_pool_size = 0x100000, cf_base_addr_of_ddr_memory = 0, cf_size_of_ddr_memory = 0, cf_ring_id = 0, cf_cookie = 0,
     cf_xmalloc = 0, cf_xfree = 0, cf_max_threads = 4, cf_thread_id = 0, cf_using_manager_thread = 1\<rparr>"

lemma sample_config_ok: "config_error sample_config = None"
  by (simp add: config_error_def config_out_of_range_def sample_config_def config_consts)

lemma thread_pools_disjoint_witness:
  "\<exists>a b n. pool_of (\<lambda>_ _ _. 0) sample_config 1 = Some (a, n) \<and> pool_of (\<lambda>_ _ _. 0) sample_config 3 = Some (b, n) \<and>
    cf_memory_pool sample_config + manager_room sample_config \<le> a \<and> a + uint n \<le> b \<and>
    b + uint n \<le> cf_memory_pool sample_config + uint (cf_memory_pool_size sample_config) \<and> 8 dvd a \<and> 8 dvd b \<and> 8 dvd uint n"
  by (rule thread_pools_disjoint [OF sample_config_ok]) (simp_all add: sample_config_def)

text \<open>Nothing relates the size of a part to what it has to hold: an accepted configuration can give each thread
  less memory than its handle needs.\<close>

lemma small_parts:
  "config_error (sample_config\<lparr>cf_memory_pool_size := 0x8000, cf_max_threads := 256\<rparr>) = None \<and>
   uint (pool_part (sample_config\<lparr>cf_memory_pool_size := 0x8000, cf_max_threads := 256\<rparr>)) < sizeof_device"
  by (simp add: config_error_def config_out_of_range_def sample_config_def config_consts pool_part_def pool_base_def round_up_def sizeof_device_def)

end
