(* ===== verification/Dev_Check.thy ===== *)
theory Dev_Check
  imports Loader_Hw Dev_Config "HOL-Library.Multiset"
begin

unbundle bit_operations_syntax

text \<open>
  The conversations with the registers when a device is brought up and shut down
  (lib/dataplane/fms_packet_api.c): reset, the checks of the memory areas of the rings, of the context ring and
  of the buffers of a XAUI ring, and the shutdown. A loop without a bound is a partial function. A
  register of a ring is the register of ring 0 plus an offset; the multiplication is made on 32 bits.
\<close>

section \<open>Registers\<close>

definition SYS_CONTROL :: u32 where "SYS_CONTROL = 0x0004"
definition SYS_STATUS :: u32 where "SYS_STATUS = 0x0008"
definition SYS_RESET :: u32 where "SYS_RESET = 0x0010"
definition SYS_DATE_REG :: u32 where "SYS_DATE_REG = 0x0018"
definition FPGA_CAPABILITIES1 :: u32 where "FPGA_CAPABILITIES1 = 0x00A4"
definition TEST_REG_ADDR :: u32 where "TEST_REG_ADDR = 0x5020"
definition TEST_REG_DATA :: u32 where "TEST_REG_DATA = 0x5024"
definition TEST_REG_CTRL :: u32 where "TEST_REG_CTRL = 0x5028"
definition SCRATCH0 :: u32 where "SCRATCH0 = 0x5940"
definition DDR_DMA_ENABLE :: u32 where "DDR_DMA_ENABLE = 0x8098"
definition X0_TEST :: u32 where "X0_TEST = 0xA508"
definition X0_FREE_LEVEL :: u32 where "X0_FREE_LEVEL = 0xA50C"
definition X1_TEST :: u32 where "X1_TEST = 0xB508"
definition X1_FREE_LEVEL :: u32 where "X1_FREE_LEVEL = 0xB50C"
definition PDF0_CONFIG_DEFAULT :: u32 where "PDF0_CONFIG_DEFAULT = 2"

definition FDF_REG :: "u32 \<Rightarrow> u8 \<Rightarrow> u32" where "FDF_REG reg0 ring = reg0 + ucast ring * 0x40"
definition PDF_REG :: "u32 \<Rightarrow> u8 \<Rightarrow> u32" where "PDF_REG reg0 ring = reg0 + ucast ring * 0x100"
definition RDF_REG :: "u32 \<Rightarrow> u8 \<Rightarrow> u32" where "RDF_REG reg0 ring = reg0 + ucast ring * 0x80"
definition CNXT_REG :: "u32 \<Rightarrow> u8 \<Rightarrow> u32" where "CNXT_REG reg0 ring = reg0 + ucast ring * 0x80"

abbreviation "FDF_FIFO_RD_PTR \<equiv> FDF_REG 0x101C"
abbreviation "FDF_RDF_BASE_LOW \<equiv> FDF_REG 0x1030"
abbreviation "FDF_RDF_BASE_HI \<equiv> FDF_REG 0x1034"
abbreviation "PDF_CONFIG \<equiv> PDF_REG 0x2008"
abbreviation "PDF_MEMMAP_CONFIG \<equiv> PDF_REG 0x2028"
abbreviation "RDF_WRT_PTR \<equiv> RDF_REG 0x6010"
abbreviation "CNXT_BUFF_BASE_LOW \<equiv> CNXT_REG 0x6408"
abbreviation "CNXT_BUFF_BASE_HI \<equiv> CNXT_REG 0x640C"
abbreviation "CNXT_SIZE \<equiv> CNXT_REG 0x6420"
abbreviation "CNXT_FIFO_CNT \<equiv> CNXT_REG 0x6430"
abbreviation "CNXT_POP_CTRL \<equiv> CNXT_REG 0x6440"
abbreviation "CNXT_POP_DATA \<equiv> CNXT_REG 0x6444"

section \<open>Popping\<close>

text \<open>\<^verbatim>\<open>v = 1; while ((v & 1) != 0) v = HW_REGISTER (reg);\<close> with the last value.\<close>

partial_function (option) poll_value :: "u32 \<Rightarrow> hw \<Rightarrow> (u32 \<times> hw) option" where
  "poll_value reg h = (let (v, h1) = HW_REGISTER reg h in if v AND 1 = 0 then Some (v, h1) else poll_value reg h1)"

definition pop_request :: "u32 \<Rightarrow> hw \<Rightarrow> (u32 \<times> hw) option" where
  "pop_request reg h = poll_value reg (SET_HW_REGISTER reg 1 h)"

section \<open>The buffers of a XAUI ring\<close>

text \<open>\<open>n\<close> buffers are left to pop, \<open>seen\<close> are the addresses of the ones before.\<close>

fun pop_xaui_buffers :: "u32 \<Rightarrow> nat \<Rightarrow> u32 list \<Rightarrow> hw \<Rightarrow> (nlm_status \<times> hw) option" where
  "pop_xaui_buffers reg 0 seen h = Some (NLM_OK, h)"
| "pop_xaui_buffers reg (Suc n) seen h =
     Option.bind (pop_request reg h) (\<lambda>(v, h1).
       let addr = drop_bit 16 v AND 0x3FF in
       if addr = 0 then Some (NLM_DEVICE_XAUI_BUFFER_INCONSISTENT, h1)
       else if addr \<in> set seen then Some (NLM_DEVICE_XAUI_BUFFER_INCONSISTENT, h1)
       else pop_xaui_buffers reg n (seen @ [addr]) h1)"

definition check_xaui_ring :: "u32 \<Rightarrow> u32 \<Rightarrow> hw \<Rightarrow> (nlm_status \<times> hw) option" where
  "check_xaui_ring free_level test_register h =
     (let (v, h1) = HW_REGISTER free_level h in
      if v \<noteq> 511 then Some (NLM_DEVICE_XAUI_BUFFER_INCONSISTENT, h1) else pop_xaui_buffers test_register 511 [] h1)"

definition check_xaui_buffers :: "u8 \<Rightarrow> hw \<Rightarrow> (nlm_status \<times> hw) option" where
  "check_xaui_buffers ring h =
     (if ucast ring = NLM_XAUI_RING_0 then check_xaui_ring X0_FREE_LEVEL X0_TEST h
      else if ucast ring = NLM_XAUI_RING_1 then check_xaui_ring X1_FREE_LEVEL X1_TEST h
      else Some (NLM_OK, h))"

section \<open>The context ring\<close>

text \<open>The running status, sum, checksum and reference checksum of the loop over the buffers.\<close>

definition pop_context ::
  "u8 \<Rightarrow> nat \<Rightarrow> nlm_status \<times> u64 \<times> u32 \<times> u32 \<times> hw \<Rightarrow> (nlm_status \<times> u64 \<times> u32 \<times> u32 \<times> hw) option" where
  "pop_context ring i = (\<lambda>(st, sum, chksum, ref_chksum, h).
     Option.bind (pop_request (CNXT_POP_CTRL ring) h) (\<lambda>(ctrl, h1).
       if ctrl AND 4 = 4 then
         let (data, h2) = HW_REGISTER (CNXT_POP_DATA ring) h1 in
         if data AND 0xff \<noteq> 0 then Some (NLM_DEVICE_CONTEXT_FAIL, sum, chksum, ref_chksum, h2)
         else let shifted_offset = drop_bit 8 data
              in Some (st, sum + ucast shifted_offset, chksum XOR shifted_offset, ref_chksum XOR word_of_nat i, h2)
       else Some (NLM_DEVICE_CONTEXT_FAIL, sum, chksum, ref_chksum, h1)))"

definition check_context_ring :: "u8 \<Rightarrow> hw \<Rightarrow> (nlm_status \<times> hw) option" where
  "check_context_ring ring h =
     (let (cnt, h1) = HW_REGISTER (CNXT_SIZE ring) h in
      assert_then (cnt \<noteq> 0)
        (Option.bind (foldM (pop_context ring) [0..<unat (cnt - 1)] (NLM_OK, 0, 0, 0, h1)) (\<lambda>(st, sum, chksum, ref_chksum, h2).
         Option.bind (pop_request (CNXT_POP_CTRL ring) h2) (\<lambda>(ctrl, h3).
           let st1 = (if ctrl AND 4 = 4 then NLM_DEVICE_CONTEXT_FAIL else st);
               ref_sum = (ucast cnt - 1) * ucast (cnt - 2) div 2
           in Some (if sum \<noteq> ref_sum \<or> chksum \<noteq> ref_chksum then NLM_DEVICE_CONTEXT_FAIL else st1, h3)))))"

section \<open>The sanity check after enabling the device\<close>

text \<open>\<^verbatim>\<open>do val = HW_REGISTER (CNXT_FIFO_CNT); while (--cnt && (val & 0x1f) != 16);\<close>\<close>

fun sanity_loop :: "u8 \<Rightarrow> nat \<Rightarrow> hw \<Rightarrow> nat \<times> hw" where
  "sanity_loop ring 0 h = (0, h)"
| "sanity_loop ring (Suc cnt) h =
     (let (val, h1) = HW_REGISTER (CNXT_FIFO_CNT ring) h
      in if cnt \<noteq> 0 \<and> val AND 0x1f \<noteq> 16 then sanity_loop ring cnt h1 else (cnt, h1))"

definition check_device_sanity :: "u8 \<Rightarrow> hw \<Rightarrow> nlm_status \<times> hw" where
  "check_device_sanity ring h =
     (case sanity_loop ring 1000 h of (cnt, h1) \<Rightarrow> (if cnt = 0 then NLM_DEVICE_DMA_FAILURE else NLM_OK, h1))"

section \<open>The memory areas of the rings\<close>

text \<open>A loop that collects a value per round.\<close>

fun map_hw :: "('a \<Rightarrow> hw \<Rightarrow> 'b \<times> hw) \<Rightarrow> 'a list \<Rightarrow> hw \<Rightarrow> 'b list \<times> hw" where
  "map_hw f [] h = ([], h)"
| "map_hw f (x # xs) h = (let (y, h1) = f x h; (ys, h2) = map_hw f xs h1 in (y # ys, h2))"

definition read64 :: "u32 \<Rightarrow> u32 \<Rightarrow> hw \<Rightarrow> u64 \<times> hw" where
  "read64 hi lo h =
     (let (v1, h1) = HW_REGISTER hi h; (v0, h2) = HW_REGISTER lo h1 in (push_bit 32 (ucast v1) OR ucast v0, h2))"

text \<open>The lower bounds of the areas of ring \<open>i\<close> in system memory and in DDR. A ring that keeps its contexts in system
  memory leaves its entry of \<^verbatim>\<open>ddr_lo\<close> as it is: \<open>stack\<close> is what the array holds before.\<close>

definition ring_low :: "(u8 \<Rightarrow> u64) \<Rightarrow> u8 \<Rightarrow> hw \<Rightarrow> (u64 \<times> u64) \<times> hw" where
  "ring_low stack i h =
     (let (v, h1) = HW_REGISTER (PDF_CONFIG i) h in
      if v = 0 then ((0, 0), h1)
      else
        let (v2, h2) = HW_REGISTER (PDF_CONFIG i) h1 in
        if v2 \<noteq> PDF0_CONFIG_DEFAULT then
          let (sys, h3) = read64 (FDF_RDF_BASE_HI i) (FDF_RDF_BASE_LOW i) h2;
              (m, h4) = HW_REGISTER (PDF_MEMMAP_CONFIG i) h3
          in if m \<noteq> 0 then
               let (ddr, h5) = read64 (CNXT_BUFF_BASE_HI i) (CNXT_BUFF_BASE_LOW i) h4 in ((sys, ddr), h5)
             else ((sys, stack i), h4)
        else ((0, 0), h2))"

text \<open>The upper bound of an area whose size is in scratch register \<open>k\<close>; it is not computed for an area that is not there.\<close>

definition ring_high :: "u64 \<Rightarrow> u32 \<Rightarrow> hw \<Rightarrow> u64 \<times> hw" where
  "ring_high low k h =
     (if low \<noteq> 0 then let (v, h1) = HW_REGISTER (SCRATCH0 + k * 4) h in (low + ucast v - 1, h1) else (0, h))"

definition ring_highs :: "u8 \<times> u64 \<times> u64 \<Rightarrow> hw \<Rightarrow> (u64 \<times> u64) \<times> hw" where
  "ring_highs = (\<lambda>(i, sys, ddr) h.
     let (s, h1) = ring_high sys (2 * ucast i) h; (d, h2) = ring_high ddr (2 * ucast i + 1) h1 in ((s, d), h2))"

definition areas_overlap :: "(u64 \<times> u64) list \<Rightarrow> bool" where
  "areas_overlap as \<longleftrightarrow> list_ex (\<lambda>i. fst (as ! i) \<noteq> 0 \<and> list_ex (\<lambda>j. i \<noteq> j \<and> fst (as ! j) \<noteq> 0 \<and>
     \<not> (snd (as ! i) < fst (as ! j) \<or> snd (as ! j) < fst (as ! i))) [0..<length as]) [0..<length as]"

definition rings :: "u8 list" where "rings = [0, 1, 2, 3, 4, 5]"

definition check_mem_overlap :: "(u8 \<Rightarrow> u64) \<Rightarrow> hw \<Rightarrow> nlm_status \<times> hw" where
  "check_mem_overlap stack h =
     (let (lows, h1) = map_hw (ring_low stack) rings h;
          (highs, h2) = map_hw ring_highs (zip rings lows) h1
      in if areas_overlap (zip (map fst lows) (map fst highs)) \<or> areas_overlap (zip (map snd lows) (map snd highs))
         then (NLM_INVALID_DEVICE_CONFIG, h2) else (NLM_OK, h2))"

section \<open>Reset\<close>

text \<open>\<^verbatim>\<open>while (HW_REGISTER (reg) != 0);\<close>\<close>

abbreviation wait_zero :: "u32 \<Rightarrow> hw \<Rightarrow> hw option" where "wait_zero reg \<equiv> wait_clear reg (- 1)"

text \<open>Waiting until a bit of the test register is set, asking for its value each time; starting to load the fuses
  and waiting for the end.\<close>

partial_function (option) fuse_wait :: "u32 \<Rightarrow> hw \<Rightarrow> hw option" where
  "fuse_wait flag h =
     Option.bind (wait_zero TEST_REG_CTRL (SET_HW_REGISTER TEST_REG_CTRL 2 (SET_HW_REGISTER TEST_REG_ADDR 3 h))) (\<lambda>h1.
       let (v, h2) = HW_REGISTER TEST_REG_DATA h1 in if v AND flag = flag then Some h2 else fuse_wait flag h2)"

definition fuse_load :: "u32 \<Rightarrow> u32 \<Rightarrow> hw \<Rightarrow> hw option" where
  "fuse_load val flag h =
     Option.bind (wait_zero TEST_REG_CTRL (SET_HW_REGISTER TEST_REG_CTRL 1 (SET_HW_REGISTER TEST_REG_DATA val
       (SET_HW_REGISTER TEST_REG_ADDR 3 h)))) (fuse_wait flag)"

definition clock_width :: "nat \<Rightarrow> hw \<Rightarrow> hw option" where
  "clock_width i h = wait_zero FAMOS_CTRL (SET_HW_REGISTER FAMOS_CTRL 1 (SET_HW_REGISTER FAMOS_BLK_DATA0 0x40
     (SET_HW_REGISTER FAMOS_BLK_ADDR (0x00800006 + word_of_nat i * 0x1000000) h)))"

text \<open>The result: the status, and the kind of the device, its number of blocks and of rows of a block when they were found.\<close>

definition reset_device :: "u8 \<Rightarrow> hw \<Rightarrow> (nlm_status \<times> (u8 \<times> u8 \<times> u32) option \<times> hw) option" where
  "reset_device ring h =
     (let h1 = SET_HW_REGISTER SYS_RESET 0xffffffff (SET_HW_REGISTER SYS_RESET 0 (SET_HW_REGISTER SYS_CONTROL 0 h));
          (rd, h2) = HW_REGISTER (FDF_FIFO_RD_PTR ring) h1 in
      if rd \<noteq> 0 then Some (NLM_DEVICE_FAILURE, None, h2)
      else let (wr, h3) = HW_REGISTER (RDF_WRT_PTR ring) h2 in
      if wr \<noteq> 0 then Some (NLM_DEVICE_FAILURE, None, h3)
      else let (sys_date, h4) = HW_REGISTER SYS_DATE_REG h3 in
      if sys_date = 0x00002058 \<or> sys_date = 0x000051c8 then None
      else if sys_date = 0x20090301 then
        Option.bind (fuse_load 1 4 h4) (\<lambda>h5. Option.bind (fuse_load 2 8 h5) (\<lambda>h6.
          map_option (\<lambda>h7. (NLM_OK, Some (4, 12, 16 * 1024), h7)) (foldM clock_width [0..<12] h6)))
      else
        let (cap, h5) = HW_REGISTER FPGA_CAPABILITIES1 h4;
            num_rows = drop_bit 16 cap; num_blocks = ucast (drop_bit 8 cap)
        in Some (if num_blocks = 0 \<or> num_rows = 0 \<or> sys_date = 0 then NLM_DEVICE_FAILURE else NLM_OK,
                 Some (6, num_blocks, num_rows), h5))"

section \<open>Initialising the group map\<close>

definition init_gid_entry :: "nat \<times> nat \<Rightarrow> hw \<Rightarrow> hw option" where
  "init_gid_entry = (\<lambda>(db_id, group_id) h.
     wait_clear GID_BMAP_CTRL 1 (SET_HW_REGISTER GID_BMAP_CTRL (push_bit 26 (word_of_nat db_id) OR push_bit 16 (word_of_nat group_id) OR 1)
       (SET_HW_REGISTER GID_BMAP_DATA1 0 (SET_HW_REGISTER GID_BMAP_DATA0 0 h))))"

definition init_hw_memory :: "hw \<Rightarrow> (nlm_status \<times> hw) option" where
  "init_hw_memory h =
     map_option (\<lambda>h1. (NLM_OK, h1)) (foldM init_gid_entry (List.product [0..<4] [0..<1024]) h)"

section \<open>Shutdown\<close>

fun wait_idle :: "nat \<Rightarrow> hw \<Rightarrow> hw" where
  "wait_idle 0 h = snd (HW_REGISTER SYS_STATUS h)"
| "wait_idle (Suc n) h = (let (v, h1) = HW_REGISTER SYS_STATUS h in if v \<noteq> 0x700 then wait_idle n h1 else h1)"

definition stop_block :: "nat \<Rightarrow> hw \<Rightarrow> hw" where
  "stop_block i h = SET_HW_REGISTER BLOCK_CTRL 1 (SET_HW_REGISTER BLOCK_CTRL_MAP (push_bit i 1) h)"

definition nlm_device_fini :: "addr \<Rightarrow> u8 \<Rightarrow> hw \<Rightarrow> (nlm_status \<times> hw) option" where
  "nlm_device_fini pool ring h =
     assert_then (pool \<noteq> NULL)
       (map_option (\<lambda>(status, h1).
          (status, SET_HW_REGISTER SYS_RESET 0xffffffff (SET_HW_REGISTER SYS_RESET 0 (wait_idle (2 ^ 12)
             (fold stop_block [0..<12] (SET_HW_REGISTER DDR_DMA_ENABLE 0 (SET_HW_REGISTER SYS_CONTROL 0 h1)))))))
         (check_context_ring ring h))"

section \<open>Popping ends\<close>

definition writes_to :: "u32 \<Rightarrow> access list \<Rightarrow> nat" where
  "writes_to reg tr = length (filter (\<lambda>a. case a of Wr r v \<Rightarrow> r = reg | Rd r v \<Rightarrow> False) tr)"

lemma writes_to_simps [simp]:
  "writes_to reg (tr @ [Rd r v]) = writes_to reg tr"
  "writes_to reg (tr @ [Wr r v]) = (if r = reg then Suc (writes_to reg tr) else writes_to reg tr)"
  by (simp_all add: writes_to_def)

lemma writes_SET [simp]:
  "writes_to reg (trace (SET_HW_REGISTER r v h)) = (if r = reg then Suc (writes_to reg (trace h)) else writes_to reg (trace h))"
  by (simp add: SET_HW_REGISTER_def)

lemma writes_HW [simp]: "writes_to reg (trace (snd (HW_REGISTER r h))) = writes_to reg (trace h)"
  by (simp add: HW_REGISTER_def Let_def)

text \<open>The value a poll ends with was read when as many writes had been made as before.\<close>

definition polled :: "u32 \<Rightarrow> hw \<Rightarrow> u32 \<Rightarrow> hw \<Rightarrow> bool" where
  "polled reg h v h' \<longleftrightarrow> answer h' = answer h \<and> v AND 1 = 0 \<and>
     (\<exists>tr. v = answer h tr reg \<and> (\<forall>r. writes_to r tr = writes_to r (trace h))) \<and>
     (\<forall>r. writes_to r (trace h') = writes_to r (trace h))"

lemma poll_value_polled:
  "ans = answer h \<Longrightarrow> ans (polls ans reg (trace h) k) reg AND 1 = 0 \<Longrightarrow> \<exists>v h'. poll_value reg h = Some (v, h') \<and> polled reg h v h'"
proof (induction k arbitrary: h)
  case 0
  then show ?case by (subst poll_value.simps) (auto simp: HW_REGISTER_def Let_def polled_def)
next
  case (Suc k)
  let ?v = "ans (trace h) reg" and ?h = "h\<lparr>trace := trace h @ [Rd reg (ans (trace h) reg)]\<rparr>"
  show ?case
  proof (cases "?v AND 1 = 0")
    case True
    then show ?thesis using Suc.prems(1) by (subst poll_value.simps) (auto simp: HW_REGISTER_def Let_def polled_def)
  next
    case False
    have "\<exists>v h'. poll_value reg ?h = Some (v, h') \<and> polled reg ?h v h'" using Suc.prems by (intro Suc.IH) simp_all
    moreover have "poll_value reg h = poll_value reg ?h"
      using False Suc.prems(1) by (subst poll_value.simps) (simp add: HW_REGISTER_def Let_def)
    moreover have "polled reg ?h v h' \<Longrightarrow> polled reg h v h'" for v h' by (simp add: polled_def)
    ultimately show ?thesis by auto
  qed
qed

lemma pop_request_returns:
  assumes "settles (answer h) reg"
  obtains v h' tr where "pop_request reg h = Some (v, h')" "answer h' = answer h" "v AND 1 = 0" "v = answer h tr reg"
    "writes_to reg tr = Suc (writes_to reg (trace h))"
    "\<And>r. writes_to r (trace h') = (if r = reg then Suc (writes_to r (trace h)) else writes_to r (trace h))"
proof -
  let ?h = "SET_HW_REGISTER reg 1 h"
  obtain k where "answer h (polls (answer h) reg (trace ?h) k) reg AND 1 = 0" using assms unfolding settles_def by blast
  then have "answer ?h (polls (answer ?h) reg (trace ?h) k) reg AND 1 = 0" by simp
  then obtain v h' where "poll_value reg ?h = Some (v, h')" "polled reg ?h v h'" using poll_value_polled by blast
  then show ?thesis using that by (auto simp: polled_def pop_request_def)
qed

lemma pop_request_ex:
  assumes "settles (answer h) reg"
  shows "\<exists>v h' tr. pop_request reg h = Some (v, h') \<and> answer h' = answer h \<and> v AND 1 = 0 \<and> v = answer h tr reg \<and>
    writes_to reg tr = Suc (writes_to reg (trace h)) \<and> writes_to reg (trace h') = Suc (writes_to reg (trace h))"
  using pop_request_returns [OF assms] by (metis (no_types, lifting))

section \<open>The buffers of a XAUI ring are all there\<close>

text \<open>A device that answers the k-th request with the buffer \<open>bufs k\<close>.\<close>

definition pops_buffers :: "(access list \<Rightarrow> u32 \<Rightarrow> u32) \<Rightarrow> u32 \<Rightarrow> (nat \<Rightarrow> u32) \<Rightarrow> bool" where
  "pops_buffers ans reg bufs \<longleftrightarrow> settles ans reg \<and>
     (\<forall>tr. ans tr reg AND 1 = 0 \<longrightarrow> drop_bit 16 (ans tr reg) AND 0x3FF = bufs (writes_to reg tr))"

text \<open>The scan for a repeated or zero address, without the device.\<close>

fun scan_addrs :: "u32 list \<Rightarrow> u32 list \<Rightarrow> bool" where
  "scan_addrs seen [] = True"
| "scan_addrs seen (x # xs) = (x \<noteq> 0 \<and> x \<notin> set seen \<and> scan_addrs (seen @ [x]) xs)"

lemma scan_addrs_iff: "scan_addrs seen xs \<longleftrightarrow> distinct xs \<and> 0 \<notin> set xs \<and> set seen \<inter> set xs = {}"
  by (induction xs arbitrary: seen) auto

lemma pop_xaui_buffers_scan:
  assumes "pops_buffers (answer h) reg bufs"
  shows "\<exists>h'. pop_xaui_buffers reg n seen h =
    Some (if scan_addrs seen (map bufs [Suc (writes_to reg (trace h))..<Suc (writes_to reg (trace h)) + n])
          then NLM_OK else NLM_DEVICE_XAUI_BUFFER_INCONSISTENT, h')"
  using assms
proof (induction n arbitrary: seen h)
  case 0
  then show ?case by simp
next
  case (Suc n)
  let ?k = "Suc (writes_to reg (trace h))"
  have "settles (answer h) reg" using Suc.prems by (simp add: pops_buffers_def)
  then obtain v h' tr where v: "pop_request reg h = Some (v, h')" "answer h' = answer h" "v AND 1 = 0" "v = answer h tr reg"
    "writes_to reg tr = ?k" "writes_to reg (trace h') = ?k"
    using pop_request_ex by blast
  have b: "drop_bit 16 v AND 0x3FF = bufs ?k" using Suc.prems v by (simp add: pops_buffers_def)
  have up: "[?k..<?k + Suc n] = ?k # [Suc ?k..<Suc ?k + n]" by (simp add: upt_rec)
  have step: "pop_xaui_buffers reg (Suc n) seen h =
    (if bufs ?k = 0 \<or> bufs ?k \<in> set seen then Some (NLM_DEVICE_XAUI_BUFFER_INCONSISTENT, h')
     else pop_xaui_buffers reg n (seen @ [bufs ?k]) h')"
    unfolding pop_xaui_buffers.simps v(1) by (simp add: b [unfolded One_nat_def] Let_def)
  have ih: "\<exists>h''. pop_xaui_buffers reg n (seen @ [bufs ?k]) h' =
      Some (if scan_addrs (seen @ [bufs ?k]) (map bufs [Suc ?k..<Suc ?k + n]) then NLM_OK else NLM_DEVICE_XAUI_BUFFER_INCONSISTENT, h'')"
    using Suc.IH [of h' "seen @ [bufs ?k]"] Suc.prems v(2,6) by simp
  show ?case unfolding step up list.map scan_addrs.simps using ih by (auto simp del: upt_Suc)
qed

lemma check_xaui_others:
  assumes "ring \<noteq> 4" and "ring \<noteq> 5" shows "check_xaui_buffers ring h = Some (NLM_OK, h)"
proof -
  have "take_bit 32 (uint ring) = uint ring"
    using uint_lt2p [of ring] by (intro take_bit_int_eq_self) simp_all
  then have "(ucast ring :: u32) \<noteq> 4" "(ucast ring :: u32) \<noteq> 5"
    using assms by (auto simp: word_uint_eq_iff unsigned_ucast_eq)
  then show ?thesis by (simp add: check_xaui_buffers_def NLM_XAUI_RING_0_def NLM_XAUI_RING_1_def)
qed

text \<open>The registers of the two XAUI rings, and the verdict on the 511 buffers that come next.\<close>

definition xaui_test :: "u8 \<Rightarrow> u32" where "xaui_test ring = (if ring = 4 then X0_TEST else X1_TEST)"
definition xaui_level :: "u8 \<Rightarrow> u32" where "xaui_level ring = (if ring = 4 then X0_FREE_LEVEL else X1_FREE_LEVEL)"

definition xaui_complete :: "u32 \<Rightarrow> (nat \<Rightarrow> u32) \<Rightarrow> bool" where
  "xaui_complete level bufs \<longleftrightarrow> level = 511 \<and> distinct (map bufs [1..<512]) \<and> 0 \<notin> bufs ` {1..511}"

lemma check_xaui_verdict:
  assumes ring: "ring \<in> {4, 5}" and dev: "pops_buffers (answer h) (xaui_test ring) bufs" and none: "writes_to (xaui_test ring) (trace h) = 0"
  shows "\<exists>h'. check_xaui_buffers ring h =
    Some (if xaui_complete (answer h (trace h) (xaui_level ring)) bufs then NLM_OK else NLM_DEVICE_XAUI_BUFFER_INCONSISTENT, h')"
proof -
  let ?h = "snd (HW_REGISTER (xaui_level ring) h)"
  have "pops_buffers (answer ?h) (xaui_test ring) bufs" using dev by simp
  then obtain h' where "pop_xaui_buffers (xaui_test ring) 511 [] ?h = Some (if scan_addrs [] (map bufs [Suc 0..<Suc 0 + 511])
      then NLM_OK else NLM_DEVICE_XAUI_BUFFER_INCONSISTENT, h')"
    using pop_xaui_buffers_scan [of ?h "xaui_test ring" bufs 511 "[]"] none by auto
  moreover have "[Suc 0..<Suc 0 + 511] = [1..<512]" "set [1..<512] = {1..511}" by auto
  ultimately have "pop_xaui_buffers (xaui_test ring) 511 [] ?h = Some (if distinct (map bufs [1..<512]) \<and> 0 \<notin> bufs ` {1..511}
      then NLM_OK else NLM_DEVICE_XAUI_BUFFER_INCONSISTENT, h')"
    by (simp only: scan_addrs_iff set_map) simp
  moreover have "check_xaui_buffers ring h = check_xaui_ring (xaui_level ring) (xaui_test ring) h"
    using ring by (auto simp: check_xaui_buffers_def xaui_level_def xaui_test_def NLM_XAUI_RING_0_def NLM_XAUI_RING_1_def)
  ultimately show ?thesis by (auto simp: check_xaui_ring_def xaui_complete_def HW_REGISTER_def Let_def)
qed

text \<open>On a XAUI ring of a device that gives back its buffers one after the other, the check returns and accepts the
  ring exactly when the device reports 511 free buffers and the next 511 it gives back are distinct and none is zero;
  every other ring is accepted untouched.\<close>

theorem check_xaui_buffers_correct:
  assumes dev: "pops_buffers (answer h) X0_TEST bufs" and none: "writes_to X0_TEST (trace h) = 0"
  shows "(\<exists>h'. check_xaui_buffers 4 h =
      Some (if answer h (trace h) X0_FREE_LEVEL = 511 \<and> distinct (map bufs [1..<512]) \<and> 0 \<notin> bufs ` {1..511}
            then NLM_OK else NLM_DEVICE_XAUI_BUFFER_INCONSISTENT, h')) \<and>
    (ring \<noteq> 4 \<and> ring \<noteq> 5 \<longrightarrow> check_xaui_buffers ring h = Some (NLM_OK, h))"
  using check_xaui_verdict [of 4 h bufs] dev none check_xaui_others [of ring h]
  by (simp add: xaui_test_def xaui_level_def xaui_complete_def)

text \<open>A device that gives back the buffers \<open>bufs\<close>.\<close>

definition xaui_device :: "(nat \<Rightarrow> 10 word) \<Rightarrow> access list \<Rightarrow> u32 \<Rightarrow> u32" where
  "xaui_device bufs tr reg =
     (if reg = X0_FREE_LEVEL then 511 else if reg = X0_TEST then push_bit 16 (ucast (bufs (writes_to X0_TEST tr))) else 0)"

lemma xaui_device_pops: "pops_buffers (xaui_device bufs) X0_TEST (\<lambda>k. ucast (bufs k))"
proof -
  have low: "push_bit 16 w AND 1 = 0" for w :: u32 by (rule bit_eqI) (auto simp: bit_simps)
  have "drop_bit 16 (push_bit 16 (ucast b)) AND mask 10 = (ucast b :: u32)" for b :: "10 word"
    by (rule bit_eqI) (auto simp: bit_simps dest: bit_imp_le_length)
  then have m: "drop_bit 16 (push_bit 16 (ucast b)) AND 0x3FF = (ucast b :: u32)" for b :: "10 word"
    by (simp add: mask_eq_exp_minus_1)
  have "settles (xaui_device bufs) X0_TEST"
    unfolding settles_def by (auto simp: xaui_device_def X0_TEST_def X0_FREE_LEVEL_def low intro!: exI [of _ 0])
  then show ?thesis by (simp add: pops_buffers_def xaui_device_def X0_TEST_def X0_FREE_LEVEL_def m)
qed

lemma check_xaui_buffers_correct_witness:
  "(\<exists>h'. check_xaui_buffers 4 \<lparr>trace = [], answer = xaui_device word_of_nat\<rparr> = Some (NLM_OK, h')) \<and>
   check_xaui_buffers 1 \<lparr>trace = [], answer = xaui_device word_of_nat\<rparr> = Some (NLM_OK, \<lparr>trace = [], answer = xaui_device word_of_nat\<rparr>)"
proof -
  let ?h = "\<lparr>trace = [], answer = xaui_device word_of_nat\<rparr>"
  have up: "unat (ucast b :: u32) = unat b" for b :: "10 word"
  proof -
    have "unat b < 2 ^ 10" using unsigned_less [of b, where ?'a = nat] by simp
    then show ?thesis by (simp add: unsigned_ucast_eq take_bit_nat_eq_self)
  qed
  have i: "unat (ucast (word_of_nat k :: 10 word) :: u32) = k" if "k < 512" for k
    using that unfolding up by (simp add: unsigned_of_nat take_bit_nat_eq_self)
  have "inj_on (\<lambda>k. ucast (word_of_nat k :: 10 word) :: u32) {1..<512}"
    using i by (intro inj_onI) (metis atLeastLessThan_iff)
  then have d: "distinct (map (\<lambda>k. ucast (word_of_nat k :: 10 word) :: u32) [1..<512])" by (simp only: distinct_map set_upt) simp
  have "(ucast (word_of_nat k :: 10 word) :: u32) \<noteq> 0" if "k \<in> {1..511}" for k
    using that i [of k] by (auto simp del: unsigned_ucast_eq)
  then have z: "(0 :: u32) \<notin> (\<lambda>k. ucast (word_of_nat k :: 10 word)) ` {1..511}" by force
  have w: "pops_buffers (answer ?h) X0_TEST (\<lambda>k. ucast (word_of_nat k :: 10 word))" using xaui_device_pops by simp
  have "writes_to X0_TEST (trace ?h) = 0" by (simp add: writes_to_def)
  from check_xaui_buffers_correct [OF w this, of 1] show ?thesis using d z by (simp add: xaui_device_def)
qed

section \<open>The verdict on the context ring\<close>

text \<open>A device that reports \<open>cnt\<close> context buffers and answers request \<open>k\<close> with \<open>bufs k\<close>: the word in the data register, or
  no buffer.\<close>

definition pops_contexts :: "(access list \<Rightarrow> u32 \<Rightarrow> u32) \<Rightarrow> u8 \<Rightarrow> u32 \<Rightarrow> (nat \<Rightarrow> u32 option) \<Rightarrow> bool" where
  "pops_contexts ans ring cnt bufs \<longleftrightarrow> settles ans (CNXT_POP_CTRL ring) \<and>
     (\<forall>tr. ans tr (CNXT_SIZE ring) = cnt \<and>
       (case bufs (writes_to (CNXT_POP_CTRL ring) tr) of
          None \<Rightarrow> ans tr (CNXT_POP_CTRL ring) AND 4 = 0
        | Some w \<Rightarrow> ans tr (CNXT_POP_CTRL ring) AND 4 = 4 \<and> ans tr (CNXT_POP_DATA ring) = w))"

lemma pops_contextsD:
  assumes dev: "pops_contexts ans ring cnt bufs"
  shows "bufs (writes_to (CNXT_POP_CTRL ring) tr) = Some w \<Longrightarrow> ans tr (CNXT_POP_CTRL ring) AND 4 = 4 \<and> ans tr (CNXT_POP_DATA ring) = w"
    and "bufs (writes_to (CNXT_POP_CTRL ring) tr) = None \<Longrightarrow> ans tr (CNXT_POP_CTRL ring) AND 4 = 0"
    and "ans tr (CNXT_SIZE ring) = cnt"
  using spec [OF conjunct2 [OF dev [unfolded pops_contexts_def]], of tr] by simp_all

text \<open>A usable answer: the offset of a buffer is a multiple of 256.\<close>

definition aligned_buffer :: "u32 option \<Rightarrow> bool" where
  "aligned_buffer a = (case a of None \<Rightarrow> False | Some w \<Rightarrow> w AND 0xff = 0)"

definition buffer_index :: "u32 option \<Rightarrow> u32" where "buffer_index a = drop_bit 8 (the a)"

lemma pop_context_step:
  assumes dev: "pops_contexts (answer h) ring cnt bufs" and a: "bufs (Suc (writes_to (CNXT_POP_CTRL ring) (trace h))) = a"
  shows "\<exists>h'. pop_context ring i (st, sm, c, r, h) =
      Some (if aligned_buffer a then (st, sm + ucast (buffer_index a), c XOR buffer_index a, r XOR word_of_nat i, h')
            else (NLM_DEVICE_CONTEXT_FAIL, sm, c, r, h')) \<and> answer h' = answer h \<and>
    (\<forall>reg. writes_to reg (trace h') = (if reg = CNXT_POP_CTRL ring then Suc (writes_to reg (trace h)) else writes_to reg (trace h)))"
proof -
  let ?r = "CNXT_POP_CTRL ring"
  have "settles (answer h) ?r" using dev by (simp add: pops_contexts_def)
  then obtain v h1 tr where v: "pop_request ?r h = Some (v, h1)" "answer h1 = answer h" "v AND 1 = 0" "v = answer h tr ?r"
    "writes_to ?r tr = Suc (writes_to ?r (trace h))"
    "\<And>reg. writes_to reg (trace h1) = (if reg = ?r then Suc (writes_to reg (trace h)) else writes_to reg (trace h))"
    by (rule pop_request_returns) (rule that)
  let ?h2 = "snd (HW_REGISTER (CNXT_POP_DATA ring) h1)"
  show ?thesis
  proof (cases a)
    case None
    have "v AND 4 = 0" using pops_contextsD(2) [OF dev, of tr] a None v(4,5) by simp
    then have "pop_context ring i (st, sm, c, r, h) = Some (NLM_DEVICE_CONTEXT_FAIL, sm, c, r, h1)"
      by (simp add: pop_context_def v(1) split_beta Let_def)
    then show ?thesis using v(2,6) None by (simp add: aligned_buffer_def)
  next
    case (Some w)
    have k: "v AND 4 = 4" using pops_contextsD(1) [OF dev, of tr w] a Some v(4,5) by simp
    have "answer h (trace h1) (CNXT_POP_DATA ring) = w"
      using pops_contextsD(1) [OF dev, of "trace h1" w] a Some v(6) [of ?r] by simp
    then have d: "fst (HW_REGISTER (CNXT_POP_DATA ring) h1) = w" using v(2) by (simp add: HW_REGISTER_def Let_def)
    have "pop_context ring i (st, sm, c, r, h) =
      Some (if w AND 0xff = 0 then (st, sm + ucast (drop_bit 8 w), c XOR drop_bit 8 w, r XOR word_of_nat i, ?h2)
            else (NLM_DEVICE_CONTEXT_FAIL, sm, c, r, ?h2))"
      using k d by (simp add: pop_context_def v(1) split_beta Let_def)
    then show ?thesis using v(2,6) Some by (intro exI [of _ ?h2]) (simp add: aligned_buffer_def buffer_index_def)
  qed
qed

definition xor_list :: "u32 list \<Rightarrow> u32" where "xor_list xs = foldr (XOR) xs 0"

lemma xor_list_simps [simp]: "xor_list [] = 0" "xor_list (x # xs) = x XOR xor_list xs"
  by (simp_all add: xor_list_def)

lemma xor_list_append [simp]: "xor_list (xs @ ys) = xor_list xs XOR xor_list ys"
  by (induction xs) (simp_all add: ac_simps)

text \<open>After \<open>n\<close> pops: the status and, when every answer was usable, the three sums.\<close>

definition popped :: "(nat \<Rightarrow> u32 option) \<Rightarrow> nat \<Rightarrow> nlm_status \<times> u64 \<times> u32 \<times> u32 \<times> hw \<Rightarrow> bool" where
  "popped a n = (\<lambda>(st, sm, c, r, h).
     if \<forall>k<n. aligned_buffer (a k)
     then st = NLM_OK \<and> sm = sum_list (map (\<lambda>k. ucast (buffer_index (a k))) [0..<n]) \<and>
       c = xor_list (map (\<lambda>k. buffer_index (a k)) [0..<n]) \<and> r = xor_list (map word_of_nat [0..<n])
     else st = NLM_DEVICE_CONTEXT_FAIL)"

lemma pop_contexts_loop:
  assumes "pops_contexts (answer h) ring cnt bufs" and "w = writes_to (CNXT_POP_CTRL ring) (trace h)"
  shows "\<exists>st sm c r h'. foldM (pop_context ring) [0..<n] (NLM_OK, 0, 0, 0, h) = Some (st, sm, c, r, h') \<and>
    popped (\<lambda>k. bufs (Suc (w + k))) n (st, sm, c, r, h') \<and> answer h' = answer h \<and>
    (\<forall>reg. writes_to reg (trace h') = (if reg = CNXT_POP_CTRL ring then writes_to reg (trace h) + n else writes_to reg (trace h)))"
proof (induction n)
  case (Suc n)
  then obtain st sm c r h' where h': "foldM (pop_context ring) [0..<n] (NLM_OK, 0, 0, 0, h) = Some (st, sm, c, r, h')"
    "popped (\<lambda>k. bufs (Suc (w + k))) n (st, sm, c, r, h')" "answer h' = answer h"
    "\<forall>reg. writes_to reg (trace h') = (if reg = CNXT_POP_CTRL ring then writes_to reg (trace h) + n else writes_to reg (trace h))"
    by blast
  have dev: "pops_contexts (answer h') ring cnt bufs" using assms(1) h'(3) by simp
  have "bufs (Suc (writes_to (CNXT_POP_CTRL ring) (trace h'))) = bufs (Suc (w + n))" using h'(4) assms(2) by simp
  from pop_context_step [OF dev this, of n st sm c r]
  show ?case using h' by (fastforce simp: foldM_append popped_def less_Suc_eq)
qed (simp_all add: popped_def)

text \<open>The verdict: every pop but the last gives an aligned buffer, the last gives none, and the two sums are right.\<close>

lemma check_context_ring_sums:
  assumes dev: "pops_contexts (answer h) ring cnt bufs" and cnt: "cnt \<noteq> 0" "n = unat (cnt - 1)"
    and start: "writes_to (CNXT_POP_CTRL ring) (trace h) = w"
  shows "\<exists>h'. check_context_ring ring h =
    Some (if (\<forall>k<n. aligned_buffer (bufs (Suc (w + k)))) \<and> bufs (Suc (w + n)) = None \<and>
             sum_list (map (\<lambda>k. ucast (buffer_index (bufs (Suc (w + k))))) [0..<n]) = (ucast cnt - 1) * ucast (cnt - 2) div (2 :: u64) \<and>
             xor_list (map (\<lambda>k. buffer_index (bufs (Suc (w + k)))) [0..<n]) = xor_list (map word_of_nat [0..<n])
          then NLM_OK else NLM_DEVICE_CONTEXT_FAIL, h') \<and> answer h' = answer h \<and>
    (\<forall>reg. reg \<noteq> CNXT_POP_CTRL ring \<longrightarrow> writes_to reg (trace h') = writes_to reg (trace h))"
proof -
  let ?r = "CNXT_POP_CTRL ring" and ?a = "\<lambda>k. bufs (Suc (w + k))"
  obtain h1 where c: "HW_REGISTER (CNXT_SIZE ring) h = (cnt, h1)" "answer h1 = answer h"
    "\<forall>reg. writes_to reg (trace h1) = writes_to reg (trace h)"
    using pops_contextsD(3) [OF dev] by (simp add: HW_REGISTER_def Let_def)
  have dev1: "pops_contexts (answer h1) ring cnt bufs" and w: "w = writes_to ?r (trace h1)" using dev c(2,3) start by simp_all
  obtain st sm x y h2 where h2: "foldM (pop_context ring) [0..<n] (NLM_OK, 0, 0, 0, h1) = Some (st, sm, x, y, h2)"
    "popped ?a n (st, sm, x, y, h2)" "answer h2 = answer h1"
    "\<forall>reg. writes_to reg (trace h2) = (if reg = ?r then writes_to reg (trace h1) + n else writes_to reg (trace h1))"
    using pop_contexts_loop [OF dev1 w, of n] by auto
  have "settles (answer h2) ?r" using dev h2(3) c(2) by (simp add: pops_contexts_def)
  then obtain v h3 tr where v: "pop_request ?r h2 = Some (v, h3)" "answer h3 = answer h2" "v AND 1 = 0" "v = answer h2 tr ?r"
    "writes_to ?r tr = Suc (writes_to ?r (trace h2))"
    "\<And>reg. writes_to reg (trace h3) = (if reg = ?r then Suc (writes_to reg (trace h2)) else writes_to reg (trace h2))"
    by (rule pop_request_returns) (rule that)
  have wn: "writes_to ?r tr = Suc (w + n)" using v(5) h2(4) w by simp
  have l: "v AND 4 = 4 \<longleftrightarrow> bufs (Suc (w + n)) \<noteq> None"
    using pops_contextsD(1,2) [OF dev, of tr] v(4) h2(3) c(2) wn by (cases "bufs (Suc (w + n))") auto
  have "check_context_ring ring h =
    Some (if sm \<noteq> (ucast cnt - 1) * ucast (cnt - 2) div 2 \<or> x \<noteq> y then NLM_DEVICE_CONTEXT_FAIL
          else if v AND 4 = 4 then NLM_DEVICE_CONTEXT_FAIL else st, h3)"
    using cnt h2(1) v(1) by (simp add: check_context_ring_def c(1) assert_then_def Let_def)
  moreover have "(if sm \<noteq> (ucast cnt - 1) * ucast (cnt - 2) div 2 \<or> x \<noteq> y then NLM_DEVICE_CONTEXT_FAIL
        else if v AND 4 = 4 then NLM_DEVICE_CONTEXT_FAIL else st) =
      (if (\<forall>k<n. aligned_buffer (?a k)) \<and> bufs (Suc (w + n)) = None \<and>
          sum_list (map (\<lambda>k. ucast (buffer_index (?a k))) [0..<n]) = (ucast cnt - 1) * ucast (cnt - 2) div (2 :: u64) \<and>
          xor_list (map (\<lambda>k. buffer_index (?a k)) [0..<n]) = xor_list (map word_of_nat [0..<n])
       then NLM_OK else NLM_DEVICE_CONTEXT_FAIL)"
    using h2(2) l by (auto simp: popped_def simp del: upt_Suc split: if_splits)
  moreover have "answer h3 = answer h" "\<forall>reg. reg \<noteq> ?r \<longrightarrow> writes_to reg (trace h3) = writes_to reg (trace h)"
    using v(2,6) h2(3,4) c(2,3) by simp_all
  ultimately show ?thesis by (intro exI [of _ h3]) simp
qed

lemma xor_list_mset: "mset xs = mset ys \<Longrightarrow> xor_list xs = xor_list ys"
proof (induction xs arbitrary: ys)
  case (Cons x xs)
  then have "x \<in> set ys" by (metis list.set_intros(1) mset_eq_setD)
  then obtain us vs where ys: "ys = us @ x # vs" by (metis split_list)
  then have "mset xs = mset (us @ vs)" using Cons.prems by simp
  then show ?case using Cons.IH [of "us @ vs"] ys by (simp add: ac_simps)
qed simp

lemma sum_list_words:
  "\<forall>k \<in> set ks. f k < 2 ^ 32 \<Longrightarrow> sum_list (map (\<lambda>k. ucast (word_of_nat (f k) :: u32)) ks) = (word_of_nat (sum_list (map f ks)) :: u64)"
proof (induction ks)
  case (Cons k ks)
  have "(ucast (word_of_nat (f k) :: u32) :: u64) = word_of_nat (f k)"
    using Cons.prems by (simp add: word_unat_eq_iff unsigned_ucast_eq unsigned_of_nat take_bit_nat_eq_self)
  with Cons show ?case by simp
qed simp

lemma sum_below: "sum_list [0..<n] = n * (n - 1) div 2"
proof -
  have "2 * sum_list [0..<n] = n * (n - 1)"
  proof (induction n)
    case (Suc n)
    then show ?case by (cases n) simp_all
  qed simp
  then show ?thesis by simp
qed

text \<open>The sum the code compares with, as a number.\<close>

lemma reference_sum:
  fixes cnt :: u32
  assumes "cnt \<noteq> 0" and "n = unat (cnt - 1)" and "n < 2 ^ 24"
  shows "(ucast cnt - 1) * ucast (cnt - 2) div (2 :: u64) = word_of_nat (n * (n - 1) div 2)"
proof (cases n)
  case 0
  then have "cnt = 1" using assms(2) by (simp add: unat_eq_0)
  then show ?thesis using 0 by simp
next
  case (Suc m)
  have "cnt - 1 = word_of_nat n" using assms(2) by simp
  then have cnt: "cnt = word_of_nat (Suc n)" by (simp add: diff_eq_eq)
  then have "cnt - 2 = word_of_nat m" using Suc by simp
  then have a: "(ucast (cnt - 2) :: u64) = word_of_nat m" and b: "(ucast cnt :: u64) = word_of_nat (Suc n)"
    using assms(3) Suc unfolding cnt
    by (simp_all only: word_unat_eq_iff unsigned_ucast_eq unsigned_of_nat take_bit_nat_eq_self_iff)
      (simp_all add: take_bit_nat_eq_self)
  have "n * m < 2 ^ 24 * 2 ^ 24" using assms(3) Suc by (intro mult_strict_mono) simp_all
  then have u: "unat (word_of_nat (n * m) :: u64) = n * m" by (simp add: unsigned_of_nat take_bit_nat_eq_self del: of_nat_mult)
  have "(ucast cnt - 1) * ucast (cnt - 2) = (word_of_nat (n * m) :: u64)" unfolding a b by simp
  then show ?thesis using Suc u \<open>n * m < _\<close>
    by (simp add: word_unat_eq_iff unat_div unsigned_of_nat take_bit_nat_eq_self)
qed

text \<open>The answers of a ring that gives back its \<open>n\<close> buffers, each once, in the order \<open>p\<close>, and then no more.\<close>

definition ring_answers :: "nat \<Rightarrow> (nat \<Rightarrow> nat) \<Rightarrow> nat \<Rightarrow> u32 option" where
  "ring_answers n p k = (if 0 < k \<and> k \<le> n then Some (push_bit 8 (word_of_nat (p (k - 1)))) else None)"

lemma aligned_push: "aligned_buffer (Some (push_bit 8 w))"
proof -
  have "push_bit 8 w AND mask 8 = 0" by (rule bit_eqI) (auto simp: bit_simps)
  then show ?thesis by (simp add: aligned_buffer_def mask_eq_exp_minus_1)
qed

lemma aligned_shift: "v AND 0xff = 0 \<Longrightarrow> push_bit 8 (drop_bit 8 v) = (v :: u32)"
proof -
  assume "v AND 0xff = 0"
  then have z: "v AND mask 8 = 0" by (simp add: mask_eq_exp_minus_1)
  have "\<not> bit v i" if "i < 8" for i
  proof
    assume "bit v i"
    then have "bit (v AND mask 8) i" using that by (simp add: bit_simps)
    then show False using z by simp
  qed
  then have "8 \<le> i" if "bit v i" for i using that not_le by blast
  then show ?thesis by (intro bit_eqI) (auto simp: bit_simps)
qed

lemma shift_index: "m < 2 ^ 24 \<Longrightarrow> buffer_index (Some (push_bit 8 (word_of_nat m))) = word_of_nat m"
  by (simp add: buffer_index_def word_unat_eq_iff unsigned_drop_bit_eq unsigned_push_bit_eq unsigned_of_nat take_bit_nat_eq_self
      push_bit_nat_def drop_bit_nat_def)

text \<open>One wrong offset among the buffers always shows in the sum.\<close>

lemma single_wrong_sum:
  fixes p :: "nat \<Rightarrow> nat" and cnt :: u32
  assumes n: "cnt \<noteq> 0" "n = unat (cnt - 1)" "n < 2 ^ 24" and p: "bij_betw p {..<n} {..<n}" and j: "j < n" "x < 2 ^ 24"
  shows "sum_list (map (\<lambda>k. ucast (word_of_nat ((p(j := x)) k) :: u32)) [0..<n]) = (ucast cnt - 1) * ucast (cnt - 2) div (2 :: u64) \<and>
     xor_list (map (\<lambda>k. word_of_nat ((p(j := x)) k)) [0..<n]) = xor_list (map word_of_nat [0..<n]) \<longleftrightarrow> x = p j"
proof -
  let ?q = "p(j := x)"
  have pn: "p k < n" if "k < n" for k using p that bij_betwE by blast
  have qn: "?q k < 2 ^ 24" if "k < n" for k using pn [OF that] n(3) j(2) by simp
  have "mset (map p [0..<n]) = mset [0..<n]"
    using p by (simp add: bij_betw_def lessThan_atLeast0 mset_map [symmetric] image_mset_mset_set flip: mset_set_upto_eq_mset_upto)
  then have P: "sum_list (map p [0..<n]) = n * (n - 1) div 2" and X: "mset (map p [0..<n]) = mset [0..<n]"
    using sum_below by (metis sum_mset_sum_list)+
  have s: "[0..<n] = [0..<j] @ j # [Suc j..<n]" using j(1) by (metis less_imp_le_nat upt_add_eq_append upt_conv_Cons le_add_diff_inverse zero_le)
  have "map ?q [0..<j] = map p [0..<j]" "map ?q [Suc j..<n] = map p [Suc j..<n]" by (auto intro!: map_cong)
  then have Q: "sum_list (map ?q [0..<n]) + p j = n * (n - 1) div 2 + x"
    unfolding P [symmetric] s by (simp add: ac_simps)
  have "sum_list (map ?q [0..<n]) \<le> n * 2 ^ 24"
    using sum_list_mono [of "[0..<n]" ?q "\<lambda>_. 2 ^ 24"] qn by (simp add: sum_list_triv less_imp_le del: fun_upd_apply)
  then have small: "sum_list (map ?q [0..<n]) < 2 ^ 64" using n(3) by simp
  have "n * (n - 1) \<le> 2 ^ 24 * 2 ^ 24" using n(3) by (intro mult_le_mono) simp_all
  then have small': "n * (n - 1) div 2 < 2 ^ 64" by simp
  have sums: "sum_list (map (\<lambda>k. ucast (word_of_nat (?q k) :: u32)) [0..<n]) = (ucast cnt - 1) * ucast (cnt - 2) div (2 :: u64) \<longleftrightarrow> x = p j"
  proof -
    have "\<forall>k \<in> set [0..<n]. ?q k < 2 ^ 32"
    proof
      fix k assume "k \<in> set [0..<n]"
      then have "?q k < 2 ^ 24" using qn by simp
      also have "\<dots> < 2 ^ 32" by simp
      finally show "?q k < 2 ^ 32" .
    qed
    then have "sum_list (map (\<lambda>k. ucast (word_of_nat (?q k) :: u32)) [0..<n]) = (word_of_nat (sum_list (map ?q [0..<n])) :: u64)"
      by (rule sum_list_words)
    moreover have "(ucast cnt - 1) * ucast (cnt - 2) div (2 :: u64) = word_of_nat (n * (n - 1) div 2)" using n by (rule reference_sum)
    moreover have "(word_of_nat (sum_list (map ?q [0..<n])) :: u64) = word_of_nat (n * (n - 1) div 2) \<longleftrightarrow>
        sum_list (map ?q [0..<n]) = n * (n - 1) div 2"
      using small small' by (simp add: word_unat_eq_iff unsigned_of_nat take_bit_nat_eq_self del: upt_Suc)
    moreover have "sum_list (map ?q [0..<n]) = n * (n - 1) div 2 \<longleftrightarrow> x = p j" using Q by linarith
    ultimately show ?thesis by (simp only:)
  qed
  have xors: "xor_list (map (\<lambda>k. word_of_nat (?q k)) [0..<n]) = xor_list (map word_of_nat [0..<n])" if "x = p j"
  proof -
    have "map (\<lambda>k. word_of_nat (?q k) :: u32) [0..<n] = map word_of_nat (map p [0..<n])" using that by auto
    then show ?thesis using X by (metis xor_list_mset mset_map)
  qed
  show ?thesis using sums xors by blast
qed

text \<open>A ring with at most one wrong answer: the answer to request \<open>j\<close> is \<open>a\<close>, all others are right.\<close>

lemma single_fault_verdict:
  fixes p :: "nat \<Rightarrow> nat" and cnt :: u32
  assumes n: "cnt \<noteq> 0" "n = unat (cnt - 1)" "n < 2 ^ 24" and p: "bij_betw p {..<n} {..<n}" and j: "0 < j" "j \<le> Suc n"
    and b: "b = (\<lambda>k. ((ring_answers n p)(j := a)) (Suc k))"
  shows "(\<forall>k<n. aligned_buffer (b k)) \<and> b n = None \<and>
     sum_list (map (\<lambda>k. ucast (buffer_index (b k))) [0..<n]) = (ucast cnt - 1) * ucast (cnt - 2) div (2 :: u64) \<and>
     xor_list (map (\<lambda>k. buffer_index (b k)) [0..<n]) = xor_list (map word_of_nat [0..<n]) \<longleftrightarrow> a = ring_answers n p j"
proof -
  have pn: "p k < 2 ^ 24" if "k < n" for k 
  proof -
    have "p k < n" using bij_betwE [OF p] that by blast
    then show ?thesis using n(3) by linarith
  qed
  have nth: "ring_answers n p (Suc k) = Some (push_bit 8 (word_of_nat (p k)))" if "k < n" for k
    using that by (simp add: ring_answers_def)
  have sums: "(\<forall>k<n. aligned_buffer (b k)) \<and> b n = None \<and>
     sum_list (map (\<lambda>k. ucast (buffer_index (b k))) [0..<n]) = (ucast cnt - 1) * ucast (cnt - 2) div (2 :: u64) \<and>
     xor_list (map (\<lambda>k. buffer_index (b k)) [0..<n]) = xor_list (map word_of_nat [0..<n]) \<longleftrightarrow> x = p i"
    if i: "i < n" and x: "x < 2 ^ 24" and bk: "\<forall>k<n. b k = Some (push_bit 8 (word_of_nat ((p(i := x)) k)))" "b n = None" for i x
  proof -
    have q: "buffer_index (b k) = word_of_nat ((p(i := x)) k)" if "k < n" for k
      using bk that pn [OF that] x by (simp add: shift_index)
    then have m: "map (\<lambda>k. buffer_index (b k)) [0..<n] = map (\<lambda>k. word_of_nat ((p(i := x)) k)) [0..<n]"
      "map (\<lambda>k. ucast (buffer_index (b k)) :: u64) [0..<n] = map (\<lambda>k. ucast (word_of_nat ((p(i := x)) k) :: u32)) [0..<n]"
      by (auto simp del: fun_upd_apply)
    have "\<forall>k<n. aligned_buffer (b k)" using bk(1) aligned_push by (simp del: fun_upd_apply)
    then show ?thesis unfolding m using bk(2) single_wrong_sum [OF n p i x] by blast
  qed
  show ?thesis
  proof (cases "j = Suc n")
    case True
    then have bn: "b n = a" "ring_answers n p j = None" by (simp_all add: b ring_answers_def)
    show ?thesis
    proof (cases "a = None \<and> 0 < n")
      case True
      then have i: "0 < n" by simp
      have "\<forall>k<n. b k = Some (push_bit 8 (word_of_nat ((p(0 := p 0)) k)))" using nth \<open>j = Suc n\<close> by (simp add: b)
      then show ?thesis using sums [OF i pn [OF i]] bn True by simp
    next
      case False
      then have "a \<noteq> None \<or> n = 0" by auto
      then show ?thesis
      proof
        assume "n = 0"
        moreover then have "(ucast cnt - 1) * ucast (cnt - 2) div (2 :: u64) = 0"
          using reference_sum [OF n] by simp
        ultimately show ?thesis using bn by simp
      qed (use bn in auto)
    qed
  next
    case False
    then obtain i where i: "j = Suc i" "i < n" using j by (cases j) auto
    have bi: "b i = a" by (simp add: b i(1))
    show ?thesis
    proof (cases "aligned_buffer a")
      case True
      then obtain v where v: "a = Some v" "v AND 0xff = 0" by (auto simp: aligned_buffer_def split: option.splits)
      let ?x = "unat (drop_bit 8 v)"
      have x: "?x < 2 ^ 24"
        using unsigned_less [of v, where ?'a = nat] by (simp add: unsigned_drop_bit_eq drop_bit_nat_def take_bit_nat_eq_self less_mult_imp_div_less)
      have a: "a = Some (push_bit 8 (word_of_nat ?x))" using v aligned_shift by simp
      have "\<forall>k<n. b k = Some (push_bit 8 (word_of_nat ((p(i := ?x)) k)))" "b n = None"
        using a nth i by (simp_all add: b, simp add: ring_answers_def)
      then have *: "?thesis \<longleftrightarrow> (?x = p i \<longleftrightarrow> a = ring_answers n p j)" 
        unfolding sums [OF i(2) x \<open>\<forall>k<n. b k = Some (push_bit 8 (word_of_nat ((p(i := ?x)) k)))\<close> \<open>b n = None\<close>] by simp
      have "a = ring_answers n p j \<Longrightarrow> word_of_nat ?x = (word_of_nat (p i) :: u32)"
        using shift_index [OF x] shift_index [OF pn [OF i(2)]] a nth [OF i(2)] i(1) by metis
      then have "a = ring_answers n p j \<Longrightarrow> ?x = p i"
        using pn [OF i(2)] by (simp add: word_unat_eq_iff unsigned_of_nat take_bit_nat_eq_self)
      then show ?thesis unfolding * using a nth [OF i(2)] i(1) by metis
    next
      case no: False
      then have "a \<noteq> ring_answers n p j" using aligned_push nth [OF i(2)] i(1) by metis
      then show ?thesis using no bi i(2) by auto
    qed
  qed
qed

text \<open>C31. The check of the context ring returns, and accepts a ring that gives back each of its buffers once, in any order, and
  then no more. It refuses the ring when any single one of the answers is another one: another buffer, an address that is not
  aligned, no buffer, or a buffer to the request after the last.\<close>

theorem check_context_ring_single_fault:
  assumes dev: "pops_contexts (answer h) ring cnt ((ring_answers n p)(j := a))"
    and start: "writes_to (CNXT_POP_CTRL ring) (trace h) = 0"
    and n: "cnt \<noteq> 0" "n = unat (cnt - 1)" "n < 2 ^ 24" and p: "bij_betw p {..<n} {..<n}" and j: "0 < j" "j \<le> Suc n"
  shows "\<exists>h'. check_context_ring ring h = Some (if a = ring_answers n p j then NLM_OK else NLM_DEVICE_CONTEXT_FAIL, h')"
  using check_context_ring_sums [OF dev n(1,2) start] unfolding add_0 single_fault_verdict [OF n p j refl] by blast

definition context_device :: "u8 \<Rightarrow> u32 \<Rightarrow> (nat \<Rightarrow> u32 option) \<Rightarrow> access list \<Rightarrow> u32 \<Rightarrow> u32" where
  "context_device ring cnt bufs tr reg =
     (case bufs (writes_to (CNXT_POP_CTRL ring) tr) of
        None \<Rightarrow> if reg = CNXT_SIZE ring then cnt else 0
      | Some w \<Rightarrow> if reg = CNXT_SIZE ring then cnt else if reg = CNXT_POP_CTRL ring then 4
          else if reg = CNXT_POP_DATA ring then w else 0)"

lemma context_device_pops: "pops_contexts (context_device ring cnt bufs) ring cnt bufs"
proof -
  have "settles (context_device ring cnt bufs) (CNXT_POP_CTRL ring)"
    unfolding settles_def by (auto simp: context_device_def CNXT_REG_def intro!: exI [of _ 0] split: option.split)
  then show ?thesis
    by (auto simp: pops_contexts_def context_device_def CNXT_REG_def split: option.split)
qed

text \<open>A ring that gives back its four buffers in reverse order, and the same ring when its third answer is the address
  0x110 in place of 0x100.\<close>

lemma check_context_ring_single_fault_witness:
  "(\<exists>h'. check_context_ring 0 \<lparr>trace = [], answer = context_device 0 5 (ring_answers 4 (\<lambda>i. 3 - i))\<rparr> = Some (NLM_OK, h')) \<and>
   (\<exists>h'. check_context_ring 0 \<lparr>trace = [], answer = context_device 0 5 ((ring_answers 4 (\<lambda>i. 3 - i))(3 := Some 0x110))\<rparr> =
     Some (NLM_DEVICE_CONTEXT_FAIL, h'))"
proof -
  let ?p = "\<lambda>i. 3 - i :: nat"
  let ?h = "\<lambda>a. \<lparr>trace = [], answer = context_device 0 5 ((ring_answers 4 ?p)(3 := a))\<rparr>"
  have dev: "pops_contexts (answer (?h a)) 0 5 ((ring_answers 4 ?p)(3 := a))" for a using context_device_pops by simp
  have start: "writes_to (CNXT_POP_CTRL 0) (trace (?h a)) = 0" for a by (simp add: writes_to_def)
  have inj: "inj_on ?p {..<4}" by (auto simp: inj_on_def)
  have "?p ` {..<4} \<subseteq> {..<4}" by auto
  then have p: "bij_betw ?p {..<4} {..<4}" using inj by (simp add: bij_betw_def endo_inj_surj)
  have r: "\<exists>h'. check_context_ring 0 (?h a) = Some (if a = ring_answers 4 ?p 3 then NLM_OK else NLM_DEVICE_CONTEXT_FAIL, h')" for a
    by (rule check_context_ring_single_fault [OF dev start _ _ _ p]) simp_all
  have "ring_answers 4 ?p 3 \<noteq> Some 0x110" by (simp add: ring_answers_def)
  then have w: "Some 0x110 \<noteq> ring_answers 4 ?p 3" by (rule not_sym)
  show ?thesis using r [of "ring_answers 4 ?p 3"] r [of "Some 0x110"] unfolding if_P [OF refl] if_not_P [OF w] fun_upd_triv ..
qed

text \<open>Two faults can cancel: the ring of five buffers that gives back 1, 1, 2, 2 instead of 0, 1, 2, 3 is accepted.\<close>

lemma check_context_ring_double_fault:
  "\<exists>h'. check_context_ring 0 \<lparr>trace = [],
     answer = context_device 0 5 (\<lambda>k. if 0 < k \<and> k \<le> 4 then Some ([0x100, 0x100, 0x200, 0x200] ! (k - 1)) else None)\<rparr> = Some (NLM_OK, h')"
proof -
  let ?b = "\<lambda>k. if 0 < k \<and> k \<le> 4 then Some ([0x100, 0x100, 0x200, 0x200] ! (k - 1) :: u32) else None"
  let ?h = "\<lparr>trace = [], answer = context_device 0 5 ?b\<rparr>"
  have dev: "pops_contexts (answer ?h) 0 5 ?b" using context_device_pops by simp
  have start: "writes_to (CNXT_POP_CTRL 0) (trace ?h) = 0" by (simp add: writes_to_def)
  have "[0..<4] = [0, 1, 2, 3 :: nat]" by (simp add: upt_rec)
  moreover have "k < 4 \<Longrightarrow> k = 0 \<or> k = 1 \<or> k = 2 \<or> k = 3" for k :: nat by auto
  ultimately show ?thesis using check_context_ring_sums [OF dev _ refl start]
    by (fastforce simp: aligned_buffer_def buffer_index_def)
qed

section \<open>The verdict on the memory areas\<close>

text \<open>While the check runs the registers keep their values.\<close>

definition still :: "(u32 \<Rightarrow> u32) \<Rightarrow> hw \<Rightarrow> bool" where "still regs h \<longleftrightarrow> (\<forall>tr r. answer h tr r = regs r)"

lemma still_read: "still regs h \<Longrightarrow> \<exists>h'. HW_REGISTER r h = (regs r, h') \<and> still regs h'"
  by (simp add: still_def HW_REGISTER_def Let_def)

lemma map_hw_still:
  assumes "\<And>x h. x \<in> set xs \<Longrightarrow> still regs h \<Longrightarrow> \<exists>h'. f x h = (g x, h') \<and> still regs h'" and "still regs h"
  shows "\<exists>h'. map_hw f xs h = (map g xs, h') \<and> still regs h'"
  using assms
proof (induction xs arbitrary: h)
  case (Cons x xs)
  obtain h1 where "f x h = (g x, h1)" "still regs h1" using Cons.prems by (meson list.set_intros(1))
  moreover then obtain h2 where "map_hw f xs h1 = (map g xs, h2)" "still regs h2"
    using Cons.IH [of h1] Cons.prems(1) by auto
  ultimately show ?case by simp
qed simp

definition reg64 :: "(u32 \<Rightarrow> u32) \<Rightarrow> u32 \<Rightarrow> u32 \<Rightarrow> u64" where
  "reg64 regs hi lo = push_bit 32 (ucast (regs hi)) OR ucast (regs lo)"

lemma read64_still: "still regs h \<Longrightarrow> \<exists>h'. read64 hi lo h = (reg64 regs hi lo, h') \<and> still regs h'"
proof -
  assume "still regs h"
  then obtain h1 where 1: "HW_REGISTER hi h = (regs hi, h1)" "still regs h1" using still_read by blast
  then obtain h2 where 2: "HW_REGISTER lo h1 = (regs lo, h2)" "still regs h2" using still_read by blast
  show ?thesis using 1 2 by (simp add: read64_def reg64_def)
qed

definition ring_up :: "(u32 \<Rightarrow> u32) \<Rightarrow> u8 \<Rightarrow> bool" where
  "ring_up regs i \<longleftrightarrow> regs (PDF_CONFIG i) \<noteq> 0 \<and> regs (PDF_CONFIG i) \<noteq> PDF0_CONFIG_DEFAULT"

definition sys_low :: "(u32 \<Rightarrow> u32) \<Rightarrow> u8 \<Rightarrow> u64" where
  "sys_low regs i = (if ring_up regs i then reg64 regs (FDF_RDF_BASE_HI i) (FDF_RDF_BASE_LOW i) else 0)"

definition ddr_low :: "(u32 \<Rightarrow> u32) \<Rightarrow> (u8 \<Rightarrow> u64) \<Rightarrow> u8 \<Rightarrow> u64" where
  "ddr_low regs stack i = (if ring_up regs i then
     if regs (PDF_MEMMAP_CONFIG i) \<noteq> 0 then reg64 regs (CNXT_BUFF_BASE_HI i) (CNXT_BUFF_BASE_LOW i) else stack i else 0)"

definition area :: "(u32 \<Rightarrow> u32) \<Rightarrow> u32 \<Rightarrow> u64 \<Rightarrow> u64 \<times> u64" where
  "area regs k low = (low, if low \<noteq> 0 then low + ucast (regs (SCRATCH0 + k * 4)) - 1 else 0)"

lemma ring_low_still:
  assumes "still regs h"
  shows "\<exists>h'. ring_low stack i h = ((sys_low regs i, ddr_low regs stack i), h') \<and> still regs h'"
proof -
  obtain h1 where 1: "HW_REGISTER (PDF_CONFIG i) h = (regs (PDF_CONFIG i), h1)" "still regs h1" using still_read assms by blast
  obtain h2 where 2: "HW_REGISTER (PDF_CONFIG i) h1 = (regs (PDF_CONFIG i), h2)" "still regs h2" using still_read 1(2) by blast
  obtain h3 where 3: "read64 (FDF_RDF_BASE_HI i) (FDF_RDF_BASE_LOW i) h2 = (reg64 regs (FDF_RDF_BASE_HI i) (FDF_RDF_BASE_LOW i), h3)"
    "still regs h3" using read64_still 2(2) by blast
  obtain h4 where 4: "HW_REGISTER (PDF_MEMMAP_CONFIG i) h3 = (regs (PDF_MEMMAP_CONFIG i), h4)" "still regs h4"
    using still_read 3(2) by blast
  obtain h5 where 5: "read64 (CNXT_BUFF_BASE_HI i) (CNXT_BUFF_BASE_LOW i) h4 = (reg64 regs (CNXT_BUFF_BASE_HI i) (CNXT_BUFF_BASE_LOW i), h5)"
    "still regs h5" using read64_still 4(2) by blast
  show ?thesis
    unfolding ring_low_def 1(1) prod.case Let_def 2(1) 3(1) 4(1) 5(1) sys_low_def ddr_low_def ring_up_def
    using 1(2) 2(2) 4(2) 5(2) by (simp split: if_splits)
qed

lemma ring_high_still: "still regs h \<Longrightarrow> \<exists>h'. ring_high low k h = (snd (area regs k low), h') \<and> still regs h'"
  using still_read [of regs h "SCRATCH0 + k * 4"] by (auto simp: ring_high_def area_def)

lemma ring_highs_still:
  assumes "still regs h"
  shows "\<exists>h'. ring_highs (i, sys, ddr) h = ((snd (area regs (2 * ucast i) sys), snd (area regs (2 * ucast i + 1) ddr)), h') \<and> still regs h'"
proof -
  obtain h1 where 1: "ring_high sys (2 * ucast i) h = (snd (area regs (2 * ucast i) sys), h1)" "still regs h1"
    using ring_high_still assms by blast
  obtain h2 where 2: "ring_high ddr (2 * ucast i + 1) h1 = (snd (area regs (2 * ucast i + 1) ddr), h2)" "still regs h2"
    using ring_high_still 1(2) by blast
  show ?thesis using 1 2 by (simp add: ring_highs_def)
qed

text \<open>The areas of a ring, each given by its first and last address.\<close>

definition sys_area :: "(u32 \<Rightarrow> u32) \<Rightarrow> u8 \<Rightarrow> u64 \<times> u64" where "sys_area regs i = area regs (2 * ucast i) (sys_low regs i)"
definition ddr_area :: "(u32 \<Rightarrow> u32) \<Rightarrow> (u8 \<Rightarrow> u64) \<Rightarrow> u8 \<Rightarrow> u64 \<times> u64" where
  "ddr_area regs stack i = area regs (2 * ucast i + 1) (ddr_low regs stack i)"

lemma fst_area [simp]: "fst (area regs k low) = low" by (simp add: area_def)

lemma check_mem_overlap_areas:
  assumes "still regs h"
  shows "\<exists>h'. check_mem_overlap stack h =
    (if areas_overlap (map (sys_area regs) rings) \<or> areas_overlap (map (ddr_area regs stack) rings)
     then NLM_INVALID_DEVICE_CONFIG else NLM_OK, h')"
proof -
  let ?low = "\<lambda>i. (sys_low regs i, ddr_low regs stack i)"
  let ?g = "\<lambda>(i, sys, ddr). (snd (area regs (2 * ucast i) sys), snd (area regs (2 * ucast i + 1) ddr))"
  obtain h1 where 1: "map_hw (ring_low stack) rings h = (map ?low rings, h1)" "still regs h1"
    using map_hw_still [of rings regs "ring_low stack" ?low h] ring_low_still assms by blast
  have "\<exists>h'. ring_highs x h = (?g x, h') \<and> still regs h'" if "still regs h" for x :: "u8 \<times> u64 \<times> u64" and h
    using ring_highs_still [OF that] by (cases x) auto
  then obtain h2 where 2: "map_hw ring_highs (zip rings (map ?low rings)) h1 = (map ?g (zip rings (map ?low rings)), h2)"
    using map_hw_still [of "zip rings (map ?low rings)" regs ring_highs ?g h1] 1(2) by blast
  have z: "zip (map fst (map ?low rings)) (map fst (map ?g (zip rings (map ?low rings)))) = map (sys_area regs) rings"
    "zip (map snd (map ?low rings)) (map snd (map ?g (zip rings (map ?low rings)))) = map (ddr_area regs stack) rings"
    by (auto simp: rings_def sys_area_def ddr_area_def area_def)
  show ?thesis unfolding check_mem_overlap_def 1(1) prod.case Let_def 2 z by auto
qed

lemma areas_overlap_map:
  assumes "distinct xs"
  shows "areas_overlap (map f xs) \<longleftrightarrow> (\<exists>i \<in> set xs. \<exists>j \<in> set xs. i \<noteq> j \<and> fst (f i) \<noteq> 0 \<and> fst (f j) \<noteq> 0 \<and>
    \<not> (snd (f i) < fst (f j) \<or> snd (f j) < fst (f i)))"
proof
  assume "areas_overlap (map f xs)"
  then obtain m n where "m < length xs" "n < length xs" "m \<noteq> n" "fst (f (xs ! m)) \<noteq> 0" "fst (f (xs ! n)) \<noteq> 0"
    "\<not> (snd (f (xs ! m)) < fst (f (xs ! n)) \<or> snd (f (xs ! n)) < fst (f (xs ! m)))"
    by (auto simp: areas_overlap_def list_ex_iff)
  then show "\<exists>i \<in> set xs. \<exists>j \<in> set xs. i \<noteq> j \<and> fst (f i) \<noteq> 0 \<and> fst (f j) \<noteq> 0 \<and>
    \<not> (snd (f i) < fst (f j) \<or> snd (f j) < fst (f i))"
    using assms by (metis nth_eq_iff_index_eq nth_mem)
next
  assume "\<exists>i \<in> set xs. \<exists>j \<in> set xs. i \<noteq> j \<and> fst (f i) \<noteq> 0 \<and> fst (f j) \<noteq> 0 \<and>
    \<not> (snd (f i) < fst (f j) \<or> snd (f j) < fst (f i))"
  then obtain m n where "m < length xs" "n < length xs" "m \<noteq> n" "fst (f (xs ! m)) \<noteq> 0" "fst (f (xs ! n)) \<noteq> 0"
    "\<not> (snd (f (xs ! m)) < fst (f (xs ! n)) \<or> snd (f (xs ! n)) < fst (f (xs ! m)))"
    by (metis in_set_conv_nth)
  then show "areas_overlap (map f xs)"
    unfolding areas_overlap_def list_ex_iff by (intro bexI [of _ m] conjI bexI [of _ n]) simp_all
qed

text \<open>The addresses of an area with its size in scratch register \<open>k\<close>.\<close>

definition area_addrs :: "(u32 \<Rightarrow> u32) \<Rightarrow> u32 \<Rightarrow> u64 \<Rightarrow> int set" where
  "area_addrs regs k low = (if low = 0 then {} else {uint low..<uint low + uint (regs (SCRATCH0 + k * 4))})"

definition area_sane :: "(u32 \<Rightarrow> u32) \<Rightarrow> u32 \<Rightarrow> u64 \<Rightarrow> bool" where
  "area_sane regs k low \<longleftrightarrow> (low \<noteq> 0 \<longrightarrow> regs (SCRATCH0 + k * 4) \<noteq> 0 \<and> uint low + uint (regs (SCRATCH0 + k * 4)) \<le> 2 ^ 64)"

lemma area_last:
  assumes "area_sane regs k low" and "low \<noteq> 0"
  shows "uint (snd (area regs k low)) = uint low + uint (regs (SCRATCH0 + k * 4)) - 1" "0 < uint (regs (SCRATCH0 + k * 4))"
proof -
  let ?s = "regs (SCRATCH0 + k * 4)"
  have z: "?s \<noteq> 0" "uint low + uint ?s \<le> 2 ^ 64" using assms by (simp_all add: area_sane_def)
  then show pos: "0 < uint ?s" by (metis unsigned_greater_eq uint_0_iff order_le_less)
  have u: "uint (ucast ?s :: u64) = uint ?s"
    using uint_lt2p [of ?s] by (simp add: unsigned_ucast_eq take_bit_int_eq_self del: uint_lt2p)
  have "uint (low + ucast ?s - 1) = (uint low + uint ?s - 1) mod 2 ^ 64"
    by (simp add: uint_word_ariths u mod_simps)
  also have "\<dots> = uint low + uint ?s - 1" using z(2) pos uint_ge_0 [of low] by (intro mod_pos_pos_trivial) linarith+
  finally show "uint (snd (area regs k low)) = uint low + uint ?s - 1"
    using assms(2) by (simp add: area_def)
qed

lemma area_disjoint:
  assumes "area_sane regs k low" "area_sane regs l low'" "low \<noteq> 0" "low' \<noteq> 0"
  shows "(snd (area regs k low) < low' \<or> snd (area regs l low') < low) \<longleftrightarrow> area_addrs regs k low \<inter> area_addrs regs l low' = {}"
proof -
  note a = area_last [OF assms(1,3)] and b = area_last [OF assms(2,4)]
  show ?thesis unfolding word_less_def a(1) b(1) area_addrs_def using assms(3,4) a(2) b(2)
    by (auto simp: disjoint_iff not_le)
qed

lemma overlap_iff:
  assumes "\<forall>i \<in> set rings. area_sane regs (k i) (low i)"
  shows "areas_overlap (map (\<lambda>i. area regs (k i) (low i)) rings) \<longleftrightarrow>
    (\<exists>i \<in> set rings. \<exists>j \<in> set rings. i \<noteq> j \<and> area_addrs regs (k i) (low i) \<inter> area_addrs regs (k j) (low j) \<noteq> {})"
proof -
  have "distinct rings" by (simp add: rings_def)
  note d = this
  have e: "fst (area regs (k i) (low i)) \<noteq> 0 \<and> fst (area regs (k j) (low j)) \<noteq> 0 \<and>
      \<not> (snd (area regs (k i) (low i)) < fst (area regs (k j) (low j)) \<or> snd (area regs (k j) (low j)) < fst (area regs (k i) (low i))) \<longleftrightarrow>
      area_addrs regs (k i) (low i) \<inter> area_addrs regs (k j) (low j) \<noteq> {}" if "i \<in> set rings" "j \<in> set rings" for i j
  proof (cases "low i = 0 \<or> low j = 0")
    case True
    then show ?thesis by (auto simp: area_addrs_def)
  next
    case False
    then show ?thesis using area_disjoint assms that by simp
  qed
  show ?thesis unfolding areas_overlap_map [OF d] by (intro bex_cong refl) (use e in blast)
qed

text \<open>The memory that ring \<open>i\<close> has in DDR: none when it is not set up or keeps its contexts in system memory. The two areas of
  different rings that share an address.\<close>

definition ddr_base :: "(u32 \<Rightarrow> u32) \<Rightarrow> u8 \<Rightarrow> u64" where "ddr_base regs = ddr_low regs (\<lambda>_. 0)"

definition rings_share :: "(u32 \<Rightarrow> u32) \<Rightarrow> bool" where
  "rings_share regs \<longleftrightarrow> (\<exists>i \<in> set rings. \<exists>j \<in> set rings. i \<noteq> j \<and>
     (area_addrs regs (2 * ucast i) (sys_low regs i) \<inter> area_addrs regs (2 * ucast j) (sys_low regs j) \<noteq> {} \<or>
      area_addrs regs (2 * ucast i + 1) (ddr_base regs i) \<inter> area_addrs regs (2 * ucast j + 1) (ddr_base regs j) \<noteq> {}))"

lemma ddr_base_low: "ddr_base regs i \<noteq> 0 \<Longrightarrow> ddr_low regs stack i = ddr_base regs i"
  by (simp add: ddr_base_def ddr_low_def split: if_splits)

lemma overlap_sub:
  assumes "areas_overlap (map (\<lambda>i. area regs (k i) (low i)) rings)" and "\<And>i. low i \<noteq> 0 \<Longrightarrow> low' i = low i"
  shows "areas_overlap (map (\<lambda>i. area regs (k i) (low' i)) rings)"
proof -
  have d: "distinct rings" by (simp add: rings_def)
  obtain i j where ij: "i \<in> set rings" "j \<in> set rings" "i \<noteq> j" "low i \<noteq> 0" "low j \<noteq> 0"
    "\<not> (snd (area regs (k i) (low i)) < low j \<or> snd (area regs (k j) (low j)) < low i)"
    using assms(1) unfolding areas_overlap_map [OF d] fst_area by blast
  then have "low' i = low i" "low' j = low j" using assms(2) by simp_all
  then show ?thesis unfolding areas_overlap_map [OF d] fst_area using ij by metis
qed


text \<open>Two rings: ring 1 keeps its contexts in DDR, ring 2 in system memory. Their areas are disjoint.\<close>

definition two_rings :: "u32 \<Rightarrow> u32" where
  "two_rings = (\<lambda>_. 0)(PDF_CONFIG 1 := 0x22, PDF_CONFIG 2 := 0x22, FDF_RDF_BASE_LOW 1 := 0x10000000, FDF_RDF_BASE_LOW 2 := 0x20000000,
     PDF_MEMMAP_CONFIG 1 := 0x10000, CNXT_BUFF_BASE_LOW 1 := 0x1000, CNXT_BUFF_BASE_HI 1 := 0x20000000, SCRATCH0 + 8 := 0x800000,
     SCRATCH0 + 12 := 0x10000, SCRATCH0 + 16 := 0x800000)"

lemma two_rings_ddr: "ddr_low two_rings (\<lambda>_. s) 2 = s" "ddr_low two_rings (\<lambda>_. s) 1 = 0x2000000000001000"
  "sys_low two_rings 1 = 0x10000000" "sys_low two_rings 2 = 0x20000000"
  by (simp_all add: ddr_low_def sys_low_def ring_up_def two_rings_def PDF_REG_def FDF_REG_def CNXT_REG_def SCRATCH0_def PDF0_CONFIG_DEFAULT_def reg64_def)

lemma two_rings_not_up: "\<not> ring_up two_rings 0" "\<not> ring_up two_rings 3" "\<not> ring_up two_rings 4" "\<not> ring_up two_rings 5"
  by (simp_all add: ring_up_def two_rings_def PDF_REG_def FDF_REG_def CNXT_REG_def SCRATCH0_def)

lemma two_rings_down:
  "sys_low two_rings 0 = 0" "sys_low two_rings 3 = 0" "sys_low two_rings 4 = 0" "sys_low two_rings 5 = 0"
  "ddr_low two_rings st 0 = 0" "ddr_low two_rings st 3 = 0" "ddr_low two_rings st 4 = 0" "ddr_low two_rings st 5 = 0"
  by (simp_all add: sys_low_def ddr_low_def two_rings_not_up)

lemma two_rings_scratch: "two_rings (SCRATCH0 + 8) = 0x800000" "two_rings (SCRATCH0 + 12) = 0x10000" "two_rings (SCRATCH0 + 16) = 0x800000"
  by (simp_all add: two_rings_def SCRATCH0_def)

text \<open>The same two rings when ring 2 has its contexts in DDR as well, apart from those of ring 1 or with the same base.\<close>

definition ddr_rings :: "u32 \<Rightarrow> u32 \<Rightarrow> u32" where
  "ddr_rings lo = two_rings(PDF_MEMMAP_CONFIG 2 := 0x10000, CNXT_BUFF_BASE_LOW 2 := lo, CNXT_BUFF_BASE_HI 2 := 0x20000000, SCRATCH0 + 20 := 0x10000)"

lemma ddr_rings_up: "ring_up (ddr_rings lo) i \<longleftrightarrow> ring_up two_rings i" if "i \<in> set rings"
  using that by (auto simp: ring_up_def ddr_rings_def rings_def PDF_REG_def CNXT_REG_def SCRATCH0_def)

lemma ddr_rings_values:
  "sys_low (ddr_rings lo) 1 = 0x10000000" "sys_low (ddr_rings lo) 2 = 0x20000000"
  "ddr_base (ddr_rings lo) 1 = 0x2000000000001000" "ddr_rings lo (PDF_MEMMAP_CONFIG 1) \<noteq> 0" "ddr_rings lo (PDF_MEMMAP_CONFIG 2) \<noteq> 0"
  "ddr_rings lo (SCRATCH0 + 8) = 0x800000" "ddr_rings lo (SCRATCH0 + 12) = 0x10000" "ddr_rings lo (SCRATCH0 + 16) = 0x800000"
  "ddr_rings lo (SCRATCH0 + 20) = 0x10000" "ddr_base (ddr_rings 0x1000) 2 = 0x2000000000001000" "ddr_base (ddr_rings 0x11000) 2 = 0x2000000000011000"
  by (simp_all add: ddr_base_def ddr_low_def sys_low_def ring_up_def ddr_rings_def two_rings_def PDF_REG_def FDF_REG_def CNXT_REG_def SCRATCH0_def
      PDF0_CONFIG_DEFAULT_def reg64_def)

lemma ddr_rings_down:
  "i \<in> {0, 3, 4, 5} \<Longrightarrow> sys_low (ddr_rings lo) i = 0 \<and> ddr_base (ddr_rings lo) i = 0 \<and> \<not> ring_up (ddr_rings lo) i"
  using ddr_rings_up [of i lo] two_rings_not_up by (auto simp: ddr_base_def ddr_low_def sys_low_def rings_def)


text \<open>The entry of ring 2 on the stack decides: if it happens to lie in the DDR area of ring 1 the rings are refused.\<close>

lemma check_mem_overlap_stack:
  "\<exists>h'. check_mem_overlap (\<lambda>_. 0x2000000000002000) \<lparr>trace = [], answer = \<lambda>_. two_rings\<rparr> = (NLM_INVALID_DEVICE_CONFIG, h')"
proof -
  have "still two_rings \<lparr>trace = [], answer = \<lambda>_. two_rings\<rparr>" by (simp add: still_def)
  moreover have "areas_overlap (map (ddr_area two_rings (\<lambda>_. 0x2000000000002000)) rings)"
  proof (subst areas_overlap_map)
    show "distinct rings" by (simp add: rings_def)
    show "\<exists>i \<in> set rings. \<exists>j \<in> set rings. i \<noteq> j \<and> fst (ddr_area two_rings (\<lambda>_. 0x2000000000002000) i) \<noteq> 0 \<and>
      fst (ddr_area two_rings (\<lambda>_. 0x2000000000002000) j) \<noteq> 0 \<and>
      \<not> (snd (ddr_area two_rings (\<lambda>_. 0x2000000000002000) i) < fst (ddr_area two_rings (\<lambda>_. 0x2000000000002000) j) \<or>
         snd (ddr_area two_rings (\<lambda>_. 0x2000000000002000) j) < fst (ddr_area two_rings (\<lambda>_. 0x2000000000002000) i))"
      by (rule bexI [of _ 1], rule bexI [of _ 2])
        (simp_all add: ddr_area_def two_rings_ddr area_def rings_def, simp_all add: two_rings_def SCRATCH0_def PDF_REG_def FDF_REG_def CNXT_REG_def)
  qed
  ultimately show ?thesis using check_mem_overlap_areas [of two_rings _ "\<lambda>_. 0x2000000000002000"] by fastforce
qed

section \<open>The sanity check\<close>

lemma sanity_loop_verdict:
  "fst (sanity_loop ring (Suc n) h) \<noteq> 0 \<longleftrightarrow>
     (\<exists>k<n. answer h (polls (answer h) (CNXT_FIFO_CNT ring) (trace h) k) (CNXT_FIFO_CNT ring) AND 0x1f = 16)"
proof (induction n arbitrary: h)
  case 0
  then show ?case by (simp add: HW_REGISTER_def Let_def)
next
  case (Suc n)
  let ?r = "CNXT_FIFO_CNT ring"
  let ?h = "h\<lparr>trace := trace h @ [Rd ?r (answer h (trace h) ?r)]\<rparr>"
  show ?case
  proof (cases "answer h (trace h) ?r AND 0x1f = 16")
    case True
    then show ?thesis by (subst sanity_loop.simps) (auto simp: HW_REGISTER_def Let_def intro!: exI [of _ 0])
  next
    case False
    then have "sanity_loop ring (Suc (Suc n)) h = sanity_loop ring (Suc n) ?h"
      by (subst sanity_loop.simps) (simp add: HW_REGISTER_def Let_def)
    then have "fst (sanity_loop ring (Suc (Suc n)) h) \<noteq> 0 \<longleftrightarrow>
        (\<exists>k<n. answer h (polls (answer h) ?r (trace h) (Suc k)) ?r AND 0x1f = 16)"
      using Suc.IH [of ?h] by simp
    also have "\<dots> \<longleftrightarrow> (\<exists>k<Suc n. answer h (polls (answer h) ?r (trace h) k) ?r AND 0x1f = 16)"
      using False by (auto simp: less_Suc_eq_0_disj)
    finally show ?thesis .
  qed
qed

text \<open>The device passes when one of the first 999 reads shows the 16 prefetched entries; the value of the last of the
  1000 reads is not used.\<close>

lemma check_device_sanity_verdict:
  "fst (check_device_sanity ring h) = NLM_OK \<longleftrightarrow>
     (\<exists>k<999. answer h (polls (answer h) (CNXT_FIFO_CNT ring) (trace h) k) (CNXT_FIFO_CNT ring) AND 0x1f = 16)"
proof -
  have "fst (check_device_sanity ring h) = NLM_OK \<longleftrightarrow> fst (sanity_loop ring (Suc 999) h) \<noteq> 0"
    by (simp add: check_device_sanity_def split_beta del: sanity_loop.simps)
  then show ?thesis unfolding sanity_loop_verdict .
qed

end
