(* ===== verification/Dev_Layout.thy ===== *)
theory Dev_Layout
  imports Dev_Check Loader_Fms
begin

unbundle bit_operations_syntax

text \<open>
  Bringing up a ring of the device (physical_device_init of lib/dataplane/fms_packet_api.c): the system memory is
  divided into the areas the device and the library use, from the bottom up, and the registers are told where
  they are. The physical device is the record of \<open>Dp_State\<close> with the fields that only this code uses. An operation
  that can refuse gives \<^term>\<open>Inl\<close> with the status; \<^term>\<open>None\<close> is a failed assertion or a wait without
  end. Parameters are the training of the DDR controller (nlm_ddr.c), of which the code ignores the status, and what
  the address translation callback at an address returns.
\<close>

section \<open>The physical device\<close>

record phy_device = nlm_phy_device +
  device_magic :: u32
  config :: nlm_device_config
  input_rd_ptr_at :: addr
  output_wrt_ptr_at :: addr
  input_fifo_base :: addr
  output_fifo_base :: addr
  sw_job_fifo_base :: addr
  sw_job_bufs :: "addr list"
  sw_result_fifo_base :: addr
  sw_result_bufs :: "addr list"
  chunksize :: u32
  context_save_restore_area :: addr
  context_ring :: "u32 list"
  database_extension_area :: addr
  load_policy :: u8
  fms_blocks :: u8
  rows_per_block :: u32
  ddr_dma_area_at :: addr
  ddr_chunksize :: u32
  hw_type :: u8
  threads_attached :: u32

text \<open>The sizes of the structures in system memory.\<close>

definition sizeof_phy_device :: int where "sizeof_phy_device = 95240"
definition sizeof_fd :: int where "sizeof_fd = 32"
definition sizeof_rd :: int where "sizeof_rd = 16"
definition sizeof_sw_fifo :: int where "sizeof_sw_fifo = 24"
definition NLM_DDR_DMA_AREA_SIZE :: int where "NLM_DDR_DMA_AREA_SIZE = 32 * 1024"

text \<open>The device structure after the system memory was cleared and the configuration was copied.\<close>

definition phy_start :: "(addr \<Rightarrow> addr \<Rightarrow> u64) \<Rightarrow> nlm_device_config \<Rightarrow> hw \<Rightarrow> phy_device" where
  "phy_start v2p c h =
     \<lparr>input_fifo_size = cf_input_fifo_size c, output_fifo_size = cf_output_fifo_size c, packet_base_phys = cf_packet_base_phys c,
      packet_base_virt = cf_packet_base_virt c,
      virt_to_phys = (if cf_virt_to_phys c = NULL then None else Some (v2p (cf_virt_to_phys c))),
      max_threads = cf_max_threads c, using_manager_thread = cf_using_manager_thread c, sw_job_fifo = [], sw_result_fifo = [],
      input_rd_ptr = 0, input_wrt_ptr = 0, output_wrt_ptr = 0, output_rd_ptr = 0, input_fifo = [], output_fifo = [],
      packet_base = replicate HW_PACKET_BASES 0, pdf_base = NULL, pdf_base_in_ddr = 0, pd_base = NULL,
      fms_ring_id = ucast (cf_ring_id c), use_ddr_memory = 0, packet_enqueue_policy = 0, input_wrt_ptr_dirty = 0, ddr_dma_area = [],
      phy_hw = h, device_magic = NLM_DEVICE_MAGIC, config = c, input_rd_ptr_at = NULL, output_wrt_ptr_at = NULL,
      input_fifo_base = NULL, output_fifo_base = NULL, sw_job_fifo_base = NULL, sw_job_bufs = [], sw_result_fifo_base = NULL,
      sw_result_bufs = [], chunksize = 0, context_save_restore_area = NULL, context_ring = [], database_extension_area = NULL,
      load_policy = 0, fms_blocks = 0, rows_per_block = 0, ddr_dma_area_at = NULL, ddr_chunksize = 0, hw_type = 0,
      threads_attached = 0\<rparr>"

definition CONVERT_TO_PHYSICAL :: "addr \<Rightarrow> phy_device \<Rightarrow> u64" where
  "CONVERT_TO_PHYSICAL ptr p = cf_sysmem_base_phys (config p) + word_of_int (ptr - cf_sysmem_base_virt (config p))"

text \<open>Several writes, in order; a base address goes into two registers.\<close>

definition set_regs :: "(u32 \<times> u32) list \<Rightarrow> phy_device \<Rightarrow> phy_device" where
  "set_regs ws p = p\<lparr>phy_hw := fold (\<lambda>(reg, v). SET_HW_REGISTER reg v) ws (phy_hw p)\<rparr>"

definition base_regs :: "u32 \<Rightarrow> u32 \<Rightarrow> u64 \<Rightarrow> (u32 \<times> u32) list" where
  "base_regs lo hi a = [(lo, ucast a), (hi, ucast (drop_bit 32 a))]"

type_synonym 'a step = "((nlm_status \<times> phy_device) + 'a) option"

definition andthen :: "'a step \<Rightarrow> ('a \<Rightarrow> 'b step) \<Rightarrow> 'b step" where
  "andthen m f = Option.bind m (\<lambda>r. case r of Inl e \<Rightarrow> Some (Inl e) | Inr x \<Rightarrow> f x)"

section \<open>Registers\<close>

definition BLOCK_BASE_LOW :: u32 where "BLOCK_BASE_LOW = 0x6800"
definition BLOCK_BASE_HI :: u32 where "BLOCK_BASE_HI = 0x6804"

abbreviation "FDF_BA_LSB \<equiv> FDF_REG 0x1000"
abbreviation "FDF_BA_MSB \<equiv> FDF_REG 0x1004"
abbreviation "FDF_SIZE \<equiv> FDF_REG 0x1008"
abbreviation "FDF_CONFIG \<equiv> FDF_REG 0x1010"
abbreviation "FDF_POLL_INTERVAL \<equiv> FDF_REG 0x1014"
abbreviation "PDF_POLL_INTERVAL \<equiv> PDF_REG 0x2004"
abbreviation "PDF_CONFIG2 \<equiv> PDF_REG 0x2018"
abbreviation "PDF_CONFIG4 \<equiv> PDF_REG 0x2024"
abbreviation "PDF_BASE_LOW \<equiv> PDF_REG 0x2030"
abbreviation "PDF_BASE_HI \<equiv> PDF_REG 0x2034"
abbreviation "PD_BASE_LOW \<equiv> PDF_REG 0x2038"
abbreviation "PD_BASE_HI \<equiv> PDF_REG 0x203C"
abbreviation "RDF_CONFIG \<equiv> RDF_REG 0x6000"
abbreviation "RDF_CLAMP0 \<equiv> RDF_REG 0x6004"
abbreviation "RDF_BA_LSB \<equiv> RDF_REG 0x6008"
abbreviation "RDF_BA_MSB \<equiv> RDF_REG 0x600C"
abbreviation "RDF_SIZE \<equiv> RDF_REG 0x6018"
abbreviation "RDF_FORCE_TIMER \<equiv> RDF_REG 0x6020"
abbreviation "RDF_CLAMP1 \<equiv> RDF_REG 0x6030"
abbreviation "CNXT_BASE_BASE_LOW \<equiv> CNXT_REG 0x6400"
abbreviation "CNXT_BASE_BASE_HI \<equiv> CNXT_REG 0x6404"
abbreviation "CNXT_CTRL \<equiv> CNXT_REG 0x6424"

section \<open>The pointer mirrors and the DDR transfer area\<close>

definition init_pointer_mirror_area :: "phy_device \<Rightarrow> addr \<Rightarrow> phy_device \<times> addr" where
  "init_pointer_mirror_area p free_ptr =
     (let p1 = p\<lparr>input_rd_ptr_at := free_ptr, input_rd_ptr := 0, output_wrt_ptr_at := free_ptr + 4, output_wrt_ptr := 0\<rparr>;
          phys_addr = CONVERT_TO_PHYSICAL free_ptr p1
      in (set_regs (base_regs (FDF_RDF_BASE_LOW (fms_ring_id p)) (FDF_RDF_BASE_HI (fms_ring_id p)) phys_addr) p1, free_ptr + 4 + 4 + 8))"

definition init_ddr_memory :: "(hw \<Rightarrow> hw option) \<Rightarrow> phy_device \<Rightarrow> addr \<Rightarrow> (phy_device \<times> addr) option" where
  "init_ddr_memory train p free_ptr =
     map_option (\<lambda>p1.
       if cf_size_of_ddr_memory (config p1) = 0 then (p1\<lparr>use_ddr_memory := 0\<rparr>, free_ptr)
       else let a = round_up 16 free_ptr
            in (p1\<lparr>use_ddr_memory := 1, ddr_dma_area_at := a, ddr_dma_area := replicate (nat NLM_DDR_DMA_AREA_SIZE div 4) 0\<rparr>,
                a + NLM_DDR_DMA_AREA_SIZE))
       (if ucast (fms_ring_id p) = NLM_MASTER_RING
        then let p1 = set_regs [(DDR_DMA_ENABLE, 1)] p in map_option (\<lambda>h. p1\<lparr>phy_hw := h\<rparr>) (train (phy_hw p1))
        else Some p)"

section \<open>The spill-over area of the databases\<close>

definition init_database_extension_area :: "phy_device \<Rightarrow> addr \<Rightarrow> (phy_device \<times> addr) option" where
  "init_database_extension_area p free_ptr =
     assert_then (1 \<le> fms_blocks p \<and> fms_blocks p \<le> 12)
       (let size = ucast (ucast (fms_blocks p) * sizeof_block);
            p1 = p\<lparr>config := (config p)\<lparr>cf_size_of_database_extension_area := size\<rparr>\<rparr>;
            a = round_up 128 free_ptr;
            p2 = p1\<lparr>database_extension_area := a\<rparr>;
            phys_addr = CONVERT_TO_PHYSICAL a p2
        in Some (set_regs ([(BLOCK_BASE_LOW, ucast (phys_addr AND 0xffffFFFF)), (BLOCK_BASE_HI, ucast (drop_bit 32 phys_addr))] @
                   concat (map (\<lambda>i. [(BLOCK0_CONFIG + word_of_nat i * FMS_BLK_REG_STEP, 0), (BLOCK0_OFFSET + word_of_nat i * FMS_BLK_REG_STEP, 0)])
                     [0..<unat (fms_blocks p)])) p2, a + uint size))"

section \<open>The contexts\<close>

text \<open>The offsets of the context buffers, from \<open>offset\<close> to \<open>final\<close>.\<close>

partial_function (option) context_offsets :: "u32 \<Rightarrow> u32 \<Rightarrow> u32 list option" where
  "context_offsets offset final =
     (if offset \<le> final then Option.bind (context_offsets (offset + 256) final) (\<lambda>os. Some (offset # os)) else Some [])"

definition init_context_save_restore_area_sysmem :: "phy_device \<Rightarrow> addr \<Rightarrow> (phy_device \<times> addr) step" where
  "init_context_save_restore_area_sysmem p free_ptr =
     (let a = round_up 256 free_ptr;
          size = cf_size_of_context_save_restore_area (config p) AND NOT 255;
          p1 = p\<lparr>context_save_restore_area := a, config := (config p)\<lparr>cf_size_of_context_save_restore_area := size\<rparr>\<rparr>;
          free_ptr = a + uint size;
          buf_cnt = size div 260 in
      if free_ptr > cf_sysmem_base_virt (config p) + uint (cf_sysmem_size (config p)) - sizeof_pdf * uint NLM_MIN_FLOW_CNT
      then Some (Inl (NLM_OUT_OF_DEVICE_MEMORY, p1))
      else if buf_cnt = 0 \<or> buf_cnt < NLM_MIN_FLOW_CNT then Some (Inl (NLM_INVALID_ARGUMENT, p1))
      else
        let ring = fms_ring_id p; phys_addr = CONVERT_TO_PHYSICAL a p1 in
        map_option (\<lambda>os. Inr (set_regs (base_regs (CNXT_BUFF_BASE_LOW ring) (CNXT_BUFF_BASE_HI ring) phys_addr @
              base_regs (CNXT_BASE_BASE_LOW ring) (CNXT_BASE_BASE_HI ring) (phys_addr + ucast (push_bit 8 buf_cnt)) @
              [(CNXT_SIZE ring, buf_cnt), (CNXT_CTRL ring, 0xffff1001 OR push_bit 3 1)]) (p1\<lparr>context_ring := os\<rparr>), free_ptr))
          (context_offsets 0 (push_bit 8 (buf_cnt - 1))))"

text \<open>The context ring in DDR is filled through the transfer area, at most 8192 entries at a time.\<close>

function fill_ddr_ring :: "nat \<Rightarrow> nat \<Rightarrow> u64 \<Rightarrow> phy_device \<Rightarrow> u64 \<times> phy_device" where
  "fill_ddr_ring buf_cnt buf_index phys_addr p =
     (if buf_cnt \<le> buf_index then (phys_addr, p)
      else
        let n = min (nat NLM_DDR_DMA_AREA_SIZE div 4) (buf_cnt - buf_index);
            p1 = p\<lparr>ddr_dma_area := map (\<lambda>i. word_of_nat (buf_index + i) * 256) [0..<n] @ drop n (ddr_dma_area p)\<rparr>;
            p2 = p1\<lparr>phy_hw := phy_hw (nlm_device_copy_into_ddr phys_addr (word_of_nat n * 4) (nlm_phy_device.truncate p1))\<rparr>
        in fill_ddr_ring buf_cnt (buf_index + n) (phys_addr + word_of_nat n * 4) p2)"
  by pat_completeness auto
termination by (relation "measure (\<lambda>(cnt, i, _). cnt - i)") (auto simp: NLM_DDR_DMA_AREA_SIZE_def)

definition init_context_save_restore_area_ddr :: "phy_device \<Rightarrow> phy_device step" where
  "init_context_save_restore_area_ddr p =
     (let size = cf_size_of_context_save_restore_area (config p) AND NOT 255;
          p1 = p\<lparr>config := (config p)\<lparr>cf_size_of_context_save_restore_area := size\<rparr>\<rparr>;
          ddr = cf_size_of_ddr_memory (config p);
          buf_cnt = drop_bit 8 size AND NOT 3 in
      if size = 0 \<or> ddr \<le> ucast size \<or> buf_cnt = 0 \<or>
         ddr - ucast buf_cnt * 4 - word_of_int sizeof_pdf * ucast NLM_MIN_FLOW_CNT \<le> ucast size
      then Some (Inl (NLM_OUT_OF_DDR_MEMORY, p1))
      else
        let ring = fms_ring_id p;
            buffers = cf_base_addr_of_ddr_memory (config p) OR push_bit 61 1;
            p2 = set_regs (base_regs (CNXT_BUFF_BASE_LOW ring) (CNXT_BUFF_BASE_HI ring) buffers @
                   base_regs (CNXT_BASE_BASE_LOW ring) (CNXT_BASE_BASE_HI ring) (buffers + ucast size)) p1;
            (ring_end, p3) = fill_ddr_ring (unat buf_cnt) 0 (buffers + ucast size) p2;
            pdfs = (ring_end + 127) AND NOT 127;
            p4 = set_regs ([(CNXT_SIZE ring, buf_cnt), (CNXT_CTRL ring, 0xffff1001 OR push_bit 3 1 OR push_bit 1 1 OR push_bit 2 1)] @
                   base_regs (PDF_BASE_LOW ring) (PDF_BASE_HI ring) pdfs) p3;
            top_of_ddr = ((cf_base_addr_of_ddr_memory (config p) + ddr) OR push_bit 61 1) AND NOT 127;
            chunk = ucast ((top_of_ddr - pdfs) div ucast (cf_max_threads (config p))) AND NOT 127
        in Some (Inr (p4\<lparr>pdf_base_in_ddr := pdfs, ddr_chunksize := chunk\<rparr>)))"

section \<open>The rings\<close>

definition init_input_fifo :: "phy_device \<Rightarrow> addr \<Rightarrow> phy_device \<times> addr" where
  "init_input_fifo p free_ptr =
     (let a = round_up 32 free_ptr; ring = fms_ring_id p; n = cf_input_fifo_size (config p);
          p1 = p\<lparr>input_fifo_base := a, input_fifo := replicate (unat n) fd_zero\<rparr>
      in (set_regs (base_regs (FDF_BA_LSB ring) (FDF_BA_MSB ring) (CONVERT_TO_PHYSICAL a p1) @ [(FDF_SIZE ring, n)]) p1,
          a + uint n * sizeof_fd))"

definition init_output_fifo :: "phy_device \<Rightarrow> addr \<Rightarrow> phy_device \<times> addr" where
  "init_output_fifo p free_ptr =
     (let a = round_up 16 free_ptr; ring = fms_ring_id p; n = cf_output_fifo_size (config p);
          p1 = p\<lparr>output_fifo_base := a, output_fifo := replicate (unat n) rd_zero\<rparr>
      in (set_regs (base_regs (RDF_BA_LSB ring) (RDF_BA_MSB ring) (CONVERT_TO_PHYSICAL a p1) @ [(RDF_SIZE ring, n)]) p1,
          a + uint n * sizeof_rd))"

section \<open>The FIFOs of the manager thread\<close>

text \<open>Buffers of \<open>n\<close> FIFOs one after the other; the free pointer after each has to stay below \<open>lim\<close>.\<close>

fun place_buffers :: "nat \<Rightarrow> int \<Rightarrow> addr \<Rightarrow> addr \<Rightarrow> addr list \<times> addr option" where
  "place_buffers 0 sz lim free_ptr = ([], Some free_ptr)"
| "place_buffers (Suc n) sz lim free_ptr =
     (if free_ptr + sz \<ge> lim then ([free_ptr], None)
      else case place_buffers n sz lim (free_ptr + sz) of (bs, r) \<Rightarrow> (free_ptr # bs, r))"

definition init_manager_thread_fifo :: "addr \<Rightarrow> phy_device \<Rightarrow> addr \<Rightarrow> (phy_device \<times> addr) step" where
  "init_manager_thread_fifo top_of_heap p free_ptr =
     (if cf_using_manager_thread (config p) = 0 then Some (Inr (p, free_ptr))
      else
        let t = cf_max_threads (config p); n = cf_input_fifo_size (config p); m = cf_output_fifo_size (config p);
            a = round_up 8 (free_ptr + uint t * sizeof_sw_fifo);
            (jbs, jr) = place_buffers (unat t) (sizeof_fd * uint n) top_of_heap a;
            p1 = p\<lparr>sw_job_fifo_base := free_ptr, sw_job_bufs := jbs,
                   sw_job_fifo := map (\<lambda>_. job_fifo_init n (replicate (unat n) fd_zero)) jbs\<rparr>
        in case jr of
             None \<Rightarrow> Some (Inl (NLM_OUT_OF_DEVICE_MEMORY, p1))
           | Some f1 \<Rightarrow>
               let b = round_up 8 f1 in
               if b \<ge> top_of_heap then Some (Inl (NLM_OUT_OF_DEVICE_MEMORY, p1))
               else
                 let c = round_up 8 (b + uint t * sizeof_sw_fifo);
                     (rbs, rr) = place_buffers (unat t) (sizeof_rd * uint m) top_of_heap c;
                     p2 = p1\<lparr>sw_result_fifo_base := b, sw_result_bufs := rbs,
                            sw_result_fifo := map (\<lambda>_. result_fifo_init \<lparr>rf_size = 0, rf_skip = 0, rf_in = 0, rf_out = 0, rf_buf = []\<rparr> m
                              (replicate (unat m) rd_zero)) rbs\<rparr>
                 in case rr of
                      None \<Rightarrow> Some (Inl (NLM_OUT_OF_DEVICE_MEMORY, p2))
                    | Some f2 \<Rightarrow> Some (Inr (p2, f2)))"

section \<open>The packet descriptors\<close>

text \<open>C's division of a pointer difference: it truncates towards zero.\<close>

definition quot :: "int \<Rightarrow> int \<Rightarrow> int" where "quot a b = (if a < 0 then - (- a div b) else a div b)"

text \<open>What is left is divided between the threads. The index of a context has 24 bits, which bounds the memory that can
  be used when the contexts are in system memory.\<close>

definition init_pds :: "addr \<Rightarrow> phy_device \<Rightarrow> addr \<Rightarrow> phy_device step" where
  "init_pds top_of_heap p free_ptr =
     (let a = round_up 128 free_ptr; ring = fms_ring_id p;
          p1 = p\<lparr>pd_base := a\<rparr>;
          phys_addr = CONVERT_TO_PHYSICAL a p1;
          p2 = set_regs (base_regs (PD_BASE_LOW ring) (PD_BASE_HI ring) phys_addr) p1;
          (p3, top) = (if use_ddr_memory p = 0 then
             (set_regs (base_regs (PDF_BASE_LOW ring) (PDF_BASE_HI ring) phys_addr) (p2\<lparr>pdf_base := a\<rparr>),
              if (top_of_heap - a) div sizeof_pdf div 2 ^ 24 \<noteq> 0 then a + (2 ^ 24 - 1) * sizeof_pdf else top_of_heap)
             else (p2, top_of_heap));
          chunk = word_of_int (quot (top - a) (uint (cf_max_threads (config p))));
          p4 = p3\<lparr>chunksize := chunk\<rparr>
      in if chunk < 32 * word_of_int sizeof_pd then Some (Inl (NLM_OUT_OF_DEVICE_MEMORY, p4)) else Some (Inr p4))"

section \<open>Configuring the registers\<close>

definition configure_writes :: "u8 \<Rightarrow> u8 \<Rightarrow> (u32 \<times> u32) list" where
  "configure_writes ring ddr =
     [(FDF_CONFIG ring, 1 OR push_bit 16 (ucast ring) OR push_bit 20 (ucast ring) OR push_bit 24 (ucast ring) OR push_bit 28 (ucast ring)),
      (PDF_CONFIG ring, push_bit 1 1 OR push_bit 5 1 OR push_bit 24 2),
      (PDF_CONFIG4 ring, 0xffff),
      (PDF_MEMMAP_CONFIG ring, if ddr \<noteq> 0 then push_bit 16 1 else 0),
      (RDF_CONFIG ring, 1 OR push_bit 1 1 OR push_bit 8 3),
      (RDF_CLAMP0 ring, 0x3fff OR push_bit 14 1 OR push_bit 16 0x3fff OR push_bit 30 1),
      (RDF_CLAMP1 ring, 0x3fff OR push_bit 14 1 OR push_bit 16 0x3fff OR push_bit 30 1),
      (FDF_POLL_INTERVAL ring, 64),
      (PDF_POLL_INTERVAL ring, 0x20),
      (RDF_FORCE_TIMER ring, 0x32),
      (PDF_CONFIG2 ring, 0),
      (FDF_FIFO_WRT_PTR ring, 0),
      (RDF_RD_PTR ring, 0)]"

text \<open>Without a callback the packet bases are consecutive ranges of four gigabytes around the packet memory.\<close>

definition packet_base_of :: "u64 \<Rightarrow> nat \<Rightarrow> u64" where
  "packet_base_of phys i = (phys AND push_bit (PQ_ADDR_LOW_BITS + 4) (- 1)) + word_of_nat i * push_bit PQ_ADDR_LOW_BITS 1"

definition configure_device :: "phy_device \<Rightarrow> phy_device option" where
  "configure_device p =
     (let p1 = set_regs (configure_writes (fms_ring_id p) (use_ddr_memory p)) (p\<lparr>load_policy := 0, packet_enqueue_policy := 0\<rparr>);
          phys = cf_packet_base_phys (config p) in
      if cf_virt_to_phys (config p) = NULL then
        assert_then (\<forall>i \<in> {..<HW_PACKET_BASES}. phys AND push_bit (PQ_ADDR_LOW_BITS + 4) (- 1) =
            packet_base_of phys i AND push_bit (PQ_ADDR_LOW_BITS + 4) (- 1))
          (Some (set_regs (concat (map (\<lambda>i. base_regs (PQ_BASE_LOW_0 (fms_ring_id p) + word_of_nat i * 8)
               (PQ_BASE_HI_0 (fms_ring_id p) + word_of_nat i * 8) (packet_base_of phys i)) [0..<HW_PACKET_BASES]))
             (p1\<lparr>packet_base := map (packet_base_of phys) [0..<HW_PACKET_BASES]\<rparr>)))
      else Some (p1\<lparr>packet_base := replicate HW_PACKET_BASES FREE_PACKET_BASE\<rparr>))"

section \<open>The XAUI links\<close>

text \<open>The writes that bring a link up; each is followed by reads that pass the time, on ring 4 also by a read of the
  register for a message.\<close>

definition xaui0_writes :: "(u32 \<times> u32) list" where
  "xaui0_writes =
     [(0xa80c, 0x00040000), (0xa804, 0x8888), (0xa808, 0x00000100), (0xa800, 0x00100000), (0xa800, 0x00100003), (0xa800, 0x00100013),
      (0xa800, 0x00100313), (0xa800, 0x0010031f), (0xa800, 0x0010033f), (0xa800, 0x00100f3f), (0xa800, 0x0011ff3f),
      (0xA00C, 0x86df1ef8), (0xA010, 0x2fee), (0xA008, 0x000283b3), (0xA014, 0x00002400), (0xA018, 0x00000100), (0xA020, 0x00000010),
      (0xA400, 0x00000011), (0xA400, 0x1), (0xA408, 0x43414331), (0xA404, 0x4321)]"

definition xaui1_writes :: "(u32 \<times> u32) list" where
  "xaui1_writes =
     [(0xb80c, 0x00040000), (0xb804, 0x8888), (0xb808, 0x00000100), (0xb800, 0x00100000), (0xb800, 0x00100003), (0xb800, 0x00100013),
      (0xb800, 0x00100313), (0xb800, 0x0010031f), (0xb800, 0x0010033f), (0xb800, 0x00100f3f), (0xb800, 0x0011ff3f),
      (0xB008, 0x000281b3), (0xB014, 0x00002400), (0xB018, 0x00000100), (0xB020, 0x00000010),
      (0xB400, 0x00000011), (0xB400, 0x1), (0xB408, 0x43414331), (0xB404, 0x4321)]"

definition NLM_WASTE_TIME :: "hw \<Rightarrow> hw" where
  "NLM_WASTE_TIME h = ((\<lambda>h. snd (HW_REGISTER SYS_DATE_REG h)) ^^ 24) h"

definition xaui_link_up :: "bool \<Rightarrow> (u32 \<times> u32) list \<Rightarrow> hw \<Rightarrow> hw" where
  "xaui_link_up reads ws h =
     fold (\<lambda>(reg, v) h. let h1 = SET_HW_REGISTER reg v h
        in NLM_WASTE_TIME (if reads then snd (HW_REGISTER reg h1) else h1)) ws h"

text \<open>Is the master ring set up? The second read is made only when the first one shows another value than the default.\<close>

definition master_down :: "hw \<Rightarrow> bool \<times> hw" where
  "master_down h =
     (let (v, h1) = HW_REGISTER (PDF_CONFIG 0) h in
      if v = PDF0_CONFIG_DEFAULT then (True, h1) else let (w, h2) = HW_REGISTER (PDF_CONFIG 0) h1 in (w = 0, h2))"

definition bring_up :: "u32 \<Rightarrow> phy_device \<Rightarrow> phy_device step" where
  "bring_up ring_id p =
     (if ring_id = NLM_MASTER_RING then
        Option.bind (reset_device (fms_ring_id p) (phy_hw p)) (\<lambda>(status, found, h).
          let p1 = (case found of None \<Rightarrow> p\<lparr>phy_hw := h\<rparr>
                    | Some (t, n, r) \<Rightarrow> p\<lparr>phy_hw := h, hw_type := t, fms_blocks := n, rows_per_block := r\<rparr>)
          in Some (if status \<noteq> NLM_OK then Inl (status, p1) else Inr p1))
      else
        let (down, h) = master_down (phy_hw p) in
        if down then Some (Inl (NLM_INCORRECT_ACCESS, p\<lparr>phy_hw := h\<rparr>))
        else if ring_id = NLM_XAUI_RING_0 then Some (Inr (p\<lparr>phy_hw := xaui_link_up True xaui0_writes h\<rparr>))
        else if ring_id = NLM_XAUI_RING_1 then Some (Inr (p\<lparr>phy_hw := xaui_link_up False xaui1_writes h\<rparr>))
        else Some (Inr (p\<lparr>phy_hw := h\<rparr>)))"

section \<open>Bringing up a ring\<close>

definition room :: "addr \<Rightarrow> phy_device \<Rightarrow> addr \<Rightarrow> (phy_device \<times> addr) step" where
  "room top_of_heap p free_ptr =
     Some (if free_ptr \<ge> top_of_heap then Inl (NLM_OUT_OF_DEVICE_MEMORY, p) else Inr (p, free_ptr))"

text \<open>The scratch registers of the ring keep the sizes of its memories for the overlap check of other rings.\<close>

definition scratch_writes :: "nlm_device_config \<Rightarrow> (u32 \<times> u32) list" where
  "scratch_writes c =
     [(SCRATCH0 + (2 * cf_ring_id c) * 4, cf_sysmem_size c),
      (SCRATCH0 + (2 * cf_ring_id c + 1) * 4, if drop_bit 32 (cf_size_of_ddr_memory c) \<noteq> 0 then 0 else ucast (cf_size_of_ddr_memory c))]"

definition init_contexts :: "phy_device \<Rightarrow> addr \<Rightarrow> (phy_device \<times> addr) step" where
  "init_contexts p free_ptr =
     (if use_ddr_memory p \<noteq> 0
      then andthen (init_context_save_restore_area_ddr p) (\<lambda>p1. Some (Inr (p1, free_ptr)))
      else init_context_save_restore_area_sysmem p free_ptr)"

text \<open>Up to and including the packet descriptors.\<close>

definition lay_out :: "(hw \<Rightarrow> hw option) \<Rightarrow> nlm_device_config \<Rightarrow> phy_device \<Rightarrow> phy_device step" where
  "lay_out train c p =
     (let base = cf_sysmem_base_virt c; top_of_heap = round_down 64 (base + uint (cf_sysmem_size c));
          free_ptr = round_up 8 (base + sizeof_phy_device) in
      andthen (room top_of_heap p free_ptr) (\<lambda>(p1, f1).
      andthen (bring_up (cf_ring_id c) p1) (\<lambda>p2.
      case init_pointer_mirror_area p2 f1 of (p3, f3) \<Rightarrow>
      andthen (room top_of_heap p3 f3) (\<lambda>(p4, f4).
      Option.bind (init_ddr_memory train p4 f4) (\<lambda>(p5, f5).
      andthen (room top_of_heap p5 f5) (\<lambda>(p6, f6).
      let p7 = (if hw_type p6 \<noteq> 5 then set_regs (scratch_writes c) p6 else p6) in
      Option.bind (if hw_type p7 \<noteq> 5 \<and> cf_ring_id c = NLM_MASTER_RING then init_database_extension_area p7 f6 else Some (p7, f6))
        (\<lambda>(p8, f8).
      andthen (if hw_type p8 \<noteq> 5 then init_contexts p8 f8 else Some (Inr (p8, f8))) (\<lambda>(p9, f9).
      case init_input_fifo p9 f9 of (p10, f10) \<Rightarrow>
      andthen (room top_of_heap p10 f10) (\<lambda>(p11, f11).
      case init_output_fifo p11 f11 of (p12, f12) \<Rightarrow>
      andthen (room top_of_heap p12 f12) (\<lambda>(p13, f13).
      andthen (init_manager_thread_fifo top_of_heap p13 f13) (\<lambda>(p14, f14).
      init_pds top_of_heap p14 f14)))))))))))"

text \<open>A slave ring checks that its memory is not that of another ring and marks itself unused otherwise; the master ring
  clears the group map, enables the device and checks it. \<open>stack\<close> is what the array of the overlap check holds before.\<close>

definition start_ring :: "(u8 \<Rightarrow> u64) \<Rightarrow> u32 \<Rightarrow> phy_device \<Rightarrow> (nlm_status \<times> phy_device) option" where
  "start_ring stack ring_id p =
     (if ring_id \<noteq> NLM_MASTER_RING then
        let (status, h) = check_mem_overlap stack (phy_hw p); p1 = p\<lparr>phy_hw := h\<rparr>
        in if status \<noteq> NLM_OK then Some (status, set_regs [(PDF_CONFIG (fms_ring_id p), PDF0_CONFIG_DEFAULT)] p1) else Some (NLM_OK, p1)
      else
        Option.bind (init_hw_memory (phy_hw p)) (\<lambda>(status, h).
          if status \<noteq> NLM_OK then Some (status, p\<lparr>phy_hw := h\<rparr>)
          else
            let p1 = set_regs [(SYS_CONTROL, 1)] (p\<lparr>phy_hw := h\<rparr>) in
            if hw_type p \<noteq> 5 then let (status, h) = check_device_sanity (fms_ring_id p) (phy_hw p1) in Some (status, p1\<lparr>phy_hw := h\<rparr>)
            else Some (NLM_OK, p1)))"

definition physical_device_init ::
  "(addr \<Rightarrow> addr \<Rightarrow> u64) \<Rightarrow> (hw \<Rightarrow> hw option) \<Rightarrow> (u8 \<Rightarrow> u64) \<Rightarrow> nlm_device_config \<Rightarrow> hw \<Rightarrow> (nlm_status \<times> phy_device) option" where
  "physical_device_init v2p train stack c h =
     Option.bind (lay_out train c (phy_start v2p c h)) (\<lambda>r.
       case r of Inl e \<Rightarrow> Some e | Inr p \<Rightarrow> Option.bind (configure_device p) (start_ring stack (cf_ring_id c)))"

end
