(* ===== verification/Dev_Areas.thy ===== *)
theory Dev_Areas
  imports Dev_Layout
begin

unbundle bit_operations_syntax

text \<open>
  Where the areas of a ring are: they lie one after the other in the system memory the configuration gives, aligned
  as the device needs them. Every step of the layout is described by the fields it changes.
\<close>

section \<open>Areas one after the other\<close>

fun stacked :: "addr \<Rightarrow> (addr \<times> int) list \<Rightarrow> addr \<Rightarrow> bool" where
  "stacked lo [] hi \<longleftrightarrow> lo \<le> hi"
| "stacked lo ((a, n) # as) hi \<longleftrightarrow> lo \<le> a \<and> 0 \<le> n \<and> stacked (a + n) as hi"

lemma stacked_append: "stacked lo (as @ bs) hi \<longleftrightarrow> (\<exists>m. stacked lo as m \<and> stacked m bs hi)"
proof (induction as arbitrary: lo)
  case Nil
  have "stacked lo bs hi \<Longrightarrow> lo' \<le> lo \<Longrightarrow> stacked lo' bs hi" for lo' lo
    by (cases bs) auto
  then show ?case by auto
next
  case (Cons x as)
  then show ?case by (cases x) auto
qed

lemma stacked_le: "stacked lo as hi \<Longrightarrow> lo \<le> hi"
  by (induction lo as hi rule: stacked.induct) auto

lemma stacked_mono: "stacked lo as hi \<Longrightarrow> lo' \<le> lo \<Longrightarrow> hi \<le> hi' \<Longrightarrow> stacked lo' as hi'"
proof (induction as arbitrary: lo lo')
  case (Cons x as)
  then show ?case by (cases x) auto
qed simp

text \<open>Areas one after the other do not share an address, and each lies between the bounds.\<close>

lemma stacked_within: "stacked lo as hi \<Longrightarrow> (a, n) \<in> set as \<Longrightarrow> lo \<le> a \<and> 0 \<le> n \<and> a + n \<le> hi"
proof (induction as arbitrary: lo)
  case (Cons x as)
  obtain b m where x: "x = (b, m)" by (cases x)
  have s: "lo \<le> b" "0 \<le> m" "stacked (b + m) as hi" using Cons.prems(1) x by simp_all
  show ?case
  proof (cases "(a, n) = x")
    case True
    then show ?thesis using s x stacked_le [OF s(3)] by simp
  next
    case False
    then have "(a, n) \<in> set as" using Cons.prems(2) by simp
    then show ?thesis using Cons.IH [OF s(3)] s by simp
  qed
qed simp

lemma stacked_disjoint:
  "stacked lo as hi \<Longrightarrow> i < j \<Longrightarrow> j < length as \<Longrightarrow> fst (as ! i) + snd (as ! i) \<le> fst (as ! j)"
proof (induction as arbitrary: lo i j)
  case (Cons x as)
  obtain b m where x: "x = (b, m)" by (cases x)
  have s: "stacked (b + m) as hi" using Cons.prems(1) x by simp
  obtain j' where j: "j = Suc j'" "j' < length as" using Cons.prems(2,3) by (cases j) auto
  show ?case
  proof (cases i)
    case 0
    have "(fst (as ! j'), snd (as ! j')) \<in> set as" using j(2) by simp
    then show ?thesis using stacked_within [OF s] 0 j x by fastforce
  next
    case (Suc i')
    then show ?thesis using Cons.IH [OF s, of i' j'] Cons.prems(2) j by simp
  qed
qed simp

section \<open>The areas of a ring\<close>

definition fixed_areas :: "phy_device \<Rightarrow> (addr \<times> int) list" where
  "fixed_areas p =
     (let c = config p; t = uint (cf_max_threads c); n = sizeof_fd * uint (cf_input_fifo_size c); m = sizeof_rd * uint (cf_output_fifo_size c)
      in [(cf_sysmem_base_virt c, sizeof_phy_device), (input_rd_ptr_at p, 16)] @
         (if use_ddr_memory p \<noteq> 0 then [(ddr_dma_area_at p, NLM_DDR_DMA_AREA_SIZE)] else []) @
         (if cf_ring_id c = NLM_MASTER_RING then [(database_extension_area p, uint (cf_size_of_database_extension_area c))] else []) @
         (if use_ddr_memory p = 0 then [(context_save_restore_area p, uint (cf_size_of_context_save_restore_area c))] else []) @
         [(input_fifo_base p, n), (output_fifo_base p, m)] @
         (if cf_using_manager_thread c \<noteq> 0 then
            (sw_job_fifo_base p, t * sizeof_sw_fifo) # map (\<lambda>b. (b, n)) (sw_job_bufs p) @
            (sw_result_fifo_base p, t * sizeof_sw_fifo) # map (\<lambda>b. (b, m)) (sw_result_bufs p) else []))"

definition thread_areas :: "phy_device \<Rightarrow> (addr \<times> int) list" where
  "thread_areas p =
     map (\<lambda>i. (pd_base p + int i * uint (chunksize p), uint (chunksize p))) [0..<unat (cf_max_threads (config p))]"

definition areas :: "phy_device \<Rightarrow> (addr \<times> int) list" where "areas p = fixed_areas p @ thread_areas p"

section \<open>What the steps change\<close>

lemma andthen_Inr: "andthen m f = Some (Inr y) \<longleftrightarrow> (\<exists>x. m = Some (Inr x) \<and> f x = Some (Inr y))"
proof (cases m)
  case (Some r)
  then show ?thesis by (cases r) (auto simp: andthen_def)
qed (simp add: andthen_def)

lemma case_prod_Inr: "(case x of (a, b) \<Rightarrow> f a b) = Some (Inr y) \<longleftrightarrow> (\<exists>a b. x = (a, b) \<and> f a b = Some (Inr y))"
  by (cases x) simp

lemma room_Inr: "room lim p f = Some (Inr x) \<longleftrightarrow> x = (p, f) \<and> f < lim"
  by (auto simp: room_def)

lemma bring_up_changes:
  assumes "bring_up r p = Some (Inr p')" and "hw_type p \<noteq> 5"
  shows "p' = p\<lparr>phy_hw := phy_hw p', hw_type := hw_type p', fms_blocks := fms_blocks p', rows_per_block := rows_per_block p'\<rparr>"
    and "hw_type p' \<noteq> 5"
proof -
  have found: "t = 4 \<or> t = 6" if "reset_device ring h = Some (st, Some (t, n, rw), h')" for ring h st t n rw h'
    using that by (auto simp: reset_device_def Let_def split_beta bind_eq_Some_conv split: if_splits)
  show "p' = p\<lparr>phy_hw := phy_hw p', hw_type := hw_type p', fms_blocks := fms_blocks p', rows_per_block := rows_per_block p'\<rparr>"
    using assms by (auto simp: bring_up_def bind_eq_Some_conv Let_def split_beta split: if_splits option.splits)
  show "hw_type p' \<noteq> 5"
    using assms found by (fastforce simp: bring_up_def bind_eq_Some_conv Let_def split_beta split: if_splits option.splits)
qed

lemma mirror_changes:
  "init_pointer_mirror_area p f = (p', f') \<Longrightarrow>
   p' = p\<lparr>phy_hw := phy_hw p', input_rd_ptr_at := f, input_rd_ptr := 0, output_wrt_ptr_at := f + 4, output_wrt_ptr := 0\<rparr> \<and> f' = f + 16"
  by (auto simp: init_pointer_mirror_area_def Let_def set_regs_def)

lemma ddr_changes:
  assumes "init_ddr_memory train p f = Some (p', f')"
  shows "(cf_size_of_ddr_memory (config p) = 0 \<and> p' = p\<lparr>phy_hw := phy_hw p', use_ddr_memory := 0\<rparr> \<and> f' = f) \<or>
    (cf_size_of_ddr_memory (config p) \<noteq> 0 \<and> f' = ddr_dma_area_at p' + NLM_DDR_DMA_AREA_SIZE \<and> ddr_dma_area_at p' = round_up 16 f \<and>
     p' = p\<lparr>phy_hw := phy_hw p', use_ddr_memory := 1, ddr_dma_area_at := ddr_dma_area_at p', ddr_dma_area := ddr_dma_area p'\<rparr>)"
proof -
  obtain p1 where "(if cf_size_of_ddr_memory (config p1) = 0 then (p1\<lparr>use_ddr_memory := 0\<rparr>, f)
      else let a = round_up 16 f
        in (p1\<lparr>use_ddr_memory := 1, ddr_dma_area_at := a, ddr_dma_area := replicate (nat NLM_DDR_DMA_AREA_SIZE div 4) 0\<rparr>,
            a + NLM_DDR_DMA_AREA_SIZE)) = (p', f')" and "\<exists>h. p1 = p\<lparr>phy_hw := h\<rparr>"
  proof -
    obtain p1 where 1: "(if ucast (fms_ring_id p) = NLM_MASTER_RING
        then let p1 = set_regs [(DDR_DMA_ENABLE, 1)] p in map_option (\<lambda>h. p1\<lparr>phy_hw := h\<rparr>) (train (phy_hw p1)) else Some p) = Some p1"
      and 2: "(if cf_size_of_ddr_memory (config p1) = 0 then (p1\<lparr>use_ddr_memory := 0\<rparr>, f)
      else let a = round_up 16 f
        in (p1\<lparr>use_ddr_memory := 1, ddr_dma_area_at := a, ddr_dma_area := replicate (nat NLM_DDR_DMA_AREA_SIZE div 4) 0\<rparr>,
            a + NLM_DDR_DMA_AREA_SIZE)) = (p', f')"
      using assms unfolding init_ddr_memory_def map_option_eq_Some by blast
    have "\<exists>h. p1 = p\<lparr>phy_hw := h\<rparr>"
    proof (cases "ucast (fms_ring_id p) = NLM_MASTER_RING")
      case True
      then show ?thesis using 1 by (auto simp: set_regs_def Let_def)
    next
      case False
      then have "p1 = p\<lparr>phy_hw := phy_hw p\<rparr>" using 1 by simp
      then show ?thesis by blast
    qed
    with 2 show thesis using that by blast
  qed
  then obtain h where h: "p1 = p\<lparr>phy_hw := h\<rparr>" by blast
  show ?thesis
  proof (cases "cf_size_of_ddr_memory (config p) = 0")
    case True
    then have "p' = p\<lparr>phy_hw := h, use_ddr_memory := 0\<rparr>" "f' = f" using \<open>_ = (p', f')\<close> by (simp_all add: h)
    then show ?thesis using True by simp
  next
    case False
    then have "p' = p\<lparr>phy_hw := h, use_ddr_memory := 1, ddr_dma_area_at := round_up 16 f,
        ddr_dma_area := replicate (nat NLM_DDR_DMA_AREA_SIZE div 4) 0\<rparr>" "f' = round_up 16 f + NLM_DDR_DMA_AREA_SIZE"
      using \<open>_ = (p', f')\<close> by (simp_all add: h Let_def)
    then show ?thesis using False by simp
  qed
qed

lemma extension_changes:
  assumes "init_database_extension_area p f = Some (p', f')"
  shows "f' = database_extension_area p' + uint (cf_size_of_database_extension_area (config p')) \<and>
    database_extension_area p' = round_up 128 f \<and>
    p' = p\<lparr>phy_hw := phy_hw p', database_extension_area := database_extension_area p',
      config := (config p)\<lparr>cf_size_of_database_extension_area := cf_size_of_database_extension_area (config p')\<rparr>\<rparr>"
  using assms by (auto simp: init_database_extension_area_def Let_def set_regs_def assert_then_def split: if_splits)

lemma contexts_sysmem_changes:
  assumes "init_context_save_restore_area_sysmem p f = Some (Inr (p', f'))"
  shows "f' = context_save_restore_area p' + uint (cf_size_of_context_save_restore_area (config p')) \<and>
    context_save_restore_area p' = round_up 256 f \<and>
    p' = p\<lparr>phy_hw := phy_hw p', context_save_restore_area := context_save_restore_area p', context_ring := context_ring p',
      config := (config p)\<lparr>cf_size_of_context_save_restore_area := cf_size_of_context_save_restore_area (config p')\<rparr>\<rparr>"
  using assms by (auto simp: init_context_save_restore_area_sysmem_def Let_def set_regs_def split: if_splits)

lemma fill_ddr_ring_changes:
  "fill_ddr_ring m i a p = (a', p') \<Longrightarrow> p' = p\<lparr>phy_hw := phy_hw p', ddr_dma_area := ddr_dma_area p'\<rparr>"
proof (induction m i a p arbitrary: p' rule: fill_ddr_ring.induct)
  case (1 m i a p)
  let ?n = "min (nat NLM_DDR_DMA_AREA_SIZE div 4) (m - i)"
  let ?p1 = "p\<lparr>ddr_dma_area := map (\<lambda>j. word_of_nat (i + j) * 256) [0..<?n] @ drop ?n (ddr_dma_area p)\<rparr>"
  let ?p2 = "?p1\<lparr>phy_hw := phy_hw (nlm_device_copy_into_ddr a (word_of_nat ?n * 4) (nlm_phy_device.truncate ?p1))\<rparr>"
  show ?case
  proof (cases "m \<le> i")
    case True
    then show ?thesis using 1(2) by (simp add: fill_ddr_ring.simps)
  next
    case False
    then have "fill_ddr_ring m (i + ?n) (a + word_of_nat ?n * 4) ?p2 = (a', p')"
      using 1(2) by (subst (asm) fill_ddr_ring.simps) (simp only: if_False Let_def)
    then have "p' = ?p2\<lparr>phy_hw := phy_hw p', ddr_dma_area := ddr_dma_area p'\<rparr>"
      using 1(1) False by blast
    then show ?thesis by simp
  qed
qed

lemma contexts_ddr_changes:
  assumes "init_context_save_restore_area_ddr p = Some (Inr p')"
  shows "p' = p\<lparr>phy_hw := phy_hw p', ddr_dma_area := ddr_dma_area p', pdf_base_in_ddr := pdf_base_in_ddr p', ddr_chunksize := ddr_chunksize p',
      config := (config p)\<lparr>cf_size_of_context_save_restore_area := cf_size_of_context_save_restore_area (config p')\<rparr>\<rparr>"
proof -
  let ?size = "cf_size_of_context_save_restore_area (config p) AND NOT 255"
  let ?p1 = "p\<lparr>config := (config p)\<lparr>cf_size_of_context_save_restore_area := ?size\<rparr>\<rparr>"
  let ?a = "cf_base_addr_of_ddr_memory (config p) OR push_bit 61 1" and ?r = "fms_ring_id p"
  let ?p2 = "set_regs (base_regs (CNXT_BUFF_BASE_LOW ?r) (CNXT_BUFF_BASE_HI ?r) ?a @
    base_regs (CNXT_BASE_BASE_LOW ?r) (CNXT_BASE_BASE_HI ?r) (?a + ucast ?size)) ?p1"
  obtain a' q where q: "fill_ddr_ring (unat (drop_bit 8 ?size AND NOT 3)) 0 (?a + ucast ?size) ?p2 = (a', q)"
    by (metis prod.exhaust)
  obtain ws v w where p': "p' = (set_regs ws q)\<lparr>pdf_base_in_ddr := v, ddr_chunksize := w\<rparr>"
    using assms unfolding init_context_save_restore_area_ddr_def Let_def q prod.case
    by (simp only: option.inject sum.inject split: if_split_asm) (blast | simp)+
  have "q = ?p2\<lparr>phy_hw := phy_hw q, ddr_dma_area := ddr_dma_area q\<rparr>" using fill_ddr_ring_changes [OF q] .
  then have "q = ?p1\<lparr>phy_hw := phy_hw q, ddr_dma_area := ddr_dma_area q\<rparr>" unfolding set_regs_def by simp
  then show ?thesis unfolding p' set_regs_def by (elim ssubst) simp
qed

lemma input_fifo_changes:
  assumes "init_input_fifo p f = (p', f')"
  shows "f' = input_fifo_base p' + uint (cf_input_fifo_size (config p)) * sizeof_fd \<and> input_fifo_base p' = round_up 32 f \<and>
    p' = p\<lparr>phy_hw := phy_hw p', input_fifo_base := input_fifo_base p', input_fifo := replicate (unat (cf_input_fifo_size (config p))) fd_zero\<rparr>"
  using assms by (auto simp: init_input_fifo_def Let_def set_regs_def)

lemma output_fifo_changes:
  assumes "init_output_fifo p f = (p', f')"
  shows "f' = output_fifo_base p' + uint (cf_output_fifo_size (config p)) * sizeof_rd \<and> output_fifo_base p' = round_up 16 f \<and>
    p' = p\<lparr>phy_hw := phy_hw p', output_fifo_base := output_fifo_base p', output_fifo := replicate (unat (cf_output_fifo_size (config p))) rd_zero\<rparr>"
  using assms by (auto simp: init_output_fifo_def Let_def set_regs_def)

lemma place_buffers_stacked:
  "place_buffers n sz lim f = (bs, Some f') \<Longrightarrow> 0 \<le> sz \<Longrightarrow>
   length bs = n \<and> stacked f (map (\<lambda>b. (b, sz)) bs) f' \<and> (n \<noteq> 0 \<longrightarrow> f' < lim)"
proof (induction n arbitrary: f bs)
  case (Suc n)
  then have lt: "f + sz < lim" by (auto split: if_splits)
  then obtain bs' where bs: "bs = f # bs'" "place_buffers n sz lim (f + sz) = (bs', Some f')"
    using Suc.prems by (auto split: if_splits prod.splits)
  have "length bs' = n \<and> stacked (f + sz) (map (\<lambda>b. (b, sz)) bs') f' \<and> (n \<noteq> 0 \<longrightarrow> f' < lim)"
    using Suc.IH [OF bs(2) Suc.prems(2)] .
  moreover have "n = 0 \<Longrightarrow> f' = f + sz" using bs(2) by simp
  ultimately show ?case using bs(1) lt Suc.prems(2) by auto
qed simp

text \<open>With a manager thread: the structures and buffers of the job FIFOs, then those of the result FIFOs.\<close>

lemma manager_changes:
  assumes "init_manager_thread_fifo lim p f = Some (Inr (p', f'))" and "cf_using_manager_thread (config p) \<noteq> 0"
  defines "t \<equiv> uint (cf_max_threads (config p))" and "n \<equiv> sizeof_fd * uint (cf_input_fifo_size (config p))"
    and "m \<equiv> sizeof_rd * uint (cf_output_fifo_size (config p))"
  shows "stacked f ((sw_job_fifo_base p', t * sizeof_sw_fifo) # map (\<lambda>b. (b, n)) (sw_job_bufs p') @
      (sw_result_fifo_base p', t * sizeof_sw_fifo) # map (\<lambda>b. (b, m)) (sw_result_bufs p')) f'"
    and "cf_max_threads (config p) \<noteq> 0 \<Longrightarrow> f' < lim"
    and "length (sw_job_bufs p') = unat (cf_max_threads (config p))" "length (sw_result_bufs p') = unat (cf_max_threads (config p))"
    and "8 dvd sw_result_fifo_base p'"
    and "p' = p\<lparr>sw_job_fifo_base := sw_job_fifo_base p', sw_job_bufs := sw_job_bufs p',
      sw_job_fifo := map (\<lambda>_. job_fifo_init (cf_input_fifo_size (config p)) (replicate (unat (cf_input_fifo_size (config p))) fd_zero)) (sw_job_bufs p'),
      sw_result_fifo_base := sw_result_fifo_base p', sw_result_bufs := sw_result_bufs p',
      sw_result_fifo := map (\<lambda>_. result_fifo_init \<lparr>rf_size = 0, rf_skip = 0, rf_in = 0, rf_out = 0, rf_buf = []\<rparr> (cf_output_fifo_size (config p))
        (replicate (unat (cf_output_fifo_size (config p))) rd_zero)) (sw_result_bufs p')\<rparr>"
proof -
  let ?a = "round_up 8 (f + t * sizeof_sw_fifo)" and ?T = "unat (cf_max_threads (config p))"
  obtain jbs jr where j: "place_buffers ?T n lim ?a = (jbs, jr)" by fastforce
  obtain f1 where f1: "jr = Some f1" using assms(1,2) j by (cases jr) (auto simp: init_manager_thread_fifo_def Let_def t_def n_def)
  let ?b = "round_up 8 f1"
  let ?c = "round_up 8 (?b + t * sizeof_sw_fifo)"
  obtain rbs rr where r: "place_buffers ?T m lim ?c = (rbs, rr)" by fastforce
  have b: "?b < lim" "rr = Some f'" "sw_job_fifo_base p' = f" "sw_job_bufs p' = jbs" "sw_result_fifo_base p' = ?b" "sw_result_bufs p' = rbs"
    and p': "p' = p\<lparr>sw_job_fifo_base := f, sw_job_bufs := jbs,
      sw_job_fifo := map (\<lambda>_. job_fifo_init (cf_input_fifo_size (config p)) (replicate (unat (cf_input_fifo_size (config p))) fd_zero)) jbs,
      sw_result_fifo_base := ?b, sw_result_bufs := rbs,
      sw_result_fifo := map (\<lambda>_. result_fifo_init \<lparr>rf_size = 0, rf_skip = 0, rf_in = 0, rf_out = 0, rf_buf = []\<rparr> (cf_output_fifo_size (config p))
        (replicate (unat (cf_output_fifo_size (config p))) rd_zero)) rbs\<rparr>"
    using assms(1,2) j r f1 by (auto simp: init_manager_thread_fifo_def Let_def t_def n_def m_def split: if_splits option.splits)
  have nn: "0 \<le> n" "0 \<le> m" "0 \<le> t * sizeof_sw_fifo" by (simp_all add: n_def m_def t_def sizeof_fd_def sizeof_rd_def sizeof_sw_fifo_def)
  note js = place_buffers_stacked [OF j [unfolded f1] nn(1)] and rs = place_buffers_stacked [OF r [unfolded b(2)] nn(2)]
  have "stacked (f + t * sizeof_sw_fifo) (map (\<lambda>b. (b, n)) jbs) f1"
    using js round_up_props(1) [of 8 "f + t * sizeof_sw_fifo"] stacked_mono by fastforce
  moreover have "stacked (?b + t * sizeof_sw_fifo) (map (\<lambda>b. (b, m)) rbs) f'"
    using rs round_up_props(1) [of 8 "?b + t * sizeof_sw_fifo"] stacked_mono by fastforce
  moreover have "f1 \<le> ?b" using round_up_props(1) [of 8 f1] by simp
  ultimately show "stacked f ((sw_job_fifo_base p', t * sizeof_sw_fifo) # map (\<lambda>b. (b, n)) (sw_job_bufs p') @
      (sw_result_fifo_base p', t * sizeof_sw_fifo) # map (\<lambda>b. (b, m)) (sw_result_bufs p')) f'"
    using nn by (auto simp: b stacked_append)
  show "f' < lim" if "cf_max_threads (config p) \<noteq> 0"
    using rs that by (simp add: unat_eq_0)
  show "length (sw_job_bufs p') = ?T" "length (sw_result_bufs p') = ?T" using js rs by (simp_all add: b)
  show "8 dvd sw_result_fifo_base p'" using round_up_props(3) [of 8 f1] by (simp add: b)
  show "p' = p\<lparr>sw_job_fifo_base := sw_job_fifo_base p', sw_job_bufs := sw_job_bufs p',
      sw_job_fifo := map (\<lambda>_. job_fifo_init (cf_input_fifo_size (config p)) (replicate (unat (cf_input_fifo_size (config p))) fd_zero)) (sw_job_bufs p'),
      sw_result_fifo_base := sw_result_fifo_base p', sw_result_bufs := sw_result_bufs p',
      sw_result_fifo := map (\<lambda>_. result_fifo_init \<lparr>rf_size = 0, rf_skip = 0, rf_in = 0, rf_out = 0, rf_buf = []\<rparr> (cf_output_fifo_size (config p))
        (replicate (unat (cf_output_fifo_size (config p))) rd_zero)) (sw_result_bufs p')\<rparr>"
    unfolding b by (rule p')
qed

lemma manager_none: "cf_using_manager_thread (config p) = 0 \<Longrightarrow> init_manager_thread_fifo lim p f = Some (Inr (p, f))"
  by (simp add: init_manager_thread_fifo_def)

lemma pds_changes:
  assumes "init_pds lim p f = Some (Inr p')"
  shows "pd_base p' = round_up 128 f" "512 \<le> chunksize p'"
    "p' = p\<lparr>phy_hw := phy_hw p', pd_base := pd_base p', pdf_base := pdf_base p', chunksize := chunksize p'\<rparr>"
    "use_ddr_memory p = 0 \<Longrightarrow> pdf_base p' = pd_base p'"
    "chunksize p' = word_of_int (quot ((if use_ddr_memory p = 0 \<and> (lim - round_up 128 f) div sizeof_pdf div 2 ^ 24 \<noteq> 0
       then round_up 128 f + (2 ^ 24 - 1) * sizeof_pdf else lim) - round_up 128 f) (uint (cf_max_threads (config p))))"
  using assms by (auto simp: init_pds_def Let_def set_regs_def sizeof_pd_def not_less split: if_splits)

section \<open>The parts of the threads\<close>

lemma stacked_parts: "0 \<le> n \<Longrightarrow> stacked a (map (\<lambda>i. (a + int i * n, n)) [0..<k]) (a + int k * n)"
  by (induction k) (auto simp: stacked_append algebra_simps intro!: exI [of _ "a + int _ * n"])

lemma quot_nonneg: "0 \<le> a \<Longrightarrow> quot a b = a div b" by (simp add: quot_def)

lemma pds_stacked:
  assumes p: "init_pds lim p f = Some (Inr p')" and t: "cf_max_threads (config p) \<noteq> 0"
    and room: "round_up 128 f \<le> lim" "lim - round_up 128 f < 2 ^ 32"
  shows "stacked (pd_base p') (map (\<lambda>i. (pd_base p' + int i * uint (chunksize p'), uint (chunksize p'))) [0..<unat (cf_max_threads (config p))]) lim"
proof -
  let ?a = "round_up 128 f" and ?t = "uint (cf_max_threads (config p))"
  define d where "d = (if use_ddr_memory p = 0 \<and> (lim - ?a) div sizeof_pdf div 2 ^ 24 \<noteq> 0 then ?a + (2 ^ 24 - 1) * sizeof_pdf else lim) - ?a"
  have d: "0 \<le> d" "d \<le> lim - ?a"
  proof -
    have "(2 ^ 24 - 1) * sizeof_pdf \<le> lim - ?a" if "(lim - ?a) div sizeof_pdf div 2 ^ 24 \<noteq> 0"
    proof -
      have "2 ^ 24 \<le> (lim - ?a) div sizeof_pdf"
        using that room(1) by (metis diff_ge_0_iff_ge div_pos_pos_trivial not_le pos_imp_zdiv_nonneg_iff sizeof_pdf_def zero_less_numeral)
      then show ?thesis by (simp add: sizeof_pdf_def)
    qed
    then show "0 \<le> d" "d \<le> lim - ?a" using room(1) by (auto simp: d_def sizeof_pdf_def)
  qed
  have t0: "0 < ?t" using t uint_ge_0 [of "cf_max_threads (config p)"] by (metis less_le uint_0_iff)
  have ch: "chunksize p' = word_of_int (d div ?t)" using pds_changes(5) [OF p] d(1) by (simp add: d_def quot_nonneg)
  have "d div ?t * 1 \<le> d div ?t * ?t" using d(1) t0 by (intro mult_left_mono) (simp_all add: pos_imp_zdiv_nonneg_iff)
  then have "d div ?t \<le> d" using div_mult_le_int [OF t0, of d] by linarith
  then have n: "uint (chunksize p') = d div ?t" unfolding ch using d room(2) t0
    by (simp add: uint_word_of_int pos_imp_zdiv_nonneg_iff)
  have "stacked ?a (map (\<lambda>i. (?a + int i * uint (chunksize p'), uint (chunksize p'))) [0..<unat (cf_max_threads (config p))])
      (?a + int (unat (cf_max_threads (config p))) * uint (chunksize p'))"
    by (rule stacked_parts) simp
  moreover have "int (unat (cf_max_threads (config p))) * uint (chunksize p') \<le> lim - ?a"
    using div_mult_le_int [OF t0, of d] d(2) by (simp add: n mult.commute)
  ultimately show ?thesis unfolding pds_changes(1) [OF p] using stacked_mono by fastforce
qed

section \<open>The whole layout\<close>

definition fresh_job_fifos :: "nlm_device_config \<Rightarrow> nat \<Rightarrow> nlm_job_fifo list" where
  "fresh_job_fifos c k = replicate k (job_fifo_init (cf_input_fifo_size c) (replicate (unat (cf_input_fifo_size c)) fd_zero))"

definition fresh_result_fifos :: "nlm_device_config \<Rightarrow> nat \<Rightarrow> nlm_result_fifo list" where
  "fresh_result_fifos c k = replicate k (result_fifo_init \<lparr>rf_size = 0, rf_skip = 0, rf_in = 0, rf_out = 0, rf_buf = []\<rparr>
     (cf_output_fifo_size c) (replicate (unat (cf_output_fifo_size c)) rd_zero))"

lemma fresh_fifos_config [simp]:
  "fresh_job_fifos (c\<lparr>cf_size_of_database_extension_area := d, cf_size_of_context_save_restore_area := e\<rparr>) k = fresh_job_fifos c k"
  "fresh_result_fifos (c\<lparr>cf_size_of_database_extension_area := d, cf_size_of_context_save_restore_area := e\<rparr>) k = fresh_result_fifos c k"
  by (simp_all add: fresh_job_fifos_def fresh_result_fifos_def)

text \<open>What the steps of the layout leave, besides the addresses.\<close>

definition laid_out :: "nlm_device_config \<Rightarrow> phy_device \<Rightarrow> bool" where
  "laid_out c p \<longleftrightarrow>
     (config p)\<lparr>cf_size_of_database_extension_area := 0, cf_size_of_context_save_restore_area := 0\<rparr> =
       c\<lparr>cf_size_of_database_extension_area := 0, cf_size_of_context_save_restore_area := 0\<rparr> \<and>
     input_fifo_size p = cf_input_fifo_size c \<and> output_fifo_size p = cf_output_fifo_size c \<and> max_threads p = cf_max_threads c \<and>
     using_manager_thread p = cf_using_manager_thread c \<and> fms_ring_id p = ucast (cf_ring_id c) \<and> device_magic p = NLM_DEVICE_MAGIC \<and>
     threads_attached p = 0 \<and>
     input_rd_ptr p = 0 \<and> input_wrt_ptr p = 0 \<and> output_wrt_ptr p = 0 \<and> output_rd_ptr p = 0 \<and>
     input_fifo p = replicate (unat (cf_input_fifo_size c)) fd_zero \<and> output_fifo p = replicate (unat (cf_output_fifo_size c)) rd_zero \<and>
     (cf_using_manager_thread c \<noteq> 0 \<longrightarrow> sw_job_fifo p = fresh_job_fifos c (unat (cf_max_threads c)) \<and>
        sw_result_fifo p = fresh_result_fifos c (unat (cf_max_threads c))) \<and>
     (use_ddr_memory p = 0 \<longrightarrow> pdf_base p = pd_base p) \<and> 512 \<le> chunksize p"

text \<open>How the addresses follow from each other: \<open>f5\<close>, \<open>f8\<close>, \<open>f9\<close> and \<open>f14\<close> are the free pointer after the transfer area,
  the spill-over area, the contexts and the FIFOs of the manager thread.\<close>

definition placed :: "nlm_device_config \<Rightarrow> phy_device \<Rightarrow> addr \<Rightarrow> addr \<Rightarrow> addr \<Rightarrow> addr \<Rightarrow> bool" where
  "placed c p f5 f8 f9 f14 \<longleftrightarrow>
     (let t = uint (cf_max_threads c); n = sizeof_fd * uint (cf_input_fifo_size c); m = sizeof_rd * uint (cf_output_fifo_size c);
          f3 = input_rd_ptr_at p + 16; f10 = input_fifo_base p + n; f12 = output_fifo_base p + m in
      input_rd_ptr_at p = round_up 8 (cf_sysmem_base_virt c + sizeof_phy_device) \<and> output_wrt_ptr_at p = input_rd_ptr_at p + 4 \<and>
      (if use_ddr_memory p = 0 then f5 = f3 else ddr_dma_area_at p = round_up 16 f3 \<and> f5 = ddr_dma_area_at p + NLM_DDR_DMA_AREA_SIZE) \<and>
      (if cf_ring_id c = NLM_MASTER_RING then database_extension_area p = round_up 128 f5 \<and>
         f8 = database_extension_area p + uint (cf_size_of_database_extension_area (config p)) else f8 = f5) \<and>
      (if use_ddr_memory p = 0 then context_save_restore_area p = round_up 256 f8 \<and>
         f9 = context_save_restore_area p + uint (cf_size_of_context_save_restore_area (config p)) else f9 = f8) \<and>
      input_fifo_base p = round_up 32 f9 \<and> output_fifo_base p = round_up 16 f10 \<and>
      (if cf_using_manager_thread c = 0 then f14 = f12
       else stacked f12 ((sw_job_fifo_base p, t * sizeof_sw_fifo) # map (\<lambda>b. (b, n)) (sw_job_bufs p) @
         (sw_result_fifo_base p, t * sizeof_sw_fifo) # map (\<lambda>b. (b, m)) (sw_result_bufs p)) f14) \<and>
      pd_base p = round_up 128 f14 \<and> f14 < cf_sysmem_base_virt c + uint (cf_sysmem_size c))"

definition top_aligned :: "nlm_device_config \<Rightarrow> bool" where
  "top_aligned c \<longleftrightarrow> 128 dvd cf_sysmem_base_virt c + uint (cf_sysmem_size c)"

lemma lay_out_steps:
  assumes l: "lay_out train c p0 = Some (Inr p)" and hw: "hw_type p0 \<noteq> 5"
  obtains p2 p3 p5 p8 p9 p10 p12 p14 f3 f5 f8 f9 f10 f12 f14 where
    "bring_up (cf_ring_id c) p0 = Some (Inr p2)"
    "init_pointer_mirror_area p2 (round_up 8 (cf_sysmem_base_virt c + sizeof_phy_device)) = (p3, f3)"
    "init_ddr_memory train p3 f3 = Some (p5, f5)"
    "if cf_ring_id c = NLM_MASTER_RING then init_database_extension_area (set_regs (scratch_writes c) p5) f5 = Some (p8, f8)
     else p8 = set_regs (scratch_writes c) p5 \<and> f8 = f5"
    "init_contexts p8 f8 = Some (Inr (p9, f9))"
    "init_input_fifo p9 f9 = (p10, f10)"
    "init_output_fifo p10 f10 = (p12, f12)" "f12 < round_down 64 (cf_sysmem_base_virt c + uint (cf_sysmem_size c))"
    "init_manager_thread_fifo (round_down 64 (cf_sysmem_base_virt c + uint (cf_sysmem_size c))) p12 f12 = Some (Inr (p14, f14))"
    "init_pds (round_down 64 (cf_sysmem_base_virt c + uint (cf_sysmem_size c))) p14 f14 = Some (Inr p)"
proof -
  let ?f = "round_up 8 (cf_sysmem_base_virt c + sizeof_phy_device)" and ?lim = "round_down 64 (cf_sysmem_base_virt c + uint (cf_sysmem_size c))"
  obtain p2 p3 f3 p5 f5 p8 f8 p9 f9 p10 f10 p12 f12 p14 f14 where
    1: "bring_up (cf_ring_id c) p0 = Some (Inr p2)" and 2: "init_pointer_mirror_area p2 ?f = (p3, f3)"
    and 3: "init_ddr_memory train p3 f3 = Some (p5, f5)"
    and 4: "(if hw_type (if hw_type p5 \<noteq> 5 then set_regs (scratch_writes c) p5 else p5) \<noteq> 5 \<and> cf_ring_id c = NLM_MASTER_RING
        then init_database_extension_area (if hw_type p5 \<noteq> 5 then set_regs (scratch_writes c) p5 else p5) f5
        else Some (if hw_type p5 \<noteq> 5 then set_regs (scratch_writes c) p5 else p5, f5)) = Some (p8, f8)"
    and 5: "(if hw_type p8 \<noteq> 5 then init_contexts p8 f8 else Some (Inr (p8, f8))) = Some (Inr (p9, f9))"
    and 6: "init_input_fifo p9 f9 = (p10, f10)" "init_output_fifo p10 f10 = (p12, f12)" "f12 < ?lim"
      "init_manager_thread_fifo ?lim p12 f12 = Some (Inr (p14, f14))" "init_pds ?lim p14 f14 = Some (Inr p)"
    using l unfolding lay_out_def Let_def
    by (clarsimp simp: andthen_Inr bind_eq_Some_conv room_Inr case_prod_Inr simp del: if_split)
  have h2: "hw_type p2 \<noteq> 5" using bring_up_changes(2) [OF 1 hw] .
  have "hw_type p3 = hw_type p2" using mirror_changes [OF 2] by (elim conjE) (erule ssubst, simp)
  then have h3: "hw_type p3 \<noteq> 5" using h2 by simp
  have h5: "hw_type p5 \<noteq> 5"
    using ddr_changes [OF 3] h3 by (elim disjE conjE) (erule ssubst, simp)+
  have h7: "hw_type (set_regs (scratch_writes c) p5) \<noteq> 5" using h5 by (simp add: set_regs_def)
  have e4: "if cf_ring_id c = NLM_MASTER_RING then init_database_extension_area (set_regs (scratch_writes c) p5) f5 = Some (p8, f8)
     else p8 = set_regs (scratch_writes c) p5 \<and> f8 = f5"
    using 4 h5 h7 by (auto split: if_splits)
  have h8: "hw_type p8 \<noteq> 5"
  proof (cases "cf_ring_id c = NLM_MASTER_RING")
    case True
    then have "init_database_extension_area (set_regs (scratch_writes c) p5) f5 = Some (p8, f8)" using e4 by simp
    from extension_changes [OF this] show ?thesis using h7 by (elim conjE) (erule ssubst, simp)
  next
    case False
    then show ?thesis using e4 h7 by simp
  qed
  then have e5: "init_contexts p8 f8 = Some (Inr (p9, f9))" using 5 by simp
  show thesis by (rule that [OF 1 2 3 e4 e5 6])
qed

text \<open>The same, with the new contents of the fields as parameters.\<close>

lemma step_forms:
  "bring_up r p = Some (Inr p') \<Longrightarrow> hw_type p \<noteq> 5 \<Longrightarrow>
     \<exists>h t n w. p' = p\<lparr>phy_hw := h, hw_type := t, fms_blocks := n, rows_per_block := w\<rparr>"
  "init_pointer_mirror_area p f = (p', f') \<Longrightarrow>
     \<exists>h. p' = p\<lparr>phy_hw := h, input_rd_ptr_at := f, input_rd_ptr := 0, output_wrt_ptr_at := f + 4, output_wrt_ptr := 0\<rparr> \<and> f' = f + 16"
  "init_ddr_memory train p f = Some (p', f') \<Longrightarrow>
     \<exists>h u a x. p' = p\<lparr>phy_hw := h, use_ddr_memory := u, ddr_dma_area_at := a, ddr_dma_area := x\<rparr> \<and>
       (u = 0 \<longrightarrow> f' = f) \<and> (u \<noteq> 0 \<longrightarrow> a = round_up 16 f \<and> f' = a + NLM_DDR_DMA_AREA_SIZE)"
  "init_database_extension_area p f = Some (p', f') \<Longrightarrow>
     \<exists>h z. p' = p\<lparr>phy_hw := h, database_extension_area := round_up 128 f, config := (config p)\<lparr>cf_size_of_database_extension_area := z\<rparr>\<rparr> \<and>
       f' = round_up 128 f + uint z"
  "init_context_save_restore_area_sysmem p f = Some (Inr (p', f')) \<Longrightarrow>
     \<exists>h x z. p' = p\<lparr>phy_hw := h, context_save_restore_area := round_up 256 f, context_ring := x,
       config := (config p)\<lparr>cf_size_of_context_save_restore_area := z\<rparr>\<rparr> \<and> f' = round_up 256 f + uint z"
  "init_context_save_restore_area_ddr p = Some (Inr p') \<Longrightarrow>
     \<exists>h x b ch z. p' = p\<lparr>phy_hw := h, ddr_dma_area := x, pdf_base_in_ddr := b, ddr_chunksize := ch,
       config := (config p)\<lparr>cf_size_of_context_save_restore_area := z\<rparr>\<rparr>"
  "init_input_fifo p f = (p', f') \<Longrightarrow>
     \<exists>h. p' = p\<lparr>phy_hw := h, input_fifo_base := round_up 32 f, input_fifo := replicate (unat (cf_input_fifo_size (config p))) fd_zero\<rparr> \<and>
       f' = round_up 32 f + uint (cf_input_fifo_size (config p)) * sizeof_fd"
  "init_output_fifo p f = (p', f') \<Longrightarrow>
     \<exists>h. p' = p\<lparr>phy_hw := h, output_fifo_base := round_up 16 f, output_fifo := replicate (unat (cf_output_fifo_size (config p))) rd_zero\<rparr> \<and>
       f' = round_up 16 f + uint (cf_output_fifo_size (config p)) * sizeof_rd"
  "init_pds lim p f = Some (Inr p') \<Longrightarrow>
     \<exists>h b ch. p' = p\<lparr>phy_hw := h, pd_base := round_up 128 f, pdf_base := b, chunksize := ch\<rparr> \<and> 512 \<le> ch \<and>
       (use_ddr_memory p = 0 \<longrightarrow> b = round_up 128 f)"
  subgoal using bring_up_changes(1) by blast
  subgoal using mirror_changes by blast
  subgoal premises prems
  proof -
    from ddr_changes [OF prems] show ?thesis
    proof (elim disjE conjE)
      assume e: "p' = p\<lparr>phy_hw := phy_hw p', use_ddr_memory := 0\<rparr>" and "f' = f"
      have e2: "p' = p\<lparr>phy_hw := phy_hw p', use_ddr_memory := 0, ddr_dma_area_at := ddr_dma_area_at p, ddr_dma_area := ddr_dma_area p\<rparr>"
        by (subst e) simp
      then show ?thesis using \<open>f' = f\<close>
        by (intro exI [of _ "phy_hw p'"] exI [of _ 0] exI [of _ "ddr_dma_area_at p"] exI [of _ "ddr_dma_area p"] conjI e2) simp_all
    next
      assume "f' = ddr_dma_area_at p' + NLM_DDR_DMA_AREA_SIZE" "ddr_dma_area_at p' = round_up 16 f"
        and e: "p' = p\<lparr>phy_hw := phy_hw p', use_ddr_memory := 1, ddr_dma_area_at := ddr_dma_area_at p', ddr_dma_area := ddr_dma_area p'\<rparr>"
      then show ?thesis
        by (intro exI [of _ "phy_hw p'"] exI [of _ 1] exI [of _ "ddr_dma_area_at p'"] exI [of _ "ddr_dma_area p'"] conjI e) simp_all
    qed
  qed
  subgoal premises prems
  proof -
    note c = extension_changes [OF prems]
    have b: "database_extension_area p' = round_up 128 f" using c by blast
    from c show ?thesis unfolding b by blast
  qed
  subgoal premises prems
  proof -
    note c = contexts_sysmem_changes [OF prems]
    have b: "context_save_restore_area p' = round_up 256 f" using c by blast
    from c show ?thesis unfolding b by blast
  qed
  subgoal using contexts_ddr_changes by blast
  subgoal premises prems
  proof -
    note c = input_fifo_changes [OF prems]
    have b: "input_fifo_base p' = round_up 32 f" using c by blast
    from c show ?thesis unfolding b by blast
  qed
  subgoal premises prems
  proof -
    note c = output_fifo_changes [OF prems]
    have b: "output_fifo_base p' = round_up 16 f" using c by blast
    from c show ?thesis unfolding b by blast
  qed
  subgoal premises prems
  proof -
    note c = pds_changes(3) [OF prems]
    show ?thesis using c pds_changes(2,4) [OF prems] unfolding pds_changes(1) [OF prems] by blast
  qed
  done

lemma master_form:
  assumes "if cf_ring_id c = NLM_MASTER_RING then init_database_extension_area p f = Some (p', f') else p' = p \<and> f' = f"
  shows "\<exists>h x z. p' = p\<lparr>phy_hw := h, database_extension_area := x, config := (config p)\<lparr>cf_size_of_database_extension_area := z\<rparr>\<rparr> \<and>
    (cf_ring_id c = NLM_MASTER_RING \<longrightarrow> x = round_up 128 f \<and> f' = round_up 128 f + uint z) \<and> (cf_ring_id c \<noteq> NLM_MASTER_RING \<longrightarrow> f' = f)"
proof (cases "cf_ring_id c = NLM_MASTER_RING")
  case True
  then have "init_database_extension_area p f = Some (p', f')" using assms by simp
  from step_forms(4) [OF this] show ?thesis using True by blast
next
  case False
  then have "p' = p\<lparr>phy_hw := phy_hw p, database_extension_area := database_extension_area p,
      config := (config p)\<lparr>cf_size_of_database_extension_area := cf_size_of_database_extension_area (config p)\<rparr>\<rparr>"
    using assms by simp
  then show ?thesis using False assms by metis
qed

lemma contexts_form:
  assumes "init_contexts p f = Some (Inr (p', f'))"
  shows "\<exists>h x r d b ch z. p' = p\<lparr>phy_hw := h, context_save_restore_area := x, context_ring := r, ddr_dma_area := d, pdf_base_in_ddr := b,
      ddr_chunksize := ch, config := (config p)\<lparr>cf_size_of_context_save_restore_area := z\<rparr>\<rparr> \<and>
    (use_ddr_memory p = 0 \<longrightarrow> x = round_up 256 f \<and> f' = round_up 256 f + uint z) \<and> (use_ddr_memory p \<noteq> 0 \<longrightarrow> f' = f)"
proof (cases "use_ddr_memory p = 0")
  case True
  then have "init_context_save_restore_area_sysmem p f = Some (Inr (p', f'))" using assms by (simp add: init_contexts_def)
  from step_forms(5) [OF this] obtain h x z where e: "p' = p\<lparr>phy_hw := h, context_save_restore_area := round_up 256 f, context_ring := x,
       config := (config p)\<lparr>cf_size_of_context_save_restore_area := z\<rparr>\<rparr>" "f' = round_up 256 f + uint z" by blast
  have "p' = p\<lparr>phy_hw := h, context_save_restore_area := round_up 256 f, context_ring := x, ddr_dma_area := ddr_dma_area p,
      pdf_base_in_ddr := pdf_base_in_ddr p, ddr_chunksize := ddr_chunksize p, config := (config p)\<lparr>cf_size_of_context_save_restore_area := z\<rparr>\<rparr>"
    unfolding e(1) by simp
  then show ?thesis using e(2) True by blast
next
  case False
  then have "init_context_save_restore_area_ddr p = Some (Inr p')" and f: "f' = f"
    using assms by (auto simp: init_contexts_def andthen_Inr)
  from step_forms(6) [OF this(1)] obtain h x b ch z where e: "p' = p\<lparr>phy_hw := h, ddr_dma_area := x, pdf_base_in_ddr := b, ddr_chunksize := ch,
       config := (config p)\<lparr>cf_size_of_context_save_restore_area := z\<rparr>\<rparr>" by blast
  have "p' = p\<lparr>phy_hw := h, context_save_restore_area := context_save_restore_area p, context_ring := context_ring p, ddr_dma_area := x,
      pdf_base_in_ddr := b, ddr_chunksize := ch, config := (config p)\<lparr>cf_size_of_context_save_restore_area := z\<rparr>\<rparr>"
    unfolding e by simp
  then show ?thesis using f False by blast
qed

lemma manager_form:
  assumes "init_manager_thread_fifo lim p f = Some (Inr (p', f'))"
  shows "\<exists>j js jf r rs rf. p' = p\<lparr>sw_job_fifo_base := j, sw_job_bufs := js, sw_job_fifo := jf, sw_result_fifo_base := r,
      sw_result_bufs := rs, sw_result_fifo := rf\<rparr> \<and>
    (cf_using_manager_thread (config p) = 0 \<longrightarrow> f' = f) \<and>
    (cf_using_manager_thread (config p) \<noteq> 0 \<longrightarrow>
      jf = fresh_job_fifos (config p) (unat (cf_max_threads (config p))) \<and> rf = fresh_result_fifos (config p) (unat (cf_max_threads (config p))) \<and>
      (cf_max_threads (config p) \<noteq> 0 \<longrightarrow> f' < lim) \<and>
      stacked f ((j, uint (cf_max_threads (config p)) * sizeof_sw_fifo) # map (\<lambda>b. (b, sizeof_fd * uint (cf_input_fifo_size (config p)))) js @
        (r, uint (cf_max_threads (config p)) * sizeof_sw_fifo) # map (\<lambda>b. (b, sizeof_rd * uint (cf_output_fifo_size (config p)))) rs) f')"
proof (cases "cf_using_manager_thread (config p) = 0")
  case True
  then have "p' = p\<lparr>sw_job_fifo_base := sw_job_fifo_base p, sw_job_bufs := sw_job_bufs p, sw_job_fifo := sw_job_fifo p,
      sw_result_fifo_base := sw_result_fifo_base p, sw_result_bufs := sw_result_bufs p, sw_result_fifo := sw_result_fifo p\<rparr>" "f' = f"
    using assms manager_none [OF True, of lim f] by simp_all
  then show ?thesis using True by blast
next
  case False
  note m = manager_changes [OF assms False]
  have c: "map (\<lambda>_. x) xs = replicate (length xs) x" for x and xs :: "addr list" by (simp add: map_replicate_const)
  have "p' = p\<lparr>sw_job_fifo_base := sw_job_fifo_base p', sw_job_bufs := sw_job_bufs p',
      sw_job_fifo := fresh_job_fifos (config p) (unat (cf_max_threads (config p))), sw_result_fifo_base := sw_result_fifo_base p',
      sw_result_bufs := sw_result_bufs p', sw_result_fifo := fresh_result_fifos (config p) (unat (cf_max_threads (config p)))\<rparr>"
    using m(6) [unfolded map_replicate_const m(3,4)] unfolding fresh_job_fifos_def fresh_result_fifos_def .
  then show ?thesis using False m(1,2) by blast
qed

lemma lay_out_result:
  assumes l: "lay_out train c (phy_start v2p c h0) = Some (Inr p)" and ok: "config_error c = None" and al: "top_aligned c"
  shows "laid_out c p \<and> (\<exists>f5 f8 f9 f14 p14. placed c p f5 f8 f9 f14 \<and> config p14 = config p \<and>
    init_pds (cf_sysmem_base_virt c + uint (cf_sysmem_size c)) p14 f14 = Some (Inr p))"
proof -
  let ?p0 = "phy_start v2p c h0" and ?base = "cf_sysmem_base_virt c" and ?top = "cf_sysmem_base_virt c + uint (cf_sysmem_size c)"
  have lim: "round_down 64 ?top = ?top"
    using al by (intro round_aligned) (auto simp: top_aligned_def elim: dvd_trans [rotated])
  have hw0: "hw_type ?p0 \<noteq> 5" by (simp add: phy_start_def)
  obtain p2 p3 p5 p8 p9 p10 p12 p14 f3 f5 f8 f9 f10 f12 f14 where st:
    "bring_up (cf_ring_id c) ?p0 = Some (Inr p2)" "init_pointer_mirror_area p2 (round_up 8 (?base + sizeof_phy_device)) = (p3, f3)"
    "init_ddr_memory train p3 f3 = Some (p5, f5)"
    "if cf_ring_id c = NLM_MASTER_RING then init_database_extension_area (set_regs (scratch_writes c) p5) f5 = Some (p8, f8)
     else p8 = set_regs (scratch_writes c) p5 \<and> f8 = f5"
    "init_contexts p8 f8 = Some (Inr (p9, f9))" "init_input_fifo p9 f9 = (p10, f10)"
    "init_output_fifo p10 f10 = (p12, f12)" "f12 < ?top"
    "init_manager_thread_fifo ?top p12 f12 = Some (Inr (p14, f14))" "init_pds ?top p14 f14 = Some (Inr p)"
    by (rule lay_out_steps [OF l hw0, unfolded lim])
  obtain h2 t2 n2 w2 where e2: "p2 = ?p0\<lparr>phy_hw := h2, hw_type := t2, fms_blocks := n2, rows_per_block := w2\<rparr>"
    using step_forms(1) [OF st(1) hw0] by blast
  define f1 where "f1 = round_up 8 (?base + sizeof_phy_device)"
  obtain h3 where e3: "p3 = p2\<lparr>phy_hw := h3, input_rd_ptr_at := f1, input_rd_ptr := 0, output_wrt_ptr_at := f1 + 4, output_wrt_ptr := 0\<rparr>"
    and f3: "f3 = f1 + 16" using step_forms(2) [OF st(2)] unfolding f1_def by blast
  obtain h5 u a5 x5 where e5: "p5 = p3\<lparr>phy_hw := h5, use_ddr_memory := u, ddr_dma_area_at := a5, ddr_dma_area := x5\<rparr>"
    and f5: "u = 0 \<longrightarrow> f5 = f3" "u \<noteq> 0 \<longrightarrow> a5 = round_up 16 f3 \<and> f5 = a5 + NLM_DDR_DMA_AREA_SIZE"
    using step_forms(3) [OF st(3)] by blast
  obtain h8 x8 z8 where e8: "p8 = (set_regs (scratch_writes c) p5)\<lparr>phy_hw := h8, database_extension_area := x8,
      config := (config (set_regs (scratch_writes c) p5))\<lparr>cf_size_of_database_extension_area := z8\<rparr>\<rparr>"
    and f8: "cf_ring_id c = NLM_MASTER_RING \<longrightarrow> x8 = round_up 128 f5 \<and> f8 = round_up 128 f5 + uint z8"
      "cf_ring_id c \<noteq> NLM_MASTER_RING \<longrightarrow> f8 = f5"
    using master_form [OF st(4)] by blast
  obtain h9 x9 r9 d9 b9 c9 z9 where e9: "p9 = p8\<lparr>phy_hw := h9, context_save_restore_area := x9, context_ring := r9, ddr_dma_area := d9,
      pdf_base_in_ddr := b9, ddr_chunksize := c9, config := (config p8)\<lparr>cf_size_of_context_save_restore_area := z9\<rparr>\<rparr>"
    and f9: "use_ddr_memory p8 = 0 \<longrightarrow> x9 = round_up 256 f8 \<and> f9 = round_up 256 f8 + uint z9" "use_ddr_memory p8 \<noteq> 0 \<longrightarrow> f9 = f8"
    using contexts_form [OF st(5)] by blast
  obtain h10 where e10: "p10 = p9\<lparr>phy_hw := h10, input_fifo_base := round_up 32 f9, input_fifo := replicate (unat (cf_input_fifo_size (config p9))) fd_zero\<rparr>"
    and f10: "f10 = round_up 32 f9 + uint (cf_input_fifo_size (config p9)) * sizeof_fd" using step_forms(7) [OF st(6)] by blast
  obtain h12 where e12: "p12 = p10\<lparr>phy_hw := h12, output_fifo_base := round_up 16 f10, output_fifo := replicate (unat (cf_output_fifo_size (config p10))) rd_zero\<rparr>"
    and f12: "f12 = round_up 16 f10 + uint (cf_output_fifo_size (config p10)) * sizeof_rd" using step_forms(8) [OF st(7)] by blast
  obtain j14 js jf r14 rs rf where e14: "p14 = p12\<lparr>sw_job_fifo_base := j14, sw_job_bufs := js, sw_job_fifo := jf, sw_result_fifo_base := r14,
      sw_result_bufs := rs, sw_result_fifo := rf\<rparr>"
    and f14: "cf_using_manager_thread (config p12) = 0 \<longrightarrow> f14 = f12" and m14: "cf_using_manager_thread (config p12) \<noteq> 0 \<longrightarrow>
      jf = fresh_job_fifos (config p12) (unat (cf_max_threads (config p12))) \<and> rf = fresh_result_fifos (config p12) (unat (cf_max_threads (config p12))) \<and>
      (cf_max_threads (config p12) \<noteq> 0 \<longrightarrow> f14 < ?top) \<and>
      stacked f12 ((j14, uint (cf_max_threads (config p12)) * sizeof_sw_fifo) # map (\<lambda>b. (b, sizeof_fd * uint (cf_input_fifo_size (config p12)))) js @
        (r14, uint (cf_max_threads (config p12)) * sizeof_sw_fifo) # map (\<lambda>b. (b, sizeof_rd * uint (cf_output_fifo_size (config p12)))) rs) f14"
    using manager_form [OF st(9)] by blast
  obtain h15 b15 ch where e15: "p = p14\<lparr>phy_hw := h15, pd_base := round_up 128 f14, pdf_base := b15, chunksize := ch\<rparr>"
    and c15: "512 \<le> ch" "use_ddr_memory p14 = 0 \<longrightarrow> b15 = round_up 128 f14" using step_forms(9) [OF st(10)] by blast
  note es = e15 e14 e12 e10 e9 e8 e5 e3 e2
  have cfg: "config p12 = c\<lparr>cf_size_of_database_extension_area := z8, cf_size_of_context_save_restore_area := z9\<rparr>"
    "config p10 = config p12" "config p9 = config p12" "config p14 = config p12" "config p = config p12"
    by (simp_all add: es set_regs_def phy_start_def)
  have u: "use_ddr_memory p8 = u" "use_ddr_memory p14 = u" "use_ddr_memory p = u" by (simp_all add: es set_regs_def)
  have t: "cf_max_threads c \<noteq> 0" using config_in_range(10) [OF config_ok(1) [OF ok]] .
  have at: "input_rd_ptr_at p = f1" "output_wrt_ptr_at p = f1 + 4" "ddr_dma_area_at p = a5" "database_extension_area p = x8"
    "context_save_restore_area p = x9" "input_fifo_base p = round_up 32 f9" "output_fifo_base p = round_up 16 f10" "sw_job_fifo_base p = j14"
    "sw_job_bufs p = js" "sw_result_fifo_base p = r14" "sw_result_bufs p = rs" "pd_base p = round_up 128 f14"
    by (simp_all add: es set_regs_def)
  have "laid_out c p" using m14 c15 unfolding laid_out_def cfg u
    by (simp add: es set_regs_def phy_start_def cfg(1))
  moreover have "placed c p f5 f8 f9 f14"
    using f3 f5 f8 f9 f10 f12 f14 m14 st(8) t
    by (simp add: placed_def Let_def at u cfg f1_def mult.commute)
  ultimately show ?thesis using st(10) cfg by metis
qed

lemma stackedI: "stacked lo as m \<Longrightarrow> stacked m bs hi \<Longrightarrow> stacked lo (as @ bs) hi"
  using stacked_append by blast

lemma laid_out_config:
  assumes "laid_out c p"
  shows "cf_sysmem_base_virt (config p) = cf_sysmem_base_virt c" "cf_max_threads (config p) = cf_max_threads c"
    "cf_input_fifo_size (config p) = cf_input_fifo_size c" "cf_output_fifo_size (config p) = cf_output_fifo_size c"
    "cf_ring_id (config p) = cf_ring_id c" "cf_using_manager_thread (config p) = cf_using_manager_thread c"
  using assms unfolding laid_out_def
  by (metis (no_types, lifting) nlm_device_config.select_convs nlm_device_config.surjective nlm_device_config.update_convs)+

lemma placed_stacked:
  assumes pl: "placed c p f5 f8 f9 f14" and lo: "laid_out c p"
  shows "stacked (cf_sysmem_base_virt c) (fixed_areas p) f14"
proof -
  note same = laid_out_config [OF lo]
  let ?f3 = "input_rd_ptr_at p + 16" and ?n = "sizeof_fd * uint (cf_input_fifo_size c)" and ?m = "sizeof_rd * uint (cf_output_fifo_size c)"
  note P = pl [unfolded placed_def Let_def]
  have up: "q \<le> round_up k q" if "0 < k" for k q using round_up_props(1) that by blast
  have nn: "0 \<le> ?n" "0 \<le> ?m" by (simp_all add: sizeof_fd_def sizeof_rd_def)
  have s1: "stacked (cf_sysmem_base_virt c) [(cf_sysmem_base_virt c, sizeof_phy_device), (input_rd_ptr_at p, 16)] ?f3"
    using P up [of 8 "cf_sysmem_base_virt c + sizeof_phy_device"] by (simp add: sizeof_phy_device_def)
  have s2: "stacked ?f3 (if use_ddr_memory p \<noteq> 0 then [(ddr_dma_area_at p, NLM_DDR_DMA_AREA_SIZE)] else []) f5"
    using P up [of 16 ?f3] by (simp add: NLM_DDR_DMA_AREA_SIZE_def)
  have s3: "stacked f5 (if cf_ring_id c = NLM_MASTER_RING then [(database_extension_area p, uint (cf_size_of_database_extension_area (config p)))] else []) f8"
    using P up [of 128 f5] by simp
  have s4: "stacked f8 (if use_ddr_memory p = 0 then [(context_save_restore_area p, uint (cf_size_of_context_save_restore_area (config p)))] else []) f9"
    using P up [of 256 f8] by simp
  have s5: "stacked f9 [(input_fifo_base p, ?n), (output_fifo_base p, ?m)] (output_fifo_base p + ?m)"
    using P up [of 32 f9] up [of 16 "input_fifo_base p + ?n"] nn by simp
  have s6: "stacked (output_fifo_base p + ?m) (if cf_using_manager_thread c \<noteq> 0 then
      (sw_job_fifo_base p, uint (cf_max_threads c) * sizeof_sw_fifo) # map (\<lambda>b. (b, ?n)) (sw_job_bufs p) @
      (sw_result_fifo_base p, uint (cf_max_threads c) * sizeof_sw_fifo) # map (\<lambda>b. (b, ?m)) (sw_result_bufs p) else []) f14"
  proof -
    have "if cf_using_manager_thread c = 0 then f14 = output_fifo_base p + ?m
      else stacked (output_fifo_base p + ?m) ((sw_job_fifo_base p, uint (cf_max_threads c) * sizeof_sw_fifo) # map (\<lambda>b. (b, ?n)) (sw_job_bufs p) @
         (sw_result_fifo_base p, uint (cf_max_threads c) * sizeof_sw_fifo) # map (\<lambda>b. (b, ?m)) (sw_result_bufs p)) f14"
      using P by blast
    then show ?thesis by (cases "cf_using_manager_thread c = 0") (simp_all del: stacked.simps(2))
  qed
  show ?thesis unfolding fixed_areas_def Let_def same append_assoc using s1 s2 s3 s4 s5 s6 by (intro stackedI)
qed

lemma configure_changes:
  assumes "configure_device p = Some p'"
  shows "p' = p\<lparr>phy_hw := phy_hw p', load_policy := 0, packet_enqueue_policy := 0, packet_base := packet_base p'\<rparr> \<and>
    length (packet_base p') = HW_PACKET_BASES"
  using assms by (auto simp: configure_device_def Let_def set_regs_def assert_then_def split: if_splits)

lemma start_changes:
  assumes "start_ring stack r p = Some (st, p')"
  shows "\<exists>h. p' = p\<lparr>phy_hw := h\<rparr>"
proof (cases "r = NLM_MASTER_RING")
  case False
  obtain s h where c: "check_mem_overlap stack (phy_hw p) = (s, h)" by fastforce
  have "start_ring stack r p = (if s \<noteq> NLM_OK then Some (s, set_regs [(PDF_CONFIG (fms_ring_id p), PDF0_CONFIG_DEFAULT)] (p\<lparr>phy_hw := h\<rparr>))
      else Some (NLM_OK, p\<lparr>phy_hw := h\<rparr>))"
    using False by (simp add: start_ring_def c)
  then show ?thesis using assms by (cases "s = NLM_OK") (auto simp: set_regs_def)
next
  case True
  obtain s h where i: "init_hw_memory (phy_hw p) = Some (s, h)" using assms True by (auto simp: start_ring_def bind_eq_Some_conv)
  let ?p1 = "set_regs [(SYS_CONTROL, 1)] (p\<lparr>phy_hw := h\<rparr>)"
  obtain t h' where c: "check_device_sanity (fms_ring_id p) (phy_hw ?p1) = (t, h')" by fastforce
  have "start_ring stack r p = (if s \<noteq> NLM_OK then Some (s, p\<lparr>phy_hw := h\<rparr>)
      else if hw_type p \<noteq> 5 then Some (t, ?p1\<lparr>phy_hw := h'\<rparr>) else Some (NLM_OK, ?p1))"
    unfolding start_ring_def i using True c by (simp only: simp_thms if_False bind.bind_lunit prod.case Let_def)
  then have "p' \<in> {p\<lparr>phy_hw := h\<rparr>, ?p1\<lparr>phy_hw := h'\<rparr>, ?p1}" using assms by (simp split: if_splits)
  then have "p' \<in> {p\<lparr>phy_hw := h\<rparr>, p\<lparr>phy_hw := h'\<rparr>, p\<lparr>phy_hw := SET_HW_REGISTER SYS_CONTROL 1 h\<rparr>}" by (simp add: set_regs_def)
  then show ?thesis by blast
qed

text \<open>An early return never reports success.\<close>

definition refuses :: "'a step \<Rightarrow> bool" where "refuses m \<longleftrightarrow> (\<forall>st q. m = Some (Inl (st, q)) \<longrightarrow> st \<noteq> NLM_OK)"

lemma refuses_andthen: "refuses m \<Longrightarrow> (\<And>x. refuses (f x)) \<Longrightarrow> refuses (andthen m f)"
proof (cases m)
  case (Some r)
  then show "refuses m \<Longrightarrow> (\<And>x. refuses (f x)) \<Longrightarrow> refuses (andthen m f)" by (cases r) (auto simp: refuses_def andthen_def)
qed (simp add: refuses_def andthen_def)

lemma refuses_bind: "(\<And>x. refuses (f x)) \<Longrightarrow> refuses (Option.bind m f)"
  by (auto simp: refuses_def bind_eq_Some_conv)

lemma refuses_steps:
  "refuses (room lim p f)" "refuses (bring_up r p)" "refuses (init_contexts p f)" "refuses (init_manager_thread_fifo lim p f)"
  "refuses (init_pds lim p f)" "refuses (Some (Inr x))"
  subgoal by (simp add: refuses_def room_def)
  subgoal by (auto simp: refuses_def bring_up_def bind_eq_Some_conv Let_def split_beta split: if_splits)
  subgoal by (auto simp: refuses_def init_contexts_def andthen_def bind_eq_Some_conv init_context_save_restore_area_ddr_def
      init_context_save_restore_area_sysmem_def Let_def split_beta split: if_splits sum.splits)
  subgoal by (auto simp: refuses_def init_manager_thread_fifo_def Let_def split_beta split: if_splits option.splits)
  subgoal by (auto simp: refuses_def init_pds_def Let_def split_beta split: if_splits)
  subgoal by (simp add: refuses_def)
  done

lemma refuses_lay_out: "refuses (lay_out train c p)"
  unfolding lay_out_def Let_def
  by (auto intro!: refuses_andthen refuses_bind refuses_steps split: prod.splits)

lemma physical_device_init_OK:
  assumes "physical_device_init v2p train stack c h = Some (NLM_OK, p)"
  obtains p1 g b where "lay_out train c (phy_start v2p c h) = Some (Inr p1)"
    "p = p1\<lparr>phy_hw := g, load_policy := 0, packet_enqueue_policy := 0, packet_base := b\<rparr>" "length b = HW_PACKET_BASES"
proof -
  obtain r where r: "lay_out train c (phy_start v2p c h) = Some r"
    "(case r of Inl e \<Rightarrow> Some e | Inr p \<Rightarrow> Option.bind (configure_device p) (start_ring stack (cf_ring_id c))) = Some (NLM_OK, p)"
    using assms by (auto simp: physical_device_init_def bind_eq_Some_conv)
  have "\<forall>q. r \<noteq> Inl (NLM_OK, q)" using refuses_lay_out r(1) unfolding refuses_def by blast
  then obtain p1 where p1: "r = Inr p1" using r(2) by (cases r) auto
  then obtain p2 where p2: "configure_device p1 = Some p2" "start_ring stack (cf_ring_id c) p2 = Some (NLM_OK, p)"
    using r(2) by (auto simp: bind_eq_Some_conv)
  obtain g b where g: "p2 = p1\<lparr>phy_hw := g, load_policy := 0, packet_enqueue_policy := 0, packet_base := b\<rparr>" "length b = HW_PACKET_BASES"
    using configure_changes [OF p2(1)] by blast
  obtain g' where "p = p2\<lparr>phy_hw := g'\<rparr>" using start_changes [OF p2(2)] by blast
  then have "p = p1\<lparr>phy_hw := g', load_policy := 0, packet_enqueue_policy := 0, packet_base := b\<rparr>" unfolding g(1) by simp
  then show thesis using that r(1) p1 g(2) by blast
qed

text \<open>Configuring the registers leaves the layout alone.\<close>

lemma configured_same:
  "areas (p\<lparr>phy_hw := g, load_policy := x, packet_enqueue_policy := y, packet_base := b\<rparr>) = areas p"
  "laid_out c (p\<lparr>phy_hw := g, load_policy := x, packet_enqueue_policy := y, packet_base := b\<rparr>) = laid_out c p"
  "placed c (p\<lparr>phy_hw := g, load_policy := x, packet_enqueue_policy := y, packet_base := b\<rparr>) = placed c p"
  by (simp_all add: areas_def fixed_areas_def thread_areas_def laid_out_def placed_def fun_eq_iff cong: if_cong)

lemma physical_device_laid_out:
  assumes init: "physical_device_init v2p train stack c h = Some (NLM_OK, p)" and ok: "config_error c = None" and al: "top_aligned c"
  shows "laid_out c p" and "stacked (cf_sysmem_base_virt c) (areas p) (cf_sysmem_base_virt c + uint (cf_sysmem_size c))"
    and "\<exists>f5 f8 f9 f14. placed c p f5 f8 f9 f14"
proof -
  let ?top = "cf_sysmem_base_virt c + uint (cf_sysmem_size c)"
  obtain p1 g b where p1: "lay_out train c (phy_start v2p c h) = Some (Inr p1)"
    and p: "p = p1\<lparr>phy_hw := g, load_policy := 0, packet_enqueue_policy := 0, packet_base := b\<rparr>"
    by (rule physical_device_init_OK [OF init])
  obtain f5 f8 f9 f14 p14 where l: "laid_out c p1" "placed c p1 f5 f8 f9 f14" "config p14 = config p1" "init_pds ?top p14 f14 = Some (Inr p1)"
    using lay_out_result [OF p1 ok al] by blast
  have t: "cf_max_threads (config p14) \<noteq> 0"
    using l(1,3) laid_out_config(2) config_in_range(10) [OF config_ok(1) [OF ok]] by simp
  have pd: "pd_base p1 = round_up 128 f14" "f14 < ?top" using l(2) by (simp_all add: placed_def Let_def)
  have below: "stacked (cf_sysmem_base_virt c) (fixed_areas p1) f14" using l(2,1) by (rule placed_stacked)
  have up: "f14 \<le> round_up 128 f14" using round_up_props(1) by simp
  have room: "round_up 128 f14 \<le> ?top" using al pd(2) by (intro round_up_le) (simp_all add: top_aligned_def)
  have "?top - round_up 128 f14 < 2 ^ 32"
    using stacked_le [OF below] up uint_lt2p [of "cf_sysmem_size c"] by simp
  from pds_stacked [OF l(4) t room this] have "stacked (pd_base p1) (thread_areas p1) ?top"
    unfolding thread_areas_def l(3) .
  then have "stacked f14 (thread_areas p1) ?top" using up unfolding pd(1) by (rule stacked_mono) simp_all
  then have "stacked (cf_sysmem_base_virt c) (areas p1) ?top" unfolding areas_def using below stackedI by blast
  then show "stacked (cf_sysmem_base_virt c) (areas p) ?top" unfolding p configured_same .
  show "laid_out c p" unfolding p configured_same by (rule l(1))
  show "\<exists>f5 f8 f9 f14. placed c p f5 f8 f9 f14" using l(2) unfolding p configured_same by blast
qed

text \<open>C23. When a ring was brought up, the areas of its system memory - the device structure, the pointer mirrors, the transfer
  area, the spill-over area of the databases, the contexts, the two rings, the FIFOs of the manager thread and the part of each
  thread - lie one after the other, without overlap, inside the system memory, aligned as the device needs them. This needs
  the end of the system memory to be a multiple of 128.\<close>

theorem physical_device_layout:
  assumes init: "physical_device_init v2p train stack c h = Some (NLM_OK, p)" and ok: "config_error c = None" and al: "top_aligned c"
  shows "stacked (cf_sysmem_base_virt c) (areas p) (cf_sysmem_base_virt c + uint (cf_sysmem_size c)) \<and> 512 \<le> chunksize p \<and>
    128 dvd pd_base p \<and> 32 dvd input_fifo_base p \<and> 16 dvd output_fifo_base p \<and>
    (if use_ddr_memory p = 0 then 256 dvd context_save_restore_area p else 16 dvd ddr_dma_area_at p) \<and>
    (cf_ring_id c = NLM_MASTER_RING \<longrightarrow> 128 dvd database_extension_area p)"
proof -
  note r = physical_device_laid_out [OF assms]
  obtain f5 f8 f9 f14 where "placed c p f5 f8 f9 f14" using r(3) by blast
  moreover have "k dvd round_up k q" if "0 < k" for k q using round_up_props(3) that by blast
  ultimately have "128 dvd pd_base p \<and> 32 dvd input_fifo_base p \<and> 16 dvd output_fifo_base p \<and>
    (if use_ddr_memory p = 0 then 256 dvd context_save_restore_area p else 16 dvd ddr_dma_area_at p) \<and>
    (cf_ring_id c = NLM_MASTER_RING \<longrightarrow> 128 dvd database_extension_area p)"
    by (simp add: placed_def Let_def split: if_splits)
  then show ?thesis using r(1,2) by (simp add: laid_out_def)
qed

section \<open>A ring that comes up\<close>

text \<open>The offsets of the contexts are computed in finitely many steps when the last one is not at the end of the 32 bits.\<close>

lemma context_offsets_returns:
  "unat final + 256 < 2 ^ 32 \<Longrightarrow> \<exists>os. context_offsets offset final = Some os"
proof (induction "unat final + 256 - unat offset" arbitrary: offset rule: less_induct)
  case less
  show ?case
  proof (cases "offset \<le> final")
    case True
    then have le: "unat offset \<le> unat final" by (simp add: word_le_nat_alt)
    then have "unat (offset + 256) = unat offset + 256" using less.prems by (simp add: unat_word_ariths)
    then have "\<exists>os. context_offsets (offset + 256) final = Some os" using less le by simp
    then show ?thesis using True by (subst context_offsets.simps) auto
  qed (subst context_offsets.simps, simp)
qed

text \<open>Ring 1 beside a master ring that is up.\<close>

definition slave_config :: nlm_device_config where
  "slave_config = sample_config\<lparr>cf_ring_id := 1, cf_input_fifo_size := 4, cf_output_fifo_size := 4,
     cf_size_of_context_save_restore_area := 0x2000, cf_max_threads := 2, cf_using_manager_thread := 0\<rparr>"

definition slave_regs :: "u32 \<Rightarrow> u32" where "slave_regs = (\<lambda>_. 0)(PDF_CONFIG 0 := 0x22)"
definition slave_hw :: hw where "slave_hw = \<lparr>trace = [], answer = \<lambda>_. slave_regs\<rparr>"

lemma slave_ok: "config_error slave_config = None" "top_aligned slave_config"
  by (simp_all add: slave_config_def config_error_def config_out_of_range_def sample_config_def config_consts top_aligned_def)

lemma fold_SET_answer: "answer (fold (\<lambda>(reg, v). SET_HW_REGISTER reg v) ws h) = answer h"
  by (induction ws arbitrary: h) (auto simp: SET_HW_REGISTER_def)


text \<open>What the steps keep.\<close>

definition slave_state :: "phy_device \<Rightarrow> bool" where
  "slave_state p \<longleftrightarrow> config p = slave_config \<and> answer (phy_hw p) = (\<lambda>_. slave_regs) \<and> fms_ring_id p = 1 \<and> hw_type p = 0 \<and> use_ddr_memory p = 0"

lemma slave_set_regs: "slave_state (set_regs ws p) = slave_state p"
  by (simp add: slave_state_def set_regs_def fold_SET_answer)

lemma slave_values:
  "cf_sysmem_base_virt slave_config = 268435456" "cf_sysmem_size slave_config = 8388608" "cf_ring_id slave_config = 1"
  "cf_size_of_context_save_restore_area slave_config = 8192" "cf_input_fifo_size slave_config = 4" "cf_output_fifo_size slave_config = 4"
  "cf_max_threads slave_config = 2" "cf_using_manager_thread slave_config = 0" "cf_size_of_ddr_memory slave_config = 0"
  "cf_virt_to_phys slave_config = 0" "cf_packet_base_phys slave_config = 4294967296"
  by (simp_all add: slave_config_def sample_config_def)

lemma slave_start: "slave_state (phy_start (\<lambda>_ _. 0) slave_config slave_hw)"
  by (simp add: slave_state_def phy_start_def slave_hw_def slave_values)

lemma slave_bring_up: "slave_state p \<Longrightarrow> \<exists>q. bring_up 1 p = Some (Inr q) \<and> slave_state q"
  by (simp add: slave_state_def bring_up_def master_down_def HW_REGISTER_def Let_def config_consts slave_regs_def PDF0_CONFIG_DEFAULT_def)

lemma slave_mirror: "slave_state p \<Longrightarrow> \<exists>q. init_pointer_mirror_area p f = (q, f + 16) \<and> slave_state q"
  by (simp add: init_pointer_mirror_area_def Let_def slave_set_regs) (simp add: slave_state_def)

lemma slave_ddr: "slave_state p \<Longrightarrow> \<exists>q. init_ddr_memory Some p f = Some (q, f) \<and> slave_state q"
  by (simp add: init_ddr_memory_def slave_state_def slave_values config_consts)

lemma slave_contexts: "slave_state p \<Longrightarrow> \<exists>q. init_contexts p 268530712 = Some (Inr (q, 268539136)) \<and> slave_state q"
proof -
  assume p: "slave_state p"
  obtain os where "context_offsets 0 7680 = Some os" using context_offsets_returns [of 7680 0] by auto
  then show ?thesis using p
    by (simp add: init_contexts_def init_context_save_restore_area_sysmem_def Let_def slave_set_regs)
      (simp add: slave_state_def slave_values config_consts round_up_def sizeof_pdf_def slave_set_regs set_regs_def fold_SET_answer)
qed

lemma slave_fifos:
  "slave_state p \<Longrightarrow> \<exists>q. init_input_fifo p 268539136 = (q, 268539264) \<and> slave_state q"
  "slave_state p \<Longrightarrow> \<exists>q. init_output_fifo p 268539264 = (q, 268539328) \<and> slave_state q"
  by (simp_all add: init_input_fifo_def init_output_fifo_def Let_def slave_set_regs)
    (simp_all add: slave_state_def slave_values round_up_def sizeof_fd_def sizeof_rd_def)

lemma slave_pds: "slave_state p \<Longrightarrow> \<exists>q. init_pds 276824064 p 268539328 = Some (Inr q) \<and> slave_state q"
  by (simp add: init_pds_def Let_def slave_state_def slave_values round_up_def sizeof_pdf_def sizeof_pd_def quot_def set_regs_def fold_SET_answer)

lemma slave_lay_out: "\<exists>q. lay_out Some slave_config (phy_start (\<lambda>_ _. 0) slave_config slave_hw) = Some (Inr q) \<and> slave_state q"
proof -
  have r: "room 276824064 p f = Some (Inr (p, f))" if "f < 276824064" for p f using that by (simp add: room_def)
  have a: "andthen (Some (Inr x)) k = k x" for x :: 'a and k :: "'a \<Rightarrow> 'b step" by (simp add: andthen_def)
  let ?p = "phy_start (\<lambda>_ _. 0) slave_config slave_hw"
  obtain p2 where 2: "bring_up 1 ?p = Some (Inr p2)" "slave_state p2" using slave_bring_up [OF slave_start] by blast
  obtain p3 where 3: "init_pointer_mirror_area p2 268530696 = (p3, 268530712)" "slave_state p3" using slave_mirror [OF 2(2), of 268530696] by auto
  obtain p5 where 5: "init_ddr_memory Some p3 268530712 = Some (p5, 268530712)" "slave_state p5" using slave_ddr [OF 3(2)] by blast
  let ?p7 = "set_regs (scratch_writes slave_config) p5"
  have 7: "slave_state ?p7" using 5(2) by (simp add: slave_set_regs)
  obtain p9 where 9: "init_contexts ?p7 268530712 = Some (Inr (p9, 268539136))" "slave_state p9" using slave_contexts [OF 7] by blast
  obtain p10 where 10: "init_input_fifo p9 268539136 = (p10, 268539264)" "slave_state p10" using slave_fifos(1) [OF 9(2)] by blast
  obtain p12 where 12: "init_output_fifo p10 268539264 = (p12, 268539328)" "slave_state p12" using slave_fifos(2) [OF 10(2)] by blast
  have 13: "init_manager_thread_fifo 276824064 p12 268539328 = Some (Inr (p12, 268539328))"
    using 12(2) by (intro manager_none) (simp add: slave_state_def slave_values)
  obtain q where q: "init_pds 276824064 p12 268539328 = Some (Inr q)" "slave_state q" using slave_pds [OF 12(2)] by blast
  have h: "hw_type p5 = 0" "hw_type ?p7 = 0" using 5(2) 7 by (simp_all add: slave_state_def)
  have b: "round_down 64 (268435456 + uint (0x800000 :: u32)) = 276824064" "round_up 8 (268435456 + sizeof_phy_device) = 268530696"
    by (simp_all add: round_down_def round_up_def sizeof_phy_device_def)
  have "lay_out Some slave_config ?p = Some (Inr q)"
    unfolding lay_out_def Let_def slave_values b
    by (simp add: r a 2(1) 3(1) 5(1) h 9(1) 10(1) 12(1) 13 q(1) config_consts)
  then show ?thesis using q(2) by blast
qed

lemma slave_configure: "slave_state p \<Longrightarrow> \<exists>q. configure_device p = Some q \<and> slave_state q"
proof -
  assume p: "slave_state p"
  have "\<forall>i \<in> {..<HW_PACKET_BASES}. 4294967296 AND push_bit (PQ_ADDR_LOW_BITS + 4) (- 1) =
            packet_base_of 4294967296 i AND push_bit (PQ_ADDR_LOW_BITS + 4) (- 1)"
    by (simp add: HW_PACKET_BASES_def packet_base_of_def PQ_ADDR_LOW_BITS_def lessThan_nat_numeral lessThan_Suc mask_eq_exp_minus_1)
  then show ?thesis using p unfolding configure_device_def Let_def
    by (simp add: slave_state_def slave_values set_regs_def fold_SET_answer)
qed

lemma no_overlap: "\<forall>x \<in> set as. fst x = 0 \<Longrightarrow> \<not> areas_overlap as"
  by (auto simp: areas_overlap_def list_ex_iff)

lemma slave_start_ring: "slave_state p \<Longrightarrow> \<exists>q. start_ring (\<lambda>_. 0) 1 p = Some (NLM_OK, q)"
proof -
  assume p: "slave_state p"
  have s: "still slave_regs (phy_hw p)" using p by (simp add: slave_state_def still_def)
  have "\<not> areas_overlap (map (sys_area slave_regs) rings)" "\<not> areas_overlap (map (ddr_area slave_regs (\<lambda>_. 0)) rings)"
    by (rule no_overlap, simp add: rings_def sys_area_def ddr_area_def sys_low_def ddr_low_def ring_up_def reg64_def slave_regs_def
        PDF_REG_def FDF_REG_def CNXT_REG_def PDF0_CONFIG_DEFAULT_def)+
  then show ?thesis using check_mem_overlap_areas [OF s, of "\<lambda>_. 0"] by (auto simp: start_ring_def config_consts)
qed

lemma slave_comes_up: "\<exists>p. physical_device_init (\<lambda>_ _. 0) Some (\<lambda>_. 0) slave_config slave_hw = Some (NLM_OK, p)"
proof -
  obtain q where q: "lay_out Some slave_config (phy_start (\<lambda>_ _. 0) slave_config slave_hw) = Some (Inr q)" "slave_state q"
    using slave_lay_out by blast
  obtain r where r: "configure_device q = Some r" "slave_state r" using slave_configure [OF q(2)] by blast
  obtain p where "start_ring (\<lambda>_. 0) 1 r = Some (NLM_OK, p)" using slave_start_ring [OF r(2)] by blast
  then show ?thesis by (simp add: physical_device_init_def q(1) r(1) slave_values)
qed

lemma physical_device_layout_witness:
  "\<exists>p. physical_device_init (\<lambda>_ _. 0) Some (\<lambda>_. 0) slave_config slave_hw = Some (NLM_OK, p) \<and>
    stacked 0x10000000 (areas p) (0x10000000 + 0x800000) \<and> 512 \<le> chunksize p \<and> 128 dvd pd_base p"
proof -
  obtain p where p: "physical_device_init (\<lambda>_ _. 0) Some (\<lambda>_. 0) slave_config slave_hw = Some (NLM_OK, p)"
    using slave_comes_up by blast
  then show ?thesis using physical_device_layout [OF p slave_ok] by (simp add: slave_values)
qed

end
