(* ===== verification/Dev_Attach.thy ===== *)
theory Dev_Attach
  imports Dev_Areas Jobs Manager
begin

unbundle bit_operations_syntax

text \<open>
  Initialising a ring, attaching the threads of a ring to it and detaching them (nlm_device_init, nlm_device_attach,
  nlm_device_detach and what they call in lib/dataplane/fms_packet_api.c). The physical device is the structure at the
  bottom of the system memory; its value before is an argument. The handle of a thread is the record of \<open>Dp_State\<close>
  with the fields only this code uses. The result for \<^verbatim>\<open>*p_device\<close> is \<^term>\<open>None\<close> when it is not written.
\<close>

section \<open>The handle of a thread\<close>

record nlm_handle = nlm_device +
  dv_fms_ring_id :: u32
  dv_memory_pool_size :: u32
  dv_cookie :: addr

text \<open>What a thread starts with: its memory pool was cleared when it attached, the system memory when the ring was initialised.\<close>

definition start_dp :: "phy_device \<Rightarrow> nlm_handle \<Rightarrow> dp" where
  "start_dp p d = \<lparr>phy = nlm_phy_device.truncate p, dev = nlm_device.truncate d, flows = \<lambda>_. flow_zero, jobs = \<lambda>_. job_zero,
     pds = \<lambda>_. pd_zero, pdfs = \<lambda>_. replicate 32 0\<rparr>"

section \<open>Attaching\<close>

definition fresh_handle :: "nlm_device_config \<Rightarrow> phy_device \<Rightarrow> addr \<Rightarrow> u32 \<Rightarrow> nlm_handle" where
  "fresh_handle c p pool n =
     (let top_of_heap = pool + uint n; tid = cf_thread_id c;
          base = round_down 8 top_of_heap;
          chunk_start = pd_base p + uint (chunksize p * tid);
          pd_end = chunk_start + uint (chunksize p);
          pd_start = round_up 128 chunk_start;
          pdf0 = pdf_base_in_ddr p;
          pdf_start = pdf0 + ucast (ddr_chunksize p * tid);
          pdf_end = pdf_start + ucast (ddr_chunksize p);
          ddr = (use_ddr_memory p \<noteq> 0)
      in \<lparr>thread_id = tid, first_free_flow = round_up 8 (pool + sizeof_device), stateful_flow_list_head = NULL,
          stateless_flow_list_head = NULL, pending_flow_list_head = NULL, pending_flow_list_tail = NULL,
          first_free_job = base - sizeof_job, job_list_head = NULL, job_base = base,
          first_free_pdf = round_down 128 pd_end - sizeof_pdf, pd_list_head = NULL,
          first_free_pd = (if pd_start = pd_base p then pd_start + sizeof_pd else pd_start),
          max_pdf_index = (if ddr then ucast ((pdf_end - pdf0) div word_of_int sizeof_pdf) - 1 else 0),
          current_pdf_index = (if ddr then ucast ((pdf_start - pdf0) div word_of_int sizeof_pdf) +
             (if pdf_start = pdf0 then 1 else 0) else 0),
          sw_fifos = (cf_using_manager_thread c \<noteq> 0), memory_pool = pool,
          dv_fms_ring_id = cf_ring_id c, dv_memory_pool_size = n, dv_cookie = cf_cookie c\<rparr>)"

definition device_attach ::
  "nlm_device_config \<Rightarrow> phy_device \<Rightarrow> addr \<Rightarrow> u32 \<Rightarrow> nlm_status \<times> nlm_handle option \<times> phy_device" where
  "device_attach c p pool n =
     (let attach_tid = threads_attached p + 1; p1 = p\<lparr>threads_attached := attach_tid\<rparr> in
      if attach_tid > cf_max_threads c then (NLM_EXCESS_DEVICE_ATTACH, None, p1)
      else (NLM_OK, Some (fresh_handle c p1 pool n), p1))"

text \<open>Initialising a ring and attaching its first thread. \<open>p\<close> is what the system memory holds, with the registers.\<close>

definition nlm_device_init_1 ::
  "(addr \<Rightarrow> addr \<Rightarrow> u64) \<Rightarrow> (hw \<Rightarrow> hw option) \<Rightarrow> (u8 \<Rightarrow> u64) \<Rightarrow> (addr \<Rightarrow> addr \<Rightarrow> u32 \<Rightarrow> addr) \<Rightarrow> nlm_device_config \<Rightarrow> phy_device \<Rightarrow>
   (nlm_status \<times> nlm_handle option option \<times> phy_device) option" where
  "nlm_device_init_1 v2p train stack xmalloc c p =
     (case config_error c of
        Some e \<Rightarrow> Some (e, Some None, p)
      | None \<Rightarrow>
        (case init_pool xmalloc c of
           None \<Rightarrow> Some (NLM_INVALID_DEVICE_CONFIG, Some None, p)
         | Some (pool, n) \<Rightarrow>
             map_option (\<lambda>(status, p1).
               if status \<noteq> NLM_OK then (status, Some None, p1)
               else case device_attach c p1 pool n of (st, d, p2) \<Rightarrow> (st, Some d, p2))
             (physical_device_init v2p train stack c (phy_hw p))))"

definition nlm_device_init ::
  "(addr \<Rightarrow> addr \<Rightarrow> u64) \<Rightarrow> (hw \<Rightarrow> hw option) \<Rightarrow> (u8 \<Rightarrow> u64) \<Rightarrow> (addr \<Rightarrow> addr \<Rightarrow> u32 \<Rightarrow> addr) \<Rightarrow> nlm_device_config option \<Rightarrow> addr \<Rightarrow>
   phy_device \<Rightarrow> (nlm_status \<times> nlm_handle option option \<times> phy_device) option" where
  "nlm_device_init v2p train stack xmalloc config_arg p_device p =
     (case config_arg of
        None \<Rightarrow> Some (NLM_INVALID_ARGUMENT, None, p)
      | Some c \<Rightarrow>
          if p_device = NULL then Some (NLM_INVALID_ARGUMENT, None, p)
          else if cf_ring_id c \<noteq> NLM_MASTER_RING then Some (NLM_INVALID_RING_ID, None, p)
          else nlm_device_init_1 v2p train stack xmalloc c p)"

definition compare_configs :: "nlm_device_config \<Rightarrow> nlm_device_config \<Rightarrow> nlm_status" where
  "compare_configs m c =
     (if cf_register_map_base_virt m \<noteq> cf_register_map_base_virt c \<or> cf_register_map_base_phys m \<noteq> cf_register_map_base_phys c \<or>
         cf_register_map_size m \<noteq> cf_register_map_size c \<or> cf_sysmem_base_virt m \<noteq> cf_sysmem_base_virt c \<or>
         cf_sysmem_base_phys m \<noteq> cf_sysmem_base_phys c \<or> cf_sysmem_size m \<noteq> cf_sysmem_size c \<or>
         cf_input_fifo_size m \<noteq> cf_input_fifo_size c \<or> cf_output_fifo_size m \<noteq> cf_output_fifo_size c \<or>
         cf_virt_to_phys m \<noteq> cf_virt_to_phys c \<or> cf_packet_base_phys m \<noteq> cf_packet_base_phys c \<or>
         cf_packet_base_virt m \<noteq> cf_packet_base_virt c \<or> cf_base_addr_of_ddr_memory m \<noteq> cf_base_addr_of_ddr_memory c \<or>
         cf_size_of_ddr_memory m \<noteq> cf_size_of_ddr_memory c
      then NLM_INVALID_DEVICE_CONFIG
      else if cf_ring_id m \<noteq> cf_ring_id c \<or> cf_max_threads m \<noteq> cf_max_threads c \<or>
         cf_using_manager_thread m \<noteq> cf_using_manager_thread c \<or> cf_xmalloc m \<noteq> cf_xmalloc c \<or> cf_xfree m \<noteq> cf_xfree c \<or>
         (cf_memory_pool m \<noteq> NULL \<and> cf_memory_pool_size m \<noteq> cf_memory_pool_size c)
      then NLM_INVALID_DEVICE_CONFIG
      else if cf_xmalloc m = NULL \<and> cf_memory_pool m \<noteq> cf_memory_pool c then NLM_INVALID_DEVICE_CONFIG
      else if cf_using_manager_thread c \<noteq> 0 \<and> cf_thread_id c = NLM_MANAGER_THREAD_ID then NLM_OK
      else if cf_thread_id c \<ge> cf_max_threads m then NLM_INVALID_THREAD_ID
      else NLM_OK)"

text \<open>The handle of the manager thread. Nothing clears the memory it is in: \<open>mem\<close> tells what it holds. With an allocation
  function the code clears the pool of the user instead, which faults when there is none.\<close>

definition attach_manager ::
  "(addr \<Rightarrow> addr \<Rightarrow> u32 \<Rightarrow> addr) \<Rightarrow> (addr \<Rightarrow> nlm_handle) \<Rightarrow> nlm_device_config \<Rightarrow> phy_device \<Rightarrow>
   (nlm_status \<times> nlm_handle option option \<times> phy_device) option" where
  "attach_manager xmalloc mem c p =
     (let handle = (\<lambda>a. (mem a)\<lparr>thread_id := cf_thread_id c, memory_pool := cf_memory_pool c, dv_fms_ring_id := cf_ring_id c,
            dv_memory_pool_size := word_of_int sizeof_device, dv_cookie := cf_cookie c\<rparr>) in
      if cf_using_manager_thread (config p) = 0 then Some (NLM_INVALID_DEVICE_CONFIG, None, p)
      else if cf_xmalloc c \<noteq> NULL then
        let a = xmalloc (cf_xmalloc c) (cf_cookie c) (word_of_int sizeof_device) in
        if a = NULL then Some (NLM_INVALID_DEVICE_CONFIG, None, p)
        else if cf_memory_pool c = NULL then None
        else Some (NLM_OK, Some (Some (handle a)), p)
      else Some (NLM_OK, Some (Some (handle (cf_memory_pool c))), p))"

text \<open>A null configuration faults: the trace message reads it before the check.\<close>

definition nlm_device_attach ::
  "(addr \<Rightarrow> addr \<Rightarrow> u64) \<Rightarrow> (hw \<Rightarrow> hw option) \<Rightarrow> (u8 \<Rightarrow> u64) \<Rightarrow> (addr \<Rightarrow> addr \<Rightarrow> u32 \<Rightarrow> addr) \<Rightarrow> (addr \<Rightarrow> nlm_handle) \<Rightarrow>
   nlm_device_config option \<Rightarrow> addr \<Rightarrow> phy_device \<Rightarrow> (nlm_status \<times> nlm_handle option option \<times> phy_device) option" where
  "nlm_device_attach v2p train stack xmalloc mem config_arg p_device p =
     Option.bind config_arg (\<lambda>c.
       if p_device = NULL then Some (NLM_INVALID_ARGUMENT, None, p)
       else if cf_ring_id c = NLM_MASTER_RING \<and> cf_thread_id c = 0 then Some (NLM_INVALID_RING_ID, None, p)
       else if cf_thread_id c > NLM_MAX_THREADS - 1 \<and> cf_thread_id c \<noteq> NLM_MANAGER_THREAD_ID
       then Some (NLM_INVALID_THREAD_ID, None, p)
       else if cf_ring_id c \<ge> NLM_LAST_UNUSED_RING_ID then Some (NLM_INVALID_RING_ID, None, p)
       else if cf_thread_id c = 0 then nlm_device_init_1 v2p train stack xmalloc c p
       else if cf_sysmem_base_virt c = NULL then Some (NLM_INVALID_DEVICE_CONFIG, None, p)
       else if device_magic p \<noteq> NLM_DEVICE_MAGIC then Some (NLM_DEVICE_UNINITIALIZED, None, p)
       else if compare_configs (config p) c \<noteq> NLM_OK then Some (NLM_INVALID_DEVICE_CONFIG, None, p)
       else if cf_thread_id c = NLM_MANAGER_THREAD_ID then attach_manager xmalloc mem c p
       else case attach_pool xmalloc c of
           None \<Rightarrow> Some (NLM_INVALID_DEVICE_CONFIG, None, p)
         | Some (pool, n) \<Rightarrow> (case device_attach c p pool n of (st, d, p1) \<Rightarrow> Some (st, map_option Some d, p1)))"

section \<open>Detaching\<close>

text \<open>The result: the status, the call of \<^verbatim>\<open>xfree\<close> if one is made (cookie and memory), and the device.\<close>

definition nlm_device_detach ::
  "nlm_handle option \<Rightarrow> phy_device \<Rightarrow> (nlm_status \<times> (addr \<times> addr) option \<times> phy_device) option" where
  "nlm_device_detach device p =
     (case device of
        None \<Rightarrow> Some (NLM_INVALID_ARGUMENT, None, p)
      | Some d \<Rightarrow>
          if device_magic p \<noteq> NLM_DEVICE_MAGIC then Some (NLM_DEVICE_UNINITIALIZED, None, p)
          else if dv_fms_ring_id d = 0 \<and> thread_id d = 0 then Some (NLM_INVALID_THREAD_ID, None, p)
          else
            let freed = (if cf_xfree (config p) \<noteq> NULL then Some (dv_cookie d, memory_pool d) else None);
                detach_tid = threads_attached p - 1;
                p1 = p\<lparr>threads_attached := detach_tid\<rparr>
            in Option.bind (if detach_tid = 0 then check_context_ring (fms_ring_id p) (phy_hw p) else Some (NLM_OK, phy_hw p))
                 (\<lambda>(status, h).
                    if status \<noteq> NLM_OK then Some (status, freed, p1\<lparr>phy_hw := h\<rparr>)
                    else map_option (\<lambda>(st, h1). (st, freed, p1\<lparr>phy_hw := h1\<rparr>)) (check_xaui_buffers (fms_ring_id p) h)))"

section \<open>A fresh handle is well formed\<close>

lemma fresh_pools:
  assumes "0 < pool" "8 dvd pool" "248 \<le> uint n" "pool + uint n < 2 ^ 64"
  shows "job_pool_ok (start_dp p (fresh_handle c p pool n)) {}" and "flow_pool_ok (start_dp p (fresh_handle c p pool n)) {}"
proof -
  let ?base = "round_down 8 (pool + uint n)"
  have up: "round_up 8 (pool + sizeof_device) = pool + 160"
    using assms(2) by (simp add: round_aligned sizeof_device_def dvd_add)
  have lo: "pool + 248 \<le> ?base" using assms(2,3) by (intro round_down_ge) (simp_all add: dvd_add)
  have hi: "?base \<le> pool + uint n" by (rule round_down_props) simp
  have g: "pool_geometry (start_dp p (fresh_handle c p pool n))"
    using assms(1,4) lo hi up
    by (simp add: pool_geometry_def start_dp_def fresh_handle_def Let_def nlm_device.defs sizeof_job_def)
  then show "job_pool_ok (start_dp p (fresh_handle c p pool n)) {}"
    by (simp add: job_pool_ok_def, simp add: start_dp_def fresh_handle_def Let_def nlm_device.defs)
  have "flow_lists_ok (start_dp p (fresh_handle c p pool n)) {} [] []"
    unfolding flow_lists_ok_def using g
    by (simp, simp add: start_dp_def fresh_handle_def Let_def nlm_device.defs flow_zero_def)
  then show "flow_pool_ok (start_dp p (fresh_handle c p pool n)) {}" by (auto simp: flow_pool_ok_def)
qed

text \<open>The descriptors of a thread are taken from its part of the system memory.\<close>

lemma fresh_pds:
  fixes c :: nlm_device_config and p :: phy_device and pool :: addr and n :: u32
  defines "d \<equiv> fresh_handle c p pool n"
  assumes al: "128 dvd pd_base p" and pos: "0 < pd_base p" and chunk: "512 \<le> chunksize p"
    and small: "uint (chunksize p * cf_thread_id c) = uint (cf_thread_id c) * uint (chunksize p)"
    and top: "pd_base p + (uint (cf_thread_id c) + 1) * uint (chunksize p) < 2 ^ 64"
  shows "pd_pool_ok (start_dp p d) {} \<and> pd_base p + uint (cf_thread_id c) * uint (chunksize p) \<le> first_free_pd d \<and>
    first_free_pdf d + sizeof_pdf \<le> pd_base p + (uint (cf_thread_id c) + 1) * uint (chunksize p)"
proof -
  let ?s = "pd_base p + uint (cf_thread_id c) * uint (chunksize p)"
  let ?e = "?s + uint (chunksize p)"
  have e: "?e = pd_base p + (uint (cf_thread_id c) + 1) * uint (chunksize p)" by (simp add: algebra_simps)
  have ch: "512 \<le> uint (chunksize p)" using chunk by (simp add: word_le_def)
  have pd: "first_free_pd d = (if round_up 128 ?s = pd_base p then round_up 128 ?s + 16 else round_up 128 ?s)"
    and pdf: "first_free_pdf d = round_down 128 ?e - 128"
    by (simp_all add: d_def fresh_handle_def Let_def small sizeof_defs)
  have u: "?s \<le> round_up 128 ?s" "round_up 128 ?s < ?s + 128" "128 dvd round_up 128 ?s" using round_up_props by simp_all
  have l: "round_down 128 ?e \<le> ?e" "?e - 128 < round_down 128 ?e" using round_down_props by simp_all
  have s: "pd_base p \<le> ?s" by simp
  have a: "pd_base p < first_free_pd d" using order_trans [OF s u(1)] by (simp add: pd)
  have b: "?s \<le> first_free_pd d" "first_free_pd d \<le> first_free_pdf d" using u l ch by (simp_all add: pd pdf)
  have f: "first_free_pdf d + 128 \<le> ?e" using l by (simp add: pdf)
  have "16 dvd round_up 128 ?s" "16 dvd pd_base p" using u(3) al by (auto intro: dvd_trans [of 16 128])
  then have dv: "16 dvd first_free_pd d - pd_base p" by (simp add: pd dvd_add dvd_diff)
  have "pd_pool_ok (start_dp p d) {}"
    unfolding pd_pool_ok_def using a b f dv pos top e
    by (simp add: start_dp_def nlm_device.defs nlm_phy_device.defs sizeof_defs, simp add: d_def fresh_handle_def Let_def)
  then show ?thesis using b(1) f e by (simp add: sizeof_defs)
qed

section \<open>A ring that was brought up is well formed\<close>

lemma pow2_int: "0 < x \<Longrightarrow> x AND (x - 1) = 0 \<Longrightarrow> \<exists>n. x = 2 ^ n" for x :: int
proof (induction "nat x" arbitrary: x rule: less_induct)
  case less
  show ?case
  proof (cases "even x")
    case True
    then obtain y where y: "x = 2 * y" by (elim evenE)
    have "(2 * y - 1) div 2 = y - 1" by presburger
    then have "x AND (x - 1) = 2 * (y AND (y - 1))" by (subst and_rec) (simp add: y)
    then have "y AND (y - 1) = 0" using less.prems(2) by simp
    moreover have "0 < y" "nat y < nat x" using less.prems(1) y by simp_all
    ultimately obtain n where "y = 2 ^ n" using less.hyps by blast
    then have "x = 2 ^ Suc n" using y by simp
    then show ?thesis by blast
  next
    case False
    then obtain y where y: "x = 2 * y + 1" by (elim oddE)
    have "x AND (x - 1) = 2 * (y AND y)" by (subst and_rec) (simp add: y)
    then have "x = 2 ^ 0" using less.prems(2) y by simp
    then show ?thesis by blast
  qed
qed

lemma pow2_word:
  assumes "x \<noteq> 0" and "x AND (x - 1) = 0" and "x \<le> 0x4000000"
  shows "\<exists>n\<le>26. x = (2 :: u32) ^ n"
proof -
  have pos: "0 < uint x" using assms(1) uint_ge_0 [of x] by (metis less_le uint_0_iff)
  then have "1 \<le> x" by (simp add: word_le_def)
  then have "uint (x - 1) = uint x - 1" by (simp add: uint_minus_simple_alt)
  moreover have "uint x AND uint (x - 1) = uint (x AND (x - 1))" by (simp only: unsigned_and_eq)
  ultimately have "uint x AND (uint x - 1) = 0" using assms(2) by simp
  then obtain n where n: "uint x = 2 ^ n" using pow2_int pos by blast
  have "(2::int) ^ n \<le> 2 ^ 26" using assms(3) n by (simp add: word_le_def)
  then have "n \<le> 26" by (rule power_le_imp_le_exp [rotated]) simp
  moreover have "x = 2 ^ n" using n by (metis of_int_numeral of_int_power word_of_int_uint)
  ultimately show ?thesis by blast
qed

lemma brought_up_rings:
  assumes lo: "laid_out c p" and ok: "config_error c = None"
  shows "input_ring_ok (nlm_phy_device.truncate p) \<and> output_ring_ok (nlm_phy_device.truncate p) \<and>
    (cf_using_manager_thread c \<noteq> 0 \<longrightarrow> job_fifos_ok (nlm_phy_device.truncate p) \<and> result_fifos_ok (nlm_phy_device.truncate p))"
proof -
  note r = config_in_range [OF config_ok(1) [OF ok]]
  obtain n where n: "n \<le> 26" "cf_input_fifo_size c = 2 ^ n"
    using pow2_word [OF r(6) config_ok(4) [OF ok]] r(7) by (auto simp: NLM_MAX_INPUT_FIFO_SIZE_def)
  obtain m where m: "m \<le> 26" "cf_output_fifo_size c = 2 ^ m"
    using pow2_word [OF r(8) config_ok(5) [OF ok]] r(9) by (auto simp: NLM_MAX_OUTPUT_FIFO_SIZE_def)
  have u: "unat ((2 :: u32) ^ k) = 2 ^ k" if "k \<le> 26" for k
    using that by (intro unat_exp) simp
  have le: "\<exists>k\<le>31. (2 :: u32) ^ n = 2 ^ k" "\<exists>k\<le>31. (2 :: u32) ^ m = 2 ^ k" using n(1) m(1) by (auto intro: exI [of _ n] exI [of _ m])
  have 0: "(0 :: u32) < 2 ^ n" "(0 :: u32) < 2 ^ m" using u n(1) m(1) by (simp_all add: word_less_nat_alt)
  have j: "job_fifo_ok (job_fifo_init (2 ^ n) (replicate (2 ^ n) fd_zero))"
    using n(1) u by (intro job_fifo_init_ok(1)) simp_all
  have q: "counter_ok (2 ^ m) 0 0 (replicate (2 ^ m) rd_zero)" using m(1) u by (auto simp: counter_ok_def)
  note l = lo [unfolded laid_out_def]
  have "input_ring_ok (nlm_phy_device.truncate p)" "output_ring_ok (nlm_phy_device.truncate p)"
    using l le 0 u n m by (simp_all add: input_ring_ok_def output_ring_ok_def nlm_phy_device.defs)
  moreover have "job_fifos_ok (nlm_phy_device.truncate p)" "result_fifos_ok (nlm_phy_device.truncate p)" if "cf_using_manager_thread c \<noteq> 0"
    using l that j q u n m
    by (simp_all add: job_fifos_ok_def result_fifos_ok_def nlm_phy_device.defs fresh_job_fifos_def fresh_result_fifos_def
        result_fifo_ok_def result_fifo_init_def)
  ultimately show ?thesis by blast
qed

lemma fresh_sched: "sched_ok (start_dp p (fresh_handle c q pool n)) [] (\<lambda>_. [])"
  by (simp add: sched_ok_def pending_ok_def flow_queue_def start_dp_def fresh_handle_def Let_def nlm_device.defs flow_zero_def)

text \<open>The part of thread \<open>t\<close> in the system memory.\<close>

definition system_ok :: "nlm_device_config \<Rightarrow> bool" where
  "system_ok c \<longleftrightarrow> config_error c = None \<and> top_aligned c \<and> 0 < cf_sysmem_base_virt c \<and>
     cf_sysmem_base_virt c + uint (cf_sysmem_size c) < 2 ^ 64"

lemma ring_part:
  assumes init: "physical_device_init v2p train stack c h = Some (NLM_OK, p)" and c: "system_ok c" and t: "t < cf_max_threads c"
  shows "128 dvd pd_base p" "0 < pd_base p" "512 \<le> chunksize p" "uint (chunksize p * t) = uint t * uint (chunksize p)"
    "pd_base p + (uint t + 1) * uint (chunksize p) < 2 ^ 64"
proof -
  let ?base = "cf_sysmem_base_virt c" and ?n = "uint (chunksize p)"
  note s = c [unfolded system_ok_def]
  note r = physical_device_laid_out [OF init conjunct1 [OF s] conjunct1 [OF conjunct2 [OF s]]]
  have part: "(pd_base p + int i * ?n, ?n) \<in> set (areas p)" if "i < unat (cf_max_threads c)" for i
    using that laid_out_config(2) [OF r(1)] by (auto simp: areas_def thread_areas_def)
  have i: "unat t < unat (cf_max_threads c)" using t by (simp add: word_less_nat_alt)
  have hi: "pd_base p + uint t * ?n + ?n \<le> ?base + uint (cf_sysmem_size c)"
    using stacked_within [OF r(2) part [OF i]] by simp
  have lo: "?base \<le> pd_base p" using stacked_within [OF r(2) part [of 0]] i by simp
  obtain f5 f8 f9 f14 where "placed c p f5 f8 f9 f14" using r(3) by blast
  then have "pd_base p = round_up 128 f14" by (simp add: placed_def Let_def)
  then show "128 dvd pd_base p" using round_up_props(3) by simp
  show "0 < pd_base p" using lo s by simp
  show "512 \<le> chunksize p" using r(1) by (simp add: laid_out_def)
  have "uint t * ?n < 2 ^ LENGTH(32)" using hi lo uint_lt2p [of "cf_sysmem_size c"] uint_ge_0 [of "chunksize p"] by linarith
  then show "uint (chunksize p * t) = uint t * ?n" by (simp add: uint_word_ariths mult.commute)
  show "pd_base p + (uint t + 1) * ?n < 2 ^ 64" using hi s by (simp add: algebra_simps)
qed

section \<open>Every thread starts with pools of its own\<close>

lemma laid_out_same:
  assumes "laid_out c p"
  shows "\<exists>x y. config p = c\<lparr>cf_size_of_database_extension_area := x, cf_size_of_context_save_restore_area := y\<rparr>"
proof -
  let ?u = "\<lambda>d e k. k\<lparr>cf_size_of_database_extension_area := d, cf_size_of_context_save_restore_area := e\<rparr>"
  have e: "?u 0 0 (config p) = ?u 0 0 c" using assms by (simp add: laid_out_def)
  have "config p = ?u (cf_size_of_database_extension_area (config p)) (cf_size_of_context_save_restore_area (config p)) (?u 0 0 (config p))"
    by simp
  also have "\<dots> = ?u (cf_size_of_database_extension_area (config p)) (cf_size_of_context_save_restore_area (config p)) c"
    unfolding e by simp
  finally show ?thesis by blast
qed

text \<open>The pools of a thread that holds nothing.\<close>

definition starts_well :: "dp \<Rightarrow> bool" where
  "starts_well s \<longleftrightarrow> job_pool_ok s {} \<and> flow_pool_ok s {} \<and> pd_pool_ok s {} \<and> sched_ok s [] (\<lambda>_. [])"

lemma attached_same [simp]:
  "fresh_handle c (p\<lparr>threads_attached := x\<rparr>) pool n = fresh_handle c p pool n"
  "start_dp (p\<lparr>threads_attached := x\<rparr>) d = start_dp p d"
  by (simp_all add: fresh_handle_def Let_def start_dp_def nlm_phy_device.defs)

lemma fresh_starts:
  assumes pool: "0 < pool" "8 dvd pool" "248 \<le> uint n" "pool + uint n < 2 ^ 64"
    and init: "physical_device_init v2p train stack c h = Some (NLM_OK, p)" and c: "system_ok c" and t: "t < cf_max_threads c"
    and q: "pd_base q = pd_base p" "chunksize q = chunksize p"
  defines "d \<equiv> fresh_handle (c\<lparr>cf_thread_id := t\<rparr>) q pool n"
  shows "starts_well (start_dp q d) \<and> pd_base p + uint t * uint (chunksize p) \<le> first_free_pd d \<and>
    first_free_pdf d + sizeof_pdf \<le> pd_base p + (uint t + 1) * uint (chunksize p)"
proof -
  note r = ring_part [OF init c t]
  have "pd_pool_ok (start_dp q d) {} \<and> pd_base p + uint t * uint (chunksize p) \<le> first_free_pd d \<and>
    first_free_pdf d + sizeof_pdf \<le> pd_base p + (uint t + 1) * uint (chunksize p)"
    using fresh_pds [of q "c\<lparr>cf_thread_id := t\<rparr>" pool n] r q by (simp add: d_def)
  then show ?thesis using fresh_pools [OF pool] fresh_sched by (simp add: starts_well_def d_def)
qed

lemma init_1_OK:
  assumes "nlm_device_init_1 v2p train stack xmalloc c p0 = Some (NLM_OK, Some (Some d), p)"
  obtains p1 pool n where "config_error c = None" "init_pool xmalloc c = Some (pool, n)"
    "physical_device_init v2p train stack c (phy_hw p0) = Some (NLM_OK, p1)"
    "d = fresh_handle c p1 pool n" "p = p1\<lparr>threads_attached := threads_attached p1 + 1\<rparr>"
  using assms
  by (auto simp: nlm_device_init_1_def device_attach_def Let_def split: option.splits prod.splits if_splits)

text \<open>Nothing is in the rings of the hardware or in the FIFOs of the manager thread, and all their pointers and counters are
  at zero.\<close>

definition rings_empty :: "nlm_device_config \<Rightarrow> nlm_phy_device \<Rightarrow> bool" where
  "rings_empty c p \<longleftrightarrow> input_fifo_size p = cf_input_fifo_size c \<and> output_fifo_size p = cf_output_fifo_size c \<and>
     input_rd_ptr p = 0 \<and> input_wrt_ptr p = 0 \<and> ring_items p = [] \<and> output_rd_ptr p = 0 \<and> output_wrt_ptr p = 0 \<and>
     (cf_using_manager_thread c \<noteq> 0 \<longrightarrow>
        (\<forall>f \<in> set (sw_job_fifo p). jf_size f = cf_input_fifo_size c \<and> jf_in f = 0 \<and> jf_out f = 0 \<and> job_fifo_items f = []) \<and>
        (\<forall>f \<in> set (sw_result_fifo p). rf_size f = cf_output_fifo_size c \<and> rf_skip f = 0 \<and> rf_in f = 0 \<and> rf_out f = 0 \<and>
           result_fifo_items f = []))"

lemma laid_out_empty:
  assumes "laid_out c p" shows "rings_empty c (nlm_phy_device.truncate p)"
  using assms
  by (auto simp: laid_out_def rings_empty_def nlm_phy_device.defs ring_items_def ring_count_def fresh_job_fifos_def fresh_result_fifos_def
      job_fifo_init_def result_fifo_init_def job_fifo_items_def result_fifo_items_def counter_items_def ring_list_def)

text \<open>C21. A ring that was initialised starts empty and well formed: the pointers of its rings and the counters of the FIFOs of its
  manager thread are zero and nothing is in them; the first thread has the pool it was given, holds nothing from sound pools of
  flows, jobs and packet descriptors, whose free lists are empty, and no flow waits - the
  invariants from which the other operations start. The pool of the thread has to hold the handle and one job.\<close>

theorem nlm_device_init_starts_well:
  assumes init: "nlm_device_init_1 v2p train stack xmalloc c p0 = Some (NLM_OK, Some (Some d), p)" and c: "system_ok c"
    and pool: "init_pool xmalloc c = Some (pool, n)" "0 < pool" "248 \<le> uint n" "pool + uint n < 2 ^ 64"
  shows "let s = start_dp p d in rings_empty c (phy s) \<and> starts_well s \<and> free_jobs s [] \<and> free_pds s [] \<and>
    thread_id d = 0 \<and> memory_pool d = pool \<and> dv_memory_pool_size d = n \<and> input_ring_ok (phy s) \<and> output_ring_ok (phy s) \<and>
    (cf_using_manager_thread c \<noteq> 0 \<longrightarrow> job_fifos_ok (phy s) \<and> result_fifos_ok (phy s))"
proof -
  obtain p1 where p1: "config_error c = None" "physical_device_init v2p train stack c (phy_hw p0) = Some (NLM_OK, p1)"
    "d = fresh_handle c p1 pool n" "p = p1\<lparr>threads_attached := threads_attached p1 + 1\<rparr>"
    using pool(1) init_1_OK [OF init] by (metis option.inject prod.inject)
  have al: "8 dvd pool"
    using pool(1) by (auto simp: init_pool_def Let_def and7_int dvd_eq_mod_eq_0 [symmetric] pool_base_def round_up_props split: if_splits)
  have t: "cf_thread_id c = 0" "0 < cf_max_threads c"
    using config_ok(2) [OF p1(1)] config_in_range(10) [OF config_ok(1) [OF p1(1)]] by (simp_all add: word_gt_0)
  have "c\<lparr>cf_thread_id := 0\<rparr> = c" using t(1) by simp
  then have "starts_well (start_dp p1 d)"
    using fresh_starts [OF pool(2) al pool(3,4) p1(2) c t(2), of p1] p1(3) by simp
  moreover have "laid_out c p1" using p1(2) c by (intro physical_device_laid_out(1)) (simp_all add: system_ok_def)
  then have "input_ring_ok (nlm_phy_device.truncate p1) \<and> output_ring_ok (nlm_phy_device.truncate p1) \<and>
    (cf_using_manager_thread c \<noteq> 0 \<longrightarrow> job_fifos_ok (nlm_phy_device.truncate p1) \<and> result_fifos_ok (nlm_phy_device.truncate p1))"
    using p1(1) by (rule brought_up_rings)
  moreover have "rings_empty c (nlm_phy_device.truncate p1)" using \<open>laid_out c p1\<close> by (rule laid_out_empty)
  moreover have "free_jobs (start_dp p1 d) [] \<and> free_pds (start_dp p1 d) [] \<and> thread_id d = 0 \<and> memory_pool d = pool \<and>
    dv_memory_pool_size d = n"
    using t(1) p1(3) by (simp add: free_jobs_def free_pds_def start_dp_def fresh_handle_def Let_def nlm_device.defs)
  moreover have "phy (start_dp p1 d) = nlm_phy_device.truncate p1" by (simp add: start_dp_def)
  ultimately show ?thesis by (simp add: p1(4))
qed

text \<open>The first thread of ring 1 of the example.\<close>

lemma slave_pool:
  "init_pool xmalloc slave_config = Some (0x30000000, 0x80000)" "system_ok slave_config" "pool_config slave_config"
  using slave_ok by (simp_all add: init_pool_def pool_base_def pool_part_def slave_config_def sample_config_def system_ok_def
      pool_config_def config_consts)

lemma phy_start_hw: "phy_hw (phy_start v2p c h) = h" by (simp add: phy_start_def)

lemma slave_attaches:
  "\<exists>d p. nlm_device_init_1 (\<lambda>_ _. 0) Some (\<lambda>_. 0) xmalloc slave_config (phy_start (\<lambda>_ _. 0) slave_config slave_hw) =
    Some (NLM_OK, Some (Some d), p)"
proof -
  obtain p where p: "physical_device_init (\<lambda>_ _. 0) Some (\<lambda>_. 0) slave_config slave_hw = Some (NLM_OK, p)"
    using slave_comes_up by blast
  have "laid_out slave_config p" using physical_device_laid_out(1) [OF p slave_ok] .
  then have "threads_attached p = 0" by (simp add: laid_out_def)
  moreover have "phy_hw (phy_start (\<lambda>_ _. 0) slave_config slave_hw) = slave_hw" by (simp add: phy_start_def)
  ultimately show ?thesis
    using p slave_ok by (simp add: nlm_device_init_1_def slave_pool device_attach_def slave_values)
qed

lemma nlm_device_init_starts_well_witness:
  "\<exists>d p. nlm_device_init_1 (\<lambda>_ _. 0) Some (\<lambda>_. 0) (\<lambda>_ _ _. 0) slave_config (phy_start (\<lambda>_ _. 0) slave_config slave_hw) =
      Some (NLM_OK, Some (Some d), p) \<and> starts_well (start_dp p d) \<and> rings_empty slave_config (phy (start_dp p d))"
proof -
  obtain d p where dp: "nlm_device_init_1 (\<lambda>_ _. 0) Some (\<lambda>_. 0) (\<lambda>_ _ _. 0) slave_config (phy_start (\<lambda>_ _. 0) slave_config slave_hw) =
      Some (NLM_OK, Some (Some d), p)" using slave_attaches by blast
  show ?thesis using nlm_device_init_starts_well [OF dp slave_pool(2,1)] dp by (simp add: Let_def)
qed

text \<open>C22. When a ring was initialised with a memory pool of the user, every other thread can attach to it with the same
  configuration, whatever the ring did in between: it gets the handle of its number at the base of its part of the memory pool, and
  starts well, with descriptors and contexts from its own part of the system memory.\<close>

theorem threads_attach:
  assumes init: "nlm_device_init_1 v2p train stack xmalloc c p0 = Some (NLM_OK, Some (Some d), p)" and c: "system_ok c"
    and pool: "pool_config c" "248 \<le> uint (pool_part c)" "cf_memory_pool c + uint (cf_memory_pool_size c) < 2 ^ 64" "0 < cf_memory_pool c"
    and t: "t \<noteq> 0" "t < cf_max_threads c" and ring: "cf_ring_id c < NLM_LAST_UNUSED_RING_ID" and p_device: "p_device \<noteq> NULL"
    and q: "config q = config p" "device_magic q = device_magic p" "pd_base q = pd_base p" "chunksize q = chunksize p"
      "threads_attached q < cf_max_threads c"
  shows "\<exists>d'. nlm_device_attach v2p train stack xmalloc mem (Some (c\<lparr>cf_thread_id := t\<rparr>)) p_device q =
      Some (NLM_OK, Some (Some d'), q\<lparr>threads_attached := threads_attached q + 1\<rparr>) \<and>
    thread_id d' = t \<and> memory_pool d' = cf_memory_pool c + manager_room c + uint t * uint (pool_part c) \<and>
    dv_memory_pool_size d' = pool_part c \<and> starts_well (start_dp q d') \<and>
    pd_base p + uint t * uint (chunksize p) \<le> first_free_pd d' \<and>
    first_free_pdf d' + sizeof_pdf \<le> pd_base p + (uint t + 1) * uint (chunksize p)"
proof -
  let ?c = "c\<lparr>cf_thread_id := t\<rparr>" and ?a = "cf_memory_pool c + manager_room c + uint t * uint (pool_part c)"
  obtain p1 where p1: "config_error c = None" "physical_device_init v2p train stack c (phy_hw p0) = Some (NLM_OK, p1)"
    "p = p1\<lparr>threads_attached := threads_attached p1 + 1\<rparr>" using init_1_OK [OF init] by metis
  have lo: "laid_out c p1" using p1(2) c by (intro physical_device_laid_out(1)) (simp_all add: system_ok_def)
  have magic: "device_magic q = NLM_DEVICE_MAGIC" using lo q(2) p1(3) by (simp add: laid_out_def)
  have q': "config q = config p1" "pd_base q = pd_base p1" "chunksize q = chunksize p1" using q p1(3) by simp_all
  have cmp: "compare_configs (config q) ?c = NLM_OK"
  proof -
    obtain x y where "config p1 = c\<lparr>cf_size_of_database_extension_area := x, cf_size_of_context_save_restore_area := y\<rparr>"
      using lo laid_out_same by blast
    moreover have "(cf_max_threads c \<le> t) = False" using t(2) by auto
    ultimately show ?thesis using q'(1) by (simp add: compare_configs_def)
  qed
  have tmax: "t \<le> 255"
    using t(2) pool(1) by (simp add: pool_config_def NLM_MAX_THREADS_def word_le_def word_less_def)
  then have tid: "\<not> NLM_MAX_THREADS - 1 < t" "t \<noteq> NLM_MANAGER_THREAD_ID"
    by (auto simp: NLM_MAX_THREADS_def NLM_MANAGER_THREAD_ID_def word_le_def word_less_def unsigned_minus_1_eq_mask mask_eq_exp_minus_1)
  have ap: "attach_pool xmalloc ?c = Some (?a, pool_part c)"
    using pool_of_eq [OF pool(1) t(2), of xmalloc] t(1) by (simp add: pool_of_def)
  have room: "0 \<le> manager_room c" "8 dvd manager_room c" by (simp_all add: manager_room_def sizeof_device_def)
  have a: "0 < ?a" "8 dvd ?a" "?a + uint (pool_part c) < 2 ^ 64"
  proof -
    have "0 \<le> uint t * uint (pool_part c)" by simp
    then show "0 < ?a" using pool(4) room(1) by linarith
    show "8 dvd ?a" using pool(1) pool_parts_fit(2) [OF pool(1)] room(2) by (simp add: pool_config_def dvd_add)
    have "(uint t + 1) * uint (pool_part c) \<le> uint (cf_max_threads c) * uint (pool_part c)"
      using t(2) by (intro mult_right_mono) (simp_all add: word_less_def)
    then show "?a + uint (pool_part c) < 2 ^ 64"
      using pool_parts_fit(1) [OF pool(1)] pool(3) by (simp add: algebra_simps)
  qed
  let ?d = "fresh_handle ?c q ?a (pool_part c)"
  have n: "\<not> cf_max_threads c < threads_attached q + 1"
    using q(5) by (metis inc_le not_le)
  have "nlm_device_attach v2p train stack xmalloc mem (Some ?c) p_device q =
      Some (NLM_OK, Some (Some ?d), q\<lparr>threads_attached := threads_attached q + 1\<rparr>)"
    using t(1) ring p_device tid magic cmp ap n c
    by (simp add: nlm_device_attach_def device_attach_def Let_def system_ok_def not_le)
  moreover have "thread_id ?d = t" "memory_pool ?d = ?a" "dv_memory_pool_size ?d = pool_part c"
    by (simp_all add: fresh_handle_def Let_def)
  moreover have "starts_well (start_dp q ?d) \<and> pd_base p1 + uint t * uint (chunksize p1) \<le> first_free_pd ?d \<and>
    first_free_pdf ?d + sizeof_pdf \<le> pd_base p1 + (uint t + 1) * uint (chunksize p1)"
    by (rule fresh_starts [OF a(1,2) pool(2) a(3) p1(2) c t(2) q'(2,3)])
  ultimately show ?thesis using p1(3) by auto
qed

definition blank_handle :: nlm_handle where
  "blank_handle = fresh_handle slave_config (phy_start (\<lambda>_ _. 0) slave_config slave_hw) 0 0"

lemma threads_attach_witness:
  "\<exists>p q d. nlm_device_attach (\<lambda>_ _. 0) Some (\<lambda>_. 0) (\<lambda>_ _ _. 0) (\<lambda>_. blank_handle) (Some (slave_config\<lparr>cf_thread_id := 1\<rparr>)) 1 p =
      Some (NLM_OK, Some (Some d), q) \<and> thread_id d = 1 \<and> memory_pool d = 0x30080000 \<and> starts_well (start_dp p d)"
proof -
  obtain d p where dp: "nlm_device_init_1 (\<lambda>_ _. 0) Some (\<lambda>_. 0) (\<lambda>_ _ _. 0) slave_config (phy_start (\<lambda>_ _. 0) slave_config slave_hw) =
      Some (NLM_OK, Some (Some d), p)" using slave_attaches by blast
  obtain p1 where "physical_device_init (\<lambda>_ _. 0) Some (\<lambda>_. 0) slave_config slave_hw = Some (NLM_OK, p1)"
    "p = p1\<lparr>threads_attached := threads_attached p1 + 1\<rparr>"
    using init_1_OK [OF dp] by (metis phy_start_hw)
  then have n: "threads_attached p = 1"
    using physical_device_laid_out(1) [OF _ slave_ok] by (fastforce simp: laid_out_def)
  have v: "pool_part slave_config = 0x80000" "manager_room slave_config = 0" "cf_memory_pool slave_config = 0x30000000"
    "cf_memory_pool_size slave_config = 0x100000"
    by (simp_all add: pool_part_def pool_base_def manager_room_def slave_config_def sample_config_def)
  show ?thesis
    using threads_attach [OF dp slave_pool(2,3), of 1 1 p "\<lambda>_. blank_handle"]
    by (simp add: n v slave_values config_consts) blast
qed

section \<open>Detaching\<close>

lemma last_detach:
  assumes ctx: "l = 1 \<Longrightarrow> pops_contexts (answer h) ring sz ((ring_answers n p)(j := a)) \<and>
      writes_to (CNXT_POP_CTRL ring) (trace h) = 0 \<and> sz \<noteq> 0 \<and> n = unat (sz - 1) \<and> n < 2 ^ 24 \<and>
      bij_betw p {..<n} {..<n} \<and> 0 < j \<and> j \<le> Suc n"
  shows "\<exists>h1. (if l - 1 = (0 :: u32) then check_context_ring ring h else Some (NLM_OK, h)) =
      Some (if l = 1 \<and> a \<noteq> ring_answers n p j then NLM_DEVICE_CONTEXT_FAIL else NLM_OK, h1) \<and> answer h1 = answer h \<and>
    (\<forall>reg. reg \<noteq> CNXT_POP_CTRL ring \<longrightarrow> writes_to reg (trace h1) = writes_to reg (trace h)) \<and> (l \<noteq> 1 \<longrightarrow> h1 = h)"
proof (cases "l = 1")
  case True
  then have dev: "pops_contexts (answer h) ring sz ((ring_answers n p)(j := a))" "writes_to (CNXT_POP_CTRL ring) (trace h) = 0"
    and n: "sz \<noteq> 0" "n = unat (sz - 1)" "n < 2 ^ 24" and p: "bij_betw p {..<n} {..<n}" and j: "0 < j" "j \<le> Suc n"
    using ctx by blast+
  show ?thesis
    using check_context_ring_sums [OF dev(1) n(1,2) dev(2)] True unfolding add_0 single_fault_verdict [OF n p j refl] by auto
qed simp

text \<open>C33. Detaching a thread takes it off the count and calls the release function of the ring, if there is one, with the cookie and
  the pool of the thread. The last thread of a ring is told \<^const>\<open>NLM_DEVICE_CONTEXT_FAIL\<close> when one of the answers of the context
  ring is not the right one. On a XAUI ring every thread that detaches is told when the 511 buffers are not all there. Otherwise the
  result is \<^const>\<open>NLM_OK\<close>, and without these checks the registers are not touched. Nothing else changes.\<close>

theorem nlm_device_detach_correct:
  assumes magic: "device_magic q = NLM_DEVICE_MAGIC" and master: "dv_fms_ring_id d \<noteq> 0 \<or> thread_id d \<noteq> 0"
    and ctx: "threads_attached q = 1 \<Longrightarrow> pops_contexts (answer (phy_hw q)) (fms_ring_id q) sz ((ring_answers n p)(j := a)) \<and>
      writes_to (CNXT_POP_CTRL (fms_ring_id q)) (trace (phy_hw q)) = 0 \<and> sz \<noteq> 0 \<and> n = unat (sz - 1) \<and> n < 2 ^ 24 \<and>
      bij_betw p {..<n} {..<n} \<and> 0 < j \<and> j \<le> Suc n"
    and xaui: "fms_ring_id q \<in> {4, 5} \<Longrightarrow> pops_buffers (answer (phy_hw q)) (xaui_test (fms_ring_id q)) bufs \<and>
      writes_to (xaui_test (fms_ring_id q)) (trace (phy_hw q)) = 0 \<and> (\<forall>tr. answer (phy_hw q) tr (xaui_level (fms_ring_id q)) = level)"
  shows "\<exists>h'. nlm_device_detach (Some d) q =
     Some (if threads_attached q = 1 \<and> a \<noteq> ring_answers n p j then NLM_DEVICE_CONTEXT_FAIL
           else if fms_ring_id q \<in> {4, 5} \<and> \<not> xaui_complete level bufs then NLM_DEVICE_XAUI_BUFFER_INCONSISTENT else NLM_OK,
           if cf_xfree (config q) \<noteq> NULL then Some (dv_cookie d, memory_pool d) else None,
           q\<lparr>threads_attached := threads_attached q - 1, phy_hw := h'\<rparr>) \<and>
     (threads_attached q \<noteq> 1 \<and> fms_ring_id q \<notin> {4, 5} \<longrightarrow> h' = phy_hw q)"
proof -
  let ?r = "fms_ring_id q" and ?h = "phy_hw q" and ?bad = "threads_attached q = 1 \<and> a \<noteq> ring_answers n p j"
  let ?f = "if cf_xfree (config q) \<noteq> NULL then Some (dv_cookie d, memory_pool d) else None"
    and ?q = "\<lambda>h. q\<lparr>threads_attached := threads_attached q - 1, phy_hw := h\<rparr>"
  obtain h1 where h1: "(if threads_attached q - 1 = 0 then check_context_ring ?r ?h else Some (NLM_OK, ?h)) =
      Some (if ?bad then NLM_DEVICE_CONTEXT_FAIL else NLM_OK, h1)" "answer h1 = answer ?h"
    "\<forall>reg. reg \<noteq> CNXT_POP_CTRL ?r \<longrightarrow> writes_to reg (trace h1) = writes_to reg (trace ?h)" "threads_attached q \<noteq> 1 \<Longrightarrow> h1 = ?h"
    using last_detach [OF ctx] by blast
  have x: "\<exists>h'. check_xaui_buffers ?r h1 =
      Some (if ?r \<in> {4, 5} \<and> \<not> xaui_complete level bufs then NLM_DEVICE_XAUI_BUFFER_INCONSISTENT else NLM_OK, h') \<and>
      (?r \<notin> {4, 5} \<longrightarrow> h' = h1)"
  proof (cases "?r \<in> {4, 5}")
    case True
    then have "xaui_test ?r \<noteq> CNXT_POP_CTRL ?r" by (auto simp: xaui_test_def X0_TEST_def X1_TEST_def CNXT_REG_def)
    then have "writes_to (xaui_test ?r) (trace h1) = 0" "pops_buffers (answer h1) (xaui_test ?r) bufs"
      "answer h1 (trace h1) (xaui_level ?r) = level"
      using h1(2,3) xaui [OF True] by simp_all
    then show ?thesis using check_xaui_verdict [OF True, of h1 bufs] True by auto
  qed (use check_xaui_others in auto)
  then obtain h2 where h2: "check_xaui_buffers ?r h1 =
      Some (if ?r \<in> {4, 5} \<and> \<not> xaui_complete level bufs then NLM_DEVICE_XAUI_BUFFER_INCONSISTENT else NLM_OK, h2)"
    "?r \<notin> {4, 5} \<longrightarrow> h2 = h1" by blast
  have "nlm_device_detach (Some d) q = Option.bind (if threads_attached q - 1 = 0 then check_context_ring ?r ?h else Some (NLM_OK, ?h))
     (\<lambda>(status, h). if status \<noteq> NLM_OK then Some (status, ?f, ?q h)
        else map_option (\<lambda>(st, h1). (st, ?f, ?q h1)) (check_xaui_buffers ?r h))"
    unfolding nlm_device_detach_def using magic master by (auto simp: Let_def)
  then have detach: "nlm_device_detach (Some d) q = (if ?bad then Some (NLM_DEVICE_CONTEXT_FAIL, ?f, ?q h1)
      else map_option (\<lambda>(st, h1). (st, ?f, ?q h1)) (check_xaui_buffers ?r h1))"
    unfolding h1(1) by simp
  show ?thesis
  proof (cases ?bad)
    case True
    then show ?thesis unfolding detach if_P [OF True] by blast
  next
    case False
    have "?r \<notin> {4, 5} \<Longrightarrow> threads_attached q \<noteq> 1 \<Longrightarrow> h2 = ?h" using h1(4) h2(2) by blast
    then show ?thesis unfolding detach if_not_P [OF False] h2(1) option.map prod.case by blast
  qed
qed

text \<open>The last thread of ring 1 leaves: the context ring is complete, or its second answer gives no buffer.\<close>

definition last_thread :: "(nat \<Rightarrow> u32 option) \<Rightarrow> phy_device" where
  "last_thread bufs = (phy_start (\<lambda>_ _. 0) slave_config \<lparr>trace = [], answer = context_device 1 5 bufs\<rparr>)\<lparr>threads_attached := 1\<rparr>"

lemma nlm_device_detach_correct_witness:
  "(\<exists>h'. nlm_device_detach (Some (blank_handle\<lparr>dv_fms_ring_id := 1\<rparr>)) (last_thread (ring_answers 4 (\<lambda>i. 3 - i))) =
      Some (NLM_OK, None, last_thread (ring_answers 4 (\<lambda>i. 3 - i))\<lparr>threads_attached := 0, phy_hw := h'\<rparr>)) \<and>
   (\<exists>h'. nlm_device_detach (Some (blank_handle\<lparr>dv_fms_ring_id := 1\<rparr>)) (last_thread ((ring_answers 4 (\<lambda>i. 3 - i))(2 := None))) =
      Some (NLM_DEVICE_CONTEXT_FAIL, None, last_thread ((ring_answers 4 (\<lambda>i. 3 - i))(2 := None))\<lparr>threads_attached := 0, phy_hw := h'\<rparr>))"
proof -
  let ?p = "\<lambda>i. 3 - i :: nat" and ?d = "blank_handle\<lparr>dv_fms_ring_id := 1\<rparr>"
  let ?q = "\<lambda>a. last_thread ((ring_answers 4 ?p)(2 := a))"
  have inj: "inj_on ?p {..<4}" by (auto simp: inj_on_def)
  have "?p ` {..<4} \<subseteq> {..<4}" by auto
  then have p: "bij_betw ?p {..<4} {..<4}" using inj by (simp add: bij_betw_def endo_inj_surj)
  have q: "device_magic (?q a) = NLM_DEVICE_MAGIC" "threads_attached (?q a) = 1" "fms_ring_id (?q a) = 1" "config (?q a) = slave_config"
    "phy_hw (?q a) = \<lparr>trace = [], answer = context_device 1 5 ((ring_answers 4 ?p)(2 := a))\<rparr>" for a
    by (simp_all add: last_thread_def phy_start_def slave_values)
  have x: "cf_xfree slave_config = NULL" by (simp add: slave_config_def sample_config_def)
  have "\<exists>h'. nlm_device_detach (Some ?d) (?q a) =
     Some (if threads_attached (?q a) = 1 \<and> a \<noteq> ring_answers 4 ?p 2 then NLM_DEVICE_CONTEXT_FAIL
           else if fms_ring_id (?q a) \<in> {4, 5} \<and> \<not> xaui_complete 0 (\<lambda>_. 0) then NLM_DEVICE_XAUI_BUFFER_INCONSISTENT else NLM_OK,
           if cf_xfree (config (?q a)) \<noteq> NULL then Some (dv_cookie ?d, memory_pool ?d) else None,
           ?q a\<lparr>threads_attached := threads_attached (?q a) - 1, phy_hw := h'\<rparr>) \<and>
     (threads_attached (?q a) \<noteq> 1 \<and> fms_ring_id (?q a) \<notin> {4, 5} \<longrightarrow> h' = phy_hw (?q a))" for a
    by (rule nlm_device_detach_correct [where sz = 5]) (simp_all add: q p context_device_pops writes_to_def)
  note m = this
  have st: "(if (1 :: u32) = 1 \<and> a \<noteq> ring_answers 4 ?p 2 then NLM_DEVICE_CONTEXT_FAIL
      else if (1 :: u8) \<in> {4, 5} \<and> \<not> xaui_complete 0 (\<lambda>_. 0) then NLM_DEVICE_XAUI_BUFFER_INCONSISTENT else NLM_OK) =
     (if a = ring_answers 4 ?p 2 then NLM_OK else NLM_DEVICE_CONTEXT_FAIL)" for a by simp
  have r: "\<exists>h'. nlm_device_detach (Some ?d) (?q a) =
     Some (if a = ring_answers 4 ?p 2 then NLM_OK else NLM_DEVICE_CONTEXT_FAIL, None, ?q a\<lparr>threads_attached := 0, phy_hw := h'\<rparr>)" for a
    using m [of a] unfolding q st x by (elim exE conjE) (simp only: simp_thms if_False diff_self, blast)
  have w: "None \<noteq> ring_answers 4 ?p 2" by (simp add: ring_answers_def)
  show ?thesis using r [of "ring_answers 4 ?p 2"] r [of None] unfolding if_P [OF refl] if_not_P [OF w] fun_upd_triv ..
qed

text \<open>A refused attachment stays counted, so that the thread that detaches last is not noticed: with one thread allowed, attaching
  a second and then detaching the first leaves the counter at one and the context ring unchecked.\<close>

lemma refused_attach_counts:
  assumes "threads_attached p = cf_max_threads c" and "cf_max_threads c = 1" and "device_magic p = NLM_DEVICE_MAGIC"
    and "fms_ring_id p = 1" and "dv_fms_ring_id d = 1" and "cf_xfree (config p) = NULL"
  shows "device_attach c p pool n = (NLM_EXCESS_DEVICE_ATTACH, None, p\<lparr>threads_attached := 2\<rparr>) \<and>
    nlm_device_detach (Some d) (p\<lparr>threads_attached := 2\<rparr>) = Some (NLM_OK, None, p\<lparr>threads_attached := 1\<rparr>)"
  using assms check_xaui_others [of "fms_ring_id p"] by (simp add: device_attach_def nlm_device_detach_def Let_def)

text \<open>With both a memory pool and allocation functions, an attached thread lives in the pool of the user, and detaching hands that
  address to the release function.\<close>

lemma releases_pool_of_user:
  assumes "nlm_device_attach v2p train stack xmalloc mem (Some c) p_device q = Some (NLM_OK, Some (Some d), q1)"
    and "cf_thread_id c \<noteq> 0" and "cf_thread_id c \<noteq> NLM_MANAGER_THREAD_ID" and "threads_attached q \<noteq> 0"
    and "fms_ring_id q \<noteq> 4" and "fms_ring_id q \<noteq> 5" and "cf_memory_pool c \<noteq> NULL" and "cf_xfree (config q) \<noteq> NULL"
  shows "nlm_device_detach (Some d) q1 = Some (NLM_OK, Some (cf_cookie c, pool_base c + uint (pool_part c * cf_thread_id c)), q)"
proof -
  obtain r where r: "attach_pool xmalloc c = Some r" "device_magic q = NLM_DEVICE_MAGIC" "device_attach c q (fst r) (snd r) = (NLM_OK, Some d, q1)"
    using assms(1-3) by (auto simp: nlm_device_attach_def bind_eq_Some_conv split: if_splits option.splits prod.splits)
  then have d: "d = fresh_handle c q (fst r) (snd r)" "q1 = q\<lparr>threads_attached := threads_attached q + 1\<rparr>"
    by (auto simp: device_attach_def Let_def split: if_splits)
  have h: "thread_id d = cf_thread_id c" "dv_cookie d = cf_cookie c" "memory_pool d = fst r" by (simp_all add: d fresh_handle_def Let_def)
  have m: "fst r = pool_base c + uint (pool_part c * cf_thread_id c)"
    using r(1) assms(7) by (auto simp: attach_pool_def split: if_splits)
  show ?thesis unfolding nlm_device_detach_def
    using assms r(2) by (simp add: h m check_xaui_others d(2))
qed

end
