(* ===== verification/Dev_Params.thy ===== *)
theory Dev_Params
  imports Dev_Attach Loader_Set
begin

unbundle bit_operations_syntax

text \<open>
  The parameters of a device (nlm_device_get_param and nlm_device_set_param of lib/dataplane/fms_packet_api.c). The
  arguments behind the number of the parameter are a list of values; reading an argument of another kind or past the
  end is \<^term>\<open>None\<close>, and so is a write through a null pointer. What an operation writes for the user is part of its result. The packet
  operations and the loader share one set of registers.
\<close>

section \<open>Requests\<close>

datatype nlm_device_param = NLM_FLOW_OFFSET | NLM_HW_MEMORY | NLM_HW_REGISTER | NLM_MAX_MATCHES_PER_JOB | NLM_MAX_STATES_PER_BYTE |
  NLM_OUTPUT_FIFO_TIMER | NLM_INPUT_FIFO_TIMER | NLM_TIMESTAMP | NLM_DATABASE_COPY_CNT | NLM_DATABASE_BLOCK_CNT |
  NLM_DATABASE_TOTAL_BLOCK_CNT | NLM_DATABASE_BALANCE | NLM_DATABASE_LOAD_POLICY | NLM_DATABASE_LOADER_STATUS | NLM_TOTAL_BLOCK_CNT |
  NLM_PACKET_ENQUEUE_POLICY | NLM_FLOW_FORCE_ONE_FD | NLM_XAUI_PASSTHROUGH_FLOW | NLM_LAST_DEVICE_PARAM

datatype arg = A_u32 u32 | A_u64 u64 | A_ptr addr
datatype stored = S_u32 u32 | S_u64 u64 | S_status nlm_status

text \<open>The state: the packet API and the loader; the registers are those of the packet API.\<close>

record api =
  packets :: dp
  loader :: fms_loader

type_synonym param_result = "(nlm_status \<times> (addr \<times> stored) list \<times> api) option"

definition api_hw :: "api \<Rightarrow> hw" where "api_hw s = phy_hw (phy (packets s))"

definition set_api_hw :: "hw \<Rightarrow> api \<Rightarrow> api" where
  "set_api_hw h s = s\<lparr>packets := upd_phy (\<lambda>p. p\<lparr>phy_hw := h\<rparr>) (packets s)\<rparr>"

definition with_loader :: "(fms_loader \<Rightarrow> ('a \<times> fms_loader) option) \<Rightarrow> api \<Rightarrow> ('a \<times> api) option" where
  "with_loader f s =
     map_option (\<lambda>(x, p). (x, set_api_hw (ld_hw p) (s\<lparr>loader := p\<rparr>))) (f ((loader s)\<lparr>ld_hw := api_hw s\<rparr>))"

definition api_handle :: "api \<Rightarrow> handle" where
  "api_handle s = Some (fms_ring_id (phy (packets s)), thread_id (dev (packets s)))"

text \<open>\<^verbatim>\<open>*ptr = v\<close> and the end of the operation.\<close>

definition store :: "addr \<Rightarrow> stored \<Rightarrow> nlm_status \<Rightarrow> api \<Rightarrow> param_result" where
  "store a v status s = assert_then (a \<noteq> NULL) (Some (status, [(a, v)], s))"

section \<open>Registers\<close>

definition MINI_ON :: u32 where "MINI_ON = 0x5044"

abbreviation "RDF_TIMESTAMP_LOW \<equiv> RDF_REG 0x6024"
abbreviation "RDF_TIMESTAMP_HI \<equiv> RDF_REG 0x6028"

text \<open>The register an address given by the user selects: \<^verbatim>\<open>((unsigned short) reg) >> 2\<close> is the index of the word.\<close>

definition register_at :: "u32 \<Rightarrow> u32" where
  "register_at reg = push_bit 2 (drop_bit 2 (ucast (ucast reg :: u16)))"

definition get_register :: "u32 \<Rightarrow> (u32 \<Rightarrow> u32) \<Rightarrow> addr \<Rightarrow> api \<Rightarrow> param_result" where
  "get_register reg f a s = (let (v, h) = HW_REGISTER reg (api_hw s) in store a (S_u32 (f v)) NLM_OK (set_api_hw h s))"

section \<open>Reading a parameter\<close>

definition get_timestamp :: "addr \<Rightarrow> api \<Rightarrow> param_result" where
  "get_timestamp a s =
     (let ring = fms_ring_id (phy (packets s));
          h = SET_HW_REGISTER (RDF_TIMESTAMP_LOW ring) 0 (api_hw s);
          (lo, h1) = HW_REGISTER (RDF_TIMESTAMP_LOW ring) h;
          (hi, h2) = HW_REGISTER (RDF_TIMESTAMP_HI ring) h1
      in store a (S_u64 (ucast lo OR push_bit 32 (ucast hi AND 0xff))) NLM_OK (set_api_hw h2 s))"

definition get_copy_cnt :: "u32 \<Rightarrow> addr \<Rightarrow> addr \<Rightarrow> api \<Rightarrow> param_result" where
  "get_copy_cnt database_id num db_status s =
     Option.bind (with_loader (\<lambda>p. map_option (\<lambda>(st, p1, n). ((st, n), p1))
         (nlm_device_database_get_num_copies (api_handle s) database_id p)) s)
       (\<lambda>((st, n), s1). assert_then (db_status \<noteq> NULL)
          (case n of None \<Rightarrow> Some (NLM_OK, [(db_status, S_status st)], s1)
           | Some k \<Rightarrow> assert_then (num \<noteq> NULL) (Some (NLM_OK, [(num, S_u32 k), (db_status, S_status st)], s1))))"

definition get_flow_offset :: "addr \<Rightarrow> addr \<Rightarrow> api \<Rightarrow> param_result" where
  "get_flow_offset flow offset s =
     (let f = flows (packets s) flow in
      if flow = NULL \<or> fl_type f \<noteq> NLM_FLOW_TYPE_STATEFUL then Some (NLM_INVALID_FLOW, [], s)
      else if offset = NULL then Some (NLM_INVALID_ARGUMENT, [], s)
      else Some (NLM_OK, [(offset, S_u64 (fl_flow_offset f))], s))"

definition get_loader_status :: "addr \<Rightarrow> api \<Rightarrow> param_result" where
  "get_loader_status a s =
     Option.bind (with_loader (nlm_device_loader_cmd_exec_fms (api_handle s)) s) (\<lambda>(st, s1). store a (S_status st) NLM_OK s1)"

definition get_param :: "nlm_device_param \<Rightarrow> arg list \<Rightarrow> api \<Rightarrow> param_result" where
  "get_param param args s =
     (let p = phy (packets s); ring = fms_ring_id p in
      case param of
        NLM_MAX_MATCHES_PER_JOB \<Rightarrow>
          (case args of A_ptr a # _ \<Rightarrow> get_register (RDF_CLAMP0 ring) (\<lambda>v. v AND (2 ^ 14 - 1)) a s | _ \<Rightarrow> None)
      | NLM_MAX_STATES_PER_BYTE \<Rightarrow> Some (NLM_UNSUPPORTED, [], s)
      | NLM_OUTPUT_FIFO_TIMER \<Rightarrow> (case args of A_ptr a # _ \<Rightarrow> get_register (RDF_FORCE_TIMER ring) (\<lambda>v. v) a s | _ \<Rightarrow> None)
      | NLM_INPUT_FIFO_TIMER \<Rightarrow> (case args of A_ptr a # _ \<Rightarrow> get_register (FDF_POLL_INTERVAL ring) (\<lambda>v. v) a s | _ \<Rightarrow> None)
      | NLM_TIMESTAMP \<Rightarrow> (case args of A_ptr a # _ \<Rightarrow> get_timestamp a s | _ \<Rightarrow> None)
      | NLM_HW_REGISTER \<Rightarrow>
          (case args of A_u32 reg # A_ptr a # _ \<Rightarrow> get_register (register_at reg) (\<lambda>v. v) a s | _ \<Rightarrow> None)
      | NLM_TOTAL_BLOCK_CNT \<Rightarrow>
          (case args of A_ptr a # _ \<Rightarrow> store a (S_u32 (ucast (num_fms_blocks (loader s)))) NLM_OK s | _ \<Rightarrow> None)
      | NLM_DATABASE_LOAD_POLICY \<Rightarrow>
          (case args of A_ptr a # _ \<Rightarrow> store a (S_u32 (ucast (database_load_policy (loader s)))) NLM_OK s | _ \<Rightarrow> None)
      | NLM_DATABASE_COPY_CNT \<Rightarrow> (case args of A_u32 db # A_ptr num # A_ptr st # _ \<Rightarrow> get_copy_cnt db num st s | _ \<Rightarrow> None)
      | NLM_DATABASE_TOTAL_BLOCK_CNT \<Rightarrow> Some (NLM_OK, [], s)
      | NLM_FLOW_OFFSET \<Rightarrow> (case args of A_ptr flow # A_ptr offset # _ \<Rightarrow> get_flow_offset flow offset s | _ \<Rightarrow> None)
      | NLM_PACKET_ENQUEUE_POLICY \<Rightarrow>
          (case args of A_ptr a # _ \<Rightarrow> store a (S_u32 (ucast (packet_enqueue_policy p))) NLM_OK s | _ \<Rightarrow> None)
      | NLM_DATABASE_LOADER_STATUS \<Rightarrow> (case args of A_ptr a # _ \<Rightarrow> get_loader_status a s | _ \<Rightarrow> None)
      | _ \<Rightarrow> Some (NLM_INVALID_ARGUMENT, [], s))"

text \<open>The checks of the handle.\<close>

definition checked :: "addr \<Rightarrow> (api \<Rightarrow> param_result) \<Rightarrow> api \<Rightarrow> param_result" where
  "checked device f s =
     (if device = NULL then Some (NLM_INVALID_ARGUMENT, [], s)
      else if thread_id (dev (packets s)) \<noteq> 0 then Some (NLM_INVALID_THREAD_ID, [], s)
      else f s)"

definition nlm_device_get_param :: "addr \<Rightarrow> nlm_device_param \<Rightarrow> arg list \<Rightarrow> api \<Rightarrow> param_result" where
  "nlm_device_get_param device param args = checked device (get_param param args)"

section \<open>Changing a parameter\<close>

definition set_register :: "u32 \<Rightarrow> u32 \<Rightarrow> api \<Rightarrow> param_result" where
  "set_register reg v s = Some (NLM_OK, [], set_api_hw (SET_HW_REGISTER reg v (api_hw s)) s)"

definition set_max_matches :: "u32 \<Rightarrow> api \<Rightarrow> param_result" where
  "set_max_matches curval s =
     (let reg = RDF_CLAMP0 (fms_ring_id (phy (packets s))); (v, h) = HW_REGISTER reg (api_hw s)
      in set_register reg ((v AND NOT (2 ^ 14 - 1)) OR (curval AND (2 ^ 14 - 1))) (set_api_hw h s))"

text \<open>Turning on the mini engines also sets the number of rows of a block.\<close>

definition set_hw_register :: "u32 \<Rightarrow> u32 \<Rightarrow> api \<Rightarrow> param_result" where
  "set_hw_register reg v s =
     set_register (register_at reg) v
       (if reg = MINI_ON \<and> v > 0 then s\<lparr>loader := (loader s)\<lparr>num_rows_per_fms_block := 64\<rparr>\<rparr> else s)"

definition set_copy_cnt :: "u32 \<Rightarrow> u32 \<Rightarrow> addr \<Rightarrow> api \<Rightarrow> param_result" where
  "set_copy_cnt database_id num_copies db_status s =
     (if NLM_MAX_DATABASE_ID < database_id then store db_status (S_status NLM_INVALID_DATABASE_ID) NLM_OK s
      else if 1 > num_copies \<or> 4 < num_copies then store db_status (S_status NLM_INVALID_ARGUMENT) NLM_OK s
      else Option.bind (with_loader (nlm_device_loader_cmd_exec_fms (api_handle s)) s) (\<lambda>(st, s1).
        if st = NLM_LOADER_IN_PROGRESS then Some (NLM_BUSY, [], s1)
        else Option.bind (with_loader (nlm_device_database_set_num_copies (api_handle s1) database_id num_copies) s1)
          (\<lambda>(st, s2). store db_status (S_status st) NLM_OK s2)))"

definition set_balance :: "addr \<Rightarrow> api \<Rightarrow> param_result" where
  "set_balance db_status s =
     Option.bind (with_loader (nlm_device_database_balance (api_handle s)) s) (\<lambda>(st, s1). store db_status (S_status st) NLM_OK s1)"

definition set_flow_offset :: "addr \<Rightarrow> u64 \<Rightarrow> api \<Rightarrow> param_result" where
  "set_flow_offset flow offset s =
     (if flow = NULL \<or> fl_type (flows (packets s) flow) \<noteq> NLM_FLOW_TYPE_STATEFUL then Some (NLM_INVALID_FLOW, [], s)
      else Some (NLM_OK, [], s\<lparr>packets := upd_flow flow (\<lambda>f. f\<lparr>fl_flow_offset := offset\<rparr>) (packets s)\<rparr>))"

definition force_one_fd :: "addr \<Rightarrow> api \<Rightarrow> param_result" where
  "force_one_fd flow s =
     assert_then (flow \<noteq> NULL) (Some (NLM_OK, [], s\<lparr>packets := upd_flow flow (\<lambda>f. f\<lparr>fl_last_pd := NULL\<rparr>) (packets s)\<rparr>))"

definition set_param :: "nlm_device_param \<Rightarrow> arg list \<Rightarrow> api \<Rightarrow> param_result" where
  "set_param param args s =
     (let ring = fms_ring_id (phy (packets s)) in
      case param of
        NLM_MAX_MATCHES_PER_JOB \<Rightarrow> (case args of A_u32 v # _ \<Rightarrow> set_max_matches v s | _ \<Rightarrow> None)
      | NLM_MAX_STATES_PER_BYTE \<Rightarrow> Some (NLM_UNSUPPORTED, [], s)
      | NLM_OUTPUT_FIFO_TIMER \<Rightarrow> (case args of A_u32 v # _ \<Rightarrow> set_register (RDF_FORCE_TIMER ring) v s | _ \<Rightarrow> None)
      | NLM_INPUT_FIFO_TIMER \<Rightarrow> (case args of A_u32 v # _ \<Rightarrow> set_register (FDF_POLL_INTERVAL ring) v s | _ \<Rightarrow> None)
      | NLM_TOTAL_BLOCK_CNT \<Rightarrow> Some (NLM_INCORRECT_ACCESS, [], s)
      | NLM_DATABASE_TOTAL_BLOCK_CNT \<Rightarrow> Some (NLM_INCORRECT_ACCESS, [], s)
      | NLM_TIMESTAMP \<Rightarrow> Some (NLM_INCORRECT_ACCESS, [], s)
      | NLM_HW_REGISTER \<Rightarrow> (case args of A_u32 reg # A_u32 v # _ \<Rightarrow> set_hw_register reg v s | _ \<Rightarrow> None)
      | NLM_DATABASE_LOAD_POLICY \<Rightarrow>
          (case args of A_u32 v # _ \<Rightarrow> Some (NLM_OK, [], s\<lparr>loader := (loader s)\<lparr>database_load_policy := ucast v\<rparr>\<rparr>) | _ \<Rightarrow> None)
      | NLM_DATABASE_COPY_CNT \<Rightarrow> (case args of A_u32 db # A_u32 n # A_ptr st # _ \<Rightarrow> set_copy_cnt db n st s | _ \<Rightarrow> None)
      | NLM_DATABASE_BALANCE \<Rightarrow> (case args of A_ptr st # _ \<Rightarrow> set_balance st s | _ \<Rightarrow> None)
      | NLM_FLOW_OFFSET \<Rightarrow> (case args of A_ptr flow # A_u64 offset # _ \<Rightarrow> set_flow_offset flow offset s | _ \<Rightarrow> None)
      | NLM_PACKET_ENQUEUE_POLICY \<Rightarrow>
          (case args of A_u32 v # _ \<Rightarrow>
             Some (NLM_OK, [], s\<lparr>packets := upd_phy (\<lambda>p. p\<lparr>packet_enqueue_policy := ucast v\<rparr>) (packets s)\<rparr>) | _ \<Rightarrow> None)
      | NLM_FLOW_FORCE_ONE_FD \<Rightarrow> (case args of A_ptr flow # _ \<Rightarrow> force_one_fd flow s | _ \<Rightarrow> None)
      | _ \<Rightarrow> Some (NLM_INVALID_ARGUMENT, [], s))"

definition nlm_device_set_param :: "addr \<Rightarrow> nlm_device_param \<Rightarrow> arg list \<Rightarrow> api \<Rightarrow> param_result" where
  "nlm_device_set_param device param args = checked device (set_param param args)"

section \<open>Parameters behave like variables\<close>

lemma api_hw_set [simp]: "api_hw (set_api_hw h s) = h" "packets (set_api_hw h s) = upd_phy (\<lambda>p. p\<lparr>phy_hw := h\<rparr>) (packets s)"
  "loader (set_api_hw h s) = loader s"
  by (simp_all add: api_hw_def set_api_hw_def)

text \<open>The numeric parameters that can be read and changed, their value, and what is kept of a new value.\<close>

definition numeric_params :: "nlm_device_param set" where
  "numeric_params = {NLM_MAX_MATCHES_PER_JOB, NLM_OUTPUT_FIFO_TIMER, NLM_INPUT_FIFO_TIMER, NLM_DATABASE_LOAD_POLICY, NLM_PACKET_ENQUEUE_POLICY}"

fun param_value :: "nlm_device_param \<Rightarrow> api \<Rightarrow> u32" where
  "param_value NLM_MAX_MATCHES_PER_JOB s = register (RDF_CLAMP0 (fms_ring_id (phy (packets s)))) (api_hw s) AND (2 ^ 14 - 1)"
| "param_value NLM_OUTPUT_FIFO_TIMER s = register (RDF_FORCE_TIMER (fms_ring_id (phy (packets s)))) (api_hw s)"
| "param_value NLM_INPUT_FIFO_TIMER s = register (FDF_POLL_INTERVAL (fms_ring_id (phy (packets s)))) (api_hw s)"
| "param_value NLM_DATABASE_LOAD_POLICY s = ucast (database_load_policy (loader s))"
| "param_value NLM_PACKET_ENQUEUE_POLICY s = ucast (packet_enqueue_policy (phy (packets s)))"
| "param_value _ s = 0"

fun kept :: "nlm_device_param \<Rightarrow> u32 \<Rightarrow> u32" where
  "kept NLM_MAX_MATCHES_PER_JOB v = v AND (2 ^ 14 - 1)"
| "kept NLM_DATABASE_LOAD_POLICY v = ucast (ucast v :: u8)"
| "kept NLM_PACKET_ENQUEUE_POLICY v = ucast (ucast v :: u8)"
| "kept _ v = v"

lemma param_registers_distinct:
  "RDF_CLAMP0 ring \<noteq> RDF_FORCE_TIMER ring" "FDF_POLL_INTERVAL ring \<noteq> RDF_CLAMP0 ring" "FDF_POLL_INTERVAL ring \<noteq> RDF_FORCE_TIMER ring"
proof -
  have "take_bit 32 (uint ring) = uint ring" using uint_lt2p [of ring] by (intro take_bit_int_eq_self) simp_all
  then have r: "uint (ucast ring :: u32) < 256" using uint_lt2p [of ring] by (simp add: unsigned_ucast_eq)
  have f: "uint (FDF_POLL_INTERVAL ring) = 0x1014 + uint (ucast ring :: u32) * 0x40"
    "uint (RDF_CLAMP0 ring) = 0x6004 + uint (ucast ring :: u32) * 0x80" "uint (RDF_FORCE_TIMER ring) = 0x6020 + uint (ucast ring :: u32) * 0x80"
    using r by (simp_all add: FDF_REG_def RDF_REG_def uint_word_ariths)
  show "RDF_CLAMP0 ring \<noteq> RDF_FORCE_TIMER ring" by (simp add: RDF_REG_def)
  have "uint (FDF_POLL_INTERVAL ring) \<noteq> uint (RDF_CLAMP0 ring)" "uint (FDF_POLL_INTERVAL ring) \<noteq> uint (RDF_FORCE_TIMER ring)"
    using f r uint_ge_0 [of "ucast ring :: u32"] by linarith+
  then show "FDF_POLL_INTERVAL ring \<noteq> RDF_CLAMP0 ring" "FDF_POLL_INTERVAL ring \<noteq> RDF_FORCE_TIMER ring" by metis+
qed

lemma clamp_field: "((v AND - 16384) OR (x AND 16383)) AND 16383 = x AND (16383 :: u32)"
proof -
  have "((v AND NOT (mask 14)) OR (x AND mask 14)) AND mask 14 = x AND (mask 14 :: u32)"
    by (rule bit_word_eqI) (auto simp: bit_simps)
  then show ?thesis by (simp add: mask_eq_exp_minus_1)
qed

text \<open>The three registers of a ring that hold parameters keep the value written last, whatever the other registers do.\<close>

definition keeps_params :: "(access list \<Rightarrow> u32 \<Rightarrow> u32) \<Rightarrow> u8 \<Rightarrow> bool" where
  "keeps_params ans ring \<longleftrightarrow> (\<forall>reg \<in> {RDF_CLAMP0 ring, RDF_FORCE_TIMER ring, FDF_POLL_INTERVAL ring}. \<forall>tr r v.
     ans (tr @ [Rd r v]) reg = ans tr reg \<and> ans (tr @ [Wr r v]) reg = (if r = reg then v else ans tr reg))"

lemma keeps_params_simps:
  assumes "keeps_params (answer h) ring" and "reg = RDF_CLAMP0 ring \<or> reg = RDF_FORCE_TIMER ring \<or> reg = FDF_POLL_INTERVAL ring"
  shows "fst (HW_REGISTER r h) = register r h" "register reg (snd (HW_REGISTER r h)) = register reg h"
    "register reg (SET_HW_REGISTER r v h) = (if r = reg then v else register reg h)"
  using assms by (auto simp: keeps_params_def register_def HW_REGISTER_def SET_HW_REGISTER_def Let_def)

lemma keeps_params_file: "register_file ans \<Longrightarrow> keeps_params ans ring"
  by (simp add: keeps_params_def register_file_def)

lemma get_numeric:
  assumes "param \<in> numeric_params" and "keeps_params (answer (api_hw s)) (fms_ring_id (phy (packets s)))" and "a \<noteq> NULL"
  shows "\<exists>s'. get_param param (A_ptr a # rest) s = Some (NLM_OK, [(a, S_u32 (param_value param s))], s') \<and>
    (\<forall>q \<in> numeric_params. param_value q s' = param_value q s)"
  using assms
  by (auto simp: numeric_params_def get_param_def get_register_def store_def Let_def split_beta register_simps
      keeps_params_simps [OF assms(2)])

lemma set_numeric:
  assumes p: "param \<in> numeric_params" and f: "keeps_params (answer (api_hw s)) (fms_ring_id (phy (packets s)))"
  shows "\<exists>s'. set_param param (A_u32 v # rest) s = Some (NLM_OK, [], s') \<and> answer (api_hw s') = answer (api_hw s) \<and>
    fms_ring_id (phy (packets s')) = fms_ring_id (phy (packets s)) \<and> dev (packets s') = dev (packets s) \<and>
    (\<forall>q \<in> numeric_params. param_value q s' = (if q = param then kept param v else param_value q s))"
proof -
  have g: "keeps_params (answer (phy_hw (phy (packets s)))) (fms_ring_id (phy (packets s)))" using f by (simp add: api_hw_def)
  have g1: "keeps_params (answer (snd (HW_REGISTER r (phy_hw (phy (packets s)))))) (fms_ring_id (phy (packets s)))" for r
    using g by simp
  note d = param_registers_distinct [of "fms_ring_id (phy (packets s))"]
  show ?thesis using p unfolding numeric_params_def
    by (elim insertE) (simp_all add: set_param_def set_max_matches_def set_register_def Let_def split_beta register_simps
        keeps_params_simps [OF g] keeps_params_simps [OF g1] api_hw_def d d [symmetric] clamp_field)
qed

text \<open>C25. When the three registers of the ring that hold parameters keep the value written last, the numeric parameters are
  independent variables: after a change, reading the parameter gives the part of the value that the code keeps - the low 14 bits of
  the number of matches, the low eight bits of a policy, all of a timer - and every other parameter reads as before.\<close>

theorem params_are_variables:
  assumes param: "param \<in> numeric_params" "q \<in> numeric_params" and f: "keeps_params (answer (api_hw s)) (fms_ring_id (phy (packets s)))"
    and dev: "device \<noteq> NULL" "thread_id (dev (packets s)) = 0" and a: "a \<noteq> NULL"
  shows "\<exists>s1 s2. nlm_device_set_param device param [A_u32 v] s = Some (NLM_OK, [], s1) \<and>
    nlm_device_get_param device q [A_ptr a] s1 = Some (NLM_OK, [(a, S_u32 (if q = param then kept param v else param_value q s))], s2)"
proof -
  obtain s1 where s1: "set_param param [A_u32 v] s = Some (NLM_OK, [], s1)" "answer (api_hw s1) = answer (api_hw s)"
    "fms_ring_id (phy (packets s1)) = fms_ring_id (phy (packets s))" "dev (packets s1) = dev (packets s)" "\<forall>q \<in> numeric_params. param_value q s1 = (if q = param then kept param v else param_value q s)"
    using set_numeric [OF param(1) f, of v "[]"] by blast
  obtain s2 where "get_param q [A_ptr a] s1 = Some (NLM_OK, [(a, S_u32 (param_value q s1))], s2)"
    using get_numeric [OF param(2), of s1 a "[]"] f s1(2,3) a by auto
  then show ?thesis
    using s1 dev param(2) by (auto simp: nlm_device_set_param_def nlm_device_get_param_def checked_def)
qed

definition sample_phy :: "hw \<Rightarrow> phy_device" where
  "sample_phy h = (phy_start (\<lambda>_ _. 0) sample_config h)\<lparr>input_fifo := replicate 1024 fd_zero, pd_base := 0x10020000, chunksize := 0x1000\<rparr>"

definition sample_api :: "hw \<Rightarrow> api" where
  "sample_api h = \<lparr>packets = start_dp (sample_phy h) (fresh_handle sample_config (sample_phy h) 0x30000000 0x10000), loader = sample_loader\<rparr>"

lemma sample_api_simps:
  "api_hw (sample_api h) = h" "thread_id (dev (packets (sample_api h))) = 0" "fms_ring_id (phy (packets (sample_api h))) = 0"
  "loader (sample_api h) = sample_loader"
  by (simp_all add: api_hw_def sample_api_def start_dp_def sample_phy_def phy_start_def fresh_handle_def Let_def nlm_phy_device.defs
      nlm_device.defs sample_config_def)

lemma params_are_variables_witness:
  "\<exists>s1 s2. nlm_device_set_param 1 NLM_MAX_MATCHES_PER_JOB [A_u32 0xffff] (sample_api \<lparr>trace = [], answer = file_device\<rparr>) = Some (NLM_OK, [], s1) \<and>
    nlm_device_get_param 1 NLM_MAX_MATCHES_PER_JOB [A_ptr 8] s1 = Some (NLM_OK, [(8, S_u32 0x3fff)], s2)"
  using params_are_variables [of NLM_MAX_MATCHES_PER_JOB NLM_MAX_MATCHES_PER_JOB "sample_api \<lparr>trace = [], answer = file_device\<rparr>" 1 8 "0xffff"]
  by (simp add: numeric_params_def sample_api_simps keeps_params_file [OF file_device_ok])

text \<open>A policy is not checked and cut to eight bits: 257 is stored as 1.\<close>

lemma load_policy_truncated:
  "device \<noteq> NULL \<Longrightarrow> thread_id (dev (packets s)) = 0 \<Longrightarrow>
   nlm_device_set_param device NLM_DATABASE_LOAD_POLICY [A_u32 (256 + ucast NLM_DATABASE_LOAD_POLICY_ASYNC)] s =
   nlm_device_set_param device NLM_DATABASE_LOAD_POLICY [A_u32 (ucast NLM_DATABASE_LOAD_POLICY_ASYNC)] s"
  by (simp add: nlm_device_set_param_def checked_def set_param_def NLM_DATABASE_LOAD_POLICY_ASYNC_def)

section \<open>Forcing a new descriptor loses a job\<close>

text \<open>Forcing a new descriptor for a flow that still waits for room in the ring loses the next job: its packet descriptor is neither
  linked to the waiting chain nor made the head of a new one, so no chain that will be sent to the device contains it,
  although the flow records it as the last one that was started.\<close>

theorem force_one_fd_loses_job:
  assumes sched: "sched_ok (packets s) fs Q" and waiting: "flow \<in> set fs" and fresh: "pd \<notin> set (Q flow)"
    and dev: "device \<noteq> NULL" "thread_id (dev (packets s)) = 0" "flow \<noteq> NULL"
  shows "\<exists>s1 t. nlm_device_set_param device NLM_FLOW_FORCE_ONE_FD [A_ptr flow] s = Some (NLM_OK, [], s1) \<and>
    nlm_flow_add_job_to_list flow job pd (packets s1) = Some t \<and> fl_last_pd (flows t flow) = pd \<and>
    pending_ok t fs \<and> fl_pending_pd_head (flows t flow) = hd (Q flow) \<and> chain (pd_next t) (hd (Q flow)) (Q flow) \<and>
    pd \<notin> set (Q flow)"
proof -
  let ?s1 = "s\<lparr>packets := upd_flow flow (\<lambda>f. f\<lparr>fl_last_pd := NULL\<rparr>) (packets s)\<rparr>"
  have set: "nlm_device_set_param device NLM_FLOW_FORCE_ONE_FD [A_ptr flow] s = Some (NLM_OK, [], ?s1)"
    using dev by (simp add: nlm_device_set_param_def checked_def set_param_def force_one_fd_def)
  have head: "fl_pending_pd_head (flows (packets s) flow) \<noteq> NULL" using sched waiting by (simp add: sched_ok_def)
  moreover have "flow_queue (packets s) flow (Q flow)" using sched by (simp add: sched_ok_def)
  ultimately have q: "Q flow \<noteq> []" "chain (pd_next (packets s)) (hd (Q flow)) (Q flow)"
    "fl_pending_pd_head (flows (packets s) flow) = hd (Q flow)"
    by (auto simp: flow_queue_def Let_def split: if_splits)
  define t where "t = upd_flow flow (\<lambda>f. f\<lparr>fl_last_pd := pd, fl_last_db_group_combination := jb_db_group_combination (jobs (packets s) job)\<rparr>)
    (packets ?s1)"
  have add: "nlm_flow_add_job_to_list flow job pd (packets ?s1) = Some t"
    using head by (simp add: nlm_flow_add_job_to_list_def Let_def t_def)
  have n: "pd_next t = pd_next (packets s)" by (simp add: t_def)
  have "chain (\<lambda>a. fl_next (flows t a)) p ps = chain (\<lambda>a. fl_next (flows (packets s) a)) p ps" for p ps
    by (rule chain_cong) (simp add: t_def)
  then have "pending_ok t fs" using sched by (simp add: sched_ok_def pending_ok_def t_def)
  then show ?thesis using set add q n fresh by (intro exI [of _ ?s1] exI [of _ t]) (simp add: t_def)
qed

text \<open>A flow at \<open>0x300000a0\<close> that waits with one descriptor.\<close>

definition waiting_api :: api where
  "waiting_api = (sample_api \<lparr>trace = [], answer = file_device\<rparr>)\<lparr>packets :=
     (packets (sample_api \<lparr>trace = [], answer = file_device\<rparr>))\<lparr>
       dev := (dev (packets (sample_api \<lparr>trace = [], answer = file_device\<rparr>)))\<lparr>pending_flow_list_head := 0x300000a0, pending_flow_list_tail := 0x300000a0\<rparr>,
       flows := (\<lambda>_. flow_zero)(0x300000a0 := flow_zero\<lparr>fl_last_pd := 0x10020010, fl_pending_pd_head := 0x10020010\<rparr>)\<rparr>\<rparr>"

lemma waiting_sched: "sched_ok (packets waiting_api) [0x300000a0] (\<lambda>f. if f = 0x300000a0 then [0x10020010] else [])"
  by (auto simp: sched_ok_def pending_ok_def flow_queue_def pd_next_def waiting_api_def sample_api_def start_dp_def flow_zero_def pd_zero_simps)

lemma force_one_fd_loses_job_witness:
  "\<exists>s1 t. nlm_device_set_param 1 NLM_FLOW_FORCE_ONE_FD [A_ptr 0x300000a0] waiting_api = Some (NLM_OK, [], s1) \<and>
    nlm_flow_add_job_to_list 0x300000a0 0 0x10020020 (packets s1) = Some t \<and> fl_last_pd (flows t 0x300000a0) = 0x10020020 \<and>
    fl_pending_pd_head (flows t 0x300000a0) = 0x10020010 \<and> chain (pd_next t) 0x10020010 [0x10020010]"
proof -
  have "thread_id (dev (packets waiting_api)) = 0" by (simp add: waiting_api_def sample_api_simps)
  then show ?thesis using force_one_fd_loses_job [OF waiting_sched, of "0x300000a0" "0x10020020" 1 0] by auto
qed

section \<open>The number of copies of a database\<close>

text \<open>The loader with the registers of the packet API.\<close>

definition synced :: "api \<Rightarrow> fms_loader" where "synced s = (loader s)\<lparr>ld_hw := api_hw s\<rparr>"

definition put_loader :: "fms_loader \<Rightarrow> api \<Rightarrow> api" where "put_loader p s = set_api_hw (ld_hw p) (s\<lparr>loader := p\<rparr>)"

lemma with_loader_Some: "f (synced s) = Some (x, p) \<Longrightarrow> with_loader f s = Some (x, put_loader p s)"
  by (simp add: with_loader_def synced_def put_loader_def)

lemma synced_put [simp]: "synced (put_loader p s) = p" "api_handle (put_loader p s) = api_handle s"
  "dev (packets (put_loader p s)) = dev (packets s)"
  by (simp_all add: synced_def put_loader_def api_handle_def set_api_hw_def api_hw_def)

text \<open>C24. On the first thread of the master ring, with an idle loader, a synchronous policy and room, changing the number of copies of
  a loaded database returns with success for the database, gives every block of the database that many copies and no other block a
  different number, and reading the parameter then gives that number.\<close>

theorem copy_cnt_parameter:
  assumes idle: "loader_idle ans (synced s)" and pol: "database_load_policy (loader s) \<noteq> NLM_DATABASE_LOAD_POLICY_ASYNC"
    and n: "database_id \<le> NLM_MAX_DATABASE_ID" "1 \<le> n" "n \<le> 4"
    and blocks: "shadow_block_list (loader s) database_id \<noteq> []"
      "\<forall>b \<in> set (shadow_block_list (loader s) database_id). no_clones_current (shadow_map (loader s) b) = k"
      "length (shadow_block_list (loader s) database_id) * (unat n - unat k) \<le> num_array_blocks_free (loader s)"
    and dev: "device \<noteq> NULL" "fms_ring_id (phy (packets s)) = 0" "thread_id (dev (packets s)) = 0" and out: "a \<noteq> NULL" "b \<noteq> NULL"
  shows "\<exists>s' s2. nlm_device_set_param device NLM_DATABASE_COPY_CNT [A_u32 database_id, A_u32 n, A_ptr a] s = Some (NLM_OK, [(a, S_status NLM_OK)], s') \<and>
    (\<forall>i < nblocks (loader s). card (array_copies (loader s') i) =
       (if i \<in> set (shadow_block_list (loader s) database_id) then unat n else card (array_copies (loader s) i))) \<and>
    nlm_device_get_param device NLM_DATABASE_COPY_CNT [A_u32 database_id, A_ptr b, A_ptr a] s' =
      Some (NLM_OK, [(b, S_u32 n), (a, S_status NLM_OK)], s2)"
proof -
  have same: "shadow_block_list (synced s) = shadow_block_list (loader s)" "num_array_blocks_free (synced s) = num_array_blocks_free (loader s)"
    "array_copies (synced s) = array_copies (loader s)" "shadow_map (synced s) = shadow_map (loader s)"
    "database_load_policy (synced s) = database_load_policy (loader s)" "num_fms_blocks (synced s) = num_fms_blocks (loader s)"
    by (auto simp: synced_def shadow_block_list_def num_array_blocks_free_def array_copies_def fun_eq_iff)
  let ?bs = "shadow_block_list (loader s) database_id"
  obtain q where q: "nlm_device_database_set_num_copies master database_id n (synced s) = Some (NLM_OK, q)" "loader_idle ans q"
    "shadow_block_list q = shadow_block_list (loader s)"
    "\<forall>i < nblocks (loader s). card (array_copies q i) = (if i \<in> set ?bs then unat n else card (array_copies (loader s) i))"
    using set_num_copies_room [of ans "synced s" database_id n k] assms(1-8) unfolding same by blast
  have h: "api_handle s = master" using dev by (simp add: api_handle_def)
  let ?s1 = "put_loader (synced s) s"
  have "with_loader (nlm_device_loader_cmd_exec_fms master) s = Some (NLM_OK, ?s1)"
    using idle_exec [OF idle] by (rule with_loader_Some)
  moreover have "with_loader (nlm_device_database_set_num_copies master database_id n) ?s1 = Some (NLM_OK, put_loader q ?s1)"
    by (rule with_loader_Some) (simp add: q(1))
  moreover have "(NLM_MAX_DATABASE_ID < database_id) = False" "(1 > n) = False" "(4 < n) = False" using n by auto
  ultimately have set: "nlm_device_set_param device NLM_DATABASE_COPY_CNT [A_u32 database_id, A_u32 n, A_ptr a] s =
      Some (NLM_OK, [(a, S_status NLM_OK)], put_loader q ?s1)"
    using dev out by (simp add: nlm_device_set_param_def checked_def set_param_def set_copy_cnt_def h store_def)
  have last: "last ?bs \<in> set ?bs" using blocks(1) by simp
  have bound: "i < nblocks q \<and> i < nblocks (loader s)" if "i \<in> set ?bs" for i
  proof -
    have m: "x \<in> set (shadow_block_list p d) \<Longrightarrow> x < nblocks p" for x p d by (simp add: shadow_block_list_def)
    show ?thesis using m [of i q database_id] m [of i "loader s" database_id] that q(3) by simp
  qed
  have cnt: "ucast (no_clones_current (shadow_map q i)) = n \<and> no_clones_target (shadow_map q i) = no_clones_current (shadow_map q i)"
    if "i \<in> set ?bs" for i
  proof -
    have "unat (no_clones_current (shadow_map q i)) = unat n"
      using idle_books(3) [OF q(2), of i] bound [OF that] q(4) that by simp
    moreover have "unat (ucast (no_clones_current (shadow_map q i)) :: u32) = unat (no_clones_current (shadow_map q i))"
      using unsigned_less [of "no_clones_current (shadow_map q i)", where ?'a = nat] by (simp add: unsigned_ucast_eq take_bit_nat_eq_self)
    ultimately have "ucast (no_clones_current (shadow_map q i)) = n" by (simp add: word_unat_eq_iff)
    then show ?thesis using idle_books(1) [OF q(2), of i] bound [OF that] by simp
  qed
  have "\<not> list_ex (\<lambda>i. no_clones_current (shadow_map q i) \<noteq> no_clones_target (shadow_map q i)) ?bs" using cnt by (auto simp: list_ex_iff)
  moreover have "n \<noteq> 0" using n(2) by auto
  moreover have "(NLM_MAX_DATABASE_ID < database_id) = False" using n(1) by auto
  ultimately have "nlm_device_database_get_num_copies master database_id q = Some (NLM_OK, q, Some n)"
    using cnt [OF last] blocks(1) idle_exec [OF q(2)]
    by (simp add: nlm_device_database_get_num_copies_def check_master_def q(3) Let_def)
  then have "with_loader (\<lambda>p. map_option (\<lambda>(st, p1, n). ((st, n), p1)) (nlm_device_database_get_num_copies master database_id p)) (put_loader q ?s1) =
      Some ((NLM_OK, Some n), put_loader q (put_loader q ?s1))"
    by (intro with_loader_Some) simp
  then have "nlm_device_get_param device NLM_DATABASE_COPY_CNT [A_u32 database_id, A_ptr b, A_ptr a] (put_loader q ?s1) =
      Some (NLM_OK, [(b, S_u32 n), (a, S_status NLM_OK)], put_loader q (put_loader q ?s1))"
    using dev out by (simp add: nlm_device_get_param_def checked_def get_param_def get_copy_cnt_def h)
  then show ?thesis using set q(4) by (auto simp: put_loader_def)
qed

lemma copy_cnt_parameter_witness:
  "\<exists>s' s2. nlm_device_set_param 1 NLM_DATABASE_COPY_CNT [A_u32 1, A_u32 3, A_ptr 8] (sample_api \<lparr>trace = [], answer = prompt_device\<rparr>) =
      Some (NLM_OK, [(8, S_status NLM_OK)], s') \<and> card (array_copies (loader s') 0) = 3 \<and>
    nlm_device_get_param 1 NLM_DATABASE_COPY_CNT [A_u32 1, A_ptr 16, A_ptr 8] s' = Some (NLM_OK, [(16, S_u32 3), (8, S_status NLM_OK)], s2)"
proof -
  let ?s = "sample_api \<lparr>trace = [], answer = prompt_device\<rparr>"
  have i: "synced ?s = sample_loader" by (simp add: synced_def sample_api_simps) (simp add: sample_loader_def)
  have n: "nblocks sample_loader = 4" "no_clones_current (shadow_map sample_loader 0) = 1" by (simp_all add: sample_loader_def)
  have p: "database_load_policy sample_loader \<noteq> NLM_DATABASE_LOAD_POLICY_ASYNC"
    by (simp add: sample_loader_def NLM_DATABASE_LOAD_POLICY_ASYNC_def)
  have "\<exists>s' s2. nlm_device_set_param 1 NLM_DATABASE_COPY_CNT [A_u32 1, A_u32 3, A_ptr 8] ?s = Some (NLM_OK, [(8, S_status NLM_OK)], s') \<and>
    (\<forall>i < nblocks (loader ?s). card (array_copies (loader s') i) =
       (if i \<in> set (shadow_block_list (loader ?s) 1) then unat (3 :: u32) else card (array_copies (loader ?s) i))) \<and>
    nlm_device_get_param 1 NLM_DATABASE_COPY_CNT [A_u32 1, A_ptr 16, A_ptr 8] s' = Some (NLM_OK, [(16, S_u32 3), (8, S_status NLM_OK)], s2)"
    by (rule copy_cnt_parameter [of prompt_device _ _ _ 1])
      (simp_all add: i sample_idle p sample_api_simps sample_blocks sample_free n NLM_MAX_DATABASE_ID_def)
  then obtain s' s2 where s': "nlm_device_set_param 1 NLM_DATABASE_COPY_CNT [A_u32 1, A_u32 3, A_ptr 8] ?s = Some (NLM_OK, [(8, S_status NLM_OK)], s')"
    "\<forall>i < nblocks sample_loader. card (array_copies (loader s') i) =
       (if i \<in> set (shadow_block_list sample_loader 1) then unat (3 :: u32) else card (array_copies sample_loader i))"
    "nlm_device_get_param 1 NLM_DATABASE_COPY_CNT [A_u32 1, A_ptr 16, A_ptr 8] s' = Some (NLM_OK, [(16, S_u32 3), (8, S_status NLM_OK)], s2)"
    unfolding sample_api_simps by blast
  then have "card (array_copies (loader s') 0) = 3" using n(1) by (simp add: sample_blocks)
  then show ?thesis using s' by blast
qed

text \<open>While commands are queued the number of copies is not changed: one command is executed, and unless it was the last the call
  reports that the loader is busy.\<close>

lemma copy_cnt_busy:
  assumes "nlm_device_loader_cmd_exec_fms (api_handle s) (synced s) = Some (NLM_LOADER_IN_PROGRESS, p)"
    and "database_id \<le> NLM_MAX_DATABASE_ID" "1 \<le> n" "n \<le> 4" and "device \<noteq> NULL" and "thread_id (dev (packets s)) = 0"
  shows "nlm_device_set_param device NLM_DATABASE_COPY_CNT [A_u32 database_id, A_u32 n, A_ptr a] s = Some (NLM_BUSY, [], put_loader p s)"
proof -
  have "(NLM_MAX_DATABASE_ID < database_id) = False" "(1 > n) = False" "(4 < n) = False" using assms(2-4) by auto
  then show ?thesis using with_loader_Some [of "nlm_device_loader_cmd_exec_fms (api_handle s)", OF assms(1)] assms(5,6)
    by (simp add: nlm_device_set_param_def checked_def set_param_def set_copy_cnt_def)
qed

end
