(* ===== verification/Ddr_Train.thy ===== *)
theory Ddr_Train
  imports Dev_Attach
begin

unbundle bit_operations_syntax

text \<open>
  Bringing up the DDR memory of the device (lib/dataplane/nlm_ddr.c): indirect writes of 64 bits, the tables of
  settings of the memory controller for DDR2 and for DDR3 at each clock, the waiting for the controller, and
  nlm_device_init_ddr_memory, which is the training that bringing up the master ring calls (\<open>Dev_Layout\<close>). The
  algorithm that levels the data lines in software is in \<open>Ddr_Level\<close>.
\<close>

section \<open>Registers and settings\<close>

definition FPGA_CLOCK_SELECT :: u32 where "FPGA_CLOCK_SELECT = 0x0064"
definition IND_DATA1 :: u32 where "IND_DATA1 = 0x8154"
definition DDR3_CTL_11 :: u32 where "DDR3_CTL_11 = 0x902C"
definition DDR3_CTL_173 :: u32 where "DDR3_CTL_173 = 0x92B4"

text \<open>The global variables \<^verbatim>\<open>nlm_ddr_fpga_clock_select\<close>, \<^verbatim>\<open>nlm_ddr_fpga_ddr_32bit_mode\<close> and \<^verbatim>\<open>nlm_ddr_fpga_ddr_ecc\<close>,
  which are zero unless the program sets them, and the constants of the build.\<close>

record ddr_fpga =
  clock_select :: u32
  ddr_32bit_mode :: u32
  ddr_ecc :: u32

definition NLM_DDR3_FREQ :: nat where "NLM_DDR3_FREQ = 333"
definition NLM_USE_DDR2 :: bool where "NLM_USE_DDR2 = False"

definition write_regs :: "(u32 \<times> u32) list \<Rightarrow> hw \<Rightarrow> hw" where
  "write_regs ws = fold (\<lambda>(reg, v). SET_HW_REGISTER reg v) ws"

text \<open>The settings in the order the code writes them, each table in two halves.\<close>

definition ddr3_333_low :: "ddr_fpga \<Rightarrow> (u32 \<times> u32) list" where
  "ddr3_333_low g = [
     (0x9000, 0), (0x9004, 0x101), (0x9008, 0x1010000), (0x900c, 0x10100), (0x9010, 0), (0x9014, 0x10000),
     (0x9018, 0), (0x901c, 0), (0x9020, 0), (0x9024, 0), (0x9028, if ddr_32bit_mode g \<noteq> 0 then 0x10000 else 0), (0x902c, 0),
     (0x9030, 0x1010000), (0x9034, 0), (0x9038, 0x3000000), (0x903c, if ddr_ecc g \<noteq> 0 then 0x3 else 0), (0x9040, 0), (0x9044, 0x2000000),
     (0x9048, 0x30200), (0x904c, 0x3000003), (0x9050, 0x10404), (0x9054, 0x6060c0a), (0x9058, 0x2040000), (0x905c, 0x3020000),
     (0x9060, 0x5040503), (0x9064, 0xc0c05), (0x9068, 0xc060000), (0x906c, 0xc020007), (0x9070, 0x51105), (0x9074, 0x281900),
     (0x9078, 0x5), (0x907c, 0), (0x9080, 0), (0x9084, 0), (0x9088, 0), (0x908c, 0),
     (0x9090, 0), (0x9094, 0), (0x9098, 0), (0x909c, 0), (0x90a0, 0), (0x90a4, 0),
     (0x90a8, 0), (0x90ac, 0), (0x90b0, 0), (0x90b4, 0), (0x90b8, 0), (0x90bc, 0xc000300),
     (0x90c0, 0x4000300), (0x90c4, 0x50c0c00), (0x90c8, 0x4025), (0x90cc, 0xa240000), (0x90d0, 0xa240a24), (0x90d4, 0xa24),
     (0x90d8, 0x3e8), (0x90dc, 0), (0x90e0, 0), (0x90e4, 0), (0x90e8, 0), (0x90ec, 0),
     (0x90f0, 0), (0x90f4, 0), (0x90f8, 0x30200), (0x90fc, 0xa5b5e), (0x9100, 0x2000028), (0x9104, 0),
     (0x9108, 0), (0x910c, 0x4), (0x9110, 0x28b0b), (0x9114, 0), (0x9118, 0), (0x911c, 0x3c0678),
     (0x9120, 0x3f0678), (0x9124, 0x420678), (0x9128, 0x450678), (0x912c, 0x4b0678), (0x9130, 0x4e0678), (0x9134, 0x510678),
     (0x9138, 0x540678), (0x913c, 0x480678), (0x9140, 0xd75fc69f), (0x9144, 0xf5100b26), (0x9148, 0xf5100b26), (0x914c, 0xf5100b26),
     (0x9150, 0xf5100b26), (0x9154, 0xf5100b26), (0x9158, 0xf5100b26), (0x915c, 0xf5100b26), (0x9160, 0xf5100b26), (0x9164, 0xf5100b26),
     (0x9168, 0x26c00400), (0x916c, 0x26c00400), (0x9170, 0x26c00400), (0x9174, 0x26c00400), (0x9178, 0x26c00400), (0x917c, 0x26c00400),
     (0x9180, 0x26c00400), (0x9184, 0x26c00400), (0x9188, 0x26c00400), (0x918c, 0x105), (0x9190, 0x1046a), (0x9194, 0),
     (0x9198, 0x7ff), (0x919c, 0), (0x91a0, 0), (0x91a4, 0), (0x91a8, 0), (0x91ac, 0),
     (0x91b0, 0), (0x91b4, 0), (0x91b8, 0), (0x91bc, 0), (0x91c0, 0), (0x91c4, 0),
     (0x91c8, 0), (0x91cc, 0), (0x91d0, 0), (0x91d4, 0)]"

definition ddr3_333_high :: "ddr_fpga \<Rightarrow> (u32 \<times> u32) list" where
  "ddr3_333_high g = [
     (0x91d8, 0), (0x91dc, 0), (0x91e0, 0), (0x91e4, 0), (0x91e8, 0), (0x91ec, 0),
     (0x91f0, 0), (0x91f4, 0), (0x91f8, 0), (0x91fc, 0), (0x9200, 0), (0x9204, 0),
     (0x9208, 0), (0x920c, 0), (0x9210, 0), (0x9214, 0), (0x9218, 0), (0x921c, 0),
     (0x9220, 0), (0x9224, 0), (0x9228, 0), (0x922c, 0), (0x9230, 0), (0x9234, 0),
     (0x9238, 0), (0x923c, 0), (0x9240, 0), (0x9244, 0), (0x9248, 0), (0x924c, 0),
     (0x9250, 0), (0x9254, 0), (0x9258, 0), (0x925c, 0), (0x9260, 0), (0x9264, 0),
     (0x9268, 0), (0x926c, 0), (0x9270, 0), (0x9274, 0), (0x9278, 0), (0x927c, 0),
     (0x9280, 0), (0x9284, 0), (0x9288, 0), (0x928c, 0), (0x9290, 0), (0x9294, 0),
     (0x9298, 0), (0x929c, 0), (0x92a0, 0), (0x92a4, 0), (0x92a8, 0), (0x92ac, 0),
     (0x92b0, 0), (0x92b4, 0), (0x92b8, 0), (0x92bc, 0), (0x92c0, 0), (0x92c4, 0),
     (0x92c8, 0), (0x92cc, 0), (0x92d0, 0), (0x92d4, 0), (0x92d8, 0), (0x92dc, 0),
     (0x92e0, 0), (0x92e4, 0), (0x92e8, 0), (0x92ec, 0), (0x92f0, 0), (0x92f4, 0),
     (0x92f8, 0), (0x92fc, 0), (0x9300, 0), (0x9304, 0), (0x9308, 0x78), (0x930c, 0x1010000),
     (0x9310, 0x1000100), (0x9314, 0x2000100), (0x9318, 0x10402), (0x931c, 0x2060202), (0x9320, 0xf0204), (0x9324, 0x100000a),
     (0x9328, 0xa240200), (0x932c, 0xa240a24), (0x9330, 0x2208000), (0x9334, 0x460220), (0x9338, 0x46), (0x933c, 0),
     (0x9340, 0), (0x9344, 0), (0x9348, 0), (0x934c, 0), (0x9350, 0), (0x9354, 0x19191919),
     (0x9358, 0x19191919), (0x935c, 0x19191919), (0x9360, 0x19191919), (0x9364, 0x19191919), (0x9368, 0), (0x936c, 0),
     (0x9370, 0), (0x9374, 0), (0x9378, 0xd000c), (0x937c, 0xd000d), (0x9380, 0xd000d), (0x9384, 0xd000d),
     (0x9388, 0x10000d), (0x938c, 0xffff), (0x9390, 0), (0x9394, 0), (0x9398, 0), (0x939c, 0),
     (0x93a0, 0), (0x93a4, 0), (0x93a8, 0), (0x93ac, 0), (0x93b0, 0x1e0000), (0x93b4, 0x240021),
     (0x93b8, 0x2d0027), (0x93bc, 0x330030), (0x93c0, 0x2a0036), (0x93c4, 0), (0x93c8, 0xa24), (0x93cc, 0xa24),
     (0x93d0, 0), (0x93d4, 0xa24), (0x93d8, 0x7080300), (0x93dc, 0x507), (0x93e0, 0xfff), (0x93e4, 0x7d0),
     (0x93e8, 0x24101065), (0x93ec, 0x170), (0x902c, 0x100)]"

definition ddr3_400_low :: "ddr_fpga \<Rightarrow> (u32 \<times> u32) list" where
  "ddr3_400_low g = [
     (0x9000, 0), (0x9004, 0x101), (0x9008, 0x1010000), (0x900c, 0x10100), (0x9010, 0), (0x9014, 0x10000),
     (0x9018, 0), (0x901c, 0), (0x9020, 0), (0x9024, 0), (0x9028, if ddr_32bit_mode g \<noteq> 0 then 0x10000 else 0), (0x902c, 0),
     (0x9030, 0x1010000), (0x9034, 0), (0x9038, 0x3000000), (0x903c, if ddr_ecc g \<noteq> 0 then 0x3 else 0), (0x9040, 0), (0x9044, 0x2000000),
     (0x9048, 0x30200), (0x904c, 0x3000003), (0x9050, 0x10404), (0x9054, 0x6060c0a), (0x9058, 0x2040000), (0x905c, 0x3020000),
     (0x9060, 0x5040603), (0x9064, 0xc0c05), (0x9068, 0xc060000), (0x906c, 0xc020007), (0x9070, 0x61406), (0x9074, 0x281900),
     (0x9078, 0x5), (0x907c, 0), (0x9080, 0), (0x9084, 0), (0x9088, 0), (0x908c, 0),
     (0x9090, 0), (0x9094, 0), (0x9098, 0), (0x909c, 0), (0x90a0, 0), (0x90a4, 0),
     (0x90a8, 0), (0x90ac, 0), (0x90b0, 0), (0x90b4, 0), (0x90b8, 0), (0x90bc, 0xc000300),
     (0x90c0, 0x4000300), (0x90c4, 0x60f0c00), (0x90c8, 0x402c), (0x90cc, 0xc2d0000), (0x90d0, 0xc2d0c2d), (0x90d4, 0xc2d),
     (0x90d8, 0x3e8), (0x90dc, 0), (0x90e0, 0), (0x90e4, 0), (0x90e8, 0), (0x90ec, 0),
     (0x90f0, 0), (0x90f4, 0), (0x90f8, 0x30200), (0x90fc, 0xa6de6), (0x9100, 0x2000030), (0x9104, 0),
     (0x9108, 0), (0x910c, 0x4), (0x9110, 0x30d40), (0x9114, 0), (0x9118, 0), (0x911c, 0x380678),
     (0x9120, 0x4a0678), (0x9124, 0x4d0678), (0x9128, 0x520678), (0x912c, 0x600678), (0x9130, 0x680678), (0x9134, 0x6e0678),
     (0x9138, 0x6e0678), (0x913c, 0x570678), (0x9140, 0xd75fc69f), (0x9144, 0xf5100b26), (0x9148, 0xf5100b26), (0x914c, 0xf5100b26),
     (0x9150, 0xf5100b26), (0x9154, 0xf5100b26), (0x9158, 0xf5100b26), (0x915c, 0xf5100b26), (0x9160, 0xf5100b26), (0x9164, 0xf5100b26),
     (0x9168, 0x26c00400), (0x916c, 0x26c00400), (0x9170, 0x26c00400), (0x9174, 0x26c00400), (0x9178, 0x26c00400), (0x917c, 0x26c00400),
     (0x9180, 0x26c00400), (0x9184, 0x26c00400), (0x9188, 0x26c00400), (0x918c, 0x105), (0x9190, 0x13880), (0x9194, 0),
     (0x9198, 0x7ff), (0x919c, 0), (0x91a0, 0), (0x91a4, 0), (0x91a8, 0), (0x91ac, 0),
     (0x91b0, 0), (0x91b4, 0), (0x91b8, 0), (0x91bc, 0), (0x91c0, 0), (0x91c4, 0),
     (0x91c8, 0), (0x91cc, 0), (0x91d0, 0), (0x91d4, 0)]"

definition ddr3_400_high :: "ddr_fpga \<Rightarrow> (u32 \<times> u32) list" where
  "ddr3_400_high g = [
     (0x91d8, 0), (0x91dc, 0), (0x91e0, 0), (0x91e4, 0), (0x91e8, 0), (0x91ec, 0),
     (0x91f0, 0), (0x91f4, 0), (0x91f8, 0), (0x91fc, 0), (0x9200, 0), (0x9204, 0),
     (0x9208, 0), (0x920c, 0), (0x9210, 0), (0x9214, 0), (0x9218, 0), (0x921c, 0),
     (0x9220, 0), (0x9224, 0), (0x9228, 0), (0x922c, 0), (0x9230, 0), (0x9234, 0),
     (0x9238, 0), (0x923c, 0), (0x9240, 0), (0x9244, 0), (0x9248, 0), (0x924c, 0),
     (0x9250, 0), (0x9254, 0), (0x9258, 0), (0x925c, 0), (0x9260, 0), (0x9264, 0),
     (0x9268, 0), (0x926c, 0), (0x9270, 0), (0x9274, 0), (0x9278, 0), (0x927c, 0),
     (0x9280, 0), (0x9284, 0), (0x9288, 0), (0x928c, 0), (0x9290, 0), (0x9294, 0),
     (0x9298, 0), (0x929c, 0), (0x92a0, 0), (0x92a4, 0), (0x92a8, 0), (0x92ac, 0),
     (0x92b0, 0), (0x92b4, 0), (0x92b8, 0), (0x92bc, 0), (0x92c0, 0), (0x92c4, 0),
     (0x92c8, 0), (0x92cc, 0), (0x92d0, 0), (0x92d4, 0), (0x92d8, 0), (0x92dc, 0),
     (0x92e0, 0), (0x92e4, 0), (0x92e8, 0), (0x92ec, 0), (0x92f0, 0), (0x92f4, 0),
     (0x92f8, 0), (0x92fc, 0), (0x9300, 0), (0x9304, 0), (0x9308, 0x78), (0x930c, 0x1010000),
     (0x9310, 0x1000100), (0x9314, 0x2000100), (0x9318, 0x10402), (0x931c, 0x2070202), (0x9320, 0xf0304), (0x9324, 0x100000a),
     (0x9328, 0xc2d0200), (0x932c, 0xc2d0c2d), (0x9330, 0x4208000), (0x9334, 0x460420), (0x9338, 0x46), (0x933c, 0),
     (0x9340, 0), (0x9344, 0), (0x9348, 0), (0x934c, 0), (0x9350, 0), (0x9354, 0x24242424),
     (0x9358, 0x24241f1f), (0x935c, 0x20201a1a), (0x9360, 0x1f1f2424), (0x9364, 0x2424), (0x9368, 0), (0x936c, 0),
     (0x9370, 0), (0x9374, 0), (0x9378, 0xd000c), (0x937c, 0xd000d), (0x9380, 0xd000d), (0x9384, 0xd000d),
     (0x9388, 0x10000d), (0x938c, 0xffff), (0x9390, 0), (0x9394, 0), (0x9398, 0), (0x939c, 0),
     (0x93a0, 0), (0x93a4, 0), (0x93a8, 0), (0x93ac, 0), (0x93b0, 0x1a0000), (0x93b4, 0x2f002c),
     (0x93b8, 0x420034), (0x93bc, 0x50004c), (0x93c0, 0x390050), (0x93c4, 0), (0x93c8, 0xc2d), (0x93cc, 0xc2d),
     (0x93d0, 0), (0x93d4, 0xc2d), (0x93d8, 0x7080300), (0x93dc, 0x507), (0x93e0, 0xfff), (0x93e4, 0x960),
     (0x93e8, 0x24101065), (0x93ec, 0x170), (0x902c, 0x100)]"

definition ddr3_416_low :: "ddr_fpga \<Rightarrow> (u32 \<times> u32) list" where
  "ddr3_416_low g = [
     (0x9000, 0), (0x9004, 0x101), (0x9008, 0x1010000), (0x900c, 0x10100), (0x9010, 0), (0x9014, 0x10000),
     (0x9018, 0), (0x901c, 0), (0x9020, 0), (0x9024, 0), (0x9028, if ddr_32bit_mode g \<noteq> 0 then 0x10000 else 0), (0x902c, 0),
     (0x9030, 0x1010000), (0x9034, 0), (0x9038, 0x3000000), (0x903c, if ddr_ecc g \<noteq> 0 then 0x2000003 else 0x2000000), (0x9040, 0), (0x9044, 0x2000000),
     (0x9048, 0x30200), (0x904c, 0x3000003), (0x9050, 0x10404), (0x9054, 0x6060c0a), (0x9058, 0x2040000), (0x905c, 0x3020000),
     (0x9060, 0x5040703), (0x9064, 0xc0c05), (0x9068, 0xc060000), (0x906c, 0xc020007), (0x9070, 0x71606), (0x9074, 0x281900),
     (0x9078, 0x5), (0x907c, 0), (0x9080, 0), (0x9084, 0), (0x9088, 0), (0x908c, 0),
     (0x9090, 0), (0x9094, 0), (0x9098, 0), (0x909c, 0), (0x90a0, 0), (0x90a4, 0),
     (0x90a8, 0), (0x90ac, 0), (0x90b0, 0), (0x90b4, 0), (0x90b8, 0), (0x90bc, 0xc000300),
     (0x90c0, 0x4000300), (0x90c4, 0x70f0c00), (0x90c8, 0x402e), (0x90cc, 0xcb20000), (0x90d0, 0xcb20cb2), (0x90d4, 0xcb2),
     (0x90d8, 0x3e8), (0x90dc, 0), (0x90e0, 0), (0x90e4, 0), (0x90e8, 0), (0x90ec, 0),
     (0x90f0, 0), (0x90f4, 0), (0x90f8, 0x30200), (0x90fc, 0xa7242), (0x9100, 0x2000032), (0x9104, 0),
     (0x9108, 0), (0x910c, 0x4), (0x9110, 0x32dce), (0x9114, 0), (0x9118, 0), (0x911c, 0x380678),
     (0x9120, 0x4c0678), (0x9124, 0x4f0678), (0x9128, 0x560678), (0x912c, 0x660678), (0x9130, 0x6e0678), (0x9134, 0x6e0678),
     (0x9138, 0x6e0678), (0x913c, 0x580678), (0x9140, 0xd75fc69f), (0x9144, 0xf5100b26), (0x9148, 0xf5100b26), (0x914c, 0xf5100b26),
     (0x9150, 0xf5100b26), (0x9154, 0xf5100b26), (0x9158, 0xf5100b26), (0x915c, 0xf5100b26), (0x9160, 0xf5100b26), (0x9164, 0xf5100b26),
     (0x9168, 0x26c00400), (0x916c, 0x26c00400), (0x9170, 0x26c00400), (0x9174, 0x26c00400), (0x9178, 0x26c00400), (0x917c, 0x26c00400),
     (0x9180, 0x26c00400), (0x9184, 0x26c00400), (0x9188, 0x26c00400), (0x918c, 0x105), (0x9190, 0x14586), (0x9194, 0),
     (0x9198, 0x7ff), (0x919c, 0), (0x91a0, 0), (0x91a4, 0), (0x91a8, 0), (0x91ac, 0),
     (0x91b0, 0), (0x91b4, 0), (0x91b8, 0), (0x91bc, 0), (0x91c0, 0), (0x91c4, 0),
     (0x91c8, 0), (0x91cc, 0), (0x91d0, 0), (0x91d4, 0)]"

definition ddr3_416_high :: "ddr_fpga \<Rightarrow> (u32 \<times> u32) list" where
  "ddr3_416_high g = [
     (0x91d8, 0), (0x91dc, 0), (0x91e0, 0), (0x91e4, 0), (0x91e8, 0), (0x91ec, 0),
     (0x91f0, 0), (0x91f4, 0), (0x91f8, 0), (0x91fc, 0), (0x9200, 0), (0x9204, 0),
     (0x9208, 0), (0x920c, 0), (0x9210, 0), (0x9214, 0), (0x9218, 0), (0x921c, 0),
     (0x9220, 0), (0x9224, 0), (0x9228, 0), (0x922c, 0), (0x9230, 0), (0x9234, 0),
     (0x9238, 0), (0x923c, 0), (0x9240, 0), (0x9244, 0), (0x9248, 0), (0x924c, 0),
     (0x9250, 0), (0x9254, 0), (0x9258, 0), (0x925c, 0), (0x9260, 0), (0x9264, 0),
     (0x9268, 0), (0x926c, 0), (0x9270, 0), (0x9274, 0), (0x9278, 0), (0x927c, 0),
     (0x9280, 0), (0x9284, 0), (0x9288, 0), (0x928c, 0), (0x9290, 0), (0x9294, 0),
     (0x9298, 0), (0x929c, 0), (0x92a0, 0), (0x92a4, 0), (0x92a8, 0), (0x92ac, 0),
     (0x92b0, 0), (0x92b4, 0), (0x92b8, 0), (0x92bc, 0), (0x92c0, 0), (0x92c4, 0),
     (0x92c8, 0), (0x92cc, 0), (0x92d0, 0), (0x92d4, 0), (0x92d8, 0), (0x92dc, 0),
     (0x92e0, 0), (0x92e4, 0), (0x92e8, 0), (0x92ec, 0), (0x92f0, 0), (0x92f4, 0),
     (0x92f8, 0), (0x92fc, 0), (0x9300, 0), (0x9304, 0), (0x9308, 0x78), (0x930c, 0x1010000),
     (0x9310, 0x1000100), (0x9314, 0x2000100), (0x9318, 0x10402), (0x931c, 0x2070202), (0x9320, 0xf0404), (0x9324, 0x100000a),
     (0x9328, 0xcb20200), (0x932c, 0xcb20cb2), (0x9330, 0x4208000), (0x9334, 0x460420), (0x9338, 0x46), (0x933c, 0),
     (0x9340, 0), (0x9344, 0), (0x9348, 0), (0x934c, 0), (0x9350, 0), (0x9354, 0x24242424),
     (0x9358, 0x22221f1f), (0x935c, 0x20201a1a), (0x9360, 0x1f1f2222), (0x9364, 0x2424), (0x9368, 0), (0x936c, 0),
     (0x9370, 0), (0x9374, 0), (0x9378, 0xd000c), (0x937c, 0xd000d), (0x9380, 0xd000d), (0x9384, 0xd000d),
     (0x9388, 0x10000d), (0x938c, 0xffff), (0x9390, 0), (0x9394, 0), (0x9398, 0), (0x939c, 0),
     (0x93a0, 0), (0x93a4, 0), (0x93a8, 0), (0x93ac, 0), (0x93b0, 0x1a0000), (0x93b4, 0x31002e),
     (0x93b8, 0x480038), (0x93bc, 0x500050), (0x93c0, 0x3a0050), (0x93c4, 0), (0x93c8, 0xcb2), (0x93cc, 0xcb2),
     (0x93d0, 0), (0x93d4, 0xcb2), (0x93d8, 0x7080300), (0x93dc, 0x507), (0x93e0, 0xfff), (0x93e4, 0x960),
     (0x93e8, 0x24101065), (0x93ec, 0x170), (0x902c, 0x100)]"

definition ddr2_low :: "ddr_fpga \<Rightarrow> (u32 \<times> u32) list" where
  "ddr2_low g = [
     (0x9000, 0), (0x9004, 0x1000101), (0x9008, 0x1010000), (0x900c, 0x10100), (0x9010, 0), (0x9014, 0x10000),
     (0x9018, 0), (0x901c, 0), (0x9020, 0), (0x9024, 0), (0x9028, if ddr_32bit_mode g \<noteq> 0 then 0x10000 else 0), (0x902c, 0),
     (0x9030, 0x1010000), (0x9034, 0x10000), (0x9038, 0x3000000), (0x903c, if ddr_ecc g \<noteq> 0 then 0x2000003 else 0x2000000), (0x9040, 0x10201), (0x9044, 0x1000001),
     (0x9048, 0x30200), (0x904c, 0x3000003), (0x9050, 0x10202), (0x9054, 0x4060c0a), (0x9058, 0x2040002), (0x905c, 0x3020000),
     (0x9060, 0x5020303), (0x9064, 0xb0c04), (0x9068, 0x6050000), (0x906c, 0x702000c), (0x9070, 0x30b02), (0x9074, 0x281900),
     (0x9078, 0x5), (0x907c, 0), (0x9080, 0), (0x9084, 0), (0x9088, 0), (0x908c, 0),
     (0x9090, 0), (0x9094, 0), (0x9098, 0), (0x909c, 0), (0x90a0, 0), (0x90a4, 0),
     (0x90a8, 0), (0x90ac, 0), (0x90b0, 0x40000000), (0x90b4, 0), (0x90b8, 0), (0x90bc, 0xc000300),
     (0x90c0, 0x4000300), (0x90c4, 0x3080300), (0x90c8, 0x401a), (0x90cc, 0x3050000), (0x90d0, 0x3050305), (0x90d4, 0x305),
     (0x90d8, 0x3e8), (0x90dc, 0), (0x90e0, 0), (0x90e4, 0), (0x90e8, 0), (0x90ec, 0),
     (0x90f0, 0x500000), (0x90f4, 0), (0x90f8, 0x300c8), (0x90fc, 0xa36a6), (0x9100, 0xc8001c), (0x9104, 0x40000),
     (0x9108, 0), (0x910c, 0x9c40), (0x9110, 0x64), (0x9114, 0), (0x9118, 0), (0x911c, 0x1e0678),
     (0x9120, 0x1e0678), (0x9124, 0x1e0678), (0x9128, 0x1e0678), (0x912c, 0x1e0678), (0x9130, 0x1e0678), (0x9134, 0x1e0678),
     (0x9138, 0x1e0678), (0x913c, 0x1e0678), (0x9140, 0xf1133), (0x9144, 0xf3004b15), (0x9148, 0xf3004b15), (0x914c, 0xf3004b15),
     (0x9150, 0xf3004b15), (0x9154, 0xf3004b15), (0x9158, 0xf3004b15), (0x915c, 0xf3004b15), (0x9160, 0xf3004b15), (0x9164, 0xf3004b15),
     (0x9168, 0x26c00400), (0x916c, 0x26c00400), (0x9170, 0x26c00400), (0x9174, 0x26c00400), (0x9178, 0x26c00400), (0x917c, 0x26c00400),
     (0x9180, 0x26c00400), (0x9184, 0x26c00400), (0x9188, 0x26c00400), (0x918c, 0x4), (0x9190, 0x28), (0x9194, 0),
     (0x9198, 0), (0x919c, 0), (0x91a0, 0), (0x91a4, 0), (0x91a8, 0), (0x91ac, if ddr_ecc g \<noteq> 0 then 0x1 else 0),
     (0x91b0, 0), (0x91b4, 0), (0x91b8, 0), (0x91bc, 0), (0x91c0, 0), (0x91c4, 0)]"

definition ddr2_high :: "ddr_fpga \<Rightarrow> (u32 \<times> u32) list" where
  "ddr2_high g = [
     (0x91c8, 0), (0x91cc, 0), (0x91d0, 0), (0x91d4, 0), (0x91d8, 0), (0x91dc, 0),
     (0x91e0, 0), (0x91e4, 0), (0x91e8, 0), (0x91ec, 0), (0x91f0, 0), (0x91f4, 0),
     (0x91f8, 0), (0x91fc, 0), (0x9200, 0), (0x9204, 0), (0x9208, 0), (0x920c, 0),
     (0x9210, 0), (0x9214, 0), (0x9218, 0), (0x921c, 0), (0x9220, 0), (0x9224, 0),
     (0x9228, 0), (0x922c, 0), (0x9230, 0), (0x9234, 0), (0x9238, 0), (0x923c, 0),
     (0x9240, 0), (0x9244, 0), (0x9248, 0), (0x924c, 0), (0x9250, 0), (0x9254, 0),
     (0x9258, 0), (0x925c, 0), (0x9260, 0), (0x9264, 0), (0x9268, 0), (0x926c, 0),
     (0x9270, 0), (0x9274, 0), (0x9278, 0), (0x927c, 0), (0x9280, 0), (0x9284, 0),
     (0x9288, 0), (0x928c, 0), (0x9290, 0), (0x9294, 0), (0x9298, 0), (0x929c, 0),
     (0x92a0, 0), (0x92a4, 0), (0x92a8, 0), (0x92ac, 0), (0x92b0, 0), (0x92b4, 0),
     (0x92b8, 0), (0x92bc, 0), (0x92c0, 0), (0x92c4, 0), (0x92c8, 0), (0x92cc, 0),
     (0x92d0, 0), (0x92d4, 0), (0x92d8, 0), (0x92dc, 0), (0x92e0, 0), (0x92e4, 0),
     (0x92e8, 0), (0x92ec, 0), (0x92f0, 0), (0x92f4, 0), (0x92f8, 0), (0x92fc, 0),
     (0x9300, 0), (0x9304, 0), (0x9308, 0x78), (0x930c, 0), (0x9310, 0x1000100), (0x9314, 0x2000200),
     (0x9318, 0x10202), (0x931c, 0x40200), (0x9320, 0x302), (0x9324, 0x100000a), (0x9328, 0x3050200), (0x932c, 0x3050305),
     (0x9330, 0x4638000), (0x9334, 0x40463), (0x9338, 0x4), (0x933c, 0), (0x9340, 0), (0x9344, 0),
     (0x9348, 0), (0x934c, 0), (0x9350, 0), (0x9354, 0x6060606), (0x9358, 0x6060606), (0x935c, 0x6060606),
     (0x9360, 0x6060606), (0x9364, 0x606), (0x9368, 0), (0x936c, 0), (0x9370, 0), (0x9374, 0),
     (0x9378, 0), (0x937c, 0), (0x9380, 0), (0x9384, 0), (0x9388, 0x100000), (0x938c, 0xffff),
     (0x9390, 0), (0x9394, 0), (0x9398, 0), (0x939c, 0), (0x93a0, 0), (0x93a4, 0),
     (0x93a8, 0), (0x93ac, 0), (0x93b0, 0), (0x93b4, 0), (0x93b8, 0), (0x93bc, 0),
     (0x93c0, 0), (0x93c4, 0), (0x93c8, 0), (0x93cc, 0), (0x93d0, 0), (0x93d4, 0),
     (0x902c, 0x100)]"

text \<open>\<^verbatim>\<open>switch (NLM_DDR3_FREQ)\<close>, for any clock.\<close>

definition ddr3_settings :: "nat \<Rightarrow> ddr_fpga \<Rightarrow> (u32 \<times> u32) list option" where
  "ddr3_settings freq g =
     (if freq = 333 then Some (ddr3_333_low g @ ddr3_333_high g)
      else if freq = 400 then Some (ddr3_400_low g @ ddr3_400_high g)
      else if freq = 416 then Some (ddr3_416_low g @ ddr3_416_high g)
      else None)"

section \<open>Operations\<close>

definition nlm_device_ddr_write_ind_64 :: "u64 \<Rightarrow> u64 \<Rightarrow> hw \<Rightarrow> nlm_status \<times> hw" where
  "nlm_device_ddr_write_ind_64 addr data h =
     (let addr_lsb = ucast (addr AND 0xFFFFFFFF);
          addr_msb = ucast (0x20000000 OR (drop_bit 32 addr AND 0xF));
          h1 = SET_HW_REGISTER IND_ADDR_LSB addr_lsb h;
          h2 = SET_HW_REGISTER IND_ADDR_MSB addr_msb h1;
          h3 = SET_HW_REGISTER IND_DATA0 (ucast data) h2;
          h4 = SET_HW_REGISTER IND_DATA1 (ucast (drop_bit 32 data)) h3;
          h5 = SET_HW_REGISTER IND_CTRL (push_bit 12 1 OR 8) h4
      in ddr_poll_status DDR3_OP_TIMEOUT h5)"

text \<open>Operations one after the other until one fails.\<close>

fun try_all :: "(hw \<Rightarrow> nlm_status \<times> hw) list \<Rightarrow> hw \<Rightarrow> nlm_status \<times> hw" where
  "try_all [] h = (NLM_OK, h)"
| "try_all (f # fs) h = (case f h of (status, h1) \<Rightarrow> if status = NLM_OK then try_all fs h1 else (status, h1))"

text \<open>Waiting, at most so many times, until bit 6 of the interrupt status is set.\<close>

fun init_complete :: "nat \<Rightarrow> hw \<Rightarrow> bool \<times> hw" where
  "init_complete 0 h = (False, h)"
| "init_complete (Suc n) h =
     (let (v, h1) = HW_REGISTER DDR3_CTL_173 h in if push_bit 6 1 AND v \<noteq> 0 then (True, h1) else init_complete n h1)"

text \<open>Writing \<open>y\<close> words of 32 and \<open>y\<close> words of 64 bits to the middle of the memory, to clean the pipe of the controller;
  the code has \<open>y\<close> zero.\<close>

definition clean_pipe :: "nat \<Rightarrow> u64 \<Rightarrow> hw \<Rightarrow> nlm_status \<times> hw" where
  "clean_pipe y ddr_size =
     try_all (map (\<lambda>j. nlm_device_ddr_write_ind_32 (ddr_size div 2 + ucast (word_of_nat j * 4 :: u32)) 0) [0..<y] @
              map (\<lambda>j. nlm_device_ddr_write_ind_64 (ddr_size div 2 + ucast (word_of_nat j * 4 :: u32)) 0) [0..<y])"

definition nlm_device_ddr3_static_train :: "nat \<Rightarrow> ddr_fpga \<Rightarrow> u64 \<Rightarrow> hw \<Rightarrow> nlm_status \<times> hw" where
  "nlm_device_ddr3_static_train freq g ddr_size h =
     (let y = 0 in
      case ddr3_settings freq g of
        None \<Rightarrow> (NLM_DDR3_UNSUPPORTED_FREQUENCY, h)
      | Some ws \<Rightarrow>
          (let (complete, h1) = init_complete DDR3_OP_TIMEOUT (write_regs ws h)
           in if complete then clean_pipe y ddr_size h1 else (NLM_DDR3_CONTROLLER_TIMEOUT, h1)))"

definition nlm_device_ddr2_train :: "ddr_fpga \<Rightarrow> hw \<Rightarrow> (nlm_status \<times> hw) option" where
  "nlm_device_ddr2_train g h =
     map_option (\<lambda>h1. (NLM_OK, write_regs (ddr2_low g @ ddr2_high g) h1))
       (if clock_select g \<noteq> 0
        then let (v, h1) = HW_REGISTER SYS_RESET h
             in assert_then (v = 0xFFFFFFFF)
                  (Some (write_regs [(SYS_RESET, 0xFFFFFFFE), (FPGA_CLOCK_SELECT, clock_select g), (SYS_RESET, 0xFFFFFFFF)] h1))
        else Some h)"

text \<open>What stands after the first \<^verbatim>\<open>return NLM_OK\<close> of the function is never reached, so the size is not stored.\<close>

definition nlm_device_init_ddr_memory :: "ddr_fpga \<Rightarrow> u64 \<Rightarrow> hw \<Rightarrow> (nlm_status \<times> hw) option" where
  "nlm_device_init_ddr_memory g ddr_size h =
     (let (v, h1) = HW_REGISTER SYS_CONTROL h
      in assert_then (v = 0)
           (if NLM_USE_DDR2 then nlm_device_ddr2_train g h1 else Some (nlm_device_ddr3_static_train NLM_DDR3_FREQ g ddr_size h1)))"

text \<open>The training as bringing up a ring uses it: its status is not looked at.\<close>

definition ddr_training :: "ddr_fpga \<Rightarrow> u64 \<Rightarrow> hw \<Rightarrow> hw option" where
  "ddr_training g ddr_size h = map_option snd (nlm_device_init_ddr_memory g ddr_size h)"

section \<open>The tables\<close>

text \<open>Every register of the controller from 0x9000 on is set, in the order of the addresses, and register 11 once more at the end:
  its start bit, which the table leaves clear, starts the controller. The tables are cut after the same register.\<close>

definition ddr3_registers :: "nat \<Rightarrow> nat \<Rightarrow> u32 list" where
  "ddr3_registers m n = map (\<lambda>i. word_of_nat (0x9000 + 4 * i)) [m..<n]"

definition starts_last :: "(u32 \<times> u32) list \<Rightarrow> bool" where
  "starts_last ws \<longleftrightarrow> (\<exists>cs. ws = cs @ [(DDR3_CTL_11, 0x100)] \<and> map fst cs = ddr3_registers 0 252 \<and>
     (\<forall>v. (DDR3_CTL_11, v) \<in> set cs \<longrightarrow> v AND 0x100 = 0))"

lemma ddr3_low:
  "map fst (ddr3_333_low g) = ddr3_registers 0 118" "map fst (ddr3_400_low g) = ddr3_registers 0 118"
  "map fst (ddr3_416_low g) = ddr3_registers 0 118"
  by (simp_all add: ddr3_registers_def ddr3_333_low_def ddr3_400_low_def ddr3_416_low_def upt_rec)

lemma ddr3_high:
  "map fst (butlast (ddr3_333_high g)) = ddr3_registers 118 252" "map fst (butlast (ddr3_400_high g)) = ddr3_registers 118 252"
  "map fst (butlast (ddr3_416_high g)) = ddr3_registers 118 252"
  by (simp_all add: ddr3_registers_def ddr3_333_high_def ddr3_400_high_def ddr3_416_high_def upt_rec)

lemma ddr3_start:
  "last (ddr3_333_high g) = (DDR3_CTL_11, 0x100)" "last (ddr3_400_high g) = (DDR3_CTL_11, 0x100)"
  "last (ddr3_416_high g) = (DDR3_CTL_11, 0x100)"
  "ddr3_333_high g \<noteq> []" "ddr3_400_high g \<noteq> []" "ddr3_416_high g \<noteq> []"
  by (simp_all add: DDR3_CTL_11_def ddr3_333_high_def ddr3_400_high_def ddr3_416_high_def)

lemma ddr3_stopped_low:
  "(DDR3_CTL_11, v) \<in> set (ddr3_333_low g) \<Longrightarrow> v = 0" "(DDR3_CTL_11, v) \<in> set (ddr3_400_low g) \<Longrightarrow> v = 0"
  "(DDR3_CTL_11, v) \<in> set (ddr3_416_low g) \<Longrightarrow> v = 0"
  by (simp_all add: DDR3_CTL_11_def ddr3_333_low_def ddr3_400_low_def ddr3_416_low_def)

lemma ddr3_stopped_high: "DDR3_CTL_11 \<notin> set (ddr3_registers 118 252)"
  by (simp add: ddr3_registers_def DDR3_CTL_11_def upt_rec)

lemma ddr3_registers_append: "a \<le> b \<Longrightarrow> b \<le> c \<Longrightarrow> ddr3_registers a b @ ddr3_registers b c = ddr3_registers a c"
  using upt_add_eq_append [of a b "c - b"] by (simp add: ddr3_registers_def flip: map_append)

lemma starts_last_halves:
  assumes "map fst lo = ddr3_registers 0 118" "map fst (butlast hi) = ddr3_registers 118 252" "last hi = (DDR3_CTL_11, 0x100)" "hi \<noteq> []"
    and "\<And>v. (DDR3_CTL_11, v) \<in> set lo \<Longrightarrow> v = 0"
  shows "starts_last (lo @ hi)"
proof -
  have r: "ddr3_registers 0 118 @ ddr3_registers 118 252 = ddr3_registers 0 252"
    by (rule ddr3_registers_append) simp_all
  have "(DDR3_CTL_11, v) \<notin> set (butlast hi)" for v using ddr3_stopped_high assms(2) by (metis fst_conv image_eqI set_map)
  then have "\<forall>v. (DDR3_CTL_11, v) \<in> set (lo @ butlast hi) \<longrightarrow> v AND 0x100 = 0"
    using assms(5) by (metis Un_iff set_append and_zero_eq and.commute)
  moreover have "lo @ hi = (lo @ butlast hi) @ [(DDR3_CTL_11, 0x100)]" using assms(3,4) by (metis append.assoc append_butlast_last_id)
  moreover have "map fst (lo @ butlast hi) = ddr3_registers 0 252" using assms(1,2) r by simp
  ultimately show ?thesis unfolding starts_last_def by blast
qed

lemma ddr3_settings_start: "ddr3_settings freq g = Some ws \<Longrightarrow> starts_last ws"
  by (auto simp: ddr3_settings_def split: if_splits
      intro!: starts_last_halves ddr3_low ddr3_high ddr3_start intro: ddr3_stopped_low)

section \<open>Waiting for the controller\<close>

lemma write_regs_eq: "write_regs ws h = h\<lparr>trace := trace h @ map (\<lambda>(r, v). Wr r v) ws\<rparr>"
  by (induction ws arbitrary: h) (simp_all add: write_regs_def SET_HW_REGISTER_def split_beta)

text \<open>Whether the controller reports completion to the poll after \<open>k\<close> polls.\<close>

definition ddr3_ready :: "(access list \<Rightarrow> u32 \<Rightarrow> u32) \<Rightarrow> access list \<Rightarrow> nat \<Rightarrow> bool" where
  "ddr3_ready ans tr k \<longleftrightarrow> bit (ans (polls ans DDR3_CTL_173 tr k) DDR3_CTL_173) 6"

lemma bit_6: "push_bit 6 1 AND v \<noteq> 0 \<longleftrightarrow> bit v 6" for v :: u32
  by (simp add: and.commute [of _ v] bit_iff_and_push_bit_not_eq_0)

lemma init_complete_polls:
  "\<exists>n \<le> m. init_complete m h = (n < m, h\<lparr>trace := polls (answer h) DDR3_CTL_173 (trace h) (min (Suc n) m)\<rparr>) \<and>
     (\<forall>k < n. \<not> ddr3_ready (answer h) (trace h) k) \<and> (n < m \<longrightarrow> ddr3_ready (answer h) (trace h) n)"
proof (induction m arbitrary: h)
  case (Suc m)
  let ?v = "answer h (trace h) DDR3_CTL_173"
  let ?h = "h\<lparr>trace := trace h @ [Rd DDR3_CTL_173 ?v]\<rparr>"
  have r: "HW_REGISTER DDR3_CTL_173 h = (?v, ?h)" by (simp add: HW_REGISTER_def Let_def)
  show ?case
  proof (cases "bit ?v 6")
    case True
    then show ?thesis by (intro exI [of _ 0]) (simp add: r bit_6 [simplified] ddr3_ready_def)
  next
    case False
    obtain n where n: "n \<le> m" "init_complete m ?h = (n < m, ?h\<lparr>trace := polls (answer ?h) DDR3_CTL_173 (trace ?h) (min (Suc n) m)\<rparr>)"
      "\<forall>k < n. \<not> ddr3_ready (answer ?h) (trace ?h) k" "n < m \<longrightarrow> ddr3_ready (answer ?h) (trace ?h) n"
      using Suc.IH [of ?h] by blast
    have s: "ddr3_ready (answer h) (trace h) (Suc k) = ddr3_ready (answer ?h) (trace ?h) k" for k by (simp add: ddr3_ready_def)
    have "\<not> ddr3_ready (answer h) (trace h) k" if "k < Suc n" for k
      using that n(3) False s by (cases k) (simp_all add: ddr3_ready_def)
    moreover have "init_complete (Suc m) h = init_complete m ?h" using False by (simp add: r bit_6 [simplified])
    ultimately show ?thesis using n(1,2,4) s by (intro exI [of _ "Suc n"]) simp
  qed
qed simp

lemma clean_pipe_0: "clean_pipe 0 ddr_size h = (NLM_OK, h)"
  by (simp add: clean_pipe_def)

text \<open>C26. Static training at each of the three clocks sets every register of the controller once, in the order of the addresses and
  with the controller stopped, and starts it after that; then it polls the interrupt status. It succeeds exactly when one of 65535
  polls sees the initialisation complete, stops at the first one that does, and gives the timeout status otherwise. At any other
  clock it does nothing.\<close>

theorem nlm_device_ddr3_static_train_correct:
  "if freq \<in> {333, 400, 416} then
     \<exists>ws n. starts_last ws \<and> n \<le> DDR3_OP_TIMEOUT \<and>
       (let tr = trace h @ map (\<lambda>(r, v). Wr r v) ws in
        nlm_device_ddr3_static_train freq g ddr_size h =
          (if n < DDR3_OP_TIMEOUT then NLM_OK else NLM_DDR3_CONTROLLER_TIMEOUT,
           h\<lparr>trace := polls (answer h) DDR3_CTL_173 tr (min (Suc n) DDR3_OP_TIMEOUT)\<rparr>) \<and>
        (\<forall>k < n. \<not> ddr3_ready (answer h) tr k) \<and> (n < DDR3_OP_TIMEOUT \<longrightarrow> ddr3_ready (answer h) tr n))
   else nlm_device_ddr3_static_train freq g ddr_size h = (NLM_DDR3_UNSUPPORTED_FREQUENCY, h)"
  (is "if ?f then \<exists>ws n. _ \<and> _ \<and> ?P ws n else ?u")
proof (cases "ddr3_settings freq g")
  case None
  then show ?thesis by (auto simp: nlm_device_ddr3_static_train_def ddr3_settings_def split: if_splits)
next
  case (Some ws)
  obtain n where n: "n \<le> DDR3_OP_TIMEOUT" "init_complete DDR3_OP_TIMEOUT (write_regs ws h) =
      (n < DDR3_OP_TIMEOUT, (write_regs ws h)\<lparr>trace := polls (answer h) DDR3_CTL_173 (trace (write_regs ws h)) (min (Suc n) DDR3_OP_TIMEOUT)\<rparr>)"
    "\<forall>k < n. \<not> ddr3_ready (answer h) (trace (write_regs ws h)) k"
    "n < DDR3_OP_TIMEOUT \<longrightarrow> ddr3_ready (answer h) (trace (write_regs ws h)) n"
    using init_complete_polls [of DDR3_OP_TIMEOUT "write_regs ws h"] by (auto simp: write_regs_eq)
  have f: "freq \<in> {333, 400, 416}" using Some by (auto simp: ddr3_settings_def split: if_splits)
  have "nlm_device_ddr3_static_train freq g ddr_size h =
      (if n < DDR3_OP_TIMEOUT then NLM_OK else NLM_DDR3_CONTROLLER_TIMEOUT,
       h\<lparr>trace := polls (answer h) DDR3_CTL_173 (trace (write_regs ws h)) (min (Suc n) DDR3_OP_TIMEOUT)\<rparr>)"
    using n(2) Some by (simp add: nlm_device_ddr3_static_train_def clean_pipe_0 write_regs_eq)
  then have "\<exists>ws n. starts_last ws \<and> n \<le> DDR3_OP_TIMEOUT \<and> ?P ws n" using n(1,3,4) ddr3_settings_start [OF Some] by (auto simp: Let_def write_regs_eq)
  then show ?thesis using f by (simp only: if_True)
qed

text \<open>On a device that answers every read with bit 6 set, the first poll ends the training.\<close>

lemma nlm_device_ddr3_static_train_correct_witness:
  "\<exists>h'. nlm_device_ddr3_static_train 333 \<lparr>clock_select = 0, ddr_32bit_mode = 0, ddr_ecc = 0\<rparr> 0 \<lparr>trace = [], answer = \<lambda>_ _. 0x40\<rparr> =
      (NLM_OK, h') \<and> length (trace h') = 254"
proof -
  define h where "h = \<lparr>trace = [], answer = \<lambda>_ _. 0x40\<rparr>"
  define g where "g = \<lparr>clock_select = 0, ddr_32bit_mode = 0, ddr_ecc = 0\<rparr>"
  have r: "ddr3_ready (answer h) tr k" for tr k by (simp add: ddr3_ready_def h_def)
  obtain ws n tr where ws: "starts_last ws" "tr = trace h @ map (\<lambda>(r, v). Wr r v) ws" and n: "\<forall>k < n. \<not> ddr3_ready (answer h) tr k"
    and p: "nlm_device_ddr3_static_train 333 g 0 h = (if n < DDR3_OP_TIMEOUT then NLM_OK else NLM_DDR3_CONTROLLER_TIMEOUT,
       h\<lparr>trace := polls (answer h) DDR3_CTL_173 tr (min (Suc n) DDR3_OP_TIMEOUT)\<rparr>)"
    using nlm_device_ddr3_static_train_correct [of 333 h g 0] unfolding Let_def insert_iff simp_thms if_True by blast
  have "n = 0" using n r by (cases n) auto
  moreover have "length tr = 253"
    using ws by (auto simp: starts_last_def ddr3_registers_def h_def dest: arg_cong [of _ _ length])
  ultimately show ?thesis using p by (simp add: DDR3_OP_TIMEOUT_def flip: h_def g_def)
qed

section \<open>A controller that does not come up\<close>

text \<open>C27. A controller that never reports that it is initialised makes the training time out after 65535 polls, and the initialisation of
  the master ring goes on as if it were trained: it does not look at the status, and DDR memory is used whenever the user asked for it.\<close>

theorem ddr_timeout_ignored:
  assumes ring: "ucast (fms_ring_id p) = NLM_MASTER_RING"
    and dma: "answer (phy_hw p) (trace (phy_hw p) @ [Wr DDR_DMA_ENABLE 1]) SYS_CONTROL = 0"
    and dead: "\<And>tr. \<not> bit (answer (phy_hw p) tr DDR3_CTL_173) 6"
  shows "\<exists>h p' f'. nlm_device_init_ddr_memory g ddr_size (SET_HW_REGISTER DDR_DMA_ENABLE 1 (phy_hw p)) = Some (NLM_DDR3_CONTROLLER_TIMEOUT, h) \<and>
    init_ddr_memory (ddr_training g ddr_size) p f = Some (p', f') \<and> phy_hw p' = h \<and>
    use_ddr_memory p' = (if cf_size_of_ddr_memory (config p) = 0 then 0 else 1)"
proof -
  let ?h = "SET_HW_REGISTER DDR_DMA_ENABLE 1 (phy_hw p)"
  let ?h1 = "snd (HW_REGISTER SYS_CONTROL ?h)"
  have "\<not> ddr3_ready (answer ?h1) tr k" for tr k
    using dead by (simp add: ddr3_ready_def HW_REGISTER_def SET_HW_REGISTER_def Let_def)
  then have e: "fst (init_complete DDR3_OP_TIMEOUT (write_regs ws ?h1)) = False" for ws
    using init_complete_polls [of DDR3_OP_TIMEOUT "write_regs ws ?h1"] by (auto simp: write_regs_eq)
  obtain ws where ws: "ddr3_settings NLM_DDR3_FREQ g = Some ws" by (simp add: ddr3_settings_def NLM_DDR3_FREQ_def)
  obtain h where h: "init_complete DDR3_OP_TIMEOUT (write_regs ws ?h1) = (False, h)" using e [of ws] by (metis prod.collapse)
  have t: "nlm_device_init_ddr_memory g ddr_size ?h = Some (NLM_DDR3_CONTROLLER_TIMEOUT, h)"
    using dma ws h by (simp add: nlm_device_init_ddr_memory_def nlm_device_ddr3_static_train_def NLM_USE_DDR2_def HW_REGISTER_def
        SET_HW_REGISTER_def Let_def)
  have "set_regs [(DDR_DMA_ENABLE, 1)] p = p\<lparr>phy_hw := ?h\<rparr>" by (simp add: set_regs_def)
  then show ?thesis using t ring by (simp add: init_ddr_memory_def ddr_training_def Let_def)
qed

lemma ddr_timeout_ignored_witness:
  "\<exists>p' f'. init_ddr_memory (ddr_training \<lparr>clock_select = 0, ddr_32bit_mode = 0, ddr_ecc = 0\<rparr> 0x40000000)
      (phy_start (\<lambda>_ _. 0) (slave_config\<lparr>cf_size_of_ddr_memory := 0x40000000, cf_ring_id := 0\<rparr>) \<lparr>trace = [], answer = \<lambda>_ _. 0\<rparr>) 0x1000 =
      Some (p', f') \<and> use_ddr_memory p' = 1"
  using ddr_timeout_ignored [of "phy_start (\<lambda>_ _. 0) (slave_config\<lparr>cf_size_of_ddr_memory := 0x40000000, cf_ring_id := 0\<rparr>) \<lparr>trace = [], answer = \<lambda>_ _. 0\<rparr>"
      "\<lparr>clock_select = 0, ddr_32bit_mode = 0, ddr_ecc = 0\<rparr>" "0x40000000" "0x1000"]
  by (auto simp: phy_start_def config_consts)

end
