(* ===== verification/Ddr_Level.thy ===== *)
theory Ddr_Level
  imports Ddr_Train
begin

unbundle bit_operations_syntax

text \<open>
  The levelling of the data lines of the DDR3 memory in software (lib/dataplane/nlm_ddr.c; the state is
  \<^verbatim>\<open>struct ddr3_state\<close> of nlm_fms_formats.h): for each slice of the data bus the delay at which the memory answers
  reliably is found by setting delays, reading responses and looking for the edges between the responses. An array is
  a function of its index; an index outside of an array, a failed assertion, a division by zero and a loop without end
  are \<^term>\<open>None\<close>. Slices are counted by natural numbers, delays are words, as in the code.
\<close>

section \<open>State\<close>

datatype ddr3_leveling_mode = NONE | WRITE | READ | GATE
datatype ddr3_leveling_transition = S0X | S1X | SX0 | SX1

fun leveling_mode_code :: "ddr3_leveling_mode \<Rightarrow> u32" where
  "leveling_mode_code NONE = 0" | "leveling_mode_code WRITE = 1" | "leveling_mode_code READ = 2" | "leveling_mode_code GATE = 3"

fun transition_code :: "ddr3_leveling_transition \<Rightarrow> u32" where
  "transition_code S0X = 0" | "transition_code S1X = 1" | "transition_code SX0 = 2" | "transition_code SX1 = 3"

text \<open>Requests and responses are integers in the code: a bit of a request is tested, and a response is compared with bytes.\<close>

definition TERMREQ :: u32 where "TERMREQ = 0"
definition SETREQ :: u32 where "SETREQ = 1"
definition GETREQ :: u32 where "GETREQ = 2"
definition SETGETREQ :: u32 where "SETGETREQ = 3"

definition VAL_0 :: u32 where "VAL_0 = 0"
definition VAL_1 :: u32 where "VAL_1 = 1"
definition VAL_Z :: u32 where "VAL_Z = 2"
definition VAL_X :: u32 where "VAL_X = 3"

lemmas request_defs = TERMREQ_def SETREQ_def GETREQ_def SETGETREQ_def
lemmas val_defs = VAL_0_def VAL_1_def VAL_Z_def VAL_X_def

definition NLM_DDR3_MAX_SLICE :: nat where "NLM_DDR3_MAX_SLICE = 32"
definition NLM_DDR3_MAX_CS :: u32 where "NLM_DDR3_MAX_CS = 2"
definition NLM_DDR3_MAX_DLL_DELAY :: u32 where "NLM_DDR3_MAX_DLL_DELAY = 256"

record ddr3_state =
  m_valid :: u32
  m_save_responses :: u32
  m_cs_rank :: u32
  m_in_preamble :: u32
  m_step_size :: u32
  m_retry_count :: u32
  m_jitter_range :: u32
  m_wrlvl_swhw :: u32
  m_rdlvl_swhw :: u32
  m_gtlvl_swhw :: u32
  sim_ps_period :: u32
  m_is_gatesim :: u32
  m_fast :: u32
  m_wrlvl_is_leveled :: u32
  m_rdlvl_is_leveled :: u32
  m_gtlvl_is_leveled :: u32
  dll_is_macro :: u32
  m_min_delay :: u32
  m_max_delay :: u32
  m_max_slice :: u32
  tdqsq_delay :: u32
  lv_shift :: u32
  leveling_type_status :: ddr3_leveling_mode
  edges :: "nat \<Rightarrow> ddr3_leveling_transition"
  m_request :: "nat \<Rightarrow> u32"
  m_resp :: "nat \<Rightarrow> u32"
  m_response :: "nat \<Rightarrow> u32 \<Rightarrow> u32"
  m_delay :: "nat \<Rightarrow> u32"
  m_dll_ctrl_0 :: "nat \<Rightarrow> u32"
  m_phy_ctrl_0 :: "nat \<Rightarrow> u32"
  m_phy_ctrl_1 :: "nat \<Rightarrow> u32"
  m_data_delay :: "u32 \<Rightarrow> nat \<Rightarrow> u32"
  m_ctrl_delay :: "u32 \<Rightarrow> nat \<Rightarrow> u32"
  m_wrlvl_delay :: "nat \<Rightarrow> ddr3_leveling_transition \<Rightarrow> u32"
  m_gtlvl_delay :: "nat \<Rightarrow> ddr3_leveling_transition \<Rightarrow> u32"
  m_rdlvl_delay :: "nat \<Rightarrow> nat \<Rightarrow> ddr3_leveling_transition \<Rightarrow> u32"
  m_wrlvl_startVal :: "nat \<Rightarrow> u32"
  m_gtlvl_startVal :: "nat \<Rightarrow> u32"
  m_rdlvl_startVal :: "nat \<Rightarrow> nat \<Rightarrow> u32"

text \<open>The part of the physical device that levelling uses: this state and the registers.\<close>

record leveling = ddr3_state +
  lv_hw :: hw

text \<open>The arguments \<^verbatim>\<open>last_delay\<close> and \<^verbatim>\<open>startVal\<close> point into the arrays of the state; the array they point into stands for them.\<close>

datatype level_array = Wrlvl | Gtlvl | Rdlvl nat

fun last_delay :: "level_array \<Rightarrow> nat \<Rightarrow> ddr3_leveling_transition \<Rightarrow> leveling \<Rightarrow> u32" where
  "last_delay Wrlvl sl t s = m_wrlvl_delay s sl t"
| "last_delay Gtlvl sl t s = m_gtlvl_delay s sl t"
| "last_delay (Rdlvl e) sl t s = m_rdlvl_delay s e sl t"

fun set_last_delay :: "level_array \<Rightarrow> nat \<Rightarrow> ddr3_leveling_transition \<Rightarrow> u32 \<Rightarrow> leveling \<Rightarrow> leveling" where
  "set_last_delay Wrlvl sl t v s = s\<lparr>m_wrlvl_delay := (m_wrlvl_delay s)(sl := (m_wrlvl_delay s sl)(t := v))\<rparr>"
| "set_last_delay Gtlvl sl t v s = s\<lparr>m_gtlvl_delay := (m_gtlvl_delay s)(sl := (m_gtlvl_delay s sl)(t := v))\<rparr>"
| "set_last_delay (Rdlvl e) sl t v s =
     s\<lparr>m_rdlvl_delay := (m_rdlvl_delay s)(e := (m_rdlvl_delay s e)(sl := (m_rdlvl_delay s e sl)(t := v)))\<rparr>"

fun start_val :: "level_array \<Rightarrow> nat \<Rightarrow> leveling \<Rightarrow> u32" where
  "start_val Wrlvl sl s = m_wrlvl_startVal s sl"
| "start_val Gtlvl sl s = m_gtlvl_startVal s sl"
| "start_val (Rdlvl e) sl s = m_rdlvl_startVal s e sl"

fun set_start_val :: "level_array \<Rightarrow> nat \<Rightarrow> u32 \<Rightarrow> leveling \<Rightarrow> leveling" where
  "set_start_val Wrlvl sl v s = s\<lparr>m_wrlvl_startVal := (m_wrlvl_startVal s)(sl := v)\<rparr>"
| "set_start_val Gtlvl sl v s = s\<lparr>m_gtlvl_startVal := (m_gtlvl_startVal s)(sl := v)\<rparr>"
| "set_start_val (Rdlvl e) sl v s = s\<lparr>m_rdlvl_startVal := (m_rdlvl_startVal s)(e := (m_rdlvl_startVal s e)(sl := v))\<rparr>"

section \<open>Registers\<close>

definition DDR3_CTL :: "u32 \<Rightarrow> u32" where "DDR3_CTL n = 0x9000 + 4 * n"

abbreviation "DDR3_CTL_06 \<equiv> DDR3_CTL 6"
abbreviation "DDR3_CTL_07 \<equiv> DDR3_CTL 7"
abbreviation "DDR3_CTL_12 \<equiv> DDR3_CTL 12"
abbreviation "DDR3_CTL_13 \<equiv> DDR3_CTL 13"
abbreviation "DDR3_CTL_17 \<equiv> DDR3_CTL 17"
abbreviation "DDR3_CTL_24 \<equiv> DDR3_CTL 24"
abbreviation "DDR3_CTL_25 \<equiv> DDR3_CTL 25"
abbreviation "DDR3_CTL_26 \<equiv> DDR3_CTL 26"
abbreviation "DDR3_CTL_27 \<equiv> DDR3_CTL 27"
abbreviation "DDR3_CTL_37 \<equiv> DDR3_CTL 37"
abbreviation "DDR3_CTL_45 \<equiv> DDR3_CTL 45"
abbreviation "DDR3_CTL_47 \<equiv> DDR3_CTL 47"
abbreviation "DDR3_CTL_48 \<equiv> DDR3_CTL 48"
abbreviation "DLL_CTRL_REG_0_0 \<equiv> DDR3_CTL 71"
abbreviation "DDR3_CTL_81 \<equiv> DDR3_CTL 81"
abbreviation "DDR3_CTL_90 \<equiv> DDR3_CTL 90"

text \<open>The numbering of the registers has gaps after 98.\<close>

definition DDR3_CTL_213 :: u32 where "DDR3_CTL_213 = 0x9354"
definition DDR3_CTL_236 :: u32 where "DDR3_CTL_236 = 0x93B0"

definition lv_read :: "u32 \<Rightarrow> leveling \<Rightarrow> u32 \<times> leveling" where
  "lv_read reg s = (let (v, h) = HW_REGISTER reg (lv_hw s) in (v, s\<lparr>lv_hw := h\<rparr>))"

definition lv_write :: "u32 \<Rightarrow> u32 \<Rightarrow> leveling \<Rightarrow> leveling" where
  "lv_write reg v s = s\<lparr>lv_hw := SET_HW_REGISTER reg v (lv_hw s)\<rparr>"

text \<open>\<^verbatim>\<open>SET_HW_REGISTER_FIELD\<close> and \<^verbatim>\<open>HW_REGISTER_FIELD\<close>, for the field of \<open>w\<close> bits from bit \<open>lo\<close> on.\<close>

definition set_register_field :: "u32 \<Rightarrow> nat \<Rightarrow> nat \<Rightarrow> u32 \<Rightarrow> leveling \<Rightarrow> leveling" where
  "set_register_field reg lo w v s =
     (let (x, s1) = lv_read reg s in lv_write reg ((x AND NOT (push_bit lo (mask w))) OR push_bit lo (v AND mask w)) s1)"

definition get_register_field :: "u32 \<Rightarrow> nat \<Rightarrow> nat \<Rightarrow> leveling \<Rightarrow> u32 \<times> leveling" where
  "get_register_field reg lo w s = (let (x, s1) = lv_read reg s in (drop_bit lo x AND mask w, s1))"

section \<open>Operations of the controller\<close>

text \<open>Polling until the operation is done; it has to be, in time.\<close>

fun op_done :: "nat \<Rightarrow> leveling \<Rightarrow> leveling option" where
  "op_done 0 s = None"
| "op_done (Suc n) s = (let (v, s1) = lv_read DDR3_CTL_12 s in if bit v 0 then Some s1 else op_done n s1)"

definition nlm_device_ddr3_wait_op_done :: "leveling \<Rightarrow> leveling option" where
  "nlm_device_ddr3_wait_op_done s = op_done DDR3_OP_TIMEOUT s"

text \<open>The requests to load and to exit set the bits of register 11 in the value of register 12, and write it there.\<close>

definition nlm_device_ddr3_sw_lvl_load :: "leveling \<Rightarrow> leveling option" where
  "nlm_device_ddr3_sw_lvl_load s =
     (let (v, s1) = lv_read DDR3_CTL_12 s in nlm_device_ddr3_wait_op_done (lv_write DDR3_CTL_12 (set_bit 24 v) s1))"

definition nlm_device_ddr3_sw_lvl_exit :: "leveling \<Rightarrow> leveling option" where
  "nlm_device_ddr3_sw_lvl_exit s =
     (let (v, s1) = lv_read DDR3_CTL_12 s in nlm_device_ddr3_wait_op_done (lv_write DDR3_CTL_12 (set_bit 16 v) s1))"

definition nlm_device_ddr3_sw_lvl_start :: "leveling \<Rightarrow> leveling option" where
  "nlm_device_ddr3_sw_lvl_start s =
     (let s1 = set_register_field DDR3_CTL_17 8 2 (leveling_mode_code (leveling_type_status s)) s;
          (v, s2) = lv_read DDR3_CTL_12 s1
      in nlm_device_ddr3_wait_op_done (lv_write DDR3_CTL_12 (set_bit 8 v) s2))"

section \<open>Cycles of delay\<close>

definition nlm_device_ddr3_init_response :: "nat \<Rightarrow> leveling \<Rightarrow> leveling" where
  "nlm_device_ddr3_init_response sl s =
     (if m_save_responses s \<noteq> 0
      then s\<lparr>m_delay := (m_delay s)(sl := - 1), m_response := (m_response s)(sl := \<lambda>_. VAL_Z)\<rparr> else s)"

definition set_phy_ctrl_1 :: "nat \<Rightarrow> u32 \<Rightarrow> leveling \<Rightarrow> leveling" where
  "set_phy_ctrl_1 sl v s = lv_write (DDR3_CTL_90 + 4 * word_of_nat sl) v (s\<lparr>m_phy_ctrl_1 := (m_phy_ctrl_1 s)(sl := v)\<rparr>)"

definition nlm_device_ddr3_incr_full_cycle_delay :: "nat \<Rightarrow> leveling \<Rightarrow> nlm_status \<times> leveling" where
  "nlm_device_ddr3_incr_full_cycle_delay sl s =
     (let s1 = nlm_device_ddr3_init_response sl s
      in if m_phy_ctrl_1 s1 sl AND 7 = 7 then (NLM_DDR3_DELAY_CHANGE_FAIL, s1)
         else (NLM_OK, set_phy_ctrl_1 sl (m_phy_ctrl_1 s1 sl + 1) s1))"

definition nlm_device_ddr3_decr_full_cycle_delay :: "nat \<Rightarrow> leveling \<Rightarrow> nlm_status \<times> leveling" where
  "nlm_device_ddr3_decr_full_cycle_delay sl s =
     (let s1 = nlm_device_ddr3_init_response sl s
      in if m_phy_ctrl_1 s1 sl AND 7 = 0 then (NLM_DDR3_DELAY_CHANGE_FAIL, s1)
         else (NLM_OK, set_phy_ctrl_1 sl (m_phy_ctrl_1 s1 sl - 1) s1))"

definition nlm_device_ddr3_set_full_cycle_delay :: "nat \<Rightarrow> u32 \<Rightarrow> leveling \<Rightarrow> leveling option" where
  "nlm_device_ddr3_set_full_cycle_delay sl v s =
     assert_then (v < 8)
       (Some (if m_phy_ctrl_1 s sl AND 7 \<noteq> v
              then set_phy_ctrl_1 sl ((m_phy_ctrl_1 s sl AND NOT 7) OR v) (nlm_device_ddr3_init_response sl s) else s))"

text \<open>The end of both operations on half cycles: only a successful change is written to the register.\<close>

definition store_half_cycle :: "nat \<Rightarrow> nlm_status \<times> leveling \<Rightarrow> nlm_status \<times> leveling" where
  "store_half_cycle sl r =
     (case r of (result, s) \<Rightarrow>
        if result = NLM_OK
        then (result, let s1 = nlm_device_ddr3_init_response sl s in lv_write (DDR3_CTL_81 + 4 * word_of_nat sl) (m_phy_ctrl_0 s1 sl) s1)
        else (result, s))"

definition set_phy_ctrl_0 :: "nat \<Rightarrow> u32 \<Rightarrow> leveling \<Rightarrow> leveling" where
  "set_phy_ctrl_0 sl v s = s\<lparr>m_phy_ctrl_0 := (m_phy_ctrl_0 s)(sl := v)\<rparr>"

definition nlm_device_ddr3_incr_half_cycle_delay :: "nat \<Rightarrow> leveling \<Rightarrow> nlm_status \<times> leveling" where
  "nlm_device_ddr3_incr_half_cycle_delay sl s =
     (let s1 = nlm_device_ddr3_init_response sl s; v = m_phy_ctrl_0 s1 sl
      in store_half_cycle sl
           (if v AND push_bit 16 1 = 0 then (NLM_OK, set_phy_ctrl_0 sl (v OR push_bit 16 1) s1)
            else nlm_device_ddr3_incr_full_cycle_delay sl (set_phy_ctrl_0 sl (v AND NOT (push_bit 16 1)) s1)))"

text \<open>The test compares bit 16, a number that is 0 or 65536, with 1.\<close>

definition nlm_device_ddr3_decr_half_cycle_delay :: "nat \<Rightarrow> leveling \<Rightarrow> nlm_status \<times> leveling" where
  "nlm_device_ddr3_decr_half_cycle_delay sl s =
     (let s1 = nlm_device_ddr3_init_response sl s; v = m_phy_ctrl_0 s1 sl
      in store_half_cycle sl
           (if v AND push_bit 16 1 = 1 then (NLM_OK, set_phy_ctrl_0 sl (v AND NOT (push_bit 16 1)) s1)
            else nlm_device_ddr3_decr_full_cycle_delay sl (set_phy_ctrl_0 sl (v OR push_bit 16 1) s1)))"

section \<open>The edges to look for\<close>

definition set_edges :: "ddr3_leveling_transition list \<Rightarrow> leveling \<Rightarrow> leveling" where
  "set_edges ts s = s\<lparr>edges := \<lambda>i. if i < length ts then ts ! i else edges s i\<rparr>"

text \<open>The number of edges, and whether the search starts again.\<close>

definition nlm_device_ddr3_get_edges :: "nat \<Rightarrow> u32 \<Rightarrow> u32 \<Rightarrow> leveling \<Rightarrow> (u32 \<times> u32 \<times> leveling) option" where
  "nlm_device_ddr3_get_edges sl startVal reset s =
     (case leveling_type_status s of
        WRITE \<Rightarrow>
          if startVal \<noteq> transition_code SX1 then Some (2, reset, set_edges [S0X, SX1] s)
          else if m_wrlvl_is_leveled s \<noteq> 0 then Some (1, reset, set_edges [SX1] s)
          else assert_then (m_cs_rank s < NLM_DDR3_MAX_CS)
            (let data_delay = m_data_delay s (m_cs_rank s) sl; ctrl_delay = m_ctrl_delay s (m_cs_rank s) sl
             in if ctrl_delay - data_delay < drop_bit 1 (sim_ps_period s) then Some (1, reset, set_edges [SX1] s)
                else Some (2, reset, set_edges [S0X, SX1] s))
      | READ \<Rightarrow>
          if startVal = transition_code S0X then Some (2, reset, set_edges [S0X, SX1] s)
          else Some (2, reset, set_edges [SX0, S0X] s)
      | GATE \<Rightarrow>
          if m_gtlvl_is_leveled s \<noteq> 0 then Some (2, reset, set_edges [S0X, SX1] s)
          else
            let (reset1, s1) = (if startVal = transition_code SX1 \<or> startVal = transition_code S1X
                                then (1, snd (nlm_device_ddr3_decr_half_cycle_delay sl s)) else (reset, s))
            in if m_in_preamble s1 \<noteq> 0 then Some (2, reset1, set_edges [S0X, SX1] s1)
               else Some (3, reset1, set_edges [S0X, SX1, S1X] s1)
      | NONE \<Rightarrow> None)"

section \<open>Setting delays and reading responses\<close>

definition nlm_device_ddr3_load_delay_write :: "nat \<Rightarrow> u32 \<Rightarrow> leveling \<Rightarrow> leveling" where
  "nlm_device_ddr3_load_delay_write sl delay s =
     (let wrlvl_reg_addr = DDR3_CTL_236 + word_of_nat ((sl + 1) div 2) * 4;
          shift_val = (if even sl then 16 else 0);
          (reg, s1) = lv_read wrlvl_reg_addr s;
          s2 = lv_write wrlvl_reg_addr ((reg AND push_bit (16 - shift_val) 0xffff) OR push_bit shift_val delay) s1;
          full_cycle = m_dll_ctrl_0 s2 sl AND 0xff;
          delta = delay + drop_bit 2 full_cycle;
          delta' = (if sint full_cycle \<le> sint delta then delta - full_cycle else delta);
          ctrl = m_dll_ctrl_0 s2 sl + push_bit 16 delta'
      in lv_write (DLL_CTRL_REG_0_0 + word_of_nat sl) ctrl (s2\<lparr>m_dll_ctrl_0 := (m_dll_ctrl_0 s2)(sl := ctrl)\<rparr>))"

text \<open>A field of a delay register is replaced, without cutting the delay to the field.\<close>

definition load_delay_field :: "u32 \<Rightarrow> u32 \<Rightarrow> nat \<Rightarrow> u32 \<Rightarrow> leveling \<Rightarrow> leveling" where
  "load_delay_field reg keep shift_val delay s =
     (let (v, s1) = lv_read reg s in lv_write reg ((v AND keep) OR push_bit shift_val delay) s1)"

definition load_delay :: "nat \<Rightarrow> leveling \<Rightarrow> leveling option" where
  "load_delay sl s =
     (case leveling_type_status s of
        WRITE \<Rightarrow> Some (nlm_device_ddr3_load_delay_write sl (m_delay s sl) s)
      | READ \<Rightarrow> (let shift_val = (if odd sl then 16 else 0)
                 in Some (load_delay_field (DDR3_CTL_213 + word_of_nat (sl div 2) * 4) (push_bit (16 - shift_val) 0xffff) shift_val (m_delay s sl) s))
      | GATE \<Rightarrow> (let shift_val = ((sl + 2) mod 4) * 8
                 in Some (load_delay_field (DDR3_CTL_37 + word_of_nat ((sl + 2) div 4) * 4) (NOT (push_bit shift_val 0xff)) shift_val (m_delay s sl) s))
      | NONE \<Rightarrow> None)"

definition send_slice :: "nat \<Rightarrow> leveling \<Rightarrow> leveling option" where
  "send_slice sl s = (if m_request s sl \<noteq> TERMREQ \<and> m_request s sl AND SETREQ \<noteq> 0 then load_delay sl s else Some s)"

definition receive_slice :: "nat \<Rightarrow> leveling \<Rightarrow> leveling" where
  "receive_slice sl s =
     (if m_request s sl AND GETREQ \<noteq> 0 then
        let (v, s1) = lv_read (DDR3_CTL_45 + 4 * word_of_nat (sl div 4)) s;
            regval = drop_bit ((sl mod 4) * 8) v AND 0xff
        in s1\<lparr>m_resp := (m_resp s1)(sl := if leveling_type_status s1 = READ
             then (if regval = 0xff \<or> regval = 0 then regval else VAL_X) else regval)\<rparr>
      else s)"

text \<open>The loops over the slices stay inside of the arrays while there are at most 32 of them.\<close>

definition slices :: "leveling \<Rightarrow> nat list" where "slices s = [0..<unat (m_max_slice s)]"

definition nlm_device_ddr3_serial_send_receive :: "leveling \<Rightarrow> leveling option" where
  "nlm_device_ddr3_serial_send_receive s =
     assert_then (unat (m_max_slice s) \<le> NLM_DDR3_MAX_SLICE)
       (Option.bind (foldM send_slice (slices s) s) (\<lambda>s1.
        map_option (fold receive_slice (slices s))
          (if (\<exists>sl \<in> set (slices s). m_request s sl \<noteq> TERMREQ) then nlm_device_ddr3_sw_lvl_load s1 else Some s1)))"

text \<open>Reading a response again until it differs: \<open>n\<close> is the number of tries left.\<close>

fun retry :: "nat \<Rightarrow> nat \<Rightarrow> u32 \<Rightarrow> leveling \<Rightarrow> (u32 \<times> leveling) option" where
  "retry 0 sl resp s = Some (resp, s)"
| "retry (Suc n) sl resp s =
     (if resp = VAL_X then Some (resp, s)
      else Option.bind (nlm_device_ddr3_serial_send_receive s) (\<lambda>s1.
        let s2 = s1\<lparr>m_request := (m_request s1)(sl := GETREQ)\<rparr>
        in if resp = VAL_Z then retry n sl (m_resp s2 sl) s2
           else if resp \<noteq> m_resp s2 sl then retry n sl VAL_X (s2\<lparr>m_resp := (m_resp s2)(sl := VAL_X)\<rparr>)
           else retry n sl resp s2))"

definition save_response :: "nat \<Rightarrow> u32 \<Rightarrow> u32 \<Rightarrow> leveling \<Rightarrow> leveling option" where
  "save_response sl delay resp s =
     (if m_save_responses s \<noteq> 0 then
        assert_then (delay < NLM_DDR3_MAX_DLL_DELAY)
          (Some (s\<lparr>m_response := (m_response s)(sl := (m_response s sl)(delay := resp))\<rparr>))
      else Some s)"

definition nlm_device_ddr3_get_request :: "nat \<Rightarrow> u32 \<Rightarrow> leveling \<Rightarrow> (u32 \<times> leveling) option" where
  "nlm_device_ddr3_get_request sl delay s =
     (if m_min_delay s \<le> delay \<and> delay \<le> m_max_delay s then
        if m_save_responses s \<noteq> 0 \<and> \<not> delay < NLM_DDR3_MAX_DLL_DELAY then None
        else if m_save_responses s \<noteq> 0 \<and> m_response s sl delay \<noteq> VAL_Z then Some (m_response s sl delay, s)
        else if delay = m_delay s sl then Some (m_resp s sl, s)
        else
          Option.bind (retry (unat (m_retry_count s)) sl VAL_Z
              (s\<lparr>m_request := (m_request s)(sl := SETGETREQ), m_delay := (m_delay s)(sl := delay)\<rparr>)) (\<lambda>(resp, s1).
            map_option (Pair resp) (save_response sl delay resp s1))
      else Some (VAL_Z, s))"

text \<open>Counting responses that agree, below the delay and then above; the requests are all for the delay itself.\<close>

partial_function (option) jitter :: "nat \<Rightarrow> u32 \<Rightarrow> u32 \<Rightarrow> u32 \<Rightarrow> u32 \<Rightarrow> u32 \<Rightarrow> leveling \<Rightarrow> (u32 \<times> leveling) option" where
  "jitter sl delay resp n dn dp s =
     (if resp \<noteq> VAL_X \<and> n < m_jitter_range s then
        if m_min_delay s \<le> dn then
          Option.bind (nlm_device_ddr3_get_request sl delay s) (\<lambda>r.
            if resp = fst r then jitter sl delay resp (n + 1) (dn - 1) dp (snd r)
            else jitter sl delay resp n (m_min_delay (snd r) - 1) dp (snd r))
        else if dp \<le> m_max_delay s then
          Option.bind (nlm_device_ddr3_get_request sl delay s) (\<lambda>r.
            if resp = fst r then jitter sl delay resp (n + 1) dn (dp + 1) (snd r)
            else jitter sl delay resp n dn (m_max_delay (snd r) + 1) (snd r))
        else jitter sl delay VAL_X n dn dp s
      else Some (resp, s))"

definition nlm_device_ddr3_get_response :: "nat \<Rightarrow> u32 \<Rightarrow> leveling \<Rightarrow> (u32 \<times> leveling) option" where
  "nlm_device_ddr3_get_response sl delay s =
     Option.bind (nlm_device_ddr3_get_request sl delay s) (\<lambda>(resp, s1).
     Option.bind (if 1 < m_jitter_range s1 then jitter sl delay resp 1 (delay - 1) (delay + 1) s1 else Some (resp, s1)) (\<lambda>(resp, s2).
       map_option (Pair resp) (save_response sl delay resp s2)))"

definition nlm_device_ddr3_set_request :: "nat \<Rightarrow> u32 \<Rightarrow> leveling \<Rightarrow> leveling option" where
  "nlm_device_ddr3_set_request sl delay s =
     (if delay \<noteq> m_delay s sl
      then nlm_device_ddr3_serial_send_receive
             (s\<lparr>m_request := (m_request s)(sl := SETREQ), m_delay := (m_delay s)(sl := delay)\<rparr>)
      else Some s)"

section \<open>The final delays\<close>

text \<open>The search for the preamble goes on while the response is not zero and the last change gave a status that is not zero.\<close>

partial_function (option) find_preamble :: "nat \<Rightarrow> u32 \<Rightarrow> u32 \<Rightarrow> nat \<Rightarrow> leveling \<Rightarrow> leveling option" where
  "find_preamble sl delay resp success s =
     (if resp \<noteq> 0 \<and> success \<noteq> 0 then
        (case nlm_device_ddr3_decr_full_cycle_delay sl s of (status, s1) \<Rightarrow>
           Option.bind (nlm_device_ddr3_get_response sl delay s1) (\<lambda>r. find_preamble sl delay (fst r) (nlm_status_code status) (snd r)))
      else Some s)"

text \<open>In read mode the code compares the pointer \<^verbatim>\<open>startVal\<close> with S0X, which is zero: the first branch is never taken. The
  delay for the negative edge is half of an unsigned number, so the test for a negative one does nothing.\<close>

definition nlm_device_ddr3_calc_delays :: "level_array \<Rightarrow> nat \<Rightarrow> leveling \<Rightarrow> leveling option" where
  "nlm_device_ddr3_calc_delays a sl s =
     (let last = (\<lambda>t. last_delay a sl t s) in
      case leveling_type_status s of
        WRITE \<Rightarrow>
          nlm_device_ddr3_set_request sl
            (if start_val a sl s = transition_code SX1 then last SX1 div 2 else (last S0X + last SX1) div 2) s
      | READ \<Rightarrow>
          if lv_shift s = 0 then
            let regval = (last S0X + last SX0) div 2;
                regval1 = (if m_rdlvl_startVal s 1 sl = transition_code S0X
                           then (m_rdlvl_delay s 1 sl S0X + tdqsq_delay s - 24) div 2
                           else (m_rdlvl_delay s 1 sl S0X + m_rdlvl_delay s 1 sl SX0) div 2)
            in nlm_device_ddr3_set_request sl (regval + push_bit 8 regval1) s
          else Some s
      | GATE \<Rightarrow>
          Option.bind
            (if m_gtlvl_is_leveled s \<noteq> 0 \<or> m_in_preamble s \<noteq> 0 then Some (snd (nlm_device_ddr3_decr_half_cycle_delay sl s))
             else let delay = (last SX1 + last S1X) div 2 in
               Option.bind (nlm_device_ddr3_get_response sl delay s) (\<lambda>(resp, s1).
                 map_option (\<lambda>s2. snd (nlm_device_ddr3_incr_half_cycle_delay sl s2)) (find_preamble sl delay resp 1 s1)))
            (nlm_device_ddr3_set_request sl ((last S0X + last SX1) div 2))
      | NONE \<Rightarrow> None)"

section \<open>Looking for edges\<close>

text \<open>The response that belongs to the side of an edge where the delay is too small; \<open>VAL_X\<close> stands for any but the other.\<close>

definition corresponds :: "u32 \<Rightarrow> u32 \<Rightarrow> u32 \<Rightarrow> bool" where
  "corresponds resp1 resp2 resp \<longleftrightarrow> resp = resp1 \<or> resp1 = VAL_X \<and> resp \<noteq> resp2"

fun edge_sides :: "ddr3_leveling_transition \<Rightarrow> u32 \<times> u32" where
  "edge_sides S0X = (0, VAL_X)" | "edge_sides S1X = (1, VAL_X)" | "edge_sides SX0 = (VAL_X, 0)" | "edge_sides SX1 = (VAL_X, 1)"

text \<open>Up: the delay where the responses stop corresponding, none when the largest delay is passed. Down: the last delay before
  one that corresponds, or the smallest.\<close>

partial_function (option) seek_up :: "nat \<Rightarrow> u32 \<Rightarrow> u32 \<Rightarrow> u32 \<Rightarrow> u32 \<Rightarrow> leveling \<Rightarrow> (u32 option \<times> leveling) option" where
  "seek_up sl resp1 resp2 resp delay s =
     (if corresponds resp1 resp2 resp then
        if m_max_delay s < delay + 1 then Some (None, s)
        else Option.bind (nlm_device_ddr3_get_response sl (delay + 1) s) (\<lambda>r. seek_up sl resp1 resp2 (fst r) (delay + 1) (snd r))
      else Some (Some delay, s))"

partial_function (option) seek_down :: "nat \<Rightarrow> u32 \<Rightarrow> u32 \<Rightarrow> u32 \<Rightarrow> leveling \<Rightarrow> (u32 \<times> leveling) option" where
  "seek_down sl resp1 resp2 delay s =
     (if delay - 1 < m_min_delay s then Some (delay, s)
      else Option.bind (nlm_device_ddr3_get_response sl (delay - 1) s) (\<lambda>r.
        if corresponds resp1 resp2 (fst r) then Some (delay, snd r) else seek_down sl resp1 resp2 (delay - 1) (snd r)))"

definition tune_one :: "level_array \<Rightarrow> nat \<Rightarrow> ddr3_leveling_transition \<Rightarrow> leveling \<Rightarrow> (nlm_status \<times> leveling) option" where
  "tune_one a sl idx s =
     (let (resp1, resp2) = edge_sides idx;
          delay = (if 1 < last_delay a sl idx s then last_delay a sl idx s - 1 else 0)
      in Option.bind (nlm_device_ddr3_get_response sl delay s) (\<lambda>(resp, s1).
        if corresponds resp1 resp2 resp then
          map_option (\<lambda>(r, s2). case r of None \<Rightarrow> (NLM_DDR3_TUNING_MAX_DELAY_REACHED, s2) | Some d \<Rightarrow> (NLM_OK, set_last_delay a sl idx d s2))
            (seek_up sl resp1 resp2 resp delay s1)
        else map_option (\<lambda>(d, s2). (NLM_OK, set_last_delay a sl idx d s2)) (seek_down sl resp1 resp2 delay s1)))"

fun tune_all :: "level_array \<Rightarrow> nat \<Rightarrow> ddr3_leveling_transition list \<Rightarrow> leveling \<Rightarrow> (nlm_status \<times> leveling) option" where
  "tune_all a sl [] s = Some (NLM_OK, s)"
| "tune_all a sl (t # ts) s =
     Option.bind (tune_one a sl t s) (\<lambda>(status, s1). if status \<noteq> NLM_OK then Some (status, s1) else tune_all a sl ts s1)"

definition finish_slice :: "level_array \<Rightarrow> nat \<Rightarrow> leveling \<Rightarrow> (nlm_status \<times> leveling) option" where
  "finish_slice a sl s =
     map_option (\<lambda>s1. (NLM_OK, s1\<lparr>m_request := (m_request s1)(sl := TERMREQ)\<rparr>)) (nlm_device_ddr3_calc_delays a sl s)"

definition nlm_device_ddr3_tune_edge :: "level_array \<Rightarrow> nat \<Rightarrow> leveling \<Rightarrow> (nlm_status \<times> leveling) option" where
  "nlm_device_ddr3_tune_edge a sl s =
     (let s1 = nlm_device_ddr3_init_response sl s in
      Option.bind (nlm_device_ddr3_get_edges sl (start_val a sl s1) 0 s1) (\<lambda>(n, reset, s2).
      Option.bind (tune_all a sl (map (edges s2) [0..<unat n]) s2) (\<lambda>(status, s3).
        if status \<noteq> NLM_OK then Some (status, s3) else finish_slice a sl s3)))"

text \<open>Bisection between a delay whose response corresponds and one whose response does not. The code restores its upper
  bound afterwards, so the lower one is all that changes for the caller.\<close>

partial_function (option) bisect :: "nat \<Rightarrow> u32 \<Rightarrow> u32 \<Rightarrow> u32 \<Rightarrow> u32 \<Rightarrow> leveling \<Rightarrow> (u32 \<times> u32 \<times> leveling) option" where
  "bisect sl resp1 resp2 lo hi s =
     (if 1 < hi - lo then
        let delay = drop_bit 1 (lo + hi) in
        Option.bind (nlm_device_ddr3_get_response sl delay s) (\<lambda>r.
          if corresponds resp1 resp2 (fst r) then bisect sl resp1 resp2 delay hi (snd r) else bisect sl resp1 resp2 lo delay (snd r))
      else Some (lo, hi, s))"

definition which_edge :: "u32 \<Rightarrow> u32 \<Rightarrow> ddr3_leveling_transition" where
  "which_edge resp1 resp2 =
     (if resp1 \<noteq> VAL_X then (if resp1 = 0 then S0X else S1X) else (if resp2 = 0 then SX0 else SX1))"

definition nlm_device_ddr3_trans_edge ::
  "level_array \<Rightarrow> nat \<Rightarrow> u32 \<Rightarrow> u32 \<Rightarrow> u32 \<Rightarrow> u32 \<Rightarrow> u32 \<Rightarrow> leveling \<Rightarrow> (u32 \<times> u32 \<times> leveling) option" where
  "nlm_device_ddr3_trans_edge a sl resp1 resp2 idx lo hi s =
     (if 0 \<le> sint idx then
        assert_then (idx < 4)
          (if which_edge resp1 resp2 = edges s (unat idx) then
             map_option (\<lambda>(lo', hi', s1). (idx + 1, lo', set_last_delay a sl (which_edge resp1 resp2) hi' s1))
               (bisect sl resp1 resp2 lo hi s)
           else Some (idx, lo, s))
      else Some (idx, lo, s))"

text \<open>The loop over the edges. Its index is signed and starts with -1, the number of edges is unsigned and starts with zero; they are
  compared as unsigned numbers.\<close>

partial_function (option) find_loop ::
  "level_array \<Rightarrow> nat \<Rightarrow> u32 \<Rightarrow> u32 \<Rightarrow> u32 \<Rightarrow> u32 \<Rightarrow> u32 \<Rightarrow> leveling \<Rightarrow> (nlm_status \<times> leveling) option" where
  "find_loop a sl idx edges_size reset delay resp1 s =
     (if idx < edges_size then
        Option.bind
          (if reset \<noteq> 0 then map_option (\<lambda>r. (m_min_delay s, r)) (nlm_device_ddr3_get_response sl (m_min_delay s) s)
           else Some (delay, resp1, s)) (\<lambda>st.
          let lo = fst st; resp1 = fst (snd st); s1 = snd (snd st);
              delay = lo + m_step_size s1
          in if m_max_delay s1 < delay \<and> lo = m_max_delay s1 then Some (NLM_DDR3_LEVELING_MAX_DELAY_REACHED, s1)
          else let delay = (if m_max_delay s1 < delay then m_max_delay s1 else delay) in
            Option.bind (nlm_device_ddr3_get_response sl delay s1) (\<lambda>r.
              let resp2 = fst r; s2 = snd r in
              if resp1 \<noteq> resp2 then
                Option.bind
                  (if idx = - 1 then
                     let v = transition_code (which_edge resp1 resp2) in
                     map_option (\<lambda>e. (0, e)) (nlm_device_ddr3_get_edges sl v 0 (set_start_val a sl v s2))
                   else Some (idx, edges_size, 0, s2)) (\<lambda>e.
                  let idx = fst e; edges_size = fst (snd e); reset = fst (snd (snd e)); s3 = snd (snd (snd e)) in
                  if reset = 0 then
                    Option.bind
                      (if resp1 \<noteq> VAL_X \<and> resp2 \<noteq> VAL_X then
                         Option.bind (nlm_device_ddr3_trans_edge a sl resp1 VAL_X idx lo delay s3) (\<lambda>t.
                           nlm_device_ddr3_trans_edge a sl VAL_X resp2 (fst t) (fst (snd t)) delay (snd (snd t)))
                       else nlm_device_ddr3_trans_edge a sl resp1 resp2 idx lo delay s3) (\<lambda>t.
                      find_loop a sl (fst t) edges_size 0 delay resp2 (snd (snd t)))
                  else find_loop a sl idx edges_size reset delay resp1 s3)
              else find_loop a sl idx edges_size 0 delay resp1 s2))
      else Some (NLM_OK, s))"

definition nlm_device_ddr3_find_edge :: "level_array \<Rightarrow> nat \<Rightarrow> leveling \<Rightarrow> (nlm_status \<times> leveling) option" where
  "nlm_device_ddr3_find_edge a sl s =
     Option.bind (find_loop a sl (- 1) 0 1 0 0 (nlm_device_ddr3_init_response sl s)) (\<lambda>(status, s1).
       if status \<noteq> NLM_OK then Some (status, s1) else finish_slice a sl s1)"

text \<open>The mode decides between tuning and finding, not whether the slices have been levelled before; it is never NONE here.\<close>

fun level_each :: "level_array \<Rightarrow> u32 \<Rightarrow> nat list \<Rightarrow> leveling \<Rightarrow> (nlm_status \<times> leveling) option" where
  "level_each a request [] s = Some (NLM_OK, s)"
| "level_each a request (sl # sls) s =
     (if request AND push_bit sl 1 \<noteq> 0 then
        Option.bind (if leveling_type_status s \<noteq> NONE then nlm_device_ddr3_tune_edge a sl s else nlm_device_ddr3_find_edge a sl s)
          (\<lambda>(status, s1). if status \<noteq> NLM_OK then Some (status, s1) else level_each a request sls s1)
      else level_each a request sls s)"

definition nlm_device_ddr3_level_edges :: "level_array \<Rightarrow> u32 \<Rightarrow> leveling \<Rightarrow> (nlm_status \<times> leveling) option" where
  "nlm_device_ddr3_level_edges a request s =
     assert_then (unat (m_max_slice s) \<le> NLM_DDR3_MAX_SLICE) (level_each a request (slices s) s)"

section \<open>Write, gate and read levelling\<close>

text \<open>The status of the search is not looked at.\<close>

definition nlm_device_ddr3_do_level_mc_write :: "u32 \<Rightarrow> leveling \<Rightarrow> leveling option" where
  "nlm_device_ddr3_do_level_mc_write req s =
     (let s1 = set_register_field DDR3_CTL_48 24 8 8 s
      in map_option snd (nlm_device_ddr3_level_edges Wrlvl req
           (s1\<lparr>m_max_delay := if dll_is_macro s1 \<noteq> 0 then 0xc2 else 127\<rparr>)))"

definition nlm_device_ddr3_set_read_delay :: "nat \<Rightarrow> u32 \<Rightarrow> leveling \<Rightarrow> leveling option" where
  "nlm_device_ddr3_set_read_delay sl v s =
     assert_then (v < 8)
       (Some (if drop_bit 24 (m_phy_ctrl_0 s sl) AND 7 \<noteq> v then
                let c = (m_phy_ctrl_0 s sl AND NOT (push_bit 24 7)) OR push_bit 24 (v AND 7)
                in lv_write (DDR3_CTL_81 + word_of_nat sl) c (set_phy_ctrl_0 sl c s)
              else s))"

text \<open>The delays of one slice before the gate is trained; \<open>period\<close> is \<^verbatim>\<open>sim_ps_period\<close>, the round trip takes 3255.\<close>

definition gate_delays :: "u32 \<Rightarrow> u32 \<Rightarrow> nat \<Rightarrow> leveling \<Rightarrow> leveling option" where
  "gate_delays rd_offset rd_data sl s =
     assert_then (m_cs_rank s < NLM_DDR3_MAX_CS \<and> sim_ps_period s \<noteq> 0)
       (let data_delay = m_data_delay s (m_cs_rank s) sl; ctrl_delay = m_ctrl_delay s (m_cs_rank s) sl; period = sim_ps_period s;
            rd_dly = rd_offset + rd_data + (3255 + data_delay + ctrl_delay + period - 1) div period
        in assert_then (m_in_preamble s = 0 \<or> drop_bit 1 period \<noteq> 0)
          (let delta = (if m_in_preamble s = 0 then 5
                 else if m_is_gatesim s \<noteq> 0
                 then (push_bit 1 data_delay + drop_bit 2 period + drop_bit 3 period) div drop_bit 1 period
                 else (push_bit 1 data_delay + drop_bit 2 period) div drop_bit 1 period)
               + (if m_is_gatesim s \<noteq> 0 then 1 else 2)
           in Option.bind (nlm_device_ddr3_set_read_delay sl rd_dly s) (\<lambda>s1.
              map_option (\<lambda>s2. if odd delta then snd (nlm_device_ddr3_incr_half_cycle_delay sl s2) else s2)
                (nlm_device_ddr3_set_full_cycle_delay sl (rd_data + signed_drop_bit 1 delta) s1))))"

definition nlm_device_ddr3_do_level_mc_gate :: "u32 \<Rightarrow> leveling \<Rightarrow> leveling option" where
  "nlm_device_ddr3_do_level_mc_gate req s =
     (let s1 = set_register_field DDR3_CTL_26 16 5 7 (set_register_field DDR3_CTL_27 16 5 0
                 (set_register_field DDR3_CTL_47 24 8 18 (set_register_field DDR3_CTL_48 0 8 0x10 s)));
          s2 = s1\<lparr>m_max_delay := 127\<rparr>;
          (rd_offset, rd_data, s3) =
            (if m_gtlvl_is_leveled s2 = 0 then
               let (rd_data, s3) = get_register_field DDR3_CTL_27 16 5 s2;
                   (caslat, s4) = get_register_field DDR3_CTL_25 8 5 s3
               in (drop_bit 2 caslat + (if m_fast s4 \<noteq> 0 then 0 else 1), rd_data, s4)
             else (0, 0, s2))
      in assert_then (unat (m_max_slice s3) \<le> NLM_DDR3_MAX_SLICE)
        (Option.bind
          (foldM (\<lambda>sl s. if req AND push_bit sl 1 = 0 then Some s
                   else if m_gtlvl_is_leveled s = 0 then gate_delays rd_offset rd_data sl s
                   else Some (snd (nlm_device_ddr3_incr_half_cycle_delay sl s)))
            (slices s3) s3) (\<lambda>s4.
         map_option snd (nlm_device_ddr3_level_edges Gtlvl req s4))))"

definition read_edge :: "u32 \<Rightarrow> nat \<Rightarrow> leveling \<Rightarrow> leveling option" where
  "read_edge req pn_edge s =
     (let s1 = set_register_field DDR3_CTL_06 24 1 (word_of_nat pn_edge) s
      in map_option snd (nlm_device_ddr3_level_edges (Rdlvl pn_edge) req (s1\<lparr>lv_shift := 8 * word_of_nat pn_edge\<rparr>)))"

definition nlm_device_ddr3_do_level_mc_read :: "u32 \<Rightarrow> leveling \<Rightarrow> leveling option" where
  "nlm_device_ddr3_do_level_mc_read req s =
     (let s1 = set_register_field DDR3_CTL_47 24 8 18 (set_register_field DDR3_CTL_48 0 8 0x10 s)
      in assert_then (sim_ps_period s1 \<noteq> 0)
        (foldM (read_edge req) [1, 0]
          (s1\<lparr>m_max_delay := 127, tdqsq_delay := (125 * (m_dll_ctrl_0 s1 0 AND 255)) div sim_ps_period s1\<rparr>)))"

text \<open>The loops for the rank only set variables of the function: the number of slices and their mask are all that is kept.\<close>

definition nlm_device_ddr3_init_leveling :: "leveling \<Rightarrow> leveling" where
  "nlm_device_ddr3_init_leveling s = s\<lparr>m_max_slice := 9, m_valid := push_bit 9 1 - 1\<rparr>"

definition start_leveling :: "leveling \<Rightarrow> leveling" where
  "start_leveling s =
     (let s1 = (if m_max_slice s = 0 then nlm_device_ddr3_init_leveling s else s)
      in s1\<lparr>m_step_size := 8, m_jitter_range := 1, m_retry_count := 5, m_save_responses := 1\<rparr>)"

text \<open>Every valid slice by itself, between the start and the end of levelling.\<close>

definition level_slices :: "(u32 \<Rightarrow> leveling \<Rightarrow> leveling option) \<Rightarrow> leveling \<Rightarrow> leveling option" where
  "level_slices do_level s =
     Option.bind (nlm_device_ddr3_sw_lvl_start s) (\<lambda>s1.
     Option.bind (foldM (\<lambda>sl s. if drop_bit sl (m_valid s) AND 1 \<noteq> 0 then do_level (push_bit sl 1) s else Some s) (slices s1) s1)
       nlm_device_ddr3_sw_lvl_exit)"

definition swhw_enable :: "u32 \<Rightarrow> u32 \<Rightarrow> u32" where
  "swhw_enable swhw is_leveled = (if swhw = 1 \<and> is_leveled = 0 then 0 else swhw)"

definition nlm_device_ddr3_do_leveling_write :: "leveling \<Rightarrow> leveling option" where
  "nlm_device_ddr3_do_leveling_write s =
     (let dfi_swhw = (if m_wrlvl_swhw s = - 1 then 0 else m_wrlvl_swhw s);
          s1 = s\<lparr>leveling_type_status := WRITE, m_wrlvl_swhw := dfi_swhw\<rparr>;
          s2 = start_leveling (set_register_field DDR3_CTL_24 0 4 (swhw_enable dfi_swhw (m_wrlvl_is_leveled s1)) s1);
          s3 = set_register_field DDR3_CTL_13 16 1 (m_cs_rank s2) s2
      in map_option (\<lambda>s4. s4\<lparr>m_wrlvl_is_leveled := 1\<rparr>) (level_slices nlm_device_ddr3_do_level_mc_write s3))"

definition nlm_device_ddr3_do_leveling_gate :: "leveling \<Rightarrow> leveling option" where
  "nlm_device_ddr3_do_leveling_gate s =
     (let dfi_swhw = (if m_gtlvl_swhw s = - 1 then 0 else m_gtlvl_swhw s);
          s1 = s\<lparr>leveling_type_status := GATE, m_gtlvl_swhw := dfi_swhw\<rparr>;
          s2 = start_leveling (set_register_field DDR3_CTL_07 8 1 (swhw_enable dfi_swhw (m_gtlvl_is_leveled s1)) s1);
          s3 = set_register_field DDR3_CTL_06 16 1 (m_cs_rank s2) s2
      in map_option (\<lambda>s4. s4\<lparr>m_gtlvl_is_leveled := 1\<rparr>) (level_slices nlm_device_ddr3_do_level_mc_gate s3))"

definition nlm_device_ddr3_do_leveling_read :: "leveling \<Rightarrow> leveling option" where
  "nlm_device_ddr3_do_leveling_read s =
     (let dfi_swhw = (if m_rdlvl_swhw s = - 1 then 0 else m_rdlvl_swhw s);
          s1 = s\<lparr>leveling_type_status := READ, m_rdlvl_swhw := dfi_swhw\<rparr>;
          s2 = start_leveling (set_register_field DDR3_CTL_07 0 1 (swhw_enable dfi_swhw (m_rdlvl_is_leveled s1)) s1);
          s3 = set_register_field DDR3_CTL_06 16 1 (m_cs_rank s2) s2
      in map_option (\<lambda>s4. s4\<lparr>m_rdlvl_is_leveled := 1\<rparr>) (level_slices nlm_device_ddr3_do_level_mc_read s3))"

definition nlm_device_ddr3_train :: "leveling \<Rightarrow> (nlm_status \<times> leveling) option" where
  "nlm_device_ddr3_train s =
     map_option (Pair NLM_OK)
       (Option.bind (nlm_device_ddr3_do_leveling_write s) (\<lambda>s1.
        Option.bind (nlm_device_ddr3_do_leveling_gate s1) nlm_device_ddr3_do_leveling_read))"

end
