(* ===== verification/Ddr_Edges.thy ===== *)
theory Ddr_Edges
  imports Ddr_Level
begin

unbundle bit_operations_syntax

text \<open>
  What levelling does (\<open>Ddr_Level\<close>): asking for a response changes only the bookkeeping of the responses and the
  registers (\<open>core\<close>); from there, tuning and bisection stop next to an edge between recorded responses. The steps by half
  cycles, and what the levelling of the read delays cannot find.
\<close>

section \<open>Half cycles\<close>

definition half_cycles :: "nat \<Rightarrow> leveling \<Rightarrow> nat" where
  "half_cycles sl s = 2 * unat (m_phy_ctrl_1 s sl AND 7) + (if bit (m_phy_ctrl_0 s sl) 16 then 1 else 0)"

lemma low_bits: "unat (v AND 7) = unat v mod 8" for v :: u32
proof -
  have "v AND 7 = take_bit 3 v" by (simp add: take_bit_eq_mask mask_eq_exp_minus_1)
  then have "v AND 7 = v mod 8" by (simp add: take_bit_eq_mod)
  then show ?thesis by (simp add: unat_mod)
qed

lemma low_bits_numeral: "v AND 7 = 7 \<longleftrightarrow> unat v mod 8 = 7" "v AND 7 = 0 \<longleftrightarrow> unat v mod 8 = 0" for v :: u32
  by (simp_all add: word_unat_eq_iff low_bits)

lemma mod_8_pred: "n mod 8 \<noteq> 0 \<Longrightarrow> (n - 1) mod 8 = n mod 8 - 1" for n :: nat
  by (cases n) (auto simp: mod_Suc split: if_splits)

lemma low_bits_step:
  "v AND 7 \<noteq> 7 \<Longrightarrow> unat ((v + 1) AND 7) = unat (v AND 7) + 1"
  "v AND 7 \<noteq> 0 \<Longrightarrow> unat ((v - 1) AND 7) = unat (v AND 7) - 1" for v :: u32
proof -
  assume "v AND 7 \<noteq> 7"
  then have "unat v mod 8 \<noteq> 7" by (simp add: low_bits_numeral)
  moreover have "unat (v + 1) mod 8 = (unat v + 1) mod 8" unfolding unat_word_ariths by (simp add: mod_mod_cancel)
  ultimately show "unat ((v + 1) AND 7) = unat (v AND 7) + 1" unfolding low_bits by (simp add: mod_Suc)
next
  assume "v AND 7 \<noteq> 0"
  then have n: "unat v mod 8 \<noteq> 0" by (simp add: low_bits_numeral)
  then have "v \<noteq> 0" by auto
  then have "unat (v - 1) = unat v - 1" by (simp add: unat_minus_one)
  then show "unat ((v - 1) AND 7) = unat (v AND 7) - 1" unfolding low_bits using mod_8_pred [OF n] by simp
qed

lemma half_cycle_bit:
  "v AND push_bit 16 1 = 0 \<longleftrightarrow> \<not> bit v 16" "v AND push_bit 16 1 \<noteq> 1"
  "bit (v OR push_bit 16 1) 16" "\<not> bit (v AND NOT (push_bit 16 1)) 16" for v :: u32
proof -
  show "v AND push_bit 16 1 = 0 \<longleftrightarrow> \<not> bit v 16" by (simp add: bit_iff_and_push_bit_not_eq_0)
  have "\<not> bit (v AND push_bit 16 1) 0" "bit (1 :: u32) 0" by (simp_all add: bit_simps)
  then show "v AND push_bit 16 1 \<noteq> 1" by metis
qed (simp_all add: bit_simps)

lemmas half_cycle_numeral = half_cycle_bit [simplified]

lemma init_response_simps [simp]:
  "m_phy_ctrl_0 (nlm_device_ddr3_init_response sl s) = m_phy_ctrl_0 s" "m_phy_ctrl_1 (nlm_device_ddr3_init_response sl s) = m_phy_ctrl_1 s"
  by (simp_all add: nlm_device_ddr3_init_response_def)

lemma full_cycle_steps:
  "nlm_device_ddr3_incr_full_cycle_delay sl s =
     (if m_phy_ctrl_1 s sl AND 7 = 7 then (NLM_DDR3_DELAY_CHANGE_FAIL, nlm_device_ddr3_init_response sl s)
      else (NLM_OK, set_phy_ctrl_1 sl (m_phy_ctrl_1 s sl + 1) (nlm_device_ddr3_init_response sl s)))"
  "nlm_device_ddr3_decr_full_cycle_delay sl s =
     (if m_phy_ctrl_1 s sl AND 7 = 0 then (NLM_DDR3_DELAY_CHANGE_FAIL, nlm_device_ddr3_init_response sl s)
      else (NLM_OK, set_phy_ctrl_1 sl (m_phy_ctrl_1 s sl - 1) (nlm_device_ddr3_init_response sl s)))"
  by (simp_all add: nlm_device_ddr3_incr_full_cycle_delay_def nlm_device_ddr3_decr_full_cycle_delay_def Let_def)

lemma phy_ctrl_simps [simp]:
  "m_phy_ctrl_0 (set_phy_ctrl_0 sl v s) = (m_phy_ctrl_0 s)(sl := v)" "m_phy_ctrl_1 (set_phy_ctrl_0 sl v s) = m_phy_ctrl_1 s"
  "m_phy_ctrl_0 (set_phy_ctrl_1 sl v s) = m_phy_ctrl_0 s" "m_phy_ctrl_1 (set_phy_ctrl_1 sl v s) = (m_phy_ctrl_1 s)(sl := v)"
  "fst (store_half_cycle sl r) = fst r" "m_phy_ctrl_0 (snd (store_half_cycle sl r)) = m_phy_ctrl_0 (snd r)"
  "m_phy_ctrl_1 (snd (store_half_cycle sl r)) = m_phy_ctrl_1 (snd r)"
  by (simp_all add: set_phy_ctrl_0_def set_phy_ctrl_1_def lv_write_def store_half_cycle_def Let_def split: prod.splits)

text \<open>Adding half a cycle to the delay of the gate adds exactly one half cycle, up to 15. Removing half a cycle removes one only when
  the delay is a whole number of cycles; otherwise it removes two, because the test of the half cycle bit can never be true.\<close>

theorem half_cycle_steps:
  "(let (status, s') = nlm_device_ddr3_incr_half_cycle_delay sl s in
      if half_cycles sl s < 15 then status = NLM_OK \<and> half_cycles sl s' = half_cycles sl s + 1
      else status = NLM_DDR3_DELAY_CHANGE_FAIL) \<and>
   (let (status, s') = nlm_device_ddr3_decr_half_cycle_delay sl s in
      if half_cycles sl s < 2 then status = NLM_DDR3_DELAY_CHANGE_FAIL
      else status = NLM_OK \<and> half_cycles sl s' = half_cycles sl s - (if even (half_cycles sl s) then 1 else 2))"
  (is "?incr \<and> ?decr")
proof -
  let ?v = "m_phy_ctrl_1 s sl"
  have l: "unat (?v AND 7) \<le> 7" "?v AND 7 = 7 \<longleftrightarrow> unat (?v AND 7) = 7" "?v AND 7 = 0 \<longleftrightarrow> unat (?v AND 7) = 0"
    using low_bits [of ?v] low_bits_numeral [of ?v] by (simp_all add: less_Suc_eq_le [symmetric])
  have ?incr
    using l low_bits_step(1) [of ?v]
    by (auto simp: nlm_device_ddr3_incr_half_cycle_delay_def half_cycles_def half_cycle_numeral full_cycle_steps Let_def split_beta)
  moreover have ?decr
    using l low_bits_step(2) [of ?v]
    by (auto simp: nlm_device_ddr3_decr_half_cycle_delay_def half_cycles_def half_cycle_numeral full_cycle_steps Let_def split_beta)
  ultimately show ?thesis by blast
qed

section \<open>What asking for a response changes\<close>

text \<open>The state without the requests, the responses, the delays and the accesses.\<close>

definition core :: "leveling \<Rightarrow> leveling" where
  "core s = s\<lparr>m_request := \<lambda>_. 0, m_resp := \<lambda>_. 0, m_response := \<lambda>_ _. 0, m_delay := \<lambda>_. 0, m_dll_ctrl_0 := \<lambda>_. 0,
     lv_hw := (lv_hw s)\<lparr>trace := []\<rparr>\<rparr>"

text \<open>Setting delays and reading responses: nothing is saved yet.\<close>

definition calm :: "leveling \<Rightarrow> leveling \<Rightarrow> bool" where
  "calm s s' \<longleftrightarrow> core s' = core s \<and> m_response s' = m_response s"

text \<open>The controller finishes every operation at once; the slices fit, the responses are saved and not compared with others.\<close>

definition ready :: "leveling \<Rightarrow> bool" where
  "ready s \<longleftrightarrow> (\<forall>tr. bit (answer (lv_hw s) tr DDR3_CTL_12) 0) \<and> leveling_type_status s \<noteq> NONE \<and>
     unat (m_max_slice s) \<le> NLM_DDR3_MAX_SLICE \<and> m_save_responses s \<noteq> 0 \<and> m_jitter_range s \<le> 1 \<and>
     m_max_delay s < NLM_DDR3_MAX_DLL_DELAY"

lemma ready_core: "core s' = core s \<Longrightarrow> ready s' = ready s"
proof -
  have "ready (core s) = ready s" for s by (simp add: ready_def core_def)
  then show "core s' = core s \<Longrightarrow> ready s' = ready s" by metis
qed

lemma core_fields:
  assumes "core s' = core s"
  shows "m_min_delay s' = m_min_delay s" "m_max_delay s' = m_max_delay s" "m_save_responses s' = m_save_responses s"
    "m_jitter_range s' = m_jitter_range s" "leveling_type_status s' = leveling_type_status s" "m_max_slice s' = m_max_slice s"
    "edges s' = edges s" "last_delay a sl t s' = last_delay a sl t s" "start_val a sl s' = start_val a sl s"
    "answer (lv_hw s') = answer (lv_hw s)" "m_retry_count s' = m_retry_count s"
proof -
  have c: "m_min_delay (core s) = m_min_delay s" "m_max_delay (core s) = m_max_delay s" "m_save_responses (core s) = m_save_responses s"
    "m_jitter_range (core s) = m_jitter_range s" "leveling_type_status (core s) = leveling_type_status s" "m_max_slice (core s) = m_max_slice s"
    "edges (core s) = edges s" "last_delay a sl t (core s) = last_delay a sl t s" "start_val a sl (core s) = start_val a sl s"
    "answer (lv_hw (core s)) = answer (lv_hw s)" "m_retry_count (core s) = m_retry_count s" for s
    by (simp_all add: core_def) (cases a; simp)+
  show "m_min_delay s' = m_min_delay s" "m_max_delay s' = m_max_delay s" "m_save_responses s' = m_save_responses s"
    "m_jitter_range s' = m_jitter_range s" "leveling_type_status s' = leveling_type_status s" "m_max_slice s' = m_max_slice s"
    "edges s' = edges s" "last_delay a sl t s' = last_delay a sl t s" "start_val a sl s' = start_val a sl s"
    "answer (lv_hw s') = answer (lv_hw s)" "m_retry_count s' = m_retry_count s"
    using assms c by metis+
qed

lemma calm_refl: "calm s s" by (simp add: calm_def)

lemma calm_trans: "calm s s' \<Longrightarrow> calm s' s'' \<Longrightarrow> calm s s''" by (simp add: calm_def)

lemma calm_hw:
  "answer h = answer (lv_hw s) \<Longrightarrow> calm s (s\<lparr>lv_hw := h\<rparr>)"
  by (simp add: calm_def core_def)

lemma calm_lv: "calm s (lv_write reg v s)" "calm s (snd (lv_read reg s))"
  by (simp_all add: lv_write_def lv_read_def HW_REGISTER_def SET_HW_REGISTER_def Let_def calm_hw)

lemma calm_updates:
  "calm s (s\<lparr>m_request := f\<rparr>)" "calm s (s\<lparr>m_resp := g\<rparr>)" "calm s (s\<lparr>m_delay := d\<rparr>)" "calm s (s\<lparr>m_dll_ctrl_0 := c\<rparr>)"
  by (simp_all add: calm_def core_def)

lemma calm_ready: "calm s s' \<Longrightarrow> ready s \<Longrightarrow> ready s'"
  unfolding calm_def using ready_core by blast

lemma op_done_ready: "ready s \<Longrightarrow> \<exists>s'. nlm_device_ddr3_wait_op_done s = Some s' \<and> calm s s'"
  unfolding nlm_device_ddr3_wait_op_done_def DDR3_OP_TIMEOUT_def
  by (subst op_done.simps(2) [of "65534", simplified])
    (simp add: lv_read_def HW_REGISTER_def Let_def ready_def calm_hw)

lemma sw_lvl_load_ready:
  assumes "ready s"
  shows "\<exists>s'. nlm_device_ddr3_sw_lvl_load s = Some s' \<and> calm s s'"
proof -
  obtain v s1 where v: "lv_read DDR3_CTL_12 s = (v, s1)" by fastforce
  let ?s2 = "lv_write DDR3_CTL_12 (set_bit 24 v) s1"
  have c: "calm s ?s2" using calm_lv(1) [of s1] calm_lv(2) [of s DDR3_CTL_12] v calm_trans by fastforce
  obtain s' where s': "nlm_device_ddr3_wait_op_done ?s2 = Some s'" "calm ?s2 s'" using op_done_ready calm_ready [OF c assms] by blast
  then show ?thesis using calm_trans [OF c] by (auto simp: nlm_device_ddr3_sw_lvl_load_def v)
qed

lemma calm_steps:
  assumes "\<And>k s. ready s \<Longrightarrow> \<exists>s'. f k s = Some s' \<and> calm s s'" and "ready s"
  shows "\<exists>s'. foldM f ks s = Some s' \<and> calm s s'"
  using assms(2)
proof (induction ks arbitrary: s)
  case (Cons k ks)
  obtain s1 where s1: "f k s = Some s1" "calm s s1" using assms(1) Cons.prems by blast
  then obtain s' where "foldM f ks s1 = Some s'" "calm s1 s'" using Cons.IH calm_ready Cons.prems by blast
  then show ?case using s1 calm_trans by (auto simp: calm_refl)
qed (simp add: calm_refl)

lemma load_delay_ready: "ready s \<Longrightarrow> \<exists>s'. load_delay sl s = Some s' \<and> calm s s'"
proof -
  have f: "calm s (load_delay_field reg keep shift_val delay s)" for reg keep shift_val delay
    by (simp add: load_delay_field_def Let_def split_beta calm_trans [OF calm_lv(2) calm_lv(1)])
  have w: "calm s (nlm_device_ddr3_load_delay_write sl delay s)" for delay
  proof -
    obtain v s1 where v: "lv_read (DDR3_CTL_236 + word_of_nat ((sl + 1) div 2) * 4) s = (v, s1)" by fastforce
    then have c: "calm s s1" using calm_lv(2) by (metis snd_conv)
    show ?thesis unfolding nlm_device_ddr3_load_delay_write_def v Let_def prod.case
      by (rule calm_trans [OF calm_trans [OF calm_trans [OF c calm_lv(1)] calm_updates(4)] calm_lv(1)])
  qed
  show "ready s \<Longrightarrow> \<exists>s'. load_delay sl s = Some s' \<and> calm s s'"
    using f w by (cases "leveling_type_status s") (auto simp: load_delay_def ready_def Let_def)
qed

lemma send_slice_ready: "ready s \<Longrightarrow> \<exists>s'. send_slice sl s = Some s' \<and> calm s s'"
  using load_delay_ready by (simp add: send_slice_def calm_refl)

lemma receive_calm: "calm s (receive_slice sl s)"
  using calm_refl calm_trans [OF calm_lv(2) calm_updates(2)] by (simp add: receive_slice_def Let_def split_beta)

lemma receives_calm: "calm s (fold receive_slice ks s)"
proof (induction ks arbitrary: s)
  case (Cons k ks)
  then show ?case using receive_calm calm_trans by (simp only: fold_simps) blast
qed (simp add: calm_refl)

lemma send_receive_ready:
  assumes "ready s"
  shows "\<exists>s'. nlm_device_ddr3_serial_send_receive s = Some s' \<and> calm s s'"
proof -
  obtain s1 where s1: "foldM send_slice (slices s) s = Some s1" "calm s s1"
    using calm_steps [of send_slice, OF send_slice_ready assms] by blast
  obtain s2 where s2: "(if \<exists>sl \<in> set (slices s). m_request s sl \<noteq> TERMREQ then nlm_device_ddr3_sw_lvl_load s1 else Some s1) = Some s2"
    "calm s1 s2" using sw_lvl_load_ready [OF calm_ready [OF s1(2) assms]] calm_refl [of s1]
    by (cases "\<exists>sl \<in> set (slices s). m_request s sl \<noteq> TERMREQ") (simp only: if_True if_False; blast)+
  have "unat (m_max_slice s) \<le> NLM_DDR3_MAX_SLICE" using assms by (simp add: ready_def)
  then have "nlm_device_ddr3_serial_send_receive s = Some (fold receive_slice (slices s) s2)"
    unfolding nlm_device_ddr3_serial_send_receive_def s1(1) bind.bind_lunit s2(1) by simp
  then show ?thesis using calm_trans [OF calm_trans [OF s1(2) s2(2)] receives_calm] by blast
qed

lemma retry_ready: "ready s \<Longrightarrow> \<exists>r s'. retry n sl resp s = Some (r, s') \<and> calm s s'"
proof (induction n arbitrary: resp s)
  case (Suc n)
  obtain s1 where s1: "nlm_device_ddr3_serial_send_receive s = Some s1" "calm s s1" using send_receive_ready Suc.prems by blast
  let ?s2 = "s1\<lparr>m_request := (m_request s1)(sl := GETREQ)\<rparr>"
  let ?s3 = "?s2\<lparr>m_resp := (m_resp ?s2)(sl := VAL_X)\<rparr>"
  have c2: "calm s ?s2" using calm_trans [OF s1(2) calm_updates(1)] .
  have c3: "calm s ?s3" using calm_trans [OF c2 calm_updates(2)] .
  have "\<exists>r s'. retry n sl x ?s2 = Some (r, s') \<and> calm s s'" for x using Suc.IH [OF calm_ready [OF c2 Suc.prems]] calm_trans [OF c2] by blast
  moreover have "\<exists>r s'. retry n sl x ?s3 = Some (r, s') \<and> calm s s'" for x using Suc.IH [OF calm_ready [OF c3 Suc.prems]] calm_trans [OF c3] by blast
  ultimately show ?case using s1(1) by (simp add: calm_refl Let_def)
qed (simp add: calm_refl)

text \<open>A response for a delay in the range, which is then recorded.\<close>

lemma core_response: "core (s\<lparr>m_response := f\<rparr>) = core s" by (simp add: core_def)

lemma get_request_ready:
  assumes "ready s" and "m_min_delay s \<le> d" "d \<le> m_max_delay s"
  shows "\<exists>r s'. nlm_device_ddr3_get_request sl d s = Some (r, s') \<and> core s' = core s \<and>
    (m_response s' = m_response s \<or> m_response s' = (m_response s)(sl := (m_response s sl)(d := r)))"
proof -
  have d: "d < NLM_DDR3_MAX_DLL_DELAY" "m_save_responses s \<noteq> 0" using assms by (auto simp: ready_def)
  let ?s1 = "s\<lparr>m_request := (m_request s)(sl := SETGETREQ), m_delay := (m_delay s)(sl := d)\<rparr>"
  have c: "calm s ?s1" using calm_trans [OF calm_updates(1) calm_updates(3)] .
  obtain r s2 where r: "retry (unat (m_retry_count s)) sl VAL_Z ?s1 = Some (r, s2)" "calm s s2"
    using retry_ready [OF calm_ready [OF c assms(1)]] calm_trans [OF c] by blast
  then have s2: "core s2 = core s" "m_response s2 = m_response s" by (simp_all add: calm_def)
  have "save_response sl d r s2 = Some (s2\<lparr>m_response := (m_response s2)(sl := (m_response s2 sl)(d := r))\<rparr>)"
    using d core_fields(3) [OF s2(1)] by (simp add: save_response_def)
  then show ?thesis using assms(2,3) d r(1) s2 by (simp add: nlm_device_ddr3_get_request_def core_response)
qed

lemma get_response_ready:
  assumes "ready s" and "m_min_delay s \<le> d" "d \<le> m_max_delay s"
  obtains r s' where "nlm_device_ddr3_get_response sl d s = Some (r, s')" "core s' = core s"
    "m_response s' = (m_response s)(sl := (m_response s sl)(d := r))"
proof -
  obtain r s1 where r: "nlm_device_ddr3_get_request sl d s = Some (r, s1)" "core s1 = core s"
    "m_response s1 = m_response s \<or> m_response s1 = (m_response s)(sl := (m_response s sl)(d := r))"
    using get_request_ready [OF assms] by blast
  have j: "\<not> 1 < m_jitter_range s1" "m_save_responses s1 \<noteq> 0" "d < NLM_DDR3_MAX_DLL_DELAY"
    using assms core_fields(3,4) [OF r(2)] by (auto simp: ready_def)
  show ?thesis
    by (rule that [of r "s1\<lparr>m_response := (m_response s1)(sl := (m_response s1 sl)(d := r))\<rparr>"])
      (use j r in \<open>auto simp: nlm_device_ddr3_get_response_def save_response_def core_response\<close>)
qed

section \<open>Tuning an edge\<close>

lemma word_succ: "a < b \<Longrightarrow> uint (a + 1) = uint a + 1" for a b :: u32
  using uint_lt2p [of b] uint_ge_0 [of a] by (simp add: word_less_def uint_word_ariths mod_pos_pos_trivial)

lemma word_pred: "a < b \<Longrightarrow> uint (b - 1) = uint b - 1" for a b :: u32
proof -
  assume "a < b"
  then have "1 \<le> uint b" using uint_ge_0 [of a] unfolding word_less_def by linarith
  then show ?thesis using uint_lt2p [of b] by (simp add: uint_word_ariths mod_pos_pos_trivial)
qed

text \<open>The responses of a slice that have been recorded.\<close>

definition recorded :: "nat \<Rightarrow> leveling \<Rightarrow> u32 \<Rightarrow> u32" where "recorded sl s = m_response s sl"

definition same_below :: "u32 \<Rightarrow> (u32 \<Rightarrow> u32) \<Rightarrow> (u32 \<Rightarrow> u32) \<Rightarrow> bool" where
  "same_below d f g \<longleftrightarrow> (\<forall>e \<le> d. g e = f e)"

text \<open>The states reached by asking for responses of a slice inside of the range.\<close>

inductive asks :: "nat \<Rightarrow> leveling \<Rightarrow> leveling \<Rightarrow> bool" for sl where
  stop: "asks sl s s"
| ask: "nlm_device_ddr3_get_response sl d s = Some (r, s1) \<Longrightarrow> m_min_delay s \<le> d \<Longrightarrow> d \<le> m_max_delay s \<Longrightarrow> asks sl s1 s2 \<Longrightarrow> asks sl s s2"

lemma seek_up_finds:
  assumes "ready s" and "m_min_delay s \<le> d" "d \<le> m_max_delay s" and "recorded sl s d = resp"
  shows "\<exists>r s'. seek_up sl r1 r2 resp d s = Some (r, s') \<and> core s' = core s \<and> asks sl s s' \<and> same_below d (recorded sl s) (recorded sl s') \<and>
    (case r of
       None \<Rightarrow> \<forall>e. d \<le> e \<and> e \<le> m_max_delay s \<longrightarrow> corresponds r1 r2 (recorded sl s' e)
     | Some x \<Rightarrow> d \<le> x \<and> x \<le> m_max_delay s \<and> \<not> corresponds r1 r2 (recorded sl s' x) \<and>
         (\<forall>e. d \<le> e \<and> e < x \<longrightarrow> corresponds r1 r2 (recorded sl s' e)))"
  using assms
proof (induction "nat (uint (m_max_delay s) - uint d)" arbitrary: d resp s)
  case (0 d s resp)
  have "m_max_delay s \<le> d" using 0(1) by (simp add: word_le_def)
  then have d: "d = m_max_delay s" using 0(4) by (rule order_antisym [rotated])
  have "d < NLM_DDR3_MAX_DLL_DELAY" using 0(2) by (simp add: ready_def d)
  then have "m_max_delay s < d + 1" using word_succ [of d] d by (simp add: word_less_def)
  then show ?case using 0(5) d by (subst seek_up.simps) (auto simp: same_below_def asks.stop)
next
  case (Suc n d s resp)
  show ?case
  proof (cases "corresponds r1 r2 resp")
    case False
    then show ?thesis using Suc.prems by (subst seek_up.simps) (auto simp: same_below_def asks.stop)
  next
    case True
    have lt: "d < m_max_delay s" using Suc.hyps(2) by (simp add: word_less_def)
    have s1: "uint (d + 1) = uint d + 1" by (rule word_succ [OF lt])
    have r: "m_min_delay s \<le> d + 1" "d + 1 \<le> m_max_delay s" using lt Suc.prems(2) s1 by (simp_all add: word_le_def word_less_def)
    obtain x s1 where x: "nlm_device_ddr3_get_response sl (d + 1) s = Some (x, s1)" "core s1 = core s"
      "m_response s1 = (m_response s)(sl := (m_response s sl)(d + 1 := x))" by (rule get_response_ready [OF Suc.prems(1) r])
    note f = core_fields(1,2) [OF x(2)]
    have rec: "recorded sl s1 (d + 1) = x" "\<And>e. e \<le> d \<Longrightarrow> recorded sl s1 e = recorded sl s e"
      using x(3) s1 by (auto simp: recorded_def word_le_def)
    have "n = nat (uint (m_max_delay s1) - uint (d + 1))" using Suc.hyps(2) s1 f by simp
    from Suc.hyps(1) [OF this, of x] obtain r s' where r': "seek_up sl r1 r2 x (d + 1) s1 = Some (r, s')" "core s' = core s1"
      "asks sl s1 s'" "same_below (d + 1) (recorded sl s1) (recorded sl s')"
      "case r of None \<Rightarrow> \<forall>e. d + 1 \<le> e \<and> e \<le> m_max_delay s1 \<longrightarrow> corresponds r1 r2 (recorded sl s' e)
       | Some y \<Rightarrow> d + 1 \<le> y \<and> y \<le> m_max_delay s1 \<and> \<not> corresponds r1 r2 (recorded sl s' y) \<and>
           (\<forall>e. d + 1 \<le> e \<and> e < y \<longrightarrow> corresponds r1 r2 (recorded sl s' e))"
      using ready_core [OF x(2)] Suc.prems(1) r f rec(1) by auto
    have le: "d \<le> d + 1" "\<And>e. d \<le> e \<Longrightarrow> e \<noteq> d \<Longrightarrow> d + 1 \<le> e"
      using s1 by (auto simp: word_le_def word_uint_eq_iff)
    have below: "recorded sl s' e = recorded sl s e" if "e \<le> d" for e
      using r'(4) rec(2) that le(1) by (fastforce simp: same_below_def)
    have here: "corresponds r1 r2 (recorded sl s' d)" using below [of d] True Suc.prems(4) by simp
    have "seek_up sl r1 r2 resp d s = Some (r, s')"
      using True x(1) r'(1) by (subst seek_up.simps) (simp add: leD [OF r(2)])
    moreover have "asks sl s s'" by (rule asks.ask [OF x(1) r r'(3)])
    moreover have "same_below d (recorded sl s) (recorded sl s')" using below by (simp add: same_below_def)
    ultimately show ?thesis using r'(2,5) x(2) here le f by (fastforce split: option.splits)
  qed
qed

text \<open>Nothing in the code sets the smallest delay: it is zero. No response can be asked for below it.\<close>

lemma response_below_zero:
  assumes "ready s" and "m_min_delay s = 0" shows "nlm_device_ddr3_get_response sl (- 1) s = None"
proof -
  have m: "m_max_delay s < NLM_DDR3_MAX_DLL_DELAY" "m_save_responses s \<noteq> 0" "\<not> 1 < m_jitter_range s"
    using assms(1) by (auto simp: ready_def)
  have n: "\<not> (- 1 :: u32) < NLM_DDR3_MAX_DLL_DELAY"
    by (simp add: word_less_def NLM_DDR3_MAX_DLL_DELAY_def unsigned_minus_1_eq_mask mask_eq_exp_minus_1)
  then have "\<not> (- 1 :: u32) \<le> m_max_delay s" using m(1) le_less_trans by blast
  then show ?thesis
    using m n by (simp add: nlm_device_ddr3_get_response_def nlm_device_ddr3_get_request_def save_response_def assms(2) assert_then_def)
qed

lemma seek_down_finds:
  assumes "ready s" and "m_min_delay s = 0" "d \<le> m_max_delay s" and "\<not> corresponds r1 r2 (recorded sl s d)"
  shows "\<exists>u. asks sl s u \<and> core u = core s \<and> (\<forall>e \<ge> d. recorded sl u e = recorded sl s e) \<and>
    (seek_down sl r1 r2 d s = None \<and> (\<forall>e \<le> d. \<not> corresponds r1 r2 (recorded sl u e)) \<or>
     (\<exists>x. seek_down sl r1 r2 d s = Some (x, u) \<and> 0 < x \<and> x \<le> d \<and> corresponds r1 r2 (recorded sl u (x - 1)) \<and>
       (\<forall>e. x \<le> e \<and> e \<le> d \<longrightarrow> \<not> corresponds r1 r2 (recorded sl u e))))"
  using assms
proof (induction "unat d" arbitrary: d s)
  case (0 d s)
  then have d: "d = 0" by (simp add: unat_eq_0)
  have "seek_down sl r1 r2 0 s = None"
    using response_below_zero [OF 0(2,3), of sl] 0(3) by (subst seek_down.simps) simp
  then show ?case using 0(5) asks.stop unfolding d by auto
next
  case (Suc n d s)
  have "0 < d" using Suc.hyps(2) by (simp add: word_less_nat_alt)
  then have p: "uint (d - 1) = uint d - 1" by (rule word_pred)
  have "0 < uint d" using \<open>0 < d\<close> by (simp add: word_less_def)
  then have r: "m_min_delay s \<le> d - 1" "d - 1 \<le> m_max_delay s" using Suc.prems(2,3) p by (simp_all add: word_le_def)
  obtain x s1 where x: "nlm_device_ddr3_get_response sl (d - 1) s = Some (x, s1)" "core s1 = core s"
    "m_response s1 = (m_response s)(sl := (m_response s sl)(d - 1 := x))" by (rule get_response_ready [OF Suc.prems(1) r])
  note f = core_fields(1,2) [OF x(2)]
  have rec: "recorded sl s1 (d - 1) = x" "\<And>e. d \<le> e \<Longrightarrow> recorded sl s1 e = recorded sl s e"
    using x(3) p by (auto simp: recorded_def word_le_def)
  have le: "d - 1 \<le> d" "\<And>e. e \<le> d \<Longrightarrow> e = d \<or> e \<le> d - 1" "\<And>e. d - 1 \<le> e \<Longrightarrow> e = d - 1 \<or> d \<le> e"
    using p by (auto simp: word_le_def word_uint_eq_iff)
  have step: "seek_down sl r1 r2 d s = (if corresponds r1 r2 x then Some (d, s1) else seek_down sl r1 r2 (d - 1) s1)"
    using Suc.prems(2) x(1) by (subst seek_down.simps) simp
  show ?case
  proof (cases "corresponds r1 r2 x")
    case True
    have "\<forall>e. d \<le> e \<and> e \<le> d \<longrightarrow> \<not> corresponds r1 r2 (recorded sl s1 e)" using rec(2) Suc.prems(4) order_antisym by auto
    then show ?thesis using step True x(2) rec \<open>0 < d\<close> asks.ask [OF x(1) r asks.stop] by (intro exI [of _ s1]) auto
  next
    case nc: False
    have "n = unat (d - 1)" using Suc.hyps(2) by (metis Suc_eq_plus1 add_diff_cancel_right' unat_minus_one nat.distinct(1) unat_0)
    from Suc.hyps(1) [OF this, of s1] obtain u where u: "asks sl s1 u" "core u = core s1" "\<forall>e \<ge> d - 1. recorded sl u e = recorded sl s1 e"
      "seek_down sl r1 r2 (d - 1) s1 = None \<and> (\<forall>e \<le> d - 1. \<not> corresponds r1 r2 (recorded sl u e)) \<or>
       (\<exists>x. seek_down sl r1 r2 (d - 1) s1 = Some (x, u) \<and> 0 < x \<and> x \<le> d - 1 \<and> corresponds r1 r2 (recorded sl u (x - 1)) \<and>
         (\<forall>e. x \<le> e \<and> e \<le> d - 1 \<longrightarrow> \<not> corresponds r1 r2 (recorded sl u e)))"
      using ready_core [OF x(2)] Suc.prems(1,2) r(2) f rec(1) nc by auto
    have keep: "recorded sl u e = recorded sl s e" if "d \<le> e" for e using u(3) rec(2) that le(1) by (metis order_trans)
    then have here: "\<not> corresponds r1 r2 (recorded sl u d)" using Suc.prems(4) by simp
    have a: "asks sl s u" by (rule asks.ask [OF x(1) r u(1)])
    from u(4) show ?thesis
    proof (elim disjE exE conjE)
      assume "seek_down sl r1 r2 (d - 1) s1 = None" "\<forall>e \<le> d - 1. \<not> corresponds r1 r2 (recorded sl u e)"
      then have "seek_down sl r1 r2 d s = None" "\<forall>e \<le> d. \<not> corresponds r1 r2 (recorded sl u e)"
        using step nc le(2) here by auto
      then show ?thesis using a u(2) x(2) keep by auto
    next
      fix y assume y: "seek_down sl r1 r2 (d - 1) s1 = Some (y, u)" "0 < y" "y \<le> d - 1" "corresponds r1 r2 (recorded sl u (y - 1))"
        "\<forall>e. y \<le> e \<and> e \<le> d - 1 \<longrightarrow> \<not> corresponds r1 r2 (recorded sl u e)"
      then have "seek_down sl r1 r2 d s = Some (y, u)" "y \<le> d" "\<forall>e. y \<le> e \<and> e \<le> d \<longrightarrow> \<not> corresponds r1 r2 (recorded sl u e)"
        using step nc le(1,2) here by auto
      then show ?thesis using a u(2) x(2) keep y(2,4) by auto
    qed
  qed
qed

lemma set_last_delay_simps: "last_delay a sl t (set_last_delay a sl t v u) = v" "recorded sl (set_last_delay a sl t v u) = recorded sl u"
  by (cases a; simp add: recorded_def)+

text \<open>The delay tuning starts with.\<close>

definition tune_start :: "level_array \<Rightarrow> nat \<Rightarrow> ddr3_leveling_transition \<Rightarrow> leveling \<Rightarrow> u32" where
  "tune_start a sl t s = (if 1 < last_delay a sl t s then last_delay a sl t s - 1 else 0)"

lemma tune_one_returns:
  assumes "ready s" and "m_min_delay s = 0" "tune_start a sl t s \<le> m_max_delay s" and "edge_sides t = (r1, r2)"
  shows "\<exists>u. asks sl s u \<and> core u = core s \<and>
    (tune_one a sl t s = Some (NLM_DDR3_TUNING_MAX_DELAY_REACHED, u) \<and>
       (\<forall>e. tune_start a sl t s \<le> e \<and> e \<le> m_max_delay s \<longrightarrow> corresponds r1 r2 (recorded sl u e)) \<or>
     (\<exists>d. tune_one a sl t s = Some (NLM_OK, set_last_delay a sl t d u) \<and> 0 < d \<and> d \<le> m_max_delay s \<and>
       corresponds r1 r2 (recorded sl u (d - 1)) \<and> \<not> corresponds r1 r2 (recorded sl u d) \<and>
       (\<forall>e. d \<le> e \<and> e \<le> tune_start a sl t s \<longrightarrow> \<not> corresponds r1 r2 (recorded sl u e)) \<and>
       (\<forall>e. tune_start a sl t s \<le> e \<and> e < d \<longrightarrow> corresponds r1 r2 (recorded sl u e))) \<or>
     tune_one a sl t s = None \<and> (\<forall>e \<le> tune_start a sl t s. \<not> corresponds r1 r2 (recorded sl u e)))"
proof -
  let ?d = "tune_start a sl t s"
  have d: "m_min_delay s \<le> ?d" using assms(2) by simp
  obtain x s1 where x: "nlm_device_ddr3_get_response sl ?d s = Some (x, s1)" "core s1 = core s"
    "m_response s1 = (m_response s)(sl := (m_response s sl)(?d := x))" by (rule get_response_ready [OF assms(1) d assms(3)])
  note f = core_fields(1,2) [OF x(2)]
  have rec: "recorded sl s1 ?d = x" using x(3) by (simp add: recorded_def)
  have ready: "ready s1" using ready_core [OF x(2)] assms(1) by simp
  have tune: "tune_one a sl t s =
     (if corresponds r1 r2 x then
        map_option (\<lambda>(r, s2). case r of None \<Rightarrow> (NLM_DDR3_TUNING_MAX_DELAY_REACHED, s2) | Some d \<Rightarrow> (NLM_OK, set_last_delay a sl t d s2))
          (seek_up sl r1 r2 x ?d s1)
      else map_option (\<lambda>(d, s2). (NLM_OK, set_last_delay a sl t d s2)) (seek_down sl r1 r2 ?d s1))"
    using x(1) assms(4) by (simp add: tune_one_def tune_start_def)
  show ?thesis
  proof (cases "corresponds r1 r2 x")
    case True
    obtain r s' where r: "seek_up sl r1 r2 x ?d s1 = Some (r, s')" "asks sl s1 s'" "core s' = core s1" "same_below ?d (recorded sl s1) (recorded sl s')"
      "case r of None \<Rightarrow> \<forall>e. ?d \<le> e \<and> e \<le> m_max_delay s \<longrightarrow> corresponds r1 r2 (recorded sl s' e)
       | Some y \<Rightarrow> ?d \<le> y \<and> y \<le> m_max_delay s \<and> \<not> corresponds r1 r2 (recorded sl s' y) \<and>
           (\<forall>e. ?d \<le> e \<and> e < y \<longrightarrow> corresponds r1 r2 (recorded sl s' e))"
      using seek_up_finds [OF ready, of ?d sl x r1 r2, unfolded f, OF d assms(3) rec] by blast
    have here: "corresponds r1 r2 (recorded sl s' ?d)" using r(4) rec True by (simp add: same_below_def)
    have a: "asks sl s s'" by (rule asks.ask [OF x(1) d assms(3) r(2)])
    have c: "core s' = core s" using r(3) x(2) by simp
    show ?thesis
    proof (cases r)
      case None
      then have "tune_one a sl t s = Some (NLM_DDR3_TUNING_MAX_DELAY_REACHED, s')" using tune True r(1) by simp
      moreover have "\<forall>e. ?d \<le> e \<and> e \<le> m_max_delay s \<longrightarrow> corresponds r1 r2 (recorded sl s' e)" using r(5) None by simp
      ultimately show ?thesis using a c by blast
    next
      case (Some y)
      then have y: "?d < y" "y \<le> m_max_delay s" "\<not> corresponds r1 r2 (recorded sl s' y)" "\<forall>e. ?d \<le> e \<and> e < y \<longrightarrow> corresponds r1 r2 (recorded sl s' e)"
        using r(5) here by (auto simp: order_less_le)
      have "uint (y - 1) = uint y - 1" using y(1) by (rule word_pred)
      then have "?d \<le> y - 1" "y - 1 < y" using y(1) by (simp_all add: word_less_def word_le_def)
      then have "corresponds r1 r2 (recorded sl s' (y - 1))" using y(4) by blast
      moreover have "0 < y" using y(1) word_greater_zero_iff by fastforce
      moreover have "\<forall>e. y \<le> e \<and> e \<le> ?d \<longrightarrow> \<not> corresponds r1 r2 (recorded sl s' e)" using y(1) by auto
      moreover have "tune_one a sl t s = Some (NLM_OK, set_last_delay a sl t y s')" using tune True r(1) Some by simp
      ultimately show ?thesis using a c y(2-4) by blast
    qed
  next
    case False
    obtain u where u: "asks sl s1 u" "core u = core s1"
      "seek_down sl r1 r2 ?d s1 = None \<and> (\<forall>e \<le> ?d. \<not> corresponds r1 r2 (recorded sl u e)) \<or>
       (\<exists>x. seek_down sl r1 r2 ?d s1 = Some (x, u) \<and> 0 < x \<and> x \<le> ?d \<and> corresponds r1 r2 (recorded sl u (x - 1)) \<and>
         (\<forall>e. x \<le> e \<and> e \<le> ?d \<longrightarrow> \<not> corresponds r1 r2 (recorded sl u e)))"
      using seek_down_finds [OF ready, of ?d r1 r2 sl] assms(2,3) f rec False by auto
    have a: "asks sl s u" by (rule asks.ask [OF x(1) d assms(3) u(1)])
    have c: "core u = core s" using u(2) x(2) by simp
    from u(3) show ?thesis
    proof (elim disjE exE conjE)
      assume "seek_down sl r1 r2 ?d s1 = None" "\<forall>e \<le> ?d. \<not> corresponds r1 r2 (recorded sl u e)"
      then show ?thesis using tune False a c by auto
    next
      fix y assume y: "seek_down sl r1 r2 ?d s1 = Some (y, u)" "0 < y" "y \<le> ?d" "corresponds r1 r2 (recorded sl u (y - 1))"
        "\<forall>e. y \<le> e \<and> e \<le> ?d \<longrightarrow> \<not> corresponds r1 r2 (recorded sl u e)"
      have "tune_one a sl t s = Some (NLM_OK, set_last_delay a sl t y u)" using tune False y(1) by simp
      moreover have "y \<le> m_max_delay s" using y(3) assms(3) by (rule order_trans)
      moreover have "\<not> corresponds r1 r2 (recorded sl u y)" using y(3,5) by simp
      moreover have "\<forall>e. ?d \<le> e \<and> e < y \<longrightarrow> corresponds r1 r2 (recorded sl u e)" using y(3) by auto
      ultimately show ?thesis using a c y(2,4,5) by blast
    qed
  qed
qed

text \<open>C28. Tuning an edge, when the controller answers, the smallest delay is zero - nothing in the code sets it - and the search starts at
  most at the largest delay, ends in one of three ways. It succeeds: the new delay of the edge is next to an edge between the recorded
  responses, the first one from the start on in the direction of the search. Every delay from the start on was recorded with a response
  of the lower side, and the status says so. Or every delay down from the start was recorded with a response of the upper
  side, and the code leaves the array of the responses.\<close>

theorem tune_one_finds_edge:
  assumes "ready s" and "m_min_delay s = 0" "tune_start a sl t s \<le> m_max_delay s" and "edge_sides t = (r1, r2)"
  shows "case tune_one a sl t s of
      None \<Rightarrow> \<exists>u. asks sl s u \<and> (\<forall>e \<le> tune_start a sl t s. \<not> corresponds r1 r2 (recorded sl u e))
    | Some (status, s') \<Rightarrow>
        if status = NLM_OK then
          let d = last_delay a sl t s' in
          0 < d \<and> d \<le> m_max_delay s \<and> corresponds r1 r2 (recorded sl s' (d - 1)) \<and> \<not> corresponds r1 r2 (recorded sl s' d) \<and>
          (\<forall>e. d \<le> e \<and> e \<le> tune_start a sl t s \<longrightarrow> \<not> corresponds r1 r2 (recorded sl s' e)) \<and>
          (\<forall>e. tune_start a sl t s \<le> e \<and> e < d \<longrightarrow> corresponds r1 r2 (recorded sl s' e))
        else status = NLM_DDR3_TUNING_MAX_DELAY_REACHED \<and>
          (\<forall>e. tune_start a sl t s \<le> e \<and> e \<le> m_max_delay s \<longrightarrow> corresponds r1 r2 (recorded sl s' e))"
  using tune_one_returns [OF assms] by (elim exE conjE disjE) (auto simp: set_last_delay_simps Let_def)

text \<open>A state of zeros, as after clearing the memory of the device.\<close>

definition leveling_zero :: "hw \<Rightarrow> leveling" where
  "leveling_zero h = \<lparr>m_valid = 0, m_save_responses = 0, m_cs_rank = 0, m_in_preamble = 0, m_step_size = 0, m_retry_count = 0,
     m_jitter_range = 0, m_wrlvl_swhw = 0, m_rdlvl_swhw = 0, m_gtlvl_swhw = 0, sim_ps_period = 0, m_is_gatesim = 0, m_fast = 0,
     m_wrlvl_is_leveled = 0, m_rdlvl_is_leveled = 0, m_gtlvl_is_leveled = 0, dll_is_macro = 0, m_min_delay = 0, m_max_delay = 0,
     m_max_slice = 0, tdqsq_delay = 0, lv_shift = 0, leveling_type_status = NONE, edges = \<lambda>_. S0X, m_request = \<lambda>_. 0, m_resp = \<lambda>_. 0,
     m_response = \<lambda>_ _. 0, m_delay = \<lambda>_. 0, m_dll_ctrl_0 = \<lambda>_. 0, m_phy_ctrl_0 = \<lambda>_. 0, m_phy_ctrl_1 = \<lambda>_. 0,
     m_data_delay = \<lambda>_ _. 0, m_ctrl_delay = \<lambda>_ _. 0, m_wrlvl_delay = \<lambda>_ _. 0, m_gtlvl_delay = \<lambda>_ _. 0, m_rdlvl_delay = \<lambda>_ _ _. 0,
     m_wrlvl_startVal = \<lambda>_. 0, m_gtlvl_startVal = \<lambda>_. 0, m_rdlvl_startVal = \<lambda>_ _. 0, lv_hw = h\<rparr>"

text \<open>Nine slices in gate mode, with responses recorded from delay 10 on.\<close>

definition tuning_state :: leveling where
  "tuning_state = (leveling_zero \<lparr>trace = [], answer = \<lambda>_ _. 1\<rparr>)\<lparr>leveling_type_status := GATE, m_max_slice := 9, m_save_responses := 1,
     m_jitter_range := 1, m_retry_count := 5, m_max_delay := 127,
     m_response := \<lambda>_ d. if d < 10 then 0 else 1, m_gtlvl_delay := \<lambda>_ _. 8\<rparr>"

lemma get_response_saved:
  assumes "m_save_responses s \<noteq> 0" "m_jitter_range s = 1" "m_min_delay s \<le> d" "d \<le> m_max_delay s" "d < NLM_DDR3_MAX_DLL_DELAY"
    and "m_response s sl d \<noteq> VAL_Z"
  shows "nlm_device_ddr3_get_response sl d s = Some (m_response s sl d, s)"
  using assms by (simp add: nlm_device_ddr3_get_response_def nlm_device_ddr3_get_request_def save_response_def)

lemma tuning_state_simps:
  "m_save_responses tuning_state = 1" "m_jitter_range tuning_state = 1" "m_min_delay tuning_state = 0" "m_max_delay tuning_state = 127"
  "m_response tuning_state sl d = (if d < 10 then 0 else 1)" "edges tuning_state i = S0X" "last_delay Gtlvl sl t tuning_state = 8" "m_gtlvl_delay tuning_state sl t = 8"
  by (simp_all add: tuning_state_def leveling_zero_def)

lemma tuning_state_ready: "ready tuning_state"
  by (simp add: ready_def tuning_state_def leveling_zero_def NLM_DDR3_MAX_SLICE_def NLM_DDR3_MAX_DLL_DELAY_def)

lemma tuning_state_response:
  "d \<in> {7, 8, 9, 10} \<Longrightarrow> nlm_device_ddr3_get_response 0 d tuning_state = Some (if d < 10 then 0 else 1, tuning_state)"
  by (subst get_response_saved) (auto simp: tuning_state_simps VAL_Z_def NLM_DDR3_MAX_DLL_DELAY_def word_le_nat_alt)

lemma tune_one_finds_edge_witness:
  "\<exists>s'. tune_one Gtlvl 0 S0X tuning_state = Some (NLM_OK, s') \<and> last_delay Gtlvl 0 S0X s' = 10 \<and>
    \<not> corresponds 0 VAL_X (recorded 0 s' 10) \<and> corresponds 0 VAL_X (recorded 0 s' 9)"
proof -
  have up: "seek_up 0 0 VAL_X 0 7 tuning_state = Some (Some 10, tuning_state)"
    by (simp add: seek_up.simps corresponds_def val_defs tuning_state_response tuning_state_simps)
  have t: "tune_one Gtlvl 0 S0X tuning_state = Some (NLM_OK, set_last_delay Gtlvl 0 S0X 10 tuning_state)"
    using up by (simp add: tune_one_def tuning_state_simps tuning_state_response corresponds_def)
  then show ?thesis
    using tune_one_finds_edge [OF tuning_state_ready, of Gtlvl 0 S0X 0 VAL_X]
    by (simp add: tuning_state_simps tune_start_def Let_def word_le_nat_alt)
qed

text \<open>When the start is delay zero and the response to it belongs to the upper side, tuning leaves the array of responses at once: the delay
  wraps around and the next response would be saved far outside.\<close>

theorem tune_one_below_zero:
  assumes "ready s" "m_min_delay s = 0" and "last_delay a sl t s \<le> 1" and "edge_sides t = (r1, r2)"
    and resp: "nlm_device_ddr3_get_response sl 0 s = Some (resp, s1)" "\<not> corresponds r1 r2 resp"
  shows "tune_one a sl t s = None"
proof -
  obtain x u where "nlm_device_ddr3_get_response sl 0 s = Some (x, u)" "core u = core s"
    by (rule get_response_ready [OF assms(1), of 0 sl]) (simp_all add: assms(2))
  then have "core s1 = core s" using resp(1) by simp
  note f = core_fields(1,2) [OF this] and ready = ready_core [OF this]
  have "nlm_device_ddr3_get_response sl (- 1) s1 = None" using ready assms(1,2) f by (intro response_below_zero) simp_all
  then have "seek_down sl r1 r2 0 s1 = None" using f(1) assms(2) by (subst seek_down.simps) simp
  then show ?thesis using assms(4) resp leD [OF assms(3)] by (simp add: tune_one_def)
qed

text \<open>The response to delay zero is one, and so is every other.\<close>

lemma tune_one_below_zero_witness:
  "tune_one Gtlvl 0 S0X (tuning_state\<lparr>m_gtlvl_delay := \<lambda>_ _. 0, m_response := \<lambda>_ _. 1\<rparr>) = None"
proof (rule tune_one_below_zero)
  let ?s = "tuning_state\<lparr>m_gtlvl_delay := \<lambda>_ _. 0, m_response := \<lambda>_ _. 1\<rparr>"
  show "ready ?s" using tuning_state_ready by (simp add: ready_def)
  show "nlm_device_ddr3_get_response 0 0 ?s = Some (1, ?s)"
    by (subst get_response_saved) (simp_all add: tuning_state_simps VAL_Z_def NLM_DDR3_MAX_DLL_DELAY_def)
  show "\<not> corresponds 0 VAL_X 1" by (simp add: corresponds_def VAL_X_def)
qed (simp_all add: tuning_state_simps)

section \<open>Bisection\<close>

lemma middle:
  assumes "lo < hi" "hi < NLM_DDR3_MAX_DLL_DELAY"
  shows "uint (drop_bit 1 (lo + hi)) = (uint lo + uint hi) div 2" "uint (hi - lo) = uint hi - uint lo"
proof -
  have l: "uint lo < uint hi" "uint hi < 256" using assms by (simp_all add: word_less_def NLM_DDR3_MAX_DLL_DELAY_def)
  have "unat lo < unat hi" "unat hi < 256" using assms by (simp_all add: word_less_nat_alt NLM_DDR3_MAX_DLL_DELAY_def)
  then have "unat (lo + hi) = unat lo + unat hi" by (simp add: unat_word_ariths)
  then have "unat (drop_bit 1 (lo + hi)) = (unat lo + unat hi) div 2" by (simp add: drop_bit_eq_div unat_div)
  then show "uint (drop_bit 1 (lo + hi)) = (uint lo + uint hi) div 2" unfolding uint_nat by (simp only: zdiv_int of_nat_add of_nat_numeral)
  have "uint hi - uint lo < 4294967296" using l uint_ge_0 [of lo] by linarith
  then show "uint (hi - lo) = uint hi - uint lo" using l by (simp add: uint_word_ariths mod_pos_pos_trivial)
qed

lemma bisect_finds:
  assumes "ready s" and "m_min_delay s \<le> lo" "lo < hi" "hi \<le> m_max_delay s"
    and "corresponds r1 r2 (recorded sl s lo)" "\<not> corresponds r1 r2 (recorded sl s hi)"
  shows "\<exists>lo' hi' s'. bisect sl r1 r2 lo hi s = Some (lo', hi', s') \<and> core s' = core s \<and> lo \<le> lo' \<and> lo' < hi' \<and> hi' \<le> hi \<and> hi' = lo' + 1 \<and>
    corresponds r1 r2 (recorded sl s' lo') \<and> \<not> corresponds r1 r2 (recorded sl s' hi')"
  using assms
proof (induction "nat (uint hi - uint lo)" arbitrary: lo hi s rule: less_induct)
  case (less lo hi s)
  have m: "hi < NLM_DDR3_MAX_DLL_DELAY" using le_less_trans [OF less.prems(4)] less.prems(1) by (simp add: ready_def)
  note u = middle [OF less.prems(3) m]
  show ?case
  proof (cases "1 < hi - lo")
    case False
    then have "hi = lo + 1" using u(2) less.prems(3) word_succ [OF less.prems(3)]
      by (simp add: word_less_def word_uint_eq_iff)
    then show ?thesis using False less.prems(3,5,6) by (subst bisect.simps) auto
  next
    case True
    let ?d = "drop_bit 1 (lo + hi)"
    have g: "uint hi - uint lo > 1" using True u(2) by (simp add: word_less_def)
    then have d: "lo < ?d" "?d < hi" using u(1) by (simp_all add: word_less_def)
    have r: "m_min_delay s \<le> ?d" "?d \<le> m_max_delay s" using d less.prems(2,4) by auto
    obtain x s1 where x: "nlm_device_ddr3_get_response sl ?d s = Some (x, s1)" "core s1 = core s"
      "m_response s1 = (m_response s)(sl := (m_response s sl)(?d := x))" by (rule get_response_ready [OF less.prems(1) r])
    note f = core_fields(1,2) [OF x(2)]
    have rec: "recorded sl s1 ?d = x" "recorded sl s1 lo = recorded sl s lo" "recorded sl s1 hi = recorded sl s hi"
      using x(3) d by (auto simp: recorded_def)
    have ready: "ready s1" using ready_core [OF x(2)] less.prems(1) by simp
    have e: "bisect sl r1 r2 lo hi s = (if corresponds r1 r2 x then bisect sl r1 r2 ?d hi s1 else bisect sl r1 r2 lo ?d s1)"
      using True x(1) by (subst bisect.simps) simp
    show ?thesis
    proof (cases "corresponds r1 r2 x")
      case True
      have "nat (uint hi - uint ?d) < nat (uint hi - uint lo)" using d by (simp add: word_less_def)
      from less.hyps [OF this ready] show ?thesis
        using True e rec d(2) r(1) less.prems(4,6) f x(2) order_trans [OF less_imp_le [OF d(1)]] by fastforce
    next
      case False
      have "nat (uint ?d - uint lo) < nat (uint hi - uint lo)" using d by (simp add: word_less_def)
      from less.hyps [OF this ready] show ?thesis
        using False e rec d(1) r(2) less.prems(2,5) f x(2) order_trans [OF _ less_imp_le [OF d(2)]] by fastforce
    qed
  qed
qed

text \<open>C29. Processing an edge between two delays finds it by bisection: with a ready controller and responses of both sides recorded
  for the delays, it returns; the delay of the edge is set to one with a response of the upper side next to one of
  the lower side, between the two, and the search goes on with the next edge.\<close>

theorem trans_edge_finds:
  assumes "ready s" and "m_min_delay s \<le> lo" "lo < hi" "hi \<le> m_max_delay s"
    and "corresponds r1 r2 (recorded sl s lo)" "\<not> corresponds r1 r2 (recorded sl s hi)"
    and "idx < 4" "edges s (unat idx) = which_edge r1 r2"
  shows "\<exists>lo' s'. nlm_device_ddr3_trans_edge a sl r1 r2 idx lo hi s = Some (idx + 1, lo', s') \<and>
    (let d = last_delay a sl (which_edge r1 r2) s' in
     lo < d \<and> d \<le> hi \<and> corresponds r1 r2 (recorded sl s' (d - 1)) \<and> \<not> corresponds r1 r2 (recorded sl s' d))"
proof -
  obtain lo' hi' s' where b: "bisect sl r1 r2 lo hi s = Some (lo', hi', s')" "lo \<le> lo'" "lo' < hi'" "hi' \<le> hi" "hi' = lo' + 1"
    "corresponds r1 r2 (recorded sl s' lo')" "\<not> corresponds r1 r2 (recorded sl s' hi')"
    using bisect_finds [OF assms(1-6)] by blast
  have "unat idx < 4" using assms(7) by (simp add: word_less_nat_alt)
  then have "idx \<in> {0, 1, 2, 3}" by (auto simp: word_unat_eq_iff)
  then have i: "0 \<le> sint idx" by auto
  have set: "last_delay a sl t (set_last_delay a sl t v u) = v" "recorded sl (set_last_delay a sl t v u) = recorded sl u" for t v u
    by (cases a; simp add: recorded_def)+
  have "lo < hi'" using b(2,3) by simp
  then show ?thesis using b i assms(7,8) set by (simp add: nlm_device_ddr3_trans_edge_def Let_def)
qed

lemma trans_edge_finds_witness:
  "\<exists>lo' s'. nlm_device_ddr3_trans_edge Gtlvl 0 0 VAL_X 0 8 16 tuning_state = Some (1, lo', s') \<and>
    (let d = last_delay Gtlvl 0 S0X s' in
     8 < d \<and> d \<le> 16 \<and> corresponds 0 VAL_X (recorded 0 s' (d - 1)) \<and> \<not> corresponds 0 VAL_X (recorded 0 s' d))"
  using trans_edge_finds [OF tuning_state_ready, of 8 16 0 VAL_X 0 0 Gtlvl]
  by (simp add: tuning_state_simps recorded_def corresponds_def which_edge_def val_defs word_le_nat_alt)

text \<open>Finding edges never looks for one: -1 is not below 0 as an unsigned number.\<close>

lemma find_edge_does_not_search: "nlm_device_ddr3_find_edge a sl s = finish_slice a sl (nlm_device_ddr3_init_response sl s)"
  by (simp add: nlm_device_ddr3_find_edge_def find_loop.simps)

section \<open>Read levelling\<close>

lemma lv_request [simp]:
  "m_request (snd (lv_read reg s)) = m_request s" "m_request (lv_write reg v s) = m_request s"
  "m_resp (snd (lv_read reg s)) = m_resp s" "leveling_type_status (snd (lv_read reg s)) = leveling_type_status s"
  by (simp_all add: lv_read_def lv_write_def Let_def split_beta)

lemma op_done_request: "op_done n s = Some s' \<Longrightarrow> m_request s' = m_request s"
proof (induction n arbitrary: s)
  case (Suc n)
  obtain v s1 where v: "lv_read DDR3_CTL_12 s = (v, s1)" by fastforce
  then have "m_request s1 = m_request s" using lv_request(1) [of DDR3_CTL_12 s] by simp
  then show ?case using Suc v by (auto split: if_splits)
qed simp

lemma load_request: "nlm_device_ddr3_sw_lvl_load s = Some s' \<Longrightarrow> m_request s' = m_request s"
  by (auto simp: nlm_device_ddr3_sw_lvl_load_def nlm_device_ddr3_wait_op_done_def Let_def split_beta dest!: op_done_request)

lemma send_request: "leveling_type_status s = READ \<Longrightarrow> send_slice sl s = Some s' \<Longrightarrow>
    m_request s' = m_request s \<and> leveling_type_status s' = READ"
  by (auto simp: send_slice_def load_delay_def load_delay_field_def Let_def split_beta lv_write_def split: if_splits)

lemma sends_request: "leveling_type_status s = READ \<Longrightarrow> foldM send_slice ks s = Some s' \<Longrightarrow> m_request s' = m_request s"
proof (induction ks arbitrary: s)
  case (Cons k ks)
  then obtain s1 where s1: "send_slice k s = Some s1" "foldM send_slice ks s1 = Some s'" by (auto simp: bind_eq_Some_conv)
  then show ?case using Cons.IH [OF _ s1(2)] send_request [OF Cons.prems(1) s1(1)] by simp
qed simp

text \<open>In read mode a response is 0, 255 or unknown, never 1; \<open>VAL_Z\<close> marks one that was not read.\<close>

definition read_value :: "u32 \<Rightarrow> bool" where "read_value v \<longleftrightarrow> v = 0 \<or> v = 0xff \<or> v = VAL_X \<or> v = VAL_Z"

lemma read_values: "read_value 0" "read_value 0xff" "read_value VAL_X" "read_value VAL_Z" "read_value v \<Longrightarrow> v \<noteq> 1"
  by (auto simp: read_value_def val_defs)

lemma receive_read:
  assumes "leveling_type_status s = READ"
  shows "m_request (receive_slice k s) = m_request s" "leveling_type_status (receive_slice k s) = READ"
    and "m_request s k AND GETREQ \<noteq> 0 \<Longrightarrow> read_value (m_resp (receive_slice k s) k)"
    and "read_value (m_resp s sl) \<Longrightarrow> read_value (m_resp (receive_slice k s) sl)"
  using assms by (auto simp: receive_slice_def Let_def split_beta read_values)

lemma receives_read:
  assumes "leveling_type_status s = READ" "m_request s sl AND GETREQ \<noteq> 0" and "sl \<in> set ks \<or> read_value (m_resp s sl)"
  shows "read_value (m_resp (fold receive_slice ks s) sl) \<and> m_request (fold receive_slice ks s) = m_request s"
  using assms
proof (induction ks arbitrary: s)
  case (Cons k ks)
  note r = receive_read [OF Cons.prems(1), where k = k]
  have "sl \<in> set ks \<or> read_value (m_resp (receive_slice k s) sl)"
  proof (cases "sl = k")
    case True
    then show ?thesis using r(3) Cons.prems(2) by blast
  next
    case False
    then show ?thesis using r(4) Cons.prems(3) by auto
  qed
  then show ?case using Cons.IH [of "receive_slice k s"] r(1,2) Cons.prems(2) by simp
qed simp

lemma send_receive_read:
  assumes "ready s" "leveling_type_status s = READ" "sl < unat (m_max_slice s)" "m_request s sl AND GETREQ \<noteq> 0"
  obtains s' where "nlm_device_ddr3_serial_send_receive s = Some s'" "calm s s'" "read_value (m_resp s' sl)"
proof -
  obtain s' where s': "nlm_device_ddr3_serial_send_receive s = Some s'" "calm s s'" using send_receive_ready [OF assms(1)] by blast
  obtain s1 s2 where s1: "foldM send_slice (slices s) s = Some s1"
    and s2: "(if \<exists>sl \<in> set (slices s). m_request s sl \<noteq> TERMREQ then nlm_device_ddr3_sw_lvl_load s1 else Some s1) = Some s2"
    and e: "s' = fold receive_slice (slices s) s2"
    using s'(1) assms(1) unfolding nlm_device_ddr3_serial_send_receive_def ready_def bind_eq_Some_conv map_option_eq_Some
    by (simp only: assert_then_True bind_eq_Some_conv map_option_eq_Some) blast
  have "m_request s2 = m_request s" using s2 sends_request [OF assms(2) s1] load_request by (auto split: if_splits)
  moreover have "leveling_type_status s2 = READ"
  proof -
    have "calm s2 s'" unfolding e by (rule receives_calm)
    then have "core s2 = core s" using s'(2) by (simp add: calm_def)
    then show ?thesis using core_fields(5) [of s2 s] assms(2) by simp
  qed
  ultimately have "read_value (m_resp s' sl)"
    unfolding e using assms(3,4) receives_read [of s2 sl "slices s"] by (simp add: slices_def)
  then show ?thesis using that s' by blast
qed

text \<open>The slice is read, and only such responses are recorded for it.\<close>

definition reads :: "nat \<Rightarrow> leveling \<Rightarrow> bool" where
  "reads sl s \<longleftrightarrow> ready s \<and> leveling_type_status s = READ \<and> sl < unat (m_max_slice s) \<and> m_retry_count s \<noteq> 0 \<and>
     (\<forall>d. read_value (recorded sl s d)) \<and> (m_delay s sl = - 1 \<or> read_value (m_resp s sl))"

lemma retry_read:
  assumes "ready s" "leveling_type_status s = READ" "sl < unat (m_max_slice s)" "m_request s sl AND GETREQ \<noteq> 0"
    and "read_value resp" "n \<noteq> 0 \<and> resp = VAL_Z \<or> read_value (m_resp s sl)"
  shows "\<exists>r s'. retry n sl resp s = Some (r, s') \<and> calm s s' \<and> read_value r \<and> read_value (m_resp s' sl)"
  using assms
proof (induction n arbitrary: resp s)
  case (Suc n)
  show ?case
  proof (cases "resp = VAL_X")
    case True
    then show ?thesis using Suc.prems(5,6) calm_refl by (auto simp: val_defs)
  next
    case False
    obtain s1 where s1: "nlm_device_ddr3_serial_send_receive s = Some s1" "calm s s1" "read_value (m_resp s1 sl)"
      by (rule send_receive_read [OF Suc.prems(1-4)])
    let ?s2 = "s1\<lparr>m_request := (m_request s1)(sl := GETREQ)\<rparr>"
    let ?s3 = "?s2\<lparr>m_resp := (m_resp ?s2)(sl := VAL_X)\<rparr>"
    have c2: "calm s ?s2" using calm_trans [OF s1(2) calm_updates(1)] .
    have c3: "calm s ?s3" using calm_trans [OF c2 calm_updates(2)] .
    have c: "core ?s2 = core s" "core ?s3 = core s" using c2 c3 by (simp_all add: calm_def)
    note f2 = core_fields(5,6) [OF c(1)] and f3 = core_fields(5,6) [OF c(2)]
    have "\<exists>r s'. retry n sl x ?s2 = Some (r, s') \<and> calm s s' \<and> read_value r \<and> read_value (m_resp s' sl)" if "read_value x" for x
      using Suc.IH [of ?s2 x] calm_ready [OF c2 Suc.prems(1)] f2 Suc.prems(2,3) that s1(3) calm_trans [OF c2] by (fastforce simp: GETREQ_def)
    moreover have "\<exists>r s'. retry n sl VAL_X ?s3 = Some (r, s') \<and> calm s s' \<and> read_value r \<and> read_value (m_resp s' sl)"
      using Suc.IH [of ?s3 VAL_X] calm_ready [OF c3 Suc.prems(1)] f3 Suc.prems(2,3) calm_trans [OF c3] by (fastforce simp: GETREQ_def read_values)
    ultimately show ?thesis using s1 False Suc.prems(5) by (simp add: Let_def)
  qed
qed (use calm_refl in auto)

lemma get_response_read:
  assumes "reads sl s" and "m_min_delay s \<le> d" "d \<le> m_max_delay s" and "nlm_device_ddr3_get_response sl d s = Some (r, s')"
  shows "reads sl s' \<and> read_value r"
proof -
  have ready: "ready s" and n: "leveling_type_status s = READ" "sl < unat (m_max_slice s)" "m_retry_count s \<noteq> 0"
    "read_value (m_response s sl e)" "m_delay s sl = - 1 \<or> read_value (m_resp s sl)" for e
    using assms(1) by (simp_all add: reads_def recorded_def)
  have d: "d < NLM_DDR3_MAX_DLL_DELAY" "m_save_responses s \<noteq> 0" "\<not> 1 < m_jitter_range s"
    using ready le_less_trans [OF assms(3)] by (auto simp: ready_def)
  have d1: "d \<noteq> - 1" using d(1)
    by (auto simp: word_less_def NLM_DDR3_MAX_DLL_DELAY_def unsigned_minus_1_eq_mask mask_eq_exp_minus_1)
  obtain s1 where s1: "nlm_device_ddr3_get_request sl d s = Some (r, s1)" "core s1 = core s" "read_value r"
    "m_response s1 = m_response s \<or> m_response s1 = (m_response s)(sl := (m_response s sl)(d := r))"
    "m_delay s1 sl = - 1 \<or> read_value (m_resp s1 sl)"
  proof (cases "m_response s sl d \<noteq> VAL_Z \<or> d = m_delay s sl")
    case True
    let ?r = "if m_response s sl d \<noteq> VAL_Z then m_response s sl d else m_resp s sl"
    have q: "nlm_device_ddr3_get_request sl d s = Some (?r, s)"
      using True d assms(2,3) by (simp add: nlm_device_ddr3_get_request_def)
    then have "r = ?r" using assms(4) d by (auto simp: nlm_device_ddr3_get_response_def bind_eq_Some_conv)
    then show ?thesis using that [of s] q n(4,5) d1 True by auto
  next
    case False
    let ?s1 = "s\<lparr>m_request := (m_request s)(sl := SETGETREQ), m_delay := (m_delay s)(sl := d)\<rparr>"
    have c: "calm s ?s1" using calm_trans [OF calm_updates(1) calm_updates(3)] .
    have "unat (m_retry_count s) \<noteq> 0" using n(3) by (simp add: unat_eq_zero)
    then obtain x s2 where x: "retry (unat (m_retry_count s)) sl VAL_Z ?s1 = Some (x, s2)" "calm ?s1 s2" "read_value x" "read_value (m_resp s2 sl)"
      using retry_read [of ?s1 sl VAL_Z "unat (m_retry_count s)"] calm_ready [OF c ready] n(1,2)
      by (auto simp: read_values GETREQ_def SETGETREQ_def)
    have c2: "core s2 = core s" "m_response s2 = m_response s" using calm_trans [OF c x(2)] by (simp_all add: calm_def)
    let ?s3 = "s2\<lparr>m_response := (m_response s2)(sl := (m_response s2 sl)(d := x))\<rparr>"
    have q: "nlm_device_ddr3_get_request sl d s = Some (x, ?s3)"
      using False d assms(2,3) x(1) core_fields(3) [OF c2(1)] by (simp add: nlm_device_ddr3_get_request_def save_response_def)
    then have "r = x" using assms(4) d core_fields(4) [OF c2(1)] by (auto simp: nlm_device_ddr3_get_response_def bind_eq_Some_conv)
    then show ?thesis using that [of ?s3] q x(3,4) c2 by (simp add: core_response)
  qed
  note f = core_fields(3-6,11) [OF s1(2)]
  have s': "s' = s1\<lparr>m_response := (m_response s1)(sl := (m_response s1 sl)(d := r))\<rparr>"
    using assms(4) s1(1) d f by (simp add: nlm_device_ddr3_get_response_def save_response_def)
  have "core s' = core s" unfolding s' core_response by (rule s1(2))
  then have "ready s'" using ready ready_core by blast
  then show ?thesis using s1(3-5) n f by (auto simp: reads_def recorded_def s')
qed

lemma asks_read: "asks sl s s' \<Longrightarrow> reads sl s \<Longrightarrow> reads sl s'"
  by (induction rule: asks.induct) (use get_response_read in blast)+

lemma set_last_delay_same:
  "ready (set_last_delay a sl t v s) = ready s" "reads k (set_last_delay a sl t v s) = reads k s"
  "m_min_delay (set_last_delay a sl t v s) = m_min_delay s" "m_max_delay (set_last_delay a sl t v s) = m_max_delay s"
  "t \<noteq> t' \<Longrightarrow> last_delay a sl t' (set_last_delay a sl t v s) = last_delay a sl t' s"
  by (cases a; simp add: ready_def reads_def recorded_def)+

lemma tune_one_read:
  assumes "reads sl s" and "m_min_delay s = 0" "tune_start a sl SX1 s \<le> m_max_delay s"
  shows "\<exists>s'. tune_one a sl SX1 s = Some (NLM_DDR3_TUNING_MAX_DELAY_REACHED, s')"
proof -
  have "ready s" using assms(1) by (simp add: reads_def)
  from tune_one_returns [OF this assms(2,3), of VAL_X 1]
  obtain u where u: "asks sl s u" "tune_one a sl SX1 s = Some (NLM_DDR3_TUNING_MAX_DELAY_REACHED, u) \<or>
      (\<exists>d. \<not> corresponds VAL_X 1 (recorded sl u d))" by auto
  have "reads sl u" by (rule asks_read [OF u(1) assms(1)])
  then have "corresponds VAL_X 1 (recorded sl u d)" for d using read_values(5) by (auto simp: corresponds_def reads_def)
  then show ?thesis using u(2) by blast
qed

text \<open>Levelling the read delay of a slice whose start value is zero - the value it has before anything is levelled - never succeeds: a response in
  read mode is all ones, all zeros or unknown, the search for the second edge compares it with 1, and so it runs to the largest delay, unless
  the search for the first edge has left the array before. The
  final delays are not computed, and the request of the slice is left open.\<close>

theorem read_leveling_fails:
  assumes "ready s" "leveling_type_status s = READ" "sl < unat (m_max_slice s)" "m_retry_count s \<noteq> 0" "start_val a sl s = 0"
    and "m_min_delay s = 0" "\<And>t. tune_start a sl t s \<le> m_max_delay s"
  shows "nlm_device_ddr3_tune_edge a sl s = None \<or> (\<exists>s'. nlm_device_ddr3_tune_edge a sl s = Some (NLM_DDR3_TUNING_MAX_DELAY_REACHED, s'))"
proof -
  have save: "m_save_responses s \<noteq> 0" using assms(1) by (simp add: ready_def)
  define s1 where "s1 = set_edges [S0X, SX1] (nlm_device_ddr3_init_response sl s)"
  have same: "m_min_delay s1 = m_min_delay s" "m_max_delay s1 = m_max_delay s" "last_delay a sl t s1 = last_delay a sl t s" for t
    by (cases a; simp add: s1_def set_edges_def nlm_device_ddr3_init_response_def)+
  have start: "start_val a sl (nlm_device_ddr3_init_response sl s) = 0"
    using assms(5) by (cases a) (simp_all add: nlm_device_ddr3_init_response_def)
  have none: "reads sl s1"
    using assms(1-4) save by (simp add: s1_def set_edges_def nlm_device_ddr3_init_response_def reads_def recorded_def read_values ready_def)
  have edges: "nlm_device_ddr3_get_edges sl (start_val a sl (nlm_device_ddr3_init_response sl s)) 0 (nlm_device_ddr3_init_response sl s) = Some (2, 0, s1)"
    using assms(2) start by (simp add: nlm_device_ddr3_get_edges_def s1_def nlm_device_ddr3_init_response_def)
  have list: "map (edges s1) [0..<unat (2 :: u32)] = [S0X, SX1]" by (simp add: s1_def set_edges_def upt_rec)
  have starts: "tune_start a sl t s1 \<le> m_max_delay s1" for t using assms(7) [of t] same by (simp add: tune_start_def split: if_splits)
  have two: "tune_all a sl [S0X, SX1] s1 = None \<or> (\<exists>s'. tune_all a sl [S0X, SX1] s1 = Some (NLM_DDR3_TUNING_MAX_DELAY_REACHED, s'))"
  proof -
    obtain u where u: "asks sl s1 u" "core u = core s1" "tune_one a sl S0X s1 = Some (NLM_DDR3_TUNING_MAX_DELAY_REACHED, u) \<or>
        (\<exists>d. tune_one a sl S0X s1 = Some (NLM_OK, set_last_delay a sl S0X d u)) \<or> tune_one a sl S0X s1 = None"
      using tune_one_returns [of s1 a sl S0X 0 VAL_X] none assms(6) starts same(1) by (auto simp: reads_def)
    have second: "\<exists>s'. tune_one a sl SX1 (set_last_delay a sl S0X d u) = Some (NLM_DDR3_TUNING_MAX_DELAY_REACHED, s')" for d
    proof (rule tune_one_read)
      have "tune_start a sl SX1 (set_last_delay a sl S0X d u) = tune_start a sl SX1 s1"
        using core_fields(8) [OF u(2)] by (simp add: set_last_delay_same tune_start_def)
      then show "tune_start a sl SX1 (set_last_delay a sl S0X d u) \<le> m_max_delay (set_last_delay a sl S0X d u)"
        using starts [of SX1] core_fields(2) [OF u(2)] by (simp add: set_last_delay_same)
    qed (use core_fields(1) [OF u(2)] same(1) assms(6) asks_read [OF u(1) none] in \<open>simp_all add: set_last_delay_same\<close>)
    from u(3) show ?thesis
    proof (elim disjE exE)
      fix d assume d: "tune_one a sl S0X s1 = Some (NLM_OK, set_last_delay a sl S0X d u)"
      obtain s' where "tune_one a sl SX1 (set_last_delay a sl S0X d u) = Some (NLM_DDR3_TUNING_MAX_DELAY_REACHED, s')"
        using second by blast
      with d show ?thesis by simp
    qed simp_all
  qed
  have "nlm_device_ddr3_tune_edge a sl s = Option.bind (tune_all a sl [S0X, SX1] s1)
      (\<lambda>(status, s2). if status \<noteq> NLM_OK then Some (status, s2) else finish_slice a sl s2)"
    unfolding nlm_device_ddr3_tune_edge_def Let_def edges bind.bind_lunit prod.case list ..
  with two show ?thesis by (elim disjE exE) (simp_all del: tune_all.simps)
qed

lemma read_leveling_fails_witness:
  "let s = tuning_state\<lparr>leveling_type_status := READ, m_rdlvl_delay := \<lambda>_ _ _. 8\<rparr> in
     nlm_device_ddr3_tune_edge (Rdlvl 0) 0 s = None \<or>
     (\<exists>s'. nlm_device_ddr3_tune_edge (Rdlvl 0) 0 s = Some (NLM_DDR3_TUNING_MAX_DELAY_REACHED, s'))"
  unfolding Let_def
  by (rule read_leveling_fails)
    (use tuning_state_ready in \<open>simp_all add: ready_def tuning_state_simps tune_start_def\<close>,
     simp_all add: tuning_state_def leveling_zero_def word_le_nat_alt)

section \<open>What gate training cannot do\<close>

text \<open>The search for the preamble takes the status of a successful step for a failure, so it ends after one full cycle.\<close>

lemma preamble_one_step:
  assumes "resp \<noteq> 0" "m_phy_ctrl_1 s sl AND 7 \<noteq> 0"
    and "nlm_device_ddr3_get_response sl d (set_phy_ctrl_1 sl (m_phy_ctrl_1 s sl - 1) (nlm_device_ddr3_init_response sl s)) = Some (r, s')"
  shows "find_preamble sl d resp 1 s = Some s'"
  using assms by (subst find_preamble.simps) (simp add: full_cycle_steps find_preamble.simps [of sl d r 0])

text \<open>With the period 1 that the declaration of the state gives as the initial value, and the gate opened in the preamble, the
  delays of a slice divide by zero.\<close>

lemma gate_divides_by_zero: "sim_ps_period s = 1 \<Longrightarrow> m_in_preamble s \<noteq> 0 \<Longrightarrow> gate_delays rd_offset rd_data sl s = None"
  by (simp add: gate_delays_def assert_then_def Let_def)

section \<open>The values of responses in read mode\<close>

text \<open>Whatever the controller answers, every response recorded for a slice in read mode, once its old responses have been cleared, is all
  zeros, all ones, the unknown value, or the mark of a response that was not read.\<close>

theorem read_responses_typed:
  assumes "ready s" "leveling_type_status s = READ" "sl < unat (m_max_slice s)" "m_retry_count s \<noteq> 0"
    and "asks sl (nlm_device_ddr3_init_response sl s) s'"
  shows "recorded sl s' d \<in> {0, 0xff, VAL_X, VAL_Z}"
proof -
  have "m_save_responses s \<noteq> 0" using assms(1) by (simp add: ready_def)
  then have "reads sl (nlm_device_ddr3_init_response sl s)"
    using assms(1-4) by (simp add: nlm_device_ddr3_init_response_def reads_def recorded_def read_values ready_def)
  from asks_read [OF assms(5) this] have "read_value (recorded sl s' d)" by (simp add: reads_def)
  then show ?thesis by (auto simp: read_value_def)
qed

lemma read_responses_typed_witness:
  "\<exists>x u. nlm_device_ddr3_get_response 0 7 (nlm_device_ddr3_init_response 0 (tuning_state\<lparr>leveling_type_status := READ\<rparr>)) = Some (x, u) \<and>
     recorded 0 u 7 \<in> {0, 0xff, VAL_X, VAL_Z}"
proof -
  let ?s = "tuning_state\<lparr>leveling_type_status := READ\<rparr>"
  let ?i = "nlm_device_ddr3_init_response 0 ?s"
  have s: "ready ?s" "leveling_type_status ?s = READ" "0 < unat (m_max_slice ?s)" "m_retry_count ?s \<noteq> 0"
    using tuning_state_ready by (simp_all add: ready_def tuning_state_def leveling_zero_def)
  have i: "ready ?i" "m_min_delay ?i \<le> 7" "7 \<le> m_max_delay ?i"
    using s(1) by (simp_all add: ready_def nlm_device_ddr3_init_response_def tuning_state_simps word_le_nat_alt)
  obtain x u where u: "nlm_device_ddr3_get_response 0 7 ?i = Some (x, u)" using get_response_ready [OF i, of 0] by blast
  have "asks 0 ?i u" by (rule asks.ask [OF u i(2,3) asks.stop])
  then show ?thesis using u read_responses_typed [OF s] by blast
qed

end
