(* ===== verification/Demo_Load.thy ===== *)
theory Demo_Load
  imports Dev_Params Loader_Load
begin

unbundle bit_operations_syntax

text \<open>
  How a program of the kit loads a database (load_db_from_file and load_db of src/dpi_demo.c; src/demo.c and
  src/dpi_loop.c have the same text): it asks whether the database fits, starts the loading and then polls
  \<^verbatim>\<open>NLM_DATABASE_LOADER_STATUS\<close> until the loader is done. Each poll makes the loader execute one command, so the
  loop of the program takes the place of the loop of the synchronous policies.
\<close>

section \<open>Loading an image\<close>

text \<open>How a function of the program ends: it returns a status, or it ends the program with an exit code.\<close>

datatype outcome = Returns nlm_status | Exits int

text \<open>The local variable \<^verbatim>\<open>status\<close> at address \<open>a\<close> after a call that wrote \<open>out\<close>.\<close>

definition status_at :: "addr \<Rightarrow> (addr \<times> stored) list \<Rightarrow> nlm_status \<Rightarrow> nlm_status" where
  "status_at a out st = (case map_of out a of Some (S_status st') \<Rightarrow> st' | _ \<Rightarrow> st)"

definition handle_of :: "addr \<Rightarrow> api \<Rightarrow> handle" where
  "handle_of device s = (if device = NULL then None else api_handle s)"

partial_function (option) wait_loaded :: "addr \<Rightarrow> addr \<Rightarrow> nlm_status \<Rightarrow> api \<Rightarrow> (outcome \<times> api) option" where
  "wait_loaded device a st s =
     (if st = NLM_OK then Some (Returns NLM_OK, s)
      else if st \<noteq> NLM_LOADER_IN_PROGRESS then Some (Exits (int (nlm_status_code st)), s)
      else Option.bind (nlm_device_get_param device NLM_DATABASE_LOADER_STATUS [A_ptr a] s) (\<lambda>(r, out, s1).
        if r \<noteq> NLM_OK then Some (Returns r, s1) else wait_loaded device a (status_at a out st) s1))"

definition load_image ::
  "addr \<Rightarrow> addr \<Rightarrow> fms_image option \<Rightarrow> u32 \<Rightarrow> u32 \<Rightarrow> u32 \<Rightarrow> sha_state \<Rightarrow> api \<Rightarrow> (outcome \<times> sha_state \<times> api) option" where
  "load_image device a database dbsize db_id num_of_copies sh s =
     Option.bind (nlm_device_try_load_database (handle_of device s) database dbsize (- 1) db_id num_of_copies sh (synced s)) (\<lambda>(st, sh1).
     if st \<noteq> NLM_OK then Some (Returns st, sh1, s)
     else Option.bind (with_loader (nlm_device_load_database (handle_of device s) database dbsize db_id num_of_copies) s) (\<lambda>(st, s1).
       map_option (\<lambda>(res, s2). (res, sh1, s2)) (wait_loaded device a st s1)))"

text \<open>The file is \<^term>\<open>None\<close> when one of the calls that open, measure, read and close it fails.\<close>

definition load_db_from_file ::
  "addr \<Rightarrow> addr \<Rightarrow> (fms_image \<times> u32) option \<Rightarrow> u32 \<Rightarrow> u32 \<Rightarrow> sha_state \<Rightarrow> api \<Rightarrow> (outcome \<times> sha_state \<times> api) option" where
  "load_db_from_file device a img db_id num_of_copies sh s =
     (case img of None \<Rightarrow> Some (Exits 1, sh, s)
      | Some (database, dbsize) \<Rightarrow> load_image device a (Some database) dbsize db_id num_of_copies sh s)"

text \<open>The globals \<^verbatim>\<open>db_image\<close> and \<^verbatim>\<open>db_size\<close> of the program; nothing in it ever sets them.\<close>

definition db_image :: "fms_image option" where "db_image = None"
definition db_size :: u32 where "db_size = 0"

definition load_db :: "addr \<Rightarrow> addr \<Rightarrow> u32 \<Rightarrow> u32 \<Rightarrow> sha_state \<Rightarrow> api \<Rightarrow> (outcome \<times> sha_state \<times> api) option" where
  "load_db device a db_id num_of_copies sh s = load_image device a db_image db_size db_id num_of_copies sh s"

section \<open>Polling executes the queue\<close>

definition ends_with :: "nlm_status \<Rightarrow> outcome" where
  "ends_with st = (if st = NLM_OK then Returns NLM_OK else Exits (int (nlm_status_code st)))"

lemma wait_loaded_done: "st \<noteq> NLM_LOADER_IN_PROGRESS \<Longrightarrow> wait_loaded device a st s = Some (ends_with st, s)"
  by (subst wait_loaded.simps) (simp add: ends_with_def)

lemma poll_once:
  assumes dev: "device \<noteq> NULL" "a \<noteq> NULL" "api_handle s = master"
    and ex: "nlm_device_loader_cmd_exec_fms master (synced s) = Some (st, p)"
  shows "wait_loaded device a NLM_LOADER_IN_PROGRESS s = wait_loaded device a st (put_loader p s)"
proof -
  have "thread_id (dev (packets s)) = 0" using dev(3) by (simp add: api_handle_def)
  then have "nlm_device_get_param device NLM_DATABASE_LOADER_STATUS [A_ptr a] s = Some (NLM_OK, [(a, S_status st)], put_loader p s)"
    using dev with_loader_Some [of "nlm_device_loader_cmd_exec_fms master", OF ex]
    by (simp add: nlm_device_get_param_def checked_def get_param_def get_loader_status_def store_def)
  then show ?thesis by (subst wait_loaded.simps) (simp add: status_at_def)
qed

lemma wait_loaded_runs:
  assumes "exec_all who p = Some (st, r)"
  shows "who = master \<and> device \<noteq> NULL \<and> a \<noteq> NULL \<and> api_handle s = master \<and> synced s = p \<longrightarrow>
    (\<exists>s'. wait_loaded device a NLM_LOADER_IN_PROGRESS s = Some (ends_with st, s') \<and> synced s' = r)"
proof -
  have "\<forall>s. who = master \<and> device \<noteq> NULL \<and> a \<noteq> NULL \<and> api_handle s = master \<and> synced s = p \<longrightarrow>
    (\<exists>s'. wait_loaded device a NLM_LOADER_IN_PROGRESS s = Some (ends_with (fst (st, r)), s') \<and> synced s' = snd (st, r))"
  proof (rule exec_all.raw_induct [where P = "\<lambda>who p res. \<forall>s. who = master \<and> device \<noteq> NULL \<and> a \<noteq> NULL \<and> api_handle s = master \<and>
      synced s = p \<longrightarrow> (\<exists>s'. wait_loaded device a NLM_LOADER_IN_PROGRESS s = Some (ends_with (fst res), s') \<and> synced s' = snd res)",
      OF _ assms], intro allI impI)
    fix f who p s and res :: "nlm_status \<times> fms_loader"
    assume IH: "\<And>who p res. f who p = Some res \<Longrightarrow> \<forall>s. who = master \<and> device \<noteq> NULL \<and> a \<noteq> NULL \<and> api_handle s = master \<and>
        synced s = p \<longrightarrow> (\<exists>s'. wait_loaded device a NLM_LOADER_IN_PROGRESS s = Some (ends_with (fst res), s') \<and> synced s' = snd res)"
      and step: "Option.bind (nlm_device_loader_cmd_exec_fms who p) (\<lambda>(st, p1).
        if st \<noteq> NLM_LOADER_IN_PROGRESS then Some (st, p1) else f who p1) = Some res"
      and h: "who = master \<and> device \<noteq> NULL \<and> a \<noteq> NULL \<and> api_handle s = master \<and> synced s = p"
    from step obtain st p1 where e: "nlm_device_loader_cmd_exec_fms who p = Some (st, p1)" by (auto split: bind_splits)
    have w: "wait_loaded device a NLM_LOADER_IN_PROGRESS s = wait_loaded device a st (put_loader p1 s)"
      using poll_once [of device a s st p1] e h by simp
    show "\<exists>s'. wait_loaded device a NLM_LOADER_IN_PROGRESS s = Some (ends_with (fst res), s') \<and> synced s' = snd res"
    proof (cases "st = NLM_LOADER_IN_PROGRESS")
      case True
      then have "f who p1 = Some res" using step e by simp
      from IH [OF this, THEN spec, of "put_loader p1 s"] show ?thesis using h w True by simp
    next
      case False
      then show ?thesis using step e w wait_loaded_done [OF False, of device a "put_loader p1 s"] by auto
    qed
  qed
  then show ?thesis by simp
qed

section \<open>A database is loaded\<close>

lemma try_load_idle:
  assumes idle: "loader_idle ans p" and db: "db_id \<le> NLM_MAX_DATABASE_ID" and none: "shadow_block_list p db_id = []"
    and n: "0 < num_of_copies" "num_of_copies \<le> 4" and head: "nlm_loader_fms_check_params_and_head (Some im) dbsize p = Some NLM_OK"
    and m: "m = unat (block_cnt_of dbsize)"
  shows "nlm_device_try_load_database master (Some im) dbsize (- 1) db_id num_of_copies sh p =
    Some (if num_array_blocks_free p < m * unat num_of_copies then (NLM_INVALID_DATABASE_SIZE, sh)
          else checksums_ok (take m (im_blocks im)) sh)"
proof -
  let ?c = "block_cnt_of dbsize"
  have c: "unat ?c \<le> 12" using check_params_OK(2) [OF head] idle_sel(9) [OF idle] by linarith
  note prod = small_product [OF c n(2)]
  have af: "num_array_blocks_free p \<le> 12" using num_array_blocks_free_le [of p] idle_sel(9) [OF idle] by linarith
  have "word_of_nat (num_array_blocks_free p) < ?c * num_of_copies \<longleftrightarrow> num_array_blocks_free p < m * unat num_of_copies"
    using free_compare [of "?c * num_of_copies", OF _ af] prod unfolding m by simp
  then have sp: "\<not> try_load_space ?c num_of_copies [] p \<longleftrightarrow> num_array_blocks_free p < m * unat num_of_copies"
    using n(1) by (simp add: try_load_space_def not_le)
  have "\<not> (- 1 :: u32) \<le> 3" by code_simp
  then have g: "\<not> 4 < num_of_copies" "\<not> NLM_MAX_DATABASE_ID < db_id" "db_id \<noteq> - 1"
    using n(2) db by (auto simp: not_less NLM_MAX_DATABASE_ID_def)
  show ?thesis
    unfolding nlm_device_try_load_database_def check_master_def using g head none sp m by simp
qed

lemma load_ends_waits:
  assumes "load_ends policy (nlm_device_load_database master database dbsize db_id num_of_copies (synced s)) r"
    and dev: "device \<noteq> NULL" "a \<noteq> NULL" "api_handle s = master"
  shows "\<exists>st s1 s2. with_loader (nlm_device_load_database master database dbsize db_id num_of_copies) s = Some (st, s1) \<and>
    wait_loaded device a st s1 = Some (Returns NLM_OK, s2) \<and> synced s2 = r"
  using assms(1) unfolding load_ends_def
proof (elim disjE conjE exE)
  assume "nlm_device_load_database master database dbsize db_id num_of_copies (synced s) = Some (NLM_OK, r)"
  then have "with_loader (nlm_device_load_database master database dbsize db_id num_of_copies) s = Some (NLM_OK, put_loader r s)"
    by (rule with_loader_Some)
  then show ?thesis using wait_loaded_done [of NLM_OK device a "put_loader r s"] by (simp add: ends_with_def)
next
  fix p assume p: "nlm_device_load_database master database dbsize db_id num_of_copies (synced s) = Some (NLM_LOADER_IN_PROGRESS, p)"
    "exec_all master p = Some (NLM_OK, r)"
  have "with_loader (nlm_device_load_database master database dbsize db_id num_of_copies) s = Some (NLM_LOADER_IN_PROGRESS, put_loader p s)"
    using p(1) by (rule with_loader_Some)
  moreover obtain s2 where "wait_loaded device a NLM_LOADER_IN_PROGRESS (put_loader p s) = Some (ends_with NLM_OK, s2)" "synced s2 = r"
    using wait_loaded_runs [OF p(2), of device a "put_loader p s"] dev by auto
  ultimately show ?thesis by (auto simp: ends_with_def)
qed

text \<open>C6. A program of the kit that loads a database from a file always comes back from its polling loop, whatever the load policy.
  On the master ring, with an idle loader, a database that is not loaded yet, an image whose header is accepted and one to
  four copies: without room in the array the size is reported and with a wrong checksum the checksum, both before anything is changed;
  when only the memory of the blocks is full the program ends with the code of the size error and the loader is as before;
  otherwise it returns \<^const>\<open>NLM_OK\<close> with the loader idle again, the blocks of the image stored, tagged and listed with their
  groups, each in \<open>num_of_copies\<close> array blocks, and all other databases and their copies as before.\<close>

theorem load_db_from_file_correct:
  assumes idle: "loader_idle ans (synced s)" and dev: "device \<noteq> NULL" "a \<noteq> NULL" "api_handle s = master"
    and db: "db_id \<le> NLM_MAX_DATABASE_ID" and none: "shadow_block_list (synced s) db_id = []"
    and n: "0 < num_of_copies" "num_of_copies \<le> 4"
    and head: "nlm_loader_fms_check_params_and_head (Some im) dbsize (synced s) = Some NLM_OK"
    and gl: "\<forall>i. length (block_group_list (synced s) i) = 1024" and m: "m = unat (block_cnt_of dbsize)"
    and chk: "checksums_ok (take m (im_blocks im)) sh = (chk, sh1)"
    and res: "res = load_db_from_file device a (Some (im, dbsize)) db_id num_of_copies sh s"
  shows "if num_array_blocks_free (synced s) < m * unat num_of_copies then res = Some (Returns NLM_INVALID_DATABASE_SIZE, sh, s)
    else if chk \<noteq> NLM_OK then res = Some (Returns chk, sh1, s)
    else if num_shadow_blocks_free (synced s) < m
      then \<exists>s1. res = Some (Exits (int (nlm_status_code NLM_INVALID_DATABASE_SIZE)), sh1, s1) \<and> synced s1 = synced s
    else \<exists>s1 ns. res = Some (Returns NLM_OK, sh1, s1) \<and> loader_idle ans (synced s1) \<and> length ns = m \<and>
      shadow_block_list (synced s1) = (shadow_block_list (synced s))(db_id := ns) \<and>
      (\<forall>k < m. extension_area (synced s1) (ns ! k) = tagged db_id (im_blocks im ! k) \<and>
         groups_of (synced s1) (ns ! k) = collect_groups (row (im_blocks im ! k)) []) \<and>
      (\<forall>i < nblocks (synced s). card (array_copies (synced s1) i) =
         (if i \<in> set ns then unat num_of_copies else card (array_copies (synced s) i)))"
proof -
  let ?p = "synced s" and ?load = "nlm_device_load_database master (Some im) dbsize db_id num_of_copies"
  have h: "handle_of device s = master" using dev by (simp add: handle_of_def)
  note q = load_database_queued [OF idle db none n head gl m]
  have r: "res = (if num_array_blocks_free ?p < m * unat num_of_copies then Some (Returns NLM_INVALID_DATABASE_SIZE, sh, s)
      else if chk \<noteq> NLM_OK then Some (Returns chk, sh1, s)
      else Option.bind (with_loader ?load s) (\<lambda>(st, s1). map_option (\<lambda>(x, s2). (x, sh1, s2)) (wait_loaded device a st s1)))"
    unfolding res load_db_from_file_def load_image_def h by (simp add: try_load_idle [OF idle db none n head m] chk)
  show ?thesis
  proof (cases "num_array_blocks_free ?p < m * unat num_of_copies \<or> chk \<noteq> NLM_OK")
    case True
    then show ?thesis unfolding r by auto
  next
    case False
    show ?thesis
    proof (cases "num_shadow_blocks_free ?p < m")
      case True
      then have "?load ?p = Some (NLM_INVALID_DATABASE_SIZE, ?p)" using q by simp
      then have "with_loader ?load s = Some (NLM_INVALID_DATABASE_SIZE, put_loader ?p s)" by (rule with_loader_Some)
      moreover have "wait_loaded device a NLM_INVALID_DATABASE_SIZE (put_loader ?p s) =
          Some (Exits (int (nlm_status_code NLM_INVALID_DATABASE_SIZE)), put_loader ?p s)"
        using wait_loaded_done [of NLM_INVALID_DATABASE_SIZE] by (simp add: ends_with_def)
      ultimately have "res = Some (Exits (int (nlm_status_code NLM_INVALID_DATABASE_SIZE)), sh1, put_loader ?p s)"
        using False unfolding r by simp
      then show ?thesis using True False by simp
    next
      case room: False
      then obtain p ns where p: "load_ends (database_load_policy ?p) (?load ?p) p" and facts:
        "loader_idle ans p" "length ns = m" "shadow_block_list p = (shadow_block_list ?p)(db_id := ns)"
        "\<forall>k < m. extension_area p (ns ! k) = tagged db_id (im_blocks im ! k) \<and>
           groups_of p (ns ! k) = collect_groups (row (im_blocks im ! k)) []"
        "\<forall>i < nblocks ?p. card (array_copies p i) = (if i \<in> set ns then unat num_of_copies else card (array_copies ?p i))"
        using q False by (auto simp: not_less)
      obtain st s1 s2 where w: "with_loader ?load s = Some (st, s1)" "wait_loaded device a st s1 = Some (Returns NLM_OK, s2)" "synced s2 = p"
        using load_ends_waits [OF p dev] by blast
      then have "res = Some (Returns NLM_OK, sh1, s2)" using False unfolding r by simp
      then show ?thesis using facts w(3) False room by auto
    qed
  qed
qed

section \<open>An example\<close>

text \<open>The sample image with the checksum of its block, and the sample loader with the asynchronous policy.\<close>

definition sealed :: "sha_state \<Rightarrow> fms_block \<Rightarrow> fms_block" where
  "sealed sh b = b\<lparr>checksum := map (\<lambda>i. byteswap_constant_32
     (the (fst (snd (nlm_chksum_sha256 (Some (block_bytes b)) (ucast (sizeof_block - 32)) (Some (replicate 8 0)) sh))) ! i)) [0..<8]\<rparr>"

lemma sealed_ok: "\<exists>sh1. checksums_ok [sealed sh b] sh = (NLM_OK, sh1)"
proof -
  have "block_bytes (sealed sh b) = block_bytes b" by (simp add: block_bytes_def sealed_def)
  then show ?thesis by (simp add: checksum_ok_def list_all_iff split_beta) (simp add: sealed_def)
qed

definition sealed_image :: "sha_state \<Rightarrow> fms_image" where
  "sealed_image sh = sample_image\<lparr>im_blocks := map (sealed sh) (im_blocks sample_image)\<rparr>"

definition sample_async :: fms_loader where
  "sample_async = sample_loader\<lparr>database_load_policy := NLM_DATABASE_LOAD_POLICY_ASYNC\<rparr>"

lemma idle_any_policy: "loader_idle ans (p\<lparr>database_load_policy := x\<rparr>) = loader_idle ans p"
proof -
  have e: "pending (p\<lparr>database_load_policy := x\<rparr>) = pending p" "books_of (p\<lparr>database_load_policy := x\<rparr>) = books_of p"
    by (simp_all add: pending_def num_pending_def books_of_def)
  show ?thesis by (simp add: loader_idle_def at_head_def well_kept_def cmd_ring_ok_def settled_def e)
qed

lemma sample_async_facts:
  "loader_idle prompt_device sample_async" "shadow_block_list sample_async = shadow_block_list sample_loader"
  "num_array_blocks_free sample_async = 3" "num_shadow_blocks_free sample_async = 3"
  "length (block_group_list sample_async i) = 1024"
  "nlm_loader_fms_check_params_and_head (Some (sealed_image sh)) 229420 sample_async = Some NLM_OK"
proof -
  show "loader_idle prompt_device sample_async" using sample_idle by (simp add: sample_async_def idle_any_policy)
  show "shadow_block_list sample_async = shadow_block_list sample_loader"
    by (simp add: sample_async_def shadow_block_list_def fun_eq_iff)
  show "num_array_blocks_free sample_async = 3" "num_shadow_blocks_free sample_async = 3" "length (block_group_list sample_async i) = 1024"
    using sample_free by (simp_all add: sample_async_def num_array_blocks_free_def)
      (simp_all add: num_shadow_blocks_free_def sample_loader_def upt_rec)
  show "nlm_loader_fms_check_params_and_head (Some (sealed_image sh)) 229420 sample_async = Some NLM_OK"
    using sample_size by (simp add: nlm_loader_fms_check_params_and_head_def Let_def sample_image_def sealed_image_def sealed_def
        sample_loader_def sample_async_def)
qed

definition async_api :: api where
  "async_api = (sample_api \<lparr>trace = [], answer = prompt_device\<rparr>)\<lparr>loader := sample_async\<rparr>"

lemma load_db_from_file_correct_witness:
  "\<forall>sh. \<exists>sh1 s1 i. load_db_from_file 1 8 (Some (sealed_image sh, 229420)) 2 2 sh async_api = Some (Returns NLM_OK, sh1, s1) \<and>
    shadow_block_list (synced s1) 1 = [0] \<and> shadow_block_list (synced s1) 2 = [i] \<and> groups_of (synced s1) i = [5]"
proof
  fix sh
  have sy: "synced async_api = sample_async"
    by (simp add: synced_def async_api_def api_hw_def)
      (simp add: sample_api_simps(1) [unfolded api_hw_def] sample_async_def sample_loader_def)
  have h: "api_handle async_api = master"
    using sample_api_simps [of "\<lparr>trace = [], answer = prompt_device\<rparr>"] by (simp add: async_api_def api_handle_def)
  have b: "shadow_block_list sample_loader 2 = []" by (simp add: shadow_block_list_def sample_loader_def upt_rec)
  have im: "take 1 (im_blocks (sealed_image sh)) = [sealed sh (im_blocks sample_image ! 0)]" "im_blocks (sealed_image sh) ! 0 = sealed sh (im_blocks sample_image ! 0)"
    by (simp_all add: sealed_image_def sample_image_def)
  obtain sh1 where c: "checksums_ok (take 1 (im_blocks (sealed_image sh))) sh = (NLM_OK, sh1)" using sealed_ok im(1) by metis
  have g: "collect_groups (row (im_blocks (sealed_image sh) ! 0)) [] = [5]"
  proof -
    have "collect_groups (row (im_blocks sample_image ! 0)) [] = [5]" by code_simp
    then show ?thesis by (simp add: im(2) sealed_def)
  qed
  let ?res = "load_db_from_file 1 8 (Some (sealed_image sh, 229420)) 2 2 sh async_api"
  have "\<exists>s1 ns. ?res = Some (Returns NLM_OK, sh1, s1) \<and> length ns = 1 \<and>
      shadow_block_list (synced s1) = (shadow_block_list sample_loader)(2 := ns) \<and>
      (\<forall>k < 1. groups_of (synced s1) (ns ! k) = collect_groups (row (im_blocks (sealed_image sh) ! k)) [])"
    using load_db_from_file_correct [of prompt_device async_api 1 8 2 2 "sealed_image sh" 229420 1 sh NLM_OK sh1 ?res, unfolded sy]
      h sample_async_facts b c sample_size(1) by (auto simp: NLM_MAX_DATABASE_ID_def)
  then obtain s1 ns where q: "?res = Some (Returns NLM_OK, sh1, s1)" "length ns = 1"
    "shadow_block_list (synced s1) = (shadow_block_list sample_loader)(2 := ns)" "groups_of (synced s1) (ns ! 0) = [5]"
    using g by auto
  obtain i where "ns = [i]" using q(2) by (auto simp: length_Suc_conv)
  then show "\<exists>sh1 s1 i. ?res = Some (Returns NLM_OK, sh1, s1) \<and>
      shadow_block_list (synced s1) 1 = [0] \<and> shadow_block_list (synced s1) 2 = [i] \<and> groups_of (synced s1) i = [5]"
    using q by (intro exI [of _ sh1] exI [of _ s1] exI [of _ i]) (simp add: sample_blocks)
qed

text \<open>Without a file the program has no image at all, whatever rule it is given: it gives up.\<close>

lemma load_db_fails:
  assumes "api_handle s = master" and "device \<noteq> NULL" and "db_id \<le> NLM_MAX_DATABASE_ID" and "num_of_copies \<le> 4"
  shows "load_db device a db_id num_of_copies sh s = Some (Returns NLM_INVALID_ARGUMENT, sh, s)"
proof -
  have "\<not> NLM_MAX_DATABASE_ID < db_id" "\<not> 4 < num_of_copies" using assms(3,4) by auto
  then show ?thesis using assms(1,2)
    by (simp add: load_db_def load_image_def db_image_def handle_of_def nlm_device_try_load_database_def check_master_def
        nlm_loader_fms_check_params_and_head_def)
qed

end
