(* ===== verification/Demo_Packet.thy ===== *)
theory Demo_Packet
  imports Flow Formats "HOL-Library.Char_ord"
begin

unbundle bit_operations_syntax

text \<open>
  The packets of src/dpi_demo.c: its options (process_args), the memory it searches (init_packet_memory), the Ethernet
  frames it sends over the XAUI interface of the device (packet_tx, ip_chksum) and how it looks at a received frame (callback).
  The packet capture library only sends and delivers the frames.
\<close>

section \<open>Options\<close>

text \<open>The function atoi of the C library: white space, a sign, digits. A value that an \<^verbatim>\<open>int\<close> cannot hold is undefined
  in C; here it is cut to 32 bits.\<close>

definition is_space :: "char \<Rightarrow> bool" where
  "is_space c \<longleftrightarrow> c = CHR '' '' \<or> 9 \<le> (of_char c :: nat) \<and> (of_char c :: nat) \<le> 13"

fun digits :: "string \<Rightarrow> int \<Rightarrow> int" where
  "digits [] n = n"
| "digits (c # cs) n = (if 48 \<le> (of_char c :: nat) \<and> (of_char c :: nat) \<le> 57 then digits cs (10 * n + (of_char c - 48)) else n)"

definition atoi :: "string \<Rightarrow> u32" where
  "atoi s = word_of_int
     (case dropWhile is_space s of [] \<Rightarrow> 0
      | c # cs \<Rightarrow> if c = CHR ''-'' then - digits cs 0 else if c = CHR ''+'' then digits cs 0 else digits (c # cs) 0)"

datatype ring_mode = RING_MODE_RUN_ON_MASTER | RING_MODE_MASTER_ONLY | RING_MODE_ATTACH_ONLY | RING_MODE_MASTER_AND_ATTACH

record settings =
  flag_verbose :: u32
  flag_group_id :: u32
  flag_spill_size :: u32
  num_of_copies :: u32
  min_packet_size :: u32
  max_packet_size :: u32
  db_file :: "string option"
  regex_str :: string
  input_data_file :: "string option"
  is_master :: bool
  do_attach :: bool
  attached_ring_id :: u32

definition default_settings :: settings where
  "default_settings = \<lparr>flag_verbose = 0, flag_group_id = 1, flag_spill_size = 0x180000, num_of_copies = 1, min_packet_size = 64,
     max_packet_size = 32768, db_file = None, regex_str = ''abcd'', input_data_file = None, is_master = False, do_attach = False,
     attached_ring_id = 0\<rparr>"

text \<open>The program ends (\<^term>\<open>None\<close>) on a bad value and, after printing the usage, on every option without a case.\<close>

definition process_option :: "char \<times> string \<Rightarrow> settings \<Rightarrow> settings option" where
  "process_option = (\<lambda>(opt, optarg) s.
     if opt = CHR ''v'' then Some (s\<lparr>flag_verbose := flag_verbose s + 1\<rparr>)
     else if opt = CHR ''g'' then let v = atoi optarg in if v = 0 \<or> v > 1023 then None else Some (s\<lparr>flag_group_id := v\<rparr>)
     else if opt = CHR ''e'' then Some (s\<lparr>flag_spill_size := atoi optarg * 1024 * 1024\<rparr>)
     else if opt = CHR ''c'' then let v = atoi optarg in if v > 4 then None else Some (s\<lparr>num_of_copies := v\<rparr>)
     else if opt = CHR ''p'' then let v = atoi optarg in if v = 0 \<or> v > 65535 then None else Some (s\<lparr>min_packet_size := v\<rparr>)
     else if opt = CHR ''P'' then let v = atoi optarg in if v = 0 \<or> v > 65535 then None else Some (s\<lparr>max_packet_size := v\<rparr>)
     else if opt = CHR ''d'' then Some (s\<lparr>db_file := Some optarg\<rparr>)
     else if opt = CHR ''r'' then Some (s\<lparr>regex_str := optarg\<rparr>)
     else if opt = CHR ''i'' then Some (s\<lparr>input_data_file := Some optarg\<rparr>)
     else if opt = CHR ''m'' then Some (s\<lparr>is_master := True\<rparr>)
     else if opt = CHR ''a'' then
       let v = atoi optarg in if v > 3 then None else Some (s\<lparr>do_attach := True, attached_ring_id := v\<rparr>)
     else None)"

text \<open>The options are those getopt_long of the C library delivers, with their arguments.\<close>

fun process_options :: "(char \<times> string) list \<Rightarrow> settings \<Rightarrow> settings option" where
  "process_options [] s = Some s"
| "process_options (opt # opts) s = Option.bind (process_option opt s) (process_options opts)"

definition process_args :: "(char \<times> string) list \<Rightarrow> (settings \<times> ring_mode) option" where
  "process_args opts =
     Option.bind (process_options opts default_settings) (\<lambda>s.
     if is_master s \<and> do_attach s \<and> attached_ring_id s \<noteq> 0 then None
     else if \<not> is_master s \<and> do_attach s \<and> attached_ring_id s = 0 then None
     else Some (s,
       if \<not> is_master s \<and> \<not> do_attach s then RING_MODE_RUN_ON_MASTER
       else if \<not> is_master s \<and> do_attach s then RING_MODE_ATTACH_ONLY
       else if is_master s \<and> \<not> do_attach s then RING_MODE_MASTER_ONLY
       else RING_MODE_MASTER_AND_ATTACH))"

section \<open>Writing into a buffer\<close>

definition put :: "nat \<Rightarrow> 'a list \<Rightarrow> 'a list \<Rightarrow> 'a list" where
  "put off bs buf = take off buf @ bs @ drop (off + length bs) buf"

definition eval_str :: "u8 list" where "eval_str = [0x61, 0x62, 0x63, 0x64] @ replicate 60 0"

text \<open>The memory that is searched. The input file is \<^term>\<open>None\<close> without the option, \<^term>\<open>Some None\<close> when it cannot be opened. The loop over
  the memory has as many passes as there are multiples of 64 below \<open>mem_size - 64\<close>; less memory than that would be overrun.\<close>

definition fill_memory :: "nat \<Rightarrow> u8 list \<Rightarrow> u8 list" where
  "fill_memory mem_size mem = fold (\<lambda>k. put (64 * k) eval_str) [0..<(mem_size - 64 + 63) div 64] mem"

definition init_packet_memory :: "u8 list option option \<Rightarrow> bool \<Rightarrow> nat \<Rightarrow> (nlm_status \<times> u8 list) option" where
  "init_packet_memory input has_db mem_size =
     (let mem = replicate mem_size 0 in
      case input of
        Some None \<Rightarrow> Some (NLM_INVALID_ARGUMENT, mem)
      | Some (Some bytes) \<Rightarrow> Some (NLM_OK, put 0 (take mem_size bytes) mem)
      | None \<Rightarrow>
          if \<not> has_db then assert_then (64 \<le> mem_size) (Some (NLM_OK, fill_memory mem_size mem))
          else Some (NLM_OK, replicate mem_size 0xaa))"

section \<open>The frame of a packet\<close>

definition ETHERTYPE_FMS :: u16 where "ETHERTYPE_FMS = 0x4321"
definition ETHERTYPE_IP :: u16 where "ETHERTYPE_IP = 0x0800"
definition IP_PROTO_UDP :: u16 where "IP_PROTO_UDP = 17"
definition DATA_LEN :: u16 where "DATA_LEN = 32"
definition PACKETS :: nat where "PACKETS = 32"
definition FMS_FLOW_INIT :: "3 word" where "FMS_FLOW_INIT = 1"

definition be_bytes16 :: "u16 \<Rightarrow> u8 list" where "be_bytes16 w = [ucast (drop_bit 8 w), ucast w]"

text \<open>The command header of the device. The fields \<^verbatim>\<open>gid0_hi\<close> to \<^verbatim>\<open>gid5_hi\<close> and \<^verbatim>\<open>gid0_lo\<close> to \<^verbatim>\<open>gid5_lo\<close> are two lists.\<close>

record fms_xfd =
  xf_flow_type :: "3 word"
  xf_end_anchor :: "1 word"
  xf_start_anchor :: "1 word"
  xf_gid_cnt :: "3 word"
  xf_h_offset :: u8
  xf_pad_cnt :: u8
  xf_cookie :: u8
  xf_pdf_index_hi :: u8
  xf_pdf_index_mi :: u8
  xf_pdf_index_lo :: u8
  xf_gid_hi :: "4 word list"
  xf_gid_lo :: "u8 list"

definition xfd_zero :: fms_xfd where
  "xfd_zero = \<lparr>xf_flow_type = 0, xf_end_anchor = 0, xf_start_anchor = 0, xf_gid_cnt = 0, xf_h_offset = 0, xf_pad_cnt = 0, xf_cookie = 0,
     xf_pdf_index_hi = 0, xf_pdf_index_mi = 0, xf_pdf_index_lo = 0, xf_gid_hi = replicate 6 0, xf_gid_lo = replicate 6 0\<rparr>"

definition xfd_bytes :: "fms_xfd \<Rightarrow> u8 list" where
  "xfd_bytes h =
     (let two = \<lambda>i j. push_bit 4 (ucast (xf_gid_hi h ! i)) OR ucast (xf_gid_hi h ! j); lo = \<lambda>i. xf_gid_lo h ! i
      in [push_bit 5 (ucast (xf_flow_type h)) OR push_bit 4 (ucast (xf_end_anchor h)) OR push_bit 3 (ucast (xf_start_anchor h)) OR
            ucast (xf_gid_cnt h),
          xf_h_offset h, xf_pad_cnt h, xf_cookie h, xf_pdf_index_hi h, xf_pdf_index_mi h, xf_pdf_index_lo h,
          two 1 0, lo 0, lo 1, two 3 2, lo 2, lo 3, two 5 4, lo 4, lo 5])"

text \<open>The first switch of packet_tx: the kind of the flow.\<close>

definition xfd_kind :: "3 word \<Rightarrow> nlm_flow \<Rightarrow> fms_xfd" where
  "xfd_kind flow_type flow =
     (if flow_type = FMS_FLOW_INIT then xfd_zero\<lparr>xf_flow_type := FMS_FLOW_INIT, xf_gid_cnt := 0\<rparr>
      else if flow_type = FMS_FLOW_STATELESS then
        xfd_zero\<lparr>xf_flow_type := FMS_FLOW_STATELESS, xf_end_anchor := 1, xf_start_anchor := 1, xf_gid_cnt := ucast (fl_db_group_cnt flow)\<rparr>
      else if flow_type = FMS_FLOW_STATEFUL then
        xfd_zero\<lparr>xf_flow_type := FMS_FLOW_STATEFUL, xf_end_anchor := 0, xf_start_anchor := 0,
          xf_pdf_index_hi := ucast (drop_bit 16 (fl_pdf_index flow) AND 0xff), xf_pdf_index_mi := ucast (drop_bit 8 (fl_pdf_index flow) AND 0xff),
          xf_pdf_index_lo := ucast (fl_pdf_index flow AND 0xff), xf_gid_cnt := ucast (fl_db_group_cnt flow)\<rparr>
      else xfd_zero)"

text \<open>The second switch: the groups, and the length of the header, which ends with the last group.\<close>

definition xfd_groups :: "nlm_flow \<Rightarrow> fms_xfd \<Rightarrow> fms_xfd" where
  "xfd_groups flow h =
     (let n = unat (xf_gid_cnt h) in
      if n = 0 \<or> 6 < n then h
      else h\<lparr>xf_gid_hi := map (\<lambda>i. ucast (drop_bit 8 (fl_db_group_id flow ! i) AND 0xf)) [0..<n] @ drop n (xf_gid_hi h),
             xf_gid_lo := map (\<lambda>i. ucast (fl_db_group_id flow ! i AND 0xff)) [0..<n] @ drop n (xf_gid_lo h)\<rparr>)"

definition xfd_length :: "3 word \<Rightarrow> nat" where
  "xfd_length gid_cnt =
     (if gid_cnt = 0 then 7 else if gid_cnt = 1 then 9 else if gid_cnt = 2 then 10 else if gid_cnt = 3 then 12
      else if gid_cnt = 4 then 13 else if gid_cnt = 5 then 15 else if gid_cnt = 6 then 16 else 0)"

definition fms_hdr_of :: "3 word \<Rightarrow> nlm_flow \<Rightarrow> fms_xfd" where
  "fms_hdr_of flow_type flow = xfd_groups flow ((xfd_kind flow_type flow)\<lparr>xf_h_offset := 2, xf_pad_cnt := 0, xf_cookie := 0\<rparr>)"

definition ether_header :: "u8 list" where
  "ether_header = [0x00, 0x01, 0x02, 0x03, 0x04, 0x05, 0x10, 0x20, 0x30, 0x40, 0x50, 0x60] @ be_bytes16 ETHERTYPE_FMS"

text \<open>The checksum over the ten words of an IP header; word 5 is the checksum itself.\<close>

definition ip_chksum :: "u16 list \<Rightarrow> u16 list" where
  "ip_chksum iph =
     (let ws = iph[5 := 0];
          chksum = fold (\<lambda>w c. c + ucast w) (take 10 ws) (0 :: u32);
          chksum = drop_bit 16 chksum + (chksum AND 0xffff);
          chksum = chksum + drop_bit 16 chksum
      in ws[5 := ucast (NOT chksum AND 0xffff)])"

text \<open>Version and length, total length, identification, fragment, time to live and protocol, checksum, the two addresses.\<close>

definition ip_header :: "u16 list" where
  "ip_header = ip_chksum [0x4500, 20 + 8 + 64, 1, 0, push_bit 8 128 OR IP_PROTO_UDP, 0, 0xc0a8, 0x2115, 0xc0a8, 0x3869]"

definition udp_header :: "u16 list" where "udp_header = [300, 80, 8 + DATA_LEN, 0]"

text \<open>The buffer and the length of the packet, before the cookie is set.\<close>

definition build_packet :: "3 word \<Rightarrow> nlm_flow \<Rightarrow> u8 list \<times> nat" where
  "build_packet flow_type flow =
     (let hdr = fms_hdr_of flow_type flow;
          pk1 = put 14 (xfd_bytes hdr) (put 0 ether_header (replicate 1500 0));
          n = 14 + xfd_length (xf_gid_cnt hdr);
          pk2 = put n (be_bytes16 ETHERTYPE_IP) pk1;
          pk3 = put (n + 2) (concat (map be_bytes16 ip_header)) pk2;
          pk4 = put (n + 22) (concat (map be_bytes16 udp_header)) pk3
      in (put (n + 30) eval_str pk4, n + 94))"

text \<open>The packets handed to the capture library; without the device the function returns 1. The cookie is byte 3 of the header.\<close>

definition packet_tx :: "bool \<Rightarrow> 3 word \<Rightarrow> nlm_flow \<Rightarrow> nlm_status \<times> u8 list list" where
  "packet_tx opened flow_type flow =
     (if \<not> opened then (NLM_END_OF_JOB, [])
      else let (packet, packet_length) = build_packet flow_type flow;
               packets = (if flow_type = FMS_FLOW_INIT then 1 else PACKETS)
           in (NLM_OK, map (\<lambda>i. take packet_length (packet[17 := word_of_nat i])) [0..<packets]))"

section \<open>A received frame\<close>

datatype seen =
    Addresses u32 u32
  | Results "3 word" "5 word" u8 u8
  | Command
  | Unknown

text \<open>What callback prints; reading past the end of the frame is \<^term>\<open>None\<close>.\<close>

definition callback :: "u8 list \<Rightarrow> seen option" where
  "callback packet =
     (let be16 = \<lambda>i. push_bit 8 (ucast (packet ! i)) OR (ucast (packet ! (i + 1)) :: u16);
          be32 = \<lambda>i. push_bit 16 (ucast (be16 i)) OR (ucast (be16 (i + 2)) :: u32);
          ether_type = be16 12
      in assert_then (14 \<le> length packet)
        (if ether_type = ETHERTYPE_IP then assert_then (34 \<le> length packet) (Some (Addresses (be32 26) (be32 30)))
         else if ether_type = 0x4331 then
           assert_then (17 \<le> length packet)
             (Some (Results (ucast (drop_bit 5 (packet ! 14))) (ucast (packet ! 14)) (packet ! 15) (packet ! 16)))
         else if ether_type = ETHERTYPE_FMS then Some Command
         else Some Unknown))"

section \<open>Buffers\<close>

lemma length_put [simp]: "off + length bs \<le> length buf \<Longrightarrow> length (put off bs buf) = length buf"
  by (simp add: put_def)

lemma take_put: "off + length bs \<le> length buf \<Longrightarrow> n = off + length bs \<Longrightarrow> take n (put off bs buf) = take off buf @ bs"
  by (simp add: put_def)

lemma take_put_within: "off + length bs \<le> length buf \<Longrightarrow> off \<le> n \<Longrightarrow> n \<le> off + length bs \<Longrightarrow>
    take n (put off bs buf) = take off buf @ take (n - off) bs"
  by (simp add: put_def min_absorb2)

lemma length_be_bytes16 [simp]: "length (be_bytes16 w) = 2"
  by (simp add: be_bytes16_def)

lemma length_concat_be_bytes16 [simp]: "length (concat (map be_bytes16 ws)) = 2 * length ws"
  by (induction ws) simp_all

lemma length_parts [simp]:
  "length ether_header = 14" "length eval_str = 64" "length (ip_chksum ws) = length ws" "length ip_header = 10" "length udp_header = 4"
  "length (xfd_bytes h) = 16"
  by (simp_all add: ether_header_def eval_str_def ip_chksum_def Let_def ip_header_def udp_header_def xfd_bytes_def)

lemma fill_memory_prefix:
  assumes "64 * n \<le> length mem"
  shows "fold (\<lambda>k. put (64 * k) eval_str) [0..<n] mem = concat (replicate n eval_str) @ drop (64 * n) mem"
  using assms
proof (induction n)
  case (Suc n)
  have l: "length (concat (replicate n eval_str)) = 64 * n" by (induction n) simp_all
  have "concat (replicate (Suc n) eval_str) = concat (replicate n eval_str) @ eval_str"
    by (induction n) simp_all
  then show ?case using Suc l by (simp add: put_def)
qed simp

text \<open>The memory of the program is filled with copies of the string, but its last 64 bytes stay zero.\<close>

lemma init_packet_memory_tail:
  "init_packet_memory None False (64 * Suc n) = Some (NLM_OK, concat (replicate n eval_str) @ replicate 64 0)"
  by (simp add: init_packet_memory_def fill_memory_def fill_memory_prefix)

section \<open>The checksum\<close>

lemma fold_chksum:
  assumes "unat c + (\<Sum>w \<leftarrow> ws. unat w) < 2 ^ 32"
  shows "unat (fold (\<lambda>w c. c + ucast w) ws (c :: u32)) = unat c + (\<Sum>w \<leftarrow> ws. unat (w :: u16))"
  using assms
proof (induction ws arbitrary: c)
  case (Cons w ws)
  have u: "unat (ucast w :: u32) = unat w"
    by (simp add: unsigned_ucast_eq take_bit_nat_eq_self order.strict_trans [OF unsigned_less])
  then have "unat (c + ucast w) = unat c + unat w" using Cons.prems by (simp add: unat_word_ariths(1))
  then show ?case using Cons by simp
qed simp

lemma complement_mod:
  fixes x :: nat assumes "x < 4294967296" shows "(4294967295 - x) mod 65536 = 65535 - x mod 65536"
proof -
  define q r where "q = x div 65536" and "r = x mod 65536"
  have x: "x = 65536 * q + r" and r: "r < 65536" by (simp_all add: q_def r_def)
  have "q < 65536" using x assms by linarith
  then have "4294967295 - x = (65535 - r) + 65536 * (65535 - q)" using x r by linarith
  then have "(4294967295 - x) mod 65536 = 65535 - r" by (simp only: mod_mult_self2) simp
  then show ?thesis by (simp add: r_def)
qed

lemma fold_twice:
  fixes s :: nat assumes "s < 0xf0000"
  defines "d \<equiv> s div 65536 + s mod 65536"
  shows "(65535 - (d + d div 65536) mod 65536 + s) mod 65535 = 0"
proof -
  define q r where "q = s div 65536" and "r = s mod 65536"
  have s: "s = 65536 * q + r" and r: "r < 65536" by (simp_all add: q_def r_def)
  have q: "q < 15" using s assms(1) by linarith
  have d: "d = q + r" by (simp add: d_def q_def r_def)
  show ?thesis
  proof (cases "d < 65536")
    case True
    then have "65535 - (d + d div 65536) mod 65536 + s = 65535 * (q + 1)" using d s by simp
    then show ?thesis by (simp only: mod_mult_self1_is_0)
  next
    case False
    then have "d div 65536 = 1" using d q r by (intro div_nat_eqI) simp_all
    moreover have "(d + 1) mod 65536 = d + 1 - 65536" using False d q r by (simp add: mod_if)
    ultimately have "65535 - (d + d div 65536) mod 65536 + s = 65535 * (q + 2)" using False d q r s by simp
    then show ?thesis by (simp only: mod_mult_self1_is_0)
  qed
qed

lemma folded_sum:
  fixes c :: u32 assumes "unat c < 0xf0000"
  defines "d \<equiv> drop_bit 16 c + (c AND 0xffff)" defines "e \<equiv> d + drop_bit 16 d"
  shows "(unat (ucast (NOT e AND 0xffff) :: u16) + unat c) mod 65535 = 0"
proof -
  have m: "unat (x AND 0xffff) = unat x mod 65536" for x :: u32 using unat_and_mask [of x 16] by (simp add: mask_eq_exp_minus_1)
  have q: "unat (drop_bit 16 x) = unat x div 65536" for x :: u32 by (simp only: unat_drop_bit_eq) (simp add: drop_bit_eq_div)
  have d: "unat d = unat c div 65536 + unat c mod 65536" using assms(1) by (simp add: d_def unat_word_ariths(1) m q)
  have e: "unat e = unat d + unat d div 65536" using assms(1) d by (simp add: e_def unat_word_ariths(1) q)
  have "unat (NOT e AND 0xffff) = 65535 - unat e mod 65536"
  proof -
    have "NOT e = - 1 - e" by (simp add: not_eq_complement)
    moreover have "unat (- 1 - e) = unat (- 1 :: u32) - unat e" by (rule unat_sub) simp
    moreover have "unat (- 1 :: u32) = 4294967295" by (simp add: unsigned_minus_1_eq_mask mask_eq_exp_minus_1)
    ultimately have "unat (NOT e) = 4294967295 - unat e" by simp
    then show ?thesis using m [of "NOT e"] complement_mod [of "unat e"] unsigned_less [of e, where ?'a = nat] by simp
  qed
  moreover have "unat (ucast (NOT e AND 0xffff) :: u16) = unat (NOT e AND 0xffff)"
    using calculation by (simp add: unsigned_ucast_eq take_bit_nat_eq_self)
  ultimately have v: "unat (ucast (NOT e AND 0xffff) :: u16) = 65535 - unat e mod 65536" by (rule trans [rotated])
  show ?thesis unfolding v e d by (rule fold_twice [OF assms(1)])
qed

lemma sum_words: "(\<Sum>w \<leftarrow> ws. unat (w :: u16)) \<le> 65535 * length ws"
proof (induction ws)
  case (Cons w ws)
  have "unat w < 65536" using unsigned_less [of w, where ?'a = nat] by simp
  then show ?case using Cons by simp
qed simp

text \<open>A header with its checksum passes the test of a receiver: the one's complement sum of its ten words is zero. Only the
  checksum is changed.\<close>

theorem ip_chksum_correct:
  assumes "length ws = 10"
  shows "(\<Sum>w \<leftarrow> ip_chksum ws. unat w) mod 65535 = 0 \<and> ip_chksum ws = ws[5 := ip_chksum ws ! 5]"
proof -
  define c where "c = fold (\<lambda>w c. c + ucast w) (ws[5 := 0]) (0 :: u32)"
  define x :: u16 where "x = ucast (NOT (drop_bit 16 c + (c AND 0xffff) + drop_bit 16 (drop_bit 16 c + (c AND 0xffff))) AND 0xffff)"
  have r: "ip_chksum ws = ws[5 := x]" using assms by (simp add: ip_chksum_def Let_def x_def c_def)
  have b: "(\<Sum>w \<leftarrow> ws[5 := 0]. unat w) \<le> 655350" using sum_words [of "ws[5 := 0]"] assms by simp
  then have c: "unat c = (\<Sum>w \<leftarrow> ws[5 := 0]. unat w)" using fold_chksum [of 0 "ws[5 := 0]"] by (simp add: c_def)
  have "(\<Sum>w \<leftarrow> ws[5 := x]. unat w) = (\<Sum>w \<leftarrow> ws[5 := 0]. unat w) + unat x"
    using sum_list_update_nat [of 5 "map unat (ws[5 := 0])" "unat x"] assms by (simp add: map_update)
  moreover have "(unat x + unat c) mod 65535 = 0" unfolding x_def by (rule folded_sum) (use b c in simp)
  ultimately show ?thesis using r c assms by (simp add: add.commute)
qed

lemma ip_chksum_correct_witness: "(\<Sum>w \<leftarrow> ip_header. unat w) mod 65535 = 0"
  using ip_chksum_correct [of "[0x4500, 20 + 8 + 64, 1, 0, push_bit 8 128 OR IP_PROTO_UDP, 0, 0xc0a8, 0x2115, 0xc0a8, 0x3869]"]
  by (simp add: ip_header_def)

section \<open>Reading a frame\<close>

text \<open>What the device finds in a command header, from the layout of \<^verbatim>\<open>struct fms_xfd\<close>: the groups are packed in pairs of three bytes.\<close>

record command =
  cm_flow_type :: "3 word"
  cm_anchors :: "bool \<times> bool"
  cm_gids :: "u16 list"
  cm_h_offset :: u8
  cm_pad_cnt :: u8
  cm_cookie :: u8
  cm_pdf_index :: u32

definition join_gid :: "4 word \<Rightarrow> u8 \<Rightarrow> u16" where
  "join_gid hi lo = push_bit 8 (ucast hi) OR ucast lo"

definition read_gid :: "u8 list \<Rightarrow> nat \<Rightarrow> u16" where
  "read_gid x i = (let b = 7 + 3 * (i div 2) in
     join_gid (if even i then ucast (x ! b) else ucast (drop_bit 4 (x ! b))) (x ! (b + 1 + i mod 2)))"

definition read_command :: "u8 list \<Rightarrow> command \<times> u8 list" where
  "read_command x =
     (let n = unat (ucast (x ! 0) :: 3 word) in
      (\<lparr>cm_flow_type = ucast (drop_bit 5 (x ! 0)), cm_anchors = (bit (x ! 0) 4, bit (x ! 0) 3), cm_gids = map (read_gid x) [0..<n],
        cm_h_offset = x ! 1, cm_pad_cnt = x ! 2, cm_cookie = x ! 3,
        cm_pdf_index = push_bit 16 (ucast (x ! 4)) OR push_bit 8 (ucast (x ! 5)) OR ucast (x ! 6)\<rparr>,
       drop (7 + n + (n + 1) div 2) x))"

lemma first_byte:
  fixes t :: "3 word" and e s :: "1 word" and n :: "3 word"
  defines "b \<equiv> (push_bit 5 (ucast t) OR push_bit 4 (ucast e) OR push_bit 3 (ucast s) OR ucast n :: u8)"
  shows "ucast (drop_bit 5 b) = t" "bit b 4 = bit e 0" "bit b 3 = bit s 0" "ucast b = n"
proof -
  show "ucast (drop_bit 5 b) = t" unfolding b_def by (rule bit_word_eqI) (auto simp: bit_simps dest: bit_imp_le_length)
  show "bit b 4 = bit e 0" "bit b 3 = bit s 0" unfolding b_def by (auto simp: bit_simps dest: bit_imp_le_length)
  show "ucast b = n" unfolding b_def by (rule bit_word_eqI) (auto simp: bit_simps dest: bit_imp_le_length)
qed

lemma nibbles:
  fixes h l :: "4 word" defines "b \<equiv> (push_bit 4 (ucast h) OR ucast l :: u8)"
  shows "ucast b = l" "ucast (drop_bit 4 b) = h"
  unfolding b_def by (rule bit_word_eqI; auto simp: bit_simps dest: bit_imp_le_length)+

lemma join_split_gid: "unat g < 4096 \<Longrightarrow> join_gid (ucast (drop_bit 8 g AND 0xf)) (ucast (g AND 0xff)) = g"
proof -
  assume g: "unat g < 4096"
  have m: "(0xf :: u16) = mask 4" "(0xff :: u16) = mask 8" by (simp_all add: mask_eq_exp_minus_1)
  have "take_bit 12 g = g" using g by (simp add: word_unat_eq_iff unsigned_take_bit_eq take_bit_nat_eq_self)
  then have z: "k < 12" if "bit g k" for k using that by (metis bit_take_bit_iff)
  have "n - 8 < 4" if "bit g n" "8 \<le> n" for n using z [OF that(1)] that(2) by linarith
  then show ?thesis unfolding join_gid_def m
    by (intro bit_word_eqI) (auto simp: bit_simps not_less)
qed

lemma read_gid_xfd: "i < 6 \<Longrightarrow> read_gid (xfd_bytes h) i = join_gid (xf_gid_hi h ! i) (xf_gid_lo h ! i)"
proof -
  assume "i < 6"
  then have "i = 0 \<or> i = 1 \<or> i = 2 \<or> i = 3 \<or> i = 4 \<or> i = 5" by arith
  then show ?thesis by (elim disjE) (simp_all add: read_gid_def xfd_bytes_def Let_def nibbles nibbles(2) [unfolded drop_bit_or])
qed

lemma read_gid_prefix:
  assumes "i < n" and "7 + n + (n + 1) div 2 \<le> length x"
  shows "read_gid (take (7 + n + (n + 1) div 2) x @ rest) i = read_gid x i"
proof -
  have "i div 2 + 1 \<le> (n + 1) div 2" using div_le_mono [of "i + 2" "n + 1" 2] assms(1) by simp
  moreover have "i = 2 * (i div 2) + i mod 2" by simp
  ultimately have "7 + 3 * (i div 2) + 1 + i mod 2 < 7 + n + (n + 1) div 2" "7 + 3 * (i div 2) < 7 + n + (n + 1) div 2"
    using assms(1) by linarith+
  then show ?thesis using assms(2) by (simp add: read_gid_def Let_def nth_append)
qed

lemma xfd_length_eq: "unat w \<le> 6 \<Longrightarrow> xfd_length w = 7 + unat w + (unat w + 1) div 2"
proof -
  assume "unat w \<le> 6"
  then have "unat w = 0 \<or> unat w = 1 \<or> unat w = 2 \<or> unat w = 3 \<or> unat w = 4 \<or> unat w = 5 \<or> unat w = 6" by arith
  then have "w = 0 \<or> w = 1 \<or> w = 2 \<or> w = 3 \<or> w = 4 \<or> w = 5 \<or> w = 6" by (simp add: word_unat_eq_iff)
  then show ?thesis by (elim disjE) (simp_all add: xfd_length_def)
qed

text \<open>Reading a header back.\<close>

lemma read_command_xfd:
  assumes n: "n = unat (xf_gid_cnt h)" "n \<le> 6"
  shows "read_command (take (xfd_length (xf_gid_cnt h)) (xfd_bytes h) @ rest) =
    (\<lparr>cm_flow_type = xf_flow_type h, cm_anchors = (bit (xf_end_anchor h) 0, bit (xf_start_anchor h) 0),
      cm_gids = map (\<lambda>i. join_gid (xf_gid_hi h ! i) (xf_gid_lo h ! i)) [0..<n], cm_h_offset = xf_h_offset h, cm_pad_cnt = xf_pad_cnt h,
      cm_cookie = xf_cookie h,
      cm_pdf_index = push_bit 16 (ucast (xf_pdf_index_hi h)) OR push_bit 8 (ucast (xf_pdf_index_mi h)) OR ucast (xf_pdf_index_lo h)\<rparr>, rest)"
proof -
  define k where "k = 7 + n + (n + 1) div 2"
  have k: "xfd_length (xf_gid_cnt h) = k" "7 \<le> k" "k \<le> 16" using xfd_length_eq [of "xf_gid_cnt h"] n by (simp_all add: k_def)
  define x where "x = take k (xfd_bytes h) @ rest"
  have nth: "x ! i = xfd_bytes h ! i" if "i < 7" for i using that k(2) by (simp add: x_def nth_append k(3) min_absorb2)
  have b: "x ! 0 = push_bit 5 (ucast (xf_flow_type h)) OR push_bit 4 (ucast (xf_end_anchor h)) OR push_bit 3 (ucast (xf_start_anchor h)) OR
      ucast (xf_gid_cnt h)" "x ! 1 = xf_h_offset h" "x ! 2 = xf_pad_cnt h" "x ! 3 = xf_cookie h" "x ! 4 = xf_pdf_index_hi h"
    "x ! 5 = xf_pdf_index_mi h" "x ! 6 = xf_pdf_index_lo h"
    by (simp_all add: nth) (simp_all add: xfd_bytes_def Let_def)
  have cnt: "unat (ucast (x ! 0) :: 3 word) = n" unfolding b first_byte by (simp add: n(1))
  have "read_gid x i = join_gid (xf_gid_hi h ! i) (xf_gid_lo h ! i)" if "i < n" for i
    using read_gid_prefix [OF that, of "xfd_bytes h" rest] read_gid_xfd [of i h] that n(2) k(3) by (simp add: x_def k_def)
  then have "map (read_gid x) [0..<n] = map (\<lambda>i. join_gid (xf_gid_hi h ! i) (xf_gid_lo h ! i)) [0..<n]"
    by simp
  moreover have "drop k x = rest" using k(3) by (simp add: x_def)
  ultimately show ?thesis unfolding k(1) x_def [symmetric] read_command_def Let_def cnt k_def [symmetric] unfolding b first_byte by simp
qed

section \<open>The frames of a flow\<close>

lemma frame_bytes:
  assumes h: "h = fms_hdr_of flow_type flow" and n: "unat (xf_gid_cnt h) \<le> 6" and b: "build_packet flow_type flow = (packet, len)"
  shows "take len (packet[17 := v]) = ether_header @ take (xfd_length (xf_gid_cnt h)) (xfd_bytes (h\<lparr>xf_cookie := v\<rparr>)) @
    be_bytes16 ETHERTYPE_IP @ concat (map be_bytes16 ip_header) @ concat (map be_bytes16 udp_header) @ eval_str"
proof -
  define k where "k = xfd_length (xf_gid_cnt h)"
  have k: "7 \<le> k" "k \<le> 16" using xfd_length_eq [OF n] n by (simp_all add: k_def)
  define p0 where "p0 = put 0 ether_header (replicate 1500 0)"
  define p1 where "p1 = put 14 (xfd_bytes h) p0"
  define p2 where "p2 = put (14 + k) (be_bytes16 ETHERTYPE_IP) p1"
  define p3 where "p3 = put (14 + k + 2) (concat (map be_bytes16 ip_header)) p2"
  define p4 where "p4 = put (14 + k + 22) (concat (map be_bytes16 udp_header)) p3"
  have pl: "packet = put (14 + k + 30) eval_str p4" "len = 14 + k + 94"
    using b unfolding build_packet_def Let_def h [symmetric] k_def [symmetric] p0_def [symmetric] p1_def [symmetric] p2_def [symmetric]
      p3_def [symmetric] p4_def [symmetric] by simp_all
  have l0: "length p0 = 1500" by (simp add: p0_def)
  have l1: "length p1 = 1500" using l0 by (simp add: p1_def)
  have l2: "length p2 = 1500" using l1 k by (simp add: p2_def)
  have l3: "length p3 = 1500" using l2 k by (simp add: p3_def)
  have l4: "length p4 = 1500" using l3 k by (simp add: p4_def)
  have t0: "take 14 p0 = ether_header" by (simp add: p0_def take_put)
  have t1: "take (14 + k) p1 = ether_header @ take k (xfd_bytes h)" using take_put_within [of 14 "xfd_bytes h" p0 "14 + k"] l0 k t0 by (simp add: p1_def)
  have t2: "take (14 + k + 2) p2 = ether_header @ take k (xfd_bytes h) @ be_bytes16 ETHERTYPE_IP"
    unfolding p2_def using l1 k t1 by (subst take_put) simp_all
  have t3: "take (14 + k + 22) p3 = ether_header @ take k (xfd_bytes h) @ be_bytes16 ETHERTYPE_IP @ concat (map be_bytes16 ip_header)"
    unfolding p3_def using l2 k t2 by (subst take_put) simp_all
  have t4: "take (14 + k + 30) p4 = ether_header @ take k (xfd_bytes h) @ be_bytes16 ETHERTYPE_IP @ concat (map be_bytes16 ip_header) @
      concat (map be_bytes16 udp_header)"
    unfolding p4_def using l3 k t3 by (subst take_put) simp_all
  have t5: "take len packet = ether_header @ take k (xfd_bytes h) @ be_bytes16 ETHERTYPE_IP @ concat (map be_bytes16 ip_header) @
      concat (map be_bytes16 udp_header) @ eval_str"
    unfolding pl using l4 k t4 by (subst take_put) simp_all
  have "xfd_bytes (h\<lparr>xf_cookie := v\<rparr>) = (xfd_bytes h)[3 := v]" by (simp add: xfd_bytes_def Let_def)
  then show ?thesis unfolding k_def [symmetric] take_update_swap t5 using k
    by (simp add: list_update_append take_update_swap)
qed

lemma group_id_bound: "groups_ok f \<Longrightarrow> x \<in> set (group_ids f) \<Longrightarrow> unat x < 4096"
proof -
  assume "groups_ok f" "x \<in> set (group_ids f)"
  then obtain d g where v: "valid_pair d g" and x: "x = ucast (MUX_DB_GID d g)" unfolding groups_ok_def by blast
  have "unat (MUX_DB_GID d g) div 1024 = unat d"
    using arg_cong [OF mux_parts(2) [OF v], of unat] by (simp only: unat_drop_bit_eq) (simp add: drop_bit_eq_div)
  moreover have "unat d \<le> 3" using v by (simp add: valid_pair_def NLM_MAX_DATABASE_ID_def word_le_nat_alt)
  ultimately have "unat (MUX_DB_GID d g) < 4096" by linarith
  moreover have "unat (ucast (MUX_DB_GID d g) :: u16) \<le> unat (MUX_DB_GID d g)" by (simp add: unsigned_ucast_eq)
  ultimately show ?thesis using x by simp
qed

lemma fms_hdr_sel:
  assumes f: "groups_ok flow" and ft: "flow_type \<in> {FMS_FLOW_INIT, FMS_FLOW_STATELESS, FMS_FLOW_STATEFUL}"
  defines "h \<equiv> fms_hdr_of flow_type flow" and "gs \<equiv> (if flow_type = FMS_FLOW_INIT then [] else group_ids flow)"
  shows "xf_flow_type h = flow_type" "bit (xf_end_anchor h) 0 = (flow_type = FMS_FLOW_STATELESS)"
    "bit (xf_start_anchor h) 0 = (flow_type = FMS_FLOW_STATELESS)" "xf_h_offset h = 2" "xf_pad_cnt h = 0"
    "push_bit 16 (ucast (xf_pdf_index_hi h)) OR push_bit 8 (ucast (xf_pdf_index_mi h)) OR ucast (xf_pdf_index_lo h) =
      (if flow_type = FMS_FLOW_STATEFUL then fl_pdf_index flow AND 0xffffff else 0)"
    "unat (xf_gid_cnt h) = length gs" "length gs \<le> 6"
    "map (\<lambda>i. join_gid (xf_gid_hi h ! i) (xf_gid_lo h ! i)) [0..<length gs] = gs"
proof -
  note ne = FMS_FLOW_INIT_def FMS_FLOW_STATELESS_def FMS_FLOW_STATEFUL_def
  note kd = h_def fms_hdr_of_def xfd_groups_def xfd_kind_def Let_def xfd_zero_def
  have sel: "xf_flow_type h = flow_type" "xf_end_anchor h = of_bool (flow_type = FMS_FLOW_STATELESS)"
    "xf_start_anchor h = of_bool (flow_type = FMS_FLOW_STATELESS)" "xf_h_offset h = 2" "xf_pad_cnt h = 0"
    "xf_gid_cnt h = (if flow_type = FMS_FLOW_INIT then 0 else ucast (fl_db_group_cnt flow))"
    using ft by (auto simp: kd ne)
  then show "xf_flow_type h = flow_type" "bit (xf_end_anchor h) 0 = (flow_type = FMS_FLOW_STATELESS)"
    "bit (xf_start_anchor h) 0 = (flow_type = FMS_FLOW_STATELESS)" "xf_h_offset h = 2" "xf_pad_cnt h = 0"
    by simp_all
  have pdf: "xf_pdf_index_hi h = (if flow_type = FMS_FLOW_STATEFUL then ucast (drop_bit 16 (fl_pdf_index flow) AND 0xff) else 0)"
    "xf_pdf_index_mi h = (if flow_type = FMS_FLOW_STATEFUL then ucast (drop_bit 8 (fl_pdf_index flow) AND 0xff) else 0)"
    "xf_pdf_index_lo h = (if flow_type = FMS_FLOW_STATEFUL then ucast (fl_pdf_index flow AND 0xff) else 0)"
    using ft by (auto simp: kd ne)
  have m: "(0xff :: u32) = mask 8" "(0xffffff :: u32) = mask 24" by (simp_all add: mask_eq_exp_minus_1)
  show "push_bit 16 (ucast (xf_pdf_index_hi h)) OR push_bit 8 (ucast (xf_pdf_index_mi h)) OR ucast (xf_pdf_index_lo h) =
      (if flow_type = FMS_FLOW_STATEFUL then fl_pdf_index flow AND 0xffffff else 0)"
  proof -
    have "k - 8 < 8" if "bit w k" "\<not> bit w (16 + (k - 16))" "\<not> k < 8" for k and w :: u32 using that by (cases "k < 16") auto
    then show ?thesis unfolding pdf m by (intro bit_word_eqI) (auto simp: bit_simps)
  qed
  have six: "unat (fl_db_group_cnt flow) \<le> 6" "length (fl_db_group_id flow) = 6" using f unfolding groups_ok_def by blast+
  then show l: "length gs \<le> 6" by (simp add: gs_def group_ids_def)
  have "unat (ucast (fl_db_group_cnt flow) :: 3 word) = unat (fl_db_group_cnt flow)"
    using six(1) by (simp add: unsigned_ucast_eq take_bit_nat_eq_self)
  then show c: "unat (xf_gid_cnt h) = length gs" unfolding sel(6) gs_def using six by (simp add: group_ids_def)
  have "join_gid (xf_gid_hi h ! i) (xf_gid_lo h ! i) = gs ! i" if i: "i < length gs" for i
  proof -
    have nz: "flow_type \<noteq> FMS_FLOW_INIT" using i by (auto simp: gs_def)
    have g: "gs ! i = fl_db_group_id flow ! i" using i nz by (simp add: gs_def group_ids_def)
    have n: "unat (xf_gid_cnt ((xfd_kind flow_type flow)\<lparr>xf_h_offset := 2, xf_pad_cnt := 0, xf_cookie := 0\<rparr>)) = length gs"
      using c nz ft unfolding sel(6) by (auto simp: xfd_kind_def ne)
    have b: "\<not> (length gs = 0 \<or> 6 < length gs)" using i l by auto
    have "xf_gid_hi h ! i = ucast (drop_bit 8 (fl_db_group_id flow ! i) AND 0xf)" "xf_gid_lo h ! i = ucast (fl_db_group_id flow ! i AND 0xff)"
      unfolding h_def fms_hdr_of_def xfd_groups_def Let_def n if_not_P [OF b] using i by (simp_all add: nth_append)
    moreover have "unat (gs ! i) < 4096" using group_id_bound [OF f, of "gs ! i"] i nz by (simp add: gs_def)
    ultimately show ?thesis using join_split_gid [of "fl_db_group_id flow ! i"] g by simp
  qed
  then show "map (\<lambda>i. join_gid (xf_gid_hi h ! i) (xf_gid_lo h ! i)) [0..<length gs] = gs" by (intro nth_equalityI) simp_all
qed

text \<open>C30. packet_tx sends one frame for an initialisation and 32 otherwise. For a flow with a sound set of groups, each frame
  starts with the fixed Ethernet header, and the device that reads the command header by its layout finds the type of the flow, both anchors exactly
  for a stateless flow, exactly the groups of the flow in their order (none for an initialisation), the number of the frame as cookie, and
  for a stateful flow the low 24 bits of its index; behind the header, whose length depends on the number of groups,
  follow the IP type, the IP and UDP headers and the string.\<close>

theorem packet_tx_frames:
  assumes f: "groups_ok flow" and ft: "flow_type \<in> {FMS_FLOW_INIT, FMS_FLOW_STATELESS, FMS_FLOW_STATEFUL}"
    and tx: "packet_tx True flow_type flow = (st, frames)"
  shows "st = NLM_OK \<and> length frames = (if flow_type = FMS_FLOW_INIT then 1 else 32) \<and>
    (\<forall>i < length frames. take 14 (frames ! i) = ether_header \<and>
       read_command (drop 14 (frames ! i)) =
         (\<lparr>cm_flow_type = flow_type, cm_anchors = (flow_type = FMS_FLOW_STATELESS, flow_type = FMS_FLOW_STATELESS),
           cm_gids = (if flow_type = FMS_FLOW_INIT then [] else group_ids flow), cm_h_offset = 2, cm_pad_cnt = 0,
           cm_cookie = word_of_nat i, cm_pdf_index = (if flow_type = FMS_FLOW_STATEFUL then fl_pdf_index flow AND 0xffffff else 0)\<rparr>,
          be_bytes16 ETHERTYPE_IP @ concat (map be_bytes16 ip_header) @ concat (map be_bytes16 udp_header) @ eval_str))"
proof -
  obtain packet len where b: "build_packet flow_type flow = (packet, len)" by (cases "build_packet flow_type flow")
  let ?h = "fms_hdr_of flow_type flow" and ?gs = "if flow_type = FMS_FLOW_INIT then [] else group_ids flow" and ?n = "if flow_type = FMS_FLOW_INIT then 1 else PACKETS"
  note s = fms_hdr_sel [OF f ft]
  have n: "unat (xf_gid_cnt ?h) \<le> 6" using s(7,8) by simp
  have fr: "st = NLM_OK" "frames = map (\<lambda>i. take len (packet[17 := word_of_nat i])) [0..<?n]"
    using tx b by (auto simp: packet_tx_def)
  have one: "take 14 (take len (packet[17 := word_of_nat i])) = ether_header \<and>
      read_command (drop 14 (take len (packet[17 := word_of_nat i]))) =
         (\<lparr>cm_flow_type = flow_type, cm_anchors = (flow_type = FMS_FLOW_STATELESS, flow_type = FMS_FLOW_STATELESS),
           cm_gids = (if flow_type = FMS_FLOW_INIT then [] else group_ids flow), cm_h_offset = 2, cm_pad_cnt = 0,
           cm_cookie = word_of_nat i, cm_pdf_index = (if flow_type = FMS_FLOW_STATEFUL then fl_pdf_index flow AND 0xffffff else 0)\<rparr>,
          be_bytes16 ETHERTYPE_IP @ concat (map be_bytes16 ip_header) @ concat (map be_bytes16 udp_header) @ eval_str)" for i :: nat
  proof -
    have g: "length ?gs = unat (xf_gid_cnt (?h\<lparr>xf_cookie := word_of_nat i\<rparr>))" using s(7) by simp
    have "xf_gid_cnt (?h\<lparr>xf_cookie := word_of_nat i\<rparr>) = xf_gid_cnt ?h" by simp
    with read_command_xfd [OF g s(8)] show ?thesis unfolding frame_bytes [OF refl n b] by (simp add: s)
  qed
  have nth: "frames ! i = take len (packet[17 := word_of_nat i])" if "i < length frames" for i using that unfolding fr(2) by simp
  show ?thesis using one nth by (simp add: fr PACKETS_def)
qed

definition sample_flow :: nlm_flow where
  "sample_flow = flow_zero\<lparr>fl_db_group_id := [1029, 7, 0, 0, 0, 0], fl_db_group_cnt := 2\<rparr>"

lemma sample_flow_ok: "groups_ok sample_flow" "group_ids sample_flow = [1029, 7]"
proof -
  show ids: "group_ids sample_flow = [1029, 7]" by (simp add: group_ids_def sample_flow_def flow_zero_def)
  have "(1029 :: u16) = ucast (MUX_DB_GID 1 5)" "(7 :: u16) = ucast (MUX_DB_GID 0 7)" "valid_pair 1 5" "valid_pair 0 7"
    by (simp_all add: MUX_DB_GID_def NLM_MAX_DATABASE_ID_def NLM_MAX_GROUP_ID_def valid_pair_def)
  then have "\<forall>x \<in> set (group_ids sample_flow). \<exists>d g. valid_pair d g \<and> x = ucast (MUX_DB_GID d g)"
    unfolding ids by auto
  moreover have "replicate 4 (0 :: u16) = [0, 0, 0, 0]" by (simp add: numeral_eq_Suc)
  ultimately show "groups_ok sample_flow" unfolding groups_ok_def ids by (simp add: sample_flow_def flow_zero_def)
qed

lemma packet_tx_frames_witness:
  "\<exists>frames. packet_tx True FMS_FLOW_STATELESS sample_flow = (NLM_OK, frames) \<and> length frames = 32 \<and>
    cm_gids (fst (read_command (drop 14 (frames ! 31)))) = [1029, 7] \<and> cm_cookie (fst (read_command (drop 14 (frames ! 31)))) = 31"
proof -
  obtain st frames where tx: "packet_tx True FMS_FLOW_STATELESS sample_flow = (st, frames)"
    by (cases "packet_tx True FMS_FLOW_STATELESS sample_flow")
  have "FMS_FLOW_STATELESS \<noteq> FMS_FLOW_INIT" by (simp add: FMS_FLOW_STATELESS_def FMS_FLOW_INIT_def)
  with packet_tx_frames [OF sample_flow_ok(1) _ tx] show ?thesis using tx sample_flow_ok(2) by simp
qed

text \<open>The length in the UDP header covers 32 bytes of data, but 64 bytes follow it, as the IP header says.\<close>

lemma udp_length_short:
  "unat (udp_header ! 2) = 8 + 32" "2 * length udp_header + length eval_str = 8 + 64"
  "unat (ip_header ! 1) = 2 * length ip_header + (2 * length udp_header + length eval_str)"
  by (simp_all add: udp_header_def DATA_LEN_def ip_header_def ip_chksum_def Let_def)

text \<open>The program ignores its own frames when it receives them.\<close>

lemma callback_own:
  assumes "groups_ok flow" and "flow_type \<in> {FMS_FLOW_INIT, FMS_FLOW_STATELESS, FMS_FLOW_STATEFUL}"
    and "frame \<in> set (snd (packet_tx True flow_type flow))"
  shows "callback frame = Some Command"
proof -
  obtain packet len where b: "build_packet flow_type flow = (packet, len)" by (cases "build_packet flow_type flow")
  have n: "unat (xf_gid_cnt (fms_hdr_of flow_type flow)) \<le> 6" using fms_hdr_sel(7,8) [OF assms(1,2)] by simp
  obtain v where "frame = take len (packet[17 := v])" using assms(3) b by (auto simp: packet_tx_def split: if_splits)
  then obtain r where r: "frame = ether_header @ r" using frame_bytes [OF refl n b] by metis
  have "frame ! i = ether_header ! i" if "i < 14" for i using that unfolding r by (simp add: nth_append)
  then have "frame ! 12 = 0x43" "frame ! 13 = 0x21" "14 \<le> length frame"
    using r by (simp_all add: ether_header_def be_bytes16_def ETHERTYPE_FMS_def)
  then show ?thesis by (simp add: callback_def Let_def ETHERTYPE_IP_def ETHERTYPE_FMS_def)
qed

section \<open>Accepted options\<close>

definition settings_ok :: "settings \<Rightarrow> bool" where
  "settings_ok s \<longleftrightarrow> flag_group_id s \<noteq> 0 \<and> flag_group_id s \<le> 1023 \<and> num_of_copies s \<le> 4 \<and>
     min_packet_size s \<noteq> 0 \<and> min_packet_size s \<le> 65535 \<and> max_packet_size s \<noteq> 0 \<and> max_packet_size s \<le> 65535 \<and>
     attached_ring_id s \<le> 3 \<and> (\<not> do_attach s \<longrightarrow> attached_ring_id s = 0)"

lemma process_option_ok: "process_option opt s = Some s' \<Longrightarrow> settings_ok s \<Longrightarrow> settings_ok s'"
  by (cases opt) (auto simp: process_option_def settings_ok_def Let_def not_less split: if_splits)

lemma process_options_ok: "process_options opts s = Some s' \<Longrightarrow> settings_ok s \<Longrightarrow> settings_ok s'"
  by (induction opts arbitrary: s) (auto dest: process_option_ok split: bind_splits)

text \<open>Whatever the options, the program goes on only with values in their ranges, and with a ring to search on that fits the options: it
  attaches to ring 0 exactly when it is the master as well.\<close>

theorem process_args_safe:
  assumes "process_args opts = Some (s, mode)"
  shows "settings_ok s \<and>
    mode = (if do_attach s then if attached_ring_id s = 0 then RING_MODE_MASTER_AND_ATTACH else RING_MODE_ATTACH_ONLY
            else if is_master s then RING_MODE_MASTER_ONLY else RING_MODE_RUN_ON_MASTER)"
proof -
  have "settings_ok default_settings" by (simp add: settings_ok_def default_settings_def)
  then show ?thesis using assms process_options_ok [of opts default_settings s]
    by (auto simp: process_args_def split: bind_splits if_splits)
qed

lemma process_args_safe_witness:
  "\<exists>s. process_args [(CHR ''m'', []), (CHR ''a'', ''0''), (CHR ''g'', ''17'')] = Some (s, RING_MODE_MASTER_AND_ATTACH) \<and> flag_group_id s = 17 \<and> settings_ok s"
proof -
  have "\<exists>s. process_args [(CHR ''m'', []), (CHR ''a'', ''0''), (CHR ''g'', ''17'')] = Some (s, RING_MODE_MASTER_AND_ATTACH) \<and> flag_group_id s = 17"
    by (simp add: process_args_def process_option_def atoi_def is_space_def default_settings_def Let_def)
  then show ?thesis using process_args_safe by blast
qed

text \<open>Six options that the table and the help of the program list end it with the help text.\<close>

lemma listed_but_refused:
  assumes "opt \<in> {CHR ''D'', CHR ''F'', CHR ''f'', CHR ''L'', CHR ''M'', CHR ''N''}"
  shows "process_args ((opt, x) # opts) = None"
proof -
  have "process_option (opt, x) s = None" for s using assms by (elim insertE emptyE) (simp_all add: process_option_def)
  then show ?thesis by (simp add: process_args_def)
qed

end
