(* ===== verification/Spec2Isabelle.thy ===== *)
theory Spec2Isabelle
  imports Sha2 Loader_Common Formats Dp_Fifo Dp_State Pool Flow Hw_Ring Manager Enqueue Jobs Results Collect Driver_Mem Driver
    Loader_Hw Loader_Fms Loader_Cmd Loader_Ring Loader_Run Loader_Copies Loader_Num Loader_Set Loader_Load Loader_Unload Loader_Async
    Dev_Config Dev_Check Dev_Layout Dev_Areas Dev_Attach Dev_Params Ddr_Train Ddr_Level Ddr_Edges
    Demo_Load Demo_Packet
begin

text \<open>
  A verification development for the data plane library of the NetLogic NETL7 (FAMOS) pattern
  matching processor, \<^verbatim>\<open>src/lib/dataplane\<close>.

  The program. An application thread creates flows, adds groups of rules to them, enqueues
  packets as jobs and starts the jobs; the device scans the packets and writes results, which
  the thread collects. Jobs and flows live in a memory pool of the thread, packet descriptors
  and flow contexts in system memory shared with the device; flow descriptors travel to the
  device in an input ring, result descriptors come back in an output ring. With a manager
  thread, software FIFOs between the threads and the manager stand in front of the two rings.

  The target is the configuration \<^verbatim>\<open>NLM_HW_FMS\<close> on a big-endian 64-bit machine, which fixes the
  sizes of the structures: flow 72 bytes, job 88, packet descriptor 16, context 128. Machine
  integers are words of their width, pointers are integers with \<^verbatim>\<open>NULL\<close> zero, a failed
  assertion or the use of a null pointer is \<^term>\<open>None\<close>.

  The theories:
  \<^item> \<open>Nlm_Prelude\<close>: the word types, the status codes, assertions, lemmas on words and rings.
  \<^item> \<open>Sha2\<close>: the checksum of sha2.c, against a reference that digests block by block.
  \<^item> \<open>Loader_Common\<close>: loader_common.c, the checks of a database image and its record headers.
  \<^item> \<open>Formats\<close>: descriptors, their layout in memory, registers (a write is an entry of the access
    trace, the answer to a read is a parameter), cookies.
  \<^item> \<open>Dp_Fifo\<close>: the lock-free FIFOs of nlm_dp_fifo.h; the interface \<open>bounded_fifo\<close> with both FIFOs as
    instances, and the interleaving of one writer and one reader as a step relation.
  \<^item> \<open>Dp_State\<close>: the physical device, the handle of a thread, flows, jobs; DDR writes of nlm_ddr.c.
  \<^item> \<open>Pool\<close>: the allocators and nlm_create_flow; the interfaces \<open>object_pool\<close> and \<open>lifo_pool\<close>.
  \<^item> \<open>Flow\<close>: the groups of a flow.
  \<^item> \<open>Hw_Ring\<close>: the input ring, again an instance of \<open>bounded_fifo\<close> with the device as the reader.
  \<^item> \<open>Manager\<close>: nlm_manage_input and nlm_manage_output.
  \<^item> \<open>Enqueue\<close>: nlm_flow_enqueue_search and nlm_cancel_job, packet addresses.
  \<^item> \<open>Jobs\<close>: nlm_start_jobs, the queues of packet descriptors, destroying flows.
  \<^item> \<open>Results\<close>, \<open>Collect\<close>: decoding result descriptors, and nlm_get_all_search_results.
  \<^item> \<open>Driver_Mem\<close>, \<open>Driver\<close>: the kernel driver netl7driver.c, which finds memory for the devices,
    keeps the table of devices and lets one process at a time open a device.

  \<^item> \<open>Loader_Hw\<close>, \<open>Loader_Fms\<close>, \<open>Loader_Cmd\<close>: the database loader loader_fms.c: its register macros; images, shadow blocks,
    groups and the group map; the commands, and the operations that queue and execute them.
  \<^item> \<open>Loader_Ring\<close>: the command ring as an instance of \<open>bounded_fifo\<close>; the bookkeeping (\<open>books\<close>) of the loader, the
    effect of every command on it, and the state \<open>settled\<close> after all queued commands.
  \<^item> \<open>Loader_Run\<close>: what the loader relies on in the device (\<open>device_ok\<close>), and that queued tasks are then executed.
  \<^item> \<open>Loader_Copies\<close>, \<open>Loader_Num\<close>: consistent books, where the copies of a block are numbered from 0 on; what
    adding and removing copies plans.
  \<^item> \<open>Loader_Set\<close>, \<open>Loader_Load\<close>, \<open>Loader_Unload\<close>: nlm_device_database_set_num_copies, nlm_device_load_database and
    nlm_device_unload_database on an idle loader. \<open>Loader_Async\<close>: the loader between asynchronous calls.

  \<^item> \<open>Dev_Config\<close>: the configuration of a device, its checks, and the division of the memory pool between the threads.
  \<^item> \<open>Dev_Check\<close>: reset, shutdown and the checks that ask the device: its context ring, the buffers of a XAUI ring, the
    memory areas of the rings, each with what an accepted device is like.
  \<^item> \<open>Dev_Layout\<close>, \<open>Dev_Areas\<close>: bringing up a ring (physical_device_init) step by step; where its areas are.
  \<^item> \<open>Dev_Attach\<close>: nlm_device_init, nlm_device_attach and nlm_device_detach; a thread starts in the state from which
    the theories of the packet operations (\<open>Pool\<close>, \<open>Hw_Ring\<close>, \<open>Manager\<close>, \<open>Jobs\<close>) keep their invariants.
  \<^item> \<open>Dev_Params\<close>: nlm_device_get_param and nlm_device_set_param, on the packet operations and the loader together.

  \<^item> \<open>Ddr_Train\<close>: the settings of the DDR controller and its start (nlm_ddr.c), an instance of the training that
    \<open>Dev_Layout\<close> has as a parameter.
  \<^item> \<open>Ddr_Level\<close>, \<open>Ddr_Edges\<close>: levelling the DDR data lines in software, which the library has but does not call; what
    tuning and bisection find when the controller answers (\<open>ready\<close>), and where levelling fails.

  \<^item> \<open>Demo_Load\<close>, \<open>Demo_Packet\<close>: the program src/dpi_demo.c on top of the library: it loads a database and polls until the
    loader is done, on the model of \<open>Dev_Params\<close>; its options, and the frames it sends to the XAUI interface, read back by the layout
    of the command header.

  Loops. The outer loop of nlm_manage_input has a measure, the number of waiting jobs. The
  loop over pending flows is a partial function; that it returns is part of the property. So are the
  loops of the loader that wait for the device, execute commands or remove copies: the functional
  properties say that they return, from the promises \<open>device_ok\<close> of the device, and
  \<open>set_num_copies_hangs\<close> says when one does not.
  The device does not move its pointers while an operation runs; between operations it may.

  Not modelled: the device itself, reading DDR memory back (only reached by debugging code behind a return), printing, the MARS variants, locks (an operation is one
  step, except in \<open>spsc_step\<close>), the memory barrier, libpcap, and of the
  demo programs what is not named above.
\<close>

end
